(* ===== verification/Zom_Prelude.thy ===== *)
theory Zom_Prelude
  imports Main
begin

text \<open>
  Shared vocabulary of the development: the HTTP and database errors of the services, the
  state-and-error actions their methods are translated to, the database transaction, the bounded
  retry loops around it, text helpers, and the calculus of preserved invariants that carries the
  component proofs.
\<close>

section \<open>Errors and actions\<close>

text \<open>
  The exceptions that the services throw (NestJS HTTP exceptions, with their message) and the two
  Prisma error codes the code inspects: P2034 (write conflict) and P2002 (unique constraint).
\<close>

datatype error =
    BadRequest string
  | Unauthorized string
  | NotFound string
  | Conflict string
  | Forbidden string
  | Unprocessable string
  | Unavailable string
  | TooMany string
  | WriteConflict
  | UniqueViolation
  | Internal string

text \<open>
  An asynchronous method that reads and writes the database is a function from the state to its
  outcome (\<open>Inl\<close> the exception, \<open>Inr\<close> the returned value) and the state it leaves behind. The
  state survives an exception: only a transaction rolls back.
\<close>

type_synonym ('s, 'a) act = "'s \<Rightarrow> (error + 'a) \<times> 's"

definition ret :: "'a \<Rightarrow> ('s, 'a) act" where
  "ret a = (\<lambda>s. (Inr a, s))"

definition throw :: "error \<Rightarrow> ('s, 'a) act" where
  "throw e = (\<lambda>s. (Inl e, s))"

definition bnd :: "('s, 'a) act \<Rightarrow> ('a \<Rightarrow> ('s, 'b) act) \<Rightarrow> ('s, 'b) act" where
  "bnd m f = (\<lambda>s. case m s of (Inl e, t) \<Rightarrow> (Inl e, t) | (Inr a, t) \<Rightarrow> f a t)"

definition andthen :: "('s, 'a) act \<Rightarrow> ('s, 'b) act \<Rightarrow> ('s, 'b) act" where
  "andthen m k = bnd m (\<lambda>_. k)"

definition reading :: "('s \<Rightarrow> 'a) \<Rightarrow> ('s, 'a) act" where
  "reading f = (\<lambda>s. (Inr (f s), s))"

definition writing :: "('s \<Rightarrow> 's) \<Rightarrow> ('s, unit) act" where
  "writing f = (\<lambda>s. (Inr (), f s))"

definition require :: "bool \<Rightarrow> error \<Rightarrow> ('s, unit) act" where
  "require c e = (if c then ret () else throw e)"

definition found :: "'a option \<Rightarrow> error \<Rightarrow> ('s, 'a) act" where
  "found x e = (case x of None \<Rightarrow> throw e | Some a \<Rightarrow> ret a)"

definition lift_sum :: "error + 'a \<Rightarrow> ('s, 'a) act" where
  "lift_sum r = (\<lambda>s. (r, s))"

text \<open>\<open>for (const x of xs) await f(x)\<close>: left to right, stopping at the first exception.\<close>

fun for_each :: "('a \<Rightarrow> ('s, 'b) act) \<Rightarrow> 'a list \<Rightarrow> ('s, unit) act" where
  "for_each f [] = ret ()"
| "for_each f (x # xs) = andthen (f x) (for_each f xs)"

text \<open>The same loop with an accumulated result (\<open>updated ||= \<dots>\<close>, \<open>count++\<close>).\<close>

fun fold_act :: "('a \<Rightarrow> 'b \<Rightarrow> ('s, 'b) act) \<Rightarrow> 'a list \<Rightarrow> 'b \<Rightarrow> ('s, 'b) act" where
  "fold_act f [] b = ret b"
| "fold_act f (x # xs) b = bnd (f x b) (fold_act f xs)"

text \<open>\<open>prisma.$transaction(work)\<close>: an exception rolls the state back.\<close>

definition transaction :: "('s, 'a) act \<Rightarrow> ('s, 'a) act" where
  "transaction m = (\<lambda>s. case m s of (Inl e, _) \<Rightarrow> (Inl e, s) | (Inr a, t) \<Rightarrow> (Inr a, t))"

section \<open>Invariants of actions\<close>

text \<open>
  \<open>preserves I m\<close>: whatever the outcome, \<open>m\<close> leaves a state in which \<open>I\<close> still holds.
  The rules below let the invariant proof of a handler follow its text.
\<close>

named_theorems preserving

definition preserves :: "('s \<Rightarrow> bool) \<Rightarrow> ('s, 'a) act \<Rightarrow> bool" where
  "preserves I m \<longleftrightarrow> (\<forall>s. I s \<longrightarrow> I (snd (m s)))"

lemma preservesI: "(\<And>s. I s \<Longrightarrow> I (snd (m s))) \<Longrightarrow> preserves I m"
  by (simp add: preserves_def)

lemma preservesD: "preserves I m \<Longrightarrow> I s \<Longrightarrow> I (snd (m s))"
  by (simp add: preserves_def)

lemma preserves_step: "preserves I m \<Longrightarrow> m s = (r, t) \<Longrightarrow> I s \<Longrightarrow> I t"
  by (force simp: preserves_def)

lemma preserves_ret [preserving]: "preserves I (ret a)"
  by (simp add: preserves_def ret_def)

lemma preserves_throw [preserving]: "preserves I (throw e)"
  by (simp add: preserves_def throw_def)

lemma preserves_reading [preserving]: "preserves I (reading f)"
  by (simp add: preserves_def reading_def)

lemma preserves_require [preserving]: "preserves I (require c e)"
  by (simp add: require_def preserves_ret preserves_throw)

lemma preserves_found [preserving]: "preserves I (found x e)"
  by (simp add: found_def preserves_ret preserves_throw split: option.split)

lemma preserves_lift_sum [preserving]: "preserves I (lift_sum r)"
  by (simp add: preserves_def lift_sum_def)

lemma preserves_writing: "(\<And>s. I s \<Longrightarrow> I (f s)) \<Longrightarrow> preserves I (writing f)"
  by (simp add: preserves_def writing_def)

lemma preserves_bnd [preserving]:
  assumes "preserves I m" and "\<And>a. preserves I (f a)"
  shows "preserves I (bnd m f)"
proof (rule preservesI)
  fix s assume "I s"
  with assms(1) have "I (snd (m s))" by (rule preservesD)
  with assms(2) show "I (snd (bnd m f s))"
    by (auto simp: bnd_def preserves_def split: prod.split sum.split)
qed

lemma preserves_andthen [preserving]:
  "preserves I m \<Longrightarrow> preserves I k \<Longrightarrow> preserves I (andthen m k)"
  by (simp add: andthen_def preserves_bnd)

lemma preserves_if [preserving]:
  "(c \<Longrightarrow> preserves I m) \<Longrightarrow> (\<not> c \<Longrightarrow> preserves I k) \<Longrightarrow> preserves I (if c then m else k)"
  by simp

lemma preserves_option [preserving]:
  "(x = None \<Longrightarrow> preserves I m) \<Longrightarrow> (\<And>a. x = Some a \<Longrightarrow> preserves I (k a)) \<Longrightarrow>
   preserves I (case x of None \<Rightarrow> m | Some a \<Rightarrow> k a)"
  by (cases x) auto

lemma preserves_for_each [preserving]:
  "(\<And>x. x \<in> set xs \<Longrightarrow> preserves I (f x)) \<Longrightarrow> preserves I (for_each f xs)"
  by (induction xs) (auto intro: preserves_ret preserves_andthen)

lemma preserves_fold_act [preserving]:
  "(\<And>x b. x \<in> set xs \<Longrightarrow> preserves I (f x b)) \<Longrightarrow> preserves I (fold_act f xs b)"
  by (induction xs arbitrary: b) (auto intro: preserves_ret preserves_bnd)

lemma preserves_transaction [preserving]: "preserves I m \<Longrightarrow> preserves I (transaction m)"
  by (auto simp: preserves_def transaction_def split: prod.split sum.split)

lemma transaction_error: "transaction m s = (Inl e, t) \<Longrightarrow> t = s"
  by (auto simp: transaction_def split: prod.splits sum.splits)

lemma transaction_ok: "transaction m s = (Inr a, t) \<longleftrightarrow> m s = (Inr a, t)"
  by (auto simp: transaction_def split: prod.splits sum.splits)

text \<open>
  What holds after an action that returned normally: the state an exception leaves behind does not
  matter inside a transaction, which discards it. \<open>keeps I m\<close> is the invariant form, and a
  transaction turns it into \<open>preserves\<close>.
\<close>

definition triple :: "('s \<Rightarrow> bool) \<Rightarrow> ('s, 'a) act \<Rightarrow> ('a \<Rightarrow> 's \<Rightarrow> bool) \<Rightarrow> bool" where
  "triple P m Q \<longleftrightarrow> (\<forall>s a t. P s \<longrightarrow> m s = (Inr a, t) \<longrightarrow> Q a t)"

definition keeps :: "('s \<Rightarrow> bool) \<Rightarrow> ('s, 'a) act \<Rightarrow> bool" where
  "keeps I m \<longleftrightarrow> triple I m (\<lambda>_. I)"

named_theorems keeping

lemma tripleI: "(\<And>s a t. P s \<Longrightarrow> m s = (Inr a, t) \<Longrightarrow> Q a t) \<Longrightarrow> triple P m Q"
  by (auto simp: triple_def)

lemma tripleD: "triple P m Q \<Longrightarrow> P s \<Longrightarrow> m s = (Inr a, t) \<Longrightarrow> Q a t"
  by (auto simp: triple_def)

lemma keepsI: "(\<And>s a t. I s \<Longrightarrow> m s = (Inr a, t) \<Longrightarrow> I t) \<Longrightarrow> keeps I m"
  by (auto simp: keeps_def triple_def)

lemma keepsD: "keeps I m \<Longrightarrow> I s \<Longrightarrow> m s = (Inr a, t) \<Longrightarrow> I t"
  by (auto simp: keeps_def triple_def)

lemma bnd_ok: "bnd m f s = (Inr b, u) \<longleftrightarrow> (\<exists>a t. m s = (Inr a, t) \<and> f a t = (Inr b, u))"
  by (auto simp: bnd_def split: prod.splits sum.splits)

lemma andthen_ok: "andthen m k s = (Inr b, u) \<longleftrightarrow> (\<exists>a t. m s = (Inr a, t) \<and> k t = (Inr b, u))"
  by (auto simp: andthen_def bnd_ok)

lemma ret_ok: "ret a s = (Inr b, t) \<longleftrightarrow> b = a \<and> t = s"
  by (auto simp: ret_def)

lemma throw_ok: "throw e s = (Inr b, t) \<longleftrightarrow> False"
  by (auto simp: throw_def)

lemma reading_ok: "reading f s = (Inr b, t) \<longleftrightarrow> b = f s \<and> t = s"
  by (auto simp: reading_def)

lemma writing_ok: "writing f s = (Inr b, t) \<longleftrightarrow> t = f s"
  by (auto simp: writing_def)

lemma require_ok: "require c e s = (Inr b, t) \<longleftrightarrow> c \<and> t = s"
  by (auto simp: require_def ret_def throw_def)

lemma found_ok: "found x e s = (Inr b, t) \<longleftrightarrow> x = Some b \<and> t = s"
  by (auto simp: found_def ret_def throw_def split: option.split)

lemma lift_sum_ok: "lift_sum r s = (Inr b, t) \<longleftrightarrow> r = Inr b \<and> t = s"
  by (auto simp: lift_sum_def)

text \<open>The successful runs of an action, decomposed along its text.\<close>

lemmas run_ok = bnd_ok andthen_ok ret_ok throw_ok reading_ok writing_ok require_ok found_ok
  lift_sum_ok

lemma bndE:
  assumes "bnd m f s = (Inr b, u)" obtains a t where "m s = (Inr a, t)" "f a t = (Inr b, u)"
  using assms unfolding bnd_ok by blast

lemma andthenE:
  assumes "andthen m k s = (Inr b, u)" obtains a t where "m s = (Inr a, t)" "k t = (Inr b, u)"
  using assms unfolding andthen_ok by blast

lemma bnd_readingD: "bnd (reading g) f s = (Inr b, u) \<Longrightarrow> f (g s) s = (Inr b, u)"
  unfolding bnd_ok reading_ok by blast

text \<open>A run, one successful step at a time.\<close>

lemma bnd_run: "m s = (Inr a, t) \<Longrightarrow> bnd m f s = f a t"
  by (simp add: bnd_def)

lemma andthen_run: "m s = (Inr a, t) \<Longrightarrow> andthen m k s = k t"
  by (simp add: andthen_def bnd_def)

lemma transaction_run: "m s = (Inr a, t) \<Longrightarrow> transaction m s = (Inr a, t)"
  by (simp add: transaction_def)

lemma keeps_preserves: "preserves I m \<Longrightarrow> keeps I m"
  by (auto intro!: keepsI dest: preserves_step)

lemma keeps_atoms [keeping]:
  "keeps I (ret a)" "keeps I (throw e)" "keeps I (reading f)" "keeps I (require c e)"
  "keeps I (found x e)" "keeps I (lift_sum r)"
  by (auto intro!: keepsI simp: run_ok)

lemma keeps_writing: "(\<And>s. I s \<Longrightarrow> I (f s)) \<Longrightarrow> keeps I (writing f)"
  by (auto intro!: keepsI simp: run_ok)

lemma keeps_bnd [keeping]:
  assumes "keeps I m" and "\<And>a. keeps I (f a)"
  shows "keeps I (bnd m f)"
proof (rule keepsI)
  fix s b u assume "I s" "bnd m f s = (Inr b, u)"
  then obtain a t where "m s = (Inr a, t)" "f a t = (Inr b, u)" by (auto simp: bnd_ok)
  with \<open>I s\<close> show "I u" using keepsD[OF assms(1)] keepsD[OF assms(2)] by metis
qed

lemma keeps_andthen [keeping]: "keeps I m \<Longrightarrow> keeps I k \<Longrightarrow> keeps I (andthen m k)"
  by (simp add: andthen_def keeps_bnd)

lemma keeps_if [keeping]:
  "(c \<Longrightarrow> keeps I m) \<Longrightarrow> (\<not> c \<Longrightarrow> keeps I k) \<Longrightarrow> keeps I (if c then m else k)"
  by simp

lemma keeps_option [keeping]:
  "(x = None \<Longrightarrow> keeps I m) \<Longrightarrow> (\<And>a. x = Some a \<Longrightarrow> keeps I (k a)) \<Longrightarrow>
   keeps I (case x of None \<Rightarrow> m | Some a \<Rightarrow> k a)"
  by (cases x) auto

lemma keeps_let [keeping]: "(\<And>x. x = v \<Longrightarrow> keeps I (f x)) \<Longrightarrow> keeps I (let x = v in f x)"
  by simp

lemma keeps_for_each [keeping]:
  "(\<And>x. x \<in> set xs \<Longrightarrow> keeps I (f x)) \<Longrightarrow> keeps I (for_each f xs)"
  by (induction xs) (auto intro: keeping)

lemma keeps_fold_act [keeping]:
  "(\<And>x b. x \<in> set xs \<Longrightarrow> keeps I (f x b)) \<Longrightarrow> keeps I (fold_act f xs b)"
  by (induction xs arbitrary: b) (auto intro: keeping)

lemma preserves_transaction_keeps: "keeps I m \<Longrightarrow> preserves I (transaction m)"
  by (auto simp: preserves_def transaction_def split: prod.split sum.split dest: keepsD)

lemma run_result: "fst p = r \<Longrightarrow> p = (r, snd p)"
  by (cases p) simp

text \<open>The equations that run an action on a concrete state.\<close>

lemmas act_defs = ret_def throw_def bnd_def andthen_def reading_def writing_def
  require_def found_def lift_sum_def transaction_def

section \<open>Idempotent operations\<close>

text \<open>
  The contract of every write that carries an idempotency key or a unique constraint: after it
  returned normally its job is \<open>finished\<close>, it stays finished, and running it again changes nothing.
  A whole loop over such jobs is then idempotent as well, which is what the callers that replay a
  webhook, a scan or a cron run rely on.
\<close>

locale keyed_op =
  fixes inv :: "'s \<Rightarrow> bool"
    and run :: "'k \<Rightarrow> ('s, 'a) act"
    and finished :: "'k \<Rightarrow> 's \<Rightarrow> bool"
  assumes marks: "inv s \<Longrightarrow> run k s = (Inr a, t) \<Longrightarrow> finished k t"
    and stable: "inv s \<Longrightarrow> finished k s \<Longrightarrow> run j s = (Inr a, t) \<Longrightarrow> finished k t"
    and replay: "inv s \<Longrightarrow> finished k s \<Longrightarrow> \<exists>a. run k s = (Inr a, s)"
    and keeps_inv: "inv s \<Longrightarrow> run k s = (Inr a, t) \<Longrightarrow> inv t"
begin

lemma batch_stable:
  "inv s \<Longrightarrow> finished k s \<Longrightarrow> for_each run ks s = (Inr u, t) \<Longrightarrow> finished k t \<and> inv t"
proof (induction ks arbitrary: s)
  case Nil then show ?case by (simp add: ret_ok)
next
  case (Cons j js)
  then obtain a v where "run j s = (Inr a, v)" "for_each run js v = (Inr u, t)"
    by (auto simp: run_ok)
  then show ?case using Cons.IH[of v] Cons.prems stable keeps_inv by metis
qed

lemma batch_finishes:
  "inv s \<Longrightarrow> for_each run ks s = (Inr u, t) \<Longrightarrow> inv t \<and> (\<forall>k \<in> set ks. finished k t)"
proof (induction ks arbitrary: s)
  case Nil then show ?case by (simp add: ret_ok)
next
  case (Cons j js)
  then obtain a v where j: "run j s = (Inr a, v)" and js: "for_each run js v = (Inr u, t)"
    by (auto simp: run_ok)
  have v: "inv v" "finished j v" using j Cons.prems(1) keeps_inv marks by metis+
  from batch_stable[OF v js] Cons.IH[OF v(1) js] show ?case by simp
qed

lemma batch_noop:
  "inv t \<Longrightarrow> \<forall>k \<in> set ks. finished k t \<Longrightarrow> for_each run ks t = (Inr (), t)"
proof (induction ks)
  case Nil then show ?case by (simp add: ret_def)
next
  case (Cons j js)
  then obtain a where "run j t = (Inr a, t)" using replay[of t j] by auto
  with Cons show ?case by (simp add: andthen_def bnd_def)
qed

theorem batch_replay:
  "inv s \<Longrightarrow> for_each run ks s = (Inr u, t) \<Longrightarrow> for_each run ks t = (Inr (), t)"
  using batch_finishes batch_noop by blast

end

section \<open>Text\<close>

text \<open>JavaScript's decimal rendering of an integer inside a template string.\<close>

function nat_digits :: "nat \<Rightarrow> string" where
  "nat_digits n = (if n < 10 then [char_of (48 + n)]
                   else nat_digits (n div 10) @ [char_of (48 + n mod 10)])"
  by pat_completeness auto
termination by (relation "measure id") auto

declare nat_digits.simps [simp del]

definition show_int :: "int \<Rightarrow> string" where
  "show_int i = (if i < 0 then ''-'' @ nat_digits (nat (- i)) else nat_digits (nat i))"

text \<open>Different numbers render differently.\<close>

definition digits_value :: "string \<Rightarrow> nat" where
  "digits_value s = foldl (\<lambda>a c. 10 * a + (of_char c - 48)) 0 s"

lemma digits_value_nat_digits: "digits_value (nat_digits n) = n"
proof (induction n rule: nat_digits.induct)
  case (1 n)
  then show ?case
    by (subst nat_digits.simps) (simp add: digits_value_def)
qed

lemma nat_digits_inj [simp]: "nat_digits m = nat_digits n \<longleftrightarrow> m = n"
  by (metis digits_value_nat_digits)

lemma show_int_of_nat [simp]: "show_int (int n) = nat_digits n"
  by (simp add: show_int_def)

text \<open>\<open>String.prototype.trim\<close> on Latin-1 text, and the idiom \<open>value?.trim() || null\<close>.\<close>

definition is_space :: "char \<Rightarrow> bool" where
  "is_space c \<longleftrightarrow> of_char c \<in> {9, 10, 11, 12, 13, 32, 160 :: nat}"

definition js_trim :: "string \<Rightarrow> string" where
  "js_trim s = rev (dropWhile is_space (rev (dropWhile is_space s)))"

definition or_null :: "string option \<Rightarrow> string option" where
  "or_null x = (case x of None \<Rightarrow> None | Some s \<Rightarrow> if js_trim s = [] then None else Some (js_trim s))"

text \<open>\<open>toUpperCase\<close> on ASCII letters, \<open>startsWith\<close>, and the pattern \<open>/^[A-Z]{3}$/\<close>.\<close>

definition upper_char :: "char \<Rightarrow> char" where
  "upper_char c = (if 97 \<le> (of_char c :: nat) \<and> (of_char c :: nat) \<le> 122
     then char_of ((of_char c :: nat) - 32) else c)"

definition js_upper :: "string \<Rightarrow> string" where
  "js_upper = map upper_char"

definition starts_with :: "string \<Rightarrow> string \<Rightarrow> bool" where
  "starts_with prefix s \<longleftrightarrow> take (length prefix) s = prefix"

definition is_currency_code :: "string \<Rightarrow> bool" where
  "is_currency_code s \<longleftrightarrow> length s = 3 \<and>
     list_all (\<lambda>c. 65 \<le> (of_char c :: nat) \<and> (of_char c :: nat) \<le> 90) s"

text \<open>The dash U+2014 of the messages, by its UTF-8 bytes, being beyond the 8-bit characters.\<close>

definition em_dash :: string where
  "em_dash = [CHR 0xE2, CHR 0x80, CHR 0x94]"

section \<open>Lists as tables\<close>

lemma find_Some_set: "find P xs = Some x \<Longrightarrow> x \<in> set xs \<and> P x"
  by (auto simp: find_Some_iff)

lemma find_None_set: "find P xs = None \<longleftrightarrow> (\<forall>x \<in> set xs. \<not> P x)"
  by (auto simp: find_None_iff)

lemma find_snoc: "find P (xs @ ys) = (case find P xs of None \<Rightarrow> find P ys | Some x \<Rightarrow> Some x)"
  by (induction xs) auto

lemma find_map: "(\<And>x. x \<in> set xs \<Longrightarrow> P (g x) \<longleftrightarrow> P x) \<Longrightarrow> find P (map g xs) = map_option g (find P xs)"
  by (induction xs) auto

lemma find_id:
  assumes "distinct (map f xs)" "x \<in> set xs" shows "find (\<lambda>y. f y = f x) xs = Some x"
  using assms by (induction xs) (auto simp: rev_image_eqI)

lemma sum_list_zero: "(\<And>x. x \<in> set xs \<Longrightarrow> f x = (0 :: 'a :: comm_monoid_add)) \<Longrightarrow> (\<Sum>x\<leftarrow>xs. f x) = 0"
  by (induction xs) auto

lemma sum_list_filter_map_split:
  "sum_list (map f (filter P xs)) = (\<Sum>x\<leftarrow>xs. if P x then f x else (0 :: 'a :: comm_monoid_add))"
  by (induction xs) auto

end
