(* ===== verification/Js_Calendar.thy ===== *)
theory Js_Calendar
  imports Zom_Prelude
begin

text \<open>
  The proleptic Gregorian UTC calendar of JavaScript's \<open>Date\<close>, as ECMAScript defines it: an
  instant is a number of milliseconds, a day number is its quotient by the day length, and
  \<open>MakeDay\<close> renormalises months and days that are out of range. The billing and salary
  theories use it for their interval arithmetic.
\<close>

type_synonym instant = int

abbreviation ms_day :: int where
  "ms_day \<equiv> 86400000"

definition day_of :: "instant \<Rightarrow> int" where
  "day_of t = t div ms_day"

definition time_in_day :: "instant \<Rightarrow> int" where
  "time_in_day t = t mod ms_day"

definition at_time :: "int \<Rightarrow> int \<Rightarrow> instant" where
  "at_time d k = d * ms_day + k"

lemma at_time_split: "at_time (day_of t) (time_in_day t) = t"
  by (simp add: at_time_def day_of_def time_in_day_def)

lemma day_of_at_time: "0 \<le> k \<Longrightarrow> k < ms_day \<Longrightarrow> day_of (at_time d k) = d"
  by (simp add: day_of_def at_time_def div_pos_pos_trivial)

lemma time_in_day_at_time: "0 \<le> k \<Longrightarrow> k < ms_day \<Longrightarrow> time_in_day (at_time d k) = k"
  by (simp add: time_in_day_def at_time_def mod_pos_pos_trivial)

lemma time_in_day_bounds: "0 \<le> time_in_day t \<and> time_in_day t < ms_day"
  by (simp add: time_in_day_def)

section \<open>Years\<close>

definition leap_year :: "int \<Rightarrow> bool" where
  "leap_year y \<longleftrightarrow> y mod 4 = 0 \<and> (y mod 100 \<noteq> 0 \<or> y mod 400 = 0)"

definition day_from_year :: "int \<Rightarrow> int" where
  "day_from_year y = 365 * (y - 1970) + (y - 1969) div 4 - (y - 1901) div 100 + (y - 1601) div 400"

definition year_from_day :: "int \<Rightarrow> int" where
  "year_from_day d =
     (let y = 1970 + (d * 400) div 146097
      in if d < day_from_year y then y - 1
         else if day_from_year (y + 1) \<le> d then y + 1 else y)"

lemma div_pred:
  assumes "0 < k"
  shows "(z::int) div k = (z - 1) div k + (if z mod k = 0 then 1 else 0)"
proof -
  have z: "z = k * (z div k) + z mod k" and r: "0 \<le> z mod k" "z mod k < k"
    using assms by simp_all
  show ?thesis
  proof (cases "z mod k = 0")
    case True
    have "(z - 1) div k = z div k - 1"
      by (rule int_div_pos_eq [of _ _ _ "k - 1"]) (use z True assms in \<open>simp_all add: algebra_simps\<close>)
    with True show ?thesis by simp
  next
    case False
    have "(z - 1) div k = z div k"
      by (rule int_div_pos_eq [of _ _ _ "z mod k - 1"]) (use z r False in \<open>simp_all add: algebra_simps\<close>)
    with False show ?thesis by simp
  qed
qed

lemma mod_shift: "k dvd c \<Longrightarrow> (y - c :: int) mod k = y mod k"
  unfolding mod_eq_dvd_iff by simp

lemma div_next4: "(y - 1968 :: int) div 4 = (y - 1969) div 4 + (if y mod 4 = 0 then 1 else 0)"
  using div_pred [of 4 "y - 1968"] mod_shift [of 4 1968 y] by simp

lemma div_next100: "(y - 1900 :: int) div 100 = (y - 1901) div 100 + (if y mod 100 = 0 then 1 else 0)"
  using div_pred [of 100 "y - 1900"] mod_shift [of 100 1900 y] by simp

lemma div_next400: "(y - 1600 :: int) div 400 = (y - 1601) div 400 + (if y mod 400 = 0 then 1 else 0)"
  using div_pred [of 400 "y - 1600"] mod_shift [of 400 1600 y] by simp

lemma mod_100_4: "(y::int) mod 100 = 0 \<Longrightarrow> y mod 4 = 0"
  using dvd_trans [of 4 100 y] by (simp add: mod_eq_0_iff_dvd)

lemma mod_400_100: "(y::int) mod 400 = 0 \<Longrightarrow> y mod 100 = 0"
  using dvd_trans [of 100 400 y] by (simp add: mod_eq_0_iff_dvd)

lemma day_from_year_Suc:
  "day_from_year (y + 1) = day_from_year y + (if leap_year y then 366 else 365)"
proof -
  define a b c where "a = (y - 1969) div 4" and "b = (y - 1901) div 100"
    and "c = (y - 1601) div 400"
  define p q r where "p \<longleftrightarrow> y mod 4 = 0" and "q \<longleftrightarrow> y mod 100 = 0" and "r \<longleftrightarrow> y mod 400 = 0"
  have shift: "y + 1 - 1970 = y - 1970 + 1" "y + 1 - 1969 = y - 1968" "y + 1 - 1901 = y - 1900"
    "y + 1 - 1601 = y - 1600"
    by simp_all
  have next_year: "day_from_year (y + 1) = 365 * (y - 1970 + 1) + (a + (if p then 1 else 0))
      - (b + (if q then 1 else 0)) + (c + (if r then 1 else 0))"
    unfolding day_from_year_def shift div_next4 div_next100 div_next400
      a_def b_def c_def p_def q_def r_def ..
  have this_year: "day_from_year y = 365 * (y - 1970) + a - b + c"
    unfolding day_from_year_def a_def b_def c_def ..
  have "q \<longrightarrow> p"
    unfolding p_def q_def by (rule impI) (rule mod_100_4)
  moreover have "r \<longrightarrow> q"
    unfolding r_def q_def by (rule impI) (rule mod_400_100)
  moreover have "leap_year y \<longleftrightarrow> p \<and> (\<not> q \<or> r)"
    unfolding p_def q_def r_def by (rule leap_year_def)
  ultimately show ?thesis
    unfolding next_year this_year
    by (cases p; cases q; cases r) (simp_all only: simp_thms if_True if_False, simp_all)
qed

lemma day_from_year_mono_nat: "day_from_year y + 365 * int n \<le> day_from_year (y + int n)"
proof (induction n)
  case 0
  show ?case by simp
next
  case (Suc n)
  have "y + int (Suc n) = y + int n + 1"
    by simp
  then have "day_from_year (y + int (Suc n)) = day_from_year (y + int n + 1)"
    by (rule arg_cong)
  then show ?case
    using Suc day_from_year_Suc [of "y + int n"] by (simp split: if_splits)
qed

lemma day_from_year_mono: "y < z \<Longrightarrow> day_from_year (y + 1) \<le> day_from_year z"
  using day_from_year_mono_nat [of "y + 1" "nat (z - y - 1)"] by simp

lemma day_from_year_bounds:
  shows day_from_year_upper: "400 * day_from_year y \<le> 146097 * (y - 1970) + 589"
    and day_from_year_lower: "146097 * (y - 1970) - 507 \<le> 400 * day_from_year y"
proof -
  define a b c where "a = (y - 1969) div 4" and "b = (y - 1901) div 100"
    and "c = (y - 1601) div 400"
  have eq: "day_from_year y = 365 * (y - 1970) + a - b + c"
    by (simp add: day_from_year_def a_def b_def c_def)
  have q4: "4 * a \<le> y - 1969" "y - 1972 \<le> 4 * a"
    unfolding a_def by linarith+
  have q100: "100 * b \<le> y - 1901" "y - 2000 \<le> 100 * b"
    unfolding b_def by linarith+
  have q400: "400 * c \<le> y - 1601" "y - 2000 \<le> 400 * c"
    unfolding c_def by linarith+
  have d: "400 * day_from_year y = 146000 * y - 287620000 + 400 * a - 400 * b + 400 * c"
    using eq by simp
  have "400 * a \<le> 100 * y - 196900" "4 * y - 8000 \<le> 400 * b"
    using q4 q100 by simp_all
  then show "400 * day_from_year y \<le> 146097 * (y - 1970) + 589"
    using q400(1) d by simp
  have "100 * y - 197200 \<le> 400 * a" "400 * b \<le> 4 * y - 7604"
    using q4 q100 by simp_all
  then show "146097 * (y - 1970) - 507 \<le> 400 * day_from_year y"
    using q400(2) d by simp
qed

lemma year_from_day_spec:
  "day_from_year (year_from_day d) \<le> d \<and> d < day_from_year (year_from_day d + 1)"
proof -
  define u where "u = (d * 400) div 146097"
  have u: "146097 * u \<le> 400 * d" "400 * d < 146097 * u + 146097"
    unfolding u_def by linarith+
  have lo: "day_from_year (1970 + u - 1) \<le> d"
    using day_from_year_upper [of "1970 + u - 1"] u by simp
  have hi: "d < day_from_year (1970 + u + 2)"
    using day_from_year_lower [of "1970 + u + 2"] u by simp
  show ?thesis
    using lo hi unfolding year_from_day_def u_def [symmetric] Let_def
    by (simp add: algebra_simps)
qed

lemma year_from_day_unique:
  assumes "day_from_year y \<le> d" and "d < day_from_year (y + 1)"
  shows "year_from_day d = y"
proof (rule ccontr)
  let ?z = "year_from_day d"
  assume "?z \<noteq> y"
  then consider "?z < y" | "y < ?z" by linarith
  then show False
    using assms year_from_day_spec [of d] day_from_year_mono [of ?z y] day_from_year_mono [of y ?z]
    by cases auto
qed

section \<open>Months and days\<close>

definition month_start :: "bool \<Rightarrow> int \<Rightarrow> int" where
  "month_start lp m =
     (if m \<le> 0 then 0 else if m = 1 then 31
      else (if lp then 1 else 0) +
        (if m = 2 then 59 else if m = 3 then 90 else if m = 4 then 120 else if m = 5 then 151
         else if m = 6 then 181 else if m = 7 then 212 else if m = 8 then 243
         else if m = 9 then 273 else if m = 10 then 304 else if m = 11 then 334 else 365))"

definition month_from_offset :: "bool \<Rightarrow> int \<Rightarrow> int" where
  "month_from_offset lp n =
     (if n < month_start lp 1 then 0 else if n < month_start lp 2 then 1
      else if n < month_start lp 3 then 2 else if n < month_start lp 4 then 3
      else if n < month_start lp 5 then 4 else if n < month_start lp 6 then 5
      else if n < month_start lp 7 then 6 else if n < month_start lp 8 then 7
      else if n < month_start lp 9 then 8 else if n < month_start lp 10 then 9
      else if n < month_start lp 11 then 10 else 11)"

definition days_in_month :: "int \<Rightarrow> int \<Rightarrow> int" where
  "days_in_month y m = month_start (leap_year y) (m + 1) - month_start (leap_year y) m"

definition month_from_day :: "int \<Rightarrow> int" where
  "month_from_day d =
     (let y = year_from_day d in month_from_offset (leap_year y) (d - day_from_year y))"

definition date_from_day :: "int \<Rightarrow> int" where
  "date_from_day d =
     (let y = year_from_day d
      in d - day_from_year y - month_start (leap_year y) (month_from_day d) + 1)"

text \<open>ECMAScript's \<open>MakeDay\<close>: months and days may be out of range.\<close>

definition make_day :: "int \<Rightarrow> int \<Rightarrow> int \<Rightarrow> int" where
  "make_day y m dt =
     (let ym = y + m div 12; mn = m mod 12
      in day_from_year ym + month_start (leap_year ym) mn + dt - 1)"

lemma month_start_vals:
  "month_start lp 0 = 0" "month_start lp 1 = 31"
  "month_start True 2 = 60" "month_start False 2 = 59"
  "month_start True 3 = 91" "month_start False 3 = 90"
  "month_start True 4 = 121" "month_start False 4 = 120"
  "month_start True 5 = 152" "month_start False 5 = 151"
  "month_start True 6 = 182" "month_start False 6 = 181"
  "month_start True 7 = 213" "month_start False 7 = 212"
  "month_start True 8 = 244" "month_start False 8 = 243"
  "month_start True 9 = 274" "month_start False 9 = 273"
  "month_start True 10 = 305" "month_start False 10 = 304"
  "month_start True 11 = 335" "month_start False 11 = 334"
  "month_start True 12 = 366" "month_start False 12 = 365"
  by (simp_all add: month_start_def)

lemma month_cases:
  assumes "0 \<le> m" "m < (12::int)"
  obtains "m = 0" | "m = 1" | "m = 2" | "m = 3" | "m = 4" | "m = 5" | "m = 6" | "m = 7"
    | "m = 8" | "m = 9" | "m = 10" | "m = 11"
proof -
  have "m = 0 \<or> m = 1 \<or> m = 2 \<or> m = 3 \<or> m = 4 \<or> m = 5 \<or> m = 6 \<or> m = 7
    \<or> m = 8 \<or> m = 9 \<or> m = 10 \<or> m = 11"
    using assms by presburger
  with that show thesis by blast
qed

lemma days_in_month_range:
  assumes "0 \<le> m" "m < 12" shows "28 \<le> days_in_month y m \<and> days_in_month y m \<le> 31"
  using assms by (cases rule: month_cases; cases "leap_year y")
    (simp_all add: days_in_month_def month_start_vals)

lemma month_start_nonneg: "0 \<le> month_start lp m"
  by (simp add: month_start_def)

lemma month_start_year_end:
  assumes "0 \<le> m" "m < 12"
  shows "month_start lp (m + 1) \<le> (if lp then 366 else 365)"
  using assms by (cases rule: month_cases; cases lp) (simp_all add: month_start_vals)

lemma month_from_offset_leap:
  "month_from_offset True n =
     (if n < 31 then 0 else if n < 60 then 1 else if n < 91 then 2 else if n < 121 then 3
      else if n < 152 then 4 else if n < 182 then 5 else if n < 213 then 6 else if n < 244 then 7
      else if n < 274 then 8 else if n < 305 then 9 else if n < 335 then 10 else 11)"
  "month_from_offset False n =
     (if n < 31 then 0 else if n < 59 then 1 else if n < 90 then 2 else if n < 120 then 3
      else if n < 151 then 4 else if n < 181 then 5 else if n < 212 then 6 else if n < 243 then 7
      else if n < 273 then 8 else if n < 304 then 9 else if n < 334 then 10 else 11)"
  unfolding month_from_offset_def month_start_vals by (rule refl)+

lemma month_from_offset_start:
  assumes "0 \<le> m" "m < 12" and "month_start lp m \<le> n" "n < month_start lp (m + 1)"
  shows "month_from_offset lp n = m"
  using assms by (cases rule: month_cases; cases lp)
    (simp_all add: month_from_offset_leap month_start_vals)

lemma month_from_offset_range: "0 \<le> month_from_offset lp n \<and> month_from_offset lp n < 12"
  by (simp add: month_from_offset_def)

lemma month_from_offset_spec:
  assumes "0 \<le> n" "n < (if lp then 366 else 365)"
  shows "month_start lp (month_from_offset lp n) \<le> n \<and> n < month_start lp (month_from_offset lp n + 1)"
  using assms by (cases lp) (simp_all add: month_from_offset_leap month_start_vals)

text \<open>A valid civil date is read back unchanged from its day number, and every day number has one.\<close>

lemma civil_make_day:
  assumes m: "0 \<le> m" "m < 12" and dt: "1 \<le> dt" "dt \<le> days_in_month y m"
  shows "year_from_day (make_day y m dt) = y"
    and "month_from_day (make_day y m dt) = m"
    and "date_from_day (make_day y m dt) = dt"
proof -
  let ?d = "make_day y m dt"
  let ?lp = "leap_year y"
  have md: "m div 12 = 0" "m mod 12 = m"
    using m by (simp_all add: div_pos_pos_trivial mod_pos_pos_trivial)
  have eq: "?d = day_from_year y + month_start ?lp m + dt - 1"
    by (simp add: make_day_def md)
  have up: "month_start ?lp m + dt - 1 < month_start ?lp (m + 1)"
    using dt by (simp add: days_in_month_def)
  have "day_from_year y \<le> ?d"
    using eq dt month_start_nonneg [of ?lp m] by simp
  moreover have "?d < day_from_year (y + 1)"
    using eq up month_start_year_end [OF m, of ?lp] by (simp add: day_from_year_Suc)
  ultimately show y: "year_from_day ?d = y"
    by (rule year_from_day_unique)
  have "month_from_offset ?lp (?d - day_from_year y) = m"
    by (rule month_from_offset_start [OF m]) (use eq dt up in simp_all)
  then show mo: "month_from_day ?d = m"
    by (simp add: month_from_day_def Let_def y)
  have "?d - day_from_year y - month_start ?lp m + 1 = dt"
    by (simp add: eq)
  then show "date_from_day ?d = dt"
    by (simp only: date_from_day_def Let_def y mo)
qed

lemma make_day_civil:
  "make_day (year_from_day d) (month_from_day d) (date_from_day d) = d"
  "0 \<le> month_from_day d" "month_from_day d < 12"
  "1 \<le> date_from_day d" "date_from_day d \<le> days_in_month (year_from_day d) (month_from_day d)"
proof -
  let ?y = "year_from_day d"
  let ?n = "d - day_from_year ?y"
  have n: "0 \<le> ?n" "?n < (if leap_year ?y then 366 else 365)"
    using year_from_day_spec [of d] by (auto simp: day_from_year_Suc split: if_splits)
  note sp = month_from_offset_spec [OF n]
  have m: "month_from_day d = month_from_offset (leap_year ?y) ?n"
    by (simp add: month_from_day_def Let_def)
  show r: "0 \<le> month_from_day d" "month_from_day d < 12"
    using month_from_offset_range [of "leap_year ?y" ?n] m by simp_all
  show "1 \<le> date_from_day d"
    using sp m by (simp add: date_from_day_def Let_def)
  show "date_from_day d \<le> days_in_month ?y (month_from_day d)"
    using sp m by (simp add: date_from_day_def Let_def days_in_month_def)
  show "make_day ?y (month_from_day d) (date_from_day d) = d"
    using r by (simp add: make_day_def date_from_day_def Let_def div_pos_pos_trivial mod_pos_pos_trivial)
qed

section \<open>The Date methods the code calls\<close>

definition getUTCFullYear :: "instant \<Rightarrow> int" where
  "getUTCFullYear t = year_from_day (day_of t)"

definition getUTCMonth :: "instant \<Rightarrow> int" where
  "getUTCMonth t = month_from_day (day_of t)"

definition getUTCDate :: "instant \<Rightarrow> int" where
  "getUTCDate t = date_from_day (day_of t)"

definition setUTCDate :: "instant \<Rightarrow> int \<Rightarrow> instant" where
  "setUTCDate t dt = at_time (make_day (getUTCFullYear t) (getUTCMonth t) dt) (time_in_day t)"

definition setUTCMonth :: "instant \<Rightarrow> int \<Rightarrow> instant" where
  "setUTCMonth t m = at_time (make_day (getUTCFullYear t) m (getUTCDate t)) (time_in_day t)"

definition setUTCMonthDate :: "instant \<Rightarrow> int \<Rightarrow> int \<Rightarrow> instant" where
  "setUTCMonthDate t m dt = at_time (make_day (getUTCFullYear t) m dt) (time_in_day t)"

text \<open>\<open>Date.UTC(y, m, d)\<close>, with its two-digit years.\<close>

definition Date_UTC :: "int \<Rightarrow> int \<Rightarrow> int \<Rightarrow> instant" where
  "Date_UTC y m dt = at_time (make_day (if 0 \<le> y \<and> y \<le> 99 then 1900 + y else y) m dt) 0"

end
