(* ===== verification/Decimal_Lib.thy ===== *)
theory Decimal_Lib
  imports Zom_Prelude Complex_Main
begin

text \<open>
  Money. The services compute with \<open>Prisma.Decimal\<close> (decimal.js), a third-party library: a value
  is an exact decimal number, here a rational, and every arithmetic result is rounded to the
  configured number of significant digits. The library is a parameter of the model, the record
  \<open>decimal_lib\<close>; the locale \<open>decimal_laws\<close> states the documented behaviour the code relies on,
  and the executable \<open>half_up_lib p\<close> (p significant digits, halves away from zero, the library's
  defaults) is shown to satisfy it. \<open>assertPersistedMoney\<close> is \<open>src/common/persisted-money.ts\<close>.
\<close>

record decimal_lib =
  digits :: nat
  sig :: "rat \<Rightarrow> rat"
  places :: "nat \<Rightarrow> rat \<Rightarrow> rat"

definition dplus :: "decimal_lib \<Rightarrow> rat \<Rightarrow> rat \<Rightarrow> rat" where
  "dplus D a b = sig D (a + b)"

definition dminus :: "decimal_lib \<Rightarrow> rat \<Rightarrow> rat \<Rightarrow> rat" where
  "dminus D a b = sig D (a - b)"

definition dtimes :: "decimal_lib \<Rightarrow> rat \<Rightarrow> rat \<Rightarrow> rat" where
  "dtimes D a b = sig D (a * b)"

definition ddiv :: "decimal_lib \<Rightarrow> rat \<Rightarrow> rat \<Rightarrow> rat" where
  "ddiv D a b = sig D (a / b)"

definition dsum :: "decimal_lib \<Rightarrow> rat list \<Rightarrow> rat" where
  "dsum D xs = fold (\<lambda>x acc. dplus D acc x) xs 0"

text \<open>\<open>on_grid n x\<close>: \<open>x\<close> is written with at most \<open>n\<close> decimal places.\<close>

definition on_grid :: "nat \<Rightarrow> rat \<Rightarrow> bool" where
  "on_grid n x \<longleftrightarrow> x * 10 ^ n \<in> \<int>"

locale decimal_laws =
  fixes D :: decimal_lib
  assumes digits_enough: "20 \<le> digits D"
    and sig_exact: "on_grid n x \<Longrightarrow> \<bar>x\<bar> * 10 ^ n < 10 ^ digits D \<Longrightarrow> sig D x = x"
    and sig_close: "\<bar>sig D x - x\<bar> \<le> \<bar>x\<bar> / 10 ^ (digits D - 1)"
    and places_grid: "on_grid n (places D n x)"
    and places_close: "\<bar>places D n x - x\<bar> \<le> 1 / (2 * 10 ^ n)"
    and places_mono: "x \<le> y \<Longrightarrow> places D n x \<le> places D n y"

section \<open>The grid of decimal places\<close>

lemma on_grid_int [simp]: "on_grid n (of_int k)"
  by (simp add: on_grid_def)

lemma on_grid_0 [simp]: "on_grid n 0"
  by (simp add: on_grid_def)

lemma on_grid_add: "on_grid n x \<Longrightarrow> on_grid n y \<Longrightarrow> on_grid n (x + y)"
  by (simp add: on_grid_def distrib_right)

lemma on_grid_diff: "on_grid n x \<Longrightarrow> on_grid n y \<Longrightarrow> on_grid n (x - y)"
  by (simp add: on_grid_def left_diff_distrib)

lemma on_grid_mult_int: "on_grid n x \<Longrightarrow> on_grid n (x * of_int k)"
proof -
  assume x: "on_grid n x"
  have "x * of_int k * 10 ^ n = x * 10 ^ n * of_int k"
    by simp
  also have "\<dots> \<in> \<int>"
    using x unfolding on_grid_def by (rule Ints_mult [OF _ Ints_of_int])
  finally show ?thesis
    by (simp only: on_grid_def)
qed

lemma on_grid_uminus: "on_grid n x \<Longrightarrow> on_grid n (- x)"
  by (simp add: on_grid_def)

lemma on_grid_mono:
  assumes "on_grid n x" "n \<le> m" shows "on_grid m x"
proof -
  have "x * 10 ^ m = x * 10 ^ n * 10 ^ (m - n)"
    using assms(2) by (simp add: mult.assoc flip: power_add)
  also have "\<dots> \<in> \<int>"
    using assms(1) by (simp add: on_grid_def)
  finally show ?thesis by (simp add: on_grid_def)
qed

lemma on_grid_close:
  assumes "on_grid n x" "on_grid n y" "\<bar>x - y\<bar> < 1 / 10 ^ n"
  shows "x = y"
proof -
  obtain a b :: int where ab: "x * 10 ^ n = of_int a" "y * 10 ^ n = of_int b"
    using assms(1,2) by (auto simp: on_grid_def elim!: Ints_cases)
  have "\<bar>x - y\<bar> * 10 ^ n < 1"
    using assms(3) by (simp add: field_simps)
  then have "\<bar>(x - y) * 10 ^ n\<bar> < 1"
    by (simp add: abs_mult)
  then have "\<bar>of_int (a - b) :: rat\<bar> < 1"
    using ab by (simp add: left_diff_distrib)
  then have "a = b" by linarith
  with ab have "x * 10 ^ n = y * 10 ^ n" by simp
  then show ?thesis by simp
qed

context decimal_laws
begin

lemma places_exact: "on_grid n x \<Longrightarrow> places D n x = x"
proof (rule on_grid_close [of n])
  assume "on_grid n x"
  then show "on_grid n (places D n x)" "on_grid n x"
    by (simp_all add: places_grid)
  have "1 / (2 * 10 ^ n) < (1 :: rat) / 10 ^ n"
    by (simp add: field_simps)
  with places_close show "\<bar>places D n x - x\<bar> < 1 / 10 ^ n"
    by (rule le_less_trans)
qed

lemma places_nonneg: "0 \<le> x \<Longrightarrow> 0 \<le> places D n x"
  using places_mono [of 0 x n] places_exact [of n 0] by simp

lemma places_le: "x \<le> y \<Longrightarrow> on_grid n y \<Longrightarrow> places D n x \<le> y"
  using places_mono [of x y n] places_exact [of n y] by simp

lemma sig_nonneg: "0 \<le> x \<Longrightarrow> 0 \<le> sig D x"
proof -
  assume x: "0 \<le> x"
  have "x / 10 ^ (digits D - 1) \<le> x"
    using x by (simp add: divide_le_eq mult_le_cancel_left1)
  with sig_close [of x] x show ?thesis by simp
qed

lemma sig_cents:
  assumes "on_grid 4 x" "\<bar>x\<bar> < 10 ^ 16"
  shows "sig D x = x"
proof (rule sig_exact [OF assms(1)])
  have "\<bar>x\<bar> * 10 ^ 4 < 10 ^ 16 * 10 ^ 4"
    using assms(2) by (intro mult_strict_right_mono) simp_all
  also have "\<dots> = (10 ^ 20 :: rat)"
    by simp
  also have "\<dots> \<le> 10 ^ digits D"
    using digits_enough by (rule power_increasing) simp
  finally show "\<bar>x\<bar> * 10 ^ 4 < 10 ^ digits D" .
qed

lemma sig_0 [simp]: "sig D 0 = 0"
  using sig_cents [of 0] by simp

lemma dsum_exact:
  assumes "\<And>x. x \<in> set xs \<Longrightarrow> on_grid 4 x \<and> 0 \<le> x"
    and "on_grid 4 a" "0 \<le> a" "a + sum_list xs < 10 ^ 16"
  shows "fold (\<lambda>x acc. dplus D acc x) xs a = a + sum_list xs"
  using assms
proof (induction xs arbitrary: a)
  case Nil
  then show ?case by simp
next
  case (Cons x xs)
  have x: "on_grid 4 x" "0 \<le> x"
    using Cons.prems(1) by auto
  have rest: "0 \<le> sum_list xs"
    using Cons.prems(1) by (auto intro: sum_list_nonneg)
  have "dplus D a x = a + x"
    unfolding dplus_def
    by (rule sig_cents) (use x Cons.prems rest in \<open>auto intro: on_grid_add\<close>)
  moreover have "fold (\<lambda>x acc. dplus D acc x) xs (a + x) = a + x + sum_list xs"
    by (rule Cons.IH) (use x Cons.prems in \<open>auto intro: on_grid_add simp: add.assoc\<close>)
  ultimately show ?case by (simp add: add.assoc)
qed

end

section \<open>The library's default configuration\<close>

text \<open>Rounding to an integer, halves away from zero (\<open>ROUND_HALF_UP\<close>).\<close>

definition half_up :: "rat \<Rightarrow> int" where
  "half_up x = (if 0 \<le> x then \<lfloor>x + 1 / 2\<rfloor> else - \<lfloor>1 / 2 - x\<rfloor>)"

text \<open>The decimal exponent of a positive fraction \<open>a / b\<close>, by scaling.\<close>

function exp_up :: "int \<Rightarrow> int \<Rightarrow> nat" where
  "exp_up a b = (if 0 < b \<and> 10 * b \<le> a then Suc (exp_up a (10 * b)) else 0)"
  by pat_completeness auto
termination by (relation "measure (\<lambda>(a, b). nat (a - b))") auto

function exp_down :: "int \<Rightarrow> int \<Rightarrow> nat" where
  "exp_down a b = (if 0 < a \<and> a < b then Suc (exp_down (10 * a) b) else 0)"
  by pat_completeness auto
termination by (relation "measure (\<lambda>(a, b). nat (b - a))") auto

declare exp_up.simps [simp del] exp_down.simps [simp del]

definition dec_exp :: "rat \<Rightarrow> int" where
  "dec_exp x =
     (case quotient_of \<bar>x\<bar> of (a, b) \<Rightarrow> if b \<le> a then int (exp_up a b) else - int (exp_down a b))"

definition round_sig :: "nat \<Rightarrow> rat \<Rightarrow> rat" where
  "round_sig p x =
     (if x = 0 then 0
      else let q = 10 powi (dec_exp x + 1 - int p) in of_int (half_up (x / q)) * q)"

definition round_places :: "nat \<Rightarrow> rat \<Rightarrow> rat" where
  "round_places n x = of_int (half_up (x * 10 ^ n)) / 10 ^ n"

definition half_up_lib :: "nat \<Rightarrow> decimal_lib" where
  "half_up_lib p = \<lparr>digits = p, sig = round_sig p, places = round_places\<rparr>"

lemma half_up_close: "\<bar>of_int (half_up x) - x\<bar> \<le> 1 / 2"
proof (cases "0 \<le> x")
  case True
  then have "half_up x = \<lfloor>x + 1 / 2\<rfloor>"
    by (simp add: half_up_def)
  then show ?thesis
    using floor_correct [of "x + 1 / 2"] by (simp only: of_int_add of_int_1 abs_le_iff) linarith
next
  case False
  then have "half_up x = - \<lfloor>1 / 2 - x\<rfloor>"
    by (simp add: half_up_def)
  then show ?thesis
    using floor_correct [of "1 / 2 - x"]
    by (simp only: of_int_add of_int_minus of_int_1 abs_le_iff) linarith
qed

lemma half_up_of_int [simp]: "half_up (of_int k) = k"
proof -
  have "\<lfloor>of_int k + 1 / 2 :: rat\<rfloor> = k" "\<lfloor>1 / 2 - of_int k :: rat\<rfloor> = - k"
    by (simp_all add: floor_eq_iff)
  then show ?thesis by (simp add: half_up_def)
qed

lemma half_up_mono: "x \<le> y \<Longrightarrow> half_up x \<le> half_up y"
  unfolding half_up_def
  by (cases "0 \<le> x"; cases "0 \<le> y") (simp_all add: floor_mono, linarith)

lemma exp_up_spec:
  "0 < b \<Longrightarrow> b \<le> a \<Longrightarrow> b * 10 ^ exp_up a b \<le> a \<and> a < b * 10 ^ Suc (exp_up a b)"
proof (induction a b rule: exp_up.induct)
  case (1 a b)
  show ?case
  proof (cases "10 * b \<le> a")
    case True
    then have "exp_up a b = Suc (exp_up a (10 * b))"
      using "1.prems" by (simp add: exp_up.simps [of a b])
    with "1.IH" True "1.prems" show ?thesis by (simp add: mult.assoc mult.left_commute)
  next
    case False
    then show ?thesis using "1.prems" by (simp add: exp_up.simps [of a b])
  qed
qed

lemma exp_down_spec:
  "0 < a \<Longrightarrow> a < b \<Longrightarrow> b \<le> a * 10 ^ exp_down a b \<and> a * 10 ^ exp_down a b < 10 * b"
proof (induction a b rule: exp_down.induct)
  case (1 a b)
  have step: "exp_down a b = Suc (exp_down (10 * a) b)"
    using "1.prems" by (simp add: exp_down.simps [of a b])
  show ?case
  proof (cases "10 * a < b")
    case True
    with "1.IH" "1.prems" step show ?thesis by (simp add: mult.assoc mult.left_commute)
  next
    case False
    then have "exp_down (10 * a) b = 0" by (simp add: exp_down.simps [of "10 * a" b])
    with False "1.prems" step show ?thesis by simp
  qed
qed

lemma dec_exp_spec:
  assumes "x \<noteq> 0"
  shows "10 powi (dec_exp x) \<le> \<bar>x\<bar> \<and> \<bar>x\<bar> < 10 powi (dec_exp x + 1)"
proof -
  obtain a b where q: "quotient_of \<bar>x\<bar> = (a, b)" by (cases "quotient_of \<bar>x\<bar>")
  have b: "0 < b" using q by (rule quotient_of_denom_pos)
  have x: "\<bar>x\<bar> = of_int a / of_int b" using q by (rule quotient_of_div)
  have "0 < (of_int a / of_int b :: rat)" using x assms by (metis zero_less_abs_iff)
  then have a: "0 < a" using b by (simp add: zero_less_divide_iff)
  have bq: "(0 :: rat) < of_int b" using b by simp
  show ?thesis
  proof (cases "b \<le> a")
    case True
    let ?k = "exp_up a b"
    have e: "dec_exp x = int ?k" using True q by (simp add: dec_exp_def)
    have "(of_int (b * 10 ^ ?k) :: rat) \<le> of_int a" "(of_int a :: rat) < of_int (b * 10 ^ Suc ?k)"
      using exp_up_spec [OF b True] by (simp_all only: of_int_le_iff of_int_less_iff)
    then show ?thesis
      using bq by (simp add: e x power_int_add field_simps)
  next
    case False
    let ?k = "exp_down a b"
    have e: "dec_exp x = - int ?k" using False q by (simp add: dec_exp_def)
    have "(of_int b :: rat) \<le> of_int (a * 10 ^ ?k)" "(of_int (a * 10 ^ ?k) :: rat) < of_int (10 * b)"
      using exp_down_spec [OF a, of b] False by (simp_all only: of_int_le_iff of_int_less_iff not_le)
    then show ?thesis
      using bq by (simp add: e x power_int_add power_int_diff power_int_minus field_simps)
  qed
qed

text \<open>The default library satisfies the documented laws whenever it keeps at least 20 digits.\<close>

lemma round_sig_quantum:
  assumes "x \<noteq> 0"
  shows "\<bar>round_sig p x - x\<bar> \<le> 10 powi (dec_exp x + 1 - int p) / 2"
proof -
  let ?q = "10 powi (dec_exp x + 1 - int p) :: rat"
  have q: "0 < ?q" by simp
  have "round_sig p x - x = (of_int (half_up (x / ?q)) - x / ?q) * ?q"
    using assms q by (simp add: round_sig_def Let_def left_diff_distrib)
  then have "\<bar>round_sig p x - x\<bar> = \<bar>of_int (half_up (x / ?q)) - x / ?q\<bar> * ?q"
    using q by (simp add: abs_mult)
  also have "\<dots> \<le> 1 / 2 * ?q"
    using half_up_close q by (intro mult_right_mono) simp_all
  finally show ?thesis by simp
qed

lemma round_sig_close:
  assumes "0 < p" shows "\<bar>round_sig p x - x\<bar> \<le> \<bar>x\<bar> / 10 ^ (p - 1)"
proof (cases "x = 0")
  case True
  then show ?thesis by (simp add: round_sig_def)
next
  case False
  have "(10 :: rat) powi (dec_exp x + 1 - int p) = 10 powi (dec_exp x - int (p - 1))"
    using assms by (simp add: of_nat_diff algebra_simps)
  also have "\<dots> = 10 powi dec_exp x / 10 ^ (p - 1)"
    by (simp add: power_int_diff)
  also have "\<dots> \<le> \<bar>x\<bar> / 10 ^ (p - 1)"
    using dec_exp_spec [OF False] by (simp add: divide_right_mono)
  finally have le: "(10 :: rat) powi (dec_exp x + 1 - int p) \<le> \<bar>x\<bar> / 10 ^ (p - 1)" .
  have "(10 :: rat) powi (dec_exp x + 1 - int p) / 2 \<le> 10 powi (dec_exp x + 1 - int p)"
    by simp
  with le round_sig_quantum [OF False, of p] show ?thesis by (blast intro: order_trans)
qed

lemma round_sig_exact:
  assumes grid: "on_grid n x" and small: "\<bar>x\<bar> * 10 ^ n < 10 ^ p"
  shows "round_sig p x = x"
proof (cases "x = 0")
  case True
  then show ?thesis by (simp add: round_sig_def)
next
  case False
  let ?q = "10 powi (dec_exp x + 1 - int p) :: rat"
  have "10 powi (dec_exp x + int n) \<le> \<bar>x\<bar> * 10 ^ n"
    using dec_exp_spec [OF False] by (simp add: power_int_add)
  also note small
  finally have "(10 :: rat) powi (dec_exp x + int n) < 10 powi int p"
    by simp
  then have "dec_exp x + int n < int p"
    by (rule power_int_le_imp_less_exp [rotated]) simp_all
  then obtain k where k: "int p - 1 - dec_exp x = int n + int k"
    by (metis add.commute zle_iff_zadd zle_diff1_eq diff_diff_eq less_diff_eq)
  have "x / ?q = x * 10 powi (int p - 1 - dec_exp x)"
  proof -
    have "int p - 1 - dec_exp x = - (dec_exp x + 1 - int p)" by simp
    then show ?thesis by (simp only: power_int_minus divide_inverse)
  qed
  also have "\<dots> = x * 10 ^ n * 10 ^ k"
    by (simp add: k power_int_add)
  also have "\<dots> \<in> \<int>"
    using grid by (simp add: on_grid_def)
  finally obtain m where m: "x / ?q = of_int m" by (auto elim: Ints_cases)
  have "round_sig p x = of_int (half_up (x / ?q)) * ?q"
    using False by (simp only: round_sig_def Let_def if_False)
  also have "\<dots> = x / ?q * ?q"
    by (simp only: m half_up_of_int)
  finally show ?thesis
    by simp
qed

lemma half_up_lib_laws: "20 \<le> p \<Longrightarrow> decimal_laws (half_up_lib p)"
proof
  fix n x y
  assume p: "20 \<le> p"
  show "20 \<le> digits (half_up_lib p)"
    using p by (simp add: half_up_lib_def)
  show "on_grid n x \<Longrightarrow> \<bar>x\<bar> * 10 ^ n < 10 ^ digits (half_up_lib p) \<Longrightarrow> sig (half_up_lib p) x = x"
    by (simp add: half_up_lib_def round_sig_exact)
  show "\<bar>sig (half_up_lib p) x - x\<bar> \<le> \<bar>x\<bar> / 10 ^ (digits (half_up_lib p) - 1)"
    using p round_sig_close [of p x] by (simp add: half_up_lib_def)
  show "on_grid n (places (half_up_lib p) n x)"
    by (simp add: half_up_lib_def round_places_def on_grid_def)
  show "\<bar>places (half_up_lib p) n x - x\<bar> \<le> 1 / (2 * 10 ^ n)"
  proof -
    have "round_places n x - x = (of_int (half_up (x * 10 ^ n)) - x * 10 ^ n) / 10 ^ n"
      by (simp add: round_places_def diff_divide_distrib)
    then have "\<bar>round_places n x - x\<bar> = \<bar>of_int (half_up (x * 10 ^ n)) - x * 10 ^ n\<bar> / 10 ^ n"
      by simp
    also have "\<dots> \<le> 1 / 2 / 10 ^ n"
      using half_up_close by (intro divide_right_mono) simp_all
    finally show ?thesis by (simp add: half_up_lib_def)
  qed
  show "x \<le> y \<Longrightarrow> places (half_up_lib p) n x \<le> places (half_up_lib p) n y"
    by (simp add: half_up_lib_def round_places_def divide_right_mono half_up_mono)
qed

interpretation prisma: decimal_laws "half_up_lib 20"
  by (rule half_up_lib_laws) simp

interpretation precise: decimal_laws "half_up_lib 60"
  by (rule half_up_lib_laws) simp

section \<open>src/common/persisted-money.ts\<close>

definition MONEY_LIMIT :: rat where
  "MONEY_LIMIT = 10000000000000000"

definition assertPersistedMoney :: "rat \<Rightarrow> string \<Rightarrow> error + unit" where
  "assertPersistedMoney value field =
     (if value < 0 \<or> MONEY_LIMIT \<le> value
      then Inl (BadRequest (field @ '' exceeds the supported monetary range''))
      else Inr ())"

lemma assertPersistedMoney_ok:
  "assertPersistedMoney v f = Inr u \<longleftrightarrow> 0 \<le> v \<and> v < 10 ^ 16"
  by (auto simp: assertPersistedMoney_def MONEY_LIMIT_def)

end
