(* ===== verification/Inventory.thy ===== *)
theory Inventory
  imports Zom_Prelude
begin

text \<open>
  The inventory tables and the code that writes them: \<open>src/warehouse/inventory-balance.util.ts\<close> and
  \<open>src/warehouse/inventory.service.ts\<close>. A balance row holds the quantities of one item at one
  location in four buckets; every change appends a movement. Rows are identified by their unique
  key (a location by store and code, a balance by item and location) in place of the generated
  uuid. \<open>conflicts\<close> is the oracle of the database: one entry per transaction attempt, \<open>True\<close> when
  PostgreSQL aborts it with a serialization failure (P2034); no entry means no more failures.
\<close>

section \<open>Data\<close>

datatype bucket = ON_HAND | RESERVED | DAMAGED | INCOMING

datatype movement_type =
    OPENING_BALANCE | MANUAL_ADJUSTMENT | ORDER_RESERVED | ORDER_RELEASED | ORDER_SHIPPED
  | ORDER_DELIVERED | RETURN_LOST | RETURN_GOOD | RETURN_DAMAGED | PACKAGING_RECEIVED
  | PACKAGING_CONSUMED | PURCHASE_RECEIVED

record location =
  loc_store :: string
  loc_code :: string
  loc_default :: bool

type_synonym loc_key = "string \<times> string"

record balance =
  bal_item :: string
  bal_loc :: loc_key
  onHand :: int
  reserved :: int
  damaged :: int
  incoming :: int
  version :: int

record movement =
  mv_item :: string
  mv_loc :: loc_key
  mv_type :: movement_type
  mv_bucket :: bucket
  mv_delta :: int
  mv_resulting :: int
  mv_reason :: string
  mv_refType :: "string option"
  mv_refId :: "string option"
  mv_key :: "string option"

record inv_db =
  locations :: "location list"
  balances :: "balance list"
  movements :: "movement list"
  items :: "(string \<times> string) list"
  conflicts :: "bool list"

definition row_key :: "balance \<Rightarrow> string \<times> loc_key" where
  "row_key b = (bal_item b, bal_loc b)"

definition lock_key :: "location \<Rightarrow> loc_key" where
  "lock_key l = (loc_store l, loc_code l)"

section \<open>src/warehouse/inventory-balance.util.ts\<close>

text \<open>\<open>bucketField\<close>: the column of a bucket, as its reader and its writer.\<close>

fun qty :: "bucket \<Rightarrow> balance \<Rightarrow> int" where
  "qty ON_HAND b = onHand b"
| "qty RESERVED b = reserved b"
| "qty DAMAGED b = damaged b"
| "qty INCOMING b = incoming b"

fun set_qty :: "bucket \<Rightarrow> int \<Rightarrow> balance \<Rightarrow> balance" where
  "set_qty ON_HAND v b = b\<lparr>onHand := v\<rparr>"
| "set_qty RESERVED v b = b\<lparr>reserved := v\<rparr>"
| "set_qty DAMAGED v b = b\<lparr>damaged := v\<rparr>"
| "set_qty INCOMING v b = b\<lparr>incoming := v\<rparr>"

definition availableQuantity :: "balance \<Rightarrow> int" where
  "availableQuantity b = onHand b - reserved b - damaged b"

definition validateBalance :: "balance \<Rightarrow> error + unit" where
  "validateBalance b =
     (if \<exists>k \<in> set [ON_HAND, RESERVED, DAMAGED, INCOMING]. 2147483647 < qty k b
      then Inl (BadRequest ''Inventory quantities must be integers no greater than 2147483647'')
      else if onHand b < 0 \<or> reserved b < 0 \<or> damaged b < 0 \<or> incoming b < 0
      then Inl (BadRequest ''Inventory quantities cannot become negative'')
      else if onHand b < reserved b + damaged b
      then Inl (BadRequest ''Reserved and damaged stock exceed on-hand stock'')
      else Inr ())"

definition empty_balance :: "string \<Rightarrow> loc_key \<Rightarrow> balance" where
  "empty_balance item l = \<lparr>bal_item = item, bal_loc = l, onHand = 0, reserved = 0, damaged = 0,
     incoming = 0, version = 1\<rparr>"

definition is_default :: "'a inv_db_scheme \<Rightarrow> loc_key \<Rightarrow> bool" where
  "is_default s l \<longleftrightarrow> (\<exists>x \<in> set (locations s). lock_key x = l \<and> loc_default x)"

definition find_default :: "'a inv_db_scheme \<Rightarrow> string \<Rightarrow> balance option" where
  "find_default s item = find (\<lambda>b. bal_item b = item \<and> is_default s (bal_loc b)) (balances s)"

definition upsert_main :: "string \<Rightarrow> 'a inv_db_scheme \<Rightarrow> 'a inv_db_scheme" where
  "upsert_main store s =
     (if (store, ''MAIN'') \<in> set (map lock_key (locations s)) then s
      else s\<lparr>locations := locations s @ [\<lparr>loc_store = store, loc_code = ''MAIN'', loc_default = True\<rparr>]\<rparr>)"

definition create_balance :: "string \<Rightarrow> loc_key \<Rightarrow> ('a inv_db_scheme, balance) act" where
  "create_balance item l = (\<lambda>s.
     if (item, l) \<in> set (map row_key (balances s)) then (Inl UniqueViolation, s)
     else (Inr (empty_balance item l), s\<lparr>balances := balances s @ [empty_balance item l]\<rparr>))"

definition ensureDefaultBalance :: "string \<Rightarrow> string \<Rightarrow> ('a inv_db_scheme, balance) act" where
  "ensureDefaultBalance store item =
     bnd (reading (\<lambda>s. find_default s item)) (\<lambda>existing. case existing of
       Some b \<Rightarrow> ret b
     | None \<Rightarrow> andthen (writing (upsert_main store)) (create_balance item (store, ''MAIN'')))"

text \<open>
  The two writes that every stock change makes: the balance row (with its version) and the
  movement, whose \<open>(item, idempotency key)\<close> is unique in the database.
\<close>

definition update_row :: "balance \<Rightarrow> bucket \<Rightarrow> int \<Rightarrow> 'a inv_db_scheme \<Rightarrow> 'a inv_db_scheme" where
  "update_row b k v s = s\<lparr>balances := map (\<lambda>x. if row_key x = row_key b
      then (set_qty k v x)\<lparr>version := version x + 1\<rparr> else x) (balances s)\<rparr>"

definition find_movement :: "'a inv_db_scheme \<Rightarrow> string \<Rightarrow> string \<Rightarrow> movement option" where
  "find_movement s item key = find (\<lambda>m. mv_item m = item \<and> mv_key m = Some key) (movements s)"

definition create_movement :: "movement \<Rightarrow> ('a inv_db_scheme, movement) act" where
  "create_movement m = (\<lambda>s. case mv_key m of
       Some key \<Rightarrow> if find_movement s (mv_item m) key \<noteq> None then (Inl UniqueViolation, s)
                   else (Inr m, s\<lparr>movements := movements s @ [m]\<rparr>)
     | None \<Rightarrow> (Inr m, s\<lparr>movements := movements s @ [m]\<rparr>))"

definition post :: "balance \<Rightarrow> int \<Rightarrow> movement \<Rightarrow> ('a inv_db_scheme, movement) act" where
  "post b v m = andthen (writing (update_row b (mv_bucket m) v)) (create_movement m)"

definition moveOnHandInTx ::
  "string \<Rightarrow> string \<Rightarrow> movement_type \<Rightarrow> int \<Rightarrow> string \<Rightarrow> string \<Rightarrow> string \<Rightarrow> string option \<Rightarrow>
   ('a inv_db_scheme, movement) act" where
  "moveOnHandInTx store item ty delta reason refType refId key =
     bnd (ensureDefaultBalance store item) (\<lambda>b.
       let v = onHand b + delta
       in andthen (lift_sum (validateBalance (b\<lparr>onHand := v\<rparr>)))
          (post b v \<lparr>mv_item = item, mv_loc = bal_loc b, mv_type = ty, mv_bucket = ON_HAND,
             mv_delta = delta, mv_resulting = v, mv_reason = reason, mv_refType = Some refType,
             mv_refId = Some refId, mv_key = key\<rparr>))"

section \<open>Transactions with retries\<close>

definition tx_attempt :: "('a inv_db_scheme, 'r) act \<Rightarrow> ('a inv_db_scheme, 'r) act" where
  "tx_attempt m = (\<lambda>s. case conflicts s of
       [] \<Rightarrow> transaction m s
     | c # cs \<Rightarrow> if c then (Inl WriteConflict, s\<lparr>conflicts := cs\<rparr>)
                 else transaction m (s\<lparr>conflicts := cs\<rparr>))"

fun retry_service :: "nat \<Rightarrow> ('a inv_db_scheme, 'r) act \<Rightarrow> ('a inv_db_scheme, 'r) act" where
  "retry_service 0 m s =
     (Inl (Conflict ''Inventory changed concurrently; retry the request''), s)"
| "retry_service (Suc k) m s = (case tx_attempt m s of
       (Inl e, t) \<Rightarrow>
         if e \<noteq> WriteConflict then (Inl e, t)
         else if k = 0 then (Inl (Conflict ''Inventory changed concurrently; retry the request''), t)
         else retry_service k m t
     | (Inr a, t) \<Rightarrow> (Inr a, t))"

section \<open>src/warehouse/inventory.service.ts\<close>

text \<open>
  The three writers look the item up in the store, return the stored movement when the
  idempotency key was used before, and otherwise validate and post one change.
\<close>

definition with_item ::
  "string \<Rightarrow> string \<Rightarrow> string \<Rightarrow> (balance \<Rightarrow> ('a inv_db_scheme, movement) act) \<Rightarrow>
   ('a inv_db_scheme, movement) act" where
  "with_item store item key work =
     bnd (reading (\<lambda>s. (item, store) \<in> set (items s))) (\<lambda>known.
     andthen (require known (NotFound ''Inventory item not found''))
     (bnd (reading (\<lambda>s. find_movement s item key)) (\<lambda>duplicate. case duplicate of
        Some m \<Rightarrow> ret m
      | None \<Rightarrow> bnd (ensureDefaultBalance store item) work)))"

definition adjust ::
  "string \<Rightarrow> string \<Rightarrow> bucket \<Rightarrow> int \<Rightarrow> string \<Rightarrow> string option \<Rightarrow> string option \<Rightarrow> string \<Rightarrow>
   ('a inv_db_scheme, movement) act" where
  "adjust store item bucket delta reason refType refId key =
     retry_service 3 (with_item store item key (\<lambda>b.
       let v = qty bucket b + delta
       in andthen (lift_sum (validateBalance (set_qty bucket v b)))
          (post b v \<lparr>mv_item = item, mv_loc = bal_loc b, mv_type = MANUAL_ADJUSTMENT,
             mv_bucket = bucket, mv_delta = delta, mv_resulting = v, mv_reason = js_trim reason,
             mv_refType = or_null refType, mv_refId = or_null refId, mv_key = Some key\<rparr>)))"

definition applyMovement ::
  "string \<Rightarrow> string \<Rightarrow> movement_type \<Rightarrow> bucket \<Rightarrow> int \<Rightarrow> string \<Rightarrow> string option \<Rightarrow> string option \<Rightarrow>
   string \<Rightarrow> ('a inv_db_scheme, movement) act" where
  "applyMovement store item ty bucket delta reason refType refId key =
     retry_service 3 (with_item store item key (\<lambda>b.
       let v = qty bucket b + delta
       in andthen (lift_sum (validateBalance (set_qty bucket v b)))
          (post b v \<lparr>mv_item = item, mv_loc = bal_loc b, mv_type = ty,
             mv_bucket = bucket, mv_delta = delta, mv_resulting = v, mv_reason = reason,
             mv_refType = refType, mv_refId = refId, mv_key = Some key\<rparr>)))"

definition setOnHand ::
  "string \<Rightarrow> string \<Rightarrow> int \<Rightarrow> string \<Rightarrow> string \<Rightarrow> ('a inv_db_scheme, movement) act" where
  "setOnHand store item quantity reason key =
     retry_service 3 (with_item store item key (\<lambda>b.
       andthen (lift_sum (validateBalance (b\<lparr>onHand := quantity\<rparr>)))
         (post b quantity \<lparr>mv_item = item, mv_loc = bal_loc b, mv_type = MANUAL_ADJUSTMENT,
            mv_bucket = ON_HAND, mv_delta = quantity - onHand b, mv_resulting = quantity,
            mv_reason = js_trim reason, mv_refType = Some ''ABSOLUTE_STOCK_UPDATE'', mv_refId = None,
            mv_key = Some key\<rparr>)))"

text \<open>\<open>movements\<close>: the newest \<open>limit\<close> movements, \<open>limit\<close> clamped to 1..500.\<close>

definition movements_page :: "string \<Rightarrow> string \<Rightarrow> int \<Rightarrow> ('a inv_db_scheme, movement list) act" where
  "movements_page store item limit =
     bnd (reading (\<lambda>s. (item, store) \<in> set (items s))) (\<lambda>known.
     andthen (require known (NotFound ''Inventory item not found''))
       (reading (\<lambda>s. take (nat (min (max limit 1) 500))
          (rev (filter (\<lambda>m. mv_item m = item) (movements s))))))"

section \<open>The ledger invariant\<close>

text \<open>
  \<open>ledger ms r k\<close> is the sum of the movements of bucket \<open>k\<close> of row \<open>r\<close>. The invariant of the tables:
  unique locations, unique balance rows at existing locations, unique idempotency keys per item; every row passes
  \<open>validateBalance\<close> and holds in each bucket the sum of its movements; each movement belongs to a row
  and records the quantity it resulted in.
\<close>

definition mv_row :: "movement \<Rightarrow> string \<times> loc_key" where
  "mv_row m = (mv_item m, mv_loc m)"

definition ledger :: "movement list \<Rightarrow> string \<times> loc_key \<Rightarrow> bucket \<Rightarrow> int" where
  "ledger ms r k = (\<Sum>m\<leftarrow>ms. if mv_row m = r \<and> mv_bucket m = k then mv_delta m else 0)"

definition sane :: "balance \<Rightarrow> bool" where
  "sane b \<longleftrightarrow> 0 \<le> reserved b \<and> 0 \<le> damaged b \<and> 0 \<le> incoming b \<and>
     reserved b + damaged b \<le> onHand b"

definition used_keys :: "movement list \<Rightarrow> (string \<times> string) list" where
  "used_keys ms = map (\<lambda>m. (mv_item m, the (mv_key m))) (filter (\<lambda>m. mv_key m \<noteq> None) ms)"

definition audited :: "movement list \<Rightarrow> bool" where
  "audited ms \<longleftrightarrow> (\<forall>i < length ms. mv_resulting (ms ! i)
     = ledger (take (Suc i) ms) (mv_row (ms ! i)) (mv_bucket (ms ! i)))"

definition inv_ok :: "'a inv_db_scheme \<Rightarrow> bool" where
  "inv_ok s \<longleftrightarrow> distinct (map lock_key (locations s)) \<and> distinct (map row_key (balances s)) \<and>
     distinct (used_keys (movements s)) \<and> (\<forall>b \<in> set (balances s). sane b) \<and>
     (\<forall>b \<in> set (balances s). \<forall>k. qty k b = ledger (movements s) (row_key b) k) \<and>
     mv_row ` set (movements s) \<subseteq> row_key ` set (balances s) \<and> audited (movements s) \<and>
     bal_loc ` set (balances s) \<subseteq> lock_key ` set (locations s)"

text \<open>The row and the movement that a change must agree on.\<close>

definition describes :: "balance \<Rightarrow> int \<Rightarrow> movement \<Rightarrow> bool" where
  "describes b v m \<longleftrightarrow> mv_row m = row_key b \<and> mv_delta m = v - qty (mv_bucket m) b \<and>
     mv_resulting m = v"

lemma validateBalance_iff:
  "validateBalance b = Inr u \<longleftrightarrow> sane b \<and> (\<forall>k. qty k b \<le> 2147483647)"
proof -
  have "(\<forall>k. qty k b \<le> 2147483647) \<longleftrightarrow> onHand b \<le> 2147483647 \<and> reserved b \<le> 2147483647 \<and>
      damaged b \<le> 2147483647 \<and> incoming b \<le> 2147483647"
  proof
    assume a: "\<forall>k. qty k b \<le> 2147483647"
    show "onHand b \<le> 2147483647 \<and> reserved b \<le> 2147483647 \<and> damaged b \<le> 2147483647 \<and>
        incoming b \<le> 2147483647"
      using a[rule_format, of ON_HAND] a[rule_format, of RESERVED] a[rule_format, of DAMAGED]
        a[rule_format, of INCOMING] by simp
  qed (auto intro: bucket.induct)
  then show ?thesis by (auto simp: validateBalance_def sane_def)
qed

lemma qty_set_qty [simp]: "qty j (set_qty k v b) = (if j = k then v else qty j b)"
  by (cases j; cases k) simp_all

lemma set_qty_simps [simp]:
  "row_key (set_qty k v b) = row_key b" "bal_item (set_qty k v b) = bal_item b"
  "bal_loc (set_qty k v b) = bal_loc b" "version (set_qty k v b) = version b"
  by (cases k; simp add: row_key_def)+

lemma version_simps [simp]:
  "row_key (b\<lparr>version := n\<rparr>) = row_key b" "sane (b\<lparr>version := n\<rparr>) = sane b"
  "qty k (b\<lparr>version := n\<rparr>) = qty k b"
  by (simp_all add: row_key_def sane_def) (cases k; simp)

lemma ledger_snoc [simp]:
  "ledger (ms @ [m]) r k = ledger ms r k + (if mv_row m = r \<and> mv_bucket m = k then mv_delta m else 0)"
  by (simp add: ledger_def)

lemma ledger_absent: "r \<notin> mv_row ` set ms \<Longrightarrow> ledger ms r k = 0"
  by (induction ms) (auto simp: ledger_def)

lemma audited_snoc:
  "audited (ms @ [m]) \<longleftrightarrow> audited ms \<and> mv_resulting m = ledger (ms @ [m]) (mv_row m) (mv_bucket m)"
proof -
  have "(\<forall>i < length ms. mv_resulting ((ms @ [m]) ! i)
      = ledger (take (Suc i) (ms @ [m])) (mv_row ((ms @ [m]) ! i)) (mv_bucket ((ms @ [m]) ! i)))
    \<longleftrightarrow> audited ms"
    by (auto simp: audited_def nth_append)
  then show ?thesis
    by (simp add: audited_def less_Suc_eq all_conj_distrib imp_disjL nth_append conj_commute)
qed

lemma used_keys_snoc:
  "used_keys (ms @ [m]) = used_keys ms @ (case mv_key m of None \<Rightarrow> [] | Some key \<Rightarrow> [(mv_item m, key)])"
  by (auto simp: used_keys_def split: option.split)

lemma find_movement_keys:
  "find_movement s item key = None \<longleftrightarrow> (item, key) \<notin> set (used_keys (movements s))"
  by (force simp: find_movement_def find_None_set used_keys_def)

lemma create_movement_ok:
  "create_movement m s = (Inr a, t) \<longleftrightarrow> a = m \<and> t = s\<lparr>movements := movements s @ [m]\<rparr> \<and>
     (\<forall>key. mv_key m = Some key \<longrightarrow> find_movement s (mv_item m) key = None)"
  by (auto simp: create_movement_def split: option.splits)

lemma distinct_row_eq:
  "distinct (map row_key bs) \<Longrightarrow> b \<in> set bs \<Longrightarrow> x \<in> set bs \<Longrightarrow> row_key x = row_key b \<longleftrightarrow> x = b"
  by (auto simp: distinct_map inj_on_def)

lemma map_update_rows:
  "map row_key (map (\<lambda>x. if row_key x = r then (set_qty k v x)\<lparr>version := n x\<rparr> else x) bs) = map row_key bs"
  by simp

lemma update_row_simps [simp]:
  "locations (update_row b k v s) = locations s" "movements (update_row b k v s) = movements s"
  "items (update_row b k v s) = items s" "conflicts (update_row b k v s) = conflicts s"
  "map row_key (balances (update_row b k v s)) = map row_key (balances s)"
  "inv_db.more (update_row b k v s) = inv_db.more s"
  by (simp_all add: update_row_def comp_def if_distrib cong: if_cong)

lemma post_ok:
  "post b v m s = (Inr a, t) \<longleftrightarrow> a = m \<and>
     t = (update_row b (mv_bucket m) v s)\<lparr>movements := movements s @ [m]\<rparr> \<and>
     (\<forall>key. mv_key m = Some key \<longrightarrow> find_movement s (mv_item m) key = None)"
proof -
  have "find_movement (update_row b k v s) i key = find_movement s i key" for k i key
    by (simp add: find_movement_def)
  then show ?thesis by (auto simp: post_def run_ok create_movement_ok)
qed

text \<open>One posted change keeps the ledger.\<close>

lemma post_inv:
  assumes inv: "inv_ok s" and b: "b \<in> set (balances s)" and sane: "sane (set_qty (mv_bucket m) v b)"
    and m: "describes b v m" and run: "post b v m s = (Inr a, t)"
  shows "inv_ok t"
proof -
  let ?s = "update_row b (mv_bucket m) v s"
  have t: "t = ?s\<lparr>movements := movements s @ [m]\<rparr>"
    and fresh: "\<forall>key. mv_key m = Some key \<longrightarrow> find_movement s (mv_item m) key = None"
    using run by (auto simp: post_ok)
  have row: "mv_row m = row_key b" and delta: "mv_delta m = v - qty (mv_bucket m) b"
    and res: "mv_resulting m = v" using m by (auto simp: describes_def)
  have dist: "distinct (map row_key (balances s))" and old: "\<forall>b \<in> set (balances s). sane b"
    and led: "\<forall>b \<in> set (balances s). \<forall>k. qty k b = ledger (movements s) (row_key b) k"
    and dom: "mv_row ` set (movements s) \<subseteq> row_key ` set (balances s)"
    and aud: "audited (movements s)" and keys: "distinct (used_keys (movements s))"
    and locs: "distinct (map lock_key (locations s))"
    using inv by (auto simp: inv_ok_def)
  have rows: "row_key ` set (balances t) = row_key ` set (balances s)"
    by (simp only: t set_map[symmetric]) simp
  have bal: "x \<in> set (balances t) \<Longrightarrow>
      (x = (set_qty (mv_bucket m) v b)\<lparr>version := version b + 1\<rparr>) \<or> (x \<in> set (balances s) \<and> row_key x \<noteq> row_key b)" for x
    using distinct_row_eq[OF dist b] by (auto simp: t update_row_def split: if_splits)
  have "distinct (map lock_key (locations t))" using locs by (simp add: t)
  moreover have "distinct (map row_key (balances t))" using dist by (simp add: t)
  moreover have "distinct (used_keys (movements t))"
    using keys fresh by (auto simp: t used_keys_snoc find_movement_keys split: option.split)
  moreover have "\<forall>x \<in> set (balances t). sane x"
  proof
    fix x assume "x \<in> set (balances t)"
    from bal[OF this] show "sane x" using old sane by (elim disjE) simp_all
  qed
  moreover have "\<forall>x \<in> set (balances t). \<forall>k. qty k x = ledger (movements t) (row_key x) k"
  proof (intro ballI allI)
    fix x k assume "x \<in> set (balances t)"
    from bal[OF this] show "qty k x = ledger (movements t) (row_key x) k"
    proof (elim disjE)
      assume "x = (set_qty (mv_bucket m) v b)\<lparr>version := version b + 1\<rparr>"
      then show ?thesis using led b row delta by (simp add: t)
    next
      assume "x \<in> set (balances s) \<and> row_key x \<noteq> row_key b"
      then show ?thesis using led row by (auto simp: t)
    qed
  qed
  moreover have "mv_row ` set (movements t) \<subseteq> row_key ` set (balances t)"
    using dom b row rows by (auto simp: t)
  moreover have "audited (movements t)"
    using aud led b row delta res by (simp add: t audited_snoc)
  moreover have "bal_loc ` set (balances t) \<subseteq> lock_key ` set (locations t)"
  proof -
    have "snd ` row_key ` set (balances t) = snd ` row_key ` set (balances s)" by (simp only: rows)
    then have "bal_loc ` set (balances t) = bal_loc ` set (balances s)"
      by (simp add: image_image row_key_def)
    then show ?thesis using inv by (simp add: inv_ok_def t)
  qed
  ultimately show ?thesis by (simp add: inv_ok_def)
qed

lemma ensureDefaultBalance_ok:
  assumes "ensureDefaultBalance store item s = (Inr b, t)"
  shows "b \<in> set (balances t)" "bal_item b = item" "movements t = movements s" "items t = items s"
    "conflicts t = conflicts s" "inv_db.more t = inv_db.more s"
  using assms
  by (auto simp: ensureDefaultBalance_def run_ok find_default_def create_balance_def upsert_main_def
      empty_balance_def dest: find_Some_set split: option.splits if_splits)

lemma ensureDefaultBalance_inv:
  assumes inv: "inv_ok s" and run: "ensureDefaultBalance store item s = (Inr b, t)"
  shows "inv_ok t"
proof (cases "find_default s item")
  case (Some x)
  then show ?thesis using inv run by (simp add: ensureDefaultBalance_def run_ok)
next
  case None
  let ?u = "upsert_main store s" and ?e = "empty_balance item (store, ''MAIN'')"
  have u: "balances ?u = balances s" "movements ?u = movements s"
    by (simp_all add: upsert_main_def)
  have t: "t = ?u\<lparr>balances := balances s @ [?e]\<rparr>" and new: "row_key ?e \<notin> row_key ` set (balances s)"
    using run None by (auto simp: ensureDefaultBalance_def run_ok create_balance_def u row_key_def
        empty_balance_def split: if_splits)
  have "distinct (map lock_key (locations t))"
    using inv by (auto simp: t inv_ok_def upsert_main_def lock_key_def)
  moreover have "row_key ?e \<notin> mv_row ` set (movements s)" using inv new by (auto simp: inv_ok_def)
  moreover have "qty k ?e = 0" "sane ?e" for k
    by (cases k; simp add: empty_balance_def) (simp add: sane_def empty_balance_def)
  moreover have "bal_loc ` set (balances t) \<subseteq> lock_key ` set (locations t)"
    using inv by (auto simp: t inv_ok_def upsert_main_def lock_key_def empty_balance_def)
  ultimately show ?thesis
    using inv new by (auto simp: inv_ok_def t u ledger_absent)
qed

text \<open>The location that the moves of an item go to; it does not change while rows are added.\<close>

definition home :: "string \<Rightarrow> 'a inv_db_scheme \<Rightarrow> string \<Rightarrow> loc_key" where
  "home store s item = (case find_default s item of None \<Rightarrow> (store, ''MAIN'') | Some b \<Rightarrow> bal_loc b)"

lemma find_map_same: "(\<And>x. P (f x) = P x) \<Longrightarrow> find P (map f xs) = map_option f (find P xs)"
  by (induction xs) auto

lemma find_default_update_row:
  "find_default (update_row b k v s) item =
     map_option (\<lambda>x. if row_key x = row_key b then (set_qty k v x)\<lparr>version := version x + 1\<rparr> else x)
       (find_default s item)"
  unfolding find_default_def update_row_def
  by (subst find_map_same[symmetric]) (auto simp: is_default_def intro!: arg_cong2[where f = find])

lemma is_default_upsert:
  "l \<in> lock_key ` set (locations s) \<Longrightarrow> is_default (upsert_main store s) l = is_default s l"
  by (auto simp: is_default_def upsert_main_def lock_key_def)

lemma find_default_upsert:
  "inv_ok s \<Longrightarrow> find_default (upsert_main store s) i = find_default s i"
proof -
  assume "inv_ok s"
  then have "is_default (upsert_main store s) (bal_loc b) = is_default s (bal_loc b)"
    if "b \<in> set (balances s)" for b
    using that by (intro is_default_upsert) (auto simp: inv_ok_def)
  moreover have "balances (upsert_main store s) = balances s" by (simp add: upsert_main_def)
  ultimately show ?thesis unfolding find_default_def by (auto intro!: find_cong)
qed

lemma ensureDefaultBalance_home:
  assumes inv: "inv_ok s" and run: "ensureDefaultBalance store item s = (Inr b, t)"
  shows "i \<noteq> item \<Longrightarrow> find_default t i = find_default s i"
    and "bal_loc b = home store s item" "home store t item = home store s item"
proof -
  let ?u = "upsert_main store s" and ?e = "empty_balance item (store, ''MAIN'')"
  have *: "(i \<noteq> item \<longrightarrow> find_default t i = find_default s i) \<and> bal_loc b = home store s item \<and>
      home store t item = home store s item"
  proof (cases "find_default s item")
    case (Some x)
    then show ?thesis using run by (auto simp: ensureDefaultBalance_def run_ok home_def)
  next
    case None
    have t: "t = ?u\<lparr>balances := balances s @ [?e]\<rparr>" and b: "b = ?e"
      using run None by (auto simp: ensureDefaultBalance_def run_ok create_balance_def upsert_main_def
          split: if_splits)
    have "is_default (?u\<lparr>balances := x\<rparr>) l = is_default ?u l" for l x by (simp add: is_default_def)
    then have fd: "find_default t j = (case find_default ?u j of Some x \<Rightarrow> Some x
        | None \<Rightarrow> if j = item \<and> is_default ?u (store, ''MAIN'') then Some ?e else None)" for j
      by (auto simp: t find_default_def find_snoc upsert_main_def empty_balance_def split: option.split)
    then show ?thesis
      using None by (simp add: find_default_upsert[OF inv] home_def b empty_balance_def split: option.split)
  qed
  then show "i \<noteq> item \<Longrightarrow> find_default t i = find_default s i"
    and "bal_loc b = home store s item" "home store t item = home store s item" by auto
qed

lemma keeps_inv_ensure [keeping]: "keeps inv_ok (ensureDefaultBalance store item)"
  using ensureDefaultBalance_inv by (blast intro: keepsI)

text \<open>The shape that every writer of the tables has: pick the row, validate the new row, post.\<close>

lemma change_inv:
  assumes "inv_ok s" and "ensureDefaultBalance store item s = (Inr b, t)"
    and "validateBalance (set_qty (mv_bucket m) v b) = Inr w"
    and "describes b v m" and "post b v m t = (Inr a, u)"
  shows "inv_ok u"
  using assms ensureDefaultBalance_inv ensureDefaultBalance_ok(1)
  by (metis validateBalance_iff post_inv)

lemma set_qty_ON_HAND: "b\<lparr>onHand := v\<rparr> = set_qty ON_HAND v b"
  by simp

lemma keeps_inv_moveOnHandInTx [keeping]:
  "keeps inv_ok (moveOnHandInTx store item ty delta reason refType refId key)"
proof (rule keepsI)
  fix s a u assume s: "inv_ok s"
    and run: "moveOnHandInTx store item ty delta reason refType refId key s = (Inr a, u)"
  from run obtain b t m where b: "ensureDefaultBalance store item s = (Inr b, t)"
    and v: "validateBalance (set_qty (mv_bucket m) (onHand b + delta) b) = Inr ()"
    and m: "mv_item m = item" "mv_loc m = bal_loc b" "mv_bucket m = ON_HAND" "mv_delta m = delta"
      "mv_resulting m = onHand b + delta"
    and p: "post b (onHand b + delta) m t = (Inr a, u)"
    by (force simp: moveOnHandInTx_def run_ok Let_def)
  from m ensureDefaultBalance_ok(2)[OF b] have "describes b (onHand b + delta) m"
    by (simp add: describes_def mv_row_def row_key_def)
  from change_inv[OF s b v this p] show "inv_ok u" .
qed

section \<open>The writers\<close>

text \<open>The current quantity of a bucket of a row; an absent row has none.\<close>

definition level :: "'a inv_db_scheme \<Rightarrow> string \<times> loc_key \<Rightarrow> bucket \<Rightarrow> int" where
  "level s r k = (case find (\<lambda>b. row_key b = r) (balances s) of None \<Rightarrow> 0 | Some b \<Rightarrow> qty k b)"

lemma level_ledger: "inv_ok s \<Longrightarrow> level s r k = ledger (movements s) r k"
proof (cases "find (\<lambda>b. row_key b = r) (balances s)")
  case None
  assume "inv_ok s"
  with None have "r \<notin> mv_row ` set (movements s)" unfolding inv_ok_def find_None_set by fastforce
  then show ?thesis by (simp add: level_def None ledger_absent)
next
  case (Some b)
  assume "inv_ok s"
  with find_Some_set[OF Some] Some show ?thesis by (auto simp: level_def inv_ok_def)
qed

lemma ensure_keeps_table:
  "ensureDefaultBalance store item s = (Inr b, t) \<Longrightarrow> find_movement t i key = find_movement s i key"
  by (simp add: find_movement_def ensureDefaultBalance_ok)

lemma with_item_ok:
  "with_item store item key work s = (Inr a, u) \<longleftrightarrow> (item, store) \<in> set (items s) \<and>
     (case find_movement s item key of
        Some m \<Rightarrow> a = m \<and> u = s
      | None \<Rightarrow> \<exists>b t. ensureDefaultBalance store item s = (Inr b, t) \<and> work b t = (Inr a, u))"
  by (auto simp: with_item_def run_ok split: option.split)

text \<open>One writer: the new value of a bucket and the movement that documents it.\<close>

definition writes :: "string \<Rightarrow> string \<Rightarrow> (balance \<Rightarrow> int) \<Rightarrow> (balance \<Rightarrow> movement) \<Rightarrow>
    (balance \<Rightarrow> ('a inv_db_scheme, movement) act) \<Rightarrow> bool" where
  "writes item key new mv work \<longleftrightarrow> (\<forall>b. work b = andthen (lift_sum (validateBalance
       (set_qty (mv_bucket (mv b)) (new b) b))) (post b (new b) (mv b)) \<and>
     mv_key (mv b) = Some key \<and> (bal_item b = item \<longrightarrow> describes b (new b) (mv b)))"

lemma with_item_writes_inv:
  assumes w: "writes item key new mv work" shows "keeps inv_ok (with_item store item key work)"
proof (rule keepsI)
  fix s a u assume s: "inv_ok s" and run: "with_item store item key work s = (Inr a, u)"
  show "inv_ok u"
  proof (cases "find_movement s item key")
    case None
    with run obtain b t where b: "ensureDefaultBalance store item s = (Inr b, t)"
      and wb: "work b t = (Inr a, u)" by (auto simp: with_item_ok)
    from wb w have v: "validateBalance (set_qty (mv_bucket (mv b)) (new b) b) = Inr ()"
      and p: "post b (new b) (mv b) t = (Inr a, u)" by (auto simp: writes_def run_ok)
    from w ensureDefaultBalance_ok(2)[OF b] have "describes b (new b) (mv b)"
      by (simp add: writes_def)
    from change_inv[OF s b v this p] show ?thesis .
  qed (use s run in \<open>auto simp: with_item_ok\<close>)
qed

lemma with_item_writes_ok:
  assumes w: "writes item key new mv work" and run: "with_item store item key work s = (Inr a, u)"
  shows "find_movement s item key = Some a \<and> u = s \<or>
    find_movement s item key = None \<and> movements u = movements s @ [a] \<and> items u = items s \<and>
    conflicts u = conflicts s \<and> inv_db.more u = inv_db.more s \<and>
    mv_item a = item \<and> mv_key a = Some key \<and> mv_resulting a \<le> 2147483647 \<and> (\<exists>b. a = mv b \<and> describes b (new b) a)"
proof (cases "find_movement s item key")
  case None
  with run obtain b t where b: "ensureDefaultBalance store item s = (Inr b, t)"
    and wb: "work b t = (Inr a, u)" by (auto simp: with_item_ok)
  from wb w have p: "post b (new b) (mv b) t = (Inr a, u)"
    and v: "validateBalance (set_qty (mv_bucket (mv b)) (new b) b) = Inr ()"
    by (auto simp: writes_def run_ok)
  from w ensureDefaultBalance_ok(2)[OF b] have d: "describes b (new b) (mv b)" "mv_item (mv b) = item"
    by (simp_all add: writes_def describes_def mv_row_def row_key_def)
  have "new b \<le> 2147483647"
    using v[unfolded validateBalance_iff, THEN conjunct2, rule_format, of "mv_bucket (mv b)"] by simp
  then have "mv_resulting (mv b) \<le> 2147483647" using d(1) by (simp add: describes_def)
  with p w d None show ?thesis by (auto simp: post_ok ensureDefaultBalance_ok[OF b] writes_def)
qed (use run in \<open>auto simp: with_item_ok\<close>)

lemma find_movement_snoc:
  assumes "find_movement s item key = None" "movements u = movements s @ [m]"
    "mv_item m = item" "mv_key m = Some key"
  shows "find_movement u item key = Some m"
proof -
  have "find P (xs @ [x]) = Some x" if "find P xs = None" "P x" for P :: "movement \<Rightarrow> bool" and xs x
    using that by (induction xs) (auto split: if_splits)
  with assms show ?thesis by (simp add: find_movement_def)
qed

lemma with_item_writes_marks:
  assumes "writes item key new mv work" "with_item store item key work s = (Inr a, u)"
  shows "find_movement u item key = Some a" "(item, store) \<in> set (items u)" "items u = items s"
    "conflicts u = conflicts s"
  using with_item_writes_ok[OF assms] assms(2) find_movement_snoc[of s item key u a]
  by (auto simp: with_item_ok)

lemma with_item_replay:
  "find_movement s item key = Some m \<Longrightarrow> (item, store) \<in> set (items s) \<Longrightarrow>
   with_item store item key work s = (Inr m, s)"
  by (auto simp: with_item_ok)

section \<open>Retries\<close>

lemma conflicts_irrelevant [simp]:
  "inv_ok (s\<lparr>conflicts := cs\<rparr>) = inv_ok s" "find_movement (s\<lparr>conflicts := cs\<rparr>) i k = find_movement s i k"
  by (simp_all add: inv_ok_def find_movement_def)

lemma preserves_tx_attempt: "keeps inv_ok m \<Longrightarrow> preserves inv_ok (tx_attempt m)"
  using preserves_transaction_keeps[of inv_ok m]
  by (auto simp: preserves_def tx_attempt_def split: list.split)

lemma preserves_retry: "keeps inv_ok m \<Longrightarrow> preserves inv_ok (retry_service n m)"
proof (induction n)
  case 0 show ?case by (simp add: preserves_def)
next
  case (Suc n)
  have "inv_ok (snd (retry_service (Suc n) m s))" if "inv_ok s" for s
    using preservesD[OF preserves_tx_attempt[OF Suc.prems] that] Suc
    by (auto simp: preserves_def split: prod.split sum.split)
  then show ?case by (rule preservesI)
qed

lemma tx_attempt_error: "tx_attempt m s = (Inl e, t) \<Longrightarrow> \<exists>cs. t = s\<lparr>conflicts := cs\<rparr>"
proof (cases "conflicts s")
  case Nil
  assume "tx_attempt m s = (Inl e, t)"
  with Nil have "t = s" by (auto simp: tx_attempt_def dest: transaction_error)
  then have "t = s\<lparr>conflicts := conflicts s\<rparr>" by simp
  then show ?thesis by blast
qed (auto simp: tx_attempt_def dest: transaction_error split: if_splits)

lemma retry_error: "retry_service n m s = (Inl e, t) \<Longrightarrow> \<exists>cs. t = s\<lparr>conflicts := cs\<rparr>"
proof (induction n arbitrary: s)
  case 0
  then have "t = s\<lparr>conflicts := conflicts s\<rparr>" by simp
  then show ?case by blast
next
  case (Suc n)
  show ?case
  proof (cases "tx_attempt m s")
    case (Pair r u)
    with Suc.prems obtain d where r: "r = Inl d" by (cases r) auto
    from tx_attempt_error[of m s d u] Pair r obtain cs where u: "u = s\<lparr>conflicts := cs\<rparr>" by auto
    show ?thesis
    proof (cases "t = u")
      case False
      with Suc.prems Pair r have "retry_service n m u = (Inl e, t)" by (auto split: if_splits)
      from Suc.IH[OF this] u show ?thesis by simp
    qed (use u in blast)
  qed
qed

lemma retry_ok:
  "retry_service n m s = (Inr a, t) \<Longrightarrow> \<exists>cs. m (s\<lparr>conflicts := cs\<rparr>) = (Inr a, t)"
proof (induction n arbitrary: s)
  case (Suc n)
  show ?case
  proof (cases "tx_attempt m s")
    case (Pair r u)
    show ?thesis
    proof (cases r)
      case (Inr b)
      with Pair Suc.prems have at: "tx_attempt m s = (Inr a, t)" by simp
      show ?thesis
      proof (cases "conflicts s")
        case Nil
        then have eq: "s\<lparr>conflicts := []\<rparr> = s" by simp
        from at Nil have "m (s\<lparr>conflicts := []\<rparr>) = (Inr a, t)"
          unfolding eq by (simp add: tx_attempt_def transaction_ok)
        then show ?thesis by blast
      qed (use at in \<open>auto simp: tx_attempt_def transaction_ok split: if_splits\<close>)
    next
      case (Inl d)
      with Suc.prems Pair have "retry_service n m u = (Inr a, t)" by (auto split: if_splits)
      from Suc.IH[OF this] tx_attempt_error[of m s d u] Pair Inl show ?thesis by auto
    qed
  qed
qed simp

lemma retry_settled:
  assumes "conflicts s = []"
  shows "retry_service (Suc n) m s = (case transaction m s of
      (Inl e, t) \<Rightarrow> (Inl (if e = WriteConflict
         then Conflict ''Inventory changed concurrently; retry the request'' else e), s)
    | (Inr a, t) \<Rightarrow> (Inr a, t))"
proof -
  have eq: "tx_attempt m s = transaction m s" using assms by (simp add: tx_attempt_def)
  show ?thesis
  proof (cases "transaction m s")
    case (Pair r t)
    show ?thesis
    proof (cases r)
      case (Inl e)
      with Pair transaction_error[of m s e t] have "t = s" by simp
      with Pair Inl eq show ?thesis by (induction n) auto
    qed (use Pair eq in simp)
  qed
qed

lemma retry_aborted:
  "conflicts s = replicate k True \<Longrightarrow> retry_service (k + Suc n) m s
     = retry_service (k + Suc n) m (s\<lparr>conflicts := []\<rparr>)"
proof (induction k arbitrary: s)
  case 0
  then have "s\<lparr>conflicts := []\<rparr> = s" by simp
  then show ?case by simp
next
  case (Suc k)
  then have "retry_service (Suc k + Suc n) m s = retry_service (k + Suc n) m (s\<lparr>conflicts := replicate k True\<rparr>)"
    by (simp add: tx_attempt_def)
  also have "\<dots> = retry_service (k + Suc n) m (s\<lparr>conflicts := []\<rparr>)"
    using Suc.IH[of "s\<lparr>conflicts := replicate k True\<rparr>"] by simp
  also have "\<dots> = retry_service (Suc k + Suc n) m (s\<lparr>conflicts := []\<rparr>)"
    by (simp add: retry_settled del: retry_service.simps)
  finally show ?case .
qed

lemma retry_quiet: "conflicts s = [] \<Longrightarrow> m s = (Inr a, t) \<Longrightarrow> 0 < n \<Longrightarrow> retry_service n m s = (Inr a, t)"
  by (cases n) (simp_all add: tx_attempt_def transaction_def)

section \<open>Properties of the inventory service\<close>

lemma adjust_writes:
  "writes item key (\<lambda>b. qty bucket b + delta)
     (\<lambda>b. \<lparr>mv_item = item, mv_loc = bal_loc b, mv_type = MANUAL_ADJUSTMENT, mv_bucket = bucket,
        mv_delta = delta, mv_resulting = qty bucket b + delta, mv_reason = js_trim reason,
        mv_refType = or_null refType, mv_refId = or_null refId, mv_key = Some key\<rparr>)
     (\<lambda>b. let v = qty bucket b + delta
       in andthen (lift_sum (validateBalance (set_qty bucket v b)))
          (post b v \<lparr>mv_item = item, mv_loc = bal_loc b, mv_type = MANUAL_ADJUSTMENT,
             mv_bucket = bucket, mv_delta = delta, mv_resulting = v, mv_reason = js_trim reason,
             mv_refType = or_null refType, mv_refId = or_null refId, mv_key = Some key\<rparr>))"
  by (simp add: writes_def Let_def describes_def mv_row_def row_key_def)

lemma applyMovement_writes:
  "writes item key (\<lambda>b. qty bucket b + delta)
     (\<lambda>b. \<lparr>mv_item = item, mv_loc = bal_loc b, mv_type = ty, mv_bucket = bucket,
        mv_delta = delta, mv_resulting = qty bucket b + delta, mv_reason = reason,
        mv_refType = refType, mv_refId = refId, mv_key = Some key\<rparr>)
     (\<lambda>b. let v = qty bucket b + delta
       in andthen (lift_sum (validateBalance (set_qty bucket v b)))
          (post b v \<lparr>mv_item = item, mv_loc = bal_loc b, mv_type = ty,
             mv_bucket = bucket, mv_delta = delta, mv_resulting = v, mv_reason = reason,
             mv_refType = refType, mv_refId = refId, mv_key = Some key\<rparr>))"
  by (simp add: writes_def Let_def describes_def mv_row_def row_key_def)

lemma setOnHand_writes:
  "writes item key (\<lambda>b. quantity)
     (\<lambda>b. \<lparr>mv_item = item, mv_loc = bal_loc b, mv_type = MANUAL_ADJUSTMENT, mv_bucket = ON_HAND,
        mv_delta = quantity - onHand b, mv_resulting = quantity, mv_reason = js_trim reason,
        mv_refType = Some ''ABSOLUTE_STOCK_UPDATE'', mv_refId = None, mv_key = Some key\<rparr>)
     (\<lambda>b. andthen (lift_sum (validateBalance (b\<lparr>onHand := quantity\<rparr>)))
         (post b quantity \<lparr>mv_item = item, mv_loc = bal_loc b, mv_type = MANUAL_ADJUSTMENT,
            mv_bucket = ON_HAND, mv_delta = quantity - onHand b, mv_resulting = quantity,
            mv_reason = js_trim reason, mv_refType = Some ''ABSOLUTE_STOCK_UPDATE'', mv_refId = None,
            mv_key = Some key\<rparr>))"
  by (simp add: writes_def describes_def mv_row_def row_key_def)

lemmas writer_defs = adjust_def applyMovement_def setOnHand_def
lemmas writer_writes = adjust_writes applyMovement_writes setOnHand_writes

lemma writers_preserve [preserving]:
  "preserves inv_ok (adjust store item bucket delta reason refType refId key)"
  "preserves inv_ok (applyMovement store item ty bucket delta reason refType refId key)"
  "preserves inv_ok (setOnHand store item quantity reason key)"
  unfolding writer_defs
  by (rule preserves_retry with_item_writes_inv adjust_writes applyMovement_writes setOnHand_writes)+

text \<open>A writer run inside one transaction is an idempotent keyed operation.\<close>

interpretation movement_op: keyed_op "\<lambda>_. True"
  "\<lambda>(store, item, key, bucket, ty, delta, reason, refType, refId). with_item store item key
     (\<lambda>b. let v = qty bucket b + delta
       in andthen (lift_sum (validateBalance (set_qty bucket v b)))
          (post b v \<lparr>mv_item = item, mv_loc = bal_loc b, mv_type = ty,
             mv_bucket = bucket, mv_delta = delta, mv_resulting = v, mv_reason = reason,
             mv_refType = refType, mv_refId = refId, mv_key = Some key\<rparr>))"
  "\<lambda>(store, item, key, _) s. (item, store) \<in> set (items s) \<and> find_movement s item key \<noteq> None"
proof (unfold_locales, goal_cases)
  case (1 s k a t)
  then show ?case using with_item_writes_marks[OF applyMovement_writes] by (cases k) (fastforce simp del: Let_def)
next
  case (2 s k j a t)
  obtain store item key bucket ty delta reason refType refId
    where j: "j = (store, item, key, bucket, ty, delta, reason, refType, refId)"
    by (metis prod_cases7 surj_pair)
  have "set (used_keys (movements s)) \<subseteq> set (used_keys (movements t)) \<and> items t = items s"
    using with_item_writes_ok[OF applyMovement_writes 2(3)[unfolded j prod.case]]
    by (auto simp: used_keys_snoc with_item_ok)
  with 2 show ?case by (auto simp: find_movement_keys split: prod.splits)
next
  case (3 s k)
  then show ?case by (cases k) (auto simp: with_item_replay)
qed simp

lemma writer_effect:
  assumes w: "writes item key new mv work" and inv: "inv_ok s"
    and fresh: "find_movement s item key = None"
    and run: "retry_service 3 (with_item store item key work) s = (Inr m, t)"
  shows "inv_ok t" "movements t = movements s @ [m]" "\<exists>b. m = mv b \<and> describes b (new b) m"
    "level t r k = level s r k + (if r = mv_row m \<and> k = mv_bucket m then mv_delta m else 0)"
    "mv_resulting m = level t (mv_row m) (mv_bucket m)" "mv_item m = item" "mv_resulting m \<le> 2147483647"
proof -
  from retry_ok[OF run] obtain cs
    where r: "with_item store item key work (s\<lparr>conflicts := cs\<rparr>) = (Inr m, t)" by blast
  from with_item_writes_ok[OF w r] fresh
  have mv: "movements t = movements s @ [m]" "\<exists>b. m = mv b \<and> describes b (new b) m" "mv_item m = item" "mv_resulting m \<le> 2147483647" by auto
  have t: "inv_ok t" using keepsD[OF with_item_writes_inv[OF w] _ r] inv by simp
  then have "audited (movements s @ [m])" using mv by (simp add: inv_ok_def)
  then show "inv_ok t" "movements t = movements s @ [m]" "\<exists>b. m = mv b \<and> describes b (new b) m"
    "level t r k = level s r k + (if r = mv_row m \<and> k = mv_bucket m then mv_delta m else 0)"
    "mv_resulting m = level t (mv_row m) (mv_bucket m)" "mv_item m = item" "mv_resulting m \<le> 2147483647"
    using inv mv t by (simp_all add: level_ledger audited_snoc)
qed

lemma writer_replay:
  assumes w: "writes item key new mv work"
    and run: "retry_service 3 (with_item store item key work) s = (Inr m, t)" and "conflicts t = []"
  shows "retry_service 3 (with_item store item key work') t = (Inr m, t)"
proof -
  from retry_ok[OF run] obtain cs
    where r: "with_item store item key work (s\<lparr>conflicts := cs\<rparr>) = (Inr m, t)" by blast
  from with_item_writes_marks(1,2)[OF w r] have "with_item store item key work' t = (Inr m, t)"
    by (rule with_item_replay)
  with assms(3) show ?thesis by (simp add: retry_quiet)
qed

text \<open>A store with one item and no stock, whose first transaction attempt is aborted.\<close>

definition sample_db :: inv_db where
  "sample_db = \<lparr>locations = [], balances = [], movements = [], items = [(''item'', ''shop'')],
     conflicts = [True]\<rparr>"

lemma sample_db_ok: "inv_ok sample_db"
  by (simp add: inv_ok_def sample_db_def used_keys_def audited_def)

text \<open>
  C1. The three writers of the inventory service keep the ledger, whatever their outcome and
  whichever transaction attempts the database aborts: rows, locations and idempotency keys stay
  unique, no row goes negative or below its reserved and damaged units, every
  bucket equals the sum of its movements, and every movement records the quantity it left.
\<close>

theorem inventory_writers_keep_ledger:
  assumes "inv_ok s"
  shows "inv_ok (snd (adjust store item bucket delta reason refType refId key s)) \<and>
    inv_ok (snd (applyMovement store item ty bucket delta reason refType refId key s)) \<and>
    inv_ok (snd (setOnHand store item quantity reason key s))"
  by (intro conjI preservesD[OF writers_preserve(1) assms] preservesD[OF writers_preserve(2) assms]
      preservesD[OF writers_preserve(3) assms])

lemma inventory_writers_keep_ledger_witness:
  "inv_ok (snd (adjust ''shop'' ''item'' ON_HAND 5 ''count'' None None ''k1'' sample_db))"
  using inventory_writers_keep_ledger[OF sample_db_ok] by blast

text \<open>
  C2. A stock change with a new idempotency key appends exactly one movement and moves exactly the
  named bucket of the item's row: by the requested delta for \<open>adjust\<close>, to the counted quantity for
  \<open>setOnHand\<close>; the result fits a 32-bit column, and every other quantity of every row stays.
\<close>

theorem inventory_change_exact:
  assumes "inv_ok s" and "find_movement s item key = None"
  shows "(adjust store item bucket delta reason refType refId key s = (Inr m, t) \<longrightarrow>
       movements t = movements s @ [m] \<and> mv_item m = item \<and> mv_resulting m = level t (mv_row m) bucket \<and> mv_resulting m \<le> 2147483647 \<and>
       level t r k = level s r k + (if r = mv_row m \<and> k = bucket then delta else 0)) \<and>
    (setOnHand store item quantity reason key s = (Inr m, t) \<longrightarrow>
       movements t = movements s @ [m] \<and> mv_item m = item \<and> level t (mv_row m) ON_HAND = quantity \<and>
       (r \<noteq> mv_row m \<or> k \<noteq> ON_HAND \<longrightarrow> level t r k = level s r k))"
proof (intro conjI[OF impI impI])
  assume "adjust store item bucket delta reason refType refId key s = (Inr m, t)"
  note eff = writer_effect[OF adjust_writes assms this[unfolded adjust_def]]
  from eff(3) have "mv_bucket m = bucket" "mv_delta m = delta" by auto
  with eff(2,4-7) show "movements t = movements s @ [m] \<and> mv_item m = item \<and>
      mv_resulting m = level t (mv_row m) bucket \<and> mv_resulting m \<le> 2147483647 \<and>
      level t r k = level s r k + (if r = mv_row m \<and> k = bucket then delta else 0)" by metis
next
  assume "setOnHand store item quantity reason key s = (Inr m, t)"
  note eff = writer_effect[OF setOnHand_writes assms this[unfolded setOnHand_def]]
  from eff(3) have "mv_bucket m = ON_HAND" "mv_resulting m = quantity" by auto
  with eff(2) eff(4)[of r k] eff(5,6) show "movements t = movements s @ [m] \<and> mv_item m = item \<and>
      level t (mv_row m) ON_HAND = quantity \<and>
      (r \<noteq> mv_row m \<or> k \<noteq> ON_HAND \<longrightarrow> level t r k = level s r k)" by auto
qed

definition sample_count :: movement where
  "sample_count = \<lparr>mv_item = ''item'', mv_loc = (''shop'', ''MAIN''), mv_type = MANUAL_ADJUSTMENT,
     mv_bucket = ON_HAND, mv_delta = 7, mv_resulting = 7, mv_reason = ''count'',
     mv_refType = Some ''ABSOLUTE_STOCK_UPDATE'', mv_refId = None, mv_key = Some ''k1''\<rparr>"

lemma sample_count_run: "fst (setOnHand ''shop'' ''item'' 7 '' count '' ''k1'' sample_db) = Inr sample_count"
  by code_simp

lemma inventory_change_exact_witness:
  "level (snd (setOnHand ''shop'' ''item'' 7 '' count '' ''k1'' sample_db))
     (''item'', ''shop'', ''MAIN'') ON_HAND = 7"
proof -
  have "find_movement sample_db ''item'' ''k1'' = None"
    by (simp add: sample_db_def find_movement_def)
  from inventory_change_exact[OF sample_db_ok this] run_result[OF sample_count_run]
  have "level (snd (setOnHand ''shop'' ''item'' 7 '' count '' ''k1'' sample_db)) (mv_row sample_count) ON_HAND = 7"
    by blast
  then show ?thesis by (simp add: sample_count_def mv_row_def)
qed


definition sample_adjust :: movement where
  "sample_adjust = \<lparr>mv_item = ''item'', mv_loc = (''shop'', ''MAIN''), mv_type = MANUAL_ADJUSTMENT,
     mv_bucket = INCOMING, mv_delta = 4, mv_resulting = 4, mv_reason = ''supplier'',
     mv_refType = None, mv_refId = Some ''po-1'', mv_key = Some ''k2''\<rparr>"

lemma sample_adjust_run:
  "fst (adjust ''shop'' ''item'' INCOMING 4 ''supplier '' (Some '' '') (Some ''po-1'') ''k2'' sample_db)
     = Inr sample_adjust"
  by code_simp


text \<open>
  A writer that fails leaves every table as it was; a transaction the database aborts three
  times is reported as a conflict, and one that is aborted at most twice has the effect of its
  next attempt.
\<close>

theorem inventory_retry_atomic:
  "(setOnHand store item quantity reason key s = (Inl e, t) \<longrightarrow> (\<exists>cs. t = s\<lparr>conflicts := cs\<rparr>)) \<and>
   (conflicts s = [True, True, True] @ cs \<longrightarrow> setOnHand store item quantity reason key s
      = (Inl (Conflict ''Inventory changed concurrently; retry the request''), s\<lparr>conflicts := cs\<rparr>)) \<and>
   (conflicts s = replicate n True \<and> n < 3 \<longrightarrow> setOnHand store item quantity reason key s
      = setOnHand store item quantity reason key (s\<lparr>conflicts := []\<rparr>))"
proof (intro conjI impI)
  assume "setOnHand store item quantity reason key s = (Inl e, t)"
  then show "\<exists>cs. t = s\<lparr>conflicts := cs\<rparr>" unfolding setOnHand_def by (rule retry_error)
next
  assume "conflicts s = [True, True, True] @ cs"
  then show "setOnHand store item quantity reason key s
      = (Inl (Conflict ''Inventory changed concurrently; retry the request''), s\<lparr>conflicts := cs\<rparr>)"
    by (simp add: setOnHand_def eval_nat_numeral tx_attempt_def)
next
  assume "conflicts s = replicate n True \<and> n < 3"
  then show "setOnHand store item quantity reason key s
      = setOnHand store item quantity reason key (s\<lparr>conflicts := []\<rparr>)"
    using retry_aborted[of s n "2 - n"] by (simp add: setOnHand_def)
qed

lemma inventory_retry_atomic_witness:
  "setOnHand ''shop'' ''item'' 7 ''count'' ''k1'' sample_db
     = setOnHand ''shop'' ''item'' 7 ''count'' ''k1'' (sample_db\<lparr>conflicts := []\<rparr>)"
  by (rule inventory_retry_atomic[where n = 1, THEN conjunct2, THEN conjunct2, THEN mp])
     (simp add: sample_db_def)

end
