(* ===== verification/Order_Stock.thy ===== *)
theory Order_Stock
  imports Inventory Decimal_Lib
begin

text \<open>
  Order-driven stock: \<open>src/ecommerce/order-stock.util.ts\<close> (which inventory items an order line
  consumes, what they cost, how far a balance can move) and \<open>src/ecommerce/order-stock.service.ts\<close>
  (reserve on dispatch, deduct on delivery, release on cancel or return, apply and correct the
  condition of returned goods). The order tables extend the inventory tables; a line carries the
  warehouse variant its query joins. \<open>scoped\<close> tells whether the service runs on the client of an
  enclosing order transaction (\<open>isOrderTransaction\<close>).
\<close>

section \<open>Data\<close>

datatype product_kind = STANDARD | BUNDLE

datatype stock_status = Line_RESERVED | Line_RELEASED | Line_DELIVERED

datatype role = PRODUCT | GIFT | PACKAGING

datatype product_condition = Cond_GOOD | Cond_DAMAGED | Cond_LOST | Cond_RETURNED | Cond_MISSING

record physical_variant =
  pv_kind :: product_kind
  pv_item :: "string option"
  pv_components :: "(string option \<times> int) list"
  pv_costPrice :: rat

record gift =
  gift_quantity :: int
  gift_variant :: physical_variant

record requirement =
  req_variant :: "string option"
  req_material :: string
  req_item :: "string option"
  req_perUnit :: int

record warehouse_variant =
  wv_id :: string
  wv_physical :: physical_variant
  wv_gift :: "gift option"
  wv_packaging :: "requirement list"

record order_line =
  ol_id :: string
  ol_quantity :: int
  ol_status :: "stock_status option"
  ol_createdAt :: int
  ol_variant :: "warehouse_variant option"

record order_row =
  or_id :: string
  or_name :: "string option"
  or_store :: string
  or_lines :: "order_line list"

record stock_db = inv_db +
  orders :: "order_row list"

record stock_unit =
  u_item :: string
  u_quantity :: int
  u_role :: role

section \<open>src/ecommerce/order-stock.util.ts\<close>

text \<open>\<open>add\<close> of \<open>expandOrderLine\<close>: one unit per item and role, quantities summed.\<close>

fun bump_unit :: "string \<Rightarrow> int \<Rightarrow> role \<Rightarrow> stock_unit list \<Rightarrow> stock_unit list" where
  "bump_unit item q r [] = [\<lparr>u_item = item, u_quantity = q, u_role = r\<rparr>]"
| "bump_unit item q r (u # us) =
     (if u_item u = item \<and> u_role u = r then u\<lparr>u_quantity := u_quantity u + q\<rparr> # us
      else u # bump_unit item q r us)"

definition add_unit :: "string option \<Rightarrow> int \<Rightarrow> role \<Rightarrow> stock_unit list \<Rightarrow> stock_unit list" where
  "add_unit i q r us = (case i of
       None \<Rightarrow> us
     | Some item \<Rightarrow> if item = [] \<or> q \<le> 0 then us else bump_unit item q r us)"

definition addPhysical :: "physical_variant \<Rightarrow> int \<Rightarrow> role \<Rightarrow> stock_unit list \<Rightarrow> stock_unit list" where
  "addPhysical v q r us =
     (if pv_kind v = BUNDLE then fold (\<lambda>(i, n). add_unit i (n * q) r) (pv_components v) us
      else add_unit (pv_item v) q r us)"

text \<open>Variant-specific packaging rules override product-level ones per material.\<close>

definition packagingFor :: "string \<Rightarrow> requirement list \<Rightarrow> requirement list" where
  "packagingFor variant reqs =
     (let specific = filter (\<lambda>r. req_variant r = Some variant) reqs;
          overridden = set (map req_material specific)
      in specific @ filter (\<lambda>r. req_variant r = None \<and> req_material r \<notin> overridden) reqs)"

definition expandOrderLine :: "order_line \<Rightarrow> stock_unit list" where
  "expandOrderLine line = (case ol_variant line of
       None \<Rightarrow> []
     | Some v \<Rightarrow>
         if ol_quantity line \<le> 0 then []
         else
           let us = addPhysical (wv_physical v) (ol_quantity line) PRODUCT [];
               us = (case wv_gift v of None \<Rightarrow> us
                     | Some g \<Rightarrow> addPhysical (gift_variant g) (gift_quantity g * ol_quantity line) GIFT us)
           in fold (\<lambda>r. add_unit (req_item r) (req_perUnit r * ol_quantity line) PACKAGING)
                (packagingFor (wv_id v) (wv_packaging v)) us)"

record line_costs =
  productCost :: rat
  giftCost :: rat
  packagingCost :: rat

definition orderLineCosts ::
  "decimal_lib \<Rightarrow> int \<Rightarrow> warehouse_variant option \<Rightarrow> (string \<Rightarrow> rat option) \<Rightarrow> line_costs" where
  "orderLineCosts D quantity variant unitCosts = (case variant of
       None \<Rightarrow> \<lparr>productCost = 0, giftCost = 0, packagingCost = 0\<rparr>
     | Some v \<Rightarrow>
         if quantity \<le> 0 then \<lparr>productCost = 0, giftCost = 0, packagingCost = 0\<rparr>
         else \<lparr>productCost = dtimes D (pv_costPrice (wv_physical v)) (of_int quantity),
               giftCost = (case wv_gift v of None \<Rightarrow> 0
                 | Some g \<Rightarrow> dtimes D (pv_costPrice (gift_variant g)) (of_int (gift_quantity g * quantity))),
               packagingCost = fold (\<lambda>r acc. dplus D acc
                   (dtimes D (case unitCosts (req_material r) of None \<Rightarrow> 0 | Some c \<Rightarrow> c)
                      (of_int (req_perUnit r * quantity))))
                 (packagingFor (wv_id v) (wv_packaging v)) 0\<rparr>)"

definition packagingMaterialIds :: "order_line list \<Rightarrow> string list" where
  "packagingMaterialIds lines = concat (map (\<lambda>l. case ol_variant l of
       None \<Rightarrow> []
     | Some v \<Rightarrow> map req_material (packagingFor (wv_id v) (wv_packaging v))) lines)"

definition clampDelta :: "balance \<Rightarrow> bucket \<Rightarrow> int \<Rightarrow> int" where
  "clampDelta b k delta =
     (let available = max (availableQuantity b) 0
      in if delta > 0 then (if k = RESERVED \<or> k = DAMAGED then min delta available else delta)
         else let reducible = (if k = ON_HAND then available else max (qty k b) 0)
              in - min (- delta) reducible)"

record condition_effect =
  eff_type :: movement_type
  eff_bucket :: bucket
  eff_sign :: int

definition conditionEffects :: "product_condition \<Rightarrow> bool \<Rightarrow> condition_effect list" where
  "conditionEffects c delivered =
     (let good = \<lparr>eff_type = RETURN_GOOD, eff_bucket = ON_HAND, eff_sign = 1\<rparr>;
          dmg = \<lparr>eff_type = RETURN_DAMAGED, eff_bucket = DAMAGED, eff_sign = 1\<rparr>
      in case c of
           Cond_GOOD \<Rightarrow> if delivered then [good] else []
         | Cond_RETURNED \<Rightarrow> if delivered then [good] else []
         | Cond_DAMAGED \<Rightarrow> if delivered then [good\<lparr>eff_type := RETURN_DAMAGED\<rparr>, dmg] else [dmg]
         | Cond_LOST \<Rightarrow> if delivered then []
             else [\<lparr>eff_type = RETURN_LOST, eff_bucket = ON_HAND, eff_sign = -1\<rparr>]
         | Cond_MISSING \<Rightarrow> if delivered then []
             else [\<lparr>eff_type = RETURN_LOST, eff_bucket = ON_HAND, eff_sign = -1\<rparr>])"

section \<open>src/ecommerce/order-stock.service.ts: queries\<close>

abbreviation ORDER_LINE_REFERENCE :: string where
  "ORDER_LINE_REFERENCE \<equiv> ''ORDER_LINE''"

definition for_line :: "string \<Rightarrow> movement \<Rightarrow> bool" where
  "for_line line m \<longleftrightarrow> mv_refType m = Some ORDER_LINE_REFERENCE \<and> mv_refId m = Some line"

definition is_return :: "movement \<Rightarrow> bool" where
  "is_return m \<longleftrightarrow> mv_type m \<in> {RETURN_GOOD, RETURN_DAMAGED, RETURN_LOST}"

definition physicalUnits :: "order_line \<Rightarrow> stock_unit list" where
  "physicalUnits line = filter (\<lambda>u. u_role u \<noteq> PACKAGING) (expandOrderLine line)"

definition netReserved :: "string \<Rightarrow> string \<Rightarrow> 'a inv_db_scheme \<Rightarrow> int" where
  "netReserved line item s = (\<Sum>m\<leftarrow>movements s.
     if for_line line m \<and> mv_item m = item \<and> mv_bucket m = RESERVED then mv_delta m else 0)"

definition netReturned :: "string \<Rightarrow> string \<Rightarrow> string \<Rightarrow> bucket \<Rightarrow> 'a inv_db_scheme \<Rightarrow> int" where
  "netReturned order line item k s = (\<Sum>m\<leftarrow>movements s.
     if mv_item m = item \<and> mv_bucket m = k \<and> is_return m \<and>
        (for_line line m \<or> (mv_refType m \<in> {Some ''ORDER_RETURN'', Some ''ORDER_RETURN_CORRECTION''} \<and>
           mv_refId m = Some order))
     then mv_delta m else 0)"

text \<open>\<open>groupBy\<close> returns one group per item, here in the order of their first movement.\<close>

definition first_occurrences :: "'a list \<Rightarrow> 'a list" where
  "first_occurrences xs = rev (remdups (rev xs))"

definition orphanReservations :: "order_line \<Rightarrow> 'a inv_db_scheme \<Rightarrow> (string \<times> int) list" where
  "orphanReservations line s =
     (if ol_status line \<noteq> Some Line_RESERVED then []
      else filter (\<lambda>(i, n). n > 0 \<and> i \<notin> set (map u_item (physicalUnits line)))
        (map (\<lambda>i. (i, netReserved (ol_id line) i s))
          (first_occurrences (map mv_item
            (filter (\<lambda>m. for_line (ol_id line) m \<and> mv_bucket m = RESERVED) (movements s))))))"

definition find_order :: "string \<Rightarrow> 'a stock_db_scheme \<Rightarrow> order_row option" where
  "find_order oid s = find (\<lambda>o'. or_id o' = oid) (orders s)"

definition find_line :: "string \<Rightarrow> 'a stock_db_scheme \<Rightarrow> order_line option" where
  "find_line lid s = find (\<lambda>l. ol_id l = lid) (concat (map or_lines (orders s)))"

definition order_label :: "order_row \<Rightarrow> string" where
  "order_label o' = (case or_name o' of None \<Rightarrow> or_id o' | Some n \<Rightarrow> n)"

definition map_line :: "string \<Rightarrow> (order_line \<Rightarrow> order_line) \<Rightarrow> 'a stock_db_scheme \<Rightarrow> 'a stock_db_scheme" where
  "map_line lid f s = s\<lparr>orders := map (\<lambda>o'. o'\<lparr>or_lines :=
     map (\<lambda>l. if ol_id l = lid then f l else l) (or_lines o')\<rparr>) (orders s)\<rparr>"

definition setStatus :: "string \<Rightarrow> stock_status \<Rightarrow> ('a stock_db_scheme, unit) act" where
  "setStatus lid st = writing (map_line lid (\<lambda>l. l\<lparr>ol_status := Some st\<rparr>))"

section \<open>src/ecommerce/order-stock.service.ts: moves\<close>

record move_input =
  mi_type :: movement_type
  mi_bucket :: bucket
  mi_delta :: int
  mi_reason :: string
  mi_line :: string
  mi_key :: string

definition clamp_reason :: "move_input \<Rightarrow> int \<Rightarrow> string" where
  "clamp_reason inp applied = (if applied = mi_delta inp then mi_reason inp
     else mi_reason inp @ '' (only '' @ show_int \<bar>applied\<bar> @ '' of '' @ show_int \<bar>mi_delta inp\<bar> @ '' in stock)'')"

text \<open>The transaction of \<open>move\<close>: it returns what was moved, zero included.\<close>

definition move_body :: "string \<Rightarrow> string \<Rightarrow> move_input \<Rightarrow> ('a stock_db_scheme, int) act" where
  "move_body store item inp =
     bnd (reading (\<lambda>s. find_movement s item (mi_key inp))) (\<lambda>duplicate. case duplicate of
       Some m \<Rightarrow> ret (mv_delta m)
     | None \<Rightarrow> bnd (ensureDefaultBalance store item) (\<lambda>b.
         let applied = clampDelta b (mi_bucket inp) (mi_delta inp);
             v = qty (mi_bucket inp) b + applied
         in if applied = 0 then ret 0
            else andthen (post b v \<lparr>mv_item = item, mv_loc = bal_loc b, mv_type = mi_type inp,
                    mv_bucket = mi_bucket inp, mv_delta = applied, mv_resulting = v,
                    mv_reason = clamp_reason inp applied, mv_refType = Some ORDER_LINE_REFERENCE,
                    mv_refId = Some (mi_line inp), mv_key = Some (mi_key inp)\<rparr>)
                 (ret applied)))"

fun retry_move :: "nat \<Rightarrow> ('a inv_db_scheme, 'r) act \<Rightarrow> ('a inv_db_scheme, 'r) act" where
  "retry_move 0 m s = (Inl (Conflict ''Inventory changed concurrently''), s)"
| "retry_move (Suc k) m s = (case tx_attempt m s of
       (Inl e, t) \<Rightarrow> if e \<noteq> WriteConflict \<or> k = 0 then (Inl e, t) else retry_move k m t
     | (Inr a, t) \<Rightarrow> (Inr a, t))"

definition move :: "bool \<Rightarrow> string \<Rightarrow> string \<Rightarrow> move_input \<Rightarrow> ('a stock_db_scheme, int) act" where
  "move scoped store item inp =
     (if scoped then move_body store item inp else retry_move 3 (move_body store item inp))"

section \<open>src/ecommerce/order-stock.service.ts: operations\<close>

definition reserve_unit :: "bool \<Rightarrow> order_row \<Rightarrow> order_line \<Rightarrow> stock_unit \<Rightarrow> ('a stock_db_scheme, int) act" where
  "reserve_unit scoped order line u = move scoped (or_store order) (u_item u)
     \<lparr>mi_type = ORDER_RESERVED, mi_bucket = RESERVED, mi_delta = u_quantity u,
      mi_reason = ''Reserved for order '' @ order_label order, mi_line = ol_id line,
      mi_key = ''order-reserve:'' @ ol_id line\<rparr>"

definition reserve_line :: "bool \<Rightarrow> order_row \<Rightarrow> order_line \<Rightarrow> ('a stock_db_scheme, unit) act" where
  "reserve_line scoped order line =
     (if ol_variant line = None \<or> ol_status line \<noteq> None then ret ()
      else andthen (for_each (reserve_unit scoped order line) (physicalUnits line))
             (setStatus (ol_id line) Line_RESERVED))"

definition reserveOrder :: "bool \<Rightarrow> string \<Rightarrow> ('a stock_db_scheme, unit) act" where
  "reserveOrder scoped oid = bnd (reading (find_order oid)) (\<lambda>o'. case o' of
       None \<Rightarrow> ret ()
     | Some order \<Rightarrow> for_each (reserve_line scoped order) (or_lines order))"

definition settle :: "bool \<Rightarrow> order_row \<Rightarrow> order_line \<Rightarrow> string \<Rightarrow> int \<Rightarrow> ('a stock_db_scheme, int) act" where
  "settle scoped order line item reserved' = move scoped (or_store order) item
     \<lparr>mi_type = ORDER_DELIVERED, mi_bucket = RESERVED, mi_delta = - reserved',
      mi_reason = ''Reservation settled: order '' @ order_label order @ '' delivered'',
      mi_line = ol_id line, mi_key = ''order-deliver-release:'' @ ol_id line\<rparr>"

definition deduct :: "bool \<Rightarrow> order_row \<Rightarrow> order_line \<Rightarrow> string \<Rightarrow> int \<Rightarrow> ('a stock_db_scheme, int) act" where
  "deduct scoped order line item quantity = move scoped (or_store order) item
     \<lparr>mi_type = ORDER_DELIVERED, mi_bucket = ON_HAND, mi_delta = - quantity,
      mi_reason = ''Order '' @ order_label order @ '' delivered'', mi_line = ol_id line,
      mi_key = ''order-deliver:'' @ ol_id line\<rparr>"

definition deliver_unit :: "bool \<Rightarrow> order_row \<Rightarrow> order_line \<Rightarrow> stock_unit \<Rightarrow> ('a stock_db_scheme, int) act" where
  "deliver_unit scoped order line u =
     (if u_role u = PACKAGING then move scoped (or_store order) (u_item u)
        \<lparr>mi_type = PACKAGING_CONSUMED, mi_bucket = ON_HAND, mi_delta = - u_quantity u,
         mi_reason = ''Packaging used for delivered order '' @ order_label order,
         mi_line = ol_id line, mi_key = ''order-packaging:'' @ ol_id line\<rparr>
      else bnd (reading (netReserved (ol_id line) (u_item u))) (\<lambda>reserved'.
        andthen (if reserved' > 0 then settle scoped order line (u_item u) reserved' else ret 0)
          (deduct scoped order line (u_item u) (u_quantity u))))"

definition deliver_orphan :: "bool \<Rightarrow> order_row \<Rightarrow> order_line \<Rightarrow> string \<times> int \<Rightarrow> ('a stock_db_scheme, int) act" where
  "deliver_orphan scoped order line = (\<lambda>(item, reserved').
     andthen (settle scoped order line item reserved') (deduct scoped order line item reserved'))"

definition deliver_line ::
  "bool \<Rightarrow> int option \<Rightarrow> order_row \<Rightarrow> order_line \<Rightarrow> ('a stock_db_scheme, unit) act" where
  "deliver_line scoped deliveredAt order line =
     (if ol_variant line = None \<or> ol_status line = Some Line_DELIVERED then ret ()
      else if (\<exists>d \<in> set_option deliveredAt. ol_status line = None \<and> ol_createdAt line > d) then ret ()
      else andthen (for_each (deliver_unit scoped order line) (expandOrderLine line))
        (bnd (reading (orphanReservations line)) (\<lambda>orphans.
          andthen (for_each (deliver_orphan scoped order line) orphans)
            (setStatus (ol_id line) Line_DELIVERED))))"

definition deliverOrder :: "bool \<Rightarrow> string \<Rightarrow> int option \<Rightarrow> ('a stock_db_scheme, unit) act" where
  "deliverOrder scoped oid deliveredAt = bnd (reading (find_order oid)) (\<lambda>o'. case o' of
       None \<Rightarrow> ret ()
     | Some order \<Rightarrow> for_each (deliver_line scoped deliveredAt order) (or_lines order))"

definition release_item ::
  "bool \<Rightarrow> string \<Rightarrow> string \<Rightarrow> order_line \<Rightarrow> string \<Rightarrow> int \<Rightarrow> ('a stock_db_scheme, int) act" where
  "release_item scoped store label line item reserved' = move scoped store item
     \<lparr>mi_type = ORDER_RELEASED, mi_bucket = RESERVED, mi_delta = - reserved',
      mi_reason = ''Released: order '' @ label @ '' cancelled or returned'', mi_line = ol_id line,
      mi_key = ''order-release:'' @ ol_id line\<rparr>"

definition release_unit ::
  "bool \<Rightarrow> string \<Rightarrow> string \<Rightarrow> order_line \<Rightarrow> stock_unit \<Rightarrow> ('a stock_db_scheme, int) act" where
  "release_unit scoped store label line u =
     bnd (reading (netReserved (ol_id line) (u_item u))) (\<lambda>reserved'.
       if reserved' \<le> 0 then ret 0 else release_item scoped store label line (u_item u) reserved')"

definition releaseLine :: "bool \<Rightarrow> string \<Rightarrow> string \<Rightarrow> order_line \<Rightarrow> ('a stock_db_scheme, unit) act" where
  "releaseLine scoped store label line =
     andthen (for_each (release_unit scoped store label line) (physicalUnits line))
       (bnd (reading (orphanReservations line)) (\<lambda>orphans.
         andthen (for_each (\<lambda>(item, n). release_item scoped store label line item n) orphans)
           (setStatus (ol_id line) Line_RELEASED)))"

definition releaseOrder :: "bool \<Rightarrow> string \<Rightarrow> ('a stock_db_scheme, unit) act" where
  "releaseOrder scoped oid = bnd (reading (find_order oid)) (\<lambda>o'. case o' of
       None \<Rightarrow> ret ()
     | Some order \<Rightarrow> for_each (\<lambda>line. if ol_status line \<noteq> Some Line_RESERVED then ret ()
         else releaseLine scoped (or_store order) (order_label order) line) (or_lines order))"

definition bucket_name :: "bucket \<Rightarrow> string" where
  "bucket_name k = (case k of ON_HAND \<Rightarrow> ''ON_HAND'' | RESERVED \<Rightarrow> ''RESERVED''
     | DAMAGED \<Rightarrow> ''DAMAGED'' | INCOMING \<Rightarrow> ''INCOMING'')"

definition condition_name :: "product_condition \<Rightarrow> string" where
  "condition_name c = (case c of Cond_GOOD \<Rightarrow> ''GOOD'' | Cond_DAMAGED \<Rightarrow> ''DAMAGED''
     | Cond_LOST \<Rightarrow> ''LOST'' | Cond_RETURNED \<Rightarrow> ''RETURNED'' | Cond_MISSING \<Rightarrow> ''MISSING'')"

record return_input =
  ri_store :: string
  ri_order :: string
  ri_label :: string
  ri_line :: string
  ri_condition :: product_condition
  ri_correction :: bool
  ri_recordedAt :: int

text \<open>The two halves of \<open>applyReturnCondition\<close> for one product unit: undo, then apply.\<close>

definition reverse_returned ::
  "bool \<Rightarrow> return_input \<Rightarrow> string \<Rightarrow> bucket \<Rightarrow> ('a stock_db_scheme, int) act" where
  "reverse_returned scoped inp item k =
     bnd (reading (netReturned (ri_order inp) (ri_line inp) item k)) (\<lambda>applied.
       if applied = 0 then ret 0
       else move scoped (ri_store inp) item
         \<lparr>mi_type = (if k = DAMAGED then RETURN_DAMAGED else if applied > 0 then RETURN_GOOD else RETURN_LOST),
          mi_bucket = k, mi_delta = - applied,
          mi_reason = ''Correction: reversing earlier return condition (order '' @ ri_label inp @ '')'',
          mi_line = ri_line inp,
          mi_key = ''return-reverse:'' @ ri_line inp @ '':'' @ bucket_name k @ '':'' @
            show_int (ri_recordedAt inp)\<rparr>)"

definition effect_key :: "return_input \<Rightarrow> nat \<Rightarrow> string" where
  "effect_key inp index =
     (let base = ''return:'' @ ri_line inp @ '':'' @ condition_name (ri_condition inp)
      in if ri_correction inp
         then base @ '':'' @ show_int (int index) @ '':'' @ show_int (ri_recordedAt inp)
         else if index = 0 then base else base @ '':'' @ show_int (int index))"

definition apply_effect ::
  "bool \<Rightarrow> return_input \<Rightarrow> stock_unit \<Rightarrow> nat \<times> condition_effect \<Rightarrow> ('a stock_db_scheme, int) act" where
  "apply_effect scoped inp u = (\<lambda>(index, e). move scoped (ri_store inp) (u_item u)
     \<lparr>mi_type = eff_type e, mi_bucket = eff_bucket e, mi_delta = eff_sign e * u_quantity u,
      mi_reason = ''Return condition: '' @ condition_name (ri_condition inp) @ '' (order '' @
        ri_label inp @ '')'',
      mi_line = ri_line inp, mi_key = effect_key inp index\<rparr>)"

definition return_unit ::
  "bool \<Rightarrow> return_input \<Rightarrow> bool \<Rightarrow> stock_unit \<Rightarrow> bool \<Rightarrow> ('a stock_db_scheme, bool) act" where
  "return_unit scoped inp delivered u updated =
     (if u_role u \<noteq> PRODUCT then ret updated
      else andthen (if ri_correction inp
          then for_each (reverse_returned scoped inp (u_item u)) [DAMAGED, ON_HAND] else ret ())
        (fold_act (\<lambda>e upd. bnd (apply_effect scoped inp u e) (\<lambda>applied. ret (upd \<or> applied \<noteq> 0)))
          (enumerate 0 (conditionEffects (ri_condition inp) delivered)) updated))"

definition applyReturnCondition :: "bool \<Rightarrow> return_input \<Rightarrow> ('a stock_db_scheme, bool) act" where
  "applyReturnCondition scoped inp = bnd (reading (find_line (ri_line inp))) (\<lambda>l. case l of
       None \<Rightarrow> ret False
     | Some line \<Rightarrow>
         if ol_variant line = None then ret False
         else andthen (if ol_status line = Some Line_RESERVED
             then releaseLine scoped (ri_store inp) (ri_label inp) line else ret ())
           (fold_act (return_unit scoped inp (ol_status line = Some Line_DELIVERED))
             (expandOrderLine line) False))"

text \<open>
  \<open>reconcileReturnTargets\<close>: brings the returned quantities of a line to the targets; items with
  earlier return movements and no target are brought back to zero.
\<close>

definition with_prior :: "string list \<Rightarrow> (string \<times> int \<times> int) list \<Rightarrow> (string \<times> int \<times> int) list" where
  "with_prior prior targets =
     targets @ map (\<lambda>i. (i, 0, 0)) (filter (\<lambda>i. i \<notin> fst ` set targets) prior)"

definition target_deltas :: "int \<Rightarrow> int \<Rightarrow> int \<Rightarrow> int \<Rightarrow> (bucket \<times> int) list" where
  "target_deltas targetOnHand targetDamaged onHand' damaged' =
     (if targetDamaged < damaged' then [(DAMAGED, targetDamaged - damaged')] else []) @
     [(ON_HAND, targetOnHand - onHand')] @
     (if targetDamaged > damaged' then [(DAMAGED, targetDamaged - damaged')] else [])"

definition reconcile_step ::
  "bool \<Rightarrow> string \<Rightarrow> string \<Rightarrow> int \<Rightarrow> string \<Rightarrow> nat \<times> bucket \<times> int \<Rightarrow> bool \<Rightarrow> ('a stock_db_scheme, bool) act" where
  "reconcile_step scoped store line revision item = (\<lambda>(index, k, delta) updated.
     if delta = 0 then ret updated
     else bnd (move scoped store item
         \<lparr>mi_type = (if k = DAMAGED then RETURN_DAMAGED else if delta > 0 then RETURN_GOOD else RETURN_LOST),
          mi_bucket = k, mi_delta = delta, mi_reason = ''Warehouse condition allocation reconciled'',
          mi_line = line,
          mi_key = ''return-allocation:'' @ line @ '':'' @ show_int revision @ '':'' @ item @ '':'' @
            show_int (int index)\<rparr>)
       (\<lambda>applied. ret (updated \<or> applied \<noteq> 0)))"

definition reconcile_item ::
  "bool \<Rightarrow> string \<Rightarrow> string \<Rightarrow> string \<Rightarrow> int \<Rightarrow> string \<times> int \<times> int \<Rightarrow> bool \<Rightarrow> ('a stock_db_scheme, bool) act" where
  "reconcile_item scoped store oid line revision = (\<lambda>(item, targetOnHand, targetDamaged) updated.
     bnd (reading (netReturned oid line item ON_HAND)) (\<lambda>onHand'.
     bnd (reading (netReturned oid line item DAMAGED)) (\<lambda>damaged'.
       fold_act (reconcile_step scoped store line revision item)
         (enumerate 0 (target_deltas targetOnHand targetDamaged onHand' damaged')) updated)))"

definition reconcileReturnTargets ::
  "bool \<Rightarrow> string \<Rightarrow> string \<Rightarrow> string \<Rightarrow> int \<Rightarrow> (string \<times> int \<times> int) list \<Rightarrow> ('a stock_db_scheme, bool) act" where
  "reconcileReturnTargets scoped store oid lid revision targets =
     bnd (reading (find_order oid)) (\<lambda>o'. case o' of
       None \<Rightarrow> ret False
     | Some order \<Rightarrow> (case find (\<lambda>l. ol_id l = lid) (or_lines order) of
         None \<Rightarrow> ret False
       | Some line \<Rightarrow>
           andthen (if ol_status line = Some Line_RESERVED
               then releaseLine scoped store (order_label order) line else ret ())
             (bnd (reading (\<lambda>s. first_occurrences (map mv_item
                 (filter (\<lambda>m. for_line lid m \<and> is_return m) (movements s))))) (\<lambda>prior.
               fold_act (reconcile_item scoped store oid lid revision)
                 (with_prior prior targets) False))))"

section \<open>What a line consumes\<close>

definition unit_key :: "stock_unit \<Rightarrow> string \<times> role" where
  "unit_key u = (u_item u, u_role u)"

definition unit_total :: "string \<Rightarrow> role \<Rightarrow> stock_unit list \<Rightarrow> int" where
  "unit_total item r us = (\<Sum>u\<leftarrow>us. if unit_key u = (item, r) then u_quantity u else 0)"

definition units_ok :: "stock_unit list \<Rightarrow> bool" where
  "units_ok us \<longleftrightarrow> distinct (map unit_key us) \<and> (\<forall>u \<in> set us. 0 < u_quantity u \<and> u_item u \<noteq> [])"

lemma bump_unit_keys: "set (map unit_key (bump_unit item q r us)) = insert (item, r) (set (map unit_key us))"
  by (induction us) (auto simp: unit_key_def)

lemma units_ok_Cons:
  "units_ok (u # us) \<longleftrightarrow> unit_key u \<notin> set (map unit_key us) \<and> 0 < u_quantity u \<and> u_item u \<noteq> [] \<and> units_ok us"
  by (auto simp: units_ok_def)

lemma bump_unit_ok: "units_ok us \<Longrightarrow> 0 < q \<Longrightarrow> item \<noteq> [] \<Longrightarrow> units_ok (bump_unit item q r us)"
proof (induction us)
  case (Cons u us)
  show ?case
  proof (cases "u_item u = item \<and> u_role u = r")
    case True
    with Cons.prems show ?thesis by (simp add: units_ok_Cons unit_key_def)
  next
    case False
    then have "unit_key u \<noteq> (item, r)" by (auto simp: unit_key_def)
    with False Cons.prems Cons.IH show ?thesis by (auto simp: units_ok_Cons bump_unit_keys simp del: set_map)
  qed
qed (simp add: units_ok_def)

lemma bump_unit_total:
  "unit_total i r' (bump_unit item q r us) = unit_total i r' us + (if i = item \<and> r' = r then q else 0)"
  by (induction us) (auto simp: unit_total_def unit_key_def)

definition counts :: "string option \<Rightarrow> int \<Rightarrow> string \<Rightarrow> int" where
  "counts i q item = (if i = Some item \<and> item \<noteq> [] \<and> 0 < q then q else 0)"

lemma add_unit_ok [intro]: "units_ok us \<Longrightarrow> units_ok (add_unit i q r us)"
  by (auto simp: add_unit_def bump_unit_ok split: option.split)

lemma add_unit_total:
  "unit_total item r' (add_unit i q r us) = unit_total item r' us + (if r' = r then counts i q item else 0)"
  by (auto simp: add_unit_def counts_def bump_unit_total split: option.split)

text \<open>What \<open>q\<close> pieces of a variant contain of an item: itself, or its bundle components.\<close>

definition contains :: "physical_variant \<Rightarrow> int \<Rightarrow> string \<Rightarrow> int" where
  "contains v q item =
     (if pv_kind v = BUNDLE then \<Sum>(i, n)\<leftarrow>pv_components v. counts i (n * q) item
      else counts (pv_item v) q item)"

lemma fold_add_ok: "units_ok us \<Longrightarrow> units_ok (fold (\<lambda>x. add_unit (f x) (g x) r) xs us)"
  by (induction xs arbitrary: us) auto

lemma fold_add_total:
  "unit_total item r' (fold (\<lambda>x. add_unit (f x) (g x) r) xs us) =
     unit_total item r' us + (if r' = r then \<Sum>x\<leftarrow>xs. counts (f x) (g x) item else 0)"
  by (induction xs arbitrary: us) (auto simp: add_unit_total)

lemma addPhysical_ok: "units_ok us \<Longrightarrow> units_ok (addPhysical v q r us)"
  by (auto simp: addPhysical_def case_prod_beta' intro: fold_add_ok)

lemma addPhysical_total:
  "unit_total item r' (addPhysical v q r us) = unit_total item r' us + (if r' = r then contains v q item else 0)"
  by (simp add: addPhysical_def contains_def add_unit_total fold_add_total case_prod_beta')

lemma expandOrderLine_ok: "units_ok (expandOrderLine line)"
  by (auto simp: expandOrderLine_def Let_def units_ok_def[of "[]"] intro!: fold_add_ok addPhysical_ok
      split: option.split)

lemma unit_total_member:
  "units_ok us \<Longrightarrow> u \<in> set us \<Longrightarrow> u_quantity u = unit_total (u_item u) (u_role u) us"
proof (induction us)
  case (Cons v us)
  have zero: "unit_total i r vs = 0" if "(i, r) \<notin> set (map unit_key vs)" for i r vs
    using that by (induction vs) (auto simp: unit_total_def)
  show ?case
  proof (cases "u = v")
    case True
    with Cons.prems zero[of "u_item v" "u_role v" us] show ?thesis
      by (auto simp: unit_total_def units_ok_def unit_key_def)
  next
    case False
    with Cons.prems have "u \<in> set us" "unit_key v \<noteq> unit_key u" by (auto simp: units_ok_def)
    with Cons show ?thesis by (auto simp: unit_total_def units_ok_def unit_key_def)
  qed
qed simp

section \<open>How far a balance moves\<close>

lemma clampDelta_sane:
  assumes "sane b" shows "sane (set_qty k (qty k b + clampDelta b k d) b)"
  using assms by (cases k) (auto simp: sane_def clampDelta_def availableQuantity_def Let_def)

lemma clampDelta_range:
  assumes "sane b"
  shows "0 \<le> d \<Longrightarrow> 0 \<le> clampDelta b k d \<and> clampDelta b k d \<le> d"
    and "d \<le> 0 \<Longrightarrow> d \<le> clampDelta b k d \<and> clampDelta b k d \<le> 0"
  using assms by (cases k; auto simp: sane_def clampDelta_def availableQuantity_def Let_def)+

lemma clampDelta_maximal:
  assumes "sane b" "0 \<le> d \<and> 0 \<le> e \<and> e \<le> d \<or> d \<le> e \<and> e \<le> 0"
    and "sane (set_qty k (qty k b + e) b)"
  shows "\<bar>e\<bar> \<le> \<bar>clampDelta b k d\<bar>"
  using assms by (cases k; auto simp: sane_def clampDelta_def availableQuantity_def Let_def)

lemma clampDelta_exact:
  assumes "sane b" "sane (set_qty k (qty k b + d) b)" shows "clampDelta b k d = d"
  using assms by (cases k; auto simp: sane_def clampDelta_def availableQuantity_def Let_def)

section \<open>Moves\<close>

lemma find_movement_more [simp]:
  "find_movement (s\<lparr>orders := x\<rparr>) i key = find_movement s i key"
  by (simp add: find_movement_def)

lemma inv_ok_orders [simp]: "inv_ok (s\<lparr>orders := x\<rparr>) = inv_ok s"
  by (simp add: inv_ok_def)

lemma ensure_orders:
  "ensureDefaultBalance store item s = (Inr b, t) \<Longrightarrow> orders t = orders s"
  by (auto simp: ensureDefaultBalance_def run_ok create_balance_def upsert_main_def
      split: option.splits if_splits)

definition moved :: "string \<Rightarrow> string \<Rightarrow> move_input \<Rightarrow> 'a stock_db_scheme \<Rightarrow> int \<Rightarrow> movement \<Rightarrow> bool" where
  "moved store item inp s n m \<longleftrightarrow> mv_row m = (item, home store s item) \<and> mv_type m = mi_type inp \<and>
     mv_bucket m = mi_bucket inp \<and> mv_delta m = n \<and> for_line (mi_line inp) m \<and>
     mv_key m = Some (mi_key inp)"

definition move_post :: "string \<Rightarrow> string \<Rightarrow> move_input \<Rightarrow> 'a stock_db_scheme \<Rightarrow> int \<Rightarrow> 'a stock_db_scheme \<Rightarrow> bool" where
  "move_post store item inp s n t \<longleftrightarrow>
    inv_ok t \<and> orders t = orders s \<and> (\<forall>i. home store t i = home store s i) \<and>
    ((\<exists>m. find_movement s item (mi_key inp) = Some m \<and> n = mv_delta m \<and> movements t = movements s) \<or>
     find_movement s item (mi_key inp) = None \<and>
       (\<exists>b. sane b \<and> (\<forall>k. qty k b = level s (item, home store s item) k) \<and>
          n = clampDelta b (mi_bucket inp) (mi_delta inp)) \<and>
       (if n = 0 then movements t = movements s
        else \<exists>m. moved store item inp s n m \<and> movements t = movements s @ [m]))"

text \<open>
  The three ways a move ends: the key was used, nothing can move, or one movement is appended for
  the clamped part of the delta.
\<close>

lemma home_update_row: "home store (update_row b k v s) i = home store s i"
  by (simp add: home_def find_default_update_row row_key_def split: option.split)

lemma home_movements [simp]:
  "home store (s\<lparr>movements := x\<rparr>) i = home store s i" "home store (s\<lparr>conflicts := y\<rparr>) i = home store s i"
  by (simp_all add: home_def find_default_def is_default_def)

lemma home_orders [simp]: "home store (s\<lparr>orders := x\<rparr>) i = home store s i"
  by (simp add: home_def find_default_def is_default_def)

lemma ensure_home_all:
  assumes "inv_ok s" "ensureDefaultBalance store item s = (Inr b, t)"
  shows "home store t i = home store s i"
  using ensureDefaultBalance_home[OF assms] by (cases "i = item") (simp_all add: home_def)

lemma move_body_ok:
  assumes inv: "inv_ok s" and run: "move_body store item inp s = (Inr n, t)"
  shows "move_post store item inp s n t"
proof (cases "find_movement s item (mi_key inp)")
  case (Some m)
  with run inv show ?thesis by (auto simp: move_body_def move_post_def run_ok)
next
  case None
  from run None obtain b u where b: "ensureDefaultBalance store item s = (Inr b, u)"
    and rest: "(let applied = clampDelta b (mi_bucket inp) (mi_delta inp);
             v = qty (mi_bucket inp) b + applied
         in if applied = 0 then ret 0
            else andthen (post b v \<lparr>mv_item = item, mv_loc = bal_loc b, mv_type = mi_type inp,
                    mv_bucket = mi_bucket inp, mv_delta = applied, mv_resulting = v,
                    mv_reason = clamp_reason inp applied, mv_refType = Some ORDER_LINE_REFERENCE,
                    mv_refId = Some (mi_line inp), mv_key = Some (mi_key inp)\<rparr>)
                 (ret applied)) u = (Inr n, t)"
    by (auto simp: move_body_def run_ok)
  note e = ensureDefaultBalance_ok[OF b] and eh = ensureDefaultBalance_home(2,3)[OF inv b]
  have u: "inv_ok u" by (rule ensureDefaultBalance_inv[OF inv b])
  have n: "n = clampDelta b (mi_bucket inp) (mi_delta inp)"
    using rest by (auto simp: Let_def run_ok split: if_splits)
  have sane: "sane b" using u e(1) by (simp add: inv_ok_def)
  have row: "row_key b = (item, home store s item)" using e(2) eh(1) by (simp add: row_key_def)
  have lev: "qty k b = level s (item, home store s item) k" for k
    using u e(1,3) row by (simp add: level_ledger[OF inv] inv_ok_def)
  show ?thesis
  proof (cases "n = 0")
    case True
    with rest n have "t = u" by (simp add: ret_ok)
    with True None u n sane lev e(3) ensure_orders[OF b] ensure_home_all[OF inv b] show ?thesis
      by (auto simp: move_post_def)
  next
    case False
    define v where "v = qty (mi_bucket inp) b + n"
    define m where "m = \<lparr>mv_item = item, mv_loc = bal_loc b, mv_type = mi_type inp,
        mv_bucket = mi_bucket inp, mv_delta = n, mv_resulting = v,
        mv_reason = clamp_reason inp n, mv_refType = Some ORDER_LINE_REFERENCE,
        mv_refId = Some (mi_line inp), mv_key = Some (mi_key inp)\<rparr>"
    from rest False n have p: "post b v m u = (Inr m, t)"
      by (auto simp: Let_def run_ok post_ok m_def v_def)
    have m: "mv_bucket m = mi_bucket inp" "describes b v m"
      using e(2) by (simp_all add: m_def v_def describes_def mv_row_def row_key_def)
    have "sane (set_qty (mv_bucket m) v b)" using clampDelta_sane[OF sane] n m(1) by (simp add: v_def)
    from post_inv[OF u e(1) this m(2) p] have inv_t: "inv_ok t" .
    have t: "t = (update_row b (mv_bucket m) v u)\<lparr>movements := movements u @ [m]\<rparr>"
      using p by (simp add: post_ok)
    have "moved store item inp s n m" using eh(1) by (simp add: moved_def m_def mv_row_def for_line_def)
    moreover have "orders t = orders s" using ensure_orders[OF b] by (simp add: t update_row_def)
    moreover have "home store t i = home store s i" for i
      by (simp add: t home_update_row ensure_home_all[OF inv b])
    ultimately show ?thesis using inv_t None False n sane lev e(3) t by (auto simp: move_post_def)
  qed
qed

text \<open>The same inside and outside an order transaction: retries only repeat the attempt.\<close>

lemma tx_attempt_ok: "tx_attempt m s = (Inr a, t) \<Longrightarrow> \<exists>cs. m (s\<lparr>conflicts := cs\<rparr>) = (Inr a, t)"
proof (cases "conflicts s")
  case Nil
  then have eq: "s\<lparr>conflicts := []\<rparr> = s" by simp
  assume "tx_attempt m s = (Inr a, t)"
  with Nil have "m (s\<lparr>conflicts := []\<rparr>) = (Inr a, t)"
    unfolding eq by (simp add: tx_attempt_def transaction_ok)
  then show ?thesis by blast
qed (auto simp: tx_attempt_def transaction_ok split: if_splits)

lemma retry_move_ok: "retry_move k m s = (Inr a, t) \<Longrightarrow> \<exists>cs. m (s\<lparr>conflicts := cs\<rparr>) = (Inr a, t)"
proof (induction k arbitrary: s)
  case (Suc k)
  show ?case
  proof (cases "tx_attempt m s")
    case (Pair r u)
    show ?thesis
    proof (cases r)
      case (Inl e)
      with Pair Suc.prems have "retry_move k m u = (Inr a, t)" by (auto split: if_splits)
      from Suc.IH[OF this] tx_attempt_error[of m s e u] Pair Inl show ?thesis by auto
    qed (use Pair Suc.prems tx_attempt_ok in auto)
  qed
qed simp

lemma level_conflicts [simp]: "level (s\<lparr>conflicts := cs\<rparr>) r k = level s r k"
  by (simp add: level_def)

lemma move_ok:
  assumes inv: "inv_ok s" and run: "move scoped store item inp s = (Inr n, t)"
  shows "move_post store item inp s n t"
proof (cases scoped)
  case True
  with run show ?thesis by (simp add: move_def move_body_ok[OF inv])
next
  case False
  with run have "retry_move 3 (move_body store item inp) s = (Inr n, t)" by (simp add: move_def)
  from retry_move_ok[OF this] obtain cs where "move_body store item inp (s\<lparr>conflicts := cs\<rparr>) = (Inr n, t)"
    by blast
  from move_body_ok[OF _ this] inv have "move_post store item inp (s\<lparr>conflicts := cs\<rparr>) n t" by simp
  then show ?thesis by (cases "n = 0") (simp_all add: move_post_def moved_def)
qed

lemma keeps_inv_move [keeping]: "keeps inv_ok (move scoped store item inp)"
  by (rule keepsI) (auto dest!: move_ok simp: move_post_def)

lemma keeps_orders_move: "keeps (\<lambda>s. inv_ok s \<and> P (orders s)) (move scoped store item inp)"
  by (rule keepsI) (auto dest!: move_ok simp: move_post_def)

section \<open>Invariants of the operations\<close>

lemma keeps_prod [keeping]: "(\<And>a b. x = (a, b) \<Longrightarrow> keeps I (f a b)) \<Longrightarrow> keeps I (case x of (a, b) \<Rightarrow> f a b)"
  by (cases x) simp

lemma keeps_prod_app [keeping]:
  "(\<And>a b. x = (a, b) \<Longrightarrow> keeps I (f a b c)) \<Longrightarrow> keeps I ((case x of (a, b) \<Rightarrow> f a b) c)"
  by (cases x) simp

lemma keeps_setStatus [keeping]: "keeps inv_ok (setStatus lid st)"
  unfolding setStatus_def by (rule keeps_writing) (simp add: map_line_def)

lemmas reserve_defs = reserveOrder_def reserve_line_def reserve_unit_def
lemmas deliver_defs = deliverOrder_def deliver_line_def deliver_orphan_def deliver_unit_def
  settle_def deduct_def
lemmas release_defs = releaseOrder_def releaseLine_def release_unit_def release_item_def
lemmas return_defs = applyReturnCondition_def return_unit_def apply_effect_def reverse_returned_def
lemmas reconcile_defs = reconcileReturnTargets_def reconcile_item_def reconcile_step_def

lemma keeps_inv_release [keeping]: "keeps inv_ok (releaseLine scoped store label line)"
  unfolding release_defs by (intro keeping)

lemma keeps_inv_order_stock [keeping]:
  "keeps inv_ok (reserveOrder scoped oid)" "keeps inv_ok (deliverOrder scoped oid deliveredAt)"
  "keeps inv_ok (releaseOrder scoped oid)" "keeps inv_ok (applyReturnCondition scoped inp)"
  "keeps inv_ok (reconcileReturnTargets scoped store oid lid revision targets)"
  unfolding reserve_defs deliver_defs releaseOrder_def return_defs reconcile_defs
  by (intro keeping)+

section \<open>Status loops\<close>

text \<open>
  The shared shape of \<open>reserveOrder\<close>, \<open>deliverOrder\<close> and \<open>releaseOrder\<close>: for each line of the order,
  nothing when it is to be skipped, and otherwise stock moves followed by a status that makes the
  next pass skip it.
\<close>

locale status_loop =
  fixes skip :: "order_line \<Rightarrow> bool"
    and st :: stock_status
    and op_line :: "order_row \<Rightarrow> order_line \<Rightarrow> ('a stock_db_scheme, unit) act"
  assumes skipped: "skip l \<Longrightarrow> op_line o' l = ret ()"
    and sets: "\<not> skip l \<Longrightarrow> inv_ok s \<Longrightarrow> op_line o' l s = (Inr u, t) \<Longrightarrow>
      inv_ok t \<and> orders t = orders (map_line (ol_id l) (\<lambda>l. l\<lparr>ol_status := Some st\<rparr>) s)"
    and skip_st: "skip (l\<lparr>ol_status := Some st\<rparr>)"
begin

definition pass :: "string \<Rightarrow> ('a stock_db_scheme, unit) act" where
  "pass oid = bnd (reading (find_order oid)) (\<lambda>o'. case o' of
       None \<Rightarrow> ret ()
     | Some order \<Rightarrow> for_each (op_line order) (or_lines order))"

definition mark :: "string set \<Rightarrow> order_row \<Rightarrow> order_row" where
  "mark ids o' = o'\<lparr>or_lines := map (\<lambda>l. if ol_id l \<in> ids then l\<lparr>ol_status := Some st\<rparr> else l) (or_lines o')\<rparr>"

lemma mark_mark: "mark A (mark B o') = mark (A \<union> B) o'"
  by (auto simp: mark_def)

lemma loop_marks:
  "inv_ok s \<Longrightarrow> for_each (op_line order) ls s = (Inr u, t) \<Longrightarrow>
   inv_ok t \<and> orders t = map (mark (ol_id ` {l \<in> set ls. \<not> skip l})) (orders s)"
proof (induction ls arbitrary: s)
  case Nil
  then show ?case by (simp add: ret_ok mark_def)
next
  case (Cons l ls)
  then obtain v w where l: "op_line order l s = (Inr v, w)" and ls: "for_each (op_line order) ls w = (Inr u, t)"
    by (auto simp: run_ok)
  show ?case
  proof (cases "skip l")
    case True
    with l have "w = s" by (simp add: skipped ret_ok)
    moreover have "{x \<in> set (l # ls). \<not> skip x} = {x \<in> set ls. \<not> skip x}" using True by auto
    ultimately show ?thesis using Cons.IH[OF Cons.prems(1)] ls by simp
  next
    case False
    from sets[OF False Cons.prems(1) l] have w: "inv_ok w" "orders w = map (mark {ol_id l}) (orders s)"
      by (simp_all add: map_line_def mark_def)
    have "{x \<in> set (l # ls). \<not> skip x} = {x \<in> set ls. \<not> skip x} \<union> {l}" using False by auto
    with Cons.IH[OF w(1) ls] w(2) show ?thesis by (simp add: mark_mark image_Un)
  qed
qed

lemma all_skipped: "\<forall>l \<in> set ls. skip l \<Longrightarrow> for_each (op_line o') ls t = (Inr (), t)"
  by (induction ls) (simp_all add: skipped ret_def andthen_def bnd_def)

theorem pass_twice:
  assumes inv: "inv_ok s" and run: "pass oid s = (Inr u, t)"
  shows "pass oid t = (Inr (), t)"
proof (cases "find_order oid s")
  case None
  with run show ?thesis by (auto simp: pass_def run_ok)
next
  case (Some order)
  define ids where "ids = ol_id ` {l \<in> set (or_lines order). \<not> skip l}"
  from run Some have "for_each (op_line order) (or_lines order) s = (Inr u, t)"
    by (simp add: pass_def run_ok)
  from loop_marks[OF inv this] have o: "orders t = map (mark ids) (orders s)" by (simp add: ids_def)
  have "find (\<lambda>o'. or_id o' = oid) (map (mark ids) (orders s))
      = map_option (mark ids) (find (\<lambda>o'. or_id o' = oid) (orders s))"
    by (rule find_map_same) (simp add: mark_def)
  with Some have f: "find_order oid t = Some (mark ids order)" by (simp add: find_order_def o)
  have "\<forall>l \<in> set (or_lines (mark ids order)). skip l"
  proof
    fix l assume "l \<in> set (or_lines (mark ids order))"
    then obtain l' where l': "l' \<in> set (or_lines order)"
      and l: "l = (if ol_id l' \<in> ids then l'\<lparr>ol_status := Some st\<rparr> else l')" by (auto simp: mark_def)
    show "skip l"
    proof (cases "ol_id l' \<in> ids")
      case False
      with l' have "skip l'" unfolding ids_def by blast
      with False l show ?thesis by simp
    qed (simp add: l skip_st)
  qed
  from all_skipped[OF this, of "mark ids order" t] f show ?thesis
    by (simp add: pass_def reading_def bnd_def)
qed

end

lemma keeps_orders_moves [keeping]: "keeps (\<lambda>s. inv_ok s \<and> P (orders s)) (move scoped store item inp)"
  by (rule keeps_orders_move)

lemma keeps_orders_units:
  "keeps (\<lambda>s. inv_ok s \<and> orders s = os) (for_each (reserve_unit scoped order line) us)"
  "keeps (\<lambda>s. inv_ok s \<and> orders s = os) (for_each (deliver_unit scoped order line) us)"
  "keeps (\<lambda>s. inv_ok s \<and> orders s = os) (for_each (deliver_orphan scoped order line) ors)"
  "keeps (\<lambda>s. inv_ok s \<and> orders s = os) (for_each (release_unit scoped store label line) us)"
  "keeps (\<lambda>s. inv_ok s \<and> orders s = os)
     (for_each (\<lambda>(item, n). release_item scoped store label line item n) ors)"
  unfolding reserve_unit_def deliver_defs release_defs by (intro keeping)+

lemma setStatus_ok:
  "setStatus lid st s = (Inr u, t) \<longleftrightarrow> t = map_line lid (\<lambda>l. l\<lparr>ol_status := Some st\<rparr>) s"
  by (simp add: setStatus_def run_ok)

lemma map_line_simps [simp]:
  "inv_ok (map_line lid f s) = inv_ok s" "movements (map_line lid f s) = movements s"
  "home store (map_line lid f s) i = home store s i" "level (map_line lid f s) r k = level s r k"
  by (simp_all add: map_line_def level_def)

lemma map_line_orders: "orders v = orders s \<Longrightarrow> orders (map_line lid f v) = orders (map_line lid f s)"
  by (simp add: map_line_def)

interpretation reserving: status_loop "\<lambda>l. ol_variant l = None \<or> ol_status l \<noteq> None" Line_RESERVED
  "reserve_line scoped"
proof (unfold_locales, goal_cases)
  case (2 l s order u t)
  then obtain a v where "for_each (reserve_unit scoped order l) (physicalUnits l) s = (Inr a, v)"
    and t: "t = map_line (ol_id l) (\<lambda>l. l\<lparr>ol_status := Some Line_RESERVED\<rparr>) v"
    by (auto simp: reserve_line_def run_ok setStatus_ok)
  with keepsD[OF keeps_orders_units(1)[of "orders s"]] 2(2) have "inv_ok v \<and> orders v = orders s" by blast
  with t show ?case by (simp add: map_line_orders[of v s])
qed (simp_all add: reserve_line_def)

interpretation delivering: status_loop
  "\<lambda>l. ol_variant l = None \<or> ol_status l = Some Line_DELIVERED \<or>
     (\<exists>d \<in> set_option deliveredAt. ol_status l = None \<and> ol_createdAt l > d)" Line_DELIVERED
  "deliver_line scoped deliveredAt"
proof (unfold_locales, goal_cases)
  case (2 l s order u t)
  then obtain a v b w where v: "for_each (deliver_unit scoped order l) (expandOrderLine l) s = (Inr a, v)"
    and w: "for_each (deliver_orphan scoped order l) (orphanReservations l v) v = (Inr b, w)"
    and t: "t = map_line (ol_id l) (\<lambda>l. l\<lparr>ol_status := Some Line_DELIVERED\<rparr>) w"
    by (auto simp: deliver_line_def run_ok setStatus_ok)
  with keepsD[OF keeps_orders_units(2)[of "orders s"] _ v] keepsD[OF keeps_orders_units(3)[of "orders s"] _ w] 2(2)
  have "inv_ok w \<and> orders w = orders s" by blast
  with t show ?case by (simp add: map_line_orders[of w s])
qed (auto simp: deliver_line_def)

lemma releaseLine_orders:
  assumes "inv_ok s" "releaseLine scoped store label l s = (Inr u, t)"
  shows "inv_ok t \<and> orders t = orders (map_line (ol_id l) (\<lambda>l. l\<lparr>ol_status := Some Line_RELEASED\<rparr>) s)"
proof -
  from assms(2) obtain a v b w
    where v: "for_each (release_unit scoped store label l) (physicalUnits l) s = (Inr a, v)"
    and w: "for_each (\<lambda>(item, n). release_item scoped store label l item n) (orphanReservations l v) v = (Inr b, w)"
    and t: "t = map_line (ol_id l) (\<lambda>l. l\<lparr>ol_status := Some Line_RELEASED\<rparr>) w"
    by (auto simp: releaseLine_def run_ok setStatus_ok)
  with keepsD[OF keeps_orders_units(4)[of "orders s"] _ v] keepsD[OF keeps_orders_units(5)[of "orders s"] _ w] assms(1)
  have "inv_ok w \<and> orders w = orders s" by blast
  with t show ?thesis by (simp add: map_line_orders[of w s])
qed

interpretation releasing: status_loop "\<lambda>l. ol_status l \<noteq> Some Line_RESERVED" Line_RELEASED
  "\<lambda>order l. if ol_status l \<noteq> Some Line_RESERVED then ret ()
     else releaseLine scoped (or_store order) (order_label order) l"
proof (unfold_locales, goal_cases)
  case (2 l s order u t)
  then have "releaseLine scoped (or_store order) (order_label order) l s = (Inr u, t)" by simp
  from releaseLine_orders[OF 2(2) this] show ?case .
qed simp_all

section \<open>Reservations\<close>

text \<open>
  The state of a run that only reserves and releases the lines \<open>ids\<close>, started in \<open>s\<close>: every stock
  level is the starting level plus what the lines hold at the item's home row, and a line whose
  release key is used holds nothing of that item any more.
\<close>

definition held :: "string set \<Rightarrow> string \<Rightarrow> 'a inv_db_scheme \<Rightarrow> int" where
  "held ids item s = (\<Sum>l \<in> ids. netReserved l item s)"

definition release_key :: "string \<Rightarrow> string" where
  "release_key l = ''order-release:'' @ l"

lemma release_key_inj [simp]: "release_key l = release_key l' \<longleftrightarrow> l = l'"
  by (simp add: release_key_def)

definition reserve_run :: "'a stock_db_scheme \<Rightarrow> string \<Rightarrow> string set \<Rightarrow> 'a stock_db_scheme \<Rightarrow> bool" where
  "reserve_run s store ids w \<longleftrightarrow> inv_ok s \<and> inv_ok w \<and> home store w = home store s \<and>
     (\<forall>item loc k. level w (item, loc) k = level s (item, loc) k +
        (if k = RESERVED \<and> loc = home store s item then held ids item w else 0)) \<and>
     (\<forall>l \<in> ids. \<forall>item. 0 \<le> netReserved l item w) \<and>
     (\<forall>l \<in> ids. \<forall>item. find_movement w item (release_key l) \<noteq> None \<longrightarrow> netReserved l item w = 0)"

lemma netReserved_snoc:
  "movements t = movements s @ [m] \<Longrightarrow> netReserved l i t = netReserved l i s +
     (if for_line l m \<and> mv_item m = i \<and> mv_bucket m = RESERVED then mv_delta m else 0)"
  by (simp add: netReserved_def)

lemma netReserved_same: "movements t = movements s \<Longrightarrow> netReserved l i t = netReserved l i s"
  by (simp add: netReserved_def)

lemma held_same: "movements t = movements s \<Longrightarrow> held ids i t = held ids i s"
  by (simp add: held_def netReserved_def)

lemma for_line_unique: "for_line l m \<Longrightarrow> for_line l' m \<longleftrightarrow> l' = l"
  by (auto simp: for_line_def)

lemma held_snoc:
  assumes "finite ids" "l \<in> ids" "for_line l m" "movements t = movements s @ [m]"
  shows "held ids i t = held ids i s + (if mv_item m = i \<and> mv_bucket m = RESERVED then mv_delta m else 0)"
proof -
  have "held ids i t = (\<Sum>x \<in> ids. netReserved x i s +
      (if x = l then if mv_item m = i \<and> mv_bucket m = RESERVED then mv_delta m else 0 else 0))"
    unfolding held_def
    by (rule sum.cong) (auto simp: netReserved_snoc[OF assms(4)] for_line_unique[OF assms(3)])
  then show ?thesis using assms(1,2) by (simp add: held_def sum.distrib)
qed

lemma level_same: "inv_ok s \<Longrightarrow> inv_ok t \<Longrightarrow> movements t = movements s \<Longrightarrow> level t r k = level s r k"
  by (simp add: level_ledger)

lemma level_snoc:
  "inv_ok s \<Longrightarrow> inv_ok t \<Longrightarrow> movements t = movements s @ [m] \<Longrightarrow>
   level t r k = level s r k + (if mv_row m = r \<and> mv_bucket m = k then mv_delta m else 0)"
  by (simp add: level_ledger)

lemma level_nonneg: "inv_ok s \<Longrightarrow> 0 \<le> level s r k"
proof (cases "find (\<lambda>b. row_key b = r) (balances s)")
  case (Some b)
  assume "inv_ok s"
  with find_Some_set[OF Some] have "sane b" by (auto simp: inv_ok_def)
  with Some show ?thesis by (cases k) (auto simp: level_def sane_def)
qed (simp add: level_def)

lemma find_movement_same: "movements t = movements s \<Longrightarrow> find_movement t i key = find_movement s i key"
  by (simp add: find_movement_def)

lemma find_movement_other:
  "movements t = movements s @ [m] \<Longrightarrow> mv_key m \<noteq> Some key \<or> mv_item m \<noteq> i \<Longrightarrow>
   find_movement t i key = find_movement s i key"
  by (auto simp: find_movement_def find_snoc split: option.split)

text \<open>A move in the reserved bucket of one of the lines keeps the run.\<close>

lemma reserve_run_move:
  assumes run: "reserve_run s store ids w" and fin: "finite ids" and l: "mi_line inp \<in> ids"
    and bucket: "mi_bucket inp = RESERVED"
    and move: "move scoped store item inp w = (Inr n, v)"
    and fate: "0 \<le> mi_delta inp \<and> (\<forall>x. mi_key inp \<noteq> release_key x) \<and>
        find_movement w item (release_key (mi_line inp)) = None \<or>
      mi_key inp = release_key (mi_line inp) \<and> 0 < netReserved (mi_line inp) item w \<and>
      mi_delta inp = - netReserved (mi_line inp) item w"
  shows "reserve_run s store ids v \<and> (mi_delta inp < 0 \<longrightarrow> netReserved (mi_line inp) item v = 0) \<and>
    (\<forall>x i. x \<noteq> mi_line inp \<or> i \<noteq> item \<longrightarrow> netReserved x i v = netReserved x i w) \<and>
    (\<forall>x i. mi_key inp \<noteq> release_key x \<longrightarrow>
       find_movement v i (release_key x) = find_movement w i (release_key x))"
proof -
  let ?L = "mi_line inp" let ?N = "netReserved ?L item w" let ?h = "home store s item"
  have w: "inv_ok s" "inv_ok w" "home store w = home store s"
    and lev: "level w (i, loc) k = level s (i, loc) k + (if k = RESERVED \<and> loc = home store s i then held ids i w else 0)"
    and pos: "x \<in> ids \<Longrightarrow> 0 \<le> netReserved x i w"
    and used: "x \<in> ids \<Longrightarrow> find_movement w i (release_key x) \<noteq> None \<Longrightarrow> netReserved x i w = 0" for i loc k x
    using run unfolding reserve_run_def by blast+
  from move_ok[OF w(2) move] have v: "inv_ok v" "home store v = home store w"
    and out: "(\<exists>m. find_movement w item (mi_key inp) = Some m \<and> n = mv_delta m \<and> movements v = movements w) \<or>
     find_movement w item (mi_key inp) = None \<and>
       (\<exists>b. sane b \<and> (\<forall>k. qty k b = level w (item, home store w item) k) \<and>
          n = clampDelta b (mi_bucket inp) (mi_delta inp)) \<and>
       (if n = 0 then movements v = movements w
        else \<exists>m. moved store item inp w n m \<and> movements v = movements w @ [m])"
    by (auto simp: move_post_def)
  have "?N \<le> held ids item w"
    unfolding held_def using fin l pos by (intro member_le_sum) auto
  moreover have "0 \<le> level s (item, ?h) RESERVED" "level w (item, ?h) RESERVED = level s (item, ?h) RESERVED + held ids item w"
    using lev[of item ?h RESERVED] level_nonneg[OF w(1)] by simp_all
  ultimately have enough: "?N \<le> level w (item, ?h) RESERVED" by simp
  show ?thesis
  proof (cases "movements v = movements w")
    case True
    have "\<not> mi_delta inp < 0"
    proof
      assume "mi_delta inp < 0"
      with fate have key: "mi_key inp = release_key ?L" and N: "0 < ?N" "mi_delta inp = - ?N" by auto
      from used[OF l, of item] key N(1) have "find_movement w item (mi_key inp) = None"
        by (cases "find_movement w item (release_key ?L)") auto
      with out True obtain b where b: "\<forall>k. qty k b = level w (item, home store w item) k"
          "n = clampDelta b (mi_bucket inp) (mi_delta inp)" and n: "n = 0"
        by (auto split: if_splits)
      from b(1)[rule_format, of RESERVED] w(3) enough have "?N \<le> reserved b" by simp
      with b(2) n N bucket show False by (simp add: clampDelta_def Let_def)
    qed
    moreover have "reserve_run s store ids v"
      unfolding reserve_run_def
      using v w lev pos used level_same[OF w(2) v(1) True] netReserved_same[OF True] held_same[OF True]
        find_movement_same[OF True] by auto
    ultimately show ?thesis using netReserved_same[OF True] find_movement_same[OF True] by simp
  next
    case False
    with out obtain b m where b: "sane b" "\<forall>k. qty k b = level w (item, home store w item) k"
        "n = clampDelta b (mi_bucket inp) (mi_delta inp)"
      and m: "moved store item inp w n m" and v_mv: "movements v = movements w @ [m]"
      by (auto split: if_splits)
    from b(2)[rule_format, of RESERVED] w(3) enough have Nb: "?N \<le> reserved b" by simp
    have mf: "for_line ?L m" "mv_item m = item" "mv_row m = (item, ?h)" "mv_bucket m = RESERVED" "mv_delta m = n"
        "mv_key m = Some (mi_key inp)"
      using m bucket w(3) by (auto simp: moved_def mv_row_def)
    have n: "0 \<le> ?N + n" "mi_delta inp < 0 \<longrightarrow> ?N + n = 0"
      "mi_key inp = release_key ?L \<longrightarrow> ?N + n = 0"
      using fate b(3) Nb bucket clampDelta_range(1)[OF b(1), of "mi_delta inp" RESERVED] pos[OF l, of item]
      by (auto simp: clampDelta_def Let_def)
    have nr: "netReserved x i v = netReserved x i w + (if x = ?L \<and> i = item then n else 0)" for x i
      using netReserved_snoc[OF v_mv, of x i] mf for_line_unique[OF mf(1), of x] by auto
    have hl: "held ids i v = held ids i w + (if i = item then n else 0)" for i
      using held_snoc[OF fin l mf(1) v_mv, of i] mf by auto
    have lv: "level v r k = level w r k + (if r = (item, ?h) \<and> k = RESERVED then n else 0)" for r k
      using level_snoc[OF w(2) v(1) v_mv, of r k] mf by auto
    have "reserve_run s store ids v"
      unfolding reserve_run_def
    proof (intro conjI ballI allI impI)
      fix x i assume x: "x \<in> ids" and key: "find_movement v i (release_key x) \<noteq> None"
      show "netReserved x i v = 0"
      proof (cases "x = ?L \<and> i = item \<and> mi_key inp = release_key ?L")
        case True
        with n nr show ?thesis by simp
      next
        case False
        show ?thesis
        proof (cases "x = ?L \<and> i = item")
          case True
          with False fate have "mi_key inp \<noteq> release_key x"
            "find_movement w i (release_key x) = None" by auto
          with key find_movement_other[OF v_mv] mf(6) show ?thesis by auto
        next
          case other: False
          have "mv_key m \<noteq> Some (release_key x) \<or> mv_item m \<noteq> i"
            using fate other mf(2,6) by auto
          with key find_movement_other[OF v_mv] have "find_movement w i (release_key x) \<noteq> None" by metis
          with used[OF x] nr other show ?thesis by auto
        qed
      qed
    qed (use v w lev lv hl nr pos n in auto)
    with n nr find_movement_other[OF v_mv] mf(6) show ?thesis by auto
  qed
qed

lemma reserve_run_view [simp]: "reserve_run s store ids (map_line lid f w) = reserve_run s store ids w"
  by (simp add: reserve_run_def held_def netReserved_def find_movement_def fun_eq_iff)

definition unreleased :: "string set \<Rightarrow> 'a inv_db_scheme \<Rightarrow> bool" where
  "unreleased ids w \<longleftrightarrow> (\<forall>l \<in> ids. \<forall>i. find_movement w i (release_key l) = None)"

lemma keeps_reserve_unit:
  assumes "finite ids" "ol_id line \<in> ids" "0 < u_quantity u"
  shows "keeps (\<lambda>w. reserve_run s (or_store order) ids w \<and> unreleased ids w) (reserve_unit scoped order line u)"
proof (rule keepsI)
  fix w n v assume w: "reserve_run s (or_store order) ids w \<and> unreleased ids w"
    and run: "reserve_unit scoped order line u w = (Inr n, v)"
  let ?inp = "\<lparr>mi_type = ORDER_RESERVED, mi_bucket = RESERVED, mi_delta = u_quantity u,
      mi_reason = ''Reserved for order '' @ order_label order, mi_line = ol_id line,
      mi_key = ''order-reserve:'' @ ol_id line\<rparr>"
  have key: "mi_key ?inp \<noteq> release_key x" for x by (simp add: release_key_def)
  from w assms(2) have none: "find_movement w (u_item u) (release_key (ol_id line)) = None"
    by (simp add: unreleased_def)
  from reserve_run_move[of s "or_store order" ids w ?inp scoped "u_item u" n v] w assms run key none
  show "reserve_run s (or_store order) ids v \<and> unreleased ids v"
    by (simp add: reserve_unit_def unreleased_def)
qed

lemma keeps_reserve_line:
  assumes "finite ids" "ol_variant line \<noteq> None \<Longrightarrow> ol_id line \<in> ids"
  shows "keeps (\<lambda>w. reserve_run s (or_store order) ids w \<and> unreleased ids w) (reserve_line scoped order line)"
proof -
  have q: "0 < u_quantity u" if "u \<in> set (physicalUnits line)" for u
    using that expandOrderLine_ok[of line] by (auto simp: physicalUnits_def units_ok_def)
  have st: "keeps (\<lambda>w. reserve_run s (or_store order) ids w \<and> unreleased ids w) (setStatus (ol_id line) Line_RESERVED)"
    unfolding setStatus_def by (rule keeps_writing) (simp add: unreleased_def find_movement_def)
  have "ol_variant line \<noteq> None \<Longrightarrow> keeps (\<lambda>w. reserve_run s (or_store order) ids w \<and> unreleased ids w)
      (for_each (reserve_unit scoped order line) (physicalUnits line))"
    by (rule keeps_for_each) (rule keeps_reserve_unit[OF assms(1)]; simp add: assms(2) q)
  with st show ?thesis unfolding reserve_line_def
    by (intro keeps_if keeps_andthen keeps_atoms) auto
qed

text \<open>Releasing one item of a line, then all of them.\<close>

definition cleared :: "'a stock_db_scheme \<Rightarrow> string \<Rightarrow> string set \<Rightarrow> string \<Rightarrow> string set \<Rightarrow>
    'a stock_db_scheme \<Rightarrow> 'a stock_db_scheme \<Rightarrow> bool" where
  "cleared s store ids l A w v \<longleftrightarrow> reserve_run s store ids v \<and>
     (\<forall>i. netReserved l i v = (if i \<in> A then 0 else netReserved l i w)) \<and>
     (\<forall>x i. x \<noteq> l \<longrightarrow> netReserved x i v = netReserved x i w)"

lemma cleared_refl: "reserve_run s store ids w \<Longrightarrow> cleared s store ids l {} w w"
  by (simp add: cleared_def)

lemma cleared_trans:
  "cleared s store ids l A w v \<Longrightarrow> cleared s store ids l B v u \<Longrightarrow> cleared s store ids l (A \<union> B) w u"
  by (auto simp: cleared_def)

lemma release_item_cleared:
  assumes w: "reserve_run s store ids w" and ids: "finite ids" "ol_id line \<in> ids"
    and pos: "0 < netReserved (ol_id line) item w"
    and run: "release_item scoped store label line item (netReserved (ol_id line) item w) w = (Inr n, v)"
  shows "cleared s store ids (ol_id line) {item} w v"
proof -
  let ?inp = "\<lparr>mi_type = ORDER_RELEASED, mi_bucket = RESERVED, mi_delta = - netReserved (ol_id line) item w,
      mi_reason = ''Released: order '' @ label @ '' cancelled or returned'', mi_line = ol_id line,
      mi_key = ''order-release:'' @ ol_id line\<rparr>"
  have key: "''order-release:'' @ ol_id line = release_key (ol_id line)" by (simp only: release_key_def)
  from reserve_run_move[of s store ids w ?inp scoped item n v] w ids pos run key
  show ?thesis by (auto simp: cleared_def release_item_def)
qed

lemma release_units_cleared:
  assumes "reserve_run s store ids w" "finite ids" "ol_id line \<in> ids"
    and "for_each (release_unit scoped store label line) us w = (Inr n, v)"
  shows "cleared s store ids (ol_id line) (u_item ` set us) w v"
  using assms
proof (induction us arbitrary: w)
  case Nil
  then show ?case by (simp add: ret_ok cleared_refl)
next
  case (Cons u us)
  then obtain a x where x: "release_unit scoped store label line u w = (Inr a, x)"
    and rest: "for_each (release_unit scoped store label line) us x = (Inr n, v)" by (auto simp: run_ok)
  have "cleared s store ids (ol_id line) {u_item u} w x"
  proof (cases "netReserved (ol_id line) (u_item u) w \<le> 0")
    case True
    with x have "x = w" by (simp add: release_unit_def run_ok)
    moreover have "netReserved (ol_id line) (u_item u) w = 0"
      using True Cons.prems(1,3) unfolding reserve_run_def by (metis order_antisym)
    ultimately show ?thesis using Cons.prems(1) by (simp add: cleared_def)
  next
    case False
    with x have "release_item scoped store label line (u_item u) (netReserved (ol_id line) (u_item u) w) w = (Inr a, x)"
      by (simp add: release_unit_def run_ok)
    with False release_item_cleared[OF Cons.prems(1-3)] show ?thesis by simp
  qed
  from cleared_trans[OF this Cons.IH[OF _ Cons.prems(2,3) rest]] this show ?case by (simp add: cleared_def)
qed

lemma release_orphans_cleared:
  assumes "reserve_run s store ids w" "finite ids" "ol_id line \<in> ids"
    and "distinct (map fst ors)" "\<forall>(i, m) \<in> set ors. m = netReserved (ol_id line) i w \<and> 0 < m"
    and "for_each (\<lambda>(item, n). release_item scoped store label line item n) ors w = (Inr n, v)"
  shows "cleared s store ids (ol_id line) (fst ` set ors) w v"
  using assms
proof (induction ors arbitrary: w)
  case Nil
  then show ?case by (simp add: ret_ok cleared_refl)
next
  case (Cons p ors)
  obtain i m where p: "p = (i, m)" by (cases p)
  with Cons.prems obtain a x where x: "release_item scoped store label line i m w = (Inr a, x)"
    and rest: "for_each (\<lambda>(item, n). release_item scoped store label line item n) ors x = (Inr n, v)"
    by (auto simp: run_ok)
  from Cons.prems(5) p have m: "m = netReserved (ol_id line) i w" "0 < m" by auto
  have c: "cleared s store ids (ol_id line) {i} w x"
    using release_item_cleared[OF Cons.prems(1-3) m(2)[unfolded m(1)] x[unfolded m(1)]] .
  have "\<forall>(j, k) \<in> set ors. k = netReserved (ol_id line) j x \<and> 0 < k"
  proof (rule ballI, clarify)
    fix j k assume jk: "(j, k) \<in> set ors"
    with Cons.prems(4) p have "j \<noteq> i" by (force simp: image_iff)
    with jk Cons.prems(5) c show "k = netReserved (ol_id line) j x \<and> 0 < k" by (auto simp: cleared_def)
  qed
  from Cons.IH[OF _ Cons.prems(2,3) _ this rest] c Cons.prems(4)
  have "cleared s store ids (ol_id line) (fst ` set ors) x v" by (simp add: cleared_def)
  from cleared_trans[OF c this] p show ?case by simp
qed

lemma orphans_complete:
  assumes "ol_status line = Some Line_RESERVED" "netReserved (ol_id line) i w \<noteq> 0"
    and "0 \<le> netReserved (ol_id line) i w" "i \<notin> u_item ` set (physicalUnits line)"
  shows "i \<in> fst ` set (orphanReservations line w)"
proof -
  let ?P = "\<lambda>m. for_line (ol_id line) m \<and> mv_bucket m = RESERVED"
  have "i \<in> mv_item ` {m \<in> set (movements w). ?P m}"
  proof (rule ccontr)
    assume "i \<notin> mv_item ` {m \<in> set (movements w). ?P m}"
    then have "netReserved (ol_id line) i w = 0"
      unfolding netReserved_def by (intro sum_list_zero) auto
    with assms(2) show False by simp
  qed
  with assms show ?thesis by (force simp: orphanReservations_def first_occurrences_def image_iff)
qed

lemma cleared_zero: "cleared s store ids l A w v \<Longrightarrow> netReserved x i w = 0 \<Longrightarrow> netReserved x i v = 0"
  by (cases "x = l") (auto simp: cleared_def)

lemma orphanReservations_facts:
  "distinct (map fst (orphanReservations line w))"
  "\<forall>(i, m) \<in> set (orphanReservations line w). m = netReserved (ol_id line) i w \<and> 0 < m"
  by (auto simp: orphanReservations_def first_occurrences_def distinct_map inj_on_def intro!: distinct_filter)

lemma releaseLine_cleared:
  assumes w: "reserve_run s store ids w" and ids: "finite ids" "ol_id line \<in> ids"
    and st: "ol_status line = Some Line_RESERVED"
    and run: "releaseLine scoped store label line w = (Inr n, v)"
  shows "cleared s store ids (ol_id line) UNIV w v"
proof -
  from run obtain a x b y
    where x: "for_each (release_unit scoped store label line) (physicalUnits line) w = (Inr a, x)"
    and y: "for_each (\<lambda>(item, n). release_item scoped store label line item n) (orphanReservations line x) x = (Inr b, y)"
    and v: "v = map_line (ol_id line) (\<lambda>l. l\<lparr>ol_status := Some Line_RELEASED\<rparr>) y"
    by (auto simp: releaseLine_def run_ok setStatus_ok)
  let ?A = "u_item ` set (physicalUnits line)" and ?B = "fst ` set (orphanReservations line x)"
  have cx: "cleared s store ids (ol_id line) ?A w x" by (rule release_units_cleared[OF w ids x])
  then have rx: "reserve_run s store ids x" by (simp add: cleared_def)
  have cy: "cleared s store ids (ol_id line) ?B x y"
    by (rule release_orphans_cleared[OF rx ids orphanReservations_facts y])
  have zero: "netReserved (ol_id line) i y = 0" for i
  proof (cases "i \<in> ?A \<or> netReserved (ol_id line) i x = 0")
    case True
    then have "netReserved (ol_id line) i x = 0" using cx by (auto simp: cleared_def)
    with cleared_zero[OF cy] show ?thesis .
  next
    case False
    moreover have "0 \<le> netReserved (ol_id line) i x" using rx ids(2) unfolding reserve_run_def by blast
    ultimately have "i \<in> ?B" using orphans_complete[OF st] by blast
    with cy show ?thesis by (auto simp: cleared_def)
  qed
  have nv: "netReserved z i v = netReserved z i y" for z i by (simp add: v netReserved_def)
  show ?thesis using cleared_trans[OF cx cy] zero unfolding cleared_def nv by (simp add: v)
qed

lemma release_lines_cleared:
  assumes "reserve_run s (or_store order) ids w" "finite ids"
    and "\<forall>l \<in> set ls. ol_status l = Some Line_RESERVED \<longrightarrow> ol_id l \<in> ids"
    and "for_each (\<lambda>line. if ol_status line \<noteq> Some Line_RESERVED then ret ()
         else releaseLine scoped (or_store order) (order_label order) line) ls w = (Inr n, v)"
  shows "reserve_run s (or_store order) ids v \<and> (\<forall>x i. netReserved x i w = 0 \<longrightarrow> netReserved x i v = 0) \<and>
    (\<forall>l \<in> set ls. ol_status l = Some Line_RESERVED \<longrightarrow> (\<forall>i. netReserved (ol_id l) i v = 0))"
  using assms
proof (induction ls arbitrary: w)
  case Nil
  then show ?case by (simp add: ret_ok)
next
  case (Cons l ls)
  from Cons.prems(4) obtain a x where x: "(if ol_status l \<noteq> Some Line_RESERVED then ret ()
        else releaseLine scoped (or_store order) (order_label order) l) w = (Inr a, x)"
    and rest: "for_each (\<lambda>line. if ol_status line \<noteq> Some Line_RESERVED then ret ()
         else releaseLine scoped (or_store order) (order_label order) line) ls x = (Inr n, v)"
    by (auto simp: run_ok)
  have x': "reserve_run s (or_store order) ids x \<and> (\<forall>y i. netReserved y i w = 0 \<longrightarrow> netReserved y i x = 0) \<and>
      (ol_status l = Some Line_RESERVED \<longrightarrow> (\<forall>i. netReserved (ol_id l) i x = 0))"
  proof (cases "ol_status l = Some Line_RESERVED")
    case True
    with Cons.prems(3) have "ol_id l \<in> ids" by simp
    moreover from x True have "releaseLine scoped (or_store order) (order_label order) l w = (Inr a, x)" by simp
    ultimately have c: "cleared s (or_store order) ids (ol_id l) UNIV w x"
      using releaseLine_cleared[OF Cons.prems(1,2) _ True] by blast
    then show ?thesis using cleared_zero[OF c] by (simp add: cleared_def)
  next
    case False
    with x Cons.prems(1) show ?thesis by (simp add: ret_ok)
  qed
  from Cons.IH[OF _ Cons.prems(2) _ rest] Cons.prems(3) x' show ?case by auto
qed

theorem reserve_release_levels:
  assumes s: "inv_ok s" and order: "find_order oid s = Some order"
    and fresh: "\<forall>l \<in> set (or_lines order). ol_status l = None \<and>
      (\<forall>i. netReserved (ol_id l) i s = 0 \<and> find_movement s i (release_key (ol_id l)) = None)"
    and reserve: "reserveOrder scoped oid s = (Inr u, t)"
    and release: "releaseOrder scoped' oid t = (Inr v, w)"
  shows "level w r k = level s r k"
proof -
  define ids where "ids = ol_id ` {l \<in> set (or_lines order). ol_variant l \<noteq> None}"
  have ids: "finite ids" "ids = ol_id ` {l \<in> set (or_lines order). \<not> (ol_variant l = None \<or> ol_status l \<noteq> None)}"
    using fresh by (auto simp: ids_def)
  have "held ids i s = 0" for i
    unfolding held_def by (rule sum.neutral) (use fresh in \<open>auto simp: ids_def\<close>)
  then have start: "reserve_run s (or_store order) ids s \<and> unreleased ids s"
    using s fresh by (auto simp: reserve_run_def unreleased_def ids_def)
  from reserve order have loop: "for_each (reserve_line scoped order) (or_lines order) s = (Inr u, t)"
    by (simp add: reserveOrder_def run_ok)
  have "keeps (\<lambda>w. reserve_run s (or_store order) ids w \<and> unreleased ids w)
      (for_each (reserve_line scoped order) (or_lines order))"
    by (rule keeps_for_each) (rule keeps_reserve_line, auto simp: ids_def)
  from keepsD[OF this start loop] have t: "reserve_run s (or_store order) ids t" by simp
  from reserving.loop_marks[OF s loop] have o: "orders t = map (reserving.mark ids) (orders s)"
    unfolding ids(2) by simp
  have "find (\<lambda>o'. or_id o' = oid) (map (reserving.mark ids) (orders s))
      = map_option (reserving.mark ids) (find (\<lambda>o'. or_id o' = oid) (orders s))"
    by (rule find_map_same) (simp add: reserving.mark_def)
  with order have ot: "find_order oid t = Some (reserving.mark ids order)" by (simp add: find_order_def o)
  let ?o = "reserving.mark ids order"
  have same: "or_store ?o = or_store order" by (simp add: reserving.mark_def)
  have sts: "\<forall>l \<in> set (or_lines ?o). ol_status l = Some Line_RESERVED \<longleftrightarrow> ol_id l \<in> ids"
    using fresh by (auto simp: reserving.mark_def)
  have "ol_id ` set (or_lines ?o) = ol_id ` set (or_lines order)"
    by (simp add: reserving.mark_def image_image image_Un) blast
  then have all: "ids \<subseteq> ol_id ` set (or_lines ?o)" by (auto simp: ids_def)
  from release ot have "for_each (\<lambda>line. if ol_status line \<noteq> Some Line_RESERVED then ret ()
         else releaseLine scoped' (or_store ?o) (order_label ?o) line) (or_lines ?o) t = (Inr v, w)"
    by (simp add: releaseOrder_def run_ok)
  from release_lines_cleared[of s ?o ids t, OF t[folded same] ids(1) _ this] sts
  have fin: "reserve_run s (or_store order) ids w"
    and clear: "\<forall>l \<in> set (or_lines ?o). ol_status l = Some Line_RESERVED \<longrightarrow> (\<forall>i. netReserved (ol_id l) i w = 0)"
    by (simp_all add: same)
  have "netReserved x i w = 0" if "x \<in> ids" for x i using that all sts clear by auto
  then have "held ids i w = 0" for i by (simp add: held_def)
  with fin show ?thesis unfolding reserve_run_def by (cases r) simp
qed

section \<open>Exact moves\<close>

text \<open>What a move leaves alone, and when it moves everything it was asked to.\<close>

lemma move_frame:
  assumes "inv_ok s" "move scoped store item inp s = (Inr n, t)"
  shows "inv_ok t" "home store t = home store s"
    "i \<noteq> item \<Longrightarrow> level t (i, loc) k = level s (i, loc) k"
    "i \<noteq> item \<Longrightarrow> netReserved x i t = netReserved x i s"
    "i \<noteq> item \<Longrightarrow> find_movement t i key = find_movement s i key"
    "key \<noteq> mi_key inp \<Longrightarrow> find_movement t i key = find_movement s i key"
proof -
  note post = move_ok[OF assms, unfolded move_post_def]
  have p: "inv_ok t" "home store t = home store s"
    using post[THEN conjunct1] post[THEN conjunct2, THEN conjunct2, THEN conjunct1] by (simp_all add: fun_eq_iff)
  from post[THEN conjunct2, THEN conjunct2, THEN conjunct2]
  have "movements t = movements s \<or> (\<exists>m. moved store item inp s n m \<and> movements t = movements s @ [m])"
    by (cases "n = 0") (elim disjE exE conjE; simp)+
  then consider (same) "movements t = movements s"
    | (new) m where "moved store item inp s n m" "movements t = movements s @ [m]" by blast
  then have *: "(i \<noteq> item \<longrightarrow> level t (i, loc) k = level s (i, loc) k) \<and>
    (i \<noteq> item \<longrightarrow> netReserved x i t = netReserved x i s) \<and>
    (i \<noteq> item \<longrightarrow> find_movement t i key = find_movement s i key) \<and>
    (key \<noteq> mi_key inp \<longrightarrow> find_movement t i key = find_movement s i key)"
  proof cases
    case same
    then show ?thesis
      by (simp add: level_same[OF assms(1) p(1) same] netReserved_same[OF same] find_movement_same[OF same])
  next
    case new
    have m: "mv_item m = item" "mv_row m = (item, home store s item)" "mv_key m = Some (mi_key inp)"
      using new(1) by (auto simp: moved_def mv_row_def)
    show ?thesis
      by (simp add: level_snoc[OF assms(1) p(1) new(2)] netReserved_snoc[OF new(2)] m
          find_movement_other[OF new(2)])
  qed
  show "inv_ok t" "home store t = home store s" by (rule p)+
  show "i \<noteq> item \<Longrightarrow> level t (i, loc) k = level s (i, loc) k"
    "i \<noteq> item \<Longrightarrow> netReserved x i t = netReserved x i s"
    "i \<noteq> item \<Longrightarrow> find_movement t i key = find_movement s i key"
    "key \<noteq> mi_key inp \<Longrightarrow> find_movement t i key = find_movement s i key"
    using * by simp_all
qed

definition spare :: "'a inv_db_scheme \<Rightarrow> string \<times> loc_key \<Rightarrow> int" where
  "spare s r = level s r ON_HAND - level s r RESERVED - level s r DAMAGED"

definition covered :: "'a inv_db_scheme \<Rightarrow> string \<times> loc_key \<Rightarrow> bucket \<Rightarrow> int \<Rightarrow> bool" where
  "covered s r k d \<longleftrightarrow> (0 < d \<and> (k = RESERVED \<or> k = DAMAGED) \<longrightarrow> d \<le> spare s r) \<and>
     (d < 0 \<and> k = ON_HAND \<longrightarrow> - d \<le> spare s r) \<and> (d < 0 \<and> k \<noteq> ON_HAND \<longrightarrow> - d \<le> level s r k)"

lemma move_exact:
  assumes inv: "inv_ok s" and run: "move scoped store item inp s = (Inr n, t)"
    and fresh: "find_movement s item (mi_key inp) = None"
    and cov: "covered s (item, home store s item) (mi_bucket inp) (mi_delta inp)"
  shows "n = mi_delta inp"
    "level t r k = level s r k +
       (if r = (item, home store s item) \<and> k = mi_bucket inp then mi_delta inp else 0)"
    "(mi_delta inp = 0 \<and> movements t = movements s) \<or>
     (\<exists>m. moved store item inp s (mi_delta inp) m \<and> movements t = movements s @ [m])"
proof -
  from move_ok[OF inv run] fresh obtain b where t: "inv_ok t" and b: "sane b"
      "\<forall>k. qty k b = level s (item, home store s item) k" "n = clampDelta b (mi_bucket inp) (mi_delta inp)"
    and out: "if n = 0 then movements t = movements s
        else \<exists>m. moved store item inp s n m \<and> movements t = movements s @ [m]"
    by (auto simp: move_post_def)
  have "onHand b = level s (item, home store s item) ON_HAND" "reserved b = level s (item, home store s item) RESERVED"
    "damaged b = level s (item, home store s item) DAMAGED" "incoming b = level s (item, home store s item) INCOMING"
    using b(2)[rule_format, of ON_HAND] b(2)[rule_format, of RESERVED] b(2)[rule_format, of DAMAGED]
      b(2)[rule_format, of INCOMING] by simp_all
  with cov b(1,3) show n: "n = mi_delta inp"
    by (cases "mi_bucket inp") (auto simp: covered_def spare_def clampDelta_def availableQuantity_def Let_def sane_def)
  with out show "(mi_delta inp = 0 \<and> movements t = movements s) \<or>
     (\<exists>m. moved store item inp s (mi_delta inp) m \<and> movements t = movements s @ [m])"
    by (auto split: if_splits)
  then show "level t r k = level s r k +
       (if r = (item, home store s item) \<and> k = mi_bucket inp then mi_delta inp else 0)"
  proof (elim disjE exE conjE)
    fix m assume "moved store item inp s (mi_delta inp) m" "movements t = movements s @ [m]"
    then show ?thesis by (auto simp: level_snoc[OF inv t] moved_def)
  qed (simp add: level_same[OF inv t])
qed

section \<open>Deliveries\<close>

lemma deliver_unit_frame:
  assumes "inv_ok s" "deliver_unit scoped order line u s = (Inr n, t)"
  shows "inv_ok t \<and> home (or_store order) t = home (or_store order) s \<and> (\<forall>i. i \<noteq> u_item u \<longrightarrow>
    (\<forall>loc k. level t (i, loc) k = level s (i, loc) k) \<and> (\<forall>x. netReserved x i t = netReserved x i s) \<and>
    (\<forall>key. find_movement t i key = find_movement s i key))"
proof (cases "u_role u = PACKAGING")
  case True
  with assms(2) show ?thesis using move_frame[OF assms(1)] by (auto simp: deliver_unit_def)
next
  case False
  with assms(2) obtain a v where
    v: "(if netReserved (ol_id line) (u_item u) s > 0
       then settle scoped order line (u_item u) (netReserved (ol_id line) (u_item u) s) else ret 0) s = (Inr a, v)"
    and t: "deduct scoped order line (u_item u) (u_quantity u) v = (Inr n, t)"
    by (auto simp: deliver_unit_def run_ok)
  have 1: "inv_ok v \<and> home (or_store order) v = home (or_store order) s \<and> (\<forall>i. i \<noteq> u_item u \<longrightarrow>
    (\<forall>loc k. level v (i, loc) k = level s (i, loc) k) \<and> (\<forall>x. netReserved x i v = netReserved x i s) \<and>
    (\<forall>key. find_movement v i key = find_movement s i key))"
    using v move_frame[OF assms(1)] assms(1) by (auto simp: settle_def ret_ok split: if_splits)
  then show ?thesis using move_frame[of v] t by (auto simp: deduct_def)
qed

lemma deliver_orphan_frame:
  assumes "inv_ok s" "deliver_orphan scoped order line (j, m) s = (Inr n, t)"
  shows "inv_ok t \<and> (\<forall>i. i \<noteq> j \<longrightarrow> (\<forall>loc k. level t (i, loc) k = level s (i, loc) k))"
proof -
  from assms(2) obtain a v where v: "settle scoped order line j m s = (Inr a, v)"
    and t: "deduct scoped order line j m v = (Inr n, t)" by (auto simp: deliver_orphan_def run_ok)
  note 1 = move_frame[OF assms(1) v[unfolded settle_def]]
  note 2 = move_frame[OF 1(1) t[unfolded deduct_def]]
  show ?thesis using 1 2 by simp
qed

text \<open>A fully reserved unit is deducted exactly, and its reservation with it.\<close>

lemma deliver_unit_exact:
  assumes inv: "inv_ok s" and role: "u_role u \<noteq> PACKAGING" and q: "0 < u_quantity u"
    and net: "netReserved (ol_id line) (u_item u) s = u_quantity u"
    and enough: "u_quantity u \<le> level s (u_item u, home (or_store order) s (u_item u)) RESERVED"
    and fresh: "find_movement s (u_item u) (''order-deliver-release:'' @ ol_id line) = None"
      "find_movement s (u_item u) (''order-deliver:'' @ ol_id line) = None"
    and run: "deliver_unit scoped order line u s = (Inr n, t)"
  shows "level t (u_item u, loc) k = level s (u_item u, loc) k -
    (if loc = home (or_store order) s (u_item u) \<and> (k = ON_HAND \<or> k = RESERVED) then u_quantity u else 0)"
proof -
  let ?r = "(u_item u, home (or_store order) s (u_item u))"
  from run role net q obtain a v where v: "settle scoped order line (u_item u) (u_quantity u) s = (Inr a, v)"
    and t: "deduct scoped order line (u_item u) (u_quantity u) v = (Inr n, t)"
    by (auto simp: deliver_unit_def run_ok)
  have "covered s ?r RESERVED (- u_quantity u)" using enough q by (simp add: covered_def)
  then have 1: "level v r k = level s r k + (if r = ?r \<and> k = RESERVED then - u_quantity u else 0)" for r k
    using move_exact(2)[OF inv v[unfolded settle_def]] fresh(1) by simp
  note fr = move_frame[OF inv v[unfolded settle_def]]
  have lv: "0 \<le> spare s ?r"
  proof (cases "find (\<lambda>b. row_key b = ?r) (balances s)")
    case (Some b)
    with find_Some_set[OF Some] inv have "sane b" by (auto simp: inv_ok_def)
    with Some show ?thesis by (auto simp: spare_def level_def sane_def)
  qed (simp add: spare_def level_def)
  have "covered v ?r ON_HAND (- u_quantity u)" using lv q by (simp add: covered_def spare_def 1)
  moreover have "find_movement v (u_item u) (''order-deliver:'' @ ol_id line) = None"
    using fr(6)[of "''order-deliver:'' @ ol_id line" "u_item u"] fresh(2) by simp
  ultimately have "level t r k = level v r k + (if r = ?r \<and> k = ON_HAND then - u_quantity u else 0)" for r k
    using move_exact(2)[OF fr(1) t[unfolded deduct_def]] fr(2) by simp
  then show ?thesis using 1 by auto
qed

definition ready :: "order_row \<Rightarrow> order_line \<Rightarrow> stock_unit \<Rightarrow> 'a stock_db_scheme \<Rightarrow> bool" where
  "ready order line u s \<longleftrightarrow> netReserved (ol_id line) (u_item u) s = u_quantity u \<and> 0 < u_quantity u \<and>
     u_quantity u \<le> level s (u_item u, home (or_store order) s (u_item u)) RESERVED \<and>
     find_movement s (u_item u) (''order-deliver-release:'' @ ol_id line) = None \<and>
     find_movement s (u_item u) (''order-deliver:'' @ ol_id line) = None"

lemma deliver_units_frame:
  assumes "inv_ok s" "for_each (deliver_unit scoped order line) us s = (Inr n, t)"
  shows "inv_ok t \<and> home (or_store order) t = home (or_store order) s \<and> (\<forall>i. i \<notin> u_item ` set us \<longrightarrow>
    (\<forall>loc k. level t (i, loc) k = level s (i, loc) k))"
  using assms
proof (induction us arbitrary: s)
  case (Cons u us)
  then obtain a v where v: "deliver_unit scoped order line u s = (Inr a, v)"
    and rest: "for_each (deliver_unit scoped order line) us v = (Inr n, t)" by (auto simp: run_ok)
  note 1 = deliver_unit_frame[OF Cons.prems(1) v]
  from Cons.IH[OF 1[THEN conjunct1] rest] 1 show ?case by simp
qed (simp add: ret_ok)

lemma deliver_units_exact:
  assumes "inv_ok s" "distinct (map u_item us)" "u \<in> set us" "u_role u \<noteq> PACKAGING"
    and "ready order line u s" "for_each (deliver_unit scoped order line) us s = (Inr n, t)"
  shows "level t (u_item u, loc) k = level s (u_item u, loc) k -
    (if loc = home (or_store order) s (u_item u) \<and> (k = ON_HAND \<or> k = RESERVED) then u_quantity u else 0)"
  using assms
proof (induction us arbitrary: s)
  case (Cons x us)
  then obtain a v where v: "deliver_unit scoped order line x s = (Inr a, v)"
    and rest: "for_each (deliver_unit scoped order line) us v = (Inr n, t)" by (auto simp: run_ok)
  note 1 = deliver_unit_frame[OF Cons.prems(1) v]
  show ?case
  proof (cases "x = u")
    case True
    then have "u_item u \<notin> u_item ` set us" using Cons.prems(2) by auto
    with deliver_units_frame[OF 1[THEN conjunct1] rest] have "level t (u_item u, loc) k = level v (u_item u, loc) k"
      by blast
    moreover have rd: "netReserved (ol_id line) (u_item u) s = u_quantity u" "0 < u_quantity u"
      "u_quantity u \<le> level s (u_item u, home (or_store order) s (u_item u)) RESERVED"
      "find_movement s (u_item u) (''order-deliver-release:'' @ ol_id line) = None"
      "find_movement s (u_item u) (''order-deliver:'' @ ol_id line) = None"
      using Cons.prems(5) unfolding ready_def by blast+
    ultimately show ?thesis
      using deliver_unit_exact[OF Cons.prems(1,4) rd(2,1,3-5) v[unfolded True]] by simp
  next
    case False
    with Cons.prems(2,3) have "u \<in> set us" "u_item u \<noteq> u_item x" by (auto simp: image_iff)
    moreover from this 1 have same: "level v (u_item u, l) b = level s (u_item u, l) b" for l b by blast
    from calculation 1 Cons.prems(5) have "ready order line u v" unfolding ready_def same by simp
    ultimately show ?thesis
      using Cons.IH[OF _ _ _ Cons.prems(4) _ rest] Cons.prems(2) 1 unfolding same by simp
  qed
qed simp

lemma deliver_orphans_frame:
  assumes "inv_ok s" "for_each (deliver_orphan scoped order line) ors s = (Inr n, t)"
  shows "inv_ok t \<and> (\<forall>i. i \<notin> fst ` set ors \<longrightarrow> (\<forall>loc k. level t (i, loc) k = level s (i, loc) k))"
  using assms
proof (induction ors arbitrary: s)
  case (Cons p ors)
  obtain j m where p: "p = (j, m)" by (cases p)
  from Cons.prems p obtain a v where v: "deliver_orphan scoped order line (j, m) s = (Inr a, v)"
    and rest: "for_each (deliver_orphan scoped order line) ors v = (Inr n, t)" by (auto simp: run_ok)
  note 1 = deliver_orphan_frame[OF Cons.prems(1) v]
  from Cons.IH[OF 1[THEN conjunct1] rest] 1 p show ?case by simp
qed (simp add: ret_ok)

theorem deliver_line_exact:
  assumes inv: "inv_ok s" and dist: "distinct (map u_item (expandOrderLine line))"
    and u: "u \<in> set (expandOrderLine line)" "u_role u \<noteq> PACKAGING" "ready order line u s"
    and st: "ol_status line = Some Line_RESERVED" "ol_variant line \<noteq> None"
    and run: "deliver_line scoped deliveredAt order line s = (Inr n, t)"
  shows "level t (u_item u, loc) k = level s (u_item u, loc) k -
    (if loc = home (or_store order) s (u_item u) \<and> (k = ON_HAND \<or> k = RESERVED) then u_quantity u else 0)"
proof -
  from run st obtain a v b w where v: "for_each (deliver_unit scoped order line) (expandOrderLine line) s = (Inr a, v)"
    and w: "for_each (deliver_orphan scoped order line) (orphanReservations line v) v = (Inr b, w)"
    and t: "t = map_line (ol_id line) (\<lambda>l. l\<lparr>ol_status := Some Line_DELIVERED\<rparr>) w"
    by (auto simp: deliver_line_def run_ok setStatus_ok)
  have "u_item u \<notin> fst ` set (orphanReservations line v)"
    using u(1,2) unfolding orphanReservations_def physicalUnits_def by auto
  moreover have "inv_ok v" using deliver_units_frame[OF inv v] by blast
  ultimately have "level w (u_item u, loc) k = level v (u_item u, loc) k"
    using deliver_orphans_frame[OF _ w] by blast
  with deliver_units_exact[OF inv dist u v] t show ?thesis by simp
qed

section \<open>Return targets\<close>

lemma netReturned_snoc:
  "movements t = movements s @ [m] \<Longrightarrow> netReturned o' l i k t = netReturned o' l i k s +
     (if mv_item m = i \<and> mv_bucket m = k \<and> is_return m \<and> (for_line l m \<or>
         mv_refType m \<in> {Some ''ORDER_RETURN'', Some ''ORDER_RETURN_CORRECTION''} \<and> mv_refId m = Some o')
      then mv_delta m else 0)"
  by (simp add: netReturned_def)

lemma netReturned_same: "movements t = movements s \<Longrightarrow> netReturned o' l i k t = netReturned o' l i k s"
  by (simp add: netReturned_def)

definition allocation_key :: "string \<Rightarrow> int \<Rightarrow> string \<Rightarrow> nat \<Rightarrow> string" where
  "allocation_key line revision item index = ''return-allocation:'' @ line @ '':'' @ show_int revision @ '':'' @
     item @ '':'' @ show_int (int index)"

lemma reconcile_step_exact:
  assumes inv: "inv_ok s"
    and fresh: "find_movement s item (allocation_key line revision item j) = None"
    and cov: "covered s (item, home store s item) k d"
    and run: "reconcile_step scoped store line revision item (j, k, d) upd s = (Inr u, t)"
  shows "inv_ok t \<and> home store t = home store s \<and>
    (\<forall>b. level t (item, home store s item) b = level s (item, home store s item) b + (if b = k then d else 0)) \<and>
    (\<forall>b. netReturned o' line item b t = netReturned o' line item b s + (if b = k then d else 0)) \<and>
    (\<forall>key. key \<noteq> allocation_key line revision item j \<longrightarrow> find_movement t item key = find_movement s item key) \<and>
    u = (upd \<or> d \<noteq> 0)"
proof (cases "d = 0")
  case True
  with run inv show ?thesis by (simp add: reconcile_step_def ret_ok)
next
  case False
  let ?inp = "\<lparr>mi_type = (if k = DAMAGED then RETURN_DAMAGED else if d > 0 then RETURN_GOOD else RETURN_LOST),
          mi_bucket = k, mi_delta = d, mi_reason = ''Warehouse condition allocation reconciled'',
          mi_line = line, mi_key = allocation_key line revision item j\<rparr>"
  from run False obtain n where move: "move scoped store item ?inp s = (Inr n, t)" and u: "u = (upd \<or> n \<noteq> 0)"
    by (auto simp: reconcile_step_def run_ok allocation_key_def)
  note ex = move_exact[OF inv move] and fr = move_frame[OF inv move]
  from ex(3) fresh cov False obtain m where m: "moved store item ?inp s d m" "movements t = movements s @ [m]" by auto
  have ret: "is_return m" "for_line line m" "mv_item m = item" "mv_bucket m = k" "mv_delta m = d"
    using m(1) by (auto simp: moved_def is_return_def mv_row_def)
  have "netReturned o' line item b t = netReturned o' line item b s + (if b = k then d else 0)" for b
    using netReturned_snoc[OF m(2), of o' line item b] ret by simp
  with ex fr fresh cov u False show ?thesis by simp
qed

lemma allocation_key_0_1: "allocation_key line revision item 0 \<noteq> allocation_key line revision item 1"
  by (simp add: allocation_key_def show_int_def nat_digits.simps)

lemma enumerate_two: "enumerate 0 [x, y] = [(0, x), (1, y)]"
  by simp

lemma bucket_distinct: "DAMAGED \<noteq> ON_HAND" "ON_HAND \<noteq> DAMAGED"
  by simp_all

lemma reconcile_pair_exact:
  fixes s :: "'a stock_db_scheme"
  assumes inv: "inv_ok s" and ks: "k1 \<noteq> k2"
    and fresh: "\<forall>j < 2. find_movement s item (allocation_key line revision item j) = None"
    and cov1: "covered s (item, home store s item) k1 d1"
    and cov2: "\<forall>v :: 'a stock_db_scheme. (\<forall>b. level v (item, home store s item) b =
        level s (item, home store s item) b + (if b = k1 then d1 else 0)) \<longrightarrow>
        covered v (item, home store s item) k2 d2"
    and run: "fold_act (reconcile_step scoped store line revision item) [(0, k1, d1), (1, k2, d2)] upd s = (Inr u, t)"
  shows "netReturned o' line item k1 t = netReturned o' line item k1 s + d1"
    "netReturned o' line item k2 t = netReturned o' line item k2 s + d2"
proof -
  from run obtain a v where v: "reconcile_step scoped store line revision item (0, k1, d1) upd s = (Inr a, v)"
    and t: "reconcile_step scoped store line revision item (1, k2, d2) a v = (Inr u, t)" by (auto simp: run_ok)
  from fresh have f: "find_movement s item (allocation_key line revision item 0) = None"
    "find_movement s item (allocation_key line revision item 1) = None" by auto
  note 1 = reconcile_step_exact[OF inv f(1) cov1 v, of o']
  then have home: "home store v = home store s" and vinv: "inv_ok v" by auto
  from 1 f(2) have f2: "find_movement v item (allocation_key line revision item 1) = None"
    by (metis allocation_key_0_1)
  have "covered v (item, home store v item) k2 d2"
    unfolding home by (rule cov2[THEN spec, THEN mp]) (use 1 in simp)
  from reconcile_step_exact[OF vinv f2 this t, of o'] 1 ks
  show "netReturned o' line item k1 t = netReturned o' line item k1 s + d1"
    "netReturned o' line item k2 t = netReturned o' line item k2 s + d2" by simp_all
qed

text \<open>
  The order of the three adjustments matters: shrinking the damaged bucket first and growing it
  last lets every feasible target be reached exactly.
\<close>

lemma reconcile_item_exact:
  fixes s :: "'a stock_db_scheme"
  assumes inv: "inv_ok s" and r: "r = (item, home store s item)"
    and fresh: "\<forall>j < 2. find_movement s item (allocation_key line revision item j) = None"
    and dd: "dd = targetDamaged - netReturned oid line item DAMAGED s"
    and dh: "dh = targetOnHand - netReturned oid line item ON_HAND s"
    and feasible: "0 \<le> level s r DAMAGED + dd"
      "level s r RESERVED + (level s r DAMAGED + dd) \<le> level s r ON_HAND + dh"
    and run: "reconcile_item scoped store oid line revision (item, targetOnHand, targetDamaged) upd s = (Inr u, t)"
  shows "netReturned oid line item ON_HAND t = targetOnHand \<and>
    netReturned oid line item DAMAGED t = targetDamaged"
proof -
  define ds where "ds = target_deltas targetOnHand targetDamaged (netReturned oid line item ON_HAND s)
      (netReturned oid line item DAMAGED s)"
  from run have loop: "fold_act (reconcile_step scoped store line revision item) (enumerate 0 ds) upd s = (Inr u, t)"
    by (simp add: reconcile_item_def run_ok ds_def)
  have pos: "0 \<le> level s r b" for b by (rule level_nonneg[OF inv])
  consider (less) "dd < 0" "ds = [(DAMAGED, dd), (ON_HAND, dh)]" | (eq) "dd = 0" "ds = [(ON_HAND, dh)]"
    | (more) "0 < dd" "ds = [(ON_HAND, dh), (DAMAGED, dd)]"
  proof -
    have "ds = (if dd < 0 then [(DAMAGED, dd), (ON_HAND, dh)] else if dd = 0 then [(ON_HAND, dh)]
        else [(ON_HAND, dh), (DAMAGED, dd)])"
      by (auto simp: ds_def target_deltas_def dd dh)
    with that show thesis by (cases "dd < 0"; cases "dd = 0") auto
  qed
  then have "netReturned oid line item ON_HAND t = netReturned oid line item ON_HAND s + dh \<and>
      netReturned oid line item DAMAGED t = netReturned oid line item DAMAGED s + dd"
  proof cases
    case less
    have "covered s (item, home store s item) DAMAGED dd" using less feasible(1) by (simp add: covered_def flip: r)
    moreover have "\<forall>v :: 'a stock_db_scheme. (\<forall>b. level v (item, home store s item) b = level s (item, home store s item) b +
        (if b = DAMAGED then dd else 0)) \<longrightarrow> covered v (item, home store s item) ON_HAND dh"
      using feasible pos by (simp add: covered_def spare_def flip: r)
    ultimately show ?thesis
      using reconcile_pair_exact[OF inv bucket_distinct(1) fresh _ _ loop[unfolded less(2) enumerate_two], of oid]
      by (intro conjI) blast+
  next
    case eq
    have "covered s (item, home store s item) ON_HAND dh" using eq feasible by (simp add: covered_def spare_def flip: r)
    with reconcile_step_exact[OF inv _ this, of line revision 0 scoped upd u t oid] fresh loop eq
    show ?thesis by (simp add: run_ok)
  next
    case more
    have "covered s (item, home store s item) ON_HAND dh" using more feasible by (simp add: covered_def spare_def flip: r)
    moreover have "\<forall>v :: 'a stock_db_scheme. (\<forall>b. level v (item, home store s item) b = level s (item, home store s item) b +
        (if b = ON_HAND then dh else 0)) \<longrightarrow> covered v (item, home store s item) DAMAGED dd"
      using feasible pos by (simp add: covered_def spare_def flip: r)
    ultimately show ?thesis
      using reconcile_pair_exact[OF inv bucket_distinct(2) fresh _ _ loop[unfolded more(2) enumerate_two], of oid]
      by (intro conjI) blast+
  qed
  then show ?thesis by (simp add: dd dh)
qed

section \<open>What order-driven stock leaves alone\<close>

lemma more_stock: "inv_db.more s = inv_db.more t \<Longrightarrow> stock_db.more s = stock_db.more t"
  by (cases s; cases t) simp

lemma move_body_more:
  "move_body store item inp s = (Inr n, t) \<Longrightarrow> inv_db.more t = inv_db.more s"
  by (auto simp: move_body_def run_ok post_ok Let_def ensureDefaultBalance_ok(6)
      split: option.splits if_splits)

lemma move_more: "move scoped store item inp s = (Inr n, t) \<Longrightarrow> stock_db.more t = stock_db.more s"
proof (cases scoped)
  case True
  assume "move scoped store item inp s = (Inr n, t)"
  with True show ?thesis by (intro more_stock move_body_more) (simp add: move_def)
next
  case False
  assume "move scoped store item inp s = (Inr n, t)"
  with False have "retry_move 3 (move_body store item inp) s = (Inr n, t)" by (simp add: move_def)
  from retry_move_ok[OF this] obtain cs where "move_body store item inp (s\<lparr>conflicts := cs\<rparr>) = (Inr n, t)"
    by blast
  from more_stock[OF move_body_more[OF this]] show ?thesis by simp
qed

lemma keeps_more_move [keeping]: "keeps (\<lambda>s. Q (stock_db.more s)) (move scoped store item inp)"
  by (rule keepsI) (simp add: move_more)

lemma keeps_more_setStatus [keeping]: "keeps (\<lambda>s. Q (stock_db.more s)) (setStatus lid st)"
  unfolding setStatus_def by (rule keeps_writing) (simp add: map_line_def)

lemma keeps_more_release [keeping]: "keeps (\<lambda>s. Q (stock_db.more s)) (releaseLine scoped store label line)"
  unfolding releaseLine_def release_unit_def release_item_def by (intro keeping)

lemma keeps_more_order_stock [keeping]:
  "keeps (\<lambda>s. Q (stock_db.more s)) (reserveOrder scoped oid)"
  "keeps (\<lambda>s. Q (stock_db.more s)) (deliverOrder scoped oid deliveredAt)"
  "keeps (\<lambda>s. Q (stock_db.more s)) (releaseOrder scoped oid)"
  "keeps (\<lambda>s. Q (stock_db.more s)) (applyReturnCondition scoped inp)"
  "keeps (\<lambda>s. Q (stock_db.more s)) (reconcileReturnTargets scoped store oid lid revision targets)"
  unfolding reserve_defs deliver_defs releaseOrder_def return_defs reconcile_defs
  by (intro keeping)+

section \<open>Properties of order-driven stock\<close>

text \<open>A shop with five products, three gifts and one box, and an order for two products.\<close>

definition sample_variant :: "string \<Rightarrow> warehouse_variant" where
  "sample_variant giftItem = \<lparr>wv_id = ''v1'',
     wv_physical = \<lparr>pv_kind = STANDARD, pv_item = Some ''prod'', pv_components = [], pv_costPrice = 10\<rparr>,
     wv_gift = Some \<lparr>gift_quantity = 1, gift_variant =
       \<lparr>pv_kind = STANDARD, pv_item = Some giftItem, pv_components = [], pv_costPrice = 2\<rparr>\<rparr>,
     wv_packaging = [\<lparr>req_variant = None, req_material = ''m1'', req_item = Some ''box'', req_perUnit = 1\<rparr>]\<rparr>"

definition sample_order :: "string \<Rightarrow> order_row" where
  "sample_order giftItem = \<lparr>or_id = ''o1'', or_name = Some ''#1'', or_store = ''shop'', or_lines =
     [\<lparr>ol_id = ''l1'', ol_quantity = 2, ol_status = None, ol_createdAt = 0,
       ol_variant = Some (sample_variant giftItem)\<rparr>]\<rparr>"

definition empty_shop :: "string \<Rightarrow> stock_db" where
  "empty_shop giftItem = \<lparr>locations = [], balances = [], movements = [],
     items = [(''prod'', ''shop''), (''gift'', ''shop''), (''box'', ''shop'')], conflicts = [],
     orders = [sample_order giftItem]\<rparr>"

definition stocked_shop :: "string \<Rightarrow> stock_db" where
  "stocked_shop giftItem =
     snd (setOnHand ''shop'' ''box'' 1 ''open'' ''k3'' (snd (setOnHand ''shop'' ''gift'' 3 ''open'' ''k2''
       (snd (setOnHand ''shop'' ''prod'' 5 ''open'' ''k1'' (empty_shop giftItem))))))"

lemma stocked_shop_ok: "inv_ok (stocked_shop g)"
proof -
  have "inv_ok (empty_shop g)" by (simp add: inv_ok_def empty_shop_def used_keys_def audited_def)
  then show ?thesis unfolding stocked_shop_def by (intro preservesD[OF writers_preserve(3)])
qed

text \<open>
  \<open>clampDelta\<close> never overshoots: what it returns has the sign of the request, is no larger, leaves
  the balance valid, and is the largest such part; a request that keeps the balance valid is moved
  in full.
\<close>

theorem clampDelta_largest:
  assumes "sane b"
  shows "sane (set_qty k (qty k b + clampDelta b k d) b) \<and> \<bar>clampDelta b k d\<bar> \<le> \<bar>d\<bar> \<and>
    0 \<le> clampDelta b k d * d \<and>
    (0 \<le> d \<and> 0 \<le> e \<and> e \<le> d \<or> d \<le> e \<and> e \<le> 0 \<longrightarrow> sane (set_qty k (qty k b + e) b) \<longrightarrow>
       \<bar>e\<bar> \<le> \<bar>clampDelta b k d\<bar>) \<and>
    (sane (set_qty k (qty k b + d) b) \<longrightarrow> clampDelta b k d = d)"
proof -
  have "\<bar>clampDelta b k d\<bar> \<le> \<bar>d\<bar> \<and> 0 \<le> clampDelta b k d * d"
    using clampDelta_range[OF assms, of d k]
    by (cases "0 \<le> d") (auto intro: mult_nonpos_nonpos)
  then show ?thesis
    using clampDelta_sane[OF assms] clampDelta_maximal[OF assms] clampDelta_exact[OF assms] by blast
qed

lemma clampDelta_largest_witness:
  "clampDelta (\<lparr>bal_item = ''i'', bal_loc = (''s'', ''MAIN''), onHand = 5, reserved = 1, damaged = 1,
     incoming = 0, version = 1\<rparr>) RESERVED 2 = 2"
proof -
  let ?b = "\<lparr>bal_item = ''i'', bal_loc = (''s'', ''MAIN''), onHand = 5, reserved = 1, damaged = 1,
     incoming = 0, version = 1\<rparr>"
  have "sane ?b" "sane (set_qty RESERVED (qty RESERVED ?b + 2) ?b)" by (simp_all add: sane_def)
  with clampDelta_largest[of ?b RESERVED 2] show ?thesis by blast
qed

text \<open>
  \<open>expandOrderLine\<close> lists each consumed item once per role, always with a positive quantity, and
  the quantities are those of the product (or of the bundle's components), of the gift, and of the
  applicable packaging rules, each scaled by the ordered quantity.
\<close>

theorem expandOrderLine_quantities:
  "units_ok (expandOrderLine line) \<and>
   (\<forall>v. ol_variant line = Some v \<and> 0 < ol_quantity line \<longrightarrow>
     unit_total item PRODUCT (expandOrderLine line) = contains (wv_physical v) (ol_quantity line) item \<and>
     unit_total item GIFT (expandOrderLine line) = (case wv_gift v of None \<Rightarrow> 0
       | Some g \<Rightarrow> contains (gift_variant g) (gift_quantity g * ol_quantity line) item) \<and>
     unit_total item PACKAGING (expandOrderLine line) =
       (\<Sum>r\<leftarrow>packagingFor (wv_id v) (wv_packaging v). counts (req_item r) (req_perUnit r * ol_quantity line) item))"
proof (intro conjI allI impI)
  show "units_ok (expandOrderLine line)" by (rule expandOrderLine_ok)
next
  fix v assume "ol_variant line = Some v \<and> 0 < ol_quantity line"
  moreover have "unit_total item r [] = 0" for r by (simp add: unit_total_def)
  ultimately show
    "unit_total item PRODUCT (expandOrderLine line) = contains (wv_physical v) (ol_quantity line) item"
    "unit_total item GIFT (expandOrderLine line) = (case wv_gift v of None \<Rightarrow> 0
       | Some g \<Rightarrow> contains (gift_variant g) (gift_quantity g * ol_quantity line) item)"
    "unit_total item PACKAGING (expandOrderLine line) =
       (\<Sum>r\<leftarrow>packagingFor (wv_id v) (wv_packaging v). counts (req_item r) (req_perUnit r * ol_quantity line) item)"
    by (simp_all add: expandOrderLine_def Let_def fold_add_total addPhysical_total split: option.split)
qed

lemma expandOrderLine_quantities_witness:
  "unit_total ''gift'' GIFT (expandOrderLine (hd (or_lines (sample_order ''gift'')))) = 2"
  using expandOrderLine_quantities[of "hd (or_lines (sample_order ''gift''))" "''gift''"]
  by (simp add: sample_order_def sample_variant_def contains_def counts_def)



text \<open>
  C8. Courier syncs may repeat the order-stock calls: reserving, delivering or releasing an order
  that was just processed returns normally and changes nothing.
\<close>

theorem order_stock_idempotent:
  assumes "inv_ok s"
  shows "(reserveOrder scoped oid s = (Inr u, t) \<longrightarrow> reserveOrder scoped oid t = (Inr (), t)) \<and>
    (deliverOrder scoped oid deliveredAt s = (Inr u, t) \<longrightarrow>
       deliverOrder scoped oid deliveredAt t = (Inr (), t)) \<and>
    (releaseOrder scoped oid s = (Inr u, t) \<longrightarrow> releaseOrder scoped oid t = (Inr (), t))"
proof (intro conjI impI)
  assume "reserveOrder scoped oid s = (Inr u, t)"
  from reserving.pass_twice[OF assms this[unfolded reserveOrder_def, folded reserving.pass_def]]
  show "reserveOrder scoped oid t = (Inr (), t)" unfolding reserving.pass_def reserveOrder_def .
next
  assume "deliverOrder scoped oid deliveredAt s = (Inr u, t)"
  from delivering.pass_twice[OF assms this[unfolded deliverOrder_def, folded delivering.pass_def]]
  show "deliverOrder scoped oid deliveredAt t = (Inr (), t)" unfolding delivering.pass_def deliverOrder_def .
next
  assume "releaseOrder scoped oid s = (Inr u, t)"
  from releasing.pass_twice[OF assms this[unfolded releaseOrder_def, folded releasing.pass_def]]
  show "releaseOrder scoped oid t = (Inr (), t)" unfolding releasing.pass_def releaseOrder_def .
qed

lemma order_stock_idempotent_witness:
  "let t = snd (reserveOrder True ''o1'' (stocked_shop ''gift'')) in reserveOrder True ''o1'' t = (Inr (), t)"
proof -
  have "fst (reserveOrder True ''o1'' (stocked_shop ''gift'')) = Inr ()" by code_simp
  from order_stock_idempotent[OF stocked_shop_ok] run_result[OF this] show ?thesis
    by (simp only: Let_def)
qed

text \<open>
  C9. Handing an order to a courier and cancelling it afterwards is neutral: every stock level is
  back where it was, even when the stock only covered part of the order or a product also is the
  order's gift.
\<close>

theorem reserve_then_release_neutral:
  assumes "inv_ok s" and "find_order oid s = Some order"
    and "\<forall>l \<in> set (or_lines order). ol_status l = None \<and>
      (\<forall>i. netReserved (ol_id l) i s = 0 \<and> find_movement s i (''order-release:'' @ ol_id l) = None)"
    and "reserveOrder scoped oid s = (Inr u, t)"
    and "releaseOrder scoped' oid t = (Inr v, w)"
  shows "level w r k = level s r k"
  using reserve_release_levels[OF assms(1,2) _ assms(4,5)] assms(3) unfolding release_key_def by blast

lemma untouched_line:
  assumes "list_all (\<lambda>m. mv_refType m \<noteq> Some ORDER_LINE_REFERENCE \<and> mv_key m \<noteq> Some key) (movements s)"
  shows "netReserved l i s = 0" "find_movement s i key = None"
  using assms
  by (auto simp: netReserved_def for_line_def list_all_iff find_movement_def find_None_set intro!: sum_list_zero)

lemma reserve_then_release_neutral_witness:
  "level (snd (releaseOrder True ''o1'' (snd (reserveOrder True ''o1'' (stocked_shop ''prod'')))))
     (''prod'', ''shop'', ''MAIN'') RESERVED = level (stocked_shop ''prod'') (''prod'', ''shop'', ''MAIN'') RESERVED"
proof -
  let ?s = "stocked_shop ''prod''"
  have "orders ?s = [sample_order ''prod'']" by code_simp
  then have o: "find_order ''o1'' ?s = Some (sample_order ''prod'')" by (simp add: find_order_def sample_order_def)
  have "list_all (\<lambda>m. mv_refType m \<noteq> Some ORDER_LINE_REFERENCE \<and>
      mv_key m \<noteq> Some (''order-release:'' @ ''l1'')) (movements ?s)" by code_simp
  from untouched_line[OF this] have f: "\<forall>l \<in> set (or_lines (sample_order ''prod'')). ol_status l = None \<and>
      (\<forall>i. netReserved (ol_id l) i ?s = 0 \<and> find_movement ?s i (''order-release:'' @ ol_id l) = None)"
    by (simp add: sample_order_def)
  have r: "fst (reserveOrder True ''o1'' ?s) = Inr ()" by code_simp
  have "fst (releaseOrder True ''o1'' (snd (reserveOrder True ''o1'' ?s))) = Inr ()" by code_simp
  from reserve_then_release_neutral[OF stocked_shop_ok o f run_result[OF r] run_result[OF this]]
  show ?thesis .
qed

text \<open>
  Delivering a line deducts exactly its products and gifts: each unit that was fully reserved
  leaves the on-hand and the reserved stock of its item, and nothing else of that item moves. The
  units of the line must be different items; C12 shows why.
\<close>

theorem deliver_line_deducts:
  assumes "inv_ok s" and "distinct (map u_item (expandOrderLine line))"
    and "u \<in> set (expandOrderLine line)" and "u_role u \<noteq> PACKAGING" and "ready order line u s"
    and "ol_status line = Some Line_RESERVED" and "ol_variant line \<noteq> None"
    and "deliver_line scoped deliveredAt order line s = (Inr n, t)"
  shows "level t (u_item u, loc) k = level s (u_item u, loc) k -
    (if loc = home (or_store order) s (u_item u) \<and> (k = ON_HAND \<or> k = RESERVED) then u_quantity u else 0)"
  by (rule deliver_line_exact[OF assms])

lemma deliver_line_deducts_witness:
  "let s = snd (reserveOrder True ''o1'' (stocked_shop ''gift'')); order = the (find_order ''o1'' s);
       t = snd (deliver_line True None order (hd (or_lines order)) s)
   in level t (''prod'', ''shop'', ''MAIN'') ON_HAND = level s (''prod'', ''shop'', ''MAIN'') ON_HAND - 2"
proof -
  define s where "s = snd (reserveOrder True ''o1'' (stocked_shop ''gift''))"
  define order where "order = the (find_order ''o1'' s)"
  define line where "line = hd (or_lines order)"
  let ?u = "\<lparr>u_item = ''prod'', u_quantity = 2, u_role = PRODUCT\<rparr>"
  have "fst (reserveOrder True ''o1'' (stocked_shop ''gift'')) = Inr ()" by code_simp
  from run_result[OF this] have inv: "inv_ok s"
    unfolding s_def by (rule keepsD[OF keeps_inv_order_stock(1) stocked_shop_ok])
  have facts: "distinct (map u_item (expandOrderLine line))" "?u \<in> set (expandOrderLine line)"
    "ready order line ?u s" "ol_status line = Some Line_RESERVED" "ol_variant line \<noteq> None"
    "fst (deliver_line True None order line s) = Inr ()"
    "home (or_store order) s ''prod'' = (''shop'', ''MAIN'')"
    unfolding line_def order_def s_def by code_simp+
  from deliver_line_deducts[OF inv facts(1,2) _ facts(3-5) run_result[OF facts(6)], of "(''shop'', ''MAIN'')" ON_HAND] facts(7)
  have "level (snd (deliver_line True None order line s)) (''prod'', ''shop'', ''MAIN'') ON_HAND
      = level s (''prod'', ''shop'', ''MAIN'') ON_HAND - 2" by simp
  then show ?thesis by (simp only: Let_def line_def order_def s_def)
qed

text \<open>
  C11. Reconciling the returned quantities of an item reaches the targets exactly whenever the
  resulting balance is valid: the damaged bucket is shrunk first and grown last, so no
  intermediate clamp gets in the way.
\<close>

theorem reconcile_reaches_targets:
  assumes "inv_ok s" and "r = (item, home store s item)"
    and "\<forall>j < 2. find_movement s item (''return-allocation:'' @ line @ '':'' @ show_int revision @ '':'' @
      item @ '':'' @ show_int (int j)) = None"
    and "dd = targetDamaged - netReturned oid line item DAMAGED s"
    and "dh = targetOnHand - netReturned oid line item ON_HAND s"
    and "0 \<le> level s r DAMAGED + dd"
    and "level s r RESERVED + (level s r DAMAGED + dd) \<le> level s r ON_HAND + dh"
    and "reconcile_item scoped store oid line revision (item, targetOnHand, targetDamaged) upd s = (Inr u, t)"
  shows "netReturned oid line item ON_HAND t = targetOnHand \<and>
    netReturned oid line item DAMAGED t = targetDamaged"
  by (rule reconcile_item_exact[OF assms(1,2) _ assms(4-8)]) (use assms(3) in \<open>simp add: allocation_key_def\<close>)

lemma reconcile_reaches_targets_witness:
  "netReturned ''o1'' ''l1'' ''prod'' DAMAGED (snd (reconcile_item True ''shop'' ''o1'' ''l1'' 1 (''prod'', 2, 1) False
     (stocked_shop ''gift''))) = 1"
proof -
  let ?s = "stocked_shop ''gift''"
  have facts: "(''prod'', ''shop'', ''MAIN'') = (''prod'', home ''shop'' ?s ''prod'')"
    "1 = (1 :: int) - netReturned ''o1'' ''l1'' ''prod'' DAMAGED ?s"
    "2 = (2 :: int) - netReturned ''o1'' ''l1'' ''prod'' ON_HAND ?s"
    "0 \<le> level ?s (''prod'', ''shop'', ''MAIN'') DAMAGED + 1"
    "level ?s (''prod'', ''shop'', ''MAIN'') RESERVED + (level ?s (''prod'', ''shop'', ''MAIN'') DAMAGED + 1)
       \<le> level ?s (''prod'', ''shop'', ''MAIN'') ON_HAND + 2"
    by code_simp+
  have fresh: "\<forall>j < 2. find_movement ?s ''prod'' (''return-allocation:'' @ ''l1'' @ '':'' @ show_int 1 @ '':'' @
      ''prod'' @ '':'' @ show_int (int j)) = None"
  proof -
    have "list_all (\<lambda>m. map_option hd (mv_key m) \<noteq> Some CHR ''r'') (movements ?s)" by code_simp
    then show ?thesis by (fastforce simp: find_movement_def find_None_set list_all_iff)
  qed
  have "fst (reconcile_item True ''shop'' ''o1'' ''l1'' 1 (''prod'', 2, 1) False ?s) = Inr True" by code_simp
  from reconcile_reaches_targets[OF stocked_shop_ok facts(1) fresh facts(2-5) run_result[OF this]]
  show ?thesis by blast
qed


end
