(* ===== verification/Order_Financial.thy ===== *)
theory Order_Financial
  imports Order_Stock
begin

text \<open>
  The financial side of an order: \<open>src/ecommerce/order-status.util.ts\<close> (what the timeline says
  happened), \<open>src/ecommerce/cod-status.util.ts\<close> (cash on delivery),
  \<open>src/prisma/order-transaction.ts\<close> (the order transaction and its retries),
  \<open>src/currency/required-currency-converter.ts\<close>, \<open>src/warehouse/packaging-cost.util.ts\<close> and
  \<open>src/ecommerce/ecommerce-order-financial.service.ts\<close>, the append-only ledger that books revenue,
  costs and losses from the carrier's outcome. \<open>D\<close> is the decimal library and \<open>rates\<close> the table of
  exchange rates relative to USD. The order columns that the ledger reads are rows of \<open>accounts\<close>.
\<close>

section \<open>src/ecommerce/order-status.util.ts\<close>

record tl_event =
  te_order :: string
  te_providerId :: "string option"
  te_type :: string
  te_occurredAt :: int
  te_carrier :: "string option"
  te_fee :: "rat option"
  te_currency :: string

definition STATUS_PRIORITY :: "string list" where
  "STATUS_PRIORITY = [''DELIVERED'', ''RETURN_IN_TRANSIT'', ''RETURNED'', ''RETURN_REQUESTED'',
     ''OUT_FOR_DELIVERY'', ''DELIVERY_FAILED'', ''IN_TRANSIT'', ''PICKED_UP'', ''LABEL_CREATED'',
     ''FULFILLMENT_CANCELLED'', ''FULFILLMENT_CREATED'', ''FULFILLMENT_PENDING'', ''ORDER_CANCELLED'',
     ''PAYMENT_REFUNDED'', ''PAYMENT_VOIDED'', ''PAYMENT_PAID'', ''PAYMENT_PARTIALLY_PAID'',
     ''PAYMENT_AUTHORIZED'', ''PAYMENT_PENDING'', ''ORDER_CLOSED'', ''ORDER_CONFIRMED'',
     ''ORDER_CREATED'', ''OTHER'']"

definition deriveCurrentStatus :: "string list \<Rightarrow> string option" where
  "deriveCurrentStatus types = (case types of
       [] \<Rightarrow> None
     | t # _ \<Rightarrow> (case find (\<lambda>s. s \<in> set types) STATUS_PRIORITY of None \<Rightarrow> Some t | Some s \<Rightarrow> Some s))"

definition TERMINAL_FAILURE_EVENT_TYPES :: "string list" where
  "TERMINAL_FAILURE_EVENT_TYPES = [''ORDER_CANCELLED'', ''FULFILLMENT_CANCELLED'', ''DELIVERY_FAILED'', ''RETURNED'']"

definition is_outcome :: "tl_event \<Rightarrow> bool" where
  "is_outcome e \<longleftrightarrow> te_type e = ''DELIVERED'' \<or> te_type e \<in> set TERMINAL_FAILURE_EVENT_TYPES"

definition later :: "tl_event \<Rightarrow> tl_event \<Rightarrow> tl_event" where
  "later e latest = (if te_occurredAt e > te_occurredAt latest then e else latest)"

definition deriveTerminalOutcome :: "tl_event list \<Rightarrow> string option" where
  "deriveTerminalOutcome events = (case filter is_outcome events of
       [] \<Rightarrow> None
     | e # es \<Rightarrow> Some (te_type (fold later es e)))"

section \<open>src/ecommerce/cod-status.util.ts\<close>

datatype ship_status = SS_PENDING | SS_CONFIRMED | SS_PICKUP_PENDING | SS_PICKED_UP | SS_AT_WAREHOUSE
  | SS_IN_TRANSIT | SS_OUT_FOR_DELIVERY | SS_POSTPONED | SS_UNREACHABLE | SS_DELIVERED | SS_CANCELLED
  | SS_REFUSED | SS_RETURN_PENDING | SS_RETURN_IN_TRANSIT | SS_RETURNED_TO_WAREHOUSE
  | SS_RETURN_INSPECTION | SS_RETURNED_TO_STOCK | SS_RETURNED_TO_SELLER | SS_UNKNOWN

definition ship_status_name :: "ship_status \<Rightarrow> string" where
  "ship_status_name x = (case x of SS_PENDING \<Rightarrow> ''PENDING'' | SS_CONFIRMED \<Rightarrow> ''CONFIRMED''
     | SS_PICKUP_PENDING \<Rightarrow> ''PICKUP_PENDING'' | SS_PICKED_UP \<Rightarrow> ''PICKED_UP''
     | SS_AT_WAREHOUSE \<Rightarrow> ''AT_WAREHOUSE'' | SS_IN_TRANSIT \<Rightarrow> ''IN_TRANSIT''
     | SS_OUT_FOR_DELIVERY \<Rightarrow> ''OUT_FOR_DELIVERY'' | SS_POSTPONED \<Rightarrow> ''POSTPONED''
     | SS_UNREACHABLE \<Rightarrow> ''UNREACHABLE'' | SS_DELIVERED \<Rightarrow> ''DELIVERED'' | SS_CANCELLED \<Rightarrow> ''CANCELLED''
     | SS_REFUSED \<Rightarrow> ''REFUSED'' | SS_RETURN_PENDING \<Rightarrow> ''RETURN_PENDING''
     | SS_RETURN_IN_TRANSIT \<Rightarrow> ''RETURN_IN_TRANSIT'' | SS_RETURNED_TO_WAREHOUSE \<Rightarrow> ''RETURNED_TO_WAREHOUSE''
     | SS_RETURN_INSPECTION \<Rightarrow> ''RETURN_INSPECTION'' | SS_RETURNED_TO_STOCK \<Rightarrow> ''RETURNED_TO_STOCK''
     | SS_RETURNED_TO_SELLER \<Rightarrow> ''RETURNED_TO_SELLER'' | SS_UNKNOWN \<Rightarrow> ''UNKNOWN'')"

datatype payment_status = PS_PENDING | PS_AUTHORIZED | PS_PARTIALLY_PAID | PS_PAID
  | PS_PARTIALLY_REFUNDED | PS_REFUNDED | PS_VOIDED | PS_EXPIRED | PS_UNKNOWN

datatype cod_status = COD_PENDING | COD_COLLECTED | COD_FAILED

definition FAILED_SHIPMENT_STATUSES :: "ship_status list" where
  "FAILED_SHIPMENT_STATUSES = [SS_CANCELLED, SS_REFUSED, SS_RETURNED_TO_SELLER,
     SS_RETURNED_TO_WAREHOUSE, SS_RETURN_INSPECTION, SS_RETURNED_TO_STOCK]"

text \<open>
  \<open>normalize('NFD')\<close> and the removal of combining marks, on Latin-1 text: an accented letter
  becomes its base letter.
\<close>

definition strip_accent :: "char \<Rightarrow> char" where
  "strip_accent c = (let n = (of_char c :: nat) in
     if 192 \<le> n \<and> n \<le> 197 then CHR ''A'' else if n = 199 then CHR ''C''
     else if 200 \<le> n \<and> n \<le> 203 then CHR ''E'' else if 204 \<le> n \<and> n \<le> 207 then CHR ''I''
     else if n = 209 then CHR ''N'' else if 210 \<le> n \<and> n \<le> 214 then CHR ''O''
     else if 217 \<le> n \<and> n \<le> 220 then CHR ''U'' else if n = 221 then CHR ''Y''
     else if 224 \<le> n \<and> n \<le> 229 then CHR ''a'' else if n = 231 then CHR ''c''
     else if 232 \<le> n \<and> n \<le> 235 then CHR ''e'' else if 236 \<le> n \<and> n \<le> 239 then CHR ''i''
     else if n = 241 then CHR ''n'' else if 242 \<le> n \<and> n \<le> 246 then CHR ''o''
     else if 249 \<le> n \<and> n \<le> 252 then CHR ''u'' else if n = 253 \<or> n = 255 then CHR ''y'' else c)"

definition isCourierPaidSituation :: "string option \<Rightarrow> bool" where
  "isCourierPaidSituation situation = (case situation of
       None \<Rightarrow> False
     | Some s \<Rightarrow> s \<noteq> [] \<and>
         js_upper (js_trim (map strip_accent s)) \<in> set [''PAID'', ''PAYE'', ''REGLE''])"

definition nextCodStatus ::
  "cod_status option \<Rightarrow> payment_status \<Rightarrow> ship_status option \<Rightarrow> string option \<Rightarrow> cod_status option" where
  "nextCodStatus current payment shipment situation =
     (if current = None then None
      else if current = Some COD_COLLECTED then Some COD_COLLECTED
      else if isCourierPaidSituation situation then Some COD_COLLECTED
      else if shipment = Some SS_DELIVERED \<and> payment = PS_PAID then Some COD_COLLECTED
      else if \<exists>x \<in> set_option shipment. x \<in> set FAILED_SHIPMENT_STATUSES then Some COD_FAILED
      else Some COD_PENDING)"

section \<open>The state\<close>

record shipment =
  sh_status :: ship_status
  sh_fee :: "rat option"
  sh_currency :: string
  sh_situation :: "string option"

record dispatch =
  d_id :: string
  d_order :: string
  d_sendit :: "shipment option"
  d_quickLivraison :: "shipment option"
  d_forceLog :: "shipment option"
  d_ozoneExpress :: "shipment option"

record ameex_shipment =
  am_id :: string
  am_user :: string
  am_reference :: "string option"
  am_status :: ship_status
  am_providerUpdatedAt :: "int option"
  am_lastActionAt :: "int option"
  am_updatedAt :: int
  am_fee :: "rat option"
  am_currency :: string

record account =
  ac_order :: string
  ac_user :: string
  ac_name :: "string option"
  ac_currency :: string
  ac_base :: string
  ac_totalCollected :: rat
  ac_shipping :: rat
  ac_payment :: payment_status
  ac_cod :: "cod_status option"

datatype fin_type = REVENUE_RECOGNIZED | REVENUE_REVERSED | REVENUE_REINSTATED | DAMAGE_LOSS | SHIPPING_LOSS

record fin_event =
  fe_id :: string
  fe_order :: string
  fe_type :: fin_type
  fe_revenue :: rat
  fe_productCost :: rat
  fe_shippingCost :: rat
  fe_damageCost :: rat
  fe_giftCost :: rat
  fe_packagingCost :: rat
  fe_netProfitImpact :: rat
  fe_currency :: string
  fe_reason :: string
  fe_key :: string

record purchase =
  pu_store :: string
  pu_material :: "string option"
  pu_shop :: bool
  pu_variant :: "string option"
  pu_product :: "string option"
  pu_date :: int
  pu_createdAt :: int
  pu_unitPrice :: rat
  pu_currency :: string

record catalog =
  ct_materials :: "(string \<times> string \<times> string option) list"
  ct_purchases :: "purchase list"
  ct_variants :: "(string \<times> rat option \<times> rat) list"
  ct_products :: "(string \<times> rat) list"
  ct_currency :: string

record fin_db = stock_db +
  accounts :: "account list"
  dispatches :: "dispatch list"
  ameex :: "ameex_shipment list"
  timeline :: "tl_event list"
  fin_events :: "fin_event list"
  pack_catalog :: catalog

section \<open>src/prisma/order-transaction.ts\<close>

fun order_tx :: "nat \<Rightarrow> ('a inv_db_scheme, 'r) act \<Rightarrow> ('a inv_db_scheme, 'r) act" where
  "order_tx 0 m s = (Inl (Internal ''Order transaction retry limit exceeded''), s)"
| "order_tx (Suc k) m s = (case tx_attempt m s of
       (Inl e, t) \<Rightarrow> if e \<notin> {WriteConflict, UniqueViolation} \<or> k = 0 then (Inl e, t) else order_tx k m t
     | (Inr a, t) \<Rightarrow> (Inr a, t))"

definition withOrderTransaction :: "bool \<Rightarrow> ('a inv_db_scheme, 'r) act \<Rightarrow> ('a inv_db_scheme, 'r) act" where
  "withOrderTransaction scoped work = (if scoped then work else order_tx 5 work)"

section \<open>src/currency\<close>

definition convertOrNull :: "decimal_lib \<Rightarrow> (string \<Rightarrow> rat option) \<Rightarrow> rat \<Rightarrow> string \<Rightarrow> string \<Rightarrow> rat option" where
  "convertOrNull D rates amount fromCurrency toCurrency =
     (let from' = js_upper fromCurrency; to' = js_upper toCurrency
      in if from' = to' then Some amount
         else case (rates from', rates to') of
           (Some rf, Some rt) \<Rightarrow> if rf = 0 \<or> rt = 0 then None else Some (dtimes D amount (ddiv D rt rf))
         | _ \<Rightarrow> None)"

definition convert :: "decimal_lib \<Rightarrow> (string \<Rightarrow> rat option) \<Rightarrow> rat \<Rightarrow> string \<Rightarrow> string \<Rightarrow> error + rat" where
  "convert D rates amount fromCurrency toCurrency =
     (let from' = js_upper (js_trim fromCurrency); to' = js_upper (js_trim toCurrency)
      in if \<not> is_currency_code from' \<or> \<not> is_currency_code to'
         then Inl (Unavailable ''A valid source and target currency are required'')
         else if from' = to' \<or> amount = 0 then Inr amount
         else case convertOrNull D rates 1 from' to' of
           None \<Rightarrow> Inl (Unavailable (''Exchange rate '' @ from' @ '' to '' @ to' @ '' is unavailable. Try again later.''))
         | Some r \<Rightarrow> if r \<le> 0
             then Inl (Unavailable (''Exchange rate '' @ from' @ '' to '' @ to' @ '' is unavailable. Try again later.''))
             else Inr (dtimes D amount r))"

section \<open>src/warehouse/packaging-cost.util.ts\<close>

definition last_purchase :: "catalog \<Rightarrow> string \<Rightarrow> string \<Rightarrow> string option \<Rightarrow> purchase option" where
  "last_purchase c store material key =
     (case sort_key (\<lambda>p. - pu_date p) (sort_key (\<lambda>p. - pu_createdAt p) (filter (\<lambda>p. pu_store p = store \<and>
        (pu_material p = Some material \<or>
         (key \<noteq> None \<and> pu_shop p \<and> (pu_variant p = key \<or> (pu_variant p = None \<and> pu_product p = key)))))
        (ct_purchases c))) of
       [] \<Rightarrow> None
     | p # _ \<Rightarrow> Some p)"

definition catalog_price :: "catalog \<Rightarrow> string \<Rightarrow> rat option" where
  "catalog_price c key = (case map_of (ct_variants c) key of
       Some (price, productPrice) \<Rightarrow> Some (case price of None \<Rightarrow> productPrice | Some p \<Rightarrow> p)
     | None \<Rightarrow> map_of (ct_products c) key)"

definition material_cost ::
  "(rat \<Rightarrow> string \<Rightarrow> error + rat) \<Rightarrow> catalog \<Rightarrow> string \<times> string \<times> string option \<Rightarrow> error + rat option" where
  "material_cost conv c = (\<lambda>(material, store, key).
     let wrap = (\<lambda>r. case r of Inl e \<Rightarrow> Inl e | Inr v \<Rightarrow> Inr (Some v))
     in case last_purchase c store material (if key = Some [] then None else key) of
          Some p \<Rightarrow> wrap (conv (pu_unitPrice p) (pu_currency p))
        | None \<Rightarrow> (case key of
            None \<Rightarrow> Inr None
          | Some k \<Rightarrow> if k = [] then Inr None else (case catalog_price c k of
              None \<Rightarrow> Inr None
            | Some price \<Rightarrow> wrap (conv price (ct_currency c)))))"

fun material_costs ::
  "(rat \<Rightarrow> string \<Rightarrow> error + rat) \<Rightarrow> catalog \<Rightarrow> (string \<times> string \<times> string option) list \<Rightarrow>
   error + (string \<times> rat) list" where
  "material_costs conv c [] = Inr []"
| "material_costs conv c (m # ms) = (case material_cost conv c m of
       Inl e \<Rightarrow> Inl e
     | Inr cost \<Rightarrow> (case material_costs conv c ms of
         Inl e \<Rightarrow> Inl e
       | Inr costs \<Rightarrow> Inr (case cost of None \<Rightarrow> costs | Some v \<Rightarrow> (fst m, v) # costs)))"

definition resolvePackagingUnitCosts ::
  "(rat \<Rightarrow> string \<Rightarrow> error + rat) \<Rightarrow> catalog \<Rightarrow> string list \<Rightarrow> error + (string \<times> rat) list" where
  "resolvePackagingUnitCosts conv c ids =
     material_costs conv c (filter (\<lambda>(m, _). m \<in> set ids) (ct_materials c))"

section \<open>src/ecommerce/ecommerce-order-financial.service.ts: the ledger\<close>

abbreviation REVENUE_RECOGNIZED_KEY :: string where
  "REVENUE_RECOGNIZED_KEY \<equiv> ''revenue-recognized''"

abbreviation REVENUE_REVERSED_KEY :: string where
  "REVENUE_REVERSED_KEY \<equiv> ''revenue-reversed''"

abbreviation SHIPPING_LOSS_KEY :: string where
  "SHIPPING_LOSS_KEY \<equiv> ''shipping-loss''"

definition TERMINAL_FAILURE_STATUSES :: "ship_status list" where
  "TERMINAL_FAILURE_STATUSES = [SS_CANCELLED, SS_REFUSED, SS_RETURNED_TO_SELLER,
     SS_RETURNED_TO_WAREHOUSE, SS_RETURN_INSPECTION, SS_RETURNED_TO_STOCK]"

definition SHIPPED_FAILURE_STATUSES :: "ship_status list" where
  "SHIPPED_FAILURE_STATUSES = [SS_REFUSED, SS_RETURNED_TO_SELLER, SS_RETURNED_TO_WAREHOUSE,
     SS_RETURN_INSPECTION, SS_RETURNED_TO_STOCK]"

definition SHIPPED_FAILURE_EVENT_TYPES :: "string list" where
  "SHIPPED_FAILURE_EVENT_TYPES = [''DELIVERY_FAILED'', ''RETURNED'']"

text \<open>Rows are appended; the columns keep four decimals.\<close>

definition find_event :: "'a fin_db_scheme \<Rightarrow> string \<Rightarrow> string \<Rightarrow> fin_event option" where
  "find_event s oid key = find (\<lambda>e. fe_order e = oid \<and> fe_key e = key) (fin_events s)"

definition latest_event :: "'a fin_db_scheme \<Rightarrow> string \<Rightarrow> fin_type \<Rightarrow> fin_event option" where
  "latest_event s oid ty = find (\<lambda>e. fe_order e = oid \<and> fe_type e = ty) (rev (fin_events s))"

definition stored :: "decimal_lib \<Rightarrow> fin_event \<Rightarrow> fin_event" where
  "stored D e = e\<lparr>fe_revenue := places D 4 (fe_revenue e), fe_productCost := places D 4 (fe_productCost e),
     fe_shippingCost := places D 4 (fe_shippingCost e), fe_damageCost := places D 4 (fe_damageCost e),
     fe_giftCost := places D 4 (fe_giftCost e), fe_packagingCost := places D 4 (fe_packagingCost e),
     fe_netProfitImpact := places D 4 (fe_netProfitImpact e)\<rparr>"

definition next_event_id :: "'a fin_db_scheme \<Rightarrow> string" where
  "next_event_id s = ''evt-'' @ show_int (int (length (fin_events s)))"

definition create_event :: "decimal_lib \<Rightarrow> fin_event \<Rightarrow> ('a fin_db_scheme, fin_event) act" where
  "create_event D e = (\<lambda>s.
     if find_event s (fe_order e) (fe_key e) \<noteq> None then (Inl UniqueViolation, s)
     else let x = stored D (e\<lparr>fe_id := next_event_id s\<rparr>) in (Inr x, s\<lparr>fin_events := fin_events s @ [x]\<rparr>))"

definition upsert_event :: "decimal_lib \<Rightarrow> fin_event \<Rightarrow> ('a fin_db_scheme, fin_event) act" where
  "upsert_event D e = bnd (reading (\<lambda>s. find_event s (fe_order e) (fe_key e))) (\<lambda>existing. case existing of
       Some x \<Rightarrow> ret x
     | None \<Rightarrow> create_event D e)"

definition zero_event :: "string \<Rightarrow> fin_type \<Rightarrow> string \<Rightarrow> string \<Rightarrow> string \<Rightarrow> fin_event" where
  "zero_event oid ty currency reason key = \<lparr>fe_id = '''', fe_order = oid, fe_type = ty, fe_revenue = 0,
     fe_productCost = 0, fe_shippingCost = 0, fe_damageCost = 0, fe_giftCost = 0, fe_packagingCost = 0,
     fe_netProfitImpact = 0, fe_currency = currency, fe_reason = reason, fe_key = key\<rparr>"

text \<open>The fee of a courier shipment in the order's currency; \<open>None\<close> when no fee is known.\<close>

definition convertShipmentFee ::
  "decimal_lib \<Rightarrow> (string \<Rightarrow> rat option) \<Rightarrow> (rat option \<times> string) option \<Rightarrow> string \<Rightarrow> error + rat option" where
  "convertShipmentFee D rates meta orderCurrency = (case meta of
       Some (Some fee, currency) \<Rightarrow> (case convert D rates fee currency orderCurrency of
         Inl e \<Rightarrow> Inl e | Inr v \<Rightarrow> Inr (Some v))
     | _ \<Rightarrow> Inr None)"

definition damage_key :: "string \<Rightarrow> string" where
  "damage_key lid = ''damage-loss:'' @ lid"

definition line_losses :: "'a fin_db_scheme \<Rightarrow> string \<Rightarrow> string \<Rightarrow> fin_event list" where
  "line_losses s oid lineKey = filter (\<lambda>e. fe_order e = oid \<and> fe_type e = DAMAGE_LOSS \<and>
     (fe_key e = lineKey \<or> starts_with (lineKey @ '':'') (fe_key e))) (fin_events s)"

definition sum_losses :: "fin_event list \<Rightarrow> rat option" where
  "sum_losses es = (if es = [] then None else Some (sum_list (map fe_damageCost es)))"

definition setLineLoss ::
  "decimal_lib \<Rightarrow> string \<Rightarrow> string \<Rightarrow> string \<Rightarrow> rat \<Rightarrow> string \<Rightarrow> string \<Rightarrow>
   ('a fin_db_scheme, fin_event option) act" where
  "setLineLoss D oid lid currency targetLoss reason uuid =
     (let lineKey = damage_key lid
      in bnd (reading (\<lambda>s. sum_losses (line_losses s oid lineKey))) (\<lambda>booked.
         let delta = dminus D targetLoss (case booked of None \<Rightarrow> 0 | Some x \<Rightarrow> x)
         in if delta = 0 then ret None
            else let key = (if booked = None then lineKey else lineKey @ '':'' @ uuid)
                 in bnd (upsert_event D ((zero_event oid DAMAGE_LOSS currency reason key)
                        \<lparr>fe_damageCost := delta, fe_netProfitImpact := - delta\<rparr>))
                      (\<lambda>e. ret (Some e))))"

section \<open>src/ecommerce/ecommerce-order-financial.service.ts: outcomes\<close>

record order_costs =
  oc_product :: rat
  oc_gift :: rat
  oc_packaging :: rat

definition total_costs :: "decimal_lib \<Rightarrow> order_line list \<Rightarrow> (string \<Rightarrow> rat option) \<Rightarrow> order_costs" where
  "total_costs D lines unitCosts = fold (\<lambda>line total.
       let c = orderLineCosts D (ol_quantity line) (ol_variant line) unitCosts
       in \<lparr>oc_product = dplus D (oc_product total) (productCost c),
           oc_gift = dplus D (oc_gift total) (giftCost c),
           oc_packaging = dplus D (oc_packaging total) (packagingCost c)\<rparr>)
     lines \<lparr>oc_product = 0, oc_gift = 0, oc_packaging = 0\<rparr>"

definition order_lines_of :: "'a stock_db_scheme \<Rightarrow> string \<Rightarrow> order_line list" where
  "order_lines_of s oid = (case find_order oid s of None \<Rightarrow> [] | Some o' \<Rightarrow> or_lines o')"

definition recognition_event ::
  "decimal_lib \<Rightarrow> (string \<Rightarrow> rat option) \<Rightarrow> account \<Rightarrow> (rat option \<times> string) option \<Rightarrow>
   'a fin_db_scheme \<Rightarrow> error + fin_event" where
  "recognition_event D rates acc meta s =
     (let lines = order_lines_of s (ac_order acc)
      in case resolvePackagingUnitCosts (\<lambda>v from'. convert D rates v from' (ac_currency acc))
           (pack_catalog s) (packagingMaterialIds lines) of
        Inl e \<Rightarrow> Inl e
      | Inr unitCosts \<Rightarrow>
          let costs = total_costs D lines (map_of unitCosts)
          in case convert D rates (oc_product costs) (ac_base acc) (ac_currency acc) of
            Inl e \<Rightarrow> Inl e
          | Inr product \<Rightarrow> (case convert D rates (oc_gift costs) (ac_base acc) (ac_currency acc) of
              Inl e \<Rightarrow> Inl e
            | Inr giftTotal \<Rightarrow>
                (case (if find_event s (ac_order acc) SHIPPING_LOSS_KEY \<noteq> None then Inr 0
                       else case convertShipmentFee D rates meta (ac_currency acc) of
                         Inl e \<Rightarrow> Inl e
                       | Inr fee \<Rightarrow> Inr (case fee of None \<Rightarrow> ac_shipping acc | Some v \<Rightarrow> v)) of
                   Inl e \<Rightarrow> Inl e
                 | Inr ship \<Rightarrow>
                     let revenue = ac_totalCollected acc;
                         impact = dminus D (dminus D (dminus D (dminus D revenue product) ship) giftTotal)
                                    (oc_packaging costs)
                     in Inr ((zero_event (ac_order acc) REVENUE_RECOGNIZED (ac_currency acc)
                          ''Carrier marked shipment as delivered'' REVENUE_RECOGNIZED_KEY)
                          \<lparr>fe_revenue := revenue, fe_productCost := product, fe_shippingCost := ship,
                           fe_giftCost := giftTotal, fe_packagingCost := oc_packaging costs,
                           fe_netProfitImpact := impact\<rparr>))))"

definition applyRevenueRecognition ::
  "decimal_lib \<Rightarrow> (string \<Rightarrow> rat option) \<Rightarrow> account \<Rightarrow> (rat option \<times> string) option \<Rightarrow>
   ('a fin_db_scheme, fin_event) act" where
  "applyRevenueRecognition D rates acc meta =
     bnd (reading (\<lambda>s. find_event s (ac_order acc) REVENUE_RECOGNIZED_KEY)) (\<lambda>existing. case existing of
       Some x \<Rightarrow> bnd (reading (\<lambda>s. latest_event s (ac_order acc) REVENUE_REVERSED)) (\<lambda>reversal. case reversal of
           None \<Rightarrow> ret x
         | Some r \<Rightarrow> upsert_event D ((zero_event (ac_order acc) REVENUE_REINSTATED (ac_currency acc)
               ''Later courier delivery corrects a previous reversal; incurred costs retained''
               (''revenue-reinstated:'' @ fe_id r))
               \<lparr>fe_revenue := fe_revenue x, fe_productCost := fe_productCost x,
                fe_netProfitImpact := dminus D (fe_revenue x) (fe_productCost x)\<rparr>))
     | None \<Rightarrow> bnd (reading (recognition_event D rates acc meta)) (\<lambda>e.
         bnd (lift_sum e) (create_event D)))"

text \<open>The reversal event that undoes the recognised revenue and product cost.\<close>

definition reverse_with ::
  "decimal_lib \<Rightarrow> string \<Rightarrow> string \<Rightarrow> string \<Rightarrow> ('a fin_db_scheme, fin_event option) act" where
  "reverse_with D oid currency = (\<lambda>key. bnd (reading (\<lambda>s. find_event s oid REVENUE_RECOGNIZED_KEY)) (\<lambda>recognized.
            case recognized of
              None \<Rightarrow> ret None
            | Some x \<Rightarrow> bnd (create_event D ((zero_event oid REVENUE_REVERSED currency
                ''Carrier marked shipment as cancelled/refused/returned after being delivered'' key)
                \<lparr>fe_revenue := fe_revenue x, fe_productCost := fe_productCost x,
                 fe_netProfitImpact := - dplus D (dplus D (dplus D (fe_netProfitImpact x)
                    (fe_shippingCost x)) (fe_giftCost x)) (fe_packagingCost x)\<rparr>))
                (\<lambda>e. ret (Some e))))"

definition applyRevenueReversal ::
  "decimal_lib \<Rightarrow> string \<Rightarrow> string \<Rightarrow> ('a fin_db_scheme, fin_event option) act" where
  "applyRevenueReversal D oid currency =
     bnd (reading (\<lambda>s. find_event s oid REVENUE_REVERSED_KEY)) (\<lambda>existing. case existing of
       None \<Rightarrow> reverse_with D oid currency REVENUE_REVERSED_KEY
     | Some x \<Rightarrow> bnd (reading (\<lambda>s. latest_event s oid REVENUE_REINSTATED)) (\<lambda>reinstated.
         case reinstated of
           None \<Rightarrow> ret (Some x)
         | Some r \<Rightarrow> bnd (reading (\<lambda>s. find_event s oid (''revenue-reversed:'' @ fe_id r))) (\<lambda>correction.
             case correction of
               Some c \<Rightarrow> ret (Some c)
             | None \<Rightarrow> reverse_with D oid currency (''revenue-reversed:'' @ fe_id r))))"

definition applyShippingLoss ::
  "decimal_lib \<Rightarrow> (string \<Rightarrow> rat option) \<Rightarrow> string \<Rightarrow> string \<Rightarrow> rat \<Rightarrow> (rat option \<times> string) option \<Rightarrow>
   ('a fin_db_scheme, fin_event option) act" where
  "applyShippingLoss D rates oid currency fallback meta =
     bnd (reading (\<lambda>s. find_event s oid REVENUE_RECOGNIZED_KEY)) (\<lambda>recognized. case recognized of
       Some _ \<Rightarrow> ret None
     | None \<Rightarrow> bnd (reading (\<lambda>s. find_event s oid SHIPPING_LOSS_KEY)) (\<lambda>existing. case existing of
         Some x \<Rightarrow> ret (Some x)
       | None \<Rightarrow> bnd (lift_sum (convertShipmentFee D rates meta currency)) (\<lambda>fee.
           let ship = (case fee of None \<Rightarrow> fallback | Some v \<Rightarrow> v)
           in if ship \<le> 0 then ret None
              else bnd (upsert_event D ((zero_event oid SHIPPING_LOSS currency
                     ''Parcel refused or returned before delivery; shipping still paid'' SHIPPING_LOSS_KEY)
                     \<lparr>fe_shippingCost := ship, fe_netProfitImpact := - ship\<rparr>)) (\<lambda>e. ret (Some e)))))"

section \<open>src/ecommerce/ecommerce-order-financial.service.ts: synchronisation\<close>

definition pickCourierShipment :: "dispatch \<Rightarrow> shipment option" where
  "pickCourierShipment d = (case d_sendit d of Some x \<Rightarrow> Some x
     | None \<Rightarrow> (case d_quickLivraison d of Some x \<Rightarrow> Some x
       | None \<Rightarrow> (case d_forceLog d of Some x \<Rightarrow> Some x | None \<Rightarrow> d_ozoneExpress d)))"

definition fee_of :: "shipment \<Rightarrow> rat option \<times> string" where
  "fee_of x = (sh_fee x, sh_currency x)"

definition find_account :: "'a fin_db_scheme \<Rightarrow> string \<Rightarrow> account option" where
  "find_account s oid = find (\<lambda>a. ac_order a = oid) (accounts s)"

definition dispatch_of :: "'a fin_db_scheme \<Rightarrow> string \<Rightarrow> dispatch option" where
  "dispatch_of s oid = find (\<lambda>d. d_order d = oid) (dispatches s)"

definition find_dispatch :: "'a fin_db_scheme \<Rightarrow> string \<Rightarrow> dispatch option" where
  "find_dispatch s did = find (\<lambda>d. d_id d = did) (dispatches s)"

text \<open>Only the QuickLivraison and ForceLog shipments carry a payment situation.\<close>

definition cod_shipment :: "dispatch option \<Rightarrow> (ship_status \<times> string option) option" where
  "cod_shipment d = (case d of None \<Rightarrow> None | Some d \<Rightarrow>
     (case d_sendit d of Some x \<Rightarrow> Some (sh_status x, None)
      | None \<Rightarrow> (case d_quickLivraison d of Some x \<Rightarrow> Some (sh_status x, sh_situation x)
        | None \<Rightarrow> (case d_forceLog d of Some x \<Rightarrow> Some (sh_status x, sh_situation x)
          | None \<Rightarrow> (case d_ozoneExpress d of Some x \<Rightarrow> Some (sh_status x, None) | None \<Rightarrow> None)))))"

definition set_cod :: "string \<Rightarrow> cod_status option \<Rightarrow> cod_status \<Rightarrow> 'a fin_db_scheme \<Rightarrow> 'a fin_db_scheme" where
  "set_cod oid current next' s = s\<lparr>accounts := map (\<lambda>a. if ac_order a = oid \<and> ac_cod a = current
     then a\<lparr>ac_cod := Some next'\<rparr> else a) (accounts s)\<rparr>"

definition refreshCodStatus :: "string \<Rightarrow> ('a fin_db_scheme, cod_status option) act" where
  "refreshCodStatus oid = bnd (reading (\<lambda>s. (find_account s oid, cod_shipment (dispatch_of s oid)))) (\<lambda>(acc, ship).
     case acc of
       None \<Rightarrow> ret None
     | Some a \<Rightarrow>
         if ac_cod a = None then ret None
         else (case nextCodStatus (ac_cod a) (ac_payment a) (map_option fst ship)
                      (case ship of None \<Rightarrow> None | Some (_, situation) \<Rightarrow> situation) of
             None \<Rightarrow> ret None
           | Some n \<Rightarrow> if Some n = ac_cod a then ret (Some n)
               else andthen (writing (set_cod oid (ac_cod a) n)) (ret (Some n))))"

record sync_result =
  sr_applied :: bool
  sr_reason :: string
  sr_status :: "string option"

definition syncStock :: "string \<Rightarrow> bool \<Rightarrow> int option \<Rightarrow> ('a fin_db_scheme, unit) act" where
  "syncStock oid delivered deliveredAt =
     (if delivered then deliverOrder True oid deliveredAt else releaseOrder True oid)"

text \<open>The engine keyed by dispatch; it runs inside the order transaction.\<close>

definition syncFromDispatchIdLocked ::
  "decimal_lib \<Rightarrow> (string \<Rightarrow> rat option) \<Rightarrow> string \<Rightarrow> ('a fin_db_scheme, sync_result) act" where
  "syncFromDispatchIdLocked D rates did = bnd (reading (\<lambda>s. find_dispatch s did)) (\<lambda>dispatch. case dispatch of
       None \<Rightarrow> ret \<lparr>sr_applied = False, sr_reason = ''NOT_DISPATCHED'', sr_status = None\<rparr>
     | Some d \<Rightarrow> (case pickCourierShipment d of
         None \<Rightarrow> ret \<lparr>sr_applied = False, sr_reason = ''NO_CARRIER_STATUS_YET'', sr_status = None\<rparr>
       | Some ship \<Rightarrow>
           bnd (bnd (reading (\<lambda>s. find_account s (d_order d))) (\<lambda>a. found a (Internal ''order not found''))) (\<lambda>acc.
           andthen (refreshCodStatus (d_order d))
             (if sh_status ship = SS_DELIVERED
              then andthen (applyRevenueRecognition D rates acc (Some (fee_of ship)))
                (andthen (syncStock (d_order d) True None)
                  (ret \<lparr>sr_applied = True, sr_reason = ''DELIVERED'', sr_status = Some (ship_status_name (sh_status ship))\<rparr>))
              else if sh_status ship \<in> set TERMINAL_FAILURE_STATUSES
              then bnd (applyRevenueReversal D (d_order d) (ac_currency acc)) (\<lambda>event.
                andthen (if sh_status ship \<in> set SHIPPED_FAILURE_STATUSES
                    then applyShippingLoss D rates (d_order d) (ac_currency acc) (ac_shipping acc) (Some (fee_of ship))
                    else ret None)
                (andthen (syncStock (d_order d) False None)
                  (ret \<lparr>sr_applied = event \<noteq> None, sr_reason = ''CANCELLED'', sr_status = Some (ship_status_name (sh_status ship))\<rparr>)))
              else ret \<lparr>sr_applied = False, sr_reason = ''IN_PROGRESS'', sr_status = Some (ship_status_name (sh_status ship))\<rparr>))))"

text \<open>
  \<open>syncFromDispatchId\<close>; the WhatsApp message that follows the committed transaction is not part of
  the model.
\<close>

definition syncFromDispatchId ::
  "decimal_lib \<Rightarrow> (string \<Rightarrow> rat option) \<Rightarrow> bool \<Rightarrow> string \<Rightarrow> ('a fin_db_scheme, sync_result) act" where
  "syncFromDispatchId D rates scoped did =
     (if scoped then syncFromDispatchIdLocked D rates did
      else bnd (reading (\<lambda>s. find_dispatch s did)) (\<lambda>dispatch. case dispatch of
        None \<Rightarrow> ret \<lparr>sr_applied = False, sr_reason = ''NOT_DISPATCHED'', sr_status = None\<rparr>
      | Some _ \<Rightarrow> withOrderTransaction False (syncFromDispatchIdLocked D rates did)))"

definition events_of :: "'a fin_db_scheme \<Rightarrow> string \<Rightarrow> tl_event list" where
  "events_of s oid = filter (\<lambda>e. te_order e = oid) (timeline s)"

definition latest_ameex :: "tl_event list \<Rightarrow> (rat option \<times> string) option" where
  "latest_ameex events = map_option (\<lambda>e. (te_fee e, te_currency e))
     (find (\<lambda>e. te_carrier e = Some ''AMEEX'') (sort_key (\<lambda>e. - te_occurredAt e) events))"

definition syncFromTimelineEvents ::
  "decimal_lib \<Rightarrow> (string \<Rightarrow> rat option) \<Rightarrow> string \<Rightarrow> ('a fin_db_scheme, sync_result) act" where
  "syncFromTimelineEvents D rates oid = bnd (reading (\<lambda>s. events_of s oid)) (\<lambda>events.
     if events = [] then ret \<lparr>sr_applied = False, sr_reason = ''NOT_DISPATCHED'', sr_status = None\<rparr>
     else
       let current = deriveTerminalOutcome events;
           account = bnd (reading (\<lambda>s. find_account s oid)) (\<lambda>a. found a (Internal ''order not found''))
       in if current = Some ''DELIVERED''
          then bnd account (\<lambda>acc.
            andthen (applyRevenueRecognition D rates acc (latest_ameex events))
            (andthen (syncStock oid True (Some (fold max
                (map te_occurredAt (filter (\<lambda>e. te_type e = ''DELIVERED'') events)) 0)))
              (ret \<lparr>sr_applied = True, sr_reason = ''DELIVERED'', sr_status = current\<rparr>)))
          else if \<exists>c \<in> set_option current. c \<in> set TERMINAL_FAILURE_EVENT_TYPES
          then bnd account (\<lambda>acc.
            bnd (applyRevenueReversal D oid (ac_currency acc)) (\<lambda>event.
            andthen (if \<exists>c \<in> set_option current. c \<in> set SHIPPED_FAILURE_EVENT_TYPES
                then applyShippingLoss D rates oid (ac_currency acc) (ac_shipping acc) (latest_ameex events)
                else ret None)
            (andthen (syncStock oid False None)
              (ret \<lparr>sr_applied = event \<noteq> None, sr_reason = ''CANCELLED'', sr_status = current\<rparr>))))
          else ret \<lparr>sr_applied = False, sr_reason = ''IN_PROGRESS'', sr_status = current\<rparr>)"

definition syncUndispatchedOrder ::
  "decimal_lib \<Rightarrow> (string \<Rightarrow> rat option) \<Rightarrow> bool \<Rightarrow> string \<Rightarrow> ('a fin_db_scheme, unit) act" where
  "syncUndispatchedOrder D rates scoped oid = withOrderTransaction scoped
     (bnd (reading (\<lambda>s. (find_account s oid, dispatch_of s oid))) (\<lambda>(acc, d).
       if acc = None \<or> d \<noteq> None then ret ()
       else andthen (syncFromTimelineEvents D rates oid) (ret ())))"

definition syncFromDispatch ::
  "decimal_lib \<Rightarrow> (string \<Rightarrow> rat option) \<Rightarrow> string \<Rightarrow> ('a fin_db_scheme, sync_result) act" where
  "syncFromDispatch D rates oid = bnd (reading (\<lambda>s. (find_account s oid, dispatch_of s oid))) (\<lambda>(acc, d).
     andthen (found acc (NotFound ''Order not found'')) (case d of
       None \<Rightarrow> withOrderTransaction False (syncFromTimelineEvents D rates oid)
     | Some d \<Rightarrow> syncFromDispatchId D rates False (d_id d)))"

text \<open>\<open>syncFromAmeexShipmentId\<close>: the shipment names its order by id or by order name.\<close>

definition ameex_event_type :: "ship_status \<Rightarrow> string" where
  "ameex_event_type st =
     (if st = SS_DELIVERED then ''DELIVERED'' else if st = SS_CANCELLED then ''ORDER_CANCELLED''
      else if st = SS_REFUSED then ''DELIVERY_FAILED''
      else if st \<in> set TERMINAL_FAILURE_STATUSES then ''RETURNED''
      else if st = SS_PICKED_UP then ''PICKED_UP'' else ''IN_TRANSIT'')"

definition ameex_event :: "string \<Rightarrow> ameex_shipment \<Rightarrow> tl_event" where
  "ameex_event oid x =
     (let occurred = (case am_providerUpdatedAt x of Some t \<Rightarrow> t
                | None \<Rightarrow> (case am_lastActionAt x of Some t \<Rightarrow> t | None \<Rightarrow> am_updatedAt x))
      in \<lparr>te_order = oid,
          te_providerId = Some (''ameex:'' @ am_id x @ '':'' @ ship_status_name (am_status x) @ '':'' @ show_int occurred),
          te_type = ameex_event_type (am_status x), te_occurredAt = occurred, te_carrier = Some ''AMEEX'',
          te_fee = am_fee x, te_currency = am_currency x\<rparr>)"

definition upsert_timeline :: "tl_event \<Rightarrow> 'a fin_db_scheme \<Rightarrow> 'a fin_db_scheme" where
  "upsert_timeline e s = (if \<exists>x \<in> set (timeline s). te_order x = te_order e \<and> te_providerId x = te_providerId e
     then s else s\<lparr>timeline := timeline s @ [e]\<rparr>)"

definition syncFromAmeexShipmentId ::
  "decimal_lib \<Rightarrow> (string \<Rightarrow> rat option) \<Rightarrow> string \<Rightarrow> ('a fin_db_scheme, sync_result) act" where
  "syncFromAmeexShipmentId D rates sid =
     (let no = (\<lambda>reason. ret \<lparr>sr_applied = False, sr_reason = reason, sr_status = None\<rparr>)
      in bnd (reading (\<lambda>s. find (\<lambda>x. am_id x = sid) (ameex s))) (\<lambda>shipment. case shipment of
        None \<Rightarrow> no ''NO_ORDER_REFERENCE''
      | Some x \<Rightarrow> (case am_reference x of
          None \<Rightarrow> no ''NO_ORDER_REFERENCE''
        | Some ref \<Rightarrow>
            if ref = [] then no ''NO_ORDER_REFERENCE''
            else bnd (reading (\<lambda>s. take 2 (map (\<lambda>a. (ac_order a, dispatch_of s (ac_order a) \<noteq> None))
                 (filter (\<lambda>a. ac_user a = am_user x \<and> (ac_order a = ref \<or> ac_name a = Some ref)) (accounts s)))))
              (\<lambda>found'. case found' of
                [(oid, False)] \<Rightarrow> withOrderTransaction False
                  (andthen (writing (upsert_timeline (ameex_event oid x)))
                  (andthen (if am_status x \<notin> set TERMINAL_FAILURE_STATUSES \<and> am_status x \<noteq> SS_DELIVERED
                      then reserveOrder True oid else ret ())
                    (syncFromTimelineEvents D rates oid)))
              | _ \<Rightarrow> no (if length found' > 1 then ''AMBIGUOUS_ORDER_REFERENCE''
                        else ''NO_MATCHING_UNDISPATCHED_ORDER'')))))"

definition resolveEffectiveShippingCost ::
  "decimal_lib \<Rightarrow> (string \<Rightarrow> rat option) \<Rightarrow> 'a fin_db_scheme \<Rightarrow> string \<Rightarrow> error + rat" where
  "resolveEffectiveShippingCost D rates s oid = (case find_account s oid of
       None \<Rightarrow> Inl (Internal ''order not found'')
     | Some acc \<Rightarrow>
         let courier = (case dispatch_of s oid of None \<Rightarrow> None
               | Some d \<Rightarrow> map_option fee_of (pickCourierShipment d))
         in case convertShipmentFee D rates courier (ac_currency acc) of
              Inl e \<Rightarrow> Inl e
            | Inr (Some fee) \<Rightarrow> Inr fee
            | Inr None \<Rightarrow> (case convertShipmentFee D rates (latest_ameex (events_of s oid)) (ac_currency acc) of
                Inl e \<Rightarrow> Inl e
              | Inr (Some fee) \<Rightarrow> Inr fee
              | Inr None \<Rightarrow> Inr (ac_shipping acc)))"

text \<open>\<open>getSummary\<close>: the totals, each rendered with two decimals.\<close>

record summary =
  su_revenue :: rat
  su_productCost :: rat
  su_shippingCost :: rat
  su_damageCost :: rat
  su_giftCost :: rat
  su_packagingCost :: rat
  su_netProfit :: rat

definition add_event :: "decimal_lib \<Rightarrow> fin_event \<Rightarrow> summary \<Rightarrow> summary" where
  "add_event D e t =
     (let t = t\<lparr>su_netProfit := dplus D (su_netProfit t) (fe_netProfitImpact e)\<rparr>
      in case fe_type e of
           REVENUE_REVERSED \<Rightarrow> t\<lparr>su_revenue := dminus D (su_revenue t) (fe_revenue e),
             su_productCost := dminus D (su_productCost t) (fe_productCost e),
             su_shippingCost := dminus D (su_shippingCost t) (fe_shippingCost e)\<rparr>
         | DAMAGE_LOSS \<Rightarrow> t\<lparr>su_damageCost := dplus D (su_damageCost t) (fe_damageCost e)\<rparr>
         | SHIPPING_LOSS \<Rightarrow> t\<lparr>su_shippingCost := dplus D (su_shippingCost t) (fe_shippingCost e)\<rparr>
         | _ \<Rightarrow> t\<lparr>su_revenue := dplus D (su_revenue t) (fe_revenue e),
             su_productCost := dplus D (su_productCost t) (fe_productCost e),
             su_shippingCost := dplus D (su_shippingCost t) (fe_shippingCost e),
             su_giftCost := dplus D (su_giftCost t) (fe_giftCost e),
             su_packagingCost := dplus D (su_packagingCost t) (fe_packagingCost e)\<rparr>)"

definition no_summary :: summary where
  "no_summary = \<lparr>su_revenue = 0, su_productCost = 0, su_shippingCost = 0, su_damageCost = 0,
     su_giftCost = 0, su_packagingCost = 0, su_netProfit = 0\<rparr>"

definition summarize :: "decimal_lib \<Rightarrow> fin_event list \<Rightarrow> summary" where
  "summarize D es = fold (add_event D) es no_summary"

definition getSummary :: "decimal_lib \<Rightarrow> string \<Rightarrow> ('a fin_db_scheme, summary) act" where
  "getSummary D oid = bnd (reading (\<lambda>s. find_account s oid)) (\<lambda>acc.
     andthen (found acc (NotFound ''Order not found''))
       (bnd (reading (\<lambda>s. summarize D (filter (\<lambda>e. fe_order e = oid) (fin_events s)))) (\<lambda>t.
         let two = places D 2
         in ret \<lparr>su_revenue = two (su_revenue t), su_productCost = two (su_productCost t),
             su_shippingCost = two (su_shippingCost t), su_damageCost = two (su_damageCost t),
             su_giftCost = two (su_giftCost t), su_packagingCost = two (su_packagingCost t),
             su_netProfit = two (su_netProfit t)\<rparr>)))"

section \<open>The revenue chain of an order\<close>

text \<open>
  The revenue events of an order form a chain: the recognition, then reversals and
  reinstatements in turn, each keyed by the event it corrects and repeating the recognised
  amounts. \<open>fin_ok\<close> is the invariant of the ledger table.
\<close>

definition is_revenue :: "fin_event \<Rightarrow> bool" where
  "is_revenue e \<longleftrightarrow> fe_type e \<in> {REVENUE_RECOGNIZED, REVENUE_REVERSED, REVENUE_REINSTATED}"

definition chain_of :: "'a fin_db_scheme \<Rightarrow> string \<Rightarrow> fin_event list" where
  "chain_of s oid = filter (\<lambda>e. fe_order e = oid \<and> is_revenue e) (fin_events s)"

definition link :: "fin_event option \<Rightarrow> fin_event \<Rightarrow> bool" where
  "link p e = (case p of
       None \<Rightarrow> fe_type e = REVENUE_RECOGNIZED \<and> fe_key e = REVENUE_RECOGNIZED_KEY \<and>
         on_grid 4 (fe_revenue e) \<and> on_grid 4 (fe_productCost e)
     | Some p \<Rightarrow> fe_revenue e = fe_revenue p \<and> fe_productCost e = fe_productCost p \<and>
         (fe_type p = REVENUE_RECOGNIZED \<and> fe_type e = REVENUE_REVERSED \<and> fe_key e = REVENUE_REVERSED_KEY \<or>
          fe_type p = REVENUE_REVERSED \<and> fe_type e = REVENUE_REINSTATED \<and>
            fe_key e = ''revenue-reinstated:'' @ fe_id p \<or>
          fe_type p = REVENUE_REINSTATED \<and> fe_type e = REVENUE_REVERSED \<and>
            fe_key e = ''revenue-reversed:'' @ fe_id p))"

fun chain :: "fin_event option \<Rightarrow> fin_event list \<Rightarrow> bool" where
  "chain p [] = True"
| "chain p (e # es) = (link p e \<and> chain (Some e) es)"

fun last_or :: "fin_event option \<Rightarrow> fin_event list \<Rightarrow> fin_event option" where
  "last_or p [] = p"
| "last_or p (e # es) = last_or (Some e) es"

definition fin_ok :: "'a fin_db_scheme \<Rightarrow> bool" where
  "fin_ok s \<longleftrightarrow> map fe_id (fin_events s) = map (\<lambda>i. ''evt-'' @ nat_digits i) [0..<length (fin_events s)] \<and>
     distinct (map (\<lambda>e. (fe_order e, fe_key e)) (fin_events s)) \<and>
     (\<forall>e \<in> set (fin_events s). is_revenue e \<longleftrightarrow> starts_with ''revenue'' (fe_key e)) \<and>
     (\<forall>oid. chain None (chain_of s oid))"

lemma last_or_Some: "last_or (Some p) es = Some (if es = [] then p else last es)"
  by (induction es arbitrary: p) auto

lemma last_or_None: "last_or None es = (if es = [] then None else Some (last es))"
  by (cases es) (auto simp: last_or_Some)

lemma chain_snoc: "chain p (es @ [e]) \<longleftrightarrow> chain p es \<and> link (last_or p es) e"
  by (induction es arbitrary: p) auto

lemma chain_member:
  "chain (Some p) es \<Longrightarrow> e \<in> set es \<Longrightarrow> fe_type e \<noteq> REVENUE_RECOGNIZED \<and>
     fe_revenue e = fe_revenue p \<and> fe_productCost e = fe_productCost p"
  by (induction es arbitrary: p) (fastforce simp: link_def)+

text \<open>What the events of a chain add up to: the recognised amount, or nothing after a reversal.\<close>

definition booked :: "(fin_event \<Rightarrow> rat) \<Rightarrow> fin_event list \<Rightarrow> rat" where
  "booked f es = (\<Sum>e\<leftarrow>es. if fe_type e = REVENUE_REVERSED then - f e
     else if is_revenue e then f e else 0)"

lemma booked_chain_from:
  "chain (Some p) es \<Longrightarrow> fe_type p \<noteq> REVENUE_REVERSED \<Longrightarrow> is_revenue p \<Longrightarrow>
     f \<in> {fe_revenue, fe_productCost} \<Longrightarrow>
     booked f es = (if fe_type (last (p # es)) = REVENUE_REVERSED then - f p else 0)"
  "chain (Some p) es \<Longrightarrow> fe_type p = REVENUE_REVERSED \<Longrightarrow> f \<in> {fe_revenue, fe_productCost} \<Longrightarrow>
     booked f es = (if fe_type (last (p # es)) = REVENUE_REVERSED then 0 else f p)"
  by (induction es arbitrary: p) (auto simp: booked_def link_def is_revenue_def)

lemma booked_chain:
  assumes "chain None es" "f \<in> {fe_revenue, fe_productCost}"
  shows "booked f es = (if es = [] \<or> fe_type (last es) = REVENUE_REVERSED then 0 else f (hd es))"
proof (cases es)
  case (Cons e rest)
  with assms have e: "fe_type e = REVENUE_RECOGNIZED" "chain (Some e) rest" by (simp_all add: link_def)
  have "booked f es = f e + booked f rest" using Cons e(1) by (simp add: booked_def is_revenue_def)
  also have "booked f rest = (if fe_type (last (e # rest)) = REVENUE_REVERSED then - f e else 0)"
    by (rule booked_chain_from(1)[OF e(2)]) (use e(1) assms(2) in \<open>simp_all add: is_revenue_def\<close>)
  finally show ?thesis using Cons by simp
qed (simp add: booked_def)

lemma chain_of_members: "e \<in> set (chain_of s oid) \<longleftrightarrow> e \<in> set (fin_events s) \<and> fe_order e = oid \<and> is_revenue e"
  by (auto simp: chain_of_def)

lemma chain_of_snoc:
  "fin_events t = fin_events s @ [e] \<Longrightarrow>
   chain_of t oid = chain_of s oid @ (if fe_order e = oid \<and> is_revenue e then [e] else [])"
  by (simp add: chain_of_def)

lemma find_rev_last:
  "find P (rev xs) = (if filter P xs = [] then None else Some (last (filter P xs)))"
  by (induction xs rule: rev_induct) auto

lemma latest_event_chain:
  assumes "ty \<in> {REVENUE_RECOGNIZED, REVENUE_REVERSED, REVENUE_REINSTATED}"
  shows "latest_event s oid ty = (let es = filter (\<lambda>e. fe_type e = ty) (chain_of s oid)
    in if es = [] then None else Some (last es))"
proof -
  have "filter (\<lambda>e. fe_order e = oid \<and> fe_type e = ty) (fin_events s)
      = filter (\<lambda>e. fe_type e = ty) (chain_of s oid)"
    using assms by (auto simp: chain_of_def is_revenue_def intro!: filter_cong)
  then show ?thesis by (simp add: latest_event_def find_rev_last Let_def)
qed

lemma find_event_Some: "find_event s oid key = Some e \<Longrightarrow> e \<in> set (fin_events s) \<and> fe_order e = oid \<and> fe_key e = key"
  by (auto simp: find_event_def dest: find_Some_set)

lemma find_event_unique:
  assumes "fin_ok s" "e \<in> set (fin_events s)"
  shows "find_event s (fe_order e) (fe_key e) = Some e"
proof (cases "find_event s (fe_order e) (fe_key e)")
  case None
  with assms(2) show ?thesis by (auto simp: find_event_def find_None_set)
next
  case (Some x)
  from find_event_Some[OF this] assms have "x = e"
    by (auto simp: fin_ok_def distinct_map inj_on_def)
  with Some show ?thesis by simp
qed

lemma ids_distinct: "fin_ok s \<Longrightarrow> distinct (map fe_id (fin_events s))"
  by (simp add: fin_ok_def distinct_map inj_on_def)

lemma chain_Some_alt:
  "chain (Some p) es \<Longrightarrow> fe_type p = REVENUE_REINSTATED \<or> fe_type p = REVENUE_RECOGNIZED \<Longrightarrow> es \<noteq> [] \<Longrightarrow>
   fe_type (hd es) = REVENUE_REVERSED"
  by (cases es) (auto simp: link_def)

text \<open>The reversal before a final reinstatement is the latest one, and names it.\<close>

lemma chain_end:
  assumes "chain None es" "es \<noteq> []"
  shows "fe_type (last es) = REVENUE_RECOGNIZED \<and> es = [last es] \<or>
    fe_type (last es) = REVENUE_REVERSED \<and>
      (if filter (\<lambda>e. fe_type e = REVENUE_REINSTATED) es = [] then fe_key (last es) = REVENUE_REVERSED_KEY
       else fe_key (last es) = ''revenue-reversed:'' @ fe_id (last (filter (\<lambda>e. fe_type e = REVENUE_REINSTATED) es))) \<or>
    fe_type (last es) = REVENUE_REINSTATED \<and> filter (\<lambda>e. fe_type e = REVENUE_REVERSED) es \<noteq> [] \<and>
      fe_key (last es) = ''revenue-reinstated:'' @ fe_id (last (filter (\<lambda>e. fe_type e = REVENUE_REVERSED) es))"
  using assms
proof (induction es rule: rev_induct)
  case (snoc e es)
  show ?case
  proof (cases "es = []")
    case True
    with snoc.prems show ?thesis by (simp add: link_def)
  next
    case False
    with snoc have IH: "fe_type (last es) = REVENUE_RECOGNIZED \<and> es = [last es] \<or>
      fe_type (last es) = REVENUE_REVERSED \<or> fe_type (last es) = REVENUE_REINSTATED"
      by (auto simp: chain_snoc)
    from snoc.prems False have l: "link (Some (last es)) e" by (simp add: chain_snoc last_or_None)
    have fl: "last (filter P es) = last es \<and> filter P es \<noteq> []" if "P (last es)" for P
      using that False by (induction es rule: rev_induct) auto
    from IH show ?thesis
    proof (elim disjE)
      assume a: "fe_type (last es) = REVENUE_RECOGNIZED \<and> es = [last es]"
      then obtain x where x: "es = [x]" "fe_type x = REVENUE_RECOGNIZED" by blast
      with l show ?thesis by (simp add: link_def)
    next
      assume a: "fe_type (last es) = REVENUE_REVERSED"
      with l have "fe_type e = REVENUE_REINSTATED" "fe_key e = ''revenue-reinstated:'' @ fe_id (last es)"
        by (auto simp: link_def)
      with fl[of "\<lambda>e. fe_type e = REVENUE_REVERSED"] a show ?thesis by simp
    next
      assume a: "fe_type (last es) = REVENUE_REINSTATED"
      with l have "fe_type e = REVENUE_REVERSED" "fe_key e = ''revenue-reversed:'' @ fe_id (last es)"
        by (auto simp: link_def)
      with fl[of "\<lambda>e. fe_type e = REVENUE_REINSTATED"] a show ?thesis by simp
    qed
  qed
qed simp

lemma create_event_ok:
  "create_event D e s = (Inr x, t) \<longleftrightarrow> find_event s (fe_order e) (fe_key e) = None \<and>
     x = stored D (e\<lparr>fe_id := next_event_id s\<rparr>) \<and> t = s\<lparr>fin_events := fin_events s @ [x]\<rparr>"
  by (auto simp: create_event_def Let_def)

lemma upsert_event_ok:
  "upsert_event D e s = (Inr x, t) \<longleftrightarrow> (case find_event s (fe_order e) (fe_key e) of
       Some y \<Rightarrow> x = y \<and> t = s
     | None \<Rightarrow> create_event D e s = (Inr x, t))"
  by (auto simp: upsert_event_def run_ok split: option.split)

lemma stored_simps [simp]:
  "fe_id (stored D e) = fe_id e" "fe_order (stored D e) = fe_order e" "fe_type (stored D e) = fe_type e"
  "fe_key (stored D e) = fe_key e" "is_revenue (stored D e) = is_revenue e"
  "fe_revenue (stored D e) = places D 4 (fe_revenue e)" "fe_productCost (stored D e) = places D 4 (fe_productCost e)"
  by (simp_all add: stored_def is_revenue_def)

lemma is_revenue_id [simp]: "is_revenue (e\<lparr>fe_id := i\<rparr>) = is_revenue e"
  by (simp add: is_revenue_def)

lemma fin_ok_append:
  assumes ok: "fin_ok s" and new: "find_event s (fe_order x) (fe_key x) = None"
    and id: "fe_id x = next_event_id s" and rev: "is_revenue x \<longleftrightarrow> starts_with ''revenue'' (fe_key x)"
    and link: "is_revenue x \<Longrightarrow> link (last_or None (chain_of s (fe_order x))) x"
    and t: "fin_events t = fin_events s @ [x]"
  shows "fin_ok t"
proof -
  have "(fe_order x, fe_key x) \<notin> set (map (\<lambda>e. (fe_order e, fe_key e)) (fin_events s))"
    using new by (auto simp: find_event_def find_None_set)
  moreover have "chain None (chain_of t oid)" for oid
    using ok link by (auto simp: chain_of_snoc[OF t] chain_snoc fin_ok_def)
  ultimately show ?thesis
    using ok id rev by (auto simp: fin_ok_def t next_event_id_def)
qed

lemma chain_keys:
  "chain None es \<Longrightarrow> e \<in> set es \<Longrightarrow> fe_key e = REVENUE_RECOGNIZED_KEY \<or> fe_key e = REVENUE_REVERSED_KEY \<or>
     (\<exists>q \<in> set (butlast es). fe_key e \<in> {''revenue-reinstated:'' @ fe_id q, ''revenue-reversed:'' @ fe_id q})"
proof (induction es rule: rev_induct)
  case (snoc x es)
  show ?case
  proof (cases "e = x")
    case True
    from snoc.prems(1) have "link (last_or None es) x" by (simp add: chain_snoc)
    with True show ?thesis by (cases "es = []") (auto simp: last_or_None link_def)
  next
    case False
    with snoc.prems have "e \<in> set es" "chain None es" by (auto simp: chain_snoc)
    with snoc.IH show ?thesis by (auto dest: in_set_butlastD)
  qed
qed simp

text \<open>No event of a chain corrects its last event.\<close>

lemma chain_last_uncorrected:
  assumes "chain None es" "distinct (map fe_id es)" "e \<in> set es"
  shows "fe_key e \<noteq> ''revenue-reinstated:'' @ fe_id (last es)" "fe_key e \<noteq> ''revenue-reversed:'' @ fe_id (last es)"
proof -
  have "q \<in> set (butlast es) \<Longrightarrow> fe_id q \<noteq> fe_id (last es)" for q
    using assms(2,3) by (cases es rule: rev_cases) (auto simp: image_iff)
  with chain_keys[OF assms(1,3)] show "fe_key e \<noteq> ''revenue-reinstated:'' @ fe_id (last es)"
    "fe_key e \<noteq> ''revenue-reversed:'' @ fe_id (last es)" by auto
qed

lemma chain_first:
  "chain None es \<Longrightarrow> es \<noteq> [] \<Longrightarrow> fe_type (hd es) = REVENUE_RECOGNIZED \<and>
     fe_key (hd es) = REVENUE_RECOGNIZED_KEY \<and> on_grid 4 (fe_revenue (hd es)) \<and> on_grid 4 (fe_productCost (hd es))"
  by (cases es) (auto simp: link_def)

lemma chain_constant:
  "chain None es \<Longrightarrow> e \<in> set es \<Longrightarrow> fe_revenue e = fe_revenue (hd es) \<and> fe_productCost e = fe_productCost (hd es)"
  by (cases es) (auto dest: chain_member)

lemma fin_ok_chain:
  assumes "fin_ok s"
  shows "chain None (chain_of s oid)" "distinct (map fe_id (chain_of s oid))"
    "find_event s oid key = Some e \<Longrightarrow> starts_with ''revenue'' key \<Longrightarrow> e \<in> set (chain_of s oid)"
    "e \<in> set (chain_of s oid) \<Longrightarrow> find_event s oid (fe_key e) = Some e"
    "find_event s oid REVENUE_RECOGNIZED_KEY = None \<longleftrightarrow> chain_of s oid = []"
proof -
  show 1: "chain None (chain_of s oid)" using assms by (simp add: fin_ok_def)
  show "distinct (map fe_id (chain_of s oid))"
    using ids_distinct[OF assms] unfolding chain_of_def by (simp add: distinct_map_filter)
  show 3: "find_event s oid key = Some e \<Longrightarrow> starts_with ''revenue'' key \<Longrightarrow> e \<in> set (chain_of s oid)" for key e
    using assms find_event_Some[of s oid key e] by (auto simp: chain_of_members fin_ok_def)
  show 4: "e \<in> set (chain_of s oid) \<Longrightarrow> find_event s oid (fe_key e) = Some e" for e
    using find_event_unique[OF assms, of e] by (auto simp: chain_of_members)
  show "find_event s oid REVENUE_RECOGNIZED_KEY = None \<longleftrightarrow> chain_of s oid = []"
  proof
    assume none: "find_event s oid REVENUE_RECOGNIZED_KEY = None"
    show "chain_of s oid = []"
    proof (rule ccontr)
      assume ne: "chain_of s oid \<noteq> []"
      with 4[of "hd (chain_of s oid)"] chain_first[OF 1] none show False by simp
    qed
  next
    assume e: "chain_of s oid = []"
    show "find_event s oid REVENUE_RECOGNIZED_KEY = None"
    proof (cases "find_event s oid REVENUE_RECOGNIZED_KEY")
      case (Some x)
      from 3[OF this] e show ?thesis by (simp add: starts_with_def)
    qed
  qed
qed

text \<open>The chain is recognised when it ends with a recognition or a reinstatement.\<close>

definition recognized :: "'a fin_db_scheme \<Rightarrow> string \<Rightarrow> bool" where
  "recognized s oid \<longleftrightarrow> chain_of s oid \<noteq> [] \<and> fe_type (last (chain_of s oid)) \<noteq> REVENUE_REVERSED"

context decimal_laws
begin

lemma append_link:
  assumes ok: "fin_ok s" and ne: "chain_of s oid \<noteq> []" and x: "x \<in> set (chain_of s oid)"
    and none: "find_event s oid key = None" and rev: "starts_with ''revenue'' key"
    and y: "y = stored D (z\<lparr>fe_revenue := fe_revenue x, fe_productCost := fe_productCost x,
        fe_netProfitImpact := imp, fe_id := next_event_id s\<rparr>)"
    and z: "fe_order z = oid" "fe_key z = key" "is_revenue z"
    and fits: "fe_type (last (chain_of s oid)) = REVENUE_RECOGNIZED \<and> fe_type z = REVENUE_REVERSED \<and> key = REVENUE_REVERSED_KEY \<or>
          fe_type (last (chain_of s oid)) = REVENUE_REVERSED \<and> fe_type z = REVENUE_REINSTATED \<and>
            key = ''revenue-reinstated:'' @ fe_id (last (chain_of s oid)) \<or>
          fe_type (last (chain_of s oid)) = REVENUE_REINSTATED \<and> fe_type z = REVENUE_REVERSED \<and>
            key = ''revenue-reversed:'' @ fe_id (last (chain_of s oid))"
    and t: "t = s\<lparr>fin_events := fin_events s @ [y]\<rparr>"
  shows "fin_ok t \<and> chain_of t oid = chain_of s oid @ [y]"
proof -
  let ?c = "chain_of s oid"
  note c = fin_ok_chain(1)[OF ok, where oid = oid]
  have grid: "on_grid 4 (fe_revenue x)" "on_grid 4 (fe_productCost x)"
    using chain_constant[OF c x] chain_first[OF c ne] by simp_all
  have yf: "fe_order y = oid" "fe_key y = key" "fe_id y = next_event_id s" "fe_type y = fe_type z" "is_revenue y"
    "fe_revenue y = fe_revenue x" "fe_productCost y = fe_productCost x"
    using z grid by (simp_all add: y places_exact is_revenue_def)
  have lx: "fe_revenue (last ?c) = fe_revenue x" "fe_productCost (last ?c) = fe_productCost x"
    using chain_constant[OF c x] chain_constant[OF c last_in_set[OF ne]] by simp_all
  have "link (Some (last ?c)) y"
    using fits lx unfolding link_def by (simp only: option.case yf)
  then have "link (last_or None (chain_of s (fe_order y))) y" using ne yf(1) by (simp add: last_or_None)
  moreover have new: "fin_events t = fin_events s @ [y]" by (simp add: t)
  ultimately show ?thesis
    using fin_ok_append[OF ok _ _ _ _ new] none rev yf chain_of_snoc[OF new, where oid = oid] by simp
qed

lemma recognition_effect:
  assumes ok: "fin_ok s" and oid: "oid = ac_order acc"
    and run: "applyRevenueRecognition D rates acc meta s = (Inr x, t)"
  shows "fin_ok t \<and> recognized t oid \<and> (if recognized s oid then t = s
    else \<exists>y. t = s\<lparr>fin_events := fin_events s @ [y]\<rparr> \<and> chain_of t oid = chain_of s oid @ [y])"
proof (cases "find_event s oid REVENUE_RECOGNIZED_KEY")
  case None
  then have empty: "chain_of s oid = []" using fin_ok_chain(5)[OF ok] by simp
  from run None oid obtain e where e: "recognition_event D rates acc meta s = Inr e"
    and create: "create_event D e s = (Inr x, t)"
    by (auto simp: applyRevenueRecognition_def run_ok)
  from e oid have fe: "fe_order e = oid" "fe_type e = REVENUE_RECOGNIZED" "fe_key e = REVENUE_RECOGNIZED_KEY"
    by (auto simp: recognition_event_def Let_def zero_event_def split: sum.splits)
  from create have t: "t = s\<lparr>fin_events := fin_events s @ [x]\<rparr>" and xe: "x = stored D (e\<lparr>fe_id := next_event_id s\<rparr>)"
    by (simp_all add: create_event_ok)
  have x: "fe_order x = oid" "is_revenue x" "fe_key x = REVENUE_RECOGNIZED_KEY" "fe_type x = REVENUE_RECOGNIZED"
    "link None x" "fe_id x = next_event_id s"
    using fe by (simp_all add: xe is_revenue_def link_def places_grid)
  have "fin_ok t"
    by (rule fin_ok_append[OF ok, of x]) (use x None empty t in \<open>simp_all add: starts_with_def\<close>)
  moreover have "fin_events t = fin_events s @ [x]" by (simp add: t)
  from chain_of_snoc[OF this, where oid = oid] have "chain_of t oid = [x]" using x empty by simp
  ultimately show ?thesis using x t empty by (auto simp: recognized_def)
next
  case (Some z)
  note c = fin_ok_chain[OF ok, where oid = oid]
  have z: "z \<in> set (chain_of s oid)" by (rule c(3)[OF Some]) (simp add: starts_with_def)
  then have ne: "chain_of s oid \<noteq> []" by auto
  let ?revs = "filter (\<lambda>e. fe_type e = REVENUE_REVERSED) (chain_of s oid)"
  show ?thesis
  proof (cases "?revs = []")
    case True
    then have "latest_event s oid REVENUE_REVERSED = None" by (simp add: latest_event_chain)
    with run Some oid have "t = s" by (simp add: applyRevenueRecognition_def run_ok)
    moreover have "fe_type (last (chain_of s oid)) \<noteq> REVENUE_REVERSED"
      using True ne last_in_set by (fastforce simp: filter_empty_conv)
    ultimately show ?thesis using ok ne by (simp add: recognized_def)
  next
    case False
    let ?r = "last ?revs"
    let ?key = "''revenue-reinstated:'' @ fe_id ?r"
    let ?e = "zero_event oid REVENUE_REINSTATED (ac_currency acc)
               ''Later courier delivery corrects a previous reversal; incurred costs retained'' ?key"
    have "latest_event s oid REVENUE_REVERSED = Some ?r" using False by (simp add: latest_event_chain)
    with run Some oid have up: "upsert_event D (?e\<lparr>fe_revenue := fe_revenue z, fe_productCost := fe_productCost z,
                fe_netProfitImpact := dminus D (fe_revenue z) (fe_productCost z)\<rparr>) s = (Inr x, t)"
      by (simp add: applyRevenueRecognition_def run_ok)
    have "fe_type (last (chain_of s oid)) = REVENUE_REVERSED \<or>
      fe_type (last (chain_of s oid)) = REVENUE_REINSTATED \<and> fe_key (last (chain_of s oid)) = ?key"
      using chain_end[OF c(1) ne]
    proof (elim disjE)
      assume "fe_type (last (chain_of s oid)) = REVENUE_RECOGNIZED \<and> chain_of s oid = [last (chain_of s oid)]"
      then obtain w where "chain_of s oid = [w]" "fe_type w = REVENUE_RECOGNIZED" by blast
      with False show ?thesis by simp
    qed simp_all
    then consider (rev) "fe_type (last (chain_of s oid)) = REVENUE_REVERSED"
      | (re) "fe_type (last (chain_of s oid)) = REVENUE_REINSTATED" "fe_key (last (chain_of s oid)) = ?key"
      by blast
    then show ?thesis
    proof cases
      case re
      with c(4)[OF last_in_set[OF ne]] have "find_event s oid ?key = Some (last (chain_of s oid))" by simp
      with up have "t = s" by (simp add: upsert_event_ok zero_event_def)
      with re ok ne show ?thesis by (simp add: recognized_def)
    next
      case rev
      then have r: "?r = last (chain_of s oid)" using ne
        by (cases "chain_of s oid" rule: rev_cases) auto
      have none: "find_event s oid ?key = None"
      proof (cases "find_event s oid ?key")
        case (Some y)
        then have "y \<in> set (chain_of s oid)" by (rule c(3)) (simp add: starts_with_def)
        from chain_last_uncorrected(1)[OF c(1,2) this] find_event_Some[OF Some] r show ?thesis by simp
      qed
      with up have t: "t = s\<lparr>fin_events := fin_events s @ [x]\<rparr>"
        and x: "x = stored D (?e\<lparr>fe_revenue := fe_revenue z, fe_productCost := fe_productCost z,
          fe_netProfitImpact := dminus D (fe_revenue z) (fe_productCost z), fe_id := next_event_id s\<rparr>)"
        by (simp_all add: upsert_event_ok create_event_ok zero_event_def)
      have "fin_ok t \<and> chain_of t oid = chain_of s oid @ [x]"
        by (rule append_link[OF ok ne z none _ x _ _ _ _ t])
           (use rev r in \<open>simp_all add: starts_with_def zero_event_def is_revenue_def\<close>)
      moreover have "fe_type x \<noteq> REVENUE_REVERSED" by (simp add: x zero_event_def)
      ultimately show ?thesis using rev ne t by (auto simp: recognized_def)
    qed
  qed
qed

end

context decimal_laws
begin

lemma reverse_effect:
  assumes ok: "fin_ok s" and x: "find_event s oid REVENUE_RECOGNIZED_KEY = Some x" and rec: "recognized s oid"
    and none: "find_event s oid key = None" and rev: "starts_with ''revenue'' key"
    and fits: "fe_type (last (chain_of s oid)) = REVENUE_RECOGNIZED \<and> key = REVENUE_REVERSED_KEY \<or>
          fe_type (last (chain_of s oid)) = REVENUE_REINSTATED \<and>
            key = ''revenue-reversed:'' @ fe_id (last (chain_of s oid))"
    and run: "create_event D ((zero_event oid REVENUE_REVERSED currency reason key)
                \<lparr>fe_revenue := fe_revenue x, fe_productCost := fe_productCost x,
                 fe_netProfitImpact := imp\<rparr>) s = (Inr y, t)"
  shows "fin_ok t \<and> \<not> recognized t oid \<and> t = s\<lparr>fin_events := fin_events s @ [y]\<rparr> \<and>
    chain_of t oid = chain_of s oid @ [y]"
proof -
  have ne: "chain_of s oid \<noteq> []" using rec by (simp add: recognized_def)
  have xc: "x \<in> set (chain_of s oid)" using fin_ok_chain(3)[OF ok x] by (simp add: starts_with_def)
  let ?z = "zero_event oid REVENUE_REVERSED currency reason key"
  from run have t: "t = s\<lparr>fin_events := fin_events s @ [y]\<rparr>"
    and y: "y = stored D (?z\<lparr>fe_revenue := fe_revenue x, fe_productCost := fe_productCost x,
        fe_netProfitImpact := imp, fe_id := next_event_id s\<rparr>)"
    by (simp_all add: create_event_ok zero_event_def)
  have 1: "fin_ok t \<and> chain_of t oid = chain_of s oid @ [y]"
    by (rule append_link[OF ok ne xc none rev y _ _ _ _ t])
       (use fits in \<open>auto simp: zero_event_def is_revenue_def\<close>)
  moreover have "fe_type y = REVENUE_REVERSED" by (simp add: y zero_event_def)
  ultimately show ?thesis using t by (simp add: recognized_def)
qed

lemma reversal_run:
  "applyRevenueReversal D oid currency s = (case find_event s oid REVENUE_REVERSED_KEY of
     None \<Rightarrow> reverse_with D oid currency REVENUE_REVERSED_KEY s
   | Some x \<Rightarrow> (case latest_event s oid REVENUE_REINSTATED of
       None \<Rightarrow> (Inr (Some x), s)
     | Some r \<Rightarrow> (case find_event s oid (''revenue-reversed:'' @ fe_id r) of
         Some c \<Rightarrow> (Inr (Some c), s)
       | None \<Rightarrow> reverse_with D oid currency (''revenue-reversed:'' @ fe_id r) s)))"
  by (simp add: applyRevenueReversal_def bnd_def reading_def ret_def split: option.split)

lemma reverse_with_effect:
  assumes ok: "fin_ok s" and rec: "recognized s oid"
    and none: "find_event s oid key = None" and rev: "starts_with ''revenue'' key"
    and fits: "fe_type (last (chain_of s oid)) = REVENUE_RECOGNIZED \<and> key = REVENUE_REVERSED_KEY \<or>
          fe_type (last (chain_of s oid)) = REVENUE_REINSTATED \<and>
            key = ''revenue-reversed:'' @ fe_id (last (chain_of s oid))"
    and run: "reverse_with D oid currency key s = (Inr x, t)"
  shows "fin_ok t \<and> \<not> recognized t oid \<and> (\<exists>y. t = s\<lparr>fin_events := fin_events s @ [y]\<rparr> \<and>
    chain_of t oid = chain_of s oid @ [y])"
proof (cases "find_event s oid REVENUE_RECOGNIZED_KEY")
  case None
  with fin_ok_chain(5)[OF ok] rec show ?thesis by (simp add: recognized_def)
next
  case (Some z)
  with run obtain y where "create_event D ((zero_event oid REVENUE_REVERSED currency
        ''Carrier marked shipment as cancelled/refused/returned after being delivered'' key)
        \<lparr>fe_revenue := fe_revenue z, fe_productCost := fe_productCost z,
         fe_netProfitImpact := - dplus D (dplus D (dplus D (fe_netProfitImpact z)
            (fe_shippingCost z)) (fe_giftCost z)) (fe_packagingCost z)\<rparr>) s = (Inr y, t)"
    by (auto simp: reverse_with_def run_ok)
  from reverse_effect[OF ok Some rec none rev fits this] show ?thesis by blast
qed

lemma unreversed_chain:
  assumes ok: "fin_ok s" and none: "find_event s oid REVENUE_REVERSED_KEY = None" and ne: "chain_of s oid \<noteq> []"
  shows "fe_type (last (chain_of s oid)) = REVENUE_RECOGNIZED"
proof (rule ccontr)
  note c = fin_ok_chain[OF ok, where oid = oid]
  assume nr: "fe_type (last (chain_of s oid)) \<noteq> REVENUE_RECOGNIZED"
  obtain w ws where w: "chain_of s oid = w # ws" using ne by (cases "chain_of s oid") auto
  with nr chain_first[OF c(1) ne] have "ws \<noteq> []" by auto
  then obtain v vs where v: "ws = v # vs" by (cases ws) auto
  from c(1) have "link (Some w) v" "link None w" by (simp_all add: w v)
  then have "fe_key v = REVENUE_REVERSED_KEY" unfolding link_def by auto
  with c(4)[of v] none show False by (simp add: w v)
qed

lemma reversed_chain:
  assumes ok: "fin_ok s" and e: "find_event s oid REVENUE_REVERSED_KEY = Some e"
  shows "chain_of s oid \<noteq> []"
    "latest_event s oid REVENUE_REINSTATED = None \<Longrightarrow> fe_type (last (chain_of s oid)) = REVENUE_REVERSED"
    "latest_event s oid REVENUE_REINSTATED = Some r \<Longrightarrow>
      fe_type (last (chain_of s oid)) = REVENUE_REVERSED \<and> fe_key (last (chain_of s oid)) = ''revenue-reversed:'' @ fe_id r \<or>
      fe_type (last (chain_of s oid)) = REVENUE_REINSTATED \<and> r = last (chain_of s oid)"
proof -
  define c where "c = chain_of s oid"
  define re where "re = filter (\<lambda>e. fe_type e = REVENUE_REINSTATED) c"
  have chain: "chain None c" unfolding c_def by (rule fin_ok_chain(1)[OF ok])
  have "e \<in> set c" unfolding c_def by (rule fin_ok_chain(3)[OF ok e]) (simp add: starts_with_def)
  moreover have "fe_key e = REVENUE_REVERSED_KEY" using find_event_Some[OF e] by simp
  ultimately have ne: "c \<noteq> []" and single: "\<And>w. c = [w] \<Longrightarrow> fe_key w = REVENUE_REVERSED_KEY" by auto
  have notrec: "\<not> (fe_type (last c) = REVENUE_RECOGNIZED \<and> c = [last c])"
  proof
    assume "fe_type (last c) = REVENUE_RECOGNIZED \<and> c = [last c]"
    then obtain w where w: "c = [w]" by blast
    with chain_first[OF chain ne] single[OF w] show False by simp
  qed
  show "chain_of s oid \<noteq> []" using ne by (simp add: c_def)
  have latest: "latest_event s oid REVENUE_REINSTATED = (if re = [] then None else Some (last re))"
    by (simp add: latest_event_chain re_def c_def Let_def)
  have inst: "re \<noteq> [] \<and> last re = last c" if "fe_type (last c) = REVENUE_REINSTATED"
    unfolding re_def using that ne by (cases c rule: rev_cases) auto
  from chain_end[OF chain ne] notrec have end_: "fe_type (last c) = REVENUE_REINSTATED \<or>
      fe_type (last c) = REVENUE_REVERSED \<and>
      (re \<noteq> [] \<longrightarrow> fe_key (last c) = ''revenue-reversed:'' @ fe_id (last re))"
    unfolding re_def[symmetric] by argo
  show "latest_event s oid REVENUE_REINSTATED = None \<Longrightarrow> fe_type (last (chain_of s oid)) = REVENUE_REVERSED"
    using end_ inst latest unfolding c_def[symmetric] by (auto split: if_splits)
  show "latest_event s oid REVENUE_REINSTATED = Some r \<Longrightarrow>
      fe_type (last (chain_of s oid)) = REVENUE_REVERSED \<and> fe_key (last (chain_of s oid)) = ''revenue-reversed:'' @ fe_id r \<or>
      fe_type (last (chain_of s oid)) = REVENUE_REINSTATED \<and> r = last (chain_of s oid)"
    using end_ inst latest unfolding c_def[symmetric] by (auto split: if_splits)
qed

lemma reversal_effect:
  assumes ok: "fin_ok s" and run: "applyRevenueReversal D oid currency s = (Inr x, t)"
  shows "fin_ok t \<and> \<not> recognized t oid \<and> (if recognized s oid
    then \<exists>y. t = s\<lparr>fin_events := fin_events s @ [y]\<rparr> \<and> chain_of t oid = chain_of s oid @ [y]
    else t = s)"
proof (cases "find_event s oid REVENUE_REVERSED_KEY")
  case None
  with run have r: "reverse_with D oid currency REVENUE_REVERSED_KEY s = (Inr x, t)" by (simp add: reversal_run)
  show ?thesis
  proof (cases "chain_of s oid = []")
    case True
    then have "find_event s oid REVENUE_RECOGNIZED_KEY = None" using fin_ok_chain(5)[OF ok] by simp
    with r have "t = s" by (simp add: reverse_with_def run_ok)
    with True ok show ?thesis by (simp add: recognized_def)
  next
    case False
    from unreversed_chain[OF ok None this] have "fe_type (last (chain_of s oid)) = REVENUE_RECOGNIZED" .
    moreover from this False have rec: "recognized s oid" by (simp add: recognized_def)
    ultimately show ?thesis using reverse_with_effect[OF ok rec None _ _ r] by (simp add: starts_with_def)
  qed
next
  case (Some e)
  note rc = reversed_chain[OF ok Some]
  show ?thesis
  proof (cases "latest_event s oid REVENUE_REINSTATED")
    case None
    with run Some have "t = s" by (simp add: reversal_run)
    with rc(2)[OF None] ok show ?thesis by (simp add: recognized_def)
  next
    case (Some r)
    note r = this
    let ?key = "''revenue-reversed:'' @ fe_id r"
    show ?thesis
    proof (cases "find_event s oid ?key")
      case (Some y)
      with run r \<open>find_event s oid REVENUE_REVERSED_KEY = Some e\<close> have t: "t = s" by (simp add: reversal_run)
      have "y \<in> set (chain_of s oid)" by (rule fin_ok_chain(3)[OF ok Some]) (simp add: starts_with_def)
      from chain_last_uncorrected(2)[OF fin_ok_chain(1,2)[OF ok] this] find_event_Some[OF Some] rc(3)[OF r]
      have "fe_type (last (chain_of s oid)) = REVENUE_REVERSED" by auto
      with t ok show ?thesis by (simp add: recognized_def)
    next
      case None
      have "fe_type (last (chain_of s oid)) = REVENUE_REINSTATED \<and> r = last (chain_of s oid)"
        using rc(3)[OF r] fin_ok_chain(4)[OF ok last_in_set[OF rc(1)]] None by auto
      moreover from this rc(1) have rec: "recognized s oid" by (simp add: recognized_def)
      moreover from run r None \<open>find_event s oid REVENUE_REVERSED_KEY = Some e\<close>
      have "reverse_with D oid currency ?key s = (Inr x, t)" by (simp add: reversal_run)
      ultimately show ?thesis using reverse_with_effect[OF ok rec None] by (simp add: starts_with_def)
    qed
  qed
qed

end

section \<open>Shipping is booked once\<close>

text \<open>
  The courier's fee is booked either with the recognition or as a shipping loss, and nowhere else.
\<close>

definition ship_ok :: "'a fin_db_scheme \<Rightarrow> bool" where
  "ship_ok s \<longleftrightarrow> (\<forall>e \<in> set (fin_events s). fe_shippingCost e \<noteq> 0 \<longrightarrow>
       fe_key e = REVENUE_RECOGNIZED_KEY \<or> fe_key e = SHIPPING_LOSS_KEY) \<and>
     (\<forall>e \<in> set (fin_events s). \<forall>f \<in> set (fin_events s). fe_order e = fe_order f \<and>
       fe_key e = REVENUE_RECOGNIZED_KEY \<and> fe_key f = SHIPPING_LOSS_KEY \<longrightarrow> fe_shippingCost e = 0)"

lemma find_event_None: "find_event s oid key = None \<longleftrightarrow> (\<forall>e \<in> set (fin_events s). \<not> (fe_order e = oid \<and> fe_key e = key))"
  by (simp add: find_event_def find_None_set)

lemma ship_ok_append:
  assumes "ship_ok s" "fin_events t = fin_events s @ [y]"
    and "fe_shippingCost y \<noteq> 0 \<longrightarrow> fe_key y = REVENUE_RECOGNIZED_KEY \<or> fe_key y = SHIPPING_LOSS_KEY"
    and "fe_key y = REVENUE_RECOGNIZED_KEY \<and> find_event s (fe_order y) SHIPPING_LOSS_KEY \<noteq> None \<longrightarrow> fe_shippingCost y = 0"
    and "fe_key y = SHIPPING_LOSS_KEY \<longrightarrow> find_event s (fe_order y) REVENUE_RECOGNIZED_KEY = None"
  shows "ship_ok t"
proof -
  from assms(4) have 4: "fe_key y = REVENUE_RECOGNIZED_KEY \<Longrightarrow> f \<in> set (fin_events s) \<Longrightarrow>
      fe_order f = fe_order y \<Longrightarrow> fe_key f = SHIPPING_LOSS_KEY \<Longrightarrow> fe_shippingCost y = 0" for f
    by (metis find_event_None)
  from assms(5) have 5: "fe_key y = SHIPPING_LOSS_KEY \<Longrightarrow> f \<in> set (fin_events s) \<Longrightarrow>
      fe_order f = fe_order y \<Longrightarrow> fe_key f = REVENUE_RECOGNIZED_KEY \<Longrightarrow> False" for f
    by (metis find_event_None)
  show ?thesis
    unfolding ship_ok_def
  proof (intro conjI ballI impI)
    fix e assume "e \<in> set (fin_events t)" "fe_shippingCost e \<noteq> 0"
    then show "fe_key e = REVENUE_RECOGNIZED_KEY \<or> fe_key e = SHIPPING_LOSS_KEY"
      using assms(1,3) by (auto simp: assms(2) ship_ok_def)
  next
    fix e f assume ef: "e \<in> set (fin_events t)" "f \<in> set (fin_events t)" and
      k: "fe_order e = fe_order f \<and> fe_key e = REVENUE_RECOGNIZED_KEY \<and> fe_key f = SHIPPING_LOSS_KEY"
    from ef consider "e \<in> set (fin_events s)" "f \<in> set (fin_events s)" | "e = y" "f = y"
      | "e = y" "f \<in> set (fin_events s)" | "f = y" "e \<in> set (fin_events s)" by (auto simp: assms(2))
    then show "fe_shippingCost e = 0"
    proof cases
      case 1 with assms(1) k show ?thesis unfolding ship_ok_def by blast
    next
      case 2 with k show ?thesis by auto
    next
      case 3 with 4 k show ?thesis by simp
    next
      case 4 with 5[of e] k show ?thesis by simp
    qed
  qed
qed

lemma stored_ship [simp]: "fe_shippingCost (stored D e) = places D 4 (fe_shippingCost e)"
  by (simp add: stored_def)

lemma shipping_once:
  assumes "fin_ok s" "ship_ok s"
  shows "length (filter (\<lambda>e. fe_order e = oid \<and> fe_shippingCost e \<noteq> 0) (fin_events s)) \<le> 1"
proof -
  let ?P = "\<lambda>e. fe_order e = oid \<and> fe_shippingCost e \<noteq> 0"
  have eq: "e = f" if "e \<in> set (filter ?P (fin_events s))" "f \<in> set (filter ?P (fin_events s))" for e f
  proof -
    from that have m: "e \<in> set (fin_events s)" "f \<in> set (fin_events s)" "fe_order e = fe_order f"
      "fe_shippingCost e \<noteq> 0" "fe_shippingCost f \<noteq> 0" by auto
    then have "fe_key e \<in> {REVENUE_RECOGNIZED_KEY, SHIPPING_LOSS_KEY}" "fe_key f \<in> {REVENUE_RECOGNIZED_KEY, SHIPPING_LOSS_KEY}"
      using assms(2) unfolding ship_ok_def by blast+
    moreover have "\<not> (fe_key e = REVENUE_RECOGNIZED_KEY \<and> fe_key f = SHIPPING_LOSS_KEY)"
      "\<not> (fe_key f = REVENUE_RECOGNIZED_KEY \<and> fe_key e = SHIPPING_LOSS_KEY)"
      using m assms(2) unfolding ship_ok_def by metis+
    ultimately have "fe_key e = fe_key f" by (elim insertE emptyE) simp_all
    moreover have "inj_on (\<lambda>e. (fe_order e, fe_key e)) (set (fin_events s))"
      using assms(1) by (simp add: fin_ok_def distinct_map)
    ultimately show ?thesis using that by (auto simp: inj_on_def)
  qed
  have "distinct (fin_events s)" using assms(1) by (simp add: fin_ok_def distinct_map)
  then have "distinct (filter ?P (fin_events s))" by simp
  with eq show ?thesis
    by (metis (no_types, lifting) One_nat_def Suc_leI distinct_card card_le_Suc0_iff_eq finite_set le_eq_less_or_eq)
qed

context decimal_laws
begin

lemma places_zero [simp]: "places D n 0 = 0"
  using places_exact[of n 0] by simp

lemma recognition_ship:
  assumes "ship_ok s" "applyRevenueRecognition D rates acc meta s = (Inr x, t)"
  shows "ship_ok t"
proof (cases "find_event s (ac_order acc) REVENUE_RECOGNIZED_KEY")
  case None
  with assms(2) obtain e where e: "recognition_event D rates acc meta s = Inr e"
    and c: "create_event D e s = (Inr x, t)" by (auto simp: applyRevenueRecognition_def run_ok)
  have "fe_key e = REVENUE_RECOGNIZED_KEY" "fe_order e = ac_order acc"
    "find_event s (ac_order acc) SHIPPING_LOSS_KEY \<noteq> None \<Longrightarrow> fe_shippingCost e = 0"
    using e by (auto simp: recognition_event_def Let_def zero_event_def split: sum.splits)
  with c assms(1) show ?thesis
    by (intro ship_ok_append[OF assms(1), of t x]) (auto simp: create_event_ok)
next
  case (Some z)
  show ?thesis
  proof (cases "latest_event s (ac_order acc) REVENUE_REVERSED")
    case None
    with Some assms show ?thesis by (simp add: applyRevenueRecognition_def run_ok)
  next
    case r: (Some r)
    let ?e = "zero_event (ac_order acc) REVENUE_REINSTATED (ac_currency acc)
               ''Later courier delivery corrects a previous reversal; incurred costs retained''
               (''revenue-reinstated:'' @ fe_id r)
               \<lparr>fe_revenue := fe_revenue z, fe_productCost := fe_productCost z,
                fe_netProfitImpact := dminus D (fe_revenue z) (fe_productCost z)\<rparr>"
    from Some r assms(2) have up: "upsert_event D ?e s = (Inr x, t)"
      by (simp add: applyRevenueRecognition_def run_ok)
    show ?thesis
    proof (cases "find_event s (ac_order acc) (''revenue-reinstated:'' @ fe_id r)")
      case None
      with up have "x = stored D (?e\<lparr>fe_id := next_event_id s\<rparr>)" "fin_events t = fin_events s @ [x]"
        by (simp_all add: upsert_event_ok create_event_ok zero_event_def)
      then show ?thesis by (intro ship_ok_append[OF assms(1), of t x]) (simp_all add: zero_event_def)
    qed (use up assms(1) in \<open>simp add: upsert_event_ok zero_event_def\<close>)
  qed
qed

lemma reverse_with_ship:
  assumes "ship_ok s" "starts_with ''revenue-reversed'' key" "reverse_with D oid currency key s = (Inr x, t)"
  shows "ship_ok t"
proof (cases "find_event s oid REVENUE_RECOGNIZED_KEY")
  case None
  with assms show ?thesis by (simp add: reverse_with_def run_ok)
next
  case (Some z)
  with assms(3) obtain y where c: "create_event D ((zero_event oid REVENUE_REVERSED currency
                ''Carrier marked shipment as cancelled/refused/returned after being delivered'' key)
                \<lparr>fe_revenue := fe_revenue z, fe_productCost := fe_productCost z,
                 fe_netProfitImpact := - dplus D (dplus D (dplus D (fe_netProfitImpact z)
                    (fe_shippingCost z)) (fe_giftCost z)) (fe_packagingCost z)\<rparr>) s = (Inr y, t)"
    by (auto simp: reverse_with_def run_ok)
  then have y: "fe_shippingCost y = 0" "fe_key y = key" "fin_events t = fin_events s @ [y]"
    by (simp_all add: create_event_ok zero_event_def)
  with assms(2) show ?thesis
    by (intro ship_ok_append[OF assms(1) y(3)]) (auto simp: starts_with_def)
qed

lemma reversal_ship:
  assumes "ship_ok s" "applyRevenueReversal D oid currency s = (Inr x, t)"
  shows "ship_ok t"
  using assms reverse_with_ship[OF assms(1), of REVENUE_REVERSED_KEY oid currency x t]
    reverse_with_ship[OF assms(1), of "''revenue-reversed:'' @ i" oid currency x t for i]
  by (auto simp: reversal_run starts_with_def split: option.splits)

lemma shipping_loss_effect:
  assumes ok: "fin_ok s" and ship: "ship_ok s"
    and run: "applyShippingLoss D rates oid currency fallback meta s = (Inr x, t)"
  shows "fin_ok t \<and> ship_ok t \<and> chain_of t o' = chain_of s o' \<and> stock_db.truncate t = stock_db.truncate s"
proof -
  have "t = s \<or> (\<exists>y. find_event s oid REVENUE_RECOGNIZED_KEY = None \<and> find_event s oid SHIPPING_LOSS_KEY = None \<and>
      t = s\<lparr>fin_events := fin_events s @ [y]\<rparr> \<and> fe_order y = oid \<and> fe_key y = SHIPPING_LOSS_KEY \<and>
      fe_type y = SHIPPING_LOSS \<and> fe_id y = next_event_id s)"
    using run by (auto simp: applyShippingLoss_def run_ok Let_def upsert_event_ok create_event_ok zero_event_def
        split: option.splits if_splits)
  then show ?thesis
  proof (elim disjE exE conjE)
    fix y assume y: "find_event s oid REVENUE_RECOGNIZED_KEY = None" "find_event s oid SHIPPING_LOSS_KEY = None"
      "t = s\<lparr>fin_events := fin_events s @ [y]\<rparr>" "fe_order y = oid" "fe_key y = SHIPPING_LOSS_KEY"
      "fe_type y = SHIPPING_LOSS" "fe_id y = next_event_id s"
    then have new: "fin_events t = fin_events s @ [y]" and nr: "\<not> is_revenue y" by (simp_all add: is_revenue_def)
    have "fin_ok t" by (rule fin_ok_append[OF ok _ _ _ _ new]) (use y nr in \<open>simp_all add: starts_with_def\<close>)
    moreover have "ship_ok t" by (rule ship_ok_append[OF ship new]) (use y in simp_all)
    moreover have "chain_of t o' = chain_of s o'" using chain_of_snoc[OF new, where oid = o'] nr by simp
    ultimately show ?thesis using y(3) by (simp add: stock_db.truncate_def)
  qed (use ok ship in simp)
qed

end

end
