(* ===== verification/Order_Sync.thy ===== *)
theory Order_Sync
  imports Order_Financial
begin

text \<open>
  What a synchronisation of an order with its carrier achieves: the stock ledger, the revenue chain
  and the shipping cost stay consistent, and the booked revenue follows the carrier's outcome.
\<close>

section \<open>Synchronising stock and ledger\<close>

definition fin_inv :: "'a fin_db_scheme \<Rightarrow> bool" where
  "fin_inv s \<longleftrightarrow> inv_ok s \<and> fin_ok s \<and> ship_ok s"

lemma ledger_cong:
  assumes "fin_events t = fin_events s"
  shows "fin_ok t = fin_ok s" "ship_ok t = ship_ok s" "chain_of t oid = chain_of s oid"
    "recognized t oid = recognized s oid"
proof -
  show "chain_of t oid = chain_of s oid" for oid using assms by (simp add: chain_of_def)
  then show "fin_ok t = fin_ok s" "ship_ok t = ship_ok s" "recognized t oid = recognized s oid"
    using assms by (simp_all add: fin_ok_def ship_ok_def recognized_def)
qed

lemma more_fin: "stock_db.more s = stock_db.more t \<Longrightarrow> fin_events s = fin_events t"
  by (cases s; cases t) simp

lemma inv_ok_truncate: "inv_db.truncate t = inv_db.truncate s \<Longrightarrow> inv_ok t = inv_ok s"
  by (cases s; cases t) (simp add: inv_db.truncate_def inv_ok_def)

text \<open>A stock call in the order transaction keeps the stock ledger and leaves the financial one alone.\<close>

lemma syncStock_frame:
  assumes "inv_ok s" "syncStock oid delivered deliveredAt s = (Inr u, t)"
  shows "inv_ok t" "fin_events t = fin_events s"
proof -
  have "keeps inv_ok (syncStock oid delivered deliveredAt)" unfolding syncStock_def by (intro keeping)
  from keepsD[OF this assms] show "inv_ok t" .
  have "keeps (\<lambda>w. stock_db.more w = stock_db.more s) (syncStock oid delivered deliveredAt)"
    unfolding syncStock_def by (intro keeping)
  from keepsD[OF this refl assms(2)] show "fin_events t = fin_events s" by (rule more_fin)
qed

lemma refreshCodStatus_frame:
  "refreshCodStatus oid s = (Inr x, t) \<Longrightarrow> inv_db.truncate t = inv_db.truncate s \<and> fin_events t = fin_events s"
  by (auto simp: refreshCodStatus_def run_ok set_cod_def inv_db.truncate_def split: option.splits if_splits)

lemma only_fin_events:
  "t = s \<or> (\<exists>y. t = s\<lparr>fin_events := y\<rparr>) \<Longrightarrow> inv_ok t = inv_ok s"
  by (elim disjE exE) (simp_all add: inv_ok_def)

definition outcome :: "'a fin_db_scheme \<Rightarrow> string \<Rightarrow> 'a fin_db_scheme \<Rightarrow> string \<Rightarrow> bool" where
  "outcome s oid t reason \<longleftrightarrow> fin_inv t \<and>
     (reason = ''DELIVERED'' \<longrightarrow> recognized t oid) \<and> (reason = ''CANCELLED'' \<longrightarrow> \<not> recognized t oid) \<and>
     (reason \<notin> {''DELIVERED'', ''CANCELLED''} \<longrightarrow> fin_events t = fin_events s)"

context decimal_laws
begin

lemma recognition_inv:
  assumes "fin_inv s" "applyRevenueRecognition D rates acc meta s = (Inr x, t)"
  shows "fin_inv t \<and> recognized t (ac_order acc)"
proof -
  have ok: "fin_ok s" "ship_ok s" "inv_ok s" using assms(1) by (simp_all add: fin_inv_def)
  note e = recognition_effect[OF ok(1) refl assms(2)]
  then have "t = s \<or> (\<exists>y. t = s\<lparr>fin_events := y\<rparr>)" by (auto split: if_splits)
  with e recognition_ship[OF ok(2) assms(2)] ok(3) show ?thesis by (simp add: fin_inv_def only_fin_events)
qed

lemma reversal_inv:
  assumes "fin_inv s" "applyRevenueReversal D oid currency s = (Inr x, t)"
  shows "fin_inv t \<and> \<not> recognized t oid"
proof -
  have ok: "fin_ok s" "ship_ok s" "inv_ok s" using assms(1) by (simp_all add: fin_inv_def)
  note e = reversal_effect[OF ok(1) assms(2)]
  then have "t = s \<or> (\<exists>y. t = s\<lparr>fin_events := y\<rparr>)" by (auto split: if_splits)
  with e reversal_ship[OF ok(2) assms(2)] ok(3) show ?thesis by (simp add: fin_inv_def only_fin_events)
qed

lemma shipping_loss_inv:
  assumes "fin_inv s" "applyShippingLoss D rates oid currency fallback meta s = (Inr x, t)"
  shows "fin_inv t \<and> recognized t o' = recognized s o'"
proof -
  have ok: "fin_ok s" "ship_ok s" "inv_ok s" using assms(1) by (simp_all add: fin_inv_def)
  note e = shipping_loss_effect[OF ok(1,2) assms(2)]
  have "inv_ok t = inv_ok s"
    using e by (cases s; cases t) (simp add: stock_db.truncate_def inv_ok_def)
  with e ok show ?thesis by (auto simp: fin_inv_def recognized_def)
qed

lemma delivered_outcome:
  assumes "fin_inv s" "ac_order acc = oid"
    and run: "andthen (applyRevenueRecognition D rates acc meta)
       (andthen (syncStock oid True at') (ret r)) s = (Inr r', t)"
  shows "fin_inv t \<and> recognized t oid \<and> r' = r"
proof -
  from run obtain x v where v: "applyRevenueRecognition D rates acc meta s = (Inr x, v)"
    and r1: "andthen (syncStock oid True at') (ret r) v = (Inr r', t)" by (rule andthenE)
  from r1 obtain u w where t': "syncStock oid True at' v = (Inr u, w)" and r2: "ret r w = (Inr r', t)"
    by (rule andthenE)
  from t' r2 have t: "syncStock oid True at' v = (Inr u, t)" and r: "r' = r" by (simp_all add: ret_ok)
  from recognition_inv[OF assms(1) v] have inv: "inv_ok v" "fin_inv v" "recognized v oid"
    using assms(2) by (simp_all add: fin_inv_def)
  note f = syncStock_frame[OF inv(1) t]
  from f(1) inv(2,3) r ledger_cong[OF f(2)] show ?thesis by (simp add: fin_inv_def)
qed

lemma cancelled_outcome:
  assumes "fin_inv s"
    and run: "bnd (applyRevenueReversal D oid currency) (\<lambda>event.
        andthen (if c then applyShippingLoss D rates oid currency fallback meta else ret None)
          (andthen (syncStock oid False None) (ret (f event)))) s = (Inr r, t)"
  shows "fin_inv t \<and> \<not> recognized t oid \<and> (\<exists>e. r = f e)"
proof -
  from run obtain x v where v: "applyRevenueReversal D oid currency s = (Inr x, v)"
    and r1: "andthen (if c then applyShippingLoss D rates oid currency fallback meta else ret None)
          (andthen (syncStock oid False None) (ret (f x))) v = (Inr r, t)" by (rule bndE)
  from r1 obtain y w where w: "(if c then applyShippingLoss D rates oid currency fallback meta else ret None) v = (Inr y, w)"
    and r2: "andthen (syncStock oid False None) (ret (f x)) w = (Inr r, t)" by (rule andthenE)
  from r2 obtain u z where t': "syncStock oid False None w = (Inr u, z)" and r3: "ret (f x) z = (Inr r, t)"
    by (rule andthenE)
  from t' r3 have t: "syncStock oid False None w = (Inr u, t)" and r: "r = f x" by (simp_all add: ret_ok)
  from reversal_inv[OF assms(1) v] have 1: "fin_inv v" "\<not> recognized v oid" by simp_all
  have 2: "fin_inv w \<and> \<not> recognized w oid"
    using w shipping_loss_inv[OF 1(1), where o' = oid] 1 by (cases c) (auto simp: ret_ok)
  then have "inv_ok w" by (simp add: fin_inv_def)
  note f = syncStock_frame[OF this t]
  from f(1) 2 r ledger_cong[OF f(2)] show ?thesis by (auto simp: fin_inv_def)
qed

lemma sync_dispatch_outcome:
  assumes inv: "fin_inv s" and d: "find_dispatch s did = Some d"
    and run: "syncFromDispatchIdLocked D rates did s = (Inr r, t)"
  shows "outcome s (d_order d) t (sr_reason r)"
proof (cases "pickCourierShipment d")
  case None
  with run d inv show ?thesis by (simp add: syncFromDispatchIdLocked_def run_ok outcome_def)
next
  case (Some ship)
  let ?rest = "\<lambda>acc. if sh_status ship = SS_DELIVERED
              then andthen (applyRevenueRecognition D rates acc (Some (fee_of ship)))
                (andthen (syncStock (d_order d) True None)
                  (ret \<lparr>sr_applied = True, sr_reason = ''DELIVERED'', sr_status = Some (ship_status_name (sh_status ship))\<rparr>))
              else if sh_status ship \<in> set TERMINAL_FAILURE_STATUSES
              then bnd (applyRevenueReversal D (d_order d) (ac_currency acc)) (\<lambda>event.
                andthen (if sh_status ship \<in> set SHIPPED_FAILURE_STATUSES
                    then applyShippingLoss D rates (d_order d) (ac_currency acc) (ac_shipping acc) (Some (fee_of ship))
                    else ret None)
                (andthen (syncStock (d_order d) False None)
                  (ret \<lparr>sr_applied = event \<noteq> None, sr_reason = ''CANCELLED'', sr_status = Some (ship_status_name (sh_status ship))\<rparr>)))
              else ret \<lparr>sr_applied = False, sr_reason = ''IN_PROGRESS'', sr_status = Some (ship_status_name (sh_status ship))\<rparr>"
  from run[unfolded syncFromDispatchIdLocked_def, THEN bnd_readingD, unfolded d option.case Some]
  obtain acc z where a: "bnd (reading (\<lambda>s. find_account s (d_order d))) (\<lambda>a. found a (Internal ''order not found'')) s = (Inr acc, z)"
    and r1: "andthen (refreshCodStatus (d_order d)) (?rest acc) z = (Inr r, t)" by (rule bndE)
  from a have acc: "find_account s (d_order d) = Some acc" and z: "z = s" by (auto simp: bnd_ok reading_ok found_ok)
  from r1[unfolded z] obtain x v where v: "refreshCodStatus (d_order d) s = (Inr x, v)"
    and rest: "?rest acc v = (Inr r, t)" by (rule andthenE)
  note rf = refreshCodStatus_frame[OF v]
  have frame: "inv_ok v = inv_ok s" "fin_events v = fin_events s"
    using inv_ok_truncate[OF rf[THEN conjunct1]] rf by blast+
  then have v_inv: "fin_inv v" using inv ledger_cong[OF frame(2)] by (simp add: fin_inv_def)
  have ao: "ac_order acc = d_order d" using acc by (auto simp: find_account_def dest: find_Some_set)
  show ?thesis
  proof (cases "sh_status ship = SS_DELIVERED")
    case True
    with rest delivered_outcome[OF v_inv ao] show ?thesis by (fastforce simp: outcome_def)
  next
    case False
    show ?thesis
    proof (cases "sh_status ship \<in> set TERMINAL_FAILURE_STATUSES")
      case True
      from rest False True have "bnd (applyRevenueReversal D (d_order d) (ac_currency acc)) (\<lambda>event.
                andthen (if sh_status ship \<in> set SHIPPED_FAILURE_STATUSES
                    then applyShippingLoss D rates (d_order d) (ac_currency acc) (ac_shipping acc) (Some (fee_of ship))
                    else ret None)
                (andthen (syncStock (d_order d) False None)
                  (ret \<lparr>sr_applied = event \<noteq> None, sr_reason = ''CANCELLED'', sr_status = Some (ship_status_name (sh_status ship))\<rparr>))) v = (Inr r, t)"
        by (simp only: if_True if_False)
      from cancelled_outcome[OF v_inv this] show ?thesis by (auto simp: outcome_def)
    next
      case other: False
      with rest False have "r = \<lparr>sr_applied = False, sr_reason = ''IN_PROGRESS'', sr_status = Some (ship_status_name (sh_status ship))\<rparr>" "t = v"
        by (simp_all add: ret_ok)
      with v_inv frame show ?thesis by (simp add: outcome_def)
    qed
  qed
qed

lemma sync_timeline_outcome:
  assumes inv: "fin_inv s" and run: "syncFromTimelineEvents D rates oid s = (Inr r, t)"
  shows "outcome s oid t (sr_reason r)"
proof -
  define events where "events = events_of s oid"
  define current where "current = deriveTerminalOutcome events"
  let ?account = "bnd (reading (\<lambda>s. find_account s oid)) (\<lambda>a. found a (Internal ''order not found''))"
  have account: "ac_order acc = oid \<and> v = s" if "?account s = (Inr acc, v)" for acc v
    using that by (auto simp: bnd_ok reading_ok found_ok find_account_def dest: find_Some_set)
  from run have run': "(if events = [] then ret \<lparr>sr_applied = False, sr_reason = ''NOT_DISPATCHED'', sr_status = None\<rparr>
     else if current = Some ''DELIVERED''
          then bnd ?account (\<lambda>acc.
            andthen (applyRevenueRecognition D rates acc (latest_ameex events))
            (andthen (syncStock oid True (Some (fold max
                (map te_occurredAt (filter (\<lambda>e. te_type e = ''DELIVERED'') events)) 0)))
              (ret \<lparr>sr_applied = True, sr_reason = ''DELIVERED'', sr_status = current\<rparr>)))
          else if \<exists>c \<in> set_option current. c \<in> set TERMINAL_FAILURE_EVENT_TYPES
          then bnd ?account (\<lambda>acc.
            bnd (applyRevenueReversal D oid (ac_currency acc)) (\<lambda>event.
            andthen (if \<exists>c \<in> set_option current. c \<in> set SHIPPED_FAILURE_EVENT_TYPES
                then applyShippingLoss D rates oid (ac_currency acc) (ac_shipping acc) (latest_ameex events)
                else ret None)
            (andthen (syncStock oid False None)
              (ret \<lparr>sr_applied = event \<noteq> None, sr_reason = ''CANCELLED'', sr_status = current\<rparr>))))
          else ret \<lparr>sr_applied = False, sr_reason = ''IN_PROGRESS'', sr_status = current\<rparr>) s = (Inr r, t)"
    unfolding syncFromTimelineEvents_def Let_def events_def current_def by (rule bnd_readingD)
  consider (none) "events = []" | (delivered) "events \<noteq> []" "current = Some ''DELIVERED''"
    | (failed) "events \<noteq> []" "current \<noteq> Some ''DELIVERED''"
        "\<exists>c \<in> set_option current. c \<in> set TERMINAL_FAILURE_EVENT_TYPES"
    | (progress) "events \<noteq> []" "current \<noteq> Some ''DELIVERED''"
        "\<not> (\<exists>c \<in> set_option current. c \<in> set TERMINAL_FAILURE_EVENT_TYPES)" by blast
  then show ?thesis
  proof cases
    case none
    with run' inv show ?thesis by (auto simp: ret_ok outcome_def)
  next
    case delivered
    from run' obtain acc v where a: "?account s = (Inr acc, v)"
      and rest: "andthen (applyRevenueRecognition D rates acc (latest_ameex events))
            (andthen (syncStock oid True (Some (fold max
                (map te_occurredAt (filter (\<lambda>e. te_type e = ''DELIVERED'') events)) 0)))
              (ret \<lparr>sr_applied = True, sr_reason = ''DELIVERED'', sr_status = current\<rparr>)) v = (Inr r, t)"
      unfolding if_not_P[OF delivered(1)] if_P[OF delivered(2)] by (rule bndE)
    from account[OF a] delivered_outcome[OF _ _ rest] inv show ?thesis by (auto simp: outcome_def)
  next
    case failed
    from run' obtain acc v where a: "?account s = (Inr acc, v)"
      and rest: "bnd (applyRevenueReversal D oid (ac_currency acc)) (\<lambda>event.
            andthen (if \<exists>c \<in> set_option current. c \<in> set SHIPPED_FAILURE_EVENT_TYPES
                then applyShippingLoss D rates oid (ac_currency acc) (ac_shipping acc) (latest_ameex events)
                else ret None)
            (andthen (syncStock oid False None)
              (ret \<lparr>sr_applied = event \<noteq> None, sr_reason = ''CANCELLED'', sr_status = current\<rparr>))) v = (Inr r, t)"
      unfolding if_not_P[OF failed(1)] if_not_P[OF failed(2)] if_P[OF failed(3)] by (rule bndE)
    from account[OF a] cancelled_outcome[OF _ rest] inv show ?thesis by (auto simp: outcome_def)
  next
    case progress
    from run' have "r = \<lparr>sr_applied = False, sr_reason = ''IN_PROGRESS'', sr_status = current\<rparr>" "t = s"
      unfolding if_not_P[OF progress(1)] if_not_P[OF progress(2)] if_not_P[OF progress(3)] ret_ok by blast+
    with inv show ?thesis by (simp add: outcome_def)
  qed
qed

end

lemma order_tx_ok: "order_tx k m s = (Inr a, t) \<Longrightarrow> \<exists>cs. m (s\<lparr>conflicts := cs\<rparr>) = (Inr a, t)"
proof (induction k arbitrary: s)
  case (Suc k)
  show ?case
  proof (cases "tx_attempt m s")
    case (Pair r u)
    show ?thesis
    proof (cases r)
      case (Inl e)
      with Pair Suc.prems have "order_tx k m u = (Inr a, t)" by (auto split: if_splits)
      from Suc.IH[OF this] tx_attempt_error[of m s e u] Pair Inl show ?thesis by auto
    qed (use Pair Suc.prems tx_attempt_ok in auto)
  qed
qed simp

lemma order_tx_error: "order_tx k m s = (Inl e, t) \<Longrightarrow> \<exists>cs. t = s\<lparr>conflicts := cs\<rparr>"
proof (induction k arbitrary: s)
  case 0
  then have "t = s\<lparr>conflicts := conflicts s\<rparr>" by simp
  then show ?case by blast
next
  case (Suc k)
  show ?case
  proof (cases "tx_attempt m s")
    case (Pair r u)
    with Suc.prems obtain d where r: "r = Inl d" by (cases r) auto
    from tx_attempt_error[of m s d u] Pair r obtain cs where u: "u = s\<lparr>conflicts := cs\<rparr>" by auto
    show ?thesis
    proof (cases "t = u")
      case False
      with Suc.prems Pair r have "order_tx k m u = (Inl e, t)" by (auto split: if_splits)
      from Suc.IH[OF this] u show ?thesis by simp
    qed (use u in blast)
  qed
qed

lemma ledger_conflicts [simp]:
  "fin_events (s\<lparr>conflicts := cs\<rparr>) = fin_events s" "find_dispatch (s\<lparr>conflicts := cs\<rparr>) did = find_dispatch s did"
  by (simp_all add: find_dispatch_def)

lemma fin_inv_conflicts [simp]: "fin_inv (s\<lparr>conflicts := cs\<rparr>) = fin_inv s"
  using ledger_cong[of "s\<lparr>conflicts := cs\<rparr>" s] by (simp add: fin_inv_def)

context decimal_laws
begin

text \<open>The user's refresh: by dispatch when there is one, from the timeline otherwise.\<close>

lemma sync_order_outcome:
  assumes inv: "fin_inv s" and ids: "distinct (map d_id (dispatches s))"
    and run: "syncFromDispatch D rates oid s = (Inr r, t)"
  shows "outcome s oid t (sr_reason r)"
proof (cases "dispatch_of s oid")
  case None
  with run have "order_tx 5 (syncFromTimelineEvents D rates oid) s = (Inr r, t)"
    by (auto simp: syncFromDispatch_def run_ok withOrderTransaction_def)
  from order_tx_ok[OF this] obtain cs where "syncFromTimelineEvents D rates oid (s\<lparr>conflicts := cs\<rparr>) = (Inr r, t)" by blast
  from sync_timeline_outcome[OF _ this] inv show ?thesis by (simp add: outcome_def)
next
  case (Some d)
  then have o: "d_order d = oid" by (auto simp: dispatch_of_def dest: find_Some_set)
  from run Some have sync: "syncFromDispatchId D rates False (d_id d) s = (Inr r, t)"
    by (auto simp: syncFromDispatch_def run_ok)
  have d: "d \<in> set (dispatches s)" using Some by (auto simp: dispatch_of_def dest: find_Some_set)
  then obtain d' where d': "find_dispatch s (d_id d) = Some d'"
    by (cases "find_dispatch s (d_id d)") (auto simp: find_dispatch_def find_None_set)
  from d' have "d' \<in> set (dispatches s)" "d_id d' = d_id d" by (auto simp: find_dispatch_def dest: find_Some_set)
  with d ids have "d' = d" by (auto simp: distinct_map inj_on_def)
  from d' sync have "order_tx 5 (syncFromDispatchIdLocked D rates (d_id d)) s = (Inr r, t)"
    by (simp add: syncFromDispatchId_def run_ok withOrderTransaction_def)
  from order_tx_ok[OF this] obtain cs
    where "syncFromDispatchIdLocked D rates (d_id d) (s\<lparr>conflicts := cs\<rparr>) = (Inr r, t)" by blast
  from sync_dispatch_outcome[OF _ _ this] inv d' have "outcome s (d_order d') t (sr_reason r)"
    by (simp add: outcome_def)
  with o \<open>d' = d\<close> show ?thesis by simp
qed

end

section \<open>Properties of the order ledger\<close>

text \<open>A delivered order: 25 collected, 3 charged for shipping, a courier fee of 4.\<close>

definition sample_shipment :: "ship_status \<Rightarrow> shipment" where
  "sample_shipment st = \<lparr>sh_status = st, sh_fee = Some 4, sh_currency = ''MAD'', sh_situation = None\<rparr>"

definition sample_fin :: "ship_status \<Rightarrow> fin_db" where
  "sample_fin st = \<lparr>locations = [], balances = [], movements = [], items = [], conflicts = [],
     orders = [sample_order ''gift''],
     accounts = [\<lparr>ac_order = ''o1'', ac_user = ''u'', ac_name = Some ''#1'', ac_currency = ''MAD'', ac_base = ''MAD'',
       ac_totalCollected = 25, ac_shipping = 3, ac_payment = PS_PENDING, ac_cod = Some COD_PENDING\<rparr>],
     dispatches = [\<lparr>d_id = ''d1'', d_order = ''o1'', d_sendit = None, d_quickLivraison = Some (sample_shipment st),
       d_forceLog = None, d_ozoneExpress = None\<rparr>],
     ameex = [], timeline = [], fin_events = [],
     pack_catalog = \<lparr>ct_materials = [], ct_purchases = [], ct_variants = [], ct_products = [], ct_currency = ''MAD''\<rparr>\<rparr>"

definition with_status :: "ship_status \<Rightarrow> fin_db \<Rightarrow> fin_db" where
  "with_status st s = s\<lparr>dispatches := dispatches (sample_fin st)\<rparr>"

lemma sample_fin_inv: "fin_inv (sample_fin st)"
  by (simp add: fin_inv_def inv_ok_def fin_ok_def ship_ok_def sample_fin_def used_keys_def audited_def chain_of_def)

abbreviation prisma_lib :: decimal_lib where
  "prisma_lib \<equiv> half_up_lib 20"

lemma prisma_laws: "decimal_laws prisma_lib"
  by (rule half_up_lib_laws) simp

definition no_rates :: "string \<Rightarrow> rat option" where
  "no_rates c = None"


lemma delivered_run:
  "fst (syncFromDispatch prisma_lib no_rates ''o1'' (sample_fin SS_DELIVERED))
     = Inr \<lparr>sr_applied = True, sr_reason = ''DELIVERED'', sr_status = Some ''DELIVERED''\<rparr>"
  by code_simp


text \<open>
  The courier is paid once per parcel: after any refresh at most one event of the order carries
  a shipping cost, either its recognition or its shipping loss.
\<close>

theorem sync_books_shipping_once:
  assumes "decimal_laws D" and "fin_inv s" and "distinct (map d_id (dispatches s))"
    and "syncFromDispatch D rates oid s = (Inr r, t)"
  shows "length (filter (\<lambda>e. fe_order e = o' \<and> fe_shippingCost e \<noteq> 0) (fin_events t)) \<le> 1"
proof -
  have "outcome s oid t (sr_reason r)" by (rule decimal_laws.sync_order_outcome[OF assms])
  then have "fin_ok t" "ship_ok t" by (simp_all add: outcome_def fin_inv_def)
  then show ?thesis by (rule shipping_once)
qed

lemma refused_run:
  "fst (syncFromDispatch prisma_lib no_rates ''o1'' (sample_fin SS_REFUSED))
     = Inr \<lparr>sr_applied = False, sr_reason = ''CANCELLED'', sr_status = Some ''REFUSED''\<rparr>"
  by code_simp

lemma sync_books_shipping_once_witness:
  "length (filter (\<lambda>e. fe_order e = ''o1'' \<and> fe_shippingCost e \<noteq> 0)
     (fin_events (snd (syncFromDispatch prisma_lib no_rates ''o1'' (sample_fin SS_REFUSED))))) \<le> 1"
proof -
  have "distinct (map d_id (dispatches (sample_fin SS_REFUSED)))" by (simp add: sample_fin_def)
  from sync_books_shipping_once[OF prisma_laws sample_fin_inv this run_result[OF refused_run]]
  show ?thesis .
qed

text \<open>
  Booking an outcome that is already booked appends nothing: a recognised order is not
  recognised again, an order without recognised revenue is not reversed, and a shipping loss is
  not repeated.
\<close>

theorem booking_idempotent:
  assumes "decimal_laws D" and "fin_ok s"
  shows "(recognized s (ac_order acc) \<and> applyRevenueRecognition D rates acc meta s = (Inr x, t) \<longrightarrow> t = s) \<and>
    (\<not> recognized s oid \<and> applyRevenueReversal D oid currency s = (Inr y, u) \<longrightarrow> u = s) \<and>
    (applyShippingLoss D rates oid currency fallback meta s = (Inr z, v) \<and>
       applyShippingLoss D rates oid currency fallback meta v = (Inr z', w) \<longrightarrow> w = v)"
proof (intro conjI impI; elim conjE)
  assume "recognized s (ac_order acc)" "applyRevenueRecognition D rates acc meta s = (Inr x, t)"
  with decimal_laws.recognition_effect[OF assms refl] show "t = s" by (metis (full_types))
next
  assume "\<not> recognized s oid" "applyRevenueReversal D oid currency s = (Inr y, u)"
  with decimal_laws.reversal_effect[OF assms] show "u = s" by (metis (full_types))
next
  assume 1: "applyShippingLoss D rates oid currency fallback meta s = (Inr z, v)"
    and 2: "applyShippingLoss D rates oid currency fallback meta v = (Inr z', w)"
  have "v = s \<or> find_event v oid SHIPPING_LOSS_KEY \<noteq> None"
    using 1 by (auto simp: applyShippingLoss_def run_ok Let_def upsert_event_ok create_event_ok zero_event_def
        find_event_def find_snoc split: option.splits if_splits)
  then show "w = v"
  proof
    assume "v = s" with 1 2 show ?thesis by simp
  next
    assume "find_event v oid SHIPPING_LOSS_KEY \<noteq> None"
    with 2 show ?thesis by (auto simp: applyShippingLoss_def run_ok split: option.splits)
  qed
qed

lemma booking_idempotent_witness:
  "let t = snd (syncFromDispatch prisma_lib no_rates ''o1'' (sample_fin SS_DELIVERED));
       u = snd (applyRevenueRecognition prisma_lib no_rates (hd (accounts t)) None t)
   in u = t"
proof -
  define t where "t = snd (syncFromDispatch prisma_lib no_rates ''o1'' (sample_fin SS_DELIVERED))"
  have "distinct (map d_id (dispatches (sample_fin SS_DELIVERED)))" by (simp add: sample_fin_def)
  from decimal_laws.sync_order_outcome[OF prisma_laws sample_fin_inv this run_result[OF delivered_run]]
  have t: "fin_ok t" "recognized t ''o1''" by (simp_all add: outcome_def t_def fin_inv_def)
  have "ac_order (hd (accounts t)) = ''o1''" unfolding t_def by code_simp
  with t(2) have rec: "recognized t (ac_order (hd (accounts t)))" by simp
  have "\<not> isl (fst (applyRevenueRecognition prisma_lib no_rates (hd (accounts t)) None t))"
    unfolding t_def by code_simp
  then obtain x where run: "applyRevenueRecognition prisma_lib no_rates (hd (accounts t)) None t
      = (Inr x, snd (applyRevenueRecognition prisma_lib no_rates (hd (accounts t)) None t))"
    by (metis prod.collapse sum.collapse(2))
  from booking_idempotent[OF prisma_laws t(1), THEN conjunct1, THEN mp, OF conjI[OF rec run]]
  show ?thesis unfolding Let_def t_def .
qed

lemma fold_later:
  "fold later es e \<in> insert e (set es) \<and> (\<forall>x \<in> insert e (set es). te_occurredAt x \<le> te_occurredAt (fold later es e))"
proof (induction es arbitrary: e)
  case (Cons a es)
  from Cons.IH[of "later a e"] show ?case by (auto simp: later_def split: if_splits)
qed simp

text \<open>
  The outcome of a timeline is the type of its latest delivery or failure, so a return after a
  delivery wins over the delivery; a timeline without such an event has no outcome.
\<close>

theorem terminal_outcome_is_latest:
  "case deriveTerminalOutcome events of
     None \<Rightarrow> (\<forall>e \<in> set events. \<not> is_outcome e)
   | Some ty \<Rightarrow> (\<exists>e \<in> set events. is_outcome e \<and> te_type e = ty \<and>
       (\<forall>x \<in> set events. is_outcome x \<longrightarrow> te_occurredAt x \<le> te_occurredAt e))"
proof (cases "filter is_outcome events")
  case Nil
  then show ?thesis by (simp add: deriveTerminalOutcome_def filter_empty_conv)
next
  case (Cons e es)
  have f: "set (e # es) = {x \<in> set events. is_outcome x}" unfolding Cons[symmetric] by auto
  let ?m = "fold later es e"
  from fold_later[of es e] have "?m \<in> set (e # es)" "\<forall>x \<in> set (e # es). te_occurredAt x \<le> te_occurredAt ?m"
    by simp_all
  then have "?m \<in> set events" "is_outcome ?m" "\<forall>x \<in> set events. is_outcome x \<longrightarrow> te_occurredAt x \<le> te_occurredAt ?m"
    unfolding f by auto
  then show ?thesis by (auto simp: deriveTerminalOutcome_def Cons)
qed

lemma terminal_outcome_is_latest_witness:
  "\<exists>e \<in> set [\<lparr>te_order = ''o'', te_providerId = None, te_type = ''DELIVERED'', te_occurredAt = 5,
      te_carrier = None, te_fee = None, te_currency = ''''\<rparr>, \<lparr>te_order = ''o'', te_providerId = None,
      te_type = ''RETURNED'', te_occurredAt = 9, te_carrier = None, te_fee = None, te_currency = ''''\<rparr>].
     te_type e = ''RETURNED''"
proof -
  let ?es = "[\<lparr>te_order = ''o'', te_providerId = None, te_type = ''DELIVERED'', te_occurredAt = 5,
      te_carrier = None, te_fee = None, te_currency = ''''\<rparr>, \<lparr>te_order = ''o'', te_providerId = None,
      te_type = ''RETURNED'', te_occurredAt = 9, te_carrier = None, te_fee = None, te_currency = ''''\<rparr>]"
  have "deriveTerminalOutcome ?es = Some ''RETURNED''" by code_simp
  with terminal_outcome_is_latest[of ?es] show ?thesis by simp
qed



text \<open>The loss booked for a line: the sum the code asks the database for.\<close>

definition line_loss :: "'a fin_db_scheme \<Rightarrow> string \<Rightarrow> string \<Rightarrow> rat" where
  "line_loss s oid lid = sum_list (map fe_damageCost (line_losses s oid (damage_key lid)))"

lemma starts_with_append [simp]: "starts_with p (p @ x)"
  by (simp add: starts_with_def)

lemma sum_losses_default: "(case sum_losses es of None \<Rightarrow> 0 | Some v \<Rightarrow> v) = sum_list (map fe_damageCost es)"
  by (simp add: sum_losses_def)

context decimal_laws
begin

lemma setLineLoss_reaches_target:
  assumes grid: "on_grid 4 target" "on_grid 4 (line_loss s oid lid)" "\<bar>target - line_loss s oid lid\<bar> < 10 ^ 16"
    and keys: "find_event s oid (damage_key lid @ '':'' @ uuid) = None"
      "\<forall>e \<in> set (fin_events s). fe_order e = oid \<and> fe_key e = damage_key lid \<longrightarrow> fe_type e = DAMAGE_LOSS"
    and run: "setLineLoss D oid lid currency target reason uuid s = (Inr x, t)"
  shows "line_loss t oid lid = target \<and> setLineLoss D oid lid currency target reason' uuid' t = (Inr None, t)"
proof -
  define booked where "booked = sum_losses (line_losses s oid (damage_key lid))"
  define delta where "delta = dminus D target (line_loss s oid lid)"
  have delta: "delta = target - line_loss s oid lid"
    unfolding delta_def dminus_def by (rule sig_cents[OF on_grid_diff[OF grid(1,2)] grid(3)])
  define key where "key = (if booked = None then damage_key lid else damage_key lid @ '':'' @ uuid)"
  have again: "setLineLoss D oid lid currency target reason' uuid' w = (Inr None, w)" if "line_loss w oid lid = target" for w
  proof -
    have "dminus D target (case sum_losses (line_losses w oid (damage_key lid)) of None \<Rightarrow> 0 | Some v \<Rightarrow> v) = 0"
      using that by (simp add: sum_losses_default line_loss_def dminus_def)
    then show ?thesis by (simp add: setLineLoss_def bnd_def reading_def ret_def Let_def)
  qed
  from run[unfolded setLineLoss_def Let_def, THEN bnd_readingD, unfolded sum_losses_default,
      folded line_loss_def, folded booked_def delta_def, folded key_def]
  have step: "(if delta = 0 then ret None
      else bnd (upsert_event D ((zero_event oid DAMAGE_LOSS currency reason key)
                        \<lparr>fe_damageCost := delta, fe_netProfitImpact := - delta\<rparr>))
                      (\<lambda>e. ret (Some e))) s = (Inr x, t)" .
  have "line_loss t oid lid = target"
  proof (cases "delta = 0")
    case True
    with step delta show ?thesis by (simp add: ret_ok)
  next
    case False
    have new: "find_event s oid key = None"
    proof (cases "booked = None")
      case True
      then have "line_losses s oid (damage_key lid) = []" by (simp add: booked_def sum_losses_def split: if_splits)
      with keys(2) show ?thesis
        unfolding key_def if_P[OF True] find_event_None line_losses_def by (auto simp: filter_empty_conv)
    next
      case False
      with keys(1) show ?thesis by (simp only: key_def if_False)
    qed
    have place: "places D 4 delta = delta" unfolding delta by (rule places_exact[OF on_grid_diff[OF grid(1,2)]])
    from step False obtain y where c: "upsert_event D ((zero_event oid DAMAGE_LOSS currency reason key)
        \<lparr>fe_damageCost := delta, fe_netProfitImpact := - delta\<rparr>) s = (Inr y, t)" by (auto simp: run_ok)
    with new have y: "fin_events t = fin_events s @ [y]" "fe_order y = oid"
      "fe_type y = DAMAGE_LOSS" "fe_key y = key" "fe_damageCost y = delta"
      by (simp_all add: upsert_event_ok create_event_ok zero_event_def stored_def place)
    have "fe_key y = damage_key lid \<or> starts_with (damage_key lid @ '':'') (fe_key y)"
      using y(4) by (auto simp: key_def starts_with_def)
    then have "line_losses t oid (damage_key lid) = line_losses s oid (damage_key lid) @ [y]"
      using y by (simp add: line_losses_def)
    then show ?thesis using y(5) delta by (simp add: line_loss_def)
  qed
  with again show ?thesis by blast
qed

end

text \<open>
  A line's booked loss is brought to its target by one corrective event, whatever was booked
  before, and stating the same target again writes nothing.
\<close>

theorem line_loss_reaches_target:
  assumes "decimal_laws D"
    and "on_grid 4 target" and "on_grid 4 (line_loss s oid lid)" and "\<bar>target - line_loss s oid lid\<bar> < 10 ^ 16"
    and "find_event s oid (damage_key lid @ '':'' @ uuid) = None"
    and "\<forall>e \<in> set (fin_events s). fe_order e = oid \<and> fe_key e = damage_key lid \<longrightarrow> fe_type e = DAMAGE_LOSS"
    and "setLineLoss D oid lid currency target reason uuid s = (Inr x, t)"
  shows "line_loss t oid lid = target \<and> setLineLoss D oid lid currency target reason' uuid' t = (Inr None, t)"
  by (rule decimal_laws.setLineLoss_reaches_target[OF assms])

lemma line_loss_reaches_target_witness:
  "line_loss (snd (setLineLoss prisma_lib ''o1'' ''l1'' ''MAD'' 7 ''lost'' ''x'' (sample_fin SS_REFUSED))) ''o1'' ''l1'' = 7"
proof -
  let ?s = "sample_fin SS_REFUSED"
  have events: "fin_events ?s = []" by (simp add: sample_fin_def)
  then have zero: "line_loss ?s ''o1'' ''l1'' = 0" by (simp add: line_loss_def line_losses_def)
  have "\<not> isl (fst (setLineLoss prisma_lib ''o1'' ''l1'' ''MAD'' 7 ''lost'' ''x'' ?s))" by code_simp
  then obtain x where run: "setLineLoss prisma_lib ''o1'' ''l1'' ''MAD'' 7 ''lost'' ''x'' ?s
      = (Inr x, snd (setLineLoss prisma_lib ''o1'' ''l1'' ''MAD'' 7 ''lost'' ''x'' ?s))"
    by (metis prod.collapse sum.collapse(2))
  have grid: "on_grid 4 (7 :: rat)" using on_grid_int[of 4 7] by simp
  have "find_event ?s ''o1'' (damage_key ''l1'' @ '':'' @ ''x'') = None" by (simp add: find_event_def events)
  from line_loss_reaches_target[OF prisma_laws grid _ _ this _ run] show ?thesis by (simp add: zero events)
qed

section \<open>Profit\<close>

text \<open>
  \<open>explained e\<close>: the profit impact of an event is what its amounts say. \<open>weight\<close> bounds the amounts,
  so that the library adds them exactly.
\<close>

definition explained :: "fin_event \<Rightarrow> bool" where
  "explained e \<longleftrightarrow> fe_netProfitImpact e = (case fe_type e of
       REVENUE_REVERSED \<Rightarrow> - (fe_revenue e - fe_productCost e - fe_shippingCost e)
     | DAMAGE_LOSS \<Rightarrow> - fe_damageCost e
     | SHIPPING_LOSS \<Rightarrow> - fe_shippingCost e
     | _ \<Rightarrow> fe_revenue e - fe_productCost e - fe_shippingCost e - fe_giftCost e - fe_packagingCost e)"

definition amounts :: "fin_event \<Rightarrow> rat list" where
  "amounts e = [fe_revenue e, fe_productCost e, fe_shippingCost e, fe_damageCost e, fe_giftCost e,
     fe_packagingCost e, fe_netProfitImpact e]"

definition weight :: "fin_event \<Rightarrow> rat" where
  "weight e = sum_list (map abs (amounts e))"

definition su_parts :: "summary \<Rightarrow> rat list" where
  "su_parts t = [su_revenue t, su_productCost t, su_shippingCost t, su_damageCost t, su_giftCost t,
     su_packagingCost t, su_netProfit t]"

definition profit_gap :: "summary \<Rightarrow> rat" where
  "profit_gap t = su_netProfit t - (su_revenue t - su_productCost t - su_shippingCost t - su_damageCost t
     - su_giftCost t - su_packagingCost t)"

definition exact_summary :: "summary \<Rightarrow> rat \<Rightarrow> bool" where
  "exact_summary t b \<longleftrightarrow> (\<forall>x \<in> set (su_parts t). on_grid 4 x \<and> \<bar>x\<bar> \<le> b) \<and> profit_gap t = 0"

context decimal_laws
begin

lemma exact_ops:
  assumes "on_grid 4 a \<and> \<bar>a\<bar> \<le> b" "on_grid 4 x \<and> \<bar>x\<bar> \<le> w" "b + w < 10 ^ 16"
  shows "dplus D a x = a + x" "dminus D a x = a - x" "on_grid 4 (a + x) \<and> \<bar>a + x\<bar> \<le> b + w"
    "on_grid 4 (a - x) \<and> \<bar>a - x\<bar> \<le> b + w"
proof -
  have "\<bar>a + x\<bar> \<le> b + w" "\<bar>a - x\<bar> \<le> b + w"
    using abs_triangle_ineq[of a x] abs_triangle_ineq4[of a x] assms(1,2) by (auto intro: order_trans add_mono)
  with assms have 1: "on_grid 4 (a + x)" "on_grid 4 (a - x)" "\<bar>a + x\<bar> \<le> b + w" "\<bar>a - x\<bar> \<le> b + w"
    by (simp_all add: on_grid_add on_grid_diff)
  then show "on_grid 4 (a + x) \<and> \<bar>a + x\<bar> \<le> b + w" "on_grid 4 (a - x) \<and> \<bar>a - x\<bar> \<le> b + w" by simp_all
  show "dplus D a x = a + x" "dminus D a x = a - x"
    unfolding dplus_def dminus_def using 1 assms(3) by (intro sig_cents; simp)+
qed

lemma add_event_exact:
  assumes t: "exact_summary t b" and e: "explained e" "\<forall>x \<in> set (amounts e). on_grid 4 x"
    and small: "b + weight e < 10 ^ 16"
  shows "exact_summary (add_event D e t) (b + weight e)"
proof -
  have w: "on_grid 4 x \<and> \<bar>x\<bar> \<le> weight e" if "x \<in> set (amounts e)" for x
  proof -
    have "\<bar>x\<bar> \<le> sum_list (map abs (amounts e))" by (rule member_le_sum_list) (use that in auto)
    with that e(2) show ?thesis by (simp add: weight_def)
  qed
  have w0: "0 \<le> weight e" unfolding weight_def by (rule sum_list_nonneg) auto
  have parts: "on_grid 4 (su_revenue t) \<and> \<bar>su_revenue t\<bar> \<le> b" "on_grid 4 (su_productCost t) \<and> \<bar>su_productCost t\<bar> \<le> b"
    "on_grid 4 (su_shippingCost t) \<and> \<bar>su_shippingCost t\<bar> \<le> b" "on_grid 4 (su_damageCost t) \<and> \<bar>su_damageCost t\<bar> \<le> b"
    "on_grid 4 (su_giftCost t) \<and> \<bar>su_giftCost t\<bar> \<le> b" "on_grid 4 (su_packagingCost t) \<and> \<bar>su_packagingCost t\<bar> \<le> b"
    "on_grid 4 (su_netProfit t) \<and> \<bar>su_netProfit t\<bar> \<le> b" and gap: "profit_gap t = 0"
    using t by (simp_all add: exact_summary_def su_parts_def)
  have am: "fe_revenue e \<in> set (amounts e)" "fe_productCost e \<in> set (amounts e)" "fe_shippingCost e \<in> set (amounts e)"
    "fe_damageCost e \<in> set (amounts e)" "fe_giftCost e \<in> set (amounts e)" "fe_packagingCost e \<in> set (amounts e)"
    "fe_netProfitImpact e \<in> set (amounts e)" by (simp_all add: amounts_def)
  note ex = exact_ops[OF parts(1) w[OF am(1)] small] exact_ops[OF parts(2) w[OF am(2)] small]
    exact_ops[OF parts(3) w[OF am(3)] small] exact_ops[OF parts(4) w[OF am(4)] small]
    exact_ops[OF parts(5) w[OF am(5)] small] exact_ops[OF parts(6) w[OF am(6)] small]
    exact_ops[OF parts(7) w[OF am(7)] small]
  have grow: "\<bar>x\<bar> \<le> b + weight e" if "\<bar>x\<bar> \<le> b" for x using that w0 by linarith
  show ?thesis
    using e(1) gap parts ex grow w0
    by (cases "fe_type e")
       (simp_all add: add_event_def Let_def exact_summary_def su_parts_def profit_gap_def explained_def)
qed

lemma summarize_exact:
  assumes "\<forall>e \<in> set es. explained e \<and> (\<forall>x \<in> set (amounts e). on_grid 4 x)"
    and "exact_summary t b" "b + sum_list (map weight es) < 10 ^ 16"
  shows "exact_summary (fold (add_event D) es t) (b + sum_list (map weight es))"
  using assms
proof (induction es arbitrary: t b)
  case (Cons e es)
  have "0 \<le> sum_list (map weight es)" by (rule sum_list_nonneg) (auto simp: weight_def intro!: sum_list_nonneg)
  with Cons.prems(3) have "b + weight e < 10 ^ 16" by simp
  with Cons.prems add_event_exact[of t b e] have "exact_summary (add_event D e t) (b + weight e)" by simp
  from Cons.IH[OF _ this] Cons.prems show ?case by (simp add: add.assoc)
qed simp

end
text \<open>
  The profit of an order is fully explained: when every event's profit impact is what its
  amounts say, the net profit of the summary is its revenue minus product, shipping, damage, gift
  and packaging costs, to the last of four decimals.
\<close>

theorem summary_profit_explained:
  assumes "decimal_laws D" and "\<forall>e \<in> set es. explained e \<and> (\<forall>x \<in> set (amounts e). on_grid 4 x)"
    and "sum_list (map weight es) < 10 ^ 16"
  shows "su_netProfit (summarize D es) = su_revenue (summarize D es) - su_productCost (summarize D es)
    - su_shippingCost (summarize D es) - su_damageCost (summarize D es)
    - su_giftCost (summarize D es) - su_packagingCost (summarize D es)"
proof -
  have "exact_summary no_summary 0" by (simp add: exact_summary_def su_parts_def profit_gap_def no_summary_def)
  from decimal_laws.summarize_exact[OF assms(1,2) this] assms(3) show ?thesis
    by (simp add: exact_summary_def profit_gap_def summarize_def)
qed

definition sample_loss :: fin_event where
  "sample_loss = (zero_event ''o1'' SHIPPING_LOSS ''MAD'' ''refused'' SHIPPING_LOSS_KEY)
     \<lparr>fe_shippingCost := 4, fe_netProfitImpact := -4\<rparr>"

lemma summary_profit_explained_witness:
  "su_netProfit (summarize prisma_lib [sample_loss]) = - su_shippingCost (summarize prisma_lib [sample_loss])"
proof -
  have g: "on_grid 4 (4 :: rat)" using on_grid_int[of 4 4] by simp
  have "explained sample_loss \<and> (\<forall>x \<in> set (amounts sample_loss). on_grid 4 x)"
    using g on_grid_uminus[OF g] by (simp add: sample_loss_def explained_def zero_event_def amounts_def)
  then have 1: "\<forall>e \<in> set [sample_loss]. explained e \<and> (\<forall>x \<in> set (amounts e). on_grid 4 x)" by simp
  have 2: "sum_list (map weight [sample_loss]) < 10 ^ 16"
    by (simp add: weight_def amounts_def sample_loss_def zero_event_def)
  have "su_revenue (summarize prisma_lib [sample_loss]) = 0" "su_productCost (summarize prisma_lib [sample_loss]) = 0"
    "su_damageCost (summarize prisma_lib [sample_loss]) = 0" "su_giftCost (summarize prisma_lib [sample_loss]) = 0"
    "su_packagingCost (summarize prisma_lib [sample_loss]) = 0"
    by (simp_all add: summarize_def add_event_def sample_loss_def zero_event_def no_summary_def Let_def)
  with summary_profit_explained[OF prisma_laws 1 2] show ?thesis by simp
qed

end
