(* ===== verification/Shop_Pricing.thy ===== *)
theory Shop_Pricing
  imports Decimal_Lib "HOL-Library.AList" "HOL-Library.Multiset"
begin

text \<open>
  Money of the Zomaal shop: \<open>src/zomaal-shop/shop-pricing.util.ts\<close> (effective prices, promo codes,
  order totals, labels) and \<open>src/zomaal-shop/shop-cost-allocation.util.ts\<close> (the amount paid for an
  order, split over its items by largest remainder). Amounts are rationals, and every decimal
  operation goes through a \<open>decimal_lib\<close>: \<open>D\<close> for \<open>Prisma.Decimal\<close>, \<open>P\<close> for its 60 digit clone.
\<close>

section \<open>src/zomaal-shop/shop-pricing.util.ts\<close>

datatype promo_type = PERCENT | FIXED

record priced_line =
  pl_unitPrice :: rat
  pl_quantity :: int

record promo_input =
  pi_code :: string
  pi_type :: promo_type
  pi_value :: rat
  pi_minSubtotal :: "rat option"
  pi_maxDiscount :: "rat option"
  pi_usageLimit :: "int option"
  pi_perStoreLimit :: "int option"
  pi_usedCount :: int
  pi_startsAt :: "int option"
  pi_endsAt :: "int option"
  pi_isActive :: bool

record settings_input =
  deliveryFee :: rat
  freeDeliveryMinSubtotal :: "rat option"

datatype promo_rejection = PROMO_NOT_FOUND | INACTIVE | NOT_STARTED | EXPIRED | USAGE_LIMIT_REACHED
  | STORE_LIMIT_REACHED | MIN_SUBTOTAL_NOT_MET

record promo_outcome =
  po_code :: string
  po_applied :: bool
  po_rejection :: "promo_rejection option"
  po_message :: "string option"

record pricing_result =
  pr_subtotal :: rat
  pr_discount :: rat
  pr_deliveryFee :: rat
  pr_total :: rat
  pr_promo :: "promo_outcome option"

text \<open>\<open>value.toFixed(2)\<close>: the sign of the value, then the rounded amount with two decimals.\<close>

definition two_digits :: "nat \<Rightarrow> string" where
  "two_digits n = (if n < 10 then ''0'' @ nat_digits n else nat_digits n)"

definition toFixed2 :: "decimal_lib \<Rightarrow> rat \<Rightarrow> string" where
  "toFixed2 D x =
     (let cents = nat \<lfloor>\<bar>places D 2 x\<bar> * 100\<rfloor>
      in (if x < 0 then ''-'' else []) @ nat_digits (cents div 100) @ ''.'' @ two_digits (cents mod 100))"

definition effectivePrice :: "rat \<times> rat option \<Rightarrow> (rat option \<times> rat option) option \<Rightarrow> rat \<times> rat option" where
  "effectivePrice product variant =
     (let price = (case variant of Some (Some p, _) \<Rightarrow> p | _ \<Rightarrow> fst product);
          compareAt = (case variant of Some (_, Some c) \<Rightarrow> Some c | _ \<Rightarrow> snd product)
      in (price, case compareAt of None \<Rightarrow> None | Some c \<Rightarrow> if c > price then Some c else None))"

definition promoRejectionMessage :: "decimal_lib \<Rightarrow> promo_rejection \<Rightarrow> promo_input option \<Rightarrow> string" where
  "promoRejectionMessage D reason promo = (case reason of
       PROMO_NOT_FOUND \<Rightarrow> ''This promo code does not exist.''
     | INACTIVE \<Rightarrow> ''This promo code is no longer active.''
     | NOT_STARTED \<Rightarrow> ''This promo code is not active yet.''
     | EXPIRED \<Rightarrow> ''This promo code has expired.''
     | USAGE_LIMIT_REACHED \<Rightarrow> ''This promo code has reached its usage limit.''
     | STORE_LIMIT_REACHED \<Rightarrow> ''You have already used this promo code the maximum number of times.''
     | MIN_SUBTOTAL_NOT_MET \<Rightarrow> ''This promo code needs a subtotal of at least '' @
         (case promo of None \<Rightarrow> ''0.00'' | Some p \<Rightarrow>
            (case pi_minSubtotal p of None \<Rightarrow> ''0.00'' | Some m \<Rightarrow> toFixed2 D m)) @ ''.'')"

definition before_start :: "int \<Rightarrow> promo_input \<Rightarrow> bool" where
  "before_start now p \<longleftrightarrow> (case pi_startsAt p of None \<Rightarrow> False | Some t \<Rightarrow> now < t)"

definition after_end :: "int \<Rightarrow> promo_input \<Rightarrow> bool" where
  "after_end now p \<longleftrightarrow> (case pi_endsAt p of None \<Rightarrow> False | Some t \<Rightarrow> now > t)"

definition reached :: "int option \<Rightarrow> int \<Rightarrow> bool" where
  "reached limit uses \<longleftrightarrow> (case limit of None \<Rightarrow> False | Some l \<Rightarrow> uses \<ge> l)"

definition checkPromo :: "promo_input option \<Rightarrow> rat \<Rightarrow> int \<Rightarrow> int \<Rightarrow> promo_rejection option" where
  "checkPromo promo subtotal now storeUses = (case promo of
       None \<Rightarrow> Some PROMO_NOT_FOUND
     | Some p \<Rightarrow>
         if \<not> pi_isActive p then Some INACTIVE
         else if before_start now p then Some NOT_STARTED
         else if after_end now p then Some EXPIRED
         else if reached (pi_usageLimit p) (pi_usedCount p) then Some USAGE_LIMIT_REACHED
         else if reached (pi_perStoreLimit p) storeUses then Some STORE_LIMIT_REACHED
         else if (case pi_minSubtotal p of None \<Rightarrow> False | Some m \<Rightarrow> subtotal < m)
         then Some MIN_SUBTOTAL_NOT_MET
         else None)"

definition subtotal_of :: "decimal_lib \<Rightarrow> priced_line list \<Rightarrow> rat" where
  "subtotal_of D lines =
     places D 2 (fold (\<lambda>l sum. dplus D sum (dtimes D (pl_unitPrice l) (of_int (pl_quantity l)))) lines 0)"

definition discount_of :: "decimal_lib \<Rightarrow> promo_input \<Rightarrow> rat \<Rightarrow> rat" where
  "discount_of D p subtotal =
     (let raw = (if pi_type p = PERCENT then ddiv D (dtimes D subtotal (pi_value p)) 100 else pi_value p);
          capped = (case pi_maxDiscount p of
              Some m \<Rightarrow> if pi_type p = PERCENT then min raw m else raw
            | None \<Rightarrow> raw)
      in places D 2 (min capped subtotal))"

definition priceOrder ::
  "decimal_lib \<Rightarrow> priced_line list \<Rightarrow> settings_input \<Rightarrow> (promo_input option \<times> string \<times> int) option \<Rightarrow>
   int \<Rightarrow> pricing_result" where
  "priceOrder D lines settings promo now =
     (let subtotal = subtotal_of D lines;
          freeDelivery = (case freeDeliveryMinSubtotal settings of None \<Rightarrow> False | Some m \<Rightarrow> subtotal \<ge> m);
          delivery = (if lines = [] \<or> freeDelivery then 0 else places D 2 (deliveryFee settings));
          (discount, outcome) = (case promo of
             None \<Rightarrow> (0, None)
           | Some (input, code, storeUses) \<Rightarrow> (case checkPromo input subtotal now storeUses of
                 Some rejection \<Rightarrow> (0, Some \<lparr>po_code = code, po_applied = False,
                    po_rejection = Some rejection,
                    po_message = Some (promoRejectionMessage D rejection input)\<rparr>)
               | None \<Rightarrow> (discount_of D (the input) subtotal, Some \<lparr>po_code = pi_code (the input),
                    po_applied = True, po_rejection = None, po_message = None\<rparr>)))
      in \<lparr>pr_subtotal = subtotal, pr_discount = discount, pr_deliveryFee = delivery,
          pr_total = places D 2 (dplus D (dminus D subtotal discount) delivery), pr_promo = outcome\<rparr>)"

definition money :: "decimal_lib \<Rightarrow> rat option \<Rightarrow> string option" where
  "money D v = map_option (toFixed2 D) v"

definition orderNumberLabel :: "int \<Rightarrow> string" where
  "orderNumberLabel number = ''ZS-'' @ show_int number"

text \<open>\<open>parts.filter(Boolean).join(sep)\<close>; the separator of \<open>variantLabel\<close> is a middle dot.\<close>

fun join :: "string \<Rightarrow> string list \<Rightarrow> string" where
  "join sep [] = []"
| "join sep [x] = x"
| "join sep (x # y # ys) = x @ sep @ join sep (y # ys)"

definition present :: "string option list \<Rightarrow> string list" where
  "present xs = [the x. x \<leftarrow> xs, x \<noteq> None \<and> x \<noteq> Some []]"

definition variantLabel :: "(string option \<times> string option) option \<Rightarrow> string option" where
  "variantLabel variant = (case variant of None \<Rightarrow> None
     | Some (sz, color) \<Rightarrow> (let parts = present [sz, color]
         in if parts = [] then None else Some (join [CHR '' '', CHR 0xB7, CHR '' ''] parts)))"

section \<open>src/zomaal-shop/shop-cost-allocation.util.ts\<close>

record cost_item =
  ci_id :: string
  ci_quantity :: int
  ci_lineTotal :: rat

record cost_row =
  cr_id :: string
  cr_cents :: rat
  cr_remainder :: rat

text \<open>
  \<open>rows.sort(by)\<close>: a stable sort, by decreasing remainder and then by \<open>id.localeCompare\<close>, whose
  collation is a parameter (\<open>lc a b\<close> is its sign).
\<close>

definition row_cmp :: "(string \<Rightarrow> string \<Rightarrow> int) \<Rightarrow> cost_row \<Rightarrow> cost_row \<Rightarrow> int" where
  "row_cmp lc a b =
     (if cr_remainder b > cr_remainder a then 1 else if cr_remainder b < cr_remainder a then - 1
      else lc (cr_id a) (cr_id b))"

fun sort_insert :: "('a \<Rightarrow> 'a \<Rightarrow> int) \<Rightarrow> 'a \<Rightarrow> 'a list \<Rightarrow> 'a list" where
  "sort_insert cmp x [] = [x]"
| "sort_insert cmp x (y # ys) = (if cmp x y \<le> 0 then x # y # ys else y # sort_insert cmp x ys)"

definition js_sort :: "('a \<Rightarrow> 'a \<Rightarrow> int) \<Rightarrow> 'a list \<Rightarrow> 'a list" where
  "js_sort cmp xs = foldr (sort_insert cmp) xs []"

text \<open>\<open>for (index = 0; index < left; index++) rows[index].cents += 1\<close>: past the end it throws.\<close>

fun add_cents :: "decimal_lib \<Rightarrow> nat \<Rightarrow> cost_row list \<Rightarrow> error + cost_row list" where
  "add_cents P 0 rows = Inr rows"
| "add_cents P (Suc n) [] = Inl (Internal ''Cannot read properties of undefined'')"
| "add_cents P (Suc n) (r # rows) = (case add_cents P n rows of
       Inl e \<Rightarrow> Inl e
     | Inr rs \<Rightarrow> Inr (r\<lparr>cr_cents := dplus P (cr_cents r) 1\<rparr> # rs))"

definition cost_weights :: "decimal_lib \<Rightarrow> cost_item list \<Rightarrow> rat list" where
  "cost_weights P items =
     (let gross = fold (\<lambda>i sum. dplus P sum (ci_lineTotal i)) items 0
      in map (\<lambda>i. if gross = 0 then of_int (ci_quantity i) else ci_lineTotal i) items)"

definition cost_row_of :: "decimal_lib \<Rightarrow> rat \<Rightarrow> rat \<Rightarrow> string \<times> rat \<Rightarrow> cost_row" where
  "cost_row_of P cents weightTotal iw =
     (let exact = ddiv P (dtimes P cents (snd iw)) weightTotal;
          whole = of_int \<lfloor>exact\<rfloor>
      in \<lparr>cr_id = fst iw, cr_cents = whole, cr_remainder = dminus P exact whole\<rparr>)"

text \<open>
  The result is the \<open>Map\<close> from item ids to amounts, a later entry of the same id replacing the
  value of an earlier one. Weights that add up to zero make every share the library's
  not-a-number, here \<open>None\<close>.
\<close>

definition js_map :: "(string \<times> 'a) list \<Rightarrow> (string \<times> 'a) list" where
  "js_map entries = fold (\<lambda>(k, v). AList.update k v) entries []"

definition allocateShopCosts ::
  "decimal_lib \<Rightarrow> (string \<Rightarrow> string \<Rightarrow> int) \<Rightarrow> cost_item list \<Rightarrow> rat \<Rightarrow>
   error + (string \<times> rat option) list" where
  "allocateShopCosts P lc items paid =
     (case assertPersistedMoney paid ''Purchase cost'' of Inl e \<Rightarrow> Inl e | Inr _ \<Rightarrow>
      if items = [] then (if paid \<noteq> 0 then Inl (BadRequest ''Order has no items'') else Inr [])
      else
        let weights = cost_weights P items;
            weightTotal = fold (\<lambda>w sum. dplus P sum w) weights 0;
            cents = dtimes P (places P 2 paid) 100
        in if weightTotal = 0
           then Inr (js_map (map (\<lambda>i. (ci_id i, None)) items))
           else
             let rows = map (cost_row_of P cents weightTotal) (zip (map ci_id items) weights);
                 left = dminus P cents (fold (\<lambda>r sum. dplus P sum (cr_cents r)) rows 0)
             in (case add_cents P (nat \<lceil>left\<rceil>) (js_sort (row_cmp lc) rows) of
                   Inl e \<Rightarrow> Inl e
                 | Inr rs \<Rightarrow> Inr (js_map (map (\<lambda>r. (cr_id r, Some (ddiv P (cr_cents r) 100))) rs))))"

section \<open>Totals\<close>

context decimal_laws
begin

lemma fold_plus_exact:
  assumes "\<And>x. x \<in> set xs \<Longrightarrow> on_grid n x \<and> 0 \<le> x"
    and "on_grid n a" "0 \<le> a" "(a + sum_list xs) * 10 ^ n < 10 ^ digits D"
  shows "fold (\<lambda>x acc. dplus D acc x) xs a = a + sum_list xs"
  using assms
proof (induction xs arbitrary: a)
  case (Cons x xs)
  have x: "on_grid n x" "0 \<le> x" and rest: "0 \<le> sum_list xs"
    using Cons.prems(1) by (auto intro: sum_list_nonneg)
  have "(a + x) * 10 ^ n \<le> (a + sum_list (x # xs)) * 10 ^ n" using rest by (simp add: mult_right_mono)
  then have "\<bar>a + x\<bar> * 10 ^ n < 10 ^ digits D" using Cons.prems(3,4) x(2) by linarith
  then have "dplus D a x = a + x"
    unfolding dplus_def by (rule sig_exact[OF on_grid_add[OF Cons.prems(2) x(1)]])
  moreover have "fold (\<lambda>x acc. dplus D acc x) xs (a + x) = a + x + sum_list xs"
    by (rule Cons.IH) (use x Cons.prems in \<open>auto intro: on_grid_add simp: add.assoc\<close>)
  ultimately show ?case by (simp add: add.assoc)
qed simp

lemma sig_grid4: "on_grid 4 x \<Longrightarrow> 0 \<le> x \<Longrightarrow> x < 10 ^ 16 \<Longrightarrow> sig D x = x"
  by (rule sig_cents) simp_all

lemma subtotal_exact:
  assumes "\<forall>l \<in> set lines. on_grid 4 (pl_unitPrice l) \<and> 0 \<le> pl_unitPrice l \<and> 0 \<le> pl_quantity l"
    and "(\<Sum>l\<leftarrow>lines. pl_unitPrice l * of_int (pl_quantity l)) < 10 ^ 16"
  shows "subtotal_of D lines = places D 2 (\<Sum>l\<leftarrow>lines. pl_unitPrice l * of_int (pl_quantity l))"
proof -
  let ?p = "\<lambda>l. pl_unitPrice l * of_int (pl_quantity l)"
  have p: "on_grid 4 (?p l) \<and> 0 \<le> ?p l" if "l \<in> set lines" for l
    using assms(1) that by (simp add: on_grid_mult_int)
  have small: "?p l < 10 ^ 16" if "l \<in> set lines" for l
  proof -
    have "?p l \<le> sum_list (map ?p lines)" using that p by (intro member_le_sum_list) auto
    then show ?thesis using assms(2) by linarith
  qed
  have "dtimes D (pl_unitPrice l) (of_int (pl_quantity l)) = ?p l" if "l \<in> set lines" for l
    unfolding dtimes_def using p[OF that] small[OF that] by (intro sig_grid4) auto
  then have "fold (\<lambda>l sum. dplus D sum (dtimes D (pl_unitPrice l) (of_int (pl_quantity l)))) lines 0 =
      fold (\<lambda>l sum. dplus D sum (?p l)) lines 0"
    by (intro fold_cong) auto
  also have "\<dots> = fold (\<lambda>x acc. dplus D acc x) (map ?p lines) 0" by (simp add: fold_map comp_def)
  also have "\<dots> = 0 + sum_list (map ?p lines)"
    by (rule dsum_exact) (use p assms(2) in auto)
  finally show ?thesis by (simp add: subtotal_of_def)
qed

lemma discount_range:
  assumes "0 \<le> subtotal" "on_grid 2 subtotal" "0 \<le> pi_value p" "\<forall>m. pi_maxDiscount p = Some m \<longrightarrow> 0 \<le> m"
  shows "0 \<le> discount_of D p subtotal \<and> discount_of D p subtotal \<le> subtotal \<and>
    (\<forall>m. pi_type p = PERCENT \<and> pi_maxDiscount p = Some m \<and> on_grid 2 m \<longrightarrow> discount_of D p subtotal \<le> m)"
proof -
  let ?raw = "if pi_type p = PERCENT then ddiv D (dtimes D subtotal (pi_value p)) 100 else pi_value p"
  have "0 \<le> ?raw" using assms(1,3) by (simp add: ddiv_def dtimes_def sig_nonneg)
  then show ?thesis using assms
    by (cases "pi_maxDiscount p")
      (auto simp: discount_of_def Let_def intro!: places_nonneg places_le)
qed

lemma discount_grid: "on_grid 2 (discount_of D p subtotal)"
  by (simp add: discount_of_def Let_def places_grid)

lemma total_exact:
  assumes "on_grid 2 subtotal" "on_grid 2 discount" "on_grid 2 fee"
    and "0 \<le> discount" "discount \<le> subtotal" "0 \<le> fee" "subtotal + fee < 10 ^ 16"
  shows "places D 2 (dplus D (dminus D subtotal discount) fee) = subtotal - discount + fee"
proof -
  have g: "on_grid 4 x" if "on_grid 2 x" for x by (rule on_grid_mono[OF that]) simp
  have "dminus D subtotal discount = subtotal - discount"
    unfolding dminus_def by (rule sig_grid4) (use assms in \<open>auto intro: on_grid_diff g\<close>)
  moreover have "dplus D (subtotal - discount) fee = subtotal - discount + fee"
    unfolding dplus_def by (rule sig_grid4) (use assms in \<open>auto intro: on_grid_diff on_grid_add g\<close>)
  ultimately show ?thesis using assms by (simp add: places_exact on_grid_add on_grid_diff)
qed

end

lemma checkPromo_usable:
  "checkPromo (Some p) subtotal now uses = None \<longleftrightarrow>
     pi_isActive p \<and> \<not> before_start now p \<and> \<not> after_end now p \<and>
     \<not> reached (pi_usageLimit p) (pi_usedCount p) \<and> \<not> reached (pi_perStoreLimit p) uses \<and>
     (\<forall>m. pi_minSubtotal p = Some m \<longrightarrow> m \<le> subtotal)"
  by (auto simp: checkPromo_def split: option.splits)

lemma checkPromo_some: "checkPromo x subtotal now uses = None \<Longrightarrow> \<exists>p. x = Some p"
  by (cases x) (simp_all add: checkPromo_def)

context decimal_laws
begin

lemma places_upper: "places D n x \<le> x + 1 / (2 * 10 ^ n)"
  using abs_le_D1[OF places_close[of n x]] by (simp add: algebra_simps)

lemma priceOrder_totals:
  assumes "\<forall>l \<in> set lines. on_grid 4 (pl_unitPrice l) \<and> 0 \<le> pl_unitPrice l \<and> 0 \<le> pl_quantity l"
    and "0 \<le> deliveryFee settings"
    and "(\<Sum>l\<leftarrow>lines. pl_unitPrice l * of_int (pl_quantity l)) + deliveryFee settings < 10 ^ 15"
    and "\<forall>p code uses. promo = Some (Some p, code, uses) \<longrightarrow>
      0 \<le> pi_value p \<and> (\<forall>m. pi_maxDiscount p = Some m \<longrightarrow> 0 \<le> m)"
    and "r = priceOrder D lines settings promo now"
  shows "pr_subtotal r = places D 2 (\<Sum>l\<leftarrow>lines. pl_unitPrice l * of_int (pl_quantity l)) \<and>
    0 \<le> pr_discount r \<and> pr_discount r \<le> pr_subtotal r \<and>
    pr_total r = pr_subtotal r - pr_discount r + pr_deliveryFee r \<and>
    pr_deliveryFee r = (if lines = [] \<or> (\<exists>m. freeDeliveryMinSubtotal settings = Some m \<and> m \<le> pr_subtotal r)
      then 0 else places D 2 (deliveryFee settings)) \<and>
    (pr_discount r \<noteq> 0 \<longrightarrow> (\<exists>p code uses. promo = Some (Some p, code, uses) \<and>
       checkPromo (Some p) (pr_subtotal r) now uses = None \<and>
       (\<forall>m. pi_type p = PERCENT \<and> pi_maxDiscount p = Some m \<and> on_grid 2 m \<longrightarrow> pr_discount r \<le> m)))"
proof -
  let ?sum = "\<Sum>l\<leftarrow>lines. pl_unitPrice l * of_int (pl_quantity l)"
  let ?sub = "subtotal_of D lines"
  let ?fee = "places D 2 (deliveryFee settings)"
  have sum: "0 \<le> ?sum" by (rule sum_list_nonneg) (use assms(1) in auto)
  have sub: "?sub = places D 2 ?sum" by (rule subtotal_exact[OF assms(1)]) (use assms(2,3) in auto)
  have grids: "on_grid 2 ?sub" "0 \<le> ?sub" "on_grid 2 ?fee" "0 \<le> ?fee"
    using sum assms(2) by (simp_all add: sub places_grid places_nonneg)
  have "?sub \<le> ?sum + 1 / 200" "?fee \<le> deliveryFee settings + 1 / 200"
    using places_upper[of 2 ?sum] places_upper[of 2 "deliveryFee settings"] by (simp_all add: sub)
  then have small: "?sub + ?fee < 10 ^ 16" using assms(3) by simp
  define fee where "fee = (if lines = [] \<or> (\<exists>m. freeDeliveryMinSubtotal settings = Some m \<and> m \<le> ?sub) then 0 else ?fee)"
  have fee: "on_grid 2 fee" "0 \<le> fee" "?sub + fee < 10 ^ 16" using grids small by (auto simp: fee_def)
  have fields: "pr_subtotal r = ?sub" "pr_deliveryFee r = fee"
    "pr_total r = places D 2 (dplus D (dminus D ?sub (pr_discount r)) fee)"
    unfolding assms(5) fee_def priceOrder_def Let_def by (auto split: prod.split option.split)
  have d: "pr_discount r = 0 \<or> (\<exists>p code uses. promo = Some (Some p, code, uses) \<and>
      checkPromo (Some p) ?sub now uses = None \<and> pr_discount r = discount_of D p ?sub)"
  proof (cases promo)
    case None
    then show ?thesis by (simp add: assms(5) priceOrder_def Let_def)
  next
    case (Some q)
    obtain x code uses where q: "q = (x, code, uses)" by (cases q)
    show ?thesis
    proof (cases "checkPromo x ?sub now uses")
      case None
      with checkPromo_some[OF None] show ?thesis by (auto simp: assms(5) priceOrder_def Let_def Some q)
    next
      case (Some y)
      then show ?thesis by (simp add: assms(5) priceOrder_def Let_def \<open>promo = Some q\<close> q)
    qed
  qed
  have range: "on_grid 2 (pr_discount r) \<and> 0 \<le> pr_discount r \<and> pr_discount r \<le> ?sub"
    using d grids discount_range[OF grids(2,1)] assms(4) discount_grid by fastforce
  have "pr_total r = ?sub - pr_discount r + fee"
    unfolding fields by (rule total_exact) (use range grids fee in auto)
  moreover have "pr_discount r \<noteq> 0 \<longrightarrow> (\<exists>p code uses. promo = Some (Some p, code, uses) \<and>
       checkPromo (Some p) ?sub now uses = None \<and>
       (\<forall>m. pi_type p = PERCENT \<and> pi_maxDiscount p = Some m \<and> on_grid 2 m \<longrightarrow> pr_discount r \<le> m))"
    using d discount_range[OF grids(2,1)] assms(4) by metis
  ultimately show ?thesis using range fields by (simp add: sub fee_def)
qed

end

text \<open>
  C20. The totals of an order: the subtotal is the exact sum of the lines rounded to cents, the
  discount is never negative, never above the subtotal nor above a percentage code's cap, and only
  granted by a code that passes every check; the total is exactly subtotal minus discount plus
  delivery fee, and delivery is free for an empty order and above the threshold.
\<close>

theorem order_totals:
  assumes "decimal_laws D"
    and "\<forall>l \<in> set lines. on_grid 4 (pl_unitPrice l) \<and> 0 \<le> pl_unitPrice l \<and> 0 \<le> pl_quantity l"
    and "0 \<le> deliveryFee settings"
    and "(\<Sum>l\<leftarrow>lines. pl_unitPrice l * of_int (pl_quantity l)) + deliveryFee settings < 10 ^ 15"
    and "\<forall>p code uses. promo = Some (Some p, code, uses) \<longrightarrow>
      0 \<le> pi_value p \<and> (\<forall>m. pi_maxDiscount p = Some m \<longrightarrow> 0 \<le> m)"
    and "r = priceOrder D lines settings promo now"
  shows "pr_subtotal r = places D 2 (\<Sum>l\<leftarrow>lines. pl_unitPrice l * of_int (pl_quantity l)) \<and>
    0 \<le> pr_discount r \<and> pr_discount r \<le> pr_subtotal r \<and>
    pr_total r = pr_subtotal r - pr_discount r + pr_deliveryFee r \<and>
    pr_deliveryFee r = (if lines = [] \<or> (\<exists>m. freeDeliveryMinSubtotal settings = Some m \<and> m \<le> pr_subtotal r)
      then 0 else places D 2 (deliveryFee settings)) \<and>
    (pr_discount r \<noteq> 0 \<longrightarrow> (\<exists>p code uses. promo = Some (Some p, code, uses) \<and>
       checkPromo (Some p) (pr_subtotal r) now uses = None \<and>
       (\<forall>m. pi_type p = PERCENT \<and> pi_maxDiscount p = Some m \<and> on_grid 2 m \<longrightarrow> pr_discount r \<le> m)))"
  by (rule decimal_laws.priceOrder_totals[OF assms])

definition sample_promo :: promo_input where
  "sample_promo = \<lparr>pi_code = ''SAVE'', pi_type = PERCENT, pi_value = 15, pi_minSubtotal = Some 20,
     pi_maxDiscount = Some 4, pi_usageLimit = Some 10, pi_perStoreLimit = None, pi_usedCount = 9,
     pi_startsAt = None, pi_endsAt = Some 100, pi_isActive = True\<rparr>"

abbreviation sample_lines :: "priced_line list" where
  "sample_lines \<equiv> [\<lparr>pl_unitPrice = 995 / 100, pl_quantity = 3\<rparr>, \<lparr>pl_unitPrice = 1, pl_quantity = 2\<rparr>]"

abbreviation sample_result :: pricing_result where
  "sample_result \<equiv> priceOrder (half_up_lib 20) sample_lines
     \<lparr>deliveryFee = 5, freeDeliveryMinSubtotal = Some 50\<rparr> (Some (Some sample_promo, ''save'', 0)) 7"

lemma order_totals_witness:
  "pr_total sample_result = pr_subtotal sample_result - pr_discount sample_result + pr_deliveryFee sample_result \<and>
   pr_discount sample_result = 4 \<and> pr_deliveryFee sample_result = 5"
proof -
  have grid: "on_grid 4 (995 / 100 :: rat)" "on_grid 4 (1 :: rat)"
    using on_grid_int[of 4 1] Ints_of_int[of 99500] by (simp_all add: on_grid_def)
  have figures: "pr_discount sample_result = 4" "pr_deliveryFee sample_result = 5" by code_simp+
  from order_totals[OF prisma.decimal_laws_axioms _ _ _ _ refl, of sample_lines
      "\<lparr>deliveryFee = 5, freeDeliveryMinSubtotal = Some 50\<rparr>" "Some (Some sample_promo, ''save'', 0)" 7]
  have "pr_total sample_result = pr_subtotal sample_result - pr_discount sample_result + pr_deliveryFee sample_result"
    using grid by (simp add: sample_promo_def)
  with figures show ?thesis by simp
qed

section \<open>Splitting the amount paid\<close>

lemma mset_sort_insert [simp]: "mset (sort_insert cmp x ys) = add_mset x (mset ys)"
  by (induction ys) auto

lemma mset_js_sort [simp]: "mset (js_sort cmp xs) = mset xs"
  unfolding js_sort_def by (induction xs) auto

lemma length_js_sort [simp]: "length (js_sort cmp xs) = length xs"
  using mset_js_sort mset_eq_length by blast

lemma update_fresh: "k \<notin> fst ` set al \<Longrightarrow> AList.update k v al = al @ [(k, v)]"
  by (induction al) auto

lemma js_map_distinct:
  assumes "distinct (map fst entries)" shows "js_map entries = entries"
proof -
  have "fold (\<lambda>(k, v). AList.update k v) es al = al @ es"
    if "distinct (map fst (al @ es))" for es al :: "(string \<times> 'a) list"
    using that by (induction es arbitrary: al) (auto simp: update_fresh)
  from this[of "[]" entries] assms show ?thesis by (simp add: js_map_def)
qed

lemma sum_list_floor:
  fixes es :: "rat list"
  shows "(\<Sum>e\<leftarrow>es. of_int \<lfloor>e\<rfloor>) \<le> sum_list es \<and> sum_list es \<le> (\<Sum>e\<leftarrow>es. of_int \<lfloor>e\<rfloor>) + of_nat (length es)"
proof (induction es)
  case (Cons e es)
  have "of_int \<lfloor>e\<rfloor> \<le> e" "e \<le> of_int \<lfloor>e\<rfloor> + 1" by linarith+
  with Cons show ?case by (simp del: of_int_floor_le)
qed simp

lemma sum_list_within:
  fixes f g :: "'a \<Rightarrow> rat"
  assumes "\<And>x. x \<in> set xs \<Longrightarrow> \<bar>f x - g x\<bar> \<le> g x * c"
  shows "\<bar>sum_list (map f xs) - sum_list (map g xs)\<bar> \<le> sum_list (map g xs) * c"
  using assms
proof (induction xs)
  case (Cons x xs)
  have "\<bar>f x - g x\<bar> \<le> g x * c" "\<bar>sum_list (map f xs) - sum_list (map g xs)\<bar> \<le> sum_list (map g xs) * c"
    using Cons by auto
  then show ?case by (simp add: distrib_right)
qed simp

lemma sum_list_scale: "(\<Sum>x\<leftarrow>xs. a * f x / b) = a * (\<Sum>x\<leftarrow>xs. f x) / (b :: rat)"
  by (induction xs) (simp_all add: distrib_left add_divide_distrib)

context decimal_laws
begin

lemma sig_int: "\<bar>of_int k\<bar> < (10 :: rat) ^ digits D \<Longrightarrow> sig D (of_int k) = of_int k"
  by (rule sig_exact[of 0]) simp_all

text \<open>Handing out cents leaves the ids alone and raises the total by one cent each.\<close>

lemma add_cents_ok:
  assumes "n \<le> length rows"
    and "\<And>r. r \<in> set rows \<Longrightarrow> \<exists>k. cr_cents r = of_int k \<and> 0 \<le> k \<and> of_int k + 1 < (10 :: rat) ^ digits D"
  shows "\<exists>rs. add_cents D n rows = Inr rs \<and> map cr_id rs = map cr_id rows \<and>
    sum_list (map cr_cents rs) = sum_list (map cr_cents rows) + of_nat n \<and>
    list_all2 (\<lambda>r s. cr_id s = cr_id r \<and> (cr_cents s = cr_cents r \<or> cr_cents s = cr_cents r + 1)) rows rs"
  using assms
proof (induction n arbitrary: rows)
  case 0
  then show ?case by (auto intro: list.rel_refl)
next
  case (Suc n)
  obtain r rest where rows: "rows = r # rest" using Suc.prems(1) by (cases rows) auto
  obtain k where k: "cr_cents r = of_int k" "0 \<le> k" "of_int k + 1 < (10 :: rat) ^ digits D"
    using Suc.prems(2)[of r] rows by auto
  have "sig D (of_int (k + 1)) = of_int (k + 1)" by (rule sig_int) (use k in simp)
  then have step: "dplus D (cr_cents r) 1 = cr_cents r + 1" by (simp add: dplus_def k)
  obtain rs where rs: "add_cents D n rest = Inr rs" "map cr_id rs = map cr_id rest"
      "sum_list (map cr_cents rs) = sum_list (map cr_cents rest) + of_nat n"
      "list_all2 (\<lambda>r s. cr_id s = cr_id r \<and> (cr_cents s = cr_cents r \<or> cr_cents s = cr_cents r + 1)) rest rs"
    using Suc.IH[of rest] Suc.prems rows by auto
  then show ?case by (simp add: rows step)
qed

end

text \<open>The weight of an item: its line total, or its quantity in a basket of free items.\<close>

definition item_weight :: "cost_item list \<Rightarrow> cost_item \<Rightarrow> rat" where
  "item_weight items i = (if (\<Sum>j\<leftarrow>items. ci_lineTotal j) = 0 then of_int (ci_quantity i) else ci_lineTotal i)"

definition basket :: "cost_item list \<Rightarrow> bool" where
  "basket items \<longleftrightarrow> items \<noteq> [] \<and> distinct (map ci_id items) \<and>
     list_all (\<lambda>i. on_grid 4 (ci_lineTotal i) \<and> 0 \<le> ci_lineTotal i \<and> 1 \<le> ci_quantity i) items \<and>
     (\<Sum>i\<leftarrow>items. ci_lineTotal i) < 10 ^ 16 \<and> (\<Sum>i\<leftarrow>items. of_int (ci_quantity i) :: rat) < 10 ^ 16"

lemma item_weight_ok:
  assumes "basket items" "i \<in> set items"
  shows "on_grid 4 (item_weight items i) \<and> 0 \<le> item_weight items i"
proof -
  have "on_grid 4 (ci_lineTotal i)" "0 \<le> ci_lineTotal i" "1 \<le> ci_quantity i"
    using assms by (auto simp: basket_def list_all_iff)
  then show ?thesis by (auto simp: item_weight_def)
qed

lemma weight_sum:
  assumes "basket items"
  shows "0 < (\<Sum>i\<leftarrow>items. item_weight items i) \<and> (\<Sum>i\<leftarrow>items. item_weight items i) < 10 ^ 16"
proof (cases "(\<Sum>j\<leftarrow>items. ci_lineTotal j) = 0")
  case True
  then have w: "item_weight items = (\<lambda>i. of_int (ci_quantity i))" by (auto simp: item_weight_def)
  obtain a as where items: "items = a # as" using assms by (cases items) (auto simp: basket_def)
  have "0 \<le> (\<Sum>i\<leftarrow>as. of_int (ci_quantity i) :: rat)" "1 \<le> ci_quantity a"
    using assms by (auto simp: basket_def items list_all_iff intro!: sum_list_nonneg) force
  then have "0 < (\<Sum>i\<leftarrow>items. of_int (ci_quantity i) :: rat)" by (simp add: items)
  then show ?thesis using assms by (simp add: w basket_def)
next
  case False
  then have w: "item_weight items = ci_lineTotal" by (auto simp: item_weight_def)
  have "0 \<le> (\<Sum>j\<leftarrow>items. ci_lineTotal j)"
    using assms by (auto simp: basket_def list_all_iff intro!: sum_list_nonneg)
  then show ?thesis using False assms by (simp add: w basket_def)
qed

context decimal_laws
begin

lemma cost_weights_exact:
  assumes "basket items"
  shows "cost_weights D items = map (item_weight items) items"
    and "fold (\<lambda>w sum. dplus D sum w) (map (item_weight items) items) 0 = (\<Sum>i\<leftarrow>items. item_weight items i)"
proof -
  have "fold (\<lambda>x acc. dplus D acc x) (map ci_lineTotal items) 0 = 0 + (\<Sum>i\<leftarrow>items. ci_lineTotal i)"
    by (rule dsum_exact) (use assms in \<open>auto simp: basket_def list_all_iff\<close>)
  then show "cost_weights D items = map (item_weight items) items"
    by (auto simp: cost_weights_def fold_map comp_def item_weight_def Let_def)
  have "fold (\<lambda>x acc. dplus D acc x) (map (item_weight items) items) 0 = 0 + (\<Sum>i\<leftarrow>items. item_weight items i)"
    by (rule dsum_exact) (use item_weight_ok[OF assms] weight_sum[OF assms] in auto)
  then show "fold (\<lambda>w sum. dplus D sum w) (map (item_weight items) items) 0 = (\<Sum>i\<leftarrow>items. item_weight items i)"
    by simp
qed

lemma digits_large: "60 \<le> digits D \<Longrightarrow> x < 10 ^ 60 \<Longrightarrow> x < (10 :: rat) ^ digits D"
  by (erule less_le_trans) (rule power_increasing, simp_all)

text \<open>The quotient that stands for an item's exact share is off by less than \<open>10\<^sup>-\<^sup>40\<close> cents.\<close>

lemma share_close:
  assumes "60 \<le> digits D" "0 \<le> c" "of_int c \<le> (10 :: rat) ^ 18" "on_grid 4 w" "0 \<le> w" "w < 10 ^ 16" "0 < W"
  shows "\<bar>ddiv D (dtimes D (of_int c) w) W - of_int c * w / W\<bar> \<le> of_int c * w / W * (1 / 10 ^ 59)"
    and "0 \<le> ddiv D (dtimes D (of_int c) w) W"
proof -
  let ?x = "of_int c * w"
  have x: "0 \<le> ?x" using assms by simp
  have "?x \<le> 10 ^ 18 * 10 ^ 16" using assms by (intro mult_mono) auto
  then have "\<bar>?x\<bar> * 10 ^ 4 \<le> 10 ^ 18 * 10 ^ 16 * 10 ^ 4" unfolding abs_of_nonneg[OF x] by (rule mult_right_mono) simp
  then have "\<bar>?x\<bar> * 10 ^ 4 < 10 ^ 60" by (rule le_less_trans) simp
  then have "\<bar>?x\<bar> * 10 ^ 4 < 10 ^ digits D" by (rule digits_large[OF assms(1)])
  moreover have "on_grid 4 ?x" using on_grid_mult_int[OF assms(4), of c] by (simp add: mult.commute)
  ultimately have t: "dtimes D (of_int c) w = ?x" unfolding dtimes_def by (intro sig_exact)
  have q: "0 \<le> ?x / W" using x assms(7) by simp
  have "\<bar>ddiv D ?x W - ?x / W\<bar> \<le> ?x / W / 10 ^ (digits D - 1)"
    using sig_close[of "?x / W"] unfolding abs_of_nonneg[OF q] ddiv_def .
  also have "\<dots> \<le> ?x / W / 10 ^ 59"
    using q assms(1) by (intro divide_left_mono power_increasing) auto
  finally show "\<bar>ddiv D (dtimes D (of_int c) w) W - ?x / W\<bar> \<le> ?x / W * (1 / 10 ^ 59)" by (simp add: t)
  show "0 \<le> ddiv D (dtimes D (of_int c) w) W" using q by (simp add: t ddiv_def sig_nonneg)
qed

end
context decimal_laws
begin

text \<open>
  The cents before the remainders are handed out: every row holds a non-negative number of whole
  cents within one cent of its exact share, and between none and one cent per row is left.
\<close>

lemma cost_rows:
  assumes big: "60 \<le> digits D" and b: "basket items" and c: "0 \<le> c" "of_int c \<le> (10 :: rat) ^ 18"
    and W: "W = (\<Sum>i\<leftarrow>items. item_weight items i)"
    and rows: "rows = map (cost_row_of D (of_int c) W) (zip (map ci_id items) (map (item_weight items) items))"
  shows "\<exists>ks. map cr_cents rows = map of_int ks \<and> (\<forall>k \<in> set ks. 0 \<le> k) \<and>
      sum_list ks \<le> c \<and> c \<le> sum_list ks + int (length rows)"
    and "map cr_id rows = map ci_id items"
    and "\<forall>r \<in> set rows. \<exists>i \<in> set items. cr_id r = ci_id i \<and>
      cr_cents r \<le> of_int c * item_weight items i / W + 1 / 10 ^ 40 \<and>
      of_int c * item_weight items i / W \<le> cr_cents r + 1 + 1 / 10 ^ 40"
proof -
  let ?w = "item_weight items"
  let ?s = "\<lambda>i. of_int c * ?w i / W"
  define e where "e i = ddiv D (dtimes D (of_int c) (?w i)) W" for i
  have Wp: "0 < W" using weight_sum[OF b] W by simp
  have close: "\<bar>e i - ?s i\<bar> \<le> ?s i * (1 / 10 ^ 59)" "0 \<le> e i" "0 \<le> ?s i" "?s i \<le> 10 ^ 18" if "i \<in> set items" for i
  proof -
    have "?w i \<le> W" unfolding W using that item_weight_ok[OF b] by (intro member_le_sum_list) auto
    then have w: "?w i < 10 ^ 16" "?w i / W \<le> 1" using weight_sum[OF b] W Wp by simp_all
    from share_close[OF big c, of "?w i" W] item_weight_ok[OF b that] w Wp
    show "\<bar>e i - ?s i\<bar> \<le> ?s i * (1 / 10 ^ 59)" "0 \<le> e i" unfolding e_def by blast+
    show "0 \<le> ?s i" using item_weight_ok[OF b that] c Wp by simp
    have "of_int c * (?w i / W) \<le> 10 ^ 18 * 1"
      using w(2) c item_weight_ok[OF b that] Wp by (intro mult_mono) auto
    then show "?s i \<le> 10 ^ 18" by simp
  qed
  have near: "\<bar>e i - ?s i\<bar> \<le> 1 / 10 ^ 40" if "i \<in> set items" for i
  proof -
    have "?s i * (1 / 10 ^ 59) \<le> 10 ^ 18 * (1 / 10 ^ 59)" by (rule mult_right_mono) (use close(4)[OF that] in auto)
    with close(1)[OF that] show ?thesis by simp
  qed
  have rws: "rows = map (\<lambda>i. cost_row_of D (of_int c) W (ci_id i, ?w i)) items"
    unfolding rows by (simp add: zip_map_map zip_same_conv_map)
  have cents: "cr_cents (cost_row_of D (of_int c) W (ci_id i, ?w i)) = of_int \<lfloor>e i\<rfloor>"
    "cr_id (cost_row_of D (of_int c) W (ci_id i, ?w i)) = ci_id i" for i
    by (simp_all add: cost_row_of_def e_def Let_def)
  have shares: "(\<Sum>i\<leftarrow>items. ?s i) = of_int c" using Wp by (simp add: sum_list_scale W[symmetric])
  have "\<bar>(\<Sum>i\<leftarrow>items. e i) - of_int c\<bar> \<le> of_int c * (1 / 10 ^ 59)"
    using sum_list_within[of items e ?s "1 / 10 ^ 59"] close(1) unfolding shares by blast
  also have "\<dots> < 1" using c by simp
  finally have total: "\<bar>(\<Sum>i\<leftarrow>items. e i) - of_int c\<bar> < 1" .
  let ?ks = "map (\<lambda>i. \<lfloor>e i\<rfloor>) items"
  have fl: "(\<Sum>k\<leftarrow>?ks. of_int k) \<le> (\<Sum>i\<leftarrow>items. e i)"
    "(\<Sum>i\<leftarrow>items. e i) \<le> (\<Sum>k\<leftarrow>?ks. of_int k) + of_nat (length items)"
    using sum_list_floor[of "map e items"] by (simp_all add: comp_def)
  have ofs: "(\<Sum>k\<leftarrow>?ks. of_int k) = (of_int (sum_list ?ks) :: rat)"
    by (induction items) auto
  have "sum_list ?ks \<le> c \<and> c \<le> sum_list ?ks + int (length items)"
    using total fl unfolding ofs by linarith
  then show "\<exists>ks. map cr_cents rows = map of_int ks \<and> (\<forall>k \<in> set ks. 0 \<le> k) \<and>
      sum_list ks \<le> c \<and> c \<le> sum_list ks + int (length rows)"
    using close(2) by (intro exI[of _ ?ks]) (auto simp: rws cents)
  show "map cr_id rows = map ci_id items" by (simp add: rws cents)
  show "\<forall>r \<in> set rows. \<exists>i \<in> set items. cr_id r = ci_id i \<and>
      cr_cents r \<le> ?s i + 1 / 10 ^ 40 \<and> ?s i \<le> cr_cents r + 1 + 1 / 10 ^ 40"
  proof
    fix r assume "r \<in> set rows"
    then obtain i where i: "i \<in> set items" "r = cost_row_of D (of_int c) W (ci_id i, ?w i)" by (auto simp: rws)
    have "of_int \<lfloor>e i\<rfloor> \<le> e i" "e i \<le> of_int \<lfloor>e i\<rfloor> + 1" by linarith+
    with near[OF i(1)] have "of_int \<lfloor>e i\<rfloor> \<le> ?s i + 1 / 10 ^ 40" "?s i \<le> of_int \<lfloor>e i\<rfloor> + 1 + 1 / 10 ^ 40"
      by (simp_all only: abs_le_iff) linarith+
    with i show "\<exists>i \<in> set items. cr_id r = ci_id i \<and> cr_cents r \<le> ?s i + 1 / 10 ^ 40 \<and> ?s i \<le> cr_cents r + 1 + 1 / 10 ^ 40"
      by (auto simp: cents)
  qed
qed

end
context decimal_laws
begin

lemma js_map_values: "distinct (map f xs) \<Longrightarrow> js_map (map (\<lambda>r. (f r, g r)) xs) = map (\<lambda>r. (f r, g r)) xs"
  by (rule js_map_distinct) (simp add: comp_def)

lemma sum_dplus_ints:
  assumes "60 \<le> digits D" "\<forall>k \<in> set ks. 0 \<le> k" "of_int (sum_list ks) \<le> (10 :: rat) ^ 18"
  shows "fold (\<lambda>x acc. dplus D acc x) (map of_int ks) 0 = of_int (sum_list ks)"
proof -
  have s: "sum_list (map of_int ks) = (of_int (sum_list ks) :: rat)" by (induction ks) auto
  have "of_int (sum_list ks) < (10 :: rat) ^ 60" using assms(3) by (rule le_less_trans) simp
  from digits_large[OF assms(1) this]
  have "fold (\<lambda>x acc. dplus D acc x) (map of_int ks) 0 = 0 + sum_list (map of_int ks)"
    by (intro fold_plus_exact[of _ 0]) (use assms(2) in \<open>auto simp: s\<close>)
  then show ?thesis by (simp add: s)
qed

text \<open>Handing out the cents that are left, to the rows in any order.\<close>

lemma hand_out:
  assumes big: "60 \<le> digits D" and ks: "map cr_cents rows = map of_int ks" "\<forall>k \<in> set ks. 0 \<le> k"
    and c: "sum_list ks \<le> c" "c \<le> sum_list ks + int (length rows)" "of_int c \<le> (10 :: rat) ^ 18"
  shows "\<exists>rs. add_cents D (nat (c - sum_list ks)) (js_sort cmp rows) = Inr rs \<and>
    mset (map cr_id rs) = mset (map cr_id rows) \<and> sum_list (map cr_cents rs) = of_int c \<and>
    (\<forall>s \<in> set rs. \<exists>r \<in> set rows. cr_id s = cr_id r \<and> (\<exists>k. cr_cents s = of_int k \<and> 0 \<le> k \<and> k \<le> c + 1) \<and>
       (cr_cents s = cr_cents r \<or> cr_cents s = cr_cents r + 1))"
proof -
  let ?n = "nat (c - sum_list ks)" and ?sorted = "js_sort cmp rows"
  have same: "set ?sorted = set rows" "mset ?sorted = mset rows" by (metis mset_js_sort mset_eq_setD) simp
  have row: "\<exists>k. cr_cents r = of_int k \<and> 0 \<le> k \<and> k \<le> c" if "r \<in> set rows" for r
  proof -
    have "cr_cents r \<in> set (map of_int ks)" using that ks(1) by (metis image_eqI set_map)
    then obtain k where k: "k \<in> set ks" "cr_cents r = of_int k" by auto
    have "k \<le> sum_list ks" using k(1) ks(2) by (intro member_le_sum_list) auto
    then show ?thesis using k ks(2) c(1) by auto
  qed
  have "of_int c + 1 < (10 :: rat) ^ digits D"
    by (rule digits_large[OF big]) (use c(3) in simp)
  then have room: "of_int k + 1 < (10 :: rat) ^ digits D" if "k \<le> c" for k
    using that by (meson add_right_mono le_less_trans of_int_le_iff)
  have len: "?n \<le> length ?sorted" using c by simp
  have "\<exists>k. cr_cents r = of_int k \<and> 0 \<le> k \<and> of_int k + 1 < (10 :: rat) ^ digits D" if "r \<in> set ?sorted" for r
    using row[of r] room that same(1) by blast
  from add_cents_ok[OF len this] obtain rs where rs: "add_cents D ?n ?sorted = Inr rs"
      "map cr_id rs = map cr_id ?sorted" "sum_list (map cr_cents rs) = sum_list (map cr_cents ?sorted) + of_nat ?n"
      "list_all2 (\<lambda>r s. cr_id s = cr_id r \<and> (cr_cents s = cr_cents r \<or> cr_cents s = cr_cents r + 1)) ?sorted rs"
    by blast
  have "sum_list (map cr_cents ?sorted) = sum_list (map cr_cents rows)"
    using arg_cong[OF same(2), of "\<lambda>m. sum_mset (image_mset cr_cents m)"]
    unfolding mset_map[symmetric] sum_mset_sum_list .
  also have "\<dots> = of_int (sum_list ks)" unfolding ks(1) by (induction ks) auto
  finally have "sum_list (map cr_cents rs) = of_int c" using rs(3) c(1) by simp
  moreover have "mset (map cr_id rs) = mset (map cr_id rows)" unfolding rs(2) mset_map same(2) ..
  moreover have "\<exists>r \<in> set rows. cr_id s = cr_id r \<and> (\<exists>k. cr_cents s = of_int k \<and> 0 \<le> k \<and> k \<le> c + 1) \<and>
      (cr_cents s = cr_cents r \<or> cr_cents s = cr_cents r + 1)" if "s \<in> set rs" for s
  proof -
    from rs(4) that obtain r where r: "r \<in> set rows" "cr_id s = cr_id r"
        "cr_cents s = cr_cents r \<or> cr_cents s = cr_cents r + 1"
      unfolding same(1)[symmetric] list_all2_conv_all_nth by (metis in_set_conv_nth)
    obtain k where k: "cr_cents r = of_int k" "0 \<le> k" "k \<le> c" using row[OF r(1)] by blast
    have "\<exists>k. cr_cents s = of_int k \<and> 0 \<le> k \<and> k \<le> c + 1"
      using r(3) k by (elim disjE) (rule exI[of _ k] exI[of _ "k + 1"], simp)+
    with r show ?thesis by blast
  qed
  ultimately show ?thesis using rs(1) by blast
qed

end
lemma cent_bound:
  fixes q :: rat
  assumes "m = n \<or> m = n + 1" "n \<le> 100 * q + e" "100 * q \<le> n + 1 + e" "0 \<le> e"
  shows "\<bar>m / 100 - q\<bar> \<le> (1 + e) / 100"
proof -
  have "m \<le> 100 * q + (1 + e)" "100 * q \<le> m + (1 + e)" using assms by auto
  then have "m / 100 - q \<le> (1 + e) / 100" "q - m / 100 \<le> (1 + e) / 100" by (simp_all add: field_simps)
  then show ?thesis by (intro abs_leI) (simp_all only: minus_diff_eq)
qed

context decimal_laws
begin

lemma allocation:
  assumes big: "60 \<le> digits D" and b: "basket items" and paid: "0 \<le> paid" "paid < 10 ^ 16"
  shows "\<exists>shares. allocateShopCosts D lc items paid = Inr (map (\<lambda>(k, x). (k, Some x)) shares) \<and>
    mset (map fst shares) = mset (map ci_id items) \<and> (\<Sum>(k, x)\<leftarrow>shares. x) = places D 2 paid \<and>
    (\<forall>(k, x) \<in> set shares. \<exists>i \<in> set items. k = ci_id i \<and> 0 \<le> x \<and>
       \<bar>x - places D 2 paid * item_weight items i / (\<Sum>j\<leftarrow>items. item_weight items j)\<bar> \<le> (1 + 1 / 10 ^ 40) / 100)"
proof -
  let ?W = "\<Sum>i\<leftarrow>items. item_weight items i"
  let ?p = "places D 2 paid"
  have p0: "0 \<le> ?p" using paid(1) by (rule places_nonneg)
  obtain c where c: "?p * 100 = of_int c" using places_grid[of 2 paid] by (auto simp: on_grid_def elim: Ints_cases)
  have c0: "0 \<le> c" using p0 c by (metis mult_nonneg_nonneg of_int_0_le_iff zero_le_numeral)
  have c18: "of_int c \<le> (10 :: rat) ^ 18"
  proof -
    have "on_grid 2 (10 ^ 16 :: rat)" using on_grid_int[of 2 "10 ^ 16"] by simp
    then have "?p \<le> 10 ^ 16" using paid(2) by (intro places_le) auto
    then show ?thesis using c by simp
  qed
  have cents: "dtimes D ?p 100 = of_int c"
    unfolding dtimes_def c by (rule sig_int) (use c0 c18 digits_large[OF big, of "of_int c"] in simp)
  let ?rows = "map (cost_row_of D (of_int c) ?W) (zip (map ci_id items) (map (item_weight items) items))"
  from cost_rows[OF big b c0 c18 refl refl] obtain ks where
      ks: "map cr_cents ?rows = map of_int ks" "\<forall>k \<in> set ks. 0 \<le> k" "sum_list ks \<le> c"
        "c \<le> sum_list ks + int (length ?rows)"
    and ids: "map cr_id ?rows = map ci_id items"
    and near: "\<forall>r \<in> set ?rows. \<exists>i \<in> set items. cr_id r = ci_id i \<and>
      cr_cents r \<le> of_int c * item_weight items i / ?W + 1 / 10 ^ 40 \<and>
      of_int c * item_weight items i / ?W \<le> cr_cents r + 1 + 1 / 10 ^ 40"
    by blast
  have ks18: "of_int (sum_list ks) \<le> (10 :: rat) ^ 18"
    using ks(3) c18 by (meson of_int_le_iff order_trans)
  have "fold (\<lambda>r sum. dplus D sum (cr_cents r)) ?rows 0 = fold (\<lambda>x acc. dplus D acc x) (map cr_cents ?rows) 0"
    by (simp add: fold_map comp_def)
  also have "\<dots> = of_int (sum_list ks)" unfolding ks(1) by (rule sum_dplus_ints[OF big ks(2) ks18])
  finally have folded: "fold (\<lambda>r sum. dplus D sum (cr_cents r)) ?rows 0 = of_int (sum_list ks)" .
  have "0 \<le> sum_list ks" using ks(2) by (simp add: sum_list_nonneg)
  then have "0 \<le> (of_int (c - sum_list ks) :: rat)" "of_int (c - sum_list ks) \<le> (of_int c :: rat)"
    using ks(3) by (simp_all only: of_int_0_le_iff of_int_le_iff)
  then have "\<bar>of_int (c - sum_list ks)\<bar> \<le> (of_int c :: rat)" by (simp only: abs_of_nonneg)
  also note c18
  also have "(10 :: rat) ^ 18 < 10 ^ 60" by simp
  finally have "sig D (of_int (c - sum_list ks)) = of_int (c - sum_list ks)"
    by (intro sig_int digits_large[OF big])
  then have left: "nat \<lceil>dminus D (of_int c) (of_int (sum_list ks))\<rceil> = nat (c - sum_list ks)"
    by (simp add: dminus_def)
  from hand_out[OF big ks c18] obtain rs where
      rs: "add_cents D (nat (c - sum_list ks)) (js_sort (row_cmp lc) ?rows) = Inr rs"
        "mset (map cr_id rs) = mset (map cr_id ?rows)" "sum_list (map cr_cents rs) = of_int c"
    and each: "\<forall>s \<in> set rs. \<exists>r \<in> set ?rows. cr_id s = cr_id r \<and>
        (\<exists>k. cr_cents s = of_int k \<and> 0 \<le> k \<and> k \<le> c + 1) \<and> (cr_cents s = cr_cents r \<or> cr_cents s = cr_cents r + 1)"
    by blast
  have val: "ddiv D (cr_cents s) 100 = cr_cents s / 100" if s: "s \<in> set rs" for s
  proof -
    obtain k where k: "cr_cents s = of_int k" "0 \<le> k" "k \<le> c + 1"
      using bspec[OF each s] by blast
    have "of_int k \<le> (of_int c + 1 :: rat)" using k(3) by (metis of_int_1 of_int_add of_int_le_iff)
    then have "of_int k < (10 :: rat) ^ 60" using c18 by simp
    then have "\<bar>of_int k / 100\<bar> * 10 ^ 2 < (10 :: rat) ^ digits D"
      using k(2) digits_large[OF big, of "of_int k"] by simp
    moreover have "on_grid 2 (of_int k / 100 :: rat)" by (simp add: on_grid_def)
    ultimately show ?thesis unfolding ddiv_def k(1) by (intro sig_exact)
  qed
  define shares where "shares = map (\<lambda>r. (cr_id r, cr_cents r / 100)) rs"
  have "distinct (map cr_id rs)" using rs(2) b ids by (metis basket_def mset_eq_imp_distinct_iff)
  then have js: "js_map (map (\<lambda>r. (cr_id r, Some (ddiv D (cr_cents r) 100))) rs) = map (\<lambda>(k, x). (k, Some x)) shares"
    by (simp add: js_map_values shares_def val cong: map_cong)
  have "allocateShopCosts D lc items paid = Inr (map (\<lambda>(k, x). (k, Some x)) shares)"
  proof -
    have "items \<noteq> []" "?W \<noteq> 0" using b weight_sum[OF b] by (auto simp: basket_def)
    moreover have "assertPersistedMoney paid ''Purchase cost'' = Inr ()" using paid by (simp add: assertPersistedMoney_ok)
    ultimately show ?thesis
      by (simp only: allocateShopCosts_def sum.case Let_def cost_weights_exact[OF b] cents folded left rs(1) js if_False)
  qed
  moreover have "mset (map fst shares) = mset (map ci_id items)"
    using rs(2) unfolding ids by (simp add: shares_def comp_def)
  moreover have "(\<Sum>(k, x)\<leftarrow>shares. x) = ?p"
  proof -
    have "(\<Sum>(k, x)\<leftarrow>shares. x) = sum_list (map cr_cents rs) / 100"
      unfolding shares_def by (induction rs) (simp_all add: add_divide_distrib)
    then show ?thesis using rs(3) c by simp
  qed
  moreover have "\<forall>(k, x) \<in> set shares. \<exists>i \<in> set items. k = ci_id i \<and> 0 \<le> x \<and>
      \<bar>x - ?p * item_weight items i / ?W\<bar> \<le> (1 + 1 / 10 ^ 40) / 100"
  proof (clarify)
    fix k x assume "(k, x) \<in> set shares"
    then obtain s where s: "s \<in> set rs" "k = cr_id s" "x = cr_cents s / 100" by (auto simp: shares_def)
    obtain r where r: "r \<in> set ?rows" "cr_id s = cr_id r" "0 \<le> cr_cents s" "cr_cents s = cr_cents r \<or> cr_cents s = cr_cents r + 1"
      using bspec[OF each s(1)] by (metis of_int_0_le_iff)
    obtain i where i: "i \<in> set items" "cr_id r = ci_id i"
        "cr_cents r \<le> of_int c * item_weight items i / ?W + 1 / 10 ^ 40"
        "of_int c * item_weight items i / ?W \<le> cr_cents r + 1 + 1 / 10 ^ 40"
      using bspec[OF near r(1)] by blast
    have "of_int c * item_weight items i / ?W = 100 * (?p * item_weight items i / ?W)"
      unfolding c[symmetric] by simp
    from cent_bound[OF r(4) i(3,4)[unfolded this]] i(1,2) r(2,3)
    show "\<exists>i \<in> set items. k = ci_id i \<and> 0 \<le> x \<and> \<bar>x - ?p * item_weight items i / ?W\<bar> \<le> (1 + 1 / 10 ^ 40) / 100"
      unfolding s(2,3) by (intro bexI[of _ i] conjI divide_nonneg_pos) simp_all
  qed
  ultimately show ?thesis by blast
qed

end
text \<open>
  C21. Splitting the amount paid never fails and loses no cent: every item gets exactly one share,
  the shares are not negative, each is within a cent (and the 60 digit rounding) of its
  proportional part, and together they are exactly the amount paid.
\<close>

theorem shop_costs_exact:
  assumes "decimal_laws P" and "60 \<le> digits P" and "basket items" and "0 \<le> paid" and "paid < 10 ^ 16"
  shows "\<exists>shares. allocateShopCosts P lc items paid = Inr (map (\<lambda>(k, x). (k, Some x)) shares) \<and>
    mset (map fst shares) = mset (map ci_id items) \<and> (\<Sum>(k, x)\<leftarrow>shares. x) = places P 2 paid \<and>
    (\<forall>(k, x) \<in> set shares. \<exists>i \<in> set items. k = ci_id i \<and> 0 \<le> x \<and>
       \<bar>x - places P 2 paid * item_weight items i / (\<Sum>j\<leftarrow>items. item_weight items j)\<bar> \<le> (1 + 1 / 10 ^ 40) / 100)"
  by (rule decimal_laws.allocation[OF assms])

definition sample_basket :: "cost_item list" where
  "sample_basket = [\<lparr>ci_id = ''a'', ci_quantity = 1, ci_lineTotal = 10\<rparr>,
     \<lparr>ci_id = ''b'', ci_quantity = 2, ci_lineTotal = 10\<rparr>, \<lparr>ci_id = ''c'', ci_quantity = 1, ci_lineTotal = 10\<rparr>]"

lemma shop_costs_exact_witness:
  "\<exists>shares. allocateShopCosts (half_up_lib 60) (\<lambda>a b. if a = b then 0 else 1) sample_basket 20
      = Inr (map (\<lambda>(k, x). (k, Some x)) shares) \<and> (\<Sum>(k, x)\<leftarrow>shares. x) = 20"
proof -
  have grid: "on_grid 4 (10 :: rat)" using on_grid_int[of 4 10] by simp
  have "on_grid 2 (20 :: rat)" using on_grid_int[of 2 20] by simp
  then have "places (half_up_lib 60) 2 20 = 20" by (rule precise.places_exact)
  moreover have "basket sample_basket" using grid by (simp add: basket_def sample_basket_def)
  moreover have "60 \<le> digits (half_up_lib 60)" by (simp add: half_up_lib_def)
  ultimately show ?thesis
    using shop_costs_exact[OF precise.decimal_laws_axioms, of sample_basket 20 "\<lambda>a b. if a = b then 0 else 1"] by auto
qed

end
