(* ===== verification/Packaging.thy ===== *)
theory Packaging
  imports Inventory
begin

text \<open>
  The packaging materials of a store, \<open>src/warehouse/packaging.service.ts\<close>: adding, editing and
  hiding a material, its stock status, and the credit of packaging that a Zomaal shop order
  delivered. The tables extend those of the inventory; \<open>inventory_of\<close> is the unique link from a
  material to its inventory item, and generated ids come from a counter.
\<close>

section \<open>Data\<close>

record material =
  mat_id :: string
  mat_store :: string
  mat_variantKey :: "string option"
  mat_name :: string
  mat_suppliers :: "string list"
  mat_sku :: "string option"
  mat_unit :: string
  mat_minimum :: int
  mat_alert :: bool
  mat_image :: "string option"
  mat_active :: bool

record media_asset =
  as_id :: string
  as_store :: string
  as_object :: string
  as_temporary :: bool
  as_packaging :: bool
  as_expiresAt :: "int option"
  as_material :: "string option"

record requirement_row =
  rq_product :: string
  rq_material :: string
  rq_perUnit :: int

record pack_db = inv_db +
  materials :: "material list"
  inventory_of :: "(string \<times> string) list"
  assets :: "media_asset list"
  requirements :: "requirement_row list"
  next_id :: nat

definition generated :: "'a pack_db_scheme \<Rightarrow> string" where
  "generated s = ''id-'' @ nat_digits (next_id s)"

definition take_id :: "('a pack_db_scheme, string) act" where
  "take_id = bnd (reading generated) (\<lambda>i. andthen (writing (\<lambda>s. s\<lparr>next_id := next_id s + 1\<rparr>)) (ret i))"

definition update_material :: "string \<Rightarrow> (material \<Rightarrow> material) \<Rightarrow> ('a pack_db_scheme, unit) act" where
  "update_material mid f = writing (\<lambda>s. s\<lparr>materials := map (\<lambda>m. if mat_id m = mid then f m else m) (materials s)\<rparr>)"

section \<open>Reading\<close>

datatype stock_state = OUT_OF_STOCK | LOW_STOCK | IN_STOCK

definition packagingStockStatus :: "int \<Rightarrow> int \<Rightarrow> stock_state" where
  "packagingStockStatus available minimumLevel =
     (if available \<le> 0 then OUT_OF_STOCK else if available \<le> minimumLevel then LOW_STOCK else IN_STOCK)"

definition balances_of :: "'a pack_db_scheme \<Rightarrow> material \<Rightarrow> balance list" where
  "balances_of s m = (case map_of (inventory_of s) (mat_id m) of
       None \<Rightarrow> [] | Some item \<Rightarrow> filter (\<lambda>b. bal_item b = item) (balances s))"

record list_item =
  li_id :: string
  li_fromShop :: bool
  li_onHand :: int
  li_available :: int
  li_status :: stock_state
  li_used :: nat

definition toListItem :: "'a pack_db_scheme \<Rightarrow> material \<Rightarrow> list_item" where
  "toListItem s m =
     (let available = (\<Sum>b\<leftarrow>balances_of s m. onHand b - reserved b - damaged b)
      in \<lparr>li_id = mat_id m, li_fromShop = (mat_variantKey m \<noteq> None),
          li_onHand = (\<Sum>b\<leftarrow>balances_of s m. onHand b), li_available = available,
          li_status = packagingStockStatus available (mat_minimum m),
          li_used = length (filter (\<lambda>r. rq_material r = mat_id m) (requirements s))\<rparr>)"

text \<open>\<open>detail\<close>: an active material of the store with its reserved and damaged stock and its products.\<close>

definition requireActive :: "string \<Rightarrow> string \<Rightarrow> ('a pack_db_scheme, material) act" where
  "requireActive store mid =
     bnd (reading (\<lambda>s. find (\<lambda>m. mat_id m = mid \<and> mat_store m = store \<and> mat_active m) (materials s)))
       (\<lambda>m. found m (NotFound ''Packaging not found''))"

definition detail ::
  "string \<Rightarrow> string \<Rightarrow> ('a pack_db_scheme, list_item \<times> int \<times> int \<times> requirement_row list) act" where
  "detail store mid = bnd (requireActive store mid) (\<lambda>m. reading (\<lambda>s.
     (toListItem s m, \<Sum>b\<leftarrow>balances_of s m. reserved b, \<Sum>b\<leftarrow>balances_of s m. damaged b,
      filter (\<lambda>r. rq_material r = mid) (requirements s))))"

text \<open>
  \<open>listOwned\<close> without its name order: the active materials, by source and by stock status. The text
  search is the database's case-insensitive match, here the predicate \<open>hit\<close>.
\<close>

definition listOwned ::
  "string \<Rightarrow> (material \<Rightarrow> bool) \<Rightarrow> bool option \<Rightarrow> stock_state option \<Rightarrow> ('a pack_db_scheme, list_item list) act" where
  "listOwned store hit fromShop status = reading (\<lambda>s.
     filter (\<lambda>i. case status of None \<Rightarrow> True | Some x \<Rightarrow> li_status i = x)
       (map (toListItem s) (filter (\<lambda>m. mat_store m = store \<and> mat_active m \<and> hit m \<and>
          (case fromShop of None \<Rightarrow> True | Some b \<Rightarrow> (mat_variantKey m \<noteq> None) = b)) (materials s))))"

section \<open>Writing\<close>

definition attachImage :: "string \<Rightarrow> string \<Rightarrow> string \<Rightarrow> int \<Rightarrow> ('a pack_db_scheme, unit) act" where
  "attachImage store mid uploadId now =
     bnd (reading (\<lambda>s. find (\<lambda>a. as_id a = uploadId \<and> as_store a = store \<and> as_temporary a \<and> as_packaging a \<and>
         (case as_expiresAt a of None \<Rightarrow> False | Some t \<Rightarrow> t > now)) (assets s))) (\<lambda>found_asset.
     bnd (found found_asset (BadRequest (''Image '' @ uploadId @ '' cannot be attached as PACKAGING''))) (\<lambda>asset.
     andthen (writing (\<lambda>s. s\<lparr>assets := map (\<lambda>a. if as_id a = as_id asset
         then a\<lparr>as_temporary := False, as_expiresAt := None, as_material := Some mid\<rparr> else a) (assets s)\<rparr>))
       (update_material mid (\<lambda>m. m\<lparr>mat_image := Some (as_object asset)\<rparr>))))"

text \<open>
  A balance row that is created with its quantity, and the two writes that stock a material: its
  row at the main location and the movement that explains it.
\<close>

definition create_filled :: "string \<Rightarrow> loc_key \<Rightarrow> int \<Rightarrow> ('a inv_db_scheme, balance) act" where
  "create_filled item l q = (\<lambda>s.
     if (item, l) \<in> set (map row_key (balances s)) then (Inl UniqueViolation, s)
     else (Inr ((empty_balance item l)\<lparr>onHand := q\<rparr>),
       s\<lparr>balances := balances s @ [(empty_balance item l)\<lparr>onHand := q\<rparr>]\<rparr>))"

record create_dto =
  cd_name :: string
  cd_suppliers :: "string list"
  cd_sku :: "string option"
  cd_unit :: "string option"
  cd_opening :: "int option"
  cd_minimum :: "int option"
  cd_alert :: "bool option"
  cd_image :: "string option"

definition non_empty :: "string option \<Rightarrow> string option" where
  "non_empty x = (case x of None \<Rightarrow> None | Some v \<Rightarrow> if v = [] then None else Some v)"

definition or_else :: "'a option \<Rightarrow> 'a \<Rightarrow> 'a" where
  "or_else x d = (case x of None \<Rightarrow> d | Some v \<Rightarrow> v)"

definition new_material :: "string \<Rightarrow> string \<Rightarrow> create_dto \<Rightarrow> material" where
  "new_material store mid dto = \<lparr>mat_id = mid, mat_store = store, mat_variantKey = None,
     mat_name = cd_name dto, mat_suppliers = cd_suppliers dto, mat_sku = non_empty (cd_sku dto),
     mat_unit = or_else (cd_unit dto) ''PIECES'', mat_minimum = or_else (cd_minimum dto) 0,
     mat_alert = or_else (cd_alert dto) True, mat_image = None, mat_active = True\<rparr>"

definition opening_movement :: "string \<Rightarrow> string \<Rightarrow> string \<Rightarrow> int \<Rightarrow> movement" where
  "opening_movement store mid item q = \<lparr>mv_item = item, mv_loc = (store, ''MAIN''), mv_type = OPENING_BALANCE,
     mv_bucket = ON_HAND, mv_delta = q, mv_resulting = q,
     mv_reason = ''Initial stock entered when the packaging was added'', mv_refType = None,
     mv_refId = None, mv_key = Some (''opening:'' @ mid)\<rparr>"

definition add_item :: "string \<Rightarrow> string \<Rightarrow> ('a pack_db_scheme, string) act" where
  "add_item store mid = bnd take_id (\<lambda>item.
     andthen (writing (\<lambda>s. s\<lparr>items := items s @ [(item, store)],
        inventory_of := inventory_of s @ [(mid, item)]\<rparr>)) (ret item))"

definition stock_material :: "string \<Rightarrow> string \<Rightarrow> int \<Rightarrow> ('a pack_db_scheme, string) act" where
  "stock_material store mid q =
     andthen (writing (upsert_main store))
     (bnd (add_item store mid) (\<lambda>item.
      andthen (create_filled item (store, ''MAIN'') q)
      (andthen (if q > 0 then andthen (create_movement (opening_movement store mid item q)) (ret ()) else ret ())
        (ret item))))"

definition create_packaging :: "string \<Rightarrow> create_dto \<Rightarrow> int \<Rightarrow> ('a pack_db_scheme, string) act" where
  "create_packaging store dto now =
     transaction (bnd take_id (\<lambda>mid.
       andthen (writing (\<lambda>s. s\<lparr>materials := materials s @ [new_material store mid dto]\<rparr>))
       (andthen (stock_material store mid (or_else (cd_opening dto) 0))
       (andthen (case cd_image dto of None \<Rightarrow> ret () | Some u \<Rightarrow> attachImage store mid u now)
         (ret mid)))))"

text \<open>An omitted field is \<open>None\<close>; \<open>sku\<close> and \<open>imageUploadId\<close> may be given as null.\<close>

record update_dto =
  ud_name :: "string option"
  ud_suppliers :: "string list option"
  ud_sku :: "string option option"
  ud_unit :: "string option"
  ud_minimum :: "int option"
  ud_alert :: "bool option"
  ud_image :: "string option option"

definition apply_update :: "update_dto \<Rightarrow> material \<Rightarrow> material" where
  "apply_update dto m = m\<lparr>mat_name := or_else (ud_name dto) (mat_name m),
     mat_suppliers := or_else (ud_suppliers dto) (mat_suppliers m),
     mat_sku := (case ud_sku dto of None \<Rightarrow> mat_sku m | Some v \<Rightarrow> non_empty v),
     mat_unit := or_else (ud_unit dto) (mat_unit m), mat_minimum := or_else (ud_minimum dto) (mat_minimum m),
     mat_alert := or_else (ud_alert dto) (mat_alert m)\<rparr>"

definition attached :: "'a pack_db_scheme \<Rightarrow> string \<Rightarrow> media_asset option" where
  "attached s mid = find (\<lambda>a. as_material a = Some mid) (assets s)"

definition detach :: "string \<Rightarrow> ('a pack_db_scheme, unit) act" where
  "detach aid = writing (\<lambda>s. s\<lparr>assets := map (\<lambda>a. if as_id a = aid then a\<lparr>as_material := None\<rparr> else a) (assets s)\<rparr>)"

definition swap_image ::
  "string \<Rightarrow> string \<Rightarrow> update_dto \<Rightarrow> media_asset option \<Rightarrow> int \<Rightarrow> ('a pack_db_scheme, media_asset option) act" where
  "swap_image store mid dto current now = (case ud_image dto of
       None \<Rightarrow> ret None
     | Some up \<Rightarrow>
         let upload = non_empty up
         in if upload \<noteq> None \<and> map_option as_id current = upload then ret None
            else andthen (case current of None \<Rightarrow> ret () | Some a \<Rightarrow> detach (as_id a))
                (andthen (case upload of Some u \<Rightarrow> attachImage store mid u now
                   | None \<Rightarrow> update_material mid (\<lambda>m. m\<lparr>mat_image := None\<rparr>))
                 (ret current)))"

text \<open>\<open>deleteAttachedAsset\<close> of the media service: the row goes, the stored file is outside the model.\<close>

definition deleteAttachedAsset :: "string \<Rightarrow> ('a pack_db_scheme, unit) act" where
  "deleteAttachedAsset aid = writing (\<lambda>s. s\<lparr>assets := filter (\<lambda>a. as_id a \<noteq> aid) (assets s)\<rparr>)"

definition update_packaging :: "string \<Rightarrow> string \<Rightarrow> update_dto \<Rightarrow> int \<Rightarrow> ('a pack_db_scheme, unit) act" where
  "update_packaging store mid dto now =
     bnd (requireActive store mid) (\<lambda>m.
     andthen (require (\<not> (mat_variantKey m \<noteq> None \<and> (ud_name dto \<noteq> None \<or> ud_sku dto \<noteq> None \<or> ud_image dto \<noteq> None)))
        (BadRequest ''Name, SKU and photo of Zomaal Shop packaging come from the shop catalog and cannot be edited''))
     (bnd (transaction (bnd (reading (\<lambda>s. attached s mid)) (\<lambda>current.
         andthen (update_material mid (apply_update dto)) (swap_image store mid dto current now)))) (\<lambda>previous.
      case previous of None \<Rightarrow> ret () | Some a \<Rightarrow> deleteAttachedAsset (as_id a))))"

definition archive_packaging :: "string \<Rightarrow> string \<Rightarrow> ('a pack_db_scheme, unit) act" where
  "archive_packaging store mid =
     andthen (requireActive store mid)
     (bnd (reading (\<lambda>s. remdups (map rq_product (filter (\<lambda>r. rq_material r = mid) (requirements s))))) (\<lambda>products.
      andthen (require (products = []) (Conflict (''This packaging is used by '' @ nat_digits (length products) @
          '' product'' @ (if length products = 1 then [] else ''s'') @ ''. Remove it from '' @
          (if length products = 1 then ''that product'' else ''those products'') @ '' first.'')))
        (update_material mid (\<lambda>m. m\<lparr>mat_active := False\<rparr>))))"

section \<open>Deliveries of the Zomaal shop\<close>

record delivered_item =
  di_variantKey :: string
  di_name :: string
  di_sku :: "string option"
  di_image :: "string option"
  di_quantity :: int
  di_reference :: string

text \<open>The three upserts: the material by store and catalogue key, its item, and its balance row.\<close>

definition upsert_material :: "string \<Rightarrow> delivered_item \<Rightarrow> ('a pack_db_scheme, string) act" where
  "upsert_material store d =
     bnd (reading (\<lambda>s. find (\<lambda>m. mat_store m = store \<and> mat_variantKey m = Some (di_variantKey d)) (materials s)))
     (\<lambda>existing. case existing of
        Some m \<Rightarrow> andthen (update_material (mat_id m) (\<lambda>x. x\<lparr>mat_name := di_name d,
            mat_sku := (case di_sku d of None \<Rightarrow> mat_sku x | Some v \<Rightarrow> Some v),
            mat_image := (case di_image d of None \<Rightarrow> mat_image x | Some v \<Rightarrow> Some v), mat_active := True\<rparr>))
          (ret (mat_id m))
      | None \<Rightarrow> bnd take_id (\<lambda>mid. andthen (writing (\<lambda>s. s\<lparr>materials := materials s @ [\<lparr>mat_id = mid,
            mat_store = store, mat_variantKey = Some (di_variantKey d), mat_name = di_name d,
            mat_suppliers = [], mat_sku = di_sku d, mat_unit = ''PIECES'', mat_minimum = 0, mat_alert = True,
            mat_image = di_image d, mat_active = True\<rparr>]\<rparr>)) (ret mid)))"

definition upsert_item :: "string \<Rightarrow> string \<Rightarrow> ('a pack_db_scheme, string) act" where
  "upsert_item store mid =
     bnd (reading (\<lambda>s. map_of (inventory_of s) mid)) (\<lambda>existing. case existing of
        Some item \<Rightarrow> ret item
      | None \<Rightarrow> add_item store mid)"

definition find_row :: "'a inv_db_scheme \<Rightarrow> string \<times> loc_key \<Rightarrow> balance option" where
  "find_row s r = find (\<lambda>b. row_key b = r) (balances s)"

definition credit_row :: "string \<Rightarrow> loc_key \<Rightarrow> int \<Rightarrow> ('a inv_db_scheme, balance) act" where
  "credit_row item l q =
     bnd (reading (\<lambda>s. find_row s (item, l))) (\<lambda>existing. case existing of
        Some b \<Rightarrow> andthen (writing (update_row b ON_HAND (onHand b + q)))
          (ret (b\<lparr>onHand := onHand b + q, version := version b + 1\<rparr>))
      | None \<Rightarrow> create_filled item l q)"

definition delivery_key :: "delivered_item \<Rightarrow> string" where
  "delivery_key d = ''shop-delivery:'' @ di_reference d"

definition delivery_movement :: "string \<Rightarrow> delivered_item \<Rightarrow> string \<Rightarrow> balance \<Rightarrow> movement" where
  "delivery_movement store d item b = \<lparr>mv_item = item, mv_loc = (store, ''MAIN''), mv_type = PACKAGING_RECEIVED,
     mv_bucket = ON_HAND, mv_delta = di_quantity d, mv_resulting = onHand b,
     mv_reason = ''Packaging received from a delivered Zomaal Shop order'',
     mv_refType = Some ''ZOMAAL_SHOP_DELIVERY'', mv_refId = Some (di_reference d),
     mv_key = Some (delivery_key d)\<rparr>"

definition credit_once :: "string \<Rightarrow> delivered_item \<Rightarrow> string \<Rightarrow> ('a pack_db_scheme, movement) act" where
  "credit_once store d item =
     bnd (reading (\<lambda>s. find_movement s item (delivery_key d))) (\<lambda>prior. case prior of
        Some m \<Rightarrow> ret m
      | None \<Rightarrow> bnd (credit_row item (store, ''MAIN'') (di_quantity d)) (\<lambda>b.
          create_movement (delivery_movement store d item b)))"

definition credit_body :: "string \<Rightarrow> delivered_item \<Rightarrow> ('a pack_db_scheme, movement) act" where
  "credit_body store d =
     andthen (writing (upsert_main store))
     (bnd (upsert_material store d) (\<lambda>mid.
      bnd (upsert_item store mid) (credit_once store d)))"

text \<open>Three attempts; a conflict of the last one is thrown as it is.\<close>

fun retry_credit :: "nat \<Rightarrow> ('a inv_db_scheme, 'r) act \<Rightarrow> ('a inv_db_scheme, 'r) act" where
  "retry_credit 0 m s = (Inl (Internal ''Unable to credit packaging inventory''), s)"
| "retry_credit (Suc k) m s = (case tx_attempt m s of
       (Inl e, t) \<Rightarrow> if e \<noteq> WriteConflict \<or> k = 0 then (Inl e, t) else retry_credit k m t
     | (Inr a, t) \<Rightarrow> (Inr a, t))"

definition creditDeliveredPurchase :: "string \<Rightarrow> delivered_item \<Rightarrow> ('a pack_db_scheme, movement) act" where
  "creditDeliveredPurchase store d =
     andthen (require (1 \<le> di_quantity d) (Internal ''Delivered packaging quantity must be a positive integer''))
       (retry_credit 3 (credit_body store d))"

section \<open>The ledger\<close>

lemma inv_ok_fields:
  "locations t = locations s \<Longrightarrow> balances t = balances s \<Longrightarrow> movements t = movements s \<Longrightarrow> inv_ok t = inv_ok s"
  by (simp add: inv_ok_def)

lemma inv_ok_version: "inv_ok (s\<lparr>balances := map (\<lambda>b. b\<lparr>version := n b\<rparr>) (balances s)\<rparr>) = inv_ok s"
proof -
  have "row_key \<circ> (\<lambda>b. b\<lparr>version := n b\<rparr>) = row_key" "bal_loc \<circ> (\<lambda>b. b\<lparr>version := n b\<rparr>) = bal_loc"
    by auto
  then show ?thesis by (simp add: inv_ok_def image_comp) 
qed

lemma upsert_main_inv: "inv_ok s \<Longrightarrow> inv_ok (upsert_main store s)"
  by (auto simp: inv_ok_def upsert_main_def lock_key_def)

lemma upsert_main_simps [simp]:
  "balances (upsert_main store s) = balances s" "movements (upsert_main store s) = movements s"
  "items (upsert_main store s) = items s" "conflicts (upsert_main store s) = conflicts s"
  "inv_db.more (upsert_main store s) = inv_db.more s"
  "(store, ''MAIN'') \<in> lock_key ` set (locations (upsert_main store s))"
  by (auto simp: upsert_main_def lock_key_def)

lemma upsert_main_known: "(store, ''MAIN'') \<in> lock_key ` set (locations s) \<Longrightarrow> upsert_main store s = s"
  by (simp add: upsert_main_def)

text \<open>A row that is created with its first quantity, documented by one movement (or none for zero).\<close>

lemma filled_inv:
  assumes inv: "inv_ok s" and new: "(item, l) \<notin> set (map row_key (balances s))"
    and loc: "l \<in> lock_key ` set (locations s)" and q: "0 \<le> q"
    and m: "mv_row m = (item, l)" "mv_bucket m = ON_HAND" "mv_delta m = q" "mv_resulting m = q"
    and key: "loud \<longrightarrow> (\<forall>k. mv_key m = Some k \<longrightarrow> find_movement s (mv_item m) k = None)"
    and t: "locations t = locations s" "balances t = balances s @ [(empty_balance item l)\<lparr>onHand := q\<rparr>]"
      "movements t = movements s @ (if loud then [m] else [])" and loud: "\<not> loud \<longrightarrow> q = 0"
  shows "inv_ok t"
proof -
  let ?b = "(empty_balance item l)\<lparr>onHand := q\<rparr>"
  have b: "row_key ?b = (item, l)" "bal_loc ?b = l" "sane ?b" "\<And>k. qty k ?b = (if k = ON_HAND then q else 0)"
    using q by (simp_all add: row_key_def empty_balance_def sane_def) (case_tac k; simp)
  have old: "(item, l) \<notin> mv_row ` set (movements s)" using inv new by (auto simp: inv_ok_def)
  then have zero: "ledger (movements s) (item, l) k = 0" for k by (rule ledger_absent)
  have "distinct (used_keys (movements t))"
    using inv key by (auto simp: t inv_ok_def used_keys_snoc find_movement_keys split: option.split)
  moreover have "distinct (map row_key (balances t))" using inv new b by (simp add: t inv_ok_def)
  moreover have "\<forall>x \<in> set (balances t). sane x" using inv b by (simp add: t inv_ok_def)
  moreover have "\<forall>x \<in> set (balances t). \<forall>k. qty k x = ledger (movements t) (row_key x) k"
  proof (intro ballI allI)
    fix x k assume x: "x \<in> set (balances t)"
    show "qty k x = ledger (movements t) (row_key x) k"
    proof (cases "x = ?b")
      case True
      then show ?thesis using b m loud zero by (simp add: t)
    next
      case False
      with x have "x \<in> set (balances s)" by (simp add: t)
      then have "row_key x \<noteq> (item, l)" "qty k x = ledger (movements s) (row_key x) k"
        using new inv by (metis image_eqI set_map) (use \<open>x \<in> set (balances s)\<close> inv in \<open>simp add: inv_ok_def\<close>)
      then show ?thesis using m by (simp add: t)
    qed
  qed
  moreover have "mv_row ` set (movements t) \<subseteq> row_key ` set (balances t)"
    using inv b m by (auto simp: t inv_ok_def)
  moreover have "audited (movements t)" using inv m zero by (simp add: t inv_ok_def audited_snoc)
  moreover have "bal_loc ` set (balances t) \<subseteq> lock_key ` set (locations t)"
    using inv b loc by (auto simp: t inv_ok_def)
  ultimately show ?thesis using inv by (simp add: inv_ok_def t(1))
qed

lemma find_row_Some: "find_row s r = Some b \<Longrightarrow> b \<in> set (balances s) \<and> row_key b = r"
  unfolding find_row_def by (rule find_Some_set)

lemma find_row_None: "find_row s r = None \<longleftrightarrow> r \<notin> set (map row_key (balances s))"
  by (auto simp: find_row_def find_None_set)

lemma level_find_row: "level s r k = (case find_row s r of None \<Rightarrow> 0 | Some b \<Rightarrow> qty k b)"
  by (simp add: level_def find_row_def)

text \<open>Crediting a row and recording the movement keeps the ledger.\<close>

lemma credit_inv:
  assumes inv: "inv_ok s" and loc: "l \<in> lock_key ` set (locations s)" and q: "0 \<le> q"
    and row: "credit_row item l q s = (Inr b, t)" and m: "create_movement m t = (Inr a, u)"
    and mv: "mv_item m = item" "mv_loc m = l" "mv_bucket m = ON_HAND" "mv_delta m = q" "mv_resulting m = onHand b"
  shows "inv_ok u \<and> movements u = movements s @ [m] \<and> a = m"
proof (cases "find_row s (item, l)")
  case None
  then have new: "(item, l) \<notin> set (map row_key (balances s))" unfolding find_row_None .
  have t: "b = (empty_balance item l)\<lparr>onHand := q\<rparr>" "t = s\<lparr>balances := balances s @ [b]\<rparr>"
    using row None new by (auto simp: credit_row_def run_ok create_filled_def)
  have u: "u = t\<lparr>movements := movements s @ [m]\<rparr>" "a = m"
      "\<forall>k. mv_key m = Some k \<longrightarrow> find_movement s (mv_item m) k = None"
    using m by (simp_all add: create_movement_ok t(2) find_movement_def)
  have "inv_ok u"
    by (rule filled_inv[OF inv new loc q _ mv(3,4), where loud = True])
      (use mv t u in \<open>simp_all add: mv_row_def\<close>)
  then show ?thesis by (simp add: u t)
next
  case (Some b0)
  note b0 = find_row_Some[OF Some]
  have t: "b = b0\<lparr>onHand := onHand b0 + q, version := version b0 + 1\<rparr>"
      "t = update_row b0 (mv_bucket m) (onHand b0 + q) s"
    using row Some mv by (auto simp: credit_row_def run_ok)
  have post: "post b0 (onHand b0 + q) m s = (Inr a, u)"
    using m by (auto simp: post_def run_ok t)
  have "sane b0" using inv b0 by (simp add: inv_ok_def)
  then have "sane (set_qty (mv_bucket m) (onHand b0 + q) b0)" using q by (simp add: sane_def mv)
  moreover have "describes b0 (onHand b0 + q) m" using b0 mv by (simp add: describes_def mv_row_def t)
  ultimately have "inv_ok u" using post_inv[OF inv conjunct1[OF b0] _ _ post] by blast
  then show ?thesis using post by (auto simp: post_ok)
qed

text \<open>The credit's retry loop differs from the inventory service's in the error of its last attempt only.\<close>

lemma retry_credit_service:
  "retry_credit (Suc n) m s = (case retry_service (Suc n) m s of
      (Inl e, t) \<Rightarrow> (fst (retry_credit (Suc n) m s), t) | (Inr a, t) \<Rightarrow> (Inr a, t)) \<and>
   (isl (fst (retry_service (Suc n) m s)) \<longrightarrow> isl (fst (retry_credit (Suc n) m s)))"
proof (induction n arbitrary: s)
  case 0
  show ?case by (auto split: prod.splits sum.splits)
next
  case (Suc n)
  show ?case
  proof (cases "tx_attempt m s")
    case (Pair r t)
    show ?thesis
    proof (cases "r = Inl WriteConflict")
      case True
      then have eqs: "retry_credit (Suc (Suc n)) m s = retry_credit (Suc n) m t"
        "retry_service (Suc (Suc n)) m s = retry_service (Suc n) m t"
        using Pair by simp_all
      show ?thesis unfolding eqs by (rule Suc.IH)
    qed (use Pair in \<open>auto split: sum.splits\<close>)
  qed
qed

lemma retry_credit_ok: "retry_credit (Suc n) m s = (Inr a, t) \<Longrightarrow> \<exists>cs. m (s\<lparr>conflicts := cs\<rparr>) = (Inr a, t)"
  using retry_credit_service[of n m s] by (auto intro!: retry_ok split: prod.splits sum.splits simp del: retry_credit.simps retry_service.simps)

lemma retry_credit_preserves:
  fixes m :: "('a inv_db_scheme, 'b) act"
  assumes "keeps inv_ok m" shows "preserves inv_ok (retry_credit (Suc n) m)"
proof (rule preservesI)
  fix s :: "'a inv_db_scheme" assume "inv_ok s"
  with assms have "inv_ok (snd (retry_service (Suc n) m s))" by (blast intro: preservesD preserves_retry)
  moreover have "snd (retry_credit (Suc n) m s) = snd (retry_service (Suc n) m s)"
  proof (cases "retry_service (Suc n) m s")
    case (Pair r t)
    from retry_credit_service[of n m s]
    have "retry_credit (Suc n) m s = (case r of Inl e \<Rightarrow> (fst (retry_credit (Suc n) m s), t) | Inr a \<Rightarrow> (Inr a, t))"
      unfolding Pair prod.case by blast
    then show ?thesis unfolding Pair by (cases r) (metis snd_conv sum.case)+
  qed
  ultimately show "inv_ok (snd (retry_credit (Suc n) m s))" by simp
qed

lemma retry_credit_quiet: "conflicts s = [] \<Longrightarrow> m s = (Inr a, t) \<Longrightarrow> retry_credit (Suc n) m s = (Inr a, t)"
  by (simp add: tx_attempt_def transaction_def)

section \<open>The upserts of a delivery\<close>

definition linked :: "'a pack_db_scheme \<Rightarrow> string \<Rightarrow> delivered_item \<Rightarrow> string \<Rightarrow> bool" where
  "linked s store d item \<longleftrightarrow> (\<exists>m. find (\<lambda>m. mat_store m = store \<and> mat_variantKey m = Some (di_variantKey d)) (materials s) = Some m
     \<and> map_of (inventory_of s) (mat_id m) = Some item)"

definition same_stock :: "'a pack_db_scheme \<Rightarrow> 'a pack_db_scheme \<Rightarrow> bool" where
  "same_stock s t \<longleftrightarrow> balances t = balances s \<and> movements t = movements s \<and> conflicts t = conflicts s"

lemma upsert_material_ok:
  assumes "upsert_material store d s = (Inr mid, t)"
  shows "same_stock s t" "locations t = locations s" "items t = items s" "inventory_of t = inventory_of s"
    and "\<exists>m. find (\<lambda>m. mat_store m = store \<and> mat_variantKey m = Some (di_variantKey d)) (materials t) = Some m \<and> mat_id m = mid"
proof -
  let ?P = "\<lambda>m. mat_store m = store \<and> mat_variantKey m = Some (di_variantKey d)"
  have "same_stock s t \<and> locations t = locations s \<and> items t = items s \<and> inventory_of t = inventory_of s \<and>
      (\<exists>m. find ?P (materials t) = Some m \<and> mat_id m = mid)"
  proof (cases "find ?P (materials s)")
    case None
    then show ?thesis using assms
      by (auto simp: upsert_material_def run_ok take_id_def same_stock_def find_snoc)
  next
    case (Some m)
    let ?f = "\<lambda>x. x\<lparr>mat_name := di_name d, mat_sku := (case di_sku d of None \<Rightarrow> mat_sku x | Some v \<Rightarrow> Some v),
            mat_image := (case di_image d of None \<Rightarrow> mat_image x | Some v \<Rightarrow> Some v), mat_active := True\<rparr>"
    let ?g = "\<lambda>x. if mat_id x = mat_id m then ?f x else x"
    have t: "t = s\<lparr>materials := map ?g (materials s)\<rparr>" "mid = mat_id m"
      using assms Some by (auto simp: upsert_material_def run_ok update_material_def)
    have "find ?P (map ?g (materials s)) = map_option ?g (find ?P (materials s))"
      by (rule find_map_same) auto
    then show ?thesis using Some by (simp add: t same_stock_def)
  qed
  then show "same_stock s t" "locations t = locations s" "items t = items s" "inventory_of t = inventory_of s"
    and "\<exists>m. find ?P (materials t) = Some m \<and> mat_id m = mid" by blast+
qed

lemma upsert_item_ok:
  assumes "upsert_item store mid s = (Inr item, t)"
  shows "same_stock s t" "locations t = locations s" "materials t = materials s" "map_of (inventory_of t) mid = Some item"
  using assms by (auto simp: upsert_item_def add_item_def run_ok take_id_def same_stock_def map_add_def split: option.splits)

lemma credit_row_frame:
  assumes "credit_row item l q s = (Inr b, t)"
  shows "movements t = movements s" "materials t = materials s" "inventory_of t = inventory_of s"
    "locations t = locations s" "find_movement t i k = find_movement s i k"
  using assms by (auto simp: credit_row_def create_filled_def run_ok update_row_def find_movement_def split: option.splits if_splits)

lemma find_movement_same_stock: "same_stock s t \<Longrightarrow> find_movement t i k = find_movement s i k"
  by (simp add: find_movement_def same_stock_def)

lemma credit_body_ok:
  assumes inv: "inv_ok s" and q: "1 \<le> di_quantity d" and run: "credit_body store d s = (Inr m, t)"
  shows "inv_ok t \<and> (store, ''MAIN'') \<in> lock_key ` set (locations t) \<and>
    (\<exists>item. linked t store d item \<and> find_movement t item (delivery_key d) = Some m) \<and>
    (movements t = movements s \<or> movements t = movements s @ [m] \<and> mv_loc m = (store, ''MAIN'') \<and>
       mv_bucket m = ON_HAND \<and> mv_delta m = di_quantity d \<and> mv_key m = Some (delivery_key d))"
proof -
  let ?s = "upsert_main store s"
  from run obtain mid s1 item s2 where s1: "upsert_material store d ?s = (Inr mid, s1)"
    and s2: "upsert_item store mid s1 = (Inr item, s2)" and r2: "credit_once store d item s2 = (Inr m, t)"
    unfolding credit_body_def by (elim andthenE bndE) (simp add: writing_ok)
  note u1 = upsert_material_ok[OF s1] and u2 = upsert_item_ok[OF s2]
  have same: "balances s2 = balances s" "movements s2 = movements s" "locations s2 = locations ?s"
    using u1(1,2) u2(1,2) by (simp_all add: same_stock_def)
  have inv2: "inv_ok s2"
    using inv_ok_fields[of s2 ?s] same upsert_main_inv[OF inv, of store] by simp
  have loc: "(store, ''MAIN'') \<in> lock_key ` set (locations s2)" by (simp add: same(3))
  have link: "linked s2 store d item" using u1(5) u2(3,4) by (auto simp: linked_def)
  show ?thesis
  proof (cases "find_movement s2 item (delivery_key d)")
    case (Some x)
    then have "m = x" "t = s2" using r2 by (simp_all add: credit_once_def run_ok)
    then show ?thesis using inv2 loc link Some same by auto
  next
    case None
    with r2 obtain b s3 where b: "credit_row item (store, ''MAIN'') (di_quantity d) s2 = (Inr b, s3)"
      and c: "create_movement (delivery_movement store d item b) s3 = (Inr m, t)"
      by (auto simp: credit_once_def reading_ok elim!: bndE)
    let ?m = "delivery_movement store d item b"
    have mv: "mv_item ?m = item" "mv_loc ?m = (store, ''MAIN'')" "mv_bucket ?m = ON_HAND"
      "mv_delta ?m = di_quantity d" "mv_resulting ?m = onHand b" "mv_key ?m = Some (delivery_key d)"
      by (simp_all add: delivery_movement_def)
    have m: "m = ?m" "t = s3\<lparr>movements := movements s3 @ [m]\<rparr>" using c by (auto simp: create_movement_ok)
    have "0 \<le> di_quantity d" using q by simp
    from credit_inv[OF inv2 loc this b c mv(1-5)] have ok: "inv_ok t" "movements t = movements s @ [m]"
      using m(1) same by simp_all
    have "find_movement t item (delivery_key d) = Some m"
      by (rule find_movement_snoc[OF None]) (simp_all add: ok(2) same m(1) mv)
    moreover have "linked t store d item" using link credit_row_frame[OF b] by (simp add: linked_def m(2))
    moreover have "(store, ''MAIN'') \<in> lock_key ` set (locations t)" using loc credit_row_frame[OF b] by (simp add: m(2))
    ultimately show ?thesis using ok m(1) mv by blast
  qed
qed

lemma credit_body_again:
  assumes "(store, ''MAIN'') \<in> lock_key ` set (locations t)" and "linked t store d item"
    and "find_movement t item (delivery_key d) = Some m"
    and "di_variantKey e = di_variantKey d" "di_reference e = di_reference d"
  shows "\<exists>u. credit_body store e t = (Inr m, u) \<and> same_stock t u \<and> locations u = locations t \<and> items u = items t"
proof -
  from assms(2) obtain x where x: "find (\<lambda>m. mat_store m = store \<and> mat_variantKey m = Some (di_variantKey e)) (materials t) = Some x"
    "map_of (inventory_of t) (mat_id x) = Some item" using assms(4) by (auto simp: linked_def)
  then obtain s1 where s1: "upsert_material store e t = (Inr (mat_id x), s1)"
    by (simp add: upsert_material_def act_defs update_material_def)
  note u = upsert_material_ok[OF s1]
  have "upsert_item store (mat_id x) s1 = (Inr item, s1)" using x(2) u(4) by (simp add: upsert_item_def act_defs)
  moreover have "find_movement s1 item (delivery_key e) = Some m"
    using assms(3,5) find_movement_same_stock[OF u(1)] by (simp add: delivery_key_def)
  ultimately have "credit_body store e t = (Inr m, s1)"
    using s1 upsert_main_known[OF assms(1)] by (simp add: credit_body_def credit_once_def act_defs)
  then show ?thesis using u by blast
qed

lemma keeps_credit_body: "1 \<le> di_quantity d \<Longrightarrow> keeps inv_ok (credit_body store d)"
  using credit_body_ok by (blast intro: keepsI)

lemma delivered_credit:
  assumes inv: "inv_ok s" and run: "creditDeliveredPurchase store d s = (Inr m, t)"
  shows "inv_ok t \<and> (store, ''MAIN'') \<in> lock_key ` set (locations t) \<and>
    (\<exists>item. linked t store d item \<and> find_movement t item (delivery_key d) = Some m) \<and>
    (movements t = movements s \<or> movements t = movements s @ [m] \<and> mv_loc m = (store, ''MAIN'') \<and>
       mv_bucket m = ON_HAND \<and> mv_delta m = di_quantity d \<and> mv_key m = Some (delivery_key d))"
proof -
  from run have q: "1 \<le> di_quantity d" and r: "retry_credit 3 (credit_body store d) s = (Inr m, t)"
    by (simp_all add: creditDeliveredPurchase_def andthen_ok require_ok)
  have three: "(3 :: nat) = Suc 2" by simp
  from retry_credit_ok[OF r[unfolded three]] obtain cs where
    "credit_body store d (s\<lparr>conflicts := cs\<rparr>) = (Inr m, t)" by blast
  from credit_body_ok[OF _ q this] inv show ?thesis by simp
qed

section \<open>Adding a material\<close>

lemma attachImage_frame:
  assumes "attachImage store mid up now s = (Inr u, t)"
  shows "balances t = balances s" "movements t = movements s" "locations t = locations s"
  using assms by (auto simp: attachImage_def update_material_def run_ok)

lemma keeps_frame:
  assumes "\<And>s a t. m s = (Inr a, t) \<Longrightarrow> balances t = balances s \<and> movements t = movements s \<and> locations t = locations s"
  shows "keeps inv_ok m"
  by (rule keepsI) (metis assms inv_ok_fields)

lemma keeps_inv_update: "keeps inv_ok (update_packaging store mid dto now)"
proof -
  have attach: "keeps inv_ok (attachImage store mid up now)" for up
    by (rule keeps_frame) (simp add: attachImage_frame)
  have writes: "keeps inv_ok (update_material mid f)" "keeps inv_ok (detach a)" "keeps inv_ok (deleteAttachedAsset a)" for f a
    by (rule keeps_frame, simp add: update_material_def detach_def deleteAttachedAsset_def writing_ok)+
  have swap: "keeps inv_ok (swap_image store mid dto current now)" for current
    unfolding swap_image_def by (intro keeping attach writes)
  have act: "keeps inv_ok (requireActive store mid)" unfolding requireActive_def by (intro keeping)
  show ?thesis unfolding update_packaging_def
    by (intro keeping act writes keeps_preserves[OF preserves_transaction_keeps] swap)
qed

lemma keeps_inv_archive: "keeps inv_ok (archive_packaging store mid)"
proof -
  have "keeps inv_ok (update_material mid f)" for f
    by (rule keeps_frame) (simp add: update_material_def writing_ok)
  moreover have "keeps inv_ok (requireActive store mid)" unfolding requireActive_def by (intro keeping)
  ultimately show ?thesis unfolding archive_packaging_def by (intro keeping)
qed

text \<open>A new material starts with its opening stock and the movement that explains it.\<close>

lemma stock_material_effect:
  assumes inv: "inv_ok s" and q: "0 \<le> q" and run: "stock_material store mid q s = (Inr item, t)"
  shows "inv_ok t \<and> (mid, item) \<in> set (inventory_of t) \<and> (item, store) \<in> set (items t) \<and>
    level t (item, store, ''MAIN'') ON_HAND = q"
proof -
  let ?l = "(store, ''MAIN'')" and ?m = "opening_movement store mid item q"
  from run obtain s1 b s2 x where s1: "add_item store mid (upsert_main store s) = (Inr item, s1)"
    and s2: "create_filled item ?l q s1 = (Inr b, s2)"
    and s3: "(if q > 0 then andthen (create_movement ?m) (ret ()) else ret ()) s2 = (Inr x, t)"
    unfolding stock_material_def by (elim andthenE bndE) (auto simp only: writing_ok ret_ok)
  have frame: "balances s1 = balances s" "movements s1 = movements s" "locations s1 = locations (upsert_main store s)"
    "(mid, item) \<in> set (inventory_of s1)" "(item, store) \<in> set (items s1)"
    using s1 by (auto simp: add_item_def take_id_def run_ok)
  have inv1: "inv_ok s1" using inv_ok_fields[of s1 "upsert_main store s"] upsert_main_inv[OF inv] frame by simp
  have loc: "?l \<in> lock_key ` set (locations s1)" by (simp add: frame)
  have new: "(item, ?l) \<notin> set (map row_key (balances s1))"
    and t2: "s2 = s1\<lparr>balances := balances s1 @ [(empty_balance item ?l)\<lparr>onHand := q\<rparr>]\<rparr>"
    using s2 by (auto simp: create_filled_def split: if_splits)
  have m: "mv_row ?m = (item, ?l)" "mv_bucket ?m = ON_HAND" "mv_delta ?m = q" "mv_resulting ?m = q"
    "mv_item ?m = item" by (simp_all add: opening_movement_def mv_row_def)
  have t: "locations t = locations s1" "balances t = balances s1 @ [(empty_balance item ?l)\<lparr>onHand := q\<rparr>]"
      "movements t = movements s1 @ (if 0 < q then [?m] else [])" "inventory_of t = inventory_of s1" "items t = items s1"
    using s3 by (auto simp: t2 run_ok create_movement_ok split: if_splits)
  have key: "0 < q \<longrightarrow> (\<forall>k. mv_key ?m = Some k \<longrightarrow> find_movement s1 (mv_item ?m) k = None)"
    using s3 by (auto simp: t2 run_ok create_movement_ok find_movement_def)
  have "inv_ok t" by (rule filled_inv[OF inv1 new loc q m(1-4) key t(1-3)]) (use q in simp)
  moreover have "level t (item, ?l) ON_HAND = q"
  proof -
    have "find (\<lambda>b. row_key b = (item, ?l)) (balances s1) = None"
      using new unfolding find_row_None[symmetric] find_row_def .
    then show ?thesis by (simp add: level_def t(2) find_snoc row_key_def empty_balance_def)
  qed
  ultimately show ?thesis using frame t by simp
qed

lemma create_packaging_effect:
  assumes inv: "inv_ok s" and nonneg: "0 \<le> or_else (cd_opening dto) 0"
    and run: "create_packaging store dto now s = (Inr mid, t)"
  shows "inv_ok t \<and> (\<exists>item. (mid, item) \<in> set (inventory_of t) \<and> (item, store) \<in> set (items t) \<and>
    level t (item, store, ''MAIN'') ON_HAND = or_else (cd_opening dto) 0)"
proof -
  let ?q = "or_else (cd_opening dto) 0"
  define s1 where "s1 = s\<lparr>next_id := next_id s + 1, materials := materials s @ [new_material store mid dto]\<rparr>"
  have s1: "balances s1 = balances s" "movements s1 = movements s" "locations s1 = locations s"
    by (simp_all add: s1_def)
  from run obtain item s2 x where s2: "stock_material store mid ?q s1 = (Inr item, s2)"
    and s3: "(case cd_image dto of None \<Rightarrow> ret () | Some u \<Rightarrow> attachImage store mid u now) s2 = (Inr x, t)"
    unfolding create_packaging_def transaction_ok s1_def
    by (elim andthenE bndE) (auto simp: writing_ok ret_ok take_id_def run_ok)
  have inv1: "inv_ok s1" using inv_ok_fields[of s1 s] s1 inv by simp
  have frame: "balances t = balances s2" "movements t = movements s2" "locations t = locations s2"
    "items t = items s2" "inventory_of t = inventory_of s2"
    using s3 by (cases "cd_image dto"; auto simp: attachImage_def update_material_def run_ok)+
  from stock_material_effect[OF inv1 nonneg s2] show ?thesis
    using inv_ok_fields[of t s2] frame by (auto simp: level_def)
qed

section \<open>Properties of the packaging service\<close>

definition sample_pack :: pack_db where
  "sample_pack = \<lparr>locations = [], balances = [], movements = [], items = [], conflicts = [True],
     materials = [], inventory_of = [], assets = [], requirements = [], next_id = 0\<rparr>"

definition sample_delivery :: delivered_item where
  "sample_delivery = \<lparr>di_variantKey = ''box-m'', di_name = ''Box M'', di_sku = None, di_image = None,
     di_quantity = 40, di_reference = ''line-1''\<rparr>"

lemma sample_pack_inv: "inv_ok sample_pack"
  by (simp add: inv_ok_def sample_pack_def used_keys_def audited_def)



text \<open>
  The packaging service keeps the inventory ledger: adding, editing and hiding materials and
  crediting deliveries leave every balance equal to the sum of its movements, and a new material
  starts with exactly its opening stock.
\<close>

theorem packaging_keeps_ledger:
  assumes "inv_ok s" and "0 \<le> or_else (cd_opening dto) 0"
  shows "inv_ok (snd (create_packaging store dto now s)) \<and>
    (\<forall>mid t. create_packaging store dto now s = (Inr mid, t) \<longrightarrow>
       (\<exists>item. (mid, item) \<in> set (inventory_of t) \<and> level t (item, store, ''MAIN'') ON_HAND = or_else (cd_opening dto) 0)) \<and>
    (\<forall>t. update_packaging store mid up now s = (Inr u, t) \<longrightarrow> inv_ok t) \<and>
    (\<forall>t. archive_packaging store mid s = (Inr u, t) \<longrightarrow> inv_ok t) \<and>
    inv_ok (snd (creditDeliveredPurchase store d s))"
proof (intro conjI allI impI)
  show "inv_ok (snd (create_packaging store dto now s))"
  proof (cases "create_packaging store dto now s")
    case (Pair r t)
    show ?thesis
    proof (cases r)
      case (Inl e)
      then have "t = s" using Pair unfolding create_packaging_def by (auto dest: transaction_error)
      then show ?thesis using assms(1) Pair by simp
    next
      case (Inr mid')
      with create_packaging_effect[OF assms] Pair show ?thesis by auto
    qed
  qed
  show "inv_ok (snd (creditDeliveredPurchase store d s))"
  proof (cases "1 \<le> di_quantity d")
    case True
    have three: "(3 :: nat) = Suc 2" by simp
    from preservesD[OF retry_credit_preserves[OF keeps_credit_body[OF True]] assms(1), of 2 store] True
    show ?thesis unfolding creditDeliveredPurchase_def three
      by (simp add: andthen_def bnd_def require_def ret_def del: retry_credit.simps)
  next
    case False
    then show ?thesis using assms(1) by (simp add: creditDeliveredPurchase_def act_defs)
  qed
  show "\<exists>item. (mid', item) \<in> set (inventory_of t) \<and> level t (item, store, ''MAIN'') ON_HAND = or_else (cd_opening dto) 0"
    if "create_packaging store dto now s = (Inr mid', t)" for mid' t
    using create_packaging_effect[OF assms that] by blast
  show "inv_ok t" if "update_packaging store mid up now s = (Inr u, t)" for t
    using keepsD[OF keeps_inv_update assms(1) that] .
  show "inv_ok t" if "archive_packaging store mid s = (Inr u, t)" for t
    using keepsD[OF keeps_inv_archive assms(1) that] .
qed

lemma packaging_keeps_ledger_witness:
  "inv_ok (snd (create_packaging ''shop'' \<lparr>cd_name = ''Tape'', cd_suppliers = [], cd_sku = None, cd_unit = None,
     cd_opening = Some 12, cd_minimum = None, cd_alert = None, cd_image = None\<rparr> 0 sample_pack))"
  using packaging_keeps_ledger[OF sample_pack_inv, of "\<lparr>cd_name = ''Tape'', cd_suppliers = [], cd_sku = None, cd_unit = None,
     cd_opening = Some 12, cd_minimum = None, cd_alert = None, cd_image = None\<rparr>" "''shop''" 0]
  by (simp add: or_else_def)

end
