(* ===== verification/Shop_Cart.thy ===== *)
theory Shop_Cart
  imports Shop_Pricing Packaging
begin

text \<open>
  The Zomaal shop up to the order: catalogue, settings (\<open>src/zomaal-shop/shop-settings.service.ts\<close>),
  delivery addresses (\<open>address.service.ts\<close>), the cart (\<open>cart.service.ts\<close>) and the checkout
  (\<open>checkout.service.ts\<close>). The tables extend those of the packaging materials, which a delivered
  order fills. The advisory and row locks of \<open>shop-lock.util.ts\<close> serialise the transactions of a
  store and of a product, so a transaction is one atomic step of the model.
\<close>

section \<open>Tables\<close>

record shop_product =
  sp_id :: string
  sp_name :: string
  sp_sku :: "string option"
  sp_price :: rat
  sp_compareAt :: "rat option"
  sp_stock :: int
  sp_active :: bool
  sp_categoryActive :: bool
  sp_unitLabel :: string
  sp_image :: "string option"
  sp_imageObject :: "string option"

record shop_variant =
  sv_id :: string
  sv_product :: string
  sv_size :: "string option"
  sv_color :: "string option"
  sv_sku :: "string option"
  sv_price :: "rat option"
  sv_compareAt :: "rat option"
  sv_stock :: int
  sv_active :: bool

record cart_item =
  ca_id :: string
  ca_store :: string
  ca_product :: string
  ca_variant :: "string option"
  ca_quantity :: int

record promo_code = promo_input +
  pc_id :: string

record shop_settings = settings_input +
  se_currency :: string
  se_codEnabled :: bool
  se_codLimit :: int
  se_codWindowDays :: int

record shop_address =
  ad_id :: string
  ad_store :: string
  ad_label :: string
  ad_fullName :: string
  ad_phone :: string
  ad_country :: string
  ad_city :: string
  ad_district :: "string option"
  ad_address :: string
  ad_default :: bool
  ad_updatedAt :: int

record shop_store =
  st_id :: string
  st_active :: bool
  st_baseCurrency :: string

datatype shop_status = SO_PENDING | SO_CONFIRMED | SO_SHIPPED | SO_DELIVERED | SO_CANCELLED

datatype pay_method = COD | ONLINE

datatype cancelled_by = BY_MERCHANT | BY_ADMIN

record order_item =
  oi_id :: string
  oi_product :: "string option"
  oi_variant :: "string option"
  oi_name :: string
  oi_variantLabel :: "string option"
  oi_unitLabel :: string
  oi_image :: "string option"
  oi_unitPrice :: rat
  oi_quantity :: int
  oi_lineTotal :: rat

record shop_order =
  so_id :: string
  so_number :: int
  so_store :: string
  so_placedBy :: string
  so_status :: shop_status
  so_method :: pay_method
  so_paid :: bool
  so_currency :: string
  so_subtotal :: rat
  so_discount :: rat
  so_deliveryFee :: rat
  so_total :: rat
  so_promoId :: "string option"
  so_promoCode :: "string option"
  so_ship :: shop_address
  so_note :: "string option"
  so_tracking :: "string option"
  so_createdAt :: int
  so_confirmedAt :: "int option"
  so_shippedAt :: "int option"
  so_deliveredAt :: "int option"
  so_cancelledAt :: "int option"
  so_cancelledBy :: "cancelled_by option"
  so_cancelReason :: "string option"
  so_items :: "order_item list"

record shop_purchase =
  pu_store :: string
  pu_item :: string
  pu_product :: "string option"
  pu_name :: string
  pu_unitLabel :: string
  pu_image :: "string option"
  pu_quantity :: int
  pu_unitPrice :: rat
  pu_total :: rat
  pu_currency :: string
  pu_date :: int
  pu_notes :: string
  pu_createdBy :: string
  pu_expense :: string

record shop_expense =
  xp_id :: string
  xp_store :: string
  xp_category :: string
  xp_title :: string
  xp_amount :: rat
  xp_bank :: bool
  xp_spentAt :: int
  xp_notes :: string
  xp_createdBy :: string

record expense_category =
  ec_id :: string
  ec_store :: string
  ec_purchases :: bool
  ec_system :: bool

record shop_db = pack_db +
  products :: "shop_product list"
  variants :: "shop_variant list"
  cart :: "cart_item list"
  promos :: "promo_code list"
  settings_row :: "shop_settings option"
  stores :: "shop_store list"
  addresses :: "shop_address list"
  shop_orders :: "shop_order list"
  shop_purchases :: "shop_purchase list"
  shop_expenses :: "shop_expense list"
  categories :: "expense_category list"
  next_number :: int

section \<open>src/zomaal-shop/shop-settings.service.ts\<close>

definition default_settings :: shop_settings where
  "default_settings = \<lparr>deliveryFee = 0, freeDeliveryMinSubtotal = None, se_currency = ''MAD'',
     se_codEnabled = True, se_codLimit = 3, se_codWindowDays = 90\<rparr>"

definition get_settings :: "('a shop_db_scheme, shop_settings) act" where
  "get_settings = bnd (reading settings_row) (\<lambda>row. case row of
       Some s \<Rightarrow> ret s
     | None \<Rightarrow> andthen (writing (\<lambda>db. db\<lparr>settings_row := Some default_settings\<rparr>)) (ret default_settings))"

record settings_update =
  su_currency :: "string option"
  su_deliveryFee :: "rat option"
  su_freeMin :: "rat option option"
  su_codEnabled :: "bool option"
  su_codLimit :: "int option"
  su_codWindowDays :: "int option"

definition update_settings :: "settings_update \<Rightarrow> ('a shop_db_scheme, shop_settings) act" where
  "update_settings u = bnd get_settings (\<lambda>s.
     let t = s\<lparr>se_currency := (case su_currency u of None \<Rightarrow> se_currency s | Some c \<Rightarrow> js_upper (js_trim c)),
           deliveryFee := or_else (su_deliveryFee u) (deliveryFee s),
           freeDeliveryMinSubtotal := or_else (su_freeMin u) (freeDeliveryMinSubtotal s),
           se_codEnabled := or_else (su_codEnabled u) (se_codEnabled s),
           se_codLimit := or_else (su_codLimit u) (se_codLimit s),
           se_codWindowDays := or_else (su_codWindowDays u) (se_codWindowDays s)\<rparr>
     in andthen (writing (\<lambda>db. db\<lparr>settings_row := Some t\<rparr>)) (ret t))"

section \<open>src/zomaal-shop/address.service.ts\<close>

text \<open>The order of the address queries: default first, then the latest update, then the id.\<close>

definition str_le :: "string \<Rightarrow> string \<Rightarrow> bool" where
  "str_le a b \<longleftrightarrow> a = b \<or> (a, b) \<in> lexord {(c, d). (of_char c :: nat) < of_char d}"

definition address_before :: "shop_address \<Rightarrow> shop_address \<Rightarrow> bool" where
  "address_before a b \<longleftrightarrow> (if ad_default a \<noteq> ad_default b then ad_default a
     else ad_updatedAt b < ad_updatedAt a)"

definition next_before :: "shop_address \<Rightarrow> shop_address \<Rightarrow> bool" where
  "next_before a b \<longleftrightarrow> address_before a b \<or>
     \<not> address_before b a \<and> ad_id a \<noteq> ad_id b \<and> str_le (ad_id a) (ad_id b)"

definition best :: "('a \<Rightarrow> 'a \<Rightarrow> bool) \<Rightarrow> 'a list \<Rightarrow> 'a option" where
  "best before xs = (case xs of [] \<Rightarrow> None
     | y # ys \<Rightarrow> Some (fold (\<lambda>x acc. if before x acc then x else acc) ys y))"

definition require_address :: "string \<Rightarrow> string \<Rightarrow> ('a shop_db_scheme, shop_address) act" where
  "require_address store aid =
     bnd (reading (\<lambda>s. find (\<lambda>a. ad_id a = aid \<and> ad_store a = store) (addresses s)))
       (\<lambda>a. found a (NotFound ''Address not found''))"

definition addresses_of :: "'a shop_db_scheme \<Rightarrow> string \<Rightarrow> shop_address list" where
  "addresses_of s store = filter (\<lambda>a. ad_store a = store) (addresses s)"

definition defaultFor :: "string \<Rightarrow> ('a shop_db_scheme, shop_address option) act" where
  "defaultFor store = reading (\<lambda>s. best address_before (addresses_of s store))"

text \<open>
  \<open>updateMany\<close> of the other addresses of the store and \<open>update\<close> of one; both touch \<open>updatedAt\<close> of the
  rows they write.
\<close>

definition unmark_others :: "string \<Rightarrow> string \<Rightarrow> int \<Rightarrow> ('a shop_db_scheme, unit) act" where
  "unmark_others store aid now = writing (\<lambda>s. s\<lparr>addresses := map (\<lambda>a.
     if ad_store a = store \<and> ad_id a \<noteq> aid then a\<lparr>ad_default := False, ad_updatedAt := now\<rparr> else a) (addresses s)\<rparr>)"

definition update_address :: "string \<Rightarrow> (shop_address \<Rightarrow> shop_address) \<Rightarrow> int \<Rightarrow> ('a shop_db_scheme, unit) act" where
  "update_address aid f now = writing (\<lambda>s. s\<lparr>addresses := map (\<lambda>a.
     if ad_id a = aid then (f a)\<lparr>ad_updatedAt := now\<rparr> else a) (addresses s)\<rparr>)"

definition normalizeDefault :: "string \<Rightarrow> string option \<Rightarrow> int \<Rightarrow> ('a shop_db_scheme, unit) act" where
  "normalizeDefault store preferred now =
     bnd (case preferred of Some p \<Rightarrow> ret (Some p)
        | None \<Rightarrow> reading (\<lambda>s. map_option ad_id (best next_before (addresses_of s store))))
     (\<lambda>next. case next of None \<Rightarrow> ret ()
        | Some aid \<Rightarrow> andthen (unmark_others store aid now)
            (update_address aid (\<lambda>a. a\<lparr>ad_default := True\<rparr>) now))"

record address_input =
  ai_label :: string
  ai_fullName :: string
  ai_phone :: string
  ai_country :: string
  ai_city :: string
  ai_district :: "string option"
  ai_address :: string
  ai_default :: bool

definition create_address :: "string \<Rightarrow> address_input \<Rightarrow> int \<Rightarrow> ('a shop_db_scheme, string) act" where
  "create_address store i now = transaction (
     bnd (reading (\<lambda>s. addresses_of s store)) (\<lambda>existing.
     let makeDefault = (existing = [] \<or> ai_default i)
     in bnd take_id (\<lambda>aid.
        andthen (writing (\<lambda>s. s\<lparr>addresses := addresses s @ [\<lparr>ad_id = aid, ad_store = store,
           ad_label = js_trim (ai_label i), ad_fullName = js_trim (ai_fullName i),
           ad_phone = js_trim (ai_phone i), ad_country = js_trim (ai_country i),
           ad_city = js_trim (ai_city i), ad_district = or_null (ai_district i),
           ad_address = js_trim (ai_address i), ad_default = makeDefault, ad_updatedAt = now\<rparr>]\<rparr>))
        (andthen (normalizeDefault store (if makeDefault then Some aid else None) now) (ret aid)))))"

text \<open>The partial input of an update: omitted fields are \<open>None\<close>.\<close>

record address_patch =
  ap_label :: "string option"
  ap_fullName :: "string option"
  ap_phone :: "string option"
  ap_country :: "string option"
  ap_city :: "string option"
  ap_district :: "string option option"
  ap_address :: "string option"
  ap_default :: bool

definition trimmed :: "string option \<Rightarrow> string \<Rightarrow> string" where
  "trimmed x old = (case x of None \<Rightarrow> old | Some v \<Rightarrow> js_trim v)"

definition clean :: "address_patch \<Rightarrow> shop_address \<Rightarrow> shop_address" where
  "clean p a = a\<lparr>ad_label := trimmed (ap_label p) (ad_label a), ad_fullName := trimmed (ap_fullName p) (ad_fullName a),
     ad_phone := trimmed (ap_phone p) (ad_phone a), ad_country := trimmed (ap_country p) (ad_country a),
     ad_city := trimmed (ap_city p) (ad_city a), ad_address := trimmed (ap_address p) (ad_address a),
     ad_district := (case ap_district p of None \<Rightarrow> ad_district a | Some d \<Rightarrow> or_null d)\<rparr>"

definition patch_address :: "string \<Rightarrow> string \<Rightarrow> address_patch \<Rightarrow> int \<Rightarrow> ('a shop_db_scheme, unit) act" where
  "patch_address store aid p now = transaction (
     andthen (require_address store aid)
     (andthen (if ap_default p then unmark_others store aid now else ret ())
     (andthen (update_address aid (\<lambda>a. let b = clean p a in if ap_default p then b\<lparr>ad_default := True\<rparr> else b) now)
        (normalizeDefault store (if ap_default p then Some aid else None) now))))"

definition remove_address :: "string \<Rightarrow> string \<Rightarrow> int \<Rightarrow> ('a shop_db_scheme, unit) act" where
  "remove_address store aid now = transaction (
     andthen (require_address store aid)
     (andthen (writing (\<lambda>s. s\<lparr>addresses := filter (\<lambda>a. ad_id a \<noteq> aid) (addresses s)\<rparr>))
        (normalizeDefault store None now)))"

section \<open>src/zomaal-shop/cart.service.ts\<close>

definition MAX_LINE_QUANTITY :: int where
  "MAX_LINE_QUANTITY = 10000"

text \<open>A cart item with its product, its variant and the product's active variants.\<close>

record cart_row =
  cw_item :: cart_item
  cw_product :: shop_product
  cw_variant :: "shop_variant option"
  cw_options :: "string list"

definition find_product :: "'a shop_db_scheme \<Rightarrow> string \<Rightarrow> shop_product option" where
  "find_product s i = find (\<lambda>p. sp_id p = i) (products s)"

definition find_variant :: "'a shop_db_scheme \<Rightarrow> string \<Rightarrow> shop_variant option" where
  "find_variant s i = find (\<lambda>v. sv_id v = i) (variants s)"

definition active_variants :: "'a shop_db_scheme \<Rightarrow> string \<Rightarrow> shop_variant list" where
  "active_variants s i = filter (\<lambda>v. sv_product v = i \<and> sv_active v) (variants s)"

definition join_row :: "'a shop_db_scheme \<Rightarrow> cart_item \<Rightarrow> cart_row option" where
  "join_row s c = (case find_product s (ca_product c) of None \<Rightarrow> None
     | Some p \<Rightarrow> Some \<lparr>cw_item = c, cw_product = p,
         cw_variant = (case ca_variant c of None \<Rightarrow> None | Some v \<Rightarrow> find_variant s v),
         cw_options = map sv_id (active_variants s (ca_product c))\<rparr>)"

definition cart_rows :: "string \<Rightarrow> 'a shop_db_scheme \<Rightarrow> cart_row list" where
  "cart_rows store s = List.map_filter (join_row s) (filter (\<lambda>c. ca_store c = store) (cart s))"

datatype line_problem = UNAVAILABLE | VARIANT_REQUIRED | OUT_OF_STOCK_LINE | INSUFFICIENT_STOCK

record evaluated_line =
  ev_row :: cart_row
  ev_unitPrice :: rat
  ev_compareAt :: "rat option"
  ev_stock :: int
  ev_problem :: "line_problem option"

definition row_stock :: "cart_row \<Rightarrow> int" where
  "row_stock r = (case cw_variant r of Some v \<Rightarrow> sv_stock v | None \<Rightarrow> sp_stock (cw_product r))"

definition row_price :: "cart_row \<Rightarrow> rat \<times> rat option" where
  "row_price r = effectivePrice (sp_price (cw_product r), sp_compareAt (cw_product r))
     (map_option (\<lambda>v. (sv_price v, sv_compareAt v)) (cw_variant r))"

definition line_problem_of :: "cart_row \<Rightarrow> line_problem option" where
  "line_problem_of r =
     (let p = cw_product r; stock = row_stock r
      in if \<not> sp_active p \<or> \<not> sp_categoryActive p then Some UNAVAILABLE
         else if (case cw_variant r of Some v \<Rightarrow> \<not> sv_active v | None \<Rightarrow> False) then Some UNAVAILABLE
         else if cw_variant r = None \<and> cw_options r \<noteq> [] then Some VARIANT_REQUIRED
         else if stock \<le> 0 then Some OUT_OF_STOCK_LINE
         else if ca_quantity (cw_item r) > stock then Some INSUFFICIENT_STOCK
         else None)"

definition evaluate :: "cart_row list \<Rightarrow> evaluated_line list" where
  "evaluate rows = map (\<lambda>r. \<lparr>ev_row = r, ev_unitPrice = fst (row_price r), ev_compareAt = snd (row_price r),
     ev_stock = row_stock r, ev_problem = line_problem_of r\<rparr>) rows"

definition line_quantity :: "evaluated_line \<Rightarrow> int" where
  "line_quantity l = ca_quantity (cw_item (ev_row l))"

definition priced :: "evaluated_line list \<Rightarrow> priced_line list" where
  "priced ls = map (\<lambda>l. \<lparr>pl_unitPrice = ev_unitPrice l, pl_quantity = line_quantity l\<rparr>)
     (filter (\<lambda>l. ev_problem l = None) ls)"

record line_view =
  lv_id :: string
  lv_product :: string
  lv_variant :: "(string \<times> string option) option"
  lv_unitPrice :: "string option"
  lv_compareAt :: "string option"
  lv_quantity :: int
  lv_lineTotal :: string
  lv_compareAtTotal :: "string option"
  lv_stock :: int
  lv_problem :: "line_problem option"

definition lineResponse :: "decimal_lib \<Rightarrow> evaluated_line \<Rightarrow> line_view" where
  "lineResponse D l =
     (let row = ev_row l
      in \<lparr>lv_id = ca_id (cw_item row), lv_product = sp_id (cw_product row),
          lv_variant = map_option (\<lambda>v. (sv_id v, variantLabel (Some (sv_size v, sv_color v)))) (cw_variant row),
          lv_unitPrice = money D (Some (ev_unitPrice l)), lv_compareAt = money D (ev_compareAt l),
          lv_quantity = line_quantity l,
          lv_lineTotal = toFixed2 D (dtimes D (ev_unitPrice l) (of_int (line_quantity l))),
          lv_compareAtTotal = map_option (\<lambda>c. toFixed2 D (dtimes D c (of_int (line_quantity l)))) (ev_compareAt l),
          lv_stock = ev_stock l, lv_problem = ev_problem l\<rparr>)"

record cart_view =
  cv_currency :: string
  cv_items :: "line_view list"
  cv_itemCount :: int
  cv_subtotal :: string
  cv_deliveryFee :: string
  cv_total :: string
  cv_hasProblems :: bool
  cv_canCheckout :: bool

definition get_cart :: "decimal_lib \<Rightarrow> string \<Rightarrow> int \<Rightarrow> ('a shop_db_scheme, cart_view) act" where
  "get_cart D store now = bnd get_settings (\<lambda>st. bnd (reading (cart_rows store)) (\<lambda>rows.
     let ls = evaluate rows;
         p = priceOrder D (priced ls) (settings_input.truncate st) None now
     in ret \<lparr>cv_currency = se_currency st, cv_items = map (lineResponse D) ls,
          cv_itemCount = (\<Sum>r\<leftarrow>rows. ca_quantity (cw_item r)),
          cv_subtotal = toFixed2 D (pr_subtotal p), cv_deliveryFee = toFixed2 D (pr_deliveryFee p),
          cv_total = toFixed2 D (pr_total p), cv_hasProblems = list_ex (\<lambda>l. ev_problem l \<noteq> None) ls,
          cv_canCheckout = (rows \<noteq> [] \<and> list_all (\<lambda>l. ev_problem l = None) ls)\<rparr>))"

definition quoted :: "string \<Rightarrow> string" where
  "quoted name = [CHR 0x22] @ name @ [CHR 0x22]"

definition assertStock :: "int \<Rightarrow> int \<Rightarrow> string \<Rightarrow> error + unit" where
  "assertStock quantity stock name =
     (if quantity > MAX_LINE_QUANTITY
      then Inl (BadRequest (''You can order at most '' @ show_int MAX_LINE_QUANTITY @ '' of one item at a time.''))
      else if stock \<le> 0 then Inl (Conflict (quoted name @ '' is out of stock.''))
      else if quantity > stock
      then Inl (Conflict (''Only '' @ show_int stock @ '' of '' @ quoted name @ '' left in stock.''))
      else Inr ())"

definition choose_stock :: "shop_product \<Rightarrow> shop_variant list \<Rightarrow> string option \<Rightarrow> error + int" where
  "choose_stock p options variantId =
     (if options \<noteq> [] then (case variantId of
          None \<Rightarrow> Inl (BadRequest ''Choose an option (size / color) for this product.'')
        | Some v \<Rightarrow> (case find (\<lambda>x. sv_id x = v) options of
            None \<Rightarrow> Inl (NotFound ''That option is not available.'')
          | Some x \<Rightarrow> Inr (sv_stock x)))
      else if variantId \<noteq> None then Inl (BadRequest ''This product has no options.'')
      else Inr (sp_stock p))"

definition set_quantity :: "string \<Rightarrow> int \<Rightarrow> ('a shop_db_scheme, unit) act" where
  "set_quantity cid q = writing (\<lambda>s. s\<lparr>cart := map (\<lambda>c. if ca_id c = cid then c\<lparr>ca_quantity := q\<rparr> else c) (cart s)\<rparr>)"

definition addItem :: "string \<Rightarrow> string \<Rightarrow> string option \<Rightarrow> int \<Rightarrow> ('a shop_db_scheme, unit) act" where
  "addItem store productId variantId quantity = transaction (
     bnd (reading (\<lambda>s. case find_product s productId of
        Some p \<Rightarrow> if sp_active p \<and> sp_categoryActive p then Some (p, active_variants s productId) else None
      | None \<Rightarrow> None)) (\<lambda>looked.
     bnd (found looked (NotFound ''Product not found'')) (\<lambda>(p, options).
     bnd (lift_sum (choose_stock p options variantId)) (\<lambda>stock.
     bnd (reading (\<lambda>s. filter (\<lambda>c. ca_store c = store \<and> ca_product c = productId \<and> ca_variant c = variantId) (cart s)))
     (\<lambda>existing.
      let newQuantity = (\<Sum>c\<leftarrow>existing. ca_quantity c) + quantity
      in andthen (lift_sum (assertStock newQuantity stock (sp_name p)))
         (andthen (writing (\<lambda>s. s\<lparr>cart := filter (\<lambda>c. ca_id c \<notin> ca_id ` set (tl existing)) (cart s)\<rparr>))
         (case existing of
            c # _ \<Rightarrow> set_quantity (ca_id c) newQuantity
          | [] \<Rightarrow> bnd take_id (\<lambda>cid. writing (\<lambda>s. s\<lparr>cart := cart s @ [\<lparr>ca_id = cid, ca_store = store,
              ca_product = productId, ca_variant = variantId, ca_quantity = quantity\<rparr>]\<rparr>)))))))))"

definition find_cart_item :: "string \<Rightarrow> string \<Rightarrow> ('a shop_db_scheme, cart_row) act" where
  "find_cart_item store itemId =
     bnd (reading (\<lambda>s. case find (\<lambda>c. ca_id c = itemId \<and> ca_store c = store) (cart s) of
        None \<Rightarrow> None | Some c \<Rightarrow> join_row s c)) (\<lambda>r. found r (NotFound ''Cart item not found''))"

definition updateItem :: "string \<Rightarrow> string \<Rightarrow> int \<Rightarrow> ('a shop_db_scheme, unit) act" where
  "updateItem store itemId quantity = transaction (
     bnd (find_cart_item store itemId) (\<lambda>r.
     andthen (if quantity > ca_quantity (cw_item r)
        then lift_sum (assertStock quantity (row_stock r) (sp_name (cw_product r))) else ret ())
       (set_quantity (ca_id (cw_item r)) quantity)))"

definition removeItem :: "string \<Rightarrow> string \<Rightarrow> ('a shop_db_scheme, unit) act" where
  "removeItem store itemId = transaction (
     bnd (reading (\<lambda>s. find (\<lambda>c. ca_id c = itemId \<and> ca_store c = store) (cart s) \<noteq> None)) (\<lambda>some.
     andthen (writing (\<lambda>s. s\<lparr>cart := filter (\<lambda>c. \<not> (ca_id c = itemId \<and> ca_store c = store)) (cart s)\<rparr>))
       (require some (NotFound ''Cart item not found''))))"

definition clear_cart :: "string \<Rightarrow> ('a shop_db_scheme, unit) act" where
  "clear_cart store = transaction (writing (\<lambda>s. s\<lparr>cart := filter (\<lambda>c. ca_store c \<noteq> store) (cart s)\<rparr>))"

section \<open>src/zomaal-shop/checkout.service.ts\<close>

definition DAY_MS :: int where
  "DAY_MS = 24 * 60 * 60 * 1000"

definition ONLINE_UNAVAILABLE :: string where
  "ONLINE_UNAVAILABLE = ''Online payment is not available yet. Please use Cash on Delivery.''"

record cod_check =
  cod_cancellations :: int
  cod_limit :: int
  cod_windowDays :: int
  cod_restricted :: bool

definition counts_as_cancellation :: "string \<Rightarrow> int \<Rightarrow> shop_order \<Rightarrow> bool" where
  "counts_as_cancellation store since o' \<longleftrightarrow> so_store o' = store \<and> so_method o' = COD \<and>
     (case so_cancelledAt o' of None \<Rightarrow> False | Some t \<Rightarrow> t \<ge> since) \<and>
     (so_cancelledBy o' = Some BY_MERCHANT \<or> so_cancelledBy o' = Some BY_ADMIN \<and> so_shippedAt o' \<noteq> None)"

definition codRestriction :: "string \<Rightarrow> shop_settings \<Rightarrow> int \<Rightarrow> 'a shop_db_scheme \<Rightarrow> cod_check" where
  "codRestriction store st now s =
     (let limit = se_codLimit st; days = se_codWindowDays st;
          n = int (length (filter (counts_as_cancellation store (now - days * DAY_MS)) (shop_orders s)))
      in \<lparr>cod_cancellations = n, cod_limit = limit, cod_windowDays = days,
          cod_restricted = (limit > 0 \<and> n \<ge> limit)\<rparr>)"

definition store_uses :: "string \<Rightarrow> string \<Rightarrow> 'a shop_db_scheme \<Rightarrow> int" where
  "store_uses store promoId s = int (length (filter (\<lambda>o'. so_store o' = store \<and>
     so_promoId o' = Some promoId \<and> so_status o' \<noteq> SO_CANCELLED) (shop_orders s)))"

definition loadPromo :: "string option \<Rightarrow> string \<Rightarrow> 'a shop_db_scheme \<Rightarrow> (promo_code option \<times> string \<times> int) option" where
  "loadPromo code store s =
     (case map_option (\<lambda>c. js_upper (js_trim c)) code of
        None \<Rightarrow> None
      | Some normalized \<Rightarrow> if normalized = [] then None
          else let promo = find (\<lambda>p. pi_code p = normalized) (promos s)
               in Some (promo, normalized, case promo of None \<Rightarrow> 0 | Some p \<Rightarrow> store_uses store (pc_id p) s))"

record checkout_state =
  co_settings :: shop_settings
  co_lines :: "evaluated_line list"
  co_pricing :: pricing_result
  co_promo :: "(promo_code option \<times> string \<times> int) option"
  co_address :: "shop_address option"
  co_cod :: cod_check
  co_storeActive :: bool

definition order_price ::
  "decimal_lib \<Rightarrow> evaluated_line list \<Rightarrow> shop_settings \<Rightarrow> (promo_code option \<times> string \<times> int) option \<Rightarrow> int \<Rightarrow> pricing_result" where
  "order_price D ls st ctx now = priceOrder D (priced ls) (settings_input.truncate st)
     (map_option (\<lambda>(p, code, uses). (map_option promo_input.truncate p, code, uses)) ctx) now"

definition line_total :: "decimal_lib \<Rightarrow> evaluated_line \<Rightarrow> rat" where
  "line_total D l = places D 2 (dtimes D (ev_unitPrice l) (of_int (line_quantity l)))"

definition check_amounts :: "decimal_lib \<Rightarrow> pricing_result \<Rightarrow> evaluated_line list \<Rightarrow> ('s, unit) act" where
  "check_amounts D p ls =
     andthen (for_each (\<lambda>(v, f). lift_sum (assertPersistedMoney v f))
        [(pr_subtotal p, ''subtotal''), (pr_discount p, ''discount''),
         (pr_deliveryFee p, ''deliveryFee''), (pr_total p, ''total'')])
       (for_each (\<lambda>l. lift_sum (assertPersistedMoney (line_total D l) ''lineTotal'')) ls)"

definition compute ::
  "decimal_lib \<Rightarrow> string \<Rightarrow> string option \<Rightarrow> string option \<Rightarrow> int \<Rightarrow> ('a shop_db_scheme, shop_settings) act \<Rightarrow>
   ('a shop_db_scheme, checkout_state) act" where
  "compute D store promoCode addressId now load_settings =
     bnd load_settings (\<lambda>st.
     bnd (reading (cart_rows store)) (\<lambda>rows.
     bnd (reading (\<lambda>s. find (\<lambda>x. st_id x = store) (stores s))) (\<lambda>row.
     bnd (found row (Internal ''No record was found for a query.'')) (\<lambda>shop.
     bnd (reading (loadPromo promoCode store)) (\<lambda>ctx.
     let ls = evaluate rows; p = order_price D ls st ctx now
     in andthen (check_amounts D p ls)
        (bnd (case addressId of
            Some a \<Rightarrow> if a = [] then defaultFor store else bnd (require_address store a) (\<lambda>x. ret (Some x))
          | None \<Rightarrow> defaultFor store) (\<lambda>address.
         reading (\<lambda>s. \<lparr>co_settings = st, co_lines = ls, co_pricing = p, co_promo = ctx,
           co_address = address, co_cod = codRestriction store st now s, co_storeActive = st_active shop\<rparr>))))))))"

text \<open>Inside the transaction the settings row must exist; outside it is created on demand.\<close>

definition settings_in_tx :: "('a shop_db_scheme, shop_settings) act" where
  "settings_in_tx = bnd (reading settings_row) (\<lambda>r. found r (Internal ''No record was found for a query.''))"

definition cod_paused :: "cod_check \<Rightarrow> string" where
  "cod_paused c = ''Cash on Delivery is paused for your account after '' @ show_int (cod_cancellations c) @
     '' cancelled orders in the last '' @ show_int (cod_windowDays c) @ '' days.''"

definition blockers_of :: "checkout_state \<Rightarrow> (string \<times> string) list" where
  "blockers_of c =
     (if co_storeActive c then [] else [(''ACCOUNT_SUSPENDED'', ''Your account is suspended. Contact Zomaal support.'')]) @
     (if co_lines c = [] then [(''CART_EMPTY'', ''Your cart is empty.'')] else []) @
     (if list_ex (\<lambda>l. ev_problem l \<noteq> None) (co_lines c)
      then [(''CART_HAS_PROBLEMS'', ''Some items in your cart are unavailable or out of stock.'')] else []) @
     (if co_address c = None then [(''ADDRESS_REQUIRED'', ''Add a delivery address.'')] else []) @
     (if se_codEnabled (co_settings c) \<and> \<not> cod_restricted (co_cod c) then []
      else if cod_restricted (co_cod c) then [(''COD_RESTRICTED'', cod_paused (co_cod c))]
      else [(''COD_DISABLED'', ''Cash on Delivery is currently unavailable.'')])"

definition preview ::
  "decimal_lib \<Rightarrow> string \<Rightarrow> string option \<Rightarrow> string option \<Rightarrow> int \<Rightarrow>
   ('a shop_db_scheme, checkout_state \<times> (string \<times> string) list \<times> bool) act" where
  "preview D store promoCode addressId now =
     bnd (compute D store promoCode addressId now get_settings)
       (\<lambda>c. ret (c, blockers_of c, blockers_of c = []))"

text \<open>The problem's name in the message: lower case, underscores as spaces.\<close>

definition problem_words :: "line_problem \<Rightarrow> string" where
  "problem_words p = (case p of UNAVAILABLE \<Rightarrow> ''unavailable'' | VARIANT_REQUIRED \<Rightarrow> ''variant required''
     | OUT_OF_STOCK_LINE \<Rightarrow> ''out of stock'' | INSUFFICIENT_STOCK \<Rightarrow> ''insufficient stock'')"

definition stockConflict :: "evaluated_line \<Rightarrow> error" where
  "stockConflict l = Conflict (quoted (sp_name (cw_product (ev_row l))) @ '' just sold out or doesn't have '' @
     show_int (line_quantity l) @ '' left. Update your cart and try again.'')"

definition set_variant_stock :: "string \<Rightarrow> (int \<Rightarrow> int) \<Rightarrow> 'a shop_db_scheme \<Rightarrow> 'a shop_db_scheme" where
  "set_variant_stock i f s = s\<lparr>variants := map (\<lambda>v. if sv_id v = i then v\<lparr>sv_stock := f (sv_stock v)\<rparr> else v) (variants s)\<rparr>"

definition set_product_stock :: "string \<Rightarrow> (int \<Rightarrow> int) \<Rightarrow> 'a shop_db_scheme \<Rightarrow> 'a shop_db_scheme" where
  "set_product_stock i f s = s\<lparr>products := map (\<lambda>p. if sp_id p = i then p\<lparr>sp_stock := f (sp_stock p)\<rparr> else p) (products s)\<rparr>"

definition reserve_cart_line :: "evaluated_line \<Rightarrow> ('a shop_db_scheme, unit) act" where
  "reserve_cart_line l =
     (let q = line_quantity l; c = cw_item (ev_row l)
      in case ca_variant c of
        Some v \<Rightarrow> bnd (reading (\<lambda>s. find (\<lambda>x. sv_id x = v \<and> sv_active x \<and> sv_stock x \<ge> q) (variants s) \<noteq> None))
          (\<lambda>ok. andthen (require ok (stockConflict l)) (writing (set_variant_stock v (\<lambda>n. n - q))))
      | None \<Rightarrow> bnd (reading (\<lambda>s. find (\<lambda>x. sp_id x = ca_product c \<and> sp_stock x \<ge> q) (products s) \<noteq> None))
          (\<lambda>ok. andthen (require ok (stockConflict l)) (writing (set_product_stock (ca_product c) (\<lambda>n. n - q)))))"

definition variant_total :: "'a shop_db_scheme \<Rightarrow> string \<Rightarrow> int" where
  "variant_total s i = (\<Sum>v\<leftarrow>filter (\<lambda>v. sv_product v = i) (variants s). sv_stock v)"

definition mirror_stock :: "string \<Rightarrow> ('a shop_db_scheme, unit) act" where
  "mirror_stock i = writing (\<lambda>s. set_product_stock i (\<lambda>_. variant_total s i) s)"

definition touched :: "evaluated_line list \<Rightarrow> string list" where
  "touched ls = remdups [ca_product (cw_item (ev_row l)). l \<leftarrow> ls, ca_variant (cw_item (ev_row l)) \<noteq> None]"

definition reserveStock :: "evaluated_line list \<Rightarrow> ('a shop_db_scheme, unit) act" where
  "reserveStock ls = andthen (for_each reserve_cart_line ls) (for_each mirror_stock (touched ls))"

definition claimPromo ::
  "decimal_lib \<Rightarrow> promo_code \<Rightarrow> string \<Rightarrow> rat \<Rightarrow> int \<Rightarrow> ('a shop_db_scheme, unit) act" where
  "claimPromo D promo store subtotal now =
     bnd (reading (\<lambda>s. (find (\<lambda>p. pc_id p = pc_id promo) (promos s), store_uses store (pc_id promo) s)))
     (\<lambda>(current, uses).
      let rejection = checkPromo (map_option promo_input.truncate current) subtotal now uses
      in andthen (case rejection of
           Some r \<Rightarrow> throw (Unprocessable (promoRejectionMessage D r (map_option promo_input.truncate current)))
         | None \<Rightarrow> (case current of
             Some c \<Rightarrow> require (pi_value c = pi_value promo \<and> pi_type c = pi_type promo \<and>
                 pi_maxDiscount c = pi_maxDiscount promo \<and> pi_minSubtotal c = pi_minSubtotal promo)
               (Unprocessable ''Promo code changed. Preview checkout again.'')
           | None \<Rightarrow> throw (Unprocessable ''Promo code changed. Preview checkout again.'')))
         (writing (\<lambda>s. s\<lparr>promos := map (\<lambda>p. if pc_id p = pc_id promo
            then p\<lparr>pi_usedCount := pi_usedCount p + 1\<rparr> else p) (promos s)\<rparr>)))"

text \<open>\<open>deleteMany\<close> returns how many rows it removed.\<close>

definition claim_cart :: "string \<Rightarrow> string list \<Rightarrow> ('a shop_db_scheme, nat) act" where
  "claim_cart store ids = bnd (reading (\<lambda>s. length (filter (\<lambda>c. ca_store c = store \<and> ca_id c \<in> set ids) (cart s))))
     (\<lambda>n. andthen (writing (\<lambda>s. s\<lparr>cart := filter (\<lambda>c. \<not> (ca_store c = store \<and> ca_id c \<in> set ids)) (cart s)\<rparr>)) (ret n))"

definition order_item_of :: "decimal_lib \<Rightarrow> evaluated_line \<Rightarrow> string \<Rightarrow> order_item" where
  "order_item_of D l i =
     (let c = cw_item (ev_row l); p = cw_product (ev_row l)
      in \<lparr>oi_id = i, oi_product = Some (ca_product c), oi_variant = ca_variant c, oi_name = sp_name p,
          oi_variantLabel = variantLabel (map_option (\<lambda>v. (sv_size v, sv_color v)) (cw_variant (ev_row l))),
          oi_unitLabel = sp_unitLabel p, oi_image = sp_image p, oi_unitPrice = ev_unitPrice l,
          oi_quantity = line_quantity l, oi_lineTotal = line_total D l\<rparr>)"

fun take_items :: "decimal_lib \<Rightarrow> evaluated_line list \<Rightarrow> ('a shop_db_scheme, order_item list) act" where
  "take_items D [] = ret []"
| "take_items D (l # ls) = bnd take_id (\<lambda>i. bnd (take_items D ls) (\<lambda>is. ret (order_item_of D l i # is)))"

record order_request =
  rq_address :: string
  rq_method :: pay_method
  rq_promo :: "string option"
  rq_note :: "string option"

definition create_order ::
  "decimal_lib \<Rightarrow> string \<Rightarrow> string \<Rightarrow> order_request \<Rightarrow> checkout_state \<Rightarrow> shop_address \<Rightarrow> int \<Rightarrow>
   ('a shop_db_scheme, string) act" where
  "create_order D store user req c address now =
     bnd take_id (\<lambda>oid. bnd (take_items D (co_lines c)) (\<lambda>is.
     let p = co_pricing c; applied = (case pr_promo p of Some x \<Rightarrow> po_applied x | None \<Rightarrow> False)
     in andthen (writing (\<lambda>s. s\<lparr>shop_orders := shop_orders s @ [\<lparr>so_id = oid, so_number = next_number s,
          so_store = store, so_placedBy = user, so_status = SO_PENDING, so_method = COD, so_paid = False,
          so_currency = se_currency (co_settings c), so_subtotal = pr_subtotal p, so_discount = pr_discount p,
          so_deliveryFee = pr_deliveryFee p, so_total = pr_total p,
          so_promoId = (if applied then map_option pc_id (fst (the (co_promo c))) else None),
          so_promoCode = (if applied then Some (fst (snd (the (co_promo c)))) else None),
          so_ship = address, so_note = or_null (rq_note req), so_tracking = None, so_createdAt = now,
          so_confirmedAt = None, so_shippedAt = None, so_deliveredAt = None, so_cancelledAt = None,
          so_cancelledBy = None, so_cancelReason = None, so_items = is\<rparr>],
          next_number := next_number s + 1\<rparr>)) (ret oid)))"

definition order_guards :: "decimal_lib \<Rightarrow> checkout_state \<Rightarrow> ('s, shop_address) act" where
  "order_guards D c =
     andthen (require (co_storeActive c) (Forbidden ''Your account is suspended. Contact Zomaal support.''))
     (andthen (require (se_codEnabled (co_settings c)) (Unprocessable ''Cash on Delivery is currently unavailable.''))
     (andthen (require (\<not> cod_restricted (co_cod c)) (Forbidden (cod_paused (co_cod c))))
     (andthen (require (co_lines c \<noteq> []) (BadRequest ''Your cart is empty.''))
     (andthen (case find (\<lambda>l. ev_problem l \<noteq> None) (co_lines c) of None \<Rightarrow> ret ()
        | Some l \<Rightarrow> throw (Conflict (quoted (sp_name (cw_product (ev_row l))) @ '' can't be ordered right now ('' @
            problem_words (the (ev_problem l)) @ ''). Update your cart and try again.'')))
     (bnd (found (co_address c) (BadRequest ''Add a delivery address.'')) (\<lambda>address.
      andthen (require (co_promo c = None \<or> (case pr_promo (co_pricing c) of Some x \<Rightarrow> po_applied x | None \<Rightarrow> False))
         (Unprocessable (case pr_promo (co_pricing c) of
            Some x \<Rightarrow> or_else (po_message x) (promoRejectionMessage D PROMO_NOT_FOUND None)
          | None \<Rightarrow> promoRejectionMessage D PROMO_NOT_FOUND None)))
        (ret address)))))))"

definition claim_all :: "decimal_lib \<Rightarrow> string \<Rightarrow> checkout_state \<Rightarrow> int \<Rightarrow> ('a shop_db_scheme, unit) act" where
  "claim_all D store c later =
     bnd (claim_cart store (map (\<lambda>l. ca_id (cw_item (ev_row l))) (co_lines c))) (\<lambda>n.
     andthen (require (n = length (co_lines c))
        (Conflict ''Your cart changed while placing the order. Review it and try again.''))
     (andthen (reserveStock (co_lines c))
       (case co_promo c of
          Some (Some p, _, _) \<Rightarrow> if (case pr_promo (co_pricing c) of Some x \<Rightarrow> po_applied x | None \<Rightarrow> False)
             then claimPromo D p store (pr_subtotal (co_pricing c)) later else ret ()
        | _ \<Rightarrow> ret ())))"

text \<open>\<open>now\<close> is the clock of the pricing, \<open>later\<close> that of the promo claim and of the order row.\<close>

definition placeOrder ::
  "decimal_lib \<Rightarrow> string \<Rightarrow> string \<Rightarrow> order_request \<Rightarrow> int \<Rightarrow> int \<Rightarrow> ('a shop_db_scheme, string) act" where
  "placeOrder D store user req now later =
     andthen (require (rq_method req = COD) (Unprocessable ONLINE_UNAVAILABLE))
     (andthen get_settings
     (transaction (bnd (compute D store (rq_promo req) (Some (rq_address req)) now settings_in_tx) (\<lambda>c.
        bnd (order_guards D c) (\<lambda>address.
        andthen (claim_all D store c later) (create_order D store user req c address later))))))"

section \<open>One default address\<close>

lemma filter_key: "distinct (map f xs) \<Longrightarrow> x \<in> set xs \<Longrightarrow> filter (\<lambda>y. f y = f x) xs = [x]"
proof (induction xs)
  case (Cons y ys)
  show ?case
  proof (cases "x = y")
    case True
    with Cons.prems(1) have "\<forall>z \<in> set ys. f z \<noteq> f x" by (metis distinct.simps(2) image_eqI list.map(2) set_map)
    then show ?thesis using True by (simp add: filter_empty_conv)
  next
    case False
    with Cons show ?thesis by auto
  qed
qed simp

definition single_default :: "'a shop_db_scheme \<Rightarrow> string \<Rightarrow> bool" where
  "single_default s store \<longleftrightarrow> (\<exists>a. filter ad_default (addresses_of s store) = [a])"

definition address_ids :: "'a shop_db_scheme \<Rightarrow> bool" where
  "address_ids s \<longleftrightarrow> distinct (map ad_id (addresses s))"

text \<open>Marking one address of the store and unmarking the others leaves it as the only default.\<close>

lemma mark_default:
  assumes "address_ids s" and a: "a \<in> set (addresses s)" "ad_store a = store"
    and run: "andthen (unmark_others store (ad_id a) now) (update_address (ad_id a) (\<lambda>a. a\<lparr>ad_default := True\<rparr>) now) s = (Inr u, t)"
  shows "filter ad_default (addresses_of t store) = [a\<lparr>ad_default := True, ad_updatedAt := now\<rparr>]"
    and "map ad_id (addresses t) = map ad_id (addresses s)" and "map ad_store (addresses t) = map ad_store (addresses s)"
proof -
  let ?f = "\<lambda>x. if ad_store x = store \<and> ad_id x \<noteq> ad_id a then x\<lparr>ad_default := False, ad_updatedAt := now\<rparr> else x"
  let ?g = "\<lambda>x. if ad_id x = ad_id a then x\<lparr>ad_default := True, ad_updatedAt := now\<rparr> else ?f x"
  have t: "addresses t = map ?g (addresses s)"
    using run by (auto simp: unmark_others_def update_address_def andthen_ok writing_ok)
  have one: "x = a" if "x \<in> set (addresses s)" "ad_id x = ad_id a" for x
    using assms(1) a(1) that by (auto simp: address_ids_def distinct_map inj_on_def)
  have "filter ad_default (addresses_of t store) = filter (\<lambda>y. ad_default y \<and> ad_store y = store) (map ?g (addresses s))"
    by (simp add: addresses_of_def t conj_commute)
  also have "\<dots> = map ?g (filter (\<lambda>x. ad_id x = ad_id a) (addresses s))"
    unfolding filter_map comp_def using one a(2) by (intro arg_cong2[where f = map] refl filter_cong) auto
  also have "filter (\<lambda>x. ad_id x = ad_id a) (addresses s) = [a]"
    using assms(1) a(1) unfolding address_ids_def by (rule filter_key)
  finally show "filter ad_default (addresses_of t store) = [a\<lparr>ad_default := True, ad_updatedAt := now\<rparr>]" by simp
  show "map ad_id (addresses t) = map ad_id (addresses s)" "map ad_store (addresses t) = map ad_store (addresses s)"
    by (simp_all add: t)
qed

lemma best_in: "best before xs = Some x \<Longrightarrow> x \<in> set xs"
proof -
  have "fold (\<lambda>x acc. if before x acc then x else acc) ys y \<in> insert y (set ys)" for ys y
    by (induction ys arbitrary: y) (auto split: if_splits)
  then show "best before xs = Some x \<Longrightarrow> x \<in> set xs" by (auto simp: best_def split: list.splits)
qed

lemma best_None: "best before xs = None \<longleftrightarrow> xs = []"
  by (cases xs) (simp_all add: best_def)

lemma normalizeDefault_single:
  assumes ids: "address_ids s" and run: "normalizeDefault store preferred now s = (Inr u, t)"
    and pref: "\<forall>p. preferred = Some p \<longrightarrow> (\<exists>a \<in> set (addresses_of s store). ad_id a = p)"
  shows "address_ids t \<and> (if addresses_of s store = [] then addresses t = addresses s
    else single_default t store \<and> (\<forall>p. preferred = Some p \<longrightarrow>
      (\<forall>a \<in> set (addresses_of t store). ad_default a \<longleftrightarrow> ad_id a = p)))"
proof -
  obtain next_id where next_id: "next_id = (case preferred of Some p \<Rightarrow> Some p
      | None \<Rightarrow> map_option ad_id (best next_before (addresses_of s store)))"
    and r: "(case next_id of None \<Rightarrow> ret ()
        | Some aid \<Rightarrow> andthen (unmark_others store aid now)
            (update_address aid (\<lambda>a. a\<lparr>ad_default := True\<rparr>) now)) s = (Inr u, t)"
    using run by (cases preferred) (auto simp: normalizeDefault_def bnd_ok ret_ok reading_ok)
  show ?thesis
  proof (cases next_id)
    case None
    then have "addresses_of s store = []" using next_id by (auto simp: best_None split: option.splits)
    then show ?thesis using r None ids by (simp add: ret_ok)
  next
    case (Some aid)
    have "\<exists>a \<in> set (addresses_of s store). ad_id a = aid"
    proof (cases preferred)
      case None
      with next_id Some obtain b where "best next_before (addresses_of s store) = Some b"
          "ad_id b = aid" by (metis map_option_eq_Some option.case(1))
      then show ?thesis using best_in by metis
    next
      case (Some p)
      then show ?thesis using next_id \<open>next_id = Some aid\<close> pref by simp
    qed
    then obtain a where a: "a \<in> set (addresses s)" "ad_store a = store" "ad_id a = aid"
      by (auto simp: addresses_of_def)
    from r Some a(3) have r': "andthen (unmark_others store (ad_id a) now)
        (update_address (ad_id a) (\<lambda>a. a\<lparr>ad_default := True\<rparr>) now) s = (Inr u, t)" by simp
    note m = mark_default[OF ids a(1,2) r']
    have only: "ad_default x \<longleftrightarrow> ad_id x = aid" if "x \<in> set (addresses_of t store)" for x
    proof
      assume "ad_default x"
      then have "x \<in> set (filter ad_default (addresses_of t store))" using that by simp
      then show "ad_id x = aid" using a(3) by (simp add: m(1))
    next
      assume id: "ad_id x = aid"
      have "a\<lparr>ad_default := True, ad_updatedAt := now\<rparr> \<in> set (filter ad_default (addresses_of t store))" by (simp add: m(1))
      then have "a\<lparr>ad_default := True, ad_updatedAt := now\<rparr> \<in> set (addresses t)" by (auto simp: addresses_of_def)
      moreover have "x \<in> set (addresses t)" using that by (simp add: addresses_of_def)
      moreover have "distinct (map ad_id (addresses t))" using ids m(2) by (simp add: address_ids_def)
      ultimately have "x = a\<lparr>ad_default := True, ad_updatedAt := now\<rparr>"
        using id a(3) by (auto simp: distinct_map inj_on_def)
      then show "ad_default x" by simp
    qed
    have "addresses_of s store \<noteq> []" using a by (auto simp: addresses_of_def filter_empty_conv)
    moreover have "\<forall>p. preferred = Some p \<longrightarrow> p = aid" using next_id Some by auto
    moreover have "address_ids t" using ids m(2) by (simp add: address_ids_def)
    ultimately show ?thesis using only m(1) by (auto simp: single_default_def)
  qed
qed

lemma single_default_cong: "addresses t = addresses s \<Longrightarrow> single_default t store = single_default s store"
  by (simp add: single_default_def addresses_of_def)

text \<open>The ids of generated rows are new.\<close>

definition fresh_address :: "'a shop_db_scheme \<Rightarrow> bool" where
  "fresh_address s \<longleftrightarrow> generated s \<notin> ad_id ` set (addresses s)"

lemma create_address_single:
  assumes "address_ids s" "fresh_address s" and run: "create_address store i now s = (Inr aid, t)"
  shows "address_ids t \<and> single_default t store \<and>
    (ai_default i \<longrightarrow> (\<forall>a \<in> set (addresses_of t store). ad_default a \<longleftrightarrow> ad_id a = aid))"
proof -
  let ?d = "addresses_of s store = [] \<or> ai_default i"
  let ?new = "\<lparr>ad_id = aid, ad_store = store,
           ad_label = js_trim (ai_label i), ad_fullName = js_trim (ai_fullName i),
           ad_phone = js_trim (ai_phone i), ad_country = js_trim (ai_country i),
           ad_city = js_trim (ai_city i), ad_district = or_null (ai_district i),
           ad_address = js_trim (ai_address i), ad_default = ?d, ad_updatedAt = now\<rparr>"
  from run obtain s1 u where aid: "aid = generated s"
    and n: "normalizeDefault store (if ?d then Some aid else None) now s1 = (Inr u, t)"
    and s1: "addresses s1 = addresses s @ [?new]"
    unfolding create_address_def transaction_ok Let_def by (auto simp: run_ok take_id_def)
  have "address_ids s1" using assms(1,2) by (simp add: address_ids_def fresh_address_def aid s1)
  moreover have mem: "?new \<in> set (addresses_of s1 store)" by (simp add: addresses_of_def s1)
  ultimately have "address_ids t \<and> single_default t store \<and> (\<forall>p. (if ?d then Some aid else None) = Some p \<longrightarrow>
      (\<forall>a \<in> set (addresses_of t store). ad_default a \<longleftrightarrow> ad_id a = p))"
    using normalizeDefault_single[OF _ n] by (force split: if_splits)
  then show ?thesis by auto
qed
lemma patch_address_single:
  assumes "address_ids s" and run: "patch_address store aid p now s = (Inr u, t)"
  shows "address_ids t \<and> single_default t store \<and>
    (ap_default p \<longrightarrow> (\<forall>a \<in> set (addresses_of t store). ad_default a \<longleftrightarrow> ad_id a = aid))"
proof -
  from run obtain a s1 s2 where a: "find (\<lambda>a. ad_id a = aid \<and> ad_store a = store) (addresses s) = Some a"
    and s1: "(if ap_default p then unmark_others store aid now else ret ()) s = (Inr (), s1)"
    and s2: "update_address aid (\<lambda>a. let b = clean p a in if ap_default p then b\<lparr>ad_default := True\<rparr> else b) now s1 = (Inr (), s2)"
    and n: "normalizeDefault store (if ap_default p then Some aid else None) now s2 = (Inr u, t)"
    unfolding patch_address_def transaction_ok require_address_def
    by (elim andthenE bndE) (auto simp: reading_ok found_ok)
  from find_Some_set[OF a] have mem: "a \<in> set (addresses s)" "ad_id a = aid" "ad_store a = store" by auto
  define f where "f x = (if ap_default p \<and> ad_store x = store \<and> ad_id x \<noteq> aid
      then x\<lparr>ad_default := False, ad_updatedAt := now\<rparr> else x)" for x :: shop_address
  define g where "g x = (if ad_id x = aid
      then (let b = clean p x in if ap_default p then b\<lparr>ad_default := True\<rparr> else b)\<lparr>ad_updatedAt := now\<rparr> else x)" for x :: shop_address
  have "addresses s1 = map f (addresses s)"
  proof (cases "ap_default p")
    case True
    then show ?thesis using s1 by (simp add: unmark_others_def writing_ok f_def)
  next
    case False
    then have "f = id" by (auto simp: f_def)
    then show ?thesis using s1 False by (simp add: ret_ok)
  qed
  then have t2: "addresses s2 = map (g \<circ> f) (addresses s)"
    using s2 by (simp add: update_address_def writing_ok g_def comp_def)
  have keys: "ad_id ((g \<circ> f) x) = ad_id x" "ad_store ((g \<circ> f) x) = ad_store x" for x
    by (simp_all add: f_def g_def clean_def Let_def)
  have "address_ids s2" using assms(1) by (simp add: address_ids_def t2 comp_def keys[unfolded comp_def])
  moreover have mem2: "(g \<circ> f) a \<in> set (addresses_of s2 store)" using mem keys[of a] by (simp add: addresses_of_def t2)
  ultimately show ?thesis using normalizeDefault_single[OF _ n] mem(2) keys(1)[of a] by (force split: if_splits)
qed

lemma remove_address_single:
  assumes "address_ids s" and run: "remove_address store aid now s = (Inr u, t)"
  shows "address_ids t \<and> (addresses_of t store = [] \<or> single_default t store)"
proof -
  from run obtain s1 where n: "normalizeDefault store None now s1 = (Inr u, t)"
    and s1: "addresses s1 = filter (\<lambda>a. ad_id a \<noteq> aid) (addresses s)"
    unfolding remove_address_def transaction_ok require_address_def
    by (elim andthenE bndE) (auto simp: reading_ok found_ok writing_ok)
  have "address_ids s1" using assms(1) by (simp add: address_ids_def s1 distinct_map_filter)
  from normalizeDefault_single[OF this n] show ?thesis by (auto simp: addresses_of_def split: if_splits)
qed

text \<open>
  Exactly one default address: after an address is added or edited its store has exactly one
  default, namely that address when it was asked to be, and after a removal it has exactly one
  unless no address is left.
\<close>

theorem one_default_address:
  assumes "address_ids s" and "fresh_address s"
  shows "(create_address store i now s = (Inr aid, t) \<longrightarrow> address_ids t \<and> single_default t store \<and>
      (ai_default i \<longrightarrow> (\<forall>a \<in> set (addresses_of t store). ad_default a \<longleftrightarrow> ad_id a = aid))) \<and>
    (patch_address store aid p now s = (Inr u, t) \<longrightarrow> address_ids t \<and> single_default t store \<and>
      (ap_default p \<longrightarrow> (\<forall>a \<in> set (addresses_of t store). ad_default a \<longleftrightarrow> ad_id a = aid))) \<and>
    (remove_address store aid now s = (Inr u, t) \<longrightarrow>
      address_ids t \<and> (addresses_of t store = [] \<or> single_default t store))"
  using create_address_single[OF assms] patch_address_single[OF assms(1)] remove_address_single[OF assms(1)]
  by blast

definition empty_shop_db :: shop_db where
  "empty_shop_db = \<lparr>locations = [], balances = [], movements = [], items = [], conflicts = [],
     materials = [], inventory_of = [], assets = [], requirements = [], next_id = 0, products = [],
     variants = [], cart = [], promos = [], settings_row = None, stores = [], addresses = [],
     shop_orders = [], shop_purchases = [], shop_expenses = [], categories = [], next_number = 1\<rparr>"

definition sample_input :: "bool \<Rightarrow> address_input" where
  "sample_input d = \<lparr>ai_label = ''Home'', ai_fullName = ''A B'', ai_phone = ''06'', ai_country = ''MA'',
     ai_city = ''Rabat'', ai_district = None, ai_address = ''1 Rue'', ai_default = d\<rparr>"

lemma one_default_address_witness:
  "let s = snd (create_address ''shop'' (sample_input False) 5 empty_shop_db);
       t = snd (create_address ''shop'' (sample_input True) 9 s)
   in single_default t ''shop'' \<and> length (addresses_of t ''shop'') = 2"
proof -
  let ?s = "snd (create_address ''shop'' (sample_input False) 5 empty_shop_db)"
  let ?run = "create_address ''shop'' (sample_input True) 9 ?s"
  have s: "address_ids ?s" "fresh_address ?s" unfolding address_ids_def fresh_address_def by code_simp+
  have "\<not> isl (fst ?run)" "length (addresses_of (snd ?run) ''shop'') = 2" by code_simp+
  then obtain i where "?run = (Inr i, snd ?run)" by (metis prod.collapse sum.collapse(2))
  with one_default_address[OF s] have "single_default (snd ?run) ''shop''" by blast
  with \<open>length (addresses_of (snd ?run) ''shop'') = 2\<close> show ?thesis by (simp add: Let_def)
qed

section \<open>Stock of the catalogue\<close>

definition vstock :: "'a shop_db_scheme \<Rightarrow> string \<Rightarrow> int" where
  "vstock s i = (case find_variant s i of None \<Rightarrow> 0 | Some v \<Rightarrow> sv_stock v)"

definition pstock :: "'a shop_db_scheme \<Rightarrow> string \<Rightarrow> int" where
  "pstock s i = (case find_product s i of None \<Rightarrow> 0 | Some p \<Rightarrow> sp_stock p)"

text \<open>Unique ids, no negative stock, and every cart row refers to a product.\<close>

definition catalog_ok :: "'a shop_db_scheme \<Rightarrow> bool" where
  "catalog_ok s \<longleftrightarrow> distinct (map sv_id (variants s)) \<and> distinct (map sp_id (products s)) \<and>
     (\<forall>v \<in> set (variants s). 0 \<le> sv_stock v) \<and> (\<forall>p \<in> set (products s). 0 \<le> sp_stock p) \<and>
     (\<forall>c \<in> set (cart s). find_product s (ca_product c) \<noteq> None)"

lemma set_variant_stock_simps [simp]:
  "products (set_variant_stock i f s) = products s" "cart (set_variant_stock i f s) = cart s"
  "map sv_id (variants (set_variant_stock i f s)) = map sv_id (variants s)"
  "find_product (set_variant_stock i f s) p = find_product s p"
  "pstock (set_variant_stock i f s) p = pstock s p"
  "shop_orders (set_variant_stock i f s) = shop_orders s" "promos (set_variant_stock i f s) = promos s"
  "next_number (set_variant_stock i f s) = next_number s"
  by (simp_all add: set_variant_stock_def find_product_def pstock_def comp_def if_distrib cong: if_cong)

lemma set_product_stock_simps [simp]:
  "variants (set_product_stock i f s) = variants s" "cart (set_product_stock i f s) = cart s"
  "map sp_id (products (set_product_stock i f s)) = map sp_id (products s)"
  "vstock (set_product_stock i f s) v = vstock s v" "variant_total (set_product_stock i f s) p = variant_total s p"
  "shop_orders (set_product_stock i f s) = shop_orders s" "promos (set_product_stock i f s) = promos s"
  "next_number (set_product_stock i f s) = next_number s"
  by (simp_all add: set_product_stock_def find_variant_def vstock_def variant_total_def comp_def if_distrib cong: if_cong)

lemma find_product_set:
  "find_product (set_product_stock i f s) p = map_option (\<lambda>x. if sp_id x = i then x\<lparr>sp_stock := f (sp_stock x)\<rparr> else x) (find_product s p)"
  unfolding find_product_def set_product_stock_def
  by (subst find_map_same[symmetric]) auto

lemma find_variant_set:
  "find_variant (set_variant_stock i f s) v = map_option (\<lambda>x. if sv_id x = i then x\<lparr>sv_stock := f (sv_stock x)\<rparr> else x) (find_variant s v)"
  unfolding find_variant_def set_variant_stock_def
  by (subst find_map_same[symmetric]) auto

lemma find_variant_id: "find_variant s i = Some v \<Longrightarrow> sv_id v = i \<and> v \<in> set (variants s)"
  unfolding find_variant_def by (blast dest: find_Some_set)

lemma find_product_id: "find_product s i = Some p \<Longrightarrow> sp_id p = i \<and> p \<in> set (products s)"
  unfolding find_product_def by (blast dest: find_Some_set)

lemma vstock_set: "vstock (set_variant_stock i f s) v
    = (if v = i \<and> find_variant s v \<noteq> None then f (vstock s v) else vstock s v)"
proof (cases "find_variant s v")
  case (Some x)
  with find_variant_id[OF Some] show ?thesis by (auto simp: vstock_def find_variant_set)
qed (simp add: vstock_def find_variant_set)

lemma pstock_set: "pstock (set_product_stock i f s) p
    = (if p = i \<and> find_product s p \<noteq> None then f (pstock s p) else pstock s p)"
proof (cases "find_product s p")
  case (Some x)
  with find_product_id[OF Some] show ?thesis by (auto simp: pstock_def find_product_set)
qed (simp add: pstock_def find_product_set)

lemma find_distinct:
  "distinct (map f xs) \<Longrightarrow> x \<in> set xs \<Longrightarrow> find (\<lambda>y. f y = f x) xs = Some x"
  by (induction xs) auto

lemma catalog_find_variant:
  assumes "catalog_ok s" "v \<in> set (variants s)" shows "find_variant s (sv_id v) = Some v"
  unfolding find_variant_def by (rule find_distinct) (use assms in \<open>simp_all add: catalog_ok_def\<close>)

lemma catalog_find_product:
  assumes "catalog_ok s" "p \<in> set (products s)" shows "find_product s (sp_id p) = Some p"
  unfolding find_product_def by (rule find_distinct) (use assms in \<open>simp_all add: catalog_ok_def\<close>)

text \<open>How many pieces the lines take from a variant, and from a product without options.\<close>

definition line_item :: "evaluated_line \<Rightarrow> cart_item" where
  "line_item l = cw_item (ev_row l)"

definition variant_demand :: "evaluated_line list \<Rightarrow> string \<Rightarrow> int" where
  "variant_demand ls v = (\<Sum>l\<leftarrow>ls. if ca_variant (line_item l) = Some v then line_quantity l else 0)"

definition product_demand :: "evaluated_line list \<Rightarrow> string \<Rightarrow> int" where
  "product_demand ls p = (\<Sum>l\<leftarrow>ls. if ca_variant (line_item l) = None \<and> ca_product (line_item l) = p
     then line_quantity l else 0)"

text \<open>What reserving does not touch.\<close>

definition shop_frame :: "'a shop_db_scheme \<Rightarrow> 'a shop_db_scheme \<Rightarrow> bool" where
  "shop_frame s t \<longleftrightarrow> cart t = cart s \<and> shop_orders t = shop_orders s \<and> promos t = promos s \<and>
     next_number t = next_number s \<and> map sv_id (variants t) = map sv_id (variants s) \<and>
     map sp_id (products t) = map sp_id (products s)"

lemma shop_frame_trans: "shop_frame s t \<Longrightarrow> shop_frame t u \<Longrightarrow> shop_frame s u"
  by (simp add: shop_frame_def)

lemma find_product_None: "find_product s i = None \<longleftrightarrow> i \<notin> set (map sp_id (products s))"
  by (auto simp: find_product_def find_None_set)

text \<open>Changing one stock to a non-negative value keeps the catalogue consistent.\<close>

lemma catalog_set_product:
  assumes "catalog_ok s" "\<And>p. find_product s i = Some p \<Longrightarrow> 0 \<le> f (sp_stock p)"
  shows "catalog_ok (set_product_stock i f s)"
proof -
  have "0 \<le> sp_stock y" if "y \<in> set (products (set_product_stock i f s))" for y
  proof -
    from that obtain x where x: "x \<in> set (products s)" "y = (if sp_id x = i then x\<lparr>sp_stock := f (sp_stock x)\<rparr> else x)"
      by (auto simp: set_product_stock_def)
    show ?thesis using assms(2)[of x] catalog_find_product[OF assms(1) x(1)] x assms(1)
      by (auto simp: catalog_ok_def)
  qed
  moreover have "(find_product (set_product_stock i f s) j = None) = (find_product s j = None)" for j
    by (simp only: find_product_None set_product_stock_simps)
  ultimately show ?thesis using assms(1) by (simp add: catalog_ok_def)
qed

lemma catalog_set_variant:
  assumes "catalog_ok s" "\<And>v. find_variant s i = Some v \<Longrightarrow> 0 \<le> f (sv_stock v)"
  shows "catalog_ok (set_variant_stock i f s)"
proof -
  have "0 \<le> sv_stock y" if "y \<in> set (variants (set_variant_stock i f s))" for y
  proof -
    from that obtain x where x: "x \<in> set (variants s)" "y = (if sv_id x = i then x\<lparr>sv_stock := f (sv_stock x)\<rparr> else x)"
      by (auto simp: set_variant_stock_def)
    show ?thesis using assms(2)[of x] catalog_find_variant[OF assms(1) x(1)] x assms(1)
      by (auto simp: catalog_ok_def)
  qed
  then show ?thesis using assms(1) by (simp add: catalog_ok_def)
qed

lemma reserve_cart_line_effect:
  assumes ok: "catalog_ok s" and run: "reserve_cart_line l s = (Inr u, t)"
  shows "catalog_ok t \<and> shop_frame s t \<and> vstock t v = vstock s v - variant_demand [l] v \<and>
    pstock t p = pstock s p - product_demand [l] p"
proof (cases "ca_variant (line_item l)")
  case None
  let ?i = "ca_product (line_item l)" and ?q = "line_quantity l"
  from run None obtain x where x: "find (\<lambda>x. sp_id x = ?i \<and> sp_stock x \<ge> ?q) (products s) = Some x"
    and t: "t = set_product_stock ?i (\<lambda>n. n - ?q) s"
    unfolding reserve_cart_line_def line_item_def Let_def by (auto simp: run_ok)
  from find_Some_set[OF x] have x': "x \<in> set (products s)" "sp_id x = ?i" "?q \<le> sp_stock x" by auto
  have found: "find_product s ?i = Some x" using catalog_find_product[OF ok x'(1)] x'(2) by simp
  have "catalog_ok t" unfolding t by (rule catalog_set_product[OF ok]) (use found x'(3) in simp)
  then show ?thesis using found None
    by (auto simp: t pstock_set shop_frame_def variant_demand_def product_demand_def)
next
  case (Some w)
  let ?q = "line_quantity l"
  from run Some obtain x where x: "find (\<lambda>x. sv_id x = w \<and> sv_active x \<and> sv_stock x \<ge> ?q) (variants s) = Some x"
    and t: "t = set_variant_stock w (\<lambda>n. n - ?q) s"
    unfolding reserve_cart_line_def line_item_def Let_def by (auto simp: run_ok)
  from find_Some_set[OF x] have x': "x \<in> set (variants s)" "sv_id x = w" "?q \<le> sv_stock x" by auto
  have found: "find_variant s w = Some x" using catalog_find_variant[OF ok x'(1)] x'(2) by simp
  have "catalog_ok t" unfolding t by (rule catalog_set_variant[OF ok]) (use found x'(3) in simp)
  then show ?thesis using found Some
    by (auto simp: t vstock_set shop_frame_def variant_demand_def product_demand_def)
qed

lemma demand_Cons:
  "variant_demand (l # ls) v = variant_demand [l] v + variant_demand ls v"
  "product_demand (l # ls) p = product_demand [l] p + product_demand ls p"
  by (simp_all add: variant_demand_def product_demand_def)

lemma reserve_lines_effect:
  "catalog_ok s \<Longrightarrow> for_each reserve_cart_line ls s = (Inr u, t) \<Longrightarrow>
   catalog_ok t \<and> shop_frame s t \<and> vstock t v = vstock s v - variant_demand ls v \<and>
   pstock t p = pstock s p - product_demand ls p"
proof (induction ls arbitrary: s)
  case Nil
  then show ?case by (simp add: ret_ok shop_frame_def variant_demand_def product_demand_def)
next
  case (Cons l ls)
  from Cons.prems(2) obtain a m where l: "reserve_cart_line l s = (Inr a, m)" and ls: "for_each reserve_cart_line ls m = (Inr u, t)"
    by (auto simp: andthen_ok)
  note e = reserve_cart_line_effect[OF Cons.prems(1) l]
  from e[of v p] Cons.IH[OF conjunct1[OF e] ls] show ?case
    unfolding demand_Cons[of l ls] by (auto intro: shop_frame_trans)
qed

lemma variant_total_nonneg: "catalog_ok s \<Longrightarrow> 0 \<le> variant_total s i"
  unfolding variant_total_def by (rule sum_list_nonneg) (auto simp: catalog_ok_def)

lemma mirror_stock_run: "mirror_stock i s = (Inr u, t) \<longleftrightarrow> t = set_product_stock i (\<lambda>_. variant_total s i) s"
  by (simp add: mirror_stock_def writing_ok)

lemma mirrors_effect:
  "catalog_ok s \<Longrightarrow> for_each mirror_stock ps s = (Inr u, t) \<Longrightarrow>
   catalog_ok t \<and> shop_frame s t \<and> variants t = variants s \<and>
   pstock t p = (if p \<in> set ps \<and> find_product s p \<noteq> None then variant_total s p else pstock s p)"
proof (induction ps arbitrary: s)
  case Nil
  then show ?case by (simp add: ret_ok shop_frame_def)
next
  case (Cons i ps)
  let ?m = "set_product_stock i (\<lambda>_. variant_total s i) s"
  from Cons.prems(2) have ps: "for_each mirror_stock ps ?m = (Inr u, t)"
    by (auto simp: andthen_ok mirror_stock_run)
  have m: "catalog_ok ?m" "shop_frame s ?m"
    using variant_total_nonneg[OF Cons.prems(1)] Cons.prems(1)
    by (auto intro: catalog_set_product simp: shop_frame_def)
  have "(find_product ?m p = None) = (find_product s p = None)"
    by (simp only: find_product_None set_product_stock_simps)
  with Cons.IH[OF m(1) ps] m(2) show ?case
    by (auto simp: pstock_set intro: shop_frame_trans)
qed

lemma reserveStock_effect:
  assumes "catalog_ok s" "reserveStock ls s = (Inr u, t)"
  shows "catalog_ok t \<and> shop_frame s t \<and> vstock t v = vstock s v - variant_demand ls v \<and>
    pstock t p = (if p \<in> set (touched ls) \<and> find_product s p \<noteq> None then variant_total t p
      else pstock s p - product_demand ls p)"
proof -
  from assms(2) obtain a m where m: "for_each reserve_cart_line ls s = (Inr a, m)"
    and t: "for_each mirror_stock (touched ls) m = (Inr u, t)" by (auto simp: reserveStock_def andthen_ok)
  note e = reserve_lines_effect[OF assms(1) m]
  have "vstock t v = vstock m v" "variant_total t p = variant_total m p"
    using mirrors_effect[OF conjunct1[OF e] t] by (simp_all add: vstock_def find_variant_def variant_total_def)
  moreover have "(find_product m p = None) = (find_product s p = None)"
    using e by (simp only: find_product_None shop_frame_def)
  ultimately show ?thesis using e[of v p] mirrors_effect[OF conjunct1[OF e] t, of p] by (auto intro: shop_frame_trans)
qed

section \<open>Placing an order\<close>

definition promos_ok :: "'a shop_db_scheme \<Rightarrow> bool" where
  "promos_ok s \<longleftrightarrow> distinct (map pc_id (promos s)) \<and>
     (\<forall>p \<in> set (promos s). \<forall>l. pi_usageLimit p = Some l \<longrightarrow> pi_usedCount p \<le> l)"

lemma claimPromo_effect:
  assumes ok: "promos_ok s" and run: "claimPromo D promo store subtotal now s = (Inr u, t)"
  shows "promos_ok t \<and> t = s\<lparr>promos := promos t\<rparr>"
proof -
  from run obtain c where c: "find (\<lambda>p. pc_id p = pc_id promo) (promos s) = Some c"
    and chk: "checkPromo (Some (promo_input.truncate c)) subtotal now (store_uses store (pc_id promo) s) = None"
    and t: "t = s\<lparr>promos := map (\<lambda>p. if pc_id p = pc_id promo then p\<lparr>pi_usedCount := pi_usedCount p + 1\<rparr> else p) (promos s)\<rparr>"
    unfolding claimPromo_def Let_def
    by (auto simp: bnd_ok andthen_ok reading_ok require_ok throw_ok writing_ok split: option.splits)
  from find_Some_set[OF c] have c': "c \<in> set (promos s)" "pc_id c = pc_id promo" by auto
  have "\<not> reached (pi_usageLimit c) (pi_usedCount c)"
    using chk by (simp add: checkPromo_usable promo_input.truncate_def)
  then have room: "pi_usedCount c + 1 \<le> l" if "pi_usageLimit c = Some l" for l
    using that by (simp add: reached_def)
  have one: "p = c" if "p \<in> set (promos s)" "pc_id p = pc_id promo" for p
    using ok that c' by (auto simp: promos_ok_def distinct_map inj_on_def)
  have "promos_ok t"
    unfolding promos_ok_def t
  proof (intro conjI ballI allI impI)
    show "distinct (map pc_id (promos (s\<lparr>promos := map (\<lambda>p. if pc_id p = pc_id promo then p\<lparr>pi_usedCount := pi_usedCount p + 1\<rparr> else p) (promos s)\<rparr>)))"
      using ok by (simp add: promos_ok_def comp_def if_distrib cong: if_cong)
  next
    fix q l assume "q \<in> set (promos (s\<lparr>promos := map (\<lambda>p. if pc_id p = pc_id promo then p\<lparr>pi_usedCount := pi_usedCount p + 1\<rparr> else p) (promos s)\<rparr>))"
      and l: "pi_usageLimit q = Some l"
    then obtain p where p: "p \<in> set (promos s)"
      "q = (if pc_id p = pc_id promo then p\<lparr>pi_usedCount := pi_usedCount p + 1\<rparr> else p)" by auto
    show "pi_usedCount q \<le> l"
    proof (cases "pc_id p = pc_id promo")
      case True
      then show ?thesis using one[OF p(1)] room l p(2) by simp
    next
      case False
      then show ?thesis using ok p l by (auto simp: promos_ok_def)
    qed
  qed
  then show ?thesis by (simp add: t)
qed

lemma take_items_effect:
  "take_items D ls s = (Inr is, t) \<Longrightarrow> \<exists>ids n. is = map2 (order_item_of D) ls ids \<and> length ids = length ls \<and>
     t = s\<lparr>next_id := n\<rparr>"
proof (induction ls arbitrary: s "is")
  case Nil
  then have "t = s\<lparr>next_id := next_id s\<rparr>" "is = []" by (simp_all add: ret_ok)
  then show ?case by (intro exI[of _ "[]"] exI[of _ "next_id s"]) simp
next
  case (Cons l ls)
  then obtain js where js: "take_items D ls (s\<lparr>next_id := next_id s + 1\<rparr>) = (Inr js, t)"
    and iseq: "is = order_item_of D l (generated s) # js"
    by (auto simp: run_ok take_id_def)
  from Cons.IH[OF js] obtain ids n where "js = map2 (order_item_of D) ls ids" "length ids = length ls" "t = s\<lparr>next_id := n\<rparr>"
    by auto
  then show ?case using iseq by (intro exI[of _ "generated s # ids"] exI[of _ n]) simp
qed

definition ordered_variant :: "order_item list \<Rightarrow> string \<Rightarrow> int" where
  "ordered_variant is v = (\<Sum>i\<leftarrow>is. if oi_variant i = Some v then oi_quantity i else 0)"

definition ordered_product :: "order_item list \<Rightarrow> string \<Rightarrow> int" where
  "ordered_product is p = (\<Sum>i\<leftarrow>is. if oi_variant i = None \<and> oi_product i = Some p then oi_quantity i else 0)"

definition with_options :: "order_item list \<Rightarrow> string \<Rightarrow> bool" where
  "with_options is p \<longleftrightarrow> list_ex (\<lambda>i. oi_product i = Some p \<and> oi_variant i \<noteq> None) is"

lemma order_item_of_simps:
  "oi_variant (order_item_of D l i) = ca_variant (line_item l)"
  "oi_product (order_item_of D l i) = Some (ca_product (line_item l))"
  "oi_quantity (order_item_of D l i) = line_quantity l" "oi_id (order_item_of D l i) = i"
  "oi_unitPrice (order_item_of D l i) = ev_unitPrice l" "oi_lineTotal (order_item_of D l i) = line_total D l"
  by (simp_all add: order_item_of_def line_item_def Let_def)

lemma ordered_map2:
  assumes "length ids = length ls"
  shows "ordered_variant (map2 (order_item_of D) ls ids) v = variant_demand ls v"
    and "ordered_product (map2 (order_item_of D) ls ids) p = product_demand ls p"
    and "with_options (map2 (order_item_of D) ls ids) p = (p \<in> set (touched ls))"
  using assms[symmetric]
  by (induction ls ids rule: list_induct2)
    (auto simp: ordered_variant_def ordered_product_def with_options_def variant_demand_def product_demand_def
      touched_def order_item_of_simps line_item_def)

lemma check_amounts_ok:
  "check_amounts D p ls s = (Inr u, t) \<Longrightarrow> t = s \<and> 0 \<le> pr_total p \<and> pr_total p < 10 ^ 16"
proof -
  have lines: "for_each (\<lambda>l. lift_sum (assertPersistedMoney (line_total D l) f)) ls s = (Inr u, t) \<Longrightarrow> t = s" for f s u t
    by (induction ls arbitrary: s) (auto simp: run_ok)
  show "check_amounts D p ls s = (Inr u, t) \<Longrightarrow> t = s \<and> 0 \<le> pr_total p \<and> pr_total p < 10 ^ 16"
    unfolding check_amounts_def by (auto simp: run_ok assertPersistedMoney_ok dest: lines)
qed

lemma compute_ok:
  assumes "compute D store code aid now settings_in_tx s = (Inr c, t)"
  shows "t = s" "co_lines c = evaluate (cart_rows store s)"
    "co_pricing c = order_price D (co_lines c) (co_settings c) (co_promo c) now"
    "co_promo c = loadPromo code store s" "0 \<le> pr_total (co_pricing c)" "pr_total (co_pricing c) < 10 ^ 16"
proof -
  from assms obtain st a where st: "settings_row s = Some st"
    and chk: "check_amounts D (order_price D (evaluate (cart_rows store s)) st (loadPromo code store s) now)
        (evaluate (cart_rows store s)) s = (Inr a, t)"
    and c: "co_lines c = evaluate (cart_rows store s)" "co_settings c = st"
      "co_pricing c = order_price D (evaluate (cart_rows store s)) st (loadPromo code store s) now"
      "co_promo c = loadPromo code store s"
    unfolding compute_def settings_in_tx_def require_address_def defaultFor_def Let_def
    by (auto simp: bnd_ok andthen_ok reading_ok found_ok ret_ok split: option.splits if_splits)
  from check_amounts_ok[OF chk] c show "t = s" "co_lines c = evaluate (cart_rows store s)"
    "co_pricing c = order_price D (co_lines c) (co_settings c) (co_promo c) now"
    "co_promo c = loadPromo code store s" "0 \<le> pr_total (co_pricing c)" "pr_total (co_pricing c) < 10 ^ 16"
    by simp_all
qed

lemma order_guards_ok:
  "order_guards D c s = (Inr a, t) \<Longrightarrow> t = s \<and> co_address c = Some a \<and> co_lines c \<noteq> [] \<and>
     list_all (\<lambda>l. ev_problem l = None) (co_lines c) \<and> co_storeActive c"
  unfolding order_guards_def
  by (auto simp: bnd_ok andthen_ok require_ok found_ok ret_ok throw_ok list_all_iff find_None_set
      split: option.splits)

text \<open>Claiming the rows of a checkout empties the store's cart.\<close>

lemma cart_rows_ids:
  assumes "catalog_ok s"
  shows "map (\<lambda>r. ca_id (cw_item r)) (cart_rows store s) = map ca_id (filter (\<lambda>c. ca_store c = store) (cart s))"
proof -
  have "map (\<lambda>r. ca_id (cw_item r)) (List.map_filter (join_row s) cs) = map ca_id cs"
    if "\<forall>c \<in> set cs. find_product s (ca_product c) \<noteq> None" for cs
    using that by (induction cs) (auto simp: map_filter_simps join_row_def)
  from this[of "filter (\<lambda>c. ca_store c = store) (cart s)"] assms show ?thesis
    by (simp add: cart_rows_def catalog_ok_def)
qed

lemma cart_update_simps [simp]:
  "find_product (s\<lparr>cart := x\<rparr>) i = find_product s i" "find_variant (s\<lparr>cart := x\<rparr>) i = find_variant s i"
  "vstock (s\<lparr>cart := x\<rparr>) i = vstock s i" "pstock (s\<lparr>cart := x\<rparr>) i = pstock s i"
  by (simp_all add: find_product_def find_variant_def vstock_def pstock_def)

lemma claim_all_effect:
  assumes ok: "catalog_ok s" "promos_ok s" and ls: "co_lines c = evaluate (cart_rows store s)"
    and run: "claim_all D store c later s = (Inr u, t)"
  shows "catalog_ok t \<and> promos_ok t \<and> cart t = filter (\<lambda>c. ca_store c \<noteq> store) (cart s) \<and>
    shop_orders t = shop_orders s \<and> vstock t v = vstock s v - variant_demand (co_lines c) v \<and>
    pstock t p = (if p \<in> set (touched (co_lines c)) \<and> find_product s p \<noteq> None then variant_total t p
      else pstock s p - product_demand (co_lines c) p)"
proof -
  let ?ids = "map (\<lambda>l. ca_id (cw_item (ev_row l))) (co_lines c)"
  let ?m = "s\<lparr>cart := filter (\<lambda>c. \<not> (ca_store c = store \<and> ca_id c \<in> set ?ids)) (cart s)\<rparr>"
  from run obtain w where w: "reserveStock (co_lines c) ?m = (Inr (), w)"
    and p: "(case co_promo c of
          Some (Some p, _, _) \<Rightarrow> if (case pr_promo (co_pricing c) of Some x \<Rightarrow> po_applied x | None \<Rightarrow> False)
             then claimPromo D p store (pr_subtotal (co_pricing c)) later else ret ()
        | _ \<Rightarrow> ret ()) w = (Inr u, t)"
    unfolding claim_all_def claim_cart_def by (auto simp: bnd_ok andthen_ok reading_ok writing_ok ret_ok require_ok)
  have "?ids = map ca_id (filter (\<lambda>c. ca_store c = store) (cart s))"
    using cart_rows_ids[OF ok(1)] by (simp add: ls evaluate_def comp_def)
  then have "set ?ids = ca_id ` {c \<in> set (cart s). ca_store c = store}" by (metis set_filter set_map)
  then have cart: "cart ?m = filter (\<lambda>c. ca_store c \<noteq> store) (cart s)"
    by (auto intro!: filter_cong)
  have m: "catalog_ok ?m" using ok(1) by (auto simp: catalog_ok_def)
  from reserveStock_effect[OF m w, of v p] have w': "catalog_ok w" "shop_frame ?m w"
    "vstock w v = vstock s v - variant_demand (co_lines c) v"
    "pstock w p = (if p \<in> set (touched (co_lines c)) \<and> find_product s p \<noteq> None then variant_total w p
      else pstock s p - product_demand (co_lines c) p)"
    by auto
  have pw: "promos_ok w" using ok(2) w'(2) by (simp add: promos_ok_def shop_frame_def)
  have "t = w \<or> (\<exists>pr sub. claimPromo D pr store sub later w = (Inr u, t))"
    using p by (auto simp: ret_ok split: option.splits if_splits prod.splits)
  then have t: "promos_ok t \<and> t = w\<lparr>promos := promos t\<rparr>"
  proof (elim disjE exE)
    fix pr sub assume "claimPromo D pr store sub later w = (Inr u, t)"
    with pw show ?thesis by (rule claimPromo_effect)
  qed (use pw in simp)
  have "find_product t = find_product w" "vstock t = vstock w" "pstock t = pstock w" "variant_total t = variant_total w"
    "variants t = variants w" "products t = products w" "cart t = cart w" "shop_orders t = shop_orders w"
    by (subst conjunct2[OF t], simp add: find_product_def vstock_def find_variant_def pstock_def variant_total_def fun_eq_iff)+
  note frame = this
  have "catalog_ok t" using w'(1) unfolding catalog_ok_def frame .
  moreover have "cart t = filter (\<lambda>c. ca_store c \<noteq> store) (cart s)" "shop_orders t = shop_orders s"
    using w'(2) cart by (simp_all add: frame shop_frame_def)
  moreover have "vstock t v = vstock s v - variant_demand (co_lines c) v" using w'(3) by (simp only: frame)
  moreover have "pstock t p = (if p \<in> set (touched (co_lines c)) \<and> find_product s p \<noteq> None then variant_total t p
      else pstock s p - product_demand (co_lines c) p)" using w'(4) by (simp only: frame)
  ultimately show ?thesis using conjunct1[OF t] by blast
qed

lemma get_settings_ok: "get_settings s = (Inr st, t) \<Longrightarrow> settings_row t = Some st \<and> t = s\<lparr>settings_row := Some st\<rparr>"
  by (cases "settings_row s") (auto simp: get_settings_def run_ok)

lemma create_order_effect:
  assumes "create_order D store user req c address now s = (Inr oid, t)"
  shows "\<exists>its s3 order. take_items D (co_lines c) (s\<lparr>next_id := Suc (next_id s)\<rparr>) = (Inr its, s3) \<and>
    t = s3\<lparr>shop_orders := shop_orders s3 @ [order], next_number := next_number s3 + 1\<rparr> \<and> so_id order = oid \<and>
    so_store order = store \<and> so_status order = SO_PENDING \<and> so_items order = its \<and>
    so_total order = pr_total (co_pricing c)"
proof -
  from assms obtain its s3 where run: "take_items D (co_lines c) (s\<lparr>next_id := Suc (next_id s)\<rparr>) = (Inr its, s3)"
    unfolding create_order_def Let_def by (elim andthenE bndE) (auto simp: run_ok take_id_def)
  with assms have "create_order D store user req c address now s = (Inr oid, t)"
    "take_id s = (Inr (generated s), s\<lparr>next_id := Suc (next_id s)\<rparr>)"
    by (simp_all add: take_id_def bnd_def andthen_def reading_def writing_def ret_def)
  with run show ?thesis
    unfolding create_order_def Let_def
    by (intro exI[of _ its] exI[of _ s3] exI conjI) (auto simp: bnd_def andthen_def writing_def ret_def)
qed

lemma placed_order:
  assumes ok: "catalog_ok s" "promos_ok s" and run: "placeOrder D store user req now later s = (Inr oid, t)"
  shows "catalog_ok t \<and> promos_ok t \<and> cart t = filter (\<lambda>c. ca_store c \<noteq> store) (cart s) \<and>
    (\<exists>order. shop_orders t = shop_orders s @ [order] \<and> so_id order = oid \<and> so_store order = store \<and>
      so_status order = SO_PENDING \<and> so_items order \<noteq> [] \<and> 0 \<le> so_total order \<and> so_total order < 10 ^ 16 \<and>
      vstock t v = vstock s v - ordered_variant (so_items order) v \<and>
      pstock t p = (if with_options (so_items order) p \<and> find_product s p \<noteq> None then variant_total t p
        else pstock s p - ordered_product (so_items order) p))"
proof -
  from run obtain st s1 c s1a address s1b s2 where g: "get_settings s = (Inr st, s1)"
    and c: "compute D store (rq_promo req) (Some (rq_address req)) now settings_in_tx s1 = (Inr c, s1a)"
    and gda: "order_guards D c s1a = (Inr address, s1b)"
    and cla: "claim_all D store c later s1b = (Inr (), s2)"
    and cr: "create_order D store user req c address later s2 = (Inr oid, t)"
    unfolding placeOrder_def
    by (elim andthenE bndE) (auto simp: require_ok transaction_ok bnd_ok andthen_ok)
  have eqs: "s1a = s1" "s1b = s1" using compute_ok(1)[OF c] order_guards_ok[OF gda] by simp_all
  note gd = gda[unfolded eqs] and cl = cla[unfolded eqs]
  have s1: "s1 = s\<lparr>settings_row := Some st\<rparr>" using get_settings_ok[OF g] by simp
  have same: "find_product s1 = find_product s" "vstock s1 = vstock s" "pstock s1 = pstock s" "cart s1 = cart s"
    "shop_orders s1 = shop_orders s" "promos s1 = promos s" "variants s1 = variants s" "products s1 = products s"
    by (simp_all add: s1 find_product_def vstock_def find_variant_def pstock_def fun_eq_iff)
  have ok1: "catalog_ok s1" "promos_ok s1" using ok by (simp_all add: catalog_ok_def promos_ok_def same)
  note cs = compute_ok[OF c]
  note e = claim_all_effect[OF ok1 cs(2) cl, of v p, unfolded same]
  from create_order_effect[OF cr] obtain its s3 order
    where is3: "take_items D (co_lines c) (s2\<lparr>next_id := Suc (next_id s2)\<rparr>) = (Inr its, s3)"
    and order: "t = s3\<lparr>shop_orders := shop_orders s3 @ [order], next_number := next_number s3 + 1\<rparr>" "so_id order = oid"
      "so_store order = store" "so_status order = SO_PENDING" "so_items order = its"
      "so_total order = pr_total (co_pricing c)" by blast
  from take_items_effect[OF is3] obtain ids m where ids: "its = map2 (order_item_of D) (co_lines c) ids"
    "length ids = length (co_lines c)" "s3 = s2\<lparr>next_id := m\<rparr>" by auto
  have frame: "find_product t = find_product s2" "vstock t = vstock s2" "pstock t = pstock s2" "cart t = cart s2"
    "promos t = promos s2" "variants t = variants s2" "products t = products s2" "variant_total t = variant_total s2"
    by (simp_all add: order(1) ids(3) find_product_def vstock_def find_variant_def pstock_def variant_total_def fun_eq_iff)
  have "catalog_ok t = catalog_ok s2" "promos_ok t = promos_ok s2"
    unfolding catalog_ok_def promos_ok_def frame by (rule refl)+
  then have ok2: "catalog_ok t" "promos_ok t" using e by blast+
  have new: "shop_orders t = shop_orders s @ [order]" using conjunct1[OF conjunct2[OF conjunct2[OF conjunct2[OF e]]]] by (simp add: order(1) ids(3))
  have some: "so_items order \<noteq> []" using ids order_guards_ok[OF gd] order(5) by auto
  have demand: "ordered_variant (so_items order) v = variant_demand (co_lines c) v"
    "ordered_product (so_items order) p = product_demand (co_lines c) p"
    "with_options (so_items order) p = (p \<in> set (touched (co_lines c)))"
    by (simp_all add: order(5) ids(1) ordered_map2[OF ids(2)])
  have stocks: "cart t = filter (\<lambda>c. ca_store c \<noteq> store) (cart s)"
    "vstock t v = vstock s v - ordered_variant (so_items order) v"
    "pstock t p = (if with_options (so_items order) p \<and> find_product s p \<noteq> None then variant_total t p
      else pstock s p - ordered_product (so_items order) p)"
    using e by (simp_all only: frame demand)
  have amount: "0 \<le> so_total order" "so_total order < 10 ^ 16" using cs(5,6) order(6) by simp_all
  show ?thesis using ok2 new some stocks amount order(2,3,4) by blast
qed

text \<open>
  C25. An order that is placed moves exactly what it says: from a catalogue with unique ids and no
  negative stock, \<open>placeOrder\<close> (\<open>checkout.service.ts\<close>) returns the id of one new order, PENDING and with
  at least one item and a storable total, that the store's cart rows became; every variant loses
  exactly the ordered quantity, a product ordered with options ends at the sum of its variants and any
  other product loses exactly what was ordered of it. No stock ends below zero and no promo code is
  used beyond its limit.
\<close>

lemma place_order_exact:
  assumes "catalog_ok s" and "promos_ok s" and "placeOrder D store user req now later s = (Inr oid, t)"
  shows "catalog_ok t \<and> promos_ok t \<and> cart t = filter (\<lambda>c. ca_store c \<noteq> store) (cart s) \<and>
    (\<exists>order. shop_orders t = shop_orders s @ [order] \<and> so_id order = oid \<and> so_store order = store \<and>
      so_status order = SO_PENDING \<and> so_items order \<noteq> [] \<and> 0 \<le> so_total order \<and> so_total order < 10 ^ 16 \<and>
      vstock t v = vstock s v - ordered_variant (so_items order) v \<and>
      pstock t p = (if with_options (so_items order) p \<and> find_product s p \<noteq> None then variant_total t p
        else pstock s p - ordered_product (so_items order) p))"
  by (rule placed_order[OF assms])

definition sample_product :: "string \<Rightarrow> int \<Rightarrow> shop_product" where
  "sample_product i n = \<lparr>sp_id = i, sp_name = i, sp_sku = None, sp_price = 10, sp_compareAt = None, sp_stock = n,
     sp_active = True, sp_categoryActive = True, sp_unitLabel = ''piece'', sp_image = None,
     sp_imageObject = None\<rparr>"

definition sample_variant :: "string \<Rightarrow> string \<Rightarrow> int \<Rightarrow> shop_variant" where
  "sample_variant i p n = \<lparr>sv_id = i, sv_product = p, sv_size = Some ''M'', sv_color = None, sv_sku = None,
     sv_price = None, sv_compareAt = None, sv_stock = n, sv_active = True\<rparr>"

definition sample_cart :: "string \<Rightarrow> string \<Rightarrow> string option \<Rightarrow> int \<Rightarrow> cart_item" where
  "sample_cart i p v q = \<lparr>ca_id = i, ca_store = ''shop'', ca_product = p, ca_variant = v, ca_quantity = q\<rparr>"

definition sample_address :: shop_address where
  "sample_address = \<lparr>ad_id = ''a1'', ad_store = ''shop'', ad_label = ''Home'', ad_fullName = ''A B'', ad_phone = ''06'',
     ad_country = ''MA'', ad_city = ''Rabat'', ad_district = None, ad_address = ''1 Rue'', ad_default = True,
     ad_updatedAt = 5\<rparr>"

definition cart_db :: shop_db where
  "cart_db = empty_shop_db\<lparr>products := [sample_product ''box'' 5, sample_product ''bag'' 4],
      variants := [sample_variant ''bag-m'' ''bag'' 3, sample_variant ''bag-l'' ''bag'' 1],
      cart := [sample_cart ''c1'' ''box'' None 2, sample_cart ''c2'' ''bag'' (Some ''bag-m'') 3],
      settings_row := Some default_settings, addresses := [sample_address],
      stores := [\<lparr>st_id = ''shop'', st_active = True, st_baseCurrency = ''MAD''\<rparr>]\<rparr>"

definition sample_request :: order_request where
  "sample_request = \<lparr>rq_address = [], rq_method = COD, rq_promo = None, rq_note = None\<rparr>"

lemma cart_db_ok: "catalog_ok cart_db" "promos_ok cart_db"
  unfolding catalog_ok_def by code_simp (simp add: promos_ok_def cart_db_def empty_shop_db_def)

text \<open>The checkout of the sample cart, evaluated step by step.\<close>

definition sample_line :: "cart_item \<Rightarrow> shop_product \<Rightarrow> shop_variant option \<Rightarrow> string list \<Rightarrow> int \<Rightarrow> evaluated_line" where
  "sample_line c p v options n = \<lparr>ev_row = \<lparr>cw_item = c, cw_product = p, cw_variant = v, cw_options = options\<rparr>,
     ev_unitPrice = 10, ev_compareAt = None, ev_stock = n, ev_problem = None\<rparr>"

definition sample_checkout :: checkout_state where
  "sample_checkout = \<lparr>co_settings = default_settings,
     co_lines = [sample_line (sample_cart ''c1'' ''box'' None 2) (sample_product ''box'' 5) None [] 5,
        sample_line (sample_cart ''c2'' ''bag'' (Some ''bag-m'') 3) (sample_product ''bag'' 4)
          (Some (sample_variant ''bag-m'' ''bag'' 3)) [''bag-m'', ''bag-l''] 3],
     co_pricing = \<lparr>pr_subtotal = 50, pr_discount = 0, pr_deliveryFee = 0, pr_total = 50, pr_promo = None\<rparr>,
     co_promo = None, co_address = Some sample_address,
     co_cod = \<lparr>cod_cancellations = 0, cod_limit = 3, cod_windowDays = 90, cod_restricted = False\<rparr>,
     co_storeActive = True\<rparr>"

definition placed_db :: shop_db where
  "placed_db = snd (andthen (claim_all (half_up_lib 20) ''shop'' sample_checkout 6)
     (create_order (half_up_lib 20) ''shop'' ''ali'' sample_request sample_checkout sample_address 6) cart_db)"

lemma sample_steps:
  "evaluate (cart_rows ''shop'' cart_db) = co_lines sample_checkout"
  "order_price (half_up_lib 20) (co_lines sample_checkout) default_settings None 5 = co_pricing sample_checkout"
  "fst (check_amounts (half_up_lib 20) (co_pricing sample_checkout) (co_lines sample_checkout) cart_db) = Inr ()"
  "codRestriction ''shop'' default_settings 5 cart_db = co_cod sample_checkout"
  "fst (order_guards (half_up_lib 20) sample_checkout cart_db) = Inr sample_address"
  "\<not> isl (fst (andthen (claim_all (half_up_lib 20) ''shop'' sample_checkout 6)
     (create_order (half_up_lib 20) ''shop'' ''ali'' sample_request sample_checkout sample_address 6) cart_db))"
  by code_simp+

lemma sample_stock:
  "vstock cart_db ''bag-m'' = 3" "pstock cart_db ''box'' = 5"
  "map (\<lambda>i. (oi_product i, oi_variant i, oi_quantity i)) (so_items (last (shop_orders placed_db))) =
     [(Some ''box'', None, 2), (Some ''bag'', Some ''bag-m'', 3)]"
  by code_simp+

lemma sample_compute:
  "compute (half_up_lib 20) ''shop'' None (Some []) 5 settings_in_tx cart_db = (Inr sample_checkout, cart_db)"
proof -
  have "check_amounts (half_up_lib 20) (co_pricing sample_checkout) (co_lines sample_checkout) cart_db = (Inr (), cart_db)"
    using sample_steps(3) check_amounts_ok by (metis prod.collapse)
  moreover have "settings_row cart_db = Some default_settings" "loadPromo None ''shop'' cart_db = None"
    "stores cart_db = [\<lparr>st_id = ''shop'', st_active = True, st_baseCurrency = ''MAD''\<rparr>]"
    "addresses cart_db = [sample_address]" "ad_store sample_address = ''shop''"
    by (simp_all add: cart_db_def empty_shop_db_def loadPromo_def sample_address_def)
  moreover have "sample_checkout = \<lparr>co_settings = default_settings, co_lines = co_lines sample_checkout,
     co_pricing = co_pricing sample_checkout, co_promo = None, co_address = Some sample_address,
     co_cod = co_cod sample_checkout, co_storeActive = True\<rparr>" by (simp add: sample_checkout_def)
  ultimately show ?thesis
    by (simp add: compute_def settings_in_tx_def bnd_def andthen_def reading_def found_def ret_def Let_def
        sample_steps(1,2,4) defaultFor_def addresses_of_def best_def)
qed

lemma sample_placed:
  "\<exists>oid. placeOrder (half_up_lib 20) ''shop'' ''ali'' sample_request 5 6 cart_db = (Inr oid, placed_db)"
proof -
  obtain oid where fin: "andthen (claim_all (half_up_lib 20) ''shop'' sample_checkout 6)
     (create_order (half_up_lib 20) ''shop'' ''ali'' sample_request sample_checkout sample_address 6) cart_db = (Inr oid, placed_db)"
    using sample_steps(6) unfolding placed_db_def by (metis prod.collapse sum.collapse(2))
  have guards: "order_guards (half_up_lib 20) sample_checkout cart_db = (Inr sample_address, cart_db)"
    using sample_steps(5) order_guards_ok by (metis prod.collapse)
  have "require (rq_method sample_request = COD) (Unprocessable ONLINE_UNAVAILABLE) cart_db = (Inr (), cart_db)"
    "get_settings cart_db = (Inr default_settings, cart_db)"
    by (simp_all add: sample_request_def get_settings_def cart_db_def bnd_def reading_def ret_def require_def)
  moreover have "compute (half_up_lib 20) ''shop'' (rq_promo sample_request) (Some (rq_address sample_request)) 5
      settings_in_tx cart_db = (Inr sample_checkout, cart_db)"
    using sample_compute by (simp add: sample_request_def)
  ultimately have "placeOrder (half_up_lib 20) ''shop'' ''ali'' sample_request 5 6 cart_db = (Inr oid, placed_db)"
    unfolding placeOrder_def by (simp only: andthen_run bnd_run transaction_run guards fin)
  then show ?thesis by blast
qed

lemma place_order_exact_witness:
  "vstock placed_db ''bag-m'' = 0 \<and> pstock placed_db ''box'' = 3 \<and> catalog_ok placed_db"
proof -
  from sample_placed obtain oid
    where run: "placeOrder (half_up_lib 20) ''shop'' ''ali'' sample_request 5 6 cart_db = (Inr oid, placed_db)" by blast
  from place_order_exact[OF cart_db_ok run, of "''bag-m''" "''box''"] obtain order
    where o': "shop_orders placed_db = shop_orders cart_db @ [order]" "catalog_ok placed_db"
      "vstock placed_db ''bag-m'' = 3 - ordered_variant (so_items order) ''bag-m''"
      "pstock placed_db ''box'' = (if with_options (so_items order) ''box'' \<and> find_product cart_db ''box'' \<noteq> None
        then variant_total placed_db ''box'' else 5 - ordered_product (so_items order) ''box'')"
    by (simp only: sample_stock(1,2)) blast
  have "map (\<lambda>i. (oi_product i, oi_variant i, oi_quantity i)) (so_items order) =
     [(Some ''box'', None, 2), (Some ''bag'', Some ''bag-m'', 3)]" using sample_stock(3) o'(1) by simp
  then have "ordered_variant (so_items order) ''bag-m'' = 3" "ordered_product (so_items order) ''box'' = 2"
    "\<not> with_options (so_items order) ''box''"
    by (auto simp: ordered_variant_def ordered_product_def with_options_def map_eq_Cons_conv)
  with o' show ?thesis by simp
qed

section \<open>A previewed checkout can be ordered\<close>

text \<open>
  The rows of a store's cart: every row has its own id and its own product or variant
  (\<open>addItem\<close> merges the rows of one option), and the variant it names exists.
\<close>

definition cart_key :: "cart_item \<Rightarrow> string + string" where
  "cart_key c = (case ca_variant c of Some v \<Rightarrow> Inl v | None \<Rightarrow> Inr (ca_product c))"

definition store_cart :: "string \<Rightarrow> 'a shop_db_scheme \<Rightarrow> cart_item list" where
  "store_cart store s = filter (\<lambda>c. ca_store c = store) (cart s)"

definition cart_ok :: "string \<Rightarrow> 'a shop_db_scheme \<Rightarrow> bool" where
  "cart_ok store s \<longleftrightarrow> distinct (map ca_id (cart s)) \<and> distinct (map cart_key (store_cart store s)) \<and>
     list_all (\<lambda>c. find_product s (ca_product c) \<noteq> None \<and>
       (case ca_variant c of Some v \<Rightarrow> find_variant s v \<noteq> None | None \<Rightarrow> True)) (store_cart store s)"

definition line_ready :: "'a shop_db_scheme \<Rightarrow> evaluated_line \<Rightarrow> bool" where
  "line_ready s l \<longleftrightarrow> (case ca_variant (line_item l) of
       Some v \<Rightarrow> list_ex (\<lambda>x. sv_id x = v \<and> sv_active x \<and> line_quantity l \<le> sv_stock x) (variants s)
     | None \<Rightarrow> list_ex (\<lambda>x. sp_id x = ca_product (line_item l) \<and> line_quantity l \<le> sp_stock x) (products s))"

lemma reserve_ready:
  assumes "line_ready s l"
  shows "reserve_cart_line l s = (Inr (), case ca_variant (line_item l) of
     Some v \<Rightarrow> set_variant_stock v (\<lambda>n. n - line_quantity l) s
   | None \<Rightarrow> set_product_stock (ca_product (line_item l)) (\<lambda>n. n - line_quantity l) s)"
  using assms unfolding reserve_cart_line_def line_ready_def line_item_def[symmetric] Let_def
  by (auto simp: find_None_iff list_ex_iff bnd_def reading_def andthen_def require_def ret_def writing_def split: option.splits)

lemma list_ex_map_id: "(\<And>x. x \<in> set xs \<Longrightarrow> P x \<Longrightarrow> P (f x)) \<Longrightarrow> list_ex P xs \<Longrightarrow> list_ex P (map f xs)"
  by (auto simp: list_ex_iff)

lemma reserve_keeps_ready:
  assumes "line_ready s k" "cart_key (line_item l) \<noteq> cart_key (line_item k)" "line_ready s l"
    "reserve_cart_line l s = (Inr u, t)"
  shows "line_ready t k"
proof -
  have t: "t = (case ca_variant (line_item l) of
       Some v \<Rightarrow> set_variant_stock v (\<lambda>n. n - line_quantity l) s
     | None \<Rightarrow> set_product_stock (ca_product (line_item l)) (\<lambda>n. n - line_quantity l) s)"
    using assms(4) unfolding reserve_ready[OF assms(3)] by simp
  show ?thesis using assms(1,2)
    unfolding line_ready_def cart_key_def t
    by (auto simp: set_variant_stock_def set_product_stock_def intro!: list_ex_map_id elim!: list_ex_map_id split: option.splits)
qed

lemma reserve_all_ready:
  "list_all (line_ready s) ls \<Longrightarrow> distinct (map (\<lambda>l. cart_key (line_item l)) ls) \<Longrightarrow>
   \<exists>t. for_each reserve_cart_line ls s = (Inr (), t)"
proof (induction ls arbitrary: s)
  case (Cons l ls)
  then have l: "line_ready s l" by simp
  from reserve_ready[OF l] obtain m where m: "reserve_cart_line l s = (Inr (), m)" by simp
  have "list_all (line_ready m) ls"
    using Cons.prems reserve_keeps_ready[OF _ _ l m] by (auto simp: list_all_iff image_iff)
  with Cons.IH[of m] Cons.prems(2) show ?case by (auto simp: andthen_run[of "reserve_cart_line l", OF m])
qed (simp add: ret_def)

lemma mirror_all: "\<exists>t. for_each mirror_stock ps s = (Inr (), t)"
  by (induction ps arbitrary: s) (auto simp: ret_def andthen_def bnd_def mirror_stock_def writing_def)

lemma cart_rows_items:
  assumes "cart_ok store s"
  shows "map cw_item (cart_rows store s) = store_cart store s"
proof -
  have "map cw_item (List.map_filter (join_row s) cs) = cs" if "\<forall>c \<in> set cs. find_product s (ca_product c) \<noteq> None" for cs
    using that by (induction cs) (auto simp: map_filter_simps join_row_def)
  then show ?thesis using assms by (simp add: cart_rows_def cart_ok_def store_cart_def list_all_iff)
qed

lemma evaluated_items: "cart_ok store s \<Longrightarrow> map line_item (evaluate (cart_rows store s)) = store_cart store s"
  by (simp add: cart_rows_items[symmetric] evaluate_def line_item_def comp_def)

lemma row_ready:
  assumes ok: "cart_ok store s" and l: "l \<in> set (evaluate (cart_rows store s))" "ev_problem l = None"
  shows "line_ready s l"
proof -
  from l obtain c r where c: "c \<in> set (store_cart store s)" "join_row s c = Some r"
    and r: "ev_row l = r" "line_problem_of r = None"
    by (auto simp: evaluate_def cart_rows_def store_cart_def map_filter_def)
  from ok c(1) obtain p where p: "find_product s (ca_product c) = Some p"
    and v: "case ca_variant c of Some v \<Rightarrow> find_variant s v \<noteq> None | None \<Rightarrow> True"
    by (auto simp: cart_ok_def list_all_iff)
  have items: "line_item l = c" "line_quantity l = ca_quantity c"
    using c(2) p r(1) by (auto simp: join_row_def line_item_def line_quantity_def)
  show ?thesis
  proof (cases "ca_variant c")
    case None
    then have "ca_quantity c \<le> sp_stock p"
      using c(2) p r(2) by (auto simp: join_row_def line_problem_of_def row_stock_def Let_def split: if_splits)
    with None show ?thesis using find_Some_set[OF p[unfolded find_product_def]]
      by (auto simp: line_ready_def items list_ex_iff)
  next
    case (Some i)
    with v obtain x where x: "find_variant s i = Some x" by auto
    then have "sv_active x" "ca_quantity c \<le> sv_stock x"
      using c(2) p r(2) Some by (auto simp: join_row_def line_problem_of_def row_stock_def Let_def split: if_splits)
    with Some show ?thesis using find_Some_set[OF x[unfolded find_variant_def]]
      by (auto simp: line_ready_def items list_ex_iff)
  qed
qed

lemma compute_again:
  assumes "compute D store code aid now get_settings s = (Inr c, t)"
  shows "\<exists>st. get_settings s = (Inr st, t)" and "compute D store code aid now settings_in_tx t = (Inr c, t)"
proof -
  from assms obtain st m where st: "get_settings s = (Inr st, m)" unfolding compute_def by (auto simp: bnd_ok)
  then have "settings_in_tx m = (Inr st, m)"
    using get_settings_ok[OF st] by (simp add: settings_in_tx_def bnd_def reading_def found_def ret_def)
  with st assms have run: "compute D store code aid now settings_in_tx m = (Inr c, t)"
    unfolding compute_def by (simp only: bnd_run)
  from compute_ok(1)[OF this] st run show "\<exists>st. get_settings s = (Inr st, t)"
    and "compute D store code aid now settings_in_tx t = (Inr c, t)" by auto
qed

lemma guards_pass:
  assumes "blockers_of c = []" "co_promo c = None"
  shows "order_guards D c s = (Inr (the (co_address c)), s)"
proof -
  from assms(1) have "co_storeActive c" "co_lines c \<noteq> []" "find (\<lambda>l. ev_problem l \<noteq> None) (co_lines c) = None"
    "co_address c \<noteq> None" "se_codEnabled (co_settings c)" "\<not> cod_restricted (co_cod c)"
    by (auto simp: blockers_of_def find_None_iff list_ex_iff split: if_splits)
  with assms(2) show ?thesis
    by (auto simp: order_guards_def andthen_def bnd_def require_def found_def ret_def)
qed

lemma take_id_run: "take_id s = (Inr (generated s), s\<lparr>next_id := Suc (next_id s)\<rparr>)"
  by (simp add: take_id_def bnd_def andthen_def reading_def writing_def ret_def)

lemma take_items_all: "\<exists>its t. take_items D ls s = (Inr its, t)"
proof (induction ls arbitrary: s)
  case (Cons l ls)
  from Cons[of "s\<lparr>next_id := Suc (next_id s)\<rparr>"] obtain its t
    where "take_items D ls (s\<lparr>next_id := Suc (next_id s)\<rparr>) = (Inr its, t)" by blast
  then have "take_items D (l # ls) s = (Inr (order_item_of D l (generated s) # its), t)"
    by (simp only: take_items.simps bnd_run take_id_run ret_def)
  then show ?case by blast
qed (simp add: ret_def)

lemma create_order_all: "\<exists>oid t. create_order D store user req c a now s = (Inr oid, t)"
proof -
  obtain its w where "take_items D (co_lines c) (s\<lparr>next_id := Suc (next_id s)\<rparr>) = (Inr its, w)"
    using take_items_all by blast
  then show ?thesis unfolding create_order_def Let_def
    by (simp only: bnd_run take_id_run) (simp add: andthen_def bnd_def writing_def ret_def)
qed

lemma claim_all_ready:
  assumes ok: "cart_ok store s" and ls: "co_lines c = evaluate (cart_rows store s)" and "co_promo c = None"
    and none: "\<forall>l \<in> set (co_lines c). ev_problem l = None"
  shows "\<exists>t. claim_all D store c later s = (Inr (), t)"
proof -
  let ?ids = "map (\<lambda>l. ca_id (cw_item (ev_row l))) (co_lines c)"
  let ?m = "s\<lparr>cart := filter (\<lambda>c. \<not> (ca_store c = store \<and> ca_id c \<in> set ?ids)) (cart s)\<rparr>"
  have items: "map line_item (co_lines c) = store_cart store s" using evaluated_items[OF ok] ls by simp
  have "?ids = map ca_id (map line_item (co_lines c))" by (simp add: line_item_def)
  then have "?ids = map ca_id (store_cart store s)" by (simp only: items)
  then have "filter (\<lambda>c. ca_store c = store \<and> ca_id c \<in> set ?ids) (cart s) = store_cart store s"
    by (auto simp: store_cart_def intro!: filter_cong)
  moreover have "length (co_lines c) = length (store_cart store s)" using items by (metis length_map)
  ultimately have claim: "claim_cart store ?ids s = (Inr (length (co_lines c)), ?m)"
    by (simp add: claim_cart_def bnd_def reading_def andthen_def writing_def ret_def)
  have "line_ready ?m = line_ready s" by (simp add: line_ready_def fun_eq_iff split: option.split)
  then have "list_all (line_ready ?m) (co_lines c)"
    using row_ready[OF ok] ls none by (simp add: list_all_iff)
  moreover have "distinct (map (\<lambda>l. cart_key (line_item l)) (co_lines c))"
  proof -
    have "map (\<lambda>l. cart_key (line_item l)) (co_lines c) = map cart_key (map line_item (co_lines c))" by simp
    with ok show ?thesis by (simp only: items cart_ok_def)
  qed
  ultimately obtain w where w: "for_each reserve_cart_line (co_lines c) ?m = (Inr (), w)"
    using reserve_all_ready by blast
  obtain x where "for_each mirror_stock (touched (co_lines c)) w = (Inr (), x)" using mirror_all by blast
  with w have "reserveStock (co_lines c) ?m = (Inr (), x)" by (simp only: reserveStock_def andthen_run)
  then have "andthen (reserveStock (co_lines c)) (ret ()) ?m = (Inr (), x)" by (simp only: andthen_run ret_def)
  with claim assms(3) have "claim_all D store c later s = (Inr (), x)"
    unfolding claim_all_def by (simp only: bnd_run option.case) (simp add: andthen_def bnd_def require_def ret_def)
  then show ?thesis by blast
qed

lemma previewed_order:
  assumes ok: "cart_ok store s" and cod: "rq_method req = COD" and code: "rq_promo req = None"
    and run: "preview D store None (Some (rq_address req)) now s = (Inr (c, problems, True), t)"
  shows "\<exists>oid u. placeOrder D store user req now later s = (Inr oid, u)"
proof -
  from run have run': "compute D store None (Some (rq_address req)) now get_settings s = (Inr c, t)"
    and open_: "blockers_of c = []" by (auto simp: preview_def bnd_ok ret_ok)
  from compute_again[OF run'] obtain st where st: "get_settings s = (Inr st, t)"
    and again: "compute D store None (Some (rq_address req)) now settings_in_tx t = (Inr c, t)" by blast
  note cs = compute_ok[OF again]
  have t: "t = s\<lparr>settings_row := Some st\<rparr>" using get_settings_ok[OF st] by simp
  have same: "find_product t = find_product s" "find_variant t = find_variant s" "cart t = cart s"
    by (simp_all add: t find_product_def find_variant_def fun_eq_iff)
  have ok': "cart_ok store t" using ok unfolding cart_ok_def store_cart_def same .
  have code': "co_promo c = None" using cs(4) by (simp add: loadPromo_def)
  have "\<forall>l \<in> set (co_lines c). ev_problem l = None"
    using open_ by (auto simp: blockers_of_def list_ex_iff split: if_splits)
  from claim_all_ready[OF ok' cs(2) code' this] obtain x where x: "claim_all D store c later t = (Inr (), x)" by blast
  obtain oid u where "create_order D store user req c (the (co_address c)) later x = (Inr oid, u)"
    using create_order_all by blast
  with x have "bnd (order_guards D c) (\<lambda>address. andthen (claim_all D store c later)
      (create_order D store user req c address later)) t = (Inr oid, u)"
    by (simp only: bnd_run andthen_run guards_pass[OF open_ code'])
  with again have "transaction (bnd (compute D store None (Some (rq_address req)) now settings_in_tx) (\<lambda>c.
      bnd (order_guards D c) (\<lambda>address. andthen (claim_all D store c later)
      (create_order D store user req c address later)))) t = (Inr oid, u)"
    by (simp only: bnd_run transaction_run)
  then have "placeOrder D store user req now later s = (Inr oid, u)"
    using st cod code by (simp add: placeOrder_def require_def) (simp add: andthen_def bnd_def ret_def)
  then show ?thesis by blast
qed

text \<open>
  C26. What \<open>preview\<close> shows as orderable can be ordered: when a checkout without a promo code is
  previewed with \<open>canPlaceOrder\<close> (no blocker) from a cart whose rows have their own product or option,
  \<open>placeOrder\<close> for the same address succeeds and returns an order id; no guard,
  stock conflict or amount check of the transaction fails after it.
\<close>

lemma previewed_checkout_orders:
  assumes "cart_ok store s" and "rq_method req = COD" and "rq_promo req = None"
    and "preview D store None (Some (rq_address req)) now s = (Inr (c, problems, True), t)"
  shows "\<exists>oid u. placeOrder D store user req now later s = (Inr oid, u)"
  by (rule previewed_order[OF assms])

lemma previewed_checkout_orders_witness:
  "\<exists>oid u. placeOrder (half_up_lib 20) ''shop'' ''ali'' sample_request 5 9 cart_db = (Inr oid, u)"
proof -
  have "get_settings cart_db = settings_in_tx cart_db"
    by (simp add: get_settings_def settings_in_tx_def cart_db_def bnd_def reading_def found_def ret_def)
  then have "compute (half_up_lib 20) ''shop'' None (Some []) 5 get_settings cart_db = (Inr sample_checkout, cart_db)"
    using sample_compute by (simp add: compute_def bnd_def)
  moreover have "blockers_of sample_checkout = []"
    by (simp add: blockers_of_def sample_checkout_def sample_line_def default_settings_def)
  ultimately have "preview (half_up_lib 20) ''shop'' None (Some (rq_address sample_request)) 5 cart_db =
      (Inr (sample_checkout, [], True), cart_db)"
    by (simp add: preview_def bnd_def ret_def sample_request_def)
  moreover have "cart_ok ''shop'' cart_db" unfolding cart_ok_def by code_simp
  moreover have "rq_method sample_request = COD" "rq_promo sample_request = None" by (simp_all add: sample_request_def)
  ultimately show ?thesis using previewed_checkout_orders by blast
qed

end
