(* ===== verification/Shop_Orders.thy ===== *)
theory Shop_Orders
  imports Order_Financial Shop_Cart
begin

text \<open>
  The orders of the Zomaal shop after checkout (\<open>src/zomaal-shop/shop-orders.service.ts\<close>): cancelling
  with restocking, the forward-only fulfilment, the purchases and expenses a delivery records
  (\<open>purchase-expense.util.ts\<close>, amounts split by \<open>allocateShopCosts\<close>), the packaging credit that
  follows it, and the views of an order.
\<close>

section \<open>Statuses\<close>

text \<open>U+00B7, the separator of the notes.\<close>

definition middle_dot :: string where
  "middle_dot = [CHR 0xB7]"

definition FORWARD :: "shop_status list" where
  "FORWARD = [SO_PENDING, SO_CONFIRMED, SO_SHIPPED, SO_DELIVERED]"

definition MERCHANT_CANCELLABLE :: "shop_status list" where
  "MERCHANT_CANCELLABLE = [SO_PENDING]"

definition ADMIN_CANCELLABLE :: "shop_status list" where
  "ADMIN_CANCELLABLE = [SO_PENDING, SO_CONFIRMED, SO_SHIPPED]"

fun status_name :: "shop_status \<Rightarrow> string" where
  "status_name SO_PENDING = ''PENDING''"
| "status_name SO_CONFIRMED = ''CONFIRMED''"
| "status_name SO_SHIPPED = ''SHIPPED''"
| "status_name SO_DELIVERED = ''DELIVERED''"
| "status_name SO_CANCELLED = ''CANCELLED''"

fun status_lower :: "shop_status \<Rightarrow> string" where
  "status_lower SO_PENDING = ''pending''"
| "status_lower SO_CONFIRMED = ''confirmed''"
| "status_lower SO_SHIPPED = ''shipped''"
| "status_lower SO_DELIVERED = ''delivered''"
| "status_lower SO_CANCELLED = ''cancelled''"

text \<open>\<open>FORWARD.slice(0, FORWARD.indexOf(to))\<close> and \<open>FORWARD.slice(FORWARD.indexOf(status) + 1)\<close>.\<close>

definition allowedFrom :: "shop_status \<Rightarrow> shop_status list" where
  "allowedFrom target = takeWhile (\<lambda>x. x \<noteq> target) FORWARD"

definition nextStatuses :: "shop_status \<Rightarrow> shop_status list" where
  "nextStatuses st = (if st = SO_CANCELLED then [] else tl (dropWhile (\<lambda>x. x \<noteq> st) FORWARD))"

section \<open>Cancelling\<close>

definition find_shop_order :: "'a shop_db_scheme \<Rightarrow> string \<Rightarrow> shop_order option" where
  "find_shop_order s oid = find (\<lambda>x. so_id x = oid) (shop_orders s)"

text \<open>
  \<open>updateMany\<close> of the row with this id while its status is still one of the allowed ones; the count is
  returned. The data of the update may depend on the row read just before under the row lock.
\<close>

definition flip_order :: "string \<Rightarrow> shop_status list \<Rightarrow> (shop_order \<Rightarrow> shop_order) \<Rightarrow> ('a shop_db_scheme, nat) act" where
  "flip_order oid allowed f =
     bnd (reading (\<lambda>s. length (filter (\<lambda>x. so_id x = oid \<and> so_status x \<in> set allowed) (shop_orders s)))) (\<lambda>n.
     andthen (writing (\<lambda>s. s\<lparr>shop_orders := map (\<lambda>x. if so_id x = oid \<and> so_status x \<in> set allowed then f x else x)
        (shop_orders s)\<rparr>)) (ret n))"

definition restock_item :: "order_item \<Rightarrow> ('a shop_db_scheme, unit) act" where
  "restock_item i =
     andthen (case oi_variant i of
         Some v \<Rightarrow> if v = [] then ret () else writing (set_variant_stock v (\<lambda>n. n + oi_quantity i)) | None \<Rightarrow> ret ())
       (case oi_product i of
         Some p \<Rightarrow> if p = [] then ret () else writing (set_product_stock p (\<lambda>n. n + oi_quantity i)) | None \<Rightarrow> ret ())"

definition restock :: "order_item list \<Rightarrow> ('a shop_db_scheme, unit) act" where
  "restock bought = for_each restock_item bought"

definition return_promo :: "string option \<Rightarrow> ('a shop_db_scheme, unit) act" where
  "return_promo promo = (case promo of None \<Rightarrow> ret ()
     | Some i \<Rightarrow> if i = [] then ret () else writing (\<lambda>s. s\<lparr>promos := map (\<lambda>p. if pc_id p = i \<and> pi_usedCount p > 0
         then p\<lparr>pi_usedCount := pi_usedCount p - 1\<rparr> else p) (promos s)\<rparr>))"

definition cancelled :: "cancelled_by \<Rightarrow> string option \<Rightarrow> int \<Rightarrow> shop_order \<Rightarrow> shop_order" where
  "cancelled who reason now x = x\<lparr>so_status := SO_CANCELLED, so_cancelledAt := Some now, so_cancelledBy := Some who,
     so_cancelReason := or_null reason\<rparr>"

definition cancel_refusal :: "cancelled_by \<Rightarrow> shop_order option \<Rightarrow> error" where
  "cancel_refusal who current = (case current of
       None \<Rightarrow> NotFound ''Order not found''
     | Some x \<Rightarrow> if who = BY_MERCHANT
         then Conflict ''This order can no longer be cancelled from the app. Contact Zomaal support.''
         else Conflict (''This order is '' @ status_lower (so_status x) @ '' '' @ em_dash @ '' it can't be cancelled.''))"

definition cancel :: "string \<Rightarrow> cancelled_by \<Rightarrow> string option \<Rightarrow> shop_status list \<Rightarrow> int \<Rightarrow> ('a shop_db_scheme, unit) act" where
  "cancel oid who reason allowed now = transaction (
     bnd (flip_order oid allowed (cancelled who reason now)) (\<lambda>n.
     andthen (if n = 0 then bnd (reading (\<lambda>s. find_shop_order s oid)) (\<lambda>current. throw (cancel_refusal who current)) else ret ())
     (bnd (bnd (reading (\<lambda>s. find_shop_order s oid)) (\<lambda>x. found x (Internal ''No record was found for a query.''))) (\<lambda>order.
      andthen (restock (so_items order)) (return_promo (so_promoId order))))))"

definition cancelByMerchant :: "string \<Rightarrow> string \<Rightarrow> string option \<Rightarrow> int \<Rightarrow> ('a shop_db_scheme, unit) act" where
  "cancelByMerchant store oid reason now =
     bnd (reading (\<lambda>s. find (\<lambda>x. so_id x = oid \<and> so_store x = store) (shop_orders s))) (\<lambda>x.
     andthen (bnd (found x (NotFound ''Order not found'')) (\<lambda>_. ret ()))
       (cancel oid BY_MERCHANT reason MERCHANT_CANCELLABLE now))"

section \<open>src/zomaal-shop/purchase-expense.util.ts\<close>

text \<open>The categories are listed in creation order; a missing one is created.\<close>

definition purchaseCategoryId :: "string \<Rightarrow> ('a shop_db_scheme, string) act" where
  "purchaseCategoryId store =
     bnd (reading (\<lambda>s. filter (\<lambda>c. ec_store c = store \<and> ec_purchases c) (categories s))) (\<lambda>cs.
     case (case find ec_system cs of Some c \<Rightarrow> Some c | None \<Rightarrow> (case cs of [] \<Rightarrow> None | c # _ \<Rightarrow> Some c)) of
       Some c \<Rightarrow> ret (ec_id c)
     | None \<Rightarrow> bnd take_id (\<lambda>i. andthen (writing (\<lambda>s. s\<lparr>categories := categories s @
          [\<lparr>ec_id = i, ec_store = store, ec_purchases = True, ec_system = True\<rparr>]\<rparr>)) (ret i)))"

definition purchaseExpenseTitle :: "string \<Rightarrow> string" where
  "purchaseExpenseTitle productName = ''Purchase '' @ em_dash @ '' '' @ productName"

text \<open>True for BANK, False for CASH.\<close>

definition shopPaymentToExpense :: "pay_method \<Rightarrow> bool" where
  "shopPaymentToExpense m \<longleftrightarrow> m = ONLINE"

record expense_input =
  xi_store :: string
  xi_productName :: string
  xi_amount :: rat
  xi_bank :: bool
  xi_spentAt :: int
  xi_notes :: string
  xi_createdBy :: string

definition createPurchaseExpense :: "expense_input \<Rightarrow> ('a shop_db_scheme, string) act" where
  "createPurchaseExpense i =
     bnd (purchaseCategoryId (xi_store i)) (\<lambda>category. bnd take_id (\<lambda>x.
     andthen (writing (\<lambda>s. s\<lparr>shop_expenses := shop_expenses s @ [\<lparr>xp_id = x, xp_store = xi_store i, xp_category = category,
        xp_title = purchaseExpenseTitle (xi_productName i), xp_amount = xi_amount i, xp_bank = xi_bank i,
        xp_spentAt = xi_spentAt i, xp_notes = xi_notes i, xp_createdBy = xi_createdBy i\<rparr>]\<rparr>)) (ret x)))"

section \<open>Delivery\<close>

text \<open>
  What a delivery uses of the code outside this file: the two decimal libraries (Prisma's and the
  60 digit clone of the cost allocation), \<open>localeCompare\<close>, the exchange rates of the currency service
  and the text of a decimal.
\<close>

record delivery_env =
  de_D :: decimal_lib
  de_P :: decimal_lib
  de_locale :: "string \<Rightarrow> string \<Rightarrow> int"
  de_rates :: "string \<Rightarrow> rat option"
  de_text :: "rat \<Rightarrow> string"

definition convertAmount :: "decimal_lib \<Rightarrow> (string \<Rightarrow> rat option) \<Rightarrow> rat \<Rightarrow> string \<Rightarrow> string \<Rightarrow> error + rat" where
  "convertAmount D rates amount fromCurrency toCurrency =
     (case convertOrNull D rates amount fromCurrency toCurrency of
        None \<Rightarrow> Inl (Unavailable (''Exchange rate '' @ js_upper fromCurrency @ '' to '' @ js_upper toCurrency @
          '' is unavailable. Try again later.''))
      | Some x \<Rightarrow> Inr x)"

definition cost_items :: "shop_order \<Rightarrow> cost_item list" where
  "cost_items x = map (\<lambda>i. \<lparr>ci_id = oi_id i, ci_quantity = oi_quantity i, ci_lineTotal = oi_lineTotal i\<rparr>) (so_items x)"

definition purchase_notes :: "shop_order \<Rightarrow> order_item \<Rightarrow> string" where
  "purchase_notes x i = ''Zomaal Shop order '' @ orderNumberLabel (so_number x) @
     (case oi_variantLabel i of Some v \<Rightarrow> if v = [] then [] else '' '' @ middle_dot @ '' '' @ v | None \<Rightarrow> [])"

text \<open>\<open>costs.get(item.id)!\<close>; a missing or not-a-number share is refused by the database.\<close>

definition share_of :: "(string \<times> rat option) list \<Rightarrow> string \<Rightarrow> ('s, rat) act" where
  "share_of costs i = (case map_of costs i of Some (Some x) \<Rightarrow> ret x
     | _ \<Rightarrow> throw (Internal ''Invalid value for a decimal column''))"

definition purchase_row :: "decimal_lib \<Rightarrow> shop_order \<Rightarrow> order_item \<Rightarrow> rat \<Rightarrow> int \<Rightarrow> string \<Rightarrow> shop_purchase" where
  "purchase_row D x i cost deliveredAt expense = \<lparr>pu_store = so_store x, pu_item = oi_id i,
     pu_product = oi_product i, pu_name = oi_name i, pu_unitLabel = oi_unitLabel i, pu_image = oi_image i,
     pu_quantity = oi_quantity i, pu_unitPrice = places D 4 (ddiv D cost (of_int (oi_quantity i))), pu_total = cost,
     pu_currency = so_currency x, pu_date = deliveredAt, pu_notes = purchase_notes x i,
     pu_createdBy = so_placedBy x, pu_expense = expense\<rparr>"

definition record_purchase ::
  "delivery_env \<Rightarrow> shop_order \<Rightarrow> (string \<times> rat option) list \<Rightarrow> (string \<times> rat option) list \<Rightarrow> string set \<Rightarrow>
   int \<Rightarrow> rat \<Rightarrow> string \<Rightarrow> order_item \<Rightarrow> ('a shop_db_scheme, unit) act" where
  "record_purchase E x purchaseCosts expenseCosts recorded deliveredAt rate baseCurrency i =
     (if oi_id i \<in> recorded then ret () else
      bnd (share_of expenseCosts (oi_id i)) (\<lambda>expenseCost.
      bnd (share_of purchaseCosts (oi_id i)) (\<lambda>cost.
      bnd (createPurchaseExpense \<lparr>xi_store = so_store x, xi_productName = oi_name i, xi_amount = expenseCost,
          xi_bank = shopPaymentToExpense (so_method x), xi_spentAt = deliveredAt,
          xi_notes = purchase_notes x i @ [CHR 0x0A] @ ''Acquisition cost '' @ toFixed2 (de_D E) cost @ '' '' @ so_currency x @
            ''; expense '' @ toFixed2 (de_D E) expenseCost @ '' '' @ baseCurrency @ ''; FX '' @ de_text E rate @ '' '' @
            baseCurrency @ ''/'' @ so_currency x,
          xi_createdBy = so_placedBy x\<rparr>) (\<lambda>expense.
      writing (\<lambda>s. s\<lparr>shop_purchases := shop_purchases s @ [purchase_row (de_D E) x i cost deliveredAt expense]\<rparr>)))))"

definition recordPurchases :: "delivery_env \<Rightarrow> string \<Rightarrow> int \<Rightarrow> rat \<Rightarrow> string \<Rightarrow> ('a shop_db_scheme, unit) act" where
  "recordPurchases E oid deliveredAt rate baseCurrency =
     bnd (reading (\<lambda>s. find_shop_order s oid)) (\<lambda>r.
     bnd (found r (Internal ''No record was found for a query.'')) (\<lambda>x.
     bnd (lift_sum (allocateShopCosts (de_P E) (de_locale E) (cost_items x) (so_total x))) (\<lambda>purchaseCosts.
     let convertedTotal = places (de_D E) 2 (dtimes (de_D E) (so_total x) rate)
     in andthen (lift_sum (assertPersistedMoney convertedTotal ''Converted purchase cost''))
     (bnd (lift_sum (allocateShopCosts (de_P E) (de_locale E) (cost_items x) convertedTotal)) (\<lambda>expenseCosts.
      bnd (reading (\<lambda>s. pu_item ` set (filter (\<lambda>p. pu_item p \<in> oi_id ` set (so_items x)) (shop_purchases s)))) (\<lambda>recorded.
      for_each (record_purchase E x purchaseCosts expenseCosts recorded deliveredAt rate baseCurrency) (so_items x)))))))"

definition credit_line :: "shop_order \<Rightarrow> order_item \<Rightarrow> ('a shop_db_scheme, unit) act" where
  "credit_line x i =
     (case (case oi_variant i of Some v \<Rightarrow> Some v | None \<Rightarrow> oi_product i) of
        None \<Rightarrow> ret ()
      | Some catalogId \<Rightarrow> if catalogId = [] then ret () else
          bnd (reading (\<lambda>s. (case oi_variant i of Some v \<Rightarrow> find_variant s v | None \<Rightarrow> None,
            case oi_product i of Some p \<Rightarrow> find_product s p | None \<Rightarrow> None))) (\<lambda>(v, p). \<lambda>s.
          (Inr (), snd (creditDeliveredPurchase (so_store x) \<lparr>di_variantKey = catalogId, di_name = oi_name i,
             di_sku = (case (case v of Some v \<Rightarrow> sv_sku v | None \<Rightarrow> None) of Some k \<Rightarrow> Some k
                | None \<Rightarrow> (case p of Some p \<Rightarrow> sp_sku p | None \<Rightarrow> None)),
             di_image = (case p of Some p \<Rightarrow> sp_imageObject p | None \<Rightarrow> None),
             di_quantity = oi_quantity i, di_reference = oi_id i\<rparr> s))))"

text \<open>Each line has its own transaction and its failure is only logged.\<close>

definition creditPackagingFromDelivery :: "string \<Rightarrow> ('a shop_db_scheme, unit) act" where
  "creditPackagingFromDelivery oid = bnd (reading (\<lambda>s. find_shop_order s oid)) (\<lambda>r.
     case r of None \<Rightarrow> ret () | Some x \<Rightarrow> for_each (credit_line x) (so_items x))"

definition advanced :: "shop_status \<Rightarrow> string option \<Rightarrow> int \<Rightarrow> shop_order \<Rightarrow> shop_order" where
  "advanced target tracking now x = x\<lparr>so_status := target,
     so_confirmedAt := (if target = SO_CONFIRMED \<or> so_confirmedAt x = None then Some now else so_confirmedAt x),
     so_shippedAt := (if target = SO_SHIPPED \<or> (target = SO_DELIVERED \<and> so_shippedAt x = None)
       then Some now else so_shippedAt x),
     so_tracking := (case tracking of Some t \<Rightarrow> or_null (Some t) | None \<Rightarrow> so_tracking x),
     so_deliveredAt := (if target = SO_DELIVERED then Some now else so_deliveredAt x),
     so_paid := (if target = SO_DELIVERED \<and> so_method x = COD then True else so_paid x)\<rparr>"

text \<open>Before the transaction: the order, its store's currency and the exchange rate.\<close>

definition settlement_of :: "delivery_env \<Rightarrow> string \<Rightarrow> ('a shop_db_scheme, shop_store \<times> rat) act" where
  "settlement_of E oid =
     bnd (reading (\<lambda>s. find_shop_order s oid)) (\<lambda>r.
     bnd (found r (Internal ''No record was found for a query.'')) (\<lambda>x.
     bnd (reading (\<lambda>s. find (\<lambda>y. st_id y = so_store x) (stores s))) (\<lambda>y.
     bnd (found y (Internal ''No record was found for a query.'')) (\<lambda>store.
     bnd (lift_sum (convertAmount (de_D E) (de_rates E) 1 (so_currency x) (st_baseCurrency store))) (\<lambda>rate.
     ret (store, rate))))))"

definition same_currency :: "shop_store \<Rightarrow> ('a shop_db_scheme, unit) act" where
  "same_currency settled =
     bnd (reading (\<lambda>s. find (\<lambda>y. st_id y = st_id settled) (stores s))) (\<lambda>y.
     require (map_option st_baseCurrency y = Some (st_baseCurrency settled))
       (Conflict ''Store currency changed. Retry delivery.''))"

definition advance_tx ::
  "delivery_env \<Rightarrow> string \<Rightarrow> shop_status \<Rightarrow> string option \<Rightarrow> (shop_store \<times> rat) option \<Rightarrow> int \<Rightarrow>
   ('a shop_db_scheme, unit) act" where
  "advance_tx E oid target tracking settlement now = transaction (
     andthen (case settlement of Some (store, _) \<Rightarrow> same_currency store | None \<Rightarrow> ret ())
     (bnd (reading (\<lambda>s. find_shop_order s oid)) (\<lambda>r.
      bnd (found r (NotFound ''Order not found'')) (\<lambda>current.
      bnd (flip_order oid (allowedFrom target) (advanced target tracking now)) (\<lambda>n.
      andthen (require (n \<noteq> 0) (Conflict (''This order is '' @ status_lower (so_status current) @ '' '' @ em_dash @
         '' it can't be moved to '' @ status_lower target @ ''.'')))
        (case settlement of Some (store, rate) \<Rightarrow> recordPurchases E oid now rate (st_baseCurrency store)
         | None \<Rightarrow> ret ()))))))"

definition advance ::
  "delivery_env \<Rightarrow> string \<Rightarrow> shop_status \<Rightarrow> string option \<Rightarrow> int \<Rightarrow> ('a shop_db_scheme, unit) act" where
  "advance E oid target tracking now =
     andthen (require (target \<in> set FORWARD \<and> target \<noteq> SO_PENDING)
       (BadRequest (''Can't move an order to '' @ status_name target @ ''. Use cancel to cancel it.'')))
     (bnd (if target = SO_DELIVERED then bnd (settlement_of E oid) (\<lambda>x. ret (Some x)) else ret None) (\<lambda>settlement.
      andthen (advance_tx E oid target tracking settlement now)
        (if target = SO_DELIVERED then creditPackagingFromDelivery oid else ret ())))"

section \<open>Views\<close>

datatype order_tab = TAB_ALL | TAB_PROCESSING | TAB_SHIPPED | TAB_DELIVERED | TAB_CANCELLED

text \<open>\<open>None\<close> is no filter.\<close>

definition resolveStatusFilter :: "order_tab option \<Rightarrow> shop_status option \<Rightarrow> shop_status list option" where
  "resolveStatusFilter tab st = (case tab of
       Some TAB_PROCESSING \<Rightarrow> Some [SO_PENDING, SO_CONFIRMED]
     | Some TAB_SHIPPED \<Rightarrow> Some [SO_SHIPPED]
     | Some TAB_DELIVERED \<Rightarrow> Some [SO_DELIVERED]
     | Some TAB_CANCELLED \<Rightarrow> Some [SO_CANCELLED]
     | Some TAB_ALL \<Rightarrow> None
     | None \<Rightarrow> map_option (\<lambda>x. [x]) st)"

definition listTabForStatus :: "shop_status \<Rightarrow> order_tab" where
  "listTabForStatus st = (if st = SO_PENDING \<or> st = SO_CONFIRMED then TAB_PROCESSING
     else if st = SO_SHIPPED then TAB_SHIPPED
     else if st = SO_DELIVERED then TAB_DELIVERED
     else if st = SO_CANCELLED then TAB_CANCELLED else TAB_ALL)"

definition lastUpdateLabel :: "shop_status \<Rightarrow> string" where
  "lastUpdateLabel st = (case st of SO_PENDING \<Rightarrow> ''Order placed'' | SO_CONFIRMED \<Rightarrow> ''Order confirmed''
     | SO_SHIPPED \<Rightarrow> ''Out for delivery'' | SO_DELIVERED \<Rightarrow> ''Delivered'' | SO_CANCELLED \<Rightarrow> ''Cancelled'')"

record order_card =
  oc_id :: string
  oc_number :: string
  oc_status :: shop_status
  oc_tab :: order_tab
  oc_lastUpdate :: string
  oc_total :: "string option"
  oc_itemCount :: int
  oc_preview :: "(string \<times> string option) list"
  oc_tracking :: "string option"
  oc_canCancel :: bool
  oc_createdAt :: int

definition order_card_of :: "decimal_lib \<Rightarrow> shop_order \<Rightarrow> order_card" where
  "order_card_of D x = \<lparr>oc_id = so_id x, oc_number = orderNumberLabel (so_number x), oc_status = so_status x,
     oc_tab = listTabForStatus (so_status x), oc_lastUpdate = lastUpdateLabel (so_status x),
     oc_total = money D (Some (so_total x)), oc_itemCount = fold (\<lambda>i sum. sum + oi_quantity i) (so_items x) 0,
     oc_preview = map (\<lambda>i. (oi_name i, oi_image i)) (take 3 (so_items x)), oc_tracking = so_tracking x,
     oc_canCancel = (so_status x \<in> set MERCHANT_CANCELLABLE), oc_createdAt = so_createdAt x\<rparr>"

text \<open>
  \<open>matches\<close> is the database's case-insensitive search, a parameter; the newest 200 orders are listed.
\<close>

definition listForStore ::
  "decimal_lib \<Rightarrow> (string \<Rightarrow> string \<Rightarrow> bool) \<Rightarrow> string \<Rightarrow> order_tab option \<Rightarrow> shop_status option \<Rightarrow> string option \<Rightarrow>
   'a shop_db_scheme \<Rightarrow> order_card list" where
  "listForStore D matches store tab st search s =
     (let keep = (\<lambda>x. so_store x = store \<and>
            (case resolveStatusFilter tab st of None \<Rightarrow> True | Some sts \<Rightarrow> so_status x \<in> set sts) \<and>
            (case or_null search of None \<Rightarrow> True
             | Some w \<Rightarrow> list_ex (\<lambda>i. matches (oi_name i) w) (so_items x)))
      in map (order_card_of D) (take 200 (sort_key (\<lambda>x. - so_createdAt x) (filter keep (shop_orders s)))))"

record status_step =
  ss_key :: string
  ss_title :: string
  ss_at :: "int option"
  ss_completed :: bool
  ss_current :: bool
  ss_tracking :: "string option"

fun rank :: "shop_status \<Rightarrow> int" where
  "rank SO_PENDING = 0"
| "rank SO_CONFIRMED = 1"
| "rank SO_SHIPPED = 2"
| "rank SO_DELIVERED = 4"
| "rank SO_CANCELLED = -1"

definition buildStatusSteps :: "shop_order \<Rightarrow> status_step list" where
  "buildStatusSteps x =
     (if so_status x = SO_CANCELLED then
        [\<lparr>ss_key = ''PLACED'', ss_title = ''Order Placed'', ss_at = Some (so_createdAt x), ss_completed = True, ss_current = False, ss_tracking = None\<rparr>,
         \<lparr>ss_key = ''CANCELLED'', ss_title = ''Cancelled'', ss_at = so_cancelledAt x, ss_completed = True, ss_current = True, ss_tracking = None\<rparr>]
      else let currentRank = rank (so_status x); outDone = (so_status x = SO_DELIVERED) in
        [\<lparr>ss_key = ''PLACED'', ss_title = ''Order Placed'', ss_at = Some (so_createdAt x), ss_completed = True,
           ss_current = (so_status x = SO_PENDING), ss_tracking = None\<rparr>,
         \<lparr>ss_key = ''CONFIRMED'', ss_title = ''Order Confirm'', ss_at = so_confirmedAt x, ss_completed = (currentRank \<ge> 1),
           ss_current = (so_status x = SO_CONFIRMED), ss_tracking = None\<rparr>,
         \<lparr>ss_key = ''SHIPPED'', ss_title = ''Shipped'', ss_at = so_shippedAt x, ss_completed = (currentRank \<ge> 2),
           ss_current = False, ss_tracking = so_tracking x\<rparr>,
         \<lparr>ss_key = ''OUT_FOR_DELIVERY'', ss_title = ''Out for delivery'',
           ss_at = (if outDone then so_deliveredAt x else None), ss_completed = outDone,
           ss_current = (so_status x = SO_SHIPPED), ss_tracking = None\<rparr>,
         \<lparr>ss_key = ''DELIVERED'', ss_title = ''Delivered'', ss_at = so_deliveredAt x,
           ss_completed = (so_status x = SO_DELIVERED), ss_current = (so_status x = SO_DELIVERED), ss_tracking = None\<rparr>])"

section \<open>Lifecycle\<close>

text \<open>Crediting the packaging never touches the tables of the shop.\<close>

definition shop_view ::
  "'a shop_db_scheme \<Rightarrow> shop_product list \<times> shop_variant list \<times> promo_code list \<times> shop_order list \<times>
     shop_purchase list \<times> shop_expense list" where
  "shop_view s = (products s, variants s, promos s, shop_orders s, shop_purchases s, shop_expenses s)"

lemma shop_view_simps [simp]:
  "shop_view (s\<lparr>materials := m\<rparr>) = shop_view s" "shop_view (s\<lparr>next_id := n\<rparr>) = shop_view s"
  "shop_view (s\<lparr>items := i\<rparr>) = shop_view s" "shop_view (s\<lparr>inventory_of := i2\<rparr>) = shop_view s"
  "shop_view (s\<lparr>balances := b\<rparr>) = shop_view s" "shop_view (s\<lparr>movements := v\<rparr>) = shop_view s"
  "shop_view (s\<lparr>conflicts := cs\<rparr>) = shop_view s" "shop_view (s\<lparr>locations := l\<rparr>) = shop_view s"
  "shop_view (s\<lparr>categories := ca\<rparr>) = shop_view s"
  by (simp_all add: shop_view_def)

lemma view_writing: "(\<And>s. shop_view (f s) = shop_view s) \<Longrightarrow> preserves (\<lambda>s. shop_view s = X) (writing f)"
  by (rule preserves_writing) simp

lemma view_credit_body: "preserves (\<lambda>s. shop_view s = X) (credit_body store d)"
proof -
  have main: "preserves (\<lambda>s. shop_view s = X) (writing (upsert_main store))"
    by (rule view_writing) (simp add: upsert_main_def)
  have upd: "preserves (\<lambda>s. shop_view s = X) (update_material i f)" for i f
    unfolding update_material_def by (rule view_writing) simp
  have takes: "preserves (\<lambda>s. shop_view s = X) take_id"
    unfolding take_id_def by (intro preserving view_writing) simp
  have ins: "preserves (\<lambda>s. shop_view s = X) (writing (\<lambda>s. s\<lparr>materials := materials s @ [m]\<rparr>))" for m
    by (rule view_writing) simp
  have item: "preserves (\<lambda>s. shop_view s = X) (add_item store mid)" for mid
    unfolding add_item_def by (intro preserving takes view_writing) simp
  have row: "preserves (\<lambda>s. shop_view s = X) (create_filled i l q)" for i l q
    by (rule preservesI) (simp add: create_filled_def)
  have put: "preserves (\<lambda>s. shop_view s = X) (writing (update_row b ON_HAND q))" for b q
    by (rule view_writing) (simp add: update_row_def)
  have mv: "preserves (\<lambda>s. shop_view s = X) (create_movement m)" for m
    by (rule preservesI) (simp add: create_movement_def split: option.split)
  show ?thesis
    unfolding credit_body_def upsert_material_def upsert_item_def credit_once_def credit_row_def
    by (intro preserving main upd takes ins item row put mv)
qed

lemma view_retry_credit:
  assumes "\<And>X. preserves (\<lambda>s. shop_view s = X) m"
  shows "shop_view (snd (retry_credit n m s)) = shop_view s"
proof (induction n arbitrary: s)
  case (Suc n)
  have "shop_view (snd (transaction m u)) = shop_view u" for u
    by (rule preservesD[OF preserves_transaction[OF assms]]) simp
  then have "shop_view (snd (tx_attempt m s)) = shop_view s" by (simp add: tx_attempt_def split: list.split)
  then show ?case using Suc by (auto split: prod.split sum.split) 
qed simp

lemma view_credit: "preserves (\<lambda>s. shop_view s = X) (creditDeliveredPurchase store d)"
  unfolding creditDeliveredPurchase_def
  by (intro preserving preservesI) (simp add: view_retry_credit[OF view_credit_body])

lemma view_credit_all: "preserves (\<lambda>s. shop_view s = X) (creditPackagingFromDelivery oid)"
proof -
  have "preserves (\<lambda>s. shop_view s = X) (credit_line x i)" for x i
  proof -
    have "preserves (\<lambda>s. shop_view s = X) (\<lambda>s. (Inr (), snd (creditDeliveredPurchase store d s)))" for store d
      using preservesD[OF view_credit] by (intro preservesI) simp
    then show ?thesis unfolding credit_line_def
      by (auto intro!: preserving split: option.splits prod.splits)
  qed
  then show ?thesis unfolding creditPackagingFromDelivery_def by (intro preserving)
qed

text \<open>An order and what its status says about its dates, its payment and its cancellation.\<close>

definition order_ok :: "shop_order \<Rightarrow> bool" where
  "order_ok x \<longleftrightarrow> so_method x = COD \<and> so_paid x = (so_status x = SO_DELIVERED) \<and>
     (so_deliveredAt x \<noteq> None) = (so_status x = SO_DELIVERED) \<and>
     (so_cancelledAt x \<noteq> None) = (so_status x = SO_CANCELLED) \<and> (so_cancelledBy x \<noteq> None) = (so_status x = SO_CANCELLED) \<and>
     (so_shippedAt x \<noteq> None \<longrightarrow> so_confirmedAt x \<noteq> None) \<and>
     (case so_status x of
        SO_PENDING \<Rightarrow> so_confirmedAt x = None
      | SO_CONFIRMED \<Rightarrow> so_confirmedAt x \<noteq> None \<and> so_shippedAt x = None
      | SO_CANCELLED \<Rightarrow> so_cancelledBy x = Some BY_MERCHANT \<longrightarrow> so_confirmedAt x = None
      | _ \<Rightarrow> so_shippedAt x \<noteq> None)"

text \<open>
  What one order may become: the same purchase at the same price, further along the path, and
  unchanged once it is delivered or cancelled.
\<close>

definition terminal :: "shop_status \<Rightarrow> bool" where
  "terminal st \<longleftrightarrow> st = SO_DELIVERED \<or> st = SO_CANCELLED"

definition evolves :: "shop_order \<Rightarrow> shop_order \<Rightarrow> bool" where
  "evolves x y \<longleftrightarrow> so_id y = so_id x \<and> so_number y = so_number x \<and> so_store y = so_store x \<and>
     so_items y = so_items x \<and> so_total y = so_total x \<and> so_promoId y = so_promoId x \<and>
     (terminal (so_status x) \<longrightarrow> y = x) \<and>
     (so_status y = SO_CANCELLED \<or> rank (so_status x) \<le> rank (so_status y)) \<and>
     (so_confirmedAt x \<noteq> None \<longrightarrow> so_confirmedAt y = so_confirmedAt x)"

definition extends :: "shop_order list \<Rightarrow> shop_order list \<Rightarrow> bool" where
  "extends xs ys \<longleftrightarrow> list_all order_ok ys \<and> (\<exists>us zs. ys = us @ zs \<and> list_all2 evolves xs us)"

lemma evolves_refl: "evolves x x"
  by (simp add: evolves_def)

lemma evolves_trans: "evolves x y \<Longrightarrow> evolves y z \<Longrightarrow> evolves x z"
  by (auto simp: evolves_def terminal_def)

lemma extends_refl: "list_all order_ok xs \<Longrightarrow> extends xs xs"
  unfolding extends_def by (intro conjI exI[of _ xs] exI[of _ "[]"]) (simp_all add: list.rel_refl evolves_refl)

lemma extends_snoc: "extends xs ys \<Longrightarrow> order_ok y \<Longrightarrow> extends xs (ys @ [y])"
  unfolding extends_def by (metis append.assoc list_all_append list.pred_inject)

lemma extends_map:
  assumes "extends xs ys" and f: "\<And>y. order_ok y \<Longrightarrow> order_ok (f y) \<and> evolves y (f y)"
  shows "extends xs (map f ys)"
proof -
  from assms(1) obtain us zs where ys: "ys = us @ zs" "list_all2 evolves xs us" and ok: "list_all order_ok ys"
    by (auto simp: extends_def)
  have "list_all2 evolves xs (map f us)"
    using ys(2) ok f unfolding ys(1) by (induction rule: list_all2_induct) (auto intro: evolves_trans)
  moreover have "list_all order_ok (map f ys)" using ok f by (simp add: list_all_iff)
  ultimately show ?thesis unfolding extends_def ys(1) by auto
qed

lemma allowedFrom_simps:
  "allowedFrom SO_PENDING = []" "allowedFrom SO_CONFIRMED = [SO_PENDING]"
  "allowedFrom SO_SHIPPED = [SO_PENDING, SO_CONFIRMED]"
  "allowedFrom SO_DELIVERED = [SO_PENDING, SO_CONFIRMED, SO_SHIPPED]"
  "allowedFrom SO_CANCELLED = FORWARD"
  by (simp_all add: allowedFrom_def FORWARD_def)

lemma advanced_ok:
  assumes "order_ok x" "so_status x \<in> set (allowedFrom target)" "target \<noteq> SO_CANCELLED"
  shows "order_ok (advanced target tracking now x) \<and> evolves x (advanced target tracking now x)"
proof -
  from assms(2,3) consider "target = SO_CONFIRMED" "so_status x = SO_PENDING" | "target = SO_SHIPPED" "so_status x = SO_PENDING"
    | "target = SO_SHIPPED" "so_status x = SO_CONFIRMED" | "target = SO_DELIVERED" "so_status x = SO_PENDING"
    | "target = SO_DELIVERED" "so_status x = SO_CONFIRMED" | "target = SO_DELIVERED" "so_status x = SO_SHIPPED"
    by (cases target) (auto simp: allowedFrom_simps)
  then show ?thesis using assms(1)
    by cases (cases "so_confirmedAt x"; cases "so_shippedAt x"; simp add: advanced_def order_ok_def evolves_def terminal_def)+
qed

lemma cancelled_ok:
  assumes "order_ok x" "so_status x \<in> set allowed"
    and "allowed = (if who = BY_MERCHANT then MERCHANT_CANCELLABLE else ADMIN_CANCELLABLE)"
  shows "order_ok (cancelled who reason now x) \<and> evolves x (cancelled who reason now x)"
proof -
  from assms(2,3) consider "so_status x = SO_PENDING" | "who = BY_ADMIN" "so_status x = SO_CONFIRMED" | "who = BY_ADMIN" "so_status x = SO_SHIPPED"
    by (cases who) (auto simp: MERCHANT_CANCELLABLE_def ADMIN_CANCELLABLE_def)
  then show ?thesis using assms(1)
    by cases (cases "so_confirmedAt x"; simp add: cancelled_def order_ok_def evolves_def terminal_def)+
qed

lemma view_orders:
  fixes m :: "('a shop_db_scheme, 'b) act"
  assumes "\<And>X. preserves (\<lambda>s. shop_view s = X) m"
  shows "preserves (\<lambda>s. P (shop_orders s)) m"
proof (rule preservesI)
  fix s :: "'a shop_db_scheme" assume "P (shop_orders s)"
  moreover have "shop_view (snd (m s)) = shop_view s" by (rule preservesD[OF assms]) simp
  ultimately show "P (shop_orders (snd (m s)))" by (simp add: shop_view_def)
qed

lemma flip_extends:
  assumes "\<And>x. order_ok x \<Longrightarrow> so_status x \<in> set allowed \<Longrightarrow> order_ok (f x) \<and> evolves x (f x)"
  shows "preserves (\<lambda>s. extends xs (shop_orders s)) (flip_order oid allowed f)"
proof -
  have "preserves (\<lambda>s. extends xs (shop_orders s)) (writing (\<lambda>s. s\<lparr>shop_orders :=
      map (\<lambda>x. if so_id x = oid \<and> so_status x \<in> set allowed then f x else x) (shop_orders s)\<rparr>))"
    by (rule preserves_writing) (use assms in \<open>simp add: extends_map evolves_refl\<close>)
  then show ?thesis unfolding flip_order_def by (intro preserving)
qed

lemma restock_extends: "preserves (\<lambda>s. extends xs (shop_orders s)) (restock bought)"
  unfolding restock_def restock_item_def
  by (intro preserving) (auto intro!: preserving preserves_writing split: option.splits)

lemma cancel_extends:
  assumes "allowed = (if who = BY_MERCHANT then MERCHANT_CANCELLABLE else ADMIN_CANCELLABLE)"
  shows "preserves (\<lambda>s. extends xs (shop_orders s)) (cancel oid who reason allowed now)"
proof -
  have "preserves (\<lambda>s. extends xs (shop_orders s)) (return_promo p)" for p
    unfolding return_promo_def by (intro preserving preserves_writing) simp
  then show ?thesis unfolding cancel_def
    by (intro preserving flip_extends cancelled_ok[OF _ _ assms] restock_extends)
qed

lemma purchases_extends: "preserves (\<lambda>s. extends xs (shop_orders s)) (recordPurchases E oid now rate cur)"
proof -
  have w: "preserves (\<lambda>s. extends xs (shop_orders s)) (writing f)" if "\<And>s. shop_orders (f s) = shop_orders s" for f
    by (rule preserves_writing) (simp add: that)
  have "preserves (\<lambda>s. extends xs (shop_orders s)) take_id"
    unfolding take_id_def by (intro preserving w) simp
  moreover have "preserves (\<lambda>s. extends xs (shop_orders s)) (share_of c i)" for c i
    by (auto simp: share_of_def intro!: preserving split: option.split)
  ultimately show ?thesis
    unfolding recordPurchases_def record_purchase_def createPurchaseExpense_def purchaseCategoryId_def Let_def
    by (intro preserving w) simp_all
qed

lemma advance_extends: "preserves (\<lambda>s. extends xs (shop_orders s)) (advance E oid target tracking now)"
proof -
  let ?I = "\<lambda>s. extends xs (shop_orders s)"
  have tx: "preserves ?I (advance_tx E oid target tracking settlement now)" if "target \<noteq> SO_CANCELLED" for settlement
  proof -
    note flip = flip_extends[OF advanced_ok[OF _ _ that]]
    have "preserves ?I (case settlement of Some (store, _) \<Rightarrow> same_currency store | None \<Rightarrow> ret ())"
      unfolding same_currency_def by (cases settlement) (auto intro!: preserving)
    moreover have "preserves ?I (case settlement of Some (store, rate) \<Rightarrow> recordPurchases E oid now rate (st_baseCurrency store)
        | None \<Rightarrow> ret ())"
      by (cases settlement) (auto intro!: preserving purchases_extends)
    ultimately show ?thesis unfolding advance_tx_def
      by (intro preserves_transaction preserves_andthen preserves_bnd preserving(3-6) flip)
  qed
  have "preserves ?I (settlement_of E oid)" unfolding settlement_of_def by (intro preserving)
  moreover have "preserves ?I (creditPackagingFromDelivery oid)" by (rule view_orders[OF view_credit_all])
  ultimately have rest: "preserves ?I (bnd (if target = SO_DELIVERED then bnd (settlement_of E oid) (\<lambda>x. ret (Some x)) else ret None)
      (\<lambda>settlement. andthen (advance_tx E oid target tracking settlement now)
        (if target = SO_DELIVERED then creditPackagingFromDelivery oid else ret ())))" if "target \<noteq> SO_CANCELLED"
    using tx[OF that] by (intro preserving) 
  show ?thesis
  proof (cases "target = SO_CANCELLED")
    case True
    then show ?thesis by (simp add: advance_def preserves_def andthen_def bnd_def require_def throw_def FORWARD_def)
  next
    case False
    then show ?thesis unfolding advance_def by (intro preserving rest)
  qed
qed

lemma orders_writing:
  "(\<And>s. shop_orders (f s) = shop_orders s) \<Longrightarrow> preserves (\<lambda>s. extends xs (shop_orders s)) (writing f)"
  by (rule preserves_writing) simp

lemma take_id_extends: "preserves (\<lambda>s. extends xs (shop_orders s)) take_id"
  unfolding take_id_def by (intro preserving orders_writing) simp

lemma get_settings_extends: "preserves (\<lambda>s. extends xs (shop_orders s)) get_settings"
  unfolding get_settings_def by (intro preserving orders_writing) simp

lemma take_items_extends: "preserves (\<lambda>s. extends xs (shop_orders s)) (take_items D ls)"
  by (induction ls) (auto intro!: preserving take_id_extends)

lemma create_order_extends: "preserves (\<lambda>s. extends xs (shop_orders s)) (create_order D store user req c a now)"
  unfolding create_order_def Let_def
  by (intro preserving take_id_extends take_items_extends preserves_writing) (simp add: extends_snoc order_ok_def)

lemma compute_extends: "preserves (\<lambda>s. extends xs (shop_orders s)) (compute D store code aid now settings_in_tx)"
proof -
  have "preserves (\<lambda>s. extends xs (shop_orders s)) (check_amounts D p ls)" for p ls
    unfolding check_amounts_def by (intro preserving) (auto intro: preserving)
  then show ?thesis
    unfolding compute_def settings_in_tx_def defaultFor_def require_address_def Let_def
    by (intro preserving)
qed

lemma claim_all_extends: "preserves (\<lambda>s. extends xs (shop_orders s)) (claim_all D store c now)"
proof -
  have lines: "preserves (\<lambda>s. extends xs (shop_orders s)) (reserve_cart_line l)" for l
    unfolding reserve_cart_line_def Let_def by (intro preserving orders_writing) simp_all
  have mirror: "preserves (\<lambda>s. extends xs (shop_orders s)) (mirror_stock i)" for i
    unfolding mirror_stock_def by (rule orders_writing) simp
  have promo: "preserves (\<lambda>s. extends xs (shop_orders s)) (claimPromo D p store sub now)" for p sub
    unfolding claimPromo_def Let_def by (auto intro!: preserving orders_writing split: option.split prod.split)
  have cart: "preserves (\<lambda>s. extends xs (shop_orders s)) (claim_cart store ids)" for ids
    unfolding claim_cart_def by (intro preserving orders_writing) simp
  show ?thesis unfolding claim_all_def reserveStock_def
    by (intro preserves_bnd preserves_andthen preserves_require preserves_for_each cart lines mirror)
      (auto intro!: preserving promo split: option.split prod.split)
qed

lemma place_extends: "preserves (\<lambda>s. extends xs (shop_orders s)) (placeOrder D store user req now at_order)"
proof -
  have "preserves (\<lambda>s. extends xs (shop_orders s)) (order_guards D c)" for c
    unfolding order_guards_def by (intro preserving)
  then show ?thesis unfolding placeOrder_def
    by (intro preserving get_settings_extends compute_extends claim_all_extends create_order_extends)
qed

text \<open>
  The operations on the orders of the shop, in any order and with any outcome, as one step relation:
  checkout, cancellation by the merchant and by an administrator, fulfilment, and the cart's own
  operations in between.
\<close>

inductive shop_step :: "delivery_env \<Rightarrow> shop_db \<Rightarrow> shop_db \<Rightarrow> bool" for E where
  place: "shop_step E s (snd (placeOrder (de_D E) store user req now at_order s))"
| merchant_cancel: "shop_step E s (snd (cancelByMerchant store oid reason now s))"
| admin_cancel: "shop_step E s (snd (cancel oid BY_ADMIN reason ADMIN_CANCELLABLE now s))"
| move_on: "shop_step E s (snd (advance E oid target tracking now s))"
| add_item: "shop_step E s (snd (addItem store product variant quantity s))"
| change_item: "shop_step E s (snd (updateItem store cid quantity s))"
| remove_item: "shop_step E s (snd (removeItem store cid s))"

inductive_cases shop_stepE: "shop_step E s t"

lemma step_extends:
  assumes "shop_step E s t" "extends xs (shop_orders s)"
  shows "extends xs (shop_orders t)"
  using assms
proof (induction rule: shop_step.induct)
  case (place s store user req now at_order)
  then show ?case by (rule preservesD[OF place_extends])
next
  case (merchant_cancel s store oid reason now)
  have "preserves (\<lambda>s. extends xs (shop_orders s)) (cancelByMerchant store oid reason now)"
    unfolding cancelByMerchant_def by (intro preserving cancel_extends) simp
  with merchant_cancel show ?case by (rule preservesD[rotated])
next
  case (admin_cancel s oid reason now)
  have "preserves (\<lambda>s. extends xs (shop_orders s)) (cancel oid BY_ADMIN reason ADMIN_CANCELLABLE now)"
    by (rule cancel_extends) simp
  with admin_cancel show ?case by (rule preservesD[rotated])
next
  case (move_on s oid target tracking now)
  then show ?case by (rule preservesD[OF advance_extends])
next
  case (add_item s store product variant quantity)
  have "preserves (\<lambda>s. extends xs (shop_orders s)) (addItem store product variant quantity)"
    unfolding addItem_def set_quantity_def Let_def
    by (auto intro!: preserving take_id_extends orders_writing split: list.split)
  with add_item show ?case by (rule preservesD[rotated])
next
  case (change_item s store cid quantity)
  have "preserves (\<lambda>s. extends xs (shop_orders s)) (updateItem store cid quantity)"
    unfolding updateItem_def set_quantity_def find_cart_item_def by (intro preserving orders_writing) simp
  with change_item show ?case by (rule preservesD[rotated])
next
  case (remove_item s store cid)
  have "preserves (\<lambda>s. extends xs (shop_orders s)) (removeItem store cid)"
    unfolding removeItem_def by (intro preserving orders_writing) simp
  with remove_item show ?case by (rule preservesD[rotated])
qed

lemma run_extends:
  assumes "(shop_step E)\<^sup>*\<^sup>* s t" "extends xs (shop_orders s)"
  shows "extends xs (shop_orders t)"
  using assms by (induction rule: rtranclp_induct) (auto intro: step_extends)

text \<open>
  C27. The status of an order of the Zomaal shop tells its dates, its payment and its cancellation,
  whatever sequence of checkouts, cancellations, fulfilment steps and cart changes led there, with any
  outcome: an order is paid (cash) and has a delivery date exactly when it is DELIVERED, it has a
  cancellation date and author exactly when it is CANCELLED, a CONFIRMED, SHIPPED or DELIVERED order
  has its confirmation date even if the step was skipped, and an order the merchant cancelled was
  never confirmed.
\<close>

theorem order_lifecycle:
  assumes "(shop_step E)\<^sup>*\<^sup>* s t" and "list_all order_ok (shop_orders s)"
  shows "list_all order_ok (shop_orders t)"
  using run_extends[OF assms(1) extends_refl[OF assms(2)]] by (simp add: extends_def)

definition sample_env :: delivery_env where
  "sample_env = \<lparr>de_D = half_up_lib 20, de_P = half_up_lib 60, de_locale = (\<lambda>a b. if a = b then 0 else 1),
     de_rates = (\<lambda>_. None), de_text = (\<lambda>_. ''1'')\<rparr>"

lemma placed_step: "shop_step sample_env cart_db placed_db"
proof -
  obtain oid where "placeOrder (half_up_lib 20) ''shop'' ''ali'' sample_request 5 6 cart_db = (Inr oid, placed_db)"
    using sample_placed by blast
  moreover have "de_D sample_env = half_up_lib 20" by (simp add: sample_env_def)
  ultimately show ?thesis
    using shop_step.place[of sample_env cart_db "''shop''" "''ali''" sample_request 5 6] by simp
qed

lemma order_lifecycle_witness: "list_all order_ok (shop_orders placed_db) \<and> shop_orders placed_db \<noteq> []"
proof -
  have "shop_orders cart_db = []" by (simp add: cart_db_def empty_shop_db_def)
  then have "list_all order_ok (shop_orders cart_db)" by simp
  from order_lifecycle[OF r_into_rtranclp[of "shop_step sample_env", OF placed_step] this]
  have "list_all order_ok (shop_orders placed_db)" .
  moreover have "shop_orders placed_db \<noteq> []" using sample_stock(3) by code_simp
  ultimately show ?thesis by simp
qed

text \<open>
  C28. Orders only move forward and are never lost or rewritten: after any run, the orders there were
  are still there in their places with the same number, store, items, total and promo code, a
  delivered or cancelled order is exactly as it was, any other is at the same step or a later one (or
  cancelled), and a confirmation date once set is kept.
\<close>

theorem orders_only_advance:
  assumes "(shop_step E)\<^sup>*\<^sup>* s t" and "list_all order_ok (shop_orders s)"
  shows "\<exists>us zs. shop_orders t = us @ zs \<and> list_all2 evolves (shop_orders s) us"
  using run_extends[OF assms(1) extends_refl[OF assms(2)]] by (auto simp: extends_def)

definition cancelled_db :: shop_db where
  "cancelled_db = snd (cancelByMerchant ''shop'' ''id-0'' (Some ''late'') 9 placed_db)"

lemma orders_only_advance_witness:
  "\<exists>x y. shop_orders placed_db = [x] \<and> shop_orders cancelled_db = [y] \<and> evolves x y \<and> so_status y = SO_CANCELLED"
proof -
  have "(shop_step sample_env)\<^sup>*\<^sup>* placed_db cancelled_db"
    unfolding cancelled_db_def by (rule r_into_rtranclp) (rule shop_step.merchant_cancel)
  moreover have "list_all order_ok (shop_orders placed_db)" unfolding order_ok_def by code_simp
  ultimately obtain us zs where us: "shop_orders cancelled_db = us @ zs" "list_all2 evolves (shop_orders placed_db) us"
    using orders_only_advance by blast
  have "length (shop_orders placed_db) = 1" "map so_status (shop_orders cancelled_db) = [SO_CANCELLED]" by code_simp+
  moreover from this us obtain x where "shop_orders placed_db = [x]" by (auto simp: length_Suc_conv)
  ultimately show ?thesis using us by (auto simp: list_all2_Cons1 map_eq_Cons_conv)
qed

text \<open>
  The timeline the app draws is coherent for every order a run can produce: exactly one step is
  current, the completed steps are the first ones, and a step is completed exactly when it has its
  date.
\<close>

theorem timeline_coherent:
  assumes "(shop_step E)\<^sup>*\<^sup>* s t" and "shop_orders s = []" and "x \<in> set (shop_orders t)"
  shows "length (filter ss_current (buildStatusSteps x)) = 1 \<and>
    filter ss_completed (buildStatusSteps x) = takeWhile ss_completed (buildStatusSteps x) \<and>
    list_all (\<lambda>st. ss_completed st \<longleftrightarrow> ss_at st \<noteq> None) (buildStatusSteps x)"
proof -
  have "extends [] (shop_orders s)" by (simp add: extends_def assms(2))
  with run_extends[OF assms(1)] have "extends [] (shop_orders t)" by blast
  then have "order_ok x" using assms(3) by (auto simp: extends_def list_all_iff)
  then show ?thesis
    by (cases "so_status x"; cases "so_confirmedAt x"; cases "so_shippedAt x"; cases "so_deliveredAt x"; cases "so_cancelledAt x";
        simp add: buildStatusSteps_def order_ok_def)
qed

lemma timeline_coherent_witness:
  "\<exists>x. shop_orders placed_db = [x] \<and> length (filter ss_current (buildStatusSteps x)) = 1"
proof -
  have "length (shop_orders placed_db) = 1" by code_simp
  then obtain x where x: "shop_orders placed_db = [x]" by (auto simp: length_Suc_conv)
  have "shop_orders cart_db = []" by (simp add: cart_db_def empty_shop_db_def)
  from timeline_coherent[OF r_into_rtranclp[of "shop_step sample_env", OF placed_step] this, of x] x show ?thesis by simp
qed

section \<open>What a delivery posts\<close>

lemma createPurchaseExpense_ok:
  assumes "createPurchaseExpense i s = (Inr e, t)"
  shows "\<exists>x. shop_expenses t = shop_expenses s @ [x] \<and> xp_id x = e \<and> xp_amount x = xi_amount i \<and>
    xp_spentAt x = xi_spentAt i \<and> xp_store x = xi_store i \<and> shop_purchases t = shop_purchases s \<and> shop_orders t = shop_orders s"
proof -
  from assms obtain c m n where c: "purchaseCategoryId (xi_store i) s = (Inr c, m)" and n: "take_id m = (Inr e, n)"
    and t: "t = n\<lparr>shop_expenses := shop_expenses n @ [\<lparr>xp_id = e, xp_store = xi_store i, xp_category = c,
        xp_title = purchaseExpenseTitle (xi_productName i), xp_amount = xi_amount i, xp_bank = xi_bank i,
        xp_spentAt = xi_spentAt i, xp_notes = xi_notes i, xp_createdBy = xi_createdBy i\<rparr>]\<rparr>"
    unfolding createPurchaseExpense_def by (elim bndE andthenE) (auto simp: writing_ok ret_ok)
  have "shop_view m = shop_view s" using c unfolding purchaseCategoryId_def
    by (elim bndE) (auto simp: run_ok take_id_def split: option.splits list.splits)
  moreover have "shop_view n = shop_view m" using n by (auto simp: take_id_def run_ok)
  ultimately show ?thesis unfolding t by (auto simp: shop_view_def)
qed

lemma share_of_ok: "share_of c i s = (Inr v, t) \<longleftrightarrow> map_of c i = Some (Some v) \<and> t = s"
  by (auto simp: share_of_def ret_ok throw_ok split: option.splits)

definition share :: "(string \<times> rat option) list \<Rightarrow> string \<Rightarrow> rat" where
  "share c i = the (the (map_of c i))"

definition posted :: "shop_order \<Rightarrow> int \<Rightarrow> shop_purchase \<Rightarrow> order_item \<Rightarrow> bool" where
  "posted x now p i \<longleftrightarrow> pu_item p = oi_id i \<and> pu_store p = so_store x \<and> pu_product p = oi_product i \<and>
     pu_quantity p = oi_quantity i \<and> pu_currency p = so_currency x \<and> pu_date p = now"

lemma record_purchase_ok:
  assumes "record_purchase E x pc ec recorded now rate cur i s = (Inr u, t)" "oi_id i \<notin> recorded"
  shows "\<exists>p e. shop_purchases t = shop_purchases s @ [p] \<and> shop_expenses t = shop_expenses s @ [e] \<and>
    shop_orders t = shop_orders s \<and> posted x now p i \<and> pu_total p = share pc (oi_id i) \<and>
    xp_amount e = share ec (oi_id i) \<and> pu_expense p = xp_id e"
proof -
  from assms obtain cost xcost inp m e where e: "createPurchaseExpense inp s = (Inr e, m)"
    and c: "map_of ec (oi_id i) = Some (Some xcost)" "map_of pc (oi_id i) = Some (Some cost)"
    and inp: "xi_amount inp = xcost"
    and t: "t = m\<lparr>shop_purchases := shop_purchases m @ [purchase_row (de_D E) x i cost now e]\<rparr>"
    unfolding record_purchase_def by (auto simp: bnd_ok share_of_ok writing_ok)
  have "posted x now (purchase_row (de_D E) x i cost now e) i" "pu_total (purchase_row (de_D E) x i cost now e) = cost"
    "pu_expense (purchase_row (de_D E) x i cost now e) = e" by (simp_all add: posted_def purchase_row_def)
  with createPurchaseExpense_ok[OF e] c inp show ?thesis by (auto simp: share_def t)
qed

lemma record_all_ok:
  "for_each (record_purchase E x pc ec recorded now rate cur) its s = (Inr u, t) \<Longrightarrow> oi_id ` set its \<inter> recorded = {} \<Longrightarrow>
   \<exists>ps es. shop_purchases t = shop_purchases s @ ps \<and> shop_expenses t = shop_expenses s @ es \<and> shop_orders t = shop_orders s \<and>
    list_all2 (posted x now) ps its \<and> map pu_total ps = map (share pc \<circ> oi_id) its \<and>
    map xp_amount es = map (share ec \<circ> oi_id) its \<and> map pu_expense ps = map xp_id es"
proof (induction its arbitrary: s)
  case Nil
  then show ?case by (auto simp: ret_ok)
next
  case (Cons i its)
  from Cons.prems(1) obtain a m where i: "record_purchase E x pc ec recorded now rate cur i s = (Inr a, m)"
    and rest: "for_each (record_purchase E x pc ec recorded now rate cur) its m = (Inr u, t)" by (auto simp: andthen_ok)
  from record_purchase_ok[OF i] Cons.prems(2) obtain p e where m: "shop_purchases m = shop_purchases s @ [p]"
    "shop_expenses m = shop_expenses s @ [e]" "shop_orders m = shop_orders s" "posted x now p i"
    "pu_total p = share pc (oi_id i)" "xp_amount e = share ec (oi_id i)" "pu_expense p = xp_id e" by auto
  from Cons.IH[OF rest] Cons.prems(2) obtain ps es where t: "shop_purchases t = shop_purchases m @ ps"
    "shop_expenses t = shop_expenses m @ es" "shop_orders t = shop_orders m" "list_all2 (posted x now) ps its"
    "map pu_total ps = map (share pc \<circ> oi_id) its" "map xp_amount es = map (share ec \<circ> oi_id) its"
    "map pu_expense ps = map xp_id es" by auto
  show ?case by (rule exI[of _ "p # ps"], rule exI[of _ "e # es"]) (simp add: m t)
qed

lemma sum_shares:
  assumes "distinct ids" "mset (map fst shares) = mset ids"
  shows "(\<Sum>i\<leftarrow>ids. share (map (\<lambda>(k, x). (k, Some x)) shares) i) = (\<Sum>(k, x)\<leftarrow>shares. x)"
proof -
  let ?m = "map (\<lambda>(k, x). (k, Some x)) shares"
  have d: "distinct (map fst shares)" using assms by (metis mset_eq_imp_distinct_iff)
  have "(\<Sum>i\<leftarrow>ids. share ?m i) = (\<Sum>i\<leftarrow>map fst shares. share ?m i)"
    using arg_cong[OF assms(2), of "\<lambda>M. sum_mset (image_mset (share ?m) M)"]
    by (simp only: mset_map[symmetric] sum_mset_sum_list)
  also have "\<dots> = (\<Sum>(k, x)\<leftarrow>shares. x)"
  proof -
    have "share ?m (fst kx) = snd kx" if "kx \<in> set shares" for kx
    proof -
      have "map_of ?m (fst kx) = Some (Some (snd kx))"
        using that d by (intro map_of_is_SomeI) (auto simp: comp_def case_prod_unfold image_iff intro!: bexI[of _ kx])
      then show ?thesis by (simp add: share_def)
    qed
    then have "map (share ?m) (map fst shares) = map (\<lambda>(k, x). x) shares"
      unfolding map_map comp_def case_prod_unfold by (intro map_cong refl) 
    then show ?thesis by (simp only:)
  qed
  finally show ?thesis .
qed

lemma allocation_bounds: "allocateShopCosts P lc its paid = Inr r \<Longrightarrow> 0 \<le> paid \<and> paid < 10 ^ 16"
  using assertPersistedMoney_ok[of paid "''Purchase cost''"]
  by (auto simp: allocateShopCosts_def split: sum.splits)

lemma shares_total:
  assumes "decimal_laws P" "60 \<le> digits P" "basket its" "allocateShopCosts P lc its paid = Inr r"
  shows "(\<Sum>i\<leftarrow>map ci_id its. share r i) = places P 2 paid"
proof -
  from decimal_laws.allocation[OF assms(1,2,3), of paid lc] allocation_bounds[OF assms(4)] assms(4)
  obtain shares where s: "r = map (\<lambda>(k, x). (k, Some x)) shares" "mset (map fst shares) = mset (map ci_id its)"
    "(\<Sum>(k, x)\<leftarrow>shares. x) = places P 2 paid" by auto
  moreover have "distinct (map ci_id its)" using assms(3) by (simp add: basket_def)
  ultimately show ?thesis using sum_shares by metis
qed
lemma recordPurchases_ok:
  assumes laws: "decimal_laws (de_P E)" "60 \<le> digits (de_P E)" and x: "find_shop_order s oid = Some x" "basket (cost_items x)"
    and fresh: "oi_id ` set (so_items x) \<inter> pu_item ` set (shop_purchases s) = {}"
    and run: "recordPurchases E oid now rate cur s = (Inr u, t)"
  shows "\<exists>ps es. shop_purchases t = shop_purchases s @ ps \<and> shop_expenses t = shop_expenses s @ es \<and>
    shop_orders t = shop_orders s \<and> list_all2 (posted x now) ps (so_items x) \<and> map pu_expense ps = map xp_id es \<and>
    (\<Sum>p\<leftarrow>ps. pu_total p) = places (de_P E) 2 (so_total x) \<and>
    (\<Sum>e\<leftarrow>es. xp_amount e) = places (de_P E) 2 (places (de_D E) 2 (dtimes (de_D E) (so_total x) rate))"
proof -
  let ?conv = "places (de_D E) 2 (dtimes (de_D E) (so_total x) rate)"
  from run x(1) obtain pc ec where pc: "allocateShopCosts (de_P E) (de_locale E) (cost_items x) (so_total x) = Inr pc"
    and ec: "allocateShopCosts (de_P E) (de_locale E) (cost_items x) ?conv = Inr ec"
    and all: "for_each (record_purchase E x pc ec
        (pu_item ` set (filter (\<lambda>p. pu_item p \<in> oi_id ` set (so_items x)) (shop_purchases s))) now rate cur) (so_items x) s = (Inr u, t)"
    unfolding recordPurchases_def Let_def by (auto simp: bnd_ok andthen_ok reading_ok found_ok lift_sum_ok)
  have none: "oi_id ` set (so_items x) \<inter> (pu_item ` set (filter (\<lambda>p. pu_item p \<in> oi_id ` set (so_items x)) (shop_purchases s))) = {}"
    using fresh by auto
  from record_all_ok[OF all none] obtain ps es where r: "shop_purchases t = shop_purchases s @ ps"
    "shop_expenses t = shop_expenses s @ es" "shop_orders t = shop_orders s" "list_all2 (posted x now) ps (so_items x)"
    "map pu_total ps = map (share pc \<circ> oi_id) (so_items x)" "map xp_amount es = map (share ec \<circ> oi_id) (so_items x)"
    "map pu_expense ps = map xp_id es" by blast
  have ids: "map ci_id (cost_items x) = map oi_id (so_items x)" by (simp add: cost_items_def comp_def)
  have "map (share c \<circ> oi_id) (so_items x) = map (share c) (map ci_id (cost_items x))" for c by (simp add: ids)
  then have "(\<Sum>p\<leftarrow>ps. pu_total p) = places (de_P E) 2 (so_total x)" "(\<Sum>e\<leftarrow>es. xp_amount e) = places (de_P E) 2 ?conv"
    unfolding r(5,6) using shares_total[OF laws x(2) pc] shares_total[OF laws x(2) ec] by simp_all
  with r show ?thesis by blast
qed

lemma find_order_flipped:
  assumes x: "find_shop_order s oid = Some x" and d: "distinct (map so_id (shop_orders s))"
    and f: "\<And>y. so_id (f y) = so_id y" and run: "flip_order oid allowed f s = (Inr n, t)" "n \<noteq> 0"
  shows "so_status x \<in> set allowed \<and> find_shop_order t oid = Some (f x)"
    and "t = s\<lparr>shop_orders := shop_orders t\<rparr>"
proof -
  let ?g = "\<lambda>y. if so_id y = oid \<and> so_status y \<in> set allowed then f y else y"
  from run have t: "t = s\<lparr>shop_orders := map ?g (shop_orders s)\<rparr>"
    and n: "filter (\<lambda>y. so_id y = oid \<and> so_status y \<in> set allowed) (shop_orders s) \<noteq> []"
    by (auto simp: flip_order_def run_ok)
  from x have x': "x \<in> set (shop_orders s)" "so_id x = oid"
    using find_Some_set[OF x[unfolded find_shop_order_def]] by auto
  from n obtain y where "y \<in> set (shop_orders s)" "so_id y = oid" "so_status y \<in> set allowed"
    by (auto simp: filter_empty_conv)
  with x' d have st: "so_status x \<in> set allowed" by (metis distinct_map inj_on_eq_iff)
  have "find (\<lambda>y. so_id y = oid) (map ?g ys) = map_option ?g (find (\<lambda>y. so_id y = oid) ys)" for ys
    by (induction ys) (auto simp: f)
  then show "so_status x \<in> set allowed \<and> find_shop_order t oid = Some (f x)"
    using x st x'(2) by (simp add: find_shop_order_def t)
  show "t = s\<lparr>shop_orders := shop_orders t\<rparr>" by (simp add: t)
qed

lemma delivered_order:
  assumes laws: "decimal_laws (de_P E)" "60 \<le> digits (de_P E)" and x: "find_shop_order s oid = Some x" "basket (cost_items x)"
    and d: "distinct (map so_id (shop_orders s))"
    and fresh: "oi_id ` set (so_items x) \<inter> pu_item ` set (shop_purchases s) = {}"
    and store: "find (\<lambda>y. st_id y = so_store x) (stores s) = Some store"
    and rate: "convertAmount (de_D E) (de_rates E) 1 (so_currency x) (st_baseCurrency store) = Inr rate"
    and run: "advance E oid SO_DELIVERED tracking now s = (Inr u, t)"
  shows "find_shop_order t oid = Some (advanced SO_DELIVERED tracking now x) \<and>
    (\<exists>ps es. shop_purchases t = shop_purchases s @ ps \<and> shop_expenses t = shop_expenses s @ es \<and>
      list_all2 (posted x now) ps (so_items x) \<and> map pu_expense ps = map xp_id es \<and>
      (\<Sum>p\<leftarrow>ps. pu_total p) = places (de_P E) 2 (so_total x) \<and>
      (\<Sum>e\<leftarrow>es. xp_amount e) = places (de_P E) 2 (places (de_D E) 2 (dtimes (de_D E) (so_total x) rate)))"
proof -
  from run x(1) store rate obtain a m where tx: "advance_tx E oid SO_DELIVERED tracking (Some (store, rate)) now s = (Inr a, m)"
    and credit: "creditPackagingFromDelivery oid m = (Inr u, t)"
    unfolding advance_def settlement_of_def
    by (auto simp: bnd_ok andthen_ok reading_ok found_ok lift_sum_ok ret_ok require_ok)
  from tx x(1) obtain n w where n: "flip_order oid (allowedFrom SO_DELIVERED) (advanced SO_DELIVERED tracking now) s = (Inr n, w)" "n \<noteq> 0"
    and rec: "recordPurchases E oid now rate (st_baseCurrency store) w = (Inr a, m)"
    unfolding advance_tx_def same_currency_def transaction_ok
    by (auto simp: bnd_ok andthen_ok reading_ok found_ok require_ok)
  let ?y = "advanced SO_DELIVERED tracking now x"
  have "so_id (advanced SO_DELIVERED tracking now y) = so_id y" for y by (simp add: advanced_def)
  note flip = find_order_flipped[OF x(1) d this n]
  have y: "so_items ?y = so_items x" "so_total ?y = so_total x" "cost_items ?y = cost_items x" "posted ?y = posted x"
    by (simp_all add: advanced_def cost_items_def posted_def fun_eq_iff)
  have same: "shop_purchases w = shop_purchases s" "shop_expenses w = shop_expenses s" by (subst flip(2), simp)+
  from recordPurchases_ok[OF laws conjunct2[OF flip(1)] _ _ rec, unfolded y same, OF x(2) fresh]
  obtain ps es where r: "shop_purchases m = shop_purchases s @ ps" "shop_expenses m = shop_expenses s @ es"
    "shop_orders m = shop_orders w" "list_all2 (posted x now) ps (so_items x)" "map pu_expense ps = map xp_id es"
    "(\<Sum>p\<leftarrow>ps. pu_total p) = places (de_P E) 2 (so_total x)"
    "(\<Sum>e\<leftarrow>es. xp_amount e) = places (de_P E) 2 (places (de_D E) 2 (dtimes (de_D E) (so_total x) rate))" by blast
  have "shop_view t = shop_view m" using preserves_step[OF view_credit_all credit] by simp
  then have "shop_orders t = shop_orders w" "shop_purchases t = shop_purchases s @ ps" "shop_expenses t = shop_expenses s @ es"
    using r(1-3) by (simp_all add: shop_view_def)
  moreover have "find_shop_order t oid = find_shop_order w oid" using calculation(1) by (simp add: find_shop_order_def)
  ultimately show ?thesis using flip(1) r(4-7) by auto
qed
text \<open>Nothing in the posting itself can fail.\<close>

lemma allocation_runs:
  assumes "decimal_laws P" "60 \<le> digits P" "basket its" "0 \<le> paid" "paid < 10 ^ 16"
  shows "\<exists>r. allocateShopCosts P lc its paid = Inr r \<and> (\<forall>i \<in> set its. \<exists>v. map_of r (ci_id i) = Some (Some v))"
proof -
  from decimal_laws.allocation[OF assms, of lc] obtain shares where
    r: "allocateShopCosts P lc its paid = Inr (map (\<lambda>(k, x). (k, Some x)) shares)"
    and m: "mset (map fst shares) = mset (map ci_id its)" by blast
  have "\<exists>v. map_of (map (\<lambda>(k, x). (k, Some x)) shares) (ci_id i) = Some (Some v)" if i: "i \<in> set its" for i
  proof -
    have "ci_id i \<in> set (map fst shares)" using i mset_eq_setD[OF m] by simp
    then have "map_of shares (ci_id i) \<noteq> None" by (simp add: map_of_eq_None_iff)
    then show ?thesis by (auto simp: map_of_map)
  qed
  with r show ?thesis by blast
qed

lemma createPurchaseExpense_runs: "\<exists>e t. createPurchaseExpense i s = (Inr e, t)"
proof -
  have "\<exists>c m. purchaseCategoryId store s = (Inr c, m)" for store
    by (auto simp: purchaseCategoryId_def bnd_def reading_def andthen_def writing_def ret_def take_id_run split: option.split list.split)
  then obtain c m where "purchaseCategoryId (xi_store i) s = (Inr c, m)" by blast
  then show ?thesis unfolding createPurchaseExpense_def
    by (simp add: bnd_def take_id_run andthen_def writing_def ret_def)
qed

lemma record_all_runs:
  assumes "\<forall>i \<in> set its. (\<exists>v. map_of pc (oi_id i) = Some (Some v)) \<and> (\<exists>v. map_of ec (oi_id i) = Some (Some v))"
  shows "\<exists>t. for_each (record_purchase E x pc ec recorded now rate cur) its s = (Inr (), t)"
  using assms
proof (induction its arbitrary: s)
  case (Cons i its)
  from Cons.prems obtain v w where v: "share_of pc (oi_id i) s = (Inr v, s)" "share_of ec (oi_id i) s = (Inr w, s)"
    by (auto simp: share_of_def ret_def)
  have "\<exists>m. record_purchase E x pc ec recorded now rate cur i s = (Inr (), m)"
  proof (cases "oi_id i \<in> recorded")
    case False
    have "\<exists>m. bnd (createPurchaseExpense inp) (\<lambda>e. writing (f e)) s = (Inr (), m)" for inp f
      using createPurchaseExpense_runs[of inp s] by (auto simp: bnd_def writing_def)
    then show ?thesis using False
      by (simp only: record_purchase_def v if_False bnd_run ret_def)
  qed (simp add: record_purchase_def ret_def)
  then obtain m where "record_purchase E x pc ec recorded now rate cur i s = (Inr (), m)" by blast
  moreover obtain t where "for_each (record_purchase E x pc ec recorded now rate cur) its m = (Inr (), t)"
    using Cons.IH Cons.prems by auto
  ultimately show ?case by (auto simp: andthen_run)
qed (simp add: ret_def)

lemma recordPurchases_runs:
  assumes laws: "decimal_laws (de_P E)" "60 \<le> digits (de_P E)" and x: "find_shop_order s oid = Some x" "basket (cost_items x)"
    and total: "0 \<le> so_total x" "so_total x < 10 ^ 16"
    and conv: "0 \<le> places (de_D E) 2 (dtimes (de_D E) (so_total x) rate)" "places (de_D E) 2 (dtimes (de_D E) (so_total x) rate) < 10 ^ 16"
  shows "\<exists>t. recordPurchases E oid now rate cur s = (Inr (), t)"
proof -
  let ?conv = "places (de_D E) 2 (dtimes (de_D E) (so_total x) rate)"
  from allocation_runs[OF laws x(2) total] obtain pc where
    pc: "allocateShopCosts (de_P E) (de_locale E) (cost_items x) (so_total x) = Inr pc"
    "\<forall>i \<in> set (cost_items x). \<exists>v. map_of pc (ci_id i) = Some (Some v)" by blast
  from allocation_runs[OF laws x(2) conv] obtain ec where
    ec: "allocateShopCosts (de_P E) (de_locale E) (cost_items x) ?conv = Inr ec"
    "\<forall>i \<in> set (cost_items x). \<exists>v. map_of ec (ci_id i) = Some (Some v)" by blast
  have "assertPersistedMoney ?conv ''Converted purchase cost'' = Inr ()" using conv assertPersistedMoney_ok by auto
  moreover have "\<forall>i \<in> set (so_items x). (\<exists>v. map_of pc (oi_id i) = Some (Some v)) \<and> (\<exists>v. map_of ec (oi_id i) = Some (Some v))"
    using pc(2) ec(2) by (simp add: cost_items_def)
  ultimately show ?thesis
    using record_all_runs x(1) by (auto simp: recordPurchases_def Let_def pc(1) ec(1) bnd_def andthen_def reading_def found_def lift_sum_def ret_def)
qed

lemma credit_all_runs: "\<exists>t. creditPackagingFromDelivery oid s = (Inr (), t)"
proof -
  have one: "\<exists>t. credit_line x i s = (Inr (), t)" for x i and s :: "'a shop_db_scheme"
    by (auto simp: credit_line_def ret_def bnd_def reading_def split: option.split prod.split)
  have "\<exists>t. for_each (credit_line x) its s = (Inr (), t)" for x its and s :: "'a shop_db_scheme"
  proof (induction its arbitrary: s)
    case (Cons i its)
    from one obtain m where "credit_line x i s = (Inr (), m)" by blast
    with Cons show ?case by (simp add: andthen_run)
  qed (simp add: ret_def)
  then show ?thesis
    by (auto simp: creditPackagingFromDelivery_def bnd_def reading_def ret_def split: option.split)
qed

lemma delivery_runs:
  assumes laws: "decimal_laws (de_P E)" "60 \<le> digits (de_P E)" and x: "find_shop_order s oid = Some x" "basket (cost_items x)"
    and d: "so_status x \<in> set (allowedFrom SO_DELIVERED)"
    and store: "find (\<lambda>y. st_id y = so_store x) (stores s) = Some store"
    and rate: "convertAmount (de_D E) (de_rates E) 1 (so_currency x) (st_baseCurrency store) = Inr rate"
    and total: "0 \<le> so_total x" "so_total x < 10 ^ 16"
    and conv: "0 \<le> places (de_D E) 2 (dtimes (de_D E) (so_total x) rate)" "places (de_D E) 2 (dtimes (de_D E) (so_total x) rate) < 10 ^ 16"
  shows "\<exists>t. advance E oid SO_DELIVERED tracking now s = (Inr (), t)"
proof -
  let ?f = "advanced SO_DELIVERED tracking now"
  let ?g = "\<lambda>y. if so_id y = oid \<and> so_status y \<in> set (allowedFrom SO_DELIVERED) then ?f y else y"
  let ?w = "s\<lparr>shop_orders := map ?g (shop_orders s)\<rparr>"
  have x': "x \<in> set (shop_orders s)" "so_id x = oid" using find_Some_set[OF x(1)[unfolded find_shop_order_def]] by auto
  then obtain n where n: "flip_order oid (allowedFrom SO_DELIVERED) ?f s = (Inr n, ?w)" "n \<noteq> 0"
    using d by (auto simp: flip_order_def bnd_def reading_def andthen_def writing_def ret_def filter_empty_conv)
  have "find (\<lambda>y. so_id y = oid) (map ?g ys) = map_option ?g (find (\<lambda>y. so_id y = oid) ys)" for ys
    by (induction ys) (auto simp: advanced_def)
  then have w: "find_shop_order ?w oid = Some (?f x)" using x(1) d x'(2) by (simp add: find_shop_order_def)
  have f: "so_total (?f x) = so_total x" "cost_items (?f x) = cost_items x" by (simp_all add: advanced_def cost_items_def)
  from recordPurchases_runs[OF laws w, unfolded f, OF x(2) total conv] obtain m
    where m: "recordPurchases E oid now rate (st_baseCurrency store) ?w = (Inr (), m)" by blast
  have sid: "st_id store = so_store x" using find_Some_set[OF store] by simp
  have cur: "same_currency store s = (Inr (), s)"
    using store by (simp add: same_currency_def bnd_def reading_def require_def ret_def sid)
  have look: "reading (\<lambda>s. find_shop_order s oid) s = (Inr (Some x), s)" by (simp add: reading_def x(1))
  have "advance_tx E oid SO_DELIVERED tracking (Some (store, rate)) now s = (Inr (), m)"
  proof -
    have "found (Some x) e s = (Inr x, s)" "require (n \<noteq> 0) e ?w = (Inr (), ?w)" for e
      using n(2) by (simp_all add: found_def require_def ret_def)
    then show ?thesis unfolding advance_tx_def transaction_ok option.case prod.case
      by (simp only: andthen_run bnd_run cur look n(1) m)
  qed
  moreover have "settlement_of E oid s = (Inr (store, rate), s)"
    using store by (simp add: settlement_of_def bnd_def reading_def found_def lift_sum_def ret_def x(1) rate)
  moreover obtain t where "creditPackagingFromDelivery oid m = (Inr (), t)" using credit_all_runs by blast
  ultimately have "advance E oid SO_DELIVERED tracking now s = (Inr (), t)"
    by (simp add: advance_def andthen_def bnd_def require_def ret_def FORWARD_def)
  then show ?thesis by blast
qed
text \<open>
  C30. A delivery goes through and posts the purchase to the cent: advancing an undelivered order to
  DELIVERED succeeds whenever its store exists, an exchange rate is known and the total is storable in
  both currencies. One purchase and one expense are then recorded for each of its items, in order,
  each purchase linked to its expense; the purchases add up to the order's total and the expenses to
  that total converted; the order is delivered, dated and (for cash on delivery) paid. The packaging
  credit that follows changes none of this.
\<close>

theorem delivery_posts_total:
  assumes "decimal_laws (de_P E)" and "60 \<le> digits (de_P E)" and "find_shop_order s oid = Some x" and "basket (cost_items x)"
    and "distinct (map so_id (shop_orders s))" and "oi_id ` set (so_items x) \<inter> pu_item ` set (shop_purchases s) = {}"
    and "so_status x \<in> set (allowedFrom SO_DELIVERED)"
    and "find (\<lambda>y. st_id y = so_store x) (stores s) = Some store"
    and "convertAmount (de_D E) (de_rates E) 1 (so_currency x) (st_baseCurrency store) = Inr rate"
    and "0 \<le> so_total x" and "so_total x < 10 ^ 16" and "converted = places (de_D E) 2 (dtimes (de_D E) (so_total x) rate)"
    and "0 \<le> converted" and "converted < 10 ^ 16"
  shows "\<exists>t ps es. advance E oid SO_DELIVERED tracking now s = (Inr (), t) \<and>
    find_shop_order t oid = Some (advanced SO_DELIVERED tracking now x) \<and>
    shop_purchases t = shop_purchases s @ ps \<and> shop_expenses t = shop_expenses s @ es \<and>
    list_all2 (posted x now) ps (so_items x) \<and> map pu_expense ps = map xp_id es \<and>
    (\<Sum>p\<leftarrow>ps. pu_total p) = places (de_P E) 2 (so_total x) \<and> (\<Sum>e\<leftarrow>es. xp_amount e) = places (de_P E) 2 converted"
proof -
  from delivery_runs[OF assms(1-4) assms(7-11) assms(13,14)[unfolded assms(12)]] obtain t
    where t: "advance E oid SO_DELIVERED tracking now s = (Inr (), t)" by blast
  show ?thesis using t delivered_order[OF assms(1-6) assms(8,9) t] unfolding assms(12) by blast
qed

definition shipped_order :: shop_order where
  "shipped_order = \<lparr>so_id = ''o1'', so_number = 7, so_store = ''shop'', so_placedBy = ''ali'', so_status = SO_SHIPPED,
     so_method = COD, so_paid = False, so_currency = ''MAD'', so_subtotal = 20, so_discount = 0, so_deliveryFee = 30,
     so_total = 50, so_promoId = None, so_promoCode = None, so_ship = sample_address, so_note = None, so_tracking = None,
     so_createdAt = 1, so_confirmedAt = Some 2, so_shippedAt = Some 3, so_deliveredAt = None, so_cancelledAt = None,
     so_cancelledBy = None, so_cancelReason = None,
     so_items = [\<lparr>oi_id = ''i1'', oi_product = None, oi_variant = None, oi_name = ''Box'', oi_variantLabel = None,
       oi_unitLabel = ''piece'', oi_image = None, oi_unitPrice = 10, oi_quantity = 2, oi_lineTotal = 20\<rparr>]\<rparr>"

definition shipped_db :: shop_db where
  "shipped_db = cart_db\<lparr>shop_orders := [shipped_order],
     categories := [\<lparr>ec_id = ''cat'', ec_store = ''shop'', ec_purchases = True, ec_system = True\<rparr>]\<rparr>"

lemma delivery_posts_total_witness:
  "\<exists>t. advance sample_env ''o1'' SO_DELIVERED None 9 shipped_db = (Inr (), t) \<and> (\<Sum>p\<leftarrow>shop_purchases t. pu_total p) = 50 \<and>
     (\<Sum>e\<leftarrow>shop_expenses t. xp_amount e) = 50"
proof -
  let ?store = "\<lparr>st_id = ''shop'', st_active = True, st_baseCurrency = ''MAD''\<rparr>"
  have x: "find_shop_order shipped_db ''o1'' = Some shipped_order" "distinct (map so_id (shop_orders shipped_db))"
    "shop_purchases shipped_db = []" "shop_expenses shipped_db = []" "so_total shipped_order = 50"
    "so_status shipped_order \<in> set (allowedFrom SO_DELIVERED)"
    "find (\<lambda>y. st_id y = so_store shipped_order) (stores shipped_db) = Some ?store"
    by (simp_all add: find_shop_order_def shipped_db_def cart_db_def empty_shop_db_def shipped_order_def allowedFrom_simps)
  have E: "de_P sample_env = half_up_lib 60" "de_D sample_env = half_up_lib 20" by (simp_all add: sample_env_def)
  have rate: "convertAmount (half_up_lib 20) (de_rates sample_env) 1 (so_currency shipped_order) (st_baseCurrency ?store) = Inr 1"
    by (simp add: convertAmount_def convertOrNull_def shipped_order_def)
  have "on_grid 4 (20 :: rat)" using on_grid_int[of 4 20] by simp
  then have basket: "basket (cost_items shipped_order)" by (simp add: basket_def cost_items_def shipped_order_def)
  have fifty: "on_grid 2 (50 :: rat)" using on_grid_int[of 2 50] by simp
  then have fixed: "places (half_up_lib 60) 2 50 = 50" by (rule precise.places_exact)
  have conv: "50 = places (half_up_lib 20) 2 (dtimes (half_up_lib 20) 50 1)" by code_simp
  have laws: "decimal_laws (half_up_lib 60)" "60 \<le> digits (half_up_lib 60)"
    using precise.decimal_laws_axioms by (simp_all add: half_up_lib_def)
  show ?thesis
    using delivery_posts_total[where E = sample_env and tracking = None and now = 9, unfolded E, OF laws x(1) basket x(2) _ x(6,7) rate _ _ conv[folded x(5)]] x(3-5) fixed
    by auto
qed

end
