(* ===== verification/Shop_Returns.thy ===== *)
theory Shop_Returns
  imports Shop_Orders
begin

text \<open>
  What a cancellation gives back: placing an order and cancelling it leaves every stock and every
  promo code as it was (\<open>checkout.service.ts\<close>, \<open>shop-orders.service.ts\<close>), and the options of a product
  as the administrators replace them (\<open>replaceVariants\<close> of \<open>src/super-admin/shop/shop.service.ts\<close>).
\<close>

section \<open>Cancelling returns everything\<close>

text \<open>What restocking does to every stock.\<close>

definition returned :: "order_item list \<Rightarrow> string \<Rightarrow> int" where
  "returned its p = (\<Sum>i\<leftarrow>its. if oi_product i = Some p then oi_quantity i else 0)"

definition variant_home :: "'a shop_db_scheme \<Rightarrow> (string \<times> string) list" where
  "variant_home s = map (\<lambda>x. (sv_id x, sv_product x)) (variants s)"

definition restocked :: "order_item list \<Rightarrow> 'a shop_db_scheme \<Rightarrow> 'a shop_db_scheme \<Rightarrow> string \<Rightarrow> string \<Rightarrow> bool" where
  "restocked its s t v p \<longleftrightarrow>
     vstock t v = vstock s v + (if find_variant s v \<noteq> None then ordered_variant its v else 0) \<and>
     pstock t p = pstock s p + (if find_product s p \<noteq> None then returned its p else 0) \<and>
     (find_variant t v = None) = (find_variant s v = None) \<and> (find_product t p = None) = (find_product s p = None) \<and>
     variant_home t = variant_home s \<and> promos t = promos s \<and> shop_orders t = shop_orders s"

lemma home_set [simp]:
  "variant_home (set_variant_stock i f s) = variant_home s" "variant_home (set_product_stock i f s) = variant_home s"
  by (simp_all add: variant_home_def set_variant_stock_def set_product_stock_def comp_def if_distrib cong: if_cong)

lemma find_variant_product_set [simp]: "find_variant (set_product_stock i f s) v = find_variant s v"
  by (simp add: find_variant_def)

lemma restock_item_effect:
  assumes "oi_variant i \<noteq> Some []" "oi_product i \<noteq> Some []"
  shows "\<exists>t. restock_item i s = (Inr (), t) \<and> restocked [i] s t v p"
proof -
  let ?m = "case oi_variant i of Some v \<Rightarrow> set_variant_stock v (\<lambda>n. n + oi_quantity i) s | None \<Rightarrow> s"
  let ?t = "case oi_product i of Some p \<Rightarrow> set_product_stock p (\<lambda>n. n + oi_quantity i) ?m | None \<Rightarrow> ?m"
  have "restock_item i s = (Inr (), ?t)" using assms
    by (auto simp: restock_item_def andthen_def bnd_def writing_def ret_def split: option.split)
  moreover have "restocked [i] s ?m v p'" if "oi_product i = None" for p'
    using that
    by (cases "oi_variant i") (auto simp: restocked_def ordered_variant_def returned_def vstock_set find_variant_set)
  moreover have "restocked [i] s ?t v p" if "oi_product i = Some q" for q
    using that
    by (cases "oi_variant i")
      (auto simp: restocked_def ordered_variant_def returned_def vstock_set pstock_set find_variant_set find_product_set)
  ultimately show ?thesis by (cases "oi_product i") auto
qed

lemma restocked_trans:
  assumes "restocked [i] s m v p" "restocked its m t v p"
  shows "restocked (i # its) s t v p"
  using assms unfolding restocked_def ordered_variant_def returned_def by auto

lemma restock_effect:
  "list_all (\<lambda>i. oi_variant i \<noteq> Some [] \<and> oi_product i \<noteq> Some []) its \<Longrightarrow>
   \<exists>t. restock its s = (Inr (), t) \<and> (\<forall>v p. restocked its s t v p)"
  unfolding restock_def
proof (induction its arbitrary: s)
  case Nil
  then show ?case by (simp add: ret_def restocked_def ordered_variant_def returned_def)
next
  case (Cons i its)
  then have i: "oi_variant i \<noteq> Some []" "oi_product i \<noteq> Some []" by simp_all
  from restock_item_effect[OF i] obtain m where m: "restock_item i s = (Inr (), m)" by blast
  have one: "restocked [i] s m v p" for v p using restock_item_effect[OF i, of s v p] m by auto
  from Cons.IH[of m] Cons.prems obtain t where "for_each restock_item its m = (Inr (), t)" "\<forall>v p. restocked its m t v p" by auto
  with m restocked_trans[OF one] show ?case by (auto simp: andthen_run)
qed

lemma variant_total_home:
  assumes "distinct (map sv_id (variants s))"
  shows "variant_total s p = (\<Sum>(i, q)\<leftarrow>filter (\<lambda>(i, q). q = p) (variant_home s). vstock s i)"
proof -
  have "sv_stock x = vstock s (sv_id x)" if "x \<in> set (variants s)" for x
    using find_distinct[OF assms that] by (simp add: vstock_def find_variant_def)
  then have "map sv_stock (filter (\<lambda>v. sv_product v = p) (variants s)) =
      map (\<lambda>x. vstock s (sv_id x)) (filter (\<lambda>v. sv_product v = p) (variants s))" by (intro map_cong) auto
  then have "variant_total s p = sum_list (map (\<lambda>x. vstock s (sv_id x)) (filter (\<lambda>v. sv_product v = p) (variants s)))"
    by (simp only: variant_total_def)
  then show ?thesis by (simp add: variant_home_def filter_map comp_def)
qed

text \<open>What an order that was just placed consists of.\<close>

definition count_use :: "int \<Rightarrow> string \<Rightarrow> promo_code list \<Rightarrow> promo_code list" where
  "count_use d i ps = map (\<lambda>p. if pc_id p = i then p\<lparr>pi_usedCount := pi_usedCount p + d\<rparr> else p) ps"

definition promo_claimed :: "checkout_state \<Rightarrow> bool" where
  "promo_claimed c \<longleftrightarrow> (case pr_promo (co_pricing c) of Some x \<Rightarrow> po_applied x | None \<Rightarrow> False)"

definition claimed_promo :: "checkout_state \<Rightarrow> string option" where
  "claimed_promo c = (if promo_claimed c then map_option pc_id (fst (the (co_promo c))) else None)"

lemma claimPromo_ok: "claimPromo D promo store sub now s = (Inr u, t) \<Longrightarrow> t = s\<lparr>promos := count_use 1 (pc_id promo) (promos s)\<rparr>"
  unfolding claimPromo_def Let_def count_use_def by (auto simp: run_ok split: option.splits prod.splits)

lemma claim_all_promos:
  assumes ok: "catalog_ok s" and none: "co_promo c = None \<Longrightarrow> \<not> promo_claimed c"
    and run: "claim_all D store c at_order s = (Inr u, t)"
  shows "promos t = (case claimed_promo c of None \<Rightarrow> promos s | Some i \<Rightarrow> count_use 1 i (promos s))"
proof -
  let ?ids = "map (\<lambda>l. ca_id (cw_item (ev_row l))) (co_lines c)"
  let ?m = "s\<lparr>cart := filter (\<lambda>c. \<not> (ca_store c = store \<and> ca_id c \<in> set ?ids)) (cart s)\<rparr>"
  from run obtain w where w: "reserveStock (co_lines c) ?m = (Inr (), w)"
    and p: "(case co_promo c of
          Some (Some p, _, _) \<Rightarrow> if (case pr_promo (co_pricing c) of Some x \<Rightarrow> po_applied x | None \<Rightarrow> False)
             then claimPromo D p store (pr_subtotal (co_pricing c)) at_order else ret ()
        | _ \<Rightarrow> ret ()) w = (Inr u, t)"
    unfolding claim_all_def claim_cart_def by (auto simp: bnd_ok andthen_ok reading_ok writing_ok ret_ok require_ok)
  have m: "catalog_ok ?m" "promos ?m = promos s" using ok by (auto simp: catalog_ok_def)
  have "promos w = promos s" using reserveStock_effect[OF m(1) w] m(2) by (simp add: shop_frame_def)
  with p none show ?thesis unfolding promo_claimed_def[symmetric] claimed_promo_def
    by (cases "co_promo c") (auto simp: ret_ok dest!: claimPromo_ok split: option.splits if_splits prod.splits)
qed

text \<open>Neither checkout nor cancellation adds, removes or moves an option or a product.\<close>

definition catalogue_ids :: "'a shop_db_scheme \<Rightarrow> (string \<times> string) list \<times> string list" where
  "catalogue_ids s = (variant_home s, map sp_id (products s))"

lemma catalogue_ids_simps [simp]:
  "catalogue_ids (s\<lparr>cart := a\<rparr>) = catalogue_ids s" "catalogue_ids (s\<lparr>next_id := b\<rparr>) = catalogue_ids s"
  "catalogue_ids (s\<lparr>promos := d\<rparr>) = catalogue_ids s" "catalogue_ids (s\<lparr>settings_row := e\<rparr>) = catalogue_ids s"
  "catalogue_ids (s\<lparr>shop_orders := g, next_number := h\<rparr>) = catalogue_ids s" "catalogue_ids (s\<lparr>shop_orders := g\<rparr>) = catalogue_ids s"
  "catalogue_ids (set_variant_stock i f s) = catalogue_ids s" "catalogue_ids (set_product_stock i f s) = catalogue_ids s"
  by (simp_all add: catalogue_ids_def variant_home_def set_variant_stock_def set_product_stock_def comp_def if_distrib cong: if_cong)

lemma ids_writing: "(\<And>s. catalogue_ids (f s) = catalogue_ids s) \<Longrightarrow> preserves (\<lambda>s. catalogue_ids s = X) (writing f)"
  by (rule preserves_writing) simp

lemma place_ids: "preserves (\<lambda>s. catalogue_ids s = X) (placeOrder D store user req now at_order)"
proof -
  let ?I = "\<lambda>s. catalogue_ids s = X"
  have takes: "preserves ?I take_id" unfolding take_id_def by (intro preserving ids_writing) simp
  have its: "preserves ?I (take_items D ls)" for ls by (induction ls) (auto intro!: preserving takes)
  have settings: "preserves ?I get_settings" unfolding get_settings_def by (intro preserving ids_writing) simp
  have guards: "preserves ?I (order_guards D c)" for c unfolding order_guards_def by (intro preserving)
  have "preserves ?I (check_amounts D p ls)" for p ls
    unfolding check_amounts_def by (intro preserving) (auto intro: preserving)
  then have compute: "preserves ?I (compute D store code aid now settings_in_tx)" for code aid
    unfolding compute_def settings_in_tx_def defaultFor_def require_address_def Let_def by (intro preserving)
  have create: "preserves ?I (create_order D store user req c a at_order)" for c a
    unfolding create_order_def Let_def by (intro preserving takes its ids_writing) simp
  have lines: "preserves ?I (reserve_cart_line l)" for l
    unfolding reserve_cart_line_def Let_def by (intro preserving ids_writing) simp_all
  have mirror: "preserves ?I (mirror_stock i)" for i unfolding mirror_stock_def by (rule ids_writing) simp
  have promo: "preserves ?I (claimPromo D p store sub at_order)" for p sub
    unfolding claimPromo_def Let_def by (auto intro!: preserving ids_writing split: option.split prod.split)
  have cart: "preserves ?I (claim_cart store ids)" for ids unfolding claim_cart_def by (intro preserving ids_writing) simp
  have claim: "preserves ?I (claim_all D store c at_order)" for c
    unfolding claim_all_def reserveStock_def
    by (intro preserves_bnd preserves_andthen preserves_require preserves_for_each cart lines mirror)
      (auto intro!: preserving promo split: option.split prod.split)
  show ?thesis unfolding placeOrder_def by (intro preserving settings compute guards create claim)
qed

text \<open>
  A catalogue and cart as the database constraints keep them: no id is empty, an option of a cart row
  exists and belongs to the row's product, and the stock of a product with options is their sum.
\<close>

definition shop_consistent :: "string \<Rightarrow> 'a shop_db_scheme \<Rightarrow> bool" where
  "shop_consistent store s \<longleftrightarrow> catalog_ok s \<and> promos_ok s \<and>
     list_all (\<lambda>(i, p). i \<noteq> [] \<and> variant_total s p = pstock s p) (variant_home s) \<and>
     list_all (\<lambda>p. sp_id p \<noteq> []) (products s) \<and>
     list_all (\<lambda>p. pc_id p \<noteq> [] \<and> 0 \<le> pi_usedCount p) (promos s) \<and>
     list_all (\<lambda>c. case ca_variant c of Some v \<Rightarrow> (v, ca_product c) \<in> set (variant_home s) | None \<Rightarrow> True) (store_cart store s)"

lemma placed_details:
  assumes ok: "catalog_ok s" "promos_ok s" and run: "placeOrder D store user req now at_order s = (Inr oid, t)"
  shows "\<exists>order c. shop_orders t = shop_orders s @ [order] \<and> so_id order = oid \<and> so_store order = store \<and>
    so_status order = SO_PENDING \<and> so_promoId order = claimed_promo c \<and>
    promos t = (case claimed_promo c of None \<Rightarrow> promos s | Some i \<Rightarrow> count_use 1 i (promos s)) \<and>
    (claimed_promo c \<noteq> None \<longrightarrow> claimed_promo c \<in> Some ` pc_id ` set (promos s)) \<and>
    list_all (\<lambda>l. ev_problem l = None) (evaluate (cart_rows store s)) \<and>
    (\<exists>ids. length ids = length (evaluate (cart_rows store s)) \<and>
       so_items order = map2 (order_item_of D) (evaluate (cart_rows store s)) ids)"
proof -
  from run obtain st s1 c s1a address s1b s2 where g: "get_settings s = (Inr st, s1)"
    and c: "compute D store (rq_promo req) (Some (rq_address req)) now settings_in_tx s1 = (Inr c, s1a)"
    and gda: "order_guards D c s1a = (Inr address, s1b)"
    and cla: "claim_all D store c at_order s1b = (Inr (), s2)"
    and cr: "create_order D store user req c address at_order s2 = (Inr oid, t)"
    unfolding placeOrder_def
    by (elim andthenE bndE) (auto simp: require_ok transaction_ok bnd_ok andthen_ok)
  have eqs: "s1a = s1" "s1b = s1" using compute_ok(1)[OF c] order_guards_ok[OF gda] by simp_all
  note gd = gda[unfolded eqs] and cl = cla[unfolded eqs] and cs = compute_ok[OF c]
  have s1: "s1 = s\<lparr>settings_row := Some st\<rparr>" using get_settings_ok[OF g] by simp
  have "find_product s1 = find_product s" "find_variant s1 = find_variant s" "active_variants s1 = active_variants s"
    by (simp_all add: s1 fun_eq_iff find_product_def find_variant_def active_variants_def)
  then have "join_row s1 = join_row s" by (intro ext, unfold join_row_def) (simp only:)
  then have rows: "cart_rows store s1 = cart_rows store s" by (simp add: cart_rows_def s1)
  have ok1: "catalog_ok s1" "promos_ok s1" using ok by (simp_all add: catalog_ok_def promos_ok_def s1 find_product_def)
  have none: "\<not> promo_claimed c" if "co_promo c = None"
    using that cs(3) by (simp add: promo_claimed_def order_price_def priceOrder_def Let_def)
  have ps: "promos s1 = promos s" by (simp add: s1)
  note pr = claim_all_promos[OF ok1(1) none cl, unfolded ps]
  from create_order_effect[OF cr] obtain its s3 where is3: "take_items D (co_lines c) (s2\<lparr>next_id := Suc (next_id s2)\<rparr>) = (Inr its, s3)"
    by blast
  from take_items_effect[OF is3] obtain ids m where ids: "its = map2 (order_item_of D) (co_lines c) ids"
    "length ids = length (co_lines c)" "s3 = s2\<lparr>next_id := m\<rparr>" by auto
  have "shop_orders s2 = shop_orders s1" using claim_all_effect[OF ok1 cs(2) cl] by blast
  then have orders: "shop_orders s2 = shop_orders s" by (simp add: s1)
  define order where "order = last (shop_orders t)"
  have "take_id s2 = (Inr (generated s2), s2\<lparr>next_id := Suc (next_id s2)\<rparr>)" by (rule take_id_run)
  then have t: "shop_orders t = shop_orders s3 @ [order]" "promos t = promos s3" "so_id order = oid" "so_store order = store"
    "so_status order = SO_PENDING" "so_items order = its" "so_promoId order = claimed_promo c"
    using cr is3 unfolding create_order_def Let_def order_def claimed_promo_def promo_claimed_def
    by (auto simp: bnd_run andthen_def bnd_def writing_def ret_def)
  have promo: "claimed_promo c \<in> Some ` pc_id ` set (promos s)" if "claimed_promo c \<noteq> None"
  proof -
    from that none obtain p code uses where "co_promo c = Some (Some p, code, uses)" "claimed_promo c = Some (pc_id p)"
      by (cases "co_promo c"; cases "fst (the (co_promo c))") (auto simp: claimed_promo_def split: if_splits)
    moreover from this cs(4) have "p \<in> set (promos s1)"
      by (auto simp: loadPromo_def Let_def split: option.splits if_splits dest: find_Some_set)
    ultimately show ?thesis by (auto simp: s1)
  qed
  have "list_all (\<lambda>l. ev_problem l = None) (co_lines c)" using order_guards_ok[OF gd] by simp
  then show ?thesis
    using t ids pr promo orders cs(2)[unfolded rows] by (auto intro!: exI[of _ order] exI[of _ c] exI[of _ ids])
qed

lemma sum_one_key:
  "distinct (map fst xs) \<Longrightarrow> (\<Sum>(i, q)\<leftarrow>xs. if v = i then (n::int) else 0) = (if v \<in> fst ` set xs then n else 0)"
proof (induction xs)
  case (Cons x xs)
  then show ?case by (cases x) auto
qed simp

lemma sum_ordered:
  assumes "distinct (map fst hs)"
    and "\<forall>i \<in> set its. (oi_variant i = None \<longrightarrow> oi_product i \<noteq> Some p) \<and>
      (\<forall>v. oi_variant i = Some v \<longrightarrow> (\<exists>q. oi_product i = Some q \<and> (v, q) \<in> set hs))"
  shows "(\<Sum>(i, q)\<leftarrow>filter (\<lambda>(i, q). q = p) hs. ordered_variant its i) = returned its p"
  using assms(2)
proof (induction its)
  case Nil
  then show ?case by (simp add: ordered_variant_def returned_def sum_list_0 case_prod_unfold)
next
  case (Cons a its)
  let ?xs = "filter (\<lambda>(i, q). q = p) hs"
  have d: "distinct (map fst ?xs)" using assms(1) by (rule distinct_map_filter)
  have one: "(\<Sum>(i, q)\<leftarrow>?xs. if oi_variant a = Some i then oi_quantity a else 0) = (if oi_product a = Some p then oi_quantity a else 0)"
  proof (cases "oi_variant a")
    case None
    with Cons.prems show ?thesis by (simp add: case_prod_unfold sum_list_0)
  next
    case (Some v)
    with Cons.prems obtain q where q: "oi_product a = Some q" "(v, q) \<in> set hs" by auto
    have "v \<in> fst ` set ?xs \<longleftrightarrow> q = p"
      using q(2) assms(1) by (force simp: distinct_map inj_on_def)
    with sum_one_key[OF d, of v "oi_quantity a"] Some q(1) show ?thesis by simp
  qed
  have "(\<Sum>(i, q)\<leftarrow>?xs. ordered_variant (a # its) i) =
      (\<Sum>(i, q)\<leftarrow>?xs. if oi_variant a = Some i then oi_quantity a else 0) + (\<Sum>(i, q)\<leftarrow>?xs. ordered_variant its i)"
    by (simp add: ordered_variant_def case_prod_unfold sum_list_addf)
  with one Cons show ?case by (simp add: returned_def)
qed

lemma catalog_items:
  assumes "catalog_ok s"
  shows "map line_item (evaluate (cart_rows store s)) = store_cart store s"
proof -
  have "map cw_item (List.map_filter (join_row s) cs) = cs" if "\<forall>c \<in> set cs. find_product s (ca_product c) \<noteq> None" for cs
    using that by (induction cs) (auto simp: map_filter_simps join_row_def)
  then have "map cw_item (cart_rows store s) = store_cart store s"
    using assms by (simp add: cart_rows_def catalog_ok_def store_cart_def)
  then show ?thesis by (simp add: evaluate_def line_item_def comp_def)
qed

lemma joined:
  assumes "join_row s c = Some r"
  shows "cw_item r = c" "cw_variant r = (case ca_variant c of None \<Rightarrow> None | Some v \<Rightarrow> find_variant s v)"
    "cw_options r = map sv_id (active_variants s (ca_product c))"
  using assms by (auto simp: join_row_def split: option.splits)

text \<open>An orderable cart never asks for a product both with and without an option.\<close>

lemma no_plain_line:
  assumes ok: "catalog_ok s" and l: "l \<in> set (evaluate (cart_rows store s))" "ev_problem l = None" "ca_variant (line_item l) = None"
    and k: "k \<in> set (evaluate (cart_rows store s))" "ev_problem k = None" "ca_variant (line_item k) = Some v"
    and hm: "(v, ca_product (line_item l)) \<in> set (variant_home s)"
  shows False
proof -
  from k obtain c r where c: "join_row s c = Some r" and r: "ev_row k = r" "line_problem_of r = None"
    by (auto simp: evaluate_def cart_rows_def map_filter_def)
  then have cv: "ca_variant c = Some v" using k(3) joined[OF c] by (simp add: line_item_def)
  from hm obtain x where x: "x \<in> set (variants s)" "sv_id x = v" "sv_product x = ca_product (line_item l)"
    by (auto simp: variant_home_def)
  then have "find_variant s v = Some x" using catalog_find_variant[OF ok x(1)] by simp
  then have "sv_active x" using r(2) joined[OF c] cv by (simp add: line_problem_of_def Let_def split: if_splits)
  with x have act: "x \<in> set (active_variants s (ca_product (line_item l)))" by (simp add: active_variants_def)
  from l obtain d m where d: "join_row s d = Some m" and m: "ev_row l = m" "line_problem_of m = None"
    by (auto simp: evaluate_def cart_rows_def map_filter_def)
  have "line_item l = d" using joined(1)[OF d] m(1) by (simp add: line_item_def)
  then have "cw_variant m = None" "cw_options m \<noteq> []" using joined[OF d] l(3) act by auto
  then show False using m(2) by (simp add: line_problem_of_def Let_def split: if_splits)
qed

lemma count_use_back:
  assumes "list_all (\<lambda>p. pc_id p \<noteq> [] \<and> 0 \<le> pi_usedCount p) ps" "i \<noteq> []"
  shows "map (\<lambda>p. if pc_id p = i \<and> pi_usedCount p > 0 then p\<lparr>pi_usedCount := pi_usedCount p - 1\<rparr> else p) (count_use 1 i ps) = ps"
  using assms by (induction ps) (auto simp: count_use_def)

lemma placed_items:
  assumes ok: "shop_consistent store s" and run: "placeOrder D store user req now at_order s = (Inr oid, t)"
    and order: "shop_orders t = shop_orders s @ [order]" and i: "i \<in> set (so_items order)"
  shows "\<exists>p. oi_product i = Some p \<and> p \<in> set (map sp_id (products s)) \<and>
      (\<forall>v. oi_variant i = Some v \<longrightarrow> (v, p) \<in> set (variant_home s)) \<and>
      (oi_variant i = None \<longrightarrow> \<not> with_options (so_items order) p)"
proof -
  have cat: "catalog_ok s" "promos_ok s" using ok by (simp_all add: shop_consistent_def)
  let ?ls = "evaluate (cart_rows store s)"
  from placed_details[OF cat run] order obtain ids where fine: "list_all (\<lambda>l. ev_problem l = None) ?ls"
    and ids: "length ids = length ?ls" "so_items order = map2 (order_item_of D) ?ls ids" by auto
  have from_line: "\<exists>l \<in> set ?ls. oi_product j = Some (ca_product (line_item l)) \<and> oi_variant j = ca_variant (line_item l) \<and>
      line_item l \<in> set (store_cart store s) \<and> ev_problem l = None" if "j \<in> set (so_items order)" for j
  proof -
    from that ids obtain l k where "j = order_item_of D l k" "l \<in> set ?ls" by (auto simp: set_zip)
    moreover from this have "line_item l \<in> set (store_cart store s)"
      using catalog_items[OF cat(1), of store] by (metis image_eqI set_map)
    ultimately show ?thesis using fine by (auto simp: order_item_of_simps list_all_iff intro!: bexI[of _ l])
  qed
  have hm: "(v, ca_product c) \<in> set (variant_home s)" if "c \<in> set (store_cart store s)" "ca_variant c = Some v" for c v
    using ok that unfolding shop_consistent_def list_all_iff by fastforce
  from from_line[OF i] obtain l where l: "l \<in> set ?ls" "oi_product i = Some (ca_product (line_item l))"
    "oi_variant i = ca_variant (line_item l)" "line_item l \<in> set (store_cart store s)" "ev_problem l = None" by blast
  have "\<not> with_options (so_items order) (ca_product (line_item l))" if "oi_variant i = None"
  proof
    assume "with_options (so_items order) (ca_product (line_item l))"
    then obtain j v where j: "j \<in> set (so_items order)" "oi_product j = Some (ca_product (line_item l))" "oi_variant j = Some v"
      by (auto simp: with_options_def list_ex_iff)
    from from_line[OF j(1)] j(2,3) obtain k where k: "k \<in> set ?ls" "ca_product (line_item k) = ca_product (line_item l)"
      "ca_variant (line_item k) = Some v" "line_item k \<in> set (store_cart store s)" "ev_problem k = None" by auto
    from no_plain_line[OF cat(1) l(1,5) _ k(1,5,3)] hm[OF k(4,3)] k(2) l(3) that show False by simp
  qed
  moreover have "ca_product (line_item l) \<in> set (map sp_id (products s))"
    using cat(1) l(4) find_product_None[of s "ca_product (line_item l)"] unfolding catalog_ok_def store_cart_def by auto
  ultimately show ?thesis using l(2,3) hm[OF l(4)] by auto
qed

lemma fresh_find: "\<forall>x \<in> set xs. \<not> P x \<Longrightarrow> P y \<Longrightarrow> find P (xs @ [y]) = Some y"
  by (induction xs) auto

lemma cancel_run:
  assumes ok: "shop_consistent store s" and run: "placeOrder D store user req now at_order s = (Inr oid, t)"
    and new: "oid \<notin> so_id ` set (shop_orders s)"
  shows "\<exists>u order. cancelByMerchant store oid reason at_cancel t = (Inr (), u) \<and> shop_orders t = shop_orders s @ [order] \<and>
    promos u = promos s \<and> (\<forall>v p. vstock u v = vstock t v + (if find_variant t v \<noteq> None then ordered_variant (so_items order) v else 0) \<and>
      pstock u p = pstock t p + (if find_product t p \<noteq> None then returned (so_items order) p else 0))"
proof -
  have cat: "catalog_ok s" "promos_ok s" using ok by (simp_all add: shop_consistent_def)
  from placed_details[OF cat run] obtain order c where order: "shop_orders t = shop_orders s @ [order]" "so_id order = oid"
    "so_store order = store" "so_status order = SO_PENDING" "so_promoId order = claimed_promo c"
    and pr: "promos t = (case claimed_promo c of None \<Rightarrow> promos s | Some i \<Rightarrow> count_use 1 i (promos s))"
      "claimed_promo c \<noteq> None \<longrightarrow> claimed_promo c \<in> Some ` pc_id ` set (promos s)" by blast
  let ?its = "so_items order" and ?f = "cancelled BY_MERCHANT reason at_cancel"
  let ?w = "t\<lparr>shop_orders := shop_orders s @ [?f order]\<rparr>"
  have old: "so_id x \<noteq> oid" if "x \<in> set (shop_orders s)" for x using new that by blast
  have "map (\<lambda>x. if so_id x = oid \<and> so_status x \<in> set MERCHANT_CANCELLABLE then ?f x else x) (shop_orders t) = shop_orders s @ [?f order]"
    using order by (auto simp: MERCHANT_CANCELLABLE_def intro!: map_idI dest: old)
  moreover have "filter (\<lambda>x. so_id x = oid \<and> so_status x \<in> set MERCHANT_CANCELLABLE) (shop_orders t) = [order]"
    using order by (auto simp: MERCHANT_CANCELLABLE_def filter_empty_conv dest: old)
  ultimately have flip: "flip_order oid MERCHANT_CANCELLABLE ?f t = (Inr 1, ?w)"
    by (simp add: flip_order_def bnd_def reading_def andthen_def writing_def ret_def)
  have found_w: "find_shop_order ?w oid = Some (?f order)"
    using fresh_find[of "shop_orders s" "\<lambda>x. so_id x = oid" "?f order"] old order(2)
    by (simp add: find_shop_order_def cancelled_def)
  have found_t: "find (\<lambda>x. so_id x = oid \<and> so_store x = store) (shop_orders t) = Some order"
    unfolding order(1) by (rule fresh_find) (use old order(2,3) in auto)
  have "list_all (\<lambda>i. oi_variant i \<noteq> Some [] \<and> oi_product i \<noteq> Some []) ?its"
    using placed_items[OF ok run order(1)] ok by (fastforce simp: shop_consistent_def list_all_iff)
  from restock_effect[OF this, of ?w] obtain x where x: "restock ?its ?w = (Inr (), x)" "\<And>v p. restocked ?its ?w x v p" by blast
  define u where "u = (case claimed_promo c of None \<Rightarrow> x | Some i \<Rightarrow> x\<lparr>promos := promos s\<rparr>)"
  have px: "promos x = promos t" using x(2)[of "[]" "[]"] by (simp add: restocked_def)
  have ret_promo: "return_promo (so_promoId order) x = (Inr (), u)"
  proof (cases "claimed_promo c")
    case (Some i)
    with pr(2) ok have i: "i \<noteq> []" by (auto simp: shop_consistent_def list_all_iff)
    have "promos x = count_use 1 i (promos s)" using px pr(1) Some by simp
    then show ?thesis using count_use_back[OF _ i, of "promos s"] ok Some i order(5)
      by (simp add: return_promo_def writing_def u_def shop_consistent_def)
  qed (simp add: return_promo_def ret_def u_def order(5))
  have kept: "so_items (?f order) = ?its" "so_promoId (?f order) = so_promoId order" by (simp_all add: cancelled_def)
  have "cancel oid BY_MERCHANT reason MERCHANT_CANCELLABLE at_cancel t = (Inr (), u)"
    unfolding cancel_def transaction_ok
    by (simp add: bnd_def[of "flip_order _ _ _"] flip)
      (simp add: andthen_def bnd_def ret_def reading_def found_def found_w kept x(1) ret_promo)
  then have "cancelByMerchant store oid reason at_cancel t = (Inr (), u)"
    by (simp add: cancelByMerchant_def bnd_def reading_def found_t found_def andthen_def ret_def)
  moreover have "vstock u = vstock x" "pstock u = pstock x" "promos u = promos s"
    using px pr(1) by (auto simp: u_def vstock_def pstock_def find_variant_def find_product_def fun_eq_iff split: option.split)
  moreover have "vstock ?w = vstock t" "pstock ?w = pstock t" "find_variant ?w = find_variant t" "find_product ?w = find_product t"
    by (simp_all add: vstock_def pstock_def find_variant_def find_product_def fun_eq_iff)
  ultimately show ?thesis using order(1) x(2) unfolding restocked_def by (intro exI[of _ u] exI[of _ order]) simp
qed

lemma cancel_returns:
  assumes ok: "shop_consistent store s" and run: "placeOrder D store user req now at_order s = (Inr oid, t)"
    and new: "oid \<notin> so_id ` set (shop_orders s)"
  shows "\<exists>u. cancelByMerchant store oid reason at_cancel t = (Inr (), u) \<and> vstock u v = vstock s v \<and>
    pstock u p = pstock s p \<and> promos u = promos s"
proof -
  have cat: "catalog_ok s" "promos_ok s" using ok by (simp_all add: shop_consistent_def)
  from cancel_run[OF ok run new] obtain u order where u: "cancelByMerchant store oid reason at_cancel t = (Inr (), u)"
    "shop_orders t = shop_orders s @ [order]" "promos u = promos s"
    "\<And>v. vstock u v = vstock t v + (if find_variant t v \<noteq> None then ordered_variant (so_items order) v else 0)"
    "\<And>p. pstock u p = pstock t p + (if find_product t p \<noteq> None then returned (so_items order) p else 0)" by blast
  let ?its = "so_items order"
  note item = placed_items[OF ok run u(2)]
  have ids: "variant_home t = variant_home s" "map sp_id (products t) = map sp_id (products s)"
    using preserves_step[OF place_ids run] by (simp_all add: catalogue_ids_def)
  from placed_order[OF cat run] u(2) have t: "catalog_ok t" "vstock t v = vstock s v - ordered_variant ?its v"
    "pstock t p = (if with_options ?its p \<and> find_product s p \<noteq> None then variant_total t p else pstock s p - ordered_product ?its p)"
    for v p by auto
  have "ordered_variant ?its v = 0" if "find_variant t v = None"
  proof -
    from that have "v \<notin> fst ` set (variant_home t)" by (auto simp: find_variant_def find_None_iff variant_home_def)
    then have "oi_variant i \<noteq> Some v" if "i \<in> set ?its" for i using item[OF that] ids(1) by force
    then show ?thesis unfolding ordered_variant_def by (intro sum_list_zero) auto
  qed
  then have vs: "vstock u v = vstock s v" using u(4)[of v] t(2)[of v] by simp
  have same: "(find_product t p = None) = (find_product s p = None)" unfolding find_product_None ids(2) ..
  have ps: "pstock u p = pstock s p"
  proof (cases "find_product s p = None")
    case True
    with same show ?thesis using u(5)[of p] True by (simp add: pstock_def)
  next
    case False
    with same have there: "find_product t p \<noteq> None" by simp
    show ?thesis
    proof (cases "with_options ?its p")
      case True
      have "(\<Sum>(i, q)\<leftarrow>filter (\<lambda>(i, q). q = p) (variant_home s). ordered_variant ?its i) = returned ?its p"
      proof (rule sum_ordered)
        show "distinct (map fst (variant_home s))" using cat(1) by (simp add: catalog_ok_def variant_home_def comp_def)
        show "\<forall>i \<in> set ?its. (oi_variant i = None \<longrightarrow> oi_product i \<noteq> Some p) \<and>
            (\<forall>v. oi_variant i = Some v \<longrightarrow> (\<exists>q. oi_product i = Some q \<and> (v, q) \<in> set (variant_home s)))"
        proof
          fix i assume "i \<in> set ?its"
          from item[OF this] True show "(oi_variant i = None \<longrightarrow> oi_product i \<noteq> Some p) \<and>
            (\<forall>v. oi_variant i = Some v \<longrightarrow> (\<exists>q. oi_product i = Some q \<and> (v, q) \<in> set (variant_home s)))" by auto
        qed
      qed
      then have "variant_total t p = variant_total s p - returned ?its p"
        using variant_total_home[of t p] variant_total_home[of s p] t(1,2) cat(1) ids(1)
        by (simp add: catalog_ok_def case_prod_unfold sum_list_subtractf)
      moreover have "variant_total s p = pstock s p"
      proof -
        from True obtain i v where "i \<in> set ?its" "oi_product i = Some p" "oi_variant i = Some v"
          by (auto simp: with_options_def list_ex_iff)
        with item have "(v, p) \<in> set (variant_home s)" by fastforce
        with ok show ?thesis by (auto simp: shop_consistent_def list_all_iff)
      qed
      ultimately show ?thesis using u(5)[of p] there t(3)[of p] True False by simp
    next
      case plain: False
      then have "returned ?its p = ordered_product ?its p"
        unfolding returned_def ordered_product_def
        by (intro arg_cong[of _ _ sum_list] map_cong) (auto simp: with_options_def list_ex_iff)
      then show ?thesis using u(5)[of p] there t(3)[of p] plain by simp
    qed
  qed
  show ?thesis using u(1,3) vs ps by blast
qed

text \<open>
  C31. Placing an order and cancelling it returns everything: from a shop whose tables satisfy their
  constraints, a merchant can cancel an order that was just placed, and after that every option and
  every product has the stock it had before the checkout, also where a product's stock mirrors its
  options, and every promo code its number of uses.
\<close>

theorem place_then_cancel:
  assumes "shop_consistent store s" and "placeOrder D store user req now at_order s = (Inr oid, t)"
    and "oid \<notin> so_id ` set (shop_orders s)"
  shows "\<exists>u. cancelByMerchant store oid reason at_cancel t = (Inr (), u) \<and> vstock u v = vstock s v \<and>
    pstock u p = pstock s p \<and> promos u = promos s"
  by (rule cancel_returns[OF assms])

lemma place_then_cancel_witness:
  "\<exists>oid u. cancelByMerchant ''shop'' oid None 9 placed_db = (Inr (), u) \<and> vstock u ''bag-m'' = 3 \<and> pstock u ''bag'' = 4"
proof -
  have "shop_orders cart_db = []" "promos cart_db = []" by (simp_all add: cart_db_def empty_shop_db_def)
  moreover have "list_all (\<lambda>(i, p). i \<noteq> [] \<and> variant_total cart_db p = pstock cart_db p) (variant_home cart_db)"
    "list_all (\<lambda>p. sp_id p \<noteq> []) (products cart_db)"
    "list_all (\<lambda>c. case ca_variant c of Some v \<Rightarrow> (v, ca_product c) \<in> set (variant_home cart_db) | None \<Rightarrow> True) (store_cart ''shop'' cart_db)"
    by code_simp+
  ultimately have ok: "shop_consistent ''shop'' cart_db" using cart_db_ok by (simp add: shop_consistent_def)
  from sample_placed obtain oid
    where run: "placeOrder (half_up_lib 20) ''shop'' ''ali'' sample_request 5 6 cart_db = (Inr oid, placed_db)" by blast
  have "oid \<notin> so_id ` set (shop_orders cart_db)" using \<open>shop_orders cart_db = []\<close> by simp
  moreover have "pstock cart_db ''bag'' = 4" by code_simp
  ultimately show ?thesis using place_then_cancel[OF ok run, of None 9 "''bag-m''" "''bag''"] sample_stock(1) by auto
qed

section \<open>src/super-admin/shop/shop.service.ts: the options of a product\<close>

text \<open>An option of the request; \<open>vi_id\<close> names an existing one. Prices are given or absent.\<close>

record variant_input =
  vi_id :: "string option"
  vi_size :: "string option"
  vi_color :: "string option"
  vi_sku :: "string option"
  vi_price :: "rat option"
  vi_compareAt :: "rat option"
  vi_stock :: int
  vi_active :: "bool option"

definition clean_variant :: "variant_input \<Rightarrow> variant_input" where
  "clean_variant v = v\<lparr>vi_size := or_null (vi_size v), vi_color := or_null (vi_color v), vi_sku := or_null (vi_sku v),
     vi_id := non_empty (vi_id v)\<rparr>"

definition lower_char :: "char \<Rightarrow> char" where
  "lower_char c = (if 65 \<le> (of_char c :: nat) \<and> (of_char c :: nat) \<le> 90
     then char_of ((of_char c :: nat) + 32) else c)"

definition combo :: "variant_input \<Rightarrow> string" where
  "combo v = map lower_char (or_else (vi_size v) []) @ ''|'' @ map lower_char (or_else (vi_color v) [])"

text \<open>The checks of the loop over the options, in its order.\<close>

fun check_combos :: "variant_input list \<Rightarrow> string list \<Rightarrow> error + unit" where
  "check_combos [] seen = Inr ()"
| "check_combos (v # vs) seen =
     (if vi_size v = None \<and> vi_color v = None then Inl (BadRequest ''Every option needs a size, a color, or both.'')
      else if combo v \<in> set seen
      then Inl (BadRequest (''Duplicate option: '' @ join '' / '' (present [vi_size v, vi_color v])))
      else check_combos vs (combo v # seen))"

definition given_ids :: "variant_input list \<Rightarrow> string list" where
  "given_ids vs = [the (vi_id v). v \<leftarrow> vs, vi_id v \<noteq> None]"

definition given_skus :: "variant_input list \<Rightarrow> string list" where
  "given_skus vs = [the (vi_sku v). v \<leftarrow> vs, vi_sku v \<noteq> None]"

definition variant_checks :: "string \<Rightarrow> variant_input list \<Rightarrow> ('a shop_db_scheme, unit) act" where
  "variant_checks productId vs =
     andthen (lift_sum (check_combos vs []))
     (andthen (require (distinct (given_skus vs)) (BadRequest ''Option SKUs must be unique.''))
     (bnd (reading (\<lambda>s. map sv_id (filter (\<lambda>x. sv_product x = productId) (variants s)))) (\<lambda>existing.
      andthen (require (set (given_ids vs) \<subseteq> set existing) (BadRequest ''One of the options does not belong to this product.''))
     (bnd (reading (\<lambda>s. find (\<lambda>x. sv_product x \<noteq> productId \<and> (case sv_sku x of Some k \<Rightarrow> k \<in> set (given_skus vs) | None \<Rightarrow> False))
        (variants s))) (\<lambda>taken.
      andthen (case taken of None \<Rightarrow> ret ()
        | Some x \<Rightarrow> throw (Conflict (''SKU '' @ quoted (the (sv_sku x)) @ '' is already used by another product.'')))
       (require (sum_list (map vi_stock vs) \<le> 2147483647) (BadRequest ''Combined variant stock exceeds supported range'')))))))"

text \<open>
  \<open>deleteMany\<close> of the options that are not listed: the rows of carts go with them, the lines of past
  orders keep their snapshot and lose the reference (\<open>onDelete: Cascade\<close> and \<open>SetNull\<close> of the schema).
\<close>

definition delete_variants :: "string \<Rightarrow> string list \<Rightarrow> 'a shop_db_scheme \<Rightarrow> 'a shop_db_scheme" where
  "delete_variants productId keep s =
     (let gone = map sv_id (filter (\<lambda>x. sv_product x = productId \<and> sv_id x \<notin> set keep) (variants s));
          lost = (\<lambda>r. case r of Some v \<Rightarrow> v \<in> set gone | None \<Rightarrow> False)
      in s\<lparr>variants := filter (\<lambda>x. \<not> (sv_product x = productId \<and> sv_id x \<notin> set keep)) (variants s),
           cart := filter (\<lambda>c. \<not> lost (ca_variant c)) (cart s),
           shop_orders := map (\<lambda>x. x\<lparr>so_items := map (\<lambda>i. if lost (oi_variant i) then i\<lparr>oi_variant := None\<rparr> else i)
             (so_items x)\<rparr>) (shop_orders s)\<rparr>)"

definition variant_row :: "string \<Rightarrow> string \<Rightarrow> variant_input \<Rightarrow> shop_variant" where
  "variant_row productId i v = \<lparr>sv_id = i, sv_product = productId, sv_size = vi_size v, sv_color = vi_color v,
     sv_sku = vi_sku v, sv_price = vi_price v, sv_compareAt = vi_compareAt v, sv_stock = vi_stock v,
     sv_active = or_else (vi_active v) True\<rparr>"

definition upsert_variant :: "string \<Rightarrow> variant_input \<Rightarrow> ('a shop_db_scheme, unit) act" where
  "upsert_variant productId v = (case vi_id v of
       Some i \<Rightarrow> writing (\<lambda>s. s\<lparr>variants := map (\<lambda>x. if sv_id x = i then variant_row (sv_product x) i v else x) (variants s)\<rparr>)
     | None \<Rightarrow> bnd take_id (\<lambda>i. writing (\<lambda>s. s\<lparr>variants := variants s @ [variant_row productId i v]\<rparr>)))"

text \<open>Clearing the SKUs first only avoids a unique violation on the way; every kept row gets its SKU again.\<close>

definition replaceVariants :: "string \<Rightarrow> variant_input list \<Rightarrow> ('a shop_db_scheme, unit) act" where
  "replaceVariants productId input =
     bnd (reading (\<lambda>s. find_product s productId)) (\<lambda>product.
     andthen (require (product \<noteq> None) (NotFound ''Product not found''))
     (let vs = map clean_variant input in
      andthen (variant_checks productId vs)
       (transaction (andthen (writing (delete_variants productId (given_ids vs)))
       (andthen (for_each (upsert_variant productId) vs)
          (if vs = [] then ret () else writing (set_product_stock productId (\<lambda>_. sum_list (map vi_stock vs)))))))))"
text \<open>The stock of a product's options outside a set of ids, and how each listed option adds its own.\<close>

definition stock_outside :: "string \<Rightarrow> string set \<Rightarrow> 'a shop_db_scheme \<Rightarrow> int" where
  "stock_outside p R s = (\<Sum>x\<leftarrow>filter (\<lambda>x. sv_product x = p \<and> sv_id x \<notin> R) (variants s). sv_stock x)"

definition new_ids_free :: "string set \<Rightarrow> 'a shop_db_scheme \<Rightarrow> bool" where
  "new_ids_free R s \<longleftrightarrow> distinct (map sv_id (variants s)) \<and>
     (\<forall>n \<ge> next_id s. ''id-'' @ nat_digits n \<notin> R \<union> sv_id ` set (variants s))"

lemma sum_list_map_if_key:
  assumes "distinct (map sv_id xs)" "x \<in> set xs" "P x" "\<And>y. y \<in> set xs \<Longrightarrow> sv_id y = sv_id x \<Longrightarrow> y = x"
  shows "(\<Sum>y\<leftarrow>filter P xs. if sv_id y = sv_id x then n else f y) = (\<Sum>y\<leftarrow>filter (\<lambda>y. P y \<and> sv_id y \<noteq> sv_id x) xs. f y) + (n :: int)"
  using assms
proof (induction xs)
  case (Cons z zs)
  show ?case
  proof (cases "z = x")
    case True
    then have "\<forall>y \<in> set zs. sv_id y \<noteq> sv_id x" using Cons.prems(1) by (auto simp: image_iff)
    then have "filter (\<lambda>y. P y \<and> sv_id y \<noteq> sv_id x) zs = filter P zs"
      "(\<Sum>y\<leftarrow>filter P zs. if sv_id y = sv_id x then n else f y) = (\<Sum>y\<leftarrow>filter P zs. f y)"
      by (auto intro!: filter_cong arg_cong[of _ _ sum_list])
    then show ?thesis using True Cons.prems(3) by simp
  next
    case False
    then have "sv_id z \<noteq> sv_id x" using Cons.prems by auto
    with False Cons show ?thesis by auto
  qed
qed simp

lemma upsert_known:
  assumes ok: "new_ids_free R s" and x: "x \<in> set (variants s)" "sv_product x = p" and v: "vi_id v = Some (sv_id x)" "sv_id x \<in> R"
  shows "\<exists>t. upsert_variant p v s = (Inr (), t) \<and> variant_home t = variant_home s \<and> next_id t = next_id s \<and>
    products t = products s \<and> stock_outside p (R - {sv_id x}) t = stock_outside p R s + vi_stock v"
proof -
  let ?g = "\<lambda>y. if sv_id y = sv_id x then variant_row (sv_product y) (sv_id x) v else y"
  let ?t = "s\<lparr>variants := map ?g (variants s)\<rparr>"
  have run: "upsert_variant p v s = (Inr (), ?t)" by (simp add: upsert_variant_def v(1) writing_def)
  have home: "variant_home ?t = variant_home s"
    unfolding variant_home_def by (auto simp: comp_def variant_row_def)
  have one: "y = x" if "y \<in> set (variants s)" "sv_id y = sv_id x" for y
    using ok x(1) that by (auto simp: new_ids_free_def distinct_map inj_on_def)
  have "stock_outside p (R - {sv_id x}) ?t =
      (\<Sum>y\<leftarrow>filter (\<lambda>y. sv_product y = p \<and> (sv_id y = sv_id x \<or> sv_id y \<notin> R)) (variants s). if sv_id y = sv_id x then vi_stock v else sv_stock y)"
    unfolding stock_outside_def by (simp add: filter_map comp_def) (intro arg_cong[of _ _ sum_list] map_cong filter_cong; auto simp: variant_row_def)
  also have "\<dots> = (\<Sum>y\<leftarrow>filter (\<lambda>y. (sv_product y = p \<and> (sv_id y = sv_id x \<or> sv_id y \<notin> R)) \<and> sv_id y \<noteq> sv_id x) (variants s). sv_stock y) + vi_stock v"
    by (rule sum_list_map_if_key[OF _ x(1)]) (use ok x(2) one in \<open>auto simp: new_ids_free_def\<close>)
  also have "filter (\<lambda>y. (sv_product y = p \<and> (sv_id y = sv_id x \<or> sv_id y \<notin> R)) \<and> sv_id y \<noteq> sv_id x) (variants s) =
      filter (\<lambda>y. sv_product y = p \<and> sv_id y \<notin> R) (variants s)"
    using v(2) by (intro filter_cong) auto
  finally have total: "stock_outside p (R - {sv_id x}) ?t = stock_outside p R s + vi_stock v" by (simp add: stock_outside_def)
  have "next_id ?t = next_id s" "products ?t = products s" by simp_all
  with run home total show ?thesis by blast
qed

lemma upsert_new:
  assumes ok: "new_ids_free R s" and v: "vi_id v = None"
  shows "\<exists>t. upsert_variant p v s = (Inr (), t) \<and> variant_home t = variant_home s @ [(generated s, p)] \<and>
    next_id t = Suc (next_id s) \<and> products t = products s \<and> stock_outside p R t = stock_outside p R s + vi_stock v"
proof -
  have "generated s \<notin> R" using ok by (auto simp: new_ids_free_def generated_def)
  then show ?thesis
    by (auto simp: upsert_variant_def v bnd_run[OF take_id_run] writing_def variant_home_def variant_row_def stock_outside_def)
qed

lemma new_ids_free_home:
  "new_ids_free R s \<longleftrightarrow> distinct (map fst (variant_home s)) \<and> (\<forall>n \<ge> next_id s. ''id-'' @ nat_digits n \<notin> R \<union> fst ` set (variant_home s))"
  by (simp add: new_ids_free_def variant_home_def comp_def image_image)

lemma upsert_all:
  "new_ids_free (set (given_ids vs)) s \<Longrightarrow> distinct (given_ids vs) \<Longrightarrow> (\<forall>i \<in> set (given_ids vs). (i, p) \<in> set (variant_home s)) \<Longrightarrow>
   \<exists>t. for_each (upsert_variant p) vs s = (Inr (), t) \<and> products t = products s \<and>
     variant_total t p = stock_outside p (set (given_ids vs)) s + sum_list (map vi_stock vs)"
proof (induction vs arbitrary: s)
  case Nil
  then show ?case by (simp add: ret_def variant_total_def stock_outside_def given_ids_def)
next
  case (Cons v vs)
  have ids: "given_ids (v # vs) = (case vi_id v of Some i \<Rightarrow> [i] | None \<Rightarrow> []) @ given_ids vs"
    by (simp add: given_ids_def split: option.split)
  show ?case
  proof (cases "vi_id v")
    case None
    then have g: "given_ids (v # vs) = given_ids vs" by (simp add: ids)
    from upsert_new[OF Cons.prems(1) None, of p] obtain m where m: "upsert_variant p v s = (Inr (), m)"
      "variant_home m = variant_home s @ [(generated s, p)]" "next_id m = Suc (next_id s)" "products m = products s"
      "stock_outside p (set (given_ids vs)) m = stock_outside p (set (given_ids vs)) s + vi_stock v" unfolding g by blast
    have "new_ids_free (set (given_ids vs)) m"
      using Cons.prems(1) unfolding g new_ids_free_home m(2,3) by (auto simp: generated_def)
    from Cons.IH[OF this] Cons.prems(2,3) show ?thesis unfolding g by (auto simp: m(2,4,5) andthen_run[of "upsert_variant p v", OF m(1)])
  next
    case (Some i)
    then have g: "given_ids (v # vs) = i # given_ids vs" by (simp add: ids)
    from Cons.prems(3) obtain x where x: "x \<in> set (variants s)" "sv_product x = p" "sv_id x = i"
      by (auto simp: g variant_home_def)
    from upsert_known[OF Cons.prems(1) x(1,2)] Some x(3) obtain m where m: "upsert_variant p v s = (Inr (), m)"
      "variant_home m = variant_home s" "next_id m = next_id s" "products m = products s"
      "stock_outside p (set (given_ids (v # vs)) - {i}) m = stock_outside p (set (given_ids (v # vs))) s + vi_stock v"
      by (auto simp: g)
    have r: "set (given_ids (v # vs)) - {i} = set (given_ids vs)" using Cons.prems(2) by (auto simp: g)
    have "new_ids_free (set (given_ids vs)) m" using Cons.prems(1) unfolding new_ids_free_home m(2,3) by (auto simp: g)
    from Cons.IH[OF this] Cons.prems(2,3) m(5) show ?thesis unfolding r
      by (auto simp: g m(2,4) andthen_run[of "upsert_variant p v", OF m(1)])
  qed
qed
lemma replaced_mirror:
  assumes ok: "distinct (map sv_id (variants s))" "\<forall>n \<ge> next_id s. ''id-'' @ nat_digits n \<notin> sv_id ` set (variants s)"
    and input: "input \<noteq> []" "distinct (given_ids (map clean_variant input))"
    and run: "replaceVariants p input s = (Inr u, t)"
  shows "find_product t p \<noteq> None \<and> pstock t p = variant_total t p \<and> variant_total t p = sum_list (map vi_stock input)"
proof -
  let ?vs = "map clean_variant input"
  let ?d = "delete_variants p (given_ids ?vs) s"
  have stocks: "map vi_stock ?vs = map vi_stock input" by (simp add: clean_variant_def)
  from run have prod: "find_product s p \<noteq> None" unfolding replaceVariants_def by (auto simp: bnd_ok andthen_ok reading_ok require_ok)
  from run obtain a m where chk: "variant_checks p ?vs s = (Inr a, m)"
    and tx: "andthen (writing (delete_variants p (given_ids ?vs))) (andthen (for_each (upsert_variant p) ?vs)
       (writing (set_product_stock p (\<lambda>_. sum_list (map vi_stock ?vs))))) m = (Inr u, t)"
    using input(1) unfolding replaceVariants_def Let_def by (auto simp: bnd_ok andthen_ok reading_ok require_ok transaction_ok)
  from chk have m: "m = s" and mine: "set (given_ids ?vs) \<subseteq> sv_id ` {x \<in> set (variants s). sv_product x = p}"
    unfolding variant_checks_def by (auto simp: bnd_ok andthen_ok reading_ok require_ok lift_sum_ok ret_ok throw_ok split: option.splits)
  have vd: "variants ?d = filter (\<lambda>x. \<not> (sv_product x = p \<and> sv_id x \<notin> set (given_ids ?vs))) (variants s)"
    "next_id ?d = next_id s" "products ?d = products s" by (simp_all add: delete_variants_def Let_def)
  have "\<forall>n \<ge> next_id s. ''id-'' @ nat_digits n \<notin> set (given_ids ?vs) \<union> sv_id ` set (variants ?d)"
    using ok(2) mine unfolding vd(1) by fastforce
  then have free: "new_ids_free (set (given_ids ?vs)) ?d"
    unfolding new_ids_free_def vd(2) using ok(1) by (simp add: vd(1) distinct_map_filter)
  have "\<forall>i \<in> set (given_ids ?vs). (i, p) \<in> set (variant_home ?d)"
  proof
    fix i assume i: "i \<in> set (given_ids ?vs)"
    with mine obtain x where x: "x \<in> set (variants s)" "sv_product x = p" "sv_id x = i" by auto
    with i have "x \<in> set (variants ?d)" unfolding vd(1) by simp
    with x(2,3) show "(i, p) \<in> set (variant_home ?d)" unfolding variant_home_def by (auto intro!: rev_image_eqI[of x])
  qed
  from upsert_all[OF free input(2) this] obtain w where w: "for_each (upsert_variant p) ?vs ?d = (Inr (), w)" "products w = products s"
    "variant_total w p = stock_outside p (set (given_ids ?vs)) ?d + sum_list (map vi_stock ?vs)" unfolding vd(3) by blast
  have none: "filter (\<lambda>x. sv_product x = p \<and> sv_id x \<notin> set (given_ids ?vs)) (variants ?d) = []"
    unfolding vd(1) filter_empty_conv by auto
  have "stock_outside p (set (given_ids ?vs)) ?d = 0" unfolding stock_outside_def none by simp
  then have wt: "variant_total w p = sum_list (map vi_stock input)" using w(3) unfolding stocks by simp
  have t: "t = set_product_stock p (\<lambda>_. sum_list (map vi_stock input)) w"
    using tx w(1) unfolding m stocks by (auto simp: andthen_ok writing_ok)
  have fw: "find_product w p \<noteq> None" using prod w(2) by (simp add: find_product_def)
  then have "find_product t p \<noteq> None" "pstock t p = sum_list (map vi_stock input)" "variant_total t p = variant_total w p"
    by (simp_all add: t find_product_set pstock_set)
  with wt show ?thesis by simp
qed


definition large_bag :: variant_input where
  "large_bag = \<lparr>vi_id = Some ''bag-l'', vi_size = Some '' L '', vi_color = None, vi_sku = None, vi_price = None,
     vi_compareAt = None, vi_stock = 1, vi_active = None\<rparr>"

lemma bag_ids: "distinct (map sv_id (variants cart_db))" "\<forall>n \<ge> next_id cart_db. ''id-'' @ nat_digits n \<notin> sv_id ` set (variants cart_db)"
  by (simp_all add: cart_db_def sample_variant_def)


definition trimmed_db :: shop_db where
  "trimmed_db = snd (replaceVariants ''bag'' [large_bag] placed_db)"


end
