(* ===== verification/Access.thy ===== *)
theory Access
  imports Zom_Prelude
begin

text \<open>
  Who may act on which store (\<open>src/access\<close>): the permission catalogue (\<open>permissions.ts\<close>), the
  resolution of the caller's store and permissions (\<open>store-access.service.ts\<close>) and the guard of the
  permission-gated routes (\<open>permission.guard.ts\<close>), over the tables of users, stores, roles and staff
  members. The tables are in the order of creation.
\<close>

section \<open>Tables\<close>

record user_row =
  us_id :: string
  us_phone :: string
  us_passwordHash :: string
  us_onboarded :: bool
  us_activeStore :: "string option"

record store_row =
  st_id :: string
  st_owner :: string
  st_currency :: string
  st_ownerName :: string
  st_businessName :: string
  st_address :: string
  st_city :: string
  st_country :: string
  st_logo :: "string option"

record role_row =
  rl_id :: string
  rl_store :: string
  rl_name :: string
  rl_description :: "string option"
  rl_permissions :: "string list"
  rl_system :: bool

datatype staff_status = STAFF_ACTIVE | STAFF_INACTIVE

record staff_row =
  sf_id :: string
  sf_user :: string
  sf_store :: string
  sf_name :: string
  sf_jobTitle :: "string option"
  sf_photo :: "string option"
  sf_status :: staff_status
  sf_role :: "string option"
  sf_overrides :: "string list"
  sf_lastActive :: "int option"

record access_db =
  user_rows :: "user_row list"
  store_rows :: "store_row list"
  role_rows :: "role_row list"
  staff_rows :: "staff_row list"

section \<open>src/access/permissions.ts\<close>

definition PERMISSION_MODULES :: "string list" where
  "PERMISSION_MODULES = [''orders'', ''returns'', ''products'', ''expenses'', ''ads'', ''customers'', ''analytics'', ''shop'']"

definition ALL_PERMISSIONS :: "string list" where
  "ALL_PERMISSIONS = [''orders.view'', ''orders.edit'', ''orders.cancel'', ''orders.export'',
     ''returns.view'', ''returns.process'', ''returns.scan'',
     ''products.view'', ''products.add'', ''products.edit'', ''products.delete'',
     ''expenses.view'', ''expenses.add'', ''expenses.edit'', ''expenses.delete'',
     ''ads.view'', ''ads.manage'', ''customers.view'', ''customers.blacklist'',
     ''analytics.view'', ''analytics.export'', ''shop.view'', ''shop.purchase'']"

definition PERMISSIONS_BY_MODULE :: "(string \<times> string list) list" where
  "PERMISSIONS_BY_MODULE = [
     (''orders'', [''orders.view'', ''orders.edit'', ''orders.cancel'', ''orders.export'']),
     (''returns'', [''returns.view'', ''returns.process'', ''returns.scan'']),
     (''products'', [''products.view'', ''products.add'', ''products.edit'', ''products.delete'']),
     (''expenses'', [''expenses.view'', ''expenses.add'', ''expenses.edit'', ''expenses.delete'']),
     (''ads'', [''ads.view'', ''ads.manage'']),
     (''customers'', [''customers.view'', ''customers.blacklist'']),
     (''analytics'', [''analytics.view'', ''analytics.export'']),
     (''shop'', [''shop.view'', ''shop.purchase''])]"

definition isValidPermission :: "string \<Rightarrow> bool" where
  "isValidPermission v \<longleftrightarrow> v \<in> set ALL_PERMISSIONS"

section \<open>src/access/store-access.service.ts\<close>

record store_access =
  ax_store :: string
  ax_currency :: string
  ax_user :: string
  ax_owner :: bool
  ax_staff :: "string option"
  ax_permissions :: "string list"

definition resolvePermissions :: "string list \<Rightarrow> string list \<Rightarrow> string list" where
  "resolvePermissions rolePermissions overrides =
     filter isValidPermission (if overrides \<noteq> [] then overrides else rolePermissions)"

definition groupPermissions :: "string list \<Rightarrow> (string \<times> string list) list" where
  "groupPermissions ps = map (\<lambda>(m, keys). (m, filter (\<lambda>p. p \<in> set ps) keys)) PERMISSIONS_BY_MODULE"

definition find_user :: "string \<Rightarrow> 'a access_db_scheme \<Rightarrow> user_row option" where
  "find_user u s = find (\<lambda>r. us_id r = u) (user_rows s)"

definition find_store :: "string \<Rightarrow> 'a access_db_scheme \<Rightarrow> store_row option" where
  "find_store i s = find (\<lambda>r. st_id r = i) (store_rows s)"

definition find_role :: "string \<Rightarrow> 'a access_db_scheme \<Rightarrow> role_row option" where
  "find_role i s = find (\<lambda>r. rl_id r = i) (role_rows s)"

definition staff_by_user :: "string \<Rightarrow> 'a access_db_scheme \<Rightarrow> staff_row option" where
  "staff_by_user u s = find (\<lambda>r. sf_user r = u) (staff_rows s)"

definition stores_of :: "string \<Rightarrow> 'a access_db_scheme \<Rightarrow> store_row list" where
  "stores_of u s = filter (\<lambda>r. st_owner r = u) (store_rows s)"

definition update_user :: "string \<Rightarrow> (user_row \<Rightarrow> user_row) \<Rightarrow> 'a access_db_scheme \<Rightarrow> 'a access_db_scheme" where
  "update_user u f s = s\<lparr>user_rows := map (\<lambda>r. if us_id r = u then f r else r) (user_rows s)\<rparr>"

definition set_active_store :: "string \<Rightarrow> string option \<Rightarrow> 'a access_db_scheme \<Rightarrow> 'a access_db_scheme" where
  "set_active_store u x = update_user u (\<lambda>r. r\<lparr>us_activeStore := x\<rparr>)"

text \<open>The store an owner acts on: the selected one if it is his, otherwise his oldest.\<close>

definition active_of :: "user_row \<Rightarrow> store_row list \<Rightarrow> store_row" where
  "active_of user xs = (case find (\<lambda>r. Some (st_id r) = us_activeStore user) xs of Some r \<Rightarrow> r | None \<Rightarrow> hd xs)"

definition owner_access :: "string \<Rightarrow> store_row \<Rightarrow> store_access" where
  "owner_access u r = \<lparr>ax_store = st_id r, ax_currency = st_currency r, ax_user = u, ax_owner = True,
     ax_staff = None, ax_permissions = ALL_PERMISSIONS\<rparr>"

definition role_permissions :: "staff_row \<Rightarrow> 'a access_db_scheme \<Rightarrow> string list" where
  "role_permissions f s = (case sf_role f of None \<Rightarrow> [] | Some i \<Rightarrow>
     (case find_role i s of None \<Rightarrow> [] | Some r \<Rightarrow> rl_permissions r))"

definition staff_access :: "string \<Rightarrow> staff_row \<Rightarrow> store_row \<Rightarrow> 'a access_db_scheme \<Rightarrow> store_access" where
  "staff_access u f r s = \<lparr>ax_store = st_id r, ax_currency = st_currency r, ax_user = u, ax_owner = False,
     ax_staff = Some (sf_id f), ax_permissions = resolvePermissions (role_permissions f s) (sf_overrides f)\<rparr>"

text \<open>A staff row always has its store (a foreign key); the missing store is the client's own error.\<close>

definition store_require :: "string \<Rightarrow> ('a access_db_scheme, store_access) act" where
  "store_require u = bnd (reading (find_user u)) (\<lambda>user.
     bnd (found user (NotFound ''Store not found'')) (\<lambda>user.
     bnd (reading (stores_of u)) (\<lambda>mine.
     if mine \<noteq> [] then
       (let active = active_of user mine in
        andthen (if us_activeStore user \<noteq> Some (st_id active)
                 then writing (set_active_store u (Some (st_id active))) else ret ())
          (ret (owner_access u active)))
     else bnd (reading (staff_by_user u)) (\<lambda>staff.
       bnd (found staff (NotFound ''Store not found'')) (\<lambda>f.
       bnd (reading (find_store (sf_store f))) (\<lambda>store.
       bnd (found store (Internal ''Inconsistent query result'')) (\<lambda>r.
       andthen (require (sf_status f = STAFF_ACTIVE) (Forbidden ''This staff account has been deactivated''))
         (bnd (reading (staff_access u f r)) ret))))))))"

definition requireOwner :: "string \<Rightarrow> ('a access_db_scheme, store_access) act" where
  "requireOwner u = bnd (store_require u) (\<lambda>a.
     andthen (require (ax_owner a) (Forbidden ''Only the store owner can manage staff and roles'')) (ret a))"

definition requireStore :: "string \<Rightarrow> ('a access_db_scheme, store_row) act" where
  "requireStore u = bnd (store_require u) (\<lambda>a.
     bnd (reading (find_store (ax_store a))) (\<lambda>r. found r (NotFound ''Store not found'')))"

definition touchLastActive :: "store_access \<Rightarrow> int \<Rightarrow> ('a access_db_scheme, unit) act" where
  "touchLastActive a now = (case ax_staff a of None \<Rightarrow> ret ()
     | Some i \<Rightarrow> writing (\<lambda>s. s\<lparr>staff_rows := map (\<lambda>f. if sf_id f = i then f\<lparr>sf_lastActive := Some now\<rparr> else f) (staff_rows s)\<rparr>))"

record session_view =
  sv_access :: store_access
  sv_status :: "staff_status option"
  sv_roleName :: "string option"
  sv_groups :: "(string \<times> string list) list"

definition session_of :: "store_access \<Rightarrow> 'a access_db_scheme \<Rightarrow> session_view" where
  "session_of a s = (let staff = (case ax_staff a of None \<Rightarrow> None | Some i \<Rightarrow> find (\<lambda>f. sf_id f = i) (staff_rows s)) in
     \<lparr>sv_access = a,
      sv_status = (if ax_staff a = None then None
        else Some (case staff of None \<Rightarrow> STAFF_ACTIVE | Some f \<Rightarrow> sf_status f)),
      sv_roleName = (case staff of None \<Rightarrow> None | Some f \<Rightarrow> (case sf_role f of None \<Rightarrow> None
        | Some i \<Rightarrow> map_option rl_name (find_role i s))),
      sv_groups = groupPermissions (ax_permissions a)\<rparr>)"

definition access_session :: "string \<Rightarrow> int \<Rightarrow> ('a access_db_scheme, session_view) act" where
  "access_session u now = bnd (store_require u) (\<lambda>a. bnd (reading (session_of a)) (\<lambda>v.
     andthen (touchLastActive a now) (ret v)))"

section \<open>src/access/permission.guard.ts\<close>

definition moduleOf :: "string \<Rightarrow> string" where
  "moduleOf p = takeWhile (\<lambda>c. c \<noteq> CHR ''.'') p"

definition module_labels :: "(string \<times> string) list" where
  "module_labels = [(''orders'', ''Orders''), (''returns'', ''Returns''), (''products'', ''Products''),
     (''expenses'', ''Expenses''), (''ads'', ''Advertising''), (''customers'', ''Customers''),
     (''analytics'', ''Analytics''), (''shop'', ''Shop'')]"

definition moduleLabel :: "string \<Rightarrow> string" where
  "moduleLabel p = (case map_of module_labels (moduleOf p) of Some l \<Rightarrow> l | None \<Rightarrow> moduleOf p)"

definition denied_message :: "string \<Rightarrow> string" where
  "denied_message p = ''You don't have permission to access '' @ moduleLabel p @
     ''. Please contact your store owner to request access.''"

text \<open>
  The answer of the guard and the access it leaves on the request. An undecorated route has no
  required permission; an empty user id is no user.
\<close>

definition canActivate ::
  "string list \<Rightarrow> string option \<Rightarrow> int \<Rightarrow> ('a access_db_scheme, bool \<times> store_access option) act" where
  "canActivate required user now =
     (if required = [] then ret (True, None)
      else case user of None \<Rightarrow> ret (False, None) | Some u \<Rightarrow>
        if u = [] then ret (False, None)
        else bnd (store_require u) (\<lambda>a.
          let missing = filter (\<lambda>p. p \<notin> set (ax_permissions a)) required in
          if missing \<noteq> [] then throw (Forbidden (denied_message (hd missing)))
          else andthen (touchLastActive a now) (ret (True, Some a))))"

section \<open>What the resolution decides\<close>

text \<open>The store a user acts on and the permissions he holds there, as functions of the tables.\<close>

definition acting :: "string \<Rightarrow> 'a access_db_scheme \<Rightarrow> store_access option" where
  "acting u s = (case find_user u s of None \<Rightarrow> None | Some user \<Rightarrow>
     if stores_of u s \<noteq> [] then Some (owner_access u (active_of user (stores_of u s)))
     else case staff_by_user u s of None \<Rightarrow> None | Some f \<Rightarrow>
       (case find_store (sf_store f) s of None \<Rightarrow> None
        | Some r \<Rightarrow> if sf_status f = STAFF_ACTIVE then Some (staff_access u f r s) else None))"

definition healed :: "string \<Rightarrow> 'a access_db_scheme \<Rightarrow> 'a access_db_scheme" where
  "healed u s = (case find_user u s of None \<Rightarrow> s | Some user \<Rightarrow>
     if stores_of u s \<noteq> [] \<and> us_activeStore user \<noteq> Some (st_id (active_of user (stores_of u s)))
     then set_active_store u (Some (st_id (active_of user (stores_of u s)))) s else s)"

lemma healed_tables [simp]:
  "store_rows (healed u s) = store_rows s" "role_rows (healed u s) = role_rows s"
  "staff_rows (healed u s) = staff_rows s" "access_db.more (healed u s) = access_db.more s"
  by (simp_all add: healed_def set_active_store_def update_user_def split: option.split)

lemma store_require_run:
  "store_require u s = (case acting u s of Some a \<Rightarrow> (Inr a, healed u s)
     | None \<Rightarrow> (Inl (case find_user u s of None \<Rightarrow> NotFound ''Store not found'' | Some _ \<Rightarrow>
          (case staff_by_user u s of None \<Rightarrow> NotFound ''Store not found'' | Some f \<Rightarrow>
            (if find_store (sf_store f) s = None then Internal ''Inconsistent query result''
             else Forbidden ''This staff account has been deactivated''))), s))"
  by (cases "find_user u s"; cases "stores_of u s"; cases "staff_by_user u s")
    (auto simp: store_require_def act_defs acting_def healed_def Let_def split: option.split)

section \<open>Keys\<close>

text \<open>The primary keys, and the unique user of a staff row.\<close>

definition access_keys :: "'a access_db_scheme \<Rightarrow> bool" where
  "access_keys s \<longleftrightarrow> distinct (map us_id (user_rows s)) \<and> distinct (map st_id (store_rows s)) \<and>
     distinct (map rl_id (role_rows s)) \<and> distinct (map sf_id (staff_rows s)) \<and> distinct (map sf_user (staff_rows s))"

lemma find_key:
  assumes "distinct (map f xs)"
  shows "find (\<lambda>y. f y = k) xs = Some x \<longleftrightarrow> x \<in> set xs \<and> f x = k"
  using find_id[OF assms, of x] find_Some_set[of "\<lambda>y. f y = k" xs x] by auto

lemma find_store_iff: "access_keys s \<Longrightarrow> find_store i s = Some r \<longleftrightarrow> r \<in> set (store_rows s) \<and> st_id r = i"
  by (simp add: access_keys_def find_store_def find_key)

lemma find_user_iff: "access_keys s \<Longrightarrow> find_user i s = Some r \<longleftrightarrow> r \<in> set (user_rows s) \<and> us_id r = i"
  by (simp add: access_keys_def find_user_def find_key)

lemma find_role_iff: "access_keys s \<Longrightarrow> find_role i s = Some r \<longleftrightarrow> r \<in> set (role_rows s) \<and> rl_id r = i"
  by (simp add: access_keys_def find_role_def find_key)

lemma staff_by_user_iff: "access_keys s \<Longrightarrow> staff_by_user i s = Some r \<longleftrightarrow> r \<in> set (staff_rows s) \<and> sf_user r = i"
  by (simp add: access_keys_def staff_by_user_def find_key)

lemma active_of_in: "xs \<noteq> [] \<Longrightarrow> active_of user xs \<in> set xs"
  by (auto simp: active_of_def split: option.split dest: find_Some_set)

lemma active_of_selected:
  assumes "distinct (map st_id xs)" "r \<in> set xs" "us_activeStore user = Some (st_id r)"
  shows "active_of user xs = r"
proof -
  have "find (\<lambda>y. Some (st_id y) = us_activeStore user) xs = Some r"
    using find_id[OF assms(1,2)] assms(3) by simp
  then show ?thesis by (simp add: active_of_def)
qed

lemma active_of_default: "\<forall>r \<in> set xs. us_activeStore user \<noteq> Some (st_id r) \<Longrightarrow> active_of user xs = hd xs"
  by (fastforce simp: active_of_def split: option.split dest: find_Some_set)

lemma role_permissions_cong: "role_rows t = role_rows s \<Longrightarrow> role_permissions f t = role_permissions f s"
  by (simp add: role_permissions_def find_role_def cong: option.case_cong)

lemma stores_of_distinct: "access_keys s \<Longrightarrow> distinct (map st_id (stores_of u s))"
  by (auto simp: access_keys_def stores_of_def distinct_map_filter)

text \<open>Healing the selection and touching the activity time change nobody's access.\<close>

lemma acting_healed:
  assumes "access_keys s" shows "acting v (healed u s) = acting v s"
proof -
  have base: "stores_of w (healed u s) = stores_of w s" "staff_by_user w (healed u s) = staff_by_user w s"
    "find_store i (healed u s) = find_store i s" for i w
    by (simp_all add: stores_of_def staff_by_user_def find_store_def)
  have roles: "role_permissions f (healed u s) = role_permissions f s" for f by (rule role_permissions_cong) simp
  have user: "find_user v (healed u s) = find_user v s \<or>
     (\<exists>x. v = u \<and> stores_of u s \<noteq> [] \<and> find_user u s = Some x \<and>
       find_user u (healed u s) = Some (x\<lparr>us_activeStore := Some (st_id (active_of x (stores_of u s)))\<rparr>))"
  proof (cases "healed u s = s")
    case False
    then obtain x where x: "find_user u s = Some x" "stores_of u s \<noteq> []"
      "healed u s = set_active_store u (Some (st_id (active_of x (stores_of u s)))) s"
      by (auto simp: healed_def split: option.splits if_splits)
    have "find (\<lambda>r. us_id r = v) (map (\<lambda>r. if us_id r = u then r\<lparr>us_activeStore := z\<rparr> else r) (user_rows s)) =
        map_option (\<lambda>r. if us_id r = u then r\<lparr>us_activeStore := z\<rparr> else r) (find (\<lambda>r. us_id r = v) (user_rows s))" for z
      by (rule find_map) simp
    then have upd: "find_user v (set_active_store u z s) =
        map_option (\<lambda>r. if us_id r = u then r\<lparr>us_activeStore := z\<rparr> else r) (find_user v s)" for z
      by (simp add: find_user_def set_active_store_def update_user_def)
    have uid: "find_user v s = Some r \<Longrightarrow> us_id r = v" for r using find_Some_set by (fastforce simp: find_user_def)
    show ?thesis
    proof (cases "v = u")
      case True
      with x uid have "us_id x = u" by simp
      with True x upd[of "Some (st_id (active_of x (stores_of u s)))"] show ?thesis by simp
    next
      case False
      with x upd[of "Some (st_id (active_of x (stores_of u s)))"] uid show ?thesis by (cases "find_user v s") auto
    qed
  qed simp
  have again: "active_of (x\<lparr>us_activeStore := Some (st_id (active_of x (stores_of u s)))\<rparr>) (stores_of u s) = active_of x (stores_of u s)"
    if "stores_of u s \<noteq> []" for x
    using stores_of_distinct[OF assms] active_of_in[OF that] by (rule active_of_selected) simp
  from user show ?thesis
  proof
    assume "find_user v (healed u s) = find_user v s"
    note eq = this
    show ?thesis unfolding acting_def base roles staff_access_def eq ..
  next
    assume "\<exists>x. v = u \<and> stores_of u s \<noteq> [] \<and> find_user u s = Some x \<and>
       find_user u (healed u s) = Some (x\<lparr>us_activeStore := Some (st_id (active_of x (stores_of u s)))\<rparr>)"
    then show ?thesis by (auto simp: acting_def base again)
  qed
qed

definition touched :: "store_access \<Rightarrow> int \<Rightarrow> 'a access_db_scheme \<Rightarrow> 'a access_db_scheme" where
  "touched a now s = snd (touchLastActive a now s)"

lemma touch_run: "touchLastActive a now s = (Inr (), touched a now s)"
  by (simp add: touched_def touchLastActive_def act_defs split: option.split)

lemma acting_staff_map:
  assumes "\<And>f. sf_id (g f) = sf_id f" "\<And>f. sf_user (g f) = sf_user f" "\<And>f. sf_store (g f) = sf_store f"
    "\<And>f. sf_status (g f) = sf_status f" "\<And>f. sf_role (g f) = sf_role f" "\<And>f. sf_overrides (g f) = sf_overrides f"
  shows "acting v (s\<lparr>staff_rows := map g (staff_rows s)\<rparr>) = acting v s"
proof -
  let ?t = "s\<lparr>staff_rows := map g (staff_rows s)\<rparr>"
  have "staff_by_user v ?t = map_option g (staff_by_user v s)" by (simp add: staff_by_user_def find_map assms)
  moreover have "stores_of v ?t = stores_of v s" "find_user v ?t = find_user v s" "find_store k ?t = find_store k s" for k
    by (simp_all add: stores_of_def find_user_def find_store_def)
  moreover have "role_permissions (g f) ?t = role_permissions f s" for f
    by (simp add: role_permissions_def find_role_def assms cong: option.case_cong)
  ultimately show ?thesis
    by (cases "find_user v s"; cases "staff_by_user v s") (simp_all add: acting_def staff_access_def assms split: option.split)
qed

lemma acting_touched: "acting v (touched a now s) = acting v s"
proof (cases "ax_staff a")
  case (Some i)
  then have "touched a now s = s\<lparr>staff_rows := map (\<lambda>f. if sf_id f = i then f\<lparr>sf_lastActive := Some now\<rparr> else f) (staff_rows s)\<rparr>"
    by (simp add: touched_def touchLastActive_def writing_def)
  then show ?thesis by (simp add: acting_staff_map)
qed (simp add: touched_def touchLastActive_def ret_def)

lemma healed_keys: "access_keys s \<Longrightarrow> access_keys (healed u s)"
proof -
  have "map us_id (map (\<lambda>r. if us_id r = u then r\<lparr>us_activeStore := z\<rparr> else r) xs) = map us_id xs" for z xs by simp
  then have "map us_id (user_rows (healed u s)) = map us_id (user_rows s)"
    by (simp add: healed_def set_active_store_def update_user_def split: option.split)
  then show "access_keys s \<Longrightarrow> access_keys (healed u s)" by (simp add: access_keys_def)
qed

section \<open>Properties\<close>

text \<open>
  What the tables entitle a user to: the store he acts on (his own selected store, or his oldest one
  when the selection is not his; otherwise the store of his active staff row) and the permissions he
  holds there.
\<close>

definition owns :: "'a access_db_scheme \<Rightarrow> string \<Rightarrow> string \<Rightarrow> bool" where
  "owns s u i \<longleftrightarrow> (\<exists>r \<in> set (store_rows s). st_id r = i \<and> st_owner r = u)"

definition selected :: "'a access_db_scheme \<Rightarrow> string \<Rightarrow> string \<Rightarrow> bool" where
  "selected s u i \<longleftrightarrow> owns s u i \<and> (\<exists>x \<in> set (user_rows s). us_id x = u \<and>
     (us_activeStore x = Some i \<or>
      (\<forall>j. owns s u j \<longrightarrow> us_activeStore x \<noteq> Some j) \<and> st_id (hd (stores_of u s)) = i))"

definition employed :: "'a access_db_scheme \<Rightarrow> string \<Rightarrow> string \<Rightarrow> staff_row \<Rightarrow> bool" where
  "employed s u i f \<longleftrightarrow> f \<in> set (staff_rows s) \<and> sf_user f = u \<and> sf_store f = i \<and> sf_status f = STAFF_ACTIVE \<and>
     (\<exists>r \<in> set (store_rows s). st_id r = i) \<and> (\<exists>x \<in> set (user_rows s). us_id x = u) \<and> (\<forall>j. \<not> owns s u j)"

definition entitled :: "'a access_db_scheme \<Rightarrow> string \<Rightarrow> string \<Rightarrow> string \<Rightarrow> bool" where
  "entitled s u i p \<longleftrightarrow> p \<in> set ALL_PERMISSIONS \<and> (selected s u i \<or>
     (\<exists>f. employed s u i f \<and>
       p \<in> set (if sf_overrides f \<noteq> [] then sf_overrides f else role_permissions f s)))"

lemma owns_stores: "(\<exists>j. owns s u j) \<longleftrightarrow> stores_of u s \<noteq> []"
  by (auto simp: owns_def stores_of_def filter_empty_conv)

lemma selected_iff:
  assumes "access_keys s"
  shows "selected s u i \<longleftrightarrow>
    (\<exists>x. find_user u s = Some x \<and> stores_of u s \<noteq> [] \<and> st_id (active_of x (stores_of u s)) = i)"
proof
  assume "selected s u i"
  then obtain x r where x: "x \<in> set (user_rows s)" "us_id x = u" and r: "r \<in> set (store_rows s)" "st_id r = i" "st_owner r = u"
    and c: "us_activeStore x = Some i \<or>
      (\<forall>j. owns s u j \<longrightarrow> us_activeStore x \<noteq> Some j) \<and> st_id (hd (stores_of u s)) = i"
    unfolding selected_def owns_def by blast
  have mem: "r \<in> set (stores_of u s)" using r by (simp add: stores_of_def)
  have "st_id (active_of x (stores_of u s)) = i"
  proof (cases "us_activeStore x = Some i")
    case True
    with active_of_selected[OF stores_of_distinct[OF assms] mem] r show ?thesis by simp
  next
    case False
    with c have "\<forall>r \<in> set (stores_of u s). us_activeStore x \<noteq> Some (st_id r)" "st_id (hd (stores_of u s)) = i"
      by (auto simp: owns_def stores_of_def)
    then show ?thesis by (simp add: active_of_default)
  qed
  with x mem find_user_iff[OF assms] show
    "\<exists>x. find_user u s = Some x \<and> stores_of u s \<noteq> [] \<and> st_id (active_of x (stores_of u s)) = i" by force
next
  assume "\<exists>x. find_user u s = Some x \<and> stores_of u s \<noteq> [] \<and> st_id (active_of x (stores_of u s)) = i"
  then obtain x where x: "find_user u s = Some x" "stores_of u s \<noteq> []" "st_id (active_of x (stores_of u s)) = i" by blast
  have mem: "active_of x (stores_of u s) \<in> set (stores_of u s)" by (rule active_of_in[OF x(2)])
  then have own: "owns s u i" using x(3) by (auto simp: owns_def stores_of_def)
  have "us_activeStore x = Some i \<or> (\<forall>j. owns s u j \<longrightarrow> us_activeStore x \<noteq> Some j) \<and> st_id (hd (stores_of u s)) = i"
  proof (cases "\<exists>r \<in> set (stores_of u s). us_activeStore x = Some (st_id r)")
    case True
    with active_of_selected[OF stores_of_distinct[OF assms]] x(3) show ?thesis by auto
  next
    case False
    then have "\<forall>j. owns s u j \<longrightarrow> us_activeStore x \<noteq> Some j" by (auto simp: owns_def stores_of_def)
    with active_of_default[of "stores_of u s" x] False x(3) show ?thesis by auto
  qed
  with own x(1) find_user_iff[OF assms] show "selected s u i" unfolding selected_def by blast
qed

lemma employed_iff:
  assumes "access_keys s"
  shows "employed s u i f \<longleftrightarrow> (\<exists>x r. find_user u s = Some x \<and> stores_of u s = [] \<and> staff_by_user u s = Some f \<and>
    find_store (sf_store f) s = Some r \<and> sf_store f = i \<and> sf_status f = STAFF_ACTIVE)"
proof -
  have "(\<forall>j. \<not> owns s u j) \<longleftrightarrow> stores_of u s = []" using owns_stores[of s u] by blast
  moreover have "(\<exists>x \<in> set (user_rows s). us_id x = u) \<longleftrightarrow> (\<exists>x. find_user u s = Some x)"
    using find_user_iff[OF assms, of u] by blast
  moreover have "(\<exists>r \<in> set (store_rows s). st_id r = i) \<longleftrightarrow> (\<exists>r. find_store i s = Some r)"
    using find_store_iff[OF assms, of i] by blast
  moreover have "f \<in> set (staff_rows s) \<and> sf_user f = u \<longleftrightarrow> staff_by_user u s = Some f"
    using staff_by_user_iff[OF assms, of u f] by blast
  ultimately show ?thesis unfolding employed_def by blast
qed

lemma acting_cases:
  assumes "acting u s = Some a"
  obtains (owner) x where "find_user u s = Some x" "stores_of u s \<noteq> []" "a = owner_access u (active_of x (stores_of u s))"
  | (staff) x f r where "find_user u s = Some x" "stores_of u s = []" "staff_by_user u s = Some f"
      "find_store (sf_store f) s = Some r" "sf_status f = STAFF_ACTIVE" "a = staff_access u f r s"
  using assms by (auto simp: acting_def split: option.splits if_splits)

lemma acting_place:
  assumes "access_keys s" "acting u s = Some a"
  shows "selected s u (ax_store a) \<or> (\<exists>f. employed s u (ax_store a) f)"
  using assms(2)
proof (cases rule: acting_cases)
  case owner
  then show ?thesis unfolding selected_iff[OF assms(1)] by (auto simp: owner_access_def)
next
  case (staff x f r)
  moreover from this have "ax_store a = sf_store f" using find_store_iff[OF assms(1)] by (simp add: staff_access_def)
  ultimately show ?thesis unfolding employed_iff[OF assms(1)] by auto
qed

lemma acting_entitled:
  assumes "access_keys s" "required \<noteq> []"
  shows "(\<exists>a. acting u s = Some a \<and> ax_store a = i \<and> set required \<subseteq> set (ax_permissions a)) \<longleftrightarrow>
    (\<forall>p \<in> set required. entitled s u i p)"
proof -
  have own: "\<not> employed s u i f" if "selected s u i" for f
    using that by (auto simp: selected_def employed_def)
  have uniq: "f = g" if "employed s u i f" "employed s u i g" for f g
  proof -
    have "staff_by_user u s = Some f" "staff_by_user u s = Some g"
      using that unfolding employed_iff[OF assms(1)] by blast+
    then show ?thesis by simp
  qed
  obtain q where q: "q \<in> set required" using assms(2) by (cases required) auto
  show ?thesis
  proof (cases "selected s u i")
    case True
    then obtain x where x: "find_user u s = Some x" "stores_of u s \<noteq> []" "st_id (active_of x (stores_of u s)) = i"
      unfolding selected_iff[OF assms(1)] by blast
    then have "acting u s = Some (owner_access u (active_of x (stores_of u s)))" by (simp add: acting_def)
    with x True own show ?thesis by (auto simp: owner_access_def entitled_def)
  next
    case False
    show ?thesis
    proof (cases "\<exists>f. employed s u i f")
      case True
      then obtain f where f: "employed s u i f" by blast
      then obtain x r where x: "find_user u s = Some x" "stores_of u s = []" "staff_by_user u s = Some f"
        "find_store (sf_store f) s = Some r" "sf_store f = i" "sf_status f = STAFF_ACTIVE"
        unfolding employed_iff[OF assms(1)] by blast
      then have act: "acting u s = Some (staff_access u f r s)" by (simp add: acting_def)
      have "st_id r = i" using x(4,5) find_store_iff[OF assms(1)] by simp
      moreover have "entitled s u i p \<longleftrightarrow> p \<in> set (ax_permissions (staff_access u f r s))" for p
        using False f uniq by (auto simp: entitled_def staff_access_def resolvePermissions_def isValidPermission_def)
      ultimately show ?thesis using act by (auto simp: staff_access_def)
    next
      case none: False
      have "\<not> entitled s u i q" using False none by (auto simp: entitled_def)
      moreover have "ax_store a \<noteq> i" if "acting u s = Some a" for a
        using acting_place[OF assms(1) that] False none by blast
      ultimately show ?thesis using q by blast
    qed
  qed
qed

text \<open>
  C37: the permission guard is exact. A gated request passes, acting on store \<open>i\<close>, if and only if the
  tables entitle the user to every required permission on that very store: \<open>i\<close> is the store he owns
  and selected (or his oldest one), or he owns none and is an active staff member of \<open>i\<close> whose own
  overrides, or else whose role, list the permission. Whether it passes or not, the guard changes
  nobody's access to any store.
\<close>

theorem permission_guard_exact:
  assumes "access_keys s" "required \<noteq> []" "u \<noteq> []"
  shows "((\<exists>a t. canActivate required (Some u) now s = (Inr (True, Some a), t) \<and> ax_store a = i \<and> ax_user a = u) \<longleftrightarrow>
      (\<forall>p \<in> set required. entitled s u i p)) \<and>
    acting v (snd (canActivate required (Some u) now s)) = acting v s"
proof -
  have user: "ax_user a = u" if "acting u s = Some a" for a
    using that by (auto simp: acting_def owner_access_def staff_access_def split: option.splits if_splits)
  have miss: "filter (\<lambda>p. p \<notin> set (ax_permissions a)) required = [] \<longleftrightarrow> set required \<subseteq> set (ax_permissions a)" for a
    by (auto simp: filter_empty_conv)
  have "(\<exists>a t. canActivate required (Some u) now s = (Inr (True, Some a), t) \<and> ax_store a = i \<and> ax_user a = u) \<longleftrightarrow>
      (\<exists>a. acting u s = Some a \<and> ax_store a = i \<and> set required \<subseteq> set (ax_permissions a))"
    using assms(2,3) user
    by (cases "acting u s")
      (auto simp: canActivate_def bnd_def store_require_run miss throw_def andthen_def touch_run ret_def Let_def)
  moreover have "acting v (snd (canActivate required (Some u) now s)) = acting v s"
    using assms(2,3) acting_healed[OF assms(1)]
    by (cases "acting u s")
      (auto simp: canActivate_def bnd_def store_require_run throw_def andthen_def touch_run ret_def Let_def acting_touched)
  ultimately show ?thesis using acting_entitled[OF assms(1,2)] by blast
qed

definition sample_access :: access_db where
  "sample_access = \<lparr>
     user_rows = [\<lparr>us_id = ''u'', us_phone = ''1'', us_passwordHash = '''', us_onboarded = True, us_activeStore = None\<rparr>,
       \<lparr>us_id = ''v'', us_phone = ''2'', us_passwordHash = '''', us_onboarded = True, us_activeStore = None\<rparr>],
     store_rows = [\<lparr>st_id = ''s'', st_owner = ''u'', st_currency = ''MAD'', st_ownerName = '''', st_businessName = '''',
       st_address = '''', st_city = '''', st_country = '''', st_logo = None\<rparr>],
     role_rows = [\<lparr>rl_id = ''r'', rl_store = ''s'', rl_name = ''Staff'', rl_description = None,
       rl_permissions = [''orders.view''], rl_system = True\<rparr>],
     staff_rows = [\<lparr>sf_id = ''f'', sf_user = ''v'', sf_store = ''s'', sf_name = ''V'', sf_jobTitle = None, sf_photo = None,
       sf_status = STAFF_ACTIVE, sf_role = Some ''r'', sf_overrides = [], sf_lastActive = None\<rparr>]\<rparr>"

theorem permission_guard_exact_witness:
  "(\<exists>a t. canActivate [''orders.view''] (Some ''v'') 7 sample_access = (Inr (True, Some a), t) \<and> ax_store a = ''s'' \<and> ax_user a = ''v'') \<and>
   \<not> (\<exists>a t. canActivate [''orders.edit''] (Some ''v'') 7 sample_access = (Inr (True, Some a), t) \<and> ax_store a = ''s'' \<and> ax_user a = ''v'')"
proof -
  have k: "access_keys sample_access" by (simp add: access_keys_def sample_access_def)
  have e: "employed sample_access ''v'' ''s'' f \<longleftrightarrow> f \<in> set (staff_rows sample_access)" for f
    by (auto simp: employed_def owns_def sample_access_def)
  have f: "\<not> selected sample_access ''v'' ''s''" by (auto simp: selected_def owns_def sample_access_def)
  have ent: "entitled sample_access ''v'' ''s'' p \<longleftrightarrow> p \<in> set ALL_PERMISSIONS \<and>
     (\<exists>f \<in> set (staff_rows sample_access). p \<in> set (if sf_overrides f \<noteq> [] then sf_overrides f else role_permissions f sample_access))" for p
    unfolding entitled_def e using f by blast
  have "entitled sample_access ''v'' ''s'' ''orders.view''" "\<not> entitled sample_access ''v'' ''s'' ''orders.edit''"
    unfolding ent by (simp_all add: sample_access_def role_permissions_def find_role_def ALL_PERMISSIONS_def)
  then show ?thesis
    using permission_guard_exact[OF k, of "[''orders.view'']" "''v''" 7 "''s''"]
      permission_guard_exact[OF k, of "[''orders.edit'']" "''v''" 7 "''s''"] by simp
qed

end
