(* ===== verification/Billing.thy ===== *)
theory Billing
  imports Js_Calendar Decimal_Lib Access
begin

text \<open>
  Subscriptions (\<open>src/billing\<close>): the status derived from the access date, the calendar arithmetic of
  the billing interval (\<open>subscription-status.util.ts\<close>), trial, activation, cancellation and store
  limit (\<open>subscription.service.ts\<close>, \<open>plan-features.ts\<close>), and the interceptor that makes a lapsed
  account read-only (\<open>subscription-access.interceptor.ts\<close>). The Stripe client is a parameter.
\<close>

section \<open>Data\<close>

datatype billing_interval = MONTHLY | YEARLY

datatype sub_status = TRIALING | ACTIVE | TRIAL_ENDED | EXPIRED

record plan_row =
  pl_id :: string
  pl_code :: string
  pl_name :: string
  pl_description :: "string option"
  pl_monthlyPrice :: "rat option"
  pl_yearlyPrice :: "rat option"
  pl_currency :: string
  pl_taxIncluded :: bool
  pl_maxStores :: "int option"
  pl_features :: "string list"
  pl_featureList :: "string list"
  pl_active :: bool
  pl_sortOrder :: int
  pl_createdAt :: int

record sub_row =
  sb_user :: string
  sb_plan :: "string option"
  sb_interval :: "billing_interval option"
  sb_trialEndsAt :: "int option"
  sb_periodStart :: "int option"
  sb_periodEnd :: "int option"
  sb_cancelAtPeriodEnd :: bool
  sb_canceledAt :: "int option"
  sb_accessEndsAt :: int
  sb_provider :: string

record invoice_row =
  in_user :: string
  in_plan :: string
  in_planName :: string
  in_interval :: billing_interval
  in_amount :: rat
  in_currency :: string
  in_periodStart :: int
  in_periodEnd :: int
  in_paidAt :: int
  in_provider :: string
  in_reference :: "string option"
  in_note :: "string option"
  in_admin :: string

record billing_db = access_db +
  plans :: "plan_row list"
  subs :: "sub_row list"
  invoices :: "invoice_row list"

section \<open>src/billing/plan-features.ts\<close>

definition ALL_PLAN_FEATURES :: "string list" where
  "ALL_PLAN_FEATURES = [''ads'', ''shop'', ''whatsapp'']"

definition isPlanFeature :: "string \<Rightarrow> bool" where
  "isPlanFeature v \<longleftrightarrow> v \<in> set ALL_PLAN_FEATURES"

definition TRIAL_DAYS :: int where
  "TRIAL_DAYS = 7"

definition TRIAL_ENTITLEMENTS :: "int option \<times> string list" where
  "TRIAL_ENTITLEMENTS = (None, ALL_PLAN_FEATURES)"

section \<open>src/billing/subscription-status.util.ts\<close>

definition deriveSubscriptionStatus :: "string option \<Rightarrow> int \<Rightarrow> int \<Rightarrow> sub_status" where
  "deriveSubscriptionStatus planId accessEndsAt now =
     (let live = accessEndsAt > now
      in if planId = None then (if live then TRIALING else TRIAL_ENDED)
         else (if live then ACTIVE else EXPIRED))"

definition isReadOnlyStatus :: "sub_status \<Rightarrow> bool" where
  "isReadOnlyStatus st \<longleftrightarrow> st = TRIAL_ENDED \<or> st = EXPIRED"

definition interval_months :: "billing_interval \<Rightarrow> int \<Rightarrow> int" where
  "interval_months i n = (case i of MONTHLY \<Rightarrow> n | YEARLY \<Rightarrow> n * 12)"

definition addInterval :: "instant \<Rightarrow> billing_interval \<Rightarrow> int \<Rightarrow> instant" where
  "addInterval from' i n =
     (let months = interval_months i n;
          day = getUTCDate from';
          d = setUTCDate from' 1;
          d = setUTCMonth d (getUTCMonth d + months);
          lastDay = getUTCDate (Date_UTC (getUTCFullYear d) (getUTCMonth d + 1) 0)
      in setUTCDate d (min day lastDay))"

definition daysLeft :: "instant \<Rightarrow> instant \<Rightarrow> int" where
  "daysLeft until' now = max 0 (\<lceil>rat_of_int (until' - now) / rat_of_int ms_day\<rceil>)"

text \<open>The account filter of the scheduled jobs: an owner, or the owner of a staff member's store.\<close>

definition activeAccountWhere :: "int \<Rightarrow> 'a billing_db_scheme \<Rightarrow> string \<Rightarrow> bool" where
  "activeAccountWhere now s user \<longleftrightarrow> list_ex (\<lambda>b. sb_user b = user \<and> sb_accessEndsAt b > now) (subs s)"

definition userWithActiveAccountWhere :: "int \<Rightarrow> 'a billing_db_scheme \<Rightarrow> string \<Rightarrow> bool" where
  "userWithActiveAccountWhere now s user \<longleftrightarrow> activeAccountWhere now s user \<or>
     (case staff_by_user user s of None \<Rightarrow> False
      | Some f \<Rightarrow> (case find_store (sf_store f) s of None \<Rightarrow> False | Some r \<Rightarrow> activeAccountWhere now s (st_owner r)))"

section \<open>src/billing/subscription.service.ts\<close>

definition find_sub :: "string \<Rightarrow> 'a billing_db_scheme \<Rightarrow> sub_row option" where
  "find_sub user s = find (\<lambda>b. sb_user b = user) (subs s)"

definition trial_row :: "string \<Rightarrow> int \<Rightarrow> sub_row" where
  "trial_row user now = (let e = now + TRIAL_DAYS * 24 * 60 * 60 * 1000 in
     \<lparr>sb_user = user, sb_plan = None, sb_interval = None, sb_trialEndsAt = Some e, sb_periodStart = None,
      sb_periodEnd = None, sb_cancelAtPeriodEnd = False, sb_canceledAt = None, sb_accessEndsAt = e,
      sb_provider = ''MANUAL''\<rparr>)"

definition startTrialIfMissing :: "string \<Rightarrow> int \<Rightarrow> ('a billing_db_scheme, sub_row) act" where
  "startTrialIfMissing user now = bnd (reading (find_sub user)) (\<lambda>existing. case existing of
       Some b \<Rightarrow> ret b
     | None \<Rightarrow> andthen (writing (\<lambda>s. s\<lparr>subs := subs s @ [trial_row user now]\<rparr>)) (ret (trial_row user now)))"

text \<open>The account behind a user: himself when he owns a store, else the owner of the store he works for.\<close>

definition ownerUserIdFor :: "string \<Rightarrow> 'a billing_db_scheme \<Rightarrow> string option" where
  "ownerUserIdFor user s =
     (if stores_of user s \<noteq> [] then Some user
      else case staff_by_user user s of None \<Rightarrow> None | Some f \<Rightarrow> map_option st_owner (find_store (sf_store f) s))"

record account_state =
  ac_owner :: string
  ac_sub :: sub_row
  ac_plan :: "plan_row option"
  ac_status :: sub_status
  ac_readOnly :: bool
  ac_maxStores :: "int option"
  ac_features :: "string list"

definition find_plan :: "string \<Rightarrow> 'a billing_db_scheme \<Rightarrow> plan_row option" where
  "find_plan i s = find (\<lambda>p. pl_id p = i) (plans s)"

definition stateForOwner :: "string \<Rightarrow> int \<Rightarrow> ('a billing_db_scheme, account_state) act" where
  "stateForOwner owner now = bnd (startTrialIfMissing owner now) (\<lambda>b.
     bnd (reading (\<lambda>s. case sb_plan b of None \<Rightarrow> None | Some i \<Rightarrow> find_plan i s)) (\<lambda>plan.
     let st = deriveSubscriptionStatus (sb_plan b) (sb_accessEndsAt b) now;
         (maxStores, features) = (case plan of None \<Rightarrow> TRIAL_ENTITLEMENTS
            | Some p \<Rightarrow> (pl_maxStores p, filter isPlanFeature (pl_features p)))
     in ret \<lparr>ac_owner = owner, ac_sub = b, ac_plan = plan, ac_status = st, ac_readOnly = isReadOnlyStatus st,
          ac_maxStores = maxStores, ac_features = features\<rparr>))"

definition stateForUser :: "string \<Rightarrow> int \<Rightarrow> ('a billing_db_scheme, account_state option) act" where
  "stateForUser user now = bnd (reading (ownerUserIdFor user)) (\<lambda>owner. case owner of
       None \<Rightarrow> ret None
     | Some w \<Rightarrow> bnd (stateForOwner w now) (\<lambda>st. ret (Some st)))"

definition store_count :: "string \<Rightarrow> 'a billing_db_scheme \<Rightarrow> int" where
  "store_count owner s = int (length (stores_of owner s))"

definition assertCanCreateStore :: "string \<Rightarrow> int \<Rightarrow> ('a billing_db_scheme, unit) act" where
  "assertCanCreateStore owner now = bnd (reading (store_count owner)) (\<lambda>n.
     if n = 0 then ret () else
     bnd (stateForOwner owner now) (\<lambda>st. case ac_maxStores st of
       None \<Rightarrow> ret ()
     | Some m \<Rightarrow> require (n < m) (Forbidden (''Your plan allows '' @ show_int m @ '' store'' @ (if m = 1 then [] else ''s'') @
          ''. Upgrade to add more businesses.''))))"

record subscription_view =
  vw_status :: sub_status
  vw_readOnly :: bool
  vw_plan :: "plan_row option"
  vw_interval :: "billing_interval option"
  vw_trialEndsAt :: "int option"
  vw_trialDaysLeft :: "int option"
  vw_periodStart :: "int option"
  vw_periodEnd :: "int option"
  vw_renewsAt :: "int option"
  vw_cancelAtPeriodEnd :: bool
  vw_canceledAt :: "int option"
  vw_accessEndsAt :: int
  vw_provider :: string
  vw_maxStores :: "int option"
  vw_storesUsed :: int
  vw_features :: "string list"
  vw_canManage :: bool

definition toPlanResponse :: "plan_row \<Rightarrow> plan_row" where
  "toPlanResponse p = p\<lparr>pl_features := filter isPlanFeature (pl_features p)\<rparr>"

definition toSubscriptionResponse :: "account_state \<Rightarrow> int \<Rightarrow> bool \<Rightarrow> int \<Rightarrow> subscription_view" where
  "toSubscriptionResponse st used manage now = (let b = ac_sub st in
     \<lparr>vw_status = ac_status st, vw_readOnly = ac_readOnly st, vw_plan = map_option toPlanResponse (ac_plan st),
      vw_interval = sb_interval b, vw_trialEndsAt = sb_trialEndsAt b,
      vw_trialDaysLeft = (if ac_status st = TRIALING then Some (daysLeft (sb_accessEndsAt b) now) else None),
      vw_periodStart = sb_periodStart b, vw_periodEnd = sb_periodEnd b,
      vw_renewsAt = (if ac_status st = ACTIVE \<and> \<not> sb_cancelAtPeriodEnd b then sb_periodEnd b else None),
      vw_cancelAtPeriodEnd = sb_cancelAtPeriodEnd b, vw_canceledAt = sb_canceledAt b, vw_accessEndsAt = sb_accessEndsAt b,
      vw_provider = sb_provider b, vw_maxStores = ac_maxStores st, vw_storesUsed = used, vw_features = ac_features st,
      vw_canManage = manage\<rparr>)"

definition getForUser :: "string \<Rightarrow> int \<Rightarrow> ('a billing_db_scheme, subscription_view) act" where
  "getForUser user now = bnd (store_require user) (\<lambda>a. bnd (stateForUser user now) (\<lambda>st.
     bnd (found st (NotFound ''Store not found'')) (\<lambda>st.
     bnd (reading (store_count (ac_owner st))) (\<lambda>used. ret (toSubscriptionResponse st used (ax_owner a) now)))))"

definition update_sub :: "string \<Rightarrow> (sub_row \<Rightarrow> sub_row) \<Rightarrow> ('a billing_db_scheme, unit) act" where
  "update_sub user f = writing (\<lambda>s. s\<lparr>subs := map (\<lambda>b. if sb_user b = user then f b else b) (subs s)\<rparr>)"

text \<open>\<open>stripe\<close> is \<open>stripeBilling.setCancellation\<close> when that service is configured.\<close>

definition set_stripe :: "(string \<Rightarrow> bool \<Rightarrow> ('s, unit) act) option \<Rightarrow> string \<Rightarrow> bool \<Rightarrow> ('s, unit) act" where
  "set_stripe stripe user c = (case stripe of None \<Rightarrow> throw (Conflict ''Stripe billing is unavailable'') | Some f \<Rightarrow> f user c)"

definition cancel_sub ::
  "(string \<Rightarrow> bool \<Rightarrow> ('a billing_db_scheme, unit) act) option \<Rightarrow> string \<Rightarrow> int \<Rightarrow> int \<Rightarrow> int \<Rightarrow> ('a billing_db_scheme, subscription_view) act" where
  "cancel_sub stripe user now later shown_at = andthen (requireOwner user) (bnd (stateForOwner user now) (\<lambda>st.
     andthen (require (ac_status st = ACTIVE) (Conflict ''Only an active paid subscription can be cancelled''))
     (andthen (if sb_provider (ac_sub st) = ''STRIPE'' then set_stripe stripe user True
      else if \<not> sb_cancelAtPeriodEnd (ac_sub st)
      then update_sub user (\<lambda>b. b\<lparr>sb_cancelAtPeriodEnd := True, sb_canceledAt := Some later\<rparr>) else ret ())
      (getForUser user shown_at))))"

definition resume_sub ::
  "(string \<Rightarrow> bool \<Rightarrow> ('a billing_db_scheme, unit) act) option \<Rightarrow> string \<Rightarrow> int \<Rightarrow> int \<Rightarrow> ('a billing_db_scheme, subscription_view) act" where
  "resume_sub stripe user now shown_at = andthen (requireOwner user) (bnd (stateForOwner user now) (\<lambda>st.
     andthen (require (ac_status st = ACTIVE \<and> sb_cancelAtPeriodEnd (ac_sub st)) (Conflict ''There is no pending cancellation to undo''))
     (andthen (if sb_provider (ac_sub st) = ''STRIPE'' then set_stripe stripe user False
      else update_sub user (\<lambda>b. b\<lparr>sb_cancelAtPeriodEnd := False, sb_canceledAt := None\<rparr>))
      (getForUser user shown_at))))"

record activation =
  av_plan :: string
  av_interval :: billing_interval
  av_periods :: "int option"
  av_amount :: rat
  av_currency :: "string option"
  av_paidAt :: "int option"
  av_reference :: "string option"
  av_note :: "string option"

definition assertIsOwner :: "string \<Rightarrow> ('a billing_db_scheme, unit) act" where
  "assertIsOwner user = bnd (reading (stores_of user)) (\<lambda>xs. require (xs \<noteq> []) (NotFound ''Merchant not found''))"

definition interval_lower :: "billing_interval \<Rightarrow> string" where
  "interval_lower i = (case i of MONTHLY \<Rightarrow> ''monthly'' | YEARLY \<Rightarrow> ''yearly'')"

definition activated :: "plan_row \<Rightarrow> billing_interval \<Rightarrow> bool \<Rightarrow> int \<Rightarrow> int \<Rightarrow> sub_row \<Rightarrow> sub_row" where
  "activated p i renewing periodStart periodEnd b = b\<lparr>sb_plan := Some (pl_id p), sb_interval := Some i,
     sb_periodStart := (if renewing then sb_periodStart b else Some periodStart), sb_periodEnd := Some periodEnd,
     sb_accessEndsAt := periodEnd, sb_cancelAtPeriodEnd := False, sb_canceledAt := None, sb_provider := ''MANUAL''\<rparr>"

definition renews :: "plan_row \<Rightarrow> billing_interval \<Rightarrow> int \<Rightarrow> sub_row \<Rightarrow> bool" where
  "renews p i now b \<longleftrightarrow> sb_plan b = Some (pl_id p) \<and> sb_interval b = Some i \<and> sb_accessEndsAt b > now"

definition activation_invoice :: "string \<Rightarrow> plan_row \<Rightarrow> activation \<Rightarrow> string \<Rightarrow> int \<Rightarrow> int \<Rightarrow> int \<Rightarrow> invoice_row" where
  "activation_invoice owner p v admin now periodStart periodEnd = \<lparr>in_user = owner, in_plan = pl_id p, in_planName = pl_name p,
     in_interval = av_interval v, in_amount = av_amount v,
     in_currency = js_upper (case av_currency v of None \<Rightarrow> pl_currency p | Some c \<Rightarrow> c),
     in_periodStart = periodStart, in_periodEnd = periodEnd,
     in_paidAt = (case av_paidAt v of None \<Rightarrow> now | Some t \<Rightarrow> t), in_provider = ''MANUAL'',
     in_reference = av_reference v, in_note = av_note v, in_admin = admin\<rparr>"

definition activateManually :: "string \<Rightarrow> activation \<Rightarrow> string \<Rightarrow> int \<Rightarrow> ('a billing_db_scheme, unit) act" where
  "activateManually owner v admin now =
     andthen (assertIsOwner owner)
     (bnd (reading (find_plan (av_plan v))) (\<lambda>plan.
      bnd (found plan (NotFound ''Plan not found'')) (\<lambda>p.
      andthen (require ((case av_interval v of MONTHLY \<Rightarrow> pl_monthlyPrice p | YEARLY \<Rightarrow> pl_yearlyPrice p) \<noteq> None)
        (Conflict (''Plan '' @ pl_code p @ '' is not sold '' @ interval_lower (av_interval v))))
      (transaction (bnd (startTrialIfMissing owner now) (\<lambda>current.
        let renewing = renews p (av_interval v) now current;
            periodStart = (if renewing then sb_accessEndsAt current else now);
            periodEnd = addInterval periodStart (av_interval v) (case av_periods v of None \<Rightarrow> 1 | Some n \<Rightarrow> n)
        in andthen (update_sub owner (activated p (av_interval v) renewing periodStart periodEnd))
           (writing (\<lambda>s. s\<lparr>invoices := invoices s @ [activation_invoice owner p v admin now periodStart periodEnd]\<rparr>))))))))"

definition extendTrial :: "string \<Rightarrow> int \<Rightarrow> int \<Rightarrow> ('a billing_db_scheme, unit) act" where
  "extendTrial owner days now =
     andthen (assertIsOwner owner)
     (bnd (startTrialIfMissing owner now) (\<lambda>b.
      andthen (require (sb_plan b = None) (Conflict ''Account is already on a paid plan''))
      (let e = max (sb_accessEndsAt b) now + days * 24 * 60 * 60 * 1000
       in update_sub owner (\<lambda>b. b\<lparr>sb_trialEndsAt := Some e, sb_accessEndsAt := e\<rparr>))))"

text \<open>The newest invoices first, a later row before an earlier one of the same time standing for the id order.\<close>

definition invoice_page :: "string \<Rightarrow> nat \<Rightarrow> nat \<Rightarrow> 'a billing_db_scheme \<Rightarrow> invoice_row list \<times> int \<times> int" where
  "invoice_page user page limit s =
     (let mine = filter (\<lambda>i. in_user i = user) (invoices s);
          n = int (length mine)
      in (take limit (drop ((page - 1) * limit) (sort_key (\<lambda>i. - in_paidAt i) (rev mine))), n,
          \<lceil>rat_of_int n / rat_of_nat limit\<rceil>))"

definition listInvoices :: "string \<Rightarrow> nat \<Rightarrow> nat \<Rightarrow> ('a billing_db_scheme, invoice_row list \<times> int \<times> int) act" where
  "listInvoices user page limit = andthen (requireOwner user) (reading (invoice_page user page limit))"

definition listPlans :: "'a billing_db_scheme \<Rightarrow> plan_row list" where
  "listPlans s = sort_key pl_sortOrder (sort_key pl_createdAt (filter pl_active (plans s)))"

section \<open>src/billing/plans.service.ts\<close>

text \<open>
  An edit names the fields it sets; the inner option of the description, the prices and the store
  limit is their null.
\<close>

record plan_edit =
  pe_code :: "string option"
  pe_name :: "string option"
  pe_description :: "string option option"
  pe_monthlyPrice :: "rat option option"
  pe_yearlyPrice :: "rat option option"
  pe_currency :: "string option"
  pe_taxIncluded :: "bool option"
  pe_maxStores :: "int option option"
  pe_features :: "string list option"
  pe_featureList :: "string list option"
  pe_active :: "bool option"
  pe_sortOrder :: "int option"

definition given :: "'a option \<Rightarrow> 'a \<Rightarrow> 'a" where
  "given x old = (case x of None \<Rightarrow> old | Some v \<Rightarrow> v)"

definition plan_data :: "plan_edit \<Rightarrow> plan_row \<Rightarrow> plan_row" where
  "plan_data d p = p\<lparr>
     pl_code := given (pe_code d) (pl_code p),
     pl_name := given (map_option js_trim (pe_name d)) (pl_name p),
     pl_description := given (map_option or_null (pe_description d)) (pl_description p),
     pl_monthlyPrice := given (pe_monthlyPrice d) (pl_monthlyPrice p),
     pl_yearlyPrice := given (pe_yearlyPrice d) (pl_yearlyPrice p),
     pl_currency := given (map_option js_upper (pe_currency d)) (pl_currency p),
     pl_taxIncluded := given (pe_taxIncluded d) (pl_taxIncluded p),
     pl_maxStores := given (pe_maxStores d) (pl_maxStores p),
     pl_features := given (pe_features d) (pl_features p),
     pl_featureList := given (map_option (\<lambda>xs. filter (\<lambda>f. f \<noteq> []) (map js_trim xs)) (pe_featureList d)) (pl_featureList p),
     pl_active := given (pe_active d) (pl_active p),
     pl_sortOrder := given (pe_sortOrder d) (pl_sortOrder p)\<rparr>"

definition assertSellable :: "rat option \<Rightarrow> rat option \<Rightarrow> ('s, unit) act" where
  "assertSellable monthly yearly =
     require (monthly \<noteq> None \<or> yearly \<noteq> None) (Conflict ''A plan needs a monthly price, a yearly price, or both'')"

text \<open>The unique code of the plan table; \<open>p\<close> is the row with the defaults of the schema.\<close>

definition create_plan :: "plan_row \<Rightarrow> plan_edit \<Rightarrow> ('a billing_db_scheme, plan_row) act" where
  "create_plan p d = andthen (assertSellable (given (pe_monthlyPrice d) None) (given (pe_yearlyPrice d) None))
     (bnd (reading (\<lambda>s. pl_code (plan_data d p) \<in> pl_code ` set (plans s))) (\<lambda>clash.
      andthen (require (\<not> clash) (Conflict (''A plan with code '' @ pl_code (plan_data d p) @ '' already exists'')))
        (andthen (writing (\<lambda>s. s\<lparr>plans := plans s @ [plan_data d p]\<rparr>)) (ret (toPlanResponse (plan_data d p))))))"

definition update_plan :: "string \<Rightarrow> plan_edit \<Rightarrow> ('a billing_db_scheme, plan_row) act" where
  "update_plan i d = bnd (reading (find_plan i)) (\<lambda>existing.
     bnd (found existing (NotFound ''Plan not found'')) (\<lambda>p.
     andthen (assertSellable (given (pe_monthlyPrice d) (pl_monthlyPrice p)) (given (pe_yearlyPrice d) (pl_yearlyPrice p)))
     (bnd (reading (\<lambda>s. \<exists>q \<in> set (plans s). pl_id q \<noteq> i \<and> pl_code q = pl_code (plan_data d p))) (\<lambda>clash.
      andthen (require (\<not> clash) (Conflict (''A plan with code '' @ given (pe_code d) ''undefined'' @ '' already exists'')))
        (andthen (writing (\<lambda>s. s\<lparr>plans := map (\<lambda>q. if pl_id q = i then plan_data d q else q) (plans s)\<rparr>))
          (ret (toPlanResponse (plan_data d p))))))))"

section \<open>src/billing/subscription-access.interceptor.ts\<close>

record http_request =
  rq_http :: bool
  rq_verb :: string
  rq_user :: "string option"
  rq_allowWhenLocked :: bool
  rq_feature :: "string option"

datatype gate = PASS | PAYMENT_REQUIRED string bool | UPGRADE_REQUIRED string

definition READ_METHODS :: "string list" where
  "READ_METHODS = [''GET'', ''HEAD'', ''OPTIONS'']"

definition locked_message :: "bool \<Rightarrow> sub_status \<Rightarrow> string" where
  "locked_message canManage st =
     (if \<not> canManage
      then ''The store subscription is inactive. You can still view data. Contact the store owner to restore access to changes.''
      else if st = TRIAL_ENDED then ''Your free trial has ended. Choose a plan to keep making changes.''
      else ''Your subscription has expired. Renew to keep making changes.'')"

text \<open>An empty user id is no user.\<close>

definition intercept :: "http_request \<Rightarrow> int \<Rightarrow> ('a billing_db_scheme, gate) act" where
  "intercept r now =
     (let isWrite = js_upper (rq_verb r) \<notin> set READ_METHODS in
      if \<not> rq_http r then ret PASS
      else case rq_user r of None \<Rightarrow> ret PASS | Some user \<Rightarrow>
        if user = [] then ret PASS
        else if rq_feature r = None \<and> (\<not> isWrite \<or> rq_allowWhenLocked r) then ret PASS
        else bnd (stateForUser user now) (\<lambda>st. case st of None \<Rightarrow> ret PASS | Some a \<Rightarrow>
          ret (if isWrite \<and> \<not> rq_allowWhenLocked r \<and> ac_readOnly a
               then PAYMENT_REQUIRED (locked_message (user = ac_owner a) (ac_status a)) (user = ac_owner a)
               else case rq_feature r of None \<Rightarrow> PASS
                 | Some f \<Rightarrow> if f \<in> set (ac_features a) then PASS else UPGRADE_REQUIRED f)))"

section \<open>Months as a number line\<close>

text \<open>Month \<open>k\<close> counted from the year 0, its first day and its length.\<close>

definition first_of :: "int \<Rightarrow> int" where
  "first_of k = make_day (k div 12) (k mod 12) 1"

definition month_length :: "int \<Rightarrow> int" where
  "month_length k = days_in_month (k div 12) (k mod 12)"

lemma month_length_range: "28 \<le> month_length k \<and> month_length k \<le> 31"
  using days_in_month_range[of "k mod 12" "k div 12"] by (simp add: month_length_def)

lemma make_day_month: "make_day y m dt = first_of (y * 12 + m) + dt - 1"
  by (simp add: make_day_def first_of_def Let_def algebra_simps)

lemma first_of_Suc: "first_of (k + 1) = first_of k + month_length k"
proof -
  have r: "0 \<le> k mod 12" "k mod 12 < 12" by simp_all
  show ?thesis
  proof (cases "k mod 12 = 11")
    case True
    then have "k + 1 = 12 * (k div 12 + 1) + 0" using div_mult_mod_eq[of k 12] by simp
    then have k: "(k + 1) mod 12 = 0" "(k + 1) div 12 = k div 12 + 1"
      by (rule int_mod_pos_eq int_div_pos_eq; simp)+
    show ?thesis
      by (simp add: first_of_def month_length_def days_in_month_def make_day_def k True day_from_year_Suc month_start_vals)
  next
    case False
    then have r': "k mod 12 + 1 < 12" using r by simp
    have "k + 1 = 12 * (k div 12) + (k mod 12 + 1)" using div_mult_mod_eq[of k 12] by simp
    then have k: "(k + 1) mod 12 = k mod 12 + 1" "(k + 1) div 12 = k div 12"
      using r r' by (metis int_mod_pos_eq add_nonneg_nonneg zero_le_one) (metis int_div_pos_eq r r' add_nonneg_nonneg zero_le_one \<open>k + 1 = 12 * (k div 12) + (k mod 12 + 1)\<close>)
    have "(k mod 12 + 1) div 12 = 0" "(k mod 12 + 1) mod 12 = k mod 12 + 1" using r r' by simp_all
    then show ?thesis
      by (simp add: first_of_def month_length_def days_in_month_def make_day_def k Let_def)
  qed
qed

lemma first_of_bounds: "28 * int n \<le> first_of (k + int n) - first_of k \<and> first_of (k + int n) - first_of k \<le> 31 * int n"
proof (induction n)
  case (Suc n)
  have "first_of (k + int (Suc n)) = first_of (k + int n) + month_length (k + int n)"
    using first_of_Suc[of "k + int n"] by (simp add: algebra_simps)
  with Suc month_length_range[of "k + int n"] show ?case by simp
qed simp

definition month_of :: "instant \<Rightarrow> int" where
  "month_of t = getUTCFullYear t * 12 + getUTCMonth t"

lemma month_of_parts: "month_of t div 12 = getUTCFullYear t" "month_of t mod 12 = getUTCMonth t"
  using make_day_civil(2,3)[of "day_of t"] by (simp_all add: month_of_def getUTCMonth_def)

lemma day_of_month: "day_of t = first_of (month_of t) + getUTCDate t - 1"
  using make_day_civil(1)[of "day_of t"] make_day_month
  by (simp add: month_of_def getUTCFullYear_def getUTCMonth_def getUTCDate_def)

lemma date_range: "1 \<le> getUTCDate t" "getUTCDate t \<le> month_length (month_of t)"
  using make_day_civil(4,5)[of "day_of t"]
  by (simp_all add: getUTCDate_def month_length_def month_of_parts) (simp add: getUTCFullYear_def getUTCMonth_def)

lemma date_at:
  assumes "1 \<le> dt" "dt \<le> month_length k" "0 \<le> u" "u < ms_day"
  shows "month_of (at_time (first_of k + dt - 1) u) = k" "getUTCDate (at_time (first_of k + dt - 1) u) = dt"
proof -
  have d: "day_of (at_time (first_of k + dt - 1) u) = make_day (k div 12) (k mod 12) dt"
    using assms(3,4) by (simp add: day_of_at_time first_of_def make_day_def Let_def)
  have r: "0 \<le> k mod 12" "k mod 12 < 12" "1 \<le> dt" "dt \<le> days_in_month (k div 12) (k mod 12)"
    using assms by (simp_all add: month_length_def)
  show "month_of (at_time (first_of k + dt - 1) u) = k" "getUTCDate (at_time (first_of k + dt - 1) u) = dt"
    using civil_make_day[OF r] by (simp_all add: month_of_def getUTCFullYear_def getUTCMonth_def getUTCDate_def d)
qed

text \<open>\<open>addInterval\<close> as a jump on the month line, keeping the day where the month has it.\<close>

lemma addInterval_month:
  assumes "1200 \<le> month_of t + interval_months i n"
  defines "k \<equiv> month_of t + interval_months i n"
  shows "addInterval t i n = at_time (first_of k + min (getUTCDate t) (month_length k) - 1) (time_in_day t)"
proof -
  let ?u = "time_in_day t"
  have u: "0 \<le> ?u" "?u < ms_day" using time_in_day_bounds by simp_all
  let ?a = "setUTCDate t 1"
  have a: "?a = at_time (first_of (month_of t) + 1 - 1) ?u"
    by (simp add: setUTCDate_def make_day_month month_of_def)
  have am: "month_of ?a = month_of t" "getUTCDate ?a = 1" "time_in_day ?a = ?u"
    unfolding a using date_at[of 1 "month_of t" ?u] month_length_range[of "month_of t"] u time_in_day_at_time by simp_all
  let ?b = "setUTCMonth ?a (getUTCMonth ?a + interval_months i n)"
  have b: "?b = at_time (first_of k + 1 - 1) ?u"
    unfolding setUTCMonth_def make_day_month am(2,3) using am(1) by (simp add: month_of_def k_def algebra_simps)
  have bm: "month_of ?b = k" "time_in_day ?b = ?u"
    unfolding b using date_at[of 1 k ?u] month_length_range[of k] u time_in_day_at_time by simp_all
  have y: "getUTCFullYear ?b = k div 12" "getUTCMonth ?b = k mod 12" using month_of_parts[of ?b] bm(1) by simp_all
  have "100 \<le> k div 12" using assms by simp
  then have "Date_UTC (getUTCFullYear ?b) (getUTCMonth ?b + 1) 0 = at_time (first_of (k + 1) + 0 - 1) 0"
    unfolding Date_UTC_def make_day_month y by (simp add: algebra_simps)
  also have "\<dots> = at_time (first_of k + month_length k - 1) 0" by (simp add: first_of_Suc)
  finally have last: "getUTCDate (Date_UTC (getUTCFullYear ?b) (getUTCMonth ?b + 1) 0) = month_length k"
    using date_at(2)[of "month_length k" k 0] month_length_range[of k] by simp
  show ?thesis unfolding addInterval_def Let_def last
    by (simp add: setUTCDate_def[of ?b] make_day_month bm(2)) (simp add: month_of_def[symmetric] bm(1))
qed

lemma interval_jump:
  assumes "1200 \<le> month_of t" "0 \<le> interval_months i n"
  defines "m \<equiv> interval_months i n" and "r \<equiv> addInterval t i n"
  shows "month_of r = month_of t + m" "getUTCDate r = min (getUTCDate t) (month_length (month_of r))"
    "time_in_day r = time_in_day t" "28 * m * ms_day \<le> r - t" "r - t \<le> 31 * m * ms_day"
proof -
  let ?k = "month_of t + m" and ?d = "getUTCDate t"
  have r: "r = at_time (first_of ?k + min ?d (month_length ?k) - 1) (time_in_day t)"
    unfolding r_def m_def by (rule addInterval_month) (use assms in simp)
  have u: "0 \<le> time_in_day t" "time_in_day t < ms_day" using time_in_day_bounds by simp_all
  have dt: "1 \<le> min ?d (month_length ?k)" "min ?d (month_length ?k) \<le> month_length ?k"
    using date_range(1)[of t] month_length_range[of ?k] by simp_all
  show mr: "month_of r = ?k" and "getUTCDate r = min ?d (month_length (month_of r))"
    and "time_in_day r = time_in_day t"
    using date_at[OF dt u] time_in_day_at_time[OF u] by (simp_all add: r)
  have t: "t = at_time (first_of (month_of t) + ?d - 1) (time_in_day t)"
    using at_time_split[of t] by (simp add: day_of_month)
  define D where "D = first_of ?k + min ?d (month_length ?k) - first_of (month_of t) - ?d"
  have diff: "r - t = D * ms_day" by (subst t, subst r) (simp add: at_time_def D_def algebra_simps)
  obtain n' where n': "m = int n'" using assms(2) unfolding m_def by (metis nonneg_int_cases)
  have up: "28 * m \<le> first_of ?k - first_of (month_of t)" "first_of ?k - first_of (month_of t) \<le> 31 * m"
    using first_of_bounds[of n' "month_of t"] by (simp_all add: n')
  have step: "28 * m \<le> first_of (?k + 1) - first_of (month_of t + 1)"
    using first_of_bounds[of n' "month_of t + 1"] by (simp add: n' algebra_simps)
  have "28 * m \<le> D \<and> D \<le> 31 * m"
  proof (cases "?d \<le> month_length ?k")
    case True
    then show ?thesis using up by (simp add: D_def)
  next
    case False
    then have "D = first_of (?k + 1) - first_of (month_of t) - ?d" by (simp add: D_def first_of_Suc)
    with step date_range(2)[of t] have "28 * m \<le> D" by (simp add: first_of_Suc)
    moreover have "D \<le> 31 * m" using False up(2) by (simp add: D_def)
    ultimately show ?thesis by simp
  qed
  then show "28 * m * ms_day \<le> r - t" "r - t \<le> 31 * m * ms_day" unfolding diff by simp_all
qed

section \<open>Runs of the service\<close>

definition opened :: "string \<Rightarrow> int \<Rightarrow> 'a billing_db_scheme \<Rightarrow> 'a billing_db_scheme" where
  "opened user now s = (if find_sub user s = None then s\<lparr>subs := subs s @ [trial_row user now]\<rparr> else s)"

definition sub_of :: "string \<Rightarrow> int \<Rightarrow> 'a billing_db_scheme \<Rightarrow> sub_row" where
  "sub_of user now s = (case find_sub user s of None \<Rightarrow> trial_row user now | Some b \<Rightarrow> b)"

lemma startTrial_run: "startTrialIfMissing user now s = (Inr (sub_of user now s), opened user now s)"
  by (simp add: startTrialIfMissing_def act_defs opened_def sub_of_def split: option.split)

lemma trial_row_simps [simp]:
  "sb_user (trial_row user now) = user" "sb_plan (trial_row user now) = None"
  "sb_trialEndsAt (trial_row user now) = Some (sb_accessEndsAt (trial_row user now))"
  "sb_interval (trial_row user now) = None" "sb_periodStart (trial_row user now) = None"
  "sb_periodEnd (trial_row user now) = None" "\<not> sb_cancelAtPeriodEnd (trial_row user now)"
  "sb_canceledAt (trial_row user now) = None" "sb_provider (trial_row user now) = ''MANUAL''"
  by (simp_all add: trial_row_def Let_def)

lemma opened_simps [simp]:
  "invoices (opened user now s) = invoices s" "plans (opened user now s) = plans s"
  "store_rows (opened user now s) = store_rows s" "staff_rows (opened user now s) = staff_rows s"
  "user_rows (opened user now s) = user_rows s" "role_rows (opened user now s) = role_rows s"
  by (simp_all add: opened_def)

lemma find_opened: "find_sub user (opened user now s) = Some (sub_of user now s)"
proof (cases "find_sub user s")
  case None
  then have "find (\<lambda>b. sb_user b = user) (subs s @ [trial_row user now]) = Some (trial_row user now)"
    by (simp add: find_snoc find_sub_def)
  with None show ?thesis by (simp add: opened_def sub_of_def find_sub_def)
qed (simp add: opened_def sub_of_def)

text \<open>The state the account is in, as a function of its row.\<close>

definition account :: "string \<Rightarrow> int \<Rightarrow> 'a billing_db_scheme \<Rightarrow> account_state" where
  "account owner now s = (let b = sub_of owner now s;
      st = deriveSubscriptionStatus (sb_plan b) (sb_accessEndsAt b) now;
      plan = (case sb_plan b of None \<Rightarrow> None | Some i \<Rightarrow> find_plan i s);
      e = (case plan of None \<Rightarrow> TRIAL_ENTITLEMENTS | Some p \<Rightarrow> (pl_maxStores p, filter isPlanFeature (pl_features p)))
    in \<lparr>ac_owner = owner, ac_sub = b, ac_plan = plan, ac_status = st, ac_readOnly = isReadOnlyStatus st,
        ac_maxStores = fst e, ac_features = snd e\<rparr>)"

lemma stateForOwner_run: "stateForOwner owner now s = (Inr (account owner now s), opened owner now s)"
proof -
  have "find_plan i (opened owner now s) = find_plan i s" for i by (simp add: find_plan_def)
  then show ?thesis
    by (simp add: stateForOwner_def bnd_def startTrial_run reading_def ret_def account_def Let_def split_beta
        split: option.split)
qed

lemma account_simps [simp]: "ac_sub (account owner now s) = sub_of owner now s" "ac_owner (account owner now s) = owner"
  by (simp_all add: account_def Let_def)

lemma read_only_iff: "ac_readOnly (account owner now s) \<longleftrightarrow> sb_accessEndsAt (sub_of owner now s) \<le> now"
  by (auto simp: account_def Let_def isReadOnlyStatus_def deriveSubscriptionStatus_def)

lemma active_iff:
  "ac_status (account owner now s) = ACTIVE \<longleftrightarrow>
     sb_plan (sub_of owner now s) \<noteq> None \<and> now < sb_accessEndsAt (sub_of owner now s)"
  by (auto simp: account_def Let_def deriveSubscriptionStatus_def)

lemma stateForUser_run:
  "stateForUser user now s = (case ownerUserIdFor user s of None \<Rightarrow> (Inr None, s)
     | Some w \<Rightarrow> (Inr (Some (account w now s)), opened w now s))"
  by (simp add: stateForUser_def bnd_def reading_def ret_def stateForOwner_run split: option.split)

section \<open>The subscription invariant\<close>

text \<open>
  A trial row ends where its access ends and knows no billing period; a paid row has an interval and
  a period that ends with the access; a cancellation has its time. The newest invoice of the user
  names the plan and the interval of the row and is paid up to the end of its access.
\<close>

definition sub_shape :: "sub_row \<Rightarrow> bool" where
  "sub_shape b \<longleftrightarrow> sb_provider b = ''MANUAL'' \<and> (sb_cancelAtPeriodEnd b \<longleftrightarrow> sb_canceledAt b \<noteq> None) \<and>
     (if sb_plan b = None
      then sb_trialEndsAt b = Some (sb_accessEndsAt b) \<and> sb_interval b = None \<and> sb_periodStart b = None \<and>
        sb_periodEnd b = None \<and> \<not> sb_cancelAtPeriodEnd b
      else sb_interval b \<noteq> None \<and> sb_periodStart b \<noteq> None \<and> sb_periodEnd b = Some (sb_accessEndsAt b))"

definition settled :: "invoice_row list \<Rightarrow> sub_row \<Rightarrow> bool" where
  "settled xs b \<longleftrightarrow> (let mine = filter (\<lambda>i. in_user i = sb_user b) xs in
     if sb_plan b = None then mine = []
     else mine \<noteq> [] \<and> Some (in_plan (last mine)) = sb_plan b \<and> Some (in_interval (last mine)) = sb_interval b \<and>
       in_periodEnd (last mine) = sb_accessEndsAt b)"

definition billing_ok :: "'a billing_db_scheme \<Rightarrow> bool" where
  "billing_ok s \<longleftrightarrow> distinct (map sb_user (subs s)) \<and>
     (\<forall>b \<in> set (subs s). sub_shape b \<and> settled (invoices s) b) \<and>
     (\<forall>i \<in> set (invoices s). in_user i \<in> sb_user ` set (subs s))"

lemma billing_okD:
  assumes "billing_ok s" "find_sub user s = Some b"
  shows "b \<in> set (subs s)" "sb_user b = user" "sub_shape b" "settled (invoices s) b"
  using assms find_Some_set[of "\<lambda>b. sb_user b = user" "subs s" b] by (auto simp: billing_ok_def find_sub_def)

lemma find_unique: "billing_ok s \<Longrightarrow> find_sub user s = Some b \<Longrightarrow> c \<in> set (subs s) \<Longrightarrow> sb_user c = user \<Longrightarrow> c = b"
  using billing_okD(1,2)[of s user b] by (auto simp: billing_ok_def distinct_map inj_on_def)

lemma billing_ok_opened: assumes "billing_ok s" shows "billing_ok (opened user now s)"
proof (cases "find_sub user s")
  case None
  then have fresh: "user \<notin> sb_user ` set (subs s)" by (auto simp: find_sub_def find_None_set)
  with assms have "filter (\<lambda>i. in_user i = user) (invoices s) = []"
    by (auto simp: billing_ok_def filter_empty_conv)
  with assms fresh None show ?thesis
    by (auto simp: billing_ok_def opened_def sub_shape_def settled_def)
qed (simp add: assms opened_def)

lemma update_sub_run: "update_sub user f s = (Inr (), s\<lparr>subs := map (\<lambda>b. if sb_user b = user then f b else b) (subs s)\<rparr>)"
  by (simp add: update_sub_def writing_def)

lemma billing_ok_map:
  assumes "billing_ok s" "\<And>c. c \<in> set (subs s) \<Longrightarrow> sb_user (g c) = sb_user c"
    "\<And>c. c \<in> set (subs s) \<Longrightarrow> sub_shape (g c) \<and> settled (invoices s) (g c)"
  shows "billing_ok (s\<lparr>subs := map g (subs s)\<rparr>)"
proof -
  have same: "map sb_user (map g (subs s)) = map sb_user (subs s)" using assms(2) by simp
  then have "sb_user ` set (map g (subs s)) = sb_user ` set (subs s)" by (metis list.set_map)
  moreover have "distinct (map (sb_user \<circ> g) (subs s))" using same assms(1) by (metis billing_ok_def map_map)
  ultimately show ?thesis using assms(1,3) by (simp add: billing_ok_def)
qed

lemma billing_ok_update:
  assumes "billing_ok s" "find_sub user s = Some b"
    and "sb_user (f b) = user" "sub_shape (f b)" "settled (invoices s) (f b)"
  shows "billing_ok (snd (update_sub user f s))"
proof -
  let ?g = "\<lambda>b. if sb_user b = user then f b else b"
  have only: "c \<in> set (subs s) \<Longrightarrow> sb_user c = user \<Longrightarrow> c = b" for c
    using find_unique[OF assms(1,2)] by blast
  have users: "sb_user (?g c) = sb_user c" if "c \<in> set (subs s)" for c using only that assms(3) by auto
  have rows: "sub_shape (?g c) \<and> settled (invoices s) (?g c)" if "c \<in> set (subs s)" for c
    using only that assms by (auto simp: billing_ok_def)
  have "billing_ok (s\<lparr>subs := map ?g (subs s)\<rparr>)"
    by (rule billing_ok_map[OF assms(1)]) (use users rows in blast)+
  then show ?thesis by (simp add: update_sub_run)
qed

section \<open>Activation\<close>

definition period_start :: "plan_row \<Rightarrow> activation \<Rightarrow> int \<Rightarrow> sub_row \<Rightarrow> int" where
  "period_start p v now b = (if renews p (av_interval v) now b then sb_accessEndsAt b else now)"

definition period_end :: "plan_row \<Rightarrow> activation \<Rightarrow> int \<Rightarrow> sub_row \<Rightarrow> int" where
  "period_end p v now b =
     addInterval (period_start p v now b) (av_interval v) (case av_periods v of None \<Rightarrow> 1 | Some n \<Rightarrow> n)"

lemma activation_invoice_simps [simp]:
  "in_user (activation_invoice owner p v admin now st e) = owner"
  "in_plan (activation_invoice owner p v admin now st e) = pl_id p"
  "in_interval (activation_invoice owner p v admin now st e) = av_interval v"
  "in_periodStart (activation_invoice owner p v admin now st e) = st"
  "in_periodEnd (activation_invoice owner p v admin now st e) = e"
  by (simp_all add: activation_invoice_def)

text \<open>The state after a successful activation.\<close>

definition activated_db :: "string \<Rightarrow> plan_row \<Rightarrow> activation \<Rightarrow> string \<Rightarrow> int \<Rightarrow> 'a billing_db_scheme \<Rightarrow> 'a billing_db_scheme" where
  "activated_db owner p v admin now s = (let c = sub_of owner now s; st = period_start p v now c; e = period_end p v now c in
     (opened owner now s)\<lparr>subs := map (\<lambda>b. if sb_user b = owner
          then activated p (av_interval v) (renews p (av_interval v) now c) st e b else b) (subs (opened owner now s)),
        invoices := invoices s @ [activation_invoice owner p v admin now st e]\<rparr>)"

lemma activateManually_run:
  assumes "activateManually owner v admin now s = (Inr (), t)"
  obtains p where "find_plan (av_plan v) s = Some p" "stores_of owner s \<noteq> []"
    "t = activated_db owner p v admin now s"
proof -
  from assms have "stores_of owner s \<noteq> []"
    unfolding activateManually_def assertIsOwner_def by (elim andthenE bndE) (simp add: run_ok)
  moreover obtain p where "find_plan (av_plan v) s = Some p" "t = activated_db owner p v admin now s"
    using assms unfolding activateManually_def assertIsOwner_def
    by (elim andthenE bndE)
      (auto simp: run_ok transaction_ok startTrial_run update_sub_run Let_def period_start_def period_end_def activated_db_def)
  ultimately show thesis using that by blast
qed

lemma activateManually_error: "activateManually owner v admin now s = (Inl e, t) \<Longrightarrow> t = s"
  unfolding activateManually_def assertIsOwner_def
  by (auto simp: andthen_def bnd_def reading_def require_def found_def ret_def throw_def
      split: sum.splits prod.splits option.splits if_splits dest: transaction_error)

lemma settled_append:
  "settled (xs @ [i]) b \<longleftrightarrow> (if in_user i = sb_user b
     then sb_plan b = Some (in_plan i) \<and> sb_interval b = Some (in_interval i) \<and> sb_accessEndsAt b = in_periodEnd i
     else settled xs b)"
  by (auto simp: settled_def Let_def)

lemma billing_ok_activated:
  assumes "billing_ok s" "find_sub owner s = Some b" "in_user i = owner" "in_plan i = pl_id p"
    "in_interval i = k" "in_periodEnd i = e" "r \<Longrightarrow> sb_plan b \<noteq> None"
  shows "billing_ok (s\<lparr>subs := map (\<lambda>b. if sb_user b = owner then activated p k r st e b else b) (subs s),
    invoices := invoices s @ [i]\<rparr>)"
proof -
  let ?g = "\<lambda>b. if sb_user b = owner then activated p k r st e b else b"
  have users: "sb_user (?g c) = sb_user c" for c by (simp add: activated_def)
  then have same: "map (sb_user \<circ> ?g) (subs s) = map sb_user (subs s)" by simp
  then have img: "sb_user ` set (map ?g (subs s)) = sb_user ` set (subs s)" by (metis list.set_map map_map)
  have b: "b \<in> set (subs s)" "sb_user b = owner" "sub_shape b" using billing_okD[OF assms(1,2)] by blast+
  have rows: "sub_shape (?g c) \<and> settled (invoices s @ [i]) (?g c)" if "c \<in> set (subs s)" for c
  proof (cases "sb_user c = owner")
    case True
    then have "c = b" using find_unique[OF assms(1,2) that] by blast
    with b assms(3-7) show ?thesis by (auto simp: activated_def sub_shape_def settled_append split: if_splits)
  next
    case False
    with assms(1,3) that show ?thesis by (auto simp: billing_ok_def settled_append)
  qed
  have "distinct (map sb_user (map ?g (subs s)))" unfolding map_map same using assms(1) by (simp add: billing_ok_def)
  moreover have "\<forall>j \<in> set (invoices s @ [i]). in_user j \<in> sb_user ` set (map ?g (subs s))"
    unfolding img using assms(1,3) imageI[OF b(1), of sb_user] b(2) by (auto simp: billing_ok_def)
  moreover have "\<forall>c \<in> set (map ?g (subs s)). sub_shape c \<and> settled (invoices s @ [i]) c"
    unfolding list.set_map ball_simps using rows by blast
  ultimately show ?thesis by (simp add: billing_ok_def del: set_map)
qed

lemma activate_ok: "preserves billing_ok (activateManually owner v admin now)"
proof (rule preservesI)
  fix s assume ok: "billing_ok s"
  obtain r t where run: "activateManually owner v admin now s = (r, t)" by (cases "activateManually owner v admin now s")
  show "billing_ok (snd (activateManually owner v admin now s))"
  proof (cases r)
    case (Inl e)
    with activateManually_error run ok show ?thesis by force
  next
    case (Inr u)
    then obtain p where t: "t = activated_db owner p v admin now s" using run by (auto elim!: activateManually_run)
    have "renews p (av_interval v) now (sub_of owner now s) \<Longrightarrow> sb_plan (sub_of owner now s) \<noteq> None"
      by (simp add: renews_def)
    let ?c = "sub_of owner now s"
    have "billing_ok (activated_db owner p v admin now s)"
      unfolding activated_db_def Let_def opened_simps(1)[of owner now s, symmetric]
      by (rule billing_ok_activated[OF billing_ok_opened[OF ok] find_opened]) (simp_all add: renews_def)
    then show ?thesis unfolding run t by simp
  qed
qed

section \<open>Every run of the service\<close>

lemma cancel_shape:
  assumes "sub_shape b" "settled xs b" "sb_plan b \<noteq> None" "c \<longleftrightarrow> a \<noteq> None"
  shows "sub_shape (b\<lparr>sb_cancelAtPeriodEnd := c, sb_canceledAt := a\<rparr>)" "settled xs (b\<lparr>sb_cancelAtPeriodEnd := c, sb_canceledAt := a\<rparr>)"
  using assms by (auto simp: sub_shape_def settled_def Let_def)

lemma access_ok: "preserves billing_ok (stateForUser user now)"
  by (rule preservesI) (auto simp: stateForUser_run billing_ok_opened split: option.split)

lemma billing_ok_healed [simp]: "billing_ok (healed u s) = billing_ok s"
  by (simp add: billing_ok_def healed_def set_active_store_def update_user_def split: option.split)

lemma store_require_ok [preserving]: "preserves billing_ok (store_require u)"
  by (rule preservesI) (simp add: store_require_run split: option.split)

lemma requireOwner_ok [preserving]: "preserves billing_ok (requireOwner u)"
  unfolding requireOwner_def by (intro preserving)

lemma getForUser_ok [preserving]: "preserves billing_ok (getForUser user now)"
  unfolding getForUser_def by (intro preserving access_ok)

text \<open>A change of the pending cancellation of an active subscription, then the answer.\<close>

lemma change_ok:
  assumes "\<And>st. Q st \<Longrightarrow> ac_status st = ACTIVE" "c \<longleftrightarrow> a \<noteq> None"
    and "\<And>st. W st = (if sb_provider (ac_sub st) = ''STRIPE'' then m
       else if L st then update_sub user (\<lambda>b. b\<lparr>sb_cancelAtPeriodEnd := c, sb_canceledAt := a\<rparr>) else ret ())"
  shows "preserves billing_ok (bnd (stateForOwner user now) (\<lambda>st. andthen (require (Q st) e) (andthen (W st) (getForUser user shown_at))))"
proof (rule preservesI)
  fix s :: "'a billing_db_scheme" assume ok: "billing_ok s"
  let ?b = "sub_of user now s" and ?st = "account user now s" and ?s = "opened user now s"
  note b = billing_okD[OF billing_ok_opened[OF ok] find_opened, of user now, unfolded opened_simps]
  have man: "sb_provider ?b \<noteq> ''STRIPE''" using b(3) by (simp add: sub_shape_def)
  have "billing_ok (snd (W ?st ?s))" if "Q ?st"
  proof -
    have "sb_plan ?b \<noteq> None" using assms(1)[OF that] unfolding active_iff by simp
    then have "billing_ok (snd (update_sub user (\<lambda>b. b\<lparr>sb_cancelAtPeriodEnd := c, sb_canceledAt := a\<rparr>) ?s))"
      using billing_ok_update[where f = "\<lambda>b. b\<lparr>sb_cancelAtPeriodEnd := c, sb_canceledAt := a\<rparr>",
          OF billing_ok_opened[OF ok, of user now] find_opened] cancel_shape[OF b(3,4) _ assms(2)] b(2) by simp
    then show ?thesis using man billing_ok_opened[OF ok] unfolding assms(3) by (simp add: ret_def)
  qed
  moreover have "\<exists>u. W ?st ?s = (Inr (), u)" using man unfolding assms(3) by (simp add: ret_def update_sub_run)
  ultimately show "billing_ok (snd (bnd (stateForOwner user now) (\<lambda>st. andthen (require (Q st) e)
      (andthen (W st) (getForUser user shown_at))) s))"
    using billing_ok_opened[OF ok, of user now]
    by (auto simp: andthen_def bnd_def stateForOwner_run require_def ret_def throw_def intro: preservesD[OF getForUser_ok])
qed

lemma cancel_ok: "preserves billing_ok (cancel_sub stripe user now later shown_at)"
  unfolding cancel_sub_def by (intro preserving change_ok[where c = True and a = "Some later" and
      L = "\<lambda>st. \<not> sb_cancelAtPeriodEnd (ac_sub st)"]) simp_all

lemma resume_ok: "preserves billing_ok (resume_sub stripe user now shown_at)"
  unfolding resume_sub_def
  by (rule preserves_andthen[OF requireOwner_ok], rule change_ok[where c = False and a = None and L = "\<lambda>_. True" and m = "set_stripe stripe user False"]) simp_all

lemma extend_ok: "preserves billing_ok (extendTrial owner days now)"
proof (rule preservesI)
  fix s assume ok: "billing_ok s"
  let ?b = "sub_of owner now s" and ?e = "max (sb_accessEndsAt (sub_of owner now s)) now + days * 24 * 60 * 60 * 1000"
  note b = billing_okD[OF billing_ok_opened[OF ok] find_opened, of owner now]
  have "billing_ok (snd (update_sub owner (\<lambda>b. b\<lparr>sb_trialEndsAt := Some ?e, sb_accessEndsAt := ?e\<rparr>) (opened owner now s)))"
    if "sb_plan ?b = None"
    by (rule billing_ok_update[OF billing_ok_opened[OF ok] find_opened])
      (use b that in \<open>auto simp: sub_shape_def settled_def Let_def\<close>)
  then show "billing_ok (snd (extendTrial owner days now s))"
    using ok billing_ok_opened[OF ok, of owner now]
    by (simp add: extendTrial_def assertIsOwner_def andthen_def bnd_def reading_def startTrial_run require_def ret_def
        throw_def Let_def)
qed

lemma intercept_ok: "preserves billing_ok (intercept r now)"
  unfolding intercept_def Let_def by (intro preserving access_ok) 

lemma assertCanCreateStore_ok: "preserves billing_ok (assertCanCreateStore owner now)"
proof -
  have "preserves billing_ok (stateForOwner owner now)"
    by (rule preservesI) (simp add: stateForOwner_run billing_ok_opened)
  then show ?thesis unfolding assertCanCreateStore_def by (intro preserving)
qed

lemma listInvoices_ok: "preserves billing_ok (listInvoices user page limit)"
  unfolding listInvoices_def by (intro preserving)

lemma plan_writes_ok:
  "preserves billing_ok (create_plan p d)" "preserves billing_ok (update_plan i d)"
  unfolding create_plan_def update_plan_def assertSellable_def
  by (intro preserving preserves_writing; simp add: billing_ok_def)+

text \<open>The steps of the billing service, each at its own clock; \<open>S\<close> is the Stripe client.\<close>

inductive billing_step ::
  "(string \<Rightarrow> bool \<Rightarrow> (billing_db, unit) act) option \<Rightarrow> billing_db \<Rightarrow> billing_db \<Rightarrow> bool" for S where
  request: "billing_step S s (snd (intercept r now s))"
| new_store: "billing_step S s (snd (assertCanCreateStore owner now s))"
| cancelled: "billing_step S s (snd (cancel_sub S user now later shown_at s))"
| resumed: "billing_step S s (snd (resume_sub S user now shown_at s))"
| shown: "billing_step S s (snd (getForUser user now s))"
| plan_created: "billing_step S s (snd (create_plan p d s))"
| plan_updated: "billing_step S s (snd (update_plan i d s))"
| listed: "billing_step S s (snd (listInvoices user page limit s))"
| paid: "billing_step S s (snd (activateManually owner v admin now s))"
| extended: "billing_step S s (snd (extendTrial owner days now s))"

inductive_cases billing_stepE: "billing_step S s t"

lemma billing_step_ok: "billing_step S s t \<Longrightarrow> billing_ok s \<Longrightarrow> billing_ok t"
  by (induction rule: billing_step.induct)
    (rule preservesD[OF intercept_ok] preservesD[OF assertCanCreateStore_ok] preservesD[OF cancel_ok]
      preservesD[OF resume_ok] preservesD[OF getForUser_ok] preservesD[OF plan_writes_ok(1)]
      preservesD[OF plan_writes_ok(2)]
      preservesD[OF listInvoices_ok] preservesD[OF activate_ok] preservesD[OF extend_ok]; assumption)+

section \<open>Properties\<close>

lemma first_of_mono: "j \<le> k \<Longrightarrow> first_of j \<le> first_of k"
  using first_of_bounds[of "nat (k - j)" j] by simp

lemma month_of_mono: "t \<le> u \<Longrightarrow> month_of t \<le> month_of u"
proof (rule ccontr)
  assume tu: "t \<le> u" and "\<not> month_of t \<le> month_of u"
  then have "first_of (month_of u + 1) \<le> first_of (month_of t)" by (intro first_of_mono) simp
  moreover have "day_of u < first_of (month_of u + 1)"
    using day_of_month[of u] date_range(2)[of u] by (simp add: first_of_Suc)
  moreover have "first_of (month_of t) \<le> day_of t" using day_of_month[of t] date_range(1)[of t] by simp
  moreover have "day_of t \<le> day_of u" using tu by (simp add: day_of_def zdiv_mono1)
  ultimately show False by simp
qed

text \<open>
  \<open>addInterval\<close> is calendar arithmetic. From any instant since the year 100 and for any number
  of periods, the result lies exactly that many months later (twelve per yearly period), on the same
  day of the month or, where the month is shorter, on its last day, at the same time of day; so a
  period is never shorter than 28 days and never longer than 31 days per month.
\<close>

theorem addInterval_calendar:
  assumes "1200 \<le> month_of t" "0 \<le> interval_months i n"
  shows "month_of (addInterval t i n) = month_of t + interval_months i n \<and>
    getUTCDate (addInterval t i n) = min (getUTCDate t) (month_length (month_of t + interval_months i n)) \<and>
    time_in_day (addInterval t i n) = time_in_day t \<and>
    28 * interval_months i n * ms_day \<le> addInterval t i n - t \<and>
    addInterval t i n - t \<le> 31 * interval_months i n * ms_day"
  using interval_jump[OF assms] by simp_all

text \<open>31 January 2024, noon, plus one month is 29 February 2024, noon.\<close>

theorem addInterval_calendar_witness:
  "month_of 1706702400000 = 24288 \<and> getUTCDate 1706702400000 = 31 \<and>
   month_of (addInterval 1706702400000 MONTHLY 1) = 24289 \<and>
   getUTCDate (addInterval 1706702400000 MONTHLY 1) = 29 \<and>
   addInterval 1706702400000 MONTHLY 1 - 1706702400000 \<le> 31 * ms_day"
proof -
  have m: "month_of 1706702400000 = 24288" "getUTCDate 1706702400000 = 31" "interval_months MONTHLY 1 = 1"
    "month_length 24289 = 29" by code_simp+
  show ?thesis using addInterval_calendar[of 1706702400000 MONTHLY 1] by (simp add: m)
qed


definition sample_plan :: plan_row where
  "sample_plan = \<lparr>pl_id = ''pro'', pl_code = ''PRO'', pl_name = ''Pro'', pl_description = None, pl_monthlyPrice = Some 99,
     pl_yearlyPrice = None, pl_currency = ''MAD'', pl_taxIncluded = False, pl_maxStores = Some 3, pl_features = [''ads''],
     pl_featureList = [], pl_active = True, pl_sortOrder = 1, pl_createdAt = 0\<rparr>"

definition sample_billing :: billing_db where
  "sample_billing = access_db.extend sample_access \<lparr>plans = [sample_plan], subs = [], invoices = []\<rparr>"

lemma sample_billing_tables:
  "plans sample_billing = [sample_plan]" "subs sample_billing = []" "invoices sample_billing = []"
  "store_rows sample_billing = store_rows sample_access" "staff_rows sample_billing = staff_rows sample_access"
  by (simp_all add: sample_billing_def access_db.defs billing_db.defs)

definition sample_activation :: activation where
  "sample_activation = \<lparr>av_plan = ''pro'', av_interval = MONTHLY, av_periods = None, av_amount = 99, av_currency = None,
     av_paidAt = None, av_reference = None, av_note = None\<rparr>"

definition sample_paid :: billing_db where
  "sample_paid = snd (activateManually ''u'' sample_activation ''adm'' 1706702400000 sample_billing)"

lemma sample_find:
  "find_sub ''u'' sample_billing = None" "find_plan ''pro'' sample_billing = Some sample_plan"
  "stores_of ''u'' sample_billing \<noteq> []" "stores_of ''v'' sample_billing = []"
  by (simp_all add: find_sub_def find_plan_def sample_billing_tables sample_plan_def stores_of_def) (simp_all add: sample_access_def)

lemma sample_end:
  "addInterval 1706702400000 MONTHLY 1 = 1709208000000"
  "renews sample_plan MONTHLY 1706702400000 (sub_of ''u'' 1706702400000 sample_billing) = False"
  by code_simp (simp add: renews_def sub_of_def sample_find)

lemma sample_run:
  "activateManually ''u'' sample_activation ''adm'' 1706702400000 sample_billing =
     (Inr (), activated_db ''u'' sample_plan sample_activation ''adm'' 1706702400000 sample_billing)"
  by (simp add: activateManually_def assertIsOwner_def act_defs startTrial_run update_sub_run sample_find sample_end
      sample_activation_def activated_db_def period_start_def period_end_def Let_def)
    (simp add: sample_plan_def)

lemma sample_paid_eq: "sample_paid = activated_db ''u'' sample_plan sample_activation ''adm'' 1706702400000 sample_billing"
  by (simp add: sample_paid_def sample_run)


text \<open>A request that writes, made by \<open>user\<close>, on no locked-account route and behind no feature.\<close>

definition plain_write :: "string \<Rightarrow> http_request \<Rightarrow> bool" where
  "plain_write user r \<longleftrightarrow> rq_http r \<and> rq_user r = Some user \<and> user \<noteq> [] \<and>
     js_upper (rq_verb r) \<notin> set READ_METHODS \<and> \<not> rq_allowWhenLocked r \<and> rq_feature r = None"

lemma intercept_write:
  assumes "plain_write user r" "ownerUserIdFor user s = Some owner" "find_sub owner s = Some b" "sb_plan b = Some p"
  shows "intercept r clock s = (Inr (if clock < sb_accessEndsAt b then PASS
    else PAYMENT_REQUIRED (locked_message (user = owner) EXPIRED) (user = owner)), s)"
proof -
  have "sub_of owner clock s = b" "opened owner clock s = s" using assms(3) by (simp_all add: sub_of_def opened_def)
  moreover from this have "ac_status (account owner clock s) = EXPIRED" if "\<not> clock < sb_accessEndsAt b"
    using that assms(4) by (simp add: account_def deriveSubscriptionStatus_def Let_def)
  ultimately show ?thesis using assms
    by (auto simp: intercept_def plain_write_def bnd_def stateForUser_run ret_def read_only_iff)
qed

lemma find_activated:
  "find_sub owner (activated_db owner p v admin now s) =
     Some (activated p (av_interval v) (renews p (av_interval v) now (sub_of owner now s))
       (period_start p v now (sub_of owner now s)) (period_end p v now (sub_of owner now s)) (sub_of owner now s))"
proof -
  have u: "sb_user (sub_of owner now s) = owner"
    using find_Some_set[OF find_opened[unfolded find_sub_def, of owner now s]] by simp
  let ?g = "\<lambda>b. if sb_user b = owner then activated p (av_interval v) (renews p (av_interval v) now (sub_of owner now s))
       (period_start p v now (sub_of owner now s)) (period_end p v now (sub_of owner now s)) b else b"
  have "find (\<lambda>b. sb_user b = owner) (map ?g (subs (opened owner now s))) =
      map_option ?g (find (\<lambda>b. sb_user b = owner) (subs (opened owner now s)))"
    by (rule find_map) (simp add: activated_def)
  with u find_opened[of owner now s] show ?thesis by (simp add: find_sub_def activated_db_def Let_def)
qed

text \<open>
  C36: what a recorded payment buys. After \<open>activateManually\<close> returned, the interceptor lets a write
  of the owner or of his staff through exactly until the end of the paid period and answers 402 with
  the expiry message from then on, leaving the state alone; the period has the bought months, of at
  least 28 days each; it starts now, or, when the same plan and interval is renewed before it
  lapsed, where the paid access ended, so that no paid day is lost.
\<close>

theorem payment_unlocks_writes:
  assumes run: "activateManually owner v admin now s = (Inr (), t)"
    and req: "plain_write user r" "ownerUserIdFor user t = Some owner"
    and clock: "1200 \<le> month_of now"
    and bought: "m = interval_months (av_interval v) (case av_periods v of None \<Rightarrow> 1 | Some n \<Rightarrow> n)" "0 \<le> m"
  shows "\<exists>p st e. find_plan (av_plan v) s = Some p \<and>
     st = (if renews p (av_interval v) now (sub_of owner now s) then sb_accessEndsAt (sub_of owner now s) else now) \<and>
     now \<le> st \<and> month_of e = month_of st + m \<and> st + 28 * m * ms_day \<le> e \<and>
     (\<forall>clock. intercept r clock t = (Inr (if clock < e then PASS
        else PAYMENT_REQUIRED (locked_message (user = owner) EXPIRED) (user = owner)), t))"
proof -
  obtain p where p: "find_plan (av_plan v) s = Some p" "t = activated_db owner p v admin now s"
    using run by (auto elim!: activateManually_run)
  let ?b = "sub_of owner now s"
  let ?st = "period_start p v now ?b" and ?e = "period_end p v now ?b"
  have st: "now \<le> ?st" by (simp add: period_start_def renews_def)
  have "1200 \<le> month_of ?st" using clock month_of_mono[OF st] by simp
  then have "month_of ?e = month_of ?st + m" "?st + 28 * m * ms_day \<le> ?e"
    unfolding period_end_def bought(1)
    using interval_jump(1,4)[of ?st "av_interval v"] bought(2)[unfolded bought(1)] by (simp, fastforce)
  moreover have "intercept r clock t = (Inr (if clock < ?e then PASS
        else PAYMENT_REQUIRED (locked_message (user = owner) EXPIRED) (user = owner)), t)" for clock
    using intercept_write[OF req find_activated[of owner p v admin now s, folded p(2)]] by (simp add: activated_def)
  ultimately show ?thesis using p(1) st by (intro exI[of _ p] exI[of _ ?st] exI[of _ ?e]) (simp add: period_start_def)
qed

definition sample_request :: http_request where
  "sample_request = \<lparr>rq_http = True, rq_verb = ''post'', rq_user = Some ''v'', rq_allowWhenLocked = False, rq_feature = None\<rparr>"

theorem payment_unlocks_writes_witness:
  "\<exists>e. month_of e = 24289 \<and> (\<forall>clock. intercept sample_request clock sample_paid = (Inr (if clock < e then PASS
        else PAYMENT_REQUIRED (locked_message False EXPIRED) False), sample_paid))"
proof -
  have run: "activateManually ''u'' sample_activation ''adm'' 1706702400000 sample_billing = (Inr (), sample_paid)"
    by (simp add: sample_run sample_paid_eq)
  have w: "plain_write ''v'' sample_request" by code_simp
  have o: "ownerUserIdFor ''v'' sample_paid = Some ''u''"
    unfolding sample_paid_eq activated_db_def Let_def opened_def
    using sample_find(4) by (simp add: sample_find ownerUserIdFor_def stores_of_def staff_by_user_def sample_billing_tables)
      (simp add: find_store_def sample_billing_tables sample_access_def)
  have m: "month_of 1706702400000 = 24288" by code_simp
  have i: "1 = interval_months (av_interval sample_activation) (case av_periods sample_activation of None \<Rightarrow> 1 | Some n \<Rightarrow> n)"
    by code_simp
  have n: "\<not> renews sample_plan (av_interval sample_activation) 1706702400000 (sub_of ''u'' 1706702400000 sample_billing)"
    "find_plan (av_plan sample_activation) sample_billing = Some sample_plan"
    using sample_end(2) sample_find(2) by (simp_all add: sample_activation_def)
  show ?thesis using payment_unlocks_writes[OF run w o _ i] n m by auto
qed

end
