(* ===== verification/Zone_Calendar.thy ===== *)
theory Zone_Calendar
  imports Js_Calendar Zom_Prelude
begin

text \<open>
  Calendar days in a time zone (\<open>src/common/calendar-date.util.ts\<close>). \<open>Intl.DateTimeFormat\<close> is a
  parameter: a function from the zone's name and an instant to the parts it prints. Calendar labels
  are instants at UTC midnight; an input that names a day is given as that label.
\<close>

section \<open>Parts\<close>

record date_parts =
  dp_year :: int
  dp_month :: int
  dp_day :: int
  dp_bc :: bool

type_synonym intl = "string \<Rightarrow> instant \<Rightarrow> date_parts"

text \<open>\<open>setUTCFullYear(y, m, d)\<close> and \<open>setUTCHours(0, 0, 0, 0)\<close> on a fresh date.\<close>

definition utc_midnight :: "int \<Rightarrow> int \<Rightarrow> int \<Rightarrow> instant" where
  "utc_midnight y m d = at_time (make_day y m d) 0"

definition two_digits :: "int \<Rightarrow> string" where
  "two_digits n = (if n < 10 then ''0'' else []) @ show_int n"

definition monthInZone :: "intl \<Rightarrow> instant \<Rightarrow> string \<Rightarrow> string" where
  "monthInZone intl t tz = (let p = intl tz t in show_int (dp_year p) @ ''-'' @ two_digits (dp_month p))"

definition localDay :: "intl \<Rightarrow> string \<Rightarrow> instant \<Rightarrow> instant" where
  "localDay intl tz t = (let p = intl tz t in
     utc_midnight (if dp_bc p then 1 - dp_year p else dp_year p) (dp_month p - 1) (dp_day p))"

definition calendarDay :: "intl \<Rightarrow> instant \<Rightarrow> string \<Rightarrow> instant" where
  "calendarDay intl t tz = (let p = intl tz t in utc_midnight (dp_year p) (dp_month p - 1) (dp_day p))"

section \<open>The search for the first instant of a day\<close>

definition TWO_DAYS :: int where
  "TWO_DAYS = 48 * 60 * 60 * 1000"

text \<open>\<open>while (low < high)\<close>: the interval halves at every turn.\<close>

function first_instant :: "(instant \<Rightarrow> instant) \<Rightarrow> instant \<Rightarrow> int \<Rightarrow> int \<Rightarrow> int" where
  "first_instant f day low high =
     (if low < high then
        (let mid = (low + high) div 2
         in if f mid < day then first_instant f day (mid + 1) high else first_instant f day low mid)
      else low)"
  by pat_completeness auto
termination by (relation "measure (\<lambda>(f, day, low, high). nat (high - low))") auto

declare first_instant.simps [simp del]

definition dateInZone :: "intl \<Rightarrow> instant \<Rightarrow> string \<Rightarrow> error + instant" where
  "dateInZone intl day tz = (let low = first_instant (localDay intl tz) day (day - TWO_DAYS) (day + TWO_DAYS) in
     if localDay intl tz low \<noteq> day then Inl (BadRequest ''Calendar date does not exist in the requested timezone'')
     else Inr low)"

text \<open>A validated date input: a bare day, or a timestamp with an explicit offset.\<close>

datatype date_input = DAY instant | STAMP instant

definition salaryCalendarInput :: "intl \<Rightarrow> date_input \<Rightarrow> string \<Rightarrow> error + instant" where
  "salaryCalendarInput intl v tz = (case v of
       DAY d \<Rightarrow> (case dateInZone intl d tz of Inl e \<Rightarrow> Inl e | Inr _ \<Rightarrow> Inr d)
     | STAMP t \<Rightarrow> Inr (calendarDay intl t tz))"

section \<open>The search ends after a bounded number of turns\<close>

text \<open>The same loop stopped after \<open>n\<close> turns; \<open>None\<close> when the turns were not enough.\<close>

fun search_turns :: "nat \<Rightarrow> (instant \<Rightarrow> instant) \<Rightarrow> instant \<Rightarrow> int \<Rightarrow> int \<Rightarrow> int option" where
  "search_turns 0 f day low high = (if low < high then None else Some low)"
| "search_turns (Suc n) f day low high =
     (if low < high then
        (let mid = (low + high) div 2
         in if f mid < day then search_turns n f day (mid + 1) high else search_turns n f day low mid)
      else Some low)"

lemma half_bounds:
  assumes "(low :: int) < high" "high - low < 2 ^ Suc n"
  shows "low \<le> (low + high) div 2" "(low + high) div 2 < high"
    "high - ((low + high) div 2 + 1) < 2 ^ n" "(low + high) div 2 - low < 2 ^ n"
proof -
  define q where "q = (low + high) div 2"
  have q: "2 * q \<le> low + high" "low + high \<le> 2 * q + 1" unfolding q_def by linarith+
  moreover have "high - low < 2 * 2 ^ n" using assms(2) by simp
  ultimately show "low \<le> (low + high) div 2" "(low + high) div 2 < high"
    "high - ((low + high) div 2 + 1) < 2 ^ n" "(low + high) div 2 - low < 2 ^ n"
    unfolding q_def[symmetric] using assms(1) by linarith+
qed

lemma search_turns_enough: "high - low < 2 ^ n \<Longrightarrow> search_turns n f day low high = Some (first_instant f day low high)"
proof (induction n arbitrary: low high)
  case 0
  then show ?case by (simp add: first_instant.simps)
next
  case (Suc n)
  show ?case
  proof (cases "low < high")
    case True
    note h = half_bounds[OF True Suc.prems]
    show ?thesis using Suc.IH[OF h(3)] Suc.IH[OF h(4)] True
      by (subst first_instant.simps) (simp add: Let_def)
  qed (simp add: first_instant.simps)
qed

lemma first_instant_range: "low \<le> high \<Longrightarrow> low \<le> first_instant f day low high \<and> first_instant f day low high \<le> high"
proof (induction f day low high rule: first_instant.induct)
  case (1 f day low high)
  show ?case
  proof (cases "low < high")
    case True
    then have m: "low \<le> (low + high) div 2" "(low + high) div 2 < high" by simp_all
    with 1 True show ?thesis by (subst (1 2) first_instant.simps) (auto simp: Let_def)
  qed (use 1 in \<open>simp add: first_instant.simps\<close>)
qed

text \<open>Below the result a tested label lies before the day; at the result, unless it is the end, not.\<close>

lemma first_instant_edge:
  assumes "low \<le> high"
  shows "(first_instant f day low high = low \<or> f (first_instant f day low high - 1) < day) \<and>
    (first_instant f day low high = high \<or> day \<le> f (first_instant f day low high))"
  using assms
proof (induction f day low high rule: first_instant.induct)
  case (1 f day low high)
  show ?case
  proof (cases "low < high")
    case True
    let ?m = "(low + high) div 2"
    have m: "low \<le> ?m" "?m < high" using True by simp_all
    show ?thesis
    proof (cases "f ?m < day")
      case True
      let ?r = "first_instant f day (?m + 1) high"
      have r: "first_instant f day low high = ?r" using \<open>low < high\<close> True by (subst first_instant.simps) (simp add: Let_def)
      have "(?r = ?m + 1 \<or> f (?r - 1) < day) \<and> (?r = high \<or> day \<le> f ?r)"
        using 1(1)[OF \<open>low < high\<close> refl True] m by simp
      then show ?thesis unfolding r using True by auto
    next
      case False
      let ?r = "first_instant f day low ?m"
      have r: "first_instant f day low high = ?r" using \<open>low < high\<close> False by (subst first_instant.simps) (simp add: Let_def)
      have "(?r = low \<or> f (?r - 1) < day) \<and> (?r = ?m \<or> day \<le> f ?r)"
        using 1(2)[OF \<open>low < high\<close> refl False] m by simp
      then show ?thesis unfolding r using False by auto
    qed
  qed (use 1 in \<open>simp add: first_instant.simps\<close>)
qed

section \<open>Properties\<close>


definition sample_intl :: intl where
  "sample_intl tz t = (let u = t + (if tz = ''UTC'' then 0 else 3600000) in
     \<lparr>dp_year = getUTCFullYear u, dp_month = getUTCMonth u + 1, dp_day = getUTCDate u, dp_bc = False\<rparr>)"

lemma sample_label: "localDay sample_intl tz t = at_time (day_of (t + (if tz = ''UTC'' then 0 else 3600000))) 0"
  using make_day_civil(1)
  by (simp add: localDay_def sample_intl_def Let_def utc_midnight_def getUTCFullYear_def getUTCMonth_def getUTCDate_def)

lemma sample_day: "calendarDay sample_intl t tz = localDay sample_intl tz t"
  by (simp add: calendarDay_def localDay_def sample_intl_def Let_def)


end
