(* ===== verification/Salary.thy ===== *)
theory Salary
  imports Billing Zone_Calendar "HOL-Library.List_Lexorder" "HOL-Library.Char_ord"
begin

text \<open>
  Staff salaries (\<open>src/staff/staff-salary.service.ts\<close>, \<open>salary-payment-status.util.ts\<close>): salary
  profiles and their schedule, payment batches with an idempotency key, confirmation, the one expense
  linked to every paid salary, the scheduler that accrues due salaries, and the annual summary. The
  digest of a batch (SHA-256 of its JSON) and the time-zone formatter are parameters.
\<close>

section \<open>Data\<close>

datatype salary_frequency = DAILY_PAY | WEEKLY_PAY | MONTHLY_PAY

datatype salary_method = BANK_TRANSFER | CASH_SALARY

datatype expense_method = BANK | CASH

datatype salary_handling = AUTOMATIC | MANUAL

datatype salary_status = PENDING_SALARY | PAID_SALARY

datatype salary_display = SHOW_PAID | SHOW_PENDING | SHOW_OVERDUE

record profile_row =
  pf_staff :: string
  pf_timezone :: string
  pf_baseSalary :: rat
  pf_frequency :: salary_frequency
  pf_method :: salary_method
  pf_handling :: salary_handling
  pf_startDate :: instant
  pf_next :: "instant option"
  pf_notes :: "string option"

record salary_row =
  sp_id :: string
  sp_staff :: string
  sp_amount :: rat
  sp_paymentDate :: instant
  sp_paidAt :: "instant option"
  sp_method :: salary_method
  sp_status :: salary_status
  sp_notes :: "string option"
  sp_receipt :: "string option"
  sp_handling :: salary_handling
  sp_frequency :: "salary_frequency option"
  sp_scheduledFor :: "instant option"
  sp_key :: "string option"
  sp_hash :: "string option"
  sp_createdBy :: "string option"
  sp_paidBy :: "string option"
  sp_expense :: "string option"

record category_row =
  ct_id :: string
  ct_store :: string
  ct_name :: string
  ct_group :: string
  ct_system :: bool

record expense_row =
  ex_id :: string
  ex_store :: string
  ex_title :: string
  ex_amount :: rat
  ex_method :: expense_method
  ex_spentAt :: instant
  ex_category :: string
  ex_staff :: string
  ex_createdBy :: "string option"
  ex_notes :: "string option"
  ex_receipt :: "string option"

record receipt_asset =
  ra_id :: string
  ra_store :: string
  ra_receipt :: bool
  ra_temporary :: bool
  ra_expiresAt :: "instant option"
  ra_payment :: "string option"

record salary_db = billing_db +
  profiles :: "profile_row list"
  salaries :: "salary_row list"
  categories :: "category_row list"
  salary_expenses :: "expense_row list"
  receipts :: "receipt_asset list"
  uuid_next :: nat

text \<open>Every new row gets an identifier of its own.\<close>

definition uuid :: "nat \<Rightarrow> string" where
  "uuid n = ''id-'' @ nat_digits n"

definition new_uuid :: "('a salary_db_scheme, string) act" where
  "new_uuid = bnd (reading (\<lambda>s. uuid (uuid_next s))) (\<lambda>i.
     andthen (writing (\<lambda>s. s\<lparr>uuid_next := Suc (uuid_next s)\<rparr>)) (ret i))"

definition find_profile :: "string \<Rightarrow> 'a salary_db_scheme \<Rightarrow> profile_row option" where
  "find_profile staff s = find (\<lambda>p. pf_staff p = staff) (profiles s)"

definition find_salary :: "string \<Rightarrow> 'a salary_db_scheme \<Rightarrow> salary_row option" where
  "find_salary i s = find (\<lambda>p. sp_id p = i) (salaries s)"

definition find_staff :: "string \<Rightarrow> 'a access_db_scheme \<Rightarrow> staff_row option" where
  "find_staff i s = find (\<lambda>f. sf_id f = i) (staff_rows s)"

definition staff_store :: "string \<Rightarrow> 'a access_db_scheme \<Rightarrow> string option" where
  "staff_store i s = map_option sf_store (find_staff i s)"

definition update_salary :: "string \<Rightarrow> (salary_row \<Rightarrow> salary_row) \<Rightarrow> ('a salary_db_scheme, unit) act" where
  "update_salary i f = writing (\<lambda>s. s\<lparr>salaries := map (\<lambda>p. if sp_id p = i then f p else p) (salaries s)\<rparr>)"

section \<open>Days and the schedule\<close>

definition salaryDay :: "intl \<Rightarrow> instant \<Rightarrow> instant" where
  "salaryDay intl t = calendarDay intl t ''UTC''"

definition deriveSalaryDisplayStatus :: "intl \<Rightarrow> salary_status \<Rightarrow> instant \<Rightarrow> instant \<Rightarrow> string \<Rightarrow> salary_display" where
  "deriveSalaryDisplayStatus intl st paymentDate now tz =
     (if st = PAID_SALARY then SHOW_PAID
      else if paymentDate < calendarDay intl now tz then SHOW_OVERDUE else SHOW_PENDING)"

definition addMonthClamped :: "instant \<Rightarrow> int \<Rightarrow> instant" where
  "addMonthClamped date anchorDay =
     (let first = setUTCDate date 1;
          first = setUTCMonth first (getUTCMonth first + 1);
          last = getUTCDate (setUTCMonthDate first (getUTCMonth first + 1) 0)
      in setUTCDate first (min anchorDay last))"

definition advance_salary :: "instant \<Rightarrow> salary_frequency \<Rightarrow> int \<Rightarrow> instant" where
  "advance_salary date frequency anchorDay = (case frequency of
       DAILY_PAY \<Rightarrow> setUTCDate date (getUTCDate date + 1)
     | WEEKLY_PAY \<Rightarrow> setUTCDate date (getUTCDate date + 7)
     | MONTHLY_PAY \<Rightarrow> addMonthClamped date anchorDay)"

section \<open>Profiles\<close>

definition lockStaff :: "string \<Rightarrow> string \<Rightarrow> ('a salary_db_scheme, unit) act" where
  "lockStaff store staff = bnd (reading (\<lambda>s. list_ex (\<lambda>f. sf_id f = staff \<and> sf_store f = store) (staff_rows s))) (\<lambda>ok.
     require ok (NotFound ''Staff member not found''))"

record salary_dto =
  sd_timezone :: "string option"
  sd_baseSalary :: rat
  sd_frequency :: salary_frequency
  sd_method :: salary_method
  sd_handling :: "salary_handling option"
  sd_startDate :: date_input
  sd_notes :: "string option"

definition salaryProfileData :: "intl \<Rightarrow> string \<Rightarrow> salary_dto \<Rightarrow> profile_row option \<Rightarrow> error + profile_row" where
  "salaryProfileData intl staff d existing =
     (let tz = given (sd_timezone d) (case existing of None \<Rightarrow> ''UTC'' | Some e \<Rightarrow> pf_timezone e)
      in case salaryCalendarInput intl (sd_startDate d) tz of Inl err \<Rightarrow> Inl err
       | Inr startDate \<Rightarrow> Inr
         \<lparr>pf_staff = staff, pf_timezone = tz, pf_baseSalary = sd_baseSalary d, pf_frequency = sd_frequency d,
          pf_method = sd_method d,
          pf_handling = given (sd_handling d) (case existing of None \<Rightarrow> AUTOMATIC | Some e \<Rightarrow> pf_handling e),
          pf_startDate = startDate,
          pf_next = (case existing of None \<Rightarrow> Some startDate
            | Some e \<Rightarrow> if salaryDay intl (pf_startDate e) = startDate \<and> pf_next e \<noteq> None then pf_next e else Some startDate),
          pf_notes = sd_notes d\<rparr>)"

definition upsert_profile :: "profile_row \<Rightarrow> 'a salary_db_scheme \<Rightarrow> 'a salary_db_scheme" where
  "upsert_profile p s = (if find_profile (pf_staff p) s = None then s\<lparr>profiles := profiles s @ [p]\<rparr>
     else s\<lparr>profiles := map (\<lambda>q. if pf_staff q = pf_staff p then p else q) (profiles s)\<rparr>)"

definition setProfile :: "intl \<Rightarrow> string \<Rightarrow> string \<Rightarrow> salary_dto \<Rightarrow> ('a salary_db_scheme, profile_row) act" where
  "setProfile intl user staff d = bnd (requireOwner user) (\<lambda>a. transaction (
     andthen (lockStaff (ax_store a) staff)
     (bnd (reading (find_profile staff)) (\<lambda>existing.
      bnd (lift_sum (salaryProfileData intl staff d existing)) (\<lambda>p.
      andthen (writing (upsert_profile p)) (ret p))))))"

definition requireStaff :: "string \<Rightarrow> string \<Rightarrow> ('a salary_db_scheme, staff_row) act" where
  "requireStaff store staff = bnd (reading (\<lambda>s. find (\<lambda>f. sf_id f = staff \<and> sf_store f = store) (staff_rows s))) (\<lambda>f.
     found f (NotFound ''Staff member not found''))"

definition getProfile :: "string \<Rightarrow> string \<Rightarrow> ('a salary_db_scheme, profile_row option) act" where
  "getProfile user staff = bnd (requireOwner user) (\<lambda>a.
     andthen (requireStaff (ax_store a) staff) (reading (find_profile staff)))"

section \<open>The linked expense\<close>

definition METHODS :: "salary_method \<Rightarrow> expense_method" where
  "METHODS m = (case m of BANK_TRANSFER \<Rightarrow> BANK | CASH_SALARY \<Rightarrow> CASH)"

text \<open>
  The first category of the SALARY group, or the one named "Employee salary", created when it is
  missing; a category of that name in another group is refused.
\<close>

definition salary_category :: "string \<Rightarrow> ('a salary_db_scheme, string) act" where
  "salary_category store = bnd (reading (\<lambda>s. find (\<lambda>c. ct_store c = store \<and> ct_group c = ''SALARY'') (categories s))) (\<lambda>c.
     case c of Some c \<Rightarrow> ret (ct_id c)
     | None \<Rightarrow> bnd (reading (\<lambda>s. find (\<lambda>c. ct_store c = store \<and> ct_name c = ''Employee salary'') (categories s))) (\<lambda>named.
         case named of
           None \<Rightarrow> bnd new_uuid (\<lambda>i. andthen (writing (\<lambda>s. s\<lparr>categories := categories s @
             [\<lparr>ct_id = i, ct_store = store, ct_name = ''Employee salary'', ct_group = ''SALARY'', ct_system = True\<rparr>]\<rparr>)) (ret i))
         | Some c \<Rightarrow> andthen (require (ct_group c = ''SALARY'')
             (Conflict ''The Employee salary category must belong to the SALARY group'')) (ret (ct_id c))))"

definition salary_title :: "string \<Rightarrow> string" where
  "salary_title name = ''Salary '' @ em_dash @ '' '' @ name"

definition salary_expense :: "string \<Rightarrow> string \<Rightarrow> string \<Rightarrow> string option \<Rightarrow> string \<Rightarrow> instant \<Rightarrow> salary_row \<Rightarrow> expense_row" where
  "salary_expense i store category user name spentAt p =
     \<lparr>ex_id = i, ex_store = store, ex_title = salary_title name, ex_amount = sp_amount p, ex_method = METHODS (sp_method p),
      ex_spentAt = spentAt, ex_category = category, ex_staff = sp_staff p, ex_createdBy = user, ex_notes = sp_notes p,
      ex_receipt = sp_receipt p\<rparr>"

definition linkExpense :: "string \<Rightarrow> string option \<Rightarrow> salary_row \<Rightarrow> ('a salary_db_scheme, salary_row) act" where
  "linkExpense store user p =
     (if sp_expense p \<noteq> None then ret p
      else bnd (salary_category store) (\<lambda>category.
        bnd (reading (find_staff (sp_staff p))) (\<lambda>f.
        bnd (found f (Internal ''Inconsistent query result'')) (\<lambda>f.
        bnd (found (sp_paidAt p) (Internal ''spentAt must not be null'')) (\<lambda>spentAt.
        bnd new_uuid (\<lambda>i.
        andthen (writing (\<lambda>s. s\<lparr>salary_expenses := salary_expenses s @ [salary_expense i store category user (sf_name f) spentAt p]\<rparr>))
        (andthen (update_salary (sp_id p) (\<lambda>p. p\<lparr>sp_expense := Some i\<rparr>)) (ret (p\<lparr>sp_expense := Some i\<rparr>)))))))))"

section \<open>Receipts (src/common/media/attach-receipt.util.ts)\<close>

definition receiptPreviewPath :: "string \<Rightarrow> string" where
  "receiptPreviewPath i = ''/expenses/receipts/'' @ i"

definition attachable :: "string \<Rightarrow> string \<Rightarrow> instant \<Rightarrow> receipt_asset \<Rightarrow> bool" where
  "attachable store asset now r \<longleftrightarrow> ra_id r = asset \<and> ra_store r = store \<and> ra_receipt r \<and> ra_temporary r \<and>
     (case ra_expiresAt r of None \<Rightarrow> False | Some t \<Rightarrow> now < t)"

definition attachReceipt :: "string \<Rightarrow> string \<Rightarrow> string \<Rightarrow> instant \<Rightarrow> ('a salary_db_scheme, unit) act" where
  "attachReceipt store asset payment now = bnd (reading (\<lambda>s. list_ex (attachable store asset now) (receipts s))) (\<lambda>ok.
     andthen (require ok (BadRequest ''Receipt not found, already used, or expired. Upload it again.''))
       (writing (\<lambda>s. s\<lparr>receipts := map (\<lambda>r. if attachable store asset now r
          then r\<lparr>ra_temporary := False, ra_expiresAt := None, ra_payment := Some payment\<rparr> else r) (receipts s)\<rparr>)))"

section \<open>Payments\<close>

definition DAY_MS :: int where
  "DAY_MS = 86400000"

text \<open>The salary of a staff member for a due day, with the older records that carry no due date.\<close>

definition findSalaryForDay :: "string \<Rightarrow> instant \<Rightarrow> 'a salary_db_scheme \<Rightarrow> salary_row option" where
  "findSalaryForDay staff day s =
     (case find (\<lambda>p. sp_staff p = staff \<and> sp_scheduledFor p = Some day) (salaries s) of Some p \<Rightarrow> Some p
      | None \<Rightarrow> find (\<lambda>p. sp_staff p = staff \<and> sp_scheduledFor p = None \<and> day \<le> sp_paymentDate p \<and>
          sp_paymentDate p < day + DAY_MS) (salaries s))"

record batch_dto =
  bd_key :: string
  bd_staffIds :: "string list"
  bd_amount :: "rat option"
  bd_paymentDate :: date_input
  bd_timezone :: "string option"
  bd_status :: "salary_status option"
  bd_method :: salary_method
  bd_handling :: "salary_handling option"
  bd_frequency :: "salary_frequency option"
  bd_notes :: "string option"
  bd_receiptUrl :: "string option"
  bd_receiptAsset :: "string option"

text \<open>What the request hash covers.\<close>

record batch_print =
  bp_ids :: "string list"
  bp_date :: instant
  bp_status :: salary_status
  bp_amount :: "rat option"
  bp_method :: salary_method
  bp_handling :: "salary_handling option"
  bp_frequency :: "salary_frequency option"
  bp_notes :: "string option"
  bp_receipt :: "string option"
  bp_receiptOwner :: "string option"

definition batch_fingerprint :: "batch_dto \<Rightarrow> instant \<Rightarrow> batch_print" where
  "batch_fingerprint d date = \<lparr>bp_ids = sort (bd_staffIds d), bp_date = date, bp_status = given (bd_status d) PENDING_SALARY,
     bp_amount = bd_amount d, bp_method = bd_method d, bp_handling = bd_handling d, bp_frequency = bd_frequency d,
     bp_notes = bd_notes d, bp_receipt = (case bd_receiptAsset d of None \<Rightarrow> bd_receiptUrl d | Some a \<Rightarrow> Some a),
     bp_receiptOwner = (if bd_receiptAsset d = None then None else Some (hd (bd_staffIds d)))\<rparr>"

definition batch_payment ::
  "batch_dto \<Rightarrow> string \<Rightarrow> instant \<Rightarrow> instant \<Rightarrow> string \<Rightarrow> string \<Rightarrow> string \<Rightarrow> rat \<Rightarrow> profile_row option \<Rightarrow> salary_row" where
  "batch_payment d hash date now user i staff amount profile = (let status = given (bd_status d) PENDING_SALARY in
     \<lparr>sp_id = i, sp_staff = staff, sp_amount = amount, sp_paymentDate = date,
      sp_paidAt = (if status = PAID_SALARY then Some now else None), sp_method = bd_method d, sp_status = status,
      sp_notes = bd_notes d,
      sp_receipt = (case bd_receiptAsset d of Some asset \<Rightarrow>
          if staff = hd (bd_staffIds d) then Some (receiptPreviewPath asset) else bd_receiptUrl d
        | None \<Rightarrow> bd_receiptUrl d),
      sp_handling = (case bd_handling d of Some h \<Rightarrow> h | None \<Rightarrow> (case profile of None \<Rightarrow> AUTOMATIC | Some p \<Rightarrow> pf_handling p)),
      sp_frequency = (case bd_frequency d of Some f \<Rightarrow> Some f | None \<Rightarrow> map_option pf_frequency profile),
      sp_scheduledFor = Some date, sp_key = Some (bd_key d), sp_hash = Some hash, sp_createdBy = Some user,
      sp_paidBy = (if status = PAID_SALARY then Some user else None), sp_expense = None\<rparr>)"

definition create_payment ::
  "batch_dto \<Rightarrow> string \<Rightarrow> instant \<Rightarrow> instant \<Rightarrow> string \<Rightarrow> string \<Rightarrow> string \<Rightarrow> ('a salary_db_scheme, salary_row) act" where
  "create_payment d hash date now user store staff =
     andthen (lockStaff store staff)
     (bnd (reading (find_staff staff)) (\<lambda>f.
      bnd (found f (Internal ''Record not found'')) (\<lambda>f.
      bnd (reading (find_profile staff)) (\<lambda>profile.
      bnd (reading (findSalaryForDay staff date)) (\<lambda>prior.
      andthen (case prior of None \<Rightarrow> ret () | Some p \<Rightarrow> throw (Conflict (''Salary record '' @ sp_id p @
          '' already exists for this staff member and date; confirm that record instead'')))
      (bnd (found (case bd_amount d of Some a \<Rightarrow> Some a | None \<Rightarrow> map_option pf_baseSalary profile)
          (BadRequest (''Amount is required for '' @ sf_name f @ '': no salary profile is set''))) (\<lambda>amount.
      bnd new_uuid (\<lambda>i. let p = batch_payment d hash date now user i staff amount profile in
      andthen (writing (\<lambda>s. s\<lparr>salaries := salaries s @ [p]\<rparr>))
      (andthen (case bd_receiptAsset d of Some asset \<Rightarrow>
            if staff = hd (bd_staffIds d) then attachReceipt store asset i now else ret () | None \<Rightarrow> ret ())
      (if sp_status p = PAID_SALARY then linkExpense store (Some user) p else ret p))))))))))"

definition createPayments ::
  "intl \<Rightarrow> (batch_print \<Rightarrow> string) \<Rightarrow> string \<Rightarrow> batch_dto \<Rightarrow> instant \<Rightarrow> ('a salary_db_scheme, salary_row option list) act" where
  "createPayments intl digest user d now = bnd (requireOwner user) (\<lambda>a.
     bnd (lift_sum (salaryCalendarInput intl (bd_paymentDate d) (given (bd_timezone d) ''UTC''))) (\<lambda>date.
     let ids = sort (bd_staffIds d); hash = digest (batch_fingerprint d date) in
     bnd (transaction (
       bnd (reading (\<lambda>s. filter (\<lambda>p. sp_key p = Some (bd_key d) \<and> staff_store (sp_staff p) s = Some (ax_store a)) (salaries s))) (\<lambda>retry.
       if retry \<noteq> [] then
         andthen (require (length retry = length ids \<and> list_all (\<lambda>p. sp_hash p = Some hash) retry)
             (Conflict ''Idempotency key was already used for a different salary batch'')) (ret retry)
       else fold_act (\<lambda>i created. bnd (create_payment d hash date now user (ax_store a) i) (\<lambda>p. ret (created @ [p]))) ids []))) (\<lambda>payments.
     ret (map (\<lambda>i. find (\<lambda>p. sp_staff p = i) (rev payments)) (bd_staffIds d)))))"

definition lockPayment :: "string \<Rightarrow> string \<Rightarrow> ('a salary_db_scheme, salary_row) act" where
  "lockPayment store i = bnd (reading (\<lambda>s. find (\<lambda>p. sp_id p = i \<and> staff_store (sp_staff p) s = Some store) (salaries s))) (\<lambda>scoped.
     bnd (found scoped (NotFound ''Salary payment not found'')) (\<lambda>p.
     andthen (lockStaff store (sp_staff p))
     (bnd (reading (find_salary i)) (\<lambda>p. found p (Internal ''Record not found'')))))"

record confirm_dto =
  cf_paidAt :: "date_input option"
  cf_timezone :: "string option"
  cf_method :: "salary_method option"
  cf_receiptAsset :: "string option"

definition confirmed_at :: "intl \<Rightarrow> confirm_dto \<Rightarrow> instant \<Rightarrow> error + instant" where
  "confirmed_at intl d now = (case cf_paidAt d of None \<Rightarrow> Inr now
     | Some (DAY x) \<Rightarrow> dateInZone intl x (given (cf_timezone d) ''UTC'')
     | Some (STAMP t) \<Rightarrow> Inr t)"

definition confirmPayment :: "intl \<Rightarrow> string \<Rightarrow> string \<Rightarrow> confirm_dto \<Rightarrow> instant \<Rightarrow> ('a salary_db_scheme, salary_row) act" where
  "confirmPayment intl user i d now = bnd (requireOwner user) (\<lambda>a.
     bnd (lift_sum (confirmed_at intl d now)) (\<lambda>paidAt.
     andthen (require (paidAt \<le> now) (BadRequest ''Payment timestamp cannot be in the future''))
     (transaction (bnd (lockPayment (ax_store a) i) (\<lambda>p.
        if sp_status p = PAID_SALARY then ret p
        else andthen (require (sp_handling p \<noteq> MANUAL)
            (Conflict ''Manual salaries are marked paid when the owner records their expense.''))
        (andthen (case cf_receiptAsset d of None \<Rightarrow> ret () | Some asset \<Rightarrow>
            andthen (require (sp_receipt p = None) (Conflict ''This salary record already has a receipt''))
              (attachReceipt (ax_store a) asset i now))
        (let change = (\<lambda>p. p\<lparr>sp_status := PAID_SALARY, sp_paidAt := Some paidAt, sp_paidBy := Some user,
              sp_method := given (cf_method d) (sp_method p),
              sp_receipt := (case cf_receiptAsset d of None \<Rightarrow> sp_receipt p | Some asset \<Rightarrow> Some (receiptPreviewPath asset))\<rparr>) in
         andthen (update_salary i change) (linkExpense (ax_store a) (Some user) (change p)))))))))"

definition recordExpense :: "string \<Rightarrow> string \<Rightarrow> instant \<Rightarrow> ('a salary_db_scheme, salary_row) act" where
  "recordExpense user i now = bnd (requireOwner user) (\<lambda>a.
     transaction (bnd (lockPayment (ax_store a) i) (\<lambda>p.
       bnd (if sp_status p = PAID_SALARY \<and> sp_paidAt p \<noteq> None then ret p
            else let change = (\<lambda>p. p\<lparr>sp_status := PAID_SALARY, sp_paidAt := Some (given (sp_paidAt p) now),
                sp_paidBy := Some (given (sp_paidBy p) user)\<rparr>) in andthen (update_salary i change) (ret (change p)))
         (linkExpense (ax_store a) (Some user)))))"

section \<open>The scheduler\<close>

definition accrued_payment :: "profile_row \<Rightarrow> instant \<Rightarrow> instant \<Rightarrow> string \<Rightarrow> salary_row" where
  "accrued_payment f date now i = (let auto = (pf_handling f = AUTOMATIC) in
     \<lparr>sp_id = i, sp_staff = pf_staff f, sp_amount = pf_baseSalary f, sp_paymentDate = date,
      sp_paidAt = (if auto then Some now else None), sp_method = pf_method f,
      sp_status = (if auto then PAID_SALARY else PENDING_SALARY), sp_notes = pf_notes f, sp_receipt = None,
      sp_handling = pf_handling f, sp_frequency = Some (pf_frequency f), sp_scheduledFor = Some date, sp_key = None,
      sp_hash = None, sp_createdBy = None, sp_paidBy = None, sp_expense = None\<rparr>)"

text \<open>One due date: the number of records written.\<close>

definition accrue_day :: "string \<Rightarrow> profile_row \<Rightarrow> instant \<Rightarrow> instant \<Rightarrow> ('a salary_db_scheme, nat) act" where
  "accrue_day store f now date = bnd (reading (findSalaryForDay (pf_staff f) date)) (\<lambda>existing. case existing of
       None \<Rightarrow> bnd new_uuid (\<lambda>i. let p = accrued_payment f date now i in
         andthen (writing (\<lambda>s. s\<lparr>salaries := salaries s @ [p]\<rparr>))
         (andthen (if pf_handling f = AUTOMATIC then andthen (linkExpense store None p) (ret ()) else ret ()) (ret 1)))
     | Some e \<Rightarrow> if pf_handling f = AUTOMATIC \<and> sp_status e = PENDING_SALARY then
         (let change = (\<lambda>p. p\<lparr>sp_status := PAID_SALARY, sp_paidAt := Some now\<rparr>) in
          andthen (update_salary (sp_id e) change) (andthen (linkExpense store None (change e)) (ret 1)))
       else ret 0)"

text \<open>\<open>while (date <= today && periods < 366)\<close>; \<open>n\<close> is the number of periods left.\<close>

fun accrue_loop :: "nat \<Rightarrow> string \<Rightarrow> profile_row \<Rightarrow> instant \<Rightarrow> instant \<Rightarrow> instant \<Rightarrow> nat \<Rightarrow> ('a salary_db_scheme, instant \<times> nat) act" where
  "accrue_loop 0 store f now today date count = ret (date, count)"
| "accrue_loop (Suc n) store f now today date count =
     (if date \<le> today then bnd (accrue_day store f now date) (\<lambda>k.
        accrue_loop n store f now today (advance_salary date (pf_frequency f) (getUTCDate (pf_startDate f))) (count + k))
      else ret (date, count))"

definition MAX_PERIODS :: nat where
  "MAX_PERIODS = 366"

definition accrue_candidate :: "intl \<Rightarrow> instant \<Rightarrow> string \<times> string \<Rightarrow> ('a salary_db_scheme, nat) act" where
  "accrue_candidate intl now = (\<lambda>(staff, store).
     andthen (lockStaff store staff) (bnd (reading (find_profile staff)) (\<lambda>profile.
       case profile of None \<Rightarrow> ret 0 | Some f \<Rightarrow> (case pf_next f of None \<Rightarrow> ret 0 | Some next \<Rightarrow>
         let today = calendarDay intl now (pf_timezone f) in
         if today < salaryDay intl next then ret 0
         else bnd (accrue_loop MAX_PERIODS store f now today (salaryDay intl next) 0) (\<lambda>(date, count).
           andthen (writing (\<lambda>s. s\<lparr>profiles := map (\<lambda>q. if pf_staff q = staff then q\<lparr>pf_next := Some date\<rparr> else q) (profiles s)\<rparr>))
             (ret count))))))"

text \<open>
  The query of the due profiles: ordered by due date and staff member, at most 500 of them. A profile
  belongs to a staff member (a foreign key), whose store it is accrued for.
\<close>

definition due_profiles :: "intl \<Rightarrow> instant \<Rightarrow> 'a salary_db_scheme \<Rightarrow> (string \<times> string) list" where
  "due_profiles intl now s =
     (let due = filter (\<lambda>f. case pf_next f of None \<Rightarrow> False
            | Some next \<Rightarrow> salaryDay intl next \<le> calendarDay intl now (pf_timezone f)) (profiles s);
          ordered = sort_key (\<lambda>f. the (pf_next f)) (sort_key pf_staff due)
      in take 500 (List.map_filter (\<lambda>f. map_option (\<lambda>r. (pf_staff f, sf_store r)) (find_staff (pf_staff f) s)) ordered))"

definition runAutomaticPayments :: "intl \<Rightarrow> instant \<Rightarrow> ('a salary_db_scheme, nat \<times> nat) act" where
  "runAutomaticPayments intl now = bnd (reading (due_profiles intl now)) (\<lambda>due.
     fold_act (\<lambda>c (processed, skipped). bnd (transaction (accrue_candidate intl now c)) (\<lambda>n.
       ret (processed + n, skipped))) due (0, 0))"

section \<open>Reports\<close>

record salary_summary =
  sm_currency :: string
  sm_totalPaid :: rat
  sm_pendingCount :: nat
  sm_pendingTotal :: rat

definition store_salaries :: "string \<Rightarrow> 'a salary_db_scheme \<Rightarrow> salary_row list" where
  "store_salaries store s = filter (\<lambda>p. staff_store (sp_staff p) s = Some store) (salaries s)"

definition salary_totals :: "store_access \<Rightarrow> 'a salary_db_scheme \<Rightarrow> salary_summary" where
  "salary_totals a s =
     (let paid = filter (\<lambda>p. sp_status p = PAID_SALARY) (store_salaries (ax_store a) s);
          pending = filter (\<lambda>p. sp_status p = PENDING_SALARY) (store_salaries (ax_store a) s)
      in \<lparr>sm_currency = ax_currency a, sm_totalPaid = (\<Sum>p\<leftarrow>paid. sp_amount p), sm_pendingCount = length pending,
          sm_pendingTotal = (\<Sum>p\<leftarrow>pending. sp_amount p)\<rparr>)"

definition salary_summary_of :: "string \<Rightarrow> ('a salary_db_scheme, salary_summary) act" where
  "salary_summary_of user = bnd (requireOwner user) (\<lambda>a. reading (salary_totals a))"

section \<open>The schedule moves forward\<close>

lemma setUTCDate_month: "setUTCDate t d = at_time (first_of (month_of t) + d - 1) (time_in_day t)"
  by (simp add: setUTCDate_def make_day_month month_of_def)

lemma advance_days: "setUTCDate t (getUTCDate t + n) = t + n * ms_day"
proof -
  have "at_time (day_of t + n) (time_in_day t) = t + n * ms_day"
    using at_time_split[of t] by (simp add: at_time_def algebra_simps)
  moreover have "first_of (month_of t) + (getUTCDate t + n) - 1 = day_of t + n" using day_of_month[of t] by simp
  ultimately show ?thesis by (simp only: setUTCDate_month)
qed

lemma addMonthClamped_at:
  "addMonthClamped t a = at_time (first_of (month_of t + 1) + min a (month_length (month_of t + 1)) - 1) (time_in_day t)"
proof -
  let ?u = "time_in_day t" and ?k = "month_of t + 1"
  have u: "0 \<le> ?u" "?u < ms_day" using time_in_day_bounds by simp_all
  let ?a = "setUTCDate t 1"
  have a: "?a = at_time (first_of (month_of t) + 1 - 1) ?u" by (rule setUTCDate_month)
  have am: "month_of ?a = month_of t" "getUTCDate ?a = 1" "time_in_day ?a = ?u"
    unfolding a using date_at[of 1 "month_of t" ?u] month_length_range[of "month_of t"] u time_in_day_at_time by simp_all
  let ?b = "setUTCMonth ?a (getUTCMonth ?a + 1)"
  have b: "?b = at_time (first_of ?k + 1 - 1) ?u"
    unfolding setUTCMonth_def make_day_month am(2,3) using am(1) by (simp add: month_of_def algebra_simps)
  have bm: "month_of ?b = ?k" "time_in_day ?b = ?u"
    unfolding b using date_at[of 1 ?k ?u] month_length_range[of ?k] u time_in_day_at_time by simp_all
  have e: "setUTCMonthDate ?b (getUTCMonth ?b + 1) 0 = at_time (first_of ?k + month_length ?k - 1) ?u"
    unfolding setUTCMonthDate_def make_day_month bm(2) using bm(1) first_of_Suc[of ?k]
    by (simp add: month_of_def algebra_simps)
  have l: "getUTCDate (setUTCMonthDate ?b (getUTCMonth ?b + 1) 0) = month_length ?k"
    unfolding e using date_at(2)[of "month_length ?k" ?k ?u] month_length_range[of ?k] u by simp
  show ?thesis unfolding addMonthClamped_def Let_def l setUTCDate_month[of ?b] bm ..
qed

lemma advance_later:
  assumes "f = MONTHLY_PAY \<Longrightarrow> 1 \<le> a" shows "date + ms_day \<le> advance_salary date f a"
proof (cases f)
  case MONTHLY_PAY
  have "day_of date < first_of (month_of date + 1)"
    using day_of_month[of date] date_range(2)[of date] by (simp add: first_of_Suc)
  moreover have "1 \<le> min a (month_length (month_of date + 1))"
    using assms MONTHLY_PAY month_length_range[of "month_of date + 1"] by simp
  ultimately have "(day_of date + 1) * ms_day \<le> (first_of (month_of date + 1) + min a (month_length (month_of date + 1)) - 1) * ms_day"
    by (intro mult_right_mono) linarith+
  then show ?thesis using at_time_split[of date]
    by (simp add: MONTHLY_PAY advance_salary_def addMonthClamped_at at_time_def algebra_simps)
qed (simp_all add: advance_salary_def advance_days)

lemma advance_start: "date + ms_day \<le> advance_salary date f (getUTCDate start)"
  using date_range(1)[of start] by (rule advance_later)

section \<open>The annual summary\<close>

text \<open>\<open>while (date < to)\<close>: the due dates of the schedule before \<open>until'\<close>.\<close>

function due_dates :: "salary_frequency \<Rightarrow> instant \<Rightarrow> instant \<Rightarrow> instant \<Rightarrow> instant list" where
  "due_dates f start until' date =
     (if date < until' then date # due_dates f start until' (advance_salary date f (getUTCDate start)) else [])"
  by pat_completeness auto
termination
proof (relation "measure (\<lambda>(f, start, until', date). nat (until' - date))")
  fix f start until' date
  assume "(date :: int) < until'"
  with advance_start[of date f start]
  show "((f, start, until', advance_salary date f (getUTCDate start)), f, start, until', date)
    \<in> measure (\<lambda>(f, start, until', date). nat (until' - date))" by simp
qed simp

declare due_dates.simps [simp del]

definition skip_to :: "salary_frequency \<Rightarrow> instant \<Rightarrow> instant \<Rightarrow> instant" where
  "skip_to f from' date =
     (if date < from' \<and> f \<noteq> MONTHLY_PAY
      then (let step = (case f of DAILY_PAY \<Rightarrow> 86400000 | _ \<Rightarrow> 604800000)
            in date + \<lceil>rat_of_int (from' - date) / rat_of_int step\<rceil> * step)
      else date)"

record annual_view =
  an_year :: int
  an_currency :: string
  an_paid :: rat
  an_count :: nat
  an_remaining :: rat
  an_total :: rat
  an_projected :: bool

definition annual_totals ::
  "decimal_lib \<Rightarrow> intl \<Rightarrow> string \<Rightarrow> int \<Rightarrow> string \<Rightarrow> instant \<Rightarrow> instant \<Rightarrow> 'a salary_db_scheme \<Rightarrow> annual_view" where
  "annual_totals D intl currency year staff payoutFrom payoutTo s =
     (let from' = Date_UTC year 0 1; until' = Date_UTC (year + 1) 0 1;
          payments = filter (\<lambda>p. sp_staff p = staff \<and> ((from' \<le> sp_paymentDate p \<and> sp_paymentDate p < until') \<or>
            (case sp_paidAt p of None \<Rightarrow> False | Some t \<Rightarrow> payoutFrom \<le> t \<and> t < payoutTo))) (salaries s);
          dates = map (\<lambda>p. salaryDay intl (given (sp_scheduledFor p) (sp_paymentDate p))) payments;
          paid = dsum D (map sp_amount (filter (\<lambda>p. sp_status p = PAID_SALARY \<and>
            (case sp_paidAt p of None \<Rightarrow> False | Some t \<Rightarrow> payoutFrom \<le> t \<and> t < payoutTo)) payments));
          owed = map sp_amount (filter (\<lambda>p. sp_status p = PENDING_SALARY \<and> from' \<le> sp_paymentDate p \<and>
            sp_paymentDate p < until') payments);
          upcoming = (case find_profile staff s of None \<Rightarrow> []
            | Some f \<Rightarrow> (case pf_next f of None \<Rightarrow> []
              | Some next \<Rightarrow> map (\<lambda>_. pf_baseSalary f) (filter (\<lambda>d. from' \<le> d \<and> d \<notin> set dates)
                  (due_dates (pf_frequency f) (pf_startDate f) until' (skip_to (pf_frequency f) from' (salaryDay intl next))))));
          remaining = dsum D (owed @ upcoming)
      in \<lparr>an_year = year, an_currency = currency, an_paid = paid, an_count = length (owed @ upcoming),
          an_remaining = remaining, an_total = dplus D paid remaining, an_projected = (upcoming \<noteq> [])\<rparr>)"

definition annualSummary ::
  "decimal_lib \<Rightarrow> intl \<Rightarrow> string \<Rightarrow> string \<Rightarrow> int option \<Rightarrow> string option \<Rightarrow> instant \<Rightarrow> ('a salary_db_scheme, annual_view) act" where
  "annualSummary D intl user staff year timezone now = bnd (requireOwner user) (\<lambda>a.
     andthen (requireStaff (ax_store a) staff)
     (let tz = given timezone ''UTC''; y = given year (getUTCFullYear (calendarDay intl now tz)) in
      bnd (lift_sum (dateInZone intl (utc_midnight y 0 1) tz)) (\<lambda>payoutFrom.
      bnd (lift_sum (dateInZone intl (utc_midnight (y + 1) 0 1) tz)) (\<lambda>payoutTo.
      reading (annual_totals D intl (ax_currency a) y staff payoutFrom payoutTo)))))"

section \<open>Lists\<close>

definition displayStatusWhere :: "intl \<Rightarrow> salary_display option \<Rightarrow> instant \<Rightarrow> string \<Rightarrow> salary_row \<Rightarrow> bool" where
  "displayStatusWhere intl st now tz p = (case st of None \<Rightarrow> True
     | Some SHOW_PAID \<Rightarrow> sp_status p = PAID_SALARY
     | Some SHOW_PENDING \<Rightarrow> sp_status p = PENDING_SALARY \<and> calendarDay intl now tz \<le> sp_paymentDate p
     | Some SHOW_OVERDUE \<Rightarrow> sp_status p = PENDING_SALARY \<and> sp_paymentDate p < calendarDay intl now tz)"

definition salary_page ::
  "intl \<Rightarrow> (salary_row \<Rightarrow> bool) \<Rightarrow> salary_display option \<Rightarrow> string \<Rightarrow> nat \<Rightarrow> nat \<Rightarrow> instant \<Rightarrow> 'a salary_db_scheme \<Rightarrow>
    (salary_row \<times> salary_display) list \<times> nat" where
  "salary_page intl base st tz page limit now s =
     (let rows = filter (\<lambda>p. base p \<and> displayStatusWhere intl st now tz p) (salaries s);
          ordered = sort_key (\<lambda>p. - sp_paymentDate p) (sort_key sp_id rows)
      in (map (\<lambda>p. (p, deriveSalaryDisplayStatus intl (sp_status p) (sp_paymentDate p) now tz))
            (take limit (drop ((page - 1) * limit) ordered)), length rows))"

definition listPayments ::
  "intl \<Rightarrow> string \<Rightarrow> string \<Rightarrow> salary_display option \<Rightarrow> string \<Rightarrow> nat \<Rightarrow> nat \<Rightarrow> instant \<Rightarrow>
    ('a salary_db_scheme, (salary_row \<times> salary_display) list \<times> nat) act" where
  "listPayments intl user staff st tz page limit now = bnd (requireOwner user) (\<lambda>a.
     andthen (requireStaff (ax_store a) staff)
     (reading (\<lambda>s. salary_page intl (\<lambda>p. sp_staff p = staff \<and> staff_store (sp_staff p) s = Some (ax_store a)) st tz page limit now s)))"

definition listStorePayments ::
  "intl \<Rightarrow> string \<Rightarrow> salary_display option \<Rightarrow> string \<Rightarrow> nat \<Rightarrow> nat \<Rightarrow> instant \<Rightarrow>
    ('a salary_db_scheme, (salary_row \<times> salary_display) list \<times> nat) act" where
  "listStorePayments intl user st tz page limit now = bnd (requireOwner user) (\<lambda>a.
     reading (\<lambda>s. salary_page intl (\<lambda>p. staff_store (sp_staff p) s = Some (ax_store a)) st tz page limit now s))"

section \<open>The salary books\<close>

text \<open>
  A paid salary has one expense of the same amount, staff member and time, in the store of the staff
  member and in a salary category of that store; a pending one has none. \<open>X\<close> holds the salaries whose
  expense is still to be written inside a transaction.
\<close>

definition booked :: "'a salary_db_scheme \<Rightarrow> salary_row \<Rightarrow> expense_row \<Rightarrow> bool" where
  "booked s p e \<longleftrightarrow> sp_expense p = Some (ex_id e) \<and> ex_amount e = sp_amount p \<and> ex_staff e = sp_staff p \<and>
     sp_paidAt p = Some (ex_spentAt e) \<and> staff_store (sp_staff p) s = Some (ex_store e) \<and>
     (\<exists>c \<in> set (categories s). ct_id c = ex_category e \<and> ct_store c = ex_store e \<and> ct_group c = ''SALARY'')"

definition salary_settled :: "'a salary_db_scheme \<Rightarrow> salary_row \<Rightarrow> bool" where
  "salary_settled s p \<longleftrightarrow> (if sp_status p = PAID_SALARY then \<exists>e \<in> set (salary_expenses s). booked s p e
     else sp_expense p = None \<and> sp_paidAt p = None)"

definition salary_ids :: "'a salary_db_scheme \<Rightarrow> string set" where
  "salary_ids s = sp_id ` set (salaries s) \<union> ex_id ` set (salary_expenses s)"

definition fresh_uuids :: "'a salary_db_scheme \<Rightarrow> bool" where
  "fresh_uuids s \<longleftrightarrow> (\<forall>n \<ge> uuid_next s. uuid n \<notin> salary_ids s)"

definition one_per_day :: "salary_row list \<Rightarrow> bool" where
  "one_per_day xs \<longleftrightarrow> (\<forall>p \<in> set xs. \<forall>q \<in> set xs. \<forall>d. sp_staff p = sp_staff q \<longrightarrow> sp_scheduledFor p = Some d \<longrightarrow>
     sp_scheduledFor q = Some d \<longrightarrow> sp_id p = sp_id q)"

definition one_expense :: "salary_row list \<Rightarrow> bool" where
  "one_expense xs \<longleftrightarrow> (\<forall>p \<in> set xs. \<forall>q \<in> set xs. \<forall>x. sp_expense p = Some x \<longrightarrow> sp_expense q = Some x \<longrightarrow> sp_id p = sp_id q)"

definition no_orphans :: "salary_row list \<Rightarrow> expense_row list \<Rightarrow> bool" where
  "no_orphans xs es \<longleftrightarrow> (\<forall>e \<in> set es. \<exists>p \<in> set xs. sp_expense p = Some (ex_id e))"

definition entries_ok :: "string set \<Rightarrow> 'a salary_db_scheme \<Rightarrow> bool" where
  "entries_ok X s \<longleftrightarrow> (\<forall>p \<in> set (salaries s). if sp_id p \<in> X then sp_expense p = None else salary_settled s p)"

definition books_ok :: "string set \<Rightarrow> 'a salary_db_scheme \<Rightarrow> bool" where
  "books_ok X s \<longleftrightarrow> access_keys s \<and> distinct (map sp_id (salaries s)) \<and> distinct (map ex_id (salary_expenses s)) \<and>
     fresh_uuids s \<and> one_per_day (salaries s) \<and> entries_ok X s \<and> one_expense (salaries s) \<and>
     no_orphans (salaries s) (salary_expenses s)"

abbreviation salary_ok :: "'a salary_db_scheme \<Rightarrow> bool" where
  "salary_ok s \<equiv> books_ok {} s"

lemma uuid_inj [simp]: "uuid m = uuid n \<longleftrightarrow> m = n"
  by (simp add: uuid_def)

lemma booksD:
  assumes "books_ok X s"
  shows "access_keys s" "distinct (map sp_id (salaries s))" "distinct (map ex_id (salary_expenses s))"
    "uuid_next s \<le> n \<Longrightarrow> uuid n \<notin> salary_ids s"
    "p \<in> set (salaries s) \<Longrightarrow> q \<in> set (salaries s) \<Longrightarrow> sp_staff p = sp_staff q \<Longrightarrow> sp_scheduledFor p = Some d \<Longrightarrow>
        sp_scheduledFor q = Some d \<Longrightarrow> sp_id p = sp_id q"
    "p \<in> set (salaries s) \<Longrightarrow> if sp_id p \<in> X then sp_expense p = None else salary_settled s p"
    "p \<in> set (salaries s) \<Longrightarrow> q \<in> set (salaries s) \<Longrightarrow> sp_expense p = Some x \<Longrightarrow> sp_expense q = Some x \<Longrightarrow> sp_id p = sp_id q"
    "e \<in> set (salary_expenses s) \<Longrightarrow> \<exists>p \<in> set (salaries s). sp_expense p = Some (ex_id e)"
  using assms unfolding books_ok_def fresh_uuids_def one_per_day_def entries_ok_def one_expense_def no_orphans_def by blast+

lemma booksI:
  assumes "access_keys s" "distinct (map sp_id (salaries s))" "distinct (map ex_id (salary_expenses s))"
    "\<And>n. uuid_next s \<le> n \<Longrightarrow> uuid n \<notin> salary_ids s"
    "\<And>p q d. p \<in> set (salaries s) \<Longrightarrow> q \<in> set (salaries s) \<Longrightarrow> sp_staff p = sp_staff q \<Longrightarrow> sp_scheduledFor p = Some d \<Longrightarrow>
        sp_scheduledFor q = Some d \<Longrightarrow> sp_id p = sp_id q"
    "\<And>p. p \<in> set (salaries s) \<Longrightarrow> if sp_id p \<in> X then sp_expense p = None else salary_settled s p"
    "\<And>p q x. p \<in> set (salaries s) \<Longrightarrow> q \<in> set (salaries s) \<Longrightarrow> sp_expense p = Some x \<Longrightarrow> sp_expense q = Some x \<Longrightarrow> sp_id p = sp_id q"
    "\<And>e. e \<in> set (salary_expenses s) \<Longrightarrow> \<exists>p \<in> set (salaries s). sp_expense p = Some (ex_id e)"
  shows "books_ok X s"
  unfolding books_ok_def fresh_uuids_def one_per_day_def entries_ok_def one_expense_def no_orphans_def
  by (intro conjI ballI allI impI assms)

lemma same_salary: "books_ok X s \<Longrightarrow> p \<in> set (salaries s) \<Longrightarrow> q \<in> set (salaries s) \<Longrightarrow> sp_id p = sp_id q \<Longrightarrow> p = q"
  using booksD(2)[of X s] by (auto simp: distinct_map inj_on_def)

text \<open>What the books do not depend on.\<close>

lemma booked_cong:
  assumes "set (categories s) \<subseteq> set (categories t)" "staff_rows t = staff_rows s"
  shows "booked s p e \<Longrightarrow> booked t p e"
  using assms by (auto simp: booked_def staff_store_def find_staff_def)

lemma settled_mono:
  assumes "salary_settled s p" "set (salary_expenses s) \<subseteq> set (salary_expenses t)"
    "set (categories s) \<subseteq> set (categories t)" "staff_rows t = staff_rows s"
  shows "salary_settled t p"
proof (cases "sp_status p = PAID_SALARY")
  case True
  with assms(1) obtain e where "e \<in> set (salary_expenses s)" "booked s p e" unfolding salary_settled_def by auto
  with booked_cong[OF assms(3,4)] assms(2) True show ?thesis unfolding salary_settled_def by auto
qed (use assms(1) in \<open>simp add: salary_settled_def\<close>)

lemma books_frame:
  assumes "books_ok X s" "access_keys t" "salaries t = salaries s" "salary_expenses t = salary_expenses s"
    "uuid_next s \<le> uuid_next t" "set (categories s) \<subseteq> set (categories t)" "staff_rows t = staff_rows s"
  shows "books_ok X t"
proof -
  have "entries_ok X t"
    unfolding entries_ok_def assms(3)
  proof
    fix p assume "p \<in> set (salaries s)"
    from booksD(6)[OF assms(1) this] settled_mono[OF _ _ assms(6,7), of p] assms(4)
    show "if sp_id p \<in> X then sp_expense p = None else salary_settled t p" by (simp split: if_splits)
  qed
  moreover have "fresh_uuids t"
    using booksD(4)[OF assms(1)] assms(5) unfolding fresh_uuids_def salary_ids_def assms(3,4) by auto
  ultimately show ?thesis using assms(1,2) unfolding books_ok_def assms(3,4) by blast
qed

lemma access_keys_cong:
  "user_rows t = user_rows s \<Longrightarrow> store_rows t = store_rows s \<Longrightarrow> role_rows t = role_rows s \<Longrightarrow> staff_rows t = staff_rows s \<Longrightarrow>
   access_keys s \<Longrightarrow> access_keys t"
  by (simp add: access_keys_def)

lemma books_new_uuid:
  assumes "books_ok X s" "new_uuid s = (Inr i, t)"
  shows "books_ok X t" "i = uuid (uuid_next s)" "t = s\<lparr>uuid_next := Suc (uuid_next s)\<rparr>" "i \<notin> salary_ids t"
proof -
  show t: "i = uuid (uuid_next s)" "t = s\<lparr>uuid_next := Suc (uuid_next s)\<rparr>"
    using assms(2) unfolding new_uuid_def by (auto simp: run_ok)
  show "books_ok X t"
    by (rule books_frame[OF assms(1) access_keys_cong[OF _ _ _ _ booksD(1)[OF assms(1)]]]) (simp_all add: t)
  show "i \<notin> salary_ids t" using booksD(4)[OF assms(1), of "uuid_next s"] by (simp add: t salary_ids_def)
qed

lemma salary_category_run:
  assumes "salary_category store s = (Inr c, t)" "books_ok X s"
  shows "books_ok X t" "salaries t = salaries s" "salary_expenses t = salary_expenses s" "staff_rows t = staff_rows s"
    "set (categories s) \<subseteq> set (categories t)"
    "\<exists>x \<in> set (categories t). ct_id x = c \<and> ct_store x = store \<and> ct_group x = ''SALARY''"
proof -
  have *: "(t = s \<or> (\<exists>x. t = s\<lparr>uuid_next := Suc (uuid_next s), categories := categories s @ [x]\<rparr>)) \<and>
      (\<exists>x \<in> set (categories t). ct_id x = c \<and> ct_store x = store \<and> ct_group x = ''SALARY'')"
  proof (cases "find (\<lambda>c. ct_store c = store \<and> ct_group c = ''SALARY'') (categories s)")
    case (Some x)
    with assms(1) find_Some_set[OF Some] show ?thesis by (auto simp: salary_category_def run_ok)
  next
    case none: None
    show ?thesis
    proof (cases "find (\<lambda>c. ct_store c = store \<and> ct_name c = ''Employee salary'') (categories s)")
      case (Some x)
      with none assms(1) find_Some_set[OF Some] show ?thesis by (auto simp: salary_category_def run_ok)
    next
      case None
      with none assms(1) show ?thesis by (auto simp: salary_category_def new_uuid_def run_ok)
    qed
  qed
  then show "salaries t = salaries s" "salary_expenses t = salary_expenses s" "staff_rows t = staff_rows s"
    "set (categories s) \<subseteq> set (categories t)"
    "\<exists>x \<in> set (categories t). ct_id x = c \<and> ct_store x = store \<and> ct_group x = ''SALARY''" by auto
  have "access_keys t" using * booksD(1)[OF assms(2)] by (auto simp: access_keys_def)
  with * show "books_ok X t" by (auto intro!: books_frame[OF assms(2)])
qed

lemma find_salary_self: "books_ok X s \<Longrightarrow> p \<in> set (salaries s) \<Longrightarrow> find_salary (sp_id p) s = Some p"
  unfolding find_salary_def by (rule find_id[OF booksD(2)])

text \<open>Writing the missing expense of a paid salary settles it.\<close>

lemma books_link:
  assumes ok: "books_ok {sp_id p} s" and p: "p \<in> set (salaries s)" "sp_status p = PAID_SALARY"
    and st: "staff_store (sp_staff p) s = Some store" and run: "linkExpense store user p s = (Inr q, t)"
  shows "salary_ok t" "staff_rows t = staff_rows s" "q = p\<lparr>sp_expense := sp_expense q\<rparr>" "q \<in> set (salaries t)"
    "map sp_id (salaries t) = map sp_id (salaries s)"
    "\<And>r. r \<in> set (salaries s) \<Longrightarrow> sp_id r \<noteq> sp_id p \<Longrightarrow> r \<in> set (salaries t)"
proof -
  have "sp_expense p = None" using booksD(6)[OF ok p(1)] by simp
  with run obtain c u f spent i v where
    cat: "salary_category store s = (Inr c, u)" and f: "find_staff (sp_staff p) u = Some f"
    and spent: "sp_paidAt p = Some spent" and new: "new_uuid u = (Inr i, v)"
    and t: "t = v\<lparr>salary_expenses := salary_expenses v @ [salary_expense i store c user (sf_name f) spent p],
       salaries := map (\<lambda>r. if sp_id r = sp_id p then r\<lparr>sp_expense := Some i\<rparr> else r) (salaries v)\<rparr>"
    and q: "q = p\<lparr>sp_expense := Some i\<rparr>"
    unfolding linkExpense_def update_salary_def by (auto simp: run_ok)
  note u = salary_category_run[OF cat ok]
  have v: "books_ok {sp_id p} v" "v = u\<lparr>uuid_next := Suc (uuid_next u)\<rparr>" "i \<notin> salary_ids v" "i = uuid (uuid_next u)"
    using books_new_uuid[OF u(1) new] by blast+
  let ?g = "\<lambda>r. if sp_id r = sp_id p then r\<lparr>sp_expense := Some i\<rparr> else r"
  let ?e = "salary_expense i store c user (sf_name f) spent p"
  have sal: "salaries v = salaries s" "salary_expenses v = salary_expenses s" "categories v = categories u" "staff_rows v = staff_rows s"
    using u v(2) by simp_all
  have rows: "r \<in> set (salaries s) \<Longrightarrow> sp_id r = sp_id p \<Longrightarrow> r = p" for r using same_salary[OF ok] p(1) by blast
  have tf: "salaries t = map ?g (salaries s)" "salary_expenses t = salary_expenses s @ [?e]" "categories t = categories u"
    "staff_rows t = staff_rows s" "uuid_next t = uuid_next v" "access_keys t = access_keys v"
    by (simp_all add: t sal access_keys_def)
  have g_id: "sp_id (?g r) = sp_id r" "sp_staff (?g r) = sp_staff r" "sp_scheduledFor (?g r) = sp_scheduledFor r" for r by simp_all
  have store: "staff_store k t = staff_store k s" for k by (simp add: staff_store_def find_staff_def tf(4))
  have eid: "ex_id ?e = i" by (simp add: salary_expense_def)
  have fresh: "i \<notin> sp_id ` set (salaries s)" "i \<notin> ex_id ` set (salary_expenses s)" using v(3) by (simp_all add: salary_ids_def sal)
  have old: "sp_expense r \<noteq> Some i" if "r \<in> set (salaries s)" for r
  proof
    assume "sp_expense r = Some i"
    with that booksD(6)[OF ok that] fresh(2) show False
      by (auto simp: salary_settled_def booked_def split: if_splits)
  qed
  have self: "booked t (p\<lparr>sp_expense := Some i\<rparr>) ?e"
    using u(6) st spent by (simp add: booked_def salary_expense_def tf(3) store)
  show "salary_ok t"
  proof (rule booksI)
    show "access_keys t" using booksD(1)[OF v(1)] tf(6) by simp
    show "distinct (map sp_id (salaries t))" using booksD(2)[OF ok] by (simp add: tf o_def g_id)
    show "distinct (map ex_id (salary_expenses t))" using booksD(3)[OF ok] fresh(2) by (simp add: tf eid)
    show "uuid n \<notin> salary_ids t" if "uuid_next t \<le> n" for n
    proof -
      have "set (map sp_id (salaries t)) = set (map sp_id (salaries v))" by (simp only: tf sal map_map o_def g_id)
      then have "salary_ids t = insert i (salary_ids v)" by (simp add: salary_ids_def tf(2) sal eid)
      then show ?thesis using booksD(4)[OF v(1), of n] that v(2,4) tf(5) by simp
    qed
    show "sp_id x = sp_id y" if "x \<in> set (salaries t)" "y \<in> set (salaries t)" "sp_staff x = sp_staff y"
      "sp_scheduledFor x = Some d" "sp_scheduledFor y = Some d" for x y d
    proof -
      from that(1,2) obtain a b where "a \<in> set (salaries s)" "b \<in> set (salaries s)" "x = ?g a" "y = ?g b" by (auto simp: tf)
      then show ?thesis using booksD(5)[OF ok, of a b d] that(3-5) by (simp add: g_id)
    qed
    show "if sp_id x \<in> {} then sp_expense x = None else salary_settled t x" if "x \<in> set (salaries t)" for x
    proof -
      obtain r where r: "r \<in> set (salaries s)" "x = ?g r" using \<open>x \<in> set (salaries t)\<close> by (auto simp: tf)
      show ?thesis
      proof (cases "sp_id r = sp_id p")
        case True
        then have "r = p" using rows r(1) by blast
        then have "x = p\<lparr>sp_expense := Some i\<rparr>" using r(2) by simp
        with self p(2) show ?thesis by (auto simp: salary_settled_def tf)
      next
        case False
        with r booksD(6)[OF ok r(1)] have "salary_settled s x" "x = r" by simp_all
        moreover have "set (salary_expenses s) \<subseteq> set (salary_expenses t)" by (auto simp: tf)
        ultimately show ?thesis using settled_mono[of s r t] u(5) tf(3,4) by simp
      qed
    qed
    show "sp_id x = sp_id y" if "x \<in> set (salaries t)" "y \<in> set (salaries t)" "sp_expense x = Some k" "sp_expense y = Some k" for x y k
    proof -
      from that(1,2) obtain a b where "a \<in> set (salaries s)" "b \<in> set (salaries s)" "x = ?g a" "y = ?g b" by (auto simp: tf)
      then show ?thesis using booksD(7)[OF ok, of a b k] that(3,4) old[of a] old[of b] by (simp split: if_splits)
    qed
    show "\<exists>x \<in> set (salaries t). sp_expense x = Some (ex_id e)" if "e \<in> set (salary_expenses t)" for e
    proof (cases "e = ?e")
      case True
      then have "sp_expense (?g p) = Some (ex_id e)" by (simp add: eid)
      moreover have "?g p \<in> set (salaries t)" using p(1) unfolding tf(1) set_map by (rule imageI)
      ultimately show ?thesis by blast
    next
      case False
      with that obtain r where r: "r \<in> set (salaries s)" "sp_expense r = Some (ex_id e)" using booksD(8)[OF ok] by (auto simp: tf)
      then have "sp_id r \<noteq> sp_id p" using rows[OF r(1)] \<open>sp_expense p = None\<close> by fastforce
      with r(2) have "sp_expense (?g r) = Some (ex_id e)" by simp
      moreover have "?g r \<in> set (salaries t)" using r(1) unfolding tf(1) set_map by (rule imageI)
      ultimately show ?thesis by blast
    qed
  qed
  show "staff_rows t = staff_rows s" by (rule tf(4))
  show "q = p\<lparr>sp_expense := sp_expense q\<rparr>" by (simp add: q)
  show "q \<in> set (salaries t)" using imageI[OF p(1), of ?g] by (simp add: tf q)
  show "map sp_id (salaries t) = map sp_id (salaries s)" by (simp add: tf o_def g_id)
  show "r \<in> set (salaries t)" if "r \<in> set (salaries s)" "sp_id r \<noteq> sp_id p" for r
    using imageI[OF that(1), of ?g] that(2) by (simp add: tf)
qed

text \<open>A new row, a row that is paid, and the rest.\<close>

definition pending_set :: "salary_row \<Rightarrow> string set" where
  "pending_set p = (if sp_status p = PAID_SALARY then {sp_id p} else {})"

lemma books_add:
  assumes ok: "salary_ok s" and new: "sp_id p \<notin> salary_ids s" "\<And>n. uuid_next s \<le> n \<Longrightarrow> uuid n \<noteq> sp_id p" "sp_expense p = None"
    and st: "sp_status p = PAID_SALARY \<longleftrightarrow> sp_paidAt p \<noteq> None"
    and day: "\<And>q. q \<in> set (salaries s) \<Longrightarrow> sp_staff q = sp_staff p \<Longrightarrow> sp_scheduledFor q \<noteq> sp_scheduledFor p"
  shows "books_ok (pending_set p) (s\<lparr>salaries := salaries s @ [p]\<rparr>)"
proof (rule booksI)
  let ?t = "s\<lparr>salaries := salaries s @ [p]\<rparr>"
  have ids: "sp_id p \<notin> sp_id ` set (salaries s)" using new(1) by (simp add: salary_ids_def)
  show "access_keys ?t" using booksD(1)[OF ok] by (simp add: access_keys_def)
  show "distinct (map sp_id (salaries ?t))" using booksD(2)[OF ok] ids by simp
  show "distinct (map ex_id (salary_expenses ?t))" using booksD(3)[OF ok] by simp
  show "uuid n \<notin> salary_ids ?t" if "uuid_next ?t \<le> n" for n
    using booksD(4)[OF ok, of n] new(2)[of n] that by (simp add: salary_ids_def)
  show "sp_id x = sp_id y" if "x \<in> set (salaries ?t)" "y \<in> set (salaries ?t)" "sp_staff x = sp_staff y"
    "sp_scheduledFor x = Some d" "sp_scheduledFor y = Some d" for x y d
  proof (cases "x \<in> set (salaries s) \<and> y \<in> set (salaries s)")
    case True
    then show ?thesis using booksD(5)[OF ok, of x y d] that by blast
  next
    case False
    with that(1,2) have "x = p \<and> y = p \<or> x = p \<and> y \<in> set (salaries s) \<or> y = p \<and> x \<in> set (salaries s)" by auto
    then show ?thesis using day[of x] day[of y] that(3-5) by (elim disjE) simp_all
  qed
  show "if sp_id x \<in> pending_set p then sp_expense x = None else salary_settled ?t x" if "x \<in> set (salaries ?t)" for x
  proof (cases "x = p")
    case True
    then show ?thesis using new(3) st by (auto simp: pending_set_def salary_settled_def)
  next
    case False
    with that have x: "x \<in> set (salaries s)" by simp
    then have "sp_id x \<notin> pending_set p" proof -
      have "sp_id x \<noteq> sp_id p" using ids x by (metis imageI)
      then show ?thesis by (simp add: pending_set_def)
    qed
    moreover have "salary_settled s x" using booksD(6)[OF ok x] by simp
    then have "salary_settled ?t x" by (rule settled_mono) simp_all
    ultimately show ?thesis by simp
  qed
  show "sp_id x = sp_id y" if "x \<in> set (salaries ?t)" "y \<in> set (salaries ?t)" "sp_expense x = Some k" "sp_expense y = Some k" for x y k
  proof -
    have "x \<in> set (salaries s)" "y \<in> set (salaries s)" using that new(3) by auto
    then show ?thesis using booksD(7)[OF ok, of x y k] that by blast
  qed
  show "\<exists>x \<in> set (salaries ?t). sp_expense x = Some (ex_id e)" if "e \<in> set (salary_expenses ?t)" for e
    using booksD(8)[OF ok, of e] that by auto
qed

lemma books_pay:
  assumes ok: "salary_ok s" and p: "p \<in> set (salaries s)" "sp_status p = PENDING_SALARY"
    and f: "\<And>r. sp_id (f r) = sp_id r" "\<And>r. sp_staff (f r) = sp_staff r" "\<And>r. sp_scheduledFor (f r) = sp_scheduledFor r"
      "\<And>r. sp_expense (f r) = sp_expense r"
    and t: "t = s\<lparr>salaries := map (\<lambda>r. if sp_id r = sp_id p then f r else r) (salaries s)\<rparr>"
  shows "books_ok {sp_id p} t" "f p \<in> set (salaries t)"
proof -
  let ?g = "\<lambda>r. if sp_id r = sp_id p then f r else r"
  have g: "sp_id (?g r) = sp_id r" "sp_staff (?g r) = sp_staff r" "sp_scheduledFor (?g r) = sp_scheduledFor r"
    "sp_expense (?g r) = sp_expense r" for r by (simp_all add: f)
  have tf: "salaries t = map ?g (salaries s)" "salary_expenses t = salary_expenses s" "categories t = categories s"
    "staff_rows t = staff_rows s" "uuid_next t = uuid_next s" "access_keys t = access_keys s"
    by (simp_all add: t access_keys_def)
  have img: "\<exists>a \<in> set (salaries s). x = ?g a \<and> sp_id x = sp_id a \<and> sp_staff x = sp_staff a \<and>
      sp_scheduledFor x = sp_scheduledFor a \<and> sp_expense x = sp_expense a" if "x \<in> set (salaries t)" for x
    using that by (auto simp: tf f)
  have ids: "map sp_id (salaries t) = map sp_id (salaries s)" unfolding tf(1) map_map o_def g ..
  then have "sp_id ` set (salaries t) = sp_id ` set (salaries s)" by (metis list.set_map)
  then have sids: "salary_ids t = salary_ids s" by (simp add: salary_ids_def tf(2))
  have open': "sp_expense p = None" using booksD(6)[OF ok p(1)] p(2) by (simp add: salary_settled_def)
  show "books_ok {sp_id p} t"
  proof (rule booksI)
    show "access_keys t" using booksD(1)[OF ok] tf(6) by simp
    show "distinct (map sp_id (salaries t))" using booksD(2)[OF ok] ids by simp
    show "distinct (map ex_id (salary_expenses t))" using booksD(3)[OF ok] by (simp add: tf)
    show "uuid n \<notin> salary_ids t" if "uuid_next t \<le> n" for n using booksD(4)[OF ok, of n] that by (simp add: sids tf)
    show "sp_id x = sp_id y" if "x \<in> set (salaries t)" "y \<in> set (salaries t)" "sp_staff x = sp_staff y"
      "sp_scheduledFor x = Some d" "sp_scheduledFor y = Some d" for x y d
    proof -
      note m = img[OF that(1)] img[OF that(2)]
      obtain a where a: "a \<in> set (salaries s)" "sp_id x = sp_id a" "sp_staff x = sp_staff a" "sp_scheduledFor x = sp_scheduledFor a"
        using m(1) by blast
      obtain c where c: "c \<in> set (salaries s)" "sp_id y = sp_id c" "sp_staff y = sp_staff c" "sp_scheduledFor y = sp_scheduledFor c"
        using m(2) by blast
      show ?thesis using booksD(5)[OF ok a(1) c(1), of d] that(3-5) a(2-4) c(2-4) by simp
    qed
    show "if sp_id x \<in> {sp_id p} then sp_expense x = None else salary_settled t x" if "x \<in> set (salaries t)" for x
    proof -
      from that obtain a where a: "a \<in> set (salaries s)" "x = ?g a" using img by blast
      show ?thesis
      proof (cases "sp_id a = sp_id p")
        case True
        then have "a = p" using same_salary[OF ok a(1) p(1)] by blast
        then show ?thesis using a(2) open' by (simp add: f)
      next
        case False
        with a have x: "x = a" by simp
        have "salary_settled s a" using booksD(6)[OF ok a(1)] by simp
        then have "salary_settled t a" by (rule settled_mono) (simp_all add: tf)
        with x False show ?thesis by simp
      qed
    qed
    show "sp_id x = sp_id y" if "x \<in> set (salaries t)" "y \<in> set (salaries t)" "sp_expense x = Some k" "sp_expense y = Some k" for x y k
    proof -
      note m = img[OF that(1)] img[OF that(2)]
      obtain a where a: "a \<in> set (salaries s)" "sp_id x = sp_id a" "sp_staff x = sp_staff a" "sp_expense x = sp_expense a"
        using m(1) by blast
      obtain c where c: "c \<in> set (salaries s)" "sp_id y = sp_id c" "sp_staff y = sp_staff c" "sp_expense y = sp_expense c"
        using m(2) by blast
      show ?thesis using booksD(7)[OF ok a(1) c(1), of k] that(3,4) a(2-4) c(2-4) by simp
    qed
    show "\<exists>x \<in> set (salaries t). sp_expense x = Some (ex_id e)" if "e \<in> set (salary_expenses t)" for e
    proof -
      have "e \<in> set (salary_expenses s)" using that by (simp add: tf)
      then obtain a where a: "a \<in> set (salaries s)" "sp_expense a = Some (ex_id e)" using booksD(8)[OF ok] by blast
      then have "sp_expense (?g a) = Some (ex_id e)" by (simp add: f)
      moreover have "?g a \<in> set (salaries t)" using a(1) unfolding tf(1) set_map by (rule imageI)
      ultimately show ?thesis by blast
    qed
  qed
  show "f p \<in> set (salaries t)" using imageI[OF p(1), of ?g] by (simp add: tf)
qed

lemma lockStaff_run: "lockStaff store staff s = (Inr u, t) \<Longrightarrow> access_keys s \<Longrightarrow> t = s \<and> staff_store staff s = Some store"
  unfolding lockStaff_def access_keys_def
  by (auto simp: run_ok list_ex_iff staff_store_def find_staff_def find_key)

lemma attachReceipt_run:
  assumes "attachReceipt store asset i now s = (Inr u, t)" "books_ok X s"
  shows "books_ok X t" "staff_rows t = staff_rows s" "salaries t = salaries s"
proof -
  have t: "\<exists>xs. t = s\<lparr>receipts := xs\<rparr>" using assms(1) unfolding attachReceipt_def by (auto simp: run_ok)
  then show "staff_rows t = staff_rows s" "salaries t = salaries s" by auto
  show "books_ok X t" using t booksD(1)[OF assms(2)]
    by (auto intro!: books_frame[OF assms(2)] access_keys_cong[of _ s])
qed

definition good :: "string \<Rightarrow> string \<Rightarrow> 'a salary_db_scheme \<Rightarrow> bool" where
  "good staff store s \<longleftrightarrow> salary_ok s \<and> staff_store staff s = Some store"

lemma good_staff: "staff_rows t = staff_rows s \<Longrightarrow> staff_store x t = staff_store x s"
  by (simp add: staff_store_def find_staff_def)

lemma findSalaryForDay_None:
  "findSalaryForDay staff day s = None \<Longrightarrow> q \<in> set (salaries s) \<Longrightarrow> sp_staff q = staff \<Longrightarrow> sp_scheduledFor q \<noteq> Some day"
  by (auto simp: findSalaryForDay_def find_None_set split: option.splits)

lemma findSalaryForDay_Some:
  "findSalaryForDay staff day s = Some q \<Longrightarrow> q \<in> set (salaries s) \<and> sp_staff q = staff"
  by (auto simp: findSalaryForDay_def dest!: find_Some_set split: option.splits)

lemma new_row:
  assumes ok: "salary_ok s" and u: "new_uuid s = (Inr i, u)" and p: "sp_id p = i" "sp_staff p = staff" "sp_scheduledFor p = Some day"
    "sp_expense p = None" "sp_status p = PAID_SALARY \<longleftrightarrow> sp_paidAt p \<noteq> None" and none: "findSalaryForDay staff day s = None"
  shows "books_ok (pending_set p) (u\<lparr>salaries := salaries u @ [p]\<rparr>)" "staff_rows u = staff_rows s" "salaries u = salaries s"
proof -
  note n = books_new_uuid[OF ok u]
  show "staff_rows u = staff_rows s" "salaries u = salaries s" by (simp_all add: n(3))
  show "books_ok (pending_set p) (u\<lparr>salaries := salaries u @ [p]\<rparr>)"
  proof (rule books_add[OF n(1)])
    show "sp_id p \<notin> salary_ids u" using n(4) p(1) by simp
    show "uuid k \<noteq> sp_id p" if "uuid_next u \<le> k" for k using that by (simp add: p(1) n(2,3))
    show "sp_scheduledFor q \<noteq> sp_scheduledFor p" if "q \<in> set (salaries u)" "sp_staff q = sp_staff p" for q
      using findSalaryForDay_None[OF none, of q] that by (simp add: p n(3))
  qed (use p in simp_all)
qed

section \<open>Every writer keeps the books\<close>

lemma good_link:
  assumes "books_ok (pending_set p) s" "p \<in> set (salaries s)" "sp_status p = PAID_SALARY"
    "staff_store (sp_staff p) s = Some store" "linkExpense store user p s = (Inr q, t)"
  shows "salary_ok t \<and> staff_rows t = staff_rows s"
  using books_link[of p s store user q t] assms by (simp add: pending_set_def)

lemma create_payment_ok:
  assumes ok: "salary_ok s" and run: "create_payment d hash date now user store staff s = (Inr q, t)"
  shows "salary_ok t \<and> staff_rows t = staff_rows s"
proof -
  obtain s0 where l: "lockStaff store staff s = (Inr (), s0)"
    using run unfolding create_payment_def by (elim andthenE) auto
  have st: "staff_store staff s = Some store" "s0 = s" using lockStaff_run[OF l booksD(1)[OF ok]] by simp_all
  from run l st(2) obtain f amount i u p where
    none: "findSalaryForDay staff date s = None" and u: "new_uuid s = (Inr i, u)"
    and p: "p = batch_payment d hash date now user i staff amount (find_profile staff s)"
    and rest: "andthen (case bd_receiptAsset d of Some asset \<Rightarrow>
            if staff = hd (bd_staffIds d) then attachReceipt store asset i now else ret () | None \<Rightarrow> ret ())
      (if sp_status p = PAID_SALARY then linkExpense store (Some user) p else ret p)
      (u\<lparr>salaries := salaries u @ [p]\<rparr>) = (Inr q, t)"
    unfolding create_payment_def Let_def
    by (elim andthenE bndE) (auto simp: run_ok split: option.splits)
  have pf: "sp_id p = i" "sp_staff p = staff" "sp_scheduledFor p = Some date" "sp_expense p = None"
    "sp_status p = PAID_SALARY \<longleftrightarrow> sp_paidAt p \<noteq> None"
    by (simp_all add: p batch_payment_def Let_def)
  let ?v = "u\<lparr>salaries := salaries u @ [p]\<rparr>"
  note v = new_row[OF ok u pf none]
  from rest obtain w r where w: "(case bd_receiptAsset d of Some asset \<Rightarrow>
            if staff = hd (bd_staffIds d) then attachReceipt store asset i now else ret () | None \<Rightarrow> ret ()) ?v = (Inr r, w)"
    and e: "(if sp_status p = PAID_SALARY then linkExpense store (Some user) p else ret p) w = (Inr q, t)"
    by (auto simp: andthen_ok)
  have w': "books_ok (pending_set p) w \<and> staff_rows w = staff_rows s \<and> salaries w = salaries ?v"
    using w v attachReceipt_run[of store _ i now ?v r w "pending_set p"]
    by (auto simp: ret_ok split: option.splits if_splits)
  show ?thesis
  proof (cases "sp_status p = PAID_SALARY")
    case True
    have "staff_store (sp_staff p) w = Some store" using st(1) good_staff[of w s] w' pf(2) by simp
    with good_link[of p w store "Some user" q t] w' True e show ?thesis by simp
  next
    case False
    with e w' show ?thesis by (simp add: ret_ok pending_set_def)
  qed
qed

lemma good_pay:
  assumes ok: "salary_ok s" and p: "p \<in> set (salaries s)" "sp_status p = PENDING_SALARY"
    and f: "\<And>r. sp_id (f r) = sp_id r" "\<And>r. sp_staff (f r) = sp_staff r" "\<And>r. sp_scheduledFor (f r) = sp_scheduledFor r"
      "\<And>r. sp_expense (f r) = sp_expense r" "sp_status (f p) = PAID_SALARY"
    and st: "staff_store (sp_staff p) s = Some store"
    and run: "andthen (update_salary (sp_id p) f) (linkExpense store user (f p)) s = (Inr q, t)"
  shows "salary_ok t \<and> staff_rows t = staff_rows s"
proof -
  let ?u = "s\<lparr>salaries := map (\<lambda>r. if sp_id r = sp_id p then f r else r) (salaries s)\<rparr>"
  have e: "linkExpense store user (f p) ?u = (Inr q, t)" using run by (simp add: update_salary_def run_ok)
  note u = books_pay[OF ok p f(1-4) refl]
  have "books_ok (pending_set (f p)) ?u" using u(1) f by (simp add: pending_set_def)
  moreover have "staff_store (sp_staff (f p)) ?u = Some store" using st by (simp add: staff_store_def find_staff_def f)
  ultimately show ?thesis using good_link[of "f p" ?u store user q t] u(2) e f(5) by simp
qed

lemma lockPayment_run:
  assumes "lockPayment store i s = (Inr p, t)" "salary_ok s"
  shows "t = s" "p \<in> set (salaries s)" "sp_id p = i" "staff_store (sp_staff p) s = Some store"
proof -
  from assms(1) obtain x where x: "find (\<lambda>p. sp_id p = i \<and> staff_store (sp_staff p) s = Some store) (salaries s) = Some x"
    and l: "lockStaff store (sp_staff x) s = (Inr (), t)" and p: "find_salary i t = Some p"
    unfolding lockPayment_def by (auto simp: run_ok)
  show t: "t = s" using lockStaff_run[OF l booksD(1)[OF assms(2)]] by simp
  have xs: "x \<in> set (salaries s)" "sp_id x = i" "staff_store (sp_staff x) s = Some store" using find_Some_set[OF x] by auto
  have "find_salary i s = Some x" using find_salary_self[OF assms(2) xs(1)] xs(2) by simp
  with p t have "p = x" by simp
  with xs show "p \<in> set (salaries s)" "sp_id p = i" "staff_store (sp_staff p) s = Some store" by simp_all
qed

lemma status_cases: "sp_status p \<noteq> PAID_SALARY \<Longrightarrow> sp_status p = PENDING_SALARY"
  by (cases "sp_status p") simp_all

lemma paid_at: "salary_ok s \<Longrightarrow> p \<in> set (salaries s) \<Longrightarrow> sp_status p = PAID_SALARY \<Longrightarrow> sp_paidAt p \<noteq> None \<and> sp_expense p \<noteq> None"
  using booksD(6)[of "{}" s p] by (auto simp: salary_settled_def booked_def)

lemma books_healed [simp]: "books_ok X (healed u s) \<longleftrightarrow> books_ok X s"
proof -
  have f: "salaries (healed u s) = salaries s" "salary_expenses (healed u s) = salary_expenses s"
    "uuid_next (healed u s) = uuid_next s" "categories (healed u s) = categories s" "staff_rows (healed u s) = staff_rows s"
    by (simp_all add: healed_def set_active_store_def update_user_def split: option.split)
  have "map us_id (map (\<lambda>r. if us_id r = u then r\<lparr>us_activeStore := z\<rparr> else r) xs) = map us_id xs" for z xs by simp
  then have "map us_id (user_rows (healed u s)) = map us_id (user_rows s)"
    by (simp add: healed_def set_active_store_def update_user_def split: option.split)
  then have k: "access_keys (healed u s) = access_keys s" by (simp add: access_keys_def)
  have b: "booked (healed u s) p e = booked s p e" for p e
    by (simp add: booked_def f staff_store_def find_staff_def)
  show ?thesis
    by (simp add: books_ok_def fresh_uuids_def salary_ids_def entries_ok_def salary_settled_def b k f)
qed

lemma requireOwner_run: "requireOwner u s = (Inr a, t) \<Longrightarrow> t = healed u s"
  by (auto simp: requireOwner_def run_ok store_require_run split: option.splits)

lemma keeps_requireOwner [keeping]: "keeps salary_ok (requireOwner u)"
  by (rule keepsI) (auto dest: requireOwner_run)

lemma requireOwner_books: "preserves salary_ok (requireOwner u)"
proof (rule preservesI)
  fix s :: "'a salary_db_scheme" assume "salary_ok s"
  then show "salary_ok (snd (requireOwner u s))"
    by (auto simp: requireOwner_def bnd_def andthen_def require_def store_require_run ret_def throw_def split: option.split)
qed

lemma update_salary_let:
  "andthen (update_salary i f) (ret (f p)) s = (Inr q, t) \<longleftrightarrow> q = f p \<and> update_salary i f s = (Inr (), t)"
  by (auto simp: run_ok)

lemma confirm_body_ok:
  assumes "salary_ok s"
    and "bnd (lockPayment store i) (\<lambda>p.
        if sp_status p = PAID_SALARY then ret p
        else andthen (require (sp_handling p \<noteq> MANUAL) e1)
        (andthen (case cf_receiptAsset d of None \<Rightarrow> ret () | Some asset \<Rightarrow>
            andthen (require (sp_receipt p = None) e2) (attachReceipt store asset i now))
        (let change = (\<lambda>p. p\<lparr>sp_status := PAID_SALARY, sp_paidAt := Some paidAt, sp_paidBy := Some user,
              sp_method := given (cf_method d) (sp_method p),
              sp_receipt := (case cf_receiptAsset d of None \<Rightarrow> sp_receipt p | Some asset \<Rightarrow> Some (receiptPreviewPath asset))\<rparr>) in
         andthen (update_salary i change) (linkExpense store (Some user) (change p))))) s = (Inr q, t)"
  shows "salary_ok t"
proof -
  obtain p s0 where l: "lockPayment store i s = (Inr p, s0)" using assms(2) by (elim bndE)
  note lp = lockPayment_run[OF l assms(1)]
  show ?thesis
  proof (cases "sp_status p = PAID_SALARY")
    case True
    with assms l lp(1) show ?thesis by (auto simp: bnd_ok ret_ok)
  next
    case False
    with assms(2) l lp(1) obtain u r where
      u: "(case cf_receiptAsset d of None \<Rightarrow> ret () | Some asset \<Rightarrow>
            andthen (require (sp_receipt p = None) e2) (attachReceipt store asset i now)) s = (Inr r, u)"
      and e: "andthen (update_salary (sp_id p) (\<lambda>p. p\<lparr>sp_status := PAID_SALARY, sp_paidAt := Some paidAt, sp_paidBy := Some user,
              sp_method := given (cf_method d) (sp_method p),
              sp_receipt := (case cf_receiptAsset d of None \<Rightarrow> sp_receipt p | Some asset \<Rightarrow> Some (receiptPreviewPath asset))\<rparr>))
         (linkExpense store (Some user) (p\<lparr>sp_status := PAID_SALARY, sp_paidAt := Some paidAt, sp_paidBy := Some user,
              sp_method := given (cf_method d) (sp_method p),
              sp_receipt := (case cf_receiptAsset d of None \<Rightarrow> sp_receipt p | Some asset \<Rightarrow> Some (receiptPreviewPath asset))\<rparr>)) u = (Inr q, t)"
      using lp(3) by (auto simp: run_ok Let_def)
    have "salary_ok u \<and> staff_rows u = staff_rows s \<and> salaries u = salaries s"
      using u assms(1) attachReceipt_run[of store _ i now s r u "{}"] by (auto simp: run_ok split: option.splits)
    then have u': "salary_ok u" "p \<in> set (salaries u)" "staff_store (sp_staff p) u = Some store"
      using lp good_staff[of u s] by auto
    show ?thesis using good_pay[OF u'(1,2) status_cases[OF False] _ _ _ _ _ u'(3) e] by simp
  qed
qed

lemma keeps_salary: "(\<And>s q t. salary_ok s \<Longrightarrow> m s = (Inr q, t) \<Longrightarrow> salary_ok t) \<Longrightarrow> keeps salary_ok m"
  by (rule keepsI)

lemma confirm_ok: "preserves salary_ok (confirmPayment intl user i d now)"
  unfolding confirmPayment_def
  by (intro preserves_bnd requireOwner_books preserving preserves_transaction_keeps keeps_salary)
    (erule (1) confirm_body_ok)

lemma link_paid: "salary_ok s \<Longrightarrow> p \<in> set (salaries s) \<Longrightarrow> sp_status p = PAID_SALARY \<Longrightarrow> linkExpense store u p s = (Inr q, t) \<Longrightarrow> t = s"
  using paid_at[of s p] by (auto simp: linkExpense_def ret_ok)

lemma record_ok: "preserves salary_ok (recordExpense user i now)"
  unfolding recordExpense_def
proof (intro preserves_bnd requireOwner_books preserves_transaction_keeps keeps_salary)
  fix a and s t :: "'a salary_db_scheme" and q
  let ?f = "\<lambda>p. p\<lparr>sp_status := PAID_SALARY, sp_paidAt := Some (given (sp_paidAt p) now), sp_paidBy := Some (given (sp_paidBy p) user)\<rparr>"
  assume ok: "salary_ok s" and run: "bnd (lockPayment (ax_store a) i) (\<lambda>p.
       bnd (if sp_status p = PAID_SALARY \<and> sp_paidAt p \<noteq> None then ret p
            else let change = ?f in andthen (update_salary i change) (ret (change p)))
         (linkExpense (ax_store a) (Some user))) s = (Inr q, t)"
  obtain p s0 where l: "lockPayment (ax_store a) i s = (Inr p, s0)" using run by (elim bndE)
  note lp = lockPayment_run[OF l ok]
  show "salary_ok t"
  proof (cases "sp_status p = PAID_SALARY")
    case True
    with paid_at[OF ok lp(2)] run l lp(1) have "linkExpense (ax_store a) (Some user) p s = (Inr q, t)"
      by (auto simp: bnd_ok ret_ok)
    then have "t = s" by (rule link_paid[OF ok lp(2) True])
    with ok show ?thesis by simp
  next
    case False
    with run l lp(1,3) have "andthen (update_salary (sp_id p) ?f) (linkExpense (ax_store a) (Some user) (?f p)) s = (Inr q, t)"
      by (auto simp: run_ok Let_def)
    from good_pay[OF ok lp(2) status_cases[OF False] _ _ _ _ _ lp(4) this] show ?thesis by simp
  qed
qed

lemma create_ok: "preserves salary_ok (createPayments intl digest user d now)"
  unfolding createPayments_def Let_def
proof (intro preserves_bnd requireOwner_books preserves_lift_sum preserves_ret preserves_transaction_keeps)
  fix a date
  show "keeps salary_ok (bnd (reading (\<lambda>s. filter (\<lambda>p. sp_key p = Some (bd_key d) \<and> staff_store (sp_staff p) s = Some (ax_store a)) (salaries s))) (\<lambda>retry.
       if retry \<noteq> [] then
         andthen (require (length retry = length (sort (bd_staffIds d)) \<and>
             list_all (\<lambda>p. sp_hash p = Some (digest (batch_fingerprint d date))) retry)
             (Conflict ''Idempotency key was already used for a different salary batch'')) (ret retry)
       else fold_act (\<lambda>i created. bnd (create_payment d (digest (batch_fingerprint d date)) date now user (ax_store a) i)
           (\<lambda>p. ret (created @ [p]))) (sort (bd_staffIds d)) []))"
    by (intro keeping keeps_salary) (use create_payment_ok in blast)
qed

section \<open>The scheduler\<close>

lemma accrued_simps:
  "sp_id (accrued_payment f date now i) = i" "sp_staff (accrued_payment f date now i) = pf_staff f"
  "sp_scheduledFor (accrued_payment f date now i) = Some date" "sp_expense (accrued_payment f date now i) = None"
  "sp_status (accrued_payment f date now i) = PAID_SALARY \<longleftrightarrow> sp_paidAt (accrued_payment f date now i) \<noteq> None"
  "sp_status (accrued_payment f date now i) = (if pf_handling f = AUTOMATIC then PAID_SALARY else PENDING_SALARY)"
  by (simp_all add: accrued_payment_def Let_def)

lemma accrue_day_ok:
  assumes ok: "good (pf_staff f) store s" and run: "accrue_day store f now date s = (Inr k, t)"
  shows "good (pf_staff f) store t"
proof -
  have g: "salary_ok s" "staff_store (pf_staff f) s = Some store" using ok by (simp_all add: good_def)
  have "salary_ok t \<and> staff_rows t = staff_rows s"
  proof (cases "findSalaryForDay (pf_staff f) date s")
    case None
    with run obtain i u where u: "new_uuid s = (Inr i, u)"
      and e: "(if pf_handling f = AUTOMATIC then andthen (linkExpense store None (accrued_payment f date now i)) (ret ()) else ret ())
         (u\<lparr>salaries := salaries u @ [accrued_payment f date now i]\<rparr>) = (Inr (), t)"
      unfolding accrue_day_def by (auto simp: run_ok Let_def)
    let ?p = "accrued_payment f date now i" and ?v = "u\<lparr>salaries := salaries u @ [accrued_payment f date now i]\<rparr>"
    note v = new_row[OF g(1) u accrued_simps(1-5) None]
    show ?thesis
    proof (cases "pf_handling f = AUTOMATIC")
      case True
      with e obtain q where l: "linkExpense store None ?p ?v = (Inr q, t)" by (auto simp: run_ok)
      have "staff_store (sp_staff ?p) ?v = Some store" using g(2) good_staff[of ?v s] v(2) by (simp add: accrued_simps)
      from good_link[OF v(1) _ _ this l] True v(2) show ?thesis by (simp add: accrued_simps)
    next
      case False
      with e v show ?thesis by (simp add: ret_ok pending_set_def accrued_simps)
    qed
  next
    case (Some e)
    note m = findSalaryForDay_Some[OF Some]
    show ?thesis
    proof (cases "pf_handling f = AUTOMATIC \<and> sp_status e = PENDING_SALARY")
      case True
      let ?f = "\<lambda>p. p\<lparr>sp_status := PAID_SALARY, sp_paidAt := Some now\<rparr>"
      obtain q where "andthen (update_salary (sp_id e) ?f) (linkExpense store None (?f e)) s = (Inr q, t)"
        using run Some True unfolding accrue_day_def by (auto simp: run_ok Let_def)
      from good_pay[OF g(1) _ _ _ _ _ _ _ _ this] m True g(2) show ?thesis by simp
    next
      case False
      with run Some g(1) show ?thesis unfolding accrue_day_def by (auto simp: run_ok split: if_splits)
    qed
  qed
  with g(2) good_staff[of t s] show ?thesis by (simp add: good_def)
qed

lemma accrue_loop_ok:
  "good (pf_staff f) store s \<Longrightarrow> accrue_loop n store f now today date count s = (Inr r, t) \<Longrightarrow> good (pf_staff f) store t"
proof (induction n arbitrary: date count s)
  case 0
  then show ?case by (simp add: ret_ok)
next
  case (Suc n)
  show ?case
  proof (cases "date \<le> today")
    case True
    with Suc.prems(2) obtain k u where u: "accrue_day store f now date s = (Inr k, u)"
      and l: "accrue_loop n store f now today (advance_salary date (pf_frequency f) (getUTCDate (pf_startDate f))) (count + k) u = (Inr r, t)"
      by (auto simp: run_ok)
    show ?thesis by (rule Suc.IH[OF accrue_day_ok[OF Suc.prems(1) u] l])
  next
    case False
    with Suc.prems show ?thesis by (simp add: ret_ok)
  qed
qed

lemma books_profiles: "salary_ok s \<Longrightarrow> salary_ok (s\<lparr>profiles := xs\<rparr>)"
  by (rule books_frame) (auto intro: access_keys_cong[of _ s] dest: booksD(1))

lemma profile_staff: "find_profile staff s = Some f \<Longrightarrow> pf_staff f = staff"
  unfolding find_profile_def by (drule find_Some_set) simp

lemma accrue_candidate_ok: "keeps salary_ok (accrue_candidate intl now c)"
proof (cases c)
  case (Pair staff store)
  show ?thesis
  proof (rule keepsI)
    fix s n t assume ok: "salary_ok s" and run: "accrue_candidate intl now c s = (Inr n, t)"
    obtain s0 where l: "lockStaff store staff s = (Inr (), s0)"
      using run unfolding accrue_candidate_def Pair by (auto simp: andthen_ok)
    have st: "staff_store staff s = Some store" "s0 = s" using lockStaff_run[OF l booksD(1)[OF ok]] by simp_all
    show "salary_ok t"
    proof (cases "\<exists>f due. find_profile staff s = Some f \<and> pf_next f = Some due \<and>
        \<not> calendarDay intl now (pf_timezone f) < salaryDay intl due")
      case True
      then obtain f due where f: "find_profile staff s = Some f" "pf_next f = Some due"
        "\<not> calendarDay intl now (pf_timezone f) < salaryDay intl due" by blast
      from run l st f obtain d k u where
        u: "accrue_loop MAX_PERIODS store f now (calendarDay intl now (pf_timezone f)) (salaryDay intl due) 0 s = (Inr (d, k), u)"
        and t: "\<exists>xs. t = u\<lparr>profiles := xs\<rparr>"
        unfolding accrue_candidate_def Pair by (auto simp: run_ok Let_def)
      have "good (pf_staff f) store s" using ok st profile_staff[OF f(1)] by (simp add: good_def)
      from accrue_loop_ok[OF this u] t show ?thesis by (auto simp: good_def books_profiles)
    next
      case False
      with run l st ok show ?thesis unfolding accrue_candidate_def Pair
        by (auto simp: run_ok Let_def split: option.splits if_splits)
    qed
  qed
qed

lemma run_ok_salaries: "preserves salary_ok (runAutomaticPayments intl now)"
  unfolding runAutomaticPayments_def
proof (intro preserving)
  fix c :: "string \<times> string" and b :: "nat \<times> nat"
  show "preserves salary_ok (case b of (processed, skipped) \<Rightarrow> bnd (transaction (accrue_candidate intl now c))
      (\<lambda>n. ret (processed + n, skipped)))"
    by (cases b) (auto intro!: preserving preserves_transaction_keeps accrue_candidate_ok)
qed

lemma set_profile_ok: "preserves salary_ok (setProfile intl user staff d)"
  unfolding setProfile_def
proof (intro preserves_bnd requireOwner_books preserves_transaction_keeps keeps_andthen keeps_bnd keeps_atoms)
  fix a p
  show "keeps salary_ok (lockStaff (ax_store a) staff)"
    by (rule keepsI) (auto dest: lockStaff_run booksD(1))
  show "keeps salary_ok (writing (upsert_profile p))"
    by (rule keeps_writing) (simp add: upsert_profile_def books_profiles)
qed

text \<open>The steps of the salary service, each at its own clock.\<close>

inductive salary_step :: "intl \<Rightarrow> (batch_print \<Rightarrow> string) \<Rightarrow> salary_db \<Rightarrow> salary_db \<Rightarrow> bool" for I H where
  batch: "salary_step I H s (snd (createPayments I H user d now s))"
| confirmed: "salary_step I H s (snd (confirmPayment I user i d now s))"
| recorded: "salary_step I H s (snd (recordExpense user i now s))"
| scheduled: "salary_step I H s (snd (runAutomaticPayments I now s))"
| profile_set: "salary_step I H s (snd (setProfile I user staff d s))"

inductive_cases salary_stepE: "salary_step I H s t"

lemma salary_step_ok: "salary_step I H s t \<Longrightarrow> salary_ok s \<Longrightarrow> salary_ok t"
  by (induction rule: salary_step.induct)
    (rule preservesD[OF create_ok] preservesD[OF confirm_ok] preservesD[OF record_ok] preservesD[OF run_ok_salaries]
      preservesD[OF set_profile_ok]; assumption)+

section \<open>The books balance\<close>

lemma expense_of_paid:
  assumes "salary_ok s" "p \<in> set (salaries s)" "e \<in> set (salary_expenses s)" "sp_expense p = Some (ex_id e)"
  shows "sp_status p = PAID_SALARY \<and> booked s p e"
proof -
  have st: "salary_settled s p" using booksD(6)[OF assms(1,2)] by simp
  then have paid: "sp_status p = PAID_SALARY" using assms(4) by (auto simp: salary_settled_def split: if_splits)
  with st obtain x where x: "x \<in> set (salary_expenses s)" "booked s p x" by (auto simp: salary_settled_def)
  then have "ex_id x = ex_id e" using assms(4) by (simp add: booked_def)
  then have "x = e" using booksD(3)[OF assms(1)] x(1) assms(3) by (auto simp: distinct_map inj_on_def)
  with x paid show ?thesis by simp
qed

lemma books_balance:
  assumes ok: "salary_ok s"
  shows "sm_totalPaid (salary_totals a s) = (\<Sum>e\<leftarrow>filter (\<lambda>e. ex_store e = ax_store a) (salary_expenses s). ex_amount e)"
proof -
  let ?S = "ax_store a"
  let ?P = "{p \<in> set (salaries s). sp_status p = PAID_SALARY \<and> staff_store (sp_staff p) s = Some ?S}"
  let ?E = "{e \<in> set (salary_expenses s). ex_store e = ?S}"
  obtain h where h: "\<And>e. e \<in> set (salary_expenses s) \<Longrightarrow> h e \<in> set (salaries s) \<and> sp_expense (h e) = Some (ex_id e)"
    using booksD(8)[OF ok] by metis
  have b: "e \<in> set (salary_expenses s) \<Longrightarrow> sp_status (h e) = PAID_SALARY \<and> booked s (h e) e" for e
    using expense_of_paid[OF ok] h by blast
  have inj: "e = e'" if "e \<in> set (salary_expenses s)" "e' \<in> set (salary_expenses s)" "h e = h e'" for e e'
  proof -
    have "ex_id e = ex_id e'" using h[OF that(1)] h[OF that(2)] that(3) by simp
    then show ?thesis using booksD(3)[OF ok] that(1,2) by (auto simp: distinct_map inj_on_def)
  qed
  have bij: "bij_betw h ?E ?P"
  proof (rule bij_betw_imageI)
    show "inj_on h ?E" using inj by (auto simp: inj_on_def)
    show "h ` ?E = ?P"
    proof
      show "h ` ?E \<subseteq> ?P" using h b by (auto simp: booked_def)
      show "?P \<subseteq> h ` ?E"
      proof
        fix p assume p: "p \<in> ?P"
        then obtain e where e: "e \<in> set (salary_expenses s)" "booked s p e"
          using booksD(6)[OF ok, of p] by (auto simp: salary_settled_def)
        then have "sp_id (h e) = sp_id p" using booksD(7)[OF ok, of "h e" p] h[OF e(1)] p by (auto simp: booked_def)
        then have "h e = p" using same_salary[OF ok] h[OF e(1)] p by blast
        moreover have "e \<in> ?E" using e p by (auto simp: booked_def)
        ultimately show "p \<in> h ` ?E" by blast
      qed
    qed
  qed
  have dist: "distinct (salaries s)" "distinct (salary_expenses s)"
    using booksD(2,3)[OF ok] by (simp_all add: distinct_map)
  have "sm_totalPaid (salary_totals a s) = sum sp_amount ?P"
    using dist(1) by (simp add: salary_totals_def store_salaries_def Let_def sum_list_distinct_conv_sum_set conj_commute)
  also have "\<dots> = (\<Sum>e \<in> ?E. sp_amount (h e))" using bij by (rule sum.reindex_bij_betw[symmetric])
  also have "\<dots> = sum ex_amount ?E" using b by (intro sum.cong) (auto simp: booked_def)
  also have "\<dots> = (\<Sum>e\<leftarrow>filter (\<lambda>e. ex_store e = ?S) (salary_expenses s). ex_amount e)"
    using dist(2) by (simp add: sum_list_distinct_conv_sum_set)
  finally show ?thesis .
qed

text \<open>
  C39: the salary books. Whatever batches, confirmations, recorded expenses, scheduler runs and profile
  edits happened, in whatever order and at whatever clock readings, a staff member has at most one
  salary per due date, every paid salary has exactly one expense of the same amount, staff member and
  payment time, in a salary category of the staff member's store, a pending one has none, no expense is
  shared or left over; and the paid total that the summary shows to the owner of a store is the sum of
  the salary expenses of that store.
\<close>

theorem salary_books:
  assumes "(salary_step I H)\<^sup>*\<^sup>* s t" "access_keys s" "salaries s = []" "salary_expenses s = []"
  shows "salary_ok t \<and>
    sm_totalPaid (salary_totals a t) = (\<Sum>e\<leftarrow>filter (\<lambda>e. ex_store e = ax_store a) (salary_expenses t). ex_amount e)"
proof -
  have "salary_ok s"
    using assms(2-4) by (simp add: books_ok_def fresh_uuids_def salary_ids_def one_per_day_def entries_ok_def one_expense_def no_orphans_def)
  with assms(1) have "salary_ok t" by (induction rule: rtranclp_induct) (auto intro: salary_step_ok)
  with books_balance show ?thesis by blast
qed

section \<open>The scheduler catches up\<close>

definition day_done :: "profile_row \<Rightarrow> instant \<Rightarrow> 'a salary_db_scheme \<Rightarrow> bool" where
  "day_done f d s \<longleftrightarrow> (\<exists>q. findSalaryForDay (pf_staff f) d s = Some q \<and>
     (pf_handling f = AUTOMATIC \<longrightarrow> sp_status q = PAID_SALARY))"

definition has_category :: "string \<Rightarrow> 'a salary_db_scheme \<Rightarrow> bool" where
  "has_category store s \<longleftrightarrow> (\<exists>c \<in> set (categories s). ct_store c = store \<and> ct_group c = ''SALARY'')"

lemma findSalary_map:
  assumes "\<And>r. sp_staff (g r) = sp_staff r" "\<And>r. sp_scheduledFor (g r) = sp_scheduledFor r"
    "\<And>r. sp_paymentDate (g r) = sp_paymentDate r" "salaries t = map g (salaries s)"
  shows "findSalaryForDay staff d t = map_option g (findSalaryForDay staff d s)"
  by (simp add: findSalaryForDay_def assms find_map split: option.split)

lemma day_done_map:
  assumes "\<And>r. sp_staff (g r) = sp_staff r" "\<And>r. sp_scheduledFor (g r) = sp_scheduledFor r"
    "\<And>r. sp_paymentDate (g r) = sp_paymentDate r" "\<And>r. sp_status r = PAID_SALARY \<Longrightarrow> sp_status (g r) = PAID_SALARY"
    "salaries t = map g (salaries s)"
  shows "day_done f d s \<Longrightarrow> day_done f d t"
  using findSalary_map[OF assms(1-3,5)] assms(4) by (auto simp: day_done_def)

lemma findSalary_append:
  assumes "salaries t = salaries s @ [p]" "sp_scheduledFor p \<noteq> None" "findSalaryForDay staff d s = Some q"
    "sp_staff p = staff \<Longrightarrow> sp_scheduledFor p \<noteq> Some d"
  shows "findSalaryForDay staff d t = Some q"
  using assms by (auto simp: findSalaryForDay_def find_snoc split: option.splits)

text \<open>With a salary category in place the expense is always written.\<close>

lemma salary_category_found: "has_category store s \<Longrightarrow> \<exists>c. salary_category store s = (Inr c, s)"
proof -
  assume "has_category store s"
  then obtain c where "find (\<lambda>c. ct_store c = store \<and> ct_group c = ''SALARY'') (categories s) = Some c"
    using find_None_set[of "\<lambda>c. ct_store c = store \<and> ct_group c = ''SALARY''" "categories s"]
    by (cases "find (\<lambda>c. ct_store c = store \<and> ct_group c = ''SALARY'') (categories s)") (auto simp: has_category_def)
  then show ?thesis by (simp add: salary_category_def bnd_def reading_def ret_def)
qed

lemma link_total:
  assumes "has_category store s" "staff_store (sp_staff p) s = Some store" "sp_expense p = None" "sp_paidAt p \<noteq> None"
  shows "\<exists>q t x. linkExpense store u p s = (Inr q, t) \<and> has_category store t \<and> profiles t = profiles s \<and>
    salaries t = map (\<lambda>r. if sp_id r = sp_id p then r\<lparr>sp_expense := Some x\<rparr> else r) (salaries s)"
proof -
  obtain c where c: "salary_category store s = (Inr c, s)" using salary_category_found[OF assms(1)] by blast
  obtain f where f: "find_staff (sp_staff p) s = Some f" using assms(2) by (auto simp: staff_store_def)
  obtain d where d: "sp_paidAt p = Some d" using assms(4) by auto
  show ?thesis using assms(1,3)
    by (simp add: linkExpense_def bnd_def c reading_def f found_def ret_def d new_uuid_def andthen_def writing_def
        update_salary_def has_category_def) (rule exI[of _ "uuid (uuid_next s)"], simp)
qed

lemma accrue_day_total:
  assumes ok: "good (pf_staff f) store s" and cat: "has_category store s"
  shows "\<exists>k t. accrue_day store f now d s = (Inr k, t) \<and> good (pf_staff f) store t \<and> has_category store t \<and>
    profiles t = profiles s \<and> day_done f d t \<and> (\<forall>e. day_done f e s \<longrightarrow> day_done f e t) \<and> (day_done f d s \<longrightarrow> k = 0 \<and> t = s)"
proof -
  have g: "salary_ok s" "staff_store (pf_staff f) s = Some store" using ok by (simp_all add: good_def)
  show ?thesis
  proof (cases "findSalaryForDay (pf_staff f) d s")
    case None
    let ?i = "uuid (uuid_next s)" and ?u = "s\<lparr>uuid_next := Suc (uuid_next s)\<rparr>"
    let ?p = "accrued_payment f d now ?i"
    let ?v = "?u\<lparr>salaries := salaries ?u @ [?p]\<rparr>"
    have new: "new_uuid s = (Inr ?i, ?u)" by (simp add: new_uuid_def act_defs)
    have fin: "findSalaryForDay (pf_staff f) d ?v = Some ?p"
    proof -
      have "find (\<lambda>p. sp_staff p = pf_staff f \<and> sp_scheduledFor p = Some d) (salaries s) = None"
        using None by (simp add: findSalaryForDay_def split: option.splits)
      then show ?thesis by (simp add: findSalaryForDay_def find_snoc accrued_simps)
    qed
    have old: "day_done f e ?v" if "day_done f e s" for e
    proof -
      note m = that[unfolded day_done_def]
      obtain q where q: "findSalaryForDay (pf_staff f) e s = Some q" "pf_handling f = AUTOMATIC \<longrightarrow> sp_status q = PAID_SALARY"
        using m by blast
      have "findSalaryForDay (pf_staff f) e ?v = Some q"
        by (rule findSalary_append[OF _ _ q(1)]) (use None q(1) in \<open>auto simp: accrued_simps\<close>)
      with q(2) show ?thesis by (simp add: day_done_def)
    qed
    have nd: "\<not> day_done f d s" using None by (simp add: day_done_def)
    show ?thesis
    proof (cases "pf_handling f = AUTOMATIC")
      case True
      have "has_category store ?v" using cat by (simp add: has_category_def)
      moreover have "staff_store (sp_staff ?p) ?v = Some store" using g(2) by (simp add: accrued_simps staff_store_def find_staff_def)
      moreover have "sp_expense ?p = None" "sp_paidAt ?p \<noteq> None" using True accrued_simps(4,5)[of f d now ?i] by (simp_all add: accrued_simps(6))
      ultimately obtain q t x where l: "linkExpense store None ?p ?v = (Inr q, t)" "has_category store t" "profiles t = profiles ?v"
        "salaries t = map (\<lambda>r. if sp_id r = sp_id ?p then r\<lparr>sp_expense := Some x\<rparr> else r) (salaries ?v)"
        using link_total[of store ?v ?p None] by blast
      have run: "accrue_day store f now d s = (Inr 1, t)"
        using None True l(1) new by (simp add: accrue_day_def bnd_def reading_def andthen_def writing_def ret_def Let_def)
      note keep = day_done_map[OF _ _ _ _ l(4)]
      have "day_done f d t" by (rule keep) (use fin True in \<open>auto simp: day_done_def accrued_simps\<close>)
      moreover have "day_done f e t" if "day_done f e s" for e by (rule keep) (use old[OF that] in simp_all)
      ultimately show ?thesis using run accrue_day_ok[OF ok run] l(2,3) nd by auto
    next
      case False
      have run: "accrue_day store f now d s = (Inr 1, ?v)"
        using None False new by (simp add: accrue_day_def bnd_def reading_def andthen_def writing_def ret_def Let_def)
      have "day_done f d ?v" using fin False by (simp add: day_done_def)
      moreover have "has_category store ?v" using cat by (simp add: has_category_def)
      ultimately show ?thesis using run accrue_day_ok[OF ok run] old nd by auto
    qed
  next
    case (Some e)
    note m = findSalaryForDay_Some[OF Some]
    show ?thesis
    proof (cases "pf_handling f = AUTOMATIC \<and> sp_status e = PENDING_SALARY")
      case True
      let ?f = "\<lambda>p. p\<lparr>sp_status := PAID_SALARY, sp_paidAt := Some now\<rparr>"
      let ?g = "\<lambda>r. if sp_id r = sp_id e then ?f r else r"
      let ?v = "s\<lparr>salaries := map ?g (salaries s)\<rparr>"
      have "sp_expense e = None" using booksD(6)[OF g(1), of e] m True by (simp add: salary_settled_def)
      moreover have "has_category store ?v" using cat by (simp add: has_category_def)
      moreover have "staff_store (sp_staff (?f e)) ?v = Some store" using g(2) m by (simp add: staff_store_def find_staff_def)
      ultimately obtain q t x where l: "linkExpense store None (?f e) ?v = (Inr q, t)" "has_category store t" "profiles t = profiles ?v"
        "salaries t = map (\<lambda>r. if sp_id r = sp_id (?f e) then r\<lparr>sp_expense := Some x\<rparr> else r) (salaries ?v)"
        using link_total[of store ?v "?f e" None] by auto
      have run: "accrue_day store f now d s = (Inr 1, t)"
        using Some True l(1) by (simp add: accrue_day_def bnd_def reading_def andthen_def writing_def ret_def Let_def update_salary_def)
      have v: "day_done f d ?v"
        using findSalary_map[of ?g ?v s "pf_staff f" d] Some by (simp add: day_done_def)
      have old: "day_done f a ?v" if "day_done f a s" for a
        by (rule day_done_map[of ?g ?v s f a]) (use that in simp_all)
      note keep = day_done_map[OF _ _ _ _ l(4)]
      have "day_done f d t" by (rule keep) (use v in simp_all)
      moreover have "day_done f a t" if "day_done f a s" for a by (rule keep) (use old[OF that] in simp_all)
      moreover have "\<not> day_done f d s" using Some True by (simp add: day_done_def)
      ultimately show ?thesis using run accrue_day_ok[OF ok run] l(2,3) by auto
    next
      case False
      then have "accrue_day store f now d s = (Inr 0, s)" using Some by (auto simp: accrue_day_def bnd_def reading_def ret_def)
      moreover have "day_done f d s" using Some False status_cases[of e] by (auto simp: day_done_def)
      ultimately show ?thesis using ok cat by auto
    qed
  qed
qed

lemma accrue_loop_total:
  assumes "good (pf_staff f) store s" "has_category store s"
  shows "\<exists>c k t. accrue_loop n store f now today date count s = (Inr (c, k), t) \<and> good (pf_staff f) store t \<and>
    profiles t = profiles s \<and> date \<le> c \<and>
    (\<forall>e \<in> set (take n (due_dates (pf_frequency f) (pf_startDate f) (today + 1) date)). day_done f e t) \<and>
    (\<forall>e. day_done f e s \<longrightarrow> day_done f e t) \<and>
    (length (due_dates (pf_frequency f) (pf_startDate f) (today + 1) date) \<le> n \<longrightarrow> today < c)"
  using assms
proof (induction n arbitrary: date count s)
  case 0
  then show ?case by (subst due_dates.simps) (auto simp: ret_def)
next
  case (Suc n)
  let ?D = "due_dates (pf_frequency f) (pf_startDate f) (today + 1)"
  let ?next = "advance_salary date (pf_frequency f) (getUTCDate (pf_startDate f))"
  show ?case
  proof (cases "date \<le> today")
    case True
    then have D: "?D date = date # ?D ?next" by (subst due_dates.simps) simp
    obtain k u where u: "accrue_day store f now date s = (Inr k, u)" "good (pf_staff f) store u" "has_category store u"
      "profiles u = profiles s" "day_done f date u" "\<And>e. day_done f e s \<Longrightarrow> day_done f e u"
      using accrue_day_total[OF Suc.prems, of now date] by blast
    obtain c j t where t: "accrue_loop n store f now today ?next (count + k) u = (Inr (c, j), t)" "good (pf_staff f) store t"
      "profiles t = profiles u" "?next \<le> c" "\<forall>e \<in> set (take n (?D ?next)). day_done f e t" "\<And>e. day_done f e u \<Longrightarrow> day_done f e t"
      "length (?D ?next) \<le> n \<longrightarrow> today < c"
      using Suc.IH[OF u(2,3), of ?next "count + k"] by blast
    have run: "accrue_loop (Suc n) store f now today date count s = (Inr (c, j), t)"
      using True u(1) t(1) by (simp add: bnd_def)
    have "date \<le> c" using advance_start[of date "pf_frequency f" "pf_startDate f"] t(4) by simp
    with run t u show ?thesis unfolding D by auto
  next
    case False
    then have "?D date = []" by (subst due_dates.simps) simp
    with False Suc.prems show ?thesis by (auto simp: ret_def)
  qed
qed

lemma advance_time: "time_in_day (advance_salary t f a) = time_in_day t"
proof -
  have "time_in_day (at_time d (time_in_day t)) = time_in_day t" for d
    using time_in_day_bounds by (intro time_in_day_at_time) simp_all
  then show ?thesis by (cases f) (simp_all only: advance_salary_def salary_frequency.case setUTCDate_month addMonthClamped_at)
qed

lemma accrue_loop_cursor:
  "accrue_loop n store f now today date count s = (Inr (c, k), t) \<Longrightarrow> time_in_day c = time_in_day date"
proof (induction n arbitrary: date count s)
  case (Suc n)
  show ?case
  proof (cases "date \<le> today")
    case True
    with Suc.prems obtain j u where
      "accrue_loop n store f now today (advance_salary date (pf_frequency f) (getUTCDate (pf_startDate f))) (count + j) u = (Inr (c, k), t)"
      by (auto simp: run_ok)
    from Suc.IH[OF this] show ?thesis by (simp only: advance_time)
  qed (use Suc.prems in \<open>simp add: ret_def\<close>)
qed (simp add: ret_def)

lemma lockStaff_pass: "staff_store staff s = Some store \<Longrightarrow> lockStaff store staff s = (Inr (), s)"
  by (auto simp: lockStaff_def bnd_def reading_def require_def ret_def list_ex_iff staff_store_def find_staff_def dest!: find_Some_set)

text \<open>
  C40: the scheduler catches up. For a due profile of a staff member whose store has a salary category,
  one run succeeds and leaves a salary for each of the first 366 due dates up to today, paid (so, by C39,
  with its expense) when the profile books automatically; no other due date loses its salary. With at most
  366 due dates the next due date is in the future, and a second run at the same moment changes nothing.
\<close>

theorem scheduler_catches_up:
  assumes "salary_ok s" "staff_store staff s = Some store" "has_category store s"
    and f: "find_profile staff s = Some f" "pf_next f = Some due" "salaryDay intl due \<le> calendarDay intl now (pf_timezone f)"
    and utc: "\<And>t. salaryDay intl t = at_time (day_of t) 0"
  shows "\<exists>k c t. let periods = due_dates (pf_frequency f) (pf_startDate f) (calendarDay intl now (pf_timezone f) + 1) (salaryDay intl due) in
    accrue_candidate intl now (staff, store) s = (Inr k, t) \<and> salary_ok t \<and>
    find_profile staff t = Some (f\<lparr>pf_next := Some c\<rparr>) \<and>
    (\<forall>d \<in> set (take 366 periods). day_done f d t) \<and> (\<forall>d. day_done f d s \<longrightarrow> day_done f d t) \<and>
    (length periods \<le> 366 \<longrightarrow> calendarDay intl now (pf_timezone f) < c \<and>
       accrue_candidate intl now (staff, store) t = (Inr 0, t))"
proof -
  let ?today = "calendarDay intl now (pf_timezone f)" and ?d = "salaryDay intl due"
  let ?D = "due_dates (pf_frequency f) (pf_startDate f) (?today + 1) ?d"
  have id: "pf_staff f = staff" by (rule profile_staff[OF f(1)])
  have g: "good (pf_staff f) store s" using assms(1,2) id by (simp add: good_def)
  obtain c k u where u: "accrue_loop 366 store f now ?today ?d 0 s = (Inr (c, k), u)" "good (pf_staff f) store u"
    "profiles u = profiles s" "\<forall>e \<in> set (take 366 ?D). day_done f e u" "\<forall>e. day_done f e s \<longrightarrow> day_done f e u"
    "length ?D \<le> 366 \<longrightarrow> ?today < c"
    using accrue_loop_total[OF g assms(3), of 366 now ?today ?d 0] by blast
  let ?g = "\<lambda>q. if pf_staff q = staff then q\<lparr>pf_next := Some c\<rparr> else q"
  let ?t = "u\<lparr>profiles := map ?g (profiles u)\<rparr>"
  have run: "accrue_candidate intl now (staff, store) s = (Inr k, ?t)"
    using f u(1) lockStaff_pass[OF assms(2)]
    by (simp add: accrue_candidate_def andthen_def bnd_def reading_def writing_def ret_def MAX_PERIODS_def)
  have ok: "salary_ok ?t" using u(2) by (simp add: good_def books_profiles)
  have p: "find_profile staff ?t = Some (f\<lparr>pf_next := Some c\<rparr>)"
    using f(1) id unfolding find_profile_def by (simp add: u(3) find_map)
  have same: "day_done f d ?t = day_done f d u" for d by (simp add: day_done_def findSalaryForDay_def cong: option.case_cong)
  have "time_in_day c = 0"
    using accrue_loop_cursor[OF u(1)] by (simp add: utc time_in_day_at_time)
  then have c: "salaryDay intl c = c" using at_time_split[of c] by (simp add: utc)
  have st: "staff_store staff ?t = Some store" using u(2) id by (simp add: good_def staff_store_def find_staff_def)
  have again: "accrue_candidate intl now (staff, store) ?t = (Inr 0, ?t)" if "?today < c"
    using that c p lockStaff_pass[OF st]
    by (simp add: accrue_candidate_def andthen_def bnd_def reading_def ret_def)
  show ?thesis unfolding Let_def
    by (intro exI[of _ k] exI[of _ c] exI[of _ ?t] conjI) (use run ok p u again same in simp_all)
qed

section \<open>A sample run\<close>

text \<open>The staff member of \<open>sample_access\<close> earns 100 a day, booked automatically.\<close>

definition sample_profile :: profile_row where
  "sample_profile = \<lparr>pf_staff = ''f'', pf_timezone = ''UTC'', pf_baseSalary = 100, pf_frequency = DAILY_PAY,
     pf_method = CASH_SALARY, pf_handling = AUTOMATIC, pf_startDate = 0, pf_next = Some 0, pf_notes = None\<rparr>"

definition sample_salary :: salary_db where
  "sample_salary = billing_db.extend sample_billing \<lparr>profiles = [sample_profile], salaries = [],
     categories = [\<lparr>ct_id = ''c'', ct_store = ''s'', ct_name = ''Salaries'', ct_group = ''SALARY'', ct_system = True\<rparr>],
     salary_expenses = [], receipts = [], uuid_next = 0\<rparr>"

lemma sample_salary_tables:
  "profiles sample_salary = [sample_profile]" "salaries sample_salary = []" "salary_expenses sample_salary = []"
  "uuid_next sample_salary = 0" "staff_rows sample_salary = staff_rows sample_access"
  "user_rows sample_salary = user_rows sample_access" "store_rows sample_salary = store_rows sample_access"
  "role_rows sample_salary = role_rows sample_access"
  "categories sample_salary = [\<lparr>ct_id = ''c'', ct_store = ''s'', ct_name = ''Salaries'', ct_group = ''SALARY'', ct_system = True\<rparr>]"
  by (simp_all add: sample_salary_def sample_billing_def access_db.defs billing_db.defs salary_db.defs)

lemma sample_salary_keys: "access_keys sample_salary"
  by (simp add: access_keys_def sample_salary_tables sample_access_def)

lemma sample_salary_ok: "salary_ok sample_salary"
  by (simp add: books_ok_def fresh_uuids_def salary_ids_def one_per_day_def entries_ok_def one_expense_def no_orphans_def
      sample_salary_tables sample_salary_keys)

lemma sample_utc: "salaryDay sample_intl t = at_time (day_of t) 0"
  by (simp add: salaryDay_def sample_day sample_label)

text \<open>On the second day, at one in the morning, two salaries are due.\<close>

theorem scheduler_catches_up_witness:
  "\<exists>k c t. accrue_candidate sample_intl 90000000 (''f'', ''s'') sample_salary = (Inr k, t) \<and>
     find_profile ''f'' t = Some (sample_profile\<lparr>pf_next := Some c\<rparr>) \<and> 86400000 < c \<and>
     day_done sample_profile 0 t \<and> day_done sample_profile 86400000 t \<and>
     accrue_candidate sample_intl 90000000 (''f'', ''s'') t = (Inr 0, t)"
proof -
  have today: "calendarDay sample_intl 90000000 (pf_timezone sample_profile) = 86400000"
    by (simp add: sample_day sample_label sample_profile_def day_of_def at_time_def)
  have d0: "salaryDay sample_intl 0 = 0" by (simp add: sample_utc day_of_def at_time_def)
  have f: "find_profile ''f'' sample_salary = Some sample_profile" "pf_next sample_profile = Some 0"
    "salaryDay sample_intl 0 \<le> calendarDay sample_intl 90000000 (pf_timezone sample_profile)"
    unfolding d0 today by (simp_all add: find_profile_def sample_salary_tables) (simp_all add: sample_profile_def)
  have st: "staff_store ''f'' sample_salary = Some ''s''"
    by (simp add: staff_store_def find_staff_def sample_salary_tables sample_access_def)
  have cat: "has_category ''s'' sample_salary" by (simp add: has_category_def sample_salary_tables)
  have step: "advance_salary d DAILY_PAY a = d + 86400000" for d a
    using advance_days[of d 1] by (simp add: advance_salary_def)
  have "due_dates DAILY_PAY 0 86400001 0 = [0, 86400000]"
    by (subst due_dates.simps, simp add: step)+
  then have D: "due_dates (pf_frequency sample_profile) (pf_startDate sample_profile)
      (calendarDay sample_intl 90000000 (pf_timezone sample_profile) + 1) (salaryDay sample_intl 0) = [0, 86400000]"
    unfolding today d0 by (simp add: sample_profile_def)
  show ?thesis
    using scheduler_catches_up[OF sample_salary_ok st cat f sample_utc, unfolded Let_def D] unfolding today by auto
qed

definition sample_paid_salary :: salary_row where
  "sample_paid_salary = (accrued_payment sample_profile 0 3600000 (uuid 0))\<lparr>sp_expense := Some (uuid 1)\<rparr>"

lemma sample_accrue:
  "\<exists>t. accrue_day ''s'' sample_profile 3600000 0 sample_salary = (Inr 1, t) \<and>
     salaries t = [sample_paid_salary] \<and> staff_rows t = staff_rows sample_access"
  by (simp add: accrue_day_def linkExpense_def salary_category_def act_defs new_uuid_def findSalaryForDay_def sample_salary_tables
      accrued_simps update_salary_def find_staff_def sample_access_def found_def sample_paid_salary_def Let_def)
    (simp add: sample_profile_def accrued_payment_def act_defs sample_salary_tables(5)[unfolded sample_access_def] sample_access_def)

lemma sample_scheduled:
  "salaries (snd (runAutomaticPayments sample_intl 3600000 sample_salary)) = [sample_paid_salary]"
  "staff_rows (snd (runAutomaticPayments sample_intl 3600000 sample_salary)) = staff_rows sample_access"
proof -
  have today: "calendarDay sample_intl 3600000 (pf_timezone sample_profile) = 0"
    by (simp add: sample_day sample_label sample_profile_def day_of_def at_time_def)
  have d0: "salaryDay sample_intl 0 = 0" by (simp add: sample_utc day_of_def at_time_def)
  have due: "due_profiles sample_intl 3600000 sample_salary = [(''f'', ''s'')]"
    by (simp add: due_profiles_def sample_salary_tables Let_def today d0 List.map_filter_def find_staff_def sample_access_def)
      (use today in \<open>simp add: sample_profile_def d0\<close>)
  obtain t where t: "accrue_day ''s'' sample_profile 3600000 0 sample_salary = (Inr 1, t)"
    "salaries t = [sample_paid_salary]" "staff_rows t = staff_rows sample_access" using sample_accrue by blast
  have step: "advance_salary 0 (pf_frequency sample_profile) a = 86400000" for a
    using advance_days[of 0 1] by (simp add: advance_salary_def sample_profile_def)
  have lock: "lockStaff ''s'' ''f'' sample_salary = (Inr (), sample_salary)"
    by (rule lockStaff_pass) (simp add: staff_store_def find_staff_def sample_salary_tables sample_access_def)
  have prof: "find_profile ''f'' sample_salary = Some sample_profile" "pf_next sample_profile = Some 0"
    by (simp add: find_profile_def sample_salary_tables) (simp_all add: sample_profile_def)
  have n: "MAX_PERIODS = Suc (Suc 364)" by (simp add: MAX_PERIODS_def)
  have "accrue_loop MAX_PERIODS ''s'' sample_profile 3600000 0 0 0 sample_salary = (Inr (86400000, 1), t)"
    using t(1) unfolding n accrue_loop.simps by (simp add: bnd_def step ret_def)
  then show "salaries (snd (runAutomaticPayments sample_intl 3600000 sample_salary)) = [sample_paid_salary]"
    "staff_rows (snd (runAutomaticPayments sample_intl 3600000 sample_salary)) = staff_rows sample_access"
    using t(2,3) prof lock
    by (simp_all add: runAutomaticPayments_def accrue_candidate_def due transaction_def today d0 act_defs)
qed

theorem salary_books_witness:
  "let t = snd (runAutomaticPayments sample_intl 3600000 sample_salary) in
     salary_ok t \<and> (\<Sum>e\<leftarrow>filter (\<lambda>e. ex_store e = ''s'') (salary_expenses t). ex_amount e) = 100"
proof -
  let ?t = "snd (runAutomaticPayments sample_intl 3600000 sample_salary)"
  let ?a = "undefined\<lparr>ax_store := ''s''\<rparr>"
  have "(salary_step sample_intl (\<lambda>_. ''''))\<^sup>*\<^sup>* sample_salary ?t" by (intro r_into_rtranclp salary_step.scheduled)
  note main = salary_books[OF this sample_salary_keys sample_salary_tables(2,3)]
  have "sm_totalPaid (salary_totals a ?t) = 100" if "ax_store a = ''s''" for a
    using that sample_scheduled
    by (simp add: salary_totals_def store_salaries_def staff_store_def find_staff_def sample_access_def sample_paid_salary_def
        accrued_simps Let_def) (simp add: sample_profile_def accrued_payment_def)
  then have "sm_totalPaid (salary_totals ?a ?t) = 100" by simp
  with main[of ?a] show ?thesis by (simp add: Let_def)
qed

end
