(* ===== verification/Tenancy.thy ===== *)
theory Tenancy
  imports Salary
begin

text \<open>
  The tenants: creating, editing, selecting and deleting stores (\<open>src/stores/stores.service.ts\<close>), roles
  (\<open>src/roles/roles.service.ts\<close>) and staff members (\<open>src/staff/staff.service.ts\<close>), with the rows a new
  store starts with (\<open>src/access/store-defaults.util.ts\<close>). The password hash is a parameter. Rows are
  listed in the order they were created in.
\<close>

section \<open>Stores\<close>

definition defaultRoleSeeds :: "(string \<times> string \<times> string list) list" where
  "defaultRoleSeeds = [(''Staff'', ''View-only access to day-to-day operations. Adjust as needed.'',
     [''orders.view'', ''returns.view'', ''products.view'', ''customers.view''])]"

definition defaultExpenseCategorySeeds :: "(string \<times> string) list" where
  "defaultExpenseCategorySeeds = [(''Shipping'', ''SHIPPING''), (''Advertising'', ''ADS''), (''Salaries'', ''SALARY''),
     (''Purchases'', ''PURCHASES''), (''Other'', ''OTHER'')]"

record store_dto =
  nt_ownerName :: string
  nt_businessName :: string
  nt_address :: string
  nt_city :: string
  nt_country :: "string option"
  nt_logo :: "string option"
  nt_currency :: "string option"

definition DEFAULT_COUNTRY :: string where
  "DEFAULT_COUNTRY = ''Morocco''"

definition new_store :: "string \<Rightarrow> string \<Rightarrow> store_dto \<Rightarrow> store_row" where
  "new_store i user d = \<lparr>st_id = i, st_owner = user, st_currency = given (map_option js_upper (nt_currency d)) ''MAD'',
     st_ownerName = nt_ownerName d, st_businessName = nt_businessName d, st_address = nt_address d, st_city = nt_city d,
     st_country = given (nt_country d) DEFAULT_COUNTRY, st_logo = nt_logo d\<rparr>"

definition seed_role :: "string \<Rightarrow> string \<times> string \<times> string list \<Rightarrow> ('a salary_db_scheme, unit) act" where
  "seed_role store = (\<lambda>(name, description, ps). bnd new_uuid (\<lambda>i. writing (\<lambda>s. s\<lparr>role_rows := role_rows s @
     [\<lparr>rl_id = i, rl_store = store, rl_name = name, rl_description = Some description, rl_permissions = ps, rl_system = True\<rparr>]\<rparr>)))"

definition seed_category :: "string \<Rightarrow> string \<times> string \<Rightarrow> ('a salary_db_scheme, unit) act" where
  "seed_category store = (\<lambda>(name, group). bnd new_uuid (\<lambda>i. writing (\<lambda>s. s\<lparr>categories := categories s @
     [\<lparr>ct_id = i, ct_store = store, ct_name = name, ct_group = group, ct_system = True\<rparr>]\<rparr>)))"

text \<open>
  The transaction of the insert. The owner is a foreign key of the store, so an unknown user fails it.
\<close>

definition insert_store :: "string \<Rightarrow> store_dto \<Rightarrow> ('a salary_db_scheme, store_row) act" where
  "insert_store user d = bnd (reading (find_user user)) (\<lambda>x.
     andthen (require (x \<noteq> None) (Internal ''Foreign key constraint failed''))
     (bnd new_uuid (\<lambda>i.
      andthen (writing (\<lambda>s. s\<lparr>store_rows := store_rows s @ [new_store i user d]\<rparr>))
      (andthen (for_each (seed_role i) defaultRoleSeeds)
      (andthen (for_each (seed_category i) defaultExpenseCategorySeeds)
      (andthen (writing (update_user user (\<lambda>x. x\<lparr>us_onboarded := True, us_activeStore := Some i\<rparr>)))
        (ret (new_store i user d))))))))"

definition create_store :: "string \<Rightarrow> store_dto \<Rightarrow> instant \<Rightarrow> instant \<Rightarrow> ('a salary_db_scheme, store_row) act" where
  "create_store user d now later = bnd (reading (staff_by_user user)) (\<lambda>staff.
     andthen (require (staff = None) (Conflict ''Staff members cannot create stores; ask the store owner''))
     (andthen (assertCanCreateStore user now)
     (bnd (transaction (insert_store user d)) (\<lambda>r.
      andthen (startTrialIfMissing user later) (ret r)))))"

record store_edit =
  ed_ownerName :: "string option"
  ed_businessName :: "string option"
  ed_address :: "string option"
  ed_city :: "string option"
  ed_country :: "string option"
  ed_logo :: "string option option"
  ed_currency :: "string option"

definition edits_nothing :: "store_edit \<Rightarrow> bool" where
  "edits_nothing d \<longleftrightarrow> ed_ownerName d = None \<and> ed_businessName d = None \<and> ed_address d = None \<and> ed_city d = None \<and>
     ed_country d = None \<and> ed_logo d = None"

definition edited_store :: "store_edit \<Rightarrow> store_row \<Rightarrow> store_row" where
  "edited_store d r = r\<lparr>st_ownerName := given (ed_ownerName d) (st_ownerName r),
     st_businessName := given (ed_businessName d) (st_businessName r), st_address := given (ed_address d) (st_address r),
     st_city := given (ed_city d) (st_city r), st_country := given (ed_country d) (st_country r),
     st_logo := given (ed_logo d) (st_logo r)\<rparr>"

definition update_store :: "string \<Rightarrow> store_edit \<Rightarrow> ('a salary_db_scheme, unit) act" where
  "update_store user d = bnd (requireOwner user) (\<lambda>a.
     andthen (require (\<not> (edits_nothing d \<and> ed_currency d = None)) (BadRequest ''Provide at least one field to update''))
     (andthen (case ed_currency d of None \<Rightarrow> ret () | Some c \<Rightarrow>
        bnd (reading (find_store (ax_store a))) (\<lambda>current. bnd (found current (NotFound ''Store not found'')) (\<lambda>r.
          require (js_upper c = st_currency r) (Conflict ''Store currency is fixed at creation to preserve accounting history''))))
      (writing (\<lambda>s. s\<lparr>store_rows := map (\<lambda>r. if st_id r = ax_store a then edited_store d r else r) (store_rows s)\<rparr>))))"

definition owned_store :: "string \<Rightarrow> string \<Rightarrow> 'a access_db_scheme \<Rightarrow> store_row option" where
  "owned_store user i s = find (\<lambda>r. st_id r = i \<and> st_owner r = user) (store_rows s)"

definition select_store :: "string \<Rightarrow> string \<Rightarrow> ('a access_db_scheme, store_row) act" where
  "select_store user i = bnd (reading (owned_store user i)) (\<lambda>store.
     bnd (found store (NotFound ''Store not found'')) (\<lambda>r.
     andthen (writing (set_active_store user (Some (st_id r)))) (ret r)))"

definition findCurrent :: "string \<Rightarrow> ('a access_db_scheme, store_row) act" where
  "findCurrent user = bnd (requireOwner user) (\<lambda>a.
     bnd (reading (find_store (ax_store a))) (\<lambda>r. found r (NotFound ''Store not found'')))"

definition list_stores :: "string \<Rightarrow> ('a access_db_scheme, (store_row \<times> bool) list) act" where
  "list_stores user = bnd (requireOwner user) (\<lambda>_. reading (\<lambda>s.
     map (\<lambda>r. (r, (case find_user user s of None \<Rightarrow> False | Some x \<Rightarrow> us_activeStore x = Some (st_id r)))) (stores_of user s)))"

text \<open>
  Deleting a store cascades over its rows and clears the selection of its users. A role, a profile,
  a salary and an expense only refer to rows of their own store, so no other reference is to clear.
\<close>

definition drop_store :: "string \<Rightarrow> 'a salary_db_scheme \<Rightarrow> 'a salary_db_scheme" where
  "drop_store i s = s\<lparr>
     store_rows := filter (\<lambda>r. st_id r \<noteq> i) (store_rows s),
     role_rows := filter (\<lambda>r. rl_store r \<noteq> i) (role_rows s),
     staff_rows := filter (\<lambda>f. sf_store f \<noteq> i) (staff_rows s),
     profiles := filter (\<lambda>p. staff_store (pf_staff p) s \<noteq> Some i) (profiles s),
     salaries := filter (\<lambda>p. staff_store (sp_staff p) s \<noteq> Some i) (salaries s),
     categories := filter (\<lambda>c. ct_store c \<noteq> i) (categories s),
     salary_expenses := filter (\<lambda>e. ex_store e \<noteq> i) (salary_expenses s),
     receipts := filter (\<lambda>r. ra_store r \<noteq> i) (receipts s),
     user_rows := map (\<lambda>x. if us_activeStore x = Some i then x\<lparr>us_activeStore := None\<rparr> else x) (user_rows s)\<rparr>"

definition remove_store :: "string \<Rightarrow> string \<Rightarrow> ('a salary_db_scheme, unit) act" where
  "remove_store user i = bnd (reading (owned_store user i)) (\<lambda>store.
     andthen (require (store \<noteq> None) (NotFound ''Store not found''))
     (transaction (
        bnd (reading (store_count user)) (\<lambda>n.
        andthen (require (1 < n) (BadRequest ''Cannot delete your only store; use Delete Account instead''))
        (bnd (reading (owned_store user i)) (\<lambda>again.
         andthen (require (again \<noteq> None) (NotFound ''Store not found''))
         (andthen (writing (drop_store i))
         (bnd (reading (find_user user)) (\<lambda>x.
          if (case x of None \<Rightarrow> True | Some x \<Rightarrow> us_activeStore x = None \<or> us_activeStore x = Some i)
          then bnd (reading (stores_of user)) (\<lambda>rest.
            andthen (require (x \<noteq> None) (Internal ''Record to update not found''))
              (writing (set_active_store user (case rest of [] \<Rightarrow> None | r # _ \<Rightarrow> Some (st_id r)))))
          else ret ())))))))))"

section \<open>Roles\<close>

record role_dto =
  nr_name :: string
  nr_description :: "string option"
  nr_permissions :: "string list"

definition role_named :: "string \<Rightarrow> string \<Rightarrow> 'a access_db_scheme \<Rightarrow> role_row option" where
  "role_named store name s = find (\<lambda>r. rl_store r = store \<and> rl_name r = name) (role_rows s)"

definition staff_count :: "string \<Rightarrow> 'a access_db_scheme \<Rightarrow> nat" where
  "staff_count role s = length (filter (\<lambda>f. sf_role f = Some role) (staff_rows s))"

definition list_roles :: "string \<Rightarrow> ('a access_db_scheme, (role_row \<times> nat) list) act" where
  "list_roles user = bnd (requireOwner user) (\<lambda>a. reading (\<lambda>s.
     map (\<lambda>r. (r, staff_count (rl_id r) s)) (filter (\<lambda>r. rl_store r = ax_store a) (role_rows s))))"

definition create_role :: "string \<Rightarrow> role_dto \<Rightarrow> ('a salary_db_scheme, role_row) act" where
  "create_role user d = bnd (requireOwner user) (\<lambda>a.
     bnd (reading (role_named (ax_store a) (nr_name d))) (\<lambda>existing.
     andthen (require (existing = None) (Conflict ''A role with this name already exists''))
     (bnd new_uuid (\<lambda>i. let r = \<lparr>rl_id = i, rl_store = ax_store a, rl_name = nr_name d, rl_description = nr_description d,
         rl_permissions = nr_permissions d, rl_system = False\<rparr> in
       andthen (writing (\<lambda>s. s\<lparr>role_rows := role_rows s @ [r]\<rparr>)) (ret r)))))"

definition requireRole :: "string \<Rightarrow> string \<Rightarrow> ('a access_db_scheme, role_row) act" where
  "requireRole store role = bnd (reading (\<lambda>s. find (\<lambda>r. rl_id r = role \<and> rl_store r = store) (role_rows s))) (\<lambda>r.
     found r (NotFound ''Role not found''))"

record role_edit =
  er_name :: "string option"
  er_description :: "string option option"
  er_permissions :: "string list option"

definition edited_role :: "role_edit \<Rightarrow> role_row \<Rightarrow> role_row" where
  "edited_role d r = r\<lparr>rl_name := given (er_name d) (rl_name r), rl_description := given (er_description d) (rl_description r),
     rl_permissions := given (er_permissions d) (rl_permissions r)\<rparr>"

definition update_role :: "string \<Rightarrow> string \<Rightarrow> role_edit \<Rightarrow> ('a access_db_scheme, role_row) act" where
  "update_role user i d = bnd (requireOwner user) (\<lambda>a.
     bnd (requireRole (ax_store a) i) (\<lambda>role.
     andthen (case er_name d of None \<Rightarrow> ret () | Some name \<Rightarrow>
         if name \<noteq> [] \<and> name \<noteq> rl_name role then
           bnd (reading (role_named (ax_store a) name)) (\<lambda>clash.
             require (clash = None) (Conflict ''A role with this name already exists''))
         else ret ())
     (bnd (reading (\<lambda>s. list_ex (\<lambda>r. rl_id r \<noteq> i \<and> rl_store r = ax_store a \<and> rl_name r = rl_name (edited_role d role)) (role_rows s))) (\<lambda>taken.
      andthen (require (\<not> taken) (Conflict ''A role with this name already exists''))
      (andthen (writing (\<lambda>s. s\<lparr>role_rows := map (\<lambda>r. if rl_id r = i then edited_role d r else r) (role_rows s)\<rparr>))
        (ret (edited_role d role)))))))"

definition remove_role :: "string \<Rightarrow> string \<Rightarrow> ('a access_db_scheme, unit) act" where
  "remove_role user i = bnd (requireOwner user) (\<lambda>a.
     bnd (requireRole (ax_store a) i) (\<lambda>role.
     andthen (require (\<not> rl_system role) (Conflict ''System roles cannot be deleted''))
     (bnd (reading (staff_count i)) (\<lambda>n.
      andthen (require (n = 0) (Conflict ''This role is still assigned to staff members. Reassign them before deleting it.''))
        (writing (\<lambda>s. s\<lparr>role_rows := filter (\<lambda>r. rl_id r \<noteq> i) (role_rows s)\<rparr>))))))"

section \<open>Staff\<close>

record staff_dto =
  nf_name :: string
  nf_phone :: string
  nf_password :: string
  nf_jobTitle :: "string option"
  nf_photo :: "string option"
  nf_role :: "string option"
  nf_overrides :: "string list option"
  nf_status :: "staff_status option"
  nf_salary :: "salary_dto option"

definition requireRoleInStore :: "string \<Rightarrow> string \<Rightarrow> ('a access_db_scheme, unit) act" where
  "requireRoleInStore store role = bnd (reading (\<lambda>s. find (\<lambda>r. rl_id r = role \<and> rl_store r = store) (role_rows s))) (\<lambda>r.
     require (r \<noteq> None) (NotFound ''Role not found''))"

definition phone_taken :: "string \<Rightarrow> 'a access_db_scheme \<Rightarrow> bool" where
  "phone_taken phone s = list_ex (\<lambda>x. us_phone x = phone) (user_rows s)"

definition staff_salary_data :: "intl \<Rightarrow> string \<Rightarrow> salary_dto option \<Rightarrow> profile_row option \<Rightarrow> error + profile_row option" where
  "staff_salary_data intl staff salary existing = (case salary of None \<Rightarrow> Inr None
     | Some d \<Rightarrow> map_sum id Some (salaryProfileData intl staff d existing))"

definition new_staff_user :: "string \<Rightarrow> string \<Rightarrow> staff_dto \<Rightarrow> user_row" where
  "new_staff_user i hash d = \<lparr>us_id = i, us_phone = nf_phone d, us_passwordHash = hash, us_onboarded = True, us_activeStore = None\<rparr>"

definition new_staff :: "string \<Rightarrow> string \<Rightarrow> string \<Rightarrow> staff_dto \<Rightarrow> staff_row" where
  "new_staff i user store d = \<lparr>sf_id = i, sf_user = user, sf_store = store, sf_name = nf_name d, sf_jobTitle = nf_jobTitle d,
     sf_photo = nf_photo d, sf_status = given (nf_status d) STAFF_ACTIVE, sf_role = nf_role d,
     sf_overrides = given (nf_overrides d) [], sf_lastActive = None\<rparr>"

text \<open>The user, the staff row and its salary profile are one nested insert.\<close>

definition create_staff :: "intl \<Rightarrow> (string \<Rightarrow> string) \<Rightarrow> string \<Rightarrow> staff_dto \<Rightarrow> ('a salary_db_scheme, staff_row) act" where
  "create_staff intl hash user d = bnd (requireOwner user) (\<lambda>a.
     bnd (reading (phone_taken (nf_phone d))) (\<lambda>taken.
     andthen (require (\<not> taken) (Conflict ''This phone number is already registered''))
     (andthen (case nf_role d of None \<Rightarrow> ret () | Some r \<Rightarrow> requireRoleInStore (ax_store a) r)
     (transaction (bnd new_uuid (\<lambda>u. bnd new_uuid (\<lambda>i.
        bnd (lift_sum (staff_salary_data intl i (nf_salary d) None)) (\<lambda>profile.
        let f = new_staff i u (ax_store a) d in
        andthen (writing (\<lambda>s. s\<lparr>user_rows := user_rows s @ [new_staff_user u (hash (nf_password d)) d],
            staff_rows := staff_rows s @ [f],
            profiles := profiles s @ (case profile of None \<Rightarrow> [] | Some p \<Rightarrow> [p])\<rparr>)) (ret f)))))))))"

record staff_edit =
  ef_name :: "string option"
  ef_phone :: "string option"
  ef_password :: "string option"
  ef_jobTitle :: "string option option"
  ef_photo :: "string option option"
  ef_role :: "string option option"
  ef_overrides :: "string list option"
  ef_status :: "staff_status option"
  ef_salary :: "salary_dto option"

definition edited_staff :: "staff_edit \<Rightarrow> staff_row \<Rightarrow> staff_row" where
  "edited_staff d f = f\<lparr>sf_name := given (ef_name d) (sf_name f), sf_jobTitle := given (ef_jobTitle d) (sf_jobTitle f),
     sf_photo := given (ef_photo d) (sf_photo f), sf_role := given (ef_role d) (sf_role f),
     sf_overrides := given (ef_overrides d) (sf_overrides f), sf_status := given (ef_status d) (sf_status f)\<rparr>"

definition edited_staff_user :: "(string \<Rightarrow> string) \<Rightarrow> staff_edit \<Rightarrow> user_row \<Rightarrow> user_row" where
  "edited_staff_user hash d x = x\<lparr>us_phone := given (ef_phone d) (us_phone x),
     us_passwordHash := given (map_option hash (ef_password d)) (us_passwordHash x)\<rparr>"

definition check_new_phone :: "staff_edit \<Rightarrow> user_row \<Rightarrow> ('a access_db_scheme, unit) act" where
  "check_new_phone d x = (case ef_phone d of None \<Rightarrow> ret () | Some phone \<Rightarrow>
     if phone \<noteq> us_phone x then bnd (reading (phone_taken phone)) (\<lambda>taken.
       require (\<not> taken) (Conflict ''This phone number is already registered'')) else ret ())"

definition check_new_role :: "string \<Rightarrow> staff_edit \<Rightarrow> ('a access_db_scheme, unit) act" where
  "check_new_role store d = (case ef_role d of Some (Some r) \<Rightarrow> requireRoleInStore store r | _ \<Rightarrow> ret ())"

text \<open>The transaction of the edit: the salary profile, the staff row and its user.\<close>

definition save_staff :: "intl \<Rightarrow> (string \<Rightarrow> string) \<Rightarrow> string \<Rightarrow> staff_row \<Rightarrow> staff_edit \<Rightarrow> ('a salary_db_scheme, staff_row) act" where
  "save_staff intl hash store f d = andthen (lockStaff store (sf_id f))
     (bnd (reading (\<lambda>s. if ef_salary d = None then None else find_profile (sf_id f) s)) (\<lambda>existing.
      bnd (lift_sum (staff_salary_data intl (sf_id f) (ef_salary d) existing)) (\<lambda>profile.
      andthen (case profile of None \<Rightarrow> ret () | Some p \<Rightarrow> writing (upsert_profile p))
      (andthen (writing (\<lambda>s. update_user (sf_user f) (edited_staff_user hash d)
         (s\<lparr>staff_rows := map (\<lambda>g. if sf_id g = sf_id f then edited_staff d g else g) (staff_rows s)\<rparr>)))
        (ret (edited_staff d f))))))"

definition update_staff :: "intl \<Rightarrow> (string \<Rightarrow> string) \<Rightarrow> string \<Rightarrow> string \<Rightarrow> staff_edit \<Rightarrow> ('a salary_db_scheme, staff_row) act" where
  "update_staff intl hash user i d = bnd (requireOwner user) (\<lambda>a.
     bnd (requireStaff (ax_store a) i) (\<lambda>f.
     bnd (reading (find_user (sf_user f))) (\<lambda>x. bnd (found x (Internal ''Inconsistent query result'')) (\<lambda>x.
     andthen (check_new_phone d x)
     (andthen (check_new_role (ax_store a) d)
     (transaction (save_staff intl hash (ax_store a) f d)))))))"

definition set_staff_status :: "string \<Rightarrow> string \<Rightarrow> staff_status \<Rightarrow> ('a salary_db_scheme, unit) act" where
  "set_staff_status user i st = bnd (requireOwner user) (\<lambda>a.
     andthen (requireStaff (ax_store a) i)
     (transaction (andthen (lockStaff (ax_store a) i)
       (writing (\<lambda>s. s\<lparr>staff_rows := map (\<lambda>g. if sf_id g = i then g\<lparr>sf_status := st\<rparr> else g) (staff_rows s)\<rparr>)))))"

record staff_view =
  tv_staff :: staff_row
  tv_phone :: "string option"
  tv_role :: "(string \<times> string) option"
  tv_effective :: "string list"
  tv_hasOverrides :: bool
  tv_overrides :: "string list"
  tv_profile :: "profile_row option"

definition toStaffDetailResponse :: "staff_row \<Rightarrow> 'a salary_db_scheme \<Rightarrow> staff_view" where
  "toStaffDetailResponse f s = \<lparr>tv_staff = f, tv_phone = map_option us_phone (find_user (sf_user f) s),
     tv_role = (case sf_role f of None \<Rightarrow> None | Some i \<Rightarrow> map_option (\<lambda>r. (rl_id r, rl_name r)) (find_role i s)),
     tv_effective = resolvePermissions (role_permissions f s) (sf_overrides f), tv_hasOverrides = (sf_overrides f \<noteq> []),
     tv_overrides = resolvePermissions [] (sf_overrides f), tv_profile = find_profile (sf_id f) s\<rparr>"

definition staff_details :: "string \<Rightarrow> string \<Rightarrow> ('a salary_db_scheme, staff_view) act" where
  "staff_details user i = bnd (requireOwner user) (\<lambda>a.
     bnd (requireStaff (ax_store a) i) (\<lambda>f. reading (toStaffDetailResponse f)))"

text \<open>\<open>contains\<close> of a query, with and without regard to the case of letters.\<close>

fun has_part :: "string \<Rightarrow> string \<Rightarrow> bool" where
  "has_part p [] \<longleftrightarrow> p = []"
| "has_part p (c # cs) \<longleftrightarrow> starts_with p (c # cs) \<or> has_part p cs"

definition staff_matches :: "string \<Rightarrow> staff_status option \<Rightarrow> string option \<Rightarrow> 'a access_db_scheme \<Rightarrow> staff_row \<Rightarrow> bool" where
  "staff_matches store st search s f \<longleftrightarrow> sf_store f = store \<and> (st = None \<or> st = Some (sf_status f)) \<and>
     (case search of None \<Rightarrow> True | Some q \<Rightarrow> q = [] \<or> has_part (js_upper q) (js_upper (sf_name f)) \<or>
        (case find_user (sf_user f) s of None \<Rightarrow> False | Some x \<Rightarrow> has_part q (us_phone x)))"

text \<open>The page, newest first, the number of matches and the number of active members of the store.\<close>

definition list_staff ::
  "string \<Rightarrow> staff_status option \<Rightarrow> string option \<Rightarrow> nat \<Rightarrow> nat \<Rightarrow> ('a salary_db_scheme, staff_row list \<times> nat \<times> nat) act" where
  "list_staff user st search page limit = bnd (requireOwner user) (\<lambda>a. reading (\<lambda>s.
     let rows = filter (staff_matches (ax_store a) st search s) (staff_rows s) in
     (take limit (drop ((page - 1) * limit) (rev rows)), length rows,
      length (filter (\<lambda>f. sf_store f = ax_store a \<and> sf_status f = STAFF_ACTIVE) (staff_rows s)))))"

section \<open>Well-formed tenants\<close>

definition row_ids :: "'a access_db_scheme \<Rightarrow> string set" where
  "row_ids s = us_id ` set (user_rows s) \<union> st_id ` set (store_rows s) \<union> rl_id ` set (role_rows s) \<union> sf_id ` set (staff_rows s)"

definition tenant_keys :: "'a salary_db_scheme \<Rightarrow> bool" where
  "tenant_keys s \<longleftrightarrow> access_keys s \<and> distinct (map us_phone (user_rows s)) \<and>
     distinct (map (\<lambda>q. (rl_store q, rl_name q)) (role_rows s)) \<and> (\<forall>n \<ge> uuid_next s. uuid n \<notin> row_ids s)"

text \<open>A store has an owner who is nobody's staff, a role to assign, a salary category and an account.\<close>

definition store_ok :: "'a salary_db_scheme \<Rightarrow> store_row \<Rightarrow> bool" where
  "store_ok s r \<longleftrightarrow> st_owner r \<in> us_id ` set (user_rows s) \<and> st_owner r \<notin> sf_user ` set (staff_rows s) \<and>
     (\<exists>q \<in> set (role_rows s). rl_store q = st_id r \<and> rl_system q) \<and> has_category (st_id r) s \<and>
     st_owner r \<in> sb_user ` set (subs s)"

definition role_at :: "'a access_db_scheme \<Rightarrow> string \<Rightarrow> string \<Rightarrow> bool" where
  "role_at s store i \<longleftrightarrow> (\<exists>q \<in> set (role_rows s). rl_id q = i \<and> rl_store q = store)"

definition staff_ok :: "'a access_db_scheme \<Rightarrow> staff_row \<Rightarrow> bool" where
  "staff_ok s f \<longleftrightarrow> sf_user f \<in> us_id ` set (user_rows s) \<and> sf_store f \<in> st_id ` set (store_rows s) \<and>
     (\<forall>i. sf_role f = Some i \<longrightarrow> role_at s (sf_store f) i)"

definition user_ok :: "'a access_db_scheme \<Rightarrow> user_row \<Rightarrow> bool" where
  "user_ok s x \<longleftrightarrow> (\<forall>i. us_activeStore x = Some i \<longrightarrow> (\<exists>r \<in> set (store_rows s). st_id r = i \<and> st_owner r = us_id x))"

definition tenant_ok :: "'a salary_db_scheme \<Rightarrow> bool" where
  "tenant_ok s \<longleftrightarrow> tenant_keys s \<and> (\<forall>r \<in> set (store_rows s). store_ok s r) \<and> (\<forall>f \<in> set (staff_rows s). staff_ok s f) \<and>
     (\<forall>x \<in> set (user_rows s). user_ok s x) \<and> (\<forall>q \<in> set (role_rows s). rl_store q \<in> st_id ` set (store_rows s))"

text \<open>What belongs to the other owners: their stores, and the rows of these stores.\<close>

definition others :: "string \<Rightarrow> 'a access_db_scheme \<Rightarrow> string set" where
  "others u s = st_id ` set (filter (\<lambda>r. st_owner r \<noteq> u) (store_rows s))"

definition foreign :: "string \<Rightarrow> 'a salary_db_scheme \<Rightarrow>
    store_row list \<times> role_row list \<times> staff_row list \<times> category_row list \<times> profile_row list" where
  "foreign u s = (filter (\<lambda>r. st_owner r \<noteq> u) (store_rows s), filter (\<lambda>q. rl_store q \<in> others u s) (role_rows s),
     filter (\<lambda>f. sf_store f \<in> others u s) (staff_rows s), filter (\<lambda>c. ct_store c \<in> others u s) (categories s),
     filter (\<lambda>p. \<exists>f \<in> set (staff_rows s). sf_id f = pf_staff p \<and> sf_store f \<in> others u s) (profiles s))"

text \<open>The users who neither are \<open>u\<close> nor work for him.\<close>

definition outsiders :: "string \<Rightarrow> 'a access_db_scheme \<Rightarrow> user_row set" where
  "outsiders u s = {x \<in> set (user_rows s). us_id x \<noteq> u \<and>
     (\<forall>f \<in> set (staff_rows s). sf_user f = us_id x \<longrightarrow> sf_store f \<in> others u s)}"

definition own_step :: "string \<Rightarrow> 'a salary_db_scheme \<Rightarrow> 'a salary_db_scheme \<Rightarrow> bool" where
  "own_step u s t \<longleftrightarrow> tenant_ok t \<and> foreign u t = foreign u s \<and> outsiders u s \<subseteq> outsiders u t"

lemma own_refl: "tenant_ok s \<Longrightarrow> own_step u s s"
  by (simp add: own_step_def)

lemma own_trans: "own_step u r s \<Longrightarrow> own_step u s t \<Longrightarrow> own_step u r t"
  by (auto simp: own_step_def)

lemma tenantD:
  assumes "tenant_ok s"
  shows "access_keys s" "distinct (map us_phone (user_rows s))" "distinct (map (\<lambda>q. (rl_store q, rl_name q)) (role_rows s))"
    "uuid_next s \<le> n \<Longrightarrow> uuid n \<notin> row_ids s"
    "r \<in> set (store_rows s) \<Longrightarrow> store_ok s r" "f \<in> set (staff_rows s) \<Longrightarrow> staff_ok s f"
    "x \<in> set (user_rows s) \<Longrightarrow> user_ok s x" "q \<in> set (role_rows s) \<Longrightarrow> rl_store q \<in> st_id ` set (store_rows s)"
  using assms unfolding tenant_ok_def tenant_keys_def by blast+

lemma tenantI:
  assumes "access_keys s" "distinct (map us_phone (user_rows s))" "distinct (map (\<lambda>q. (rl_store q, rl_name q)) (role_rows s))"
    "\<And>n. uuid_next s \<le> n \<Longrightarrow> uuid n \<notin> row_ids s"
    "\<And>r. r \<in> set (store_rows s) \<Longrightarrow> store_ok s r" "\<And>f. f \<in> set (staff_rows s) \<Longrightarrow> staff_ok s f"
    "\<And>x. x \<in> set (user_rows s) \<Longrightarrow> user_ok s x" "\<And>q. q \<in> set (role_rows s) \<Longrightarrow> rl_store q \<in> st_id ` set (store_rows s)"
  shows "tenant_ok s"
  unfolding tenant_ok_def tenant_keys_def by (intro conjI ballI allI impI assms)

lemma map_key: "(\<And>x. x \<in> set xs \<Longrightarrow> k (g x) = k x) \<Longrightarrow> map k (map g xs) = map k xs"
  by simp

lemma image_key: "(\<And>x. x \<in> set xs \<Longrightarrow> k (g x) = k x) \<Longrightarrow> k ` set (map g xs) = k ` set xs"
  by (simp add: image_image)

lemma filter_map_frame:
  "(\<And>x. x \<in> set xs \<Longrightarrow> P x \<Longrightarrow> g x = x) \<Longrightarrow> (\<And>x. x \<in> set xs \<Longrightarrow> \<not> P x \<Longrightarrow> \<not> P (g x)) \<Longrightarrow> filter P (map g xs) = filter P xs"
  by (induction xs) auto

lemma same_store: "access_keys s \<Longrightarrow> r \<in> set (store_rows s) \<Longrightarrow> q \<in> set (store_rows s) \<Longrightarrow> st_id r = st_id q \<Longrightarrow> r = q"
  by (auto simp: access_keys_def distinct_map inj_on_def)

lemma not_others: "access_keys s \<Longrightarrow> r \<in> set (store_rows s) \<Longrightarrow> st_owner r = u \<Longrightarrow> st_id r \<notin> others u s"
  unfolding others_def using same_store by fastforce

text \<open>Edits that keep the keys of every row.\<close>


lemma tenant_map:
  assumes ok: "tenant_ok s"
    and rows: "user_rows t = map fu (user_rows s)" "store_rows t = map fs (store_rows s)" "role_rows t = map fr (role_rows s)"
      "staff_rows t = map ff (staff_rows s)"
    and keys: "\<And>x. us_id (fu x) = us_id x" "\<And>r. st_id (fs r) = st_id r" "\<And>r. st_owner (fs r) = st_owner r"
      "\<And>q. rl_id (fr q) = rl_id q" "\<And>q. rl_store (fr q) = rl_store q" "\<And>q. rl_system (fr q) = rl_system q"
      "\<And>f. sf_id (ff f) = sf_id f" "\<And>f. sf_user (ff f) = sf_user f" "\<And>f. sf_store (ff f) = sf_store f"
    and uniq: "distinct (map us_phone (user_rows t))" "distinct (map (\<lambda>q. (rl_store q, rl_name q)) (role_rows t))"
    and refs: "\<And>f i. f \<in> set (staff_rows s) \<Longrightarrow> sf_role (ff f) = Some i \<Longrightarrow> role_at s (sf_store f) i"
      "\<And>x. x \<in> set (user_rows s) \<Longrightarrow> user_ok s (fu x)"
    and rest: "set (categories s) \<subseteq> set (categories t)" "sb_user ` set (subs s) \<subseteq> sb_user ` set (subs t)" "uuid_next s \<le> uuid_next t"
  shows "tenant_ok t"
proof -
  have ids: "us_id ` set (user_rows t) = us_id ` set (user_rows s)" "st_id ` set (store_rows t) = st_id ` set (store_rows s)"
    "rl_id ` set (role_rows t) = rl_id ` set (role_rows s)" "sf_id ` set (staff_rows t) = sf_id ` set (staff_rows s)"
    "sf_user ` set (staff_rows t) = sf_user ` set (staff_rows s)"
    by (simp_all add: rows keys image_image)
  have role: "role_at t store i = role_at s store i" for store i by (simp add: role_at_def rows keys)
  show ?thesis
  proof (rule tenantI)
    show "access_keys t" using tenantD(1)[OF ok] by (simp add: access_keys_def rows comp_def keys)
    show "uuid n \<notin> row_ids t" if "uuid_next t \<le> n" for n
      using tenantD(4)[OF ok, of n] that rest(3) by (simp add: row_ids_def ids)
    show "store_ok t r" if r: "r \<in> set (store_rows t)" for r
    proof -
      from r obtain q where q: "q \<in> set (store_rows s)" "st_id r = st_id q" "st_owner r = st_owner q" by (auto simp: rows keys)
      have "\<exists>q \<in> set (role_rows t). rl_store q = st_id r \<and> rl_system q"
        using tenantD(5)[OF ok q(1)] by (auto simp: store_ok_def rows keys q)
      then show ?thesis using tenantD(5)[OF ok q(1)] rest(1,2) by (auto simp: store_ok_def ids q has_category_def)
    qed
    show "staff_ok t f" if "f \<in> set (staff_rows t)" for f
      using that tenantD(6)[OF ok] refs(1) by (auto simp: rows(4) staff_ok_def ids keys role)
    show "user_ok t x" if "x \<in> set (user_rows t)" for x
    proof -
      from that obtain y where y: "y \<in> set (user_rows s)" "x = fu y" by (auto simp: rows)
      show ?thesis using refs(2)[OF y(1)] by (force simp: user_ok_def y(2) rows(2) keys)
    qed
    show "rl_store q \<in> st_id ` set (store_rows t)" if "q \<in> set (role_rows t)" for q
      using that tenantD(8)[OF ok] by (auto simp: ids) (auto simp: rows keys)
  qed (use uniq in simp_all)
qed

lemma foreign_map:
  assumes rows: "user_rows t = map fu (user_rows s)" "store_rows t = map fs (store_rows s)" "role_rows t = map fr (role_rows s)"
      "staff_rows t = map ff (staff_rows s)"
    and keys: "\<And>x. us_id (fu x) = us_id x" "\<And>r. st_id (fs r) = st_id r" "\<And>r. st_owner (fs r) = st_owner r"
      "\<And>q. rl_store (fr q) = rl_store q" "\<And>f. sf_id (ff f) = sf_id f" "\<And>f. sf_user (ff f) = sf_user f" "\<And>f. sf_store (ff f) = sf_store f"
    and same: "\<And>r. r \<in> set (store_rows s) \<Longrightarrow> st_owner r \<noteq> u \<Longrightarrow> fs r = r"
      "\<And>q. q \<in> set (role_rows s) \<Longrightarrow> rl_store q \<in> others u s \<Longrightarrow> fr q = q"
      "\<And>f. f \<in> set (staff_rows s) \<Longrightarrow> sf_store f \<in> others u s \<Longrightarrow> ff f = f" "\<And>x. x \<in> outsiders u s \<Longrightarrow> fu x = x"
    and rest: "categories t = categories s"
      "filter (\<lambda>p. \<exists>f \<in> set (staff_rows s). sf_id f = pf_staff p \<and> sf_store f \<in> others u s) (profiles t) =
       filter (\<lambda>p. \<exists>f \<in> set (staff_rows s). sf_id f = pf_staff p \<and> sf_store f \<in> others u s) (profiles s)"
  shows "foreign u t = foreign u s \<and> outsiders u s \<subseteq> outsiders u t"
proof -
  have st: "filter (\<lambda>r. st_owner r \<noteq> u) (store_rows t) = filter (\<lambda>r. st_owner r \<noteq> u) (store_rows s)"
    unfolding rows by (rule filter_map_frame) (use same(1) keys in auto)
  then have o: "others u t = others u s" by (simp add: others_def)
  have "filter (\<lambda>q. rl_store q \<in> others u s) (role_rows t) = filter (\<lambda>q. rl_store q \<in> others u s) (role_rows s)"
    "filter (\<lambda>f. sf_store f \<in> others u s) (staff_rows t) = filter (\<lambda>f. sf_store f \<in> others u s) (staff_rows s)"
    unfolding rows by (rule filter_map_frame; use same(2,3) keys in auto)+
  moreover have "(\<exists>f \<in> set (staff_rows t). sf_id f = i \<and> sf_store f \<in> X) = (\<exists>f \<in> set (staff_rows s). sf_id f = i \<and> sf_store f \<in> X)" for i X
    by (simp add: rows keys)
  ultimately have "foreign u t = foreign u s" using rest by (simp add: foreign_def st o)
  moreover have "outsiders u s \<subseteq> outsiders u t"
  proof
    fix x assume x: "x \<in> outsiders u s"
    then have "fu x = x" by (rule same(4))
    with x show "x \<in> outsiders u t" by (force simp: outsiders_def o rows keys)
  qed
  ultimately show ?thesis by simp
qed

section \<open>The caller\<close>

lemma user_in: "tenant_ok s \<Longrightarrow> r \<in> set (store_rows s) \<Longrightarrow> st_owner r = u \<Longrightarrow> f \<in> set (staff_rows s) \<Longrightarrow> sf_user f \<noteq> u"
  using tenantD(5)[of s r] unfolding store_ok_def by blast

text \<open>Edits of the caller's user row.\<close>

lemma own_update_user:
  assumes "own_step u s0 s" "\<And>x. us_id (g x) = us_id x" "\<And>x. us_phone (g x) = us_phone x"
    "\<And>x. x \<in> set (user_rows s) \<Longrightarrow> us_id x = u \<Longrightarrow> user_ok s (g x)"
  shows "own_step u s0 (update_user u g s)"
proof -
  have ok: "tenant_ok s" using assms(1) by (simp add: own_step_def)
  let ?g = "\<lambda>x. if us_id x = u then g x else x"
  have rows: "user_rows (update_user u g s) = map ?g (user_rows s)" "store_rows (update_user u g s) = map (\<lambda>r. r) (store_rows s)"
    "role_rows (update_user u g s) = map (\<lambda>r. r) (role_rows s)" "staff_rows (update_user u g s) = map (\<lambda>r. r) (staff_rows s)"
    by (simp_all add: update_user_def)
  have phones: "map us_phone (user_rows (update_user u g s)) = map us_phone (user_rows s)" using assms(3) by (simp add: update_user_def)
  have "tenant_ok (update_user u g s)"
    by (rule tenant_map[OF ok rows])
      (use assms tenantD[OF ok] in \<open>auto simp: phones staff_ok_def\<close>, simp_all add: update_user_def)
  moreover have "foreign u (update_user u g s) = foreign u s \<and> outsiders u s \<subseteq> outsiders u (update_user u g s)"
    by (rule foreign_map[OF rows]) (use assms(2) in \<open>simp_all add: outsiders_def update_user_def\<close>)
  ultimately show ?thesis using own_trans[OF assms(1)] by (simp add: own_step_def)
qed

lemma selects_own: "r \<in> set (store_rows s) \<Longrightarrow> st_owner r = us_id x \<Longrightarrow> user_ok s (x\<lparr>us_activeStore := Some (st_id r)\<rparr>)"
  by (auto simp: user_ok_def)

lemma own_healed: assumes "own_step u s0 s" shows "own_step u s0 (healed u s)"
proof (cases "healed u s = s")
  case False
  then obtain x where x: "find_user u s = Some x" "stores_of u s \<noteq> []"
    "healed u s = set_active_store u (Some (st_id (active_of x (stores_of u s)))) s"
    by (auto simp: healed_def split: option.splits if_splits)
  have "active_of x (stores_of u s) \<in> set (stores_of u s)" by (rule active_of_in[OF x(2)])
  then show ?thesis unfolding x(3) set_active_store_def
    by (intro own_update_user[OF assms]) (auto simp: stores_of_def intro: selects_own)
qed (use assms in simp)

definition acts_on :: "string \<Rightarrow> store_access \<Rightarrow> 'a access_db_scheme \<Rightarrow> bool" where
  "acts_on u a s \<longleftrightarrow> (\<exists>r \<in> set (store_rows s). st_id r = ax_store a \<and> st_owner r = u)"

lemma own_owner:
  assumes "own_step u s0 s" "\<And>a t. own_step u s0 t \<Longrightarrow> acts_on u a t \<Longrightarrow> own_step u s0 (snd (f a t))"
  shows "own_step u s0 (snd (bnd (requireOwner u) f s))"
proof (cases "requireOwner u s")
  case (Pair r t)
  show ?thesis
  proof (cases r)
    case (Inl e)
    then have "t = s \<or> t = healed u s"
      using Pair by (auto simp: requireOwner_def bnd_def andthen_def require_def store_require_run ret_def throw_def split: option.splits if_splits)
    with Pair Inl own_healed[OF assms(1)] assms(1) show ?thesis by (auto simp: bnd_def)
  next
    case (Inr a)
    then have t: "t = healed u s" using Pair by (auto dest: requireOwner_run)
    have "acting u s = Some a" "ax_owner a"
      using Pair Inr by (auto simp: requireOwner_def run_ok store_require_run split: option.splits)
    then obtain x where x: "stores_of u s \<noteq> []" "a = owner_access u (active_of x (stores_of u s))"
      by (auto simp: acting_def staff_access_def split: option.splits if_splits)
    have "acts_on u a t" using active_of_in[OF x(1), of x] by (auto simp: t acts_on_def x(2) owner_access_def stores_of_def)
    with assms(2)[OF own_healed[OF assms(1)], of a] show ?thesis by (simp add: Pair Inr t bnd_def)
  qed
qed

lemma acts_in: "acts_on u a s \<Longrightarrow> ax_store a \<in> st_id ` set (store_rows s)"
  by (force simp: acts_on_def)

text \<open>Edits of the rows of the store one acts on.\<close>

lemma own_not_others: "own_step u s0 s \<Longrightarrow> acts_on u a s \<Longrightarrow> ax_store a \<notin> others u s"
  unfolding own_step_def acts_on_def using not_others tenantD(1) by metis

lemma own_edit:
  assumes own: "own_step u s0 s" and on: "acts_on u a s"
    and rows: "user_rows t = map fu (user_rows s)" "store_rows t = map fs (store_rows s)" "role_rows t = map fr (role_rows s)"
      "staff_rows t = map ff (staff_rows s)"
    and keys: "\<And>x. us_id (fu x) = us_id x" "\<And>r. st_id (fs r) = st_id r" "\<And>r. st_owner (fs r) = st_owner r"
      "\<And>q. rl_id (fr q) = rl_id q" "\<And>q. rl_store (fr q) = rl_store q" "\<And>q. rl_system (fr q) = rl_system q"
      "\<And>f. sf_id (ff f) = sf_id f" "\<And>f. sf_user (ff f) = sf_user f" "\<And>f. sf_store (ff f) = sf_store f"
    and uniq: "distinct (map us_phone (user_rows t))" "distinct (map (\<lambda>q. (rl_store q, rl_name q)) (role_rows t))"
    and refs: "\<And>f i. f \<in> set (staff_rows s) \<Longrightarrow> sf_role (ff f) = Some i \<Longrightarrow> role_at s (sf_store f) i"
      "\<And>x. us_activeStore (fu x) = us_activeStore x"
    and mine: "\<And>r. r \<in> set (store_rows s) \<Longrightarrow> fs r \<noteq> r \<Longrightarrow> st_id r = ax_store a"
      "\<And>q. q \<in> set (role_rows s) \<Longrightarrow> fr q \<noteq> q \<Longrightarrow> rl_store q = ax_store a"
      "\<And>f. f \<in> set (staff_rows s) \<Longrightarrow> ff f \<noteq> f \<Longrightarrow> sf_store f = ax_store a"
      "\<And>x. x \<in> set (user_rows s) \<Longrightarrow> fu x \<noteq> x \<Longrightarrow> \<exists>f \<in> set (staff_rows s). sf_user f = us_id x \<and> sf_store f = ax_store a"
    and rest: "categories t = categories s" "subs t = subs s" "uuid_next t = uuid_next s"
    and prof: "\<And>X. filter (\<lambda>p. pf_staff p \<in> X) (profiles t) = filter (\<lambda>p. pf_staff p \<in> X) (profiles s) \<or>
        (\<exists>f \<in> set (staff_rows s). sf_store f = ax_store a \<and> sf_id f \<in> X)"
  shows "own_step u s0 t"
proof -
  have ok: "tenant_ok s" using own by (simp add: own_step_def)
  have no: "ax_store a \<notin> others u s" by (rule own_not_others[OF own on])
  have uid: "user_ok s (fu x)" if "x \<in> set (user_rows s)" for x
    using tenantD(7)[OF ok that] by (simp add: user_ok_def refs(2) keys)
  have "tenant_ok t"
    by (rule tenant_map[OF ok rows keys uniq refs(1) uid]) (simp_all add: rest)
  moreover have "foreign u t = foreign u s \<and> outsiders u s \<subseteq> outsiders u t"
  proof (rule foreign_map[OF rows keys(1-3,5,7-9)])
    let ?X = "{i. \<exists>f \<in> set (staff_rows s). sf_id f = i \<and> sf_store f \<in> others u s}"
    have "\<not> (\<exists>f \<in> set (staff_rows s). sf_store f = ax_store a \<and> sf_id f \<in> ?X)"
      using no tenantD(1)[OF ok] by (auto simp: access_keys_def distinct_map inj_on_def)
    then show "filter (\<lambda>p. \<exists>f \<in> set (staff_rows s). sf_id f = pf_staff p \<and> sf_store f \<in> others u s) (profiles t) =
       filter (\<lambda>p. \<exists>f \<in> set (staff_rows s). sf_id f = pf_staff p \<and> sf_store f \<in> others u s) (profiles s)"
      using prof[of ?X] unfolding mem_Collect_eq by blast
    show "fs r = r" if "r \<in> set (store_rows s)" "st_owner r \<noteq> u" for r
    proof (rule ccontr)
      assume "fs r \<noteq> r"
      then have "st_id r = ax_store a" using mine(1) that by blast
      moreover have "st_id r \<in> others u s" using that by (simp add: others_def)
      ultimately show False using no by simp
    qed
    show "fu x = x" if "x \<in> outsiders u s" for x
      using that mine(4)[of x] no by (cases "fu x = x") (auto simp: outsiders_def)
    show "fr q = q" if "q \<in> set (role_rows s)" "rl_store q \<in> others u s" for q
      using mine(2)[OF that(1)] that(2) no by (cases "fr q = q") auto
    show "ff f = f" if "f \<in> set (staff_rows s)" "sf_store f \<in> others u s" for f
      using mine(3)[OF that(1)] that(2) no by (cases "ff f = f") auto
  qed (rule rest)
  ultimately show ?thesis using own_trans[OF own] by (simp add: own_step_def)
qed

section \<open>New and deleted rows\<close>

lemma own_new_role:
  assumes own: "own_step u s0 s" and on: "acts_on u a s" and free: "role_named (ax_store a) (rl_name r) s = None"
    and r: "rl_id r = uuid (uuid_next s)" "rl_store r = ax_store a"
  shows "own_step u s0 (s\<lparr>uuid_next := Suc (uuid_next s), role_rows := role_rows s @ [r]\<rparr>)" (is "own_step u s0 ?t")
proof -
  have ok: "tenant_ok s" using own by (simp add: own_step_def)
  have fresh: "uuid n \<notin> row_ids s" if "uuid_next s \<le> n" for n by (rule tenantD(4)[OF ok that])
  have "tenant_ok ?t"
  proof (rule tenantI)
    show "access_keys ?t" using tenantD(1)[OF ok] fresh[of "uuid_next s"] by (auto simp: access_keys_def row_ids_def r)
    show "distinct (map (\<lambda>q. (rl_store q, rl_name q)) (role_rows ?t))"
      using tenantD(3)[OF ok] free by (auto simp: role_named_def find_None_set r)
    show "uuid n \<notin> row_ids ?t" if "uuid_next ?t \<le> n" for n
      using fresh[of n] that by (auto simp: row_ids_def r)
    show "store_ok ?t q" if "q \<in> set (store_rows ?t)" for q
      using tenantD(5)[OF ok, of q] that by (auto simp: store_ok_def has_category_def)
    show "staff_ok ?t f" if "f \<in> set (staff_rows ?t)" for f
      using tenantD(6)[OF ok, of f] that by (auto simp: staff_ok_def role_at_def)
    show "user_ok ?t x" if "x \<in> set (user_rows ?t)" for x
      using tenantD(7)[OF ok, of x] that by (auto simp: user_ok_def)
    show "rl_store q \<in> st_id ` set (store_rows ?t)" if "q \<in> set (role_rows ?t)" for q
      using tenantD(8)[OF ok, of q] that acts_in[OF on] by (cases "q = r") (auto simp: r)
  qed (use tenantD(2)[OF ok] in simp)
  moreover have "foreign u ?t = foreign u s" "outsiders u s \<subseteq> outsiders u ?t"
    using own_not_others[OF own on] by (auto simp: foreign_def others_def outsiders_def r)
  ultimately show ?thesis using own_trans[OF own] by (simp add: own_step_def)
qed

lemma own_drop_role:
  assumes own: "own_step u s0 s" and on: "acts_on u a s"
    and q: "q \<in> set (role_rows s)" "rl_id q = i" "rl_store q = ax_store a" "\<not> rl_system q" and free: "staff_count i s = 0"
  shows "own_step u s0 (s\<lparr>role_rows := filter (\<lambda>r. rl_id r \<noteq> i) (role_rows s)\<rparr>)" (is "own_step u s0 ?t")
proof -
  have ok: "tenant_ok s" using own by (simp add: own_step_def)
  have only: "r = q" if "r \<in> set (role_rows s)" "rl_id r = i" for r
    using tenantD(1)[OF ok] that q by (auto simp: access_keys_def distinct_map inj_on_def)
  have free': "sf_role f \<noteq> Some i" if "f \<in> set (staff_rows s)" for f using free that by (auto simp: staff_count_def filter_empty_conv)
  have "tenant_ok ?t"
  proof (rule tenantI)
    show "access_keys ?t" using tenantD(1)[OF ok] by (auto simp: access_keys_def distinct_map_filter)
    show "distinct (map (\<lambda>q. (rl_store q, rl_name q)) (role_rows ?t))"
      using tenantD(3)[OF ok] by (auto simp: distinct_map_filter)
    show "uuid n \<notin> row_ids ?t" if "uuid_next ?t \<le> n" for n
      using tenantD(4)[OF ok, of n] that by (auto simp: row_ids_def)
    show "store_ok ?t r" if r: "r \<in> set (store_rows ?t)" for r
    proof -
      have m: "store_ok s r" using tenantD(5)[OF ok] r by simp
      then obtain z where z: "z \<in> set (role_rows s)" "rl_store z = st_id r" "rl_system z" by (auto simp: store_ok_def)
      then have "rl_id z \<noteq> i" using only q(4) by blast
      with z have "\<exists>z \<in> set (role_rows ?t). rl_store z = st_id r \<and> rl_system z" by auto
      with m show ?thesis by (simp add: store_ok_def has_category_def)
    qed
    show "staff_ok ?t f" if "f \<in> set (staff_rows ?t)" for f
      using tenantD(6)[OF ok, of f] that free' by (auto simp: staff_ok_def role_at_def)
    show "user_ok ?t x" if "x \<in> set (user_rows ?t)" for x
      using tenantD(7)[OF ok, of x] that by (auto simp: user_ok_def)
    show "rl_store q \<in> st_id ` set (store_rows ?t)" if "q \<in> set (role_rows ?t)" for q
      using tenantD(8)[OF ok, of q] that by auto
  qed (use tenantD(2)[OF ok] in simp)
  moreover have "filter (\<lambda>q. rl_store q \<in> others u s) (role_rows ?t) = filter (\<lambda>q. rl_store q \<in> others u s) (role_rows s)"
    unfolding filter_filter select_convs update_convs
    by (simp, rule filter_cong[OF refl]) (use only q(3) own_not_others[OF own on] in auto)
  then have "foreign u ?t = foreign u s" "outsiders u s \<subseteq> outsiders u ?t"
    by (simp_all add: foreign_def others_def outsiders_def)
  ultimately show ?thesis using own_trans[OF own] by (simp add: own_step_def)
qed

lemma own_new_staff:
  assumes own: "own_step u s0 s" and on: "acts_on u a s" and free: "\<not> phone_taken (us_phone x) s"
    and x: "us_id x = uuid (uuid_next s)" "us_activeStore x = None"
    and f: "sf_id f = uuid (Suc (uuid_next s))" "sf_user f = us_id x" "sf_store f = ax_store a"
      "\<And>i. sf_role f = Some i \<Longrightarrow> role_at s (ax_store a) i"
    and ps: "\<And>p. p \<in> set ps \<Longrightarrow> pf_staff p = sf_id f"
  shows "own_step u s0 (s\<lparr>uuid_next := Suc (Suc (uuid_next s)), user_rows := user_rows s @ [x], staff_rows := staff_rows s @ [f],
    profiles := profiles s @ ps\<rparr>)" (is "own_step u s0 ?t")
proof -
  have ok: "tenant_ok s" using own by (simp add: own_step_def)
  have fresh: "uuid n \<notin> row_ids s" if "uuid_next s \<le> n" for n by (rule tenantD(4)[OF ok that])
  have new: "us_id x \<notin> us_id ` set (user_rows s)" "sf_id f \<notin> sf_id ` set (staff_rows s)"
    using fresh[of "uuid_next s"] fresh[of "Suc (uuid_next s)"] by (auto simp: row_ids_def x f)
  have newf: "sf_id g \<noteq> sf_id f" if "g \<in> set (staff_rows s)" for g
    using new(2) imageI[OF that, of sf_id] by metis
  have user: "us_id x \<notin> sf_user ` set (staff_rows s)" using tenantD(6)[OF ok] new(1) by (auto simp: staff_ok_def)
  have owner: "us_id x \<noteq> st_owner r" if "r \<in> set (store_rows s)" for r
    using tenantD(5)[OF ok that] new(1) by (auto simp: store_ok_def)
  have no: "ax_store a \<notin> others u s" by (rule own_not_others[OF own on])
  have "tenant_ok ?t"
  proof (rule tenantI)
    show "access_keys ?t" using tenantD(1)[OF ok] new user by (simp add: access_keys_def f(2))
    show "distinct (map us_phone (user_rows ?t))"
      using tenantD(2)[OF ok] free by (auto simp: phone_taken_def list_ex_iff)
    show "uuid n \<notin> row_ids ?t" if "uuid_next ?t \<le> n" for n
      using fresh[of n] that by (auto simp: row_ids_def x f)
    show "store_ok ?t q" if "q \<in> set (store_rows ?t)" for q
      using tenantD(5)[OF ok, of q] that owner[of q] by (auto simp: store_ok_def has_category_def f(2))
    show "staff_ok ?t g" if "g \<in> set (staff_rows ?t)" for g
      using tenantD(6)[OF ok, of g] that f(2-) acts_in[OF on] by (cases "g = f") (auto simp: staff_ok_def role_at_def)
    show "user_ok ?t y" if "y \<in> set (user_rows ?t)" for y
      using tenantD(7)[OF ok, of y] that x(2) by (auto simp: user_ok_def)
    show "rl_store q \<in> st_id ` set (store_rows ?t)" if "q \<in> set (role_rows ?t)" for q
      using tenantD(8)[OF ok, of q] that by auto
  qed (use tenantD(3)[OF ok] in simp)
  moreover have "filter (\<lambda>p. \<exists>g \<in> set (staff_rows ?t). sf_id g = pf_staff p \<and> sf_store g \<in> others u s) ps = []"
    using ps newf no f(3) by (auto simp: filter_empty_conv)
  then have "foreign u ?t = foreign u s" using no f(3) by (simp add: foreign_def others_def) 
  moreover have "outsiders u s \<subseteq> outsiders u ?t"
    using new(1) by (auto simp: outsiders_def others_def f(2))
  ultimately show ?thesis using own_trans[OF own] by (simp add: own_step_def)
qed

lemma own_new_store:
  assumes own: "own_step u s0 s" and u: "find_user u s \<noteq> None" "staff_by_user u s = None"
    and rows: "store_rows t = store_rows s @ [r]" "role_rows t = role_rows s @ [q]" "staff_rows t = staff_rows s"
      "user_rows t = map (\<lambda>x. if us_id x = u then x\<lparr>us_onboarded := True, us_activeStore := Some (st_id r)\<rparr> else x) (user_rows s)"
      "categories t = categories s @ cs" "profiles t = profiles s"
    and r: "st_id r = uuid (uuid_next s)" "st_owner r = u" and q: "rl_id q = uuid (Suc (uuid_next s))" "rl_store q = st_id r" "rl_system q"
    and cs: "\<And>c. c \<in> set cs \<Longrightarrow> ct_store c = st_id r" "\<exists>c \<in> set cs. ct_group c = ''SALARY''"
    and rest: "sb_user ` set (subs s) \<subseteq> sb_user ` set (subs t)" "u \<in> sb_user ` set (subs t)" "Suc (Suc (uuid_next s)) \<le> uuid_next t"
  shows "own_step u s0 t"
proof -
  have ok: "tenant_ok s" using own by (simp add: own_step_def)
  have fresh: "uuid n \<notin> row_ids s" if "uuid_next s \<le> n" for n by (rule tenantD(4)[OF ok that])
  have new: "st_id r \<notin> st_id ` set (store_rows s)" "rl_id q \<notin> rl_id ` set (role_rows s)"
    using fresh[of "uuid_next s"] fresh[of "Suc (uuid_next s)"] by (auto simp: row_ids_def r q)
  have roles: "st_id r \<notin> rl_store ` set (role_rows s)" using tenantD(8)[OF ok] new(1) by auto
  have ids: "map us_id (user_rows t) = map us_id (user_rows s)" by (simp add: rows)
  then have idset: "us_id ` set (user_rows t) = us_id ` set (user_rows s)" by (metis list.set_map)
  have user: "u \<in> us_id ` set (user_rows s)" "u \<notin> sf_user ` set (staff_rows s)"
    using u by (auto simp: find_user_def staff_by_user_def find_None_set)
  have "tenant_ok t"
  proof (rule tenantI)
    show "access_keys t" using tenantD(1)[OF ok] new by (simp add: access_keys_def ids) (simp add: rows)
    show "distinct (map us_phone (user_rows t))" using tenantD(2)[OF ok] by (simp add: rows comp_def if_distrib[of us_phone] cong: if_cong)
    show "distinct (map (\<lambda>q. (rl_store q, rl_name q)) (role_rows t))"
      using tenantD(3)[OF ok] roles by (auto simp: rows q(2))
    show "uuid n \<notin> row_ids t" if "uuid_next t \<le> n" for n
      using fresh[of n] that rest(3) by (auto simp: row_ids_def idset rows(1-3) r q)
    show "store_ok t z" if z: "z \<in> set (store_rows t)" for z
    proof (cases "z = r")
      case True
      with user cs rest q show ?thesis by (auto simp: store_ok_def idset rows(2,3) r(2) has_category_def rows(5))
    next
      case False
      then have "store_ok s z" using tenantD(5)[OF ok, of z] z by (simp add: rows)
      then show ?thesis using rest(1) by (auto simp: store_ok_def idset rows(2,3) has_category_def rows(5))
    qed
    show "staff_ok t f" if "f \<in> set (staff_rows t)" for f
      using tenantD(6)[OF ok, of f] that by (auto simp: staff_ok_def role_at_def idset rows(1-3))
    show "user_ok t x" if x: "x \<in> set (user_rows t)" for x
    proof -
      obtain y where y: "y \<in> set (user_rows s)"
        "x = (if us_id y = u then y\<lparr>us_onboarded := True, us_activeStore := Some (st_id r)\<rparr> else y)"
        using x unfolding rows by auto
      show ?thesis using tenantD(7)[OF ok y(1)] r(2) by (auto simp: user_ok_def y(2) rows(1))
    qed
    show "rl_store z \<in> st_id ` set (store_rows t)" if "z \<in> set (role_rows t)" for z
      using tenantD(8)[OF ok, of z] that by (cases "z = q") (auto simp: rows q)
  qed
  moreover have others: "others u t = others u s" by (simp add: others_def rows r)
  have "st_id r \<notin> others u s" using new(1) by (auto simp: others_def)
  then have "filter (\<lambda>c. ct_store c \<in> others u s) cs = []" "rl_store q \<notin> others u s"
    using cs(1) q(2) by (auto simp: filter_empty_conv)
  then have "foreign u t = foreign u s" using r(2) unfolding foreign_def others by (simp add: rows)
  moreover have "outsiders u s \<subseteq> outsiders u t"
    unfolding outsiders_def others by (auto simp: rows(3)) (force simp: rows(4))
  ultimately show ?thesis using own_trans[OF own] by (simp add: own_step_def)
qed

text \<open>Deleting one store of several: the selection moves to the oldest store that is left.\<close>

lemma own_drop_store:
  assumes own: "own_step u s0 s" and z: "z \<in> set (store_rows s)" "st_id z = i" "st_owner z = u"
    and rows: "store_rows t = filter (\<lambda>r. st_id r \<noteq> i) (store_rows s)" "role_rows t = filter (\<lambda>r. rl_store r \<noteq> i) (role_rows s)"
      "staff_rows t = filter (\<lambda>f. sf_store f \<noteq> i) (staff_rows s)" "categories t = filter (\<lambda>c. ct_store c \<noteq> i) (categories s)"
      "profiles t = filter (\<lambda>p. staff_store (pf_staff p) s \<noteq> Some i) (profiles s)" "user_rows t = map g (user_rows s)"
    and g: "\<And>x. us_id (g x) = us_id x" "\<And>x. us_phone (g x) = us_phone x"
      "\<And>x. x \<in> set (user_rows s) \<Longrightarrow> us_id x \<noteq> u \<Longrightarrow> us_activeStore x \<noteq> Some i \<Longrightarrow> g x = x"
      "\<And>x. x \<in> set (user_rows s) \<Longrightarrow> us_id x = u \<Longrightarrow> user_ok t (g x)"
    and rest: "subs t = subs s" "uuid_next t = uuid_next s"
  shows "own_step u s0 t"
proof -
  have ok: "tenant_ok s" using own by (simp add: own_step_def)
  note key = tenantD(1)[OF ok]
  have only: "r = z" if "r \<in> set (store_rows s)" "st_id r = i" for r using same_store[OF key that(1) z(1)] that(2) z(2) by simp
  have idset: "us_id ` set (user_rows t) = us_id ` set (user_rows s)" by (simp add: rows g image_image)
  have keep: "g x = x" if x: "x \<in> set (user_rows s)" "us_id x \<noteq> u" for x
  proof (cases "us_activeStore x = Some i")
    case True
    then obtain r where "r \<in> set (store_rows s)" "st_id r = i" "st_owner r = us_id x"
      using tenantD(7)[OF ok x(1)] by (auto simp: user_ok_def)
    with only z(3) x(2) show ?thesis by auto
  qed (use g(3)[OF x] in simp)
  have roles: "role_at t st j" if "role_at s st j" "st \<noteq> i" for st j using that by (force simp: role_at_def rows(2))
  have no: "i \<notin> others u s" using not_others[OF key z(1,3)] z(2) by simp
  have "tenant_ok t"
  proof (rule tenantI)
    show "access_keys t" using key by (auto simp: access_keys_def rows distinct_map_filter comp_def g)
    show "distinct (map us_phone (user_rows t))" using tenantD(2)[OF ok] by (simp add: rows comp_def g)
    show "distinct (map (\<lambda>q. (rl_store q, rl_name q)) (role_rows t))" using tenantD(3)[OF ok] by (simp add: rows distinct_map_filter)
    show "uuid n \<notin> row_ids t" if "uuid_next t \<le> n" for n
      using tenantD(4)[OF ok, of n] that rest(2) by (auto simp: row_ids_def idset rows(1-3))
    show "store_ok t r" if r: "r \<in> set (store_rows t)" for r
      using tenantD(5)[OF ok, of r] r by (auto simp: store_ok_def idset rest rows(1-3) has_category_def rows(4))
    show "staff_ok t f" if f: "f \<in> set (staff_rows t)" for f
      using tenantD(6)[OF ok, of f] f roles by (auto simp: staff_ok_def idset rows(1,3))
    show "user_ok t x" if x: "x \<in> set (user_rows t)" for x
    proof -
      obtain y where y: "y \<in> set (user_rows s)" "x = g y" using x by (auto simp: rows)
      show ?thesis
      proof (cases "us_id y = u")
        case False
        have "\<exists>r \<in> set (store_rows t). st_id r = j \<and> st_owner r = us_id y" if "us_activeStore y = Some j" for j
        proof -
          note m = that
          obtain r where r: "r \<in> set (store_rows s)" "st_id r = j" "st_owner r = us_id y"
            using tenantD(7)[OF ok y(1)] m by (auto simp: user_ok_def)
          then have "j \<noteq> i" using only[OF r(1)] z(3) False by auto
          with r show ?thesis by (auto simp: rows(1))
        qed
        then have "user_ok t y" by (simp add: user_ok_def)
        then show ?thesis using keep[OF y(1) False] y(2) by simp
      qed (use g(4) y in simp)
    qed
    show "rl_store q \<in> st_id ` set (store_rows t)" if "q \<in> set (role_rows t)" for q
      using tenantD(8)[OF ok, of q] that by (auto simp: rows)
  qed
  moreover have f1: "filter (\<lambda>r. st_owner r \<noteq> u) (store_rows t) = filter (\<lambda>r. st_owner r \<noteq> u) (store_rows s)"
    unfolding rows filter_filter by (rule filter_cong[OF refl]) (use only z(3) in auto)
  then have others: "others u t = others u s" by (simp add: others_def)
  have "filter (\<lambda>q. rl_store q \<in> others u s) (role_rows t) = filter (\<lambda>q. rl_store q \<in> others u s) (role_rows s)"
    "filter (\<lambda>f. sf_store f \<in> others u s) (staff_rows t) = filter (\<lambda>f. sf_store f \<in> others u s) (staff_rows s)"
    "filter (\<lambda>c. ct_store c \<in> others u s) (categories t) = filter (\<lambda>c. ct_store c \<in> others u s) (categories s)"
    unfolding rows filter_filter by (rule filter_cong[OF refl]; use no in auto)+
  moreover have "filter (\<lambda>p. \<exists>f \<in> set (staff_rows t). sf_id f = pf_staff p \<and> sf_store f \<in> others u s) (profiles t) =
    filter (\<lambda>p. \<exists>f \<in> set (staff_rows s). sf_id f = pf_staff p \<and> sf_store f \<in> others u s) (profiles s)"
  proof -
    have "find_staff j s = Some f" if "f \<in> set (staff_rows s)" "sf_id f = j" for f j
      unfolding find_staff_def that(2)[symmetric] by (rule find_id) (use key that in \<open>simp_all add: access_keys_def\<close>)
    then show ?thesis unfolding rows filter_filter
      by (intro filter_cong refl) (use no in \<open>auto simp: staff_store_def rows(3)\<close>)
  qed
  ultimately have "foreign u t = foreign u s" unfolding foreign_def others f1 by simp
  moreover have "outsiders u s \<subseteq> outsiders u t"
  proof
    fix x assume x: "x \<in> outsiders u s"
    then have "g x = x" by (intro keep) (simp_all add: outsiders_def)
    then have "x \<in> set (user_rows t)" using x by (force simp: rows(6) outsiders_def)
    then show "x \<in> outsiders u t" using x by (simp add: outsiders_def others rows(3))
  qed
  ultimately show ?thesis using own_trans[OF own] \<open>tenant_ok t\<close> by (simp add: own_step_def)
qed

section \<open>The operations\<close>

lemma own_opened: assumes "own_step u s0 s" shows "own_step u s0 (opened v now s)"
proof -
  have ok: "tenant_ok s" using assms by (simp add: own_step_def)
  have "opened v now s = s\<lparr>subs := subs s @ (if find_sub v s = None then [trial_row v now] else [])\<rparr>" by (simp add: opened_def)
  then obtain bs where o: "opened v now s = s\<lparr>subs := subs s @ bs\<rparr>" by blast
  have "tenant_ok (opened v now s)" unfolding o
    by (rule tenant_map[OF ok, of _ id id id id]) (use tenantD[OF ok] in \<open>auto simp: staff_ok_def\<close>)
  moreover have "foreign u (opened v now s) = foreign u s" "outsiders u (opened v now s) = outsiders u s"
    unfolding o by (simp_all add: foreign_def others_def outsiders_def)
  ultimately have "own_step u s (opened v now s)" by (simp add: own_step_def)
  then show ?thesis by (rule own_trans[OF assms])
qed

lemma own_assertCanCreate: "own_step u s0 s \<Longrightarrow> own_step u s0 (snd (assertCanCreateStore v now s))"
  using own_opened[of u s0 s v now]
  by (auto simp: assertCanCreateStore_def stateForOwner_def startTrial_run act_defs Let_def split: option.split prod.split)

text \<open>What the seeding of a new store leaves.\<close>

lemma seeds_run:
  "\<exists>q. for_each (seed_role i) defaultRoleSeeds s = (Inr (), s\<lparr>uuid_next := Suc (uuid_next s), role_rows := role_rows s @ [q]\<rparr>) \<and>
     rl_id q = uuid (uuid_next s) \<and> rl_store q = i \<and> rl_system q"
  by (simp add: defaultRoleSeeds_def seed_role_def new_uuid_def act_defs) (rule exI, rule conjI, rule refl, simp)

lemma category_seeds_run:
  "\<exists>cs. for_each (seed_category i) defaultExpenseCategorySeeds s =
       (Inr (), s\<lparr>uuid_next := uuid_next s + 5, categories := categories s @ cs\<rparr>) \<and>
     (\<forall>c \<in> set cs. ct_store c = i) \<and> (\<exists>c \<in> set cs. ct_group c = ''SALARY'')"
  by (simp add: defaultExpenseCategorySeeds_def seed_category_def new_uuid_def act_defs eval_nat_numeral)
    (rule exI, rule conjI, rule refl, simp)

lemma create_store_body:
  assumes own: "own_step u s0 s" and u: "staff_by_user u s = None"
    and run: "insert_store u d s = (Inr r, t)"
  shows "own_step u s0 (opened u now t)"
proof -
  have x: "find_user u s \<noteq> None" using run by (auto simp: insert_store_def run_ok)
  let ?i = "uuid (uuid_next s)" and ?a = "s\<lparr>uuid_next := Suc (uuid_next s)\<rparr>"
  let ?b = "?a\<lparr>store_rows := store_rows ?a @ [new_store ?i u d]\<rparr>"
  obtain q where q: "for_each (seed_role ?i) defaultRoleSeeds ?b =
      (Inr (), ?b\<lparr>uuid_next := Suc (uuid_next ?b), role_rows := role_rows ?b @ [q]\<rparr>)"
    "rl_id q = uuid (uuid_next ?b)" "rl_store q = ?i" "rl_system q" by (rule exE[OF seeds_run[of ?i ?b]]) (elim conjE, rule that)
  let ?c = "?b\<lparr>uuid_next := Suc (uuid_next ?b), role_rows := role_rows ?b @ [q]\<rparr>"
  obtain cs where cs: "for_each (seed_category ?i) defaultExpenseCategorySeeds ?c =
      (Inr (), ?c\<lparr>uuid_next := uuid_next ?c + 5, categories := categories ?c @ cs\<rparr>)"
    "\<forall>c \<in> set cs. ct_store c = ?i" "\<exists>c \<in> set cs. ct_group c = ''SALARY''" by (rule exE[OF category_seeds_run[of ?i ?c]]) (elim conjE, rule that)
  let ?d = "?c\<lparr>uuid_next := uuid_next ?c + 5, categories := categories ?c @ cs\<rparr>"
  have new: "new_uuid s = (Inr ?i, ?a)" by (simp add: new_uuid_def act_defs)
  have rd: "reading f z = (Inr (f z), z)" for f :: "'a salary_db_scheme \<Rightarrow> 'b" and z by (simp add: reading_def)
  have wr: "writing f z = (Inr (), f z)" for f and z :: "'a salary_db_scheme" by (simp add: writing_def)
  have rq: "require (find_user u s \<noteq> None) e s = (Inr (), s)" for e using x by (simp add: require_def ret_def)
  have full: "insert_store u d s = (Inr (new_store ?i u d), update_user u (\<lambda>x. x\<lparr>us_onboarded := True, us_activeStore := Some ?i\<rparr>) ?d)"
    unfolding insert_store_def by (simp only: bnd_run andthen_run rd rq new wr q(1) cs(1)) (simp only: ret_def)
  from run[symmetric, unfolded full] have t: "t = update_user u (\<lambda>x. x\<lparr>us_onboarded := True, us_activeStore := Some ?i\<rparr>) ?d"
    by (metis prod.inject)
  have subs: "sb_user ` set (subs s) \<subseteq> sb_user ` set (subs (opened u now t))" "u \<in> sb_user ` set (subs (opened u now t))"
    using find_Some_set[of "\<lambda>b. sb_user b = u" "subs s"]
    by (auto simp: t opened_def find_sub_def update_user_def split: option.split)
  show ?thesis
  proof (rule own_new_store[OF own x u, of _ "new_store ?i u d" q cs])
    show "Suc (Suc (uuid_next s)) \<le> uuid_next (opened u now t)" by (simp add: t opened_def update_user_def)
    show "categories (opened u now t) = categories s @ cs" "profiles (opened u now t) = profiles s"
      by (simp_all add: t opened_def update_user_def)
  qed (use subs q cs in \<open>simp_all add: t update_user_def new_store_def\<close>)
qed

lemma own_create_store: assumes own: "own_step u s0 s" shows "own_step u s0 (snd (create_store u d now later s))"
proof (cases "staff_by_user u s")
  case None
  obtain c v where c: "assertCanCreateStore u now s = (c, v)" by (cases "assertCanCreateStore u now s")
  have v: "own_step u s0 v" using own_assertCanCreate[OF own, of u now] c by simp
  have "staff_rows v = staff_rows s"
    using c by (auto simp: assertCanCreateStore_def stateForOwner_def startTrial_run act_defs Let_def split: option.splits prod.splits if_splits)
  with None have nv: "staff_by_user u v = None" by (simp add: staff_by_user_def)
  show ?thesis
  proof (cases c)
    case (Inl e)
    then show ?thesis using None c v by (simp add: create_store_def bnd_def andthen_def reading_def require_def ret_def)
  next
    case (Inr x)
    obtain r w where w: "transaction (insert_store u d) v = (r, w)" by (cases "transaction (insert_store u d) v")
    have run: "snd (create_store u d now later s) = (case r of Inl _ \<Rightarrow> w | Inr _ \<Rightarrow> opened u later w)"
      using None c Inr w
      by (simp add: create_store_def bnd_def andthen_def reading_def require_def ret_def startTrial_run split: sum.split)
    show ?thesis
    proof (cases r)
      case (Inl e)
      then show ?thesis using run transaction_error[OF w[unfolded Inl]] v by simp
    next
      case (Inr y)
      then show ?thesis using run create_store_body[OF v nv w[unfolded Inr transaction_ok]] by simp
    qed
  qed
qed (use own in \<open>simp add: create_store_def bnd_def andthen_def reading_def require_def throw_def\<close>)

lemma own_snd_bnd:
  "(\<And>e t. m s = (Inl e, t) \<Longrightarrow> own_step u s0 t) \<Longrightarrow> (\<And>a t. m s = (Inr a, t) \<Longrightarrow> own_step u s0 (snd (f a t))) \<Longrightarrow>
   own_step u s0 (snd (bnd m f s))"
  by (cases "m s"; cases "fst (m s)") (auto simp: bnd_def)

lemma own_update_store: assumes "own_step u s0 s" shows "own_step u s0 (snd (update_store u d s))"
  unfolding update_store_def
proof (rule own_owner[OF assms])
  fix a t assume own: "own_step u s0 t" and on: "acts_on u a t"
  let ?g = "\<lambda>r. if st_id r = ax_store a then edited_store d r else r"
  have ok: "tenant_ok t" using own by (simp add: own_step_def)
  have "own_step u s0 (t\<lparr>store_rows := map ?g (store_rows t)\<rparr>)"
    by (rule own_edit[OF own on, of _ id ?g id id])
      (use tenantD[OF ok] in \<open>simp_all add: edited_store_def staff_ok_def split: if_splits\<close>)
  with own show "own_step u s0 (snd (andthen (require (\<not> (edits_nothing d \<and> ed_currency d = None)) (BadRequest ''Provide at least one field to update''))
     (andthen (case ed_currency d of None \<Rightarrow> ret () | Some c \<Rightarrow>
        bnd (reading (find_store (ax_store a))) (\<lambda>current. bnd (found current (NotFound ''Store not found'')) (\<lambda>r.
          require (js_upper c = st_currency r) (Conflict ''Store currency is fixed at creation to preserve accounting history''))))
      (writing (\<lambda>s. s\<lparr>store_rows := map ?g (store_rows s)\<rparr>))) t))"
    by (auto simp: act_defs split: option.split)
qed

lemma own_select_store: assumes own: "own_step u s0 s" shows "own_step u s0 (snd (select_store u i s))"
proof (cases "owned_store u i s")
  case None
  with own show ?thesis by (simp add: select_store_def act_defs)
next
  case (Some r)
  then have r: "r \<in> set (store_rows s)" "st_owner r = u" using find_Some_set unfolding owned_store_def by fastforce+
  have "own_step u s0 (set_active_store u (Some (st_id r)) s)"
    unfolding set_active_store_def by (rule own_update_user[OF own]) (use r in \<open>auto intro: selects_own\<close>)
  with Some show ?thesis by (simp add: select_store_def act_defs)
qed

lemma own_create_role: assumes "own_step u s0 s" shows "own_step u s0 (snd (create_role u d s))"
  unfolding create_role_def
proof (rule own_owner[OF assms], rule own_snd_bnd)
  fix a t x t' assume own: "own_step u s0 t" and on: "acts_on u a t" and x: "reading (role_named (ax_store a) (nr_name d)) t = (Inr x, t')"
  let ?r = "\<lparr>rl_id = uuid (uuid_next t), rl_store = ax_store a, rl_name = nr_name d, rl_description = nr_description d,
         rl_permissions = nr_permissions d, rl_system = False\<rparr>"
  have "own_step u s0 (t\<lparr>uuid_next := Suc (uuid_next t), role_rows := role_rows t @ [?r]\<rparr>)" if "x = None"
    by (rule own_new_role[OF own on]) (use that x in \<open>auto simp: reading_def\<close>)
  with own x show "own_step u s0 (snd (andthen (require (x = None) (Conflict ''A role with this name already exists''))
     (bnd new_uuid (\<lambda>i. let r = \<lparr>rl_id = i, rl_store = ax_store a, rl_name = nr_name d, rl_description = nr_description d,
         rl_permissions = nr_permissions d, rl_system = False\<rparr> in
       andthen (writing (\<lambda>s. s\<lparr>role_rows := role_rows s @ [r]\<rparr>)) (ret r))) t'))"
    by (auto simp: act_defs new_uuid_def Let_def)
qed (simp add: reading_def)

lemma requireRole_run: "requireRole store i s = (Inr r, t) \<Longrightarrow> t = s \<and> r \<in> set (role_rows s) \<and> rl_id r = i \<and> rl_store r = store"
  by (auto simp: requireRole_def run_ok dest: find_Some_set)

lemma requireRole_error: "requireRole store i s = (Inl e, t) \<Longrightarrow> t = s"
  by (auto simp: requireRole_def act_defs split: option.splits)

lemma own_update_role: assumes "own_step u s0 s" shows "own_step u s0 (snd (update_role u i d s))"
  unfolding update_role_def
proof (rule own_owner[OF assms], rule own_snd_bnd)
  fix a t role t' assume own: "own_step u s0 t" and on: "acts_on u a t" and r: "requireRole (ax_store a) i t = (Inr role, t')"
  note r = requireRole_run[OF r]
  have ok: "tenant_ok t" using own by (simp add: own_step_def)
  have only: "q = role" if "q \<in> set (role_rows t)" "rl_id q = i" for q
    using tenantD(1)[OF ok] that r by (auto simp: access_keys_def distinct_map inj_on_def)
  let ?g = "\<lambda>r. if rl_id r = i then edited_role d r else r"
  let ?t = "t\<lparr>role_rows := map ?g (role_rows t)\<rparr>"
  have "own_step u s0 ?t"
    if free: "\<not> list_ex (\<lambda>r. rl_id r \<noteq> i \<and> rl_store r = ax_store a \<and> rl_name r = rl_name (edited_role d role)) (role_rows t)"
  proof (rule own_edit[OF own on, of ?t id id ?g id])
    have keys: "rl_store (edited_role d r) = rl_store r" for r by (simp add: edited_role_def)
    have inj: "inj_on (\<lambda>q. (rl_store (?g q), rl_name (?g q))) (set (role_rows t))"
    proof (rule inj_onI)
      fix p q assume pq: "p \<in> set (role_rows t)" "q \<in> set (role_rows t)"
        "(rl_store (?g p), rl_name (?g p)) = (rl_store (?g q), rl_name (?g q))"
      have clash: False if "z \<in> set (role_rows t)" "rl_id z \<noteq> i" "rl_store z = ax_store a" "rl_name z = rl_name (edited_role d role)" for z
        using free that by (auto simp: list_ex_iff)
      show "p = q"
      proof (cases "rl_id p = i"; cases "rl_id q = i")
        assume "rl_id p \<noteq> i" "rl_id q \<noteq> i"
        with pq show ?thesis using tenantD(3)[OF ok] by (auto simp: distinct_map inj_on_def)
      qed (use pq only[of p] only[of q] clash[of p] clash[of q] r in \<open>auto simp: keys\<close>)
    qed
    have "distinct (role_rows t)" using tenantD(3)[OF ok] by (simp add: distinct_map)
    with inj show "distinct (map (\<lambda>q. (rl_store q, rl_name q)) (role_rows ?t))" by (simp add: distinct_map comp_def)
    show "rl_store q = ax_store a" if "q \<in> set (role_rows t)" "?g q \<noteq> q" for q
      using that only[of q] r by (auto split: if_splits)
  qed (use tenantD[OF ok] in \<open>simp_all add: edited_role_def staff_ok_def\<close>)
  with own r show "own_step u s0 (snd (andthen (case er_name d of None \<Rightarrow> ret () | Some name \<Rightarrow>
         if name \<noteq> [] \<and> name \<noteq> rl_name role then
           bnd (reading (role_named (ax_store a) name)) (\<lambda>clash.
             require (clash = None) (Conflict ''A role with this name already exists''))
         else ret ())
     (bnd (reading (\<lambda>s. list_ex (\<lambda>r. rl_id r \<noteq> i \<and> rl_store r = ax_store a \<and> rl_name r = rl_name (edited_role d role)) (role_rows s))) (\<lambda>taken.
      andthen (require (\<not> taken) (Conflict ''A role with this name already exists''))
      (andthen (writing (\<lambda>s. s\<lparr>role_rows := map ?g (role_rows s)\<rparr>)) (ret (edited_role d role))))) t'))"
    by (auto simp: act_defs split: option.split)
qed (auto dest: requireRole_error)

lemma own_remove_role: assumes "own_step u s0 s" shows "own_step u s0 (snd (remove_role u i s))"
  unfolding remove_role_def
proof (rule own_owner[OF assms], rule own_snd_bnd)
  fix a t role t' assume own: "own_step u s0 t" and on: "acts_on u a t" and r: "requireRole (ax_store a) i t = (Inr role, t')"
  note r = requireRole_run[OF r]
  show "own_step u s0 (snd (andthen (require (\<not> rl_system role) (Conflict ''System roles cannot be deleted''))
     (bnd (reading (staff_count i)) (\<lambda>n.
      andthen (require (n = 0) (Conflict ''This role is still assigned to staff members. Reassign them before deleting it.''))
        (writing (\<lambda>s. s\<lparr>role_rows := filter (\<lambda>r. rl_id r \<noteq> i) (role_rows s)\<rparr>)))) t'))"
    using own own_drop_role[OF own on, of role i] r by (auto simp: act_defs)
qed (auto dest: requireRole_error)

lemma requireStaff_run: "requireStaff store i s = (Inr f, t) \<Longrightarrow> t = s \<and> f \<in> set (staff_rows s) \<and> sf_id f = i \<and> sf_store f = store"
  by (auto simp: requireStaff_def run_ok dest: find_Some_set)

lemma requireStaff_error: "requireStaff store i s = (Inl e, t) \<Longrightarrow> t = s"
  by (auto simp: requireStaff_def act_defs split: option.splits)

lemma salaryProfileData_staff: "salaryProfileData I i d e = Inr p \<Longrightarrow> pf_staff p = i"
  by (auto simp: salaryProfileData_def Let_def split: sum.splits)

lemma staff_salary_staff: "staff_salary_data I i d e = Inr (Some p) \<Longrightarrow> pf_staff p = i"
  by (cases d; cases "salaryProfileData I i (the d) e") (auto simp: staff_salary_data_def salaryProfileData_staff)

lemma requireRoleInStore_ok: "requireRoleInStore store r s = (Inr x, t) \<Longrightarrow> t = s \<and> role_at s store r"
  by (auto simp: requireRoleInStore_def run_ok role_at_def dest!: find_Some_set)

lemma requireRoleInStore_state: "snd (requireRoleInStore store r s) = s"
  by (simp add: requireRoleInStore_def act_defs)

lemma own_transaction:
  "own_step u s0 s \<Longrightarrow> (\<And>a t. m s = (Inr a, t) \<Longrightarrow> own_step u s0 t) \<Longrightarrow> own_step u s0 (snd (transaction m s))"
  by (cases "m s"; cases "fst (m s)") (auto simp: transaction_def)

lemma own_reading: "own_step u s0 (snd (f (g s) s)) \<Longrightarrow> own_step u s0 (snd (bnd (reading g) f s))"
  by (simp add: bnd_def reading_def)

lemma require_then: "andthen (require c e) k s = (if c then k s else (Inl e, s))"
  by (simp add: andthen_def bnd_def require_def ret_def throw_def)

lemma own_create_staff: assumes "own_step u s0 s" shows "own_step u s0 (snd (create_staff I hash u d s))"
  unfolding create_staff_def
proof (rule own_owner[OF assms], rule own_reading)
  fix a t assume own: "own_step u s0 t" and on: "acts_on u a t"
  let ?R = "case nf_role d of None \<Rightarrow> ret () | Some r \<Rightarrow> requireRoleInStore (ax_store a) r"
  let ?T = "bnd new_uuid (\<lambda>v. bnd new_uuid (\<lambda>i.
        bnd (lift_sum (staff_salary_data I i (nf_salary d) None)) (\<lambda>profile.
        let f = new_staff i v (ax_store a) d in
        andthen (writing (\<lambda>s. s\<lparr>user_rows := user_rows s @ [new_staff_user v (hash (nf_password d)) d],
            staff_rows := staff_rows s @ [f],
            profiles := profiles s @ (case profile of None \<Rightarrow> [] | Some p \<Rightarrow> [p])\<rparr>)) (ret f))))"
  show "own_step u s0 (snd (andthen (require (\<not> phone_taken (nf_phone d) t) (Conflict ''This phone number is already registered''))
     (andthen ?R (transaction ?T)) t))"
  proof (cases "phone_taken (nf_phone d) t")
    case False
    have st: "snd (?R t) = t" by (simp add: requireRoleInStore_state ret_def split: option.split)
    have "own_step u s0 (snd (andthen ?R (transaction ?T) t))"
      unfolding andthen_def[of ?R]
    proof (rule own_snd_bnd)
      fix x t' assume R: "?R t = (Inr x, t')"
      then have t': "t' = t" using st by simp
      have role: "role_at t (ax_store a) r" if "nf_role d = Some r" for r using R that requireRoleInStore_ok by fastforce
      show "own_step u s0 (snd (transaction ?T t'))"
        unfolding t'
      proof (rule own_transaction[OF own])
        fix f w assume "?T t = (Inr f, w)"
        then obtain profile where p: "staff_salary_data I (uuid (Suc (uuid_next t))) (nf_salary d) None = Inr profile"
          and w: "w = t\<lparr>uuid_next := Suc (Suc (uuid_next t)), user_rows := user_rows t @ [new_staff_user (uuid (uuid_next t)) (hash (nf_password d)) d],
            staff_rows := staff_rows t @ [new_staff (uuid (Suc (uuid_next t))) (uuid (uuid_next t)) (ax_store a) d],
            profiles := profiles t @ (case profile of None \<Rightarrow> [] | Some p \<Rightarrow> [p])\<rparr>"
          by (auto simp: run_ok new_uuid_def Let_def)
        show "own_step u s0 w" unfolding w
          by (rule own_new_staff[OF own on])
            (use False p role staff_salary_staff in \<open>auto simp: new_staff_user_def new_staff_def split: option.splits\<close>)
      qed
    qed (use own st in auto)
    with False show ?thesis by (simp only: require_then if_True not_False_eq_True)
  qed (use own in \<open>simp add: require_then\<close>)
qed

lemma own_edit_staff:
  assumes own: "own_step u s0 s" and on: "acts_on u a s" and f: "f \<in> set (staff_rows s)" "sf_store f = ax_store a"
    and g: "\<And>f. sf_id (g f) = sf_id f" "\<And>f. sf_user (g f) = sf_user f" "\<And>f. sf_store (g f) = sf_store f"
      "\<And>i. sf_role (g f) = Some i \<Longrightarrow> role_at s (ax_store a) i"
    and h: "\<And>x. us_id (h x) = us_id x" "\<And>x. us_activeStore (h x) = us_activeStore x"
      "\<And>x. x \<in> set (user_rows s) \<Longrightarrow> us_id x = sf_user f \<Longrightarrow> us_phone (h x) = us_phone x \<or> \<not> phone_taken (us_phone (h x)) s"
    and ps: "\<And>X. sf_id f \<notin> X \<Longrightarrow> filter (\<lambda>p. pf_staff p \<in> X) ps = filter (\<lambda>p. pf_staff p \<in> X) (profiles s)"
  shows "own_step u s0 (update_user (sf_user f) h (s\<lparr>profiles := ps, staff_rows := map (\<lambda>y. if sf_id y = sf_id f then g y else y) (staff_rows s)\<rparr>))"
    (is "own_step u s0 ?t")
proof -
  have ok: "tenant_ok s" using own by (simp add: own_step_def)
  have only: "y = f" if "y \<in> set (staff_rows s)" "sf_id y = sf_id f" for y
    using tenantD(1)[OF ok] that f by (auto simp: access_keys_def distinct_map inj_on_def)
  let ?h = "\<lambda>x. if us_id x = sf_user f then h x else x" and ?g = "\<lambda>y. if sf_id y = sf_id f then g y else y"
  show ?thesis
  proof (rule own_edit[OF own on, of ?t ?h id id ?g])
    show "distinct (map us_phone (user_rows ?t))"
    proof -
      have one: "y = x" if "x \<in> set (user_rows s)" "y \<in> set (user_rows s)" "us_id x = us_id y" for x y
        using tenantD(1)[OF ok] that by (auto simp: access_keys_def distinct_map inj_on_def)
      have taken: "us_phone z \<noteq> us_phone (h x)" if "x \<in> set (user_rows s)" "us_id x = sf_user f" "z \<in> set (user_rows s)" "z \<noteq> x" for x z
      proof -
        have "us_phone z \<noteq> us_phone x" using tenantD(2)[OF ok] that(1,3,4) by (auto simp: distinct_map inj_on_def)
        then show ?thesis using h(3)[OF that(1,2)] that(3) by (auto simp: phone_taken_def list_ex_iff)
      qed
      have "inj_on (\<lambda>x. us_phone (?h x)) (set (user_rows s))"
      proof (rule inj_onI)
        fix x y assume xy: "x \<in> set (user_rows s)" "y \<in> set (user_rows s)" "us_phone (?h x) = us_phone (?h y)"
        show "x = y"
        proof (cases "us_id x = sf_user f"; cases "us_id y = sf_user f")
          assume "us_id x = sf_user f" "us_id y = sf_user f"
          then show ?thesis using one[OF xy(1,2)] by simp
        next
          assume "us_id x \<noteq> sf_user f" "us_id y \<noteq> sf_user f"
          then show ?thesis using tenantD(2)[OF ok] xy by (auto simp: distinct_map inj_on_def)
        qed (use xy taken[of x y] taken[of y x] in auto)
      qed
      moreover have "distinct (user_rows s)" using tenantD(2)[OF ok] by (simp add: distinct_map)
      ultimately show ?thesis by (simp add: update_user_def distinct_map comp_def)
    qed
    show "role_at s (sf_store y) i" if "y \<in> set (staff_rows s)" "sf_role (?g y) = Some i" for y i
      using that only[OF that(1)] g(4) f(2) tenantD(6)[OF ok that(1)] by (auto simp: staff_ok_def split: if_splits)
    show "sf_store y = ax_store a" if "y \<in> set (staff_rows s)" "?g y \<noteq> y" for y
      using that only[OF that(1)] f(2) by (auto split: if_splits)
    show "\<exists>f \<in> set (staff_rows s). sf_user f = us_id x \<and> sf_store f = ax_store a" if "x \<in> set (user_rows s)" "?h x \<noteq> x" for x
      using that f by (auto split: if_splits)
    show "filter (\<lambda>p. pf_staff p \<in> X) (profiles ?t) = filter (\<lambda>p. pf_staff p \<in> X) (profiles s) \<or>
        (\<exists>f \<in> set (staff_rows s). sf_store f = ax_store a \<and> sf_id f \<in> X)" for X
      using ps[of X] f by (cases "sf_id f \<in> X") (auto simp: update_user_def)
  qed (use tenantD(3)[OF ok] g h in \<open>simp_all add: update_user_def\<close>)
qed

lemma upsert_other: "sf \<notin> X \<Longrightarrow> pf_staff p = sf \<Longrightarrow>
   filter (\<lambda>q. pf_staff q \<in> X) (profiles (upsert_profile p s)) = filter (\<lambda>q. pf_staff q \<in> X) (profiles s)"
  by (auto simp: upsert_profile_def intro!: filter_map_frame split: if_splits)

lemma upsert_shape: "upsert_profile p s = s\<lparr>profiles := profiles (upsert_profile p s)\<rparr>"
  by (simp add: upsert_profile_def)

lemma own_save_staff:
  assumes own: "own_step u s0 s" and on: "acts_on u a s" and f: "f \<in> set (staff_rows s)" "sf_store f = ax_store a"
    and free: "ef_phone d = None \<or> ef_phone d = Some (us_phone x) \<or> \<not> phone_taken (the (ef_phone d)) s"
    and x: "x \<in> set (user_rows s)" "us_id x = sf_user f"
    and role: "\<And>j. ef_role d = Some (Some j) \<Longrightarrow> role_at s (ax_store a) j"
    and run: "save_staff I hash (ax_store a) f d s = (Inr z, t)"
  shows "own_step u s0 t"
proof -
  have ok: "tenant_ok s" using own by (simp add: own_step_def)
  have one: "y = x" if "y \<in> set (user_rows s)" "us_id y = sf_user f" for y
    using tenantD(1)[OF ok] that x by (auto simp: access_keys_def distinct_map inj_on_def)
  obtain existing profile where p: "staff_salary_data I (sf_id f) (ef_salary d) existing = Inr profile"
    and t: "t = update_user (sf_user f) (edited_staff_user hash d) ((case profile of None \<Rightarrow> s | Some p \<Rightarrow> upsert_profile p s)
        \<lparr>staff_rows := map (\<lambda>g. if sf_id g = sf_id f then edited_staff d g else g) (staff_rows s)\<rparr>)"
    using run by (auto simp: save_staff_def run_ok upsert_profile_def dest!: lockStaff_run[OF _ tenantD(1)[OF ok]] split: option.splits)
  define ps where "ps = profiles (case profile of None \<Rightarrow> s | Some p \<Rightarrow> upsert_profile p s)"
  have shape: "(case profile of None \<Rightarrow> s | Some p \<Rightarrow> upsert_profile p s) = s\<lparr>profiles := ps\<rparr>"
    unfolding ps_def by (cases profile) (simp_all add: upsert_shape[symmetric])
  have "own_step u s0 (update_user (sf_user f) (edited_staff_user hash d)
     (s\<lparr>profiles := ps, staff_rows := map (\<lambda>g. if sf_id g = sf_id f then edited_staff d g else g) (staff_rows s)\<rparr>))"
  proof (rule own_edit_staff[OF own on f])
    show "role_at s (ax_store a) j" if "sf_role (edited_staff d f) = Some j" for j
      using that role tenantD(6)[OF ok f(1)] f(2) by (cases "ef_role d") (auto simp: edited_staff_def given_def staff_ok_def)
    show "us_phone (edited_staff_user hash d y) = us_phone y \<or> \<not> phone_taken (us_phone (edited_staff_user hash d y)) s"
      if "y \<in> set (user_rows s)" "us_id y = sf_user f" for y
      using free one[OF that] by (cases "ef_phone d") (auto simp: edited_staff_user_def given_def)
    show "filter (\<lambda>p. pf_staff p \<in> X) ps = filter (\<lambda>p. pf_staff p \<in> X) (profiles s)" if "sf_id f \<notin> X" for X
      unfolding ps_def using that p staff_salary_staff by (auto intro: upsert_other split: option.split)
  qed (simp_all add: edited_staff_def edited_staff_user_def)
  then show ?thesis unfolding t shape by simp
qed

lemma check_new_phone_run:
  "snd (check_new_phone d x s) = s"
  "check_new_phone d x s = (Inr r, t) \<Longrightarrow> ef_phone d = None \<or> ef_phone d = Some (us_phone x) \<or> \<not> phone_taken (the (ef_phone d)) s"
  by (auto simp: check_new_phone_def act_defs split: option.splits if_splits)

lemma check_new_role_run:
  "snd (check_new_role store d s) = s"
  "check_new_role store d s = (Inr r, t) \<Longrightarrow> ef_role d = Some (Some j) \<Longrightarrow> role_at s store j"
  by (auto simp: check_new_role_def requireRoleInStore_state ret_def dest: requireRoleInStore_ok split: option.splits)

lemma own_update_staff: assumes "own_step u s0 s" shows "own_step u s0 (snd (update_staff I hash u i d s))"
  unfolding update_staff_def
proof (rule own_owner[OF assms], rule own_snd_bnd, goal_cases)
  case (2 a t f t')
  note f = requireStaff_run[OF 2(3)]
  show ?case
  proof (rule own_reading, rule own_snd_bnd, goal_cases)
    case (2 x v)
    then have x: "x \<in> set (user_rows t)" "us_id x = sf_user f" "v = t"
      using f find_Some_set by (fastforce simp: found_ok find_user_def)+
    show ?case
      unfolding andthen_def
    proof (intro own_snd_bnd, goal_cases)
      case (3 b w b' w')
      have w: "w = t" "w' = t"
        using 3 x(3) check_new_phone_run(1)[of d x v] check_new_role_run(1)[of "ax_store a" d w] by simp_all
      show ?case unfolding w
        by (rule own_transaction[OF \<open>own_step u s0 t\<close>], rule own_save_staff[OF \<open>own_step u s0 t\<close> \<open>acts_on u a t\<close> _ _ _ x(1,2)])
          (use f 3 w x(3) check_new_phone_run(2)[of d x t] check_new_role_run(2)[of "ax_store a" d t] in simp_all)
    next
      case (1 e w)
      then show ?case using check_new_phone_run(1)[of d x v] x(3) \<open>own_step u s0 t\<close> by simp
    next
      case (2 b w e w')
      then show ?case using check_new_phone_run(1)[of d x v] check_new_role_run(1)[of "ax_store a" d w] x(3) \<open>own_step u s0 t\<close> by simp
    qed
  qed (use f \<open>own_step u s0 t\<close> in \<open>auto simp: found_def ret_def throw_def split: option.splits\<close>)
qed (auto dest: requireStaff_error)

lemma own_set_staff_status: assumes "own_step u s0 s" shows "own_step u s0 (snd (set_staff_status u i st s))"
  unfolding set_staff_status_def
proof (rule own_owner[OF assms])
  fix a t assume own: "own_step u s0 t" and on: "acts_on u a t"
  show "own_step u s0 (snd (andthen (requireStaff (ax_store a) i)
     (transaction (andthen (lockStaff (ax_store a) i)
       (writing (\<lambda>s. s\<lparr>staff_rows := map (\<lambda>g. if sf_id g = i then g\<lparr>sf_status := st\<rparr> else g) (staff_rows s)\<rparr>)))) t))"
    unfolding andthen_def[of "requireStaff _ _"]
  proof (rule own_snd_bnd)
    fix f w assume "requireStaff (ax_store a) i t = (Inr f, w)"
    note f = requireStaff_run[OF this]
    have ok: "tenant_ok t" using own by (simp add: own_step_def)
    show "own_step u s0 (snd (transaction (andthen (lockStaff (ax_store a) i)
       (writing (\<lambda>s. s\<lparr>staff_rows := map (\<lambda>g. if sf_id g = i then g\<lparr>sf_status := st\<rparr> else g) (staff_rows s)\<rparr>))) w))"
    proof (rule own_transaction)
      fix x v assume "andthen (lockStaff (ax_store a) i)
       (writing (\<lambda>s. s\<lparr>staff_rows := map (\<lambda>g. if sf_id g = i then g\<lparr>sf_status := st\<rparr> else g) (staff_rows s)\<rparr>)) w = (Inr x, v)"
      then have v: "v = t\<lparr>staff_rows := map (\<lambda>g. if sf_id g = sf_id f then g\<lparr>sf_status := st\<rparr> else g) (staff_rows t)\<rparr>"
        using f by (auto simp: run_ok dest!: lockStaff_run[OF _ tenantD(1)[OF ok]])
      have "own_step u s0 (update_user (sf_user f) (\<lambda>x. x)
          (t\<lparr>profiles := profiles t, staff_rows := map (\<lambda>g. if sf_id g = sf_id f then g\<lparr>sf_status := st\<rparr> else g) (staff_rows t)\<rparr>))"
        by (rule own_edit_staff[OF own on, of f]) (use f tenantD(6)[OF ok, of f] in \<open>auto simp: staff_ok_def\<close>)
      then show "own_step u s0 v" unfolding v by (simp add: update_user_def)
    qed (use f own in simp)
  qed (use own in \<open>auto dest: requireStaff_error\<close>)
qed

lemma owned_in: "owned_store u i s \<noteq> None \<Longrightarrow> \<exists>z \<in> set (store_rows s). st_id z = i \<and> st_owner z = u"
  using find_Some_set by (fastforce simp: owned_store_def)

text \<open>After the deletion the selection of the owner is moved when it was the deleted store, or empty.\<close>

lemma own_drop_select:
  assumes own: "own_step u s0 s" and z: "z \<in> set (store_rows s)" "st_id z = i" "st_owner z = u"
    and y: "\<And>j. y = Some j \<Longrightarrow> \<exists>r \<in> set (store_rows s). st_id r = j \<and> st_owner r = u \<and> j \<noteq> i"
  shows "own_step u s0 (if m then set_active_store u y (drop_store i s) else drop_store i s)" (is "own_step u s0 ?t")
proof -
  have ok: "tenant_ok s" using own by (simp add: own_step_def)
  define c where "c x = (if us_activeStore x = Some i then x\<lparr>us_activeStore := None\<rparr> else x)" for x :: user_row
  define g where "g x = (if m \<and> us_id x = u then (c x)\<lparr>us_activeStore := y\<rparr> else c x)" for x
  have cg: "us_id (c x) = us_id x" "us_phone (c x) = us_phone x" "us_activeStore (c x) = Some j \<Longrightarrow> us_activeStore x = Some j \<and> j \<noteq> i" for x j
    by (auto simp: c_def split: if_splits)
  have users: "user_rows ?t = map g (user_rows s)" "store_rows ?t = filter (\<lambda>r. st_id r \<noteq> i) (store_rows s)"
    by (cases m; auto simp: drop_store_def set_active_store_def update_user_def g_def c_def)+
  show ?thesis
  proof (rule own_drop_store[OF own z, of _ g])
    show "user_ok ?t (g x)" if x: "x \<in> set (user_rows s)" "us_id x = u" for x
    proof -
      have "\<exists>r \<in> set (store_rows s). st_id r = j \<and> st_owner r = u \<and> j \<noteq> i" if "us_activeStore (g x) = Some j" for j
        using that y[of j] cg(3)[of x j] tenantD(7)[OF ok x(1)] x(2) by (auto simp: g_def user_ok_def split: if_splits)
      then have "\<exists>r \<in> set (store_rows ?t). st_id r = j \<and> st_owner r = u" if "us_activeStore (g x) = Some j" for j
        unfolding users(2) using that by fastforce
      moreover have "us_id (g x) = u" using x(2) by (simp add: g_def cg(1,2))
      ultimately show ?thesis unfolding user_ok_def by blast
    qed
    show "g x = x" if "us_id x \<noteq> u" "us_activeStore x \<noteq> Some i" for x using that by (simp add: g_def c_def)
  qed (simp_all add: users g_def cg(1,2), simp_all add: drop_store_def set_active_store_def update_user_def)
qed

lemma own_remove_store: assumes own: "own_step u s0 s" shows "own_step u s0 (snd (remove_store u i s))"
proof (cases "owned_store u i s = None \<or> store_count u s \<le> 1")
  case True
  with own show ?thesis by (auto simp: remove_store_def act_defs)
next
  case False
  then obtain z where z: "z \<in> set (store_rows s)" "st_id z = i" "st_owner z = u" using owned_in by blast
  let ?d = "drop_store i s"
  let ?m = "case find_user u ?d of None \<Rightarrow> True | Some x \<Rightarrow> us_activeStore x = None \<or> us_activeStore x = Some i"
  let ?y = "case stores_of u ?d of [] \<Rightarrow> None | r # _ \<Rightarrow> Some (st_id r)"
  have "snd (remove_store u i s) = s \<or> snd (remove_store u i s) = (if ?m then set_active_store u ?y ?d else ?d)"
    using False by (simp add: remove_store_def act_defs)
  moreover have "\<exists>r \<in> set (store_rows s). st_id r = j \<and> st_owner r = u \<and> j \<noteq> i" if "?y = Some j" for j
  proof (cases "stores_of u ?d")
    case (Cons r rs)
    then have "r \<in> set (stores_of u ?d)" by simp
    then have "r \<in> set (store_rows s)" "st_owner r = u" "st_id r \<noteq> i" by (simp_all add: stores_of_def drop_store_def)
    with that Cons show ?thesis by auto
  qed (use that in simp)
  then have "own_step u s0 (if ?m then set_active_store u ?y ?d else ?d)" by (rule own_drop_select[OF own z])
  ultimately show ?thesis using own by (elim disjE) (simp_all only:)
qed

section \<open>Tenants over time\<close>

text \<open>One operation of a user \<open>u\<close>, finished or refused.\<close>

inductive tenant_step :: "intl \<Rightarrow> (string \<Rightarrow> string) \<Rightarrow> string \<Rightarrow> salary_db \<Rightarrow> salary_db \<Rightarrow> bool" for I H u where
  store_created: "tenant_step I H u s (snd (create_store u nd now later s))"
| store_updated: "tenant_step I H u s (snd (update_store u ed s))"
| store_selected: "tenant_step I H u s (snd (select_store u i s))"
| store_removed: "tenant_step I H u s (snd (remove_store u i s))"
| role_created: "tenant_step I H u s (snd (create_role u rd s))"
| role_updated: "tenant_step I H u s (snd (update_role u i re s))"
| role_removed: "tenant_step I H u s (snd (remove_role u i s))"
| staff_created: "tenant_step I H u s (snd (create_staff I H u sd s))"
| staff_updated: "tenant_step I H u s (snd (update_staff I H u i se s))"
| staff_status_set: "tenant_step I H u s (snd (set_staff_status u i st s))"

inductive_cases tenant_stepE: "tenant_step I H u s t"

lemmas own_operations = own_create_store own_update_store own_select_store own_remove_store own_create_role own_update_role
  own_remove_role own_create_staff own_update_staff own_set_staff_status

lemma tenant_step_own: "tenant_step I H u s t \<Longrightarrow> tenant_ok s \<Longrightarrow> own_step u s t"
  by (elim tenant_stepE) (simp_all add: own_operations own_refl)

text \<open>On well-formed tenants, the account behind a user is that of the owner of the store he acts on.\<close>

lemma acting_account:
  assumes ok: "tenant_ok s" and a: "acting u s = Some a"
  shows "\<exists>r \<in> set (store_rows s). st_id r = ax_store a \<and> ownerUserIdFor u s = Some (st_owner r) \<and>
    find_sub (st_owner r) s \<noteq> None \<and> (ax_owner a \<longleftrightarrow> st_owner r = u)"
proof -
  have account: "find_sub (st_owner r) s \<noteq> None" if "r \<in> set (store_rows s)" for r
    using tenantD(5)[OF ok that] by (auto simp: store_ok_def find_sub_def find_None_set)
  show ?thesis
  proof (cases "stores_of u s = []")
    case False
    with a obtain x where x: "a = owner_access u (active_of x (stores_of u s))" by (auto simp: acting_def split: option.splits)
    have "active_of x (stores_of u s) \<in> set (stores_of u s)" by (rule active_of_in[OF False])
    with False account show ?thesis by (auto simp: x owner_access_def ownerUserIdFor_def stores_of_def)
  next
    case True
    with a obtain f r where f: "staff_by_user u s = Some f" "find_store (sf_store f) s = Some r" "a = staff_access u f r s"
      by (auto simp: acting_def split: option.splits if_splits)
    have r: "r \<in> set (store_rows s)" "st_id r = sf_store f" using f(2) by (simp_all add: find_store_iff[OF tenantD(1)[OF ok]])
    have "st_owner r \<noteq> u" using True r(1) by (auto simp: stores_of_def filter_empty_conv)
    with True f r account[OF r(1)] show ?thesis by (auto simp: ownerUserIdFor_def staff_access_def)
  qed
qed

text \<open>Registered users without any store are well-formed tenants.\<close>

lemma registered_ok:
  assumes "distinct (map us_id (user_rows s))" "distinct (map us_phone (user_rows s))"
    and "\<And>x n. x \<in> set (user_rows s) \<Longrightarrow> us_activeStore x = None \<and> us_id x \<noteq> uuid n"
    and "store_rows s = []" "role_rows s = []" "staff_rows s = []"
  shows "tenant_ok s"
proof (rule tenantI)
  show "uuid n \<notin> row_ids s" for n
  proof
    assume "uuid n \<in> row_ids s"
    then obtain x where "x \<in> set (user_rows s)" "uuid n = us_id x" using assms(4-6) by (auto simp: row_ids_def)
    with assms(3)[of x n] show False by simp
  qed
qed (use assms in \<open>auto simp: access_keys_def user_ok_def\<close>)

text \<open>
  C15: well-formed tenants. Starting from registered users, whatever stores, roles and staff members are
  created, edited and deleted by whom, all keys stay distinct (phones and the role names of a store too),
  every store has an existing owner who is nobody's staff, a system role to assign, a salary category and a
  subscription row, every staff member belongs to an existing store and has a role of that store or none,
  and a selected store is one the user owns. So a user who acts on a store is billed to the account of its
  owner, which exists.
\<close>

theorem tenants_well_formed:
  assumes "(\<lambda>s t. \<exists>u. tenant_step I H u s t)\<^sup>*\<^sup>* s t"
    and "distinct (map us_id (user_rows s))" "distinct (map us_phone (user_rows s))"
      "\<And>x n. x \<in> set (user_rows s) \<Longrightarrow> us_activeStore x = None \<and> us_id x \<noteq> uuid n"
      "store_rows s = []" "role_rows s = []" "staff_rows s = []"
  shows "tenant_ok t \<and> (\<forall>u a. acting u t = Some a \<longrightarrow>
    (\<exists>r \<in> set (store_rows t). st_id r = ax_store a \<and> ownerUserIdFor u t = Some (st_owner r) \<and>
      find_sub (st_owner r) t \<noteq> None \<and> (ax_owner a \<longleftrightarrow> st_owner r = u)))"
proof -
  have "tenant_ok s" using assms(2-) by (rule registered_ok)
  with assms(1) have "tenant_ok t"
    by (induction rule: rtranclp_induct) (auto dest: tenant_step_own simp: own_step_def)
  then show ?thesis using acting_account by blast
qed


section \<open>Two sample tenants\<close>

definition sample_users :: salary_db where
  "sample_users = sample_salary\<lparr>store_rows := [], role_rows := [], staff_rows := [], categories := []\<rparr>"

definition sample_store_dto :: store_dto where
  "sample_store_dto = \<lparr>nt_ownerName = ''U'', nt_businessName = ''Shop'', nt_address = ''1 street'', nt_city = ''Rabat'',
     nt_country = None, nt_logo = None, nt_currency = None\<rparr>"

definition sample_tenant :: salary_db where
  "sample_tenant = snd (create_store ''u'' sample_store_dto 7 8 sample_users)"

lemma sample_users_tables:
  "store_rows sample_users = []" "role_rows sample_users = []" "staff_rows sample_users = []"
  "user_rows sample_users = user_rows sample_access"
  by (simp_all add: sample_users_def sample_salary_tables)

lemma sample_users_ids: "x \<in> set (user_rows sample_users) \<Longrightarrow> us_activeStore x = None \<and> us_id x \<noteq> uuid n"
  by (auto simp: sample_users_tables sample_access_def uuid_def)

lemma sample_tenant_store: "map st_owner (store_rows sample_tenant) = [''u'']"
proof -
  have none: "staff_by_user ''u'' sample_users = None" "store_count ''u'' sample_users = 0"
    by (simp_all add: staff_by_user_def store_count_def stores_of_def sample_users_tables)
  have "find_user ''u'' sample_users \<noteq> None" by (simp add: find_user_def sample_users_tables sample_access_def)
  then show ?thesis
    by (simp add: sample_tenant_def create_store_def insert_store_def assertCanCreateStore_def none act_defs new_uuid_def
        defaultRoleSeeds_def defaultExpenseCategorySeeds_def seed_role_def seed_category_def startTrial_run update_user_def
        sample_users_tables new_store_def opened_def)
qed

theorem tenants_well_formed_witness:
  "tenant_ok sample_tenant \<and> map st_owner (store_rows sample_tenant) = [''u'']"
proof -
  have "(\<lambda>s t. \<exists>u. tenant_step sample_intl (\<lambda>p. p) u s t)\<^sup>*\<^sup>* sample_users sample_tenant"
    unfolding sample_tenant_def by (rule r_into_rtranclp, rule exI[of _ "''u''"], rule tenant_step.store_created)
  note main = tenants_well_formed[OF this _ _ sample_users_ids sample_users_tables(1-3)]
  show ?thesis using main sample_tenant_store by (simp add: sample_users_tables sample_access_def)
qed


end
