(* ===== verification/WhatsApp_Wallet.thy ===== *)
theory WhatsApp_Wallet
  imports Order_Financial Shop_Pricing Access
begin

text \<open>
  The prepaid balance of the WhatsApp automation, \<open>src/whatsapp/whatsapp-balance.service.ts\<close>: a store
  is credited by the super admin, charged for every send attempt and refunded when a message does
  not go out. The balance is the sum of an append-only list of entries; each of the writers runs
  in a transaction under the advisory lock of its store, so it is one atomic step.
  \<open>new Decimal(text)\<close> is a parameter: \<open>None\<close> when it throws or the value is not finite.
\<close>

section \<open>The tables\<close>

datatype connection_status = CONN_ACTIVE | CONN_DISCONNECTED | CONN_REAUTHORIZATION_REQUIRED

record wa_connection =
  cn_store :: string
  cn_waba :: string
  cn_phoneNumber :: string
  cn_token :: "string option"
  cn_status :: connection_status
  cn_language :: string
  cn_lastError :: "string option"
  cn_disconnectedAt :: "int option"

record wa_template =
  tp_store :: string
  tp_name :: string
  tp_language :: string
  tp_status :: string
  tp_meta :: "string option"
  tp_rejected :: "string option"

record wa_setting =
  ws_store :: string
  ws_trigger :: ship_status
  ws_enabled :: bool
  ws_delay :: int

datatype msg_status = MSG_SCHEDULED | MSG_SENDING | MSG_SENT | MSG_DELIVERED | MSG_READ | MSG_FAILED | MSG_SKIPPED

text \<open>A message row; the stored provider payload and the creation time are not kept.\<close>

record wa_message =
  wm_id :: string
  wm_store :: string
  wm_order :: "string option"
  wm_trigger :: ship_status
  wm_templateName :: string
  wm_language :: string
  wm_phone :: string
  wm_variables :: "string list"
  wm_status :: msg_status
  wm_sendAfter :: int
  wm_attempts :: nat
  wm_sentAt :: "int option"
  wm_deliveredAt :: "int option"
  wm_readAt :: "int option"
  wm_failedAt :: "int option"
  wm_provider :: "string option"
  wm_errorCode :: "string option"
  wm_errorMessage :: "string option"
  wm_cost :: "rat option"
  wm_currency :: string
  wm_key :: string
  wm_updatedAt :: int

datatype entry_kind = ENTRY_TOP_UP | ENTRY_MESSAGE | ENTRY_REFUND | ENTRY_ADJUSTMENT

record wa_entry =
  be_store :: string
  be_message :: "string option"
  be_kind :: entry_kind
  be_amount :: rat
  be_currency :: string
  be_note :: "string option"
  be_key :: string
  be_admin :: "string option"

record wa_price =
  wp_currency :: string
  wp_amount :: rat
  wp_admin :: string

record wa_alert =
  al_store :: string
  al_type :: string
  al_title :: string
  al_message :: string
  al_dedupe :: "string option"
  al_resolvedAt :: "int option"

text \<open>What the automation reads of an order, with its customer and the tracking of its dispatch.\<close>

record wa_order =
  wo_id :: string
  wo_store :: string
  wo_name :: "string option"
  wo_external :: string
  wo_manualName :: "string option"
  wo_manualPhone :: "string option"
  wo_customer :: "(string option \<times> string option) option"
  wo_tracking :: "string option"

record wa_db = access_db +
  wa_connections :: "wa_connection list"
  wa_templates :: "wa_template list"
  wa_settings :: "wa_setting list"
  wa_messages :: "wa_message list"
  wa_entries :: "wa_entry list"
  wa_pricing :: "wa_price list"
  wa_alerts :: "wa_alert list"
  wa_orders :: "wa_order list"
  wa_dispatches :: "dispatch list"

section \<open>Notifications\<close>

text \<open>
  \<open>raise\<close> and \<open>resolve\<close> of \<open>src/notifications/notifications.service.ts\<close>: an unresolved alert is unique by
  its store and key, so raising it again does nothing. The push to the phones is not modelled.
\<close>

definition raise_alert :: "wa_alert \<Rightarrow> ('a wa_db_scheme, unit) act" where
  "raise_alert a = bnd (reading (\<lambda>s. list_ex (\<lambda>x. al_store x = al_store a \<and> al_dedupe x = al_dedupe a) (wa_alerts s))) (\<lambda>taken.
     if taken then ret () else writing (\<lambda>s. s\<lparr>wa_alerts := wa_alerts s @ [a]\<rparr>))"

definition resolve_alerts :: "int \<Rightarrow> string \<Rightarrow> string list \<Rightarrow> ('a wa_db_scheme, unit) act" where
  "resolve_alerts now store keys = writing (\<lambda>s. s\<lparr>wa_alerts := map (\<lambda>x.
     if al_store x = store \<and> al_dedupe x \<in> Some ` set keys
     then x\<lparr>al_dedupe := None, al_resolvedAt := Some now\<rparr> else x) (wa_alerts s)\<rparr>)"

section \<open>src/whatsapp/whatsapp-balance.service.ts\<close>

definition getBalance :: "string \<Rightarrow> string \<Rightarrow> 'a wa_db_scheme \<Rightarrow> rat" where
  "getBalance store currency s =
     (\<Sum>e \<leftarrow> filter (\<lambda>e. be_store e = store \<and> be_currency e = currency) (wa_entries s). be_amount e)"

definition getPrice :: "string \<Rightarrow> 'a wa_db_scheme \<Rightarrow> rat option" where
  "getPrice currency s = map_option wp_amount (find (\<lambda>p. wp_currency p = currency) (wa_pricing s))"

text \<open>The columns are \<open>Decimal(20, 4)\<close>: the database refuses an amount of more than sixteen integer digits.\<close>

definition fits_column :: "rat \<Rightarrow> bool" where
  "fits_column x \<longleftrightarrow> \<bar>x\<bar> < 10 ^ 16"

definition create_entry :: "wa_entry \<Rightarrow> ('a wa_db_scheme, unit) act" where
  "create_entry e =
     andthen (require (fits_column (be_amount e)) (Internal ''numeric field overflow''))
     (bnd (reading (\<lambda>s. list_ex (\<lambda>x. be_store x = be_store e \<and> be_key x = be_key e) (wa_entries s))) (\<lambda>taken.
      andthen (require (\<not> taken) UniqueViolation)
        (writing (\<lambda>s. s\<lparr>wa_entries := wa_entries s @ [e]\<rparr>))))"

datatype debit_result = Debited rat | Short rat

definition message_key :: "string \<Rightarrow> nat \<Rightarrow> string" where
  "message_key mid attempt = ''message:'' @ mid @ '':'' @ nat_digits attempt"

definition debit_entry :: "string \<Rightarrow> string \<Rightarrow> nat \<Rightarrow> rat \<Rightarrow> string \<Rightarrow> wa_entry" where
  "debit_entry store mid attempt amount currency =
     \<lparr>be_store = store, be_message = Some mid, be_kind = ENTRY_MESSAGE, be_amount = - amount,
      be_currency = currency, be_note = None, be_key = message_key mid attempt, be_admin = None\<rparr>"

definition debitForMessage ::
  "decimal_lib \<Rightarrow> string \<Rightarrow> string \<Rightarrow> nat \<Rightarrow> rat \<Rightarrow> string \<Rightarrow> ('a wa_db_scheme, debit_result) act" where
  "debitForMessage D store mid attempt amount currency = transaction
     (bnd (reading (getBalance store currency)) (\<lambda>balance.
      if balance < amount then ret (Short balance)
      else andthen (create_entry (debit_entry store mid attempt amount currency))
        (ret (Debited (dminus D balance amount)))))"

definition message_entries :: "string \<Rightarrow> string \<Rightarrow> 'a wa_db_scheme \<Rightarrow> wa_entry list" where
  "message_entries store mid s = filter (\<lambda>e. be_store e = store \<and> be_message e = Some mid) (wa_entries s)"

definition refund_key :: "string \<Rightarrow> nat \<Rightarrow> string" where
  "refund_key mid n = ''refund:'' @ mid @ '':'' @ nat_digits n"

definition refund_entry :: "string \<Rightarrow> string \<Rightarrow> wa_entry list \<Rightarrow> rat \<Rightarrow> wa_entry" where
  "refund_entry store mid es net =
     \<lparr>be_store = store, be_message = Some mid, be_kind = ENTRY_REFUND, be_amount = - net,
      be_currency = be_currency (hd es), be_note = None, be_key = refund_key mid (length es), be_admin = None\<rparr>"

definition refundMessage :: "decimal_lib \<Rightarrow> string \<Rightarrow> string \<Rightarrow> ('a wa_db_scheme, bool) act" where
  "refundMessage D store mid = transaction
     (bnd (reading (message_entries store mid)) (\<lambda>es.
      if es = [] then ret False
      else let net = dsum D (map be_amount es) in
        if \<not> net < 0 then ret False
        else andthen (create_entry (refund_entry store mid es net)) (ret True)))"

text \<open>\<open>amount.decimalPlaces() > 2\<close>\<close>

definition two_decimals :: "rat \<Rightarrow> bool" where
  "two_decimals x \<longleftrightarrow> of_int \<lfloor>x * 100\<rfloor> = x * 100"

definition parseAmount :: "(string \<Rightarrow> rat option) \<Rightarrow> string \<Rightarrow> error + rat" where
  "parseAmount parse v = (case parse v of
       None \<Rightarrow> Inl (BadRequest ''Invalid amount'')
     | Some x \<Rightarrow> if \<not> two_decimals x then Inl (BadRequest ''Amounts support at most 2 decimals'') else Inr x)"

text \<open>\<open>Number(WHATSAPP_LOW_BALANCE_MESSAGES) || 20\<close>, a missing or unreadable number being 0.\<close>

definition DEFAULT_LOW_BALANCE_MESSAGES :: rat where
  "DEFAULT_LOW_BALANCE_MESSAGES = 20"

definition lowBalanceThreshold :: "decimal_lib \<Rightarrow> rat \<Rightarrow> rat \<Rightarrow> rat" where
  "lowBalanceThreshold D configured price =
     dtimes D price (if configured = 0 then DEFAULT_LOW_BALANCE_MESSAGES else configured)"

definition LOW_BALANCE_DEDUPE_KEY :: string where
  "LOW_BALANCE_DEDUPE_KEY = ''whatsapp-balance-low''"

definition low_balance_alert :: "decimal_lib \<Rightarrow> string \<Rightarrow> string \<Rightarrow> rat \<Rightarrow> wa_alert" where
  "low_balance_alert D store currency balance =
     \<lparr>al_store = store, al_type = ''WHATSAPP_BALANCE_LOW'', al_title = ''WhatsApp balance is low'',
      al_message = ''Your WhatsApp balance is '' @ toFixed2 D balance @ '' '' @ currency @
        ''. Automated messages stop when it runs out '' @ em_dash @ '' contact Zomaal to top up.'',
      al_dedupe = Some LOW_BALANCE_DEDUPE_KEY, al_resolvedAt = None\<rparr>"

text \<open>The callers always pass the balance they know; a failure of the check is only logged.\<close>

definition checkLowBalance ::
  "decimal_lib \<Rightarrow> rat \<Rightarrow> int \<Rightarrow> string \<Rightarrow> string \<Rightarrow> rat \<Rightarrow> ('a wa_db_scheme, unit) act" where
  "checkLowBalance D configured now store currency balance =
     bnd (reading (getPrice currency)) (\<lambda>price. case price of
         None \<Rightarrow> ret ()
       | Some p \<Rightarrow> if balance < lowBalanceThreshold D configured p
           then raise_alert (low_balance_alert D store currency balance)
           else resolve_alerts now store [LOW_BALANCE_DEDUPE_KEY])"

record credit_input =
  ci_kind :: entry_kind
  ci_amount :: string
  ci_note :: "string option"
  ci_key :: string

record credit_result =
  cr_entry :: wa_entry
  cr_balance :: rat
  cr_replayed :: bool

definition credit_entry :: "string \<Rightarrow> credit_input \<Rightarrow> rat \<Rightarrow> string \<Rightarrow> string \<Rightarrow> wa_entry" where
  "credit_entry store d amount currency admin =
     \<lparr>be_store = store, be_message = None, be_kind = ci_kind d, be_amount = amount,
      be_currency = currency, be_note = or_null (ci_note d), be_key = ''admin:'' @ ci_key d, be_admin = Some admin\<rparr>"

definition negative_message :: "decimal_lib \<Rightarrow> rat \<Rightarrow> string \<Rightarrow> string" where
  "negative_message D balance currency =
     ''Adjustment would make the balance negative (current '' @ toFixed2 D balance @ '' '' @ currency @ '')''"

definition wallet_credit_body ::
  "decimal_lib \<Rightarrow> string \<Rightarrow> credit_input \<Rightarrow> rat \<Rightarrow> string \<Rightarrow> string \<Rightarrow> ('a wa_db_scheme, credit_result) act" where
  "wallet_credit_body D store d amount currency admin =
     bnd (reading (\<lambda>s. find (\<lambda>e. be_store e = store \<and> be_key e = ''admin:'' @ ci_key d) (wa_entries s))) (\<lambda>existing.
     bnd (reading (getBalance store currency)) (\<lambda>balance. case existing of
         Some e \<Rightarrow> ret \<lparr>cr_entry = e, cr_balance = balance, cr_replayed = True\<rparr>
       | None \<Rightarrow>
           andthen (require (\<not> dplus D balance amount < 0) (BadRequest (negative_message D balance currency)))
           (andthen (create_entry (credit_entry store d amount currency admin))
             (ret \<lparr>cr_entry = credit_entry store d amount currency admin,
                   cr_balance = dplus D balance amount, cr_replayed = False\<rparr>))))"

text \<open>\<open>type\<close> is \<open>TOP_UP\<close> or \<open>ADJUSTMENT\<close> by the type of the request.\<close>

definition adminCredit ::
  "decimal_lib \<Rightarrow> (string \<Rightarrow> rat option) \<Rightarrow> rat \<Rightarrow> int \<Rightarrow> string \<Rightarrow> credit_input \<Rightarrow> string \<Rightarrow> ('a wa_db_scheme, credit_result) act" where
  "adminCredit D parse configured now store d admin =
     bnd (reading (find_store store)) (\<lambda>row.
     bnd (found row (NotFound ''Store not found'')) (\<lambda>row.
     bnd (lift_sum (parseAmount parse (ci_amount d))) (\<lambda>amount.
     andthen (require (amount \<noteq> 0) (BadRequest ''amount must not be zero''))
     (andthen (require (\<not> (ci_kind d = ENTRY_TOP_UP \<and> amount < 0))
         (BadRequest ''A top-up must be positive; use ADJUSTMENT to remove credit''))
     (bnd (transaction (wallet_credit_body D store d amount (st_currency row) admin)) (\<lambda>r.
      andthen (checkLowBalance D configured now store (st_currency row) (cr_balance r)) (ret r)))))))"

definition setPricing ::
  "(string \<Rightarrow> rat option) \<Rightarrow> string \<Rightarrow> string \<Rightarrow> string \<Rightarrow> ('a wa_db_scheme, wa_price) act" where
  "setPricing parse currency pricePerMessage admin =
     bnd (lift_sum (parseAmount parse pricePerMessage)) (\<lambda>price.
     andthen (require (0 < price) (BadRequest ''pricePerMessage must be greater than 0''))
     (andthen (require (fits_column price) (Internal ''numeric field overflow''))
     (let code = js_upper (js_trim currency); new = \<lparr>wp_currency = code, wp_amount = price, wp_admin = admin\<rparr> in
      bnd (reading (\<lambda>s. list_ex (\<lambda>p. wp_currency p = code) (wa_pricing s))) (\<lambda>known.
      andthen (writing (\<lambda>s. if known
          then s\<lparr>wa_pricing := map (\<lambda>p. if wp_currency p = code then new else p) (wa_pricing s)\<rparr>
          else s\<lparr>wa_pricing := wa_pricing s @ [new]\<rparr>))
        (ret new)))))"

record balance_page =
  bp_balance :: rat
  bp_currency :: string
  bp_rows :: "wa_entry list"
  bp_total :: nat
  bp_totalPages :: int

definition balance_history :: "string \<Rightarrow> nat \<Rightarrow> nat \<Rightarrow> ('a wa_db_scheme, balance_page) act" where
  "balance_history store page limit =
     bnd (reading (find_store store)) (\<lambda>row.
     bnd (found row (NotFound ''Store not found'')) (\<lambda>row.
     bnd (reading (\<lambda>s. filter (\<lambda>e. be_store e = store) (wa_entries s))) (\<lambda>rows.
     bnd (reading (getBalance store (st_currency row))) (\<lambda>balance.
     ret \<lparr>bp_balance = balance, bp_currency = st_currency row,
          bp_rows = take limit (drop ((page - 1) * limit) (rev rows)), bp_total = length rows,
          bp_totalPages = \<lceil>of_nat (length rows) / (of_nat limit :: rat)\<rceil>\<rparr>))))"

section \<open>Facts on amounts and keys\<close>

lemma two_decimals_grid: "two_decimals x \<longleftrightarrow> on_grid 2 x"
proof -
  have "on_grid 2 x \<longleftrightarrow> x * 100 \<in> \<int>" by (simp add: on_grid_def)
  also have "\<dots> \<longleftrightarrow> of_int \<lfloor>x * 100\<rfloor> = x * 100" by (metis Ints_cases Ints_of_int floor_of_int)
  finally show ?thesis by (simp add: two_decimals_def)
qed

lemma two_decimals_0 [simp]: "two_decimals 0"
  by (simp add: two_decimals_grid)

lemma two_decimals_uminus [simp]: "two_decimals (- x) \<longleftrightarrow> two_decimals x"
  using on_grid_uminus[of 2 x] on_grid_uminus[of 2 "- x"] by (auto simp: two_decimals_grid)

lemma fits_column_uminus [simp]: "fits_column (- x) \<longleftrightarrow> fits_column x"
  by (simp add: fits_column_def)

lemma fold_exact:
  assumes D: "decimal_laws D"
    and xs: "\<And>x. x \<in> set xs \<Longrightarrow> two_decimals x \<and> fits_column x"
    and a: "two_decimals a" "\<bar>a\<bar> \<le> of_nat n * 10 ^ 16" and few: "n + length xs \<le> 50"
  shows "fold (\<lambda>x acc. dplus D acc x) xs a = a + sum_list xs"
  using xs a few
proof (induction xs arbitrary: a n)
  case Nil then show ?case by simp
next
  case (Cons x xs)
  have x: "two_decimals x" "\<bar>x\<bar> < 10 ^ 16" using Cons.prems(1)[of x] by (auto simp: fits_column_def)
  have grid: "on_grid 2 (a + x)" using Cons.prems(2) x(1) by (simp add: two_decimals_grid on_grid_add)
  have size: "\<bar>a + x\<bar> \<le> of_nat (Suc n) * 10 ^ 16" using Cons.prems(3) x(2) by (simp add: algebra_simps)
  have "of_nat (Suc n) \<le> (50 :: rat)" using Cons.prems(4) by (metis (mono_tags, lifting) add_Suc_right add_Suc le_add1 le_trans length_Cons of_nat_le_iff of_nat_numeral)
  then have "\<bar>a + x\<bar> \<le> 50 * 10 ^ 16" using size by (meson mult_right_mono order_trans zero_le_power zero_le_numeral)
  then have "\<bar>a + x\<bar> * 10 ^ 2 < 10 ^ 20" by simp
  also have "\<dots> \<le> (10 ^ digits D :: rat)"
    using decimal_laws.digits_enough[OF D] by (rule power_increasing) simp
  finally have "dplus D a x = a + x" unfolding dplus_def by (rule decimal_laws.sig_exact[OF D grid])
  moreover have "fold (\<lambda>x acc. dplus D acc x) xs (a + x) = a + x + sum_list xs"
    using Cons.IH[of "a + x" "Suc n"] Cons.prems grid size by (simp add: two_decimals_grid)
  ultimately show ?case by (simp add: add.assoc)
qed

lemma dsum_few:
  assumes "decimal_laws D" and "\<And>x. x \<in> set xs \<Longrightarrow> two_decimals x \<and> fits_column x" and "length xs \<le> 50"
  shows "dsum D xs = sum_list xs"
  using fold_exact[OF assms(1,2), where a = 0 and n = 0] assms(3) by (simp add: dsum_def)

lemma dplus_negative:
  assumes D: "decimal_laws D"
  shows "dplus D a b < 0 \<longleftrightarrow> a + b < 0"
proof (cases "a + b < 0")
  case True
  have "2 \<le> digits D" using decimal_laws.digits_enough[OF D] by simp
  then have "(10 :: rat) ^ 1 \<le> 10 ^ (digits D - 1)" by (intro power_increasing) auto
  then have "\<bar>a + b\<bar> * 1 < \<bar>a + b\<bar> * 10 ^ (digits D - 1)" using True by (intro mult_strict_left_mono) auto
  then have "\<bar>a + b\<bar> / 10 ^ (digits D - 1) < \<bar>a + b\<bar>" by (simp add: divide_less_eq)
  then show ?thesis using True decimal_laws.sig_close[OF D, of "a + b"] unfolding dplus_def by linarith
next
  case False
  then show ?thesis using decimal_laws.sig_nonneg[OF D, of "a + b"] by (simp add: dplus_def)
qed

lemma colon_split:
  assumes "a @ CHR '':'' # x = b @ CHR '':'' # y" "CHR '':'' \<notin> set x" "CHR '':'' \<notin> set y"
  shows "a = b \<and> x = y"
proof -
  have "dropWhile (\<lambda>c. c \<noteq> CHR '':'') (rev (u @ CHR '':'' # v)) = CHR '':'' # rev u"
    and "takeWhile (\<lambda>c. c \<noteq> CHR '':'') (rev (u @ CHR '':'' # v)) = rev v"
    if "CHR '':'' \<notin> set v" for u v
    using that by (auto simp: dropWhile_append takeWhile_append)
  then show ?thesis using assms by (metis list.inject rev_rev_ident)
qed

lemma digit_no_colon: "d < 10 \<Longrightarrow> CHR '':'' \<noteq> char_of (48 + d :: nat)"
proof
  assume d: "d < 10" and "CHR '':'' = char_of (48 + d)"
  then have "(of_char CHR '':'' :: nat) = of_char (char_of (48 + d) :: char)" by simp
  then have "58 = (48 + d) mod 256" by (simp only: of_char_of) simp
  with d show False by simp
qed

lemma digits_no_colon [simp]: "CHR '':'' \<notin> set (nat_digits n)"
proof (induction n rule: nat_digits.induct)
  case (1 n)
  show ?case
  proof (cases "n < 10")
    case True then show ?thesis using digit_no_colon[of n] by (subst nat_digits.simps) simp
  next
    case False then show ?thesis using 1 digit_no_colon[of "n mod 10"] by (subst nat_digits.simps) simp
  qed
qed

lemma refund_key_inj [simp]: "refund_key i m = refund_key j n \<longleftrightarrow> i = j \<and> m = n"
  using colon_split[of i "nat_digits m" j "nat_digits n"] by (auto simp: refund_key_def)

lemma message_key_inj [simp]: "message_key i m = message_key j n \<longleftrightarrow> i = j \<and> m = n"
  using colon_split[of i "nat_digits m" j "nat_digits n"] by (auto simp: message_key_def)

lemma key_kinds [simp]:
  "message_key i m \<noteq> refund_key j n" "refund_key j n \<noteq> message_key i m"
  "message_key i m \<noteq> ''admin:'' @ k" "refund_key i m \<noteq> ''admin:'' @ k"
  "''admin:'' @ k \<noteq> message_key i m" "''admin:'' @ k \<noteq> refund_key i m"
  "message_key i m \<noteq> CHR ''a'' # x" "refund_key i m \<noteq> CHR ''a'' # x"
  by (simp_all add: message_key_def refund_key_def)

section \<open>The invariant of the wallet\<close>

text \<open>
  \<open>net\<close> is what a list of entries adds up to. A message's own entries never add up to a credit, have
  a refund for at most every charge, at most the three charges of its attempts, and the refund in
  position \<open>i\<close> carries the number \<open>i\<close> in its key.
\<close>

definition net :: "wa_entry list \<Rightarrow> rat" where
  "net es = sum_list (map be_amount es)"

definition of_kind :: "entry_kind \<Rightarrow> wa_entry list \<Rightarrow> nat" where
  "of_kind k es = length (filter (\<lambda>e. be_kind e = k) es)"

definition charge_ok :: "string \<Rightarrow> wa_entry list \<Rightarrow> bool" where
  "charge_ok mid es \<longleftrightarrow> net es \<le> 0 \<and>
     of_kind ENTRY_REFUND es + (if net es < 0 then 1 else 0) \<le> of_kind ENTRY_MESSAGE es \<and>
     (\<forall>e \<in> set es. be_kind e \<in> {ENTRY_MESSAGE, ENTRY_REFUND} \<and>
        (be_kind e = ENTRY_MESSAGE \<longrightarrow> be_key e \<in> message_key mid ` {1..3})) \<and>
     (\<forall>i < length es. be_kind (es ! i) = ENTRY_REFUND \<longrightarrow> be_key (es ! i) = refund_key mid i)"

definition entry_keys :: "'a wa_db_scheme \<Rightarrow> (string \<times> string) list" where
  "entry_keys s = map (\<lambda>e. (be_store e, be_key e)) (wa_entries s)"

definition entry_ok :: "wa_entry \<Rightarrow> bool" where
  "entry_ok e \<longleftrightarrow> two_decimals (be_amount e) \<and> fits_column (be_amount e) \<and>
     (be_message e = None \<longrightarrow> (\<exists>k. be_key e = ''admin:'' @ k))"

definition price_ok :: "rat \<Rightarrow> bool" where
  "price_ok p \<longleftrightarrow> 0 < p \<and> two_decimals p \<and> fits_column p"

definition wallet_ok :: "'a wa_db_scheme \<Rightarrow> bool" where
  "wallet_ok s \<longleftrightarrow> distinct (entry_keys s) \<and> (\<forall>e \<in> set (wa_entries s). entry_ok e) \<and>
     (\<forall>store mid. charge_ok mid (message_entries store mid s)) \<and>
     (\<forall>store currency. 0 \<le> getBalance store currency s) \<and>
     (\<forall>p \<in> set (wa_pricing s). price_ok (wp_amount p))"

definition add_entry :: "wa_entry \<Rightarrow> 'a wa_db_scheme \<Rightarrow> 'a wa_db_scheme" where
  "add_entry e s = s\<lparr>wa_entries := wa_entries s @ [e]\<rparr>"

lemma add_entry_sel [simp]:
  "wa_entries (add_entry e s) = wa_entries s @ [e]" "wa_messages (add_entry e s) = wa_messages s"
  "wa_pricing (add_entry e s) = wa_pricing s" "store_rows (add_entry e s) = store_rows s"
  by (simp_all add: add_entry_def)

lemma net_simps [simp]: "net [] = 0" "net (xs @ ys) = net xs + net ys" "net [e] = be_amount e"
  by (simp_all add: net_def)

lemma of_kind_simps [simp]:
  "of_kind k [] = 0" "of_kind k (xs @ ys) = of_kind k xs + of_kind k ys"
  "of_kind k [e] = (if be_kind e = k then 1 else 0)"
  by (simp_all add: of_kind_def)

lemma message_entries_add:
  "message_entries store mid (add_entry e s) =
   message_entries store mid s @ (if be_store e = store \<and> be_message e = Some mid then [e] else [])"
  by (simp add: message_entries_def)

lemma getBalance_add:
  "getBalance store currency (add_entry e s) =
   getBalance store currency s + (if be_store e = store \<and> be_currency e = currency then be_amount e else 0)"
  by (simp add: getBalance_def)

lemma entry_keys_add: "entry_keys (add_entry e s) = entry_keys s @ [(be_store e, be_key e)]"
  by (simp add: entry_keys_def)

lemma wallet_keys: "wallet_ok s \<Longrightarrow> distinct (entry_keys s)"
  by (simp add: wallet_ok_def)

lemma wallet_entry: "wallet_ok s \<Longrightarrow> e \<in> set (wa_entries s) \<Longrightarrow> entry_ok e"
  by (simp add: wallet_ok_def)

lemma wallet_charge: "wallet_ok s \<Longrightarrow> charge_ok mid (message_entries store mid s)"
  by (simp add: wallet_ok_def)

lemma wallet_balance: "wallet_ok s \<Longrightarrow> 0 \<le> getBalance store currency s"
  by (simp add: wallet_ok_def)

lemma wallet_price: "wallet_ok s \<Longrightarrow> getPrice currency s = Some p \<Longrightarrow> price_ok p"
  by (auto simp: wallet_ok_def getPrice_def dest: find_Some_set)

lemma wallet_frame:
  "wa_entries t = wa_entries s \<Longrightarrow> wa_pricing t = wa_pricing s \<Longrightarrow> wallet_ok t = wallet_ok s"
  by (simp add: wallet_ok_def entry_keys_def message_entries_def getBalance_def)

text \<open>At most three charges, hence at most six entries, whose sum the library computes exactly.\<close>

lemma few_charges:
  assumes "wallet_ok s" shows "of_kind ENTRY_MESSAGE (message_entries store mid s) \<le> 3"
proof -
  let ?es = "filter (\<lambda>e. be_kind e = ENTRY_MESSAGE) (message_entries store mid s)"
  have eq: "map (\<lambda>e. (be_store e, be_key e)) ?es = map (Pair store) (map be_key ?es)"
    by (auto simp: message_entries_def)
  have "distinct (map (\<lambda>e. (be_store e, be_key e)) ?es)"
    using wallet_keys[OF assms] by (simp add: entry_keys_def message_entries_def distinct_map_filter)
  then have "distinct (map be_key ?es)" unfolding eq using distinct_map[of "Pair store" "map be_key ?es"] by blast
  moreover have "set (map be_key ?es) \<subseteq> message_key mid ` {1..3}"
    using wallet_charge[OF assms, of mid store] by (auto simp: charge_ok_def)
  ultimately have "length (map be_key ?es) \<le> card (message_key mid ` {1..3})"
    by (metis card_mono distinct_card finite_atLeastAtMost finite_imageI)
  also have "\<dots> \<le> 3" using card_image_le[of "{1..3::nat}" "message_key mid"] by simp
  finally show ?thesis by (simp add: of_kind_def)
qed

lemma kinds_cover:
  assumes "charge_ok mid es" shows "length es = of_kind ENTRY_MESSAGE es + of_kind ENTRY_REFUND es"
proof -
  have "filter (\<lambda>e. \<not> be_kind e = ENTRY_MESSAGE) es = filter (\<lambda>e. be_kind e = ENTRY_REFUND) es"
    using assms by (intro filter_cong) (auto simp: charge_ok_def)
  then show ?thesis using sum_length_filter_compl[of "\<lambda>e. be_kind e = ENTRY_MESSAGE" es] by (simp add: of_kind_def)
qed

lemma few_entries:
  assumes "wallet_ok s" shows "length (message_entries store mid s) \<le> 6"
  using few_charges[OF assms, of store mid] kinds_cover[OF wallet_charge[OF assms, of mid store]]
    wallet_charge[OF assms, of mid store] by (auto simp: charge_ok_def)

lemma refund_sum:
  assumes "wallet_ok s" "decimal_laws D"
  shows "dsum D (map be_amount (message_entries store mid s)) = net (message_entries store mid s)"
proof -
  have "two_decimals x \<and> fits_column x" if "x \<in> set (map be_amount (message_entries store mid s))" for x
    using that wallet_entry[OF assms(1)] by (auto simp: message_entries_def entry_ok_def)
  moreover have "length (map be_amount (message_entries store mid s)) \<le> 50"
    using few_entries[OF assms(1), of store mid] by simp
  ultimately show ?thesis unfolding net_def by (rule dsum_few[OF assms(2)])
qed

section \<open>The writers\<close>

lemma create_entry_run:
  "create_entry e s = (if \<not> fits_column (be_amount e) then (Inl (Internal ''numeric field overflow''), s)
     else if (be_store e, be_key e) \<in> set (entry_keys s) then (Inl UniqueViolation, s)
     else (Inr (), add_entry e s))"
proof -
  have "list_ex (\<lambda>x. be_store x = be_store e \<and> be_key x = be_key e) (wa_entries s) \<longleftrightarrow>
      (be_store e, be_key e) \<in> set (entry_keys s)"
    unfolding list_ex_iff entry_keys_def set_map image_iff prod.inject by metis
  then show ?thesis by (simp add: create_entry_def act_defs add_entry_def)
qed

lemma debit_run:
  "debitForMessage D store mid n a currency s =
     (if getBalance store currency s < a then (Inr (Short (getBalance store currency s)), s)
      else if \<not> fits_column a then (Inl (Internal ''numeric field overflow''), s)
      else if (store, message_key mid n) \<in> set (entry_keys s) then (Inl UniqueViolation, s)
      else (Inr (Debited (dminus D (getBalance store currency s) a)), add_entry (debit_entry store mid n a currency) s))"
  by (simp add: debitForMessage_def transaction_def bnd_def andthen_def reading_def ret_def create_entry_run debit_entry_def)

lemma refund_run:
  assumes "wallet_ok s" "decimal_laws D"
  shows "refundMessage D store mid s =
    (let es = message_entries store mid s; e = refund_entry store mid es (net es) in
     if \<not> net es < 0 then (Inr False, s)
     else if \<not> fits_column (net es) then (Inl (Internal ''numeric field overflow''), s)
     else if (store, be_key e) \<in> set (entry_keys s) then (Inl UniqueViolation, s)
     else (Inr True, add_entry e s))"
  using refund_sum[OF assms, of store mid]
  by (auto simp: refundMessage_def transaction_def bnd_def andthen_def reading_def ret_def create_entry_run
      refund_entry_def Let_def)

text \<open>The key of a refund is always new: it carries the number of entries before it.\<close>

lemma refund_key_fresh:
  assumes ok: "wallet_ok s"
  shows "(store, refund_key mid (length (message_entries store mid s))) \<notin> set (entry_keys s)"
proof
  let ?n = "length (message_entries store mid s)"
  assume "(store, refund_key mid ?n) \<in> set (entry_keys s)"
  then obtain e where e: "e \<in> set (wa_entries s)" "be_store e = store" "be_key e = refund_key mid ?n"
    by (auto simp: entry_keys_def)
  obtain i where i: "be_message e = Some i"
    using wallet_entry[OF ok e(1)] e(3) by (cases "be_message e") (auto simp: entry_ok_def)
  have mem: "e \<in> set (message_entries store i s)" using e i by (simp add: message_entries_def)
  then obtain k where k: "k < length (message_entries store i s)" "message_entries store i s ! k = e"
    by (auto simp: in_set_conv_nth)
  have "be_kind e \<in> {ENTRY_MESSAGE, ENTRY_REFUND}" "be_kind e = ENTRY_MESSAGE \<longrightarrow> be_key e \<in> message_key i ` {1..3}"
    "be_kind e = ENTRY_REFUND \<longrightarrow> be_key e = refund_key i k"
    using wallet_charge[OF ok, of i store] mem k by (auto simp: charge_ok_def)
  with e(3) have "refund_key mid ?n = refund_key i k" by auto
  with k(1) show False by auto
qed

text \<open>A refund of a message whose net charge fits a column brings it back to zero.\<close>

lemma refund_settles:
  assumes "wallet_ok s" "decimal_laws D" and fits: "fits_column (net (message_entries store mid s))"
  shows "refundMessage D store mid s =
    (if net (message_entries store mid s) < 0
     then (Inr True, add_entry (refund_entry store mid (message_entries store mid s) (net (message_entries store mid s))) s)
     else (Inr False, s))"
  using refund_run[OF assms(1,2), of store mid] refund_key_fresh[OF assms(1), of store mid] fits
  by (simp add: Let_def refund_entry_def)

lemma net_two:
  assumes "wallet_ok s" shows "two_decimals (net (message_entries store mid s))"
proof -
  have "two_decimals (net es)" if "\<forall>e \<in> set es. two_decimals (be_amount e)" for es
    using that by (induction es) (auto simp: net_def two_decimals_grid on_grid_add)
  then show ?thesis using wallet_entry[OF assms] by (auto simp: message_entries_def entry_ok_def)
qed

text \<open>Appending an entry keeps the invariant when the entry is well formed and its list stays so.\<close>

lemma wallet_add:
  assumes ok: "wallet_ok s" and new: "(be_store e, be_key e) \<notin> set (entry_keys s)" and e: "entry_ok e"
    and charge: "\<And>mid. be_message e = Some mid \<Longrightarrow> charge_ok mid (message_entries (be_store e) mid s @ [e])"
    and balance: "0 \<le> getBalance (be_store e) (be_currency e) s + be_amount e"
  shows "wallet_ok (add_entry e s)"
  unfolding wallet_ok_def
proof (intro conjI allI ballI)
  show "distinct (entry_keys (add_entry e s))" using wallet_keys[OF ok] new by (simp add: entry_keys_add)
  show "charge_ok mid (message_entries store mid (add_entry e s))" for store mid
    using wallet_charge[OF ok, of mid store] charge[of mid] by (auto simp: message_entries_add)
  show "0 \<le> getBalance store currency (add_entry e s)" for store currency
    using wallet_balance[OF ok, of store currency] balance by (auto simp: getBalance_add)
  show "entry_ok x" if "x \<in> set (wa_entries (add_entry e s))" for x
    using that wallet_entry[OF ok] e by auto
  show "price_ok (wp_amount p)" if "p \<in> set (wa_pricing (add_entry e s))" for p
    using that ok by (simp add: wallet_ok_def)
qed

lemma charge_ok_debit:
  assumes "charge_ok mid es" "0 < a" "n \<in> {1..3}"
  shows "charge_ok mid (es @ [debit_entry store mid n a currency])"
  using assms by (auto simp: charge_ok_def debit_entry_def nth_append split: if_splits)

lemma charge_ok_refund:
  assumes "charge_ok mid es" "net es < 0"
  shows "charge_ok mid (es @ [refund_entry store mid es (net es)])"
  using assms by (auto simp: charge_ok_def refund_entry_def nth_append less_Suc_eq split: if_splits)

lemma debit_keeps:
  assumes ok: "wallet_ok s" and a: "price_ok a" and n: "n \<in> {1..3}"
  shows "wallet_ok (snd (debitForMessage D store mid n a currency s))"
proof -
  let ?e = "debit_entry store mid n a currency"
  have "wallet_ok (add_entry ?e s)" if "\<not> getBalance store currency s < a" "(store, message_key mid n) \<notin> set (entry_keys s)"
  proof (rule wallet_add[OF ok])
    show "charge_ok i (message_entries (be_store ?e) i s @ [?e])" if "be_message ?e = Some i" for i
      using that charge_ok_debit[OF wallet_charge[OF ok, of mid store] _ n] a by (simp add: debit_entry_def price_ok_def)
  qed (use that a in \<open>auto simp: debit_entry_def entry_ok_def price_ok_def\<close>)
  then show ?thesis using ok by (simp add: debit_run)
qed

lemma refund_keeps:
  assumes ok: "wallet_ok s" and D: "decimal_laws D"
  shows "wallet_ok (snd (refundMessage D store mid s))"
proof -
  let ?es = "message_entries store mid s" let ?e = "refund_entry store mid ?es (net ?es)"
  have "wallet_ok (add_entry ?e s)" if neg: "net ?es < 0" and fits: "fits_column (net ?es)"
    and new: "(store, be_key ?e) \<notin> set (entry_keys s)"
  proof (rule wallet_add[OF ok])
    show "charge_ok i (message_entries (be_store ?e) i s @ [?e])" if "be_message ?e = Some i" for i
      using that charge_ok_refund[OF wallet_charge[OF ok, of mid store] neg] by (simp add: refund_entry_def)
    show "0 \<le> getBalance (be_store ?e) (be_currency ?e) s + be_amount ?e"
      using wallet_balance[OF ok, of store "be_currency ?e"] neg by (simp add: refund_entry_def)
  qed (use new fits net_two[OF ok, of store mid] in \<open>auto simp: refund_entry_def entry_ok_def\<close>)
  then show ?thesis using ok by (simp add: refund_run[OF ok D] Let_def)
qed

text \<open>The alerts do not touch the wallet.\<close>

definition same_wallet :: "'a wa_db_scheme \<Rightarrow> 'a wa_db_scheme \<Rightarrow> bool" where
  "same_wallet s t \<longleftrightarrow> wa_entries t = wa_entries s \<and> wa_pricing t = wa_pricing s \<and> wa_messages t = wa_messages s"

lemma same_wallet_refl [simp]: "same_wallet s s"
  by (simp add: same_wallet_def)

lemma same_wallet_trans: "same_wallet s t \<Longrightarrow> same_wallet t u \<Longrightarrow> same_wallet s u"
  by (simp add: same_wallet_def)

lemma same_wallet_ok: "same_wallet s t \<Longrightarrow> wallet_ok t = wallet_ok s"
  by (rule wallet_frame) (auto simp: same_wallet_def)

lemma raise_run: "\<exists>t. raise_alert a s = (Inr (), t) \<and> same_wallet s t"
  by (simp add: raise_alert_def act_defs same_wallet_def)

lemma resolve_run: "\<exists>t. resolve_alerts now store ks s = (Inr (), t) \<and> same_wallet s t"
  by (simp add: resolve_alerts_def act_defs same_wallet_def)

lemma checkLowBalance_run: "\<exists>t. checkLowBalance D n now store currency b s = (Inr (), t) \<and> same_wallet s t"
  using raise_run[of _ s] resolve_run[of now store _ s]
  by (simp add: checkLowBalance_def bnd_def reading_def ret_def split: option.split)

lemma checkLowBalance_same: "same_wallet s (snd (checkLowBalance D n now store currency b s))"
  using checkLowBalance_run[of D n now store currency b s] by auto

lemma parseAmount_ok: "parseAmount parse v = Inr x \<Longrightarrow> two_decimals x"
  by (auto simp: parseAmount_def split: option.splits if_splits)

lemma credit_entry_keeps:
  assumes ok: "wallet_ok s" and x: "two_decimals x" "fits_column x" "0 \<le> getBalance store currency s + x"
    and new: "(store, ''admin:'' @ ci_key d) \<notin> set (entry_keys s)"
  shows "wallet_ok (add_entry (credit_entry store d x currency admin) s)"
  by (rule wallet_add[OF ok]) (use x new in \<open>auto simp: credit_entry_def entry_ok_def\<close>)

lemma wallet_credit_body_keeps:
  assumes D: "decimal_laws D" and x: "two_decimals x"
  shows "keeps wallet_ok (wallet_credit_body D store d x currency admin)"
proof (rule keepsI)
  fix s r t assume ok: "wallet_ok s" and run: "wallet_credit_body D store d x currency admin s = (Inr r, t)"
  have "t = s \<or> \<not> dplus D (getBalance store currency s) x < 0 \<and>
      create_entry (credit_entry store d x currency admin) s = (Inr (), t)"
    using run unfolding wallet_credit_body_def by (auto simp: run_ok split: option.splits)
  then show "wallet_ok t"
  proof
    assume new: "\<not> dplus D (getBalance store currency s) x < 0 \<and>
      create_entry (credit_entry store d x currency admin) s = (Inr (), t)"
    then have "0 \<le> getBalance store currency s + x" by (simp add: dplus_negative[OF D])
    then show ?thesis using new credit_entry_keeps[OF ok x, of store currency d admin]
      by (auto simp: create_entry_run credit_entry_def split: if_splits)
  qed (use ok in simp)
qed

lemma adminCredit_keeps:
  assumes D: "decimal_laws D"
  shows "preserves wallet_ok (adminCredit D parse n now store d admin)"
proof (rule preservesI)
  fix s assume ok: "wallet_ok s"
  show "wallet_ok (snd (adminCredit D parse n now store d admin s))"
  proof (cases "find_store store s")
    case None then show ?thesis using ok by (simp add: adminCredit_def act_defs)
  next
    case (Some row)
    show ?thesis
    proof (cases "parseAmount parse (ci_amount d)")
      case (Inl e) then show ?thesis using ok Some by (simp add: adminCredit_def act_defs)
    next
      case (Inr x)
      have tx: "preserves wallet_ok (transaction (wallet_credit_body D store d x (st_currency row) admin))"
        by (rule preserves_transaction_keeps[OF wallet_credit_body_keeps[OF D parseAmount_ok[OF Inr]]])
      have low: "preserves wallet_ok (checkLowBalance D n now store (st_currency row) b)" for b
        by (rule preservesI) (simp add: same_wallet_ok[OF checkLowBalance_same])
      have "preserves wallet_ok
        (andthen (require (x \<noteq> 0) (BadRequest ''amount must not be zero''))
          (andthen (require (\<not> (ci_kind d = ENTRY_TOP_UP \<and> x < 0))
              (BadRequest ''A top-up must be positive; use ADJUSTMENT to remove credit''))
          (bnd (transaction (wallet_credit_body D store d x (st_currency row) admin)) (\<lambda>r.
            andthen (checkLowBalance D n now store (st_currency row) (cr_balance r)) (ret r)))))"
        by (rule preserves_andthen preserves_bnd preserves_require preserves_ret tx low)+
      from preservesD[OF this ok] show ?thesis using Some Inr
        by (simp add: adminCredit_def bnd_def reading_def found_def ret_def lift_sum_def)
    qed
  qed
qed

lemma setPricing_keeps: "preserves wallet_ok (setPricing parse currency v admin)"
proof (rule preservesI)
  fix s assume ok: "wallet_ok s"
  show "wallet_ok (snd (setPricing parse currency v admin s))"
  proof (cases "parseAmount parse v")
    case (Inl e) then show ?thesis using ok by (simp add: setPricing_def act_defs)
  next
    case (Inr x)
    have keep: "wallet_ok (s\<lparr>wa_pricing := ps\<rparr>)" if "\<And>p. p \<in> set ps \<Longrightarrow> p \<in> set (wa_pricing s) \<or> price_ok (wp_amount p)" for ps
      using ok that unfolding wallet_ok_def entry_keys_def message_entries_def getBalance_def by force
    show ?thesis using ok Inr parseAmount_ok[OF Inr]
      by (auto simp: setPricing_def act_defs Let_def price_ok_def split: if_splits intro!: keep)
  qed
qed

end
