(* ===== verification/WhatsApp_Dispatch.thy ===== *)
theory WhatsApp_Dispatch
  imports WhatsApp_Wallet
begin

text \<open>
  Sending the WhatsApp messages: \<open>src/whatsapp/whatsapp-trigger.service.ts\<close> queues a message when a
  courier reports a status, \<open>whatsapp-dispatch.service.ts\<close> claims the due messages, charges the
  store, calls Meta and books the outcome, and \<open>whatsapp-webhook.service.ts\<close> applies what Meta
  reports later. Several dispatch runs and webhooks work on the same rows at once, so a run is
  cut at its queries: a \<open>worker\<close> is the point a call has reached with its local variables, and
  \<open>turn\<close> executes its next query. Meta's answers are arguments, AES decryption is a parameter.
\<close>

section \<open>src/whatsapp/whatsapp.constants.ts\<close>

definition WHATSAPP_TRIGGERS :: "ship_status list" where
  "WHATSAPP_TRIGGERS = [SS_PICKED_UP, SS_AT_WAREHOUSE, SS_IN_TRANSIT, SS_OUT_FOR_DELIVERY,
     SS_POSTPONED, SS_CANCELLED, SS_REFUSED, SS_DELIVERED]"

definition isWhatsAppTrigger :: "ship_status \<Rightarrow> bool" where
  "isWhatsAppTrigger st \<longleftrightarrow> st \<in> set WHATSAPP_TRIGGERS"

definition MAX_SEND_ATTEMPTS :: nat where
  "MAX_SEND_ATTEMPTS = 3"

definition RETRY_DELAY_MINUTES :: int where
  "RETRY_DELAY_MINUTES = 5"

definition SENDING_STALE_MINUTES :: int where
  "SENDING_STALE_MINUTES = 10"

definition template_name :: "ship_status \<Rightarrow> string" where
  "template_name st = ''zomaal_order_'' @ (case st of
       SS_PICKED_UP \<Rightarrow> ''picked_up'' | SS_AT_WAREHOUSE \<Rightarrow> ''at_warehouse'' | SS_IN_TRANSIT \<Rightarrow> ''in_transit''
     | SS_OUT_FOR_DELIVERY \<Rightarrow> ''out_for_delivery'' | SS_POSTPONED \<Rightarrow> ''postponed''
     | SS_CANCELLED \<Rightarrow> ''cancelled'' | SS_REFUSED \<Rightarrow> ''refused'' | SS_DELIVERED \<Rightarrow> ''delivered'' | _ \<Rightarrow> [])"

definition WHATSAPP_LANGUAGES :: "string list" where
  "WHATSAPP_LANGUAGES = [''en'', ''ar'', ''fr'']"

text \<open>The Arabic fallback is given by its UTF-8 bytes.\<close>

definition CUSTOMER_NAME_FALLBACK :: "string \<Rightarrow> string" where
  "CUSTOMER_NAME_FALLBACK language =
     (if language = ''en'' then ''there''
      else if language = ''ar'' then
        [CHR 0xD8, CHR 0xB9, CHR 0xD9, CHR 0x85, CHR 0xD9, CHR 0x8A, CHR 0xD9, CHR 0x84, CHR 0xD9, CHR 0x86,
         CHR 0xD8, CHR 0xA7, CHR 0x20, CHR 0xD8, CHR 0xA7, CHR 0xD9, CHR 0x84, CHR 0xD8, CHR 0xB9, CHR 0xD8,
         CHR 0xB2, CHR 0xD9, CHR 0x8A, CHR 0xD8, CHR 0xB2]
      else ''cher client'')"

section \<open>src/whatsapp/whatsapp-trigger.service.ts and whatsapp-phone.util.ts\<close>

text \<open>
  What lies outside the repository or in its configuration: libphonenumber (the E.164 form and the
  type of a valid number in a default country), the countries and their English names, the
  decryption of a token for an account, and the numbers read from the environment, 0 standing
  for a missing or unreadable one.
\<close>

record wa_env =
  ev_decimal :: decimal_lib
  ev_enabled :: bool
  ev_maxAgeHours :: rat
  ev_lowMessages :: rat
  ev_batch :: rat
  ev_phone :: "string \<Rightarrow> string \<Rightarrow> (string \<times> string option) option"
  ev_countries :: "string list"
  ev_countryNamed :: "string \<Rightarrow> string option"
  ev_defaultCountry :: "string option"
  ev_decrypts :: "string \<Rightarrow> string \<Rightarrow> bool"

definition FALLBACK_COUNTRY :: string where
  "FALLBACK_COUNTRY = ''MA''"

definition js_lower :: "string \<Rightarrow> string" where
  "js_lower = map (\<lambda>c. if 65 \<le> (of_char c :: nat) \<and> (of_char c :: nat) \<le> 90 then char_of ((of_char c :: nat) + 32) else c)"

definition resolveCountryCode :: "wa_env \<Rightarrow> string \<Rightarrow> string" where
  "resolveCountryCode E country =
     (let value = js_trim country;
          fb = (case ev_defaultCountry E of None \<Rightarrow> FALLBACK_COUNTRY | Some f \<Rightarrow> js_upper (js_trim f));
          fallback = (if fb \<in> set (ev_countries E) then fb else FALLBACK_COUNTRY) in
      if length value = 2 \<and> js_upper value \<in> set (ev_countries E) then js_upper value
      else if value \<noteq> [] then (case ev_countryNamed E (js_lower value) of Some c \<Rightarrow> c | None \<Rightarrow> fallback)
      else fallback)"

definition toE164 :: "wa_env \<Rightarrow> string option \<Rightarrow> string \<Rightarrow> string option" where
  "toE164 E raw country = (case or_null raw of
       None \<Rightarrow> None
     | Some value \<Rightarrow>
         (case ev_phone E (if starts_with ''00'' value then ''+'' @ drop 2 value else value) country of
            None \<Rightarrow> None
          | Some (number, kind) \<Rightarrow>
              if kind \<in> {None, Some ''MOBILE'', Some ''FIXED_LINE_OR_MOBILE''} then Some number else None))"

fun firstNonEmpty :: "string option list \<Rightarrow> string option" where
  "firstNonEmpty [] = None"
| "firstNonEmpty (v # vs) = (case or_null v of Some x \<Rightarrow> Some x | None \<Rightarrow> firstNonEmpty vs)"

fun first_some :: "'b option list \<Rightarrow> 'b option" where
  "first_some [] = None"
| "first_some (Some x # vs) = Some x"
| "first_some (None # vs) = first_some vs"

definition truncate_text :: "string \<Rightarrow> nat \<Rightarrow> string" where
  "truncate_text v n = (if length v > n then take (n - 1) v @ [CHR 0xE2, CHR 0x80, CHR 0xA6] else v)"

definition toLanguage :: "string \<Rightarrow> string" where
  "toLanguage v = (if v \<in> set WHATSAPP_LANGUAGES then v else ''fr'')"

datatype queue_result = QUEUED | SKIPPED_NO_PHONE | ALREADY_QUEUED | NOT_A_TRIGGER | STALE_STATUS
  | NOT_CONNECTED | AUTOMATION_OFF | ORDER_NOT_FOUND

record status_input =
  si_order :: string
  si_status :: ship_status
  si_changedAt :: "int option"
  si_phone :: "string option"
  si_name :: "string option"

definition connection_of :: "string \<Rightarrow> 'a wa_db_scheme \<Rightarrow> wa_connection option" where
  "connection_of store s = find (\<lambda>c. cn_store c = store) (wa_connections s)"

definition setting_of :: "string \<Rightarrow> ship_status \<Rightarrow> 'a wa_db_scheme \<Rightarrow> wa_setting option" where
  "setting_of store trigger s = find (\<lambda>x. ws_store x = store \<and> ws_trigger x = trigger) (wa_settings s)"

definition DEFAULT_MAX_STATUS_AGE_HOURS :: rat where
  "DEFAULT_MAX_STATUS_AGE_HOURS = 24"

definition stale_status :: "wa_env \<Rightarrow> int \<Rightarrow> int option \<Rightarrow> bool" where
  "stale_status E now changedAt = (case changedAt of None \<Rightarrow> False
     | Some t \<Rightarrow> of_int (now - t) >
         (if ev_maxAgeHours E = 0 then DEFAULT_MAX_STATUS_AGE_HOURS else ev_maxAgeHours E) * 3600000)"

definition queued_message ::
  "wa_env \<Rightarrow> int \<Rightarrow> string \<Rightarrow> status_input \<Rightarrow> wa_order \<Rightarrow> store_row \<Rightarrow> wa_connection \<Rightarrow> wa_setting \<Rightarrow> wa_message" where
  "queued_message E now uuid d o' store cn setting =
     (let language = toLanguage (cn_language cn); country = resolveCountryCode E (st_country store);
          phone = first_some (map (\<lambda>p. toE164 E p country)
            [si_phone d, Option.bind (wo_customer o') snd, wo_manualPhone o']);
          name = firstNonEmpty [si_name d, Option.bind (wo_customer o') fst, wo_manualName o'];
          label = (case firstNonEmpty [wo_name o', wo_tracking o'] of Some l \<Rightarrow> l | None \<Rightarrow> ''#'' @ wo_external o') in
      \<lparr>wm_id = uuid, wm_store = st_id store, wm_order = Some (wo_id o'), wm_trigger = si_status d,
       wm_templateName = template_name (si_status d), wm_language = language,
       wm_phone = (case phone of None \<Rightarrow> [] | Some p \<Rightarrow> p),
       wm_variables = [truncate_text (case name of None \<Rightarrow> CUSTOMER_NAME_FALLBACK language | Some n \<Rightarrow> n) 60,
         truncate_text label 40, truncate_text (st_businessName store) 60],
       wm_status = (if phone = None then MSG_SKIPPED else MSG_SCHEDULED),
       wm_sendAfter = now + ws_delay setting * 60000, wm_attempts = 0, wm_sentAt = None,
       wm_deliveredAt = None, wm_readAt = None, wm_failedAt = None, wm_provider = None,
       wm_errorCode = (if phone = None then Some ''NO_VALID_PHONE'' else None),
       wm_errorMessage = (if phone = None then Some ''The order has no valid mobile number for the customer'' else None),
       wm_cost = None, wm_currency = st_currency store,
       wm_key = wo_id o' @ '':'' @ ship_status_name (si_status d), wm_updatedAt = now\<rparr>)"

text \<open>The uuid of a new row is fresh; the unique index on the store and the key answers a repetition.\<close>

definition queue_message :: "wa_message \<Rightarrow> ('a wa_db_scheme, queue_result) act" where
  "queue_message m =
     bnd (reading (\<lambda>s. list_ex (\<lambda>x. wm_store x = wm_store m \<and> wm_key x = wm_key m) (wa_messages s))) (\<lambda>taken.
     if taken then ret ALREADY_QUEUED
     else bnd (reading (\<lambda>s. list_ex (\<lambda>x. wm_id x = wm_id m) (wa_messages s))) (\<lambda>used.
       if used then throw UniqueViolation
       else andthen (writing (\<lambda>s. s\<lparr>wa_messages := wa_messages s @ [m]\<rparr>))
         (ret (if wm_status m = MSG_SKIPPED then SKIPPED_NO_PHONE else QUEUED))))"

definition onShipmentStatus :: "wa_env \<Rightarrow> int \<Rightarrow> string \<Rightarrow> status_input \<Rightarrow> ('a wa_db_scheme, queue_result) act" where
  "onShipmentStatus E now uuid d =
     (if \<not> isWhatsAppTrigger (si_status d) then ret NOT_A_TRIGGER
      else if \<not> ev_enabled E then ret NOT_CONNECTED
      else if stale_status E now (si_changedAt d) then ret STALE_STATUS
      else bnd (reading (\<lambda>s. find (\<lambda>x. wo_id x = si_order d) (wa_orders s))) (\<lambda>order. case order of
          None \<Rightarrow> ret ORDER_NOT_FOUND
        | Some o' \<Rightarrow>
          bnd (reading (find_store (wo_store o'))) (\<lambda>store.
          bnd (found store (Internal ''Inconsistent query result'')) (\<lambda>store.
          bnd (reading (connection_of (st_id store))) (\<lambda>cn. case cn of
              None \<Rightarrow> ret NOT_CONNECTED
            | Some c \<Rightarrow> if cn_status c \<noteq> CONN_ACTIVE then ret NOT_CONNECTED
                else bnd (reading (setting_of (st_id store) (si_status d))) (\<lambda>setting. case setting of
                    None \<Rightarrow> ret AUTOMATION_OFF
                  | Some x \<Rightarrow> if \<not> ws_enabled x then ret AUTOMATION_OFF
                      else queue_message (queued_message E now uuid d o' store c x)))))))"

section \<open>Meta's errors, src/whatsapp/meta-whatsapp-api.service.ts\<close>

record graph_error =
  ge_message :: string
  ge_http :: int
  ge_code :: "int option"

definition TRANSIENT_ERROR_CODES :: "int list" where
  "TRANSIENT_ERROR_CODES = [1, 2, 4, 17, 341, 130429, 131000, 131016, 131048, 131056]"

definition AUTH_ERROR_CODES :: "int list" where
  "AUTH_ERROR_CODES = [102, 190, 200, 10]"

definition isAuthError :: "graph_error \<Rightarrow> bool" where
  "isAuthError e \<longleftrightarrow> ge_http e = 401 \<or> (\<exists>c \<in> set_option (ge_code e). c \<in> set AUTH_ERROR_CODES)"

definition isTransient :: "graph_error \<Rightarrow> bool" where
  "isTransient e \<longleftrightarrow> ge_http e = 429 \<or> ge_http e \<ge> 500 \<or> ge_http e = 0 \<or>
     (\<exists>c \<in> set_option (ge_code e). c \<in> set TRANSIENT_ERROR_CODES)"

definition errorCode :: "graph_error \<Rightarrow> string" where
  "errorCode e = (case ge_code e of Some c \<Rightarrow> show_int c | None \<Rightarrow> ''HTTP_'' @ show_int (ge_http e))"

text \<open>
  \<open>sendTemplate\<close>: an accepted request without a message id counts as a bad gateway, and an
  unreachable host as status 0.
\<close>

datatype meta_answer = Accepted "string option" | Rejected graph_error | Unreachable

definition sendTemplate :: "meta_answer \<Rightarrow> graph_error + string" where
  "sendTemplate a = (case a of
       Accepted i \<Rightarrow> (case or_null i of Some mid \<Rightarrow> Inr mid
         | None \<Rightarrow> Inl \<lparr>ge_message = ''Meta did not return a message id'', ge_http = 502, ge_code = None\<rparr>)
     | Rejected e \<Rightarrow> Inl e
     | Unreachable \<Rightarrow> Inl \<lparr>ge_message = ''Meta Graph API is unreachable'', ge_http = 0, ge_code = None\<rparr>)"

section \<open>src/whatsapp/whatsapp-dispatch.service.ts\<close>

datatype failure = Stop msg_status string string | Graph graph_error | Crashed

datatype run_outcome = OUT_SENT | OUT_SKIPPED | OUT_FAILED | OUT_RETRIED

text \<open>What the webhook takes from one status object of Meta's JSON.\<close>

record hook =
  hk_id :: "string option"
  hk_status :: "string option"
  hk_seconds :: "rat option"
  hk_errorCode :: "string option"
  hk_errorMessage :: "string option"

text \<open>
  The point a call has reached. \<open>processOne\<close> goes from \<open>Fetching\<close> to \<open>Finished\<close>: the three queries of
  the preflight that run in parallel are one stage, its later queries one stage each. \<open>Recovering\<close>
  and \<open>Closing\<close> are one row of \<open>recoverStale\<close>, the \<open>Hook\<close> stages one status of a webhook.
\<close>

datatype worker =
    Fetching string
  | Checking wa_message
  | Comparing wa_message wa_connection "string option"
  | Pricing wa_message wa_connection
  | Debiting wa_message wa_connection rat
  | Warning wa_message rat
  | Counting wa_message wa_connection rat rat
  | Sending wa_message wa_connection rat rat
  | Recording wa_message rat rat string
  | Alerting wa_message rat
  | Refunding wa_message failure
  | Failing wa_message failure
  | Ending string msg_status string string run_outcome
  | Finished run_outcome
  | Recovering string string
  | Closing string
  | Hook_find hook
  | Hook_apply wa_message hook
  | Hook_refund wa_message hook
  | Gone

text \<open>\<open>update\<close> by the unique id raises when there is no row; both forms stamp \<open>updatedAt\<close>.\<close>

definition map_messages :: "(wa_message \<Rightarrow> bool) \<Rightarrow> (wa_message \<Rightarrow> wa_message) \<Rightarrow> 'a wa_db_scheme \<Rightarrow> 'a wa_db_scheme" where
  "map_messages P f s = s\<lparr>wa_messages := map (\<lambda>m. if P m then f m else m) (wa_messages s)\<rparr>"

definition find_message :: "string \<Rightarrow> 'a wa_db_scheme \<Rightarrow> wa_message option" where
  "find_message i s = find (\<lambda>m. wm_id m = i) (wa_messages s)"

definition update_message :: "int \<Rightarrow> string \<Rightarrow> (wa_message \<Rightarrow> wa_message) \<Rightarrow> ('a wa_db_scheme, unit) act" where
  "update_message now i f = bnd (reading (find_message i)) (\<lambda>r.
     andthen (require (r \<noteq> None) (Internal ''Record to update not found''))
       (writing (map_messages (\<lambda>m. wm_id m = i) (\<lambda>m. (f m)\<lparr>wm_updatedAt := now\<rparr>))))"

definition update_sending :: "int \<Rightarrow> string \<Rightarrow> (wa_message \<Rightarrow> wa_message) \<Rightarrow> ('a wa_db_scheme, unit) act" where
  "update_sending now i f =
     writing (map_messages (\<lambda>m. wm_id m = i \<and> wm_status m = MSG_SENDING) (\<lambda>m. (f m)\<lparr>wm_updatedAt := now\<rparr>))"

definition finish :: "int \<Rightarrow> string \<Rightarrow> msg_status \<Rightarrow> string \<Rightarrow> string \<Rightarrow> ('a wa_db_scheme, unit) act" where
  "finish now i st code msg = update_sending now i (\<lambda>m. m\<lparr>wm_status := st, wm_errorCode := Some code,
     wm_errorMessage := Some (take 500 msg), wm_failedAt := (if st = MSG_FAILED then Some now else wm_failedAt m)\<rparr>)"

definition retry_later :: "int \<Rightarrow> string \<Rightarrow> graph_error \<Rightarrow> ('a wa_db_scheme, unit) act" where
  "retry_later now i e = update_sending now i (\<lambda>m. m\<lparr>wm_status := MSG_SCHEDULED,
     wm_sendAfter := now + RETRY_DELAY_MINUTES * 60000, wm_errorCode := Some (errorCode e),
     wm_errorMessage := Some (ge_message e)\<rparr>)"

text \<open>The provider's id is unique among the messages.\<close>

definition record_sent :: "int \<Rightarrow> string \<Rightarrow> rat \<Rightarrow> string \<Rightarrow> ('a wa_db_scheme, unit) act" where
  "record_sent now i price pid =
     bnd (reading (\<lambda>s. list_ex (\<lambda>m. wm_id m \<noteq> i \<and> wm_provider m = Some pid) (wa_messages s))) (\<lambda>taken.
     andthen (require (\<not> taken) UniqueViolation)
       (update_message now i (\<lambda>m. m\<lparr>wm_status := MSG_SENT, wm_provider := Some pid, wm_sentAt := Some now,
          wm_cost := Some price, wm_errorCode := None, wm_errorMessage := None\<rparr>)))"

definition template_status :: "wa_message \<Rightarrow> 'a wa_db_scheme \<Rightarrow> string option" where
  "template_status m s = map_option tp_status (find (\<lambda>t. tp_store t = wm_store m \<and>
     tp_name t = wm_templateName m \<and> tp_language t = wm_language m) (wa_templates s))"

definition or_else :: "'b option \<Rightarrow> 'b option \<Rightarrow> 'b option" where
  "or_else x y = (case x of None \<Rightarrow> y | Some _ \<Rightarrow> x)"

definition currentShipmentStatus :: "string \<Rightarrow> 'a wa_db_scheme \<Rightarrow> ship_status option" where
  "currentShipmentStatus order s = (case find (\<lambda>d. d_order d = order) (wa_dispatches s) of
       None \<Rightarrow> None
     | Some d \<Rightarrow> map_option sh_status (or_else (d_sendit d)
         (or_else (d_quickLivraison d) (or_else (d_forceLog d) (d_ozoneExpress d)))))"

definition check_failure :: "wa_connection option \<Rightarrow> wa_setting option \<Rightarrow> wa_message \<Rightarrow> failure option" where
  "check_failure cn setting m =
     (if \<not> (\<exists>c \<in> set_option cn. cn_status c = CONN_ACTIVE \<and> cn_token c \<notin> {None, Some []})
      then Some (Stop MSG_SKIPPED ''NOT_CONNECTED'' ''WhatsApp is not connected for this store'')
      else if \<not> (\<exists>x \<in> set_option setting. ws_enabled x)
      then Some (Stop MSG_SKIPPED ''AUTOMATION_DISABLED'' ''This status message was turned off before it was sent'')
      else if wm_order m \<in> {None, Some []} then Some (Stop MSG_SKIPPED ''ORDER_REMOVED'' ''The order was deleted'')
      else None)"

definition changed_status :: "ship_status option \<Rightarrow> failure" where
  "changed_status st = Stop MSG_SKIPPED ''STATUS_CHANGED'' (''The parcel moved to '' @
     (case st of None \<Rightarrow> ''an unknown status'' | Some x \<Rightarrow> ship_status_name x) @ '' before the message was due'')"

definition not_approved :: "wa_message \<Rightarrow> string option \<Rightarrow> failure" where
  "not_approved m tp = Stop MSG_FAILED ''TEMPLATE_NOT_APPROVED'' (''Template '' @ wm_templateName m @ '' ('' @
     wm_language m @ '') is '' @ (case tp of None \<Rightarrow> ''NOT_SUBMITTED'' | Some x \<Rightarrow> x) @ '', not approved by Meta'')"

definition no_price :: "wa_message \<Rightarrow> failure" where
  "no_price m = Stop MSG_FAILED ''PRICING_NOT_SET'' (''No WhatsApp message price is set for '' @ wm_currency m)"

definition short_balance :: failure where
  "short_balance = Stop MSG_FAILED ''INSUFFICIENT_BALANCE'' ''Not enough WhatsApp balance to send this message''"

definition token_context :: "string \<Rightarrow> string" where
  "token_context waba = ''whatsapp:'' @ waba @ '':access-token''"

definition disconnected_alert :: "string \<Rightarrow> wa_alert" where
  "disconnected_alert store = \<lparr>al_store = store, al_type = ''WHATSAPP_DISCONNECTED'',
     al_title = ''WhatsApp needs to be reconnected'',
     al_message = ''Meta no longer accepts Zomaal'' @ [CHR 0xE2, CHR 0x80, CHR 0x99] @
       ''s access to your WhatsApp number. Automated messages are paused until you reconnect.'',
     al_dedupe = Some ''whatsapp-disconnected'', al_resolvedAt = None\<rparr>"

definition markReauthRequired :: "string \<Rightarrow> string \<Rightarrow> ('a wa_db_scheme, unit) act" where
  "markReauthRequired store msg =
     andthen (writing (\<lambda>s. s\<lparr>wa_connections := map (\<lambda>c.
         if cn_store c = store \<and> cn_status c = CONN_ACTIVE
         then c\<lparr>cn_status := CONN_REAUTHORIZATION_REQUIRED, cn_lastError := Some msg\<rparr> else c) (wa_connections s)\<rparr>))
       (raise_alert (disconnected_alert store))"

section \<open>src/whatsapp/whatsapp-webhook.service.ts\<close>

definition STATUS_RANK :: "msg_status \<Rightarrow> nat" where
  "STATUS_RANK st = (case st of MSG_SENT \<Rightarrow> 1 | MSG_DELIVERED \<Rightarrow> 2 | MSG_READ \<Rightarrow> 3 | _ \<Rightarrow> 0)"

definition META_STATUS :: "string \<Rightarrow> msg_status option" where
  "META_STATUS v = (if v = ''sent'' then Some MSG_SENT else if v = ''delivered'' then Some MSG_DELIVERED
     else if v = ''read'' then Some MSG_READ else if v = ''failed'' then Some MSG_FAILED else None)"

definition hook_provider :: "hook \<Rightarrow> string option" where
  "hook_provider h = or_null (hk_id h)"

definition hook_next :: "hook \<Rightarrow> msg_status option" where
  "hook_next h = META_STATUS (case or_null (hk_status h) of None \<Rightarrow> [] | Some v \<Rightarrow> v)"

definition timestampOf :: "int \<Rightarrow> rat option \<Rightarrow> int" where
  "timestampOf now seconds = (case seconds of None \<Rightarrow> now | Some x \<Rightarrow> if 0 < x then \<lfloor>x * 1000\<rfloor> else now)"

definition timestampField :: "msg_status \<Rightarrow> int \<Rightarrow> wa_message \<Rightarrow> wa_message" where
  "timestampField st t m = (case st of
       MSG_SENT \<Rightarrow> m\<lparr>wm_sentAt := Some t\<rparr> | MSG_DELIVERED \<Rightarrow> m\<lparr>wm_deliveredAt := Some t\<rparr>
     | MSG_READ \<Rightarrow> m\<lparr>wm_readAt := Some t\<rparr> | _ \<Rightarrow> m)"

definition find_provider :: "string \<Rightarrow> 'a wa_db_scheme \<Rightarrow> wa_message option" where
  "find_provider pid s = find (\<lambda>m. wm_provider m = Some pid) (wa_messages s)"

definition hook_find :: "hook \<Rightarrow> ('a wa_db_scheme, worker) act" where
  "hook_find h = (case (hook_provider h, hook_next h) of
       (Some pid, Some next) \<Rightarrow> bnd (reading (find_provider pid)) (\<lambda>r. ret (case r of
           None \<Rightarrow> Gone
         | Some m \<Rightarrow> if wm_status m = MSG_FAILED then Gone else Hook_apply m h))
     | _ \<Rightarrow> ret Gone)"

definition failed_by_hook :: "int \<Rightarrow> hook \<Rightarrow> wa_message \<Rightarrow> wa_message" where
  "failed_by_hook t h m = m\<lparr>wm_status := MSG_FAILED, wm_failedAt := Some t,
     wm_errorCode := Some (case hk_errorCode h of Some c \<Rightarrow> c | None \<Rightarrow> ''UNKNOWN''),
     wm_errorMessage := hk_errorMessage h\<rparr>"

text \<open>The decision is taken on the row that was read, the write goes to the row as it is by then.\<close>

definition hook_apply :: "int \<Rightarrow> wa_message \<Rightarrow> hook \<Rightarrow> ('a wa_db_scheme, worker) act" where
  "hook_apply now m h = (case hook_next h of
       None \<Rightarrow> ret Gone
     | Some next \<Rightarrow> (let t = timestampOf now (hk_seconds h); rank = STATUS_RANK (wm_status m) in
         if next = MSG_FAILED then
           (if 2 \<le> rank then ret Gone
            else andthen (update_message now (wm_id m) (failed_by_hook t h)) (ret (Hook_refund m h)))
         else andthen (update_message now (wm_id m) (\<lambda>r. timestampField next t
                (if STATUS_RANK next > rank then r\<lparr>wm_status := next\<rparr> else r)))
           (ret Gone)))"

section \<open>A turn of a worker\<close>

definition handleFailure :: "int \<Rightarrow> wa_message \<Rightarrow> failure \<Rightarrow> ('a wa_db_scheme, worker) act" where
  "handleFailure now m f = (case f of
       Stop st code msg \<Rightarrow> ret (Ending (wm_id m) st code msg (if st = MSG_SKIPPED then OUT_SKIPPED else OUT_FAILED))
     | Graph e \<Rightarrow>
         if isAuthError e then andthen (markReauthRequired (wm_store m) (ge_message e))
           (ret (Ending (wm_id m) MSG_FAILED ''NOT_AUTHORIZED'' (ge_message e) OUT_FAILED))
         else if isTransient e \<and> wm_attempts m + 1 < MAX_SEND_ATTEMPTS then
           andthen (retry_later now (wm_id m) e) (ret (Finished OUT_RETRIED))
         else ret (Ending (wm_id m) MSG_FAILED (errorCode e) (ge_message e) OUT_FAILED)
     | Crashed \<Rightarrow> ret (Ending (wm_id m) MSG_FAILED ''INTERNAL_ERROR'' ''The message could not be sent'' OUT_FAILED))"

definition turn :: "wa_env \<Rightarrow> int \<Rightarrow> meta_answer \<Rightarrow> worker \<Rightarrow> ('a wa_db_scheme, worker) act" where
  "turn E now answer w = (case w of
       Fetching i \<Rightarrow> bnd (reading (find_message i)) (\<lambda>r. ret (case r of
           None \<Rightarrow> Finished OUT_SKIPPED
         | Some m \<Rightarrow> if wm_status m \<noteq> MSG_SENDING then Finished OUT_SKIPPED else Checking m))
     | Checking m \<Rightarrow> bnd (reading (connection_of (wm_store m))) (\<lambda>cn.
         bnd (reading (setting_of (wm_store m) (wm_trigger m))) (\<lambda>setting.
         bnd (reading (template_status m)) (\<lambda>tp.
         ret (case (check_failure cn setting m, cn) of
             (None, Some c) \<Rightarrow> Comparing m c tp | (Some f, _) \<Rightarrow> Failing m f | (None, None) \<Rightarrow> Failing m Crashed))))
     | Comparing m c tp \<Rightarrow> bnd (reading (\<lambda>s. Option.bind (wm_order m) (\<lambda>o'. currentShipmentStatus o' s))) (\<lambda>st.
         ret (if st \<noteq> Some (wm_trigger m) then Failing m (changed_status st)
           else if tp \<noteq> Some ''APPROVED'' then Failing m (not_approved m tp) else Pricing m c))
     | Pricing m c \<Rightarrow> bnd (reading (getPrice (wm_currency m))) (\<lambda>p.
         ret (case p of None \<Rightarrow> Failing m (no_price m) | Some price \<Rightarrow> Debiting m c price))
     | Debiting m c price \<Rightarrow>
         bnd (debitForMessage (ev_decimal E) (wm_store m) (wm_id m) (wm_attempts m + 1) price (wm_currency m)) (\<lambda>r.
         ret (case r of Short b \<Rightarrow> Warning m b | Debited b \<Rightarrow> Counting m c price b))
     | Warning m b \<Rightarrow> andthen (checkLowBalance (ev_decimal E) (ev_lowMessages E) now (wm_store m) (wm_currency m) b)
         (ret (Failing m short_balance))
     | Counting m c price b \<Rightarrow> andthen (update_message now (wm_id m) (\<lambda>r. r\<lparr>wm_attempts := wm_attempts m + 1\<rparr>))
         (ret (Sending m c price b))
     | Sending m c price b \<Rightarrow>
         andthen (require (\<exists>t \<in> set_option (cn_token c). ev_decrypts E t (token_context (cn_waba c)))
           (Unavailable ''Unable to decrypt WhatsApp credentials''))
         (ret (case sendTemplate answer of Inr pid \<Rightarrow> Recording m price b pid | Inl e \<Rightarrow> Refunding m (Graph e)))
     | Recording m price b pid \<Rightarrow> andthen (record_sent now (wm_id m) price pid) (ret (Alerting m b))
     | Alerting m b \<Rightarrow> andthen (checkLowBalance (ev_decimal E) (ev_lowMessages E) now (wm_store m) (wm_currency m) b)
         (ret (Finished OUT_SENT))
     | Refunding m f \<Rightarrow> andthen (refundMessage (ev_decimal E) (wm_store m) (wm_id m)) (ret (Failing m f))
     | Failing m f \<Rightarrow> handleFailure now m f
     | Ending i st code msg out \<Rightarrow> andthen (finish now i st code msg) (ret (Finished out))
     | Finished out \<Rightarrow> ret (Finished out)
     | Recovering store i \<Rightarrow> andthen (refundMessage (ev_decimal E) store i) (ret (Closing i))
     | Closing i \<Rightarrow> andthen (finish now i MSG_FAILED ''SEND_INTERRUPTED'' ''Sending was interrupted; the charge was refunded'')
         (ret Gone)
     | Hook_find h \<Rightarrow> hook_find h
     | Hook_apply m h \<Rightarrow> hook_apply now m h
     | Hook_refund m h \<Rightarrow> andthen (refundMessage (ev_decimal E) (wm_store m) (wm_id m)) (ret Gone)
     | Gone \<Rightarrow> ret Gone)"

text \<open>
  Where a call goes on when its query throws: \<open>charged\<close> decides whether the catch of \<open>processOne\<close>
  refunds; a failing refund, alert or reconnect mark is only logged; what \<open>handleFailure\<close> throws
  ends the call in \<open>runDue\<close>, and a webhook logs it.
\<close>

definition caught :: "worker \<Rightarrow> worker" where
  "caught w = (case w of
       Checking m \<Rightarrow> Failing m Crashed | Comparing m _ _ \<Rightarrow> Failing m Crashed | Pricing m _ \<Rightarrow> Failing m Crashed
     | Debiting m _ _ \<Rightarrow> Failing m Crashed | Warning m _ \<Rightarrow> Failing m short_balance
     | Counting m _ _ _ \<Rightarrow> Refunding m Crashed | Sending m _ _ _ \<Rightarrow> Refunding m Crashed
     | Recording m _ _ _ \<Rightarrow> Refunding m Crashed | Alerting m _ \<Rightarrow> Finished OUT_SENT
     | Refunding m f \<Rightarrow> Failing m f
     | Failing m (Graph e) \<Rightarrow> if isAuthError e
         then Ending (wm_id m) MSG_FAILED ''NOT_AUTHORIZED'' (ge_message e) OUT_FAILED else Finished OUT_FAILED
     | Recovering store i \<Rightarrow> Closing i | Closing i \<Rightarrow> Gone
     | Hook_find h \<Rightarrow> Gone | Hook_apply m h \<Rightarrow> Gone | Hook_refund m h \<Rightarrow> Gone | Gone \<Rightarrow> Gone
     | _ \<Rightarrow> Finished OUT_FAILED)"

definition advance :: "wa_env \<Rightarrow> int \<Rightarrow> meta_answer \<Rightarrow> worker \<Rightarrow> 'a wa_db_scheme \<Rightarrow> worker \<times> 'a wa_db_scheme" where
  "advance E now answer w s = (case turn E now answer w s of
       (Inr w', t) \<Rightarrow> (w', t) | (Inl e, t) \<Rightarrow> (caught w, t))"

section \<open>Claiming, recovering, and a run on its own\<close>

text \<open>One SQL statement; rows locked by a concurrent claim are skipped, which a smaller limit covers.\<close>

definition due :: "int \<Rightarrow> nat \<Rightarrow> 'a wa_db_scheme \<Rightarrow> wa_message list" where
  "due now limit s = take limit (sort_key wm_sendAfter
     (filter (\<lambda>m. wm_status m = MSG_SCHEDULED \<and> wm_sendAfter m \<le> now) (wa_messages s)))"

definition claimDue :: "int \<Rightarrow> nat \<Rightarrow> ('a wa_db_scheme, string list) act" where
  "claimDue now limit = bnd (reading (\<lambda>s. map wm_id (due now limit s))) (\<lambda>ids.
     andthen (writing (map_messages (\<lambda>m. wm_id m \<in> set ids) (\<lambda>m. m\<lparr>wm_status := MSG_SENDING, wm_updatedAt := now\<rparr>)))
       (ret ids))"

definition stale_rows :: "int \<Rightarrow> 'a wa_db_scheme \<Rightarrow> (string \<times> string) list" where
  "stale_rows now s = map (\<lambda>m. (wm_store m, wm_id m))
     (filter (\<lambda>m. wm_status m = MSG_SENDING \<and> wm_updatedAt m < now - SENDING_STALE_MINUTES * 60000) (wa_messages s))"

definition DEFAULT_BATCH_SIZE :: nat where
  "DEFAULT_BATCH_SIZE = 100"

definition batchSize :: "wa_env \<Rightarrow> nat" where
  "batchSize E = (let n = ev_batch E in
     if of_int \<lfloor>n\<rfloor> = n \<and> 0 < n \<and> n \<le> 500 then nat \<lfloor>n\<rfloor> else DEFAULT_BATCH_SIZE)"

fun play :: "wa_env \<Rightarrow> int \<Rightarrow> meta_answer \<Rightarrow> nat \<Rightarrow> worker \<Rightarrow> 'a wa_db_scheme \<Rightarrow> worker \<times> 'a wa_db_scheme" where
  "play E now answer 0 w s = (w, s)"
| "play E now answer (Suc n) w s = (case advance E now answer w s of (w', t) \<Rightarrow> play E now answer n w' t)"

text \<open>\<open>processOne\<close> alone: the longest way, over \<open>Recording\<close> and \<open>Refunding\<close> to \<open>Finished\<close>, has eleven turns.\<close>

definition processOne :: "wa_env \<Rightarrow> int \<Rightarrow> meta_answer \<Rightarrow> string \<Rightarrow> 'a wa_db_scheme \<Rightarrow> worker \<times> 'a wa_db_scheme" where
  "processOne E now answer i s = play E now answer 11 (Fetching i) s"

text \<open>\<open>recoverStale\<close> and \<open>runDue\<close> with nobody else at work; the stale rows come in no particular order.\<close>

definition recoverStale :: "wa_env \<Rightarrow> int \<Rightarrow> 'a wa_db_scheme \<Rightarrow> nat \<times> 'a wa_db_scheme" where
  "recoverStale E now s = (let rows = take 200 (stale_rows now s) in
     (length rows, fold (\<lambda>(store, i) t. snd (play E now Unreachable 2 (Recovering store i) t)) rows s))"

record dispatch_summary =
  ds_claimed :: nat
  ds_sent :: nat
  ds_skipped :: nat
  ds_failed :: nat
  ds_retried :: nat
  ds_recovered :: nat

definition count_outcome :: "worker \<Rightarrow> dispatch_summary \<Rightarrow> dispatch_summary" where
  "count_outcome w d = (case w of
       Finished OUT_SENT \<Rightarrow> d\<lparr>ds_sent := ds_sent d + 1\<rparr>
     | Finished OUT_SKIPPED \<Rightarrow> d\<lparr>ds_skipped := ds_skipped d + 1\<rparr>
     | Finished OUT_RETRIED \<Rightarrow> d\<lparr>ds_retried := ds_retried d + 1\<rparr>
     | _ \<Rightarrow> d\<lparr>ds_failed := ds_failed d + 1\<rparr>)"

fun process_all :: "wa_env \<Rightarrow> int \<Rightarrow> (string \<Rightarrow> meta_answer) \<Rightarrow> string list \<Rightarrow> dispatch_summary \<Rightarrow>
    'a wa_db_scheme \<Rightarrow> dispatch_summary \<times> 'a wa_db_scheme" where
  "process_all E now answers [] d s = (d, s)"
| "process_all E now answers (i # is) d s = (case processOne E now (answers i) i s of
     (w, t) \<Rightarrow> process_all E now answers is (count_outcome w d) t)"

definition runDue :: "wa_env \<Rightarrow> int \<Rightarrow> (string \<Rightarrow> meta_answer) \<Rightarrow> 'a wa_db_scheme \<Rightarrow> dispatch_summary \<times> 'a wa_db_scheme" where
  "runDue E now answers s = (case recoverStale E now s of (recovered, t) \<Rightarrow>
     (case claimDue now (batchSize E) t of
        (Inr ids, u) \<Rightarrow> process_all E now answers ids
          \<lparr>ds_claimed = length ids, ds_sent = 0, ds_skipped = 0, ds_failed = 0, ds_retried = 0, ds_recovered = recovered\<rparr> u
      | (Inl e, u) \<Rightarrow> (\<lparr>ds_claimed = 0, ds_sent = 0, ds_skipped = 0, ds_failed = 0, ds_retried = 0, ds_recovered = recovered\<rparr>, u)))"

definition disconnect_store :: "int \<Rightarrow> string \<Rightarrow> 'a wa_db_scheme \<Rightarrow> 'a wa_db_scheme" where
  "disconnect_store now store s = map_messages (\<lambda>m. wm_store m = store \<and> wm_status m = MSG_SCHEDULED)
     (\<lambda>m. m\<lparr>wm_status := MSG_SKIPPED, wm_errorCode := Some ''NOT_CONNECTED'',
       wm_errorMessage := Some ''WhatsApp was disconnected before the message was sent'', wm_updatedAt := now\<rparr>)
     (s\<lparr>wa_connections := map (\<lambda>c. if cn_store c = store
       then c\<lparr>cn_status := CONN_DISCONNECTED, cn_token := None, cn_disconnectedAt := Some now\<rparr> else c) (wa_connections s)\<rparr>)"

section \<open>Everything at once\<close>

text \<open>
  The calls under way and the database. In each step one call takes a turn, or a query of it throws,
  or its process dies, or something else happens: a run claims messages or takes up stale rows, a
  webhook arrives, a courier status queues a message, the super admin credits a store or sets a
  price, a store disconnects, an order is deleted, or the other tables change in any way.

  \<open>calm\<close> runs are those in which no refund fails and no process dies between a webhook's two
  writes, no call is still at work on a row that \<open>recoverStale\<close> takes up, and Meta's reports on
  one message come one at a time.
\<close>

definition pays_back :: "worker \<Rightarrow> bool" where
  "pays_back w \<longleftrightarrow> (case w of Refunding _ _ \<Rightarrow> True | Recovering _ _ \<Rightarrow> True | Hook_refund _ _ \<Rightarrow> True | _ \<Rightarrow> False)"

definition webhook_owes :: "worker \<Rightarrow> bool" where
  "webhook_owes w \<longleftrightarrow> (case w of Hook_refund _ _ \<Rightarrow> True | _ \<Rightarrow> False)"

text \<open>The message a call of \<open>processOne\<close> is at work on, and the message a webhook is about.\<close>

fun live :: "worker \<Rightarrow> string list" where
  "live (Fetching i) = [i]"
| "live (Checking m) = [wm_id m]"
| "live (Comparing m _ _) = [wm_id m]"
| "live (Pricing m _) = [wm_id m]"
| "live (Debiting m _ _) = [wm_id m]"
| "live (Warning m _) = [wm_id m]"
| "live (Counting m _ _ _) = [wm_id m]"
| "live (Sending m _ _ _) = [wm_id m]"
| "live (Recording m _ _ _) = [wm_id m]"
| "live (Refunding m _) = [wm_id m]"
| "live (Failing m _) = [wm_id m]"
| "live _ = []"

fun hooked :: "worker \<Rightarrow> string list" where
  "hooked (Hook_find h) = (case hook_provider h of None \<Rightarrow> [] | Some p \<Rightarrow> [p])"
| "hooked (Hook_apply _ h) = (case hook_provider h of None \<Rightarrow> [] | Some p \<Rightarrow> [p])"
| "hooked (Hook_refund _ h) = (case hook_provider h of None \<Rightarrow> [] | Some p \<Rightarrow> [p])"
| "hooked _ = []"

type_synonym 'a scene = "worker list \<times> 'a wa_db_scheme"

inductive wa_step :: "bool \<Rightarrow> wa_env \<Rightarrow> 'a scene \<Rightarrow> 'a scene \<Rightarrow> bool" for calm E where
  turn_step: "advance E now answer w s = (w', t) \<Longrightarrow> wa_step calm E (xs @ w # ys, s) (xs @ w' # ys, t)"
| fault_step: "(calm \<Longrightarrow> \<not> pays_back w) \<Longrightarrow> wa_step calm E (xs @ w # ys, s) (xs @ caught w # ys, s)"
| crash_step: "(calm \<Longrightarrow> \<not> webhook_owes w) \<Longrightarrow> wa_step calm E (xs @ w # ys, s) (xs @ ys, s)"
| claim_step: "claimDue now limit s = (Inr ids, t) \<Longrightarrow> wa_step calm E (ws, s) (ws @ map Fetching ids, t)"
| recover_step: "set rows \<subseteq> set (stale_rows now s) \<Longrightarrow>
    (calm \<Longrightarrow> \<forall>(store, i) \<in> set rows. \<forall>w \<in> set ws. i \<notin> set (live w)) \<Longrightarrow>
    wa_step calm E (ws, s) (ws @ map (\<lambda>(store, i). Recovering store i) rows, s)"
| hook_step: "(calm \<Longrightarrow> \<forall>w \<in> set ws. set (hooked (Hook_find h)) \<inter> set (hooked w) = {}) \<Longrightarrow>
    wa_step calm E (ws, s) (ws @ [Hook_find h], s)"
| queue_step: "onShipmentStatus E now uuid d s = (r, t) \<Longrightarrow> wa_step calm E (ws, s) (ws, t)"
| credit_step: "adminCredit (ev_decimal E) parse (ev_lowMessages E) now store d admin s = (r, t) \<Longrightarrow> wa_step calm E (ws, s) (ws, t)"
| price_step: "setPricing parse currency v admin s = (r, t) \<Longrightarrow> wa_step calm E (ws, s) (ws, t)"
| disconnect_step: "wa_step calm E (ws, s) (ws, disconnect_store now store s)"
| order_step: "wa_step calm E (ws, s) (ws, map_messages (\<lambda>m. wm_order m = Some i) (\<lambda>m. m\<lparr>wm_order := None\<rparr>) s)"
| other_step: "same_wallet s t \<Longrightarrow> wa_step calm E (ws, s) (ws, t)"

text \<open>A new installation has no message, no entry and no price.\<close>

definition installed :: "'a wa_db_scheme \<Rightarrow> bool" where
  "installed s \<longleftrightarrow> wa_messages s = [] \<and> wa_entries s = [] \<and> wa_pricing s = []"

inductive wa_reach :: "bool \<Rightarrow> wa_env \<Rightarrow> 'a scene \<Rightarrow> bool" for calm E where
  reach_start: "installed s \<Longrightarrow> wa_reach calm E ([], s)"
| reach_step: "wa_reach calm E c \<Longrightarrow> wa_step calm E c d \<Longrightarrow> wa_reach calm E d"

end
