(* ===== verification/WhatsApp_Accounts.thy ===== *)
theory WhatsApp_Accounts
  imports WhatsApp_Dispatch
begin

text \<open>
  What the accounts of the WhatsApp automation are worth while dispatch runs, recoveries, webhooks
  and the administration work at the same time (\<open>src/whatsapp\<close>): whatever fails, no store is
  overdrawn and no message is charged a fourth time or refunded more than it was charged; in calm
  runs the balance is explained by the credits and the costs of the messages that went out; and
  what happens when a slow call meets the recovery of its row.
\<close>

section \<open>The invariant of all runs\<close>

definition failure_ok :: "failure \<Rightarrow> bool" where
  "failure_ok f \<longleftrightarrow> (case f of Stop st _ _ \<Rightarrow> st \<in> {MSG_SKIPPED, MSG_FAILED} | _ \<Rightarrow> True)"

text \<open>What a call knows of its row: identity, store and currency never change, and only it counts attempts.\<close>

definition snap_ok :: "wa_message list \<Rightarrow> wa_message \<Rightarrow> bool" where
  "snap_ok ms m \<longleftrightarrow> wm_attempts m < 3 \<and> (\<exists>r \<in> set ms. wm_id r = wm_id m \<and> wm_store r = wm_store m \<and>
     wm_currency r = wm_currency m \<and> wm_status r \<noteq> MSG_SCHEDULED \<and> wm_attempts r \<le> wm_attempts m + 1)"

fun worker_ok :: "wa_message list \<Rightarrow> worker \<Rightarrow> bool" where
  "worker_ok ms (Fetching i) = (\<exists>r \<in> set ms. wm_id r = i \<and> wm_status r \<noteq> MSG_SCHEDULED \<and> wm_attempts r < 3)"
| "worker_ok ms (Checking m) = snap_ok ms m"
| "worker_ok ms (Comparing m _ _) = snap_ok ms m"
| "worker_ok ms (Pricing m _) = snap_ok ms m"
| "worker_ok ms (Debiting m _ p) = (snap_ok ms m \<and> price_ok p)"
| "worker_ok ms (Warning m _) = snap_ok ms m"
| "worker_ok ms (Counting m _ p _) = (snap_ok ms m \<and> price_ok p)"
| "worker_ok ms (Sending m _ p _) = (snap_ok ms m \<and> price_ok p)"
| "worker_ok ms (Recording m p _ _) = (snap_ok ms m \<and> price_ok p)"
| "worker_ok ms (Refunding m f) = (snap_ok ms m \<and> failure_ok f)"
| "worker_ok ms (Failing m f) = (snap_ok ms m \<and> failure_ok f)"
| "worker_ok ms (Ending _ st _ _ _) = (st \<in> {MSG_SKIPPED, MSG_FAILED})"
| "worker_ok ms _ = True"

definition row_ok :: "wa_message \<Rightarrow> bool" where
  "row_ok r \<longleftrightarrow> wm_attempts r \<le> 3 \<and> (wm_status r = MSG_SCHEDULED \<longrightarrow> wm_attempts r < 3)"

text \<open>The entries of a message carry the store and the currency of its row.\<close>

definition owned :: "wa_message list \<Rightarrow> wa_entry \<Rightarrow> bool" where
  "owned ms e \<longleftrightarrow> (\<forall>i. be_message e = Some i \<longrightarrow>
     (\<exists>r \<in> set ms. wm_id r = i \<and> wm_store r = be_store e \<and> wm_currency r = be_currency e))"

abbreviation lives :: "worker list \<Rightarrow> string list" where
  "lives ws \<equiv> concat (map live ws)"

definition desk_ok :: "'a wa_db_scheme \<Rightarrow> bool" where
  "desk_ok s \<longleftrightarrow> wallet_ok s \<and> distinct (map wm_id (wa_messages s)) \<and> (\<forall>r \<in> set (wa_messages s). row_ok r) \<and>
     (\<forall>e \<in> set (wa_entries s). owned (wa_messages s) e)"

definition scene_ok :: "'a scene \<Rightarrow> bool" where
  "scene_ok c \<longleftrightarrow> (case c of (ws, s) \<Rightarrow> desk_ok s \<and> distinct (lives ws) \<and> (\<forall>w \<in> set ws. worker_ok (wa_messages s) w))"

lemma desk_wallet: "desk_ok s \<Longrightarrow> wallet_ok s"
  by (simp add: desk_ok_def)

lemma desk_ids: "desk_ok s \<Longrightarrow> distinct (map wm_id (wa_messages s))"
  by (simp add: desk_ok_def)

lemma same_row: "desk_ok s \<Longrightarrow> r \<in> set (wa_messages s) \<Longrightarrow> q \<in> set (wa_messages s) \<Longrightarrow> wm_id q = wm_id r \<Longrightarrow> q = r"
  unfolding desk_ok_def by (meson distinct_map inj_onD)

lemma find_message_row: "desk_ok s \<Longrightarrow> r \<in> set (wa_messages s) \<Longrightarrow> find_message (wm_id r) s = Some r"
  by (simp add: find_message_def find_id desk_ids)

lemma find_message_set: "find_message i s = Some r \<Longrightarrow> r \<in> set (wa_messages s) \<and> wm_id r = i"
  unfolding find_message_def by (drule find_Some_set) auto

lemma desk_frame: "same_wallet s t \<Longrightarrow> desk_ok t = desk_ok s"
  using same_wallet_ok[of s t] by (simp add: desk_ok_def same_wallet_def)

lemma same_messages: "same_wallet s t \<Longrightarrow> wa_messages t = wa_messages s"
  by (simp add: same_wallet_def)

text \<open>A worker moves on without writing to the wallet.\<close>

lemma scene_swap:
  assumes "scene_ok (xs @ w # ys, s)" "same_wallet s t" "live w' = live w \<or> live w' = []"
    and "worker_ok (wa_messages s) w'"
  shows "scene_ok (xs @ w' # ys, t)"
  using assms desk_frame[OF assms(2)] same_messages[OF assms(2)] by (auto simp: scene_ok_def)

text \<open>A worker writes an entry.\<close>

lemma desk_add:
  assumes "desk_ok s" "wallet_ok (add_entry e s)" "owned (wa_messages s) e"
  shows "desk_ok (add_entry e s)"
  using assms by (simp add: desk_ok_def)

lemma scene_entry:
  assumes "scene_ok (xs @ w # ys, s)" "wallet_ok (add_entry e s)" "owned (wa_messages s) e"
    and "live w' = live w \<or> live w' = []" "worker_ok (wa_messages s) w'"
  shows "scene_ok (xs @ w' # ys, add_entry e s)"
  using assms desk_add[of s e] by (auto simp: scene_ok_def)

text \<open>
  A worker updates rows. Updates keep the identity of a row and its owner; \<open>gentle\<close> ones keep its
  attempts as well and do not schedule it again, which no call under way notices.
\<close>

definition same_owner :: "(wa_message \<Rightarrow> wa_message) \<Rightarrow> bool" where
  "same_owner f \<longleftrightarrow> (\<forall>m. wm_id (f m) = wm_id m \<and> wm_store (f m) = wm_store m \<and> wm_currency (f m) = wm_currency m)"

definition gentle :: "(wa_message \<Rightarrow> wa_message) \<Rightarrow> bool" where
  "gentle f \<longleftrightarrow> same_owner f \<and> (\<forall>m. wm_attempts (f m) = wm_attempts m \<and>
     (wm_status (f m) = wm_status m \<or> wm_status (f m) \<noteq> MSG_SCHEDULED))"

definition patch :: "(wa_message \<Rightarrow> bool) \<Rightarrow> (wa_message \<Rightarrow> wa_message) \<Rightarrow> wa_message \<Rightarrow> wa_message" where
  "patch P f m = (if P m then f m else m)"

lemma map_messages_sel [simp]:
  "wa_messages (map_messages P f s) = map (patch P f) (wa_messages s)"
  "wa_entries (map_messages P f s) = wa_entries s" "wa_pricing (map_messages P f s) = wa_pricing s"
  by (simp_all add: map_messages_def patch_def)

lemma message_entries_map [simp]: "message_entries store i (map_messages P f s) = message_entries store i s"
  by (simp add: message_entries_def)

lemma patch_owner:
  assumes "same_owner f"
  shows "wm_id (patch P f m) = wm_id m" "wm_store (patch P f m) = wm_store m" "wm_currency (patch P f m) = wm_currency m"
  using assms by (simp_all add: same_owner_def patch_def)

lemma patch_gentle:
  assumes "gentle f"
  shows "wm_attempts (patch P f m) = wm_attempts m"
    "wm_status m \<noteq> MSG_SCHEDULED \<Longrightarrow> wm_status (patch P f m) \<noteq> MSG_SCHEDULED"
  using assms by (auto simp: gentle_def patch_def) metis

lemma map_keeps_desk:
  assumes ok: "desk_ok s" and f: "same_owner f"
    and rows: "\<And>r. r \<in> set (wa_messages s) \<Longrightarrow> P r \<Longrightarrow> row_ok (f r)"
  shows "desk_ok (map_messages P f s)"
  unfolding desk_ok_def
proof (intro conjI ballI)
  show "distinct (map wm_id (wa_messages (map_messages P f s)))"
    using desk_ids[OF ok] by (simp add: comp_def patch_owner[OF f])
  show "wallet_ok (map_messages P f s)" using desk_wallet[OF ok] by (simp add: wallet_frame[of "map_messages P f s" s])
  show "row_ok r" if "r \<in> set (wa_messages (map_messages P f s))" for r
    using that rows ok by (auto simp: desk_ok_def patch_def)
  show "owned (wa_messages (map_messages P f s)) e" if "e \<in> set (wa_entries (map_messages P f s))" for e
  proof -
    have "owned (wa_messages s) e" using that ok by (simp add: desk_ok_def)
    then show ?thesis by (simp add: owned_def patch_owner[OF f])
  qed
qed

lemma gentle_owner: "gentle f \<Longrightarrow> same_owner f"
  by (simp add: gentle_def)

lemma gentle_snap:
  assumes "snap_ok ms m" "gentle f" shows "snap_ok (map (patch P f) ms) m"
  using assms(1) patch_gentle[OF assms(2)] unfolding snap_ok_def
  by (auto simp: patch_owner[OF gentle_owner[OF assms(2)]])

lemma gentle_worker:
  assumes "worker_ok ms w" "gentle f" shows "worker_ok (map (patch P f) ms) w"
  using assms(1) gentle_snap[OF _ assms(2)] patch_gentle[OF assms(2)]
  by (cases w) (auto simp: patch_owner[OF gentle_owner[OF assms(2)]])

lemma gentle_desk:
  assumes ok: "desk_ok s" and f: "gentle f"
  shows "desk_ok (map_messages P f s)"
proof (rule map_keeps_desk[OF ok gentle_owner[OF f]])
  fix r assume "r \<in> set (wa_messages s)" "P r"
  then have "row_ok r" using ok by (simp add: desk_ok_def)
  moreover have "wm_attempts (f r) = wm_attempts r" "wm_status (f r) = wm_status r \<or> wm_status (f r) \<noteq> MSG_SCHEDULED"
    using f by (auto simp: gentle_def)
  ultimately show "row_ok (f r)" by (auto simp: row_ok_def)
qed

lemma scene_gentle:
  assumes "scene_ok (xs @ w # ys, s)" "gentle f" "live w' = live w \<or> live w' = []" "worker_ok (wa_messages s) w'"
  shows "scene_ok (xs @ w' # ys, map_messages P f s)"
  using assms gentle_desk[OF _ assms(2)] gentle_worker[OF _ assms(2)] by (auto simp: scene_ok_def)

text \<open>Only the call at work on a row counts its attempts and schedules it again.\<close>

lemma worker_other:
  assumes "worker_ok ms w" "same_owner f" "\<And>r. P r \<Longrightarrow> wm_id r \<notin> set (live w)"
  shows "worker_ok (map (patch P f) ms) w"
proof -
  have id: "patch P f r = r" if "wm_id r \<in> set (live w)" for r
    using that assms(3) by (auto simp: patch_def)
  have "snap_ok (map (patch P f) ms) m" if "snap_ok ms m" "wm_id m \<in> set (live w)" for m
    using that id unfolding snap_ok_def by (metis (no_types, lifting) imageI list.set_map)
  then show ?thesis using assms(1) id by (cases w) force+
qed

lemma scene_own:
  assumes ok: "scene_ok (xs @ w # ys, s)" and w: "live w = [i]" and f: "same_owner f"
    and P: "\<And>r. P r \<Longrightarrow> wm_id r = i"
    and rows: "\<And>r. r \<in> set (wa_messages s) \<Longrightarrow> P r \<Longrightarrow> row_ok (f r)"
    and w': "live w' = live w \<or> live w' = []" "worker_ok (map (patch P f) (wa_messages s)) w'"
  shows "scene_ok (xs @ w' # ys, map_messages P f s)"
proof -
  have desk: "desk_ok s" using ok by (simp add: scene_ok_def)
  have "desk_ok (map_messages P f s)" by (rule map_keeps_desk[OF desk f rows])
  moreover have "worker_ok (map (patch P f) (wa_messages s)) x" if "x \<in> set xs \<union> set ys" for x
  proof (rule worker_other[OF _ f])
    show "worker_ok (wa_messages s) x" using ok that by (auto simp: scene_ok_def)
    show "wm_id r \<notin> set (live x)" if "P r" for r
      using ok w P[OF that] \<open>x \<in> _\<close> by (auto simp: scene_ok_def)
  qed
  ultimately show ?thesis using ok w' by (auto simp: scene_ok_def)
qed

section \<open>The turns\<close>

lemma stamp_owner: "same_owner f \<Longrightarrow> same_owner (\<lambda>m. f m\<lparr>wm_updatedAt := now\<rparr>)"
  by (simp add: same_owner_def)

lemma stamp_gentle: "gentle f \<Longrightarrow> gentle (\<lambda>m. f m\<lparr>wm_updatedAt := now\<rparr>)"
  by (simp add: gentle_def same_owner_def)

lemma update_message_run:
  "update_message now i f s = (if find_message i s = None then (Inl (Internal ''Record to update not found''), s)
     else (Inr (), map_messages (\<lambda>m. wm_id m = i) (\<lambda>m. f m\<lparr>wm_updatedAt := now\<rparr>) s))"
  by (simp add: update_message_def act_defs)

lemma update_sending_run:
  "update_sending now i f s =
     (Inr (), map_messages (\<lambda>m. wm_id m = i \<and> wm_status m = MSG_SENDING) (\<lambda>m. f m\<lparr>wm_updatedAt := now\<rparr>) s)"
  by (simp add: update_sending_def writing_def)

lemma record_sent_run:
  "\<exists>f. gentle f \<and> (record_sent now i p pid s = (Inr (), map_messages (\<lambda>m. wm_id m = i) f s) \<or>
     (\<exists>e. record_sent now i p pid s = (Inl e, s)))"
proof -
  have "gentle (\<lambda>m. m\<lparr>wm_status := MSG_SENT, wm_provider := Some pid, wm_sentAt := Some now,
      wm_cost := Some p, wm_errorCode := None, wm_errorMessage := None\<rparr>\<lparr>wm_updatedAt := now\<rparr>)"
    by (simp add: gentle_def same_owner_def)
  then show ?thesis unfolding record_sent_def bnd_def reading_def andthen_def require_def ret_def throw_def update_message_run
    by (intro exI conjI) (auto split: if_splits)
qed

lemma finish_gentle:
  assumes "st \<in> {MSG_SKIPPED, MSG_FAILED}"
  shows "\<exists>f. gentle f \<and> finish now i st code msg s =
    (Inr (), map_messages (\<lambda>m. wm_id m = i \<and> wm_status m = MSG_SENDING) f s)"
  using assms unfolding finish_def update_sending_run by (intro exI conjI, rule_tac [2] refl) (auto simp: gentle_def same_owner_def)

lemma markReauth_run: "\<exists>t. markReauthRequired store msg s = (Inr (), t) \<and> same_wallet s t"
proof -
  let ?u = "s\<lparr>wa_connections := map (\<lambda>c. if cn_store c = store \<and> cn_status c = CONN_ACTIVE
      then c\<lparr>cn_status := CONN_REAUTHORIZATION_REQUIRED, cn_lastError := Some msg\<rparr> else c) (wa_connections s)\<rparr>"
  have "same_wallet s ?u" by (simp add: same_wallet_def)
  then show ?thesis using raise_run[of "disconnected_alert store" ?u]
    by (auto simp: markReauthRequired_def andthen_def bnd_def writing_def intro: same_wallet_trans)
qed

text \<open>The entries a call writes belong to its row.\<close>

lemma debit_owned: "snap_ok ms m \<Longrightarrow> owned ms (debit_entry (wm_store m) (wm_id m) n p (wm_currency m))"
  by (auto simp: snap_ok_def owned_def debit_entry_def)

lemma refund_owned:
  assumes "desk_ok s" "net (message_entries store i s) < 0"
  shows "owned (wa_messages s) (refund_entry store i (message_entries store i s) x)"
proof -
  have ne: "message_entries store i s \<noteq> []" using assms(2) by auto
  then have "hd (message_entries store i s) \<in> set (message_entries store i s)" by simp
  then have h: "hd (message_entries store i s) \<in> set (wa_entries s)" "be_message (hd (message_entries store i s)) = Some i"
    "be_store (hd (message_entries store i s)) = store" by (auto simp: message_entries_def)
  then have "owned (wa_messages s) (hd (message_entries store i s))" using assms(1) by (simp add: desk_ok_def)
  then show ?thesis using h by (simp add: owned_def refund_entry_def)
qed

lemma scene_worker: "scene_ok (xs @ w # ys, s) \<Longrightarrow> worker_ok (wa_messages s) w"
  by (simp add: scene_ok_def)

lemma scene_desk: "scene_ok (ws, s) \<Longrightarrow> desk_ok s"
  by (simp add: scene_ok_def)

lemma scene_refund:
  assumes ok: "scene_ok (xs @ w # ys, s)" and D: "decimal_laws D"
    and w': "live w' = live w \<or> live w' = []" "worker_ok (wa_messages s) w'"
  shows "scene_ok (xs @ w' # ys, snd (refundMessage D store i s))"
proof -
  have desk: "desk_ok s" using scene_desk[OF ok] .
  let ?es = "message_entries store i s" let ?e = "refund_entry store i ?es (net ?es)"
  have "scene_ok (xs @ w' # ys, add_entry ?e s)" if "refundMessage D store i s = (Inr True, add_entry ?e s)" "net ?es < 0"
    using scene_entry[OF ok _ refund_owned[OF desk that(2)] w'] refund_keeps[OF desk_wallet[OF desk] D, of store i] that(1) by simp
  moreover have "scene_ok (xs @ w' # ys, s)" using scene_swap[OF ok same_wallet_refl w'] .
  ultimately show ?thesis using refund_run[OF desk_wallet[OF desk] D, of store i] by (auto simp: Let_def split: if_splits)
qed

lemma fetch_ok:
  assumes "desk_ok s" "worker_ok (wa_messages s) (Fetching i)" "find_message i s = Some m"
  shows "snap_ok (wa_messages s) m \<and> wm_id m = i"
proof -
  obtain r where r: "r \<in> set (wa_messages s)" "wm_id r = i" "wm_status r \<noteq> MSG_SCHEDULED" "wm_attempts r < 3"
    using assms(2) by auto
  then have "m = r" using find_message_row[OF assms(1) r(1)] assms(3) by simp
  then show ?thesis using r by (auto simp: snap_ok_def)
qed

lemma failures_ok [simp]:
  "failure_ok (changed_status st)" "failure_ok (not_approved m tp)" "failure_ok (no_price m)" "failure_ok short_balance"
  "failure_ok Crashed" "failure_ok (Graph e)"
  by (simp_all add: failure_ok_def changed_status_def not_approved_def no_price_def short_balance_def)

lemma check_failure_ok: "check_failure cn x m = Some f \<Longrightarrow> failure_ok f"
  by (auto simp: check_failure_def failure_ok_def split: if_splits)

lemma caught_fits: "worker_ok ms w \<Longrightarrow> worker_ok ms (caught w) \<and> (live (caught w) = live w \<or> live (caught w) = [])"
  by (cases w) (auto simp: caught_def split: failure.split)

lemma attempt_bound: "snap_ok ms m \<Longrightarrow> wm_attempts m + 1 \<in> {1..3}"
  by (auto simp: snap_ok_def)

lemma debit_cases:
  "(\<exists>b. debitForMessage D store i n p currency s = (Inr (Short b), s)) \<or>
   (\<exists>e. debitForMessage D store i n p currency s = (Inl e, s)) \<or>
   (\<exists>b. debitForMessage D store i n p currency s = (Inr (Debited b), add_entry (debit_entry store i n p currency) s))"
  by (simp add: debit_run)

lemma scene_debit:
  assumes ok: "scene_ok (xs @ Debiting m c p # ys, s)" and run: "advance E now answer (Debiting m c p) s = (w', t)"
  shows "scene_ok (xs @ w' # ys, t)"
proof -
  have desk: "desk_ok s" and w: "snap_ok (wa_messages s) m" "price_ok p" using scene_desk[OF ok] scene_worker[OF ok] by simp_all
  let ?e = "debit_entry (wm_store m) (wm_id m) (wm_attempts m + 1) p (wm_currency m)"
  let ?d = "debitForMessage (ev_decimal E) (wm_store m) (wm_id m) (wm_attempts m + 1) p (wm_currency m) s"
  have keep: "wallet_ok (snd ?d)" by (rule debit_keeps[OF desk_wallet[OF desk] w(2) attempt_bound[OF w(1)]])
  have swap: "scene_ok (xs @ v # ys, s)" if "live v = [wm_id m]" "worker_ok (wa_messages s) v" for v
    using scene_swap[OF ok same_wallet_refl, of v] that by simp
  have entry: "scene_ok (xs @ Counting m c p b # ys, add_entry ?e s)" if "?d = (Inr (Debited b), add_entry ?e s)" for b
    using scene_entry[OF ok _ debit_owned[OF w(1)], of _ p "Counting m c p b"] keep that w by simp
  consider b where "?d = (Inr (Short b), s)" | e where "?d = (Inl e, s)" | b where "?d = (Inr (Debited b), add_entry ?e s)"
    using debit_cases by blast
  then show ?thesis
  proof cases
    case (1 b) then show ?thesis using run swap w by (auto simp: advance_def turn_def bnd_def ret_def)
  next
    case (2 e) then show ?thesis using run swap w by (auto simp: advance_def turn_def bnd_def ret_def caught_def)
  next
    case (3 b) then show ?thesis using run entry[OF 3] by (auto simp: advance_def turn_def bnd_def ret_def)
  qed
qed

lemma scene_count:
  assumes ok: "scene_ok (xs @ Counting m c p b # ys, s)" and run: "advance E now answer (Counting m c p b) s = (w', t)"
  shows "scene_ok (xs @ w' # ys, t)"
proof -
  have desk: "desk_ok s" and w: "snap_ok (wa_messages s) m" "price_ok p" using scene_desk[OF ok] scene_worker[OF ok] by simp_all
  let ?f = "\<lambda>r. r\<lparr>wm_attempts := wm_attempts m + 1\<rparr>\<lparr>wm_updatedAt := now\<rparr>"
  let ?P = "\<lambda>r. wm_id r = wm_id m"
  obtain r where r: "r \<in> set (wa_messages s)" "wm_id r = wm_id m" "wm_store r = wm_store m" "wm_currency r = wm_currency m"
    "wm_status r \<noteq> MSG_SCHEDULED" and few: "wm_attempts m < 3" using w(1) by (auto simp: snap_ok_def)
  have found: "find_message (wm_id m) s = Some r" using find_message_row[OF desk r(1)] r(2) by simp
  have f: "same_owner ?f" by (simp add: same_owner_def)
  have "patch ?P ?f r \<in> set (map (patch ?P ?f) (wa_messages s))" using r(1) by simp
  then have snap: "snap_ok (map (patch ?P ?f) (wa_messages s)) m" unfolding snap_ok_def
    by (intro conjI bexI[of _ "patch ?P ?f r"]) (use r few in \<open>auto simp: patch_def\<close>)
  have "scene_ok (xs @ Sending m c p b # ys, map_messages ?P ?f s)"
  proof (rule scene_own[OF ok _ f])
    show "row_ok (?f q)" if "q \<in> set (wa_messages s)" "wm_id q = wm_id m" for q
      using same_row[OF desk r(1), of q] that r few by (auto simp: row_ok_def)
  qed (use snap w in auto)
  then show ?thesis using run found
    by (auto simp: advance_def turn_def andthen_def bnd_def ret_def update_message_run)
qed

lemma scene_sending_rows:
  assumes ok: "scene_ok (xs @ w # ys, s)" and f: "gentle f" and w': "live w' = live w \<or> live w' = []" "worker_ok (wa_messages s) w'"
    and r: "r = (Inr (), map_messages P f s) \<or> (\<exists>e. r = (Inl e, s))"
  shows "scene_ok (xs @ w' # ys, snd r)"
  using r scene_gentle[OF ok f w'] scene_swap[OF ok same_wallet_refl w'] by auto

lemma scene_retry:
  assumes ok: "scene_ok (xs @ Failing m (Graph e) # ys, s)" and few: "wm_attempts m + 1 < MAX_SEND_ATTEMPTS"
  shows "scene_ok (xs @ Finished OUT_RETRIED # ys, snd (retry_later now (wm_id m) e s))"
proof -
  have desk: "desk_ok s" and w: "snap_ok (wa_messages s) m" using scene_desk[OF ok] scene_worker[OF ok] by simp_all
  let ?f = "\<lambda>r. r\<lparr>wm_status := MSG_SCHEDULED, wm_sendAfter := now + RETRY_DELAY_MINUTES * 60000,
      wm_errorCode := Some (errorCode e), wm_errorMessage := Some (ge_message e)\<rparr>\<lparr>wm_updatedAt := now\<rparr>"
  let ?P = "\<lambda>r. wm_id r = wm_id m \<and> wm_status r = MSG_SENDING"
  obtain r where r: "r \<in> set (wa_messages s)" "wm_id r = wm_id m" "wm_attempts r \<le> wm_attempts m + 1"
    using w by (auto simp: snap_ok_def)
  have "scene_ok (xs @ Finished OUT_RETRIED # ys, map_messages ?P ?f s)"
  proof (rule scene_own[OF ok])
    show "same_owner ?f" by (simp add: same_owner_def)
    show "row_ok (?f q)" if "q \<in> set (wa_messages s)" "wm_id q = wm_id m \<and> wm_status q = MSG_SENDING" for q
      using same_row[OF desk r(1), of q] that r few by (auto simp: row_ok_def MAX_SEND_ATTEMPTS_def)
  qed auto
  then show ?thesis by (simp add: retry_later_def update_sending_run)
qed

lemma scene_failing:
  assumes ok: "scene_ok (xs @ Failing m f # ys, s)" and run: "advance E now answer (Failing m f) s = (w', t)"
  shows "scene_ok (xs @ w' # ys, t)"
proof -
  have w: "snap_ok (wa_messages s) m" "failure_ok f" using scene_worker[OF ok] by simp_all
  have swap: "scene_ok (xs @ v # ys, u)" if "live v = []" "worker_ok (wa_messages s) v" "same_wallet s u" for v u
    using scene_swap[OF ok that(3), of v] that by simp
  show ?thesis
  proof (cases f)
    case (Stop st code msg)
    then show ?thesis using run swap[OF _ _ same_wallet_refl] w by (auto simp: advance_def turn_def handleFailure_def ret_def failure_ok_def)
  next
    case (Graph e)
    obtain u where u: "markReauthRequired (wm_store m) (ge_message e) s = (Inr (), u)" "same_wallet s u"
      using markReauth_run[of "wm_store m" "ge_message e" s] by blast
    show ?thesis
    proof (cases "isAuthError e")
      case True then show ?thesis using run Graph u(1) swap[OF _ _ u(2)]
        by (auto simp: advance_def turn_def handleFailure_def ret_def andthen_def bnd_def)
    next
      case False
      show ?thesis
      proof (cases "isTransient e \<and> wm_attempts m + 1 < MAX_SEND_ATTEMPTS")
        case True then show ?thesis using run Graph False scene_retry[of xs m e ys s now] ok
          by (auto simp: advance_def turn_def handleFailure_def ret_def andthen_def bnd_def retry_later_def update_sending_run)
      next
        case no: False then show ?thesis using run Graph False swap[OF _ _ same_wallet_refl]
          by (auto simp: advance_def turn_def handleFailure_def ret_def)
      qed
    qed
  next
    case Crashed
    then show ?thesis using run swap[OF _ _ same_wallet_refl] by (auto simp: advance_def turn_def handleFailure_def ret_def)
  qed
qed

lemma failed_by_hook_gentle: "gentle (failed_by_hook t h)"
  by (simp add: gentle_def same_owner_def failed_by_hook_def)

lemma later_status_gentle:
  "st \<noteq> MSG_SCHEDULED \<Longrightarrow> gentle (\<lambda>r. timestampField st t (if b then r\<lparr>wm_status := st\<rparr> else r))"
  by (auto simp: gentle_def same_owner_def timestampField_def split: msg_status.split)

lemma hook_next_final: "hook_next h = Some st \<Longrightarrow> st \<in> {MSG_SENT, MSG_DELIVERED, MSG_READ, MSG_FAILED}"
  by (auto simp: hook_next_def META_STATUS_def split: if_splits)

lemma scene_hook_apply:
  assumes ok: "scene_ok (xs @ Hook_apply m h # ys, s)" and run: "advance E now answer (Hook_apply m h) s = (w', t)"
  shows "scene_ok (xs @ w' # ys, t)"
proof -
  have swap: "scene_ok (xs @ Gone # ys, s)" using scene_swap[OF ok same_wallet_refl, of Gone] by simp
  have wr: "scene_ok (xs @ v # ys, map_messages P (\<lambda>r. f r\<lparr>wm_updatedAt := now\<rparr>) s)"
    if "gentle f" "v = Gone \<or> v = Hook_refund m h" for f v P
    using scene_gentle[OF ok stamp_gentle[OF that(1)], of v] that(2) by auto
  show ?thesis
  proof (cases "hook_next h")
    case None then show ?thesis using run swap by (auto simp: advance_def turn_def hook_apply_def ret_def)
  next
    case (Some st)
    then have st: "st \<noteq> MSG_SCHEDULED" using hook_next_final by auto
    show ?thesis using run Some swap wr[OF failed_by_hook_gentle] wr[OF later_status_gentle[OF st]]
      by (auto simp: advance_def turn_def hook_apply_def ret_def andthen_def bnd_def update_message_run caught_def Let_def
          split: if_splits)
  qed
qed

text \<open>The stages that only read, or write nothing of the wallet.\<close>

fun quiet :: "worker \<Rightarrow> bool" where
  "quiet (Fetching i) = True"
| "quiet (Checking m) = True"
| "quiet (Comparing m c tp) = True"
| "quiet (Pricing m c) = True"
| "quiet (Warning m b) = True"
| "quiet (Sending m c p b) = True"
| "quiet (Alerting m b) = True"
| "quiet (Finished out) = True"
| "quiet (Hook_find h) = True"
| "quiet Gone = True"
| "quiet _ = False"

lemma scene_reading:
  assumes ok: "scene_ok (xs @ w # ys, s)" and run: "advance E now answer w s = (w', t)"
    and w: "quiet w"
  shows "scene_ok (xs @ w' # ys, t)"
proof -
  have desk: "desk_ok s" and wok: "worker_ok (wa_messages s) w" using scene_desk[OF ok] scene_worker[OF ok] by simp_all
  have price: "price_ok p" if "getPrice c s = Some p" for c p using wallet_price[OF desk_wallet[OF desk] that] .
  have low: "\<exists>u. checkLowBalance D n now store currency b s = (Inr (), u) \<and> same_wallet s u" for D n store currency b
    by (rule checkLowBalance_run)
  have "same_wallet s t \<and> (live w' = live w \<or> live w' = []) \<and> worker_ok (wa_messages s) w'"
  proof (cases w)
    case w: (Fetching i)
    show ?thesis
    proof (cases "find_message i s")
      case None then show ?thesis using run w by (auto simp: advance_def turn_def bnd_def reading_def ret_def)
    next
      case (Some m) then show ?thesis using run w wok fetch_ok[OF desk _ Some]
        by (auto simp: advance_def turn_def bnd_def reading_def ret_def split: if_splits)
    qed
  next
    case w: (Checking m)
    show ?thesis using run w wok check_failure_ok
      by (auto simp: advance_def turn_def bnd_def reading_def ret_def split: option.splits)
  next
    case w: (Comparing m c tp)
    show ?thesis using run w wok by (auto simp: advance_def turn_def bnd_def reading_def ret_def)
  next
    case w: (Pricing m c)
    show ?thesis using run w wok price by (auto simp: advance_def turn_def bnd_def reading_def ret_def split: option.splits)
  next
    case w: (Warning m b)
    show ?thesis using run w wok low[of "ev_decimal E" "ev_lowMessages E" "wm_store m" "wm_currency m" b]
      by (auto simp: advance_def turn_def andthen_def bnd_def ret_def)
  next
    case w: (Sending m c p b)
    show ?thesis using run w wok
      by (auto simp: advance_def turn_def andthen_def bnd_def require_def ret_def throw_def caught_def split: if_splits sum.splits)
  next
    case w: (Alerting m b)
    show ?thesis using run w wok low[of "ev_decimal E" "ev_lowMessages E" "wm_store m" "wm_currency m" b]
      by (auto simp: advance_def turn_def andthen_def bnd_def ret_def)
  next
    case (Finished out)
    then show ?thesis using run by (auto simp: advance_def turn_def ret_def)
  next
    case (Hook_find h)
    then show ?thesis using run
      by (auto simp: advance_def turn_def hook_find_def ret_def bnd_def reading_def split: option.splits)
  next
    case Gone
    then show ?thesis using run by (auto simp: advance_def turn_def ret_def)
  qed (use w in simp_all)
  then show ?thesis using scene_swap[OF ok] by blast
qed

lemma refund_result: "\<exists>r. refundMessage D store i s = (r, snd (refundMessage D store i s))"
  by (cases "refundMessage D store i s") simp

lemma scene_turn:
  assumes ok: "scene_ok (xs @ w # ys, s)" and D: "decimal_laws (ev_decimal E)" and run: "advance E now answer w s = (w', t)"
  shows "scene_ok (xs @ w' # ys, t)"
proof -
  have wok: "worker_ok (wa_messages s) w" using scene_worker[OF ok] .
  have refund: "scene_ok (xs @ v # ys, snd (refundMessage (ev_decimal E) store i s))"
    if "live v = live w \<or> live v = []" "worker_ok (wa_messages s) v" for store i v
    using scene_refund[OF ok D that] .
  have ending: "scene_ok (xs @ v # ys, snd (finish now i st code msg s))"
    if "live v = []" "worker_ok (wa_messages s) v" "st \<in> {MSG_SKIPPED, MSG_FAILED}" for v i st code msg
    using finish_gentle[OF that(3), of now i code msg s] scene_gentle[OF ok, of _ v] that by auto
  show ?thesis
  proof (cases w)
    case (Debiting m c p) then show ?thesis using scene_debit ok run by blast
  next
    case (Counting m c p b) then show ?thesis using scene_count ok run by blast
  next
    case (Recording m p b pid)
    obtain f where f: "gentle f" "record_sent now (wm_id m) p pid s = (Inr (), map_messages (\<lambda>x. wm_id x = wm_id m) f s) \<or>
        (\<exists>e. record_sent now (wm_id m) p pid s = (Inl e, s))"
      using record_sent_run[of now "wm_id m" p pid s] by blast
    then show ?thesis using run Recording wok scene_gentle[OF ok f(1), of "Alerting m b"]
        scene_swap[OF ok same_wallet_refl, of "Refunding m Crashed"]
      by (auto simp: advance_def turn_def andthen_def bnd_def ret_def caught_def)
  next
    case (Refunding m f)
    then show ?thesis using run wok refund[of "Failing m f" "wm_store m" "wm_id m"]
      by (auto simp: advance_def turn_def andthen_def bnd_def ret_def caught_def split: prod.splits sum.splits)
  next
    case (Failing m f) then show ?thesis using scene_failing ok run by blast
  next
    case (Ending i st code msg out)
    then show ?thesis using run wok ending[of "Finished out" st i code msg]
      by (auto simp: advance_def turn_def andthen_def bnd_def ret_def finish_def update_sending_run)
  next
    case (Recovering store i)
    then show ?thesis using run refund[of "Closing i" store i]
      by (auto simp: advance_def turn_def andthen_def bnd_def ret_def caught_def split: prod.splits sum.splits)
  next
    case (Closing i)
    then show ?thesis using run ending[of Gone MSG_FAILED i "''SEND_INTERRUPTED''" "''Sending was interrupted; the charge was refunded''"]
      by (auto simp: advance_def turn_def andthen_def bnd_def ret_def finish_def update_sending_run)
  next
    case (Hook_apply m h) then show ?thesis using scene_hook_apply ok run by blast
  next
    case (Hook_refund m h)
    then show ?thesis using run refund[of Gone "wm_store m" "wm_id m"]
      by (auto simp: advance_def turn_def andthen_def bnd_def ret_def caught_def split: prod.splits sum.splits)
  qed (use scene_reading[OF ok run] in simp_all)
qed

section \<open>The other events\<close>

text \<open>Administration and couriers add credits, prices and messages, and change no charge.\<close>

definition adds_credit :: "'a wa_db_scheme \<Rightarrow> 'a wa_db_scheme \<Rightarrow> bool" where
  "adds_credit s t \<longleftrightarrow> wa_messages t = wa_messages s \<and>
     (\<exists>es. wa_entries t = wa_entries s @ es \<and> (\<forall>e \<in> set es. be_message e = None))"

lemma adds_credit_same: "adds_credit s t \<Longrightarrow> same_wallet t u \<Longrightarrow> adds_credit s u"
  by (simp add: adds_credit_def same_wallet_def)

lemma adds_credit_refl [simp]: "adds_credit s s"
  by (simp add: adds_credit_def)

lemma adds_credit_create:
  "adds_credit s t \<Longrightarrow> be_message e = None \<Longrightarrow> adds_credit s (snd (create_entry e t))"
  by (auto simp: create_entry_run adds_credit_def)

lemma preserves_case_option:
  "preserves I m \<Longrightarrow> (\<And>a. preserves I (k a)) \<Longrightarrow> preserves I (case x of None \<Rightarrow> m | Some a \<Rightarrow> k a)"
  by (cases x) auto

lemma adminCredit_adds: "preserves (adds_credit s) (adminCredit D parse n now store d admin)"
proof -
  have create: "preserves (adds_credit s) (create_entry (credit_entry store d x c admin))" for x c
    using adds_credit_create[of s _ "credit_entry store d x c admin"] by (auto intro!: preservesI simp: credit_entry_def)
  have body: "preserves (adds_credit s) (transaction (wallet_credit_body D store d x c admin))" for x c
    unfolding wallet_credit_body_def
    by (rule preserves_transaction preserves_bnd preserves_andthen preserves_require preserves_ret preserves_reading
        preserves_case_option create)+
  have low: "preserves (adds_credit s) (checkLowBalance D n now store c b)" for c b
    by (rule preservesI) (rule adds_credit_same[OF _ checkLowBalance_same])
  show ?thesis unfolding adminCredit_def
    by (rule preserves_bnd preserves_andthen preserves_require preserves_ret preserves_reading preserves_found
        preserves_lift_sum body low)+
qed

lemma message_entries_credit: "adds_credit s t \<Longrightarrow> message_entries store i t = message_entries store i s"
  by (auto simp: adds_credit_def message_entries_def filter_empty_conv)

lemma desk_credit:
  assumes "desk_ok s" "wallet_ok t" "adds_credit s t" shows "desk_ok t"
proof -
  obtain es where "wa_messages t = wa_messages s" "wa_entries t = wa_entries s @ es" "\<forall>e \<in> set es. be_message e = None"
    using assms(3) by (auto simp: adds_credit_def)
  then show ?thesis using assms(1,2) by (auto simp: desk_ok_def owned_def)
qed

lemma setPricing_adds: "preserves (adds_credit s) (setPricing parse currency v admin)"
  unfolding setPricing_def Let_def
  by (rule preserves_bnd preserves_andthen preserves_require preserves_ret preserves_reading preserves_lift_sum preserves_writing)+
     (auto simp: adds_credit_def intro: preserves_ret)

text \<open>Queueing adds at most one row, which nobody has charged.\<close>

definition new_message :: "wa_message \<Rightarrow> 'a wa_db_scheme \<Rightarrow> bool" where
  "new_message m s \<longleftrightarrow> wm_id m \<notin> wm_id ` set (wa_messages s) \<and> wm_attempts m = 0 \<and>
     wm_status m \<in> {MSG_SCHEDULED, MSG_SKIPPED} \<and> wm_provider m = None"

lemma queue_message_run:
  assumes "wm_attempts m = 0" "wm_status m \<in> {MSG_SCHEDULED, MSG_SKIPPED}" "wm_provider m = None"
  shows "snd (queue_message m s) = s \<or> new_message m s \<and> snd (queue_message m s) = s\<lparr>wa_messages := wa_messages s @ [m]\<rparr>"
proof (cases "list_ex (\<lambda>x. wm_id x = wm_id m) (wa_messages s)")
  case True then show ?thesis by (simp add: queue_message_def act_defs)
next
  case False
  then have "new_message m s" using assms by (auto simp: new_message_def list_ex_iff)
  with False show ?thesis by (simp add: queue_message_def act_defs)
qed

lemma queued_message_fits:
  "wm_attempts (queued_message E now uuid d o' store c x) = 0"
  "wm_status (queued_message E now uuid d o' store c x) \<in> {MSG_SCHEDULED, MSG_SKIPPED}"
  "wm_provider (queued_message E now uuid d o' store c x) = None"
  by (simp_all add: queued_message_def Let_def)

lemma onShipmentStatus_run:
  "snd (onShipmentStatus E now uuid d s) = s \<or>
   (\<exists>m. new_message m s \<and> snd (onShipmentStatus E now uuid d s) = s\<lparr>wa_messages := wa_messages s @ [m]\<rparr>)"
proof -
  have q: "snd (queue_message (queued_message E now uuid d o' store c x) s) = s \<or>
      (\<exists>m. new_message m s \<and> snd (queue_message (queued_message E now uuid d o' store c x) s) = s\<lparr>wa_messages := wa_messages s @ [m]\<rparr>)"
    for o' store c x using queue_message_run[OF queued_message_fits, of E now uuid d o' store c x s] by blast
  show ?thesis by (simp add: onShipmentStatus_def act_defs q split: option.split)
qed

lemma desk_queue:
  assumes ok: "desk_ok s" and m: "new_message m s"
  shows "desk_ok (s\<lparr>wa_messages := wa_messages s @ [m]\<rparr>)"
proof -
  have "wallet_ok (s\<lparr>wa_messages := wa_messages s @ [m]\<rparr>)"
    using desk_wallet[OF ok] by (simp add: wallet_frame[of "s\<lparr>wa_messages := wa_messages s @ [m]\<rparr>" s])
  moreover have "row_ok m" using m by (auto simp: new_message_def row_ok_def)
  ultimately show ?thesis using ok m by (auto simp: desk_ok_def new_message_def owned_def)
qed

lemma worker_queue: "worker_ok ms w \<Longrightarrow> worker_ok (ms @ [m]) w"
  by (cases w) (auto simp: snap_ok_def)

lemma live_row: "worker_ok ms w \<Longrightarrow> i \<in> set (live w) \<Longrightarrow> \<exists>r \<in> set ms. wm_id r = i \<and> wm_status r \<noteq> MSG_SCHEDULED"
  by (cases w) (auto simp: snap_ok_def)

text \<open>A claim takes scheduled rows, which no call is at work on.\<close>

abbreviation take_up :: "int \<Rightarrow> wa_message \<Rightarrow> wa_message" where
  "take_up now m \<equiv> m\<lparr>wm_status := MSG_SENDING, wm_updatedAt := now\<rparr>"

lemma claim_run:
  "claimDue now limit s = (Inr (map wm_id (due now limit s)),
     map_messages (\<lambda>m. wm_id m \<in> set (map wm_id (due now limit s))) (take_up now) s)"
  by (simp add: claimDue_def act_defs)

lemma due_rows:
  "r \<in> set (due now limit s) \<Longrightarrow> r \<in> set (wa_messages s) \<and> wm_status r = MSG_SCHEDULED"
  by (auto simp: due_def dest: in_set_takeD)

lemma due_distinct: "desk_ok s \<Longrightarrow> distinct (map wm_id (due now limit s))"
proof -
  let ?xs = "sort_key wm_sendAfter (filter (\<lambda>m. wm_status m = MSG_SCHEDULED \<and> wm_sendAfter m \<le> now) (wa_messages s))"
  assume "desk_ok s"
  from desk_ids[OF this] have "distinct (map wm_id ?xs)" by (auto simp: distinct_map inj_on_def)
  then show ?thesis unfolding due_def take_map[symmetric] by (rule distinct_take)
qed

lemma take_up_gentle: "gentle (take_up now)"
  by (simp add: gentle_def same_owner_def)

lemma scene_claim:
  assumes ok: "scene_ok (ws, s)"
  shows "scene_ok (ws @ map Fetching (map wm_id (due now limit s)),
    map_messages (\<lambda>m. wm_id m \<in> set (map wm_id (due now limit s))) (take_up now) s)"
proof -
  let ?ids = "map wm_id (due now limit s)" let ?P = "\<lambda>m. wm_id m \<in> set ?ids"
  have desk: "desk_ok s" using scene_desk[OF ok] .
  have ws: "worker_ok (map (patch ?P (take_up now)) (wa_messages s)) w" if "w \<in> set ws" for w
    using ok that gentle_worker[OF _ take_up_gentle] by (simp add: scene_ok_def)
  have new: "worker_ok (map (patch ?P (take_up now)) (wa_messages s)) (Fetching i)" if i: "i \<in> set ?ids" for i
  proof -
    obtain r where r: "r \<in> set (due now limit s)" "wm_id r = i" using i by auto
    then have "r \<in> set (wa_messages s)" "row_ok r" "wm_status r = MSG_SCHEDULED"
      using due_rows[OF r(1)] desk by (simp_all add: desk_ok_def)
    then have "patch ?P (take_up now) r \<in> set (map (patch ?P (take_up now)) (wa_messages s))" "wm_attempts r < 3"
      by (simp_all add: row_ok_def)
    moreover have "patch ?P (take_up now) r = take_up now r" using r by (auto simp: patch_def)
    ultimately show ?thesis using r(2) unfolding worker_ok.simps by (intro bexI[of _ "take_up now r"]) auto
  qed
  have apart: "i \<notin> set ?ids" if m: "w \<in> set ws" "i \<in> set (live w)" for w i
  proof
    assume "i \<in> set ?ids"
    then obtain r where "r \<in> set (due now limit s)" and "wm_id r = i" by auto
    then have r: "r \<in> set (wa_messages s)" "wm_status r = MSG_SCHEDULED" "wm_id r = i" using due_rows by blast+
    have "worker_ok (wa_messages s) w" using ok m by (simp add: scene_ok_def)
    then obtain q where q: "q \<in> set (wa_messages s)" "wm_id q = i" "wm_status q \<noteq> MSG_SCHEDULED"
      using live_row[OF _ m(2)] by blast
    have "q = r" by (rule same_row[OF desk r(1) q(1)]) (simp add: q r)
    then show False using q r by simp
  qed
  have "lives (ws @ map Fetching ?ids) = lives ws @ ?ids" by (induction ws) (auto simp: concat_map_singleton comp_def)
  moreover have "set (lives ws) \<inter> set ?ids = {}" unfolding set_concat set_map[of live ws] using apart by blast
  moreover have "distinct (lives ws)" using ok by (simp add: scene_ok_def)
  ultimately have "distinct (lives (ws @ map Fetching ?ids))" using due_distinct[OF desk] by (simp only: distinct_append)
  then show ?thesis using gentle_desk[OF desk take_up_gentle] ws new by (auto simp: scene_ok_def)
qed

lemma scene_rows:
  assumes ok: "scene_ok (ws, s)" and f: "gentle f"
  shows "scene_ok (ws, map_messages P f s)"
proof -
  have "desk_ok (map_messages P f s)" by (rule gentle_desk[OF scene_desk[OF ok] f])
  then show ?thesis using ok gentle_worker[OF _ f] by (simp add: scene_ok_def)
qed

lemma recovering_lives [simp]: "concat (map (live \<circ> (\<lambda>(store, i). Recovering store i)) rows) = []"
  by (induction rows) auto

lemma scene_step:
  assumes step: "wa_step calm E c d" and D: "decimal_laws (ev_decimal E)" and ok: "scene_ok c"
  shows "scene_ok d"
  using step ok
proof cases
  case (turn_step now answer w s w' t xs ys)
  then show ?thesis using scene_turn[OF _ D] ok by blast
next
  case (fault_step w xs ys s)
  then show ?thesis using ok caught_fits[of "wa_messages s" w] scene_swap[of xs w ys s s "caught w"] by (auto simp: scene_ok_def)
next
  case (crash_step w xs ys s)
  then show ?thesis using ok by (auto simp: scene_ok_def)
next
  case (claim_step now limit s ids t ws)
  then have "ids = map wm_id (due now limit s)"
    "t = map_messages (\<lambda>m. wm_id m \<in> set (map wm_id (due now limit s))) (take_up now) s"
    unfolding claim_run by auto
  then show ?thesis using ok claim_step(1,2) scene_claim[of ws s now limit] by simp
next
  case (recover_step rows now s ws)
  then show ?thesis using ok by (auto simp: scene_ok_def recovering_lives)
next
  case (hook_step ws h s)
  then show ?thesis using ok by (simp add: scene_ok_def)
next
  case (queue_step now uuid d s r t ws)
  have "t = s \<or> (\<exists>m. new_message m s \<and> t = s\<lparr>wa_messages := wa_messages s @ [m]\<rparr>)"
    using onShipmentStatus_run[of E now uuid d s] queue_step(3) by simp
  then show ?thesis using queue_step ok desk_queue worker_queue by (auto simp: scene_ok_def)
next
  case (credit_step parse now store d admin s r t ws)
  have "wallet_ok t" if "wallet_ok s" using preserves_step[OF adminCredit_keeps[OF D] credit_step(3) that] .
  moreover have "adds_credit s t" using preserves_step[OF adminCredit_adds credit_step(3), of s] by simp
  ultimately show ?thesis using credit_step ok desk_credit by (auto simp: scene_ok_def desk_wallet adds_credit_def)
next
  case (price_step parse currency v admin s r t ws)
  have "wallet_ok t" if "wallet_ok s" using preserves_step[OF setPricing_keeps price_step(3) that] .
  moreover have "adds_credit s t" using preserves_step[OF setPricing_adds price_step(3), of s] by simp
  ultimately show ?thesis using price_step ok desk_credit by (auto simp: scene_ok_def desk_wallet adds_credit_def)
next
  case (disconnect_step ws s now store)
  let ?u = "s\<lparr>wa_connections := map (\<lambda>c. if cn_store c = store
       then c\<lparr>cn_status := CONN_DISCONNECTED, cn_token := None, cn_disconnectedAt := Some now\<rparr> else c) (wa_connections s)\<rparr>"
  have u: "same_wallet s ?u" by (simp add: same_wallet_def)
  have "scene_ok (ws, ?u)" using ok disconnect_step desk_frame[OF u] same_messages[OF u] by (simp add: scene_ok_def)
  then show ?thesis unfolding disconnect_step disconnect_store_def
    by (rule scene_rows) (simp add: gentle_def same_owner_def)
next
  case (order_step ws s i)
  then show ?thesis using ok scene_rows[of ws s "\<lambda>m. m\<lparr>wm_order := None\<rparr>"] by (simp add: gentle_def same_owner_def)
next
  case (other_step s t ws)
  then show ?thesis using ok desk_frame[OF other_step(3)] same_messages[OF other_step(3)] by (simp add: scene_ok_def)
qed

lemma installed_scene: "installed s \<Longrightarrow> scene_ok ([], s)"
  by (simp add: installed_def scene_ok_def desk_ok_def wallet_ok_def entry_keys_def message_entries_def getBalance_def charge_ok_def)

lemma scene_reach:
  assumes "wa_reach calm E c" "decimal_laws (ev_decimal E)" shows "scene_ok c"
  using assms(1) by induction (use installed_scene scene_step[OF _ assms(2)] in auto)

end
