(* ===== verification/WhatsApp_Settlement.thy ===== *)
theory WhatsApp_Settlement
  imports WhatsApp_Accounts
begin

text \<open>
  The books of the WhatsApp automation in calm runs: when no call is under way, every message that
  went out was charged its cost, every other message nothing, and the balance of a store is its
  credits minus the costs of its messages (\<open>src/whatsapp/whatsapp-balance.service.ts\<close> and
  \<open>whatsapp-insights.service.ts\<close>).
\<close>

section \<open>The invariant of calm runs\<close>

definition rest :: "'a wa_db_scheme \<Rightarrow> wa_message \<Rightarrow> rat" where
  "rest s r = net (message_entries (wm_store r) (wm_id r) s)"

definition settled :: "bool \<Rightarrow> rat \<Rightarrow> wa_message \<Rightarrow> bool" where
  "settled owed x r \<longleftrightarrow> (case wm_status r of
       MSG_SCHEDULED \<Rightarrow> x = 0 \<and> wm_provider r = None
     | MSG_SKIPPED \<Rightarrow> x = 0 \<and> wm_provider r = None
     | MSG_SENDING \<Rightarrow> fits_column x \<and> wm_provider r = None
     | MSG_FAILED \<Rightarrow> x = 0 \<or> owed \<and> fits_column x
     | _ \<Rightarrow> (\<exists>c. wm_cost r = Some c \<and> x = - c \<and> price_ok c))"

text \<open>The messages a worker is about, and what it may count on: \<open>l\<close> says whether a call is live on the row.\<close>

fun about :: "worker \<Rightarrow> string list" where
  "about (Ending i _ _ _ _) = [i]"
| "about (Closing i) = [i]"
| "about (Recovering _ i) = [i]"
| "about (Hook_apply m _) = [wm_id m]"
| "about (Hook_refund m _) = [wm_id m]"
| "about w = live w"

definition sending :: "rat option \<Rightarrow> rat \<Rightarrow> wa_message \<Rightarrow> bool" where
  "sending p x r \<longleftrightarrow> wm_status r = MSG_SENDING \<and> (\<forall>q. p = Some q \<longrightarrow> x = - q)"

definition left_over :: "bool \<Rightarrow> wa_message \<Rightarrow> bool" where
  "left_over l r \<longleftrightarrow> \<not> l \<and> wm_status r \<in> {MSG_SENDING, MSG_FAILED, MSG_SKIPPED} \<and> wm_provider r = None"

fun clear :: "bool \<Rightarrow> rat \<Rightarrow> wa_message \<Rightarrow> worker \<Rightarrow> bool" where
  "clear l x r (Counting m c p b) = (wm_id m = wm_id r \<longrightarrow> sending (Some p) x r)"
| "clear l x r (Sending m c p b) = (wm_id m = wm_id r \<longrightarrow> sending (Some p) x r)"
| "clear l x r (Recording m p b pid) = (wm_id m = wm_id r \<longrightarrow> sending (Some p) x r)"
| "clear l x r (Refunding m f) = (wm_id m = wm_id r \<longrightarrow> sending None x r)"
| "clear l x r (Ending i st code msg out) = (i = wm_id r \<longrightarrow> left_over l r \<and> x = 0)"
| "clear l x r (Closing i) = (i = wm_id r \<longrightarrow> left_over l r \<and> x = 0)"
| "clear l x r (Recovering store i) = (i = wm_id r \<longrightarrow> left_over l r \<and> store = wm_store r)"
| "clear l x r (Hook_apply m h) = (wm_id m = wm_id r \<longrightarrow> wm_store m = wm_store r \<and> wm_status r = wm_status m \<and>
     wm_status m \<in> {MSG_SENT, MSG_DELIVERED, MSG_READ} \<and> hook_provider h \<noteq> None \<and> wm_provider r = hook_provider h)"
| "clear l x r (Hook_refund m h) = (wm_id m = wm_id r \<longrightarrow> wm_store m = wm_store r \<and> wm_status r = MSG_FAILED \<and>
     hook_provider h \<noteq> None \<and> wm_provider r = hook_provider h)"
| "clear l x r w = (wm_id r \<in> set (live w) \<longrightarrow> sending (Some 0) x r)"

definition owes :: "wa_message \<Rightarrow> worker \<Rightarrow> bool" where
  "owes r w \<longleftrightarrow> (case w of Hook_refund m h \<Rightarrow> wm_id m = wm_id r | _ \<Rightarrow> False)"

definition row_calm :: "worker list \<Rightarrow> 'a wa_db_scheme \<Rightarrow> wa_message \<Rightarrow> bool" where
  "row_calm ws s r \<longleftrightarrow> settled (\<exists>w \<in> set ws. owes r w) (rest s r) r \<and>
     (\<forall>w \<in> set ws. clear (wm_id r \<in> set (lives ws)) (rest s r) r w)"

definition providers_ok :: "wa_message list \<Rightarrow> bool" where
  "providers_ok ms \<longleftrightarrow> (\<forall>r \<in> set ms. \<forall>q \<in> set ms. wm_provider r \<noteq> None \<longrightarrow> wm_provider r = wm_provider q \<longrightarrow> wm_id r = wm_id q)"

abbreviation hooks :: "worker list \<Rightarrow> string list" where
  "hooks ws \<equiv> concat (map hooked ws)"

definition calm_ok :: "'a scene \<Rightarrow> bool" where
  "calm_ok c \<longleftrightarrow> scene_ok c \<and> (case c of (ws, s) \<Rightarrow>
     (\<forall>r \<in> set (wa_messages s). row_calm ws s r) \<and> providers_ok (wa_messages s) \<and> distinct (hooks ws) \<and>
     (\<forall>w \<in> set ws. set (about w) \<subseteq> wm_id ` set (wa_messages s)))"

lemma live_about: "set (live w) \<subseteq> set (about w)"
  by (cases w) auto

lemma clear_off: "wm_id r \<notin> set (about w) \<Longrightarrow> clear l x r w"
  by (cases w) auto

lemma owes_about: "owes r w \<Longrightarrow> wm_id r \<in> set (about w)"
  by (cases w) (auto simp: owes_def)

text \<open>What a row is worth to the others does not depend on workers that are not about it.\<close>

lemma row_calm_frame:
  assumes row: "row_calm (xs @ w # ys) s r" and off: "wm_id r \<notin> set (about w)" "wm_id r \<notin> set (about w')"
    and same: "rest t r = rest s r"
  shows "row_calm (xs @ w' # ys) t r"
proof -
  have "wm_id r \<notin> set (live w)" "wm_id r \<notin> set (live w')" using off live_about by blast+
  then have "wm_id r \<in> set (lives (xs @ w' # ys)) \<longleftrightarrow> wm_id r \<in> set (lives (xs @ w # ys))" by auto
  moreover have "(\<exists>x \<in> set (xs @ w' # ys). owes r x) \<longleftrightarrow> (\<exists>x \<in> set (xs @ w # ys). owes r x)"
    using off owes_about by auto
  ultimately show ?thesis using row clear_off[OF off(2)] unfolding row_calm_def same by simp
qed

text \<open>When nobody else is about a row, only the worker at hand counts.\<close>

lemma row_calm_alone:
  assumes "\<And>x. x \<in> set xs \<union> set ys \<Longrightarrow> wm_id r \<notin> set (about x)"
  shows "row_calm (xs @ w # ys) s r \<longleftrightarrow> settled (owes r w) (rest s r) r \<and> clear (wm_id r \<in> set (live w)) (rest s r) r w"
proof -
  have "wm_id r \<in> set (lives (xs @ w # ys)) \<longleftrightarrow> wm_id r \<in> set (live w)"
    using assms live_about by fastforce
  moreover have "(\<exists>x \<in> set (xs @ w # ys). owes r x) \<longleftrightarrow> owes r w" using assms owes_about by auto
  moreover have "\<forall>x \<in> set xs \<union> set ys. clear l y r x" for l y using assms clear_off by blast
  ultimately show ?thesis unfolding row_calm_def by auto
qed

lemma calm_scene: "calm_ok c \<Longrightarrow> scene_ok c"
  by (simp add: calm_ok_def)

lemma calm_row: "calm_ok (ws, s) \<Longrightarrow> r \<in> set (wa_messages s) \<Longrightarrow> row_calm ws s r"
  by (simp add: calm_ok_def)

lemma calm_clear:
  "calm_ok (ws, s) \<Longrightarrow> r \<in> set (wa_messages s) \<Longrightarrow> w \<in> set ws \<Longrightarrow> clear (wm_id r \<in> set (lives ws)) (rest s r) r w"
  by (simp add: calm_ok_def row_calm_def)

lemma live_sending: "clear l x r w \<Longrightarrow> wm_id r \<in> set (live w) \<Longrightarrow> wm_status r = MSG_SENDING"
  by (cases w) (auto simp: sending_def)

text \<open>A call of \<open>processOne\<close> has its row to itself.\<close>

lemma alone_live:
  assumes ok: "calm_ok (xs @ w # ys, s)" and r: "r \<in> set (wa_messages s)" "wm_id r \<in> set (live w)"
    and x: "x \<in> set xs \<union> set ys"
  shows "wm_id r \<notin> set (about x)"
proof
  assume a: "wm_id r \<in> set (about x)"
  have l: "wm_id r \<in> set (lives (xs @ w # ys))" using r(2) by simp
  have st: "wm_status r = MSG_SENDING" using live_sending[OF calm_clear[OF ok r(1)] r(2)] by simp
  have c: "clear True (rest s r) r x" using calm_clear[OF ok r(1), of x] x l by simp
  have "wm_id r \<notin> set (live x)" using calm_scene[OF ok] r(2) x by (auto simp: scene_ok_def)
  then show False using a c st by (cases x) (auto simp: left_over_def)
qed

text \<open>So has a webhook that is about to write.\<close>

lemma alone_hook:
  assumes ok: "calm_ok (xs @ w # ys, s)" and w: "w = Hook_apply m h \<or> w = Hook_refund m h"
    and r: "r \<in> set (wa_messages s)" "wm_id r = wm_id m" and x: "x \<in> set xs \<union> set ys"
  shows "wm_id r \<notin> set (about x)"
proof
  assume a: "wm_id r \<in> set (about x)"
  have c: "clear (wm_id r \<in> set (lives (xs @ w # ys))) (rest s r) r w" using calm_clear[OF ok r(1), of w] by simp
  have d: "clear (wm_id r \<in> set (lives (xs @ w # ys))) (rest s r) r x" using calm_clear[OF ok r(1), of x] x by simp
  have p: "hook_provider h \<noteq> None" "wm_provider r = hook_provider h" "wm_status r \<noteq> MSG_SENDING"
    using c w r(2) by (auto dest: sym)
  have "distinct (hooks (xs @ w # ys))" using ok by (simp add: calm_ok_def)
  then have "set (hooked w) \<inter> set (hooked x) = {}" using x by auto
  then have h: "hook_provider h \<notin> Some ` set (hooked x)" using p w by auto
  have "wm_id r \<notin> set (live x)" using live_sending[OF d] p(3) by blast
  then show False using a d p h by (cases x) (auto simp: left_over_def)
qed

section \<open>One worker moves\<close>

text \<open>
  A worker about message \<open>i\<close> moves on and changes at most the row and the entries of \<open>i\<close>: it is
  enough to look at that row.
\<close>

lemma calm_local:
  assumes ok: "calm_ok (xs @ w # ys, s)" and scene: "scene_ok (xs @ w' # ys, t)"
    and msgs: "wa_messages t = map (patch P f) (wa_messages s)" and f: "same_owner f"
    and P: "\<And>r. P r \<Longrightarrow> wm_id r = i"
    and others: "\<And>r. r \<in> set (wa_messages s) \<Longrightarrow> wm_id r \<noteq> i \<Longrightarrow> rest t r = rest s r"
    and abouts: "set (about w) \<subseteq> {i}" "set (about w') \<subseteq> set (about w)"
    and hooked: "hooked w' = hooked w \<or> hooked w' = []"
    and prov: "providers_ok (map (patch P f) (wa_messages s))"
    and own: "\<And>r. r \<in> set (wa_messages s) \<Longrightarrow> wm_id r = i \<Longrightarrow> row_calm (xs @ w' # ys) t (patch P f r)"
  shows "calm_ok (xs @ w' # ys, t)"
proof -
  have "row_calm (xs @ w' # ys) t q" if q: "q \<in> set (wa_messages t)" for q
  proof -
    obtain r where r: "r \<in> set (wa_messages s)" "q = patch P f r" using q msgs by auto
    show ?thesis
    proof (cases "wm_id r = i")
      case True then show ?thesis using own r by simp
    next
      case False
      then have "q = r" using r P by (auto simp: patch_def)
      moreover have "wm_id r \<notin> set (about w)" "wm_id r \<notin> set (about w')" using False abouts by auto
      ultimately show ?thesis using row_calm_frame[OF calm_row[OF ok r(1)]] others[OF r(1) False] by blast
    qed
  qed
  moreover have "wm_id ` set (wa_messages t) = wm_id ` set (wa_messages s)" using msgs by (auto simp: patch_owner[OF f] image_iff)
  moreover have "distinct (hooks (xs @ w' # ys))" using ok hooked by (auto simp: calm_ok_def)
  ultimately show ?thesis using ok scene msgs prov abouts(2) by (auto simp: calm_ok_def)
qed

lemma patch_none: "patch (\<lambda>_. False) f r = r"
  by (simp add: patch_def)

lemma map_patch_none: "map (patch (\<lambda>_. False) f) ms = ms"
  by (simp add: patch_none map_idI)

text \<open>Without a write to the rows.\<close>

lemma calm_quiet:
  assumes ok: "calm_ok (xs @ w # ys, s)" and scene: "scene_ok (xs @ w' # ys, t)"
    and msgs: "wa_messages t = wa_messages s"
    and others: "\<And>r. r \<in> set (wa_messages s) \<Longrightarrow> wm_id r \<noteq> i \<Longrightarrow> rest t r = rest s r"
    and abouts: "set (about w) \<subseteq> {i}" "set (about w') \<subseteq> set (about w)"
    and hooked: "hooked w' = hooked w \<or> hooked w' = []"
    and own: "\<And>r. r \<in> set (wa_messages s) \<Longrightarrow> wm_id r = i \<Longrightarrow> row_calm (xs @ w' # ys) t r"
  shows "calm_ok (xs @ w' # ys, t)"
proof (rule calm_local[OF ok scene, where f = id and P = "\<lambda>_. False"])
  show "providers_ok (map (patch (\<lambda>_. False) id) (wa_messages s))" using ok by (simp add: map_patch_none calm_ok_def)
qed (use assms in \<open>auto simp: map_patch_none patch_none same_owner_def\<close>)

lemma rest_same: "same_wallet s t \<Longrightarrow> rest t r = rest s r"
  by (simp add: rest_def same_wallet_def message_entries_def)

text \<open>A live call without a write: its row stays \<open>SENDING\<close>, and the entries stay.\<close>

lemma calm_live:
  assumes ok: "calm_ok (xs @ w # ys, s)" and w: "live w = [i]" and scene: "scene_ok (xs @ w' # ys, t)"
    and same: "same_wallet s t" and w': "set (about w') \<subseteq> {i}" "hooked w' = []"
    and clear: "\<And>r. r \<in> set (wa_messages s) \<Longrightarrow> wm_id r = i \<Longrightarrow> clear True (rest s r) r w \<Longrightarrow>
      settled False (rest s r) r \<Longrightarrow> \<not> owes r w' \<and> clear (i \<in> set (live w')) (rest s r) r w'"
  shows "calm_ok (xs @ w' # ys, t)"
proof (rule calm_quiet[OF ok scene same_messages[OF same] rest_same[OF same]])
  have a: "about w = [i]" using w by (cases w) auto
  then show "set (about w) \<subseteq> {i}" "set (about w') \<subseteq> set (about w)" using w' by auto
  show "row_calm (xs @ w' # ys) t r" if r: "r \<in> set (wa_messages s)" "wm_id r = i" for r
  proof -
    have alone: "wm_id r \<notin> set (about x)" if "x \<in> set xs \<union> set ys" for x
      using alone_live[OF ok r(1) _ that] w r(2) by simp
    have "settled (owes r w) (rest s r) r \<and> clear (wm_id r \<in> set (live w)) (rest s r) r w"
      using row_calm_alone[OF alone, where w = w and s = s] calm_row[OF ok r(1)] by simp
    moreover have "\<not> owes r w" using w by (cases w) (auto simp: owes_def)
    ultimately have "settled False (rest s r) r" "clear True (rest s r) r w" using w r(2) by simp_all
    with clear[OF r] show ?thesis using row_calm_alone[OF alone, where w = w' and s = t] rest_same[OF same] r(2) by simp
  qed
qed (use w' in auto)

text \<open>What a live call has charged: nothing, a price, or something it is about to give back.\<close>

fun charge :: "worker \<Rightarrow> rat option" where
  "charge (Counting _ _ p _) = Some p"
| "charge (Sending _ _ p _) = Some p"
| "charge (Recording _ p _ _) = Some p"
| "charge (Refunding _ _) = None"
| "charge _ = Some 0"

lemma clear_live: "live w = [i] \<Longrightarrow> clear l x r w \<longleftrightarrow> (i = wm_id r \<longrightarrow> sending (charge w) x r)"
  by (cases w) auto

fun closes :: "worker \<Rightarrow> bool" where
  "closes (Ending _ _ _ _ _) = True"
| "closes (Closing _) = True"
| "closes _ = False"

lemma clear_closes: "closes w \<Longrightarrow> about w = [i] \<Longrightarrow> clear l x r w \<longleftrightarrow> (i = wm_id r \<longrightarrow> left_over l r \<and> x = 0)"
  by (cases w) auto

definition goes :: "worker \<Rightarrow> worker \<Rightarrow> bool" where
  "goes w w' \<longleftrightarrow> live w' = live w \<and> (charge w' = None \<or> charge w' = charge w) \<or> about w' = [] \<or>
     about w' = live w \<and> live w' = [] \<and> closes w' \<and> charge w = Some 0"

lemma calm_goes:
  assumes ok: "calm_ok (xs @ w # ys, s)" and w: "live w = [i]" and scene: "scene_ok (xs @ w' # ys, t)"
    and same: "same_wallet s t" and w': "goes w w'" "hooked w' = []"
  shows "calm_ok (xs @ w' # ys, t)"
proof (rule calm_live[OF ok w scene same _ w'(2)])
  have abouts: "about w' = [i] \<and> live w' = [i]" if "live w' = [i]" using that by (cases w') auto
  show "set (about w') \<subseteq> {i}" using w' w abouts by (auto simp: goes_def)
  fix r assume r: "wm_id r = i" and c: "clear True (rest s r) r w" and set: "settled False (rest s r) r"
  have send: "sending (charge w) (rest s r) r" using c clear_live[OF w] r by simp
  have "\<not> owes r w'" using w' w abouts by (cases w') (auto simp: goes_def owes_def)
  moreover have "clear (i \<in> set (live w')) (rest s r) r w'"
  proof (cases "about w' = []")
    case True then show ?thesis by (intro clear_off) simp
  next
    case False
    show ?thesis
    proof (cases "live w' = [i]")
      case True
      then have "charge w' = None \<or> charge w' = charge w" using w' w False by (auto simp: goes_def)
      then show ?thesis using send clear_live[OF True] by (auto simp: sending_def)
    next
      case no: False
      then have "about w' = [i]" "closes w'" "charge w = Some 0" "live w' = []" using w' w False by (auto simp: goes_def)
      then show ?thesis using send set clear_closes by (auto simp: sending_def left_over_def settled_def)
    qed
  qed
  ultimately show "\<not> owes r w' \<and> clear (i \<in> set (live w')) (rest s r) r w'" ..
qed

text \<open>The quiet stages of a live call.\<close>

lemma quiet_goes:
  assumes "quiet w" "live w \<noteq> []" and run: "advance E now answer w s = (w', t)" and desk: "desk_ok s"
  shows "same_wallet s t \<and> goes w w' \<and> hooked w' = []"
proof (cases w)
  case (Fetching i)
  then show ?thesis using run find_message_set[of i s]
    by (auto simp: advance_def turn_def bnd_def reading_def ret_def goes_def split: option.splits if_splits)
next
  case (Checking m)
  then show ?thesis using run
    by (auto simp: advance_def turn_def bnd_def reading_def ret_def goes_def split: option.splits)
next
  case (Comparing m c tp)
  then show ?thesis using run by (auto simp: advance_def turn_def bnd_def reading_def ret_def goes_def split: if_splits)
next
  case (Pricing m c)
  then show ?thesis using run by (auto simp: advance_def turn_def bnd_def reading_def ret_def goes_def split: option.splits)
next
  case (Warning m b)
  then show ?thesis using run checkLowBalance_run[of "ev_decimal E" "ev_lowMessages E" now "wm_store m" "wm_currency m" b s]
    by (auto simp: advance_def turn_def andthen_def bnd_def ret_def goes_def)
next
  case (Sending m c p b)
  then show ?thesis using run
    by (auto simp: advance_def turn_def andthen_def bnd_def require_def ret_def throw_def caught_def goes_def
        split: if_splits sum.splits)
qed (use assms in auto)

lemma single_live: "live w \<noteq> [] \<Longrightarrow> \<exists>i. live w = [i]"
  by (cases w) auto

lemma caught_goes: "live w \<noteq> [] \<Longrightarrow> \<not> pays_back w \<Longrightarrow> goes w (caught w) \<and> hooked (caught w) = []"
  by (cases w) (auto simp: caught_def goes_def pays_back_def split: failure.split)

lemma snap_row:
  assumes "desk_ok s" "snap_ok (wa_messages s) m" "r \<in> set (wa_messages s)" "wm_id r = wm_id m"
  shows "wm_store r = wm_store m" "wm_currency r = wm_currency m"
proof -
  obtain q where q: "q \<in> set (wa_messages s)" "wm_id q = wm_id m" "wm_store q = wm_store m" "wm_currency q = wm_currency m"
    using assms(2) by (auto simp: snap_ok_def)
  have "r = q" using same_row[OF assms(1) q(1) assms(3)] q(2) assms(4) by simp
  then show "wm_store r = wm_store m" "wm_currency r = wm_currency m" using q by simp_all
qed

lemma rest_add:
  "rest (add_entry e s) r = rest s r + (if be_store e = wm_store r \<and> be_message e = Some (wm_id r) then be_amount e else 0)"
  by (simp add: rest_def message_entries_add)

lemma calm_alone_iff:
  assumes ok: "calm_ok (xs @ w # ys, s)" and w: "live w = [i]" and r: "r \<in> set (wa_messages s)" "wm_id r = i" and r': "wm_id r' = i"
  shows "row_calm (xs @ w' # ys) t r' \<longleftrightarrow>
    settled (owes r' w') (rest t r') r' \<and> clear (i \<in> set (live w')) (rest t r') r' w'"
proof -
  have "wm_id r' \<notin> set (about x)" if "x \<in> set xs \<union> set ys" for x
    using alone_live[OF ok r(1) _ that] w r(2) r' by simp
  from row_calm_alone[OF this, where w = w' and s = t] show ?thesis using r' by simp
qed

lemma calm_alone_row:
  assumes ok: "calm_ok (xs @ w # ys, s)" and w: "live w = [i]" and r: "r \<in> set (wa_messages s)" "wm_id r = i"
  shows "sending (charge w) (rest s r) r" "settled False (rest s r) r"
proof -
  have "settled (owes r w) (rest s r) r \<and> clear (i \<in> set (live w)) (rest s r) r w"
    using calm_alone_iff[OF ok w r r(2), where w' = w and t = s] calm_row[OF ok r(1)] by simp
  moreover have "\<not> owes r w" using w by (cases w) (auto simp: owes_def)
  ultimately show "sending (charge w) (rest s r) r" "settled False (rest s r) r"
    using clear_live[OF w] r(2) by simp_all
qed

section \<open>The stages that write\<close>

lemma calm_desk: "calm_ok (ws, s) \<Longrightarrow> desk_ok s"
  by (rule scene_desk[OF calm_scene])

lemma settled_sending: "wm_status r = MSG_SENDING \<Longrightarrow> settled b x r \<longleftrightarrow> fits_column x \<and> wm_provider r = None"
  by (simp add: settled_def)

lemma calm_debit:
  assumes ok: "calm_ok (xs @ Debiting m c p # ys, s)" and D: "decimal_laws (ev_decimal E)"
    and run: "advance E now answer (Debiting m c p) s = (w', t)"
  shows "calm_ok (xs @ w' # ys, t)"
proof -
  have scene: "scene_ok (xs @ w' # ys, t)" by (rule scene_turn[OF calm_scene[OF ok] D run])
  have w: "snap_ok (wa_messages s) m" "price_ok p" using scene_worker[OF calm_scene[OF ok]] by simp_all
  let ?e = "debit_entry (wm_store m) (wm_id m) (wm_attempts m + 1) p (wm_currency m)"
  let ?d = "debitForMessage (ev_decimal E) (wm_store m) (wm_id m) (wm_attempts m + 1) p (wm_currency m) s"
  have live: "live (Debiting m c p) = [wm_id m]" by simp
  have stay: "calm_ok (xs @ v # ys, s)" if "scene_ok (xs @ v # ys, s)" "goes (Debiting m c p) v" "hooked v = []" for v
    using calm_goes[OF ok live that(1) same_wallet_refl that(2,3)] .
  consider b where "?d = (Inr (Short b), s)" | e where "?d = (Inl e, s)" | b where "?d = (Inr (Debited b), add_entry ?e s)"
    using debit_cases by blast
  then show ?thesis
  proof cases
    case (1 b) then show ?thesis using run scene stay by (auto simp: advance_def turn_def bnd_def ret_def goes_def)
  next
    case (2 e) then show ?thesis using run scene stay by (auto simp: advance_def turn_def bnd_def ret_def caught_def goes_def)
  next
    case (3 b)
    then have wt: "w' = Counting m c p b" "t = add_entry ?e s" using run by (auto simp: advance_def turn_def bnd_def ret_def)
    show ?thesis
    proof (rule calm_quiet[OF ok scene, where i = "wm_id m"])
      show "rest t r = rest s r" if "wm_id r \<noteq> wm_id m" for r using that by (simp add: wt rest_add debit_entry_def)
      show "row_calm (xs @ w' # ys) t r" if r: "r \<in> set (wa_messages s)" "wm_id r = wm_id m" for r
      proof -
        have "rest t r = rest s r - p" using snap_row[OF calm_desk[OF ok] w(1) r] r(2) by (simp add: wt rest_add debit_entry_def)
        moreover have "rest s r = 0" "wm_status r = MSG_SENDING" "wm_provider r = None"
          using calm_alone_row[OF ok live r] by (auto simp: sending_def settled_def)
        ultimately show ?thesis unfolding calm_alone_iff[OF ok live r r(2)] using w(2)
          by (simp add: wt settled_def sending_def price_ok_def)
      qed
    qed (simp_all add: wt)
  qed
qed

text \<open>Giving back what a row was charged.\<close>

lemma refund_zero:
  assumes ok: "calm_ok (ws, s)" and D: "decimal_laws D" and r: "r \<in> set (wa_messages s)" and fits: "fits_column (rest s r)"
  shows "\<exists>b t. refundMessage D (wm_store r) (wm_id r) s = (Inr b, t) \<and> rest t r = 0 \<and> wa_messages t = wa_messages s \<and>
    (\<forall>q. wm_id q \<noteq> wm_id r \<longrightarrow> rest t q = rest s q)"
proof -
  have wal: "wallet_ok s" by (rule desk_wallet[OF calm_desk[OF ok]])
  let ?e = "refund_entry (wm_store r) (wm_id r) (message_entries (wm_store r) (wm_id r) s) (rest s r)"
  show ?thesis
  proof (cases "rest s r < 0")
    case True
    have "refundMessage D (wm_store r) (wm_id r) s = (Inr True, add_entry ?e s)"
      using refund_settles[OF wal D] fits True by (simp add: rest_def)
    then show ?thesis by (intro exI[of _ True] exI[of _ "add_entry ?e s"]) (simp add: rest_add refund_entry_def)
  next
    case False
    have "rest s r = 0" using wallet_charge[OF wal, of "wm_id r" "wm_store r"] False by (simp add: charge_ok_def rest_def)
    moreover have "refundMessage D (wm_store r) (wm_id r) s = (Inr False, s)"
      using refund_settles[OF wal D] fits False by (simp add: rest_def)
    ultimately show ?thesis by (intro exI conjI) auto
  qed
qed

lemma calm_refund:
  assumes ok: "calm_ok (xs @ Refunding m f # ys, s)" and D: "decimal_laws (ev_decimal E)"
    and run: "advance E now answer (Refunding m f) s = (w', t)"
  shows "calm_ok (xs @ w' # ys, t)"
proof -
  have scene: "scene_ok (xs @ w' # ys, t)" by (rule scene_turn[OF calm_scene[OF ok] D run])
  have snap: "snap_ok (wa_messages s) m" using scene_worker[OF calm_scene[OF ok]] by simp
  have live: "live (Refunding m f) = [wm_id m]" by simp
  obtain r where r: "r \<in> set (wa_messages s)" "wm_id r = wm_id m" using snap by (auto simp: snap_ok_def)
  have store: "wm_store r = wm_store m" by (rule snap_row(1)[OF calm_desk[OF ok] snap r])
  have st: "wm_status r = MSG_SENDING" "fits_column (rest s r)" "wm_provider r = None"
    using calm_alone_row[OF ok live r] by (auto simp: sending_def settled_def)
  obtain b u where u: "refundMessage (ev_decimal E) (wm_store m) (wm_id m) s = (Inr b, u)" "rest u r = 0"
    "wa_messages u = wa_messages s" "\<forall>q. wm_id q \<noteq> wm_id r \<longrightarrow> rest u q = rest s q"
    using refund_zero[OF ok D r(1) st(2)] store r(2) by auto
  have wt: "w' = Failing m f" "t = u" using run u(1) by (auto simp: advance_def turn_def andthen_def bnd_def ret_def)
  show ?thesis
  proof (rule calm_quiet[OF ok scene, where i = "wm_id m"])
    show "row_calm (xs @ w' # ys) t q" if q: "q \<in> set (wa_messages s)" "wm_id q = wm_id m" for q
    proof -
      have "q = r" using same_row[OF calm_desk[OF ok] r(1) q(1)] q r by simp
      then show ?thesis unfolding calm_alone_iff[OF ok live q q(2)] using u st by (simp add: wt settled_def sending_def owes_def fits_column_def)
    qed
  qed (use u r wt in auto)
qed

lemma calm_update:
  assumes ok: "calm_ok (xs @ w # ys, s)" and live: "live w = [i]" and scene: "scene_ok (xs @ w' # ys, map_messages P f s)"
    and f: "same_owner f" and P: "\<And>r. P r \<Longrightarrow> wm_id r = i"
    and w': "set (about w') \<subseteq> {i}" "hooked w' = []"
    and prov: "providers_ok (map (patch P f) (wa_messages s))"
    and own: "\<And>r. r \<in> set (wa_messages s) \<Longrightarrow> wm_id r = i \<Longrightarrow> sending (charge w) (rest s r) r \<Longrightarrow> settled False (rest s r) r \<Longrightarrow>
      settled (owes (patch P f r) w') (rest s r) (patch P f r) \<and> clear (i \<in> set (live w')) (rest s r) (patch P f r) w'"
  shows "calm_ok (xs @ w' # ys, map_messages P f s)"
proof (rule calm_local[OF ok scene, where i = i])
  show "set (about w) \<subseteq> {i}" "set (about w') \<subseteq> set (about w)" using live w' by (cases w; auto)+
  have rest: "rest (map_messages P f s) (patch P f r) = rest s r" for r by (simp add: rest_def patch_owner[OF f])
  show "row_calm (xs @ w' # ys) (map_messages P f s) (patch P f r)" if r: "r \<in> set (wa_messages s)" "wm_id r = i" for r
  proof -
    have "wm_id (patch P f r) = i" using r by (simp add: patch_owner[OF f])
    from calm_alone_iff[OF ok live r this, where w' = w' and t = "map_messages P f s"]
    show ?thesis using own[OF r calm_alone_row[OF ok live r]] by (simp add: rest)
  qed
qed (use f P w' prov in \<open>auto simp: rest_def\<close>)

lemma providers_keep:
  assumes "providers_ok ms" "same_owner f" "\<And>r. wm_provider (f r) = wm_provider r"
  shows "providers_ok (map (patch P f) ms)"
proof -
  have "wm_provider (patch P f r) = wm_provider r" for r using assms(3) by (simp add: patch_def)
  then show ?thesis using assms(1) by (simp add: providers_ok_def patch_owner[OF assms(2)])
qed

lemma calm_providers: "calm_ok (ws, s) \<Longrightarrow> providers_ok (wa_messages s)"
  by (simp add: calm_ok_def)

lemma calm_count:
  assumes ok: "calm_ok (xs @ Counting m c p b # ys, s)" and D: "decimal_laws (ev_decimal E)"
    and run: "advance E now answer (Counting m c p b) s = (w', t)"
  shows "calm_ok (xs @ w' # ys, t)"
proof -
  have scene: "scene_ok (xs @ w' # ys, t)" by (rule scene_turn[OF calm_scene[OF ok] D run])
  let ?f = "\<lambda>r. r\<lparr>wm_attempts := wm_attempts m + 1\<rparr>\<lparr>wm_updatedAt := now\<rparr>"
  have "w' = Sending m c p b \<and> t = map_messages (\<lambda>r. wm_id r = wm_id m) ?f s \<or> w' = Refunding m Crashed \<and> t = s"
    using run by (auto simp: advance_def turn_def andthen_def bnd_def ret_def update_message_run caught_def split: if_splits)
  then show ?thesis
  proof
    assume wt: "w' = Sending m c p b \<and> t = map_messages (\<lambda>r. wm_id r = wm_id m) ?f s"
    have f: "same_owner ?f" by (simp add: same_owner_def)
    have "calm_ok (xs @ Sending m c p b # ys, map_messages (\<lambda>r. wm_id r = wm_id m) ?f s)"
    proof (rule calm_update[OF ok _ _ f])
      show "providers_ok (map (patch (\<lambda>r. wm_id r = wm_id m) ?f) (wa_messages s))"
        by (rule providers_keep[OF calm_providers[OF ok] f]) simp
    qed (use scene wt in \<open>auto simp: patch_def settled_def sending_def\<close>)
    then show ?thesis using wt by simp
  next
    assume "w' = Refunding m Crashed \<and> t = s"
    then show ?thesis using calm_goes[OF ok, of "wm_id m" w' s] scene by (simp add: goes_def)
  qed
qed

abbreviation sent_row :: "int \<Rightarrow> rat \<Rightarrow> string \<Rightarrow> wa_message \<Rightarrow> wa_message" where
  "sent_row now p pid m \<equiv> m\<lparr>wm_status := MSG_SENT, wm_provider := Some pid, wm_sentAt := Some now,
     wm_cost := Some p, wm_errorCode := None, wm_errorMessage := None\<rparr>\<lparr>wm_updatedAt := now\<rparr>"

lemma record_sent_cases:
  "(\<exists>e. record_sent now i p pid s = (Inl e, s)) \<or>
   record_sent now i p pid s = (Inr (), map_messages (\<lambda>m. wm_id m = i) (sent_row now p pid) s) \<and>
     (\<forall>q \<in> set (wa_messages s). wm_provider q = Some pid \<longrightarrow> wm_id q = i)"
  unfolding record_sent_def bnd_def reading_def andthen_def require_def ret_def throw_def update_message_run
  by (auto simp: list_ex_iff split: if_splits)

lemma providers_sent:
  assumes ok: "providers_ok ms" and new: "\<And>q. q \<in> set ms \<Longrightarrow> wm_provider q = Some pid \<Longrightarrow> wm_id q = i"
  shows "providers_ok (map (patch (\<lambda>r. wm_id r = i) (sent_row now p pid)) ms)"
  unfolding providers_ok_def set_map ball_simps
proof (intro ballI impI)
  let ?g = "patch (\<lambda>r. wm_id r = i) (sent_row now p pid)"
  have g: "wm_id (?g x) = wm_id x" "wm_provider (?g x) = (if wm_id x = i then Some pid else wm_provider x)" for x
    by (simp_all add: patch_def)
  fix r q assume m: "r \<in> set ms" "q \<in> set ms" and p: "wm_provider (?g r) \<noteq> None" "wm_provider (?g r) = wm_provider (?g q)"
  have key: "wm_id x = i" if x: "x \<in> set ms" "wm_provider (?g x) = Some pid" for x
    using new[OF x(1)] x(2) g(2)[of x] by metis
  show "wm_id (?g r) = wm_id (?g q)"
  proof (cases "wm_id r = i \<or> wm_id q = i")
    case True
    then have "wm_provider (?g r) = Some pid" "wm_provider (?g q) = Some pid" using p(2) g(2)[of r] g(2)[of q] by metis+
    then have "wm_id r = i" "wm_id q = i" using key m by blast+
    then show ?thesis by (simp only: g)
  next
    case False
    then have "wm_provider r \<noteq> None" "wm_provider r = wm_provider q" using p g(2)[of r] g(2)[of q] by metis+
    then have "wm_id r = wm_id q" using ok m unfolding providers_ok_def by blast
    then show ?thesis by (simp only: g)
  qed
qed

lemma calm_record:
  assumes ok: "calm_ok (xs @ Recording m p b pid # ys, s)" and D: "decimal_laws (ev_decimal E)"
    and run: "advance E now answer (Recording m p b pid) s = (w', t)"
  shows "calm_ok (xs @ w' # ys, t)"
proof -
  have scene: "scene_ok (xs @ w' # ys, t)" by (rule scene_turn[OF calm_scene[OF ok] D run])
  have p: "price_ok p" using scene_worker[OF calm_scene[OF ok]] by simp
  let ?f = "sent_row now p pid" let ?P = "\<lambda>r. wm_id r = wm_id m"
  have f: "same_owner ?f" by (simp add: same_owner_def)
  from record_sent_cases[of now "wm_id m" p pid s] show ?thesis
  proof
    assume "\<exists>e. record_sent now (wm_id m) p pid s = (Inl e, s)"
    then have "w' = Refunding m Crashed" "t = s" using run by (auto simp: advance_def turn_def andthen_def bnd_def caught_def)
    then show ?thesis using calm_goes[OF ok, of "wm_id m" w' s] scene by (simp add: goes_def)
  next
    assume r: "record_sent now (wm_id m) p pid s = (Inr (), map_messages ?P ?f s) \<and>
      (\<forall>q \<in> set (wa_messages s). wm_provider q = Some pid \<longrightarrow> wm_id q = wm_id m)"
    have wt: "w' = Alerting m b" "t = map_messages ?P ?f s" using run r by (auto simp: advance_def turn_def andthen_def bnd_def ret_def)
    have "providers_ok (map (patch ?P ?f) (wa_messages s))"
      by (rule providers_sent[OF calm_providers[OF ok]]) (use r in blast)
    then have "calm_ok (xs @ Alerting m b # ys, map_messages ?P ?f s)"
      by (intro calm_update[OF ok _ _ f]) (use scene wt p in \<open>auto simp: patch_def settled_def sending_def\<close>)
    then show ?thesis using wt by simp
  qed
qed

lemma calm_failing:
  assumes ok: "calm_ok (xs @ Failing m f # ys, s)" and D: "decimal_laws (ev_decimal E)"
    and run: "advance E now answer (Failing m f) s = (w', t)"
  shows "calm_ok (xs @ w' # ys, t)"
proof -
  have scene: "scene_ok (xs @ w' # ys, t)" by (rule scene_turn[OF calm_scene[OF ok] D run])
  have stay: "calm_ok (xs @ w' # ys, t)" if "same_wallet s t" "w' = Ending (wm_id m) st code msg out" for st code msg out
    using calm_goes[OF ok, of "wm_id m" w' t] scene that by (simp add: goes_def)
  show ?thesis
  proof (cases f)
    case (Stop st code msg) then show ?thesis using run stay by (auto simp: advance_def turn_def handleFailure_def ret_def)
  next
    case Crashed then show ?thesis using run stay by (auto simp: advance_def turn_def handleFailure_def ret_def)
  next
    case (Graph e)
    show ?thesis
    proof (cases "\<not> isAuthError e \<and> isTransient e \<and> wm_attempts m + 1 < MAX_SEND_ATTEMPTS")
      case True
      let ?f = "\<lambda>r. r\<lparr>wm_status := MSG_SCHEDULED, wm_sendAfter := now + RETRY_DELAY_MINUTES * 60000,
        wm_errorCode := Some (errorCode e), wm_errorMessage := Some (ge_message e)\<rparr>\<lparr>wm_updatedAt := now\<rparr>"
      let ?P = "\<lambda>r. wm_id r = wm_id m \<and> wm_status r = MSG_SENDING"
      have wt: "w' = Finished OUT_RETRIED" "t = map_messages ?P ?f s" using run Graph True
        by (auto simp: advance_def turn_def handleFailure_def ret_def andthen_def bnd_def retry_later_def update_sending_run)
      have f: "same_owner ?f" by (simp add: same_owner_def)
      have "calm_ok (xs @ Finished OUT_RETRIED # ys, map_messages ?P ?f s)"
        by (intro calm_update[OF ok _ _ f] providers_keep[OF calm_providers[OF ok] f])
           (use scene wt in \<open>auto simp: patch_def settled_def sending_def owes_def\<close>)
      then show ?thesis using wt by simp
    next
      case False
      obtain v where v: "markReauthRequired (wm_store m) (ge_message e) s = (Inr (), v)" "same_wallet s v"
        using markReauth_run[of "wm_store m" "ge_message e" s] by blast
      from False show ?thesis using run Graph stay v
        by (auto simp: advance_def turn_def handleFailure_def ret_def andthen_def bnd_def split: if_splits)
    qed
  qed
qed

section \<open>Rows that are left over\<close>

text \<open>Whoever is about a left-over row only closes it or gives its charge back.\<close>

lemma left_clear:
  assumes "clear l x r w" "left_over l r" "wm_id r' = wm_id r" "wm_store r' = wm_store r" "left_over l r'" "y = 0" "wm_id r \<notin> set (live w)"
  shows "clear l y r' w"
  using assms by (cases w) (auto simp: left_over_def sending_def)

lemma left_settled: "left_over l r \<Longrightarrow> settled b 0 r"
  by (auto simp: left_over_def settled_def fits_column_def)

text \<open>Ending and closing a row, refunding it on recovery: the row that results is left over and settled.\<close>

lemma calm_left:
  assumes ok: "calm_ok (xs @ w # ys, s)" and w: "live w = []" "about w = [i]" and scene: "scene_ok (xs @ w' # ys, t)"
    and msgs: "wa_messages t = map (patch P f) (wa_messages s)" and f: "same_owner f" and prov: "\<And>r. wm_provider (f r) = wm_provider r"
    and P: "\<And>r. P r \<Longrightarrow> wm_id r = i"
    and others: "\<And>r. r \<in> set (wa_messages s) \<Longrightarrow> wm_id r \<noteq> i \<Longrightarrow> rest t r = rest s r"
    and left: "\<And>l x r. wm_id r = i \<Longrightarrow> clear l x r w \<Longrightarrow> left_over l r"
    and after: "\<And>r. r \<in> set (wa_messages s) \<Longrightarrow> wm_id r = i \<Longrightarrow> clear False (rest s r) r w \<Longrightarrow>
      rest t (patch P f r) = 0 \<and> wm_status (patch P f r) \<in> {MSG_SENDING, MSG_FAILED, MSG_SKIPPED}"
    and w': "about w' = [] \<and> hooked w' = [] \<or> w' = Closing i"
  shows "calm_ok (xs @ w' # ys, t)"
proof (rule calm_local[OF ok scene msgs f P others])
  show "providers_ok (map (patch P f) (wa_messages s))" by (rule providers_keep[OF calm_providers[OF ok] f prov])
  show "set (about w) \<subseteq> {i}" "set (about w') \<subseteq> set (about w)" using w w' by auto
  show "hooked w' = hooked w \<or> hooked w' = []" using w' by auto
  fix r assume r: "r \<in> set (wa_messages s)" "wm_id r = i"
  let ?q = "patch P f r" let ?l = "wm_id r \<in> set (lives (xs @ w # ys))"
  have lo: "left_over ?l r" using left[OF r(2) calm_clear[OF ok r(1), of w]] by simp
  then have l: "\<not> ?l" by (simp add: left_over_def)
  have q: "wm_id ?q = wm_id r" "wm_store ?q = wm_store r" by (simp_all add: patch_owner[OF f])
  have "wm_provider ?q = wm_provider r" using prov by (simp add: patch_def)
  moreover have "clear False (rest s r) r w" using calm_clear[OF ok r(1), of w] l by simp
  ultimately have x: "rest t ?q = 0" and loq: "left_over ?l ?q" using after[OF r] lo l by (auto simp: left_over_def)
  have "live w' = []" using w' live_about[of w'] by auto
  then have l': "wm_id ?q \<in> set (lives (xs @ w' # ys)) \<longleftrightarrow> ?l" using w q by auto
  have "clear ?l (rest t ?q) ?q y" if "y \<in> set (xs @ w # ys)" for y
    using left_clear[OF calm_clear[OF ok r(1) that] lo q loq x] l that by auto
  moreover have "clear ?l (rest t ?q) ?q w'" using w' loq x l by (cases "about w' = []") (auto intro: clear_off)
  ultimately show "row_calm (xs @ w' # ys) t ?q" unfolding row_calm_def l' using left_settled[OF loq] x by auto
qed

lemma rest_map: "same_owner f \<Longrightarrow> rest (map_messages P f s) (patch P f r) = rest s r" "rest (map_messages P f s) r = rest s r"
  by (simp_all add: rest_def patch_owner)

lemma finish_run:
  "finish now i st code msg s = (Inr (), map_messages (\<lambda>m. wm_id m = i \<and> wm_status m = MSG_SENDING)
     (\<lambda>m. m\<lparr>wm_status := st, wm_errorCode := Some code, wm_errorMessage := Some (take 500 msg),
       wm_failedAt := (if st = MSG_FAILED then Some now else wm_failedAt m)\<rparr>\<lparr>wm_updatedAt := now\<rparr>) s)"
  by (simp add: finish_def update_sending_run)

lemma calm_finish:
  assumes ok: "calm_ok (xs @ w # ys, s)" and w: "closes w" "about w = [i]" and st: "st \<in> {MSG_SKIPPED, MSG_FAILED}"
    and scene: "scene_ok (xs @ w' # ys, snd (finish now i st code msg s))" and w': "about w' = [] \<and> hooked w' = []"
  shows "calm_ok (xs @ w' # ys, snd (finish now i st code msg s))"
proof -
  let ?P = "\<lambda>m. wm_id m = i \<and> wm_status m = MSG_SENDING"
  let ?f = "\<lambda>m. m\<lparr>wm_status := st, wm_errorCode := Some code, wm_errorMessage := Some (take 500 msg),
       wm_failedAt := (if st = MSG_FAILED then Some now else wm_failedAt m)\<rparr>\<lparr>wm_updatedAt := now\<rparr>"
  have f: "same_owner ?f" by (simp add: same_owner_def)
  have live: "live w = []" using w by (cases w) auto
  have "calm_ok (xs @ w' # ys, map_messages ?P ?f s)"
  proof (rule calm_left[OF ok live w(2) _ map_messages_sel(1) f])
    show "scene_ok (xs @ w' # ys, map_messages ?P ?f s)" using scene by (simp add: finish_run)
    show "left_over l r" if "wm_id r = i" "clear l x r w" for l x r using that clear_closes[OF w] by simp
    show "rest (map_messages ?P ?f s) (patch ?P ?f r) = 0 \<and> wm_status (patch ?P ?f r) \<in> {MSG_SENDING, MSG_FAILED, MSG_SKIPPED}"
      if "wm_id r = i" "clear False (rest s r) r w" for r
      using that clear_closes[OF w] st unfolding rest_map(1)[OF f] by (auto simp: patch_def left_over_def)
  qed (use w' in \<open>simp_all add: rest_map\<close>)
  then show ?thesis by (simp add: finish_run)
qed

lemma left_fits: "left_over l r \<Longrightarrow> settled b x r \<Longrightarrow> \<not> b \<Longrightarrow> fits_column x"
  by (auto simp: left_over_def settled_def fits_column_def)

lemma left_owes:
  assumes "clear l x r w" "left_over l r" shows "\<not> owes r w"
  using assms by (cases w) (auto simp: left_over_def owes_def)

lemma calm_recover:
  assumes ok: "calm_ok (xs @ Recovering store i # ys, s)" and D: "decimal_laws (ev_decimal E)"
    and run: "advance E now answer (Recovering store i) s = (w', t)"
  shows "calm_ok (xs @ w' # ys, t)"
proof -
  have scene: "scene_ok (xs @ w' # ys, t)" by (rule scene_turn[OF calm_scene[OF ok] D run])
  let ?ws = "xs @ Recovering store i # ys"
  obtain r where r: "r \<in> set (wa_messages s)" "wm_id r = i" using ok by (auto simp: calm_ok_def)
  let ?l = "wm_id r \<in> set (lives ?ws)"
  have c: "left_over ?l r" "store = wm_store r" using calm_clear[OF ok r(1), of "Recovering store i"] r(2) by simp_all
  have "\<not> (\<exists>w \<in> set ?ws. owes r w)" using left_owes[OF calm_clear[OF ok r(1)] c(1)] by blast
  then have fits: "fits_column (rest s r)" using calm_row[OF ok r(1)] left_fits[OF c(1)] unfolding row_calm_def by blast
  obtain b u where u: "refundMessage (ev_decimal E) store i s = (Inr b, u)" "rest u r = 0"
    "wa_messages u = wa_messages s" "\<forall>q. wm_id q \<noteq> wm_id r \<longrightarrow> rest s q = rest u q"
    using refund_zero[OF ok D r(1) fits] c(2) r(2) by metis
  have wt: "w' = Closing i" "t = u" using run u(1) by (auto simp: advance_def turn_def andthen_def bnd_def ret_def)
  show ?thesis
  proof (rule calm_left[OF ok _ _ scene, where f = id and P = "\<lambda>_. False" and i = i])
    fix q assume q: "q \<in> set (wa_messages s)" "wm_id q = i" "clear False (rest s q) q (Recovering store i)"
    have "q = r" by (rule same_row[OF calm_desk[OF ok] r(1) q(1)]) (simp add: q r)
    then show "rest t (patch (\<lambda>_. False) id q) = 0 \<and> wm_status (patch (\<lambda>_. False) id q) \<in> {MSG_SENDING, MSG_FAILED, MSG_SKIPPED}"
      using u wt c(1) by (simp add: patch_none left_over_def)
  qed (use u wt r in \<open>auto simp: map_patch_none same_owner_def\<close>)
qed

section \<open>Webhooks\<close>

text \<open>A worker that is about no row.\<close>

lemma calm_idle:
  assumes ok: "calm_ok (xs @ w # ys, s)" and scene: "scene_ok (xs @ w' # ys, t)" and same: "same_wallet s t"
    and w: "about w = []" "about w' = []" "hooked w' = hooked w \<or> hooked w' = []"
  shows "calm_ok (xs @ w' # ys, t)"
proof (rule calm_quiet[OF ok scene same_messages[OF same] rest_same[OF same], where i = "[]"])
  show "row_calm (xs @ w' # ys) t r" if "r \<in> set (wa_messages s)" for r
    by (rule row_calm_frame[OF calm_row[OF ok that] _ _ rest_same[OF same]]) (simp_all add: w)
qed (use w in auto)

text \<open>A webhook that finds its row only remembers it.\<close>

lemma calm_hook_find:
  assumes ok: "calm_ok (xs @ Hook_find h # ys, s)" and D: "decimal_laws (ev_decimal E)"
    and run: "advance E now answer (Hook_find h) s = (w', t)"
  shows "calm_ok (xs @ w' # ys, t)"
proof -
  have scene: "scene_ok (xs @ w' # ys, t)" by (rule scene_turn[OF calm_scene[OF ok] D run])
  have t: "t = s" and w': "w' = Gone \<or> (\<exists>m pid. w' = Hook_apply m h \<and> hook_provider h = Some pid \<and>
      find_provider pid s = Some m \<and> wm_status m \<noteq> MSG_FAILED)"
    using run by (auto simp: advance_def turn_def hook_find_def ret_def bnd_def reading_def split: option.splits if_splits)
  show ?thesis
  proof (cases "w' = Gone")
    case True then show ?thesis using calm_idle[OF ok scene] t by simp
  next
    case False
    then obtain m pid where m: "w' = Hook_apply m h" "hook_provider h = Some pid" "find_provider pid s = Some m" "wm_status m \<noteq> MSG_FAILED"
      using w' by blast
    have r: "m \<in> set (wa_messages s)" "wm_provider m = Some pid" using find_Some_set[OF m(3)[unfolded find_provider_def]] by auto
    have "settled (\<exists>w \<in> set (xs @ Hook_find h # ys). owes m w) (rest s m) m" using calm_row[OF ok r(1)] by (simp add: row_calm_def)
    then have st: "wm_status m \<in> {MSG_SENT, MSG_DELIVERED, MSG_READ}" using r(2) m(4)
      by (auto simp: settled_def split: msg_status.splits)
    have "row_calm (xs @ w' # ys) s q" if q: "q \<in> set (wa_messages s)" for q
    proof -
      have "clear l x q w'" for l x using same_row[OF calm_desk[OF ok] r(1) q] m r st by auto
      then show ?thesis using calm_row[OF ok q] m(1) by (auto simp: row_calm_def owes_def)
    qed
    moreover have "set (about w') \<subseteq> wm_id ` set (wa_messages s)" "hooked w' = hooked (Hook_find h)" using m(1) r(1) by auto
    ultimately show ?thesis using ok scene unfolding t calm_ok_def by auto
  qed
qed

text \<open>A webhook about to write has its row to itself.\<close>

lemma calm_hook_iff:
  assumes ok: "calm_ok (xs @ w # ys, s)" and w: "w = Hook_apply m h \<or> w = Hook_refund m h"
    and r: "r \<in> set (wa_messages s)" "wm_id r = wm_id m" and r': "wm_id r' = wm_id m"
  shows "row_calm (xs @ w' # ys) t r' \<longleftrightarrow>
    settled (owes r' w') (rest t r') r' \<and> clear (wm_id r' \<in> set (live w')) (rest t r') r' w'"
proof -
  have "wm_id r' \<notin> set (about x)" if "x \<in> set xs \<union> set ys" for x
    using alone_hook[OF ok w r that] r(2) r' by simp
  from row_calm_alone[OF this, where w = w' and s = t] show ?thesis .
qed

lemma calm_hook_row:
  assumes ok: "calm_ok (xs @ w # ys, s)" and w: "w = Hook_apply m h \<or> w = Hook_refund m h"
    and r: "r \<in> set (wa_messages s)" "wm_id r = wm_id m"
  shows "settled (owes r w) (rest s r) r \<and> clear False (rest s r) r w"
proof -
  have "live w = []" using w by auto
  then show ?thesis using calm_hook_iff[OF ok w r r(2), where w' = w and t = s] calm_row[OF ok r(1)] by simp
qed

lemma calm_hook_write:
  assumes ok: "calm_ok (xs @ Hook_apply m h # ys, s)" and scene: "scene_ok (xs @ w' # ys, map_messages P f s)"
    and f: "same_owner f" "\<And>r. wm_provider (f r) = wm_provider r" and P: "\<And>r. P r \<Longrightarrow> wm_id r = wm_id m"
    and w': "w' = Gone \<or> w' = Hook_refund m h"
    and own: "\<And>r. wm_id r = wm_id m \<Longrightarrow> settled False (rest s r) r \<Longrightarrow> clear False (rest s r) r (Hook_apply m h) \<Longrightarrow>
      settled (w' = Hook_refund m h) (rest s r) (patch P f r) \<and> (w' = Hook_refund m h \<longrightarrow> wm_status (patch P f r) = MSG_FAILED)"
  shows "calm_ok (xs @ w' # ys, map_messages P f s)"
proof (rule calm_local[OF ok scene map_messages_sel(1) f(1), where i = "wm_id m"])
  show "providers_ok (map (patch P f) (wa_messages s))" by (rule providers_keep[OF calm_providers[OF ok] f])
  show "row_calm (xs @ w' # ys) (map_messages P f s) (patch P f r)" if r: "r \<in> set (wa_messages s)" "wm_id r = wm_id m" for r
  proof -
    have row: "settled False (rest s r) r" "clear False (rest s r) r (Hook_apply m h)"
      using calm_hook_row[OF ok disjI1[OF refl] r] by (simp_all add: owes_def)
    have q: "wm_id (patch P f r) = wm_id m" using r by (simp add: patch_owner[OF f(1)])
    have prov: "wm_provider (patch P f r) = wm_provider r" using f(2) by (simp add: patch_def)
    show ?thesis unfolding calm_hook_iff[OF ok disjI1[OF refl] r q] rest_map(1)[OF f(1)]
      using own[OF r(2) row] row(2) w' r(2) q prov by (auto simp: owes_def patch_owner[OF f(1)])
  qed
qed (use P w' in \<open>auto simp: rest_map\<close>)

lemma settled_out:
  "wm_status q \<in> {MSG_SENT, MSG_DELIVERED, MSG_READ} \<Longrightarrow>
   settled b x q \<longleftrightarrow> (\<exists>c. wm_cost q = Some c \<and> x = - c \<and> price_ok c)"
  by (auto simp: settled_def)

lemma calm_hook_apply:
  assumes ok: "calm_ok (xs @ Hook_apply m h # ys, s)" and D: "decimal_laws (ev_decimal E)"
    and run: "advance E now answer (Hook_apply m h) s = (w', t)"
  shows "calm_ok (xs @ w' # ys, t)"
proof -
  have scene: "scene_ok (xs @ w' # ys, t)" by (rule scene_turn[OF calm_scene[OF ok] D run])
  have stay: "calm_ok (xs @ Gone # ys, s)"
  proof -
    have "calm_ok (xs @ Gone # ys, map_messages (\<lambda>_. False) id s)"
      by (rule calm_hook_write[OF ok]) (use calm_scene[OF ok] in \<open>auto simp: scene_ok_def map_messages_def same_owner_def patch_none\<close>)
    then show ?thesis by (simp add: map_messages_def)
  qed
  let ?P = "\<lambda>r. wm_id r = wm_id m"
  show ?thesis
  proof (cases "hook_next h")
    case None then show ?thesis using run stay by (auto simp: advance_def turn_def hook_apply_def ret_def)
  next
    case (Some st)
    have final: "st \<in> {MSG_SENT, MSG_DELIVERED, MSG_READ, MSG_FAILED}" by (rule hook_next_final[OF Some])
    let ?t = "timestampOf now (hk_seconds h)"
    let ?f = "\<lambda>r. failed_by_hook ?t h r\<lparr>wm_updatedAt := now\<rparr>"
    let ?g = "\<lambda>r. timestampField st ?t (if STATUS_RANK (wm_status m) < STATUS_RANK st then r\<lparr>wm_status := st\<rparr> else r)\<lparr>wm_updatedAt := now\<rparr>"
    have f: "same_owner ?f" "wm_provider (?f r) = wm_provider r" for r by (simp_all add: same_owner_def failed_by_hook_def)
    have g: "same_owner ?g" "wm_provider (?g r) = wm_provider r" "wm_cost (?g r) = wm_cost r" for r
      by (auto simp: same_owner_def timestampField_def split: msg_status.split)
    have gs: "wm_status (?g r) \<in> {wm_status r, st}" for r by (auto simp: timestampField_def split: msg_status.split)
    consider "w' = Gone" "t = s" | "w' = Hook_refund m h" "t = map_messages ?P ?f s" "\<not> 2 \<le> STATUS_RANK (wm_status m)"
      | "w' = Gone" "t = map_messages ?P ?g s" "st \<noteq> MSG_FAILED"
      using run Some by (auto simp: advance_def turn_def hook_apply_def ret_def andthen_def bnd_def update_message_run caught_def
          Let_def split: if_splits)
    then show ?thesis
    proof cases
      case 1 then show ?thesis using stay by simp
    next
      case 2
      have "calm_ok (xs @ Hook_refund m h # ys, map_messages ?P ?f s)"
      proof (rule calm_hook_write[OF ok _ f])
        show "scene_ok (xs @ Hook_refund m h # ys, map_messages ?P ?f s)" using scene 2 by simp
        show "settled (Hook_refund m h = Hook_refund m h) (rest s r) (patch ?P ?f r) \<and>
            (Hook_refund m h = Hook_refund m h \<longrightarrow> wm_status (patch ?P ?f r) = MSG_FAILED)"
          if "wm_id r = wm_id m" "settled False (rest s r) r" "clear False (rest s r) r (Hook_apply m h)" for r
          using that by (auto simp: patch_def failed_by_hook_def settled_def price_ok_def split: msg_status.splits)
      qed auto
      then show ?thesis using 2 by simp
    next
      case 3
      have "calm_ok (xs @ Gone # ys, map_messages ?P ?g s)"
      proof (rule calm_hook_write[OF ok _ g(1,2)])
        show "scene_ok (xs @ Gone # ys, map_messages ?P ?g s)" using scene 3 by simp
        show "settled (Gone = Hook_refund m h) (rest s r) (patch ?P ?g r) \<and>
            (Gone = Hook_refund m h \<longrightarrow> wm_status (patch ?P ?g r) = MSG_FAILED)"
          if r: "wm_id r = wm_id m" "settled False (rest s r) r" "clear False (rest s r) r (Hook_apply m h)" for r
        proof -
          have "wm_status (?g r) \<in> {MSG_SENT, MSG_DELIVERED, MSG_READ}" using gs[of r] final 3(3) r by auto
          moreover have "\<exists>c. wm_cost r = Some c \<and> rest s r = - c \<and> price_ok c" using r by (auto simp: settled_def split: msg_status.splits)
          moreover have "patch ?P ?g r = ?g r" using r(1) by (simp add: patch_def)
          ultimately show ?thesis using settled_out[of "?g r" False "rest s r"] g(3)[of r] by simp
        qed
      qed auto
      then show ?thesis using 3 by simp
    qed
  qed
qed

lemma calm_hook_refund:
  assumes ok: "calm_ok (xs @ Hook_refund m h # ys, s)" and D: "decimal_laws (ev_decimal E)"
    and run: "advance E now answer (Hook_refund m h) s = (w', t)"
  shows "calm_ok (xs @ w' # ys, t)"
proof -
  have scene: "scene_ok (xs @ w' # ys, t)" by (rule scene_turn[OF calm_scene[OF ok] D run])
  obtain r where r: "r \<in> set (wa_messages s)" "wm_id r = wm_id m" using ok by (auto simp: calm_ok_def)
  have row: "settled True (rest s r) r" "wm_store m = wm_store r" "wm_status r = MSG_FAILED"
    using calm_hook_row[OF ok disjI2[OF refl] r] r(2) by (simp_all add: owes_def)
  then have fits: "fits_column (rest s r)" by (auto simp: settled_def fits_column_def)
  obtain b u where u: "refundMessage (ev_decimal E) (wm_store m) (wm_id m) s = (Inr b, u)" "rest u r = 0"
    "wa_messages u = wa_messages s" "\<forall>q. wm_id q \<noteq> wm_id r \<longrightarrow> rest u q = rest s q"
    using refund_zero[OF ok D r(1) fits] row(2) r(2) by auto
  have wt: "w' = Gone" "t = u" using run u(1) by (auto simp: advance_def turn_def andthen_def bnd_def ret_def)
  show ?thesis
  proof (rule calm_quiet[OF ok scene, where i = "wm_id m"])
    show "row_calm (xs @ w' # ys) t q" if q: "q \<in> set (wa_messages s)" "wm_id q = wm_id m" for q
    proof -
      have "q = r" by (rule same_row[OF calm_desk[OF ok] r(1) q(1)]) (simp add: q r)
      then show ?thesis unfolding calm_hook_iff[OF ok disjI2[OF refl] q q(2)] using u row by (simp add: wt settled_def)
    qed
  qed (use u wt r in auto)
qed

lemma finish_state: "advance E now answer (Ending i st code msg out) s = (Finished out, snd (finish now i st code msg s))"
  by (simp add: advance_def turn_def andthen_def bnd_def ret_def finish_run)

lemma close_state: "advance E now answer (Closing i) s =
    (Gone, snd (finish now i MSG_FAILED ''SEND_INTERRUPTED'' ''Sending was interrupted; the charge was refunded'' s))"
  by (simp add: advance_def turn_def andthen_def bnd_def ret_def finish_run)

lemma calm_turn:
  assumes ok: "calm_ok (xs @ w # ys, s)" and D: "decimal_laws (ev_decimal E)" and run: "advance E now answer w s = (w', t)"
  shows "calm_ok (xs @ w' # ys, t)"
proof -
  have scene: "scene_ok (xs @ w' # ys, t)" by (rule scene_turn[OF calm_scene[OF ok] D run])
  have quiet: ?thesis if q: "quiet w" "live w \<noteq> []"
  proof -
    obtain i where i: "live w = [i]" using single_live[OF q(2)] by blast
    show ?thesis using quiet_goes[OF q run calm_desk[OF ok]] calm_goes[OF ok i scene] by simp
  qed
  show ?thesis
  proof (cases w)
    case (Debiting m c p) then show ?thesis using calm_debit ok D run by blast
  next
    case (Counting m c p b) then show ?thesis using calm_count ok D run by blast
  next
    case (Recording m p b pid) then show ?thesis using calm_record ok D run by blast
  next
    case (Refunding m f) then show ?thesis using calm_refund ok D run by blast
  next
    case (Failing m f) then show ?thesis using calm_failing ok D run by blast
  next
    case (Ending i st code msg out)
    have "st \<in> {MSG_SKIPPED, MSG_FAILED}" using scene_worker[OF calm_scene[OF ok]] Ending by simp
    from calm_finish[OF ok _ _ this, of i "Finished out" now code msg] show ?thesis
      using run scene Ending finish_state[of E now answer i st code msg out s] by simp
  next
    case (Closing i)
    from calm_finish[OF ok, of i MSG_FAILED Gone now "''SEND_INTERRUPTED''" "''Sending was interrupted; the charge was refunded''"]
    show ?thesis using run scene Closing close_state[of E now answer i s] by simp
  next
    case (Recovering store i) then show ?thesis using calm_recover ok D run by blast
  next
    case (Hook_find h) then show ?thesis using calm_hook_find ok D run by blast
  next
    case (Hook_apply m h) then show ?thesis using calm_hook_apply ok D run by blast
  next
    case (Hook_refund m h) then show ?thesis using calm_hook_refund ok D run by blast
  next
    case (Alerting m b)
    then show ?thesis using run calm_idle[OF ok scene]
        checkLowBalance_run[of "ev_decimal E" "ev_lowMessages E" now "wm_store m" "wm_currency m" b s]
      by (auto simp: advance_def turn_def andthen_def bnd_def ret_def)
  next
    case (Finished out)
    then show ?thesis using run ok by (auto simp: advance_def turn_def ret_def)
  next
    case Gone
    then show ?thesis using run ok by (auto simp: advance_def turn_def ret_def)
  qed (use quiet in simp_all)
qed

section \<open>The other events\<close>

text \<open>A call that stops where it is, by an exception or with its process.\<close>

lemma owes_not: "\<not> webhook_owes w \<Longrightarrow> \<not> owes r w"
  by (cases w) (auto simp: owes_def webhook_owes_def)

lemma clear_mono: "clear l x r w \<Longrightarrow> (l' \<Longrightarrow> l) \<Longrightarrow> clear l' x r w"
  by (cases w) (auto simp: left_over_def)

lemma calm_stop:
  assumes ok: "calm_ok (xs @ w # ys, s)" and w: "\<not> webhook_owes w" and stop: "about w' = []" "hooked w' = []"
  shows "calm_ok (xs @ w' # ys, s)" "calm_ok (xs @ ys, s)"
proof -
  have lw': "live w' = []" using stop(1) live_about[of w'] by auto
  have nw': "\<not> owes r w'" for r using stop(1) owes_about[of r w'] by auto
  have row: "row_calm (xs @ w' # ys) s r \<and> row_calm (xs @ ys) s r" if r: "r \<in> set (wa_messages s)" for r
    using calm_row[OF ok r] owes_not[OF w] nw' clear_off[of r w'] stop(1) lw' unfolding row_calm_def
    by (auto intro: clear_mono)
  have "worker_ok (wa_messages s) w'" using stop(1) by (cases w') auto
  then have "scene_ok (xs @ w' # ys, s) \<and> scene_ok (xs @ ys, s)"
    using calm_scene[OF ok] lw' by (auto simp: scene_ok_def)
  then show "calm_ok (xs @ w' # ys, s)" "calm_ok (xs @ ys, s)" using ok row stop by (auto simp: calm_ok_def)
qed

lemma calm_fault:
  assumes ok: "calm_ok (xs @ w # ys, s)" and w: "\<not> pays_back w" and scene: "scene_ok (xs @ caught w # ys, s)"
  shows "calm_ok (xs @ caught w # ys, s)"
proof (cases "live w = []")
  case False
  obtain i where "live w = [i]" using single_live[OF False] by blast
  from calm_goes[OF ok this scene same_wallet_refl] caught_goes[OF False w] show ?thesis by simp
next
  case True
  have "\<not> webhook_owes w" "about (caught w) = []" "hooked (caught w) = []"
    using True w by (cases w; simp add: caught_def pays_back_def webhook_owes_def)+
  then show ?thesis using calm_stop(1)[OF ok] by simp
qed

text \<open>Nobody is about a row that waits or was skipped before anybody took it up.\<close>

lemma scheduled_off: "clear l x r w \<Longrightarrow> wm_status r = MSG_SCHEDULED \<Longrightarrow> wm_id r \<notin> set (about w)"
  by (cases w) (auto simp: sending_def left_over_def)

lemma off_row:
  assumes off: "\<And>w. w \<in> set ws \<Longrightarrow> wm_id r \<notin> set (about w)"
  shows "row_calm ws t r \<longleftrightarrow> settled False (rest t r) r"
proof -
  have "\<not> (\<exists>w \<in> set ws. owes r w)" using off owes_about by blast
  moreover have "\<forall>w \<in> set ws. clear l x r w" for l x using off clear_off by blast
  ultimately show ?thesis unfolding row_calm_def by simp
qed

lemma no_hooks_recovering [simp]: "concat (map (hooked \<circ> (\<lambda>(store, i). Recovering store i)) rows) = []"
  by (induction rows) auto

lemma no_hooks_fetching [simp]: "concat (map (hooked \<circ> (Fetching \<circ> g)) xs) = []"
  by (induction xs) auto

lemma providers_snoc:
  assumes ok: "providers_ok ms" and m: "wm_provider m = None" shows "providers_ok (ms @ [m])"
  unfolding providers_ok_def
proof (intro ballI impI)
  fix r q assume rq: "r \<in> set (ms @ [m])" "q \<in> set (ms @ [m])" and p: "wm_provider r \<noteq> None" "wm_provider r = wm_provider q"
  have "r \<noteq> m" "q \<noteq> m" using p m by metis+
  then have "r \<in> set ms" "q \<in> set ms" using rq by simp_all
  then show "wm_id r = wm_id q" using ok p unfolding providers_ok_def by blast
qed

lemma row_calm_append:
  assumes row: "row_calm ws s r" and new: "\<And>w. w \<in> set vs \<Longrightarrow> \<not> owes r w \<and> clear (wm_id r \<in> set (lives ws)) (rest s r) r w"
    and lives: "wm_id r \<in> set (lives (ws @ vs)) \<longleftrightarrow> wm_id r \<in> set (lives ws)" and rest: "rest t r = rest s r"
  shows "row_calm (ws @ vs) t r"
proof -
  have "(\<exists>w \<in> set (ws @ vs). owes r w) = (\<exists>w \<in> set ws. owes r w)" using new by auto
  then show ?thesis using row new unfolding row_calm_def rest lives by (simp add: ball_Un)
qed

lemma calm_claim:
  assumes ok: "calm_ok (ws, s)"
  shows "calm_ok (ws @ map Fetching (map wm_id (due now limit s)),
    map_messages (\<lambda>m. wm_id m \<in> set (map wm_id (due now limit s))) (take_up now) s)"
proof -
  let ?ids = "map wm_id (due now limit s)" let ?P = "\<lambda>m. wm_id m \<in> set ?ids"
  let ?ws = "ws @ map Fetching ?ids" let ?t = "map_messages ?P (take_up now) s"
  have f: "same_owner (take_up now)" by (simp add: same_owner_def)
  have row: "row_calm ?ws ?t (patch ?P (take_up now) r)" if r: "r \<in> set (wa_messages s)" for r
  proof (cases "wm_id r \<in> set ?ids")
    case True
    then obtain q where "q \<in> set (due now limit s)" "wm_id q = wm_id r" by auto
    then have st: "wm_status r = MSG_SCHEDULED" using due_rows[of q now limit s] same_row[OF calm_desk[OF ok] r, of q] by auto
    have off: "wm_id r \<notin> set (about w)" if "w \<in> set ws" for w using scheduled_off[OF calm_clear[OF ok r that] st] .
    have "settled False (rest s r) r" using off_row[OF off] calm_row[OF ok r] by blast
    then have x: "rest s r = 0" "wm_provider r = None" using st by (simp_all add: settled_def)
    let ?q = "take_up now r"
    have q: "patch ?P (take_up now) r = ?q" using True by (simp add: patch_def)
    have new: "\<not> owes ?q w \<and> clear l 0 ?q w" if "w \<in> set ?ws" for w l
      using that off owes_about[of ?q w] clear_off[of ?q w] by (auto simp: owes_def sending_def)
    moreover have "rest ?t ?q = 0" using x by (simp add: rest_def)
    moreover have "settled False 0 ?q" using x by (simp add: settled_def fits_column_def)
    ultimately show ?thesis unfolding q row_calm_def by auto
  next
    case False
    have q: "patch ?P (take_up now) r = r" using False by (simp add: patch_def)
    show ?thesis unfolding q
    proof (rule row_calm_append[OF calm_row[OF ok r]])
      show "\<not> owes r w \<and> clear (wm_id r \<in> set (lives ws)) (rest s r) r w" if w: "w \<in> set (map Fetching ?ids)" for w
      proof -
        obtain i where "w = Fetching i" "i \<in> set ?ids" using w by auto
        then show ?thesis using False by (auto simp: owes_def)
      qed
    qed (use False in \<open>auto simp: rest_map\<close>)
  qed
  have "scene_ok (?ws, ?t)" by (rule scene_claim[OF calm_scene[OF ok]])
  moreover have "providers_ok (wa_messages ?t)" unfolding map_messages_sel
    by (rule providers_keep[OF calm_providers[OF ok] f]) simp
  moreover have "hooks ?ws = hooks ws" by (simp add: comp_def)
  moreover have "set (about w) \<subseteq> wm_id ` set (wa_messages ?t)" if "w \<in> set ?ws" for w
  proof -
    have ids: "wm_id ` set (wa_messages ?t) = wm_id ` set (wa_messages s)" by (auto simp: patch_owner[OF f] image_iff)
    have "set (about v) \<subseteq> wm_id ` set (wa_messages s)" if "v \<in> set ws" for v using ok that by (simp add: calm_ok_def)
    moreover have "wm_id q \<in> wm_id ` set (wa_messages s)" if "q \<in> set (due now limit s)" for q using due_rows[OF that] by simp
    ultimately show ?thesis using that unfolding ids by auto
  qed
  ultimately show ?thesis using ok row by (auto simp: calm_ok_def)
qed

text \<open>A recovery takes up rows that nobody is at work on.\<close>

lemma calm_recovery:
  assumes ok: "calm_ok (ws, s)" and rows: "set rows \<subseteq> set (stale_rows now s)"
    and idle: "\<forall>(store, i) \<in> set rows. \<forall>w \<in> set ws. i \<notin> set (live w)"
    and scene: "scene_ok (ws @ map (\<lambda>(store, i). Recovering store i) rows, s)"
  shows "calm_ok (ws @ map (\<lambda>(store, i). Recovering store i) rows, s)"
proof -
  let ?new = "map (\<lambda>(store, i). Recovering store i) rows"
  have lives: "lives (ws @ ?new) = lives ws" by simp
  have fresh: "clear (wm_id r \<in> set (lives ws)) (rest s r) r w \<and> \<not> owes r w" if r: "r \<in> set (wa_messages s)" and w: "w \<in> set ?new" for r w
  proof -
    obtain store i where w: "w = Recovering store i" "(store, i) \<in> set rows" using w by auto
    obtain q where q: "q \<in> set (wa_messages s)" "store = wm_store q" "i = wm_id q" "wm_status q = MSG_SENDING"
      using rows w(2) by (auto simp: stale_rows_def)
    have "wm_id r \<notin> set (lives ws)" if "i = wm_id r" using idle w(2) that by auto
    moreover have "r = q" if "i = wm_id r" by (rule same_row[OF calm_desk[OF ok] q(1) r]) (use that q in simp)
    moreover have "wm_provider q = None" using calm_row[OF ok q(1)] q(4) by (simp add: row_calm_def settled_def)
    ultimately show ?thesis using q w by (auto simp: left_over_def owes_def)
  qed
  have "row_calm (ws @ ?new) s r" if r: "r \<in> set (wa_messages s)" for r
  proof -
    show ?thesis by (rule row_calm_append[OF calm_row[OF ok r] _ _ refl]) (use fresh[OF r] lives in simp_all)
  qed
  moreover have "hooks (ws @ ?new) = hooks ws" by simp
  moreover have "\<forall>w \<in> set ?new. set (about w) \<subseteq> wm_id ` set (wa_messages s)"
    using rows by (auto simp: stale_rows_def)
  ultimately show ?thesis using ok scene by (auto simp: calm_ok_def)
qed

text \<open>Changes that leave the rows' accounts alone.\<close>

lemma calm_same:
  assumes ok: "calm_ok (ws, s)" and scene: "scene_ok (ws, t)" and msgs: "wa_messages t = wa_messages s"
    and rest: "\<And>r. rest t r = rest s r"
  shows "calm_ok (ws, t)"
  using ok scene msgs rest by (simp add: calm_ok_def row_calm_def)

lemma calm_queue:
  assumes ok: "calm_ok (ws, s)" and m: "new_message m s" and scene: "scene_ok (ws, s\<lparr>wa_messages := wa_messages s @ [m]\<rparr>)"
  shows "calm_ok (ws, s\<lparr>wa_messages := wa_messages s @ [m]\<rparr>)"
proof -
  let ?t = "s\<lparr>wa_messages := wa_messages s @ [m]\<rparr>"
  have rest: "rest ?t r = rest s r" for r by (simp add: rest_def message_entries_def)
  have "e \<notin> set (message_entries (wm_store m) (wm_id m) s)" for e
  proof
    assume e: "e \<in> set (message_entries (wm_store m) (wm_id m) s)"
    then have "owned (wa_messages s) e" using calm_desk[OF ok] by (simp add: message_entries_def desk_ok_def)
    then obtain r where "r \<in> set (wa_messages s)" "wm_id r = wm_id m" using e by (auto simp: message_entries_def owned_def)
    then have "wm_id m \<in> wm_id ` set (wa_messages s)" using imageI[of r "set (wa_messages s)" wm_id] by simp
    then show False using m by (simp add: new_message_def)
  qed
  then have "message_entries (wm_store m) (wm_id m) s = []" by (metis list.set_intros(1) neq_Nil_conv)
  then have "rest s m = 0" by (simp add: rest_def)
  moreover have "wm_id m \<notin> set (about w)" if "w \<in> set ws" for w using ok m that by (auto simp: calm_ok_def new_message_def)
  ultimately have "row_calm ws ?t m" using off_row[where ws = ws and r = m and t = ?t] m by (auto simp: rest settled_def new_message_def)
  moreover have "row_calm ws ?t r" if "r \<in> set (wa_messages s)" for r
    using calm_row[OF ok that] by (simp add: row_calm_def rest)
  moreover have "providers_ok (wa_messages ?t)" using providers_snoc[OF calm_providers[OF ok]] m by (simp add: new_message_def)
  ultimately show ?thesis using ok scene by (auto simp: calm_ok_def)
qed

lemma calm_disconnect:
  assumes ok: "calm_ok (ws, s)" and scene: "scene_ok (ws, map_messages P f s)"
    and P: "\<And>r. P r \<Longrightarrow> wm_status r = MSG_SCHEDULED"
    and f: "same_owner f" "\<And>r. wm_provider (f r) = wm_provider r" "\<And>r. wm_status (f r) = MSG_SKIPPED"
  shows "calm_ok (ws, map_messages P f s)"
proof -
  have "row_calm ws (map_messages P f s) (patch P f r)" if r: "r \<in> set (wa_messages s)" for r
  proof (cases "P r")
    case True
    have off: "wm_id r \<notin> set (about w)" if "w \<in> set ws" for w using scheduled_off[OF calm_clear[OF ok r that] P[OF True]] .
    then have off': "wm_id (patch P f r) \<notin> set (about w)" if "w \<in> set ws" for w using that by (simp add: patch_owner[OF f(1)])
    have "settled False (rest s r) r" using off_row[OF off] calm_row[OF ok r] by blast
    then have "settled False (rest s r) (patch P f r)" using P[OF True] f(2)[of r] f(3)[of r] True by (simp add: settled_def patch_def)
    then show ?thesis using off_row[OF off', where t = "map_messages P f s"] by (simp add: rest_map(1)[OF f(1)])
  next
    case False
    then show ?thesis using calm_row[OF ok r] by (simp add: patch_def row_calm_def rest_map(2))
  qed
  moreover have "providers_ok (map (patch P f) (wa_messages s))" by (rule providers_keep[OF calm_providers[OF ok] f(1,2)])
  moreover have "wm_id ` set (map (patch P f) (wa_messages s)) = wm_id ` set (wa_messages s)"
    by (auto simp: patch_owner[OF f(1)] image_iff)
  ultimately show ?thesis using ok scene by (simp add: calm_ok_def)
qed

lemma order_calm:
  assumes ok: "calm_ok (ws, s)" and scene: "scene_ok (ws, map_messages P (\<lambda>m. m\<lparr>wm_order := None\<rparr>) s)"
  shows "calm_ok (ws, map_messages P (\<lambda>m. m\<lparr>wm_order := None\<rparr>) s)"
proof -
  let ?f = "\<lambda>m. m\<lparr>wm_order := None\<rparr>"
  have f: "same_owner ?f" by (simp add: same_owner_def)
  have sel: "wm_status (patch P ?f r) = wm_status r" "wm_provider (patch P ?f r) = wm_provider r"
    "wm_cost (patch P ?f r) = wm_cost r" for r by (simp_all add: patch_def)
  have "clear l x (patch P ?f r) w = clear l x r w" "owes (patch P ?f r) w = owes r w" for l x r w
    by (cases w; simp add: patch_owner[OF f] sel sending_def left_over_def owes_def)+
  moreover have "settled b x (patch P ?f r) = settled b x r" for b x r
    by (cases "wm_status r") (simp_all add: settled_def sel)
  ultimately have "row_calm ws (map_messages P ?f s) (patch P ?f r)" if "r \<in> set (wa_messages s)" for r
    using calm_row[OF ok that] by (simp add: row_calm_def rest_map(1)[OF f] patch_owner[OF f])
  moreover have "providers_ok (map (patch P ?f) (wa_messages s))" by (rule providers_keep[OF calm_providers[OF ok] f]) simp
  moreover have "wm_id ` set (map (patch P ?f) (wa_messages s)) = wm_id ` set (wa_messages s)"
    by (auto simp: patch_owner[OF f] image_iff)
  ultimately show ?thesis using ok scene by (simp add: calm_ok_def)
qed

lemma rest_credit: "adds_credit s t \<Longrightarrow> rest t r = rest s r"
  by (simp add: rest_def message_entries_credit)

lemma calm_step:
  assumes step: "wa_step True E c d" and D: "decimal_laws (ev_decimal E)" and ok: "calm_ok c"
  shows "calm_ok d"
proof -
  have scene: "scene_ok d" by (rule scene_step[OF step D calm_scene[OF ok]])
  from step show ?thesis
  proof cases
    case (turn_step now answer w s w' t xs ys)
    then show ?thesis using calm_turn[OF _ D] ok by blast
  next
    case (fault_step w xs ys s)
    then show ?thesis using calm_fault[of xs w ys s] ok scene by simp
  next
    case (crash_step w xs ys s)
    then show ?thesis using calm_stop(2)[of xs w ys s Gone] ok by simp
  next
    case (claim_step now limit s ids t ws)
    then have "ids = map wm_id (due now limit s)"
      "t = map_messages (\<lambda>m. wm_id m \<in> set (map wm_id (due now limit s))) (take_up now) s"
      unfolding claim_run by auto
    then show ?thesis using ok claim_step(1,2) calm_claim[of ws s now limit] by simp
  next
    case (recover_step rows now s ws)
    then show ?thesis using calm_recovery[of ws s rows now] ok scene by simp
  next
    case (hook_step ws h s)
    have "row_calm (ws @ [Hook_find h]) s r" if r: "r \<in> set (wa_messages s)" for r
      by (rule row_calm_append[OF calm_row _ _ refl]) (use ok hook_step r in \<open>auto simp: owes_def\<close>)
    moreover have "distinct (hooks ws @ hooked (Hook_find h))" using ok hook_step by (auto simp: calm_ok_def split: option.split)
    ultimately show ?thesis using ok scene hook_step by (simp add: calm_ok_def)
  next
    case (queue_step now uuid d s r t ws)
    have "t = s \<or> (\<exists>m. new_message m s \<and> t = s\<lparr>wa_messages := wa_messages s @ [m]\<rparr>)"
      using onShipmentStatus_run[of E now uuid d s] queue_step(3) by simp
    then show ?thesis using queue_step ok scene calm_queue by auto
  next
    case (credit_step parse now store d admin s r t ws)
    have "adds_credit s t" using preserves_step[OF adminCredit_adds credit_step(3), of s] by simp
    from calm_same[of ws s t, OF _ _ _ rest_credit[OF this]] this show ?thesis
      using credit_step(1,2) ok scene by (simp add: adds_credit_def)
  next
    case (price_step parse currency v admin s r t ws)
    have "adds_credit s t" using preserves_step[OF setPricing_adds price_step(3), of s] by simp
    from calm_same[of ws s t, OF _ _ _ rest_credit[OF this]] this show ?thesis
      using price_step(1,2) ok scene by (simp add: adds_credit_def)
  next
    case (disconnect_step ws s now store)
    let ?u = "s\<lparr>wa_connections := map (\<lambda>c. if cn_store c = store
         then c\<lparr>cn_status := CONN_DISCONNECTED, cn_token := None, cn_disconnectedAt := Some now\<rparr> else c) (wa_connections s)\<rparr>"
    have u: "same_wallet s ?u" by (simp add: same_wallet_def)
    have "scene_ok (ws, ?u)" using calm_scene[OF ok] disconnect_step desk_frame[OF u] same_messages[OF u] by (simp add: scene_ok_def)
    then have "calm_ok (ws, ?u)" using calm_same[of ws s ?u] ok disconnect_step same_messages[OF u] rest_same[OF u] by simp
    then show ?thesis using scene unfolding disconnect_step disconnect_store_def
      by (rule calm_disconnect) (auto simp: same_owner_def)
  next
    case (order_step ws s i)
    then show ?thesis using ok scene order_calm by simp
  next
    case (other_step s t ws)
    then show ?thesis using calm_same[OF _ _ same_messages rest_same, of ws s t] ok scene by simp
  qed
qed

lemma calm_reach:
  assumes "wa_reach True E c" "decimal_laws (ev_decimal E)" shows "calm_ok c"
  using assms(1)
proof induction
  case (reach_start s)
  then show ?case using installed_scene[OF reach_start] by (simp add: calm_ok_def installed_def providers_ok_def)
next
  case (reach_step c d)
  then show ?case using calm_step[OF _ assms(2)] by blast
qed

section \<open>The balance explained\<close>

text \<open>\<open>SENT_STATUSES\<close> and the cost that \<open>statusCounts\<close> of the insights adds up, over all times.\<close>

definition SENT_STATUSES :: "msg_status list" where
  "SENT_STATUSES = [MSG_SENT, MSG_DELIVERED, MSG_READ]"

definition cost_of :: "wa_message \<Rightarrow> rat" where
  "cost_of r = (case wm_cost r of None \<Rightarrow> 0 | Some c \<Rightarrow> c)"

definition sent_cost :: "string \<Rightarrow> string \<Rightarrow> 'a wa_db_scheme \<Rightarrow> rat" where
  "sent_cost store currency s = (\<Sum>r \<leftarrow> filter (\<lambda>r. wm_store r = store \<and> wm_currency r = currency) (wa_messages s).
     if wm_status r \<in> set SENT_STATUSES then cost_of r else 0)"

text \<open>What the super admin credited: top-ups and adjustments.\<close>

definition credited :: "string \<Rightarrow> string \<Rightarrow> 'a wa_db_scheme \<Rightarrow> rat" where
  "credited store currency s = (\<Sum>e \<leftarrow> filter (\<lambda>e. be_store e = store \<and> be_currency e = currency \<and> be_message e = None)
     (wa_entries s). be_amount e)"

lemma one_row:
  assumes ids: "distinct (map wm_id ms)" and r0: "r0 \<in> set ms"
  shows "(\<Sum>r \<leftarrow> filter (\<lambda>r. wm_store r = store \<and> wm_currency r = currency) ms. if wm_id r = wm_id r0 then a else 0) =
    (if wm_store r0 = store \<and> wm_currency r0 = currency then a else (0 :: rat))"
proof -
  let ?xs = "filter (\<lambda>r. wm_store r = store \<and> wm_currency r = currency) ms"
  have eq: "wm_id r = wm_id r0 \<longleftrightarrow> r = r0" if "r \<in> set ?xs" for r
    using that r0 inj_onD[of wm_id "set ms" r r0] ids by (auto simp: distinct_map)
  have "distinct ?xs" using ids by (simp add: distinct_map)
  then have "(\<Sum>r \<leftarrow> ?xs. if wm_id r = wm_id r0 then a else 0) = (\<Sum>r \<in> set ?xs. if wm_id r = wm_id r0 then a else 0)"
    by (rule sum_list_distinct_conv_sum_set)
  also have "\<dots> = (\<Sum>r \<in> set ?xs. if r = r0 then a else 0)" by (rule sum.cong) (use eq in auto)
  finally show ?thesis using r0 by (simp add: sum.delta')
qed

lemma entries_split:
  assumes ids: "distinct (map wm_id ms)" and own: "\<forall>e \<in> set es. owned ms e"
  shows "(\<Sum>e \<leftarrow> filter (\<lambda>e. be_store e = store \<and> be_currency e = currency) es. be_amount e) =
    (\<Sum>e \<leftarrow> filter (\<lambda>e. be_store e = store \<and> be_currency e = currency \<and> be_message e = None) es. be_amount e) +
    (\<Sum>r \<leftarrow> filter (\<lambda>r. wm_store r = store \<and> wm_currency r = currency) ms.
       net (filter (\<lambda>e. be_store e = wm_store r \<and> be_message e = Some (wm_id r)) es))"
  using own
proof (induction es)
  case Nil then show ?case by (simp add: sum_list_zero)
next
  case (Cons e es)
  let ?rows = "filter (\<lambda>r. wm_store r = store \<and> wm_currency r = currency) ms"
  have split: "(\<Sum>r \<leftarrow> ?rows. net (filter (\<lambda>e. be_store e = wm_store r \<and> be_message e = Some (wm_id r)) (e # es))) =
      (\<Sum>r \<leftarrow> ?rows. if be_store e = wm_store r \<and> be_message e = Some (wm_id r) then be_amount e else 0) +
      (\<Sum>r \<leftarrow> ?rows. net (filter (\<lambda>e. be_store e = wm_store r \<and> be_message e = Some (wm_id r)) es))"
    unfolding sum_list_addf[symmetric] by (rule arg_cong[of _ _ sum_list], rule map_cong) (auto simp: net_def)
  show ?case
  proof (cases "be_message e")
    case None then show ?thesis using Cons unfolding split by (simp add: sum_list_zero)
  next
    case (Some i)
    then obtain r0 where r0: "r0 \<in> set ms" "wm_id r0 = i" "wm_store r0 = be_store e" "wm_currency r0 = be_currency e"
      using Cons.prems by (auto simp: owned_def)
    have "(\<Sum>r \<leftarrow> ?rows. if be_store e = wm_store r \<and> be_message e = Some (wm_id r) then be_amount e else 0) =
        (\<Sum>r \<leftarrow> ?rows. if wm_id r = wm_id r0 then be_amount e else 0)"
    proof (rule arg_cong[of _ _ sum_list], rule map_cong[OF refl])
      fix r assume "r \<in> set ?rows"
      then have "wm_id r = i \<longrightarrow> r = r0" using r0 ids inj_onD[of wm_id "set ms" r r0] by (auto simp: distinct_map)
      then show "(if be_store e = wm_store r \<and> be_message e = Some (wm_id r) then be_amount e else 0) =
          (if wm_id r = wm_id r0 then be_amount e else 0)" using Some r0 by auto
    qed
    also have "\<dots> = (if be_store e = store \<and> be_currency e = currency then be_amount e else 0)"
      using one_row[OF ids r0(1), where store = store and currency = currency and a = "be_amount e"] r0 by simp
    finally show ?thesis using Cons Some unfolding split by simp
  qed
qed

lemma balance_split:
  assumes "desk_ok s"
  shows "getBalance store currency s = credited store currency s +
    (\<Sum>r \<leftarrow> filter (\<lambda>r. wm_store r = store \<and> wm_currency r = currency) (wa_messages s). rest s r)"
  using entries_split[OF desk_ids[OF assms], of "wa_entries s" store currency] assms
  by (simp add: getBalance_def credited_def rest_def message_entries_def desk_ok_def)

lemma row_cost:
  assumes "row_calm [] s r" "wm_status r \<noteq> MSG_SENDING"
  shows "rest s r = - (if wm_status r \<in> set SENT_STATUSES then cost_of r else 0)"
  using assms by (cases "wm_status r") (auto simp: row_calm_def settled_def SENT_STATUSES_def cost_of_def)

end
