(* ===== verification/WhatsApp_Runs.thy ===== *)
theory WhatsApp_Runs
  imports WhatsApp_Settlement
begin

text \<open>
  Runs of the WhatsApp automation, \<open>src/whatsapp\<close>: events that a schedule can list, so that concrete
  interleavings are computed, what a call of \<open>processOne\<close> comes to on its own, and the theorems on
  the accounts with runs that show them at work.
\<close>

section \<open>Schedules\<close>

datatype event =
    Ev_turn nat int meta_answer
  | Ev_leave nat
  | Ev_claim int nat
  | Ev_recover int
  | Ev_hook hook
  | Ev_queue int string status_input
  | Ev_credit int string credit_input string
  | Ev_price string string string

text \<open>An event that is not possible in the mode of the run does nothing.\<close>

definition happen :: "bool \<Rightarrow> wa_env \<Rightarrow> (string \<Rightarrow> rat option) \<Rightarrow> event \<Rightarrow> 'a scene \<Rightarrow> 'a scene" where
  "happen calm E parse ev c = (case c of (ws, s) \<Rightarrow> (case ev of
       Ev_turn i now answer \<Rightarrow> if i < length ws
         then (case advance E now answer (ws ! i) s of (w', t) \<Rightarrow> (take i ws @ w' # drop (Suc i) ws, t)) else c
     | Ev_leave i \<Rightarrow> if i < length ws \<and> \<not> (calm \<and> webhook_owes (ws ! i)) then (take i ws @ drop (Suc i) ws, s) else c
     | Ev_claim now limit \<Rightarrow> (case claimDue now limit s of (Inr ids, t) \<Rightarrow> (ws @ map Fetching ids, t) | (Inl e, t) \<Rightarrow> c)
     | Ev_recover now \<Rightarrow> if calm \<and> list_ex (\<lambda>(store, i). list_ex (\<lambda>w. i \<in> set (live w)) ws) (stale_rows now s) then c
         else (ws @ map (\<lambda>(store, i). Recovering store i) (stale_rows now s), s)
     | Ev_hook h \<Rightarrow> if calm \<and> list_ex (\<lambda>w. list_ex (\<lambda>p. p \<in> set (hooked w)) (hooked (Hook_find h))) ws then c
         else (ws @ [Hook_find h], s)
     | Ev_queue now uuid d \<Rightarrow> (ws, snd (onShipmentStatus E now uuid d s))
     | Ev_credit now store d admin \<Rightarrow> (ws, snd (adminCredit (ev_decimal E) parse (ev_lowMessages E) now store d admin s))
     | Ev_price currency v admin \<Rightarrow> (ws, snd (setPricing parse currency v admin s))))"

definition follow :: "bool \<Rightarrow> wa_env \<Rightarrow> (string \<Rightarrow> rat option) \<Rightarrow> event list \<Rightarrow> 'a scene \<Rightarrow> 'a scene" where
  "follow calm E parse evs c = fold (happen calm E parse) evs c"

lemma happen_reach:
  assumes c: "wa_reach calm E c" shows "wa_reach calm E (happen calm E parse ev c)"
proof -
  obtain ws s where cs: "c = (ws, s)" by (cases c)
  have stay: "wa_reach calm E (ws, s)" using c cs by simp
  have next_step: "wa_reach calm E d" if "wa_step calm E (ws, s) d" for d using wa_reach.reach_step[OF stay that] .
  have cut: "ws = take i ws @ ws ! i # drop (Suc i) ws" if "i < length ws" for i using id_take_nth_drop[OF that] .
  show ?thesis
  proof (cases ev)
    case (Ev_turn i now answer)
    obtain w' t where a: "advance E now answer (ws ! i) s = (w', t)" by (cases "advance E now answer (ws ! i) s")
    have "wa_reach calm E (take i ws @ w' # drop (Suc i) ws, t)" if "i < length ws"
      using next_step cut[OF that] turn_step[OF a, of calm "take i ws" "drop (Suc i) ws"] by simp
    then show ?thesis using Ev_turn a stay by (simp add: happen_def cs)
  next
    case (Ev_leave i)
    have "wa_reach calm E (take i ws @ drop (Suc i) ws, s)" if "i < length ws" "\<not> (calm \<and> webhook_owes (ws ! i))"
      using next_step cut[OF that(1)] crash_step[of calm "ws ! i" E "take i ws" "drop (Suc i) ws" s] that(2) by simp
    then show ?thesis using Ev_leave stay by (simp add: happen_def cs)
  next
    case (Ev_claim now limit)
    then show ?thesis using next_step claim_step[of now limit s] stay
      by (auto simp: happen_def cs split: prod.split sum.split)
  next
    case (Ev_recover now)
    let ?busy = "list_ex (\<lambda>(store, i). list_ex (\<lambda>w. i \<in> set (live w)) ws) (stale_rows now s)"
    have "wa_reach calm E (ws @ map (\<lambda>(store, i). Recovering store i) (stale_rows now s), s)" if free: "\<not> (calm \<and> ?busy)"
    proof (rule next_step, rule recover_step[OF order_refl])
      assume "calm"
      then show "\<forall>(store, i) \<in> set (stale_rows now s). \<forall>w \<in> set ws. i \<notin> set (live w)"
        using free by (fastforce simp: list_ex_iff)
    qed
    moreover have "happen calm E parse ev c = (if calm \<and> ?busy then (ws, s)
        else (ws @ map (\<lambda>(store, i). Recovering store i) (stale_rows now s), s))"
      unfolding Ev_recover by (simp only: happen_def cs event.case prod.case)
    ultimately show ?thesis using stay by (cases "calm \<and> ?busy") (simp_all only: if_True if_False simp_thms)
  next
    case (Ev_hook h)
    then show ?thesis using next_step hook_step[of calm ws h E s] stay
      by (auto simp: happen_def cs list_ex_iff)
  next
    case (Ev_queue now uuid d)
    then show ?thesis using next_step[OF queue_step[OF surjective_pairing]] by (simp add: happen_def cs)
  next
    case (Ev_credit now store d admin)
    then show ?thesis using next_step[OF credit_step[OF surjective_pairing]] by (simp add: happen_def cs)
  next
    case (Ev_price currency v admin)
    then show ?thesis using next_step[OF price_step[OF surjective_pairing]] by (simp add: happen_def cs)
  qed
qed

lemma follow_reach: "wa_reach calm E c \<Longrightarrow> wa_reach calm E (follow calm E parse evs c)"
proof (unfold follow_def, induction evs arbitrary: c)
  case (Cons ev evs)
  show ?case using Cons.IH[OF happen_reach[OF Cons.prems]] by (simp only: fold_simps)
qed simp

section \<open>A store with one order\<close>

definition sample_env :: wa_env where
  "sample_env = \<lparr>ev_decimal = half_up_lib 20, ev_enabled = True, ev_maxAgeHours = 0, ev_lowMessages = 1, ev_batch = 0,
     ev_phone = (\<lambda>n c. Some (n, Some ''MOBILE'')), ev_countries = [''MA''], ev_countryNamed = (\<lambda>_. Some ''MA''),
     ev_defaultCountry = None, ev_decrypts = (\<lambda>_ _. True)\<rparr>"

definition sample_parse :: "string \<Rightarrow> rat option" where
  "sample_parse v = (if v = ''1'' then Some 1 else if v = ''10'' then Some 10 else None)"

definition sample_office :: wa_db where
  "sample_office = \<lparr>user_rows = [], store_rows = [\<lparr>st_id = ''s'', st_owner = ''u'', st_currency = ''MAD'', st_ownerName = [],
       st_businessName = ''Shop'', st_address = [], st_city = [], st_country = ''MA'', st_logo = None\<rparr>],
     role_rows = [], staff_rows = [],
     wa_connections = [\<lparr>cn_store = ''s'', cn_waba = ''w'', cn_phoneNumber = ''n'', cn_token = Some ''t'', cn_status = CONN_ACTIVE,
       cn_language = ''fr'', cn_lastError = None, cn_disconnectedAt = None\<rparr>],
     wa_templates = [\<lparr>tp_store = ''s'', tp_name = template_name SS_DELIVERED, tp_language = ''fr'', tp_status = ''APPROVED'',
       tp_meta = None, tp_rejected = None\<rparr>],
     wa_settings = [\<lparr>ws_store = ''s'', ws_trigger = SS_DELIVERED, ws_enabled = True, ws_delay = 0\<rparr>],
     wa_messages = [], wa_entries = [], wa_pricing = [], wa_alerts = [],
     wa_orders = [\<lparr>wo_id = ''o'', wo_store = ''s'', wo_name = None, wo_external = ''7'', wo_manualName = None,
       wo_manualPhone = Some ''+212600000001'', wo_customer = None, wo_tracking = None\<rparr>],
     wa_dispatches = [\<lparr>d_id = ''d'', d_order = ''o'', d_sendit = Some \<lparr>sh_status = SS_DELIVERED, sh_fee = None,
       sh_currency = ''MAD'', sh_situation = None\<rparr>, d_quickLivraison = None, d_forceLog = None, d_ozoneExpress = None\<rparr>]\<rparr>"

definition sample_status :: status_input where
  "sample_status = \<lparr>si_order = ''o'', si_status = SS_DELIVERED, si_changedAt = None, si_phone = None, si_name = None\<rparr>"

definition sample_credit :: credit_input where
  "sample_credit = \<lparr>ci_kind = ENTRY_TOP_UP, ci_amount = ''10'', ci_note = None, ci_key = ''k''\<rparr>"

definition sample_opening :: "event list" where
  "sample_opening = [Ev_price ''mad'' ''1'' ''a'', Ev_credit 0 ''s'' sample_credit ''a'', Ev_queue 0 ''m'' sample_status, Ev_claim 0 1]"

text \<open>
  C4: when nothing is under way, the balance of a store is its credits minus the costs of its
  messages that went out, and every message was charged its cost if it went out and nothing
  otherwise, after any calm run of dispatches, retries, crashes, recoveries, webhooks,
  disconnections and administration.
\<close>

theorem balance_is_credits_minus_costs:
  assumes "decimal_laws (ev_decimal E)" and "wa_reach True E ([], s)"
    and "\<forall>r \<in> set (wa_messages s). wm_status r \<noteq> MSG_SENDING"
  shows "getBalance store currency s = credited store currency s - sent_cost store currency s \<and>
    (\<forall>r \<in> set (wa_messages s). net (message_entries (wm_store r) (wm_id r) s) =
      - (if wm_status r \<in> set SENT_STATUSES then cost_of r else 0))"
proof -
  have ok: "calm_ok ([], s)" by (rule calm_reach[OF assms(2,1)])
  have cost: "rest s r = - (if wm_status r \<in> set SENT_STATUSES then cost_of r else 0)" if "r \<in> set (wa_messages s)" for r
    using row_cost[OF calm_row[OF ok that]] assms(3) that by blast
  have "(\<Sum>r \<leftarrow> filter (\<lambda>r. wm_store r = store \<and> wm_currency r = currency) (wa_messages s). rest s r) =
      (\<Sum>r \<leftarrow> filter (\<lambda>r. wm_store r = store \<and> wm_currency r = currency) (wa_messages s).
        - (if wm_status r \<in> set SENT_STATUSES then cost_of r else 0))"
    by (rule arg_cong[of _ _ sum_list], rule map_cong[OF refl]) (use cost in auto)
  also have "\<dots> = - sent_cost store currency s" by (simp add: sent_cost_def uminus_sum_list_map comp_def)
  finally show ?thesis using balance_split[OF calm_desk[OF ok]] cost by (simp add: rest_def)
qed

definition sample_sent :: "worker list \<times> wa_db" where
  "sample_sent = follow True sample_env sample_parse
     (sample_opening @ replicate 8 (Ev_turn 0 0 (Accepted (Some ''p''))) @ [Ev_leave 0]) ([], sample_office)"

lemma sample_start: "wa_reach calm sample_env ([], sample_office)"
  by (rule reach_start) (simp add: installed_def sample_office_def)

lemma sample_decimal: "decimal_laws (ev_decimal sample_env)"
  by (simp add: sample_env_def half_up_lib_laws)

lemma sample_sent_value: "fst sample_sent = [] \<and> (case snd sample_sent of s \<Rightarrow>
  getBalance ''s'' ''MAD'' s = 9 \<and> credited ''s'' ''MAD'' s = 10 \<and> sent_cost ''s'' ''MAD'' s = 1 \<and>
  map wm_status (wa_messages s) = [MSG_SENT] \<and> map (\<lambda>r. net (message_entries (wm_store r) (wm_id r) s)) (wa_messages s) = [-1])"
  by code_simp

lemma sample_sent_reach: "wa_reach True sample_env sample_sent"
  unfolding sample_sent_def by (rule follow_reach[OF sample_start])

lemma sample_sent_pair: "sample_sent = ([], snd sample_sent)"
  using sample_sent_value by (metis prod.collapse)

lemma sample_sent_status: "\<forall>r \<in> set (wa_messages (snd sample_sent)). wm_status r \<noteq> MSG_SENDING"
  using sample_sent_value by (auto simp: map_eq_Cons_conv)

lemma balance_is_credits_minus_costs_witness:
  "getBalance ''s'' ''MAD'' (snd sample_sent) = 10 - 1 \<and> map (rest (snd sample_sent)) (wa_messages (snd sample_sent)) = [- 1]"
proof -
  have "wa_reach True sample_env ([], snd sample_sent)" using sample_sent_reach sample_sent_pair by simp
  note all = balance_is_credits_minus_costs[OF sample_decimal this sample_sent_status, of "''s''" "''MAD''"]
  have v: "credited ''s'' ''MAD'' (snd sample_sent) = 10" "sent_cost ''s'' ''MAD'' (snd sample_sent) = 1"
    "map (\<lambda>r. net (message_entries (wm_store r) (wm_id r) (snd sample_sent))) (wa_messages (snd sample_sent)) = [-1]"
    using sample_sent_value by simp_all
  show ?thesis using all v unfolding rest_def by simp
qed

text \<open>
  C16: whatever happens at once, failing queries, dying processes and overlapping recoveries
  included, the balance of a store is never negative, and a message is charged at most three times,
  has at most one refund for every charge, is never credited more than it was charged, and is
  tried at most three times.
\<close>

theorem wallet_never_overdrawn:
  assumes "decimal_laws (ev_decimal E)" and "wa_reach calm E (ws, s)"
  shows "0 \<le> getBalance store currency s \<and>
    (let es = message_entries store i s in net es \<le> 0 \<and> of_kind ENTRY_REFUND es \<le> of_kind ENTRY_MESSAGE es \<and>
       of_kind ENTRY_MESSAGE es \<le> 3) \<and>
    list_all (\<lambda>r. wm_attempts r \<le> 3) (wa_messages s)"
proof -
  have ok: "desk_ok s" by (rule scene_desk[OF scene_reach[OF assms(2,1)]])
  then have "list_all (\<lambda>r. wm_attempts r \<le> 3) (wa_messages s)" by (simp add: desk_ok_def row_ok_def list_all_iff)
  then show ?thesis
    using wallet_balance[OF desk_wallet[OF ok], of store currency] few_charges[OF desk_wallet[OF ok], of store i]
      wallet_charge[OF desk_wallet[OF ok], of i store]
    by (auto simp: Let_def charge_ok_def split: if_splits)
qed

section \<open>A call that outlasts the recovery\<close>

text \<open>
  \<open>recoverStale\<close> takes up every row that has been sending for ten minutes, also one whose call still
  waits for Meta or whose turn in a long batch has not come. The call then stores SENT without a
  look at the status it finds: here the store's one message goes out, its row shows a cost of 1, and the
  charge has been refunded.
\<close>

definition sample_late :: "worker list \<times> wa_db" where
  "sample_late = follow False sample_env sample_parse
     (sample_opening @ replicate 6 (Ev_turn 0 0 (Accepted (Some ''p''))) @
      [Ev_recover 660000] @ replicate 2 (Ev_turn 1 660000 Unreachable) @ replicate 3 (Ev_turn 0 660000 (Accepted (Some ''p''))))
     ([], sample_office)"

lemma sample_late_value: "case sample_late of (ws, s) \<Rightarrow> ws = [Finished OUT_SENT, Gone] \<and>
  map (\<lambda>r. (wm_status r, wm_cost r)) (wa_messages s) = [(MSG_SENT, Some 1)] \<and>
  net (message_entries ''s'' ''m'' s) = 0 \<and> getBalance ''s'' ''MAD'' s = credited ''s'' ''MAD'' s"
  by code_simp

lemma sample_late_reach: "wa_reach False sample_env sample_late"
  unfolding sample_late_def by (rule follow_reach[OF sample_start])

lemma wallet_never_overdrawn_witness: "0 \<le> getBalance ''s'' ''MAD'' (snd sample_late)"
proof -
  have "wa_reach False sample_env (fst sample_late, snd sample_late)" using sample_late_reach by simp
  from wallet_never_overdrawn[OF sample_decimal this] show ?thesis by blast
qed

lemma late_call_sends_free:
  "\<exists>ws s. wa_reach False sample_env (ws, s :: wa_db) \<and> (\<exists>r \<in> set (wa_messages s). wm_status r = MSG_SENT \<and>
     wm_cost r = Some 1) \<and> net (message_entries ''s'' ''m'' s) = 0 \<and> getBalance ''s'' ''MAD'' s = credited ''s'' ''MAD'' s"
proof -
  obtain ws s where c: "sample_late = (ws, s)" by (cases sample_late)
  have v: "map (\<lambda>r. (wm_status r, wm_cost r)) (wa_messages s) = [(MSG_SENT, Some 1)]"
    "net (message_entries ''s'' ''m'' s) = 0" "getBalance ''s'' ''MAD'' s = credited ''s'' ''MAD'' s"
    using sample_late_value unfolding c prod.case by blast+
  from v(1) obtain r where "wa_messages s = [r]" "wm_status r = MSG_SENT" "wm_cost r = Some 1" by auto
  then have "\<exists>r \<in> set (wa_messages s). wm_status r = MSG_SENT \<and> wm_cost r = Some 1" by simp
  with v(2,3) sample_late_reach show ?thesis unfolding c by blast
qed

end
