(* ===== verification/WhatsApp_Call.thy ===== *)
theory WhatsApp_Call
  imports WhatsApp_Runs
begin

text \<open>
  A call of \<open>processOne\<close> on its own, \<open>src/whatsapp/whatsapp-dispatch.service.ts\<close>: it ends within its
  eleven turns, and the outcome it counts is the status its row has by then.
\<close>

section \<open>The stages of a call\<close>

fun stages_left :: "worker \<Rightarrow> nat" where
  "stages_left (Fetching _) = 11"
| "stages_left (Checking _) = 10"
| "stages_left (Comparing _ _ _) = 9"
| "stages_left (Pricing _ _) = 8"
| "stages_left (Debiting _ _ _) = 7"
| "stages_left (Counting _ _ _ _) = 6"
| "stages_left (Sending _ _ _ _) = 5"
| "stages_left (Recording _ _ _ _) = 4"
| "stages_left (Refunding _ _) = 3"
| "stages_left (Warning _ _) = 3"
| "stages_left (Failing _ _) = 2"
| "stages_left (Alerting _ _) = 1"
| "stages_left (Ending _ _ _ _ _) = 1"
| "stages_left _ = 0"

fun outcome_status :: "run_outcome \<Rightarrow> msg_status" where
  "outcome_status OUT_SENT = MSG_SENT"
| "outcome_status OUT_SKIPPED = MSG_SKIPPED"
| "outcome_status OUT_FAILED = MSG_FAILED"
| "outcome_status OUT_RETRIED = MSG_SCHEDULED"

text \<open>What the stage of a call tells of the status of its row.\<close>

fun told :: "wa_message \<Rightarrow> worker \<Rightarrow> bool" where
  "told r (Ending i st code msg out) \<longleftrightarrow> i = wm_id r \<and> wm_status r = MSG_SENDING \<and> st = outcome_status out"
| "told r (Alerting m b) \<longleftrightarrow> wm_status r = MSG_SENT"
| "told r (Finished out) \<longleftrightarrow> wm_status r = outcome_status out"
| "told r w \<longleftrightarrow> live w = [wm_id r]"

lemma told_live: "live w = [wm_id r] \<Longrightarrow> told r w"
  by (cases w) auto

text \<open>A turn moves on, and its row is in the table it leaves.\<close>

definition moves :: "wa_message \<Rightarrow> worker \<Rightarrow> worker \<Rightarrow> 'a wa_db_scheme \<Rightarrow> bool" where
  "moves r w w' t \<longleftrightarrow> stages_left w' < stages_left w \<and>
     (\<exists>q \<in> set (wa_messages t). wm_id q = wm_id r \<and> told q w')"

lemma moves_stay:
  "r \<in> set (wa_messages t) \<Longrightarrow> told r w' \<Longrightarrow> stages_left w' < stages_left w \<Longrightarrow> moves r w w' t"
  by (auto simp: moves_def)

lemma moves_patch:
  assumes "r \<in> set (wa_messages s)" "wm_id (patch P f r) = wm_id r" "told (patch P f r) w'" "stages_left w' < stages_left w"
  shows "moves r w w' (map_messages P f s)"
  using assms by (auto simp: moves_def)

lemma moves_quiet:
  assumes run: "advance E now answer w s = (w', t)" and q: "quiet w" "live w = [wm_id r]"
    and r: "r \<in> set (wa_messages s)" "wm_status r = MSG_SENDING" and desk: "desk_ok s"
  shows "moves r w w' t"
proof -
  have t: "wa_messages t = wa_messages s" using quiet_goes[OF q(1) _ run desk] q(2) same_messages by auto
  have "live w' = [wm_id r] \<and> stages_left w' < stages_left w"
  proof (cases w)
    case (Fetching i)
    then have "find_message i s = Some r" using q find_message_row[OF desk r(1)] by simp
    then show ?thesis using run q r Fetching by (auto simp: advance_def turn_def bnd_def reading_def ret_def)
  next
    case (Checking m)
    then show ?thesis using run q by (auto simp: advance_def turn_def bnd_def reading_def ret_def split: option.splits)
  next
    case (Comparing m c tp)
    then show ?thesis using run q by (auto simp: advance_def turn_def bnd_def reading_def ret_def split: if_splits)
  next
    case (Pricing m c)
    then show ?thesis using run q by (auto simp: advance_def turn_def bnd_def reading_def ret_def split: option.splits)
  next
    case (Warning m b)
    then show ?thesis using run q checkLowBalance_run[of "ev_decimal E" "ev_lowMessages E" now "wm_store m" "wm_currency m" b s]
      by (auto simp: advance_def turn_def andthen_def bnd_def ret_def)
  next
    case (Sending m c p b)
    then show ?thesis using run q
      by (auto simp: advance_def turn_def andthen_def bnd_def require_def ret_def throw_def caught_def split: if_splits sum.splits)
  qed (use q in auto)
  then show ?thesis using moves_stay[of r t] told_live r(1) t by simp
qed

lemma refund_messages: "wallet_ok s \<Longrightarrow> decimal_laws D \<Longrightarrow> wa_messages (snd (refundMessage D store i s)) = wa_messages s"
  by (simp add: refund_run Let_def)

lemma moves_writing:
  assumes run: "advance E now answer w s = (w', t)" and q: "\<not> quiet w" "live w = [wm_id r]"
    and r: "r \<in> set (wa_messages s)" "wm_status r = MSG_SENDING" and desk: "desk_ok s" and D: "decimal_laws (ev_decimal E)"
    and w: "worker_ok (wa_messages s) w"
  shows "moves r w w' t"
proof (cases w)
  case (Debiting m c p)
  let ?d = "debitForMessage (ev_decimal E) (wm_store m) (wm_id m) (wm_attempts m + 1) p (wm_currency m) s"
  let ?e = "debit_entry (wm_store m) (wm_id m) (wm_attempts m + 1) p (wm_currency m)"
  consider b where "?d = (Inr (Short b), s)" | e where "?d = (Inl e, s)" | b where "?d = (Inr (Debited b), add_entry ?e s)"
    using debit_cases by blast
  then show ?thesis using run Debiting q r
    by cases (auto simp: advance_def turn_def bnd_def ret_def caught_def intro!: moves_stay)
next
  case (Counting m c p b)
  let ?f = "\<lambda>r. r\<lparr>wm_attempts := wm_attempts m + 1\<rparr>\<lparr>wm_updatedAt := now\<rparr>"
  have "w' = Sending m c p b \<and> t = map_messages (\<lambda>r. wm_id r = wm_id m) ?f s \<or> w' = Refunding m Crashed \<and> t = s"
    using run Counting by (auto simp: advance_def turn_def andthen_def bnd_def ret_def update_message_run caught_def split: if_splits)
  then show ?thesis
  proof
    assume "w' = Sending m c p b \<and> t = map_messages (\<lambda>r. wm_id r = wm_id m) ?f s"
    then show ?thesis using Counting q r(1) moves_patch[of r s "\<lambda>r. wm_id r = wm_id m" ?f w' w] by (simp add: patch_def)
  next
    assume "w' = Refunding m Crashed \<and> t = s"
    then show ?thesis using Counting q r(1) by (simp add: moves_stay)
  qed
next
  case (Recording m p b pid)
  let ?P = "\<lambda>r. wm_id r = wm_id m"
  have "w' = Alerting m b \<and> t = map_messages ?P (sent_row now p pid) s \<or> w' = Refunding m Crashed \<and> t = s"
    using run Recording record_sent_cases[of now "wm_id m" p pid s]
    by (auto simp: advance_def turn_def andthen_def bnd_def ret_def caught_def)
  then show ?thesis
  proof
    assume "w' = Alerting m b \<and> t = map_messages ?P (sent_row now p pid) s"
    then show ?thesis using Recording q r(1) moves_patch[of r s ?P "sent_row now p pid" w' w] by (simp add: patch_def)
  next
    assume "w' = Refunding m Crashed \<and> t = s"
    then show ?thesis using Recording q r(1) by (simp add: moves_stay)
  qed
next
  case (Refunding m f)
  have "w' = Failing m f" "t = snd (refundMessage (ev_decimal E) (wm_store m) (wm_id m) s)"
    using run Refunding by (auto simp: advance_def turn_def andthen_def bnd_def ret_def caught_def split: prod.splits sum.splits)
  then show ?thesis using refund_messages[OF desk_wallet[OF desk] D] Refunding q r by (auto intro!: moves_stay)
next
  case (Failing m f)
  show ?thesis
  proof (cases f)
    case (Stop st code msg)
    then show ?thesis using run Failing q r w
      by (auto simp: advance_def turn_def handleFailure_def ret_def failure_ok_def intro!: moves_stay)
  next
    case Crashed
    then show ?thesis using run Failing q r by (auto simp: advance_def turn_def handleFailure_def ret_def intro!: moves_stay)
  next
    case (Graph e)
    obtain v where v: "markReauthRequired (wm_store m) (ge_message e) s = (Inr (), v)" "wa_messages v = wa_messages s"
      using markReauth_run[of "wm_store m" "ge_message e" s] same_messages by blast
    let ?P = "\<lambda>r. wm_id r = wm_id m \<and> wm_status r = MSG_SENDING"
    let ?f = "\<lambda>r. r\<lparr>wm_status := MSG_SCHEDULED, wm_sendAfter := now + RETRY_DELAY_MINUTES * 60000,
      wm_errorCode := Some (errorCode e), wm_errorMessage := Some (ge_message e)\<rparr>\<lparr>wm_updatedAt := now\<rparr>"
    have "w' = Finished OUT_RETRIED \<and> t = map_messages ?P ?f s \<or>
        (\<exists>code. w' = Ending (wm_id m) MSG_FAILED code (ge_message e) OUT_FAILED) \<and> wa_messages t = wa_messages s"
      using run Failing Graph v
      by (auto simp: advance_def turn_def handleFailure_def ret_def andthen_def bnd_def retry_later_def update_sending_run split: if_splits)
    then show ?thesis
    proof
      assume "w' = Finished OUT_RETRIED \<and> t = map_messages ?P ?f s"
      then show ?thesis using Failing q r moves_patch[of r s ?P ?f w' w] by (simp add: patch_def)
    next
      assume "(\<exists>code. w' = Ending (wm_id m) MSG_FAILED code (ge_message e) OUT_FAILED) \<and> wa_messages t = wa_messages s"
      then show ?thesis using Failing q r by (auto intro!: moves_stay)
    qed
  qed
qed (use q in auto)

lemma moves_closing:
  assumes run: "advance E now answer w s = (w', t)" and w: "live w = []" "told r w" "stages_left w \<noteq> 0"
    and r: "r \<in> set (wa_messages s)"
  shows "moves r w w' t"
proof (cases w)
  case (Alerting m b)
  then show ?thesis using run w r checkLowBalance_run[of "ev_decimal E" "ev_lowMessages E" now "wm_store m" "wm_currency m" b s]
    by (auto simp: advance_def turn_def andthen_def bnd_def ret_def same_wallet_def intro!: moves_stay)
next
  case (Ending i st code msg out)
  have wt: "w' = Finished out" "t = snd (finish now i st code msg s)" 
    using run finish_state[of E now answer i st code msg out s] unfolding Ending by simp_all
  let ?P = "\<lambda>m. wm_id m = i \<and> wm_status m = MSG_SENDING"
  let ?f = "\<lambda>m. m\<lparr>wm_status := st, wm_errorCode := Some code, wm_errorMessage := Some (take 500 msg),
       wm_failedAt := (if st = MSG_FAILED then Some now else wm_failedAt m)\<rparr>\<lparr>wm_updatedAt := now\<rparr>"
  have "moves r w (Finished out) (map_messages ?P ?f s)" using Ending w r by (intro moves_patch) (auto simp: patch_def)
  then show ?thesis by (simp add: wt finish_run)
qed (use w in auto)

lemma moves_turn:
  assumes ok: "calm_ok (xs @ w # ys, s)" and D: "decimal_laws (ev_decimal E)" and run: "advance E now answer w s = (w', t)"
    and r: "r \<in> set (wa_messages s)" "told r w" "stages_left w \<noteq> 0"
  shows "moves r w w' t"
proof (cases "live w = []")
  case True then show ?thesis using moves_closing[OF run _ r(2,3,1)] by simp
next
  case False
  then have live: "live w = [wm_id r]" using r(2) by (cases w) auto
  then have "wm_status r = MSG_SENDING" using live_sending[OF calm_clear[OF ok r(1), of w]] by simp
  then show ?thesis
    using moves_quiet[OF run _ live r(1) _ calm_desk[OF ok]]
      moves_writing[OF run _ live r(1) _ calm_desk[OF ok] D scene_worker[OF calm_scene[OF ok]]] by blast
qed

lemma told_end: "told r w \<Longrightarrow> stages_left w = 0 \<Longrightarrow> \<exists>out. w = Finished out"
  by (cases w) auto

lemma play_finished: "play E now answer n (Finished out) s = (Finished out, s)"
  by (induction n) (simp_all add: advance_def turn_def ret_def)

lemma play_ends:
  assumes D: "decimal_laws (ev_decimal E)" and "wa_reach True E (xs @ w # ys, s)" "r \<in> set (wa_messages s)" "told r w" "stages_left w \<le> n"
  shows "\<exists>out t q. play E now answer n w s = (Finished out, t) \<and> wa_reach True E (xs @ Finished out # ys, t) \<and>
    q \<in> set (wa_messages t) \<and> wm_id q = wm_id r \<and> wm_status q = outcome_status out"
  using assms(2-)
proof (induction n arbitrary: w s r)
  case 0
  then obtain out where "w = Finished out" using told_end by blast
  with 0 show ?case by auto
next
  case (Suc n)
  show ?case
  proof (cases "stages_left w = 0")
    case True
    then obtain out where "w = Finished out" using Suc.prems(3) told_end by blast
    then show ?thesis using Suc.prems play_finished by (metis told.simps(3))
  next
    case False
    obtain w' t where a: "advance E now answer w s = (w', t)" by (cases "advance E now answer w s")
    obtain q where q: "q \<in> set (wa_messages t)" "wm_id q = wm_id r" "told q w'" "stages_left w' < stages_left w"
      using moves_turn[OF calm_reach[OF Suc.prems(1) D] D a Suc.prems(2,3) False] unfolding moves_def by blast
    have "stages_left w' \<le> n" using q(4) Suc.prems(4) by linarith
    from Suc.IH[OF reach_step[OF Suc.prems(1) turn_step[OF a]] q(1,3) this] show ?thesis using a q(2) by simp
  qed
qed

text \<open>
  C19: a call of \<open>processOne\<close> on a claimed message always ends, its turns taken in a row within any
  calm run: it counts the message as sent, skipped, failed or retried exactly if its row is by
  then sent, skipped, failed or scheduled again, and the message has been charged its cost if it was
  sent and nothing otherwise, whatever Meta answers.
\<close>

theorem processOne_settles:
  assumes "decimal_laws (ev_decimal E)" and "wa_reach True E (xs @ Fetching i # ys, s)"
  shows "\<exists>out t q. processOne E now answer i s = (Finished out, t) \<and> wa_reach True E (xs @ Finished out # ys, t) \<and>
    find_message i t = Some q \<and> wm_status q = outcome_status out \<and>
    net (message_entries (wm_store q) i t) = - (if out = OUT_SENT then cost_of q else 0)"
proof -
  have ok: "calm_ok (xs @ Fetching i # ys, s)" by (rule calm_reach[OF assms(2,1)])
  then obtain r where r: "r \<in> set (wa_messages s)" "wm_id r = i" by (auto simp: calm_ok_def)
  have alone: "i \<notin> set (about x)" if "x \<in> set xs \<union> set ys" for x using alone_live[OF ok r(1) _ that] r(2) by simp
  have told: "told r (Fetching i)" using r(2) by simp
  obtain out t q where q: "processOne E now answer i s = (Finished out, t)" "wa_reach True E (xs @ Finished out # ys, t)"
    "q \<in> set (wa_messages t)" "wm_id q = i" "wm_status q = outcome_status out"
    using play_ends[OF assms(1,2) r(1) told, of 11 now answer] r(2) unfolding processOne_def by auto
  have fin: "calm_ok (xs @ Finished out # ys, t)" by (rule calm_reach[OF q(2) assms(1)])
  have "settled (owes q (Finished out)) (rest t q) q"
    using calm_row[OF fin q(3)] row_calm_alone[of xs ys q "Finished out" t] alone q(4) by blast
  then have "rest t q = - (if out = OUT_SENT then cost_of q else 0)"
    using q(5) by (cases out) (auto simp: settled_def owes_def cost_of_def)
  moreover have "find_message i t = Some q" using find_message_row[OF calm_desk[OF fin] q(3)] q(4) by simp
  ultimately show ?thesis using q unfolding rest_def by blast
qed

definition sample_claimed :: "worker list \<times> wa_db" where
  "sample_claimed = follow True sample_env sample_parse sample_opening ([], sample_office)"

lemma sample_claimed_value: "fst sample_claimed = [Fetching ''m''] \<and>
  map (\<lambda>answer. map_prod id (\<lambda>t. map wm_status (wa_messages t)) (processOne sample_env 0 answer ''m'' (snd sample_claimed)))
    [Accepted (Some ''p''), Unreachable, Rejected \<lparr>ge_message = [], ge_http = 400, ge_code = None\<rparr>] =
  [(Finished OUT_SENT, [MSG_SENT]), (Finished OUT_RETRIED, [MSG_SCHEDULED]), (Finished OUT_FAILED, [MSG_FAILED])]"
  by code_simp

lemma processOne_settles_witness:
  "\<exists>out t q. processOne sample_env 0 Unreachable ''m'' (snd sample_claimed) = (Finished out, t) \<and>
    find_message ''m'' t = Some q \<and> wm_status q = outcome_status out \<and>
    net (message_entries (wm_store q) ''m'' t) = - (if out = OUT_SENT then cost_of q else 0)"
proof -
  have "sample_claimed = ([] @ Fetching ''m'' # [], snd sample_claimed)" using sample_claimed_value by (metis append_Nil prod.collapse)
  moreover have "wa_reach True sample_env sample_claimed" unfolding sample_claimed_def by (rule follow_reach[OF sample_start])
  ultimately have "wa_reach True sample_env ([] @ Fetching ''m'' # [], snd sample_claimed)" by metis
  from processOne_settles[OF sample_decimal this, of 0 Unreachable] show ?thesis by blast
qed

end
