(* ===== verification/Rate_Limit.thy ===== *)
theory Rate_Limit
  imports Zom_Prelude
begin

text \<open>
  The counters behind the limits on codes and logins, \<open>src/redis/rate-limit.service.ts\<close>: a fixed window
  per key, kept in Redis while it is connected and in a table otherwise. Both backends implement
  one abstract window, stated as the locale \<open>window_counter\<close>.
\<close>

section \<open>The two backends\<close>

record rate_bucket =
  bk_key :: string
  bk_count :: nat
  bk_expiresAt :: int

text \<open>A key of the Redis server and when it expires, if it does.\<close>

record redis_key =
  rk_key :: string
  rk_count :: nat
  rk_expiresAt :: "int option"

record rate_db =
  buckets :: "rate_bucket list"
  redis_keys :: "redis_key list"

definition find_bucket :: "string \<Rightarrow> 'a rate_db_scheme \<Rightarrow> rate_bucket option" where
  "find_bucket key s = find (\<lambda>b. bk_key b = key) (buckets s)"

text \<open>The upsert, one SQL statement.\<close>

definition hit_bucket :: "int \<Rightarrow> int \<Rightarrow> rate_bucket \<Rightarrow> rate_bucket" where
  "hit_bucket now expiresAt b = b\<lparr>bk_count := (if bk_expiresAt b \<le> now then 1 else bk_count b + 1),
     bk_expiresAt := (if bk_expiresAt b \<le> now then expiresAt else bk_expiresAt b)\<rparr>"

definition upsert_bucket :: "int \<Rightarrow> string \<Rightarrow> int \<Rightarrow> 'a rate_db_scheme \<Rightarrow> 'a rate_db_scheme" where
  "upsert_bucket now key expiresAt s = s\<lparr>buckets := (if find_bucket key s = None
     then buckets s @ [\<lparr>bk_key = key, bk_count = 1, bk_expiresAt = expiresAt\<rparr>]
     else map (\<lambda>b. if bk_key b = key then hit_bucket now expiresAt b else b) (buckets s))\<rparr>"

definition sweep_buckets :: "int \<Rightarrow> 'a rate_db_scheme \<Rightarrow> 'a rate_db_scheme" where
  "sweep_buckets now s = s\<lparr>buckets := filter (\<lambda>b. \<not> bk_expiresAt b \<le> now) (buckets s)\<rparr>"

text \<open>\<open>sweep\<close> is the draw by which about one hit in a hundred deletes the expired buckets.\<close>

definition hitDatabase :: "bool \<Rightarrow> int \<Rightarrow> string \<Rightarrow> int \<Rightarrow> ('a rate_db_scheme, nat) act" where
  "hitDatabase sweep now key windowSeconds =
     andthen (writing (upsert_bucket now key (now + windowSeconds * 1000)))
     (bnd (reading (\<lambda>s. case find_bucket key s of None \<Rightarrow> 0 | Some b \<Rightarrow> bk_count b)) (\<lambda>count.
      andthen (if sweep then writing (sweep_buckets now) else ret ()) (ret count)))"

text \<open>\<open>INCR\<close>, \<open>EXPIRE\<close> and \<open>DEL\<close> of Redis: a key whose time has come is gone.\<close>

definition alive :: "int \<Rightarrow> redis_key \<Rightarrow> bool" where
  "alive now k \<longleftrightarrow> (case rk_expiresAt k of None \<Rightarrow> True | Some e \<Rightarrow> now < e)"

definition find_redis :: "int \<Rightarrow> string \<Rightarrow> 'a rate_db_scheme \<Rightarrow> redis_key option" where
  "find_redis now key s = find (\<lambda>k. rk_key k = key \<and> alive now k) (redis_keys s)"

definition redis_put :: "redis_key \<Rightarrow> 'a rate_db_scheme \<Rightarrow> 'a rate_db_scheme" where
  "redis_put k s = s\<lparr>redis_keys := k # filter (\<lambda>x. rk_key x \<noteq> rk_key k) (redis_keys s)\<rparr>"

definition redis_incr :: "int \<Rightarrow> string \<Rightarrow> ('a rate_db_scheme, nat) act" where
  "redis_incr now key = bnd (reading (find_redis now key)) (\<lambda>k. case k of
       None \<Rightarrow> andthen (writing (redis_put \<lparr>rk_key = key, rk_count = 1, rk_expiresAt = None\<rparr>)) (ret 1)
     | Some k \<Rightarrow> andthen (writing (redis_put (k\<lparr>rk_count := rk_count k + 1\<rparr>))) (ret (rk_count k + 1)))"

definition redis_expire :: "int \<Rightarrow> string \<Rightarrow> int \<Rightarrow> ('a rate_db_scheme, unit) act" where
  "redis_expire now key seconds = bnd (reading (find_redis now key)) (\<lambda>k. case k of
       None \<Rightarrow> ret ()
     | Some k \<Rightarrow> writing (redis_put (k\<lparr>rk_expiresAt := Some (now + seconds * 1000)\<rparr>)))"

definition hitRedis :: "int \<Rightarrow> string \<Rightarrow> int \<Rightarrow> ('a rate_db_scheme, nat) act" where
  "hitRedis now key windowSeconds = bnd (redis_incr now key) (\<lambda>count.
     andthen (if count = 1 then redis_expire now key windowSeconds else ret ()) (ret count))"

definition rate_hit :: "bool \<Rightarrow> bool \<Rightarrow> int \<Rightarrow> string \<Rightarrow> int \<Rightarrow> ('a rate_db_scheme, nat) act" where
  "rate_hit ready sweep now key windowSeconds =
     (if ready then hitRedis now key windowSeconds else hitDatabase sweep now key windowSeconds)"

definition rate_assert :: "bool \<Rightarrow> bool \<Rightarrow> int \<Rightarrow> string \<Rightarrow> nat \<Rightarrow> int \<Rightarrow> string \<Rightarrow> ('a rate_db_scheme, unit) act" where
  "rate_assert ready sweep now key limit windowSeconds message =
     bnd (rate_hit ready sweep now key windowSeconds) (\<lambda>count. require (\<not> count > limit) (TooMany message))"

definition rate_clear :: "bool \<Rightarrow> string \<Rightarrow> ('a rate_db_scheme, unit) act" where
  "rate_clear ready key = writing (\<lambda>s. if ready
     then s\<lparr>redis_keys := filter (\<lambda>x. rk_key x \<noteq> key) (redis_keys s)\<rparr>
     else s\<lparr>buckets := filter (\<lambda>b. bk_key b \<noteq> key) (buckets s)\<rparr>)"

section \<open>Attempts\<close>

text \<open>A guarded call: when, on which key, with which limit and window, and the draw of the sweep.\<close>

record attempt =
  at_time :: int
  at_key :: string
  at_limit :: nat
  at_seconds :: int
  at_sweep :: bool

text \<open>The calls that get through, with their times and keys.\<close>

fun let_through :: "(bool \<Rightarrow> int \<Rightarrow> string \<Rightarrow> int \<Rightarrow> ('s, nat) act) \<Rightarrow> attempt list \<Rightarrow> 's \<Rightarrow> attempt list" where
  "let_through hit [] s = []"
| "let_through hit (h # hs) s = (case hit (at_sweep h) (at_time h) (at_key h) (at_seconds h) s of (r, t) \<Rightarrow>
     (case r of Inr count \<Rightarrow> if count > at_limit h then [] else [h] | Inl e \<Rightarrow> []) @ let_through hit hs t)"

definition within :: "int \<Rightarrow> int \<Rightarrow> string \<Rightarrow> attempt list \<Rightarrow> nat" where
  "within a W key hs = length (filter (\<lambda>h. at_key h = key \<and> a \<le> at_time h \<and> at_time h < a + W) hs)"

text \<open>How many more calls an interval of one window can let through, by the window that is open now.\<close>

definition room :: "int \<Rightarrow> int \<Rightarrow> nat \<Rightarrow> int \<Rightarrow> (nat \<times> int option) option \<Rightarrow> nat" where
  "room a W limit now w = (if a + W \<le> now then 0 else (case w of
       None \<Rightarrow> if a \<le> now then limit else 2 * limit
     | Some (c, None) \<Rightarrow> limit - c
     | Some (c, Some e) \<Rightarrow> if a + W \<le> e then limit - c else if a < e then (limit - c) + limit else 2 * limit))"

definition still :: "int \<Rightarrow> (nat \<times> int option) option \<Rightarrow> (nat \<times> int option) option" where
  "still now w = (case w of Some (c, Some e) \<Rightarrow> if now < e then w else None | _ \<Rightarrow> w)"

lemma room_still:
  assumes "now \<le> t" shows "room a W limit t (still t w) \<le> room a W limit now w"
  using assms by (auto simp: room_def still_def split: option.split)

locale window_counter =
  fixes hit :: "bool \<Rightarrow> int \<Rightarrow> string \<Rightarrow> int \<Rightarrow> ('s, nat) act"
    and win :: "int \<Rightarrow> 's \<Rightarrow> string \<Rightarrow> (nat \<times> int option) option"
    and good :: "'s \<Rightarrow> bool"
  assumes hit_good: "good s \<Longrightarrow> good (snd (hit sweep now key seconds s))"
    and hit_own: "good s \<Longrightarrow> 0 < seconds \<Longrightarrow> (case win now s key of
        None \<Rightarrow> fst (hit sweep now key seconds s) = Inr 1 \<and>
          win now (snd (hit sweep now key seconds s)) key = Some (1, Some (now + seconds * 1000))
      | Some (c, e) \<Rightarrow> fst (hit sweep now key seconds s) = Inr (Suc c) \<and>
          win now (snd (hit sweep now key seconds s)) key = Some (Suc c, e))"
    and hit_other: "good s \<Longrightarrow> k \<noteq> key \<Longrightarrow> win now (snd (hit sweep now key seconds s)) k = win now s k"
    and win_later: "good s \<Longrightarrow> now \<le> t \<Longrightarrow> win t s k = still t (win now s k)"
begin

lemma let_through_room:
  assumes "good s" "sorted (map at_time hs)" "\<forall>h \<in> set hs. now \<le> at_time h"
    and "\<forall>h \<in> set hs. at_key h = key \<longrightarrow> at_limit h = limit \<and> at_seconds h * 1000 = W" and W: "0 < W"
  shows "within a W key (let_through hit hs s) \<le> room a W limit now (win now s key)"
  using assms(1-4)
proof (induction hs arbitrary: s now)
  case Nil then show ?case by (simp add: within_def)
next
  case (Cons h hs)
  let ?t = "at_time h" let ?u = "snd (hit (at_sweep h) ?t (at_key h) (at_seconds h) s)"
  let ?r = "fst (hit (at_sweep h) ?t (at_key h) (at_seconds h) s)"
  have rest: "within a W key (let_through hit hs ?u) \<le> room a W limit ?t (win ?t ?u key)"
    using Cons.prems by (intro Cons.IH) (auto simp: hit_good)
  have later: "room a W limit ?t (win ?t s key) \<le> room a W limit now (win now s key)"
    using room_still[of now ?t a W limit "win now s key"] win_later[OF Cons.prems(1), of now ?t key] Cons.prems(3) by simp
  have split: "let_through hit (h # hs) s =
      (case ?r of Inr count \<Rightarrow> if count > at_limit h then [] else [h] | Inl e \<Rightarrow> []) @ let_through hit hs ?u"
    by (simp add: case_prod_beta)
  show ?case
  proof (cases "at_key h = key")
    case False
    have "within a W key (let_through hit (h # hs) s) = within a W key (let_through hit hs ?u)"
      unfolding split using False by (auto simp: within_def split: sum.split)
    then show ?thesis using rest later hit_other[OF Cons.prems(1), where k = key and key = "at_key h" and now = ?t] False by simp
  next
    case True
    have lim: "at_limit h = limit" "at_seconds h * 1000 = W" using Cons.prems(4) True by auto
    then have sec: "0 < at_seconds h" using W by linarith
    have own: "case win ?t s key of
        None \<Rightarrow> ?r = Inr 1 \<and> win ?t ?u key = Some (1, Some (?t + W))
      | Some (c, e) \<Rightarrow> ?r = Inr (Suc c) \<and> win ?t ?u key = Some (Suc c, e)"
      using hit_own[OF Cons.prems(1) sec, where now = ?t and key = "at_key h" and sweep = "at_sweep h"] unfolding True lim .
    have active: "\<And>c e. win ?t s key = Some (c, Some e) \<Longrightarrow> ?t < e"
      using win_later[OF Cons.prems(1), of ?t ?t key] by (auto simp: still_def split: if_splits)
    have "within a W key (let_through hit (h # hs) s) \<le> room a W limit ?t (win ?t s key)"
    proof (cases "win ?t s key")
      case None
      then have r: "?r = Inr 1" "win ?t ?u key = Some (1, Some (?t + W))" using own by auto
      show ?thesis unfolding split r(1) using rest None True lim W unfolding r(2)
        by (auto simp: within_def room_def split: if_splits)
    next
      case (Some ce)
      obtain c e where ce: "ce = (c, e)" by (cases ce)
      then have r: "?r = Inr (Suc c)" "win ?t ?u key = Some (Suc c, e)" using own Some by auto
      show ?thesis unfolding split r(1) using rest Some ce True lim W active unfolding r(2)
        by (cases e) (auto simp: within_def room_def split: if_splits)
    qed
    then show ?thesis using later by simp
  qed
qed

text \<open>A window that never ends stays closed once it is full.\<close>

lemma never_through:
  assumes "good s" "\<forall>h \<in> set hs. now \<le> at_time h" "sorted (map at_time hs)" "win now s key = Some (c, None)" "limit \<le> c"
    and "\<forall>h \<in> set hs. at_key h = key \<longrightarrow> at_limit h = limit" "\<forall>h \<in> set hs. 0 < at_seconds h"
  shows "\<forall>h \<in> set (let_through hit hs s). at_key h \<noteq> key"
  using assms
proof (induction hs arbitrary: s now c)
  case Nil then show ?case by simp
next
  case (Cons h hs)
  let ?t = "at_time h" let ?u = "snd (hit (at_sweep h) ?t (at_key h) (at_seconds h) s)"
  let ?r = "fst (hit (at_sweep h) ?t (at_key h) (at_seconds h) s)"
  have win: "win ?t s key = Some (c, None)" using win_later[OF Cons.prems(1), of now ?t key] Cons.prems(2,4) by (simp add: still_def)
  have split: "let_through hit (h # hs) s =
      (case ?r of Inr count \<Rightarrow> if count > at_limit h then [] else [h] | Inl e \<Rightarrow> []) @ let_through hit hs ?u"
    by (simp add: case_prod_beta)
  show ?case
  proof (cases "at_key h = key")
    case True
    then have r: "?r = Inr (Suc c)" "win ?t ?u key = Some (Suc c, None)"
      using hit_own[OF Cons.prems(1), where seconds = "at_seconds h" and now = ?t and key = key and sweep = "at_sweep h"] win Cons.prems(7) by auto
    have "\<forall>g \<in> set (let_through hit hs ?u). at_key g \<noteq> key"
      by (rule Cons.IH[OF hit_good[OF Cons.prems(1)] _ _ r(2)]) (use Cons.prems in auto)
    then show ?thesis unfolding split r(1) using Cons.prems(5,6) True by auto
  next
    case False
    have "win ?t ?u key = Some (c, None)" using hit_other[OF Cons.prems(1)] False win by simp
    from Cons.IH[OF hit_good[OF Cons.prems(1)] _ _ this] have "\<forall>g \<in> set (let_through hit hs ?u). at_key g \<noteq> key"
      using Cons.prems by auto
    then show ?thesis unfolding split using False by (auto split: sum.split)
  qed
qed

end

section \<open>Both backends count by windows\<close>

definition bucket_window :: "int \<Rightarrow> 'a rate_db_scheme \<Rightarrow> string \<Rightarrow> (nat \<times> int option) option" where
  "bucket_window now s key = (case find_bucket key s of None \<Rightarrow> None
     | Some b \<Rightarrow> if bk_expiresAt b \<le> now then None else Some (bk_count b, Some (bk_expiresAt b)))"

definition redis_window :: "int \<Rightarrow> 'a rate_db_scheme \<Rightarrow> string \<Rightarrow> (nat \<times> int option) option" where
  "redis_window now s key = map_option (\<lambda>k. (rk_count k, rk_expiresAt k)) (find_redis now key s)"

definition rate_keys :: "'a rate_db_scheme \<Rightarrow> bool" where
  "rate_keys s \<longleftrightarrow> distinct (map bk_key (buckets s)) \<and> distinct (map rk_key (redis_keys s)) \<and> (\<forall>k \<in> set (redis_keys s). 0 < rk_count k)"

lemma find_key_map:
  assumes "\<And>b. bk_key (f b) = bk_key b"
  shows "find (\<lambda>b. bk_key b = k) (map (\<lambda>b. if bk_key b = key then f b else b) bs) =
    map_option (\<lambda>b. if k = key then f b else b) (find (\<lambda>b. bk_key b = k) bs)"
  using assms by (induction bs) auto

lemma find_append: "find P (xs @ ys) = (case find P xs of Some x \<Rightarrow> Some x | None \<Rightarrow> find P ys)"
  by (induction xs) auto

lemma find_upsert:
  "find_bucket k (upsert_bucket now key e s) = (if k = key then Some (case find_bucket key s of
       None \<Rightarrow> \<lparr>bk_key = key, bk_count = 1, bk_expiresAt = e\<rparr> | Some b \<Rightarrow> hit_bucket now e b)
     else find_bucket k s)"
  by (auto simp: upsert_bucket_def find_bucket_def find_key_map hit_bucket_def find_append option.case_eq_if)

lemma distinct_find_filter:
  assumes "distinct (map bk_key bs)"
  shows "find (\<lambda>b. bk_key b = k) (filter P bs) =
    (case find (\<lambda>b. bk_key b = k) bs of None \<Rightarrow> None | Some b \<Rightarrow> if P b then Some b else None)"
  using assms
proof (induction bs)
  case (Cons b bs)
  have "find (\<lambda>b. bk_key b = k) bs = None" if "bk_key b = k" using Cons.prems that by (auto simp: find_None_iff) (metis imageI)
  then show ?case using Cons by (auto split: option.split)
qed simp

lemma window_sweep: "rate_keys s \<Longrightarrow> bucket_window now (sweep_buckets now s) k = bucket_window now s k"
  by (auto simp: bucket_window_def sweep_buckets_def find_bucket_def rate_keys_def distinct_find_filter split: option.split)

lemma upsert_keys: "rate_keys s \<Longrightarrow> rate_keys (upsert_bucket now key e s)"
proof -
  have "bk_key \<circ> (\<lambda>b. if bk_key b = key then hit_bucket now e b else b) = bk_key"
    by (auto simp: hit_bucket_def)
  then show "rate_keys s \<Longrightarrow> ?thesis"
    by (auto simp: upsert_bucket_def rate_keys_def find_bucket_def find_None_iff)
qed

lemma sweep_keys: "rate_keys s \<Longrightarrow> rate_keys (sweep_buckets now s)"
  by (simp add: rate_keys_def sweep_buckets_def distinct_map_filter)

lemma hit_database_run:
  "hitDatabase sweep now key seconds s =
    (let t = upsert_bucket now key (now + seconds * 1000) s in
     (Inr (case find_bucket key t of None \<Rightarrow> 0 | Some b \<Rightarrow> bk_count b), if sweep then sweep_buckets now t else t))"
  by (simp add: hitDatabase_def act_defs Let_def)

lemma window_upsert:
  assumes "0 < seconds"
  shows "bucket_window now (upsert_bucket now key (now + seconds * 1000) s) k =
    (if k = key then (case bucket_window now s key of None \<Rightarrow> Some (1, Some (now + seconds * 1000)) | Some (c, e) \<Rightarrow> Some (Suc c, e))
     else bucket_window now s k)"
  using assms by (auto simp: bucket_window_def find_upsert hit_bucket_def split: option.splits)

interpretation database: window_counter "hitDatabase :: bool \<Rightarrow> int \<Rightarrow> string \<Rightarrow> int \<Rightarrow> ('a rate_db_scheme, nat) act" bucket_window rate_keys
proof
  fix s :: "'a rate_db_scheme" and sweep now key and seconds :: int and k t
  show "rate_keys s \<Longrightarrow> rate_keys (snd (hitDatabase sweep now key seconds s))"
    by (simp add: hit_database_run Let_def upsert_keys sweep_keys)
  have win: "bucket_window now (snd (hitDatabase sweep now key seconds s)) x = bucket_window now (upsert_bucket now key (now + seconds * 1000) s) x"
    if "rate_keys s" for x using window_sweep[OF upsert_keys[OF that]] by (simp add: hit_database_run Let_def)
  show "case bucket_window now s key of
      None \<Rightarrow> fst (hitDatabase sweep now key seconds s) = Inr 1 \<and>
        bucket_window now (snd (hitDatabase sweep now key seconds s)) key = Some (1, Some (now + seconds * 1000))
    | Some (c, e) \<Rightarrow> fst (hitDatabase sweep now key seconds s) = Inr (Suc c) \<and>
        bucket_window now (snd (hitDatabase sweep now key seconds s)) key = Some (Suc c, e)" if "rate_keys s" "0 < seconds"
    unfolding win[OF that(1)] window_upsert[OF that(2)]
    by (auto simp: hit_database_run Let_def bucket_window_def find_upsert hit_bucket_def split: option.splits)
  show "bucket_window now (snd (hitDatabase sweep now key seconds s)) k = bucket_window now s k" if "rate_keys s" "k \<noteq> key"
    unfolding win[OF that(1)] using that(2) by (simp add: bucket_window_def find_upsert)
  show "rate_keys s \<Longrightarrow> now \<le> t \<Longrightarrow> bucket_window t s k = still t (bucket_window now s k)"
    by (auto simp: bucket_window_def still_def split: option.splits)
qed

lemma find_redis_put:
  "find_redis now key (redis_put k s) = (if key = rk_key k then (if alive now k then Some k else None) else find_redis now key s)"
proof -
  have "find (\<lambda>x. rk_key x = key \<and> alive now x) (filter (\<lambda>x. rk_key x \<noteq> rk_key k) xs) =
      (if key = rk_key k then None else find (\<lambda>x. rk_key x = key \<and> alive now x) xs)" for xs
    by (induction xs) auto
  then show ?thesis by (auto simp: find_redis_def redis_put_def)
qed

lemma put_keys: "rate_keys s \<Longrightarrow> 0 < rk_count k \<Longrightarrow> rate_keys (redis_put k s)"
  by (auto simp: rate_keys_def redis_put_def distinct_map_filter)

lemma put_put: "rk_key k = rk_key l \<Longrightarrow> redis_put k (redis_put l s) = redis_put k s"
  by (simp add: redis_put_def)

lemma find_redis_key: "find_redis now key s = Some k \<Longrightarrow> k \<in> set (redis_keys s) \<and> rk_key k = key \<and> alive now k"
  unfolding find_redis_def by (drule find_Some_set) auto

lemma hit_redis_fresh:
  assumes "find_redis now key s = None"
  shows "hitRedis now key seconds s =
    (Inr 1, redis_put \<lparr>rk_key = key, rk_count = 1, rk_expiresAt = Some (now + seconds * 1000)\<rparr> s)"
  using assms by (simp add: hitRedis_def redis_incr_def redis_expire_def act_defs find_redis_put alive_def put_put)

lemma hit_redis_known:
  assumes "find_redis now key s = Some k" "0 < rk_count k"
  shows "hitRedis now key seconds s = (Inr (Suc (rk_count k)), redis_put (k\<lparr>rk_count := Suc (rk_count k)\<rparr>) s)"
  using assms by (simp add: hitRedis_def redis_incr_def act_defs)

interpretation redis: window_counter "\<lambda>sweep. hitRedis :: int \<Rightarrow> string \<Rightarrow> int \<Rightarrow> ('a rate_db_scheme, nat) act" redis_window rate_keys
proof
  fix s :: "'a rate_db_scheme" and sweep :: bool and now key and seconds :: int and k t
  have known: "0 < rk_count r" if "rate_keys s" "find_redis now key s = Some r" for r
    using that(1) find_redis_key[OF that(2)] by (simp add: rate_keys_def)
  show "rate_keys (snd (hitRedis now key seconds s))" if "rate_keys s"
    using that by (cases "find_redis now key s") (simp_all add: hit_redis_fresh hit_redis_known known put_keys)
  show "case redis_window now s key of
      None \<Rightarrow> fst (hitRedis now key seconds s) = Inr 1 \<and>
        redis_window now (snd (hitRedis now key seconds s)) key = Some (1, Some (now + seconds * 1000))
    | Some (c, e) \<Rightarrow> fst (hitRedis now key seconds s) = Inr (Suc c) \<and>
        redis_window now (snd (hitRedis now key seconds s)) key = Some (Suc c, e)" if "rate_keys s" "0 < seconds"
  proof (cases "find_redis now key s")
    case None
    then show ?thesis using that by (simp add: redis_window_def hit_redis_fresh find_redis_put alive_def)
  next
    case (Some r)
    then show ?thesis using find_redis_key[OF Some] known[OF that(1) Some]
      by (simp add: redis_window_def hit_redis_known find_redis_put alive_def)
  qed
  show "redis_window now (snd (hitRedis now key seconds s)) k = redis_window now s k" if "rate_keys s" "k \<noteq> key"
  proof (cases "find_redis now key s")
    case None
    then show ?thesis using that by (simp add: redis_window_def hit_redis_fresh find_redis_put)
  next
    case (Some r)
    then show ?thesis using that find_redis_key[OF Some] known[OF that(1) Some]
      by (simp add: redis_window_def hit_redis_known find_redis_put)
  qed
  show "redis_window t s k = still t (redis_window now s k)" if "rate_keys s" "now \<le> t"
  proof -
    have one: "x = y" if "x \<in> set (redis_keys s)" "y \<in> set (redis_keys s)" "rk_key x = rk_key y" for x y
      using \<open>rate_keys s\<close> that unfolding rate_keys_def by (meson distinct_map inj_onD)
    have "alive t x \<Longrightarrow> alive now x" for x using \<open>now \<le> t\<close> by (auto simp: alive_def split: option.splits)
    then have dead: "\<not> alive t x" if "\<not> alive now x" for x using that by blast
    have none: "find_redis u k s = None \<longleftrightarrow> (\<forall>x \<in> set (redis_keys s). rk_key x = k \<longrightarrow> \<not> alive u x)" for u
      unfolding find_redis_def find_None_iff by blast
    have "find_redis t k s = (case find_redis now k s of None \<Rightarrow> None | Some x \<Rightarrow> if alive t x then Some x else None)"
    proof (cases "find_redis now k s")
      case None
      then have "find_redis t k s = None" using dead unfolding none by blast
      then show ?thesis using None by simp
    next
      case (Some x)
      note x = find_redis_key[OF Some]
      show ?thesis
      proof (cases "find_redis t k s")
        case None
        then have "\<not> alive t x" using x unfolding none by blast
        then show ?thesis using None Some by simp
      next
        case (Some y)
        then have "y = x" "alive t y" using find_redis_key[OF Some] x one by blast+
        then show ?thesis using \<open>find_redis now k s = Some x\<close> Some by simp
      qed
    qed
    then show ?thesis by (auto simp: redis_window_def still_def alive_def split: option.splits)
  qed
qed

section \<open>What the limits hold\<close>

fun admitted :: "bool \<Rightarrow> attempt list \<Rightarrow> 'a rate_db_scheme \<Rightarrow> attempt list" where
  "admitted ready [] s = []"
| "admitted ready (h # hs) s =
     (case rate_assert ready (at_sweep h) (at_time h) (at_key h) (at_limit h) (at_seconds h) ''Too many requests'' s of
        (Inr _, t) \<Rightarrow> h # admitted ready hs t | (Inl _, t) \<Rightarrow> admitted ready hs t)"

lemma admitted_through: "admitted ready hs s = let_through (rate_hit ready) hs s"
proof (induction hs arbitrary: s)
  case (Cons h hs)
  obtain r t where r: "rate_hit ready (at_sweep h) (at_time h) (at_key h) (at_seconds h) s = (r, t)" by fastforce
  then show ?case using Cons by (cases r) (auto simp: rate_assert_def bnd_def require_def ret_def throw_def)
qed simp

lemma rate_hit_ready: "rate_hit True = (\<lambda>sweep. hitRedis)" "rate_hit False = hitDatabase"
  by (auto simp: rate_hit_def fun_eq_iff)

lemma room_two: "room a W limit now w \<le> 2 * limit"
  by (auto simp: room_def split: option.split)

text \<open>
  C5: among calls that come in any order of keys, with any sweeps, at most twice the limit of a key
  gets through in any interval as long as its window, with Redis and with the table alike. Twice:
  an interval can meet the end of one window and the start of the next.
\<close>

theorem attempts_bounded:
  assumes "rate_keys s" and "sorted (map at_time hs)" and "0 < seconds"
    and "\<forall>h \<in> set hs. at_key h = key \<longrightarrow> at_limit h = limit \<and> at_seconds h = seconds"
  shows "within a (seconds * 1000) key (admitted ready hs s) \<le> 2 * limit"
proof (cases hs)
  case Nil then show ?thesis by (simp add: within_def)
next
  case (Cons h ts)
  have start: "\<forall>g \<in> set hs. at_time h \<le> at_time g" using assms(2) Cons by auto
  have own: "\<forall>g \<in> set hs. at_key g = key \<longrightarrow> at_limit g = limit \<and> at_seconds g * 1000 = seconds * 1000" using assms(4) by auto
  have pos: "0 < seconds * 1000" using assms(3) by simp
  have "\<exists>w. within a (seconds * 1000) key (admitted ready hs s) \<le> room a (seconds * 1000) limit (at_time h) w"
    using redis.let_through_room[OF assms(1,2) start own pos, of a] database.let_through_room[OF assms(1,2) start own pos, of a]
    unfolding admitted_through by (cases ready) (auto simp: rate_hit_ready)
  then show ?thesis using room_two order_trans by blast
qed

text \<open>
  \<open>hitRedis\<close> sets the expiry in a second command. A process that dies between the two leaves a key
  that never expires: once its count has reached the limit, no later call gets through.
\<close>

lemma interrupted_hit: "find_redis now key s = None \<Longrightarrow> redis_window now (snd (redis_incr now key s)) key = Some (1, None)"
  by (simp add: redis_incr_def act_defs redis_window_def find_redis_put alive_def)

lemma interrupted_hit_locks_out:
  assumes "rate_keys s" "\<forall>h \<in> set hs. now \<le> at_time h \<and> 0 < at_seconds h" "sorted (map at_time hs)"
    and "redis_window now s key = Some (c, None)" "limit \<le> c" "\<forall>h \<in> set hs. at_key h = key \<longrightarrow> at_limit h = limit"
  shows "\<forall>h \<in> set (admitted True hs s). at_key h \<noteq> key"
  using redis.never_through[OF assms(1) _ assms(3,4,5,6)] assms(2) by (simp add: admitted_through rate_hit_ready)

definition sample_attempts :: "attempt list" where
  "sample_attempts = map (\<lambda>t. \<lparr>at_time = t, at_key = ''k'', at_limit = 2, at_seconds = 10, at_sweep = (t = 0)\<rparr>)
     [0, 8000, 9000, 11000, 12000, 13000]"

lemma attempts_bounded_witness:
  "within 5000 10000 ''k'' (admitted False sample_attempts \<lparr>buckets = [], redis_keys = []\<rparr>) \<le> 4"
proof -
  have "sorted (map at_time sample_attempts)" "list_all (\<lambda>h. at_limit h = 2 \<and> at_seconds h = 10) sample_attempts"
    by (simp_all add: sample_attempts_def)
  then show ?thesis
    using attempts_bounded[of "\<lparr>buckets = [], redis_keys = []\<rparr>" sample_attempts 10 "''k''" 2 5000 False]
    by (auto simp: rate_keys_def list_all_iff)
qed

end
