(* ===== verification/Sign_In.thy ===== *)
theory Sign_In
  imports Rate_Limit Access
begin

text \<open>
  Signing in, sessions, passwords and account deletion: \<open>src/auth/auth.service.ts\<close>,
  \<open>auth-tokens.service.ts\<close>, \<open>refresh-token-hash.util.ts\<close>, \<open>otp-countries.service.ts\<close>, \<open>strategies/jwt.strategy.ts\<close>,
  \<open>src/providers/twilio-otp.provider.ts\<close> and \<open>src/users/users.service.ts\<close>. A call that checks first and
  writes later is cut in two, so that calls interleave between the check and the write.
\<close>

section \<open>Tables and parameters\<close>

text \<open>The columns of a user that sign-in works on.\<close>

record login_row =
  lg_id :: string
  lg_phone :: string
  lg_verified :: bool
  lg_onboarded :: bool
  lg_password :: "string option"
  lg_refresh :: "string option"
  lg_requestedAt :: "int option"
  lg_scheduledFor :: "int option"

record member_row =
  mb_id :: string
  mb_user :: string
  mb_status :: staff_status
  mb_lastLogin :: "int option"
  mb_lastActive :: "int option"

record auth_db = rate_db +
  logins :: "login_row list"
  members :: "member_row list"

text \<open>The payload of a token; \<open>cl_admin\<close> says that it carries \<open>username\<close> or \<open>scope\<close>. Times are seconds.\<close>

record claims =
  cl_sub :: string
  cl_phone :: "string option"
  cl_type :: string
  cl_rm :: bool
  cl_pwv :: "string option"
  cl_admin :: bool
  cl_jti :: "string option"
  cl_iat :: int
  cl_exp :: int

text \<open>
  Outside the repository: signing and verifying tokens with the secret, SHA-256 in hexadecimal,
  \<open>bcrypt.compare\<close>, the first 22 characters of an HMAC with the secret, and libphonenumber's
  country of a number with its list of countries. The two lists of blocked countries are settings.
\<close>

record auth_env =
  ae_sign :: "claims \<Rightarrow> string"
  ae_verify :: "int \<Rightarrow> string \<Rightarrow> claims option"
  ae_hash :: "string \<Rightarrow> string"
  ae_matches :: "string \<Rightarrow> string \<Rightarrow> bool"
  ae_hmac :: "string \<Rightarrow> string"
  ae_country :: "string \<Rightarrow> string option"
  ae_countries :: "string list"
  ae_smsDisabled :: "string option"
  ae_whatsappDisabled :: "string option"

text \<open>When a call runs, whether Redis is connected, and the draw of the sweep.\<close>

record call =
  cx_now :: int
  cx_ready :: bool
  cx_sweep :: bool

definition find_login :: "string \<Rightarrow> 'a auth_db_scheme \<Rightarrow> login_row option" where
  "find_login u s = find (\<lambda>r. lg_id r = u) (logins s)"

definition login_by_phone :: "string \<Rightarrow> 'a auth_db_scheme \<Rightarrow> login_row option" where
  "login_by_phone phone s = find (\<lambda>r. lg_phone r = phone) (logins s)"

definition member_of :: "string \<Rightarrow> 'a auth_db_scheme \<Rightarrow> member_row option" where
  "member_of u s = find (\<lambda>m. mb_user m = u) (members s)"

definition edit_login :: "string \<Rightarrow> (login_row \<Rightarrow> login_row) \<Rightarrow> 'a auth_db_scheme \<Rightarrow> 'a auth_db_scheme" where
  "edit_login u f s = s\<lparr>logins := map (\<lambda>r. if lg_id r = u then f r else r) (logins s)\<rparr>"

text \<open>\<open>update\<close> by the id raises when the row is gone.\<close>

definition update_login :: "string \<Rightarrow> (login_row \<Rightarrow> login_row) \<Rightarrow> ('a auth_db_scheme, unit) act" where
  "update_login u f = bnd (reading (find_login u)) (\<lambda>r.
     andthen (require (r \<noteq> None) (Internal ''Record to update not found'')) (writing (edit_login u f)))"

definition guard_rate :: "call \<Rightarrow> string \<Rightarrow> nat \<Rightarrow> int \<Rightarrow> string \<Rightarrow> ('a auth_db_scheme, unit) act" where
  "guard_rate cx key limit seconds message = rate_assert (cx_ready cx) (cx_sweep cx) (cx_now cx) key limit seconds message"

section \<open>Codes\<close>

datatype channel = CH_SMS | CH_WHATSAPP

definition channel_name :: "channel \<Rightarrow> string" where
  "channel_name c = (case c of CH_SMS \<Rightarrow> ''SMS'' | CH_WHATSAPP \<Rightarrow> ''WhatsApp'')"

definition channel_key :: "channel \<Rightarrow> string" where
  "channel_key c = (case c of CH_SMS \<Rightarrow> ''sms'' | CH_WHATSAPP \<Rightarrow> ''whatsapp'')"

fun split_comma :: "string \<Rightarrow> string list" where
  "split_comma [] = [[]]"
| "split_comma (c # cs) = (if c = CHR '','' then [] # split_comma cs
     else (case split_comma cs of [] \<Rightarrow> [[c]] | x # xs \<Rightarrow> (c # x) # xs))"

definition parseCountryList :: "auth_env \<Rightarrow> string option \<Rightarrow> string list" where
  "parseCountryList E v = filter (\<lambda>c. c \<in> set (ae_countries E)) (map (\<lambda>c. js_upper (js_trim c))
     (split_comma (case v of None \<Rightarrow> [] | Some x \<Rightarrow> x)))"

definition assertChannelAvailable :: "auth_env \<Rightarrow> string \<Rightarrow> channel \<Rightarrow> ('s, unit) act" where
  "assertChannelAvailable E phone c = (case ae_country E phone of
       None \<Rightarrow> ret ()
     | Some country \<Rightarrow> require (country \<notin> set (parseCountryList E
           (case c of CH_WHATSAPP \<Rightarrow> ae_whatsappDisabled E | CH_SMS \<Rightarrow> ae_smsDisabled E)))
         (BadRequest (channel_name c @ '' verification is not available for this country'')))"

text \<open>What Twilio answers: the status of the verification, or a fault with its error code, if it has one.\<close>

datatype twilio_answer = Reply string | Fault "int option"

definition toSendException :: "int option \<Rightarrow> channel \<Rightarrow> error" where
  "toSendException code c =
     (if code \<in> Some ` {60200, 21211, 21614} then BadRequest ''This phone number is not valid''
      else if code = Some 60205 then BadRequest (''This number cannot receive '' @ channel_name c @ ''. Use a mobile number.'')
      else if code \<in> Some ` {60605, 60220}
        then BadRequest (channel_name c @ '' verification is not available for this country'')
      else if code = Some 60410 then BadRequest ''We could not send a code to this number. Please contact support.''
      else if code \<in> {Some 60203, Some 20429} then TooMany ''Too many OTP requests. Please try again later.''
      else Unavailable ''Could not send the code right now. Please try again.'')"

text \<open>The outcome of the provider: a client without credentials raises.\<close>

definition twilio_sendOtp :: "bool \<Rightarrow> channel \<Rightarrow> twilio_answer \<Rightarrow> error + unit" where
  "twilio_sendOtp configured c a = (if \<not> configured then Inl (Unavailable ''OTP service is not configured'')
     else (case a of Reply _ \<Rightarrow> Inr () | Fault code \<Rightarrow> Inl (toSendException code c)))"

definition twilio_verifyOtp :: "bool \<Rightarrow> twilio_answer \<Rightarrow> error + bool" where
  "twilio_verifyOtp configured a = (if \<not> configured then Inl (Unavailable ''OTP service is not configured'')
     else (case a of Reply status \<Rightarrow> Inr (status = ''approved'')
       | Fault code \<Rightarrow> if code = Some 20404 then Inr False
           else if code = Some 60202 then Inl (TooMany ''Too many wrong codes. Please request a new OTP.'')
           else Inl (Unavailable ''Could not verify the code right now. Please try again.'')))"

definition development_verifyOtp :: "string \<Rightarrow> string \<Rightarrow> error + bool" where
  "development_verifyOtp code otp = Inr (otp = code)"

definition sendOtp :: "auth_env \<Rightarrow> call \<Rightarrow> string \<Rightarrow> channel \<Rightarrow> error + unit \<Rightarrow> ('a auth_db_scheme, unit) act" where
  "sendOtp E cx phone c sent =
     andthen (assertChannelAvailable E phone c)
     (andthen (guard_rate cx (''auth:otp:send:'' @ channel_key c @ '':'' @ phone) 3 600 ''Too many OTP requests. Please try again later.'')
       (lift_sum sent))"

section \<open>Sessions\<close>

definition access_claims :: "int \<Rightarrow> string \<Rightarrow> string \<Rightarrow> bool \<Rightarrow> claims" where
  "access_claims now u phone rm = \<lparr>cl_sub = u, cl_phone = Some phone, cl_type = ''access'', cl_rm = rm, cl_pwv = None,
     cl_admin = False, cl_jti = None, cl_iat = now div 1000, cl_exp = now div 1000 + 15 * 60\<rparr>"

definition refresh_claims :: "int \<Rightarrow> string \<Rightarrow> string \<Rightarrow> bool \<Rightarrow> string \<Rightarrow> claims" where
  "refresh_claims now u phone rm jti = \<lparr>cl_sub = u, cl_phone = Some phone, cl_type = ''refresh'', cl_rm = rm, cl_pwv = None,
     cl_admin = False, cl_jti = Some jti, cl_iat = now div 1000, cl_exp = now div 1000 + (if rm then 30 else 7) * 86400\<rparr>"

text \<open>The pair of tokens: access and refresh; \<open>jti\<close> is the random id of the refresh token.\<close>

definition issue :: "auth_env \<Rightarrow> int \<Rightarrow> string \<Rightarrow> string \<Rightarrow> string \<Rightarrow> bool \<Rightarrow> ('a auth_db_scheme, string \<times> string) act" where
  "issue E now jti u phone rm = (let refresh = ae_sign E (refresh_claims now u phone rm jti) in
     andthen (update_login u (\<lambda>r. r\<lparr>lg_refresh := Some (ae_hash E refresh)\<rparr>))
       (ret (ae_sign E (access_claims now u phone rm), refresh)))"

record session =
  ss_tokens :: "string \<times> string"
  ss_profile :: bool
  ss_hasPassword :: bool

definition session_for :: "login_row \<Rightarrow> string \<times> string \<Rightarrow> session" where
  "session_for r tokens = \<lparr>ss_tokens = tokens, ss_profile = lg_onboarded r, ss_hasPassword = (lg_password r \<noteq> None)\<rparr>"

definition new_login :: "string \<Rightarrow> string \<Rightarrow> login_row" where
  "new_login u phone = \<lparr>lg_id = u, lg_phone = phone, lg_verified = True, lg_onboarded = False, lg_password = None,
     lg_refresh = None, lg_requestedAt = None, lg_scheduledFor = None\<rparr>"

definition create_login :: "string \<Rightarrow> string \<Rightarrow> ('a auth_db_scheme, login_row) act" where
  "create_login u phone =
     bnd (reading (\<lambda>s. list_ex (\<lambda>r. lg_id r = u \<or> lg_phone r = phone) (logins s))) (\<lambda>taken.
     andthen (require (\<not> taken) UniqueViolation)
     (andthen (writing (\<lambda>s. s\<lparr>logins := logins s @ [new_login u phone]\<rparr>)) (ret (new_login u phone))))"

definition verifyOtp_check :: "call \<Rightarrow> string \<Rightarrow> error + bool \<Rightarrow> string \<Rightarrow> ('a auth_db_scheme, login_row) act" where
  "verifyOtp_check cx phone checked uuid =
     andthen (guard_rate cx (''auth:otp:verify:'' @ phone) 5 600
       ''Too many OTP verification attempts. Please request a new OTP later.'')
     (bnd (lift_sum checked) (\<lambda>valid.
      andthen (require valid (BadRequest ''Invalid or expired OTP''))
      (bnd (reading (login_by_phone phone)) (\<lambda>user. case user of Some r \<Rightarrow> ret r | None \<Rightarrow> create_login uuid phone))))"

definition verifyOtp :: "auth_env \<Rightarrow> call \<Rightarrow> string \<Rightarrow> string \<Rightarrow> error + bool \<Rightarrow> string \<Rightarrow> ('a auth_db_scheme, session) act" where
  "verifyOtp E cx jti phone checked uuid =
     bnd (verifyOtp_check cx phone checked uuid) (\<lambda>r.
     bnd (issue E (cx_now cx) jti (lg_id r) (lg_phone r) False) (\<lambda>tokens.
     andthen (rate_clear (cx_ready cx) (''auth:otp:verify:'' @ phone)) (ret (session_for r tokens))))"

definition password_matches :: "auth_env \<Rightarrow> string \<Rightarrow> login_row \<Rightarrow> bool" where
  "password_matches E password r = (case lg_password r of None \<Rightarrow> False | Some h \<Rightarrow> h \<noteq> [] \<and> ae_matches E password h)"

definition login_check :: "auth_env \<Rightarrow> call \<Rightarrow> string \<Rightarrow> string \<Rightarrow> ('a auth_db_scheme, login_row) act" where
  "login_check E cx phone password =
     andthen (guard_rate cx (''auth:login:'' @ phone) 5 900 ''Too many login attempts. Please try again later.'')
     (bnd (reading (login_by_phone phone)) (\<lambda>user.
      bnd (found user (Unauthorized ''Invalid phone number or password'')) (\<lambda>r.
      andthen (require (password_matches E password r) (Unauthorized ''Invalid phone number or password''))
      (bnd (reading (member_of (lg_id r))) (\<lambda>m.
       andthen (require (case m of None \<Rightarrow> True | Some m \<Rightarrow> mb_status m = STAFF_ACTIVE)
         (Unauthorized ''This staff account has been deactivated''))
       (ret r))))))"

definition logged_in :: "int \<Rightarrow> string \<Rightarrow> 'a auth_db_scheme \<Rightarrow> 'a auth_db_scheme" where
  "logged_in now u s = s\<lparr>members := map (\<lambda>m. if mb_user m = u
     then m\<lparr>mb_lastLogin := Some now, mb_lastActive := Some now\<rparr> else m) (members s)\<rparr>"

definition login :: "auth_env \<Rightarrow> call \<Rightarrow> string \<Rightarrow> string \<Rightarrow> string \<Rightarrow> bool \<Rightarrow> ('a auth_db_scheme, session) act" where
  "login E cx jti phone password rm =
     bnd (login_check E cx phone password) (\<lambda>r.
     bnd (issue E (cx_now cx) jti (lg_id r) (lg_phone r) rm) (\<lambda>tokens.
     andthen (rate_clear (cx_ready cx) (''auth:login:'' @ phone))
     (andthen (writing (logged_in (cx_now cx) (lg_id r))) (ret (session_for r tokens)))))"

definition logout :: "string \<Rightarrow> ('a auth_db_scheme, unit) act" where
  "logout u = writing (edit_login u (\<lambda>r. r\<lparr>lg_refresh := None\<rparr>))"

definition refreshTokenMatches :: "auth_env \<Rightarrow> string \<Rightarrow> string \<Rightarrow> bool" where
  "refreshTokenMatches E token stored \<longleftrightarrow> ae_hash E token = stored"

definition refresh_check :: "auth_env \<Rightarrow> int \<Rightarrow> string \<Rightarrow> ('a auth_db_scheme, login_row \<times> bool) act" where
  "refresh_check E now token =
     bnd (found (ae_verify E now token) (Unauthorized ''Access Denied'')) (\<lambda>c.
     andthen (require (cl_type c = ''refresh'') (Unauthorized ''Access Denied''))
     (bnd (reading (find_login (cl_sub c))) (\<lambda>user.
      bnd (found user (Unauthorized ''Access Denied'')) (\<lambda>r.
      andthen (require (lg_refresh r \<notin> {None, Some []}) (Unauthorized ''Access Denied''))
      (andthen (require (\<exists>h \<in> set_option (lg_refresh r). refreshTokenMatches E token h) (Unauthorized ''Access Denied''))
        (ret (r, cl_rm c)))))))"

definition refreshTokens :: "auth_env \<Rightarrow> int \<Rightarrow> string \<Rightarrow> string \<Rightarrow> ('a auth_db_scheme, string \<times> string) act" where
  "refreshTokens E now jti token = bnd (refresh_check E now token) (\<lambda>(r, rm). issue E now jti (lg_id r) (lg_phone r) rm)"

text \<open>The bearer of an access token: the user, the phone, and whether the session is to be remembered.\<close>

definition jwt_validate :: "claims \<Rightarrow> error + string \<times> string \<times> bool" where
  "jwt_validate c = (if cl_type c \<noteq> ''access'' then Inl (Unauthorized ''Invalid token type'')
     else if cl_admin c then Inl (Unauthorized ''Invalid token'')
     else (case cl_phone c of None \<Rightarrow> Inl (Unauthorized ''Invalid token'') | Some phone \<Rightarrow> Inr (cl_sub c, phone, cl_rm c)))"

section \<open>Changing the phone number\<close>

definition requestPhoneChange :: "call \<Rightarrow> string \<Rightarrow> string \<Rightarrow> error + unit \<Rightarrow> ('a auth_db_scheme, unit) act" where
  "requestPhoneChange cx u phone sent =
     andthen (guard_rate cx (''auth:phone-change:request:'' @ u) 3 600
       ''Too many phone number change requests. Please try again later.'')
     (bnd (reading (find_login u)) (\<lambda>user.
      bnd (found user (NotFound ''User not found'')) (\<lambda>r.
      andthen (require (phone \<noteq> lg_phone r) (BadRequest ''New phone number must be different from the current one''))
      (bnd (reading (login_by_phone phone)) (\<lambda>existing.
       andthen (require (existing = None) (Conflict ''Phone number already in use'')) (lift_sum sent))))))"

definition phoneChange_check :: "call \<Rightarrow> string \<Rightarrow> string \<Rightarrow> error + bool \<Rightarrow> ('a auth_db_scheme, login_row) act" where
  "phoneChange_check cx u phone checked =
     andthen (guard_rate cx (''auth:phone-change:confirm:'' @ u) 5 600
       ''Too many phone number change attempts. Please request a new OTP later.'')
     (bnd (lift_sum checked) (\<lambda>valid.
      andthen (require valid (BadRequest ''Invalid or expired OTP''))
      (bnd (reading (find_login u)) (\<lambda>user.
       bnd (found user (NotFound ''User not found'')) (\<lambda>r.
       bnd (reading (login_by_phone phone)) (\<lambda>existing.
       andthen (require (case existing of None \<Rightarrow> True | Some x \<Rightarrow> lg_id x = u) (Conflict ''Phone number already in use''))
         (ret r)))))))"

text \<open>The phone is a unique column.\<close>

definition set_phone :: "string \<Rightarrow> string \<Rightarrow> ('a auth_db_scheme, unit) act" where
  "set_phone u phone = bnd (reading (\<lambda>s. list_ex (\<lambda>r. lg_id r \<noteq> u \<and> lg_phone r = phone) (logins s))) (\<lambda>taken.
     andthen (require (\<not> taken) UniqueViolation)
       (update_login u (\<lambda>r. r\<lparr>lg_phone := phone, lg_verified := True\<rparr>)))"

definition confirmPhoneChange ::
  "auth_env \<Rightarrow> call \<Rightarrow> string \<Rightarrow> string \<Rightarrow> string \<Rightarrow> error + bool \<Rightarrow> ('a auth_db_scheme, session) act" where
  "confirmPhoneChange E cx jti u phone checked =
     bnd (phoneChange_check cx u phone checked) (\<lambda>r.
     andthen (set_phone u phone)
     (andthen (rate_clear (cx_ready cx) (''auth:phone-change:confirm:'' @ u))
     (bnd (issue E (cx_now cx) jti u phone False) (\<lambda>tokens. ret (session_for r tokens)))))"

section \<open>Passwords\<close>

definition PASSWORD_RESET_TTL_SECONDS :: int where
  "PASSWORD_RESET_TTL_SECONDS = 10 * 60"

text \<open>The answer to a request for a code does not depend on the account, except through \<open>sent\<close>.\<close>

definition requestPasswordReset :: "call \<Rightarrow> string \<Rightarrow> error + unit \<Rightarrow> ('a auth_db_scheme, string) act" where
  "requestPasswordReset cx phone sent =
     andthen (guard_rate cx (''auth:password-reset:request:'' @ phone) 3 600
       ''Too many password reset requests. Please try again later.'')
     (bnd (reading (login_by_phone phone)) (\<lambda>user.
      andthen (if user = None then ret () else (case sent of Inl (BadRequest _) \<Rightarrow> ret () | Inl e \<Rightarrow> throw e | Inr _ \<Rightarrow> ret ()))
        (ret ''If an account exists for this number, an OTP has been sent'')))"

definition password_text :: "string option \<Rightarrow> string" where
  "password_text h = (case h of None \<Rightarrow> [] | Some x \<Rightarrow> x)"

definition passwordFingerprint :: "auth_env \<Rightarrow> string option \<Rightarrow> string" where
  "passwordFingerprint E h = ae_hmac E (password_text h)"

definition reset_claims :: "auth_env \<Rightarrow> int \<Rightarrow> login_row \<Rightarrow> claims" where
  "reset_claims E now r = \<lparr>cl_sub = lg_id r, cl_phone = Some (lg_phone r), cl_type = ''password_reset'', cl_rm = False,
     cl_pwv = Some (passwordFingerprint E (lg_password r)), cl_admin = False, cl_jti = None,
     cl_iat = now div 1000, cl_exp = now div 1000 + PASSWORD_RESET_TTL_SECONDS\<rparr>"

text \<open>The code is only checked for a phone with an account.\<close>

definition verifyPasswordReset :: "auth_env \<Rightarrow> call \<Rightarrow> string \<Rightarrow> error + bool \<Rightarrow> ('a auth_db_scheme, string \<times> int) act" where
  "verifyPasswordReset E cx phone checked =
     andthen (guard_rate cx (''auth:password-reset:verify:'' @ phone) 5 600
       ''Too many OTP verification attempts. Please request a new OTP later.'')
     (bnd (reading (login_by_phone phone)) (\<lambda>user.
      bnd (found user (BadRequest ''Invalid or expired OTP'')) (\<lambda>r.
      bnd (lift_sum checked) (\<lambda>valid.
      andthen (require valid (BadRequest ''Invalid or expired OTP''))
      (andthen (rate_clear (cx_ready cx) (''auth:password-reset:verify:'' @ phone))
        (ret (ae_sign E (reset_claims E (cx_now cx) r), cx_now cx + PASSWORD_RESET_TTL_SECONDS * 1000)))))))"

definition INVALID_LINK :: error where
  "INVALID_LINK = Unauthorized ''Reset link is invalid or has expired''"

definition resetPassword_check :: "auth_env \<Rightarrow> int \<Rightarrow> string \<Rightarrow> ('a auth_db_scheme, login_row) act" where
  "resetPassword_check E now token =
     bnd (found (ae_verify E now token) INVALID_LINK) (\<lambda>c.
     andthen (require (cl_type c = ''password_reset'' \<and> cl_pwv c \<notin> {None, Some []}) INVALID_LINK)
     (bnd (reading (find_login (cl_sub c))) (\<lambda>user.
      bnd (found user INVALID_LINK) (\<lambda>r.
      andthen (require (Some (passwordFingerprint E (lg_password r)) = cl_pwv c) INVALID_LINK) (ret r)))))"

text \<open>\<open>h\<close> is the \<open>bcrypt\<close> hash of the new password, made with a fresh salt.\<close>

definition store_reset :: "string \<Rightarrow> string \<Rightarrow> ('a auth_db_scheme, unit) act" where
  "store_reset u h = update_login u (\<lambda>r. r\<lparr>lg_password := Some h, lg_refresh := None, lg_verified := True\<rparr>)"

definition resetPassword :: "auth_env \<Rightarrow> int \<Rightarrow> string \<Rightarrow> string \<Rightarrow> ('a auth_db_scheme, unit) act" where
  "resetPassword E now token h = bnd (resetPassword_check E now token) (\<lambda>r. store_reset (lg_id r) h)"

section \<open>src/users/users.service.ts\<close>

definition changePassword_check :: "auth_env \<Rightarrow> string \<Rightarrow> string option \<Rightarrow> string \<Rightarrow> ('a auth_db_scheme, login_row) act" where
  "changePassword_check E u current new =
     bnd (reading (find_login u)) (\<lambda>user.
     bnd (found user (NotFound ''User not found'')) (\<lambda>r.
     andthen (case lg_password r of None \<Rightarrow> ret () | Some h \<Rightarrow> if h = [] then ret () else
         andthen (require (current \<notin> {None, Some []}) (BadRequest ''Current password is required''))
         (andthen (require (\<exists>p \<in> set_option current. ae_matches E p h) (Unauthorized ''Current password is incorrect''))
           (require (\<not> ae_matches E new h) (BadRequest ''New password must be different from the current password''))))
       (ret r)))"

definition store_password :: "string \<Rightarrow> string \<Rightarrow> ('a auth_db_scheme, unit) act" where
  "store_password u h = update_login u (\<lambda>r. r\<lparr>lg_password := Some h, lg_refresh := None\<rparr>)"

definition changePassword ::
  "auth_env \<Rightarrow> int \<Rightarrow> string \<Rightarrow> string \<Rightarrow> string option \<Rightarrow> string \<Rightarrow> string \<Rightarrow> bool \<Rightarrow> ('a auth_db_scheme, string \<times> string) act" where
  "changePassword E now jti u current new h rm =
     bnd (changePassword_check E u current new) (\<lambda>r.
     andthen (store_password u h) (issue E now jti (lg_id r) (lg_phone r) rm))"

definition ACCOUNT_DELETION_GRACE_DAYS :: int where
  "ACCOUNT_DELETION_GRACE_DAYS = 30"

definition schedule_deletion :: "string \<Rightarrow> int \<Rightarrow> int \<Rightarrow> ('a auth_db_scheme, unit) act" where
  "schedule_deletion u now until =
     update_login u (\<lambda>r. r\<lparr>lg_requestedAt := Some now, lg_scheduledFor := Some until, lg_refresh := None\<rparr>)"

definition deletion_time :: "int \<Rightarrow> login_row \<Rightarrow> int" where
  "deletion_time now r = (case lg_scheduledFor r of Some t \<Rightarrow> t | None \<Rightarrow> now + ACCOUNT_DELETION_GRACE_DAYS * 24 * 60 * 60 * 1000)"

definition deleteAccount :: "string \<Rightarrow> int \<Rightarrow> ('a auth_db_scheme, int) act" where
  "deleteAccount u now = bnd (reading (find_login u)) (\<lambda>user.
     bnd (found user (NotFound ''User not found'')) (\<lambda>r.
     andthen (if lg_scheduledFor r = None then schedule_deletion u now (deletion_time now r) else ret ())
       (ret (deletion_time now r))))"

definition unschedule :: "string \<Rightarrow> ('a auth_db_scheme, unit) act" where
  "unschedule u = update_login u (\<lambda>r. r\<lparr>lg_requestedAt := None, lg_scheduledFor := None\<rparr>)"

definition cancel_check :: "string \<Rightarrow> ('a auth_db_scheme, login_row) act" where
  "cancel_check u = bnd (reading (find_login u)) (\<lambda>user.
     bnd (found user (NotFound ''User not found'')) (\<lambda>r.
     andthen (require (lg_scheduledFor r \<noteq> None) (Conflict ''No account deletion is pending'')) (ret r)))"

definition cancelDeletion :: "string \<Rightarrow> ('a auth_db_scheme, unit) act" where
  "cancelDeletion u = bnd (cancel_check u) (\<lambda>_. unschedule u)"

text \<open>
  The purge: the due accounts, oldest date first, then one conditional deletion each. \<open>refuses\<close> are
  the deletions the database fails, which are counted and skipped. The rows that fall with a user are
  other tables.
\<close>

definition due_at :: "int \<Rightarrow> login_row \<Rightarrow> bool" where
  "due_at now r \<longleftrightarrow> (case lg_scheduledFor r of None \<Rightarrow> False | Some t \<Rightarrow> t \<le> now)"

definition due_accounts :: "int \<Rightarrow> nat \<Rightarrow> 'a auth_db_scheme \<Rightarrow> string list" where
  "due_accounts now batchSize s = map lg_id (take batchSize
     (sort_key (\<lambda>r. case lg_scheduledFor r of None \<Rightarrow> 0 | Some t \<Rightarrow> t) (filter (due_at now) (logins s))))"

definition purge_account :: "int \<Rightarrow> string \<Rightarrow> 'a auth_db_scheme \<Rightarrow> 'a auth_db_scheme" where
  "purge_account now u s = s\<lparr>logins := filter (\<lambda>r. \<not> (lg_id r = u \<and> due_at now r)) (logins s)\<rparr>"

record purge_report =
  pg_due :: nat
  pg_deleted :: nat
  pg_failed :: nat

definition purge_one :: "int \<Rightarrow> (string \<Rightarrow> bool) \<Rightarrow> string \<Rightarrow> purge_report \<Rightarrow> ('a auth_db_scheme, purge_report) act" where
  "purge_one now refuses u p = (if refuses u then ret (p\<lparr>pg_failed := pg_failed p + 1\<rparr>)
     else bnd (reading (\<lambda>s. length (filter (\<lambda>r. lg_id r = u \<and> due_at now r) (logins s)))) (\<lambda>n.
       andthen (writing (purge_account now u)) (ret (p\<lparr>pg_deleted := pg_deleted p + n\<rparr>))))"

definition purgeDueAccounts :: "int \<Rightarrow> nat \<Rightarrow> (string \<Rightarrow> bool) \<Rightarrow> ('a auth_db_scheme, purge_report) act" where
  "purgeDueAccounts now batchSize refuses = bnd (reading (due_accounts now batchSize)) (\<lambda>due.
     fold_act (purge_one now refuses) due \<lparr>pg_due = length due, pg_deleted = 0, pg_failed = 0\<rparr>)"

section \<open>Calls that interleave\<close>

text \<open>What a call has decided to write, with the values it has read.\<close>

datatype pending =
    Do_issue string string bool
  | Do_phone string string
  | Do_password string string string bool
  | Do_reset string string
  | Do_schedule string int int
  | Do_unschedule string

datatype request =
    Rq_otp call string "error + bool" string
  | Rq_login call string string bool
  | Rq_refresh int string
  | Rq_phone call string string "error + bool"
  | Rq_password string "string option" string string bool
  | Rq_reset int string string
  | Rq_delete string int
  | Rq_cancel string

definition decide :: "auth_env \<Rightarrow> request \<Rightarrow> ('a auth_db_scheme, pending option) act" where
  "decide E rq = (case rq of
       Rq_otp cx phone checked uuid \<Rightarrow> bnd (verifyOtp_check cx phone checked uuid) (\<lambda>r. ret (Some (Do_issue (lg_id r) (lg_phone r) False)))
     | Rq_login cx phone password rm \<Rightarrow> bnd (login_check E cx phone password) (\<lambda>r. ret (Some (Do_issue (lg_id r) (lg_phone r) rm)))
     | Rq_refresh now token \<Rightarrow> bnd (refresh_check E now token) (\<lambda>(r, rm). ret (Some (Do_issue (lg_id r) (lg_phone r) rm)))
     | Rq_phone cx u phone checked \<Rightarrow> bnd (phoneChange_check cx u phone checked) (\<lambda>r. ret (Some (Do_phone u phone)))
     | Rq_password u current new h rm \<Rightarrow> bnd (changePassword_check E u current new) (\<lambda>r. ret (Some (Do_password u h (lg_phone r) rm)))
     | Rq_reset now token h \<Rightarrow> bnd (resetPassword_check E now token) (\<lambda>r. ret (Some (Do_reset (lg_id r) h)))
     | Rq_delete u now \<Rightarrow> bnd (reading (find_login u)) (\<lambda>user. bnd (found user (NotFound ''User not found'')) (\<lambda>r.
         ret (if lg_scheduledFor r = None then Some (Do_schedule u now (deletion_time now r)) else None)))
     | Rq_cancel u \<Rightarrow> bnd (cancel_check u) (\<lambda>r. ret (Some (Do_unschedule u))))"

text \<open>What has happened to a user, the latest first.\<close>

datatype happening =
    Issued string string
  | Closed string
  | Password string string string
  | Scheduled string int int
  | Unscheduled string
  | Removed string

text \<open>The write of a pending call, the write it goes on to, and what it has done.\<close>

definition carry_out :: "auth_env \<Rightarrow> int \<Rightarrow> string \<Rightarrow> pending \<Rightarrow> ('a auth_db_scheme, pending option \<times> happening list) act" where
  "carry_out E now jti p = (case p of
       Do_issue u phone rm \<Rightarrow> bnd (issue E now jti u phone rm) (\<lambda>(_, refresh). ret (None, [Issued u refresh]))
     | Do_phone u phone \<Rightarrow> andthen (set_phone u phone) (ret (Some (Do_issue u phone False), []))
     | Do_password u h phone rm \<Rightarrow> bnd (reading (find_login u)) (\<lambda>r. andthen (store_password u h)
         (ret (Some (Do_issue u phone rm), [Closed u, Password u (password_text (Option.bind r lg_password)) h])))
     | Do_reset u h \<Rightarrow> bnd (reading (find_login u)) (\<lambda>r. andthen (store_reset u h)
         (ret (None, [Closed u, Password u (password_text (Option.bind r lg_password)) h])))
     | Do_schedule u at' until \<Rightarrow> andthen (schedule_deletion u at' until) (ret (None, [Closed u, Scheduled u at' until]))
     | Do_unschedule u \<Rightarrow> andthen (unschedule u) (ret (None, [Unscheduled u])))"

fun live_session :: "string \<Rightarrow> happening list \<Rightarrow> string option" where
  "live_session u [] = None"
| "live_session u (Issued v token # log) = (if v = u then Some token else live_session u log)"
| "live_session u (Closed v # log) = (if v = u then None else live_session u log)"
| "live_session u (Removed v # log) = (if v = u then None else live_session u log)"
| "live_session u (_ # log) = live_session u log"

fun request_of :: "string \<Rightarrow> happening list \<Rightarrow> (int \<times> int) option" where
  "request_of u [] = None"
| "request_of u (Scheduled v at' until # log) = (if v = u then Some (at', until) else request_of u log)"
| "request_of u (Unscheduled v # log) = (if v = u then None else request_of u log)"
| "request_of u (Removed v # log) = (if v = u then None else request_of u log)"
| "request_of u (_ # log) = request_of u log"

fun subject :: "happening \<Rightarrow> string" where
  "subject (Issued u _) = u"
| "subject (Closed u) = u"
| "subject (Password u _ _) = u"
| "subject (Scheduled u _ _) = u"
| "subject (Unscheduled u) = u"
| "subject (Removed u) = u"

text \<open>Every password hash seen so far; no password gives the empty text.\<close>

fun hashes_in :: "happening \<Rightarrow> string set" where
  "hashes_in (Password _ old new) = {old, new}"
| "hashes_in _ = {}"

definition known_hashes :: "happening list \<Rightarrow> 'a auth_db_scheme \<Rightarrow> string set" where
  "known_hashes log s = {[]} \<union> \<Union> (hashes_in ` set log) \<union> (\<lambda>r. password_text (lg_password r)) ` set (logins s)"

fun new_hashes :: "happening list \<Rightarrow> string list" where
  "new_hashes [] = []"
| "new_hashes (Password _ _ new # log) = new # new_hashes log"
| "new_hashes (_ # log) = new_hashes log"

definition request_ids :: "request \<Rightarrow> string list" where
  "request_ids rq = (case rq of Rq_otp _ _ _ uuid \<Rightarrow> [uuid] | _ \<Rightarrow> [])"

type_synonym 'a office = "pending list \<times> happening list \<times> 'a auth_db_scheme"

text \<open>
  A call decides, is refused, writes, fails in its write, or dies; a user signs out; the purge, or the
  super admin, deletes a user; an owner hires a staff member or gives one a new password or phone;
  counters and the staff table change in any way. A \<open>bcrypt\<close> hash has a fresh salt, and a uuid has
  not been used before.
\<close>

inductive auth_step :: "auth_env \<Rightarrow> 'a office \<Rightarrow> 'a office \<Rightarrow> bool" for E where
  decide_step: "decide E rq s = (Inr p, t) \<Longrightarrow> \<forall>i \<in> set (request_ids rq). i \<notin> subject ` set log \<Longrightarrow>
    auth_step E (ps, log, s) (ps @ (case p of None \<Rightarrow> [] | Some q \<Rightarrow> [q]), log, t)"
| refuse_step: "decide E rq s = (Inl e, t) \<Longrightarrow> auth_step E (ps, log, s) (ps, log, t)"
| write_step: "carry_out E now jti p s = (Inr (q, evs), t) \<Longrightarrow>
    \<forall>h \<in> set (new_hashes evs). h \<notin> known_hashes log s \<Longrightarrow>
    auth_step E (xs @ p # ys, log, s) (xs @ (case q of None \<Rightarrow> [] | Some q \<Rightarrow> [q]) @ ys, evs @ log, t)"
| fail_step: "carry_out E now jti p s = (Inl e, t) \<Longrightarrow> auth_step E (xs @ p # ys, log, s) (xs @ ys, log, t)"
| die_step: "auth_step E (xs @ p # ys, log, s) (xs @ ys, log, s)"
| logout_step: "logout u s = (Inr (), t) \<Longrightarrow> auth_step E (ps, log, s) (ps, Closed u # log, t)"
| purge_step: "r \<in> set (logins s) \<Longrightarrow> due_at now r \<Longrightarrow>
    auth_step E (ps, log, s) (ps, Removed (lg_id r) # log, purge_account now (lg_id r) s)"
| remove_step: "auth_step E (ps, log, s) (ps, Removed u # log, s\<lparr>logins := filter (\<lambda>r. lg_id r \<noteq> u) (logins s)\<rparr>)"
| hire_step: "i \<notin> lg_id ` set (logins s) \<Longrightarrow> i \<notin> subject ` set log \<Longrightarrow> phone \<notin> lg_phone ` set (logins s) \<Longrightarrow>
    h \<notin> known_hashes log s \<Longrightarrow> auth_step E (ps, log, s)
      (ps, log, s\<lparr>logins := logins s @ [(new_login i phone)\<lparr>lg_password := Some h, lg_onboarded := True\<rparr>]\<rparr>)"
| staff_step: "find_login u s = Some r \<Longrightarrow> \<forall>x \<in> set (logins s). lg_id x \<noteq> u \<longrightarrow> lg_phone x \<noteq> phone \<Longrightarrow>
    h \<notin> known_hashes log s \<Longrightarrow>
    auth_step E (ps, log, s) (ps, Password u (password_text (lg_password r)) h # log,
      edit_login u (\<lambda>r. r\<lparr>lg_phone := phone, lg_password := Some h\<rparr>) s)"
| profile_step: "\<forall>x \<in> set (logins s). lg_id x \<noteq> u \<longrightarrow> lg_phone x \<noteq> phone \<Longrightarrow>
    auth_step E (ps, log, s) (ps, log, edit_login u (\<lambda>r. r\<lparr>lg_phone := phone, lg_verified := v, lg_onboarded := b\<rparr>) s)"
| other_step: "logins t = logins s \<Longrightarrow> auth_step E (ps, log, s) (ps, log, t)"

inductive auth_reach :: "auth_env \<Rightarrow> 'a office \<Rightarrow> bool" for E where
  start: "logins s = [] \<Longrightarrow> auth_reach E ([], [], s)"
| step: "auth_reach E c \<Longrightarrow> auth_step E c d \<Longrightarrow> auth_reach E d"

section \<open>The invariant\<close>

text \<open>
  The row of a user agrees with what has happened to him: the stored hash is that of his current
  session, the deletion date is the one he asked for, and his password is none of his former ones.
\<close>

definition login_row_ok :: "auth_env \<Rightarrow> happening list \<Rightarrow> login_row \<Rightarrow> bool" where
  "login_row_ok E log r \<longleftrightarrow> lg_refresh r = map_option (ae_hash E) (live_session (lg_id r) log) \<and>
     lg_requestedAt r = map_option fst (request_of (lg_id r) log) \<and>
     lg_scheduledFor r = map_option snd (request_of (lg_id r) log) \<and>
     (\<forall>old new. Password (lg_id r) old new \<in> set log \<longrightarrow> password_text (lg_password r) \<noteq> old)"

definition grace_ms :: int where
  "grace_ms = ACCOUNT_DELETION_GRACE_DAYS * 24 * 60 * 60 * 1000"

definition login_keys :: "'a auth_db_scheme \<Rightarrow> bool" where
  "login_keys s \<longleftrightarrow> distinct (map lg_id (logins s)) \<and> distinct (map lg_phone (logins s))"

definition auth_ok :: "auth_env \<Rightarrow> 'a office \<Rightarrow> bool" where
  "auth_ok E c \<longleftrightarrow> (case c of (ps, log, s) \<Rightarrow> login_keys s \<and> (\<forall>r \<in> set (logins s). login_row_ok E log r) \<and>
     (\<forall>u a b. Scheduled u a b \<in> set log \<or> Do_schedule u a b \<in> set ps \<longrightarrow> b = a + grace_ms))"

lemma other_subject:
  assumes "\<forall>e \<in> set evs. subject e \<noteq> u"
  shows "live_session u (evs @ log) = live_session u log" "request_of u (evs @ log) = request_of u log"
    "Password u old new \<in> set (evs @ log) \<longleftrightarrow> Password u old new \<in> set log"
proof -
  have "live_session u (evs @ log) = live_session u log \<and> request_of u (evs @ log) = request_of u log" using assms
  proof (induction evs)
    case (Cons e evs) then show ?case by (cases e) auto
  qed simp
  then show "live_session u (evs @ log) = live_session u log" "request_of u (evs @ log) = request_of u log" by simp_all
  show "Password u old new \<in> set (evs @ log) \<longleftrightarrow> Password u old new \<in> set log" using assms by force
qed

lemma row_other: "login_row_ok E log r \<Longrightarrow> \<forall>e \<in> set evs. subject e \<noteq> lg_id r \<Longrightarrow> login_row_ok E (evs @ log) r"
  using other_subject[of evs "lg_id r", where log = log] by (simp add: login_row_ok_def)

lemma unknown_subject:
  assumes "u \<notin> subject ` set log"
  shows "live_session u log = None" "request_of u log = None" "Password u old new \<notin> set log"
  using other_subject(1,2)[of log u "[]"] assms by (auto simp: image_iff)

lemma find_login_row: "find_login u s = Some r \<Longrightarrow> r \<in> set (logins s) \<and> lg_id r = u"
  unfolding find_login_def by (drule find_Some_set) auto

lemma login_row_find: "login_keys s \<Longrightarrow> r \<in> set (logins s) \<Longrightarrow> find_login (lg_id r) s = Some r"
  by (simp add: find_login_def login_keys_def find_id)

lemma same_login: "login_keys s \<Longrightarrow> r \<in> set (logins s) \<Longrightarrow> q \<in> set (logins s) \<Longrightarrow> lg_id q = lg_id r \<Longrightarrow> q = r"
  unfolding login_keys_def by (meson distinct_map inj_onD)

lemma update_login_run:
  "update_login u f s = (if find_login u s = None then (Inl (Internal ''Record to update not found''), s)
     else (Inr (), edit_login u f s))"
  by (simp add: update_login_def act_defs require_def)

lemma edit_sel [simp]:
  "logins (edit_login u f s) = map (\<lambda>r. if lg_id r = u then f r else r) (logins s)"
  by (simp add: edit_login_def)

lemma find_edited:
  assumes "\<And>x. lg_id (f x) = lg_id x"
  shows "find_login v (edit_login u f s) = map_option (\<lambda>x. if lg_id x = u then f x else x) (find_login v s)"
proof -
  have "find (\<lambda>x. lg_id x = v) (map (\<lambda>x. if lg_id x = u then f x else x) rs) =
      map_option (\<lambda>x. if lg_id x = u then f x else x) (find (\<lambda>x. lg_id x = v) rs)" for rs
    using assms by (induction rs) auto
  then show ?thesis by (simp add: find_login_def)
qed

lemma edit_keys:
  assumes "login_keys s" "\<And>r. lg_id (f r) = lg_id r"
    and "\<And>r q. r \<in> set (logins s) \<Longrightarrow> q \<in> set (logins s) \<Longrightarrow> lg_id r = u \<Longrightarrow> lg_id q \<noteq> u \<Longrightarrow> lg_phone (f r) \<noteq> lg_phone q"
  shows "login_keys (edit_login u f s)"
proof -
  let ?g = "\<lambda>r. if lg_id r = u then f r else r"
  have ids: "lg_id \<circ> ?g = lg_id" using assms(2) by auto
  have "inj_on (lg_phone \<circ> ?g) (set (logins s))"
  proof (rule inj_onI)
    fix r q assume rq: "r \<in> set (logins s)" "q \<in> set (logins s)" and eq: "(lg_phone \<circ> ?g) r = (lg_phone \<circ> ?g) q"
    show "r = q"
    proof (cases "lg_id r = u \<longleftrightarrow> lg_id q = u")
      case True
      show ?thesis
      proof (cases "lg_id r = u")
        case True
        then show ?thesis using \<open>lg_id r = u \<longleftrightarrow> lg_id q = u\<close> same_login[OF assms(1) rq(2,1)] by simp
      next
        case False
        then have "lg_phone r = lg_phone q" using eq \<open>lg_id r = u \<longleftrightarrow> lg_id q = u\<close> by simp
        then show ?thesis using rq assms(1) unfolding login_keys_def by (meson distinct_map inj_onD)
      qed
    next
      case False
      then show ?thesis using eq assms(3)[OF rq] assms(3)[OF rq(2,1)] by (auto split: if_splits)
    qed
  qed
  then show ?thesis using assms(1) by (simp add: login_keys_def ids distinct_map)
qed

lemma auth_edit:
  assumes ok: "auth_ok E (ps, log, s)" and evs: "\<forall>e \<in> set evs. subject e = u"
    and keys: "login_keys (edit_login u f s)"
    and row: "\<And>r. r \<in> set (logins s) \<Longrightarrow> lg_id r = u \<Longrightarrow> login_row_ok E log r \<Longrightarrow> login_row_ok E (evs @ log) (f r)"
    and grace: "\<And>a b. Scheduled u a b \<in> set evs \<Longrightarrow> b = a + grace_ms"
    and ps': "\<And>u a b. Do_schedule u a b \<in> set ps' \<Longrightarrow> Do_schedule u a b \<in> set ps"
  shows "auth_ok E (ps', evs @ log, edit_login u f s)"
proof -
  have "login_row_ok E (evs @ log) (if lg_id r = u then f r else r)" if r: "r \<in> set (logins s)" for r
  proof (cases "lg_id r = u")
    case True then show ?thesis using row r ok by (simp add: auth_ok_def)
  next
    case False
    then have "\<forall>e \<in> set evs. subject e \<noteq> lg_id r" using evs by auto
    then show ?thesis using row_other[of E log r evs] r ok False by (simp add: auth_ok_def)
  qed
  then have "\<forall>r \<in> set (logins (edit_login u f s)). login_row_ok E (evs @ log) r" unfolding edit_sel set_map by blast
  moreover have "b = a + grace_ms" if "Scheduled v a b \<in> set (evs @ log) \<or> Do_schedule v a b \<in> set ps'" for v a b
  proof -
    from that consider "Scheduled v a b \<in> set evs" | "Scheduled v a b \<in> set log" | "Do_schedule v a b \<in> set ps'" by auto
    then show ?thesis
    proof cases
      case 1 then show ?thesis using evs grace by force
    next
      case 2 then show ?thesis using ok by (simp add: auth_ok_def)
    next
      case 3 then show ?thesis using ok ps'[OF 3] by (simp add: auth_ok_def)
    qed
  qed
  ultimately show ?thesis using keys unfolding auth_ok_def prod.case by blast
qed

lemma auth_drop:
  assumes ok: "auth_ok E (ps, log, s)" and t: "logins t = filter P (logins s)" and evs: "\<And>r. r \<in> set (logins t) \<Longrightarrow> u \<noteq> lg_id r"
  shows "auth_ok E (ps, Removed u # log, t)"
proof -
  have "login_row_ok E ([Removed u] @ log) r" if r: "r \<in> set (logins t)" for r
    by (rule row_other) (use ok t r evs in \<open>auto simp: auth_ok_def\<close>)
  then show ?thesis using ok t by (auto simp: auth_ok_def login_keys_def distinct_map_filter)
qed

lemma auth_same: "auth_ok E (ps, log, s) \<Longrightarrow> logins t = logins s \<Longrightarrow> set ps' \<subseteq> set ps \<Longrightarrow> auth_ok E (ps', log, t)"
  by (auto simp: auth_ok_def login_keys_def)

lemma auth_add:
  assumes ok: "auth_ok E (ps, log, s)" and t: "logins t = logins s @ [r]"
    and r: "lg_id r \<notin> lg_id ` set (logins s)" "lg_phone r \<notin> lg_phone ` set (logins s)" "lg_id r \<notin> subject ` set log"
      "lg_refresh r = None" "lg_requestedAt r = None" "lg_scheduledFor r = None"
  shows "auth_ok E (ps, log, t)"
proof -
  have "login_row_ok E log r" using unknown_subject[OF r(3)] r(4-6) by (simp add: login_row_ok_def)
  then show ?thesis using ok t r(1,2) by (auto simp: auth_ok_def login_keys_def)
qed

section \<open>Deciding\<close>

text \<open>A decision leaves the users as they are, or adds a new one.\<close>

definition same_logins :: "'a auth_db_scheme \<Rightarrow> 'a auth_db_scheme \<Rightarrow> bool" where
  "same_logins s t \<longleftrightarrow> logins t = logins s"

lemma rate_frame:
  fixes s :: "'a auth_db_scheme"
  shows "logins (snd (rate_assert ready sweep now key n w m s)) = logins s \<and>
    members (snd (rate_assert ready sweep now key n w m s)) = members s"
proof -
  have sel: "logins (upsert_bucket a b c t) = logins t" "logins (sweep_buckets a t) = logins t" "logins (redis_put k t) = logins t"
    "members (upsert_bucket a b c t) = members t" "members (sweep_buckets a t) = members t" "members (redis_put k t) = members t"
    for a b c k and t :: "'a auth_db_scheme"
    by (simp_all add: upsert_bucket_def sweep_buckets_def redis_put_def)
  have "preserves (\<lambda>t :: 'a auth_db_scheme. logins t = logins s \<and> members t = members s) (rate_hit ready sweep now key w)"
    by (rule preservesI) (auto simp: rate_hit_def hitRedis_def hit_database_run redis_incr_def redis_expire_def act_defs Let_def
        sel split: option.split)
  then have "preserves (\<lambda>t :: 'a auth_db_scheme. logins t = logins s \<and> members t = members s) (rate_assert ready sweep now key n w m)"
    unfolding rate_assert_def by (intro preserving)
  from preserves_step[OF this] show ?thesis by (cases "rate_assert ready sweep now key n w m s") auto
qed

lemma rate_logins: "preserves (same_logins s) (rate_assert ready sweep now key n w m)"
  by (rule preservesI) (simp add: rate_frame same_logins_def)

lemma guard_same [preserving]: "preserves (same_logins s) (guard_rate cx key n w m)"
  unfolding guard_rate_def by (rule rate_logins)

lemma decide_same:
  assumes "\<And>cx phone checked uuid. rq \<noteq> Rq_otp cx phone checked uuid" shows "preserves (same_logins s) (decide E rq)"
proof (cases rq)
  case (Rq_login cx phone password rm)
  then show ?thesis unfolding decide_def login_check_def by (auto intro!: preserving)
next
  case (Rq_refresh now token)
  then show ?thesis unfolding decide_def refresh_check_def by (auto intro!: preserving split: prod.split)
next
  case (Rq_phone cx u phone checked)
  then show ?thesis unfolding decide_def phoneChange_check_def by (auto intro!: preserving)
next
  case (Rq_password u current new h rm)
  then show ?thesis unfolding decide_def changePassword_check_def by (auto intro!: preserving split: option.split)
next
  case (Rq_reset now token h)
  then show ?thesis unfolding decide_def resetPassword_check_def by (auto intro!: preserving)
next
  case (Rq_delete u now)
  then show ?thesis unfolding decide_def by (auto intro!: preserving)
next
  case (Rq_cancel u)
  then show ?thesis unfolding decide_def cancel_check_def by (auto intro!: preserving)
qed (use assms in auto)

definition adds_login :: "string list \<Rightarrow> 'a auth_db_scheme \<Rightarrow> 'a auth_db_scheme \<Rightarrow> bool" where
  "adds_login ids s t \<longleftrightarrow> same_logins s t \<or> (\<exists>i phone. logins t = logins s @ [new_login i phone] \<and> i \<in> set ids \<and>
     i \<notin> lg_id ` set (logins s) \<and> phone \<notin> lg_phone ` set (logins s))"

lemma create_login_adds:
  assumes "same_logins s t" shows "adds_login [i] s (snd (create_login i phone t))"
  using assms by (auto simp: create_login_def act_defs require_def adds_login_def same_logins_def list_ex_iff)

lemma otp_adds: "adds_login [uuid] s (snd (verifyOtp_check cx phone checked uuid s))"
proof -
  obtain r t where g: "guard_rate cx (''auth:otp:verify:'' @ phone) 5 600
      ''Too many OTP verification attempts. Please request a new OTP later.'' s = (r, t)" by fastforce
  have same: "same_logins s t" by (rule preserves_step[OF guard_same g]) (simp add: same_logins_def)
  then have "adds_login [uuid] s t" by (simp add: adds_login_def)
  then show ?thesis using g create_login_adds[OF same, of uuid phone] unfolding verifyOtp_check_def
    by (cases r; cases checked) (auto simp: andthen_def bnd_def lift_sum_def reading_def require_def ret_def throw_def split: option.split)
qed

lemma decide_adds:
  assumes "decide E rq s = (r, t)" shows "adds_login (request_ids rq) s t"
proof (cases "\<exists>cx phone checked uuid. rq = Rq_otp cx phone checked uuid")
  case True
  then obtain cx phone checked uuid where rq: "rq = Rq_otp cx phone checked uuid" by blast
  then have "t = snd (verifyOtp_check cx phone checked uuid s)" using assms
    by (auto simp: decide_def bnd_def ret_def split: prod.splits sum.splits)
  then show ?thesis using otp_adds rq by (simp add: request_ids_def)
next
  case False
  then have "same_logins s t" using preserves_step[OF decide_same assms] by (auto simp: same_logins_def)
  then show ?thesis by (simp add: adds_login_def)
qed

lemma decide_grace:
  assumes "decide E rq s = (Inr (Some (Do_schedule u a b)), t)" shows "b = a + grace_ms"
  using assms by (cases rq) (auto simp: decide_def run_ok deletion_time_def grace_ms_def split: if_splits option.splits prod.splits)

section \<open>Writing\<close>

lemma edit_keys_same:
  assumes "login_keys s" "\<And>r. lg_id (f r) = lg_id r" "\<And>r. lg_phone (f r) = lg_phone r"
  shows "login_keys (edit_login u f s)"
proof -
  have "lg_id \<circ> (\<lambda>r. if lg_id r = u then f r else r) = lg_id" "lg_phone \<circ> (\<lambda>r. if lg_id r = u then f r else r) = lg_phone"
    using assms(2,3) by auto
  then show ?thesis using assms(1) by (simp add: login_keys_def)
qed

lemma fresh_past:
  assumes "h \<notin> known_hashes log s" "r \<in> set (logins s)" "Password u old new \<in> set (Password v (password_text (lg_password r)) h # log)"
  shows "h \<noteq> old"
  using assms by (force simp: known_hashes_def)

lemma found_password: "find_login u s = Some r \<Longrightarrow> Option.bind (find_login u s) lg_password = lg_password r"
  by simp

lemma auth_password:
  assumes ok: "auth_ok E (ps, log, s)" and r: "find_login u s = Some r" and new: "h \<notin> known_hashes log s"
    and keys: "login_keys (edit_login u f s)"
    and f: "\<And>r. lg_id (f r) = lg_id r \<and> lg_password (f r) = Some h \<and> lg_requestedAt (f r) = lg_requestedAt r \<and>
      lg_scheduledFor (f r) = lg_scheduledFor r"
    and pre: "pre = [] \<and> (\<forall>r. lg_refresh (f r) = lg_refresh r) \<or> pre = [Closed u] \<and> (\<forall>r. lg_refresh (f r) = None)"
    and ps': "\<And>u a b. Do_schedule u a b \<in> set ps' \<Longrightarrow> Do_schedule u a b \<in> set ps"
  shows "auth_ok E (ps', (pre @ [Password u (password_text (lg_password r)) h]) @ log, edit_login u f s)"
proof (rule auth_edit[OF ok _ keys])
  show "\<forall>e \<in> set (pre @ [Password u (password_text (lg_password r)) h]). subject e = u" using pre by auto
  fix x assume x: "x \<in> set (logins s)" "lg_id x = u" "login_row_ok E log x"
  have past: "h \<noteq> old" if "Password u old n \<in> set (Password u (password_text (lg_password r)) h # log)" for old n
    using fresh_past[OF new _ that] find_login_row[OF r] by blast
  show "login_row_ok E ((pre @ [Password u (password_text (lg_password r)) h]) @ log) (f x)"
    using pre x f past by (auto simp: login_row_ok_def password_text_def)
qed (use pre ps' in auto)

lemma auth_write:
  assumes ok: "auth_ok E (xs @ p # ys, log, s)" and run: "carry_out E now jti p s = (Inr (q, evs), t)"
    and fresh: "\<forall>h \<in> set (new_hashes evs). h \<notin> known_hashes log s"
  shows "auth_ok E (xs @ (case q of None \<Rightarrow> [] | Some q \<Rightarrow> [q]) @ ys, evs @ log, t)"
proof -
  have keys: "login_keys s" using ok by (simp add: auth_ok_def)
  let ?ps = "xs @ (case q of None \<Rightarrow> [] | Some q \<Rightarrow> [q]) @ ys"
  show ?thesis
  proof (cases p)
    case (Do_issue u phone rm)
    let ?h = "ae_sign E (refresh_claims now u phone rm jti)" let ?f = "\<lambda>r. r\<lparr>lg_refresh := Some (ae_hash E ?h)\<rparr>"
    have w: "q = None" "evs = [Issued u ?h]" "t = edit_login u ?f s"
      using run Do_issue by (auto simp: carry_out_def issue_def Let_def andthen_def bnd_def ret_def update_login_run split: if_splits)
    have "auth_ok E (?ps, [Issued u ?h] @ log, edit_login u ?f s)"
      by (rule auth_edit[OF ok]) (auto simp: w login_row_ok_def intro!: edit_keys_same[OF keys])
    then show ?thesis by (simp add: w)
  next
    case (Do_phone u phone)
    let ?f = "\<lambda>r. r\<lparr>lg_phone := phone, lg_verified := True\<rparr>"
    have w: "q = Some (Do_issue u phone False)" "evs = []" "t = edit_login u ?f s" "\<forall>r \<in> set (logins s). lg_id r \<noteq> u \<longrightarrow> lg_phone r \<noteq> phone"
      using run Do_phone by (auto simp: carry_out_def set_phone_def andthen_def bnd_def reading_def require_def throw_def ret_def
          update_login_run list_ex_iff split: if_splits)
    have "auth_ok E (?ps, [] @ log, edit_login u ?f s)"
      by (rule auth_edit[OF ok]) (use w(4) in \<open>auto simp: w(1) login_row_ok_def intro!: edit_keys[OF keys]\<close>)
    then show ?thesis by (simp add: w)
  next
    case (Do_password u h phone rm)
    let ?f = "\<lambda>r. r\<lparr>lg_password := Some h, lg_refresh := None\<rparr>"
    obtain r where r: "find_login u s = Some r"
      using run Do_password by (cases "find_login u s")
        (auto simp: carry_out_def store_password_def andthen_def bnd_def reading_def ret_def update_login_run)
    have w: "q = Some (Do_issue u phone rm)" "evs = [Closed u] @ [Password u (password_text (lg_password r)) h]" "t = edit_login u ?f s"
      using run Do_password r by (auto simp: carry_out_def store_password_def andthen_def bnd_def reading_def ret_def update_login_run)
    have new: "h \<notin> known_hashes log s" using fresh w by simp
    have "auth_ok E (?ps, ([Closed u] @ [Password u (password_text (lg_password r)) h]) @ log, edit_login u ?f s)"
      by (rule auth_password[OF ok r new]) (auto simp: w(1) intro!: edit_keys_same[OF keys])
    then show ?thesis by (simp add: w)
  next
    case (Do_reset u h)
    let ?f = "\<lambda>r. r\<lparr>lg_password := Some h, lg_refresh := None, lg_verified := True\<rparr>"
    obtain r where r: "find_login u s = Some r"
      using run Do_reset by (cases "find_login u s")
        (auto simp: carry_out_def store_reset_def andthen_def bnd_def reading_def ret_def update_login_run)
    have w: "q = None" "evs = [Closed u] @ [Password u (password_text (lg_password r)) h]" "t = edit_login u ?f s"
      using run Do_reset r by (auto simp: carry_out_def store_reset_def andthen_def bnd_def reading_def ret_def update_login_run)
    have new: "h \<notin> known_hashes log s" using fresh w by simp
    have "auth_ok E (?ps, ([Closed u] @ [Password u (password_text (lg_password r)) h]) @ log, edit_login u ?f s)"
      by (rule auth_password[OF ok r new]) (auto simp: w(1) intro!: edit_keys_same[OF keys])
    then show ?thesis by (simp add: w)
  next
    case (Do_schedule u a b)
    let ?f = "\<lambda>r. r\<lparr>lg_requestedAt := Some a, lg_scheduledFor := Some b, lg_refresh := None\<rparr>"
    have w: "q = None" "evs = [Closed u, Scheduled u a b]" "t = edit_login u ?f s"
      using run Do_schedule by (auto simp: carry_out_def schedule_deletion_def andthen_def bnd_def ret_def update_login_run split: if_splits)
    have "b = a + grace_ms" using ok Do_schedule by (auto simp: auth_ok_def)
    then have "auth_ok E (?ps, [Closed u, Scheduled u a b] @ log, edit_login u ?f s)"
      by (intro auth_edit[OF ok]) (auto simp: w login_row_ok_def intro!: edit_keys_same[OF keys])
    then show ?thesis by (simp add: w)
  next
    case (Do_unschedule u)
    let ?f = "\<lambda>r. r\<lparr>lg_requestedAt := None, lg_scheduledFor := None\<rparr>"
    have w: "q = None" "evs = [Unscheduled u]" "t = edit_login u ?f s"
      using run Do_unschedule by (auto simp: carry_out_def unschedule_def andthen_def bnd_def ret_def update_login_run split: if_splits)
    have "auth_ok E (?ps, [Unscheduled u] @ log, edit_login u ?f s)"
      by (rule auth_edit[OF ok]) (auto simp: w login_row_ok_def intro!: edit_keys_same[OF keys])
    then show ?thesis by (simp add: w)
  qed
qed

lemma carry_out_fails: "carry_out E now jti p s = (Inl e, t) \<Longrightarrow> t = s"
  by (cases p) (auto simp: carry_out_def issue_def set_phone_def store_password_def store_reset_def schedule_deletion_def
      unschedule_def Let_def andthen_def bnd_def reading_def require_def throw_def ret_def update_login_run split: if_splits)

lemma otp_refuses:
  assumes "verifyOtp_check cx phone checked uuid s = (Inl e, t)" shows "same_logins s t"
proof -
  obtain r u where g: "guard_rate cx (''auth:otp:verify:'' @ phone) 5 600
      ''Too many OTP verification attempts. Please request a new OTP later.'' s = (r, u)" by fastforce
  have same: "same_logins s u" by (rule preserves_step[OF guard_same g]) (simp add: same_logins_def)
  have "t = u" using assms g unfolding verifyOtp_check_def create_login_def
    by (cases r; cases checked) (auto simp: andthen_def bnd_def lift_sum_def reading_def require_def ret_def throw_def writing_def
      split: option.splits if_splits)
  then show ?thesis using same by simp
qed

lemma decide_refuses:
  assumes "decide E rq s = (Inl e, t)" shows "same_logins s t"
proof (cases "\<exists>cx phone checked uuid. rq = Rq_otp cx phone checked uuid")
  case True
  then obtain cx phone checked uuid where rq: "rq = Rq_otp cx phone checked uuid" by blast
  then have "verifyOtp_check cx phone checked uuid s = (Inl e, t)" using assms
    by (auto simp: decide_def bnd_def ret_def split: prod.splits sum.splits)
  then show ?thesis by (rule otp_refuses)
next
  case False
  then show ?thesis using preserves_step[OF decide_same assms] by (auto simp: same_logins_def)
qed

lemma auth_step_ok:
  assumes "auth_step E c d" "auth_ok E c" shows "auth_ok E d"
  using assms
proof cases
  case (decide_step rq s p t log ps)
  have ok: "auth_ok E (ps, log, s)" using assms(2) decide_step(1) by simp
  have "auth_ok E (ps, log, t)"
    using decide_adds[OF decide_step(3)] unfolding adds_login_def
  proof
    assume "same_logins s t" then show ?thesis by (intro auth_same[OF ok]) (simp_all add: same_logins_def)
  next
    assume "\<exists>i phone. logins t = logins s @ [new_login i phone] \<and> i \<in> set (request_ids rq) \<and>
      i \<notin> lg_id ` set (logins s) \<and> phone \<notin> lg_phone ` set (logins s)"
    then obtain i phone where n: "logins t = logins s @ [new_login i phone]" "i \<in> set (request_ids rq)"
      "i \<notin> lg_id ` set (logins s)" "phone \<notin> lg_phone ` set (logins s)" by blast
    show ?thesis by (rule auth_add[OF ok n(1)]) (use n decide_step(4) in \<open>simp_all add: new_login_def\<close>)
  qed
  moreover have "b = a + grace_ms" if "p = Some (Do_schedule u a b)" for u a b using decide_grace decide_step(3) that by blast
  ultimately show ?thesis unfolding decide_step(2) by (cases p) (auto simp: auth_ok_def)
next
  case (refuse_step rq s e t ps log)
  have ok: "auth_ok E (ps, log, s)" using assms(2) refuse_step(1) by simp
  show ?thesis unfolding refuse_step(2) using decide_refuses[OF refuse_step(3)]
    by (intro auth_same[OF ok]) (simp_all add: same_logins_def)
next
  case (write_step now jti p s q evs t log xs ys)
  then show ?thesis using auth_write assms(2) by blast
next
  case (fail_step now jti p s e t xs ys log)
  have ok: "auth_ok E (xs @ p # ys, log, s)" using assms(2) fail_step(1) by simp
  show ?thesis unfolding fail_step(2) by (rule auth_same[OF ok]) (use carry_out_fails[OF fail_step(3)] in auto)
next
  case (die_step xs p ys log s)
  have ok: "auth_ok E (xs @ p # ys, log, s)" using assms(2) die_step(1) by simp
  show ?thesis unfolding die_step(2) by (rule auth_same[OF ok]) auto
next
  case (logout_step u s t ps log)
  have ok: "auth_ok E (ps, log, s)" using assms(2) logout_step(1) by simp
  have t: "t = edit_login u (\<lambda>r. r\<lparr>lg_refresh := None\<rparr>) s" using logout_step(3) by (simp add: logout_def writing_def)
  have "auth_ok E (ps, [Closed u] @ log, t)" unfolding t
    by (rule auth_edit[OF ok]) (use ok in \<open>auto simp: login_row_ok_def auth_ok_def intro!: edit_keys_same\<close>)
  then show ?thesis by (simp add: logout_step(2))
next
  case (purge_step r s now ps log)
  have ok: "auth_ok E (ps, log, s)" using assms(2) purge_step(1) by simp
  have "x = r" if "x \<in> set (logins s)" "lg_id x = lg_id r" for x
    by (rule same_login[OF _ purge_step(3) that]) (use ok in \<open>simp add: auth_ok_def\<close>)
  then have "lg_id r \<noteq> lg_id x" if "x \<in> set (logins (purge_account now (lg_id r) s))" for x
    using that purge_step(4) by (auto simp: purge_account_def)
  then show ?thesis unfolding purge_step(2)
    by (intro auth_drop[OF ok, where P = "\<lambda>x. \<not> (lg_id x = lg_id r \<and> due_at now x)"]) (simp_all add: purge_account_def)
next
  case (remove_step ps log s u)
  have ok: "auth_ok E (ps, log, s)" using assms(2) remove_step(1) by simp
  show ?thesis unfolding remove_step(2) by (rule auth_drop[OF ok]) auto
next
  case (hire_step i s log phone h ps)
  have ok: "auth_ok E (ps, log, s)" using assms(2) hire_step(1) by simp
  show ?thesis unfolding hire_step(2) 
    by (rule auth_add[OF ok, where r = "(new_login i phone)\<lparr>lg_password := Some h, lg_onboarded := True\<rparr>"])
      (use hire_step in \<open>simp_all add: new_login_def\<close>)
next
  case (staff_step u s r phone h log ps)
  have ok: "auth_ok E (ps, log, s)" using assms(2) staff_step(1) by simp
  have "login_keys (edit_login u (\<lambda>r. r\<lparr>lg_phone := phone, lg_password := Some h\<rparr>) s)"
    by (rule edit_keys) (use ok staff_step(4) in \<open>auto simp: auth_ok_def\<close>)
  from auth_password[OF ok staff_step(3,5) this, of "[]" ps] show ?thesis unfolding staff_step(2) by simp
next
  case (profile_step s u phone ps log b v)
  let ?f = "\<lambda>r. r\<lparr>lg_phone := phone, lg_verified := v, lg_onboarded := b\<rparr>"
  have ok: "auth_ok E (ps, log, s)" using assms(2) profile_step(1) by simp
  have "login_keys (edit_login u ?f s)"
    by (rule edit_keys) (use ok profile_step(3) in \<open>auto simp: auth_ok_def\<close>)
  then have "auth_ok E (ps, [] @ log, edit_login u ?f s)"
    by (rule auth_edit[OF ok, rotated]) (simp_all add: login_row_ok_def)
  then show ?thesis by (simp add: profile_step(2))
next
  case (other_step t s ps log)
  have ok: "auth_ok E (ps, log, s)" using assms(2) other_step(1) by simp
  show ?thesis unfolding other_step(2) by (rule auth_same[OF ok]) (use other_step in simp_all)
qed

lemma auth_reach_ok: "auth_reach E c \<Longrightarrow> auth_ok E c"
proof (induction rule: auth_reach.induct)
  case (start s) then show ?case by (simp add: auth_ok_def login_keys_def)
next
  case (step c d) then show ?case using auth_step_ok by blast
qed


section \<open>Sessions\<close>

lemma reach_row: "auth_reach E (ps, log, s) \<Longrightarrow> find_login u s = Some r \<Longrightarrow> login_row_ok E log r \<and> lg_id r = u \<and> r \<in> set (logins s)"
  using auth_reach_ok[of E "(ps, log, s)"] find_login_row[of u s r] by (auto simp: auth_ok_def)

lemma session_issued: "live_session u log = Some token \<Longrightarrow> Issued u token \<in> set log"
proof (induction log)
  case (Cons e log) then show ?case by (cases e) (auto split: if_splits)
qed simp

lemma refresh_run:
  "refresh_check E now token s = (case ae_verify E now token of None \<Rightarrow> (Inl (Unauthorized ''Access Denied''), s)
     | Some c \<Rightarrow> (case find_login (cl_sub c) s of None \<Rightarrow> (Inl (Unauthorized ''Access Denied''), s)
       | Some r \<Rightarrow> if cl_type c = ''refresh'' \<and> lg_refresh r \<notin> {None, Some []} \<and> lg_refresh r = Some (ae_hash E token)
           then (Inr (r, cl_rm c), s) else (Inl (Unauthorized ''Access Denied''), s)))"
  by (cases "ae_verify E now token")
    (auto simp: refresh_check_def act_defs require_def found_def refreshTokenMatches_def split: option.split)

text \<open>What the token service promises: a verified, unexpired refresh token that is the user's current one.\<close>

definition holds_session :: "auth_env \<Rightarrow> int \<Rightarrow> happening list \<Rightarrow> 'a auth_db_scheme \<Rightarrow> string \<Rightarrow> bool" where
  "holds_session E now log s token \<longleftrightarrow> (case ae_verify E now token of None \<Rightarrow> False
     | Some c \<Rightarrow> cl_type c = ''refresh'' \<and> find_login (cl_sub c) s \<noteq> None \<and> live_session (cl_sub c) log = Some token)"


section \<open>The purge\<close>

lemma request_scheduled: "request_of u log = Some (a, b) \<Longrightarrow> Scheduled u a b \<in> set log"
proof (induction log)
  case (Cons e log) then show ?case by (cases e) (auto split: if_splits)
qed simp

definition spared :: "int \<Rightarrow> (string \<Rightarrow> bool) \<Rightarrow> string list \<Rightarrow> login_row \<Rightarrow> bool" where
  "spared now refuses us r \<longleftrightarrow> \<not> (lg_id r \<in> set us \<and> \<not> refuses (lg_id r) \<and> due_at now r)"

lemma spared_cons:
  "filter (spared now refuses (u # us)) rs =
     filter (spared now refuses us) (filter (\<lambda>r. refuses u \<or> \<not> (lg_id r = u \<and> due_at now r)) rs)"
  by (induction rs) (auto simp: spared_def)

lemma purge_fold:
  "\<exists>q. fold_act (purge_one now refuses) us p s = (Inr q, s\<lparr>logins := filter (spared now refuses us) (logins s)\<rparr>) \<and>
     pg_due q = pg_due p \<and> pg_failed q = pg_failed p + length (filter refuses us) \<and>
     pg_deleted q + length (filter (spared now refuses us) (logins s)) = pg_deleted p + length (logins s)"
proof (induction us arbitrary: p s)
  case Nil
  have "filter (spared now refuses []) rs = rs" for rs by (simp add: spared_def)
  then show ?case by (simp add: ret_def)
next
  case (Cons u us)
  show ?case
  proof (cases "refuses u")
    case True
    then show ?thesis using Cons[of "p\<lparr>pg_failed := pg_failed p + 1\<rparr>" s]
      by (auto simp: purge_one_def bnd_def ret_def spared_cons)
  next
    case False
    let ?t = "purge_account now u s" and ?n = "length (filter (\<lambda>r. lg_id r = u \<and> due_at now r) (logins s))"
    have n: "?n + length (logins ?t) = length (logins s)"
      using sum_length_filter_compl[of "\<lambda>r. lg_id r = u \<and> due_at now r" "logins s"] by (simp add: purge_account_def)
    show ?thesis using Cons[of "p\<lparr>pg_deleted := pg_deleted p + ?n\<rparr>" ?t] n False
      by (auto simp: purge_one_def act_defs spared_cons purge_account_def)
  qed
qed

lemma due_accounts_due: "u \<in> set (due_accounts now n s) \<Longrightarrow> \<exists>r \<in> set (logins s). lg_id r = u \<and> due_at now r"
  by (auto simp: due_accounts_def dest!: in_set_takeD)


section \<open>Password resets\<close>

text \<open>
  C34: A reset token works for one password only. Once the password it was made for has been replaced,
  by a reset, a change or the store owner, \<open>resetPassword\<close> refuses every token made for it and writes
  nothing, whatever has happened since. The fingerprint is assumed to tell the hashes seen apart.
\<close>

theorem reset_token_spent:
  assumes "auth_reach E (ps, log, s)" "Password u old new \<in> set log"
    and "inj_on (ae_hmac E) (known_hashes log s)"
    and "ae_verify E now token = Some c" "cl_sub c = u" "cl_pwv c = Some (passwordFingerprint E (Some old))"
  shows "resetPassword E now token h s = (Inl INVALID_LINK, s)"
proof (cases "find_login u s")
  case None
  then show ?thesis using assms(4,5) by (auto simp: resetPassword_def resetPassword_check_def act_defs require_def found_def)
next
  case (Some r)
  have row: "login_row_ok E log r" "lg_id r = u" "r \<in> set (logins s)" using reach_row[OF assms(1) Some] by simp_all
  have "password_text (lg_password r) \<noteq> old" using row assms(2) by (auto simp: login_row_ok_def)
  moreover have "old \<in> known_hashes log s" "password_text (lg_password r) \<in> known_hashes log s"
    using assms(2) row(3) by (force simp: known_hashes_def)+
  ultimately have "ae_hmac E (password_text (lg_password r)) \<noteq> ae_hmac E old" using inj_onD[OF assms(3)] by blast
  then have "passwordFingerprint E (lg_password r) \<noteq> passwordFingerprint E (Some old)"
    by (simp add: passwordFingerprint_def password_text_def)
  then show ?thesis using assms(4-6) Some
    by (auto simp: resetPassword_def resetPassword_check_def act_defs require_def found_def)
qed

text \<open>The token a verified code gives opens the reset while the password is the one it was made for.\<close>

lemma reset_token_opens:
  assumes "ae_verify E later (ae_sign E (reset_claims E now r)) = Some (reset_claims E now r)" "ae_hmac E (password_text (lg_password r)) \<noteq> []"
    and "find_login (lg_id r) s = Some q" "lg_password q = lg_password r"
  shows "resetPassword E later (ae_sign E (reset_claims E now r)) h s =
    (Inr (), edit_login (lg_id r) (\<lambda>x. x\<lparr>lg_password := Some h, lg_refresh := None, lg_verified := True\<rparr>) s)"
  using assms find_login_row[OF assms(3)]
  by (auto simp: resetPassword_def resetPassword_check_def act_defs require_def found_def store_reset_def update_login_def
      reset_claims_def passwordFingerprint_def)

section \<open>What the code lets through\<close>

text \<open>
  A refresh that has passed its check survives a sign-out: the write of its new token comes after, and
  the session is open again.
\<close>

lemma refresh_outlives_logout:
  fixes s :: "'a auth_db_scheme"
  assumes "auth_reach E (ps, log, s)" "refresh_check E now token s = (Inr (r, rm), s')"
  shows "\<exists>t :: 'a auth_db_scheme. auth_reach E (ps, Issued (lg_id r) (ae_sign E (refresh_claims now (lg_id r) (lg_phone r) rm jti)) # Closed (lg_id r) # log, t)"
proof -
  let ?u = "lg_id r" and ?new = "ae_sign E (refresh_claims now (lg_id r) (lg_phone r) rm jti)"
  have r: "find_login ?u s = Some r" "s' = s" using assms(2)
    by (auto simp: refresh_run split: option.splits if_splits dest: find_login_row) (metis find_login_row)+
  let ?s1 = "edit_login ?u (\<lambda>r. r\<lparr>lg_refresh := None\<rparr>) s"
  let ?t = "edit_login ?u (\<lambda>r. r\<lparr>lg_refresh := Some (ae_hash E ?new)\<rparr>) ?s1"
  have "decide E (Rq_refresh now token) s = (Inr (Some (Do_issue ?u (lg_phone r) rm)), s)"
    using assms(2) r(2) by (simp add: decide_def bnd_def ret_def)
  from decide_step[where log = log and ps = ps, OF this] have a: "auth_step E (ps, log, s) (ps @ [Do_issue ?u (lg_phone r) rm], log, s)"
    by (simp add: request_ids_def)
  have "logout ?u s = (Inr (), ?s1)" by (simp add: logout_def writing_def)
  then have b: "auth_step E (ps @ [Do_issue ?u (lg_phone r) rm], log, s) (ps @ [Do_issue ?u (lg_phone r) rm], Closed ?u # log, ?s1)"
    by (rule logout_step)
  have "find_login ?u ?s1 \<noteq> None" using r(1) by (simp add: find_edited)
  then have "carry_out E now jti (Do_issue ?u (lg_phone r) rm) ?s1 = (Inr (None, [Issued ?u ?new]), ?t)"
    by (auto simp: carry_out_def issue_def Let_def bnd_def andthen_def ret_def update_login_run)
  from write_step[OF this, of "Closed ?u # log" ps "[]"]
  have c: "auth_step E (ps @ [Do_issue ?u (lg_phone r) rm], Closed ?u # log, ?s1) (ps, Issued ?u ?new # Closed ?u # log, ?t)"
    by simp
  from step[OF step[OF step[OF assms(1) a] b] c] show ?thesis by blast
qed

text \<open>
  A staff member who has been deactivated is refused by \<open>login\<close>, whatever the password, while a
  verified code for the same phone signs him in, and the session he has is refreshed.
\<close>

theorem deactivated_member_code:
  assumes "login_by_phone phone s = Some r" "member_of (lg_id r) s = Some m" "mb_status m \<noteq> STAFF_ACTIVE"
    and "guard_rate cx (''auth:login:'' @ phone) 5 900 ''Too many login attempts. Please try again later.'' s = (Inr (), s1)"
    and "guard_rate cx (''auth:otp:verify:'' @ phone) 5 600
      ''Too many OTP verification attempts. Please request a new OTP later.'' s = (Inr (), s2)"
  shows "fst (login_check E cx phone password s) =
      Inl (Unauthorized (if password_matches E password r then ''This staff account has been deactivated''
        else ''Invalid phone number or password'')) \<and>
    fst (verifyOtp E cx jti phone (Inr True) uuid s) = Inr (session_for r (ae_sign E (access_claims (cx_now cx) (lg_id r) phone False),
      ae_sign E (refresh_claims (cx_now cx) (lg_id r) phone False jti)))"
proof -
  have phone: "lg_phone r = phone" using assms(1) unfolding login_by_phone_def by (drule_tac find_Some_set) auto
  have s1: "logins s1 = logins s" "members s1 = members s" and s2: "logins s2 = logins s"
    using rate_frame assms(4,5) unfolding guard_rate_def by (metis snd_conv)+
  have here: "login_by_phone phone s1 = Some r" "member_of (lg_id r) s1 = Some m" "login_by_phone phone s2 = Some r"
    using assms(1,2) s1 s2 by (simp_all add: login_by_phone_def member_of_def)
  then have "find_login (lg_id r) s2 \<noteq> None"
    unfolding login_by_phone_def find_login_def by (auto simp: find_None_iff dest: find_Some_set)
  then show ?thesis using assms(3-5) here phone
    by (auto simp: login_check_def verifyOtp_def verifyOtp_check_def andthen_def bnd_def reading_def found_def require_def throw_def
        ret_def lift_sum_def issue_def Let_def update_login_run rate_clear_def writing_def)
qed

section \<open>A run\<close>

text \<open>
  One user signs in with a code, sets no password, and asks for his account to be deleted. The
  parameters are small functions with the properties the theorems ask for.
\<close>

definition demo_claims :: "string \<Rightarrow> string option \<Rightarrow> claims" where
  "demo_claims kind pwv = \<lparr>cl_sub = ''u1'', cl_phone = Some ''06'', cl_type = kind, cl_rm = False, cl_pwv = pwv,
     cl_admin = False, cl_jti = None, cl_iat = 0, cl_exp = 600\<rparr>"

definition demo_env :: auth_env where
  "demo_env = \<lparr>ae_sign = (\<lambda>c. cl_type c @ (case cl_jti c of None \<Rightarrow> [] | Some j \<Rightarrow> j)),
     ae_verify = (\<lambda>now token. if now < 600000 \<and> token = ''refresh1'' then Some (demo_claims ''refresh'' None)
       else if now < 600000 \<and> token = ''reset'' then Some (demo_claims ''password_reset'' (Some ''~''))
       else None),
     ae_hash = (\<lambda>x. CHR ''#'' # x), ae_matches = (\<lambda>p h. drop 1 h = p), ae_hmac = (\<lambda>x. CHR ''~'' # x),
     ae_country = (\<lambda>_. None), ae_countries = [], ae_smsDisabled = None, ae_whatsappDisabled = None\<rparr>"

definition demo_call :: call where
  "demo_call = \<lparr>cx_now = 0, cx_ready = True, cx_sweep = False\<rparr>"

definition demo_empty :: auth_db where
  "demo_empty = \<lparr>buckets = [], redis_keys = [], logins = [], members = []\<rparr>"

definition demo_known :: auth_db where
  "demo_known = \<lparr>buckets = [], redis_keys = [\<lparr>rk_key = ''auth:otp:verify:06'', rk_count = 1, rk_expiresAt = Some 600000\<rparr>],
     logins = [new_login ''u1'' ''06''], members = []\<rparr>"

definition demo_in :: auth_db where
  "demo_in = edit_login ''u1'' (\<lambda>r. r\<lparr>lg_refresh := Some ''#refresh1''\<rparr>) demo_known"

lemma demo_signs_in: "auth_reach demo_env ([], [Issued ''u1'' ''refresh1''], demo_in)"
proof -
  have "decide demo_env (Rq_otp demo_call ''06'' (Inr True) ''u1'') demo_empty = (Inr (Some (Do_issue ''u1'' ''06'' False)), demo_known)"
    by code_simp
  from decide_step[OF this, of "[]" "[]"]
  have a: "auth_step demo_env ([], [], demo_empty) ([Do_issue ''u1'' ''06'' False], [], demo_known)" by (simp add: request_ids_def)
  have "carry_out demo_env 0 ''1'' (Do_issue ''u1'' ''06'' False) demo_known = (Inr (None, [Issued ''u1'' ''refresh1'']), demo_in)"
    by code_simp
  from write_step[OF this, of "[]" "[]" "[]"]
  have b: "auth_step demo_env ([Do_issue ''u1'' ''06'' False], [], demo_known) ([], [Issued ''u1'' ''refresh1''], demo_in)" by simp
  have "auth_reach demo_env ([], [], demo_empty)" by (rule start) (simp add: demo_empty_def)
  from step[OF step[OF this a] b] show ?thesis .
qed


definition demo_leaving :: auth_db where
  "demo_leaving = edit_login ''u1'' (\<lambda>r. r\<lparr>lg_requestedAt := Some 0, lg_scheduledFor := Some 2592000000, lg_refresh := None\<rparr>) demo_in"

lemma demo_leaves:
  "auth_reach demo_env ([], [Closed ''u1'', Scheduled ''u1'' 0 2592000000, Issued ''u1'' ''refresh1''], demo_leaving)"
proof -
  have "decide demo_env (Rq_delete ''u1'' 0) demo_in = (Inr (Some (Do_schedule ''u1'' 0 2592000000)), demo_in)" by code_simp
  from decide_step[OF this, of "[Issued ''u1'' ''refresh1'']" "[]"]
  have a: "auth_step demo_env ([], [Issued ''u1'' ''refresh1''], demo_in)
    ([Do_schedule ''u1'' 0 2592000000], [Issued ''u1'' ''refresh1''], demo_in)" by (simp add: request_ids_def)
  have "carry_out demo_env 0 [] (Do_schedule ''u1'' 0 2592000000) demo_in =
    (Inr (None, [Closed ''u1'', Scheduled ''u1'' 0 2592000000]), demo_leaving)" by code_simp
  from write_step[OF this, of "[Issued ''u1'' ''refresh1'']" "[]" "[]"]
  have b: "auth_step demo_env ([Do_schedule ''u1'' 0 2592000000], [Issued ''u1'' ''refresh1''], demo_in)
    ([], [Closed ''u1'', Scheduled ''u1'' 0 2592000000, Issued ''u1'' ''refresh1''], demo_leaving)" by simp
  from step[OF step[OF demo_signs_in a] b] show ?thesis .
qed


definition demo_changed :: auth_db where
  "demo_changed = edit_login ''u1'' (\<lambda>r. r\<lparr>lg_phone := ''06'', lg_password := Some ''aSecret''\<rparr>) demo_in"

lemma reset_token_spent_witness: "resetPassword demo_env 5000 ''reset'' ''bOther'' demo_changed = (Inl INVALID_LINK, demo_changed)"
proof (rule reset_token_spent)
  have r: "find_login ''u1'' demo_in = Some (hd (logins demo_in))" by code_simp
  have n: "password_text (lg_password (hd (logins demo_in))) = []" by code_simp
  have "auth_step demo_env ([], [Issued ''u1'' ''refresh1''], demo_in)
      ([], [Password ''u1'' (password_text (lg_password (hd (logins demo_in)))) ''aSecret'', Issued ''u1'' ''refresh1''], demo_changed)"
    unfolding demo_changed_def by (rule staff_step[OF r])
      (auto simp: known_hashes_def demo_in_def demo_known_def new_login_def edit_login_def password_text_def)
  from step[OF demo_signs_in this]
  show "auth_reach demo_env ([], [Password ''u1'' [] ''aSecret'', Issued ''u1'' ''refresh1''], demo_changed)" unfolding n .
  show "Password ''u1'' [] ''aSecret'' \<in> set [Password ''u1'' [] ''aSecret'', Issued ''u1'' ''refresh1'']" by simp
  show "ae_verify demo_env 5000 ''reset'' = Some (demo_claims ''password_reset'' (Some ''~''))" by (simp add: demo_env_def)
qed (auto simp: demo_env_def demo_claims_def passwordFingerprint_def password_text_def inj_on_def)

definition demo_member :: auth_db where
  "demo_member = demo_in\<lparr>members := [\<lparr>mb_id = ''m1'', mb_user = ''u1'', mb_status = STAFF_INACTIVE,
     mb_lastLogin = None, mb_lastActive = None\<rparr>]\<rparr>"

lemma deactivated_member_code_witness:
  "isl (fst (login_check demo_env demo_call ''06'' ''Secret'' demo_member)) \<and>
   \<not> isl (fst (verifyOtp demo_env demo_call ''2'' ''06'' (Inr True) ''u2'' demo_member))"
proof -
  let ?g = "\<lambda>k n w m. guard_rate demo_call k n w m demo_member"
  have rows: "login_by_phone ''06'' demo_member = Some (hd (logins demo_member))"
    "member_of (lg_id (hd (logins demo_member))) demo_member = Some (hd (members demo_member))"
    "mb_status (hd (members demo_member)) \<noteq> STAFF_ACTIVE" by code_simp+
  have login: "?g (''auth:login:'' @ ''06'') 5 900 ''Too many login attempts. Please try again later.'' =
      (Inr (), snd (?g (''auth:login:'' @ ''06'') 5 900 ''Too many login attempts. Please try again later.''))" by code_simp
  have code: "?g (''auth:otp:verify:'' @ ''06'') 5 600 ''Too many OTP verification attempts. Please request a new OTP later.'' =
      (Inr (), snd (?g (''auth:otp:verify:'' @ ''06'') 5 600 ''Too many OTP verification attempts. Please request a new OTP later.''))"
    by code_simp
  show ?thesis
    using deactivated_member_code[OF rows login code, where E = demo_env and password = "''Secret''" and jti = "''2''" and uuid = "''u2''"]
    by simp
qed

end
