(* ===== verification/Duplicate_Orders.thy ===== *)
theory Duplicate_Orders
  imports WhatsApp_Dispatch "HOL-Library.List_Lexorder" "HOL-Library.Char_ord"
begin

text \<open>
  Orders placed twice: \<open>src/customers/duplicate-orders.util.ts\<close> groups the orders of a customer, and
  \<open>src/customers/duplicate-orders.service.ts\<close> lists the groups, cancels or keeps their orders and raises
  an alert for a new one. The advisory lock of a store makes each of its transactions one step.
\<close>

section \<open>The tables\<close>

datatype platform = PLATFORM_SHOPIFY | PLATFORM_YOUCAN | PLATFORM_LIGHTFUNNELS | PLATFORM_MANUAL

datatype order_status = ORDER_OPEN | ORDER_CLOSED | ORDER_CANCELLED | ORDER_UNKNOWN

record dup_line =
  dl_name :: string
  dl_quantity :: int
  dl_sku :: "string option"
  dl_variant :: "string option"
  dl_product :: "string option"
  dl_external :: "string option"

text \<open>An order with what its connection, its dispatch and its lines give the risk centre.\<close>

record dup_order =
  do_id :: string
  do_store :: string
  do_connection :: string
  do_platform :: platform
  do_name :: "string option"
  do_status :: order_status
  do_placedAt :: int
  do_cancelledAt :: "int option"
  do_customer :: "string option"
  do_dispatch :: "string option"
  do_lines :: "dup_line list"

datatype decision = KEPT | CANCELLED_DUPLICATE

record review =
  rv_store :: string
  rv_order :: string
  rv_main :: "string option"
  rv_decision :: decision
  rv_user :: string

record order_event =
  oe_order :: string
  oe_key :: string
  oe_type :: string
  oe_title :: string
  oe_message :: "string option"
  oe_occurredAt :: int

record risk_customer =
  cu_id :: string
  cu_store :: string
  cu_phone :: string
  cu_name :: "string option"
  cu_address :: "string option"
  cu_city :: "string option"
  cu_totalOrders :: int
  cu_returns :: int
  cu_cancellations :: int
  cu_refusals :: int
  cu_noAnswer :: int
  cu_blacklisted :: bool
  cu_reason :: "string option"
  cu_blacklistedAt :: "int option"

record risk_settings =
  bs_store :: string
  bs_returns :: int
  bs_cancellations :: int
  bs_refusals :: int
  bs_noAnswer :: int
  bs_useCombined :: bool
  bs_combined :: int
  bs_warn :: bool

record risk_db = wa_db +
  dup_orders :: "dup_order list"
  reviews :: "review list"
  order_events :: "order_event list"
  customers :: "risk_customer list"
  risk_limits :: "risk_settings list"

section \<open>src/customers/duplicate-orders.util.ts\<close>

definition DUPLICATE_WINDOW_HOURS :: int where
  "DUPLICATE_WINDOW_HOURS = 24"

definition DUPLICATE_WINDOW_MS :: int where
  "DUPLICATE_WINDOW_MS = DUPLICATE_WINDOW_HOURS * 3600000"

text \<open>\<open>replace(/\s+/g, ' ')\<close>; a truthy text is a present one that is not empty.\<close>

fun squeeze :: "bool \<Rightarrow> string \<Rightarrow> string" where
  "squeeze inside [] = []"
| "squeeze inside (c # cs) = (if is_space c then (if inside then squeeze True cs else CHR '' '' # squeeze True cs)
     else c # squeeze False cs)"

definition truthy :: "string option \<Rightarrow> bool" where
  "truthy x \<longleftrightarrow> x \<notin> {None, Some []}"

definition sku_of :: "dup_line \<Rightarrow> string option" where
  "sku_of l = map_option (\<lambda>x. js_lower (js_trim x)) (dl_sku l)"

definition name_of :: "dup_line \<Rightarrow> string" where
  "name_of l = squeeze False (js_lower (js_trim (dl_name l)))"

definition lineProductKeys :: "dup_line \<Rightarrow> string \<Rightarrow> string list" where
  "lineProductKeys l connection =
     (case dl_variant l of None \<Rightarrow> [] | Some v \<Rightarrow> if v = [] then [] else [''wv:'' @ v]) @
     (case dl_product l of None \<Rightarrow> [] | Some v \<Rightarrow> if v = [] then [] else [''ep:'' @ connection @ '':'' @ v]) @
     (case dl_external l of None \<Rightarrow> [] | Some v \<Rightarrow> if v = [] then [] else [''ev:'' @ connection @ '':'' @ v]) @
     (case sku_of l of None \<Rightarrow> [] | Some v \<Rightarrow> if v = [] then [] else [''sku:'' @ v]) @
     (if name_of l = [] then [] else [''name:'' @ name_of l])"

definition duplicateLinesMatch :: "dup_line \<Rightarrow> string \<Rightarrow> dup_line \<Rightarrow> string \<Rightarrow> bool" where
  "duplicateLinesMatch a ca b cb =
     (let same = (ca = cb); products = (same \<and> truthy (dl_product a) \<and> truthy (dl_product b)) in
      if truthy (dl_variant a) \<and> truthy (dl_variant b) then dl_variant a = dl_variant b
      else if same \<and> truthy (dl_external a) \<and> truthy (dl_external b) then dl_external a = dl_external b
      else if products \<and> dl_product a \<noteq> dl_product b then False
      else if truthy (sku_of a) \<and> truthy (sku_of b) then sku_of a = sku_of b
      else if products then dl_product a = dl_product b
      else name_of a \<noteq> [] \<and> name_of a = name_of b)"

record candidate =
  cd_id :: string
  cd_customer :: string
  cd_placedAt :: int
  cd_keys :: "string list"
  cd_row :: dup_order

record cluster =
  cl_main :: candidate
  cl_duplicates :: "candidate list"
  cl_keys :: "string list"

definition cluster_members :: "cluster \<Rightarrow> candidate list" where
  "cluster_members c = cl_main c # cl_duplicates c"

type_synonym matcher = "(candidate \<Rightarrow> candidate \<Rightarrow> bool) option"

definition belongs :: "int \<Rightarrow> matcher \<Rightarrow> candidate \<Rightarrow> cluster \<Rightarrow> bool" where
  "belongs w matches x c \<longleftrightarrow> cd_placedAt x - cd_placedAt (cl_main c) \<le> w \<and>
     (case matches of Some m \<Rightarrow> list_ex (m x) (cluster_members c) | None \<Rightarrow> list_ex (\<lambda>k. k \<in> set (cl_keys c)) (cd_keys x))"

text \<open>One turn of the loop: the first open group that takes the order, or a new one.\<close>

fun place_order :: "int \<Rightarrow> matcher \<Rightarrow> candidate \<Rightarrow> cluster list \<Rightarrow> cluster list" where
  "place_order w matches x [] = [\<lparr>cl_main = x, cl_duplicates = [], cl_keys = cd_keys x\<rparr>]"
| "place_order w matches x (c # cs) = (if belongs w matches x c
     then c\<lparr>cl_duplicates := cl_duplicates c @ [x], cl_keys := cl_keys c @ cd_keys x\<rparr> # cs
     else c # place_order w matches x cs)"

definition by_time :: "(string \<Rightarrow> string \<Rightarrow> int) \<Rightarrow> candidate \<Rightarrow> candidate \<Rightarrow> int" where
  "by_time lc a b = (if cd_placedAt a \<noteq> cd_placedAt b then cd_placedAt a - cd_placedAt b else lc (cd_id a) (cd_id b))"

definition open_clusters :: "int \<Rightarrow> matcher \<Rightarrow> candidate list \<Rightarrow> cluster list" where
  "open_clusters w matches xs = fold (place_order w matches) xs []"

definition of_customer :: "string \<Rightarrow> candidate list \<Rightarrow> candidate list" where
  "of_customer u xs = filter (\<lambda>x. cd_customer x = u) xs"

definition clusterDuplicateOrders :: "(string \<Rightarrow> string \<Rightarrow> int) \<Rightarrow> int \<Rightarrow> matcher \<Rightarrow> candidate list \<Rightarrow> cluster list" where
  "clusterDuplicateOrders lc w matches xs = concat (map (\<lambda>u. filter (\<lambda>c. cl_duplicates c \<noteq> [])
     (open_clusters w matches (js_sort (by_time lc) (of_customer u xs)))) (first_occurrences (map cd_customer xs)))"

section \<open>What the groups are\<close>

text \<open>What the code relies on in \<open>localeCompare\<close>: a linear order of the ids.\<close>

definition collation :: "(string \<Rightarrow> string \<Rightarrow> int) \<Rightarrow> bool" where
  "collation lc \<longleftrightarrow> (\<forall>a b. (lc a b = 0) = (a = b)) \<and> (\<forall>a b. (lc a b < 0) = (0 < lc b a)) \<and>
     (\<forall>a b c. lc a b < 0 \<and> lc b c < 0 \<longrightarrow> lc a c < 0)"

definition earlier :: "(string \<Rightarrow> string \<Rightarrow> int) \<Rightarrow> candidate \<Rightarrow> candidate \<Rightarrow> bool" where
  "earlier lc a b \<longleftrightarrow> by_time lc a b < 0"

lemma earlier_iff: "earlier lc a b \<longleftrightarrow> cd_placedAt a < cd_placedAt b \<or> cd_placedAt a = cd_placedAt b \<and> lc (cd_id a) (cd_id b) < 0"
  by (auto simp: earlier_def by_time_def)

lemma earlier_trans: "collation lc \<Longrightarrow> earlier lc a b \<Longrightarrow> earlier lc b c \<Longrightarrow> earlier lc a c"
  unfolding earlier_iff collation_def by (smt (verit))

lemma earlier_irrefl: "collation lc \<Longrightarrow> \<not> earlier lc a a"
  unfolding earlier_iff collation_def by (smt (verit))

lemma earlier_total: "collation lc \<Longrightarrow> cd_id a \<noteq> cd_id b \<Longrightarrow> earlier lc a b \<or> earlier lc b a"
  unfolding earlier_iff collation_def by (smt (verit))

lemma later_by_time: "collation lc \<Longrightarrow> cd_id a \<noteq> cd_id b \<Longrightarrow> (by_time lc a b \<le> 0) = earlier lc a b"
  unfolding earlier_def by_time_def collation_def by (smt (verit))

lemma sort_insert_set: "set (sort_insert cmp x ys) = insert x (set ys)"
  by (induction ys) auto

lemma js_sort_set [simp]: "set (js_sort cmp xs) = set xs"
  by (metis mset_js_sort set_mset_mset)

text \<open>\<open>before xs a b\<close>: \<open>a\<close> stands before \<open>b\<close>.\<close>

fun before :: "'b list \<Rightarrow> 'b \<Rightarrow> 'b \<Rightarrow> bool" where
  "before [] a b \<longleftrightarrow> False"
| "before (x # xs) a b \<longleftrightarrow> a = x \<and> b \<in> set xs \<or> before xs a b"

lemma before_in: "before xs a b \<Longrightarrow> a \<in> set xs \<and> b \<in> set xs"
  by (induction xs) auto

lemma before_snoc: "before (xs @ [x]) a b \<longleftrightarrow> before xs a b \<or> a \<in> set xs \<and> b = x"
  by (induction xs) (auto dest: before_in)

lemma insert_sorted:
  assumes "collation lc" "sorted_wrt (earlier lc) ys" "cd_id x \<notin> cd_id ` set ys"
  shows "sorted_wrt (earlier lc) (sort_insert (by_time lc) x ys)"
  using assms(2,3)
proof (induction ys)
  case (Cons y ys)
  have x: "cd_id x \<noteq> cd_id y" using Cons(3) by auto
  show ?case
  proof (cases "earlier lc x y")
    case True
    then show ?thesis using Cons(2) later_by_time[OF assms(1) x] earlier_trans[OF assms(1) True] by auto
  next
    case False
    then have "earlier lc y x" using earlier_total[OF assms(1) x] by blast
    then show ?thesis using Cons False later_by_time[OF assms(1) x] by (auto simp: sort_insert_set)
  qed
qed simp

lemma js_sort_sorted:
  assumes "collation lc" "distinct (map cd_id xs)" shows "sorted_wrt (earlier lc) (js_sort (by_time lc) xs)"
  using assms(2)
proof (induction xs)
  case (Cons x xs)
  have "cd_id x \<notin> cd_id ` set (js_sort (by_time lc) xs)" using Cons(2) by simp
  then show ?case using insert_sorted[OF assms(1)] Cons by (simp add: js_sort_def)
qed (simp add: js_sort_def)

lemma before_sorted: "sorted_wrt P xs \<Longrightarrow> before xs a b \<Longrightarrow> P a b"
  by (induction xs) auto

lemma sorted_before:
  assumes "collation lc" "sorted_wrt (earlier lc) xs" "a \<in> set xs" "b \<in> set xs" "earlier lc a b"
  shows "before xs a b"
  using assms(2-4)
proof (induction xs)
  case (Cons x xs)
  show ?case
  proof (cases "b = x")
    case True
    then have "a = x \<or> earlier lc x a" using Cons by auto
    then show ?thesis using True assms(5) earlier_irrefl[OF assms(1)] earlier_trans[OF assms(1)] by blast
  next
    case False then show ?thesis using Cons by auto
  qed
qed simp

text \<open>
  The groups of one customer, over his orders in their order: they part the orders, every duplicate
  was placed within the window after the main order and matches an earlier member, and an order
  that opened a group matched no earlier order of a group still open for it.
\<close>

definition well_grouped :: "int \<Rightarrow> (candidate \<Rightarrow> candidate \<Rightarrow> bool) \<Rightarrow> candidate list \<Rightarrow> cluster list \<Rightarrow> bool" where
  "well_grouped w m xs cs \<longleftrightarrow> mset (concat (map cluster_members cs)) = mset xs \<and>
     (\<forall>c \<in> set cs. \<forall>d \<in> set (cl_duplicates c). before xs (cl_main c) d \<and> cd_placedAt d - cd_placedAt (cl_main c) \<le> w \<and>
        (\<exists>e \<in> set (cluster_members c). before xs e d \<and> m d e)) \<and>
     (\<forall>b \<in> cl_main ` set cs. \<forall>c \<in> set cs. \<forall>a \<in> set (cluster_members c). before xs a b \<longrightarrow> m b a \<longrightarrow>
        w < cd_placedAt b - cd_placedAt (cl_main c))"

lemma place_order_cases:
  obtains (joined) as c bs where "cs = as @ c # bs" "belongs w matches x c"
      "place_order w matches x cs = as @ c\<lparr>cl_duplicates := cl_duplicates c @ [x], cl_keys := cl_keys c @ cd_keys x\<rparr> # bs"
  | (opened) "\<forall>c \<in> set cs. \<not> belongs w matches x c"
      "place_order w matches x cs = cs @ [\<lparr>cl_main = x, cl_duplicates = [], cl_keys = cd_keys x\<rparr>]"
proof -
  have "(\<exists>as c bs. cs = as @ c # bs \<and> belongs w matches x c \<and>
      place_order w matches x cs = as @ c\<lparr>cl_duplicates := cl_duplicates c @ [x], cl_keys := cl_keys c @ cd_keys x\<rparr> # bs) \<or>
    (\<forall>c \<in> set cs. \<not> belongs w matches x c) \<and>
      place_order w matches x cs = cs @ [\<lparr>cl_main = x, cl_duplicates = [], cl_keys = cd_keys x\<rparr>]"
  proof (induction cs)
    case (Cons c cs)
    show ?case
    proof (cases "belongs w matches x c")
      case True then show ?thesis by (intro disjI1 exI[of _ "[]"] exI[of _ c] exI[of _ cs]) simp
    next
      case False
      from Cons show ?thesis
      proof (elim disjE exE conjE)
        fix as d bs assume "cs = as @ d # bs" "belongs w matches x d" "place_order w matches x cs =
            as @ d\<lparr>cl_duplicates := cl_duplicates d @ [x], cl_keys := cl_keys d @ cd_keys x\<rparr> # bs"
        then show ?thesis using False by (intro disjI1 exI[of _ "c # as"] exI[of _ d] exI[of _ bs]) simp
      qed (use False in simp)
    qed
  qed simp
  then show thesis using that by blast
qed

lemma well_grouped_members: "well_grouped w m xs cs \<Longrightarrow> c \<in> set cs \<Longrightarrow> set (cluster_members c) \<subseteq> set xs"
proof -
  assume "well_grouped w m xs cs" "c \<in> set cs"
  then have "set (concat (map cluster_members cs)) = set xs" by (metis well_grouped_def set_mset_mset)
  then show ?thesis using \<open>c \<in> set cs\<close> by auto
qed

lemma join_grouped:
  assumes wg: "well_grouped w m xs (as @ c # bs)" and x: "x \<notin> set xs" and fits: "belongs w (Some m) x c"
  shows "well_grouped w m (xs @ [x]) (as @ c\<lparr>cl_duplicates := cl_duplicates c @ [x], cl_keys := ks\<rparr> # bs)"
    (is "well_grouped w m (xs @ [x]) ?cs")
proof -
  let ?c = "c\<lparr>cl_duplicates := cl_duplicates c @ [x], cl_keys := ks\<rparr>"
  have old: "set (cluster_members d) \<subseteq> set xs" if "d \<in> set (as @ c # bs)" for d by (rule well_grouped_members[OF wg that])
  have mem: "cluster_members ?c = cluster_members c @ [x]" by (simp add: cluster_members_def)
  have parts: "mset (concat (map cluster_members ?cs)) = mset (xs @ [x])"
    using wg unfolding well_grouped_def by (simp add: mem)
  have dups: "before (xs @ [x]) (cl_main d) y \<and> cd_placedAt y - cd_placedAt (cl_main d) \<le> w \<and>
      (\<exists>e \<in> set (cluster_members d). before (xs @ [x]) e y \<and> m y e)"
    if d: "d \<in> set ?cs" "y \<in> set (cl_duplicates d)" for d y
  proof (cases "d = ?c")
    case False
    then have "d \<in> set (as @ c # bs)" using d by auto
    then show ?thesis using wg d(2) unfolding well_grouped_def before_snoc by blast
  next
    case True
    show ?thesis
    proof (cases "y \<in> set (cl_duplicates c)")
      case True
      then have "before xs (cl_main c) y \<and> cd_placedAt y - cd_placedAt (cl_main c) \<le> w \<and>
          (\<exists>e \<in> set (cluster_members c). before xs e y \<and> m y e)" using wg unfolding well_grouped_def by auto
      then show ?thesis using \<open>d = ?c\<close> mem by (auto simp: before_snoc)
    next
      case False
      then have y: "y = x" using d(2) \<open>d = ?c\<close> by simp
      obtain e where "e \<in> set (cluster_members c)" "m x e" using fits by (auto simp: belongs_def list_ex_iff)
      then show ?thesis using fits old[of c] y \<open>d = ?c\<close> mem by (auto simp: before_snoc belongs_def cluster_members_def)
    qed
  qed
  have mains: "w < cd_placedAt b - cd_placedAt (cl_main d)"
    if b: "b \<in> cl_main ` set ?cs" and d: "d \<in> set ?cs" "a \<in> set (cluster_members d)" and a: "before (xs @ [x]) a b" "m b a" for a b d
  proof -
    have "b \<in> cl_main ` set (as @ c # bs)" using b by auto
    moreover then have "b \<in> set xs" using old by (auto simp: cluster_members_def)
    then have "before xs a b" using a(1) x by (auto simp: before_snoc)
    moreover have "a \<noteq> x" using \<open>before xs a b\<close> x by (auto dest: before_in)
    then obtain d' where "d' \<in> set (as @ c # bs)" "a \<in> set (cluster_members d')" "cl_main d' = cl_main d"
      using d mem by (cases "d = ?c") auto
    ultimately show ?thesis using wg a(2) unfolding well_grouped_def by metis
  qed
  show ?thesis unfolding well_grouped_def using parts dups mains by blast
qed

lemma open_grouped:
  assumes wg: "well_grouped w m xs cs" and x: "x \<notin> set xs" and none: "\<forall>c \<in> set cs. \<not> belongs w (Some m) x c"
  shows "well_grouped w m (xs @ [x]) (cs @ [\<lparr>cl_main = x, cl_duplicates = [], cl_keys = ks\<rparr>])" (is "well_grouped w m _ (cs @ [?n])")
proof -
  have old: "set (cluster_members d) \<subseteq> set xs" if "d \<in> set cs" for d by (rule well_grouped_members[OF wg that])
  have mem: "cluster_members ?n = [x]" by (simp add: cluster_members_def)
  have mains: "w < cd_placedAt b - cd_placedAt (cl_main d)"
    if b: "b \<in> cl_main ` set (cs @ [?n])" and d: "d \<in> set (cs @ [?n])" "a \<in> set (cluster_members d)" and a: "before (xs @ [x]) a b" "m b a" for a b d
  proof -
    have "a \<in> set xs" using a(1) x by (auto simp: before_snoc dest: before_in)
    then have dc: "d \<in> set cs" using d mem x by auto
    show ?thesis
    proof (cases "b = x")
      case True
      then show ?thesis using none dc d(2) a(2) by (auto simp: belongs_def list_ex_iff not_le)
    next
      case False
      then have "b \<in> cl_main ` set cs" "before xs a b" using b a(1) by (auto simp: before_snoc)
      then show ?thesis using wg dc d(2) a(2) unfolding well_grouped_def by blast
    qed
  qed
  have "mset (concat (map cluster_members (cs @ [?n]))) = mset (xs @ [x])"
    using wg unfolding well_grouped_def by (simp add: mem)
  moreover have "before (xs @ [x]) (cl_main c) d \<and> cd_placedAt d - cd_placedAt (cl_main c) \<le> w \<and>
      (\<exists>e \<in> set (cluster_members c). before (xs @ [x]) e d \<and> m d e)"
    if "c \<in> set (cs @ [?n])" "d \<in> set (cl_duplicates c)" for c d
  proof -
    have "c \<in> set cs" using that by auto
    then show ?thesis using wg that(2) unfolding well_grouped_def before_snoc by blast
  qed
  ultimately show ?thesis unfolding well_grouped_def using mains by blast
qed

lemma open_clusters_grouped: "distinct xs \<Longrightarrow> well_grouped w m xs (open_clusters w (Some m) xs)"
proof (induction xs rule: rev_induct)
  case Nil show ?case by (simp add: open_clusters_def well_grouped_def)
next
  case (snoc x xs)
  then have wg: "well_grouped w m xs (open_clusters w (Some m) xs)" and x: "x \<notin> set xs" by auto
  have step: "open_clusters w (Some m) (xs @ [x]) = place_order w (Some m) x (open_clusters w (Some m) xs)"
    by (simp add: open_clusters_def)
  show ?case
  proof (cases rule: place_order_cases[where w = w and matches = "Some m" and x = x and cs = "open_clusters w (Some m) xs"])
    case (joined as c bs)
    then show ?thesis unfolding step joined(3) using join_grouped[OF _ x joined(2)] wg by simp
  next
    case opened
    then show ?thesis unfolding step opened(2) by (intro open_grouped[OF wg x])
  qed
qed

lemma customer_sorted:
  assumes "collation lc" "distinct (map cd_id xs)"
  shows "sorted_wrt (earlier lc) (js_sort (by_time lc) (of_customer u xs))" "distinct (js_sort (by_time lc) (of_customer u xs))"
proof -
  have d: "distinct (map cd_id (of_customer u xs))" unfolding of_customer_def by (rule distinct_map_filter[OF assms(2)])
  then show "sorted_wrt (earlier lc) (js_sort (by_time lc) (of_customer u xs))" by (rule js_sort_sorted[OF assms(1)])
  from d show "distinct (js_sort (by_time lc) (of_customer u xs))"
    by (metis distinct_map mset_js_sort mset_eq_imp_distinct_iff)
qed

text \<open>The open groups of a customer, with \<open>earlier\<close> for the place in the sorted list.\<close>

definition customer_clusters :: "(string \<Rightarrow> string \<Rightarrow> int) \<Rightarrow> int \<Rightarrow> (candidate \<Rightarrow> candidate \<Rightarrow> bool) \<Rightarrow> candidate list \<Rightarrow> string \<Rightarrow> cluster list" where
  "customer_clusters lc w m xs u = open_clusters w (Some m) (js_sort (by_time lc) (of_customer u xs))"

lemma customer_grouped:
  assumes "collation lc" "distinct (map cd_id xs)"
  shows "well_grouped w m (js_sort (by_time lc) (of_customer u xs)) (customer_clusters lc w m xs u)"
  unfolding customer_clusters_def by (rule open_clusters_grouped[OF customer_sorted(2)[OF assms]])

lemma customer_members:
  assumes "collation lc" "distinct (map cd_id xs)"
  shows "mset (concat (map cluster_members (customer_clusters lc w m xs u))) = mset (of_customer u xs)"
  using customer_grouped[OF assms, of w m u] unfolding well_grouped_def by simp

lemma in_some_cluster:
  assumes "collation lc" "distinct (map cd_id xs)" "a \<in> set xs"
  shows "\<exists>c \<in> set (customer_clusters lc w m xs (cd_customer a)). a \<in> set (cluster_members c)"
proof -
  have "set (concat (map cluster_members (customer_clusters lc w m xs (cd_customer a)))) = set (of_customer (cd_customer a) xs)"
    using customer_members[OF assms(1,2)] by (metis set_mset_mset)
  then have "a \<in> set (concat (map cluster_members (customer_clusters lc w m xs (cd_customer a))))"
    using assms(3) by (auto simp: of_customer_def)
  then show ?thesis by auto
qed

lemma first_occurrences_set [simp]: "set (first_occurrences xs) = set xs" "distinct (first_occurrences xs)"
  by (simp_all add: first_occurrences_def)

lemma clusters_by_customer:
  "set (clusterDuplicateOrders lc w (Some m) xs) =
     {c. \<exists>u \<in> cd_customer ` set xs. c \<in> set (customer_clusters lc w m xs u) \<and> cl_duplicates c \<noteq> []}"
  by (auto simp: clusterDuplicateOrders_def customer_clusters_def)

lemma parts_by_key:
  assumes "distinct us" shows "mset (concat (map (\<lambda>u. filter (\<lambda>x. f x = u) xs) us)) = mset (filter (\<lambda>x. f x \<in> set us) xs)"
  using assms
proof (induction us)
  case (Cons u us)
  have "mset (filter (\<lambda>x. f x = u) xs) + mset (filter (\<lambda>x. f x \<in> set us) xs) = mset (filter (\<lambda>x. f x \<in> set (u # us)) xs)"
    using Cons(2) by (induction xs) auto
  then show ?case using Cons by simp
qed simp

lemma concat_submset:
  "(\<And>u. mset (g u) \<subseteq># mset (h u)) \<Longrightarrow> mset (concat (map g us)) \<subseteq># mset (concat (map h us))"
  by (induction us) (auto intro: subset_mset.add_mono)

lemma concat_map_filter_submset: "mset (concat (map g (filter P xs))) \<subseteq># mset (concat (map g xs))"
  by (induction xs) (auto intro: subset_mset.add_increasing)

lemma clusters_part:
  assumes "collation lc" "distinct (map cd_id xs)"
  shows "mset (concat (map cluster_members (clusterDuplicateOrders lc w (Some m) xs))) \<subseteq># mset xs"
proof -
  let ?f = "\<lambda>u. concat (map cluster_members (filter (\<lambda>c. cl_duplicates c \<noteq> []) (customer_clusters lc w m xs u)))"
  let ?us = "first_occurrences (map cd_customer xs)"
  have split: "concat (map cluster_members (concat (map g us))) = concat (map (\<lambda>u. concat (map cluster_members (g u))) us)"
    for g :: "string \<Rightarrow> cluster list" and us by (induction us) auto
  have "concat (map cluster_members (clusterDuplicateOrders lc w (Some m) xs)) = concat (map ?f ?us)"
    unfolding clusterDuplicateOrders_def customer_clusters_def by (rule split)
  also have "mset (concat (map ?f ?us)) \<subseteq># mset (concat (map (\<lambda>u. of_customer u xs) ?us))"
    by (rule concat_submset) (metis customer_members[OF assms] concat_map_filter_submset)
  also have "mset (concat (map (\<lambda>u. of_customer u xs) ?us)) = mset (filter (\<lambda>x. cd_customer x \<in> set ?us) xs)"
    unfolding of_customer_def by (rule parts_by_key) simp
  also have "filter (\<lambda>x. cd_customer x \<in> set ?us) xs = xs" by (rule filter_True) simp
  finally show ?thesis .
qed

lemma distinct_submset: "mset xs \<subseteq># mset ys \<Longrightarrow> distinct (map f ys) \<Longrightarrow> distinct (map f xs)"
proof -
  assume "mset xs \<subseteq># mset ys" "distinct (map f ys)"
  then have "image_mset f (mset xs) \<subseteq># image_mset f (mset ys)" by (intro image_mset_subseteq_mono)
  then have "mset (map f xs) \<subseteq># mset (map f ys)" by simp
  then obtain zs where "mset (map f ys) = mset (map f xs) + mset zs" by (metis ex_mset subset_mset.le_iff_add)
  then have "mset (map f ys) = mset (map f xs @ zs)" by simp
  then have "distinct (map f xs @ zs)" using \<open>distinct (map f ys)\<close> mset_eq_imp_distinct_iff by blast
  then show ?thesis by simp
qed

text \<open>
  C6: The groups of duplicate orders are what their comment says. Each has a main order and at least
  one duplicate; every duplicate is an order of the same customer, placed after the main one and within
  the window, that matches an earlier member; no order is in two groups; and an order that matches an
  earlier one within the window is a duplicate, unless the earlier one is itself a duplicate of a main
  order that lies further back than the window.
\<close>

theorem duplicate_groups_exact:
  assumes "collation lc" "distinct (map cd_id xs)"
  shows "(\<forall>c \<in> set (clusterDuplicateOrders lc w (Some m) xs). cl_duplicates c \<noteq> [] \<and> set (cluster_members c) \<subseteq> set xs \<and>
      (\<forall>d \<in> set (cl_duplicates c). cd_customer d = cd_customer (cl_main c) \<and> earlier lc (cl_main c) d \<and>
        cd_placedAt d - cd_placedAt (cl_main c) \<le> w \<and> (\<exists>e \<in> set (cluster_members c). earlier lc e d \<and> m d e))) \<and>
    distinct (map cd_id (concat (map cluster_members (clusterDuplicateOrders lc w (Some m) xs)))) \<and>
    (\<forall>a \<in> set xs. \<forall>b \<in> set xs. cd_customer a = cd_customer b \<and> earlier lc a b \<and> m b a \<and> cd_placedAt b - cd_placedAt a \<le> w \<longrightarrow>
      (\<exists>c \<in> set (clusterDuplicateOrders lc w (Some m) xs). b \<in> set (cl_duplicates c) \<or>
        a \<in> set (cl_duplicates c) \<and> w < cd_placedAt b - cd_placedAt (cl_main c)))"
proof (intro conjI ballI impI)
  let ?cs = "clusterDuplicateOrders lc w (Some m) xs"
  note wg = customer_grouped[OF assms, of w m] and part = customer_members[OF assms, of w m]
  note sorted = customer_sorted(1)[OF assms]
  have of: "set (cluster_members c) \<subseteq> set (of_customer u xs)" if "c \<in> set (customer_clusters lc w m xs u)" for c u
    using well_grouped_members[OF wg that] by simp
  { fix c assume "c \<in> set ?cs"
    then obtain u where c: "c \<in> set (customer_clusters lc w m xs u)" "cl_duplicates c \<noteq> []"
      unfolding clusters_by_customer by blast
    show "cl_duplicates c \<noteq> []" by (rule c(2))
    have mem: "set (cluster_members c) \<subseteq> set (of_customer u xs)" by (rule of[OF c(1)])
    show "set (cluster_members c) \<subseteq> set xs" using mem by (auto simp: of_customer_def)
    fix d assume d: "d \<in> set (cl_duplicates c)"
    show "cd_customer d = cd_customer (cl_main c)" using mem d by (auto simp: of_customer_def cluster_members_def)
    from wg[of u] c(1) d have g: "before (js_sort (by_time lc) (of_customer u xs)) (cl_main c) d"
      "cd_placedAt d - cd_placedAt (cl_main c) \<le> w"
      "\<exists>e \<in> set (cluster_members c). before (js_sort (by_time lc) (of_customer u xs)) e d \<and> m d e"
      unfolding well_grouped_def by blast+
    show "earlier lc (cl_main c) d" by (rule before_sorted[OF sorted g(1)])
    show "cd_placedAt d - cd_placedAt (cl_main c) \<le> w" by (rule g(2))
    show "\<exists>e \<in> set (cluster_members c). earlier lc e d \<and> m d e" using g(3) before_sorted[OF sorted] by blast }
  show "distinct (map cd_id (concat (map cluster_members ?cs)))" by (rule distinct_submset[OF clusters_part[OF assms] assms(2)])
  fix a b assume a: "a \<in> set xs" and b: "b \<in> set xs"
    and ab: "cd_customer a = cd_customer b \<and> earlier lc a b \<and> m b a \<and> cd_placedAt b - cd_placedAt a \<le> w"
  let ?u = "cd_customer a"
  obtain c where c: "c \<in> set (customer_clusters lc w m xs ?u)" "a \<in> set (cluster_members c)" using in_some_cluster[OF assms a] by blast
  obtain d where d: "d \<in> set (customer_clusters lc w m xs ?u)" "b \<in> set (cluster_members d)"
    using in_some_cluster[OF assms b] ab by metis
  show "\<exists>c \<in> set ?cs. b \<in> set (cl_duplicates c) \<or> a \<in> set (cl_duplicates c) \<and> w < cd_placedAt b - cd_placedAt (cl_main c)"
  proof (cases "b \<in> set (cl_duplicates d)")
    case True
    then have "d \<in> set ?cs" using d(1) a unfolding clusters_by_customer by auto
    then show ?thesis using True by blast
  next
    case False
    then have main: "b = cl_main d" using d(2) by (simp add: cluster_members_def)
    have "before (js_sort (by_time lc) (of_customer ?u xs)) a b"
      by (rule sorted_before[OF assms(1) sorted]) (use a b ab in \<open>auto simp: of_customer_def\<close>)
    then have far: "w < cd_placedAt b - cd_placedAt (cl_main c)"
      using wg[of ?u] c d(1) main ab unfolding well_grouped_def by blast
    then have "a \<noteq> cl_main c" using ab by auto
    then have "a \<in> set (cl_duplicates c)" using c(2) by (simp add: cluster_members_def)
    moreover then have "c \<in> set ?cs" using c(1) a unfolding clusters_by_customer by auto
    ultimately show ?thesis using far by blast
  qed
qed

text \<open>The groups do not depend on the order in which the database returns the rows.\<close>

lemma sorted_unique:
  assumes "collation lc" "sorted_wrt (earlier lc) xs" "sorted_wrt (earlier lc) ys" "set xs = set ys"
  shows "xs = ys"
  using assms(2-4)
proof (induction xs arbitrary: ys)
  case (Cons x xs)
  then obtain y zs where ys: "ys = y # zs" by (cases ys) auto
  have "x = y"
  proof (rule ccontr)
    assume "x \<noteq> y"
    then have "x \<in> set zs" "y \<in> set xs" using Cons(4) ys by auto
    then have "earlier lc x y" "earlier lc y x" using Cons(2,3) ys by auto
    then show False using earlier_trans[OF assms(1)] earlier_irrefl[OF assms(1)] by blast
  qed
  have "x \<notin> set xs" "y \<notin> set zs" using Cons(2,3) ys earlier_irrefl[OF assms(1)] by auto
  then have "set xs = set zs" using Cons(4) ys \<open>x = y\<close> by auto
  then show ?case using Cons ys \<open>x = y\<close> by auto
qed simp

lemma groups_order_free:
  assumes "collation lc" "distinct (map cd_id xs)" "mset xs = mset ys"
  shows "set (clusterDuplicateOrders lc w (Some m) xs) = set (clusterDuplicateOrders lc w (Some m) ys)"
proof -
  have ys: "distinct (map cd_id ys)" using assms(2,3) by (metis mset_eq_imp_distinct_iff mset_map)
  have same: "set xs = set ys" using assms(3) by (metis set_mset_mset)
  have "js_sort (by_time lc) (of_customer u xs) = js_sort (by_time lc) (of_customer u ys)" for u
    by (rule sorted_unique[OF assms(1) customer_sorted(1)[OF assms(1,2)] customer_sorted(1)[OF assms(1) ys]])
      (simp add: of_customer_def same)
  then show ?thesis unfolding clusters_by_customer customer_clusters_def by (simp add: same)
qed

section \<open>src/customers/duplicate-orders.service.ts\<close>

definition DAY_MILLIS :: int where
  "DAY_MILLIS = 86400000"

definition LOOKBACK_MARGIN_MS :: int where
  "LOOKBACK_MARGIN_MS = 7 * DAY_MILLIS"

definition NOTIFY_MAX_AGE_MS :: int where
  "NOTIFY_MAX_AGE_MS = 2 * DAY_MILLIS"

definition duplicateNotificationKey :: "string \<Rightarrow> string" where
  "duplicateNotificationKey main = ''DUPLICATE_ORDERS:'' @ main"

definition lastPlaced :: "cluster \<Rightarrow> int" where
  "lastPlaced c = cd_placedAt (last (cl_duplicates c))"

definition dup_label :: "dup_order \<Rightarrow> string" where
  "dup_label r = (case do_name r of None \<Rightarrow> ''Order '' @ take 8 (do_id r)
     | Some n \<Rightarrow> if n = [] then ''Order '' @ take 8 (do_id r) else ''Order '' @ n)"

definition platformName :: "platform \<Rightarrow> string" where
  "platformName p = (case p of PLATFORM_SHOPIFY \<Rightarrow> ''Shopify'' | PLATFORM_YOUCAN \<Rightarrow> ''Youcan''
     | PLATFORM_LIGHTFUNNELS \<Rightarrow> ''Lightfunnels'' | PLATFORM_MANUAL \<Rightarrow> ''Manual'')"

definition candidate_of :: "dup_order \<Rightarrow> candidate" where
  "candidate_of r = \<lparr>cd_id = do_id r, cd_customer = (case do_customer r of None \<Rightarrow> [] | Some u \<Rightarrow> u), cd_placedAt = do_placedAt r,
     cd_keys = first_occurrences (concat (map (\<lambda>l. lineProductKeys l (do_connection r)) (do_lines r))), cd_row = r\<rparr>"

definition rows_match :: "candidate \<Rightarrow> candidate \<Rightarrow> bool" where
  "rows_match a b \<longleftrightarrow> list_ex (\<lambda>left. list_ex (\<lambda>right.
     duplicateLinesMatch left (do_connection (cd_row a)) right (do_connection (cd_row b))) (do_lines (cd_row b))) (do_lines (cd_row a))"

text \<open>The orders \<open>detect\<close> looks at: open, not reviewed, of the store, in the range; \<open>to\<close> is excluded.\<close>

definition detectable :: "string \<Rightarrow> int \<Rightarrow> int \<Rightarrow> 'a risk_db_scheme \<Rightarrow> dup_order \<Rightarrow> bool" where
  "detectable store start stop s r \<longleftrightarrow> do_store r = store \<and> do_status r \<noteq> ORDER_CANCELLED \<and>
     \<not> list_ex (\<lambda>v. rv_order v = do_id r) (reviews s) \<and> start \<le> do_placedAt r \<and> do_placedAt r < stop \<and> do_customer r \<noteq> None"

definition customer_orders :: "string option \<Rightarrow> dup_order list \<Rightarrow> dup_order list" where
  "customer_orders u rows = filter (\<lambda>r. do_customer r = u) rows"

definition detect :: "(string \<Rightarrow> string \<Rightarrow> int) \<Rightarrow> string \<Rightarrow> int \<Rightarrow> int \<Rightarrow> string list option \<Rightarrow> 'a risk_db_scheme \<Rightarrow> cluster list" where
  "detect lc store start stop customerIds s =
     (let rows = filter (detectable store start stop s) (dup_orders s);
          wanted = (case customerIds of
              Some us \<Rightarrow> filter (\<lambda>r. do_customer r \<in> Some ` set us) rows
            | None \<Rightarrow> filter (\<lambda>r. length (customer_orders (do_customer r) rows) > 1) rows)
      in clusterDuplicateOrders lc DUPLICATE_WINDOW_MS (Some rows_match) (map candidate_of wanted))"

record dup_page =
  dg_from :: int
  dg_totalGroups :: nat
  dg_totalDuplicates :: nat
  dg_data :: "cluster list"
  dg_totalPages :: int

definition latest_first :: "cluster \<Rightarrow> cluster \<Rightarrow> int" where
  "latest_first a b = lastPlaced b - lastPlaced a"

definition list_duplicates ::
  "(string \<Rightarrow> string \<Rightarrow> int) \<Rightarrow> int \<Rightarrow> string \<Rightarrow> nat \<Rightarrow> nat \<Rightarrow> nat \<Rightarrow> ('a risk_db_scheme, dup_page) act" where
  "list_duplicates lc now store days page limit =
     (let start = now - int days * DAY_MILLIS in
      bnd (reading (detect lc store (start - LOOKBACK_MARGIN_MS) now None)) (\<lambda>found.
        let cs = js_sort latest_first (filter (\<lambda>c. start \<le> lastPlaced c) found) in
        ret \<lparr>dg_from = start, dg_totalGroups = length cs, dg_totalDuplicates = sum_list (map (\<lambda>c. length (cl_duplicates c)) cs),
             dg_data = take (page * limit - (page - 1) * limit) (drop ((page - 1) * limit) cs),
             dg_totalPages = \<lceil>of_nat (length cs) / (of_nat limit :: rat)\<rceil>\<rparr>))"

definition clustersContaining :: "(string \<Rightarrow> string \<Rightarrow> int) \<Rightarrow> string \<Rightarrow> string list \<Rightarrow> ('a risk_db_scheme, cluster list) act" where
  "clustersContaining lc store ids =
     bnd (reading (\<lambda>s. filter (\<lambda>r. do_id r \<in> set ids \<and> do_store r = store) (dup_orders s))) (\<lambda>orders.
     andthen (require (length orders = length ids) (NotFound ''Order not found''))
     (let us = first_occurrences (concat (map (\<lambda>r. case do_customer r of None \<Rightarrow> [] | Some u \<Rightarrow> if u = [] then [] else [u]) orders));
          times = map do_placedAt orders in
      if us = [] then ret []
      else reading (detect lc store (Min (set times) - LOOKBACK_MARGIN_MS) (Max (set times) + LOOKBACK_MARGIN_MS) (Some us))))"

definition group_of :: "cluster list \<Rightarrow> string \<Rightarrow> cluster option" where
  "group_of cs i = find (\<lambda>c. i \<in> cd_id ` set (cluster_members c)) (rev cs)"

definition order_in :: "cluster \<Rightarrow> string \<Rightarrow> dup_order" where
  "order_in c i = (case find (\<lambda>m. cd_id m = i) (cluster_members c) of Some m \<Rightarrow> cd_row m | None \<Rightarrow> cd_row (cl_main c))"

fun join_comma :: "string list \<Rightarrow> string" where
  "join_comma [] = []"
| "join_comma [x] = x"
| "join_comma (x # xs) = x @ '', '' @ join_comma xs"

definition check_selection :: "cluster list \<Rightarrow> string list \<Rightarrow> ('s, unit) act" where
  "check_selection cs ids =
     andthen (for_each (\<lambda>c. require (\<exists>m \<in> set (cluster_members c). cd_id m \<notin> set ids)
         (BadRequest (''Keep at least one order from the group of '' @ dup_label (cd_row (cl_main c))))) cs)
     (let missing = filter (\<lambda>i. group_of cs i = None) ids in
      require (missing = []) (BadRequest (''Not in a duplicate group: '' @ join_comma missing)))"

definition create_review :: "review \<Rightarrow> ('a risk_db_scheme, unit) act" where
  "create_review v = bnd (reading (\<lambda>s. list_ex (\<lambda>x. rv_order x = rv_order v) (reviews s))) (\<lambda>taken.
     andthen (require (\<not> taken) UniqueViolation) (writing (\<lambda>s. s\<lparr>reviews := reviews s @ [v]\<rparr>)))"

text \<open>\<open>upsert\<close> of an event with an empty update.\<close>

definition note_event :: "order_event \<Rightarrow> ('a risk_db_scheme, unit) act" where
  "note_event e = writing (\<lambda>s. if list_ex (\<lambda>x. oe_order x = oe_order e \<and> oe_key x = oe_key e) (order_events s) then s
     else s\<lparr>order_events := order_events s @ [e]\<rparr>)"

definition cancel_order_row :: "int \<Rightarrow> string \<Rightarrow> 'a risk_db_scheme \<Rightarrow> 'a risk_db_scheme" where
  "cancel_order_row now i s = s\<lparr>dup_orders := map (\<lambda>r. if do_id r = i \<and> do_status r \<noteq> ORDER_CANCELLED
     then r\<lparr>do_status := ORDER_CANCELLED, do_cancelledAt := Some now\<rparr> else r) (dup_orders s)\<rparr>"

definition main_after :: "cluster \<Rightarrow> string list \<Rightarrow> string \<Rightarrow> string option" where
  "main_after c ids i = (if cd_id (cl_main c) = i
     then map_option cd_id (find (\<lambda>d. cd_id d \<notin> set ids) (cl_duplicates c)) else Some (cd_id (cl_main c)))"

definition cancelled_event :: "int \<Rightarrow> cluster \<Rightarrow> string list \<Rightarrow> string \<Rightarrow> order_event" where
  "cancelled_event now c ids i =
     (let platform = do_platform (order_in c i);
          main = (case main_after c ids i of None \<Rightarrow> ''another order'' | Some m \<Rightarrow> dup_label (order_in c m)) in
      \<lparr>oe_order = i, oe_key = ''system-duplicate-cancelled-'' @ i, oe_type = ''DUPLICATE_ORDER_CANCELLED'',
       oe_title = ''Cancelled as a duplicate order'',
       oe_message = Some (if platform = PLATFORM_MANUAL then ''Duplicate of '' @ main @ ''.''
         else ''Duplicate of '' @ main @ ''. Cancelled in Zomaal only '' @ em_dash @ '' cancel it on '' @ platformName platform @ '' too.''),
       oe_occurredAt = now\<rparr>)"

record cancelled_row =
  cx_order :: string
  cx_name :: "string option"
  cx_platform :: platform
  cx_onPlatform :: bool

definition dispatch_status :: "string \<Rightarrow> 'a risk_db_scheme \<Rightarrow> string option" where
  "dispatch_status i s = (case find (\<lambda>r. do_id r = i) (dup_orders s) of None \<Rightarrow> None | Some r \<Rightarrow> do_dispatch r)"

definition cancel_duplicate ::
  "int \<Rightarrow> string \<Rightarrow> string \<Rightarrow> cluster list \<Rightarrow> string list \<Rightarrow> string \<Rightarrow> cancelled_row list \<Rightarrow> ('a risk_db_scheme, cancelled_row list) act" where
  "cancel_duplicate now store user cs ids i done' = (case group_of cs i of
       None \<Rightarrow> throw (Internal ''Cannot read properties of undefined'')
     | Some c \<Rightarrow> let row = order_in c i; manual = (do_platform row = PLATFORM_MANUAL) in
         bnd (reading (dispatch_status i)) (\<lambda>d.
         andthen (require (d \<in> {None, Some ''FAILED''})
           (Conflict (dup_label row @ '' was already sent to a courier and can't be cancelled here'')))
         (andthen (create_review \<lparr>rv_store = store, rv_order = i, rv_main = main_after c ids i,
             rv_decision = CANCELLED_DUPLICATE, rv_user = user\<rparr>)
         (andthen (if manual then writing (cancel_order_row now i) else ret ())
         (andthen (note_event (cancelled_event now c ids i))
           (ret (done' @ [\<lparr>cx_order = i, cx_name = do_name row, cx_platform = do_platform row, cx_onPlatform = \<not> manual\<rparr>])))))))"

definition resolve_groups :: "int \<Rightarrow> string \<Rightarrow> cluster list \<Rightarrow> ('a risk_db_scheme, unit) act" where
  "resolve_groups now store cs = resolve_alerts now store (map (\<lambda>c. duplicateNotificationKey (cd_id (cl_main c))) cs)"

definition ALREADY_REVIEWED :: error where
  "ALREADY_REVIEWED = Conflict (''One of these orders was already reviewed '' @ em_dash @ '' refresh the list'')"

definition cancel_duplicates ::
  "(string \<Rightarrow> string \<Rightarrow> int) \<Rightarrow> int \<Rightarrow> string \<Rightarrow> string \<Rightarrow> string list \<Rightarrow> ('a risk_db_scheme, cancelled_row list) act" where
  "cancel_duplicates lc now store user ids = (\<lambda>s.
     case transaction (bnd (clustersContaining lc store ids) (\<lambda>cs.
         andthen (check_selection cs ids)
         (bnd (fold_act (cancel_duplicate now store user cs ids) ids []) (\<lambda>rows. ret (cs, rows))))) s of
       (Inl UniqueViolation, t) \<Rightarrow> (Inl ALREADY_REVIEWED, t)
     | (Inl e, t) \<Rightarrow> (Inl e, t)
     | (Inr (cs, rows), t) \<Rightarrow> andthen (resolve_groups now store cs) (ret rows) t)"

definition kept_review :: "string \<Rightarrow> string \<Rightarrow> string \<Rightarrow> candidate \<Rightarrow> review" where
  "kept_review store user main d = \<lparr>rv_store = store, rv_order = cd_id d, rv_main = Some main, rv_decision = KEPT, rv_user = user\<rparr>"

text \<open>\<open>createMany\<close> with \<open>skipDuplicates\<close>: the number of rows it has inserted.\<close>

definition keep_one :: "review \<Rightarrow> nat \<Rightarrow> ('a risk_db_scheme, nat) act" where
  "keep_one v n = bnd (reading (\<lambda>s. list_ex (\<lambda>x. rv_order x = rv_order v) (reviews s))) (\<lambda>taken.
     if taken then ret n else andthen (writing (\<lambda>s. s\<lparr>reviews := reviews s @ [v]\<rparr>)) (ret (n + 1)))"

definition keepGroup :: "(string \<Rightarrow> string \<Rightarrow> int) \<Rightarrow> int \<Rightarrow> string \<Rightarrow> string \<Rightarrow> string \<Rightarrow> ('a risk_db_scheme, nat) act" where
  "keepGroup lc now store user main =
     bnd (transaction (bnd (clustersContaining lc store [main]) (\<lambda>cs.
       bnd (found (find (\<lambda>c. cd_id (cl_main c) = main) cs) (NotFound ''Duplicate group not found'')) (\<lambda>c.
       bnd (fold_act keep_one (map (kept_review store user main) (cl_duplicates c)) 0) (\<lambda>n. ret (c, n)))))) (\<lambda>(c, n).
     andthen (resolve_groups now store [c]) (ret n))"

definition duplicate_alert :: "string \<Rightarrow> string \<Rightarrow> cluster \<Rightarrow> wa_alert" where
  "duplicate_alert store i c = \<lparr>al_store = store, al_type = ''DUPLICATE_ORDERS'', al_title = ''Possible duplicate order'',
     al_message = dup_label (order_in c i) @ '' looks like a duplicate of '' @ dup_label (cd_row (cl_main c)) @ '' '' @ em_dash @
       '' same customer and product within '' @ show_int DUPLICATE_WINDOW_HOURS @ '' hours. Review it before shipping.'',
     al_dedupe = Some (duplicateNotificationKey (cd_id (cl_main c))), al_resolvedAt = None\<rparr>"

definition checkNewOrder :: "(string \<Rightarrow> string \<Rightarrow> int) \<Rightarrow> int \<Rightarrow> string \<Rightarrow> string \<Rightarrow> string \<Rightarrow> ('a risk_db_scheme, unit) act" where
  "checkNewOrder lc now store customer i =
     bnd (reading (\<lambda>s. find (\<lambda>r. do_id r = i) (dup_orders s))) (\<lambda>order. case order of
       None \<Rightarrow> ret ()
     | Some r \<Rightarrow> if now - do_placedAt r > NOTIFY_MAX_AGE_MS then ret ()
         else bnd (reading (detect lc store (do_placedAt r - LOOKBACK_MARGIN_MS) (do_placedAt r + DUPLICATE_WINDOW_MS + 1) (Some [customer]))) (\<lambda>cs.
           case find (\<lambda>c. i \<in> cd_id ` set (cl_duplicates c)) cs of
             None \<Rightarrow> ret ()
           | Some c \<Rightarrow> raise_alert (duplicate_alert store i c)))"

definition isCancelledDuplicate :: "string \<Rightarrow> 'a risk_db_scheme \<Rightarrow> bool" where
  "isCancelledDuplicate i s \<longleftrightarrow> map_option rv_decision (find (\<lambda>v. rv_order v = i) (reviews s)) = Some CANCELLED_DUPLICATE"

section \<open>What cancelling does\<close>

definition manual_in :: "cluster list \<Rightarrow> string \<Rightarrow> bool" where
  "manual_in cs i \<longleftrightarrow> (case group_of cs i of None \<Rightarrow> False | Some c \<Rightarrow> do_platform (order_in c i) = PLATFORM_MANUAL)"

definition cancel_review :: "string \<Rightarrow> string \<Rightarrow> cluster list \<Rightarrow> string list \<Rightarrow> string \<Rightarrow> review" where
  "cancel_review store user cs ids i = \<lparr>rv_store = store, rv_order = i,
     rv_main = (case group_of cs i of None \<Rightarrow> None | Some c \<Rightarrow> main_after c ids i), rv_decision = CANCELLED_DUPLICATE, rv_user = user\<rparr>"

definition closed_row :: "int \<Rightarrow> (string \<Rightarrow> bool) \<Rightarrow> dup_order \<Rightarrow> dup_order" where
  "closed_row now P r = (if P (do_id r) \<and> do_status r \<noteq> ORDER_CANCELLED
     then r\<lparr>do_status := ORDER_CANCELLED, do_cancelledAt := Some now\<rparr> else r)"

lemma closed_row_sel [simp]:
  "do_id (closed_row now P r) = do_id r" "do_dispatch (closed_row now P r) = do_dispatch r"
  by (simp_all add: closed_row_def)

lemma closed_row_step: "closed_row now Q (closed_row now P r) = closed_row now (\<lambda>i. P i \<or> Q i) r"
  unfolding closed_row_def by (cases "P (do_id r)"; cases "Q (do_id r)"; cases "do_status r = ORDER_CANCELLED") auto

lemma closed_row_none: "closed_row now (\<lambda>_. False) = id"
  by (simp add: closed_row_def fun_eq_iff)

lemma cancel_row_closed: "dup_orders (cancel_order_row now i s) = map (closed_row now (\<lambda>j. j = i)) (dup_orders s)"
  by (simp add: cancel_order_row_def closed_row_def)

lemma dispatch_status_closed: "dup_orders t = map (closed_row now P) (dup_orders s) \<Longrightarrow> dispatch_status i t = dispatch_status i s"
proof -
  have "find (\<lambda>r. do_id r = i) (map (closed_row now P) rs) = map_option (closed_row now P) (find (\<lambda>r. do_id r = i) rs)" for rs
    by (induction rs) auto
  then show "dup_orders t = map (closed_row now P) (dup_orders s) \<Longrightarrow> ?thesis"
    by (simp add: dispatch_status_def split: option.split)
qed

lemma cancel_duplicate_run:
  assumes "cancel_duplicate now store user cs ids i acc s = (Inr rows, t)"
  shows "group_of cs i \<noteq> None \<and> dispatch_status i s \<in> {None, Some ''FAILED''} \<and> (\<forall>v \<in> set (reviews s). rv_order v \<noteq> i) \<and>
    reviews t = reviews s @ [cancel_review store user cs ids i] \<and>
    dup_orders t = map (closed_row now (\<lambda>j. j = i \<and> manual_in cs i)) (dup_orders s) \<and> map cx_order rows = map cx_order acc @ [i]"
proof (cases "group_of cs i")
  case None then show ?thesis using assms by (simp add: cancel_duplicate_def throw_def)
next
  case (Some c)
  have ev: "reviews (snd (note_event e w)) = reviews w" "dup_orders (snd (note_event e w)) = dup_orders w" for e and w :: "'a risk_db_scheme"
    by (simp_all add: note_event_def writing_def)
  have no: "map (closed_row now (\<lambda>_. False)) xs = xs" for xs by (simp add: closed_row_none)
  have keep: "reviews (cancel_order_row now i w) = reviews w" for w :: "'a risk_db_scheme" by (simp add: cancel_order_row_def)
  show ?thesis
    using assms Some
    by (cases "do_platform (order_in c i) = PLATFORM_MANUAL")
      (auto simp: cancel_duplicate_def Let_def andthen_def bnd_def reading_def require_def throw_def ret_def create_review_def
        writing_def note_event_def manual_in_def cancel_review_def list_ex_iff cancel_row_closed keep no split: if_splits)
qed

lemma cancel_loop:
  assumes "fold_act (cancel_duplicate now store user cs ids) is acc s = (Inr rows, t)"
  shows "(\<forall>i \<in> set is. group_of cs i \<noteq> None \<and> dispatch_status i s \<in> {None, Some ''FAILED''} \<and> (\<forall>v \<in> set (reviews s). rv_order v \<noteq> i)) \<and>
    distinct is \<and> reviews t = reviews s @ map (cancel_review store user cs ids) is \<and>
    dup_orders t = map (closed_row now (\<lambda>j. j \<in> set is \<and> manual_in cs j)) (dup_orders s) \<and> map cx_order rows = map cx_order acc @ is"
  using assms
proof (induction "is" arbitrary: acc s)
  case Nil then show ?case by (simp add: ret_def closed_row_none)
next
  case (Cons i "is")
  then obtain a u where u: "cancel_duplicate now store user cs ids i acc s = (Inr a, u)"
    and rest: "fold_act (cancel_duplicate now store user cs ids) is a u = (Inr rows, t)" by (auto simp: run_ok)
  note one = cancel_duplicate_run[OF u] and more = Cons(1)[OF rest]
  have own: "rv_order (cancel_review store user cs ids i) = i" by (simp add: cancel_review_def)
  have disp: "dispatch_status j u = dispatch_status j s" for j using one dispatch_status_closed by blast
  have fresh: "i \<notin> set is" using one more own by auto
  have orders: "dup_orders t = map (closed_row now (\<lambda>j. j \<in> set (i # is) \<and> manual_in cs j)) (dup_orders s)"
    using one more by (simp add: closed_row_step comp_def) (auto simp: closed_row_def)
  show ?case using one more own disp fresh orders by auto
qed

lemma detect_members:
  assumes "collation lc" "distinct (map do_id (dup_orders s))"
    and "c \<in> set (detect lc store start stop us s)" "x \<in> set (cluster_members c)"
  shows "\<exists>r \<in> set (dup_orders s). detectable store start stop s r \<and> x = candidate_of r"
proof -
  define rows where "rows = filter (detectable store start stop s) (dup_orders s)"
  define wanted where "wanted = (case us of Some us \<Rightarrow> filter (\<lambda>r. do_customer r \<in> Some ` set us) rows
      | None \<Rightarrow> filter (\<lambda>r. length (customer_orders (do_customer r) rows) > 1) rows)"
  have c: "c \<in> set (clusterDuplicateOrders lc DUPLICATE_WINDOW_MS (Some rows_match) (map candidate_of wanted))"
    using assms(3) unfolding detect_def wanted_def rows_def Let_def .
  have ids: "map cd_id (map candidate_of wanted) = map do_id wanted" by (simp add: candidate_of_def)
  have "distinct (map do_id rows)" unfolding rows_def by (rule distinct_map_filter[OF assms(2)])
  then have "distinct (map do_id wanted)" unfolding wanted_def by (cases us) (simp_all add: distinct_map_filter)
  then have "distinct (map cd_id (map candidate_of wanted))" unfolding ids .
  from set_mset_mono[OF clusters_part[OF assms(1) this, of DUPLICATE_WINDOW_MS rows_match]]
  have "x \<in> set (map candidate_of wanted)" using c assms(4) by auto
  then have "\<exists>r \<in> set rows. x = candidate_of r" by (auto simp: wanted_def split: option.splits)
  then show ?thesis by (auto simp: rows_def)
qed

lemma containing_run:
  assumes "clustersContaining lc store ids s = (Inr cs, t)"
  shows "t = s \<and> (\<forall>c \<in> set cs. \<exists>start stop us. c \<in> set (detect lc store start stop us s))"
  using assms by (auto simp: clustersContaining_def Let_def andthen_def bnd_def reading_def require_def throw_def ret_def split: if_splits)

lemma containing_members:
  assumes "collation lc" "distinct (map do_id (dup_orders s))" "clustersContaining lc store ids s = (Inr cs, t)"
    and "c \<in> set cs" "x \<in> set (cluster_members c)"
  shows "\<exists>r \<in> set (dup_orders s). x = candidate_of r \<and> do_status r \<noteq> ORDER_CANCELLED \<and> (\<forall>v \<in> set (reviews s). rv_order v \<noteq> do_id r)"
proof -
  obtain start stop us where "c \<in> set (detect lc store start stop us s)" using containing_run[OF assms(3)] assms(4) by blast
  from detect_members[OF assms(1,2) this assms(5)] show ?thesis by (auto simp: detectable_def list_ex_iff)
qed

lemma candidate_sel [simp]: "cd_id (candidate_of r) = do_id r" "cd_row (candidate_of r) = r" "cd_placedAt (candidate_of r) = do_placedAt r"
  by (simp_all add: candidate_of_def)

lemma group_of_in: "group_of cs i = Some c \<Longrightarrow> c \<in> set cs \<and> i \<in> cd_id ` set (cluster_members c)"
  unfolding group_of_def by (drule find_Some_set) auto

lemma order_in_row:
  assumes "collation lc" "distinct (map do_id (dup_orders s))" "clustersContaining lc store ids s = (Inr cs, t)"
    and "group_of cs (do_id r) = Some c" "r \<in> set (dup_orders s)"
  shows "order_in c (do_id r) = r"
proof -
  obtain x where x: "find (\<lambda>m. cd_id m = do_id r) (cluster_members c) = Some x"
    using group_of_in[OF assms(4)] by (cases "find (\<lambda>m. cd_id m = do_id r) (cluster_members c)") (auto simp: find_None_iff)
  then have "x \<in> set (cluster_members c)" "cd_id x = do_id r" by (auto dest: find_Some_set)
  moreover then obtain q where "q \<in> set (dup_orders s)" "x = candidate_of q"
    using containing_members[OF assms(1-3)] group_of_in[OF assms(4)] by blast
  ultimately have "q = r" "x = candidate_of r" using assms(2,5) by (auto simp: distinct_map dest: inj_onD)
  then show ?thesis using x by (simp add: order_in_def)
qed

lemma for_each_require:
  "for_each (\<lambda>x. require (P x) (e x)) xs s = (Inr u, t) \<Longrightarrow> t = s \<and> (\<forall>x \<in> set xs. P x)"
  by (induction xs) (auto simp: andthen_def bnd_def require_def ret_def throw_def split: if_splits)

lemma check_selection_ok:
  assumes "check_selection cs ids s = (Inr u, t)"
  shows "t = s \<and> (\<forall>c \<in> set cs. \<exists>x \<in> set (cluster_members c). cd_id x \<notin> set ids)"
proof -
  from assms obtain v w where loop: "for_each (\<lambda>c. require (\<exists>m \<in> set (cluster_members c). cd_id m \<notin> set ids)
      (BadRequest (''Keep at least one order from the group of '' @ dup_label (cd_row (cl_main c))))) cs s = (Inr v, w)"
    and "require (filter (\<lambda>i. group_of cs i = None) ids = []) (BadRequest (''Not in a duplicate group: '' @
       join_comma (filter (\<lambda>i. group_of cs i = None) ids))) w = (Inr u, t)"
    unfolding check_selection_def Let_def by (auto simp only: run_ok)
  then have "t = w" by (simp only: require_def ret_def throw_def split: if_splits) auto
  then show ?thesis using for_each_require[OF loop] by blast
qed

text \<open>
  C10: Cancelling selected duplicates is all or nothing and never empties a group. When it succeeds, no
  selected order was on its way to a courier, each has one new review as cancelled, of the orders
  exactly the selected manual ones are closed, and every group keeps an order that is open and not
  reviewed; when it fails nothing has changed.
\<close>

theorem cancel_keeps_one:
  assumes "collation lc" "distinct (map do_id (dup_orders s))" "cancel_duplicates lc now store user ids s = (r, t)"
  shows "(case r of Inl e \<Rightarrow> t = s
    | Inr rows \<Rightarrow> map cx_order rows = ids \<and> distinct ids \<and>
        (\<forall>i \<in> set ids. dispatch_status i s \<in> {None, Some ''FAILED''}) \<and>
        (\<exists>vs. reviews t = reviews s @ vs \<and> map rv_order vs = ids \<and> (\<forall>v \<in> set vs. rv_decision v = CANCELLED_DUPLICATE)) \<and>
        dup_orders t = map (closed_row now (\<lambda>i. i \<in> set ids \<and> (\<exists>q \<in> set (dup_orders s). do_id q = i \<and> do_platform q = PLATFORM_MANUAL)))
          (dup_orders s) \<and>
        (\<exists>cs. clustersContaining lc store ids s = (Inr cs, s) \<and> (\<forall>c \<in> set cs. \<exists>x \<in> set (cluster_members c).
          cd_row x \<in> set (dup_orders t) \<and> do_status (cd_row x) \<noteq> ORDER_CANCELLED \<and> (\<forall>v \<in> set (reviews t). rv_order v \<noteq> cd_id x))))"
proof (cases r)
  case (Inl e)
  then show ?thesis using assms(3)
    by (auto simp: cancel_duplicates_def transaction_def andthen_def bnd_def ret_def resolve_groups_def resolve_alerts_def writing_def
      split: prod.splits sum.splits error.splits)
next
  case (Inr rows)
  from assms(3) Inr obtain cs u where body: "bnd (clustersContaining lc store ids) (\<lambda>cs. andthen (check_selection cs ids)
         (bnd (fold_act (cancel_duplicate now store user cs ids) ids []) (\<lambda>rows. ret (cs, rows)))) s = (Inr (cs, rows), u)"
    and t: "t = snd (resolve_groups now store cs u)"
    by (auto simp: cancel_duplicates_def transaction_def andthen_def bnd_def ret_def resolve_groups_def resolve_alerts_def writing_def
      split: prod.splits sum.splits error.splits)
  then obtain v w where cs: "clustersContaining lc store ids s = (Inr cs, v)" and sel: "check_selection cs ids v = (Inr (), w)"
    and loop: "fold_act (cancel_duplicate now store user cs ids) ids [] w = (Inr rows, u)" by (auto simp: run_ok)
  have vw: "v = s" "w = s" and left: "\<forall>c \<in> set cs. \<exists>x \<in> set (cluster_members c). cd_id x \<notin> set ids"
    using containing_run[OF cs] check_selection_ok[OF sel] by simp_all
  have tu: "reviews t = reviews u" "dup_orders t = dup_orders u" by (simp_all add: t resolve_groups_def resolve_alerts_def writing_def)
  note done' = cancel_loop[OF loop, unfolded vw]
  have manual: "manual_in cs (do_id q) \<longleftrightarrow> do_platform q = PLATFORM_MANUAL"
    if "q \<in> set (dup_orders s)" "do_id q \<in> set ids" for q
    using done' that order_in_row[OF assms(1,2) cs _ that(1)] by (auto simp: manual_in_def split: option.split)
  have same: "closed_row now (\<lambda>i. i \<in> set ids \<and> manual_in cs i) q = closed_row now (\<lambda>i. i \<in> set ids \<and>
      (\<exists>q \<in> set (dup_orders s). do_id q = i \<and> do_platform q = PLATFORM_MANUAL)) q" if q: "q \<in> set (dup_orders s)" for q
  proof -
    have "p = q" if "p \<in> set (dup_orders s)" "do_id p = do_id q" for p using that q assms(2) by (auto simp: distinct_map dest: inj_onD)
    then show ?thesis using manual[OF q] q unfolding closed_row_def by metis
  qed
  have orders: "dup_orders t = map (closed_row now (\<lambda>i. i \<in> set ids \<and> (\<exists>q \<in> set (dup_orders s). do_id q = i \<and> do_platform q = PLATFORM_MANUAL)))
      (dup_orders s)" using done' same tu by simp
  have own: "map rv_order (map (cancel_review store user cs ids) is) = is" for "is" by (simp add: cancel_review_def comp_def)
  have "\<exists>x \<in> set (cluster_members c). cd_row x \<in> set (dup_orders t) \<and> do_status (cd_row x) \<noteq> ORDER_CANCELLED \<and>
      (\<forall>v \<in> set (reviews t). rv_order v \<noteq> cd_id x)" if c: "c \<in> set cs" for c
  proof -
    obtain x where x: "x \<in> set (cluster_members c)" "cd_id x \<notin> set ids" using left c by blast
    from containing_members[OF assms(1,2) cs c x(1)] obtain q where q: "q \<in> set (dup_orders s)" "x = candidate_of q"
      "do_status q \<noteq> ORDER_CANCELLED" "\<forall>v \<in> set (reviews s). rv_order v \<noteq> do_id q" by blast
    have "cd_row x \<in> set (dup_orders t)" using q x(2) unfolding orders by (force simp: closed_row_def)
    moreover have "\<forall>v \<in> set (reviews t). rv_order v \<noteq> cd_id x" using q x(2) done' tu by (auto simp: cancel_review_def)
    moreover have "do_status (cd_row x) \<noteq> ORDER_CANCELLED" using q(2,3) by simp
    ultimately show ?thesis using x(1) by blast
  qed
  moreover have "\<exists>vs. reviews t = reviews s @ vs \<and> map rv_order vs = ids \<and> (\<forall>v \<in> set vs. rv_decision v = CANCELLED_DUPLICATE)"
    using done' tu own by (intro exI[of _ "map (cancel_review store user cs ids) ids"]) (auto simp: cancel_review_def)
  ultimately show ?thesis using Inr done' orders cs vw by auto
qed

section \<open>A customer who orders again and again\<close>

definition text_order :: "string \<Rightarrow> string \<Rightarrow> int" where
  "text_order a b = (if a = b then 0 else if a < b then - 1 else 1)"

lemma text_collation: "collation text_order"
  by (auto simp: collation_def text_order_def)

definition sample_dup_line :: dup_line where
  "sample_dup_line = \<lparr>dl_name = ''Tea'', dl_quantity = 1, dl_sku = None, dl_variant = Some ''v'', dl_product = None, dl_external = None\<rparr>"

definition again :: "string \<Rightarrow> int \<Rightarrow> dup_order" where
  "again i hours = \<lparr>do_id = i, do_store = ''s'', do_connection = ''c'', do_platform = PLATFORM_MANUAL, do_name = None,
     do_status = ORDER_OPEN, do_placedAt = hours * 3600000, do_cancelledAt = None, do_customer = Some ''u'', do_dispatch = None,
     do_lines = [sample_dup_line]\<rparr>"

definition with_orders :: "dup_order list \<Rightarrow> risk_db" where
  "with_orders os = \<lparr>user_rows = [], store_rows = [], role_rows = [], staff_rows = [], wa_connections = [], wa_templates = [],
     wa_settings = [], wa_messages = [], wa_entries = [], wa_pricing = [], wa_alerts = [], wa_orders = [], wa_dispatches = [],
     dup_orders = os, reviews = [], order_events = [], customers = [], risk_limits = []\<rparr>"

lemma duplicate_groups_exact_witness:
  "\<exists>c \<in> set (clusterDuplicateOrders text_order DUPLICATE_WINDOW_MS (Some rows_match) (map candidate_of [again ''b'' 5, again ''a'' 0])).
     candidate_of (again ''b'' 5) \<in> set (cl_duplicates c)"
proof -
  let ?a = "candidate_of (again ''a'' 0)" and ?b = "candidate_of (again ''b'' 5)"
  have "distinct (map cd_id [?b, ?a])" by (simp add: again_def)
  note g = duplicate_groups_exact[OF text_collation this, of DUPLICATE_WINDOW_MS rows_match]
  have "cd_customer ?a = cd_customer ?b \<and> earlier text_order ?a ?b \<and> rows_match ?b ?a \<and> cd_placedAt ?b - cd_placedAt ?a \<le> DUPLICATE_WINDOW_MS"
    by (simp add: again_def candidate_of_def earlier_iff rows_match_def duplicateLinesMatch_def sample_dup_line_def truthy_def
        DUPLICATE_WINDOW_MS_def DUPLICATE_WINDOW_HOURS_def Let_def)
  then have "\<exists>c \<in> set (clusterDuplicateOrders text_order DUPLICATE_WINDOW_MS (Some rows_match) [?b, ?a]). ?b \<in> set (cl_duplicates c) \<or>
      ?a \<in> set (cl_duplicates c) \<and> DUPLICATE_WINDOW_MS < cd_placedAt ?b - cd_placedAt (cl_main c)"
    by (intro conjunct2[OF conjunct2[OF g], THEN bspec, THEN bspec, THEN mp]) simp_all
  then obtain c where c: "c \<in> set (clusterDuplicateOrders text_order DUPLICATE_WINDOW_MS (Some rows_match) [?b, ?a])"
    "?b \<in> set (cl_duplicates c) \<or> ?a \<in> set (cl_duplicates c) \<and> DUPLICATE_WINDOW_MS < cd_placedAt ?b - cd_placedAt (cl_main c)"
    by blast
  have "set (cluster_members c) \<subseteq> set [?b, ?a]" using conjunct1[OF g] c(1) by blast
  then have "cd_placedAt (cl_main c) \<in> {cd_placedAt ?a, cd_placedAt ?b}" by (auto simp: cluster_members_def)
  then have "\<not> DUPLICATE_WINDOW_MS < cd_placedAt ?b - cd_placedAt (cl_main c)"
    by (auto simp: again_def DUPLICATE_WINDOW_MS_def DUPLICATE_WINDOW_HOURS_def)
  then show ?thesis using c by auto
qed

lemma cancel_keeps_one_witness:
  "dup_orders (snd (cancel_duplicates text_order 0 ''s'' ''m'' [''b''] (with_orders [again ''a'' 0, again ''b'' 5]))) =
     [again ''a'' 0, (again ''b'' 5)\<lparr>do_status := ORDER_CANCELLED, do_cancelledAt := Some 0\<rparr>]"
proof -
  let ?s = "with_orders [again ''a'' 0, again ''b'' 5]"
  have d: "distinct (map do_id (dup_orders ?s))" by (simp add: with_orders_def again_def)
  obtain r t where run: "cancel_duplicates text_order 0 ''s'' ''m'' [''b''] ?s = (r, t)" by fastforce
  have "\<not> isl (fst (cancel_duplicates text_order 0 ''s'' ''m'' [''b''] ?s))" by code_simp
  then obtain rows where r: "r = Inr rows" using run by (cases r) auto
  have "dup_orders t = map (closed_row 0 (\<lambda>i. i \<in> set [''b''] \<and> (\<exists>q \<in> set (dup_orders ?s). do_id q = i \<and> do_platform q = PLATFORM_MANUAL)))
      (dup_orders ?s)"
    using cancel_keeps_one[OF text_collation d run] r by simp
  then show ?thesis unfolding run by (simp add: with_orders_def again_def closed_row_def)
qed

text \<open>
  The margin of seven days is not enough for the list and the decisions to agree. A customer orders the same
  product every 22 hours for eight days: the list shows a group led by his ninth order, but \<open>keepGroup\<close>
  sees his orders from the second one on, pairs them differently and does not find that group.
\<close>

definition steady :: risk_db where
  "steady = with_orders (map (\<lambda>(i, h). again i h) [(''0'', 0), (''1'', 22), (''2'', 44), (''3'', 66), (''4'', 88), (''5'', 110), (''6'', 132),
     (''7'', 154), (''8'', 176), (''9'', 198)])"

lemma shown_group_not_found:
  "map (\<lambda>c. cd_id (cl_main c)) (detect text_order ''s'' (- 800 * 3600000) (200 * 3600000) None steady) = [''0'', ''2'', ''4'', ''6'', ''8''] \<and>
   fst (keepGroup text_order (200 * 3600000) ''s'' ''m'' ''8'' steady) = Inl (NotFound ''Duplicate group not found'')"
  by code_simp

end
