(* ===== verification/Customer_Risk.thy ===== *)
theory Customer_Risk
  imports Duplicate_Orders
begin

text \<open>
  The risk record of a store's customers: \<open>src/customers/customer-risk.util.ts\<close>, \<open>customer-phone.util.ts\<close>,
  \<open>customer-risk.service.ts\<close> and what \<open>customers.service.ts\<close> derives from a row. A customer is known by his
  phone number, which comes in many spellings; four counters of bad outcomes lead to the blacklist.
\<close>

section \<open>src/customers/customer-risk.util.ts\<close>

datatype risk_label = RISK_RETURNS | RISK_CANCELLATIONS | RISK_REFUSALS | RISK_NO_ANSWER | RISK_COMBINED

record risk_distance =
  rd_category :: risk_label
  rd_current :: int
  rd_limit :: int
  rd_remaining :: int

definition risk_of :: "risk_label \<Rightarrow> int \<Rightarrow> int \<Rightarrow> risk_distance list" where
  "risk_of k current limit = (if limit > 0
     then [\<lparr>rd_category = k, rd_current = current, rd_limit = limit, rd_remaining = limit - current\<rparr>] else [])"

definition total_risk :: "risk_customer \<Rightarrow> int" where
  "total_risk c = cu_returns c + cu_cancellations c + cu_refusals c + cu_noAnswer c"

definition computeRiskDistances :: "risk_customer \<Rightarrow> risk_settings \<Rightarrow> risk_distance list" where
  "computeRiskDistances c b = (if bs_useCombined b then risk_of RISK_COMBINED (total_risk c) (bs_combined b)
     else risk_of RISK_RETURNS (cu_returns c) (bs_returns b) @ risk_of RISK_CANCELLATIONS (cu_cancellations c) (bs_cancellations b) @
       risk_of RISK_REFUSALS (cu_refusals c) (bs_refusals b) @ risk_of RISK_NO_ANSWER (cu_noAnswer c) (bs_noAnswer b))"

definition hasCrossedRiskLimit :: "risk_distance list \<Rightarrow> bool" where
  "hasCrossedRiskLimit ds \<longleftrightarrow> list_ex (\<lambda>d. rd_remaining d \<le> 0) ds"

definition closestRiskProximity :: "risk_distance list \<Rightarrow> risk_distance option" where
  "closestRiskProximity ds = (case filter (\<lambda>d. 0 \<le> rd_remaining d \<and> rd_remaining d \<le> 1) ds of
       [] \<Rightarrow> None
     | d # near \<Rightarrow> Some (fold (\<lambda>d closest. if rd_remaining d < rd_remaining closest then d else closest) near d))"

section \<open>src/customers/customer-phone.util.ts\<close>

text \<open>
  libphonenumber is a parameter: it reads a text in a default country, if one is given, and answers with
  the validity, the E.164 form, the national number and its national spelling.
\<close>

record parsed_phone =
  pp_valid :: bool
  pp_number :: string
  pp_national :: string
  pp_formatted :: string

type_synonym phone_parser = "string option \<Rightarrow> string \<Rightarrow> parsed_phone option"

record phone_identity =
  id_phone :: string
  id_aliases :: "string list"

definition is_digit :: "char \<Rightarrow> bool" where
  "is_digit c \<longleftrightarrow> 48 \<le> (of_char c :: nat) \<and> (of_char c :: nat) \<le> 57"

definition digits_of :: "string \<Rightarrow> string" where
  "digits_of = filter is_digit"

definition phone_char :: "char \<Rightarrow> bool" where
  "phone_char c \<longleftrightarrow> is_digit c \<or> is_space c \<or> c \<in> set ''+().-''"

definition valid_phone :: "parsed_phone option \<Rightarrow> bool" where
  "valid_phone p \<longleftrightarrow> (case p of None \<Rightarrow> False | Some x \<Rightarrow> pp_valid x)"

definition verbatim :: "string \<Rightarrow> phone_identity" where
  "verbatim value = \<lparr>id_phone = value, id_aliases = [digits_of value]\<rparr>"

definition parse_phone :: "phone_parser \<Rightarrow> string \<Rightarrow> string \<Rightarrow> parsed_phone option" where
  "parse_phone P country value =
     (let international = (if starts_with ''00'' value then ''+'' @ drop 2 value else value);
          parsed = P (Some country) international in
      if \<not> valid_phone parsed \<and> take 1 international \<noteq> ''+'' \<and> take 1 international \<noteq> ''0''
      then P None (''+'' @ digits_of international) else parsed)"

definition customerPhoneIdentity :: "wa_env \<Rightarrow> phone_parser \<Rightarrow> string option \<Rightarrow> string \<Rightarrow> phone_identity option" where
  "customerPhoneIdentity E P raw country = (case or_null raw of
       None \<Rightarrow> None
     | Some value \<Rightarrow> if \<not> list_all phone_char value then Some (verbatim value)
         else (case parse_phone P (resolveCountryCode E country) value of
             None \<Rightarrow> Some (verbatim value)
           | Some x \<Rightarrow> if \<not> pp_valid x then Some (verbatim value)
               else Some \<lparr>id_phone = pp_number x, id_aliases = first_occurrences [drop 1 (pp_number x), ''00'' @ drop 1 (pp_number x),
                 pp_national x, digits_of (pp_formatted x), digits_of value]\<rparr>))"

section \<open>src/customers/customer-risk.service.ts\<close>

datatype risk_category = RETURNS | CANCELLATIONS | REFUSALS | NO_ANSWER

text \<open>A field that may be absent from the request: \<open>None\<close> is \<open>undefined\<close>, \<open>Some None\<close> is \<open>null\<close>.\<close>

record customer_input =
  ni_phone :: "string option"
  ni_name :: "string option option"
  ni_address :: "string option option"
  ni_city :: "string option option"

definition metadata :: "customer_input \<Rightarrow> risk_customer \<Rightarrow> risk_customer" where
  "metadata d c = c\<lparr>cu_name := (case ni_name d of None \<Rightarrow> cu_name c | Some x \<Rightarrow> or_null x),
     cu_address := (case ni_address d of None \<Rightarrow> cu_address c | Some x \<Rightarrow> or_null x),
     cu_city := (case ni_city d of None \<Rightarrow> cu_city c | Some x \<Rightarrow> or_null x)\<rparr>"

definition new_customer :: "string \<Rightarrow> string \<Rightarrow> string \<Rightarrow> risk_customer" where
  "new_customer i store phone = \<lparr>cu_id = i, cu_store = store, cu_phone = phone, cu_name = None, cu_address = None, cu_city = None,
     cu_totalOrders = 0, cu_returns = 0, cu_cancellations = 0, cu_refusals = 0, cu_noAnswer = 0,
     cu_blacklisted = False, cu_reason = None, cu_blacklistedAt = None\<rparr>"

definition find_customer :: "string \<Rightarrow> 'a risk_db_scheme \<Rightarrow> risk_customer option" where
  "find_customer i s = find (\<lambda>c. cu_id c = i) (customers s)"

definition edit_customer :: "string \<Rightarrow> (risk_customer \<Rightarrow> risk_customer) \<Rightarrow> 'a risk_db_scheme \<Rightarrow> 'a risk_db_scheme" where
  "edit_customer i f s = s\<lparr>customers := map (\<lambda>c. if cu_id c = i then f c else c) (customers s)\<rparr>"

text \<open>\<open>update\<close> by the id: it raises when there is no such row and returns the new one.\<close>

definition update_customer :: "string \<Rightarrow> (risk_customer \<Rightarrow> risk_customer) \<Rightarrow> ('a risk_db_scheme, risk_customer) act" where
  "update_customer i f = bnd (reading (find_customer i)) (\<lambda>c.
     bnd (found c (Internal ''Record to update not found'')) (\<lambda>c. andthen (writing (edit_customer i f)) (ret (f c))))"

text \<open>The rows of the store whose phone has one of the alias digit strings and the same identity.\<close>

definition same_phone :: "wa_env \<Rightarrow> phone_parser \<Rightarrow> string \<Rightarrow> string \<Rightarrow> phone_identity \<Rightarrow> 'a risk_db_scheme \<Rightarrow> risk_customer list" where
  "same_phone E P store country identity s = filter (\<lambda>c. cu_store c = store \<and> digits_of (cu_phone c) \<in> set (id_aliases identity) \<and>
     map_option id_phone (customerPhoneIdentity E P (Some (cu_phone c)) country) = Some (id_phone identity)) (customers s)"

definition MANY_RECORDS :: error where
  "MANY_RECORDS = Conflict ''Multiple historical customer records use this phone. Reconcile their histories before adding another order.''"

definition store_by_phone :: "string \<Rightarrow> customer_input \<Rightarrow> string \<Rightarrow> string \<Rightarrow> ('a risk_db_scheme, risk_customer) act" where
  "store_by_phone store d phone uuid =
     bnd (reading (\<lambda>s. find (\<lambda>c. cu_store c = store \<and> cu_phone c = phone) (customers s))) (\<lambda>row. case row of
       Some c \<Rightarrow> update_customer (cu_id c) (metadata d)
     | None \<Rightarrow> let c = metadata d (new_customer uuid store phone) in
         andthen (writing (\<lambda>s. s\<lparr>customers := customers s @ [c]\<rparr>)) (ret c))"

definition rename_customer :: "risk_customer \<Rightarrow> customer_input \<Rightarrow> string \<Rightarrow> ('a risk_db_scheme, risk_customer) act" where
  "rename_customer c d phone =
     bnd (reading (\<lambda>s. list_ex (\<lambda>x. cu_store x = cu_store c \<and> cu_phone x = phone) (customers s))) (\<lambda>taken.
     andthen (require (\<not> taken) UniqueViolation) (update_customer (cu_id c) (\<lambda>c. metadata d (c\<lparr>cu_phone := phone\<rparr>))))"

definition upsertCustomer ::
  "wa_env \<Rightarrow> phone_parser \<Rightarrow> string \<Rightarrow> customer_input \<Rightarrow> string \<Rightarrow> ('a risk_db_scheme, risk_customer option) act" where
  "upsertCustomer E P store d uuid = (if or_null (ni_phone d) = None then ret None
     else bnd (reading (find_store store)) (\<lambda>row.
       bnd (found row (Internal ''No Store found'')) (\<lambda>row.
       bnd (found (customerPhoneIdentity E P (ni_phone d) (st_country row)) (Internal ''Cannot read properties of null'')) (\<lambda>identity.
       transaction (bnd (reading (same_phone E P store (st_country row) identity)) (\<lambda>equivalent. case equivalent of
           _ # _ # _ \<Rightarrow> throw MANY_RECORDS
         | [c] \<Rightarrow> if cu_phone c \<noteq> id_phone identity then bnd (rename_customer c d (id_phone identity)) (\<lambda>c. ret (Some c))
             else bnd (store_by_phone store d (id_phone identity) uuid) (\<lambda>c. ret (Some c))
         | [] \<Rightarrow> bnd (store_by_phone store d (id_phone identity) uuid) (\<lambda>c. ret (Some c))))))))"

definition default_limits :: "string \<Rightarrow> risk_settings" where
  "default_limits store = \<lparr>bs_store = store, bs_returns = 0, bs_cancellations = 0, bs_refusals = 0, bs_noAnswer = 0,
     bs_useCombined = False, bs_combined = 0, bs_warn = True\<rparr>"

definition getSettings :: "string \<Rightarrow> ('a risk_db_scheme, risk_settings) act" where
  "getSettings store = bnd (reading (\<lambda>s. find (\<lambda>b. bs_store b = store) (risk_limits s))) (\<lambda>row. case row of
       Some b \<Rightarrow> ret b
     | None \<Rightarrow> andthen (writing (\<lambda>s. s\<lparr>risk_limits := risk_limits s @ [default_limits store]\<rparr>)) (ret (default_limits store)))"

record limits_input =
  li_returns :: "int option"
  li_cancellations :: "int option"
  li_refusals :: "int option"
  li_noAnswer :: "int option"
  li_useCombined :: "bool option"
  li_combined :: "int option"
  li_warn :: "bool option"

definition or_kept :: "'b option \<Rightarrow> 'b \<Rightarrow> 'b" where
  "or_kept x old = (case x of None \<Rightarrow> old | Some v \<Rightarrow> v)"

definition merged_limits :: "limits_input \<Rightarrow> risk_settings \<Rightarrow> risk_settings" where
  "merged_limits d b = b\<lparr>bs_returns := or_kept (li_returns d) (bs_returns b), bs_cancellations := or_kept (li_cancellations d) (bs_cancellations b),
     bs_refusals := or_kept (li_refusals d) (bs_refusals b), bs_noAnswer := or_kept (li_noAnswer d) (bs_noAnswer b),
     bs_useCombined := or_kept (li_useCombined d) (bs_useCombined b), bs_combined := or_kept (li_combined d) (bs_combined b),
     bs_warn := or_kept (li_warn d) (bs_warn b)\<rparr>"

definition updateSettings :: "string \<Rightarrow> limits_input \<Rightarrow> ('a risk_db_scheme, risk_settings) act" where
  "updateSettings store d = bnd (getSettings store) (\<lambda>b.
     andthen (writing (\<lambda>s. s\<lparr>risk_limits := map (\<lambda>x. if bs_store x = store then merged_limits d x else x) (risk_limits s)\<rparr>))
       (ret (merged_limits d b)))"

definition evaluateThreshold :: "risk_customer \<Rightarrow> risk_settings \<Rightarrow> bool" where
  "evaluateThreshold c b = hasCrossedRiskLimit (computeRiskDistances c b)"

definition counted :: "int \<Rightarrow> string \<Rightarrow> string \<Rightarrow> string list" where
  "counted n one many = (if n > 0 then [show_int n @ '' '' @ (if n = 1 then one else many)] else [])"

definition autoBlacklistReason :: "risk_customer \<Rightarrow> string" where
  "autoBlacklistReason c =
     (let parts = counted (cu_returns c) ''return'' ''returns'' @ counted (cu_cancellations c) ''cancellation'' ''cancellations'' @
        counted (cu_refusals c) ''refusal'' ''refusals'' @ counted (cu_noAnswer c) ''no-answer'' ''no-answer''
      in if parts = [] then ''Risk threshold reached'' else join_comma parts)"

definition bump_counter :: "risk_category \<Rightarrow> risk_customer \<Rightarrow> risk_customer" where
  "bump_counter k c = (case k of
       RETURNS \<Rightarrow> c\<lparr>cu_returns := cu_returns c + 1\<rparr>
     | CANCELLATIONS \<Rightarrow> c\<lparr>cu_cancellations := cu_cancellations c + 1\<rparr>
     | REFUSALS \<Rightarrow> c\<lparr>cu_refusals := cu_refusals c + 1\<rparr>
     | NO_ANSWER \<Rightarrow> c\<lparr>cu_noAnswer := cu_noAnswer c + 1\<rparr>)"

definition blacklist_row :: "int \<Rightarrow> string \<Rightarrow> risk_customer \<Rightarrow> risk_customer" where
  "blacklist_row now reason c = c\<lparr>cu_blacklisted := True, cu_reason := Some reason, cu_blacklistedAt := Some now\<rparr>"

text \<open>
  The increment is one statement and returns the row it has written; the settings are read and the
  row is judged afterwards, so other calls may come between the two halves.
\<close>

definition count_risk :: "string \<Rightarrow> risk_category \<Rightarrow> ('a risk_db_scheme, risk_customer) act" where
  "count_risk i k = update_customer i (bump_counter k)"

definition judge_risk :: "int \<Rightarrow> string \<Rightarrow> risk_customer \<Rightarrow> ('a risk_db_scheme, bool) act" where
  "judge_risk now store c =
     (if cu_blacklisted c then ret True
      else bnd (getSettings store) (\<lambda>b.
        if \<not> evaluateThreshold c b then ret False
        else andthen (update_customer (cu_id c) (blacklist_row now (autoBlacklistReason c))) (ret True)))"

definition incrementRiskCounter :: "int \<Rightarrow> string \<Rightarrow> string \<Rightarrow> risk_category \<Rightarrow> ('a risk_db_scheme, bool) act" where
  "incrementRiskCounter now store i k = bnd (count_risk i k) (judge_risk now store)"

definition recordCancellation :: "int \<Rightarrow> string \<Rightarrow> string \<Rightarrow> string \<Rightarrow> ('a risk_db_scheme, bool option) act" where
  "recordCancellation now store i oid = bnd (reading (isCancelledDuplicate oid)) (\<lambda>duplicate.
     if duplicate then ret None else bnd (incrementRiskCounter now store i CANCELLATIONS) (\<lambda>b. ret (Some b)))"

text \<open>\<open>catch\<close> with an empty handler.\<close>

definition swallow :: "('s, 'b) act \<Rightarrow> ('s, unit) act" where
  "swallow m = (\<lambda>s. (Inr (), snd (m s)))"

definition recordShipmentOutcome ::
  "wa_env \<Rightarrow> phone_parser \<Rightarrow> int \<Rightarrow> string \<Rightarrow> customer_input \<Rightarrow> risk_category \<Rightarrow> string \<Rightarrow> ('a risk_db_scheme, unit) act" where
  "recordShipmentOutcome E P now u d k uuid = (\<lambda>s. case requireStore u s of
       (Inl _, t) \<Rightarrow> (Inr (), t)
     | (Inr row, t) \<Rightarrow> bnd (upsertCustomer E P (st_id row) d uuid) (\<lambda>c. case c of
           None \<Rightarrow> ret ()
         | Some c \<Rightarrow> andthen (incrementRiskCounter now (st_id row) (cu_id c) k) (ret ())) t)"

definition requireCustomer :: "string \<Rightarrow> string \<Rightarrow> ('a risk_db_scheme, risk_customer) act" where
  "requireCustomer store i = bnd (reading (\<lambda>s. find (\<lambda>c. cu_id c = i \<and> cu_store c = store) (customers s))) (\<lambda>c.
     found c (NotFound ''Customer not found''))"

definition addToBlacklist :: "int \<Rightarrow> string \<Rightarrow> string \<Rightarrow> string option \<Rightarrow> ('a risk_db_scheme, risk_customer) act" where
  "addToBlacklist now store i reason = bnd (requireCustomer store i) (\<lambda>c.
     update_customer (cu_id c) (blacklist_row now (case or_null reason of Some r \<Rightarrow> r | None \<Rightarrow> autoBlacklistReason c)))"

definition cleared_row :: "risk_customer \<Rightarrow> risk_customer" where
  "cleared_row c = c\<lparr>cu_blacklisted := False, cu_reason := None, cu_blacklistedAt := None,
     cu_returns := 0, cu_cancellations := 0, cu_refusals := 0, cu_noAnswer := 0\<rparr>"

definition removeFromBlacklist :: "string \<Rightarrow> string \<Rightarrow> ('a risk_db_scheme, risk_customer) act" where
  "removeFromBlacklist store i = andthen (requireCustomer store i) (update_customer i cleared_row)"

definition blacklisted_alert :: "string \<Rightarrow> string \<Rightarrow> string option \<Rightarrow> wa_alert" where
  "blacklisted_alert store oid name = \<lparr>al_store = store, al_type = ''BLACKLISTED_CUSTOMER_ORDER'',
     al_title = ''Blacklisted customer placed an order'',
     al_message = (if truthy name then ''Order '' @ the name else ''A new order'') @ '' is from a blacklisted customer. Review it before shipping.'',
     al_dedupe = Some (''BLACKLISTED_CUSTOMER_ORDER:'' @ oid), al_resolvedAt = None\<rparr>"

definition warning_event :: "string \<Rightarrow> int \<Rightarrow> order_event" where
  "warning_event oid occurredAt = \<lparr>oe_order = oid, oe_key = ''system-blacklist-warning-'' @ oid, oe_type = ''CUSTOMER_BLACKLISTED_WARNING'',
     oe_title = ''Blacklisted customer placed a new order'', oe_message = None, oe_occurredAt = occurredAt\<rparr>"

text \<open>An invalid date is \<open>None\<close>. \<open>updateMany\<close> does not raise when the customer is gone.\<close>

definition recordNewOrder ::
  "(string \<Rightarrow> string \<Rightarrow> int) \<Rightarrow> int \<Rightarrow> string \<Rightarrow> string \<Rightarrow> bool \<Rightarrow> string \<Rightarrow> int option \<Rightarrow> ('a risk_db_scheme, unit) act" where
  "recordNewOrder lc now store i blacklisted oid occurredAt =
     andthen (writing (edit_customer i (\<lambda>c. c\<lparr>cu_totalOrders := cu_totalOrders c + 1\<rparr>)))
     (andthen (swallow (checkNewOrder lc now store i oid))
     (if \<not> blacklisted then ret ()
      else bnd (getSettings store) (\<lambda>b. if \<not> bs_warn b then ret ()
        else andthen (note_event (warning_event oid (or_kept occurredAt now)))
          (swallow (bnd (reading (\<lambda>s. find (\<lambda>r. do_id r = oid) (dup_orders s))) (\<lambda>r.
             raise_alert (blacklisted_alert store oid (Option.bind r do_name))))))))"

section \<open>src/customers/customers.service.ts\<close>

definition is_high_risk :: "risk_settings \<Rightarrow> risk_customer \<Rightarrow> bool" where
  "is_high_risk b c \<longleftrightarrow> \<not> cu_blacklisted c \<and> closestRiskProximity (computeRiskDistances c b) \<noteq> None"

definition AT_RISK_SCAN_LIMIT :: nat where "AT_RISK_SCAN_LIMIT = 1000"

definition AT_RISK_DISPLAY_LIMIT :: nat where "AT_RISK_DISPLAY_LIMIT = 50"

text \<open>The candidates come latest changed first; the search has been applied to them.\<close>

definition at_risk_customers :: "risk_settings \<Rightarrow> risk_customer list \<Rightarrow> (string \<times> risk_distance) list" where
  "at_risk_customers b candidates = take AT_RISK_DISPLAY_LIMIT (List.map_filter (\<lambda>c.
     map_option (Pair (cu_id c)) (closestRiskProximity (computeRiskDistances c b)))
     (take AT_RISK_SCAN_LIMIT (filter (\<lambda>c. \<not> cu_blacklisted c) candidates)))"

definition formatAddress :: "risk_customer \<Rightarrow> string option" where
  "formatAddress c = (case filter (\<lambda>x. x \<noteq> []) (List.map_filter id [cu_address c, cu_city c]) of [] \<Rightarrow> None | xs \<Rightarrow> Some (join_comma xs))"

definition status_label :: "string \<Rightarrow> string option" where
  "status_label = map_of [(''ORDER_CREATED'', ''Order placed''), (''ORDER_CONFIRMED'', ''Confirmed''), (''ORDER_CANCELLED'', ''Cancelled''),
     (''ORDER_CLOSED'', ''Closed''), (''PAYMENT_PENDING'', ''Payment pending''), (''PAYMENT_AUTHORIZED'', ''Payment authorized''),
     (''PAYMENT_PAID'', ''Paid''), (''PAYMENT_PARTIALLY_PAID'', ''Partially paid''), (''PAYMENT_REFUNDED'', ''Refunded''),
     (''PAYMENT_VOIDED'', ''Payment voided''), (''FULFILLMENT_PENDING'', ''Pending fulfillment''), (''FULFILLMENT_CREATED'', ''Fulfilled''),
     (''LABEL_CREATED'', ''Shipping label created''), (''PICKED_UP'', ''Picked up''), (''IN_TRANSIT'', ''In transit''),
     (''OUT_FOR_DELIVERY'', ''Out for delivery''), (''DELIVERED'', ''Delivered''), (''DELIVERY_FAILED'', ''Delivery failed''),
     (''FULFILLMENT_CANCELLED'', ''Cancelled''), (''RETURN_REQUESTED'', ''Return requested''), (''RETURN_IN_TRANSIT'', ''Return in transit''),
     (''RETURNED'', ''Returned''), (''CUSTOMER_BLACKLISTED_WARNING'', ''Order placed''), (''OTHER'', ''Updated''),
     (''CANCELLED'', ''Cancelled''), (''OPEN'', ''Open''), (''CLOSED'', ''Closed'')]"

definition displayStatus :: "string list \<Rightarrow> string \<Rightarrow> string" where
  "displayStatus types fallback = (if fallback = ''CANCELLED'' \<or> ''DUPLICATE_ORDER_CANCELLED'' \<in> set types then ''Cancelled''
     else let derived = or_kept (deriveCurrentStatus types) fallback in or_kept (status_label derived) derived)"

section \<open>Counting and blacklisting\<close>

definition limits_of :: "string \<Rightarrow> 'a risk_db_scheme \<Rightarrow> risk_settings" where
  "limits_of store s = (case find (\<lambda>b. bs_store b = store) (risk_limits s) of Some b \<Rightarrow> b | None \<Rightarrow> default_limits store)"

lemma getSettings_run:
  "\<exists>t. getSettings store s = (Inr (limits_of store s), t) \<and> customers t = customers s \<and> (\<forall>x. limits_of x t = limits_of x s)"
proof (cases "find (\<lambda>b. bs_store b = store) (risk_limits s)")
  case None
  have "limits_of x (s\<lparr>risk_limits := risk_limits s @ [default_limits store]\<rparr>) = limits_of x s" for x
    by (cases "find (\<lambda>b. bs_store b = x) (risk_limits s)") (auto simp: limits_of_def find_snoc default_limits_def)
  then show ?thesis using None by (simp add: getSettings_def act_defs limits_of_def)
next
  case (Some b) then show ?thesis by (simp add: getSettings_def act_defs limits_of_def)
qed

lemma edit_customer_sel [simp]:
  "customers (edit_customer i f s) = map (\<lambda>c. if cu_id c = i then f c else c) (customers s)"
  "limits_of x (edit_customer i f s) = limits_of x s" "store_rows (edit_customer i f s) = store_rows s"
  by (simp_all add: edit_customer_def limits_of_def)

lemma update_customer_run:
  "update_customer i f s = (case find_customer i s of None \<Rightarrow> (Inl (Internal ''Record to update not found''), s)
     | Some c \<Rightarrow> (Inr (f c), edit_customer i f s))"
  by (simp add: update_customer_def act_defs found_def split: option.split)

lemma bump_sel [simp]:
  "cu_id (bump_counter k c) = cu_id c" "cu_store (bump_counter k c) = cu_store c" "cu_phone (bump_counter k c) = cu_phone c"
  "cu_blacklisted (bump_counter k c) = cu_blacklisted c"
  by (cases k; simp add: bump_counter_def)+

lemma find_edited_customer:
  assumes "\<And>c. cu_id (f c) = cu_id c" "customers t = customers (edit_customer i f s)"
  shows "find_customer i t = map_option f (find_customer i s)"
proof -
  have "find (\<lambda>c. cu_id c = i) (map (\<lambda>c. if cu_id c = i then f c else c) cs) = map_option f (find (\<lambda>c. cu_id c = i) cs)" for cs
    using assms(1) by (induction cs) auto
  then show ?thesis using assms(2) by (simp add: find_customer_def)
qed

text \<open>Under every limit that is switched on: what the settings screen promises, written out.\<close>

definition under_limits :: "risk_settings \<Rightarrow> risk_customer \<Rightarrow> bool" where
  "under_limits b c \<longleftrightarrow> (if bs_useCombined b
     then 0 < bs_combined b \<longrightarrow> cu_returns c + cu_cancellations c + cu_refusals c + cu_noAnswer c < bs_combined b
     else (0 < bs_returns b \<longrightarrow> cu_returns c < bs_returns b) \<and> (0 < bs_cancellations b \<longrightarrow> cu_cancellations c < bs_cancellations b) \<and>
       (0 < bs_refusals b \<longrightarrow> cu_refusals c < bs_refusals b) \<and> (0 < bs_noAnswer b \<longrightarrow> cu_noAnswer c < bs_noAnswer b))"

lemma threshold_limits: "evaluateThreshold c b \<longleftrightarrow> \<not> under_limits b c"
  by (auto simp: evaluateThreshold_def hasCrossedRiskLimit_def computeRiskDistances_def risk_of_def total_risk_def under_limits_def)

text \<open>
  \<open>ps\<close> are the rows that counting calls have written and still have to judge. A row agrees with the
  limits \<open>b\<close>: its counters are not negative, it is on the blacklist, or under every limit, or such
  a call is about to put it there; and exactly the rows on the blacklist have a reason and a date.
\<close>

definition risk_row :: "risk_customer \<Rightarrow> bool" where
  "risk_row c \<longleftrightarrow> 0 \<le> cu_returns c \<and> 0 \<le> cu_cancellations c \<and> 0 \<le> cu_refusals c \<and> 0 \<le> cu_noAnswer c \<and>
     (cu_reason c \<noteq> None) = cu_blacklisted c \<and> (cu_blacklistedAt c \<noteq> None) = cu_blacklisted c"

definition judged_next :: "risk_customer list \<Rightarrow> risk_settings \<Rightarrow> risk_customer \<Rightarrow> bool" where
  "judged_next ps b c \<longleftrightarrow> (\<exists>p \<in> set ps. cu_id p = cu_id c \<and> cu_store p = cu_store c \<and> \<not> cu_blacklisted p \<and> \<not> under_limits b p)"

definition watched_row :: "risk_customer list \<Rightarrow> risk_settings \<Rightarrow> risk_customer \<Rightarrow> bool" where
  "watched_row ps b c \<longleftrightarrow> risk_row c \<and> (cu_blacklisted c \<or> under_limits b c \<or> judged_next ps b c)"

definition risk_inv :: "risk_customer list \<Rightarrow> 'a risk_db_scheme \<Rightarrow> bool" where
  "risk_inv ps s \<longleftrightarrow> distinct (map cu_id (customers s)) \<and> (\<forall>c \<in> set (customers s). watched_row ps (limits_of (cu_store c) s) c)"

lemma no_counts_under:
  "cu_returns c = 0 \<Longrightarrow> cu_cancellations c = 0 \<Longrightarrow> cu_refusals c = 0 \<Longrightarrow> cu_noAnswer c = 0 \<Longrightarrow> under_limits b c"
  by (simp add: under_limits_def)

lemma metadata_sel [simp]: "cu_id (metadata d c) = cu_id c" "cu_store (metadata d c) = cu_store c" "cu_phone (metadata d c) = cu_phone c"
  by (simp_all add: metadata_def)

lemma watched_metadata [simp]: "watched_row ps b (metadata d c) = watched_row ps b c"
  by (simp add: watched_row_def risk_row_def under_limits_def judged_next_def) (simp add: metadata_def)

lemma watched_phone [simp]: "watched_row ps b (c\<lparr>cu_phone := p\<rparr>) = watched_row ps b c"
  "watched_row ps b (c\<lparr>cu_totalOrders := n\<rparr>) = watched_row ps b c"
  by (simp_all add: watched_row_def risk_row_def under_limits_def judged_next_def)

lemma watched_cleared: "watched_row ps b (cleared_row c)"
  by (simp add: watched_row_def risk_row_def under_limits_def cleared_row_def)

lemma watched_blacklist: "watched_row ps b c \<Longrightarrow> watched_row qs b (blacklist_row now r c)"
  by (simp add: watched_row_def risk_row_def blacklist_row_def)

lemma watched_more: "watched_row ps b c \<Longrightarrow> set ps \<subseteq> set qs \<Longrightarrow> watched_row qs b c"
  by (auto simp: watched_row_def judged_next_def)

lemma inv_edit:
  assumes "risk_inv ps s" "\<And>c. cu_id (f c) = cu_id c" "\<And>c. cu_store (f c) = cu_store c"
    and "\<And>c. c \<in> set (customers s) \<Longrightarrow> watched_row ps (limits_of (cu_store c) s) c \<Longrightarrow>
      watched_row qs (limits_of (cu_store c) s) (if cu_id c = i then f c else c)"
  shows "risk_inv qs (edit_customer i f s)"
proof -
  have "cu_id \<circ> (\<lambda>c. if cu_id c = i then f c else c) = cu_id" using assms(2) by auto
  moreover have "watched_row qs (limits_of (cu_store (if cu_id c = i then f c else c)) s) (if cu_id c = i then f c else c)"
    if "c \<in> set (customers s)" for c using that assms(1,3) assms(4)[OF that] by (auto simp: risk_inv_def)
  then have "\<forall>c \<in> set (map (\<lambda>c. if cu_id c = i then f c else c) (customers s)). watched_row qs (limits_of (cu_store c) s) c"
    unfolding set_map by blast
  ultimately show ?thesis using assms(1) by (simp add: risk_inv_def)
qed

lemma inv_same: "risk_inv ps s \<Longrightarrow> customers t = customers s \<Longrightarrow> \<forall>x. limits_of x t = limits_of x s \<Longrightarrow> risk_inv ps t"
  by (simp add: risk_inv_def)

lemma inv_tables: "risk_inv ps s \<Longrightarrow> customers t = customers s \<Longrightarrow> risk_limits t = risk_limits s \<Longrightarrow> risk_inv ps t"
  by (simp add: risk_inv_def limits_of_def)

lemma inv_update:
  assumes "risk_inv ps s" "update_customer i f s = (r, t)" "\<And>c. cu_id (f c) = cu_id c" "\<And>c. cu_store (f c) = cu_store c"
    and "\<And>c b. watched_row ps b c \<Longrightarrow> watched_row ps b (f c)"
  shows "risk_inv ps t"
  using assms(2) inv_edit[OF assms(1) assms(3,4), of ps i] assms(1,5) by (auto simp: update_customer_run split: option.splits)

text \<open>The first half leaves a row that still has to be judged; the second judges it.\<close>

lemma inv_count:
  assumes "risk_inv ps s" "count_risk i k s = (Inr c, t)"
  shows "risk_inv (ps @ [c]) t"
proof -
  obtain x where x: "find_customer i s = Some x" "c = bump_counter k x" "t = edit_customer i (bump_counter k) s"
    using assms(2) by (auto simp: count_risk_def update_customer_run split: option.splits)
  have ids: "distinct (map cu_id (customers s))" using assms(1) by (simp add: risk_inv_def)
  have own: "y = x" if "y \<in> set (customers s)" "cu_id y = i" for y
    using that x(1) ids unfolding find_customer_def by (auto dest!: find_Some_set simp: distinct_map dest: inj_onD)
  have row: "risk_row (bump_counter k y)" if "risk_row y" for y
    using that by (cases k) (auto simp: risk_row_def bump_counter_def)
  show ?thesis unfolding x(3)
  proof (rule inv_edit[OF assms(1)])
    fix y assume y: "y \<in> set (customers s)" "watched_row ps (limits_of (cu_store y) s) y"
    show "watched_row (ps @ [c]) (limits_of (cu_store y) s) (if cu_id y = i then bump_counter k y else y)"
    proof (cases "cu_id y = i")
      case True
      then have "c = bump_counter k y" using own y(1) x(2) by simp
      then show ?thesis using True y(2) row by (auto simp: watched_row_def judged_next_def)
    next
      case False then show ?thesis using watched_more[OF y(2), of "ps @ [c]"] by auto
    qed
  qed simp_all
qed

lemma inv_judge:
  assumes "risk_inv ps s" "judge_risk now (cu_store c) c s = (r, t)"
  shows "risk_inv (remove1 c ps) t"
proof -
  have less: "watched_row (remove1 c ps) b y" if "watched_row ps b y" "cu_id y = cu_id c \<and> cu_store y = cu_store c \<longrightarrow> cu_blacklisted c \<or> under_limits b c"
    for b y
  proof -
    have "p \<in> set (remove1 c ps)" if "p \<in> set ps" "p \<noteq> c" for p using that by (simp add: in_set_remove1)
    then show ?thesis using that unfolding watched_row_def judged_next_def by metis
  qed
  obtain v where v: "getSettings (cu_store c) s = (Inr (limits_of (cu_store c) s), v)" "customers v = customers s"
    "\<forall>x. limits_of x v = limits_of x s" using getSettings_run by metis
  have inv: "risk_inv ps v" by (rule inv_same[OF assms(1) v(2,3)])
  show ?thesis
  proof (cases "cu_blacklisted c \<or> under_limits (limits_of (cu_store c) s) c")
    case True
    then have "t = s \<or> t = v" using assms(2) v(1) by (auto simp: judge_risk_def act_defs threshold_limits split: if_splits)
    then have "customers t = customers s" "\<forall>x. limits_of x t = limits_of x s" using v by auto
    moreover have "watched_row (remove1 c ps) (limits_of (cu_store y) s) y" if "y \<in> set (customers s)" for y
      using that less True assms(1) by (auto simp: risk_inv_def)
    ultimately show ?thesis using assms(1) by (simp add: risk_inv_def)
  next
    case False
    let ?R = "autoBlacklistReason c"
    have "t = v \<and> find_customer (cu_id c) v = None \<or> t = edit_customer (cu_id c) (blacklist_row now ?R) v"
      using assms(2) v(1) False
      by (auto simp: judge_risk_def bnd_def andthen_def ret_def threshold_limits update_customer_run split: option.splits)
    then show ?thesis
    proof (elim disjE conjE)
      assume t: "t = v" and none: "find_customer (cu_id c) v = None"
      have "watched_row (remove1 c ps) (limits_of (cu_store y) v) y" if "y \<in> set (customers v)" for y
        using that none inv less by (auto simp: find_customer_def find_None_iff risk_inv_def)
      then show ?thesis using inv t by (simp add: risk_inv_def)
    next
      assume "t = edit_customer (cu_id c) (blacklist_row now ?R) v"
      moreover have "risk_inv (remove1 c ps) (edit_customer (cu_id c) (blacklist_row now ?R) v)"
        by (rule inv_edit[OF inv]) (use less watched_blacklist in \<open>auto simp: blacklist_row_def\<close>)
      ultimately show ?thesis by simp
    qed
  qed
qed

lemma inv_store_by_phone:
  assumes inv: "risk_inv ps s" and run: "store_by_phone store d phone uuid s = (r, t)" and fresh: "uuid \<notin> cu_id ` set (customers s)"
  shows "risk_inv ps t \<and> (\<forall>c. r = Inr c \<longrightarrow> find_customer (cu_id c) t = Some c \<and> cu_store c = store \<and> cu_phone c = phone)"
proof (cases "find (\<lambda>c. cu_store c = store \<and> cu_phone c = phone) (customers s)")
  case None
  have new: "watched_row ps b (metadata d (new_customer uuid store phone))" for b
    unfolding watched_metadata by (simp add: watched_row_def risk_row_def under_limits_def new_customer_def)
  have sel: "cu_id (new_customer uuid store phone) = uuid" "cu_store (new_customer uuid store phone) = store"
    "cu_phone (new_customer uuid store phone) = phone" by (simp_all add: new_customer_def)
  have "find (\<lambda>c. cu_id c = uuid) (customers s) = None" using fresh by (auto simp: find_None_iff)
  then show ?thesis using None run inv new fresh sel
    by (auto simp: store_by_phone_def act_defs Let_def risk_inv_def limits_of_def find_customer_def find_snoc)
next
  case (Some c)
  then have c: "c \<in> set (customers s)" "cu_store c = store" "cu_phone c = phone" by (auto dest: find_Some_set)
  have ids: "distinct (map cu_id (customers s))" using inv by (simp add: risk_inv_def)
  have f: "find_customer (cu_id c) s = Some c" unfolding find_customer_def by (rule find_id[OF ids c(1)])
  have run': "update_customer (cu_id c) (metadata d) s = (r, t)" using run Some by (simp add: store_by_phone_def act_defs)
  then have t: "r = Inr (metadata d c)" "t = edit_customer (cu_id c) (metadata d) s" using f by (simp_all add: update_customer_run)
  have "find_customer (cu_id c) t = Some (metadata d c)"
    using find_edited_customer[of "metadata d" t "cu_id c" s] f t(2) by simp
  then show ?thesis using inv_update[OF inv run'] t(1) c by simp
qed

lemma inv_rename:
  assumes inv: "risk_inv ps s" and run: "rename_customer c d phone s = (r, t)" and c: "c \<in> set (customers s)"
  shows "risk_inv ps t \<and> (\<forall>x. r = Inr x \<longrightarrow> find_customer (cu_id x) t = Some x \<and> cu_store x = cu_store c \<and> cu_phone x = phone)"
proof -
  let ?f = "\<lambda>c. metadata d (c\<lparr>cu_phone := phone\<rparr>)"
  have ids: "distinct (map cu_id (customers s))" using inv by (simp add: risk_inv_def)
  have f: "find_customer (cu_id c) s = Some c" unfolding find_customer_def by (rule find_id[OF ids c])
  consider "\<exists>e. r = Inl e \<and> t = s" | "update_customer (cu_id c) ?f s = (r, t)"
    using run by (auto simp: rename_customer_def act_defs require_def split: if_splits)
  then show ?thesis
  proof cases
    case 1 then show ?thesis using inv by auto
  next
    case 2
    then have t: "r = Inr (?f c)" "t = edit_customer (cu_id c) ?f s" using f by (simp_all add: update_customer_run)
    have "find_customer (cu_id c) t = Some (?f c)" using find_edited_customer[of ?f t "cu_id c" s] f t(2) by simp
    then show ?thesis using inv_update[OF inv 2] t(1) by simp
  qed
qed

lemma bnd_reading: "bnd (reading f) g s = g (f s) s"
  by (simp add: bnd_def reading_def)

lemma bnd_found: "bnd (found (Some x) e) g = g x"
  by (simp add: bnd_def found_def ret_def fun_eq_iff)

lemma transaction_reading: "transaction (bnd (reading f) g) s = transaction (g (f s)) s"
  by (simp add: transaction_def bnd_reading)

lemma inv_upsert:
  assumes inv: "risk_inv ps s" and run: "upsertCustomer E P store d uuid s = (r, t)" and fresh: "uuid \<notin> cu_id ` set (customers s)"
  shows "risk_inv ps t \<and> (\<forall>c. r = Inr (Some c) \<longrightarrow> find_customer (cu_id c) t = Some c \<and> cu_store c = store)"
proof (cases "or_null (ni_phone d) = None \<or> find_store store s = None")
  case True
  then have "(r, t) = (if or_null (ni_phone d) = None then Inr None else Inl (Internal ''No Store found''), s)"
    using run by (cases "or_null (ni_phone d) = None") (auto simp: upsertCustomer_def act_defs found_def)
  then show ?thesis using inv by (auto split: if_splits)
next
  case False
  then obtain row where row: "find_store store s = Some row" and phone: "or_null (ni_phone d) \<noteq> None" by auto
  show ?thesis
  proof (cases "customerPhoneIdentity E P (ni_phone d) (st_country row)")
    case None
    then have "(r, t) = (Inl (Internal ''Cannot read properties of null''), s)"
      using run row phone by (simp add: upsertCustomer_def act_defs found_def)
    then show ?thesis using inv by simp
  next
    case (Some ident)
    let ?eq = "same_phone E P store (st_country row) ident s"
    let ?store = "store_by_phone store d (id_phone ident) uuid"
    let ?body = "case ?eq of _ # _ # _ \<Rightarrow> throw MANY_RECORDS
         | [c] \<Rightarrow> if cu_phone c \<noteq> id_phone ident then bnd (rename_customer c d (id_phone ident)) (\<lambda>c. ret (Some c))
             else bnd ?store (\<lambda>c. ret (Some c))
         | [] \<Rightarrow> bnd ?store (\<lambda>c. ret (Some c))"
    have run': "transaction ?body s = (r, t)"
      using run row phone Some unfolding upsertCustomer_def by (simp add: bnd_reading bnd_found transaction_reading)
    have own: "c \<in> set (customers s) \<and> cu_store c = store" if "?eq = [c]" for c
    proof -
      have "c \<in> set ?eq" using that by simp
      then show ?thesis by (simp add: same_phone_def)
    qed
    consider (many) "\<exists>e. r = Inl e \<and> t = s"
      | (renamed) c x where "?eq = [c]" "rename_customer c d (id_phone ident) s = (Inr x, t)" "r = Inr (Some x)"
      | (stored) x where "?store s = (Inr x, t)" "r = Inr (Some x)"
    proof -
      from run' show thesis
      proof (cases ?eq)
        case Nil then show thesis using run' that
          by (auto simp: transaction_def bnd_def ret_def split: prod.splits sum.splits)
      next
        case (Cons c cs) then show thesis using run' that
          by (cases cs) (auto simp: transaction_def bnd_def ret_def throw_def split: prod.splits sum.splits if_splits)
      qed
    qed
    then show ?thesis
    proof cases
      case many then show ?thesis using inv by auto
    next
      case (renamed c x)
      then show ?thesis using inv_rename[OF inv renamed(2)] own[OF renamed(1)] by auto
    next
      case (stored x)
      then show ?thesis using inv_store_by_phone[OF inv stored(1) fresh] by auto
    qed
  qed
qed

text \<open>
  The calls that touch the risk record, between two changes of the limits. A counting call writes
  its row and judges it later, so that calls interleave; the limits are those of the customer's
  store. \<open>recordCancellation\<close> and \<open>recordShipmentOutcome\<close> are made of these steps.
\<close>

inductive risk_step :: "wa_env \<Rightarrow> phone_parser \<Rightarrow> (string \<Rightarrow> string \<Rightarrow> int) \<Rightarrow>
    risk_customer list \<times> 'a risk_db_scheme \<Rightarrow> risk_customer list \<times> 'a risk_db_scheme \<Rightarrow> bool" for E P lc where
  upsert_step: "upsertCustomer E P store d uuid s = (r, t) \<Longrightarrow> uuid \<notin> cu_id ` set (customers s) \<Longrightarrow> risk_step E P lc (ps, s) (ps, t)"
| count_step: "count_risk i k s = (Inr c, t) \<Longrightarrow> risk_step E P lc (ps, s) (ps @ [c], t)"
| judge_step: "c \<in> set ps \<Longrightarrow> judge_risk now (cu_store c) c s = (r, t) \<Longrightarrow> risk_step E P lc (ps, s) (remove1 c ps, t)"
| add_step: "addToBlacklist now store i reason s = (r, t) \<Longrightarrow> risk_step E P lc (ps, s) (ps, t)"
| remove_step: "removeFromBlacklist store i s = (r, t) \<Longrightarrow> risk_step E P lc (ps, s) (ps, t)"
| read_step: "getSettings store s = (r, t) \<Longrightarrow> risk_step E P lc (ps, s) (ps, t)"
| order_step: "recordNewOrder lc now store i blacklisted oid at' s = (r, t) \<Longrightarrow> risk_step E P lc (ps, s) (ps, t)"

lemma require_customer_same: "requireCustomer store i s = (r, t) \<Longrightarrow> t = s"
  by (auto simp: requireCustomer_def act_defs found_def split: option.splits)

lemma check_customers: "customers (snd (checkNewOrder lc now store i oid s)) = customers s \<and> risk_limits (snd (checkNewOrder lc now store i oid s)) = risk_limits s"
  by (auto simp: checkNewOrder_def act_defs raise_alert_def split: option.split)

lemma inv_order:
  assumes "risk_inv ps s" "recordNewOrder lc now store i blacklisted oid at' s = (r, t)" shows "risk_inv ps t"
proof -
  let ?u = "edit_customer i (\<lambda>c. c\<lparr>cu_totalOrders := cu_totalOrders c + 1\<rparr>) s"
  have inv: "risk_inv ps ?u" by (rule inv_edit[OF assms(1)]) simp_all
  let ?v = "snd (checkNewOrder lc now store i oid ?u)"
  have v: "customers ?v = customers ?u" "risk_limits ?v = risk_limits ?u" using check_customers by blast+
  have vi: "risk_inv ps ?v" by (rule inv_tables[OF inv v])
  show ?thesis
  proof (cases blacklisted)
    case False then show ?thesis using assms(2) vi by (simp add: recordNewOrder_def act_defs swallow_def)
  next
    case True
    obtain b w where w: "getSettings store ?v = (Inr b, w)" "customers w = customers ?v" "\<forall>x. limits_of x w = limits_of x ?v"
      using getSettings_run[of store ?v] by auto
    then have wi: "risk_inv ps w" using inv_same[OF vi] by blast
    have "customers t = customers w \<and> risk_limits t = risk_limits w"
      using assms(2) True w(1)
      by (auto simp: recordNewOrder_def act_defs swallow_def note_event_def raise_alert_def split: if_splits)
    then show ?thesis by (intro inv_tables[OF wi]) simp_all
  qed
qed

lemma inv_add:
  assumes "risk_inv ps s" "addToBlacklist now store i reason s = (r, t)" shows "risk_inv ps t"
proof -
  obtain x v where v: "requireCustomer store i s = (x, v)" by fastforce
  then have vs: "v = s" by (rule require_customer_same)
  show ?thesis
  proof (cases x)
    case (Inl e) then show ?thesis using assms v vs by (simp add: addToBlacklist_def bnd_def)
  next
    case (Inr c)
    then obtain R where "update_customer (cu_id c) (blacklist_row now R) s = (r, t)"
      using assms(2) v vs by (auto simp: addToBlacklist_def bnd_def)
    then show ?thesis by (rule inv_update[OF assms(1)]) (auto simp: watched_blacklist, simp_all add: blacklist_row_def)
  qed
qed

lemma inv_remove:
  assumes "risk_inv ps s" "removeFromBlacklist store i s = (r, t)" shows "risk_inv ps t"
proof -
  obtain x v where v: "requireCustomer store i s = (x, v)" by fastforce
  then have vs: "v = s" by (rule require_customer_same)
  show ?thesis
  proof (cases x)
    case (Inl e) then show ?thesis using assms v vs by (simp add: removeFromBlacklist_def andthen_def bnd_def)
  next
    case (Inr c)
    then have "update_customer i cleared_row s = (r, t)" using assms(2) v vs by (simp add: removeFromBlacklist_def andthen_def bnd_def)
    then show ?thesis
      by (rule inv_update[OF assms(1)]) (simp_all add: watched_cleared, simp_all add: cleared_row_def)
  qed
qed

lemma risk_step_inv:
  assumes "risk_step E P lc (ps, s) (qs, t)" "risk_inv ps s" shows "risk_inv qs t"
  using assms(1)
proof cases
  case (upsert_step store d uuid r) then show ?thesis using inv_upsert assms(2) by blast
next
  case (count_step i k c) then show ?thesis using inv_count assms(2) by blast
next
  case (judge_step c now r) then show ?thesis using inv_judge assms(2) by blast
next
  case (add_step now store i reason r) then show ?thesis using inv_add assms(2) by blast
next
  case (remove_step store i r) then show ?thesis using inv_remove assms(2) by blast
next
  case (read_step store r) then show ?thesis using getSettings_run[of store s] inv_same[OF assms(2)] by auto
next
  case (order_step now store i blacklisted oid at' r) then show ?thesis using inv_order assms(2) by blast
qed

lemma risk_run_inv: "(risk_step E P lc)\<^sup>*\<^sup>* (ps, s) (qs, t) \<Longrightarrow> risk_inv ps s \<Longrightarrow> risk_inv qs t"
proof (induction qs t rule: rtranclp_induct2)
  case (step u v u' v') then show ?case using risk_step_inv by blast
qed simp


section \<open>One customer for one phone\<close>

text \<open>
  What is asked of libphonenumber: a valid number is read from its E.164 form in every country, and that
  form is a plus sign and digits.
\<close>

definition parser_ok :: "phone_parser \<Rightarrow> bool" where
  "parser_ok P \<longleftrightarrow> (\<forall>d v x. P d v = Some x \<longrightarrow> pp_valid x \<longrightarrow>
     (\<exists>ds. pp_number x = CHR ''+'' # ds \<and> list_all is_digit ds) \<and>
     (\<forall>c. \<exists>y. P (Some c) (pp_number x) = Some y \<and> pp_valid y \<and> pp_number y = pp_number x))"

lemma digit_not_space: "is_digit c \<Longrightarrow> \<not> is_space c"
  by (auto simp: is_digit_def is_space_def)

lemma trim_trim: "js_trim (js_trim s) = js_trim s"
proof -
  have front: "dropWhile p (dropWhile p xs) = dropWhile p xs" for p and xs :: string by (induction xs) auto
  define a where "a = dropWhile is_space s"
  define b where "b = dropWhile is_space (rev a)"
  have "dropWhile is_space (rev b) = rev b"
  proof (cases "rev b")
    case (Cons c cs)
    have "\<exists>xs. rev a = xs @ b" unfolding b_def by (metis takeWhile_dropWhile_id)
    then obtain xs where "a = rev b @ rev xs" by (metis rev_append rev_rev_ident)
    then have "a = c # cs @ rev xs" using Cons by simp
    then have "\<not> is_space c" unfolding a_def by (metis hd_dropWhile list.discI list.sel(1))
    then show ?thesis using Cons by simp
  qed simp
  moreover have "dropWhile is_space b = b" unfolding b_def by (rule front)
  ultimately show ?thesis by (simp add: js_trim_def a_def b_def)
qed

lemma digits_trimmed: "list_all is_digit ds \<Longrightarrow> js_trim (CHR ''+'' # ds) = CHR ''+'' # ds"
proof -
  assume "list_all is_digit ds"
  then have none: "\<forall>c \<in> set (CHR ''+'' # ds). \<not> is_space c" using digit_not_space by (auto simp: list_all_iff is_space_def)
  have keep: "dropWhile is_space xs = xs" if "\<forall>c \<in> set xs. \<not> is_space c" for xs using that by (cases xs) auto
  have "dropWhile is_space (rev (CHR ''+'' # ds)) = rev (CHR ''+'' # ds)" by (rule keep) (use none in auto)
  moreover have "dropWhile is_space (CHR ''+'' # ds) = CHR ''+'' # ds" by (rule keep) (use none in auto)
  ultimately show ?thesis by (simp add: js_trim_def del: rev.simps dropWhile.simps)
qed

lemma or_null_trim: "or_null raw = Some value \<Longrightarrow> or_null (Some value) = Some value"
  using trim_trim by (auto simp: or_null_def split: option.splits if_splits)

lemma identity_again:
  assumes "parser_ok P" "customerPhoneIdentity E P raw country = Some ident"
  shows "map_option id_phone (customerPhoneIdentity E P (Some (id_phone ident)) country) = Some (id_phone ident) \<and>
    digits_of (id_phone ident) \<in> set (id_aliases ident)"
proof -
  obtain raw' where v: "or_null raw = Some raw'" using assms(2) by (cases "or_null raw") (auto simp: customerPhoneIdentity_def)
  note vv = or_null_trim[OF v]
  show ?thesis
  proof (cases "ident = verbatim raw'")
    case True
    then have "customerPhoneIdentity E P (Some raw') country = Some ident" using assms(2) v vv by (simp add: customerPhoneIdentity_def)
    then show ?thesis using True by (simp add: verbatim_def)
  next
    case False
    then obtain x where x: "parse_phone P (resolveCountryCode E country) raw' = Some x" "pp_valid x" "id_phone ident = pp_number x"
      "drop 1 (pp_number x) \<in> set (id_aliases ident)"
      using assms(2) v by (auto simp: customerPhoneIdentity_def split: if_splits option.splits)
    then obtain d w where "P d w = Some x" by (auto simp: parse_phone_def Let_def split: if_splits)
    then obtain ds where ds: "pp_number x = CHR ''+'' # ds" "list_all is_digit ds"
      and again': "\<forall>c. \<exists>y. P (Some c) (pp_number x) = Some y \<and> pp_valid y \<and> pp_number y = pp_number x"
      using assms(1) x(2) unfolding parser_ok_def by blast
    obtain y where y: "P (Some (resolveCountryCode E country)) (CHR ''+'' # ds) = Some y" "pp_valid y" "pp_number y = pp_number x"
      using again' ds by metis
    have n: "or_null (Some (CHR ''+'' # ds)) = Some (CHR ''+'' # ds)" using digits_trimmed[OF ds(2)] by (simp add: or_null_def)
    have chars: "list_all phone_char (CHR ''+'' # ds)" using ds(2) by (auto simp: phone_char_def list_all_iff)
    have "\<not> starts_with ''00'' (CHR ''+'' # ds)" by (simp add: starts_with_def)
    then have "parse_phone P (resolveCountryCode E country) (CHR ''+'' # ds) = Some y"
      using y by (simp add: parse_phone_def valid_phone_def)
    then have "map_option id_phone (customerPhoneIdentity E P (Some (CHR ''+'' # ds)) country) = Some (pp_number x)"
      using n chars y by (simp add: customerPhoneIdentity_def)
    moreover have "digits_of (CHR ''+'' # ds) = ds" using ds(2)
      by (simp add: digits_of_def is_digit_def[of "CHR ''+''"] filter_id_conv list_all_iff)
    ultimately show ?thesis using x ds by simp
  qed
qed

text \<open>Every row of a store is under the phone its own spelling stands for, and no two share one.\<close>

definition phones_clean :: "wa_env \<Rightarrow> phone_parser \<Rightarrow> 'a risk_db_scheme \<Rightarrow> bool" where
  "phones_clean E P s \<longleftrightarrow> distinct (map cu_id (customers s)) \<and> distinct (map (\<lambda>c. (cu_store c, cu_phone c)) (customers s)) \<and>
     (\<forall>c \<in> set (customers s). \<forall>row. find_store (cu_store c) s = Some row \<longrightarrow>
        map_option id_phone (customerPhoneIdentity E P (Some (cu_phone c)) (st_country row)) = Some (cu_phone c))"

lemma same_phone_clean:
  assumes "parser_ok P" "phones_clean E P s" "find_store store s = Some row"
    and "customerPhoneIdentity E P raw (st_country row) = Some ident"
  shows "same_phone E P store (st_country row) ident s = filter (\<lambda>c. cu_store c = store \<and> cu_phone c = id_phone ident) (customers s)"
  unfolding same_phone_def
proof (rule filter_cong[OF refl])
  fix c assume c: "c \<in> set (customers s)"
  have own: "map_option id_phone (customerPhoneIdentity E P (Some (cu_phone c)) (st_country row)) = Some (cu_phone c)" if "cu_store c = store"
    using assms(2,3) c that unfolding phones_clean_def by blast
  show "(cu_store c = store \<and> digits_of (cu_phone c) \<in> set (id_aliases ident) \<and>
      map_option id_phone (customerPhoneIdentity E P (Some (cu_phone c)) (st_country row)) = Some (id_phone ident)) =
      (cu_store c = store \<and> cu_phone c = id_phone ident)"
    using own identity_again[OF assms(1,4)] by auto
qed


section \<open>Examples\<close>

text \<open>A parser that only knows Moroccan numbers of nine digits after the prefix 0 or +212.\<close>

definition moroccan :: "string \<Rightarrow> parsed_phone option" where
  "moroccan n = (if length n = 9 \<and> list_all is_digit n then Some \<lparr>pp_valid = True, pp_number = ''+212'' @ n, pp_national = n,
     pp_formatted = ''0'' @ n\<rparr> else None)"

definition sample_parser :: phone_parser where
  "sample_parser d v = (let ds = filter (\<lambda>c. is_digit c \<or> c = CHR ''+'') v in
     if take 4 ds = ''+212'' then moroccan (drop 4 ds) else if take 1 ds = ''0'' \<and> d \<noteq> None then moroccan (drop 1 ds) else None)"

lemma sample_parser_ok: "parser_ok sample_parser"
proof -
  have number: "\<exists>n. moroccan n = Some x" if "sample_parser d v = Some x" for d v x
    using that unfolding sample_parser_def Let_def by (meson option.distinct(1))
  have shape: "length n = 9 \<and> list_all is_digit n" if "moroccan n = Some x" for n x
    using that unfolding moroccan_def by (meson option.distinct(1))
  have again': "sample_parser c (''+212'' @ n) = moroccan n" if "list_all is_digit n" for c n
  proof -
    have "filter (\<lambda>c. is_digit c \<or> c = CHR ''+'') (''+212'' @ n) = ''+212'' @ n"
      using that by (simp add: is_digit_def list_all_iff filter_id_conv)
    then show ?thesis by (simp add: sample_parser_def)
  qed
  show ?thesis unfolding parser_ok_def
  proof (intro allI impI conjI)
    fix d v x assume "sample_parser d v = Some x"
    then obtain n where n: "length n = 9" "list_all is_digit n" "moroccan n = Some x" using number shape by blast
    then have x: "pp_number x = ''+212'' @ n" "pp_valid x" by (simp_all add: moroccan_def) auto
    show "\<exists>ds. pp_number x = CHR ''+'' # ds \<and> list_all is_digit ds" using x n(2) by (simp add: is_digit_def)
    show "\<exists>y. sample_parser (Some c) (pp_number x) = Some y \<and> pp_valid y \<and> pp_number y = pp_number x" for c
      unfolding x(1) again'[OF n(2)] using n(3) x by simp
  qed
qed

definition sample_phones :: wa_env where
  "sample_phones = \<lparr>ev_decimal = half_up_lib 20, ev_enabled = True, ev_maxAgeHours = 0, ev_lowMessages = 0, ev_batch = 0,
     ev_phone = (\<lambda>_ _. None), ev_countries = [''MA''], ev_countryNamed = (\<lambda>_. None), ev_defaultCountry = None,
     ev_decrypts = (\<lambda>_ _. False)\<rparr>"

definition sample_shop :: store_row where
  "sample_shop = \<lparr>st_id = ''s'', st_owner = ''m'', st_currency = ''MAD'', st_ownerName = [], st_businessName = [], st_address = [],
     st_city = [], st_country = ''MA'', st_logo = None\<rparr>"

definition ali :: risk_customer where
  "ali = new_customer ''u'' ''s'' ''+212612345678''"

definition sample_risk :: risk_db where
  "sample_risk = (with_orders [])\<lparr>store_rows := [sample_shop], customers := [ali]\<rparr>"

definition spelt :: "string \<Rightarrow> customer_input" where
  "spelt phone = \<lparr>ni_phone = Some phone, ni_name = Some (Some ''Ali''), ni_address = None, ni_city = None\<rparr>"

lemma sample_identity:
  "map_option id_phone (customerPhoneIdentity sample_phones sample_parser (Some ''06 12-34.56 78'') ''MA'') = Some ''+212612345678''"
  by code_simp



end
