(* ===== verification/Spec2Isabelle.thy ===== *)
theory Spec2Isabelle
  imports Zom_Prelude Js_Calendar Decimal_Lib Inventory Order_Stock Order_Financial Order_Sync Shop_Pricing Packaging Shop_Cart Shop_Orders
    Shop_Returns Access Billing Zone_Calendar Salary Tenancy WhatsApp_Wallet WhatsApp_Dispatch WhatsApp_Accounts WhatsApp_Settlement WhatsApp_Runs WhatsApp_Call
    Rate_Limit Sign_In Duplicate_Orders Customer_Risk
begin

text \<open>
  A verification library for the back office of Zomaal, the NestJS service under \<open>src/src\<close> that
  Moroccan online sellers use to run stock, orders, cash on delivery, staff, subscriptions, WhatsApp
  messages to customers, the risk record of their customers and the supply shop. The service keeps its state in a PostgreSQL database through Prisma.

  \<^bold>\<open>How the code is represented.\<close> A component's tables are fields of an extensible record, one list
  of rows per table in insertion order; a component that uses the tables of another extends its
  record, so every operation works on one database. A service method is an action
  \<open>'s \<Rightarrow> (error + 'a) \<times> 's\<close> of the theory \<open>Zom_Prelude\<close>: it returns a value and the new state, or raises an
  HTTP or database exception (\<open>NotFound\<close>, \<open>BadRequest\<close>, \<open>Conflict\<close>, the Prisma errors). Every guard of the
  source is a \<open>require\<close>, every query a \<open>reading\<close>, every write a \<open>writing\<close>; \<open>transaction\<close> gives the old
  state back when its body raises. A serializable transaction, a row lock and an advisory lock are
  represented by the atomicity of that step; what the code does about the aborts of the database
  is modelled: the retry loops take the list of aborted attempts as an argument.
  Identifiers are strings, times are integers of milliseconds since 1970 (an explicit \<open>now\<close>),
  money is a rational number computed by an abstract decimal library. Fresh identifiers and the
  clock are arguments. Messages of the exceptions are those of the source, in ASCII.

  \<^bold>\<open>Parameters\<close> (code outside the repository, with its documented behaviour as hypotheses):
  decimal.js behind \<open>Prisma.Decimal\<close> (locale \<open>decimal_laws\<close>, interpreted on half-up rounding at 20 and
  60 digits); \<open>Intl.DateTimeFormat\<close> (the function \<open>intl\<close> of \<open>Zone_Calendar\<close> and \<open>Salary\<close>); the Stripe client;
  bcrypt, SHA-256, the HMAC of a password and the signing of tokens (the record \<open>auth_env\<close>); libphonenumber,
  AES decryption and the answers of Meta and Twilio (arguments of the calls that wait for them);
  \<open>localeCompare\<close>; the exchange rates fetched over HTTP.

  \<^bold>\<open>The theories.\<close>

  \<^item> \<open>Zom_Prelude\<close>: exceptions, actions, transactions, retries, and the calculus \<open>preserves\<close> that carries
    invariants through them; the locale \<open>keyed_op\<close> of an operation replayed under an idempotency key.
  \<^item> \<open>Js_Calendar\<close>: the UTC calendar of \<open>Date\<close>, as ECMAScript defines it, with its round trips.
  \<^item> \<open>Decimal_Lib\<close>: the decimal library and the persisted-money guard (\<open>common/persisted-money.ts\<close>).
  \<^item> \<open>Inventory\<close>: \<open>warehouse/inventory-balance.util.ts\<close>, \<open>warehouse/inventory.service.ts\<close>. The buckets on hand,
    reserved and damaged of an item and the movements that explain them. The ledger invariant
    \<open>inv_ok\<close> (unique keys, valid balances, each bucket the sum of its movements), the exact effect
    of a change, its replay and its failure (C1 to C3).
  \<^item> \<open>Order_Stock\<close>: \<open>ecommerce/order-stock.util.ts\<close>, \<open>order-stock.service.ts\<close>. What a line consumes and how it is
    reserved, delivered, released, and reconciled when it is returned; the locale \<open>status_loop\<close> for
    the three loops over the lines (C7 to C9, C11, C12); \<open>expandOrderLine_quantities\<close> and \<open>deliver_line_deducts\<close>
    are its units and their effect.
  \<^item> \<open>Order_Financial\<close>, \<open>Order_Sync\<close>: \<open>ecommerce/order-status.util.ts\<close>, \<open>cod-status.util.ts\<close>,
    \<open>ecommerce-order-financial.service.ts\<close>, \<open>prisma/order-transaction.ts\<close>, \<open>warehouse/packaging-cost.util.ts\<close> and the
    converter of \<open>currency\<close>. The ledger of recognitions, reversals and losses, and what a refresh
    from the carrier makes of it (C13, C17).
  \<^item> \<open>Shop_Pricing\<close>: \<open>zomaal-shop/shop-pricing.util.ts\<close>, \<open>shop-cost-allocation.util.ts\<close> (C20, C21).
  \<^item> \<open>Packaging\<close>: \<open>warehouse/packaging.service.ts\<close> (C22), with its invariant \<open>packaging_keeps_ledger\<close>.
  \<^item> \<open>Shop_Cart\<close>: \<open>zomaal-shop/shop-settings.service.ts\<close>, \<open>address.service.ts\<close>, \<open>cart.service.ts\<close>,
    \<open>checkout.service.ts\<close>: from the catalogue to a placed order (C25, C26), with the invariant \<open>one_default_address\<close>.
  \<^item> \<open>Shop_Orders\<close>, \<open>Shop_Returns\<close>: \<open>zomaal-shop/shop-orders.service.ts\<close>, \<open>purchase-expense.util.ts\<close> and the options of
    \<open>super-admin/shop/shop.service.ts\<close>. The order life cycle as an inductive step relation with reachable
    states, the books of a delivery, and what a cancellation gives back (C27, C28, C30 to C33).
  \<^item> \<open>Billing\<close>: \<open>billing/subscription.service.ts\<close>, \<open>plans.service.ts\<close>, \<open>subscription-status.util.ts\<close>, \<open>plan-features.ts\<close>,
    \<open>subscription-access.interceptor.ts\<close> (C35, C36).
  \<^item> \<open>Access\<close>: \<open>access/permissions.ts\<close>, \<open>permission.guard.ts\<close>, \<open>store-access.service.ts\<close> (C37).
  \<^item> \<open>Zone_Calendar\<close>: \<open>common/calendar-date.util.ts\<close> (C38).
  \<^item> \<open>Salary\<close>: \<open>staff/staff-salary.service.ts\<close>, \<open>salary-payment-status.util.ts\<close> (C39, C40).
  \<^item> \<open>Tenancy\<close>: \<open>stores/stores.service.ts\<close>, \<open>roles/roles.service.ts\<close>, \<open>staff/staff.service.ts\<close>. Well-formed tenants, and the
    isolation of one owner's rows from another's operations (C15, C29).
  \<^item> \<open>WhatsApp_Wallet\<close>: \<open>whatsapp/whatsapp-balance.service.ts\<close> and the alerts of
    \<open>notifications/notifications.service.ts\<close>: the prepaid balance of a store as a list of charges, refunds and credits.
  \<^item> \<open>WhatsApp_Dispatch\<close>: \<open>whatsapp/whatsapp-trigger.service.ts\<close>, \<open>whatsapp-dispatch.service.ts\<close>, \<open>whatsapp-webhook.service.ts\<close>,
    \<open>whatsapp-phone.util.ts\<close>, \<open>whatsapp.constants.ts\<close> and the errors of \<open>meta-whatsapp-api.service.ts\<close>. A call of \<open>processOne\<close> is a worker that
    takes one \<open>turn\<close> per query, so that calls, recoveries and reports interleave between the queries.
  \<^item> \<open>WhatsApp_Accounts\<close>, \<open>WhatsApp_Settlement\<close>, \<open>WhatsApp_Runs\<close>, \<open>WhatsApp_Call\<close>: what a message has been charged and
    refunded at every point of a worker; the runs of workers, crashes, recoveries, reports and
    administration as a step relation; the balance over all runs and over the calm ones; a whole call
    on one message (C4, C16, C19). A run is calm when no refund fails, no process dies between the two
    writes of a report, recovery takes only rows that no live call works on, and the reports on
    one message come one at a time; \<open>late_call_sends_free\<close> shows what happens otherwise.
  \<^item> \<open>Rate_Limit\<close>: \<open>redis/rate-limit.service.ts\<close>. The locale \<open>window_counter\<close> of a counter with a window, and its
    two interpretations, on the table and on Redis (C5).
  \<^item> \<open>Sign_In\<close>: \<open>auth/auth.service.ts\<close>, \<open>auth-tokens.service.ts\<close>, \<open>refresh-token-hash.util.ts\<close>, \<open>otp-countries.service.ts\<close>,
    \<open>strategies/jwt.strategy.ts\<close>, \<open>providers/twilio-otp.provider.ts\<close> and the account part of \<open>users/users.service.ts\<close>. Sign-in
    and account calls cut between check and write, as a step relation with a log of what happened to each
    user; the rows refine the log (C14, C18, C34).
  \<^item> \<open>Duplicate_Orders\<close>: \<open>customers/duplicate-orders.util.ts\<close>, \<open>duplicate-orders.service.ts\<close>. How the orders of a customer
    are grouped, and what the merchant does with a group (C6, C10). \<open>shown_group_not_found\<close> shows a group of
    the list that the keep request does not find.
  \<^item> \<open>Customer_Risk\<close>: \<open>customers/customer-risk.util.ts\<close>, \<open>customer-risk.service.ts\<close>, \<open>customer-phone.util.ts\<close> and the rules of
    \<open>customers.service.ts\<close>. The counters, limits and blacklist of a customer as a step relation in which a call
    that counts an outcome judges it in a later step (C23), and his identity by phone (C24).

  \<^bold>\<open>How the parts meet.\<close> The order stock, the packaging credit and the deliveries of the shop all
  write the tables of \<open>Inventory\<close> through its operations and rest on its invariant. A synchronisation
  of an order moves stock (\<open>Order_Stock\<close>) and money (\<open>Order_Financial\<close>) in one transaction. A delivered
  shop order writes expenses and credits \<open>Packaging\<close>. A new store of \<open>Tenancy\<close> starts a trial of
  \<open>Billing\<close>, whose interceptor reads the owner that \<open>Access\<close> resolves; a new staff member gets a
  profile of \<open>Salary\<close>, whose payments write the same expenses. A status of a courier queues a message of
  \<open>WhatsApp_Dispatch\<close>, whose worker reads the shipments of \<open>Order_Financial\<close> again before it sends and charges
  the balance of \<open>WhatsApp_Wallet\<close> in the transaction that raises and resolves the alerts. Every call of
  \<open>Sign_In\<close> that takes a code or a password counts with \<open>Rate_Limit\<close> first. A new order is looked up by \<open>Duplicate_Orders\<close> when
  \<open>Customer_Risk\<close> records it; both raise and resolve the alerts of \<open>WhatsApp_Wallet\<close>, and the outcome of a
  shipment finds its store through \<open>Access\<close>.

  \<^bold>\<open>Bounds.\<close> The bounds are those of the code, none is added by the model: three attempts of an
  inventory writer and five of an order transaction, 366 due dates and 500 profiles per run of the
  salary scheduler, 29 turns of the search for the first instant of a day (the interval of the
  search is under \<open>2 ^ 29\<close> milliseconds, so the loop of the code ends within them), three attempts of a
  WhatsApp message, 500 messages per run, 200 stale rows per recovery, 50 accounts per purge. A
  worker of \<open>processOne\<close> has no loop: eleven turns end every call, which \<open>WhatsApp_Call\<close> proves. Loops
  over rows are structural recursion and always end. The numbers of rows and
  of days that the customer pages look at (1000, 50, seven days, two days) are those of the code.

  \<^bold>\<open>Not modelled.\<close> HTTP transport, controllers, DTO decorators, OpenAPI and Prisma migrations; the
  clients of Shopify, YouCan, Lightfunnels, of the couriers and of the advertising networks, which
  map external JSON; the Stripe SDK and its webhooks; the connection of a WhatsApp number and its
  templates at Meta, and the decoding and signature of reports; the profile view and the list of
  countries; the search, paging and order history of the customer pages; the desk that records the
  condition of returned parcels, over the operations of \<open>Order_Stock\<close> that it calls; images, PDF labels and stored files; the dashboards and reports that only query; the browser
  pages and the one-off scripts. Response fields that copy a row are left out where a list or a
  view is modelled.
\<close>

end
